(* ===== verification/CK_Prelude.thy ===== *)
theory CK_Prelude
  imports Main "HOL-Library.Word"
begin

unbundle bit_operations_syntax

text \<open>
  Shared vocabulary of the development: the machine types of \<^verbatim>\<open>Projects/MainServer/type.h\<close>,
  faults as values, the \<open>result\<close> type with its bind, checked signed 32-bit arithmetic, and the
  generic lemmas on lists, maps and words that the components share.
\<close>

section \<open>Machine types\<close>

text \<open>
  \<^verbatim>\<open>type.h\<close> fixes the widths. A signed and an unsigned integer of the same width are the same
  word; \<open>sint\<close> and \<open>uint\<close> choose the reading. A \<open>char\<close> is a byte.
\<close>

type_synonym u8 = "8 word"
type_synonym u16 = "16 word"
type_synonym u32 = "32 word"
type_synonym u64 = "64 word"

type_synonym int32 = "32 word"
type_synonym uint32 = "32 word"

type_synonym byte = "8 word"
type_synonym bytes = "8 word list"

section \<open>Faults and results\<close>

text \<open>
  Where the C++ code has undefined behaviour the model has a fault: an access outside a buffer or
  a vector, a null pointer that is dereferenced, a block that is used or freed after it was freed,
  a signed addition that overflows, a length that is negative where the callee documents a size, a
  function that ends without the value it owes, a recursion that does not end; and a \<open>GOOGLE_CHECK\<close> or an
  \<open>assert\<close> that fails, which ends the program.
\<close>

datatype fault =
    OutOfBounds
  | NullDeref
  | UseAfterFree
  | SignedOverflow
  | NegativeLength
  | LengthBeyondBuffer
  | EmptyQueue
  | MissingReturn
  | CheckFailed
  | StackOverflow

type_synonym 'a result = "fault + 'a"

fun bind_result :: "'e + 'a \<Rightarrow> ('a \<Rightarrow> 'e + 'b) \<Rightarrow> 'e + 'b" where
  "bind_result (Inl e) f = Inl e"
| "bind_result (Inr a) f = f a"

lemma bind_result_assoc:
  "bind_result (bind_result m f) g = bind_result m (\<lambda>x. bind_result (f x) g)"
  by (cases m) simp_all

lemma bind_result_Inr_iff:
  "bind_result m f = Inr b \<longleftrightarrow> (\<exists>a. m = Inr a \<and> f a = Inr b)"
  by (cases m) simp_all

lemma bind_result_Inl_iff:
  "bind_result m f = Inl e \<longleftrightarrow> m = Inl e \<or> (\<exists>a. m = Inr a \<and> f a = Inl e)"
  by (cases m) auto

lemma bind_result_cong [fundef_cong]:
  "m = m' \<Longrightarrow> (\<And>a. m' = Inr a \<Longrightarrow> f a = g a) \<Longrightarrow> bind_result m f = bind_result m' g"
  by (cases m') auto

fun is_ok :: "'e + 'a \<Rightarrow> bool" where
  "is_ok (Inl e) = False"
| "is_ok (Inr a) = True"

lemma is_ok_iff: "is_ok r \<longleftrightarrow> (\<exists>a. r = Inr a)"
  by (cases r) simp_all

section \<open>Signed 32-bit arithmetic\<close>

text \<open>
  Item ids and counts are C++ \<open>int\<close>. The model keeps their value as an \<open>int\<close> together with
  the range check, because a signed overflow is undefined behaviour and not a wrap-around.
\<close>

definition int32_min :: int where "int32_min = - 2147483648"
definition int32_max :: int where "int32_max = 2147483647"

definition in_int32 :: "int \<Rightarrow> bool" where
  "in_int32 n \<longleftrightarrow> int32_min \<le> n \<and> n \<le> int32_max"

definition add_int32 :: "int \<Rightarrow> int \<Rightarrow> int result" where
  "add_int32 a b = (if in_int32 (a + b) then Inr (a + b) else Inl SignedOverflow)"

definition sub_int32 :: "int \<Rightarrow> int \<Rightarrow> int result" where
  "sub_int32 a b = (if in_int32 (a - b) then Inr (a - b) else Inl SignedOverflow)"

definition mul_int32 :: "int \<Rightarrow> int \<Rightarrow> int result" where
  "mul_int32 a b = (if in_int32 (a * b) then Inr (a * b) else Inl SignedOverflow)"

lemmas int32_bounds = in_int32_def int32_min_def int32_max_def

lemma add_int32_Inr_iff: "add_int32 a b = Inr c \<longleftrightarrow> c = a + b \<and> in_int32 c"
  by (auto simp: add_int32_def)

lemma sub_int32_Inr_iff: "sub_int32 a b = Inr c \<longleftrightarrow> c = a - b \<and> in_int32 c"
  by (auto simp: sub_int32_def)

lemma in_int32_sint [simp]: "in_int32 (sint (w :: 32 word))"
  using sint_greater_eq [of w] sint_less [of w] by (simp add: int32_bounds)

lemma unat_eq_nat_sint:
  "0 \<le> sint (w :: 32 word) \<Longrightarrow> unat w = nat (sint w)"
  using sint_less [of w] by (simp add: unat_eq_nat_uint uint_sint [of w] take_bit_int_eq_self)

lemma uint_of_sint:
  fixes v :: "32 word"
  shows "uint v = (if 0 \<le> sint v then sint v else sint v + 4294967296)"
proof (cases "0 \<le> sint v")
  case True
  then show ?thesis
    using sint_less [of v] uint_sint [of v] by (simp add: take_bit_int_eq_self)
next
  case False
  have "uint v = sint v mod 4294967296"
    using uint_sint [of v] by (simp add: take_bit_eq_mod)
  also have "\<dots> = (sint v + 4294967296) mod 4294967296" by simp
  also have "\<dots> = sint v + 4294967296"
    using False sint_greater_eq [of v] by (intro mod_pos_pos_trivial) simp_all
  finally show ?thesis using False by simp
qed

lemma sint_nonneg_iff: "0 \<le> sint (v :: int32) \<longleftrightarrow> unat v < 2 ^ 31"
proof -
  have "unat v < 2 ^ 31 \<longleftrightarrow> int (unat v) < int (2 ^ 31)" by (simp only: of_nat_less_iff)
  then have "unat v < 2 ^ 31 \<longleftrightarrow> uint v < 2 ^ 31" by (simp only: of_nat_unat) simp
  then show ?thesis
    using uint_of_sint [of v] sint_less [of v] sint_greater_eq [of v] by (simp split: if_splits)
qed

lemma sint_of_nat_small: "n < 2147483648 \<Longrightarrow> sint (of_nat n :: 32 word) = int n"
proof -
  assume n: "n < 2147483648"
  have "sint (word_of_int (int n) :: 32 word) = signed_take_bit 31 (int n)"
    unfolding sint_sbintrunc' by simp
  also have "\<dots> = int n" using n by (simp add: signed_take_bit_int_eq_self)
  finally show ?thesis by simp
qed

lemma unat_of_nat_u32: "n < 2 ^ 32 \<Longrightarrow> unat (of_nat n :: u32) = n"
  by (simp only: unsigned_of_nat) (simp add: take_bit_nat_eq_self)

section \<open>Vectors with checked indices\<close>

text \<open>
  \<open>std::vector::operator[]\<close> and plain arrays do not check the index: out of range is
  undefined behaviour, a fault here.
\<close>

definition vec_get :: "'a list \<Rightarrow> int \<Rightarrow> 'a result" where
  "vec_get xs i = (if 0 \<le> i \<and> i < int (length xs) then Inr (xs ! nat i) else Inl OutOfBounds)"

definition vec_set :: "'a list \<Rightarrow> int \<Rightarrow> 'a \<Rightarrow> 'a list result" where
  "vec_set xs i x = (if 0 \<le> i \<and> i < int (length xs) then Inr (xs[nat i := x]) else Inl OutOfBounds)"

lemma vec_get_Inr_iff:
  "vec_get xs i = Inr x \<longleftrightarrow> 0 \<le> i \<and> i < int (length xs) \<and> x = xs ! nat i"
  by (auto simp: vec_get_def)

lemma vec_set_Inr_iff:
  "vec_set xs i x = Inr ys \<longleftrightarrow> 0 \<le> i \<and> i < int (length xs) \<and> ys = xs[nat i := x]"
  by (auto simp: vec_set_def)

lemma vec_get_of_nat [simp]: "n < length xs \<Longrightarrow> vec_get xs (int n) = Inr (xs ! n)"
  by (simp add: vec_get_def)

section \<open>Copying blocks of memory\<close>

text \<open>
  \<open>memcpy(dst + at, src + from, n)\<close> between two buffers of known capacity: a fault when
  either range leaves its buffer.
\<close>

definition copy_into :: "'a list \<Rightarrow> nat \<Rightarrow> 'a list \<Rightarrow> nat \<Rightarrow> nat \<Rightarrow> 'a list result" where
  "copy_into dst at src from n =
     (if at + n \<le> length dst \<and> from + n \<le> length src
      then Inr (take at dst @ take n (drop from src) @ drop (at + n) dst)
      else Inl OutOfBounds)"

lemma copy_into_Inr_iff:
  "copy_into dst at src from n = Inr out \<longleftrightarrow>
     at + n \<le> length dst \<and> from + n \<le> length src \<and>
     out = take at dst @ take n (drop from src) @ drop (at + n) dst"
  by (auto simp: copy_into_def)

lemma length_copy_into: "copy_into dst at src from n = Inr out \<Longrightarrow> length out = length dst"
  by (auto simp: copy_into_Inr_iff)

lemma take_copy_into:
  "copy_into dst at src from n = Inr out \<Longrightarrow>
     take (at + n) out = take at dst @ take n (drop from src)"
  by (auto simp: copy_into_Inr_iff)

section \<open>Strings and bytes\<close>

text \<open>A \<open>std::string\<close> is a sequence of bytes; text fields are kept as \<open>string\<close>, one \<open>char\<close> per byte.\<close>

definition bytes_of_string :: "string \<Rightarrow> bytes" where
  "bytes_of_string s = map (\<lambda>c. of_nat (of_char c)) s"

definition string_of_bytes :: "bytes \<Rightarrow> string" where
  "string_of_bytes bs = map (\<lambda>b. char_of (unat b)) bs"

lemma length_bytes_of_string [simp]: "length (bytes_of_string s) = length s"
  by (simp add: bytes_of_string_def)

lemma string_of_bytes_of_string [simp]: "string_of_bytes (bytes_of_string s) = s"
proof -
  have "unat (of_nat (of_char c) :: byte) = of_char c" for c
    by (simp only: unat_of_nat) simp
  then show ?thesis by (simp add: string_of_bytes_def bytes_of_string_def comp_def)
qed

section \<open>Generic lemmas\<close>

lemma take_drop_split: "i \<le> j \<Longrightarrow> take (j - i) (drop i xs) @ drop j xs = drop i xs"
  by (metis add.commute append_take_drop_id drop_drop le_add_diff_inverse)

lemma sum_list_map_remove1_nat:
  "x \<in> set xs \<Longrightarrow> sum_list (map f xs) = f x + sum_list (map f (remove1 x xs))"
  for f :: "'a \<Rightarrow> int"
  by (induction xs) auto

lemma find_Some_in: "List.find P xs = Some x \<Longrightarrow> P x \<and> x \<in> set xs"
  by (induction xs) (auto split: if_splits)

lemma map_of_map_key:
  "map_of (map (\<lambda>x. (f x, x)) xs) k = List.find (\<lambda>x. f x = k) xs"
  by (induction xs) auto

end
