(* ===== verification/Fifo.thy ===== *)
theory Fifo
  imports CK_Prelude
begin

text \<open>
  The contract of the program's queues: the packet queue of a user, the global packet and system
  queues of the packet manager, the send queue of a client, the task queues of the Redis manager.
  A provider pushes and pops, with faults as values, and names the list that its state stands for;
  the client's lemma is that any sequence of operations behaves as on that list, so that nothing is
  lost, duplicated or reordered.
\<close>

datatype 'a queue_op = Push 'a | Pop

fun run_queue ::
    "('a \<Rightarrow> 's \<Rightarrow> 's result) \<Rightarrow> ('s \<Rightarrow> ('b option \<times> 's) result) \<Rightarrow> 'a queue_op list \<Rightarrow> 's \<Rightarrow>
     ('b option list \<times> 's) result" where
  "run_queue push pop [] s = Inr ([], s)"
| "run_queue push pop (Push x # ops) s = bind_result (push x s) (run_queue push pop ops)"
| "run_queue push pop (Pop # ops) s =
     bind_result (pop s) (\<lambda>(r, s'). bind_result (run_queue push pop ops s') (\<lambda>(rs, s''). Inr (r # rs, s'')))"

text \<open>The same operations on a list.\<close>

fun run_list :: "('a \<Rightarrow> 'b) \<Rightarrow> 'a queue_op list \<Rightarrow> 'b list \<Rightarrow> 'b option list \<times> 'b list" where
  "run_list f [] q = ([], q)"
| "run_list f (Push x # ops) q = run_list f ops (q @ [f x])"
| "run_list f (Pop # ops) q =
     (case q of
        [] \<Rightarrow> (let (rs, q') = run_list f ops [] in (None # rs, q'))
      | y # ys \<Rightarrow> (let (rs, q') = run_list f ops ys in (Some y # rs, q')))"

fun pushed :: "'a queue_op list \<Rightarrow> 'a list" where
  "pushed [] = []"
| "pushed (Push x # ops) = x # pushed ops"
| "pushed (Pop # ops) = pushed ops"

definition answered :: "'b option list \<Rightarrow> 'b list" where
  "answered rs = List.map_filter id rs"

lemma answered_simps [simp]: "answered [] = []" "answered (None # rs) = answered rs"
  "answered (Some y # rs) = y # answered rs"
  by (simp_all add: answered_def List.map_filter_def)

text \<open>What came out, followed by what is left, is what was there followed by what went in.\<close>

lemma run_list_conserves:
  "answered (fst (run_list f ops q)) @ snd (run_list f ops q) = q @ map f (pushed ops)"
  by (induction f ops q rule: run_list.induct) (auto split: prod.splits list.splits)

locale fifo =
  fixes push :: "'a \<Rightarrow> 's \<Rightarrow> 's result"
    and pop :: "'s \<Rightarrow> ('b option \<times> 's) result"
    and contents :: "'s \<Rightarrow> 'b list"
    and delivered :: "'a \<Rightarrow> 'b"
    and ok :: "'s \<Rightarrow> bool"
    and accepts :: "'a \<Rightarrow> 's \<Rightarrow> bool"
  assumes push_law: "ok s \<Longrightarrow> accepts x s \<Longrightarrow>
      \<exists>s'. push x s = Inr s' \<and> ok s' \<and> contents s' = contents s @ [delivered x] \<and>
           (\<forall>y. accepts y s \<longrightarrow> accepts y s')"
    and pop_empty: "ok s \<Longrightarrow> contents s = [] \<Longrightarrow> pop s = Inr (None, s)"
    and pop_next: "ok s \<Longrightarrow> contents s = y # ys \<Longrightarrow>
      \<exists>s'. pop s = Inr (Some y, s') \<and> ok s' \<and> contents s' = ys \<and> (\<forall>x. accepts x s \<longrightarrow> accepts x s')"
begin

lemma run_refines:
  assumes "ok s" and "\<forall>x \<in> set (pushed ops). accepts x s"
  shows "\<exists>s'. run_queue push pop ops s = Inr (fst (run_list delivered ops (contents s)), s') \<and>
     ok s' \<and> contents s' = snd (run_list delivered ops (contents s))"
  using assms
proof (induction ops arbitrary: s)
  case Nil
  then show ?case by simp
next
  case (Cons oper ops)
  show ?case
  proof (cases oper)
    case (Push x)
    from push_law [OF Cons.prems(1), of x] Cons.prems(2) Push obtain s1 where
      s1: "push x s = Inr s1" "ok s1" "contents s1 = contents s @ [delivered x]"
      "\<forall>y. accepts y s \<longrightarrow> accepts y s1" by auto
    with Cons.IH [OF s1(2)] Cons.prems(2) Push show ?thesis by auto
  next
    case Pop
    show ?thesis
    proof (cases "contents s")
      case Nil
      with Cons.IH [OF Cons.prems(1)] Cons.prems Pop pop_empty [OF Cons.prems(1) Nil] show ?thesis
        by (auto split: prod.splits)
    next
      case (Cons y ys)
      from pop_next [OF Cons.prems(1) Cons] obtain s1 where
        s1: "pop s = Inr (Some y, s1)" "ok s1" "contents s1 = ys" "\<forall>x. accepts x s \<longrightarrow> accepts x s1"
        by blast
      with Cons.IH [OF s1(2)] Cons.prems(2) Pop Cons show ?thesis
        by (auto split: prod.splits)
    qed
  qed
qed

lemma run_conserves:
  assumes "ok s" and "\<forall>x \<in> set (pushed ops). accepts x s"
    and "run_queue push pop ops s = Inr (rs, s')"
  shows "answered rs @ contents s' = contents s @ map delivered (pushed ops)"
  using run_refines [OF assms(1,2)] run_list_conserves [of delivered ops "contents s"] assms(3) by auto

end

end
