(* ===== verification/Wire_Format.thy ===== *)
theory Wire_Format
  imports CK_Prelude
begin

unbundle bit_operations_syntax

text \<open>
  The inline part of the protobuf wire format that the generated packet classes use
  (\<^verbatim>\<open>io/coded_stream.h\<close>, \<^verbatim>\<open>wire_format_lite.h\<close>, \<^verbatim>\<open>parse_context.h\<close> under
  \<^verbatim>\<open>CppCommon/include/google/protobuf\<close>): varints, tags, sizes, strings. Output is modelled as
  the bytes written at the target pointer, input as the rest of a flat buffer. The out-of-line
  parts of the library are not in the repository; they are the fields of \<open>pb_lib\<close>, and
  \<open>pb_lib_ok\<close> in \<^verbatim>\<open>Wire_Codec\<close> states what the inline code relies on.
\<close>

section \<open>Writing varints\<close>

text \<open>
  \<open>EpsCopyOutputStream::UnsafeVarint\<close>: seven bits per byte, the continuation bit set in all but
  the last. The code unrolls the first two rounds. It is a template over the unsigned type; a
  \<open>uint32_t\<close> is written through its value.
\<close>

function UnsafeVarint :: "u64 \<Rightarrow> bytes" where
  "UnsafeVarint value =
     (if value < 0x80 then [ucast value]
      else (ucast value OR 0x80) # UnsafeVarint (drop_bit 7 value))"
  by pat_completeness auto

lemma unat_drop_bit_7: "unat (drop_bit 7 v) = unat v div 128" for v :: u64
  by (simp only: unat_drop_bit_eq, simp only: drop_bit_eq_div, simp)

termination UnsafeVarint
  by (relation "measure unat") (auto simp: unat_drop_bit_7 word_less_nat_alt)

declare UnsafeVarint.simps [simp del]

definition WriteVarint32ToArray :: "u32 \<Rightarrow> bytes" where
  "WriteVarint32ToArray value = UnsafeVarint (ucast value)"

definition WriteVarint64ToArray :: "u64 \<Rightarrow> bytes" where
  "WriteVarint64ToArray value = UnsafeVarint value"

definition WriteVarint32SignExtendedToArray :: "int32 \<Rightarrow> bytes" where
  "WriteVarint32SignExtendedToArray value = WriteVarint64ToArray (scast value)"

text \<open>\<open>UnsafeWriteSize\<close> is the same loop with the test first.\<close>

function UnsafeWriteSize :: "u32 \<Rightarrow> bytes" where
  "UnsafeWriteSize value =
     (if 0x80 \<le> value then ucast (value OR 0x80) # UnsafeWriteSize (drop_bit 7 value)
      else [ucast value])"
  by pat_completeness auto

lemma unat_drop_bit_7_32: "unat (drop_bit 7 v) = unat v div 128" for v :: u32
  by (simp only: unat_drop_bit_eq, simp only: drop_bit_eq_div, simp)

termination UnsafeWriteSize
  by (relation "measure unat") (auto simp: unat_drop_bit_7_32 word_le_nat_alt)

declare UnsafeWriteSize.simps [simp del]

section \<open>What a varint means\<close>

text \<open>The reference decoder: little-endian base 128, the top bit of a byte says that more follows.\<close>

fun varint_decode :: "bytes \<Rightarrow> (nat \<times> bytes) option" where
  "varint_decode [] = None"
| "varint_decode (b # bs) =
     (if unat b < 128 then Some (unat b, bs)
      else case varint_decode bs of
             None \<Rightarrow> None
           | Some (n, r) \<Rightarrow> Some (unat b - 128 + 128 * n, r))"

lemma unat_ucast_byte: "unat (ucast v :: byte) = unat v mod 256" for v :: u64
  by (simp add: unsigned_ucast_eq take_bit_eq_mod)

lemma unat_ucast_byte32: "unat (ucast v :: byte) = unat v mod 256" for v :: u32
  by (simp add: unsigned_ucast_eq take_bit_eq_mod)

lemma byte_or_0x80_all: "\<forall>n \<in> set [0..<256]. unat ((of_nat n :: byte) OR 0x80) = n mod 128 + 128"
  by code_simp

lemma unat_or_0x80: "unat (b OR 0x80) = unat b mod 128 + 128" for b :: byte
proof -
  have "unat b < 2 ^ LENGTH(8)" by (rule unsigned_less)
  then have "unat b \<in> set [0..<256]" by simp
  with byte_or_0x80_all have "unat ((of_nat (unat b) :: byte) OR 0x80) = unat b mod 128 + 128" by blast
  then show ?thesis by simp
qed

lemma UnsafeVarint_last: "unat v < 128 \<Longrightarrow> UnsafeVarint v = [ucast v]"
  by (subst UnsafeVarint.simps) (simp add: word_less_nat_alt)

lemma UnsafeVarint_more: "128 \<le> unat v \<Longrightarrow> UnsafeVarint v = (ucast v OR 0x80) # UnsafeVarint (drop_bit 7 v)"
  by (subst UnsafeVarint.simps) (simp add: word_less_nat_alt)

lemma varint_induct [case_names last more]:
  assumes "\<And>v :: u64. unat v < 128 \<Longrightarrow> P v"
    and "\<And>v. 128 \<le> unat v \<Longrightarrow> P (drop_bit 7 v) \<Longrightarrow> P v"
  shows "P v"
proof (induction v rule: measure_induct_rule [where f = unat])
  case (less v)
  then show ?case
    using assms(1) [of v] assms(2) [of v] by (cases "unat v < 128") (simp_all add: unat_drop_bit_7)
qed

lemma varint_decode_UnsafeVarint: "varint_decode (UnsafeVarint v @ r) = Some (unat v, r)"
proof (induction v rule: varint_induct)
  case (last v)
  then show ?case by (simp add: UnsafeVarint_last unat_ucast_byte)
next
  case (more v)
  have "unat v mod 256 mod 128 = unat v mod 128" by (simp add: mod_mod_cancel)
  with more show ?case
    by (simp add: UnsafeVarint_more unat_or_0x80 unat_ucast_byte unat_drop_bit_7 mult_div_mod_eq)
qed

lemma UnsafeVarint_not_Nil [simp]: "UnsafeVarint v \<noteq> []"
  by (subst UnsafeVarint.simps) simp

lemma ucast_ucast_byte: "ucast (ucast (v :: u32) :: u64) = (ucast v :: byte)"
  by (rule bit_word_eqI) (auto simp: bit_simps)

lemma UnsafeWriteSize_eq: "UnsafeWriteSize v = UnsafeVarint (ucast v)"
proof (induction v rule: measure_induct_rule [where f = unat])
  case (less v)
  have "unat v < 2 ^ LENGTH(32)" by (rule unsigned_less)
  then have u: "unat (ucast v :: u64) = unat v"
    by (simp add: unsigned_ucast_eq take_bit_nat_eq_self)
  show ?case
  proof (cases "unat v < 128")
    case True
    then show ?thesis
      by (subst UnsafeWriteSize.simps)
        (simp add: word_le_nat_alt UnsafeVarint_last u ucast_ucast_byte)
  next
    case False
    then have step: "UnsafeWriteSize v = ucast (v OR 0x80) # UnsafeWriteSize (drop_bit 7 v)"
      by (subst UnsafeWriteSize.simps) (simp add: word_le_nat_alt)
    have "unat (drop_bit 7 v) < unat v" using False unfolding unat_drop_bit_7_32 by simp
    then have rec: "UnsafeWriteSize (drop_bit 7 v) = UnsafeVarint (ucast (drop_bit 7 v))"
      by (rule less)
    have dr: "ucast (drop_bit 7 v) = drop_bit 7 (ucast v :: u64)"
      by (rule bit_word_eqI) (auto simp: bit_simps dest: bit_imp_le_length)
    have "ucast (v OR 0x80) = (ucast (ucast v :: u64) OR 0x80 :: byte)"
      by (rule bit_word_eqI) (auto simp: bit_simps)
    with False u show ?thesis
      by (simp only: step rec dr UnsafeVarint_more not_less)
  qed
qed

section \<open>Sizes\<close>

text \<open>
  \<open>Bits::Log2FloorNonZero_Portable\<close> of \<^verbatim>\<open>stubs/port.h\<close>, a binary search over the shifts 16, 8, 4, 2, 1;
  the intrinsics that a compiler substitutes for it compute the same.
\<close>

fun log2_scan :: "nat list \<Rightarrow> u32 \<Rightarrow> nat \<Rightarrow> nat" where
  "log2_scan [] v log = log"
| "log2_scan (shift # shifts) v log =
     (if drop_bit shift v \<noteq> 0 then log2_scan shifts (drop_bit shift v) (log + shift)
      else log2_scan shifts v log)"

definition Log2FloorNonZero :: "u32 \<Rightarrow> int" where
  "Log2FloorNonZero n = (if n = 0 then -1 else int (log2_scan [16, 8, 4, 2, 1] n 0))"

definition Log2FloorNonZero64 :: "u64 \<Rightarrow> int" where
  "Log2FloorNonZero64 n =
     (let topbits = ucast (drop_bit 32 n) :: u32
      in if topbits = 0 then Log2FloorNonZero (ucast n) else 32 + Log2FloorNonZero topbits)"

definition VarintSize32 :: "u32 \<Rightarrow> nat" where
  "VarintSize32 value = nat ((Log2FloorNonZero (value OR 1) * 9 + 73) div 64)"

definition VarintSize32PlusOne :: "u32 \<Rightarrow> nat" where
  "VarintSize32PlusOne value = nat ((Log2FloorNonZero (value OR 1) * 9 + 73 + 64) div 64)"

definition VarintSize64 :: "u64 \<Rightarrow> nat" where
  "VarintSize64 value = nat ((Log2FloorNonZero64 (value OR 1) * 9 + 73) div 64)"

definition VarintSize64PlusOne :: "u64 \<Rightarrow> nat" where
  "VarintSize64PlusOne value = nat ((Log2FloorNonZero64 (value OR 1) * 9 + 73 + 64) div 64)"

definition VarintSize32SignExtended :: "int32 \<Rightarrow> nat" where
  "VarintSize32SignExtended value = VarintSize64 (scast value)"

definition VarintSize32SignExtendedPlusOne :: "int32 \<Rightarrow> nat" where
  "VarintSize32SignExtendedPlusOne value = VarintSize64PlusOne (scast value)"

fun halving :: "nat list \<Rightarrow> nat \<Rightarrow> bool" where
  "halving [] b \<longleftrightarrow> b = 1"
| "halving (s # ss) b \<longleftrightarrow> b = 2 * s \<and> halving ss s"

lemma log2_scan_correct:
  assumes "halving shifts b" and "v \<noteq> 0" and "unat v < 2 ^ b"
  shows "\<exists>e < b. log2_scan shifts v log = log + e \<and> 2 ^ e \<le> unat v \<and> unat v < 2 ^ Suc e"
  using assms
proof (induction shifts arbitrary: v log b)
  case Nil
  then have "unat v = 1" using unat_eq_zero [of "v"] by (cases "unat v") auto
  with Nil show ?case by simp
next
  case (Cons s ss)
  then have b: "b = 2 * s" "halving ss s" by simp_all
  have d: "unat (drop_bit s v) = unat v div 2 ^ s"
    by (simp only: unat_drop_bit_eq, simp only: drop_bit_eq_div)
  have lt: "unat v < 2 ^ s * 2 ^ s" using Cons.prems(3) b(1) by (simp add: power_add mult_2)
  show ?case
  proof (cases "drop_bit s v = 0")
    case True
    then have "unat v < 2 ^ s" using d by (simp add: div_eq_0_iff)
    from Cons.IH [OF b(2) Cons.prems(2) this, of log] obtain e where
      "e < s" "log2_scan ss v log = log + e" "2 ^ e \<le> unat v" "unat v < 2 ^ Suc e" by blast
    with True b(1) show ?thesis by (intro exI [of _ e]) simp
  next
    case False
    have "unat (drop_bit s v) < 2 ^ s" using lt by (simp add: d less_mult_imp_div_less)
    from Cons.IH [OF b(2) False this, of "log + s"] obtain e where
      e: "e < s" "log2_scan ss (drop_bit s v) (log + s) = log + s + e"
        "2 ^ e \<le> unat v div 2 ^ s" "unat v div 2 ^ s < 2 ^ Suc e"
      unfolding d by auto
    have "2 ^ s * 2 ^ e \<le> unat v"
      using mult_le_mono2 [OF e(3), of "2 ^ s"] times_div_less_eq_dividend le_trans by blast
    moreover have "unat v < 2 ^ s * 2 ^ Suc e"
      using e(4) by (simp add: div_less_iff_less_mult mult.commute)
    ultimately show ?thesis
      using e(1,2) False b(1) by (intro exI [of _ "s + e"]) (simp add: power_add)
  qed
qed

lemma Log2FloorNonZero_correct:
  assumes "n \<noteq> 0"
  shows "\<exists>e < 32. Log2FloorNonZero n = int e \<and> 2 ^ e \<le> unat n \<and> unat n < 2 ^ Suc e"
proof -
  have "unat n < 2 ^ LENGTH(32)" by (rule unsigned_less)
  then show ?thesis
    using log2_scan_correct [of "[16, 8, 4, 2, 1]" 32 n 0] assms by (auto simp: Log2FloorNonZero_def)
qed

lemma Log2FloorNonZero64_correct:
  assumes "n \<noteq> 0"
  shows "\<exists>e < 64. Log2FloorNonZero64 n = int e \<and> 2 ^ e \<le> unat n \<and> unat n < 2 ^ Suc e"
proof -
  let ?top = "ucast (drop_bit 32 n) :: u32"
  have lt: "unat n < 2 ^ LENGTH(64)" by (rule unsigned_less)
  have d: "unat (drop_bit 32 n) = unat n div 2 ^ 32"
    by (simp only: unat_drop_bit_eq, simp only: drop_bit_eq_div)
  have top: "unat ?top = unat n div 2 ^ 32"
    using lt unfolding unsigned_ucast_eq d by (simp add: take_bit_nat_eq_self less_mult_imp_div_less)
  show ?thesis
  proof (cases "?top = 0")
    case True
    then have "unat n < 2 ^ 32" using top by (simp add: div_eq_0_iff)
    then have u: "unat (ucast n :: u32) = unat n" by (simp add: unsigned_ucast_eq take_bit_nat_eq_self)
    then have "(ucast n :: u32) \<noteq> 0" using assms by (metis unat_eq_zero)
    from Log2FloorNonZero_correct [OF this] obtain e where
      "e < 32" "Log2FloorNonZero (ucast n) = int e" "2 ^ e \<le> unat n" "unat n < 2 ^ Suc e"
      unfolding u by auto
    with True show ?thesis by (intro exI [of _ e]) (simp add: Log2FloorNonZero64_def)
  next
    case False
    from Log2FloorNonZero_correct [OF False] obtain e where
      e: "e < 32" "Log2FloorNonZero ?top = int e" "2 ^ e \<le> unat n div 2 ^ 32" "unat n div 2 ^ 32 < 2 ^ Suc e"
      unfolding top by auto
    have "2 ^ 32 * 2 ^ e \<le> unat n"
      using mult_le_mono2 [OF e(3), of "2 ^ 32"] times_div_less_eq_dividend le_trans by blast
    moreover have "unat n < 2 ^ 32 * 2 ^ Suc e"
      using e(4) by (simp add: div_less_iff_less_mult mult.commute)
    ultimately show ?thesis
      using e(1,2) False by (intro exI [of _ "32 + e"]) (simp add: Log2FloorNonZero64_def power_add)
  qed
qed

text \<open>The length of a varint, from the position of the highest bit.\<close>

lemma length_UnsafeVarint:
  assumes "2 ^ e \<le> unat v" and "unat v < 2 ^ Suc e"
  shows "length (UnsafeVarint v) = e div 7 + 1"
  using assms
proof (induction v arbitrary: e rule: varint_induct)
  case (last v)
  have "e < 7"
  proof (rule ccontr)
    assume "\<not> e < 7"
    then have "(2 :: nat) ^ 7 \<le> 2 ^ e" by (intro power_increasing) simp_all
    with last show False by simp
  qed
  with last show ?case by (simp add: UnsafeVarint_last)
next
  case (more v)
  have "7 \<le> e"
  proof (rule ccontr)
    assume "\<not> 7 \<le> e"
    then have "(2 :: nat) ^ Suc e \<le> 2 ^ 7" by (intro power_increasing) simp_all
    with more show False by simp
  qed
  then obtain k where k: "e = k + 7" by (metis le_add_diff_inverse2)
  have "2 ^ k \<le> unat (drop_bit 7 v)" "unat (drop_bit 7 v) < 2 ^ Suc k"
    using more(3,4) unfolding unat_drop_bit_7 k by (simp_all add: power_add less_eq_div_iff_mult_less_eq div_less_iff_less_mult)
  from more(2) [OF this] k more(1) show ?case by (simp add: UnsafeVarint_more)
qed

lemma UnsafeVarint_or_1: "length (UnsafeVarint (v OR 1)) = length (UnsafeVarint v)"
proof -
  have "unat (v OR 1) = unat v OR unat (1 :: u64)" by (rule unsigned_or_eq)
  also have "\<dots> = unat v OR 1" by simp
  also have "\<dots> = unat v + of_bool (even (unat v))" by (rule or_one_eq)
  finally have u: "unat (v OR 1) = unat v + of_bool (even (unat v))" .
  show ?thesis
  proof (cases "unat v < 128")
    case True
    then have "unat (v OR 1) < 128" using u by (cases "unat v = 127") auto
    with True show ?thesis by (simp add: UnsafeVarint_last)
  next
    case False
    moreover have "drop_bit 7 (v OR 1) = drop_bit 7 v"
      by (rule bit_word_eqI) (auto simp: bit_simps)
    ultimately show ?thesis using u by (simp only: UnsafeVarint_more not_less trans_le_add1) simp
  qed
qed

lemma mul9_div64: "\<forall>e \<in> set [0..<64]. (e * 9 + 73) div 64 = e div 7 + (1 :: nat)"
  by code_simp

lemma size_of_log2: "e < 64 \<Longrightarrow> nat ((int e * 9 + 73) div 64) = e div 7 + 1"
proof -
  assume "e < 64"
  then have "(e * 9 + 73) div 64 = e div 7 + 1" using mul9_div64 by simp
  moreover have "(int e * 9 + 73) div 64 = int ((e * 9 + 73) div 64)" by simp
  ultimately show ?thesis by (simp only: nat_int)
qed

lemma VarintSize64_eq: "VarintSize64 v = length (UnsafeVarint v)"
proof -
  have "v OR 1 \<noteq> 0" by (metis bit_or_iff bit_1_0 bit_0_eq bot_fun_def bot_bool_def)
  from Log2FloorNonZero64_correct [OF this] obtain e where
    "e < 64" "Log2FloorNonZero64 (v OR 1) = int e" "2 ^ e \<le> unat (v OR 1)" "unat (v OR 1) < 2 ^ Suc e" by blast
  then show ?thesis
    using length_UnsafeVarint [of e "v OR 1"] size_of_log2 [of e] UnsafeVarint_or_1 [of v]
    by (simp add: VarintSize64_def)
qed

lemma VarintSize32_eq: "VarintSize32 v = length (UnsafeVarint (ucast v))"
proof -
  have "v OR 1 \<noteq> 0" by (metis bit_or_iff bit_1_0 bit_0_eq bot_fun_def bot_bool_def)
  from Log2FloorNonZero_correct [OF this] obtain e where
    e: "e < 32" "Log2FloorNonZero (v OR 1) = int e" "2 ^ e \<le> unat (v OR 1)" "unat (v OR 1) < 2 ^ Suc e" by blast
  have c: "ucast (v OR 1) = (ucast v OR 1 :: u64)" by (rule bit_word_eqI) (auto simp: bit_simps)
  have "unat (v OR 1) < 2 ^ LENGTH(32)" by (rule unsigned_less)
  then have "unat (ucast (v OR 1) :: u64) = unat (v OR 1)"
    by (simp only: unsigned_ucast_eq) (simp add: take_bit_nat_eq_self)
  then have "length (UnsafeVarint (ucast v OR 1)) = e div 7 + 1"
    using e(3,4) length_UnsafeVarint [of e "ucast (v OR 1)"] unfolding c by simp
  then show ?thesis
    using e(1,2) size_of_log2 [of e] UnsafeVarint_or_1 [of "ucast v"] by (simp add: VarintSize32_def)
qed

lemma VarintSizePlusOne: "VarintSize32PlusOne v = Suc (VarintSize32 v)" "VarintSize64PlusOne w = Suc (VarintSize64 w)"
proof -
  have a: "nat ((x * 9 + 73 + 64) div 64) = Suc (nat ((x * 9 + 73) div 64))" if "-1 \<le> x" for x :: int
    using that by (simp add: nat_add_distrib)
  have "-1 \<le> Log2FloorNonZero n" for n by (simp add: Log2FloorNonZero_def)
  then show "VarintSize32PlusOne v = Suc (VarintSize32 v)"
    by (simp only: VarintSize32PlusOne_def VarintSize32_def a)
  have "-1 \<le> Log2FloorNonZero64 n" for n by (simp add: Log2FloorNonZero64_def Log2FloorNonZero_def Let_def)
  then show "VarintSize64PlusOne w = Suc (VarintSize64 w)"
    by (simp only: VarintSize64PlusOne_def VarintSize64_def a)
qed

lemma length_UnsafeVarint_le: "length (UnsafeVarint v) \<le> 10"
proof (cases "v = 0")
  case True
  then show ?thesis by (simp add: UnsafeVarint_last)
next
  case False
  from Log2FloorNonZero64_correct [OF this] length_UnsafeVarint [of _ v] show ?thesis by fastforce
qed

section \<open>The out-of-line library routines\<close>

text \<open>
  The routines that the inline code calls and whose source is not in the repository. A reader
  returns the rest of the buffer and the value, \<open>None\<close> for a null pointer.
  \<^item> \<open>VarintParseSlow64\<close>, \<open>VarintParseSlow32\<close>, \<open>ReadTagFallback\<close>: longer varints, given the start
    and the value of the first two bytes;
  \<^item> \<open>InlineGreedyStringParser\<close>: a length-delimited string;
  \<^item> \<open>WriteStringMaybeAliasedOutline\<close>: tag, length and content of a long string;
  \<^item> \<open>VerifyUTF8\<close>; \<open>UnknownFieldParse\<close>, which returns the bytes it keeps;
  \<^item> \<open>ReadSizeFallback\<close>: a length of more than one byte, given its start and first byte;
  \<^item> \<open>InternalWriteMessage\<close>: tag, cached size and bytes of a nested message;
  \<^item> \<open>ZeroFieldsParse\<close>, \<open>ZeroFieldsSerialize\<close>: the base class of messages without fields, whose
    content is the unknown fields it keeps.
\<close>

record pb_lib =
  VarintParseSlow64 :: "bytes \<Rightarrow> u32 \<Rightarrow> (bytes \<times> u64) option"
  VarintParseSlow32 :: "bytes \<Rightarrow> u32 \<Rightarrow> (bytes \<times> u32) option"
  ReadTagFallback :: "bytes \<Rightarrow> u32 \<Rightarrow> (bytes \<times> u32) option"
  InlineGreedyStringParser :: "bytes \<Rightarrow> (bytes \<times> bytes) option"
  WriteStringMaybeAliasedOutline :: "u32 \<Rightarrow> bytes \<Rightarrow> bytes"
  VerifyUTF8 :: "bytes \<Rightarrow> bool"
  UnknownFieldParse :: "u32 \<Rightarrow> bytes \<Rightarrow> (bytes \<times> bytes) option"
  ReadSizeFallback :: "bytes \<Rightarrow> u32 \<Rightarrow> (bytes \<times> nat) option"
  InternalWriteMessage :: "u32 \<Rightarrow> nat \<Rightarrow> bytes \<Rightarrow> bytes"
  ZeroFieldsParse :: "bytes \<Rightarrow> bytes option"
  ZeroFieldsSerialize :: "bytes \<Rightarrow> bytes"

section \<open>Tags, lengths, fields\<close>

definition MakeTag :: "u32 \<Rightarrow> u32 \<Rightarrow> u32" where
  "MakeTag field_number wiretype = push_bit 3 field_number OR wiretype"

definition GetTagWireType :: "u32 \<Rightarrow> u32" where
  "GetTagWireType tag = tag AND 7"

definition GetTagFieldNumber :: "u32 \<Rightarrow> u32" where
  "GetTagFieldNumber tag = drop_bit 3 tag"

definition WriteTagToArray :: "u32 \<Rightarrow> u32 \<Rightarrow> bytes" where
  "WriteTagToArray field_number wiretype = WriteVarint32ToArray (MakeTag field_number wiretype)"

definition WriteLengthDelim :: "u32 \<Rightarrow> u32 \<Rightarrow> bytes" where
  "WriteLengthDelim num len = UnsafeVarint (ucast (MakeTag num 2)) @ UnsafeWriteSize len"

definition WriteUInt32ToArray :: "u32 \<Rightarrow> u32 \<Rightarrow> bytes" where
  "WriteUInt32ToArray field_number v = WriteTagToArray field_number 0 @ WriteVarint32ToArray v"

definition WriteInt32ToArray :: "u32 \<Rightarrow> int32 \<Rightarrow> bytes" where
  "WriteInt32ToArray field_number v = WriteTagToArray field_number 0 @ WriteVarint32SignExtendedToArray v"

definition WriteLittleEndian32ToArray :: "u32 \<Rightarrow> bytes" where
  "WriteLittleEndian32ToArray v = [ucast v, ucast (drop_bit 8 v), ucast (drop_bit 16 v), ucast (drop_bit 24 v)]"

definition WriteFloatToArray :: "u32 \<Rightarrow> u32 \<Rightarrow> bytes" where
  "WriteFloatToArray field_number v = WriteTagToArray field_number 5 @ WriteLittleEndian32ToArray v"

text \<open>
  \<open>WriteStringMaybeAliased\<close> writes a string of less than 128 bytes itself. The second reason for
  which the code calls the out-of-line routine, too little room before the end of the current
  buffer, is not visible in the bytes.
\<close>

definition WriteStringMaybeAliased :: "pb_lib \<Rightarrow> u32 \<Rightarrow> bytes \<Rightarrow> bytes" where
  "WriteStringMaybeAliased L num s =
     (if 128 \<le> length s then WriteStringMaybeAliasedOutline L num s
      else UnsafeVarint (ucast (push_bit 3 num OR 2)) @ [of_nat (length s)] @ s)"

definition UInt32SizePlusOne :: "u32 \<Rightarrow> nat" where
  "UInt32SizePlusOne v = VarintSize32PlusOne v"

definition Int32SizePlusOne :: "int32 \<Rightarrow> nat" where
  "Int32SizePlusOne v = VarintSize32SignExtendedPlusOne v"

definition LengthDelimitedSize :: "nat \<Rightarrow> nat" where
  "LengthDelimitedSize n = n + VarintSize32 (of_nat n)"

definition StringSize :: "bytes \<Rightarrow> nat" where
  "StringSize s = LengthDelimitedSize (length s)"

definition VarintParse64 :: "pb_lib \<Rightarrow> bytes \<Rightarrow> (bytes \<times> u64) option" where
  "VarintParse64 L p =
     (case p of
        [] \<Rightarrow> None
      | b0 # r0 \<Rightarrow>
          if b0 AND 0x80 = 0 then Some (r0, ucast b0)
          else (case r0 of
                  [] \<Rightarrow> None
                | b1 # r1 \<Rightarrow>
                    let res = ucast b0 + push_bit 7 (ucast b1 - 1) :: u32
                    in if b1 AND 0x80 = 0 then Some (r1, ucast res) else VarintParseSlow64 L p res))"

definition VarintParse32 :: "pb_lib \<Rightarrow> bytes \<Rightarrow> (bytes \<times> u32) option" where
  "VarintParse32 L p =
     (case p of
        [] \<Rightarrow> None
      | b0 # r0 \<Rightarrow>
          if b0 AND 0x80 = 0 then Some (r0, ucast b0)
          else (case r0 of
                  [] \<Rightarrow> None
                | b1 # r1 \<Rightarrow>
                    let res = ucast b0 + push_bit 7 (ucast b1 - 1) :: u32
                    in if b1 AND 0x80 = 0 then Some (r1, res) else VarintParseSlow32 L p res))"

definition ReadTag :: "pb_lib \<Rightarrow> bytes \<Rightarrow> (bytes \<times> u32) option" where
  "ReadTag L p =
     (case p of
        [] \<Rightarrow> None
      | b0 # r0 \<Rightarrow>
          if b0 < 128 then Some (r0, ucast b0)
          else (case r0 of
                  [] \<Rightarrow> None
                | b1 # r1 \<Rightarrow>
                    let res = ucast b0 + push_bit 7 (ucast b1 - 1) :: u32
                    in if b1 < 128 then Some (r1, res) else ReadTagFallback L p res))"

section \<open>The parse loop of the generated classes\<close>

text \<open>
  Every \<open>_InternalParse\<close> has the same loop around its own \<open>switch\<close>: \<open>field L tag p m\<close> is the
  switch, \<open>keep\<close> adds the bytes of an unknown field. The result is \<open>None\<close> for a null pointer, and
  otherwise the message with the tag that stopped the loop, if one did. The first argument bounds
  the rounds; one more than the number of bytes is enough (\<open>parse_loop_enough\<close> in \<^verbatim>\<open>Wire_Codec\<close>).
\<close>

datatype 'm field_result = Handled 'm bytes | Failure | Unusual

fun parse_loop ::
    "nat \<Rightarrow> pb_lib \<Rightarrow> (pb_lib \<Rightarrow> u32 \<Rightarrow> bytes \<Rightarrow> 'm \<Rightarrow> 'm field_result) \<Rightarrow> (bytes \<Rightarrow> 'm \<Rightarrow> 'm) \<Rightarrow>
     bytes \<Rightarrow> 'm \<Rightarrow> ('m \<times> u32 option) option" where
  "parse_loop 0 L field keep p m = None"
| "parse_loop (Suc fuel) L field keep p m =
     (if p = [] then Some (m, None)
      else case ReadTag L p of
             None \<Rightarrow> None
           | Some (p', tag) \<Rightarrow>
               (case field L tag p' m of
                  Handled m' r \<Rightarrow> parse_loop fuel L field keep r m'
                | Failure \<Rightarrow> None
                | Unusual \<Rightarrow>
                    if tag = 0 \<or> tag AND 7 = 4 then Some (m, Some tag)
                    else (case UnknownFieldParse L tag p' of
                            None \<Rightarrow> None
                          | Some (raw, r) \<Rightarrow> parse_loop fuel L field keep r (keep raw m))))"

text \<open>\<open>ParseFromArray\<close> succeeds when the parse ended at the end of the array and not at a stray tag.\<close>

definition parse_message ::
    "pb_lib \<Rightarrow> (pb_lib \<Rightarrow> u32 \<Rightarrow> bytes \<Rightarrow> 'm \<Rightarrow> 'm field_result) \<Rightarrow> (bytes \<Rightarrow> 'm \<Rightarrow> 'm) \<Rightarrow> 'm \<Rightarrow> bytes \<Rightarrow> 'm option" where
  "parse_message L field keep init p =
     (case parse_loop (Suc (length p)) L field keep p init of Some (m, None) \<Rightarrow> Some m | _ \<Rightarrow> None)"

end
