(* ===== verification/Packet_Util.thy ===== *)
theory Packet_Util
  imports CK_Prelude
begin

unbundle bit_operations_syntax

text \<open>
  The framing helpers of \<^verbatim>\<open>PacketUtil.h\<close>: the big-endian length prefix, the comparison of
  packet types, the size-checked serialisation that every outgoing packet passes through, and the
  deserialisation of a buffer whose length is given separately. The message codecs are arguments
  (\<open>byte_size\<close>, \<open>ser\<close>, \<open>parse\<close>); \<^verbatim>\<open>Message_Header\<close> supplies the one of the packet header.
\<close>

section \<open>The length prefix\<close>

definition Int32ToByteArr :: "int32 \<Rightarrow> bytes" where
  "Int32ToByteArr value =
     [ucast (signed_drop_bit 24 value AND 0xFF),
      ucast (signed_drop_bit 16 value AND 0xFF),
      ucast (signed_drop_bit 8 value AND 0xFF),
      ucast (value AND 0xFF)]"

text \<open>\<open>ByteArrToInt32\<close> reads the first four bytes of the buffer; a shorter buffer is a fault.\<close>

definition ByteArrToInt32 :: "bytes \<Rightarrow> int32 result" where
  "ByteArrToInt32 bytes =
     (case bytes of
        b0 # b1 # b2 # b3 # _ \<Rightarrow>
          Inr (push_bit 24 (ucast b0) OR push_bit 16 (ucast b1) OR push_bit 8 (ucast b2) OR ucast b3)
      | _ \<Rightarrow> Inl OutOfBounds)"

lemma length_Int32ToByteArr [simp]: "length (Int32ToByteArr v) = 4"
  by (simp add: Int32ToByteArr_def)

lemma low_byte_mask: "(0xFF :: int32) = mask 8"
  by (simp add: mask_eq_exp_minus_1)

lemma bytes_join_split:
  fixes v :: int32
  shows "push_bit 24 (ucast (ucast (signed_drop_bit 24 v AND 0xFF) :: byte)) OR
         push_bit 16 (ucast (ucast (signed_drop_bit 16 v AND 0xFF) :: byte)) OR
         push_bit 8 (ucast (ucast (signed_drop_bit 8 v AND 0xFF) :: byte)) OR
         ucast (ucast (v AND 0xFF) :: byte) = v" (is "?w = v")
proof (rule bit_word_eqI)
  fix n
  assume "n < LENGTH(32)"
  then consider "n < 8" | "8 \<le> n" "n < 16" | "16 \<le> n" "n < 24" | "24 \<le> n" "n < 32" by force
  then show "bit ?w n = bit v n"
    unfolding low_byte_mask by cases (auto simp: bit_simps not_le dest: bit_imp_le_length)
qed

lemma bytes_split_join:
  fixes b0 b1 b2 b3 :: byte
  defines "v \<equiv> push_bit 24 (ucast b0) OR push_bit 16 (ucast b1) OR push_bit 8 (ucast b2) OR ucast b3 :: int32"
  shows "ucast (signed_drop_bit 24 v AND 0xFF) = b0" "ucast (signed_drop_bit 16 v AND 0xFF) = b1"
    "ucast (signed_drop_bit 8 v AND 0xFF) = b2" "ucast (v AND 0xFF) = b3"
  unfolding low_byte_mask v_def
  by (rule bit_word_eqI; auto simp: bit_simps not_le dest: bit_imp_le_length)+

lemma ByteArrToInt32_Int32ToByteArr [simp]:
  "ByteArrToInt32 (Int32ToByteArr v @ rest) = Inr v"
  by (simp add: ByteArrToInt32_def Int32ToByteArr_def bytes_join_split)

lemma ByteArrToInt32_fault_iff: "ByteArrToInt32 bs = Inl e \<longleftrightarrow> length bs < 4 \<and> e = OutOfBounds"
  by (auto simp: ByteArrToInt32_def split: list.splits)

lemma ByteArrToInt32_ok: "4 \<le> length bs \<Longrightarrow> \<exists>v. ByteArrToInt32 bs = Inr v"
  by (cases "ByteArrToInt32 bs") (auto simp: ByteArrToInt32_fault_iff)

lemma ByteArrToInt32_InrD: "ByteArrToInt32 bs = Inr v \<Longrightarrow> 4 \<le> length bs"
  by (rule ccontr) (auto simp: ByteArrToInt32_def split: list.splits)

lemma ByteArrToInt32_prefix:
  assumes "4 \<le> length xs"
  shows "ByteArrToInt32 (xs @ ys) = ByteArrToInt32 xs"
  using assms by (auto simp: ByteArrToInt32_def split: list.splits)

lemma ByteArrToInt32_cong:
  assumes "take 4 xs = take 4 ys" and "4 \<le> length xs" and "4 \<le> length ys"
  shows "ByteArrToInt32 xs = ByteArrToInt32 ys"
proof -
  have "ByteArrToInt32 zs = ByteArrToInt32 (take 4 zs)" if "4 \<le> length zs" for zs
    using that ByteArrToInt32_prefix [of "take 4 zs" "drop 4 zs"] by (simp only: append_take_drop_id) simp
  then show ?thesis using assms by metis
qed

lemma Int32ToByteArr_inverse:
  assumes "ByteArrToInt32 bs = Inr v"
  shows "Int32ToByteArr v = take 4 bs"
  using assms bytes_split_join
  by (auto simp: ByteArrToInt32_def Int32ToByteArr_def split: list.splits)

section \<open>Packet types\<close>

text \<open>\<open>header.type()\<close> is compared by length first and then by content.\<close>

definition IsPacket :: "string \<Rightarrow> string \<Rightarrow> bool" where
  "IsPacket type str = (if length type \<noteq> length str then False else type = str)"

lemma IsPacket_iff [simp]: "IsPacket t s \<longleftrightarrow> t = s"
  by (auto simp: IsPacket_def)

section \<open>Serialise\<close>

text \<open>
  \<open>Serialize\<close> refuses a buffer smaller than \<open>ByteSizeLong\<close> and otherwise writes that many bytes.
  \<open>None\<close> is the return value \<open>false\<close>. The null message is refused.
\<close>

definition Serialize :: "('m \<Rightarrow> nat) \<Rightarrow> ('m \<Rightarrow> bytes) \<Rightarrow> 'm option \<Rightarrow> nat \<Rightarrow> bytes option" where
  "Serialize byte_size ser msg bufferMaxLength =
     (case msg of
        None \<Rightarrow> None
      | Some m \<Rightarrow> if bufferMaxLength < byte_size m then None else Some (ser m))"

section \<open>Deserialise\<close>

text \<open>
  The message names of \<^verbatim>\<open>item.proto\<close>, \<^verbatim>\<open>system.proto\<close> and \<^verbatim>\<open>messageHeader.proto\<close>, all in package
  \<open>CKPacket\<close>: the part of the generated descriptor pool that belongs to this program.
\<close>

definition generated_pool_names :: "string list" where
  "generated_pool_names = map ((@) ''CKPacket.'')
     [''resPlayerJoin'', ''reqPing'', ''resPing'', ''reqNotifyPlayerName'', ''reqPlayerPosition'',
      ''resPlayerPosition'', ''resReplicatedPlayerGen'', ''resReplicatedPlayerDes'',
      ''reqReplicatedPlayerGen'', ''reqReplicatedPlayerDes'', ''reqAddToItem'', ''resAddToItem'',
      ''reqRemoveFromItem'', ''resRemoveFromToItem'', ''reqInventoryItems'', ''resInventoryItems'',
      ''itemInfo'', ''reqShopItemList'', ''resShopItemList'', ''shopItem'', ''reqShopBuy'',
      ''resShopBuy'', ''reqShopSell'', ''resShopSell'',
      ''Invalid'', ''SystemEnd'', ''SYSTEM_USER_DISCONNECT'', ''SYSTEM_USER_CONNECT'',
      ''messageHeader'']"

definition FindMessageTypeByName :: "string \<Rightarrow> bool" where
  "FindMessageTypeByName type \<longleftrightarrow> type \<in> set generated_pool_names"

text \<open>
  \<open>Deserialize\<close> looks the type name up in the pool, creates a message of the template's type and
  parses \<open>len\<close> bytes. The \<open>size_t\<close> length is narrowed to the \<open>int\<close> that \<open>ParseFromArray\<close>
  takes. \<open>buffer\<close> is the memory that may be read at the pointer. With a longer length, \<open>InitFrom\<close> copies
  \<open>len\<close> bytes if these are at most 16, which reads past the buffer. Otherwise it computes a pointer to
  the end of \<open>len\<close> bytes outside the buffer, and the parser reads on past the buffer unless the bytes in it end
  the message before; what happens is outside the contract of \<open>ParseFromArray\<close>, as it is for a
  negative length, and the two faults stand for that. \<open>Inr None\<close> is the return value \<open>false\<close>.
\<close>

definition Deserialize :: "(bytes \<Rightarrow> 'm option) \<Rightarrow> bytes \<Rightarrow> u64 \<Rightarrow> string \<Rightarrow> 'm option result" where
  "Deserialize parse buffer len type =
     (if \<not> FindMessageTypeByName type then Inr None
      else let n = sint (ucast len :: int32)
           in if n < 0 then Inl NegativeLength
              else if int (length buffer) < n then Inl (if n \<le> 16 then OutOfBounds else LengthBeyondBuffer)
              else Inr (parse (take (nat n) buffer)))"

definition messageHeader_full_name :: string where
  "messageHeader_full_name = ''CKPacket.messageHeader''"

lemma messageHeader_in_pool [simp]: "FindMessageTypeByName messageHeader_full_name"
  by (simp add: FindMessageTypeByName_def generated_pool_names_def messageHeader_full_name_def)

text \<open>
  \<open>Unpack\<close> takes the length from the prefix in the buffer itself; its argument
  \<open>packedBufferLength\<close> is never read.
\<close>

definition Unpack :: "(bytes \<Rightarrow> 'h option) \<Rightarrow> bytes \<Rightarrow> 'h option result" where
  "Unpack parse packedBuffer =
     bind_result (ByteArrToInt32 packedBuffer) (\<lambda>msgLen.
       Deserialize parse (drop 4 packedBuffer) (scast msgLen) messageHeader_full_name)"

lemma ucast_scast32 [simp]: "ucast (scast (v :: int32) :: u64) = v"
  by (rule bit_word_eqI) (auto simp: bit_simps)

lemma Unpack_Inr_iff:
  assumes "ByteArrToInt32 bs = Inr v"
  shows "Unpack parse bs = Inr h \<longleftrightarrow>
     0 \<le> sint v \<and> 4 + nat (sint v) \<le> length bs \<and> h = parse (take (nat (sint v)) (drop 4 bs))"
  using assms ByteArrToInt32_InrD [OF assms(1)]
  by (auto simp: Unpack_def Deserialize_def Let_def)

lemma Unpack_NegativeLength:
  assumes "ByteArrToInt32 bs = Inr v" and "sint v < 0"
  shows "Unpack parse bs = Inl NegativeLength"
  using assms by (simp add: Unpack_def Deserialize_def Let_def)

end
