(* ===== verification/Wire_Codec.thy ===== *)
theory Wire_Codec
  imports Wire_Format Packet_Util
begin

unbundle bit_operations_syntax

text \<open>
  What the inline wire-format code relies on in the out-of-line library (\<open>pb_lib_ok\<close>, the
  documented behaviour of varints and length-delimited strings), an instance of it, and the facts
  from which the generated classes are proved to be read back: reading a varint, a tag, a string
  that was written; the parse loop never runs out of rounds. The interface \<open>codec\<close> is what the
  packet helpers require of a message class.
\<close>

section \<open>The laws of the library\<close>

text \<open>
  \<open>varint_head\<close> is the value that the inline code has accumulated from the first two bytes when
  it calls a slow reader.
\<close>

definition varint_head :: "bytes \<Rightarrow> u32" where
  "varint_head p = ucast (p ! 0) + push_bit 7 (ucast (p ! 1) - 1)"

text \<open>A slow reader started on a varint of more than two bytes returns its value and the rest.\<close>

definition pb_varints :: "pb_lib \<Rightarrow> bool" where
  "pb_varints L \<longleftrightarrow>
     (\<forall>v r. 16384 \<le> unat v \<longrightarrow>
        VarintParseSlow64 L (UnsafeVarint v @ r) (varint_head (UnsafeVarint v)) = Some (r, v) \<and>
        VarintParseSlow32 L (UnsafeVarint v @ r) (varint_head (UnsafeVarint v)) = Some (r, ucast v))"

text \<open>
  The string parser takes the announced number of bytes, up to \<open>INT_MAX\<close> less the slop of 16 bytes;
  a long string is written as tag, length and content; ASCII text is UTF-8.
\<close>

definition pb_strings :: "pb_lib \<Rightarrow> bool" where
  "pb_strings L \<longleftrightarrow>
     (\<forall>s r. length s < 2 ^ 31 - 16 \<longrightarrow>
        InlineGreedyStringParser L (UnsafeWriteSize (of_nat (length s)) @ s @ r) = Some (r, s)) \<and>
     (\<forall>num s. 128 \<le> length s \<longrightarrow> length s < 2 ^ 31 \<longrightarrow>
        WriteStringMaybeAliasedOutline L num s = WriteLengthDelim num (of_nat (length s)) @ s) \<and>
     (\<forall>s. (\<forall>b \<in> set s. b < 128) \<longrightarrow> VerifyUTF8 L s)"

text \<open>
  A nested message is written as tag, size and content, and its size is read back; a message
  without fields is empty.
\<close>

definition pb_messages :: "pb_lib \<Rightarrow> bool" where
  "pb_messages L \<longleftrightarrow>
     (\<forall>n r h. 128 \<le> n \<longrightarrow> n < 2 ^ 31 - 16 \<longrightarrow>
        ReadSizeFallback L (UnsafeWriteSize (of_nat n) @ r) h = Some (r, n)) \<and>
     (\<forall>num n bs. InternalWriteMessage L num n bs =
        WriteTagToArray num 2 @ WriteVarint32ToArray (of_nat n) @ bs) \<and>
     ZeroFieldsParse L [] = Some [] \<and> (\<forall>u. ZeroFieldsSerialize L u = u)"

text \<open>No reader moves backwards.\<close>

definition pb_progress :: "pb_lib \<Rightarrow> bool" where
  "pb_progress L \<longleftrightarrow>
     (\<forall>p h r v. VarintParseSlow64 L p h = Some (r, v) \<longrightarrow> length r < length p) \<and>
     (\<forall>p h r v. VarintParseSlow32 L p h = Some (r, v) \<longrightarrow> length r < length p) \<and>
     (\<forall>p h r v. ReadTagFallback L p h = Some (r, v) \<longrightarrow> length r < length p) \<and>
     (\<forall>p h r n. ReadSizeFallback L p h = Some (r, n) \<longrightarrow> length r < length p) \<and>
     (\<forall>p r s. InlineGreedyStringParser L p = Some (r, s) \<longrightarrow> length r < length p) \<and>
     (\<forall>tag p raw r. UnknownFieldParse L tag p = Some (raw, r) \<longrightarrow> length r \<le> length p)"

definition pb_lib_ok :: "pb_lib \<Rightarrow> bool" where
  "pb_lib_ok L \<longleftrightarrow> pb_varints L \<and> pb_strings L \<and> pb_messages L \<and> pb_progress L"

lemma pb_lib_slow64:
  "pb_lib_ok L \<Longrightarrow> 16384 \<le> unat v \<Longrightarrow>
     VarintParseSlow64 L (UnsafeVarint v @ r) (varint_head (UnsafeVarint v)) = Some (r, v)"
  by (simp only: pb_lib_ok_def pb_varints_def)

lemma pb_lib_slow32:
  "pb_lib_ok L \<Longrightarrow> 16384 \<le> unat v \<Longrightarrow>
     VarintParseSlow32 L (UnsafeVarint v @ r) (varint_head (UnsafeVarint v)) = Some (r, ucast v)"
  by (simp only: pb_lib_ok_def pb_varints_def)

lemma pb_lib_string:
  "pb_lib_ok L \<Longrightarrow> length s < 2 ^ 31 - 16 \<Longrightarrow>
     InlineGreedyStringParser L (UnsafeWriteSize (of_nat (length s)) @ s @ r) = Some (r, s)"
  by (simp only: pb_lib_ok_def pb_strings_def)

lemma pb_lib_outline:
  "pb_lib_ok L \<Longrightarrow> 128 \<le> length s \<Longrightarrow> length s < 2 ^ 31 \<Longrightarrow>
     WriteStringMaybeAliasedOutline L num s = WriteLengthDelim num (of_nat (length s)) @ s"
  by (simp only: pb_lib_ok_def pb_strings_def)

lemma pb_lib_ascii: "pb_lib_ok L \<Longrightarrow> \<forall>b \<in> set s. b < 128 \<Longrightarrow> VerifyUTF8 L s"
  by (simp only: pb_lib_ok_def pb_strings_def)

lemma pb_lib_nested:
  "pb_lib_ok L \<Longrightarrow> 128 \<le> n \<Longrightarrow> n < 2 ^ 31 - 16 \<Longrightarrow>
      ReadSizeFallback L (UnsafeWriteSize (of_nat n) @ r) h = Some (r, n)"
  "pb_lib_ok L \<Longrightarrow> InternalWriteMessage L num n bs =
      WriteTagToArray num 2 @ WriteVarint32ToArray (of_nat n) @ bs"
  "pb_lib_ok L \<Longrightarrow> ZeroFieldsParse L [] = Some []"
  "pb_lib_ok L \<Longrightarrow> ZeroFieldsSerialize L u = u"
  by (simp_all only: pb_lib_ok_def pb_messages_def)

lemma pb_lib_shrinks:
  assumes "pb_lib_ok L"
  shows "VarintParseSlow64 L p h = Some (r, v64) \<Longrightarrow> length r < length p"
    and "VarintParseSlow32 L p h = Some (r, v32) \<Longrightarrow> length r < length p"
    and "ReadTagFallback L p h = Some (r, v32) \<Longrightarrow> length r < length p"
    and "InlineGreedyStringParser L p = Some (r, s) \<Longrightarrow> length r < length p"
    and "UnknownFieldParse L tag p = Some (s, r) \<Longrightarrow> length r \<le> length p"
    and "ReadSizeFallback L p h = Some (r, n) \<Longrightarrow> length r < length p"
proof -
  note laws = assms [unfolded pb_lib_ok_def pb_progress_def, THEN conjunct2, THEN conjunct2, THEN conjunct2]
  show "VarintParseSlow64 L p h = Some (r, v64) \<Longrightarrow> length r < length p"
    using laws [THEN conjunct1] by blast
  show "VarintParseSlow32 L p h = Some (r, v32) \<Longrightarrow> length r < length p"
    using laws [THEN conjunct2, THEN conjunct1] by blast
  show "ReadTagFallback L p h = Some (r, v32) \<Longrightarrow> length r < length p"
    using laws [THEN conjunct2, THEN conjunct2, THEN conjunct1] by blast
  show "InlineGreedyStringParser L p = Some (r, s) \<Longrightarrow> length r < length p"
    using laws by (elim conjE) blast
  show "UnknownFieldParse L tag p = Some (s, r) \<Longrightarrow> length r \<le> length p"
    using laws [THEN conjunct2, THEN conjunct2, THEN conjunct2, THEN conjunct2, THEN conjunct2] by blast
  show "ReadSizeFallback L p h = Some (r, n) \<Longrightarrow> length r < length p"
    using laws by (elim conjE) blast
qed

section \<open>Reading a varint that was written\<close>

lemma UnsafeVarint_two:
  assumes "128 \<le> unat v" and "unat v < 16384"
  shows "UnsafeVarint v = [ucast v OR 0x80, ucast (drop_bit 7 v)]"
  using assms by (simp add: UnsafeVarint_more UnsafeVarint_last unat_drop_bit_7)

lemma UnsafeVarint_many:
  assumes "16384 \<le> unat v"
  shows "UnsafeVarint v = (ucast v OR 0x80) # (ucast (drop_bit 7 v) OR 0x80) # UnsafeVarint (drop_bit 14 v)"
proof -
  have "128 \<le> unat (drop_bit 7 v)" using assms unfolding unat_drop_bit_7 by simp
  moreover have "drop_bit 7 (drop_bit 7 v) = drop_bit 14 v" by simp
  ultimately show ?thesis using assms by (simp add: UnsafeVarint_more)
qed

lemma or_0x80_AND: "(b OR 0x80) AND 0x80 \<noteq> (0 :: byte)" "\<not> (b OR 0x80) < (128 :: byte)"
proof -
  have u: "128 \<le> unat (b OR 0x80)" unfolding unat_or_0x80 by simp
  then show "\<not> (b OR 0x80) < (128 :: byte)" by (simp add: word_less_nat_alt)
  have "bit ((b OR 0x80) AND 0x80) 7" by (simp add: bit_simps)
  then show "(b OR 0x80) AND 0x80 \<noteq> (0 :: byte)" by (metis bit_0_eq bot_apply bot_bool_def)
qed

lemma small_AND_all: "\<forall>n \<in> set [0..<128]. (of_nat n :: byte) AND 0x80 = 0"
  by code_simp

lemma small_AND: "unat (b :: byte) < 128 \<Longrightarrow> b AND 0x80 = 0"
  using small_AND_all [THEN bspec, of "unat b"] by simp

lemma varint_head_two:
  fixes v :: u64
  assumes "128 \<le> unat v" and "unat v < 16384"
  shows "(ucast (ucast v OR 0x80 :: byte) :: u32) + push_bit 7 (ucast (ucast (drop_bit 7 v) :: byte) - 1) = ucast v"
proof -
  let ?a = "ucast v OR 0x80 :: byte" and ?b = "ucast (drop_bit 7 v) :: byte"
  have a: "unat ?a = unat v mod 128 + 128"
    unfolding unat_or_0x80 unat_ucast_byte by (simp add: mod_mod_cancel)
  have b: "unat ?b = unat v div 128"
    using assms unfolding unat_ucast_byte unat_drop_bit_7 by (simp add: div_less_iff_less_mult)
  have ua: "(ucast ?a :: u32) = of_nat (unat v mod 128 + 128)" using a by (metis of_nat_unat)
  have ub: "(ucast ?b :: u32) = of_nat (unat v div 128)" using b by (metis of_nat_unat)
  have "(ucast v :: u32) = of_nat (unat v)" by (simp only: of_nat_unat)
  moreover have "unat v = unat v mod 128 + 128 * (unat v div 128)" by simp
  then have "(of_nat (unat v) :: u32) = of_nat (unat v mod 128) + 128 * of_nat (unat v div 128)"
    by (metis of_nat_add of_nat_mult of_nat_numeral)
  ultimately show ?thesis
    unfolding ua ub push_bit_eq_mult by (simp add: algebra_simps)
qed


lemma varint_bytes:
  fixes v :: u64
  assumes "128 \<le> unat v" and "unat v < 16384"
  shows "unat (ucast (drop_bit 7 v) :: byte) < 128"
  using assms unfolding unat_ucast_byte unat_drop_bit_7 by (simp add: div_less_iff_less_mult)

lemma unat_ucast_64 [simp]: "unat (ucast (v :: u32) :: u64) = unat v"
proof -
  have "unat v < 2 ^ LENGTH(32)" by (rule unsigned_less)
  then show ?thesis by (simp add: unsigned_ucast_eq take_bit_nat_eq_self)
qed

lemma ucast_small_byte:
  "unat v < 128 \<Longrightarrow> ucast (ucast v :: byte) = v" for v :: u64
  by (rule iffD2 [OF word_unat_eq_iff]) (simp add: unsigned_ucast_eq unsigned_take_bit_eq take_bit_nat_eq_self)

lemma ucast_32_64:
  assumes "unat (v :: u64) < 16384"
  shows "ucast (ucast v :: u32) = v"
  using assms
  by (intro iffD2 [OF word_unat_eq_iff]) (simp add: unsigned_ucast_eq unsigned_take_bit_eq take_bit_nat_eq_self)

lemma VarintParse64_UnsafeVarint:
  assumes "pb_lib_ok L"
  shows "VarintParse64 L (UnsafeVarint v @ r) = Some (r, v)"
proof -
  consider "unat v < 128" | "128 \<le> unat v" "unat v < 16384" | "16384 \<le> unat v" by linarith
  then show ?thesis
  proof cases
    case 1
    then have "unat (ucast v :: byte) < 128" by (simp add: unat_ucast_byte)
    with 1 show ?thesis
      by (simp add: VarintParse64_def UnsafeVarint_last small_AND ucast_small_byte)
  next
    case 2
    then show ?thesis
      using varint_bytes [OF 2] varint_head_two [OF 2] ucast_32_64 [OF 2(2)]
      by (simp add: VarintParse64_def UnsafeVarint_two or_0x80_AND small_AND Let_def del: push_bit_of_1)
  next
    case 3
    then show ?thesis
      using pb_lib_slow64 [OF assms 3, of r]
      by (simp add: VarintParse64_def UnsafeVarint_many or_0x80_AND Let_def varint_head_def)
  qed
qed


lemma VarintParse32_UnsafeVarint64:
  assumes "pb_lib_ok L"
  shows "VarintParse32 L (UnsafeVarint v @ r) = Some (r, ucast v)"
proof -
  consider "unat v < 128" | "128 \<le> unat v" "unat v < 16384" | "16384 \<le> unat v" by linarith
  then show ?thesis
  proof cases
    case 1
    then have "unat (ucast v :: byte) < 128" by (simp add: unat_ucast_byte)
    moreover have "(ucast (ucast v :: byte) :: u32) = ucast v"
      using 1 by (intro iffD2 [OF word_unat_eq_iff]) (simp add: unsigned_ucast_eq unsigned_take_bit_eq take_bit_nat_eq_self)
    ultimately show ?thesis
      using 1 by (simp add: VarintParse32_def UnsafeVarint_last small_AND)
  next
    case 2
    then show ?thesis
      using varint_bytes [OF 2] varint_head_two [OF 2]
      by (simp add: VarintParse32_def UnsafeVarint_two or_0x80_AND small_AND Let_def del: push_bit_of_1)
  next
    case 3
    then show ?thesis
      using pb_lib_slow32 [OF assms 3, of r]
      by (simp add: VarintParse32_def UnsafeVarint_many or_0x80_AND Let_def varint_head_def)
  qed
qed

lemma VarintParse32_UnsafeVarint:
  "pb_lib_ok L \<Longrightarrow> VarintParse32 L (UnsafeVarint (ucast v) @ r) = Some (r, v)" for v :: u32
proof -
  have "ucast (ucast v :: u64) = v" by (rule bit_word_eqI) (auto simp: bit_simps)
  then show "pb_lib_ok L \<Longrightarrow> ?thesis" by (simp add: VarintParse32_UnsafeVarint64)
qed

lemma VarintParse64_sign_extended:
  "pb_lib_ok L \<Longrightarrow> VarintParse64 L (WriteVarint32SignExtendedToArray v @ r) = Some (r, scast v)"
  by (simp add: WriteVarint32SignExtendedToArray_def WriteVarint64ToArray_def VarintParse64_UnsafeVarint)

section \<open>The readers never give back input\<close>

lemma VarintParse_shrinks:
  assumes "pb_lib_ok L"
  shows "VarintParse64 L p = Some (r, v) \<Longrightarrow> length r < length p"
    and "VarintParse32 L p = Some (r, w) \<Longrightarrow> length r < length p"
    and "ReadTag L p = Some (r, w) \<Longrightarrow> length r < length p"
  by (auto dest!: pb_lib_shrinks [OF assms] simp: VarintParse64_def VarintParse32_def ReadTag_def Let_def split: list.splits if_splits)

section \<open>The parse loop\<close>

text \<open>A \<open>switch\<close> that leaves no more input than it was given.\<close>

definition field_shrinks :: "pb_lib \<Rightarrow> (pb_lib \<Rightarrow> u32 \<Rightarrow> bytes \<Rightarrow> 'm \<Rightarrow> 'm field_result) \<Rightarrow> bool" where
  "field_shrinks L field \<longleftrightarrow> (\<forall>tag p m m' r. field L tag p m = Handled m' r \<longrightarrow> length r \<le> length p)"

lemma parse_loop_enough:
  assumes "pb_lib_ok L" and "field_shrinks L field" and "length p < fuel"
  shows "parse_loop fuel L field keep p m = parse_loop (Suc (length p)) L field keep p m"
  using assms(3)
proof (induction "length p" arbitrary: p m fuel rule: less_induct)
  case less
  from less.prems obtain k where k: "fuel = Suc k" "length p \<le> k" by (cases fuel) auto
  have rec: "parse_loop k L field keep r m' = parse_loop (length p) L field keep r m'"
    if "length r < length p" for r m'
    using less.hyps [OF that, of k m'] less.hyps [OF that, of "length p" m'] that k(2) by simp
  have shrink: "ReadTag L p = Some (p', tag) \<Longrightarrow> length p' < length p" for p' tag
    using VarintParse_shrinks(3) [OF assms(1)] .
  have handled: "field L tag p' m = Handled m' r \<Longrightarrow> length r \<le> length p'" for tag p' m' r
    using assms(2) unfolding field_shrinks_def by blast
  have unknown: "UnknownFieldParse L tag p' = Some (raw, r) \<Longrightarrow> length r \<le> length p'" for tag p' raw r
    using pb_lib_shrinks(5) [OF assms(1)] .
  show ?case
    unfolding k(1) parse_loop.simps
    by (auto split: option.splits field_result.splits intro!: rec
        dest!: shrink handled unknown)
qed

text \<open>\<open>parse_from\<close> is the loop with enough rounds; its unfolding is the code's \<open>while\<close>.\<close>

definition parse_from ::
    "pb_lib \<Rightarrow> (pb_lib \<Rightarrow> u32 \<Rightarrow> bytes \<Rightarrow> 'm \<Rightarrow> 'm field_result) \<Rightarrow> (bytes \<Rightarrow> 'm \<Rightarrow> 'm) \<Rightarrow>
     bytes \<Rightarrow> 'm \<Rightarrow> ('m \<times> u32 option) option" where
  "parse_from L field keep p m = parse_loop (Suc (length p)) L field keep p m"

lemma parse_message_from:
  "parse_message L field keep init p =
     (case parse_from L field keep p init of Some (m, None) \<Rightarrow> Some m | _ \<Rightarrow> None)"
  by (simp only: parse_message_def parse_from_def)

lemma parse_from_Nil [simp]: "parse_from L field keep [] m = Some (m, None)"
  by (simp add: parse_from_def)

text \<open>One round that reads a field of the class, whose tag fits one byte.\<close>

lemma parse_from_field:
  assumes "pb_lib_ok L" and "field_shrinks L field"
    and "unat t < 128" and "field L (ucast t) p m = Handled m' r"
  shows "parse_from L field keep (t # p) m = parse_from L field keep r m'"
proof -
  have "length r \<le> length p" using assms(2,4) unfolding field_shrinks_def by blast
  then have "parse_loop (Suc (length p)) L field keep r m' = parse_from L field keep r m'"
    unfolding parse_from_def using assms(1,2) by (intro parse_loop_enough) simp_all
  moreover have "ReadTag L (t # p) = Some (p, ucast t)"
    using assms(3) by (simp add: ReadTag_def word_less_nat_alt)
  ultimately show ?thesis
    using assms(4) by (simp add: parse_from_def)
qed


text \<open>What every handled field and every kept field preserves, the whole parse preserves.\<close>

lemma parse_loop_invariant:
  assumes "parse_loop fuel L field keep p m = Some (m', t)" and "P m"
    and "\<And>tag p m m' r. field L tag p m = Handled m' r \<Longrightarrow> P m \<Longrightarrow> P m'"
    and "\<And>raw m. P m \<Longrightarrow> P (keep raw m)"
  shows "P m'"
  using assms(1,2)
proof (induction fuel arbitrary: p m)
  case 0
  then show ?case by simp
next
  case (Suc fuel)
  then show ?case
    using assms(3,4)
    by (fastforce split: if_splits option.splits field_result.splits)
qed

lemma parse_message_invariant:
  assumes "parse_message L field keep init p = Some m" and "P init"
    and "\<And>tag p m m' r. field L tag p m = Handled m' r \<Longrightarrow> P m \<Longrightarrow> P m'"
    and "\<And>raw m. P m \<Longrightarrow> P (keep raw m)"
  shows "P m"
proof -
  from assms(1) have "parse_loop (Suc (length p)) L field keep p init = Some (m, None)"
    unfolding parse_message_def by (auto simp del: parse_loop.simps split: option.splits prod.splits)
  then show ?thesis by (rule parse_loop_invariant [where P = P]) (use assms(2-4) in auto)
qed

section \<open>Flag words\<close>

text \<open>The tests and updates of a word of presence bits, bit by bit.\<close>

lemma flag_test: "w AND 1 = 0 \<longleftrightarrow> \<not> bit w 0" "w AND 2 = 0 \<longleftrightarrow> \<not> bit w 1" "w AND 4 = 0 \<longleftrightarrow> \<not> bit w 2"
  "w AND 8 = 0 \<longleftrightarrow> \<not> bit w 3" for w :: u32
  using and_exp_eq_0_iff_not_bit [of w 0] and_exp_eq_0_iff_not_bit [of w 1]
    and_exp_eq_0_iff_not_bit [of w 2] and_exp_eq_0_iff_not_bit [of w 3] by simp_all

lemma flag_bits: "bit (1 :: u32) n \<longleftrightarrow> n = 0" "bit (2 :: u32) n \<longleftrightarrow> n = 1" "bit (4 :: u32) n \<longleftrightarrow> n = 2"
  "bit (8 :: u32) n \<longleftrightarrow> n = 3" "bit (0xf :: u32) n \<longleftrightarrow> n < 4"
proof -
  have "bit (2 ^ k :: u32) n \<longleftrightarrow> n = k" if "k < 4" for k
    using that by (auto simp: bit_exp_iff)
  from this [of 0] this [of 1] this [of 2] this [of 3]
  show "bit (1 :: u32) n \<longleftrightarrow> n = 0" "bit (2 :: u32) n \<longleftrightarrow> n = 1" "bit (4 :: u32) n \<longleftrightarrow> n = 2"
    "bit (8 :: u32) n \<longleftrightarrow> n = 3" by simp_all
  have *: "(0xf :: u32) = mask 4" by (simp add: mask_eq_exp_minus_1)
  show "bit (0xf :: u32) n \<longleftrightarrow> n < 4" unfolding * by (auto simp: bit_mask_iff)
qed

lemma flag_nots: "bit (- 2 :: u32) n \<longleftrightarrow> n < 32 \<and> n \<noteq> 0" "bit (- 3 :: u32) n \<longleftrightarrow> n < 32 \<and> n \<noteq> 1"
  "bit (- 5 :: u32) n \<longleftrightarrow> n < 32 \<and> n \<noteq> 2" "bit (- 9 :: u32) n \<longleftrightarrow> n < 32 \<and> n \<noteq> 3"
proof -
  have "- 2 = NOT (1 :: u32)" "- 3 = NOT (2 :: u32)" "- 5 = NOT (4 :: u32)" "- 9 = NOT (8 :: u32)" by simp_all
  then show "bit (- 2 :: u32) n \<longleftrightarrow> n < 32 \<and> n \<noteq> 0" "bit (- 3 :: u32) n \<longleftrightarrow> n < 32 \<and> n \<noteq> 1"
    "bit (- 5 :: u32) n \<longleftrightarrow> n < 32 \<and> n \<noteq> 2" "bit (- 9 :: u32) n \<longleftrightarrow> n < 32 \<and> n \<noteq> 3"
    by (simp_all only: bit_not_iff flag_bits possible_bit_word) simp_all
qed

lemma flag_none: "w < 16 \<longleftrightarrow> (\<forall>n \<ge> 4. \<not> bit w n)" for w :: u32
proof -
  have "unat (drop_bit 4 w) = unat w div 16"
    by (simp only: unat_drop_bit_eq, simp only: drop_bit_eq_div, simp)
  then have "w < 16 \<longleftrightarrow> unat (drop_bit 4 w) = 0"
    by (simp only: word_less_nat_alt) (simp add: div_eq_0_iff)
  also have "\<dots> \<longleftrightarrow> drop_bit 4 w = 0" by (simp only: unat_eq_zero)
  also have "\<dots> \<longleftrightarrow> (\<forall>n. \<not> bit w (4 + n))"
  proof
    assume "drop_bit 4 w = 0"
    then have "\<not> bit (drop_bit 4 w) n" for n by (simp only: bit_0_eq) simp
    then show "\<forall>n. \<not> bit w (4 + n)" by (simp only: bit_drop_bit_eq comp_def) simp
  qed (auto intro: bit_word_eqI simp: bit_drop_bit_eq)
  also have "\<dots> \<longleftrightarrow> (\<forall>n \<ge> 4. \<not> bit w n)" by (metis le_add1 le_add_diff_inverse)
  finally show ?thesis .
qed

lemma flag_disjoint: "w AND k = 0 \<longleftrightarrow> (\<forall>n. bit k n \<longrightarrow> \<not> bit w n)" for w :: u32
proof
  assume *: "w AND k = 0"
  have "\<not> (bit w n \<and> bit k n)" for n
    using * by (metis bit_and_iff bit_0_eq bot_apply bot_bool_def)
  then show "\<forall>n. bit k n \<longrightarrow> \<not> bit w n" by blast
next
  assume *: "\<forall>n. bit k n \<longrightarrow> \<not> bit w n"
  show "w AND k = 0" by (rule bit_word_eqI) (use * in \<open>auto simp: bit_and_iff\<close>)
qed

lemma flag_masks: "w AND 3 = 0 \<longleftrightarrow> \<not> bit w 0 \<and> \<not> bit w 1" "w AND 0xc = 0 \<longleftrightarrow> \<not> bit w 2 \<and> \<not> bit w 3"
  "w AND 0xf = 0 \<longleftrightarrow> \<not> bit w 0 \<and> \<not> bit w 1 \<and> \<not> bit w 2 \<and> \<not> bit w 3" for w :: u32
proof -
  have 3: "(3 :: u32) = 1 OR 2" and c: "(0xc :: u32) = 4 OR 8" and f: "(0xf :: u32) = (1 OR 2) OR (4 OR 8)"
    by code_simp+
  show "w AND 3 = 0 \<longleftrightarrow> \<not> bit w 0 \<and> \<not> bit w 1" "w AND 0xc = 0 \<longleftrightarrow> \<not> bit w 2 \<and> \<not> bit w 3"
    "w AND 0xf = 0 \<longleftrightarrow> \<not> bit w 0 \<and> \<not> bit w 1 \<and> \<not> bit w 2 \<and> \<not> bit w 3"
    unfolding 3 c f flag_disjoint bit_or_iff flag_bits by blast+
qed

lemma flag_zero: "w < 16 \<Longrightarrow> w = 0 \<longleftrightarrow> \<not> bit w 0 \<and> \<not> bit w 1 \<and> \<not> bit w 2 \<and> \<not> bit w 3" for w :: u32
proof -
  assume "w < 16"
  then have hi: "\<not> bit w n" if "4 \<le> n" for n using that unfolding flag_none by blast
  have "w = 0" if "\<not> bit w 0 \<and> \<not> bit w 1 \<and> \<not> bit w 2 \<and> \<not> bit w 3"
  proof (rule bit_word_eqI)
    fix n :: nat
    consider "n = 0" | "n = 1" | "n = 2" | "n = 3" | "4 \<le> n" by linarith
    then show "bit w n \<longleftrightarrow> bit (0 :: u32) n" using that hi [of n] by cases simp_all
  qed
  then show ?thesis by auto
qed

declare bit_numeral_word_iff [simp del] bit_neg_numeral_word_iff [simp del]

lemmas flag_simps = flag_test flag_bits flag_nots flag_none bit_or_iff bit_and_iff bit_not_iff

lemma flag_merge: "bit w 0 \<Longrightarrow> 1 OR w = w" "bit w 1 \<Longrightarrow> 2 OR w = w" "bit w 0 \<Longrightarrow> bit w 1 \<Longrightarrow> 3 OR w = w"
  for w :: u32
proof -
  show 1: "bit w 0 \<Longrightarrow> 1 OR w = w" by (rule bit_word_eqI) (auto simp: bit_or_iff flag_bits)
  show 2: "bit w 1 \<Longrightarrow> 2 OR w = w" by (rule bit_word_eqI) (auto simp: bit_or_iff flag_bits)
  have "(3 :: u32) = 1 OR 2" by code_simp
  then show "bit w 0 \<Longrightarrow> bit w 1 \<Longrightarrow> 3 OR w = w" using 1 2 by (simp only: or.assoc)
qed

section \<open>Tags and strings that were written\<close>

lemma UnsafeVarint_small: "unat (t :: u32) < 128 \<Longrightarrow> UnsafeVarint (ucast t) = [ucast t]"
  by (simp add: UnsafeVarint_last ucast_ucast_byte)

lemma WriteTag_byte: "unat (MakeTag num wt) < 128 \<Longrightarrow> WriteTagToArray num wt = [ucast (MakeTag num wt)]"
  by (simp add: WriteTagToArray_def WriteVarint32ToArray_def UnsafeVarint_small)

definition length_prefixed :: "bytes \<Rightarrow> bytes" where
  "length_prefixed s = UnsafeWriteSize (of_nat (length s)) @ s"

lemma WriteStringMaybeAliased_eq:
  assumes "pb_lib_ok L" and "length s < 2 ^ 31" and "unat (MakeTag num 2) < 128"
  shows "WriteStringMaybeAliased L num s = ucast (MakeTag num 2) # length_prefixed s"
proof (cases "128 \<le> length s")
  case True
  then show ?thesis
    using assms pb_lib_outline [OF assms(1) True assms(2), of num]
    by (simp add: WriteStringMaybeAliased_def WriteLengthDelim_def UnsafeVarint_small length_prefixed_def)
next
  case False
  then have u: "unat (of_nat (length s) :: u32) = length s" by (intro unat_of_nat_u32) simp
  then have "UnsafeWriteSize (of_nat (length s)) = [ucast (of_nat (length s) :: u32)]"
    using False by (simp only: UnsafeWriteSize_eq UnsafeVarint_small not_le)
  moreover have "(ucast (of_nat (length s) :: u32) :: byte) = of_nat (length s)"
    by (metis u of_nat_unat)
  moreover have "MakeTag num 2 = push_bit 3 num OR 2" by (simp only: MakeTag_def)
  ultimately show ?thesis
    using False assms(3)
    by (simp add: WriteStringMaybeAliased_def length_prefixed_def UnsafeVarint_small)
qed

lemma length_length_prefixed: "length (length_prefixed s) = LengthDelimitedSize (length s)"
  by (simp add: length_prefixed_def LengthDelimitedSize_def VarintSize32_eq UnsafeWriteSize_eq)

lemma read_length_prefixed:
  "pb_lib_ok L \<Longrightarrow> length s < 2 ^ 31 - 16 \<Longrightarrow>
     InlineGreedyStringParser L (length_prefixed s @ r) = Some (r, s)"
  using pb_lib_string [of L s r] by (simp add: length_prefixed_def)

section \<open>A library that satisfies the laws\<close>

definition slow64_ref :: "bytes \<Rightarrow> u32 \<Rightarrow> (bytes \<times> u64) option" where
  "slow64_ref p h = map_option (\<lambda>(n, r). (r, of_nat n)) (varint_decode p)"

definition slow32_ref :: "bytes \<Rightarrow> u32 \<Rightarrow> (bytes \<times> u32) option" where
  "slow32_ref p h = map_option (\<lambda>(n, r). (r, of_nat n)) (varint_decode p)"

definition string_ref :: "bytes \<Rightarrow> (bytes \<times> bytes) option" where
  "string_ref p =
     (case varint_decode p of
        None \<Rightarrow> None
      | Some (n, r) \<Rightarrow> if n \<le> length r then Some (drop n r, take n r) else None)"

definition unknown_ref :: "u32 \<Rightarrow> bytes \<Rightarrow> (bytes \<times> bytes) option" where
  "unknown_ref tag p =
     (if tag AND 7 = 0 then
        map_option (\<lambda>(n, r). (WriteVarint32ToArray tag @ take (length p - length r) p, r)) (varint_decode p)
      else if tag AND 7 = 5 \<and> 4 \<le> length p then Some (WriteVarint32ToArray tag @ take 4 p, drop 4 p)
      else None)"

definition ref_lib :: pb_lib where
  "ref_lib = \<lparr>VarintParseSlow64 = slow64_ref, VarintParseSlow32 = slow32_ref,
     ReadTagFallback = slow32_ref, InlineGreedyStringParser = string_ref,
     WriteStringMaybeAliasedOutline = (\<lambda>num s. WriteLengthDelim num (of_nat (length s)) @ s),
     VerifyUTF8 = (\<lambda>s. \<forall>b \<in> set s. b < 128), UnknownFieldParse = unknown_ref,
     ReadSizeFallback = (\<lambda>p h. map_option (\<lambda>(n, r). (r, n)) (varint_decode p)),
     InternalWriteMessage = (\<lambda>num n bs. WriteTagToArray num 2 @ WriteVarint32ToArray (of_nat n) @ bs),
     ZeroFieldsParse = (\<lambda>p. if p = [] then Some [] else None), ZeroFieldsSerialize = id\<rparr>"

lemma varint_decode_shrinks: "varint_decode p = Some (n, r) \<Longrightarrow> length r < length p"
  by (induction p arbitrary: n r) (fastforce split: if_splits option.splits)+

lemma varint_decode_length_prefixed:
  "length s < 2 ^ 32 \<Longrightarrow> varint_decode (UnsafeWriteSize (of_nat (length s)) @ r) = Some (length s, r)"
  by (simp add: UnsafeWriteSize_eq varint_decode_UnsafeVarint unat_of_nat_u32)

lemma ref_lib_ok: "pb_lib_ok ref_lib"
proof -
  have "slow64_ref p h = Some (r, v64) \<Longrightarrow> length r < length p" for p h r v64
    by (auto simp: slow64_ref_def dest: varint_decode_shrinks)
  moreover have "slow32_ref p h = Some (r, v32) \<Longrightarrow> length r < length p" for p h r v32
    by (auto simp: slow32_ref_def dest: varint_decode_shrinks)
  moreover have "string_ref p = Some (r, s) \<Longrightarrow> length r < length p" for p r s
    by (auto simp: string_ref_def split: option.splits if_splits dest!: varint_decode_shrinks)
  moreover have "unknown_ref tag p = Some (raw, r) \<Longrightarrow> length r \<le> length p" for tag p raw r
    by (auto simp: unknown_ref_def split: if_splits dest!: varint_decode_shrinks)
  moreover have "string_ref (UnsafeWriteSize (of_nat (length s)) @ s @ r) = Some (r, s)"
    if "length s < 2 ^ 31 - 16" for s r
    using that varint_decode_length_prefixed [of s "s @ r"] by (simp add: string_ref_def)
  moreover have "slow64_ref (UnsafeVarint v @ r) h = Some (r, v)" for v r h
    by (simp add: slow64_ref_def varint_decode_UnsafeVarint)
  moreover have "slow32_ref (UnsafeVarint v @ r) h = Some (r, ucast v)" for v r h
    by (simp add: slow32_ref_def varint_decode_UnsafeVarint)
  moreover have "varint_decode (UnsafeWriteSize (of_nat n) @ r) = Some (n, r)" if "n < 2 ^ 31 - 16" for n r
    using that by (simp add: UnsafeWriteSize_eq varint_decode_UnsafeVarint unat_of_nat_u32)
  ultimately show ?thesis
    unfolding pb_lib_ok_def pb_varints_def pb_strings_def pb_messages_def pb_progress_def ref_lib_def
    by (auto dest: varint_decode_shrinks)
qed

section \<open>Message classes\<close>

text \<open>
  What the packet helpers use of a message class: its size, its bytes, its parser. \<open>wf\<close> is the
  set of messages for which the class promises to be read back: text is UTF-8, no length exceeds
  what the library accepts, and no unknown fields are kept.
\<close>

locale codec =
  fixes byte_size :: "'m \<Rightarrow> nat"
    and ser :: "pb_lib \<Rightarrow> 'm \<Rightarrow> bytes"
    and parse :: "pb_lib \<Rightarrow> bytes \<Rightarrow> 'm option"
    and wf :: "pb_lib \<Rightarrow> 'm \<Rightarrow> bool"
  assumes ser_size: "pb_lib_ok L \<Longrightarrow> wf L m \<Longrightarrow> length (ser L m) = byte_size m"
    and ser_parse: "pb_lib_ok L \<Longrightarrow> wf L m \<Longrightarrow> parse L (ser L m) = Some m"
    and size_int: "wf L m \<Longrightarrow> byte_size m < 2 ^ 31"
begin

lemma Deserialize_ser:
  assumes "pb_lib_ok L" and "wf L m" and "FindMessageTypeByName type"
  shows "Deserialize (parse L) (ser L m @ rest) (of_nat (byte_size m)) type = Inr (Some m)"
proof -
  have n: "length (ser L m) = byte_size m" "byte_size m < 2147483648"
    using ser_size [OF assms(1,2)] size_int [OF assms(2)] by simp_all
  then have s: "sint (ucast (of_nat (byte_size m) :: u64) :: int32) = int (byte_size m)"
    using sint_of_nat_small [OF n(2)] by (simp add: unsigned_of_nat take_bit_nat_eq_self)
  show ?thesis
    unfolding Deserialize_def s Let_def using n ser_parse [OF assms(1,2)] assms(3) by simp
qed

lemma Serialize_Some:
  assumes "pb_lib_ok L" and "wf L m"
  shows "Serialize byte_size (ser L) (Some m) cap =
     (if byte_size m \<le> cap then Some (ser L m) else None)"
  by (simp add: Serialize_def not_less)

lemma Serialize_roundtrip:
  assumes "pb_lib_ok L" and "wf L m" and "FindMessageTypeByName type"
    and "Serialize byte_size (ser L) (Some m) cap = Some bs"
  shows "length bs = byte_size m" and "length bs \<le> cap"
    and "Deserialize (parse L) (bs @ rest) (of_nat (length bs)) type = Inr (Some m)"
  using assms Deserialize_ser [OF assms(1-3)] ser_size [OF assms(1,2)]
  by (auto simp: Serialize_def split: if_splits)

end


section \<open>Properties\<close>

text \<open>What the varint writers write, the inline readers read back, whatever follows: 64-bit values,
  32-bit values, and negative 32-bit integers through their sign extension to ten bytes. The readers
  handle one and two bytes themselves and rely on the library only for longer varints.\<close>

lemma varint_write_read:
  assumes "pb_lib_ok L"
  shows "VarintParse64 L (WriteVarint64ToArray v @ r) = Some (r, v) \<and>
     VarintParse32 L (WriteVarint32ToArray w @ r) = Some (r, w) \<and>
     VarintParse64 L (WriteVarint32SignExtendedToArray i @ r) = Some (r, scast i)"
  using assms by (simp add: WriteVarint64ToArray_def WriteVarint32ToArray_def
      VarintParse64_UnsafeVarint VarintParse32_UnsafeVarint VarintParse64_sign_extended)

text \<open>The size computations, which multiply the position of the highest bit found by binary search by
  nine and divide by 64, are exactly the number of bytes that the writers produce: one byte per seven
  bits, at most ten. \<open>UnsafeWriteSize\<close> writes the same bytes as \<open>UnsafeVarint\<close>.\<close>

lemma varint_size_exact:
  "VarintSize64 v = length (WriteVarint64ToArray v) \<and> VarintSize32 w = length (WriteVarint32ToArray w) \<and>
   VarintSize32SignExtended i = length (WriteVarint32SignExtendedToArray i) \<and>
   VarintSize32PlusOne w = VarintSize32 w + 1 \<and> VarintSize64 v \<le> 10 \<and>
   UnsafeWriteSize w = WriteVarint32ToArray w"
  by (simp add: WriteVarint64ToArray_def WriteVarint32ToArray_def WriteVarint32SignExtendedToArray_def
      VarintSize32SignExtended_def VarintSize64_eq VarintSize32_eq VarintSizePlusOne UnsafeWriteSize_eq
      length_UnsafeVarint_le)

end
