(* ===== verification/Message_Header.thy ===== *)
theory Message_Header
  imports Wire_Codec
begin

unbundle bit_operations_syntax

text \<open>
  The generated class \<^verbatim>\<open>CKPacket::messageHeader\<close> (\<^verbatim>\<open>Packet/messageHeader.pb.h\<close>, \<^verbatim>\<open>.pb.cc\<close>), the
  envelope of every packet, and the helpers of \<^verbatim>\<open>PacketUtil.h\<close> that put it on and take it off:
  \<open>MakePackedHeader\<close>, \<open>Pack\<close>, \<open>Unpack\<close>. All four fields are proto3 \<open>optional\<close>, so each has a bit
  in \<open>has_bits\<close>: type 1, arr 2, userId 4, arrSize 8.
\<close>

section \<open>The class\<close>

record messageHeader =
  hdr_has_bits :: u32
  hdr_type :: string
  hdr_arr :: bytes
  hdr_userid :: u32
  hdr_arrsize :: u32
  hdr_unknown :: bytes

definition messageHeader_new :: messageHeader where
  "messageHeader_new =
     \<lparr>hdr_has_bits = 0, hdr_type = [], hdr_arr = [], hdr_userid = 0, hdr_arrsize = 0, hdr_unknown = []\<rparr>"

definition messageHeader_copy :: "messageHeader \<Rightarrow> messageHeader" where
  "messageHeader_copy from =
     \<lparr>hdr_has_bits = hdr_has_bits from,
      hdr_type = (if hdr_has_bits from AND 1 \<noteq> 0 then hdr_type from else []),
      hdr_arr = (if hdr_has_bits from AND 2 \<noteq> 0 then hdr_arr from else []),
      hdr_userid = hdr_userid from, hdr_arrsize = hdr_arrsize from, hdr_unknown = hdr_unknown from\<rparr>"

subsection \<open>Accessors\<close>

definition has_userid :: "messageHeader \<Rightarrow> bool" where
  "has_userid m \<longleftrightarrow> hdr_has_bits m AND 4 \<noteq> 0"

definition clear_userid :: "messageHeader \<Rightarrow> messageHeader" where
  "clear_userid m = m\<lparr>hdr_userid := 0, hdr_has_bits := hdr_has_bits m AND NOT 4\<rparr>"

definition set_userid :: "u32 \<Rightarrow> messageHeader \<Rightarrow> messageHeader" where
  "set_userid v m = m\<lparr>hdr_has_bits := hdr_has_bits m OR 4, hdr_userid := v\<rparr>"

definition has_type :: "messageHeader \<Rightarrow> bool" where
  "has_type m \<longleftrightarrow> hdr_has_bits m AND 1 \<noteq> 0"

definition clear_type :: "messageHeader \<Rightarrow> messageHeader" where
  "clear_type m = m\<lparr>hdr_type := [], hdr_has_bits := hdr_has_bits m AND NOT 1\<rparr>"

definition set_type :: "string \<Rightarrow> messageHeader \<Rightarrow> messageHeader" where
  "set_type v m = m\<lparr>hdr_has_bits := hdr_has_bits m OR 1, hdr_type := v\<rparr>"

text \<open>\<open>mutable_type\<close> returns a pointer to the string; the field counts as present from then on.\<close>

definition mutable_type :: "messageHeader \<Rightarrow> string \<times> messageHeader" where
  "mutable_type m = (hdr_type m, m\<lparr>hdr_has_bits := hdr_has_bits m OR 1\<rparr>)"

definition release_type :: "messageHeader \<Rightarrow> string option \<times> messageHeader" where
  "release_type m =
     (if \<not> has_type m then (None, m)
      else (Some (hdr_type m), m\<lparr>hdr_has_bits := hdr_has_bits m AND NOT 1, hdr_type := []\<rparr>))"

definition set_allocated_type :: "string option \<Rightarrow> messageHeader \<Rightarrow> messageHeader" where
  "set_allocated_type t m =
     (case t of
        Some s \<Rightarrow> m\<lparr>hdr_has_bits := hdr_has_bits m OR 1, hdr_type := s\<rparr>
      | None \<Rightarrow> m\<lparr>hdr_has_bits := hdr_has_bits m AND NOT 1, hdr_type := []\<rparr>)"

definition has_arr :: "messageHeader \<Rightarrow> bool" where
  "has_arr m \<longleftrightarrow> hdr_has_bits m AND 2 \<noteq> 0"

definition clear_arr :: "messageHeader \<Rightarrow> messageHeader" where
  "clear_arr m = m\<lparr>hdr_arr := [], hdr_has_bits := hdr_has_bits m AND NOT 2\<rparr>"

definition set_arr :: "bytes \<Rightarrow> messageHeader \<Rightarrow> messageHeader" where
  "set_arr v m = m\<lparr>hdr_has_bits := hdr_has_bits m OR 2, hdr_arr := v\<rparr>"

definition mutable_arr :: "messageHeader \<Rightarrow> bytes \<times> messageHeader" where
  "mutable_arr m = (hdr_arr m, m\<lparr>hdr_has_bits := hdr_has_bits m OR 2\<rparr>)"

definition release_arr :: "messageHeader \<Rightarrow> bytes option \<times> messageHeader" where
  "release_arr m =
     (if \<not> has_arr m then (None, m)
      else (Some (hdr_arr m), m\<lparr>hdr_has_bits := hdr_has_bits m AND NOT 2, hdr_arr := []\<rparr>))"

definition set_allocated_arr :: "bytes option \<Rightarrow> messageHeader \<Rightarrow> messageHeader" where
  "set_allocated_arr t m =
     (case t of
        Some s \<Rightarrow> m\<lparr>hdr_has_bits := hdr_has_bits m OR 2, hdr_arr := s\<rparr>
      | None \<Rightarrow> m\<lparr>hdr_has_bits := hdr_has_bits m AND NOT 2, hdr_arr := []\<rparr>)"

definition has_arrsize :: "messageHeader \<Rightarrow> bool" where
  "has_arrsize m \<longleftrightarrow> hdr_has_bits m AND 8 \<noteq> 0"

definition clear_arrsize :: "messageHeader \<Rightarrow> messageHeader" where
  "clear_arrsize m = m\<lparr>hdr_arrsize := 0, hdr_has_bits := hdr_has_bits m AND NOT 8\<rparr>"

definition set_arrsize :: "u32 \<Rightarrow> messageHeader \<Rightarrow> messageHeader" where
  "set_arrsize v m = m\<lparr>hdr_has_bits := hdr_has_bits m OR 8, hdr_arrsize := v\<rparr>"

subsection \<open>Clear, merge, copy, swap\<close>

definition messageHeader_Clear :: "messageHeader \<Rightarrow> messageHeader" where
  "messageHeader_Clear m =
     (let b = hdr_has_bits m;
          m1 = (if b AND 0x3 \<noteq> 0 then
                  (let m' = (if b AND 0x1 \<noteq> 0 then m\<lparr>hdr_type := []\<rparr> else m)
                   in if b AND 0x2 \<noteq> 0 then m'\<lparr>hdr_arr := []\<rparr> else m')
                else m);
          m2 = (if b AND 0xc \<noteq> 0 then m1\<lparr>hdr_userid := 0, hdr_arrsize := 0\<rparr> else m1)
      in m2\<lparr>hdr_has_bits := 0, hdr_unknown := []\<rparr>)"

definition messageHeader_MergeImpl :: "messageHeader \<Rightarrow> messageHeader \<Rightarrow> messageHeader" where
  "messageHeader_MergeImpl this from =
     (let b = hdr_has_bits from;
          m = (if b AND 0xf \<noteq> 0 then
                 (let m1 = (if b AND 0x1 \<noteq> 0 then set_type (hdr_type from) this else this);
                      m2 = (if b AND 0x2 \<noteq> 0 then set_arr (hdr_arr from) m1 else m1);
                      m3 = (if b AND 0x4 \<noteq> 0 then m2\<lparr>hdr_userid := hdr_userid from\<rparr> else m2);
                      m4 = (if b AND 0x8 \<noteq> 0 then m3\<lparr>hdr_arrsize := hdr_arrsize from\<rparr> else m3)
                  in m4\<lparr>hdr_has_bits := hdr_has_bits m4 OR b\<rparr>)
               else this)
      in m\<lparr>hdr_unknown := hdr_unknown m @ hdr_unknown from\<rparr>)"

definition messageHeader_CopyFrom :: "messageHeader \<Rightarrow> messageHeader \<Rightarrow> messageHeader" where
  "messageHeader_CopyFrom this from = messageHeader_MergeImpl (messageHeader_Clear this) from"

definition messageHeader_InternalSwap :: "messageHeader \<Rightarrow> messageHeader \<Rightarrow> messageHeader \<times> messageHeader" where
  "messageHeader_InternalSwap this other =
     (\<lparr>hdr_has_bits = hdr_has_bits other, hdr_type = hdr_type other, hdr_arr = hdr_arr other,
       hdr_userid = hdr_userid other, hdr_arrsize = hdr_arrsize other, hdr_unknown = hdr_unknown other\<rparr>,
      \<lparr>hdr_has_bits = hdr_has_bits this, hdr_type = hdr_type this, hdr_arr = hdr_arr this,
       hdr_userid = hdr_userid this, hdr_arrsize = hdr_arrsize this, hdr_unknown = hdr_unknown this\<rparr>)"

subsection \<open>Size, serialisation, parser\<close>

definition messageHeader_ByteSizeLong :: "messageHeader \<Rightarrow> nat" where
  "messageHeader_ByteSizeLong m =
     (let b = hdr_has_bits m in
      (if b AND 0xf \<noteq> 0 then
         (if b AND 0x1 \<noteq> 0 then 1 + StringSize (bytes_of_string (hdr_type m)) else 0) +
         (if b AND 0x2 \<noteq> 0 then 1 + StringSize (hdr_arr m) else 0) +
         (if b AND 0x4 \<noteq> 0 then UInt32SizePlusOne (hdr_userid m) else 0) +
         (if b AND 0x8 \<noteq> 0 then UInt32SizePlusOne (hdr_arrsize m) else 0)
       else 0) + length (hdr_unknown m))"

definition messageHeader_InternalSerialize :: "pb_lib \<Rightarrow> messageHeader \<Rightarrow> bytes" where
  "messageHeader_InternalSerialize L m =
     (if has_userid m then WriteUInt32ToArray 1 (hdr_userid m) else []) @
     (if has_type m then WriteStringMaybeAliased L 2 (bytes_of_string (hdr_type m)) else []) @
     (if has_arr m then WriteStringMaybeAliased L 3 (hdr_arr m) else []) @
     (if has_arrsize m then WriteUInt32ToArray 4 (hdr_arrsize m) else []) @
     hdr_unknown m"

text \<open>The \<open>switch\<close> of \<open>_InternalParse\<close>: the field number selects the case, the low byte of the tag checks the wire type.\<close>

definition messageHeader_field :: "pb_lib \<Rightarrow> u32 \<Rightarrow> bytes \<Rightarrow> messageHeader \<Rightarrow> messageHeader field_result" where
  "messageHeader_field L tag p m =
     (if drop_bit 3 tag = 1 then
        (if (ucast tag :: byte) = 8 then
           (case VarintParse32 L p of
              None \<Rightarrow> Failure
            | Some (r, v) \<Rightarrow> Handled (m\<lparr>hdr_has_bits := hdr_has_bits m OR 4, hdr_userid := v\<rparr>) r)
         else Unusual)
      else if drop_bit 3 tag = 2 then
        (if (ucast tag :: byte) = 18 then
           (case InlineGreedyStringParser L p of
              None \<Rightarrow> Failure
            | Some (r, s) \<Rightarrow>
                if VerifyUTF8 L s
                then Handled (m\<lparr>hdr_has_bits := hdr_has_bits m OR 1, hdr_type := string_of_bytes s\<rparr>) r
                else Failure)
         else Unusual)
      else if drop_bit 3 tag = 3 then
        (if (ucast tag :: byte) = 26 then
           (case InlineGreedyStringParser L p of
              None \<Rightarrow> Failure
            | Some (r, s) \<Rightarrow> Handled (m\<lparr>hdr_has_bits := hdr_has_bits m OR 2, hdr_arr := s\<rparr>) r)
         else Unusual)
      else if drop_bit 3 tag = 4 then
        (if (ucast tag :: byte) = 32 then
           (case VarintParse32 L p of
              None \<Rightarrow> Failure
            | Some (r, v) \<Rightarrow> Handled (m\<lparr>hdr_has_bits := hdr_has_bits m OR 8, hdr_arrsize := v\<rparr>) r)
         else Unusual)
      else Unusual)"

definition messageHeader_keep :: "bytes \<Rightarrow> messageHeader \<Rightarrow> messageHeader" where
  "messageHeader_keep raw m = m\<lparr>hdr_unknown := hdr_unknown m @ raw\<rparr>"

definition messageHeader_InternalParse :: "pb_lib \<Rightarrow> bytes \<Rightarrow> messageHeader \<Rightarrow> (messageHeader \<times> u32 option) option" where
  "messageHeader_InternalParse L p m =
     parse_loop (Suc (length p)) L messageHeader_field messageHeader_keep p m"

definition messageHeader_parse :: "pb_lib \<Rightarrow> bytes \<Rightarrow> messageHeader option" where
  "messageHeader_parse L p =
     parse_message L messageHeader_field messageHeader_keep messageHeader_new p"

section \<open>The class invariant\<close>

text \<open>No bit beyond the four fields, and a field whose bit is off holds its default.\<close>

definition messageHeader_inv :: "messageHeader \<Rightarrow> bool" where
  "messageHeader_inv m \<longleftrightarrow> hdr_has_bits m < 16 \<and>
     (\<not> has_type m \<longrightarrow> hdr_type m = []) \<and> (\<not> has_arr m \<longrightarrow> hdr_arr m = []) \<and>
     (\<not> has_userid m \<longrightarrow> hdr_userid m = 0) \<and> (\<not> has_arrsize m \<longrightarrow> hdr_arrsize m = 0)"

lemmas header_has = has_type_def has_arr_def has_userid_def has_arrsize_def


lemma has_iff: "has_type m \<longleftrightarrow> bit (hdr_has_bits m) 0" "has_arr m \<longleftrightarrow> bit (hdr_has_bits m) 1"
  "has_userid m \<longleftrightarrow> bit (hdr_has_bits m) 2" "has_arrsize m \<longleftrightarrow> bit (hdr_has_bits m) 3"
  by (simp_all add: header_has flag_test)

lemmas header_inv_simps = messageHeader_inv_def has_iff flag_simps

lemma messageHeader_inv_new [simp]: "messageHeader_inv messageHeader_new"
  by (simp add: header_inv_simps messageHeader_new_def)

lemma messageHeader_inv_clear:
  assumes "messageHeader_inv m"
  shows "messageHeader_inv (clear_userid m)" "messageHeader_inv (clear_type m)"
    "messageHeader_inv (clear_arr m)" "messageHeader_inv (clear_arrsize m)"
  using assms
  by (auto simp: header_inv_simps clear_userid_def clear_type_def clear_arr_def clear_arrsize_def)

lemma messageHeader_inv_set:
  assumes "messageHeader_inv m"
  shows "messageHeader_inv (set_userid v m)" "messageHeader_inv (set_type t m)"
    "messageHeader_inv (set_arr a m)" "messageHeader_inv (set_arrsize v m)"
  using assms
  by (auto simp: header_inv_simps set_userid_def set_type_def set_arr_def set_arrsize_def)

lemma messageHeader_inv_alloc:
  assumes "messageHeader_inv m"
  shows "messageHeader_inv (snd (release_type m))" "messageHeader_inv (snd (release_arr m))"
    "messageHeader_inv (set_allocated_type t m)" "messageHeader_inv (set_allocated_arr a m)"
  using assms
  by (auto simp: header_inv_simps release_type_def release_arr_def set_allocated_type_def
      set_allocated_arr_def split: option.splits)

lemma messageHeader_inv_Clear: "messageHeader_inv m \<Longrightarrow> messageHeader_Clear m = messageHeader_new"
  by (cases "has_type m"; cases "has_arr m"; cases "has_userid m"; cases "has_arrsize m")
    (simp_all add: messageHeader_Clear_def messageHeader_new_def header_inv_simps Let_def flag_masks)

lemma messageHeader_inv_Merge:
  assumes "messageHeader_inv this" and "messageHeader_inv from"
  shows "messageHeader_inv (messageHeader_MergeImpl this from)"
  using assms
  by (auto simp: header_inv_simps messageHeader_MergeImpl_def Let_def set_type_def set_arr_def flag_masks)

lemma messageHeader_inv_copy: "messageHeader_inv m \<Longrightarrow> messageHeader_copy m = m"
  by (auto simp: header_inv_simps messageHeader_copy_def)

lemma messageHeader_CopyFrom_eq:
  assumes "messageHeader_inv this" and "messageHeader_inv from"
  shows "messageHeader_CopyFrom this from = from" (is "?c = from")
proof -
  note c = messageHeader_CopyFrom_def messageHeader_inv_Clear [OF assms(1)] messageHeader_MergeImpl_def
    Let_def flag_masks flag_test set_type_def set_arr_def
  note inv = assms(2) [unfolded messageHeader_inv_def has_iff]
  let ?b = "hdr_has_bits from"
  have z: "?b = 0 \<longleftrightarrow> \<not> bit ?b 0 \<and> \<not> bit ?b 1 \<and> \<not> bit ?b 2 \<and> \<not> bit ?b 3"
    using flag_zero inv by blast
  have "hdr_has_bits ?c = ?b"
    using z by (cases "bit ?b 0"; cases "bit ?b 1") (simp_all add: c messageHeader_new_def flag_merge)
  moreover have "hdr_type ?c = hdr_type from"
    using inv by (cases "bit ?b 0") (simp_all add: c messageHeader_new_def)
  moreover have "hdr_arr ?c = hdr_arr from"
    using inv by (cases "bit ?b 1") (simp_all add: c messageHeader_new_def)
  moreover have "hdr_userid ?c = hdr_userid from"
    using inv by (cases "bit ?b 2") (simp_all add: c messageHeader_new_def)
  moreover have "hdr_arrsize ?c = hdr_arrsize from"
    using inv by (cases "bit ?b 3") (simp_all add: c messageHeader_new_def)
  moreover have "hdr_unknown ?c = hdr_unknown from"
    by (simp add: c messageHeader_new_def)
  ultimately show ?thesis by (intro messageHeader.equality) simp_all
qed

lemmas header_inv_set = messageHeader_inv_set
  [unfolded set_userid_def set_type_def set_arr_def set_arrsize_def]

lemma messageHeader_field_inv:
  "messageHeader_field L tag p m = Handled m' r \<Longrightarrow> messageHeader_inv m \<Longrightarrow> messageHeader_inv m'"
  by (auto simp: messageHeader_field_def split: if_splits option.splits intro: header_inv_set)

lemma messageHeader_keep_inv: "messageHeader_inv m \<Longrightarrow> messageHeader_inv (messageHeader_keep raw m)"
  by (simp add: messageHeader_keep_def messageHeader_inv_def header_has)

lemma messageHeader_parse_inv:
  assumes "messageHeader_parse L p = Some m"
  shows "messageHeader_inv m"
  using assms unfolding messageHeader_parse_def
  by (rule parse_message_invariant) (auto intro: messageHeader_field_inv messageHeader_keep_inv)


section \<open>Size and round trip\<close>

definition messageHeader_wf :: "pb_lib \<Rightarrow> messageHeader \<Rightarrow> bool" where
  "messageHeader_wf L m \<longleftrightarrow> messageHeader_inv m \<and> hdr_unknown m = [] \<and>
     VerifyUTF8 L (bytes_of_string (hdr_type m)) \<and> messageHeader_ByteSizeLong m < 2 ^ 31 - 16"

lemma header_tags:
  "WriteUInt32ToArray 1 v = 8 # WriteVarint32ToArray v"
  "WriteUInt32ToArray 4 v = 32 # WriteVarint32ToArray v"
  "pb_lib_ok L \<Longrightarrow> length s < 2 ^ 31 \<Longrightarrow> WriteStringMaybeAliased L 2 s = 18 # length_prefixed s"
  "pb_lib_ok L \<Longrightarrow> length s < 2 ^ 31 \<Longrightarrow> WriteStringMaybeAliased L 3 s = 26 # length_prefixed s"
proof -
  have t: "MakeTag 1 0 = 8" "MakeTag 4 0 = 32" "MakeTag 2 2 = 18" "MakeTag 3 2 = 26"
    by code_simp+
  show "WriteUInt32ToArray 1 v = 8 # WriteVarint32ToArray v" "WriteUInt32ToArray 4 v = 32 # WriteVarint32ToArray v"
    using WriteTag_byte [of 1 0] WriteTag_byte [of 4 0] by (simp_all add: WriteUInt32ToArray_def t)
  show "pb_lib_ok L \<Longrightarrow> length s < 2 ^ 31 \<Longrightarrow> WriteStringMaybeAliased L 2 s = 18 # length_prefixed s"
    "pb_lib_ok L \<Longrightarrow> length s < 2 ^ 31 \<Longrightarrow> WriteStringMaybeAliased L 3 s = 26 # length_prefixed s"
    using WriteStringMaybeAliased_eq [of L s 2] WriteStringMaybeAliased_eq [of L s 3] by (simp_all add: t)
qed

lemma length_WriteVarint32: "Suc (length (WriteVarint32ToArray v)) = UInt32SizePlusOne v"
  by (simp add: WriteVarint32ToArray_def UInt32SizePlusOne_def VarintSizePlusOne VarintSize32_eq)

lemma wf_lengths:
  assumes "messageHeader_wf L m"
  shows "length (hdr_type m) < 2 ^ 31 - 16" and "length (hdr_arr m) < 2 ^ 31 - 16"
proof -
  from assms have inv: "messageHeader_inv m" and b: "messageHeader_ByteSizeLong m < 2 ^ 31 - 16"
    by (simp_all add: messageHeader_wf_def)
  show "length (hdr_type m) < 2 ^ 31 - 16"
    using inv b by (cases "has_type m")
      (auto simp: messageHeader_ByteSizeLong_def header_inv_simps flag_masks Let_def StringSize_def LengthDelimitedSize_def)
  show "length (hdr_arr m) < 2 ^ 31 - 16"
    using inv b by (cases "has_arr m")
      (auto simp: messageHeader_ByteSizeLong_def header_inv_simps flag_masks Let_def StringSize_def LengthDelimitedSize_def
        split: if_splits)
qed

lemma messageHeader_size:
  assumes "pb_lib_ok L" and "messageHeader_wf L m"
  shows "length (messageHeader_InternalSerialize L m) = messageHeader_ByteSizeLong m"
proof -
  have "length (bytes_of_string (hdr_type m)) < 2 ^ 31" "length (hdr_arr m) < 2 ^ 31"
    using wf_lengths [OF assms(2)] by simp_all
  then show ?thesis
    using assms(1) by (auto simp: messageHeader_InternalSerialize_def messageHeader_ByteSizeLong_def Let_def
        header_tags length_length_prefixed length_WriteVarint32 StringSize_def has_iff flag_simps flag_masks)
qed

text \<open>Each field is read back by its case of the \<open>switch\<close>.\<close>

abbreviation header_from :: "pb_lib \<Rightarrow> bytes \<Rightarrow> messageHeader \<Rightarrow> (messageHeader \<times> u32 option) option" where
  "header_from L p m \<equiv> parse_from L messageHeader_field messageHeader_keep p m"

lemma messageHeader_field_shrinks:
  assumes "pb_lib_ok L"
  shows "field_shrinks L messageHeader_field"
  unfolding field_shrinks_def messageHeader_field_def
  by (auto split: if_splits option.splits
      dest!: VarintParse_shrinks(2) [OF assms] pb_lib_shrinks(4) [OF assms])

lemma read_userid: "pb_lib_ok L \<Longrightarrow> header_from L (8 # WriteVarint32ToArray v @ r) m =
    header_from L r (m\<lparr>hdr_has_bits := hdr_has_bits m OR 4, hdr_userid := v\<rparr>)"
  by (rule parse_from_field [OF _ messageHeader_field_shrinks])
    (simp_all add: messageHeader_field_def WriteVarint32ToArray_def VarintParse32_UnsafeVarint)

lemma read_arrsize: "pb_lib_ok L \<Longrightarrow> header_from L (32 # WriteVarint32ToArray v @ r) m =
    header_from L r (m\<lparr>hdr_has_bits := hdr_has_bits m OR 8, hdr_arrsize := v\<rparr>)"
  by (rule parse_from_field [OF _ messageHeader_field_shrinks])
    (simp_all add: messageHeader_field_def WriteVarint32ToArray_def VarintParse32_UnsafeVarint)

lemma read_type: "pb_lib_ok L \<Longrightarrow> length s < 2 ^ 31 - 16 \<Longrightarrow> VerifyUTF8 L s \<Longrightarrow>
    header_from L (18 # length_prefixed s @ r) m =
    header_from L r (m\<lparr>hdr_has_bits := hdr_has_bits m OR 1, hdr_type := string_of_bytes s\<rparr>)"
  by (rule parse_from_field [OF _ messageHeader_field_shrinks])
    (simp_all add: messageHeader_field_def read_length_prefixed)

lemma read_arr: "pb_lib_ok L \<Longrightarrow> length s < 2 ^ 31 - 16 \<Longrightarrow>
    header_from L (26 # length_prefixed s @ r) m =
    header_from L r (m\<lparr>hdr_has_bits := hdr_has_bits m OR 2, hdr_arr := s\<rparr>)"
  by (rule parse_from_field [OF _ messageHeader_field_shrinks])
    (simp_all add: messageHeader_field_def read_length_prefixed)

lemma flag_rebuild:
  fixes w v :: u32
  assumes "w < 16"
  shows "(((v OR (if bit w 2 then 4 else 0)) OR (if bit w 0 then 1 else 0)) OR (if bit w 1 then 2 else 0)) OR
     (if bit w 3 then 8 else 0) = v OR w" (is "?w = v OR w")
proof (rule bit_word_eqI)
  fix n :: nat
  have hi: "4 \<le> n \<Longrightarrow> \<not> bit w n" using assms unfolding flag_none by blast
  consider "n = 0" | "n = 1" | "n = 2" | "n = 3" | "4 \<le> n" by linarith
  then show "bit ?w n \<longleftrightarrow> bit (v OR w) n"
    using hi by cases (auto simp: bit_or_iff flag_bits)
qed

lemma merge_has_bits:
  assumes "messageHeader_inv h"
  shows "hdr_has_bits (messageHeader_MergeImpl m h) = hdr_has_bits m OR hdr_has_bits h"
proof -
  let ?b = "hdr_has_bits h"
  have z: "?b = 0 \<longleftrightarrow> \<not> bit ?b 0 \<and> \<not> bit ?b 1 \<and> \<not> bit ?b 2 \<and> \<not> bit ?b 3"
    using flag_zero assms unfolding messageHeader_inv_def by blast
  show ?thesis
    using z by (cases "bit ?b 0"; cases "bit ?b 1")
      (auto simp: messageHeader_MergeImpl_def Let_def flag_masks flag_test set_type_def set_arr_def flag_merge or.assoc)
qed

text \<open>
  Reading a serialised header into any header object, whatever follows it, merges it into that object. So parsing
  a header again is one case, and parsing headers that stand one behind the other another.
\<close>

lemma messageHeader_read_merges:
  assumes L: "pb_lib_ok L" and wf: "messageHeader_wf L h"
  shows "header_from L (messageHeader_InternalSerialize L h @ r) m = header_from L r (messageHeader_MergeImpl m h)"
proof -
  note len = wf_lengths [OF wf]
  from wf have inv: "messageHeader_inv h" and u: "hdr_unknown h = []"
    and utf: "VerifyUTF8 L (bytes_of_string (hdr_type h))" by (simp_all add: messageHeader_wf_def)
  let ?u = "has_userid h" and ?t = "has_type h" and ?a = "has_arr h" and ?n = "has_arrsize h"
  let ?f1 = "\<lambda>x. x\<lparr>hdr_has_bits := hdr_has_bits x OR (if ?u then 4 else 0), hdr_userid := if ?u then hdr_userid h else hdr_userid x\<rparr>"
  let ?f2 = "\<lambda>x. x\<lparr>hdr_has_bits := hdr_has_bits x OR (if ?t then 1 else 0), hdr_type := if ?t then hdr_type h else hdr_type x\<rparr>"
  let ?f3 = "\<lambda>x. x\<lparr>hdr_has_bits := hdr_has_bits x OR (if ?a then 2 else 0), hdr_arr := if ?a then hdr_arr h else hdr_arr x\<rparr>"
  let ?f4 = "\<lambda>x. x\<lparr>hdr_has_bits := hdr_has_bits x OR (if ?n then 8 else 0),
    hdr_arrsize := if ?n then hdr_arrsize h else hdr_arrsize x\<rparr>"
  let ?m4 = "?f4 (?f3 (?f2 (?f1 m)))"
  have s2: "WriteStringMaybeAliased L 2 (bytes_of_string (hdr_type h)) = 18 # length_prefixed (bytes_of_string (hdr_type h))"
    and s3: "WriteStringMaybeAliased L 3 (hdr_arr h) = 26 # length_prefixed (hdr_arr h)"
    using header_tags(3,4) [OF L] len by simp_all
  have 1: "header_from L ((if ?u then WriteUInt32ToArray 1 (hdr_userid h) else []) @ r) x = header_from L r (?f1 x)" for r x
    by (simp add: header_tags(1) read_userid [OF L])
  have 2: "header_from L ((if ?t then WriteStringMaybeAliased L 2 (bytes_of_string (hdr_type h)) else []) @ r) x =
      header_from L r (?f2 x)" for r x
    using len utf by (simp add: s2 read_type [OF L])
  have 3: "header_from L ((if ?a then WriteStringMaybeAliased L 3 (hdr_arr h) else []) @ r) x = header_from L r (?f3 x)" for r x
    using len by (simp add: s3 read_arr [OF L])
  have 4: "header_from L ((if ?n then WriteUInt32ToArray 4 (hdr_arrsize h) else []) @ r) x = header_from L r (?f4 x)" for r x
    by (simp add: header_tags(2) read_arrsize [OF L])
  have "hdr_has_bits ?m4 = hdr_has_bits (messageHeader_MergeImpl m h)"
    using flag_rebuild [of "hdr_has_bits h" "hdr_has_bits m"] inv merge_has_bits [OF inv, of m]
    by (simp add: messageHeader_inv_def has_iff)
  moreover have "hdr_type ?m4 = hdr_type (messageHeader_MergeImpl m h)" "hdr_arr ?m4 = hdr_arr (messageHeader_MergeImpl m h)"
    "hdr_userid ?m4 = hdr_userid (messageHeader_MergeImpl m h)" "hdr_arrsize ?m4 = hdr_arrsize (messageHeader_MergeImpl m h)"
    "hdr_unknown ?m4 = hdr_unknown (messageHeader_MergeImpl m h)"
    using u by (auto simp: messageHeader_MergeImpl_def Let_def flag_masks flag_test set_type_def set_arr_def has_iff)
  ultimately have "?m4 = messageHeader_MergeImpl m h" by (intro messageHeader.equality) simp_all
  then show ?thesis
    unfolding messageHeader_InternalSerialize_def u append_assoc 1 2 3 4 append_Nil by simp
qed

lemma messageHeader_read_back:
  assumes "pb_lib_ok L" and "messageHeader_wf L m"
  shows "messageHeader_parse L (messageHeader_InternalSerialize L m) = Some m"
proof -
  have "messageHeader_inv m" using assms(2) by (simp add: messageHeader_wf_def)
  then have "messageHeader_MergeImpl messageHeader_new m = m"
    using messageHeader_CopyFrom_eq [OF messageHeader_inv_new] messageHeader_inv_Clear [OF messageHeader_inv_new]
    by (simp add: messageHeader_CopyFrom_def)
  with messageHeader_read_merges [OF assms, of "[]" messageHeader_new] show ?thesis
    by (simp add: messageHeader_parse_def parse_message_from)
qed

lemma messageHeader_read_all:
  "pb_lib_ok L \<Longrightarrow> list_all (messageHeader_wf L) hs \<Longrightarrow>
     header_from L (concat (map (messageHeader_InternalSerialize L) hs)) m = Some (fold (\<lambda>h this. messageHeader_MergeImpl this h) hs m, None)"
  by (induction hs arbitrary: m) (simp_all add: messageHeader_read_merges)

interpretation header: codec messageHeader_ByteSizeLong messageHeader_InternalSerialize messageHeader_parse messageHeader_wf
proof
  fix L m
  assume "pb_lib_ok L" and "messageHeader_wf L m"
  then show "length (messageHeader_InternalSerialize L m) = messageHeader_ByteSizeLong m"
    and "messageHeader_parse L (messageHeader_InternalSerialize L m) = Some m"
    by (rule messageHeader_size, rule messageHeader_read_back)
next
  fix L m
  assume "messageHeader_wf L m"
  then show "messageHeader_ByteSizeLong m < 2 ^ 31" by (simp add: messageHeader_wf_def)
qed


section \<open>The fields as options\<close>

text \<open>What a client sees of a header: each field is absent or has a value.\<close>

record header_fields =
  view_type :: "string option"
  view_arr :: "bytes option"
  view_userid :: "u32 option"
  view_arrsize :: "u32 option"
  view_unknown :: bytes

definition header_view :: "messageHeader \<Rightarrow> header_fields" where
  "header_view m =
     \<lparr>view_type = (if has_type m then Some (hdr_type m) else None),
      view_arr = (if has_arr m then Some (hdr_arr m) else None),
      view_userid = (if has_userid m then Some (hdr_userid m) else None),
      view_arrsize = (if has_arrsize m then Some (hdr_arrsize m) else None),
      view_unknown = hdr_unknown m\<rparr>"

definition no_fields :: header_fields where
  "no_fields = \<lparr>view_type = None, view_arr = None, view_userid = None, view_arrsize = None, view_unknown = []\<rparr>"

datatype header_op =
    Set_userid u32 | Set_type string | Set_arr bytes | Set_arrsize u32
  | Clear_userid | Clear_type | Clear_arr | Clear_arrsize
  | Mutable_type | Mutable_arr | Release_type | Release_arr
  | Set_allocated_type "string option" | Set_allocated_arr "bytes option"
  | Clear_all | Merge_from messageHeader | Copy_from messageHeader | Swap_with messageHeader

fun header_step :: "header_op \<Rightarrow> messageHeader \<Rightarrow> messageHeader" where
  "header_step (Set_userid v) m = set_userid v m"
| "header_step (Set_type s) m = set_type s m"
| "header_step (Set_arr s) m = set_arr s m"
| "header_step (Set_arrsize v) m = set_arrsize v m"
| "header_step Clear_userid m = clear_userid m"
| "header_step Clear_type m = clear_type m"
| "header_step Clear_arr m = clear_arr m"
| "header_step Clear_arrsize m = clear_arrsize m"
| "header_step Mutable_type m = snd (mutable_type m)"
| "header_step Mutable_arr m = snd (mutable_arr m)"
| "header_step Release_type m = snd (release_type m)"
| "header_step Release_arr m = snd (release_arr m)"
| "header_step (Set_allocated_type s) m = set_allocated_type s m"
| "header_step (Set_allocated_arr s) m = set_allocated_arr s m"
| "header_step Clear_all m = messageHeader_Clear m"
| "header_step (Merge_from from') m = messageHeader_MergeImpl m from'"
| "header_step (Copy_from from') m = messageHeader_CopyFrom m from'"
| "header_step (Swap_with other) m = fst (messageHeader_InternalSwap m other)"

fun header_op_ok :: "header_op \<Rightarrow> bool" where
  "header_op_ok (Merge_from h) = messageHeader_inv h"
| "header_op_ok (Copy_from h) = messageHeader_inv h"
| "header_op_ok (Swap_with h) = messageHeader_inv h"
| "header_op_ok _ = True"

definition later :: "'a option \<Rightarrow> 'a option \<Rightarrow> 'a option" where
  "later new old = (case new of None \<Rightarrow> old | Some x \<Rightarrow> Some x)"

definition merge_view :: "header_fields \<Rightarrow> header_fields \<Rightarrow> header_fields" where
  "merge_view v w =
     \<lparr>view_type = later (view_type w) (view_type v), view_arr = later (view_arr w) (view_arr v),
      view_userid = later (view_userid w) (view_userid v), view_arrsize = later (view_arrsize w) (view_arrsize v),
      view_unknown = view_unknown v @ view_unknown w\<rparr>"

fun view_step :: "header_op \<Rightarrow> header_fields \<Rightarrow> header_fields" where
  "view_step (Set_userid v) w = w\<lparr>view_userid := Some v\<rparr>"
| "view_step (Set_type s) w = w\<lparr>view_type := Some s\<rparr>"
| "view_step (Set_arr s) w = w\<lparr>view_arr := Some s\<rparr>"
| "view_step (Set_arrsize v) w = w\<lparr>view_arrsize := Some v\<rparr>"
| "view_step Clear_userid w = w\<lparr>view_userid := None\<rparr>"
| "view_step Clear_type w = w\<lparr>view_type := None\<rparr>"
| "view_step Clear_arr w = w\<lparr>view_arr := None\<rparr>"
| "view_step Clear_arrsize w = w\<lparr>view_arrsize := None\<rparr>"
| "view_step Mutable_type w = w\<lparr>view_type := later (view_type w) (Some [])\<rparr>"
| "view_step Mutable_arr w = w\<lparr>view_arr := later (view_arr w) (Some [])\<rparr>"
| "view_step Release_type w = w\<lparr>view_type := None\<rparr>"
| "view_step Release_arr w = w\<lparr>view_arr := None\<rparr>"
| "view_step (Set_allocated_type s) w = w\<lparr>view_type := s\<rparr>"
| "view_step (Set_allocated_arr s) w = w\<lparr>view_arr := s\<rparr>"
| "view_step Clear_all w = no_fields"
| "view_step (Merge_from h) w = merge_view w (header_view h)"
| "view_step (Copy_from h) w = header_view h"
| "view_step (Swap_with h) w = header_view h"

lemma header_view_new: "header_view messageHeader_new = no_fields"
  by (simp add: header_view_def messageHeader_new_def no_fields_def has_iff)

lemma release_view: "fst (release_type m) = view_type (header_view m)" "fst (release_arr m) = view_arr (header_view m)"
  by (simp_all add: header_view_def release_type_def release_arr_def)

lemma messageHeader_inv_mutable:
  assumes "messageHeader_inv m"
  shows "messageHeader_inv (snd (mutable_type m))" "messageHeader_inv (snd (mutable_arr m))"
  using assms by (auto simp: header_inv_simps mutable_type_def mutable_arr_def)

lemma merge_header_view:
  assumes "messageHeader_inv h"
  shows "header_view (messageHeader_MergeImpl m h) = merge_view (header_view m) (header_view h)"
  using assms
  by (cases "has_type h"; cases "has_arr h"; cases "has_userid h"; cases "has_arrsize h")
    (simp_all add: header_inv_simps messageHeader_MergeImpl_def Let_def set_type_def set_arr_def flag_masks
      header_view_def merge_view_def later_def)

lemma header_step:
  assumes "messageHeader_inv m" and "header_op_ok x"
  shows "messageHeader_inv (header_step x m) \<and> header_view (header_step x m) = view_step x (header_view m)"
proof -
  note inv = messageHeader_inv_set [OF assms(1)] messageHeader_inv_clear [OF assms(1)]
    messageHeader_inv_alloc [OF assms(1)] messageHeader_inv_mutable [OF assms(1)]
  note off = assms(1) [unfolded messageHeader_inv_def]
  note view = header_view_def header_inv_simps set_userid_def set_type_def set_arr_def set_arrsize_def
    clear_userid_def clear_type_def clear_arr_def clear_arrsize_def mutable_type_def mutable_arr_def
    release_type_def release_arr_def set_allocated_type_def set_allocated_arr_def later_def
  show ?thesis
  proof (cases x)
    case Clear_all
    with messageHeader_inv_Clear [OF assms(1)] show ?thesis by (simp add: header_view_new)
  next
    case (Merge_from h)
    with messageHeader_inv_Merge [OF assms(1)] merge_header_view assms(2) show ?thesis by simp
  next
    case (Copy_from h)
    with messageHeader_CopyFrom_eq [OF assms(1)] assms(2) show ?thesis by simp
  next
    case (Swap_with h)
    moreover have "fst (messageHeader_InternalSwap m h) = h"
      by (cases h) (simp add: messageHeader_InternalSwap_def)
    ultimately show ?thesis using assms(2) by simp
  qed (use inv off in \<open>auto simp: view split: option.splits\<close>)
qed

lemma header_steps:
  "messageHeader_inv m \<Longrightarrow> list_all header_op_ok ops \<Longrightarrow>
     messageHeader_inv (fold header_step ops m) \<and>
     header_view (fold header_step ops m) = fold view_step ops (header_view m)"
  by (induction ops arbitrary: m) (simp_all add: header_step)

section \<open>Properties\<close>

text \<open>C11: The header class reads back what it writes: for every header whose absent fields are at their
  defaults, with UTF-8 text and no unknown fields, \<open>_InternalSerialize\<close> writes exactly
  \<open>ByteSizeLong\<close> bytes, and parsing them yields the same header, for every library that keeps its
  documented behaviour.\<close>

theorem messageHeader_roundtrip:
  assumes "pb_lib_ok L" and "messageHeader_wf L m"
  shows "length (messageHeader_InternalSerialize L m) = messageHeader_ByteSizeLong m \<and>
     messageHeader_parse L (messageHeader_InternalSerialize L m) = Some m"
  using header.ser_size [OF assms] header.ser_parse [OF assms] by blast

text \<open>C32: The header class keeps what it promises about optional fields under every one of its operations. Seen as
  four fields that are absent or have a value, each setter, \<open>clear\<close>, \<open>mutable\<close>, \<open>release\<close> and
  \<open>set_allocated\<close> function, \<open>Clear\<close>, \<open>MergeImpl\<close>, \<open>CopyFrom\<close> and \<open>InternalSwap\<close> does to a header, in any
  sequence, what it does to these fields, and keeps the class invariant (no other presence bit, absent fields at
  their defaults), which also holds for every header that was parsed; \<open>release\<close> hands out the value of the field.\<close>

theorem messageHeader_refines:
  assumes "messageHeader_inv m" and "list_all header_op_ok ops"
  shows "messageHeader_inv (fold header_step ops m) \<and>
     header_view (fold header_step ops m) = fold view_step ops (header_view m) \<and>
     fst (release_type (fold header_step ops m)) = view_type (header_view (fold header_step ops m)) \<and>
     fst (release_arr (fold header_step ops m)) = view_arr (header_view (fold header_step ops m)) \<and>
     messageHeader_inv messageHeader_new \<and> header_view messageHeader_new = no_fields \<and>
     (messageHeader_parse L p = Some h \<longrightarrow> messageHeader_inv h)"
  using header_steps [OF assms] messageHeader_parse_inv [of L p h]
  by (simp add: header_view_new release_view)

text \<open>C31: Headers that stand one behind the other in one buffer are read as one header, the result of merging them in order
  with \<open>MergeImpl\<close>: of each field the last value, whatever the order in which the headers have the fields. So the
  parser and \<open>MergeImpl\<close>, written apart, mean the same; no header at all gives a new one. It holds of every buffer
  that \<open>_InternalSerialize\<close> filled, however often.\<close>

theorem messageHeader_concatenated:
  assumes "pb_lib_ok L" and "list_all (messageHeader_wf L) hs"
  shows "messageHeader_parse L (concat (map (messageHeader_InternalSerialize L) hs)) =
      Some (fold (\<lambda>h this. messageHeader_MergeImpl this h) hs messageHeader_new) \<and>
    header_view (fold (\<lambda>h this. messageHeader_MergeImpl this h) hs messageHeader_new) =
      fold (\<lambda>h v. merge_view v (header_view h)) hs no_fields"
proof -
  have "header_view (fold (\<lambda>h this. messageHeader_MergeImpl this h) hs m) =
      fold (\<lambda>h v. merge_view v (header_view h)) hs (header_view m)" if "list_all messageHeader_inv hs" for m
    using that by (induction hs arbitrary: m) (simp_all add: merge_header_view)
  moreover have "list_all messageHeader_inv hs"
    using assms(2) by (auto simp: list_all_iff messageHeader_wf_def)
  ultimately show ?thesis
    using messageHeader_read_all [OF assms]
    by (simp add: messageHeader_parse_def parse_message_from header_view_new)
qed

text \<open>The three ways to copy a header agree under the invariant: \<open>CopyFrom\<close>, which clears and
  merges field by field, and the copy constructor both produce the source, and \<open>Clear\<close> produces a new
  header. Swapping twice restores both headers.\<close>

lemma messageHeader_copies:
  assumes "messageHeader_inv this" and "messageHeader_inv from"
  shows "messageHeader_CopyFrom this from = from \<and> messageHeader_copy from = from \<and>
     messageHeader_Clear this = messageHeader_new \<and>
     (\<lambda>(a, b). messageHeader_InternalSwap a b) (messageHeader_InternalSwap this from) = (this, from)"
  using assms
  by (simp add: messageHeader_CopyFrom_eq messageHeader_inv_copy messageHeader_inv_Clear
      messageHeader_InternalSwap_def)

subsection \<open>Witnesses\<close>

definition whdr :: messageHeader where
  "whdr = set_userid 300 (set_type ''CKPacket.reqPing'' (set_arrsize 2 (set_arr [1, 2] messageHeader_new)))"

lemma messageHeader_wfI:
  assumes "messageHeader_inv m \<and> hdr_unknown m = [] \<and> VerifyUTF8 L (bytes_of_string (hdr_type m))"
    and "messageHeader_ByteSizeLong m = n" and "n < 2 ^ 31 - 16"
  shows "messageHeader_wf L m"
  using assms by (simp add: messageHeader_wf_def)

lemma whdr_wf: "messageHeader_wf ref_lib whdr"
proof (rule messageHeader_wfI)
  show "messageHeader_inv whdr \<and> hdr_unknown whdr = [] \<and> VerifyUTF8 ref_lib (bytes_of_string (hdr_type whdr))"
    by code_simp
  show "messageHeader_ByteSizeLong whdr = 27" by code_simp
qed simp

theorem messageHeader_roundtrip_witness:
  "length (messageHeader_InternalSerialize ref_lib whdr) = messageHeader_ByteSizeLong whdr \<and>
     messageHeader_parse ref_lib (messageHeader_InternalSerialize ref_lib whdr) = Some whdr"
  by (rule messageHeader_roundtrip [OF ref_lib_ok whdr_wf])

lemma whdr_inv: "messageHeader_inv whdr"
  using whdr_wf by (simp add: messageHeader_wf_def)

theorem messageHeader_refines_witness:
  "header_view (fold header_step [Release_type, Merge_from (set_userid 7 messageHeader_new), Clear_arrsize, Mutable_type] whdr) =
     \<lparr>view_type = Some [], view_arr = Some [1, 2], view_userid = Some 7, view_arrsize = None, view_unknown = []\<rparr>"
proof -
  have "header_view whdr = \<lparr>view_type = Some ''CKPacket.reqPing'', view_arr = Some [1, 2], view_userid = Some 300,
      view_arrsize = Some 2, view_unknown = []\<rparr>"
    by code_simp
  moreover have "header_view (set_userid 7 messageHeader_new) =
      \<lparr>view_type = None, view_arr = None, view_userid = Some 7, view_arrsize = None, view_unknown = []\<rparr>"
    by code_simp
  ultimately show ?thesis
    using messageHeader_refines [OF whdr_inv, of "[Release_type, Merge_from (set_userid 7 messageHeader_new), Clear_arrsize, Mutable_type]"]
      messageHeader_inv_set(1) [OF messageHeader_inv_new]
    by (simp add: merge_view_def later_def)
qed

text \<open>Two headers: the second replaces the user and the size, the first keeps its type and its bytes.\<close>

theorem messageHeader_concatenated_witness:
  "map_option header_view (messageHeader_parse ref_lib
      (messageHeader_InternalSerialize ref_lib whdr @
       messageHeader_InternalSerialize ref_lib (set_userid 7 (set_arrsize 3 messageHeader_new)))) =
   Some \<lparr>view_type = Some ''CKPacket.reqPing'', view_arr = Some [1, 2], view_userid = Some 7, view_arrsize = Some 3,
     view_unknown = []\<rparr>"
proof -
  let ?h = "set_userid 7 (set_arrsize 3 messageHeader_new)"
  have n: "messageHeader_ByteSizeLong ?h = 4" by code_simp
  have "messageHeader_wf ref_lib ?h" by (rule messageHeader_wfI [OF _ n]) (code_simp, simp)
  then have w: "list_all (messageHeader_wf ref_lib) [whdr, ?h]" using whdr_wf by simp
  have v: "header_view whdr = \<lparr>view_type = Some ''CKPacket.reqPing'', view_arr = Some [1, 2], view_userid = Some 300,
      view_arrsize = Some 2, view_unknown = []\<rparr>"
    "header_view ?h = \<lparr>view_type = None, view_arr = None, view_userid = Some 7, view_arrsize = Some 3, view_unknown = []\<rparr>"
    by code_simp+
  from messageHeader_concatenated [OF ref_lib_ok w] show ?thesis
    by (simp add: v merge_view_def later_def no_fields_def)
qed

end
