(* ===== verification/User.thy ===== *)
theory User
  imports Fifo Message_Header
begin

text \<open>
  A connected player, \<^verbatim>\<open>User.h\<close>: connection index, name, packet queue and inventory. An item is the
  tuple of id, name, description and count. The methods on the items and the
  name lock one mutex for their whole body, so each is one atomic step; the others lock nothing, and the two on the packet
  queue are only called under the lock of the packet manager.
\<close>

section \<open>Items\<close>

type_synonym item = "int \<times> string \<times> string \<times> int"

definition item_id :: "item \<Rightarrow> int" where "item_id i = fst i"
definition item_name :: "item \<Rightarrow> string" where "item_name i = fst (snd i)"
definition item_desc :: "item \<Rightarrow> string" where "item_desc i = fst (snd (snd i))"
definition item_count :: "item \<Rightarrow> int" where "item_count i = snd (snd (snd i))"

definition set_item_count :: "int \<Rightarrow> item \<Rightarrow> item" where
  "set_item_count c i = (item_id i, item_name i, item_desc i, c)"

lemma item_simps [simp]: "item_id (a, b, c, d) = a" "item_name (a, b, c, d) = b"
  "item_desc (a, b, c, d) = c" "item_count (a, b, c, d) = d"
  "item_id (set_item_count n i) = item_id i" "item_count (set_item_count n i) = n"
  "item_name (set_item_count n i) = item_name i" "item_desc (set_item_count n i) = item_desc i"
  "set_item_count (item_count i) i = i"
  by (simp_all add: item_id_def item_name_def item_desc_def item_count_def set_item_count_def)

section \<open>The class\<close>

record user =
  mIndex :: int
  mName :: string
  mIsConfirm :: bool
  mAuthToken :: string
  mPacketQueue :: "messageHeader list"
  mItemList :: "item list"

definition User_new :: user where
  "User_new = \<lparr>mIndex = -1, mName = [], mIsConfirm = False, mAuthToken = [], mPacketQueue = [], mItemList = []\<rparr>"

definition User_Init :: "int \<Rightarrow> user \<Rightarrow> user" where
  "User_Init index u = u\<lparr>mIndex := index, mPacketQueue := []\<rparr>"

definition User_Clear :: "user \<Rightarrow> user" where
  "User_Clear u = u\<lparr>mIsConfirm := False\<rparr>"

definition GetNetConnIdx :: "user \<Rightarrow> int" where
  "GetNetConnIdx u = mIndex u"

definition SetPacketData :: "messageHeader \<Rightarrow> user \<Rightarrow> user" where
  "SetPacketData packet u = u\<lparr>mPacketQueue := mPacketQueue u @ [packet]\<rparr>"

definition GetPacket_user :: "user \<Rightarrow> messageHeader option \<times> user" where
  "GetPacket_user u =
     (case mPacketQueue u of
        [] \<Rightarrow> (None, u)
      | p # ps \<Rightarrow> (Some p, u\<lparr>mPacketQueue := ps\<rparr>))"

text \<open>
  The loop of \<open>AddItemCount\<close>: the first entry with the id gets the sum of the counts, or is erased
  when the sum is not positive; without such an entry the item is appended as it is.
\<close>

fun AddItemCount_loop :: "item \<Rightarrow> item list \<Rightarrow> item list result" where
  "AddItemCount_loop it [] = Inr [it]"
| "AddItemCount_loop it (i # rest) =
     (if item_id i = item_id it then
        bind_result (add_int32 (item_count i) (item_count it)) (\<lambda>c.
          if c \<le> 0 then Inr rest else Inr (set_item_count c i # rest))
      else bind_result (AddItemCount_loop it rest) (\<lambda>r. Inr (i # r)))"

definition AddItemCount :: "item \<Rightarrow> user \<Rightarrow> user result" where
  "AddItemCount it u = bind_result (AddItemCount_loop it (mItemList u)) (\<lambda>l. Inr (u\<lparr>mItemList := l\<rparr>))"

definition TryGetItem :: "int \<Rightarrow> user \<Rightarrow> item option" where
  "TryGetItem itemid u = List.find (\<lambda>i. item_id i = itemid) (mItemList u)"

definition GetItemAll :: "item list \<Rightarrow> user \<Rightarrow> item list" where
  "GetItemAll l u = l @ mItemList u"

definition ClearItem :: "user \<Rightarrow> user" where
  "ClearItem u = u\<lparr>mItemList := []\<rparr>"

definition SetName :: "string \<Rightarrow> user \<Rightarrow> user" where
  "SetName n u = u\<lparr>mName := n\<rparr>"

definition GetName :: "user \<Rightarrow> string" where
  "GetName u = mName u"

section \<open>The packet queue is a queue\<close>

interpretation user_queue: fifo "\<lambda>p u. Inr (SetPacketData p u)" "\<lambda>u. Inr (GetPacket_user u)" mPacketQueue id
    "\<lambda>u. True" "\<lambda>p u. True"
  by unfold_locales (auto simp: SetPacketData_def GetPacket_user_def)

section \<open>Inventories\<close>

text \<open>
  The abstract inventory is the count of each item id. A list represents one when no id occurs
  twice and every count is positive and an \<open>int\<close>.
\<close>

definition count_of :: "item list \<Rightarrow> int \<Rightarrow> int" where
  "count_of l k = (case List.find (\<lambda>i. item_id i = k) l of None \<Rightarrow> 0 | Some i \<Rightarrow> item_count i)"

definition items_ok :: "item list \<Rightarrow> bool" where
  "items_ok l \<longleftrightarrow> distinct (map item_id l) \<and> (\<forall>i \<in> set l. 0 < item_count i \<and> item_count i \<le> int32_max)"

lemma count_of_Nil [simp]: "count_of [] k = 0"
  by (simp add: count_of_def)

lemma count_of_Cons: "count_of (i # l) k = (if item_id i = k then item_count i else count_of l k)"
  by (simp add: count_of_def)

lemma items_ok_Nil [simp]: "items_ok []"
  by (simp add: items_ok_def)

lemma items_ok_Cons: "items_ok (i # l) \<longleftrightarrow>
    item_id i \<notin> item_id ` set l \<and> 0 < item_count i \<and> item_count i \<le> int32_max \<and> items_ok l"
  by (auto simp: items_ok_def)

lemma count_of_absent: "k \<notin> item_id ` set l \<Longrightarrow> count_of l k = 0"
  by (induction l) (auto simp: count_of_Cons)

lemma count_of_pos_iff: "items_ok l \<Longrightarrow> 0 < count_of l k \<longleftrightarrow> k \<in> item_id ` set l"
  by (induction l) (auto simp: count_of_Cons items_ok_Cons)

lemma count_of_bounds: "items_ok l \<Longrightarrow> 0 \<le> count_of l k \<and> count_of l k \<le> int32_max"
  by (induction l) (auto simp: count_of_Cons items_ok_Cons int32_max_def)

lemma AddItemCount_loop_ids:
  "AddItemCount_loop it l = Inr l' \<Longrightarrow> item_id ` set l' \<subseteq> insert (item_id it) (item_id ` set l)"
proof (induction l arbitrary: l')
  case (Cons i l)
  show ?case
  proof (cases "item_id i = item_id it")
    case True
    with Cons.prems obtain c where "l' = l \<or> l' = set_item_count c i # l"
      by (simp add: bind_result_Inr_iff split: if_splits) blast+
    with True show ?thesis by (elim disjE) (simp_all add: subset_insertI)
  next
    case False
    with Cons.prems obtain r where "AddItemCount_loop it l = Inr r" "l' = i # r"
      by (auto simp: bind_result_Inr_iff)
    with Cons.IH show ?thesis by auto
  qed
qed simp

lemma AddItemCount_loop_Inr:
  assumes "items_ok l" and "0 < count_of l (item_id it) \<or> 0 < item_count it" and "in_int32 (item_count it)"
    and "AddItemCount_loop it l = Inr l'"
  shows "items_ok l' \<and>
     (\<forall>k. count_of l' k = (if k = item_id it then max 0 (count_of l k + item_count it) else count_of l k))"
  using assms
proof (induction l arbitrary: l')
  case Nil
  then show ?case by (auto simp: items_ok_Cons count_of_Cons int32_bounds)
next
  case (Cons i l)
  show ?case
  proof (cases "item_id i = item_id it")
    case True
    with Cons.prems show ?thesis
      by (auto simp: bind_result_Inr_iff add_int32_Inr_iff items_ok_Cons count_of_Cons int32_bounds
          count_of_absent split: if_splits)
  next
    case False
    from Cons.prems(4) False obtain r where r: "AddItemCount_loop it l = Inr r" "l' = i # r"
      by (auto simp: bind_result_Inr_iff)
    with Cons.IH [of r] Cons.prems(1-3) False have
      "items_ok r \<and> (\<forall>k. count_of r k = (if k = item_id it then max 0 (count_of l k + item_count it) else count_of l k))"
      by (auto simp: items_ok_Cons count_of_Cons)
    moreover have "item_id i \<notin> item_id ` set r"
      using AddItemCount_loop_ids [OF r(1)] False Cons.prems(1) by (auto simp: items_ok_Cons)
    ultimately show ?thesis
      using r(2) Cons.prems(1) False by (auto simp: items_ok_Cons count_of_Cons)
  qed
qed

lemma AddItemCount_loop_fault_iff:
  assumes "items_ok l"
  shows "AddItemCount_loop it l = Inl e \<longleftrightarrow>
     e = SignedOverflow \<and> 0 < count_of l (item_id it) \<and> \<not> in_int32 (count_of l (item_id it) + item_count it)"
  using assms
proof (induction l)
  case (Cons i l)
  then show ?case
    by (auto simp: bind_result_Inl_iff add_int32_def count_of_Cons items_ok_Cons)
qed simp

lemmas inventory_facts = AddItemCount_loop_Inr AddItemCount_loop_fault_iff count_of_bounds count_of_pos_iff

lemma TryGetItem_count: "TryGetItem k u = Some i \<Longrightarrow> item_id i = k \<and> item_count i = count_of (mItemList u) k"
  using find_Some_in by (fastforce simp: TryGetItem_def count_of_def)


lemma AddItemCount_Inr_iff:
  "AddItemCount it u = Inr u' \<longleftrightarrow> (\<exists>l. AddItemCount_loop it (mItemList u) = Inr l \<and> u' = u\<lparr>mItemList := l\<rparr>)"
  by (auto simp: AddItemCount_def bind_result_Inr_iff)

lemma AddItemCount_Inl_iff:
  "AddItemCount it u = Inl e \<longleftrightarrow> AddItemCount_loop it (mItemList u) = Inl e"
  by (auto simp: AddItemCount_def bind_result_Inl_iff)

lemma AddItemCount_cases:
  assumes "items_ok (mItemList u)" and "in_int32 (item_count it)"
    and "0 < count_of (mItemList u) (item_id it) \<or> 0 < item_count it"
  shows "if in_int32 (count_of (mItemList u) (item_id it) + item_count it)
     then \<exists>l. AddItemCount it u = Inr (u\<lparr>mItemList := l\<rparr>) \<and> items_ok l \<and>
        count_of l = (count_of (mItemList u))
          (item_id it := max 0 (count_of (mItemList u) (item_id it) + item_count it))
     else AddItemCount it u = Inl SignedOverflow"
proof (cases "AddItemCount_loop it (mItemList u)")
  case (Inl e)
  then show ?thesis
    using AddItemCount_loop_fault_iff [OF assms(1), of it e] by (simp add: AddItemCount_Inl_iff)
next
  case (Inr l)
  have "in_int32 (count_of (mItemList u) (item_id it) + item_count it)"
  proof (rule ccontr)
    assume n: "\<not> ?thesis"
    have "0 < count_of (mItemList u) (item_id it)"
    proof (rule ccontr)
      assume "\<not> ?thesis"
      then have "count_of (mItemList u) (item_id it) = 0"
        using count_of_bounds [OF assms(1), of "item_id it"] by simp
      with n assms(2) show False by simp
    qed
    with n Inr show False
      using AddItemCount_loop_fault_iff [OF assms(1), of it SignedOverflow] by simp
  qed
  moreover have "count_of l = (count_of (mItemList u))
      (item_id it := max 0 (count_of (mItemList u) (item_id it) + item_count it))"
    using AddItemCount_loop_Inr [OF assms(1,3,2) Inr] by (auto simp: fun_eq_iff)
  ultimately show ?thesis
    using AddItemCount_loop_Inr [OF assms(1,3,2) Inr] Inr by (auto simp: AddItemCount_Inr_iff)
qed

section \<open>Properties\<close>

text \<open>C7: \<open>AddItemCount\<close> implements addition on the abstract inventory, which maps an item id to its
  count: from a list without repeated ids and with positive counts, when the item is present or its
  count is positive, the count of that id becomes the sum, cut off at zero, every other id keeps its
  count, nothing else of the user changes, and the list is again of that form. The only fault is an
  overflow of the sum.\<close>

theorem AddItemCount_inventory:
  assumes "items_ok (mItemList u)" and "in_int32 (item_count it)"
    and "0 < count_of (mItemList u) (item_id it) \<or> 0 < item_count it"
  shows "if in_int32 (count_of (mItemList u) (item_id it) + item_count it)
     then \<exists>l. AddItemCount it u = Inr (u\<lparr>mItemList := l\<rparr>) \<and> items_ok l \<and>
        count_of l = (count_of (mItemList u))
          (item_id it := max 0 (count_of (mItemList u) (item_id it) + item_count it))
     else AddItemCount it u = Inl SignedOverflow"
  by (rule AddItemCount_cases [OF assms])

definition wuser :: user where
  "wuser = User_new\<lparr>mItemList := [(3, ''sword'', [], 2), (5, ''potion'', [], 7)]\<rparr>"

theorem AddItemCount_inventory_witness:
  "\<exists>l. AddItemCount (5, [], [], -9) wuser = Inr (wuser\<lparr>mItemList := l\<rparr>) \<and> items_ok l \<and>
     count_of l = (count_of (mItemList wuser)) (5 := 0)"
  using AddItemCount_inventory [of wuser "(5, [], [], -9)"]
  by (simp add: wuser_def items_ok_def count_of_Cons int32_bounds)

end
