(* ===== verification/User_Manager.thy ===== *)
theory User_Manager
  imports User
begin

text \<open>
  The pool of users and the set of connected indices, \<^verbatim>\<open>UserManager.h\<close>, with the error codes of
  \<^verbatim>\<open>ErrorCode.h\<close>. A \<open>User*\<close> is a position in the pool, which is allocated once and never moves.
  Every method locks \<open>mLock\<close> for its whole body. The order in which an \<open>unordered_set\<close> is
  traversed is unspecified: it is the argument \<open>enum\<close>.
\<close>

section \<open>State\<close>

datatype ERROR_CODE =
    NONE
  | USER_MGR_INVALID_USER_INDEX
  | USER_MGR_INVALID_USER_UNIQUEID
  | LOGIN_USER_ALREADY
  | LOGIN_USER_USED_ALL_OBJ
  | LOGIN_USER_INVALID_PW
  | NEW_ROOM_USED_ALL_OBJ
  | NEW_ROOM_FAIL_ENTER
  | ENTER_ROOM_NOT_FINDE_USER
  | ENTER_ROOM_INVALID_USER_STATUS
  | ENTER_ROOM_NOT_USED_STATUS
  | ENTER_ROOM_FULL_USER
  | ROOM_INVALID_INDEX
  | ROOM_NOT_USED
  | ROOM_TOO_MANY_PACKET
  | LEAVE_ROOM_INVALID_ROOM_INDEX
  | CHAT_ROOM_INVALID_ROOM_NUMBER

fun ERROR_CODE_value :: "ERROR_CODE \<Rightarrow> u16" where
  "ERROR_CODE_value NONE = 0"
| "ERROR_CODE_value USER_MGR_INVALID_USER_INDEX = 11"
| "ERROR_CODE_value USER_MGR_INVALID_USER_UNIQUEID = 12"
| "ERROR_CODE_value LOGIN_USER_ALREADY = 31"
| "ERROR_CODE_value LOGIN_USER_USED_ALL_OBJ = 32"
| "ERROR_CODE_value LOGIN_USER_INVALID_PW = 33"
| "ERROR_CODE_value NEW_ROOM_USED_ALL_OBJ = 41"
| "ERROR_CODE_value NEW_ROOM_FAIL_ENTER = 42"
| "ERROR_CODE_value ENTER_ROOM_NOT_FINDE_USER = 51"
| "ERROR_CODE_value ENTER_ROOM_INVALID_USER_STATUS = 52"
| "ERROR_CODE_value ENTER_ROOM_NOT_USED_STATUS = 53"
| "ERROR_CODE_value ENTER_ROOM_FULL_USER = 54"
| "ERROR_CODE_value ROOM_INVALID_INDEX = 61"
| "ERROR_CODE_value ROOM_NOT_USED = 62"
| "ERROR_CODE_value ROOM_TOO_MANY_PACKET = 63"
| "ERROR_CODE_value LEAVE_ROOM_INVALID_ROOM_INDEX = 71"
| "ERROR_CODE_value CHAT_ROOM_INVALID_ROOM_NUMBER = 81"

record user_manager =
  mMaxUserCnt :: int
  mCurrentUserCnt :: int
  mUserObjPool :: "user list"
  mUserIDDictionary :: "int set"

definition UserManager_new :: user_manager where
  "UserManager_new = \<lparr>mMaxUserCnt = 0, mCurrentUserCnt = 0, mUserObjPool = [], mUserIDDictionary = {}\<rparr>"

section \<open>Operations\<close>

text \<open>\<open>std::vector\<close> refuses a negative size.\<close>

definition UserManager_Init :: "int \<Rightarrow> user_manager \<Rightarrow> user_manager result" where
  "UserManager_Init maxUserCount m =
     (if maxUserCount < 0 then Inl NegativeLength
      else Inr (m\<lparr>mMaxUserCnt := maxUserCount,
                  mUserObjPool := map (\<lambda>i. User_Init (int i) User_new) [0..<nat maxUserCount]\<rparr>))"

definition IncreaseUserCnt :: "user_manager \<Rightarrow> user_manager result" where
  "IncreaseUserCnt m = bind_result (add_int32 (mCurrentUserCnt m) 1) (\<lambda>c. Inr (m\<lparr>mCurrentUserCnt := c\<rparr>))"

definition DecreaseUserCnt :: "user_manager \<Rightarrow> user_manager" where
  "DecreaseUserCnt m =
     (if 0 < mCurrentUserCnt m then m\<lparr>mCurrentUserCnt := mCurrentUserCnt m - 1\<rparr> else m)"

definition AddUser :: "int \<Rightarrow> user_manager \<Rightarrow> (ERROR_CODE \<times> user_manager) result" where
  "AddUser clientIndex m =
     bind_result (vec_get (mUserObjPool m) clientIndex) (\<lambda>u.
     bind_result (vec_set (mUserObjPool m) clientIndex (User_Clear u)) (\<lambda>pool.
     bind_result (IncreaseUserCnt (m\<lparr>mUserObjPool := pool,
         mUserIDDictionary := insert clientIndex (mUserIDDictionary m)\<rparr>)) (\<lambda>m'.
       Inr (NONE, m'))))"

definition DeleteUser :: "nat \<Rightarrow> user_manager \<Rightarrow> user_manager result" where
  "DeleteUser ptr m =
     bind_result (vec_get (mUserObjPool m) (int ptr)) (\<lambda>u.
     bind_result (vec_set (mUserObjPool m) (int ptr) (User_Clear u)) (\<lambda>pool.
       Inr (DecreaseUserCnt (m\<lparr>mUserIDDictionary := mUserIDDictionary m - {GetNetConnIdx u},
                               mUserObjPool := pool\<rparr>))))"

definition GetUserByConnIdx :: "int \<Rightarrow> user_manager \<Rightarrow> nat result" where
  "GetUserByConnIdx clientIndex m =
     bind_result (vec_get (mUserObjPool m) clientIndex) (\<lambda>_. Inr (nat clientIndex))"

fun GetUserByName_loop :: "nat \<Rightarrow> nat \<Rightarrow> user list \<Rightarrow> string \<Rightarrow> nat option result" where
  "GetUserByName_loop 0 i pool name = Inr None"
| "GetUserByName_loop (Suc n) i pool name =
     bind_result (vec_get pool (int i)) (\<lambda>u.
       if GetName u = name then Inr (Some i) else GetUserByName_loop n (Suc i) pool name)"

definition GetUserByName :: "string \<Rightarrow> user_manager \<Rightarrow> nat option result" where
  "GetUserByName name m = GetUserByName_loop (nat (mMaxUserCnt m)) 0 (mUserObjPool m) name"

fun GetAllUser_loop :: "int list \<Rightarrow> user list \<Rightarrow> nat list \<Rightarrow> nat list result" where
  "GetAllUser_loop [] pool v = Inr v"
| "GetAllUser_loop (i # is) pool v =
     bind_result (vec_get pool i) (\<lambda>_. GetAllUser_loop is pool (v @ [nat i]))"

definition GetAllUser :: "(int set \<Rightarrow> int list) \<Rightarrow> user_manager \<Rightarrow> nat list result" where
  "GetAllUser enum m = GetAllUser_loop (enum (mUserIDDictionary m)) (mUserObjPool m) []"

definition GetCurrentUserCnt :: "user_manager \<Rightarrow> int" where
  "GetCurrentUserCnt m = mCurrentUserCnt m"

definition GetMaxUserCnt :: "user_manager \<Rightarrow> int" where
  "GetMaxUserCnt m = mMaxUserCnt m"

text \<open>A method called through a \<open>User*\<close>.\<close>

definition with_user :: "nat \<Rightarrow> (user \<Rightarrow> user) \<Rightarrow> user_manager \<Rightarrow> user_manager" where
  "with_user ptr f m = m\<lparr>mUserObjPool := (mUserObjPool m)[ptr := f (mUserObjPool m ! ptr)]\<rparr>"

section \<open>The invariant\<close>

definition um_ok :: "user_manager \<Rightarrow> bool" where
  "um_ok m \<longleftrightarrow> 0 \<le> mMaxUserCnt m \<and> mMaxUserCnt m \<le> int32_max \<and>
     int (length (mUserObjPool m)) = mMaxUserCnt m \<and>
     (\<forall>i < length (mUserObjPool m). mIndex (mUserObjPool m ! i) = int i) \<and>
     mUserIDDictionary m \<subseteq> {0..<mMaxUserCnt m}"

text \<open>The counter is right.\<close>

definition counted :: "user_manager \<Rightarrow> bool" where
  "counted m \<longleftrightarrow> mCurrentUserCnt m = int (card (mUserIDDictionary m))"

definition enum_ok :: "(int set \<Rightarrow> int list) \<Rightarrow> bool" where
  "enum_ok enum \<longleftrightarrow> (\<forall>D. finite D \<longrightarrow> set (enum D) = D \<and> distinct (enum D))"

lemma um_ok_finite: "um_ok m \<Longrightarrow> finite (mUserIDDictionary m)"
  by (auto simp: um_ok_def intro: finite_subset)

lemma um_ok_card: "um_ok m \<Longrightarrow> int (card (mUserIDDictionary m)) \<le> mMaxUserCnt m"
proof -
  assume ok: "um_ok m"
  then have "card (mUserIDDictionary m) \<le> card {0..<mMaxUserCnt m}"
    by (intro card_mono) (simp_all add: um_ok_def)
  with ok show ?thesis by (auto simp: um_ok_def)
qed

lemma UserManager_Init_ok:
  assumes "0 \<le> n" and "n \<le> int32_max"
  shows "\<exists>m. UserManager_Init n UserManager_new = Inr m \<and> um_ok m \<and> counted m \<and>
     mUserIDDictionary m = {} \<and> length (mUserObjPool m) = nat n"
  using assms by (simp add: UserManager_Init_def um_ok_def counted_def UserManager_new_def User_Init_def)

lemma IncreaseUserCnt_Inr_iff:
  "IncreaseUserCnt m = Inr m' \<longleftrightarrow> in_int32 (mCurrentUserCnt m + 1) \<and> m' = m\<lparr>mCurrentUserCnt := mCurrentUserCnt m + 1\<rparr>"
  by (auto simp: IncreaseUserCnt_def bind_result_Inr_iff add_int32_Inr_iff)

lemma AddUser_Inr_iff:
  "AddUser i m = Inr (e, m') \<longleftrightarrow>
     0 \<le> i \<and> i < int (length (mUserObjPool m)) \<and> in_int32 (mCurrentUserCnt m + 1) \<and> e = NONE \<and>
     m' = m\<lparr>mUserObjPool := (mUserObjPool m)[nat i := User_Clear (mUserObjPool m ! nat i)],
            mUserIDDictionary := insert i (mUserIDDictionary m), mCurrentUserCnt := mCurrentUserCnt m + 1\<rparr>"
  by (auto simp: AddUser_def bind_result_Inr_iff vec_get_Inr_iff vec_set_Inr_iff IncreaseUserCnt_Inr_iff)

lemma DeleteUser_Inr_iff:
  "DeleteUser p m = Inr m' \<longleftrightarrow> p < length (mUserObjPool m) \<and>
     m' = DecreaseUserCnt (m\<lparr>mUserIDDictionary := mUserIDDictionary m - {mIndex (mUserObjPool m ! p)},
            mUserObjPool := (mUserObjPool m)[p := User_Clear (mUserObjPool m ! p)]\<rparr>)"
  by (auto simp: DeleteUser_def bind_result_Inr_iff vec_get_Inr_iff vec_set_Inr_iff GetNetConnIdx_def)

lemma User_Clear_index [simp]: "mIndex (User_Clear u) = mIndex u"
  by (simp add: User_Clear_def)

lemma DecreaseUserCnt_simps [simp]:
  "mUserObjPool (DecreaseUserCnt m) = mUserObjPool m" "mMaxUserCnt (DecreaseUserCnt m) = mMaxUserCnt m"
  "mUserIDDictionary (DecreaseUserCnt m) = mUserIDDictionary m"
  "mCurrentUserCnt (DecreaseUserCnt m) = (if 0 < mCurrentUserCnt m then mCurrentUserCnt m - 1 else mCurrentUserCnt m)"
  by (simp_all add: DecreaseUserCnt_def)

lemma AddUser_um_ok: "um_ok m \<Longrightarrow> AddUser i m = Inr (e, m') \<Longrightarrow> um_ok m'"
  by (auto simp: AddUser_Inr_iff um_ok_def nth_list_update)

lemma DeleteUser_um_ok: "um_ok m \<Longrightarrow> DeleteUser p m = Inr m' \<Longrightarrow> um_ok m'"
  by (auto simp: DeleteUser_Inr_iff um_ok_def nth_list_update)

lemma with_user_um_ok:
  "um_ok m \<Longrightarrow> (\<And>u. mIndex (f u) = mIndex u) \<Longrightarrow> um_ok (with_user p f m)"
  by (cases "p < length (mUserObjPool m)") (auto simp: with_user_def um_ok_def nth_list_update)

lemma AddUser_counted:
  assumes "um_ok m" and "counted m" and "0 \<le> i" and "i < mMaxUserCnt m" and "i \<notin> mUserIDDictionary m"
  shows "\<exists>m'. AddUser i m = Inr (NONE, m') \<and> um_ok m' \<and> counted m' \<and>
     mUserIDDictionary m' = insert i (mUserIDDictionary m) \<and> mMaxUserCnt m' = mMaxUserCnt m"
proof -
  have "card (insert i (mUserIDDictionary m)) \<le> card {0..<mMaxUserCnt m}"
    using assms by (intro card_mono) (auto simp: um_ok_def)
  then have "int (card (mUserIDDictionary m)) + 1 \<le> int32_max"
    using assms um_ok_finite [OF assms(1)] by (auto simp: um_ok_def)
  then have r: "in_int32 (mCurrentUserCnt m + 1)"
    using assms(2) by (simp add: counted_def int32_bounds)
  then obtain m' where m': "AddUser i m = Inr (NONE, m')"
    using assms by (simp add: AddUser_Inr_iff um_ok_def)
  then show ?thesis
    using AddUser_um_ok [OF assms(1) m'] assms(2,5) um_ok_finite [OF assms(1)]
    by (auto simp: AddUser_Inr_iff counted_def)
qed

lemma DeleteUser_counted:
  assumes "um_ok m" and "counted m" and "i \<in> mUserIDDictionary m"
  shows "\<exists>m'. DeleteUser (nat i) m = Inr m' \<and> um_ok m' \<and> counted m' \<and>
     mUserIDDictionary m' = mUserIDDictionary m - {i} \<and> mMaxUserCnt m' = mMaxUserCnt m"
proof -
  from assms have "i \<in> {0..<mMaxUserCnt m}" "int (length (mUserObjPool m)) = mMaxUserCnt m"
    by (auto simp: um_ok_def)
  then have i: "0 \<le> i" "nat i < length (mUserObjPool m)" by auto
  then have ix: "mIndex (mUserObjPool m ! nat i) = i" using assms(1) by (simp add: um_ok_def)
  from i obtain m' where m': "DeleteUser (nat i) m = Inr m'" by (simp add: DeleteUser_Inr_iff)
  have "0 < card (mUserIDDictionary m)"
    using assms um_ok_finite by (auto simp: card_gt_0_iff)
  then show ?thesis
    using m' DeleteUser_um_ok [OF assms(1) m'] assms ix um_ok_finite [OF assms(1)]
    by (auto simp: DeleteUser_Inr_iff counted_def card_Diff_singleton)
qed


lemma GetUserByConnIdx_Inr_iff:
  "GetUserByConnIdx i m = Inr p \<longleftrightarrow> 0 \<le> i \<and> i < int (length (mUserObjPool m)) \<and> p = nat i"
  by (auto simp: GetUserByConnIdx_def bind_result_Inr_iff vec_get_Inr_iff)

section \<open>Look-ups\<close>

lemma GetAllUser_loop_Inr:
  "set is \<subseteq> {0..<int (length pool)} \<Longrightarrow> GetAllUser_loop is pool v = Inr (v @ map nat is)"
  by (induction "is" arbitrary: v) (auto simp: vec_get_def)

lemma GetAllUser_eq:
  assumes "um_ok m" and "enum_ok enum"
  shows "GetAllUser enum m = Inr (map nat (enum (mUserIDDictionary m)))"
proof -
  have "set (enum (mUserIDDictionary m)) = mUserIDDictionary m"
    using assms um_ok_finite by (simp add: enum_ok_def)
  then have "set (enum (mUserIDDictionary m)) \<subseteq> {0..<int (length (mUserObjPool m))}"
    using assms(1) by (simp add: um_ok_def)
  then show ?thesis by (simp add: GetAllUser_def GetAllUser_loop_Inr)
qed

lemma GetUserByName_loop_eq:
  "i + n \<le> length pool \<Longrightarrow> GetUserByName_loop n i pool name =
     Inr (List.find (\<lambda>j. mName (pool ! j) = name) [i..<i + n])"
proof (induction n arbitrary: i)
  case (Suc n)
  have "[i..<i + Suc n] = i # [Suc i..<Suc i + n]"
    by (simp add: upt_rec [of i])
  with Suc show ?case by (simp add: GetName_def)
qed simp

lemma GetUserByName_eq:
  assumes "um_ok m"
  shows "GetUserByName name m =
     Inr (List.find (\<lambda>j. mName (mUserObjPool m ! j) = name) [0..<length (mUserObjPool m)])"
proof -
  have "nat (mMaxUserCnt m) = length (mUserObjPool m)" using assms by (auto simp: um_ok_def)
  then show ?thesis by (simp add: GetUserByName_def GetUserByName_loop_eq)
qed

lemma find_upt_Some_iff:
  "List.find P [0..<n] = Some i \<longleftrightarrow> i < n \<and> P i \<and> (\<forall>j < i. \<not> P j)"
  by (auto simp: find_Some_iff)

section \<open>Connections\<close>

text \<open>What the packet thread does with the pool when a client connects or disconnects.\<close>

datatype um_event = Connected int | Disconnected int

fun um_event_step :: "um_event \<Rightarrow> user_manager \<Rightarrow> user_manager result" where
  "um_event_step (Connected i) m = bind_result (AddUser i m) (\<lambda>(_, m'). Inr m')"
| "um_event_step (Disconnected i) m = bind_result (GetUserByConnIdx i m) (\<lambda>p. DeleteUser p m)"

fun um_run :: "um_event list \<Rightarrow> user_manager \<Rightarrow> user_manager result" where
  "um_run [] m = Inr m"
| "um_run (e # es) m = bind_result (um_event_step e m) (um_run es)"

text \<open>Connections and disconnections of each index alternate.\<close>

fun paired :: "int set \<Rightarrow> um_event list \<Rightarrow> bool" where
  "paired D [] \<longleftrightarrow> True"
| "paired D (Connected i # es) \<longleftrightarrow> i \<notin> D \<and> paired (insert i D) es"
| "paired D (Disconnected i # es) \<longleftrightarrow> i \<in> D \<and> paired (D - {i}) es"

fun connected_after :: "int set \<Rightarrow> um_event list \<Rightarrow> int set" where
  "connected_after D [] = D"
| "connected_after D (Connected i # es) = connected_after (insert i D) es"
| "connected_after D (Disconnected i # es) = connected_after (D - {i}) es"

fun event_index :: "um_event \<Rightarrow> int" where
  "event_index (Connected i) = i"
| "event_index (Disconnected i) = i"

lemma um_run_paired:
  assumes "um_ok m" and "counted m" and "paired (mUserIDDictionary m) es"
    and "\<forall>e \<in> set es. 0 \<le> event_index e \<and> event_index e < mMaxUserCnt m"
  shows "\<exists>m'. um_run es m = Inr m' \<and> um_ok m' \<and> counted m' \<and>
     mUserIDDictionary m' = connected_after (mUserIDDictionary m) es \<and> mMaxUserCnt m' = mMaxUserCnt m"
  using assms
proof (induction es arbitrary: m)
  case (Cons e es)
  show ?case
  proof (cases e)
    case (Connected i)
    with Cons.prems AddUser_counted [of m i] obtain m' where
      "AddUser i m = Inr (NONE, m')" "um_ok m'" "counted m'"
      "mUserIDDictionary m' = insert i (mUserIDDictionary m)" "mMaxUserCnt m' = mMaxUserCnt m" by auto
    with Connected Cons.prems Cons.IH [of m'] show ?thesis by auto
  next
    case (Disconnected i)
    with Cons.prems DeleteUser_counted [of m i] obtain m' where
      m': "DeleteUser (nat i) m = Inr m'" "um_ok m'" "counted m'"
      "mUserIDDictionary m' = mUserIDDictionary m - {i}" "mMaxUserCnt m' = mMaxUserCnt m" by auto
    have "GetUserByConnIdx i m = Inr (nat i)"
      using Disconnected Cons.prems by (simp add: GetUserByConnIdx_Inr_iff um_ok_def)
    with m' Disconnected Cons.prems Cons.IH [of m'] show ?thesis by auto
  qed
qed simp

section \<open>Properties\<close>

text \<open>C23: While connections and disconnections of each index alternate, the user manager never faults,
  the set of connected indices follows the events, \<open>mCurrentUserCnt\<close> is its cardinality, and
  \<open>GetAllUser\<close> returns each connected user exactly once.\<close>

theorem UserManager_protocol:
  assumes "um_ok m" and "counted m" and "enum_ok enum" and "paired (mUserIDDictionary m) es"
    and "\<forall>e \<in> set es. 0 \<le> event_index e \<and> event_index e < mMaxUserCnt m"
  shows "\<exists>m' us. um_run es m = Inr m' \<and> um_ok m' \<and>
     mUserIDDictionary m' = connected_after (mUserIDDictionary m) es \<and>
     mCurrentUserCnt m' = int (card (mUserIDDictionary m')) \<and>
     GetAllUser enum m' = Inr us \<and> distinct us \<and> int ` set us = mUserIDDictionary m'"
proof -
  from um_run_paired [OF assms(1,2,4,5)] obtain m' where m': "um_run es m = Inr m'" "um_ok m'" "counted m'"
    "mUserIDDictionary m' = connected_after (mUserIDDictionary m) es" by blast
  let ?us = "map nat (enum (mUserIDDictionary m'))"
  have e: "set (enum (mUserIDDictionary m')) = mUserIDDictionary m'" "distinct (enum (mUserIDDictionary m'))"
    using assms(3) um_ok_finite [OF m'(2)] by (simp_all add: enum_ok_def)
  have nn: "\<forall>i \<in> mUserIDDictionary m'. 0 \<le> i" using m'(2) by (auto simp: um_ok_def)
  then have "inj_on nat (mUserIDDictionary m')" by (auto simp: inj_on_def eq_nat_nat_iff)
  then have "distinct ?us" using e by (simp add: distinct_map)
  moreover have "int ` set ?us = mUserIDDictionary m'"
    using e(1) nn by (auto simp: image_image)
  ultimately show ?thesis
    using m' GetAllUser_eq [OF m'(2) assms(3)] by (auto simp: counted_def)
qed

text \<open>\<open>GetUserByName\<close> returns the user with the smallest index that has the name, or null when there
  is none. Since a user that disconnects keeps its name, a later player with the same name at a
  larger index is not the one that is found.\<close>

lemma GetUserByName_first:
  assumes "um_ok m"
  shows "GetUserByName name m = Inr (Some i) \<longleftrightarrow>
     i < length (mUserObjPool m) \<and> mName (mUserObjPool m ! i) = name \<and>
     (\<forall>j < i. mName (mUserObjPool m ! j) \<noteq> name)"
  by (simp add: GetUserByName_eq [OF assms] find_upt_Some_iff)

subsection \<open>Witnesses\<close>

definition sorted_enum :: "int set \<Rightarrow> int list" where
  "sorted_enum D = sorted_list_of_set D"

lemma sorted_enum_ok: "enum_ok sorted_enum"
  by (simp add: enum_ok_def sorted_enum_def)

definition wum :: user_manager where
  "wum = \<lparr>mMaxUserCnt = 3, mCurrentUserCnt = 0,
     mUserObjPool = map (\<lambda>i. User_Init (int i) User_new) [0..<3], mUserIDDictionary = {}\<rparr>"

lemma wum_ok: "um_ok wum" "counted wum"
  using UserManager_Init_ok [of 3]
  by (auto simp: wum_def UserManager_Init_def UserManager_new_def int32_max_def)

theorem UserManager_protocol_witness:
  "\<exists>m' us. um_run [Connected 2, Connected 0, Disconnected 2] wum = Inr m' \<and>
     mCurrentUserCnt m' = 1 \<and> GetAllUser sorted_enum m' = Inr us \<and> int ` set us = {0}"
  using UserManager_protocol [OF wum_ok sorted_enum_ok, of "[Connected 2, Connected 0, Disconnected 2]"]
  by (auto simp: wum_def)

end
