(* ===== verification/Packet_Manager.thy ===== *)
theory Packet_Manager
  imports User_Manager
begin

text \<open>
  The packet queues and the callback table of \<^verbatim>\<open>PacketManager.h\<close>, \<^verbatim>\<open>PacketManager.cpp\<close>. A received
  packet goes to the queue of its user and the user's index to one common queue; the packet thread
  takes the index first and then the packet. Both happen under \<open>mLock\<close>, so each operation is one
  step. The type \<open>'h\<close> of callbacks is the set of handlers that the routes register.
\<close>

section \<open>State and operations\<close>

record 'h packet_manager =
  mUserManager :: user_manager
  mInComingPacketUserIndex :: "int list"
  mSystemPacketQueue :: "messageHeader list"
  mRecvFuntionDictionary :: "string \<Rightarrow> 'h list option"

definition CreateCompent :: "int \<Rightarrow> 'h packet_manager \<Rightarrow> 'h packet_manager result" where
  "CreateCompent maxClient pm =
     bind_result (UserManager_Init maxClient UserManager_new) (\<lambda>um. Inr (pm\<lparr>mUserManager := um\<rparr>))"

definition RegisterCallback :: "string \<Rightarrow> 'h \<Rightarrow> 'h packet_manager \<Rightarrow> 'h packet_manager" where
  "RegisterCallback key callback pm =
     (case mRecvFuntionDictionary pm key of
        Some container \<Rightarrow>
          pm\<lparr>mRecvFuntionDictionary := (mRecvFuntionDictionary pm)(key := Some (container @ [callback]))\<rparr>
      | None \<Rightarrow>
          pm\<lparr>mRecvFuntionDictionary := (mRecvFuntionDictionary pm)(key := Some [callback])\<rparr>)"

definition ReceivePacketData :: "int \<Rightarrow> messageHeader \<Rightarrow> 'h packet_manager \<Rightarrow> 'h packet_manager result" where
  "ReceivePacketData clientIndex packet pm =
     (let packet' = set_userid (word_of_int clientIndex) packet in
      bind_result (GetUserByConnIdx clientIndex (mUserManager pm)) (\<lambda>pUser.
        Inr (pm\<lparr>mUserManager := with_user pUser (SetPacketData packet') (mUserManager pm),
                mInComingPacketUserIndex := mInComingPacketUserIndex pm @ [clientIndex]\<rparr>)))"

definition DequePacketData :: "'h packet_manager \<Rightarrow> (messageHeader option \<times> 'h packet_manager) result" where
  "DequePacketData pm =
     (case mInComingPacketUserIndex pm of
        [] \<Rightarrow> Inr (None, pm)
      | userIndex # rest \<Rightarrow>
          bind_result (GetUserByConnIdx userIndex (mUserManager pm)) (\<lambda>pUser.
            let um = mUserManager pm;
                (packetData, u) = GetPacket_user (mUserObjPool um ! pUser);
                pm' = pm\<lparr>mInComingPacketUserIndex := rest, mUserManager := with_user pUser (\<lambda>_. u) um\<rparr>
            in case packetData of
                 None \<Rightarrow> Inr (None, pm')
               | Some p \<Rightarrow> Inr (Some (set_userid (word_of_int userIndex) p), pm')))"

definition PushSystemPacket :: "messageHeader \<Rightarrow> 'h packet_manager \<Rightarrow> 'h packet_manager" where
  "PushSystemPacket packet pm = pm\<lparr>mSystemPacketQueue := mSystemPacketQueue pm @ [packet]\<rparr>"

definition DequeSystemPacketData :: "'h packet_manager \<Rightarrow> messageHeader option \<times> 'h packet_manager" where
  "DequeSystemPacketData pm =
     (case mSystemPacketQueue pm of
        [] \<Rightarrow> (None, pm)
      | packetData # rest \<Rightarrow> (Some packetData, pm\<lparr>mSystemPacketQueue := rest\<rparr>))"

section \<open>The system queue\<close>

interpretation system_queue: fifo "\<lambda>p pm. Inr (PushSystemPacket p pm)" "\<lambda>pm. Inr (DequeSystemPacketData pm)"
    mSystemPacketQueue id "\<lambda>pm. True" "\<lambda>p pm. True"
  by unfold_locales (auto simp: PushSystemPacket_def DequeSystemPacketData_def)

section \<open>The packet queue\<close>

text \<open>
  The order in which packets will be taken: the common queue of indices, each replaced by the next
  packet of that user.
\<close>

fun pending_packets :: "int list \<Rightarrow> (int \<Rightarrow> messageHeader list) \<Rightarrow> messageHeader list" where
  "pending_packets [] q = []"
| "pending_packets (i # idxs) q =
     (case q i of
        [] \<Rightarrow> pending_packets idxs q
      | p # ps \<Rightarrow> set_userid (word_of_int i) p # pending_packets idxs (q(i := ps)))"

definition user_queues :: "user_manager \<Rightarrow> int \<Rightarrow> messageHeader list" where
  "user_queues um i =
     (if 0 \<le> i \<and> i < int (length (mUserObjPool um)) then mPacketQueue (mUserObjPool um ! nat i) else [])"

definition packets_of :: "'h packet_manager \<Rightarrow> messageHeader list" where
  "packets_of pm = pending_packets (mInComingPacketUserIndex pm) (user_queues (mUserManager pm))"

text \<open>Each user has as many packets as the common queue has entries for it.\<close>

definition balanced :: "int list \<Rightarrow> (int \<Rightarrow> messageHeader list) \<Rightarrow> bool" where
  "balanced idxs q \<longleftrightarrow> (\<forall>i. length (q i) = count_list idxs i)"

definition pm_ok :: "'h packet_manager \<Rightarrow> bool" where
  "pm_ok pm \<longleftrightarrow> um_ok (mUserManager pm) \<and>
     balanced (mInComingPacketUserIndex pm) (user_queues (mUserManager pm))"

lemma pending_snoc:
  assumes "balanced idxs q"
  shows "pending_packets (idxs @ [i]) (q(i := q i @ [p])) = pending_packets idxs q @ [set_userid (word_of_int i) p]"
  using assms
proof (induction idxs arbitrary: q)
  case Nil
  then have "q i = []" by (simp add: balanced_def)
  then show ?case by simp
next
  case (Cons j js)
  then have "length (q j) = Suc (count_list js j)" by (simp add: balanced_def)
  then obtain x xs where q: "q j = x # xs" by (cases "q j") auto
  have "balanced js (q(j := xs))"
    using Cons.prems q by (auto simp: balanced_def split: if_splits) (metis Suc_inject length_Cons)
  note IH = Cons.IH [OF this]
  show ?case
  proof (cases "i = j")
    case True
    then have "(q(i := q i @ [p]))(j := xs @ [p]) = (q(j := xs))(i := (q(j := xs)) i @ [p])" by simp
    with True show ?thesis using IH q by (simp del: fun_upd_apply add: fun_upd_same)
  next
    case False
    then have "(q(i := q i @ [p]))(j := xs) = (q(j := xs))(i := q i @ [p])" by (simp add: fun_upd_twist)
    moreover have "(q(i := q i @ [p])) j = x # xs" "(q(j := xs)) i = q i" using False q by simp_all
    ultimately show ?thesis using IH q by (simp del: fun_upd_apply)
  qed
qed

lemma balanced_snoc: "balanced idxs q \<Longrightarrow> balanced (idxs @ [i]) (q(i := q i @ [p]))"
  by (auto simp: balanced_def)

lemma balanced_ConsD:
  assumes "balanced (i # idxs) q"
  obtains p ps where "q i = p # ps" and "balanced idxs (q(i := ps))"
proof -
  have "length (q i) = Suc (count_list idxs i)" using assms by (simp add: balanced_def)
  then obtain p ps where q: "q i = p # ps" by (cases "q i") auto
  moreover have "balanced idxs (q(i := ps))"
    using assms q by (auto simp: balanced_def split: if_splits) (metis Suc_inject length_Cons)
  ultimately show ?thesis using that by blast
qed

lemma user_queues_with_user:
  assumes "p < length (mUserObjPool um)"
  shows "user_queues (with_user p f um) = (user_queues um)(int p := mPacketQueue (f (mUserObjPool um ! p)))"
  using assms by (auto simp: user_queues_def with_user_def fun_eq_iff nth_list_update)

lemma length_with_user [simp]: "length (mUserObjPool (with_user p f um)) = length (mUserObjPool um)"
  by (simp add: with_user_def)

lemma ReceivePacketData_ok:
  assumes "pm_ok pm" and "0 \<le> i" and "i < int (length (mUserObjPool (mUserManager pm)))"
  shows "\<exists>pm'. ReceivePacketData i p pm = Inr pm' \<and> pm_ok pm' \<and>
     packets_of pm' = packets_of pm @ [set_userid (word_of_int i) p] \<and>
     length (mUserObjPool (mUserManager pm')) = length (mUserObjPool (mUserManager pm))"
proof -
  let ?p = "set_userid (word_of_int i) p"
  let ?um = "with_user (nat i) (SetPacketData ?p) (mUserManager pm)"
  let ?q = "user_queues (mUserManager pm)"
  have q: "user_queues ?um = ?q(i := ?q i @ [?p])"
    using assms(2,3) by (subst user_queues_with_user) (auto simp: SetPacketData_def user_queues_def)
  have um: "um_ok ?um"
    using assms(1) by (intro with_user_um_ok) (simp_all add: pm_ok_def SetPacketData_def)
  have b: "balanced (mInComingPacketUserIndex pm) ?q" using assms(1) by (simp add: pm_ok_def)
  have same: "set_userid (word_of_int i) ?p = ?p" by (simp add: set_userid_def or.assoc)
  show ?thesis
    using assms um balanced_snoc [OF b, of i ?p] pending_snoc [OF b, of i ?p]
    by (simp add: ReceivePacketData_def Let_def GetUserByConnIdx_def vec_get_def pm_ok_def packets_of_def q same)
qed

lemma DequePacketData_empty:
  assumes "pm_ok pm" and "packets_of pm = []"
  shows "DequePacketData pm = Inr (None, pm)"
proof (cases "mInComingPacketUserIndex pm")
  case Nil
  then show ?thesis by (simp add: DequePacketData_def)
next
  case (Cons i idxs)
  with assms(1) obtain p ps where "user_queues (mUserManager pm) i = p # ps"
    by (auto simp: pm_ok_def elim: balanced_ConsD)
  with Cons assms(2) show ?thesis by (simp add: packets_of_def)
qed

lemma DequePacketData_next:
  assumes "pm_ok pm" and "packets_of pm = y # ys"
  shows "\<exists>pm'. DequePacketData pm = Inr (Some y, pm') \<and> pm_ok pm' \<and> packets_of pm' = ys \<and>
     length (mUserObjPool (mUserManager pm')) = length (mUserObjPool (mUserManager pm))"
proof -
  let ?q = "user_queues (mUserManager pm)"
  from assms(2) obtain i idxs where c: "mInComingPacketUserIndex pm = i # idxs"
    by (cases "mInComingPacketUserIndex pm") (auto simp: packets_of_def)
  with assms(1) have "balanced (i # idxs) ?q" by (simp add: pm_ok_def)
  then obtain p ps where q: "?q i = p # ps" and b: "balanced idxs (?q(i := ps))" by (rule balanced_ConsD)
  from q have i: "0 \<le> i" "i < int (length (mUserObjPool (mUserManager pm)))"
    by (auto simp: user_queues_def split: if_splits)
  have pq: "mPacketQueue (mUserObjPool (mUserManager pm) ! nat i) = p # ps"
    using q i by (simp add: user_queues_def)
  let ?u = "(mUserObjPool (mUserManager pm) ! nat i)\<lparr>mPacketQueue := ps\<rparr>"
  let ?um = "with_user (nat i) (\<lambda>_. ?u) (mUserManager pm)"
  have uq: "user_queues ?um = ?q(i := ps)"
    using i by (subst user_queues_with_user) auto
  have "um_ok ?um"
    using assms(1) i by (auto simp: pm_ok_def um_ok_def with_user_def nth_list_update)
  moreover from assms(2) c q have "y = set_userid (word_of_int i) p" "ys = pending_packets idxs (?q(i := ps))"
    by (simp_all add: packets_of_def)
  ultimately show ?thesis
    using c i b uq pq
    by (simp add: DequePacketData_def GetUserByConnIdx_def vec_get_def GetPacket_user_def Let_def
        pm_ok_def packets_of_def)
qed

interpretation packet_queue: fifo "\<lambda>(i, p) pm. ReceivePacketData i p pm" DequePacketData packets_of
    "\<lambda>(i, p). set_userid (word_of_int i) p" pm_ok
    "\<lambda>(i, p) pm. 0 \<le> i \<and> i < int (length (mUserObjPool (mUserManager pm)))"
proof (unfold_locales, goal_cases)
  case (1 pm x)
  then show ?case using ReceivePacketData_ok by (cases x) fastforce
next
  case (2 pm)
  then show ?case by (rule DequePacketData_empty)
next
  case (3 pm y ys)
  then show ?case using DequePacketData_next [OF 3] by auto
qed

section \<open>The callback table\<close>

text \<open>The callbacks of a type name; none when it was never registered.\<close>

definition callbacks :: "'h packet_manager \<Rightarrow> string \<Rightarrow> 'h list" where
  "callbacks pm key = (case mRecvFuntionDictionary pm key of None \<Rightarrow> [] | Some c \<Rightarrow> c)"

lemma callbacks_RegisterCallback:
  "callbacks (RegisterCallback k h pm) key = (if key = k then callbacks pm key @ [h] else callbacks pm key)"
  by (simp add: callbacks_def RegisterCallback_def split: option.splits)

lemma RegisterCallback_frame [simp]:
  "mUserManager (RegisterCallback k h pm) = mUserManager pm"
  "mInComingPacketUserIndex (RegisterCallback k h pm) = mInComingPacketUserIndex pm"
  "mSystemPacketQueue (RegisterCallback k h pm) = mSystemPacketQueue pm"
  by (simp_all add: RegisterCallback_def split: option.splits)

lemma DequePacketData_frame:
  assumes "DequePacketData pm = Inr (r, pm')"
  shows "mSystemPacketQueue pm' = mSystemPacketQueue pm" "mRecvFuntionDictionary pm' = mRecvFuntionDictionary pm"
  using assms unfolding DequePacketData_def
  by (auto simp: bind_result_Inr_iff Let_def case_prod_unfold split: list.splits option.splits)

section \<open>Properties\<close>

text \<open>C4: The packet queue of the manager, which is a common queue of user indices over one packet queue per
  user, behaves as one list of packets: for any sequence of \<open>ReceivePacketData\<close> with valid indices and
  \<open>DequePacketData\<close>, no call faults, every answer is the one that a list gives, what came out followed
  by what is left is what was there followed by what went in, and each packet comes out with the
  index of the client that sent it, whatever \<open>userId\<close> the client wrote.\<close>

theorem PacketManager_queue:
  assumes "pm_ok pm"
    and "\<forall>(i, p) \<in> set (pushed ops). 0 \<le> i \<and> i < int (length (mUserObjPool (mUserManager pm)))"
  shows "\<exists>rs pm'. run_queue (\<lambda>(i, p) pm. ReceivePacketData i p pm) DequePacketData ops pm = Inr (rs, pm') \<and>
     rs = fst (run_list (\<lambda>(i, p). set_userid (word_of_int i) p) ops (packets_of pm)) \<and> pm_ok pm' \<and>
     answered rs @ packets_of pm' =
       packets_of pm @ map (\<lambda>(i, p). set_userid (word_of_int i) p) (pushed ops)"
proof -
  have a: "\<forall>x \<in> set (pushed ops). (\<lambda>(i, p) pm. 0 \<le> i \<and> i < int (length (mUserObjPool (mUserManager pm)))) x pm"
    using assms(2) by auto
  from packet_queue.run_refines [OF assms(1) a] packet_queue.run_conserves [OF assms(1) a]
  show ?thesis by blast
qed

subsection \<open>Witnesses\<close>

definition wpm :: "unit packet_manager" where
  "wpm = \<lparr>mUserManager = wum, mInComingPacketUserIndex = [], mSystemPacketQueue = [],
     mRecvFuntionDictionary = (\<lambda>_. None)\<rparr>"

lemma wpm_ok: "pm_ok wpm"
  using wum_ok(1) by (auto simp: pm_ok_def wpm_def balanced_def user_queues_def wum_def User_Init_def)

theorem PacketManager_queue_witness:
  "\<exists>rs pm'. run_queue (\<lambda>(i, p) pm. ReceivePacketData i p pm) DequePacketData
       [Push (2, whdr), Push (0, whdr), Pop] wpm = Inr (rs, pm') \<and> answered rs = [set_userid 2 whdr]"
proof -
  let ?ops = "[Push (2, whdr), Push (0, whdr), Pop]"
  have "\<forall>(i, p) \<in> set (pushed ?ops). 0 \<le> i \<and> i < int (length (mUserObjPool (mUserManager wpm)))"
    by (simp add: wpm_def wum_def)
  from PacketManager_queue [OF wpm_ok this] show ?thesis
    by (auto simp: wpm_def packets_of_def)
qed

end
