(* ===== verification/Inventory_DB.thy ===== *)
theory Inventory_DB
  imports User
begin

text \<open>
  The stored procedures of \<^verbatim>\<open>src/sql\<close> over the tables they use: \<open>ckdb.Items\<close> and one table
  \<open>inventory.<name>\<close> per player, with a unique \<open>item_id\<close> that references \<open>Items\<close>. A procedure
  builds its statement from the table name it is given; whether a name is the identifier of a table,
  and of which one (servers may fold the case), is the server's business and the parameter \<open>tk\<close>. \<open>None\<close> is
  an SQL error, which the connector throws as an exception. Rows are returned in the order of
  insertion.
\<close>

type_synonym table_key = "string \<Rightarrow> string option"

record database =
  reachable :: bool
  db_items :: "int \<Rightarrow> (string \<times> string) option"
  db_inventory :: "string \<Rightarrow> (int \<times> int) list option"

section \<open>The procedures\<close>

definition TryCreateInventoryTable :: "table_key \<Rightarrow> string \<Rightarrow> database \<Rightarrow> database option" where
  "TryCreateInventoryTable tk p_table_name d =
     (case tk p_table_name of
        None \<Rightarrow> None
      | Some t \<Rightarrow>
          (case db_inventory d t of
             Some _ \<Rightarrow> Some d
           | None \<Rightarrow> Some (d\<lparr>db_inventory := (db_inventory d)(t := Some [])\<rparr>)))"

definition GetInventoryItemList :: "table_key \<Rightarrow> string \<Rightarrow> database \<Rightarrow> (int \<times> int) list option" where
  "GetInventoryItemList tk p_table_name d =
     (case tk p_table_name of None \<Rightarrow> None | Some t \<Rightarrow> db_inventory d t)"

definition GetItemsRange :: "int \<Rightarrow> database \<Rightarrow> (int \<times> string \<times> string) list" where
  "GetItemsRange p_id d = (case db_items d p_id of None \<Rightarrow> [] | Some (name, desc) \<Rightarrow> [(p_id, name, desc)])"

definition InventoryUpdate :: "table_key \<Rightarrow> string \<Rightarrow> int \<Rightarrow> int \<Rightarrow> bool \<Rightarrow> database \<Rightarrow> database option" where
  "InventoryUpdate tk p_table_name p_item_id p_item_count p_is_Set d =
     (case tk p_table_name of
        None \<Rightarrow> None
      | Some t \<Rightarrow>
          (case db_inventory d t of
             None \<Rightarrow> None
           | Some rows \<Rightarrow>
               (case map_of rows p_item_id of
                  Some old \<Rightarrow>
                    let c = (if p_is_Set then p_item_count else old + p_item_count) in
                    if in_int32 c
                    then Some (d\<lparr>db_inventory := (db_inventory d)
                           (t := Some (map (\<lambda>(i, n). if i = p_item_id then (i, c) else (i, n)) rows))\<rparr>)
                    else None
                | None \<Rightarrow>
                    if db_items d p_item_id \<noteq> None
                    then Some (d\<lparr>db_inventory := (db_inventory d)(t := Some (rows @ [(p_item_id, p_item_count)]))\<rparr>)
                    else None)))"

section \<open>Tables\<close>

definition table :: "table_key \<Rightarrow> string \<Rightarrow> database \<Rightarrow> (int \<times> int) list option" where
  "table tk name d = Option.bind (tk name) (db_inventory d)"

definition db_ok :: "database \<Rightarrow> bool" where
  "db_ok d \<longleftrightarrow> (\<forall>t rows. db_inventory d t = Some rows \<longrightarrow>
     distinct (map fst rows) \<and> (\<forall>(i, c) \<in> set rows. in_int32 i \<and> in_int32 c \<and> db_items d i \<noteq> None))"

lemma GetInventoryItemList_eq: "GetInventoryItemList tk name d = table tk name d"
  by (simp add: GetInventoryItemList_def table_def split: option.splits)

lemma map_of_update_row:
  "map_of (map (\<lambda>(i, n). if i = k then (i, c) else (i, n)) rows) j =
     (if j = k \<and> map_of rows k \<noteq> None then Some c else map_of rows j)"
  by (induction rows) auto

lemma map_fst_update_row: "map fst (map (\<lambda>(i, n). if i = k then (i, c) else (i, n)) rows) = map fst rows"
  by (induction rows) auto

text \<open>Setting the count of an item that exists is an update of the table seen as a map.\<close>

lemma InventoryUpdate_set:
  assumes "table tk name d = Some rows" and "in_int32 c" and "db_items d i \<noteq> None"
  shows "\<exists>rows'. InventoryUpdate tk name i c True d =
       Some (d\<lparr>db_inventory := (db_inventory d)(the (tk name) := Some rows')\<rparr>) \<and>
     map_of rows' = (map_of rows)(i \<mapsto> c) \<and>
     (distinct (map fst rows) \<longrightarrow> distinct (map fst rows')) \<and>
     (\<forall>x \<in> set rows'. x \<in> set rows \<or> x = (i, c)) \<and> length rows' \<le> Suc (length rows)"
proof -
  from assms(1) obtain t where t: "tk name = Some t" "db_inventory d t = Some rows"
    by (auto simp: table_def Option.bind_eq_Some_conv)
  show ?thesis
  proof (cases "map_of rows i")
    case None
    then have i: "i \<notin> fst ` set rows" by (simp add: map_of_eq_None_iff)
    have "map_of (rows @ [(i, c)]) = (map_of rows)(i \<mapsto> c)"
      using None by (auto simp: map_add_def fun_eq_iff split: option.splits)
    with None t assms(3) i show ?thesis
      by (intro exI [of _ "rows @ [(i, c)]"]) (simp add: InventoryUpdate_def)
  next
    case (Some old)
    let ?rows = "map (\<lambda>(j, n). if j = i then (j, c) else (j, n)) rows"
    have "map_of ?rows = (map_of rows)(i \<mapsto> c)"
      using Some by (auto simp: map_of_update_row fun_eq_iff)
    moreover have "\<forall>x \<in> set ?rows. x \<in> set rows \<or> x = (i, c)" by auto
    ultimately show ?thesis
      using Some t assms(2) map_fst_update_row [of i c rows]
      by (intro exI [of _ ?rows]) (simp add: InventoryUpdate_def Let_def del: map_map)
  qed
qed

lemma InventoryUpdate_no_table: "table tk name d = None \<Longrightarrow> InventoryUpdate tk name i c b d = None"
  by (auto simp: InventoryUpdate_def table_def split: option.splits)

lemma TryCreateInventoryTable_table:
  assumes "tk name \<noteq> None"
  shows "\<exists>d'. TryCreateInventoryTable tk name d = Some d' \<and> db_items d' = db_items d \<and>
     reachable d' = reachable d \<and>
     table tk name d' = Some (case table tk name d of None \<Rightarrow> [] | Some rows \<Rightarrow> rows)"
  using assms by (auto simp: TryCreateInventoryTable_def table_def split: option.splits)

end
