(* ===== verification/Recv_Framing.thy ===== *)
theory Recv_Framing
  imports Packet_Util
begin

text \<open>
  The reassembly of packets from received chunks: \<^verbatim>\<open>GameServer::OnReceive\<close> with the
  per-client buffer \<open>mUserRecvBuf\<close> and the count \<open>mUserRecvLastSize\<close> of bytes kept from the
  previous chunk. The received data is a prefix of length \<open>sz\<close> (\<^verbatim>\<open>size_\<close>) of the client's receive buffer,
  whose capacity is \<open>MAX_SOCK_RECVBUF\<close>; what lies behind it is whatever an earlier
  receive left there. The specification \<open>split_frames\<close> cuts a byte stream at its length prefixes.
\<close>

section \<open>State\<close>

definition MAX_SOCK_RECVBUF :: nat where "MAX_SOCK_RECVBUF = 4096"

record recv_slot =
  recvBuf :: bytes
  lastSize :: uint32

text \<open>The constructor allocates ten slots with no bytes kept; the content of a new buffer is arbitrary.\<close>

definition GameServer_init_slots :: "(nat \<Rightarrow> bytes) \<Rightarrow> recv_slot list" where
  "GameServer_init_slots fresh =
     map (\<lambda>i. \<lparr>recvBuf = take MAX_SOCK_RECVBUF (fresh i @ replicate MAX_SOCK_RECVBUF 0), lastSize = 0\<rparr>) [0..<10]"

definition leftover :: "recv_slot \<Rightarrow> bytes" where
  "leftover s = take (unat (lastSize s)) (recvBuf s)"

section \<open>OnReceive\<close>

text \<open>Keep what is left of the chunk: \<open>lastSize = sz - curPos; memcpy(buf1, pData_ + curPos, lastSize)\<close>.\<close>

definition save_tail :: "bytes \<Rightarrow> uint32 \<Rightarrow> uint32 \<Rightarrow> recv_slot \<Rightarrow> recv_slot result" where
  "save_tail pData sz curPos slot =
     bind_result (copy_into (recvBuf slot) 0 pData (unat curPos) (unat (sz - curPos)))
       (\<lambda>b. Inr (slot\<lparr>recvBuf := b, lastSize := sz - curPos\<rparr>))"

definition deliver_unpacked :: "'h list \<Rightarrow> 'h option \<Rightarrow> 'h list" where
  "deliver_unpacked out h = (case h of None \<Rightarrow> out | Some x \<Rightarrow> out @ [x])"

text \<open>
  The loop at label \<open>A\<close>. The comparisons are unsigned 32-bit ones, as in the code, where
  \<open>curPos + 4 + curSize\<close> converts the signed size to \<open>UINT32\<close>. The packets handed to
  \<open>ReceivePacketData\<close> are collected in \<open>out\<close>; one that does not unpack is skipped.
\<close>

function OnReceive_loop ::
    "(bytes \<Rightarrow> 'h option) \<Rightarrow> bytes \<Rightarrow> uint32 \<Rightarrow> uint32 \<Rightarrow> recv_slot \<Rightarrow> 'h list \<Rightarrow> (recv_slot \<times> 'h list) result" where
  "OnReceive_loop parse pData sz curPos slot out =
     (let buf = take MAX_SOCK_RECVBUF pData in
      if curPos < sz then
        if sz < curPos + 4 then
          bind_result (save_tail buf sz curPos slot) (\<lambda>s. Inr (s, out))
        else bind_result (ByteArrToInt32 (drop (unat curPos) buf)) (\<lambda>curSize.
          if sz < curPos + 4 + curSize then
            bind_result (save_tail buf sz curPos slot) (\<lambda>s. Inr (s, out))
          else bind_result (Unpack parse (drop (unat curPos) buf)) (\<lambda>h.
            OnReceive_loop parse pData sz (curPos + (curSize + 4))
              (slot\<lparr>lastSize := 0\<rparr>) (deliver_unpacked out h)))
      else Inr (slot, out))"
  by pat_completeness auto

text \<open>The position moves forward: a frame that unpacked lies inside the buffer of 4096 bytes.\<close>

lemma OnReceive_loop_progress:
  assumes len: "ByteArrToInt32 (drop (unat curPos) (take MAX_SOCK_RECVBUF pData)) = Inr curSize"
    and h: "Unpack parse (drop (unat curPos) (take MAX_SOCK_RECVBUF pData)) = Inr h"
  shows "unat (curPos + (curSize + 4)) = unat curPos + 4 + nat (sint curSize)"
    and "unat (curPos + (curSize + 4)) \<le> MAX_SOCK_RECVBUF"
proof -
  from Unpack_Inr_iff [OF len] h have nn: "0 \<le> sint curSize"
    and le: "4 + nat (sint curSize) \<le> length (drop (unat curPos) (take MAX_SOCK_RECVBUF pData))"
    by auto
  from le have b: "unat curPos + 4 + nat (sint curSize) \<le> MAX_SOCK_RECVBUF"
    by simp
  have u: "unat curSize = nat (sint curSize)"
    using nn by (rule unat_eq_nat_sint)
  have "unat (curPos + (curSize + 4)) = unat curPos + (unat curSize + 4)"
    using b u by (simp add: unat_word_ariths MAX_SOCK_RECVBUF_def)
  then show "unat (curPos + (curSize + 4)) = unat curPos + 4 + nat (sint curSize)"
    using u by simp
  then show "unat (curPos + (curSize + 4)) \<le> MAX_SOCK_RECVBUF"
    using b by simp
qed

termination OnReceive_loop
proof (relation "measure (\<lambda>(parse, pData, sz, curPos, slot, out). MAX_SOCK_RECVBUF - unat curPos)",
    goal_cases)
  case 1
  show ?case by simp
next
  case (2 parse pData sz curPos slot out buf curSize h)
  then have "unat (curPos + (curSize + 4)) = unat curPos + 4 + nat (sint curSize)"
    and "unat (curPos + (curSize + 4)) \<le> MAX_SOCK_RECVBUF"
    by (auto dest: OnReceive_loop_progress)
  then show ?case by simp
qed

declare OnReceive_loop.simps [simp del]

text \<open>
  The branch for a packet that began in an earlier chunk. With at least four bytes kept the length
  is known and the missing part of the frame is copied behind them; with fewer, the prefix is
  completed first and the payload copied after it. The code checks neither that the chunk holds
  that many bytes nor that the frame fits \<open>mUserRecvBuf\<close>. \<open>curSize + 4\<close> is a sum of signed integers.
\<close>

definition OnReceive_resume :: "bytes \<Rightarrow> recv_slot \<Rightarrow> (bytes \<times> uint32) result" where
  "OnReceive_resume pData slot =
     (let last = lastSize slot; buf1 = recvBuf slot in
      if 4 \<le> last then
        bind_result (ByteArrToInt32 buf1) (\<lambda>curSize.
        bind_result (add_int32 (sint curSize) 4) (\<lambda>n.
        bind_result (copy_into buf1 (unat last) pData 0 (unat (of_int n - last))) (\<lambda>b.
        Inr (b, of_int n - last))))
      else
        bind_result (copy_into buf1 (unat last) pData 0 (unat (4 - last))) (\<lambda>b.
        bind_result (ByteArrToInt32 b) (\<lambda>curSize.
        bind_result (copy_into b 4 pData (unat (4 - last)) (unat (scast curSize :: u64))) (\<lambda>b'.
        Inr (b', 4 - last + curSize)))))"

definition OnReceive_slot ::
    "(bytes \<Rightarrow> 'h option) \<Rightarrow> uint32 \<Rightarrow> bytes \<Rightarrow> recv_slot \<Rightarrow> (recv_slot \<times> 'h list) result" where
  "OnReceive_slot parse sz pData slot =
     (if lastSize slot = 0 then OnReceive_loop parse pData sz 0 slot []
      else bind_result (OnReceive_resume (take MAX_SOCK_RECVBUF pData) slot) (\<lambda>(b, curPos).
           bind_result (Unpack parse b) (\<lambda>h.
             OnReceive_loop parse pData sz curPos \<lparr>recvBuf = b, lastSize = 0\<rparr> (deliver_unpacked [] h))))"

text \<open>The whole handler: it indexes the arrays of ten slots with the client index.\<close>

definition OnReceive ::
    "(bytes \<Rightarrow> 'h option) \<Rightarrow> recv_slot list \<Rightarrow> nat \<Rightarrow> uint32 \<Rightarrow> bytes \<Rightarrow> (recv_slot list \<times> 'h list) result" where
  "OnReceive parse slots clientIndex sz pData =
     bind_result (vec_get slots (int clientIndex)) (\<lambda>slot.
     bind_result (OnReceive_slot parse sz pData slot) (\<lambda>(slot', out).
       Inr (slots[clientIndex := slot'], out)))"

section \<open>The specification: cutting a stream at its length prefixes\<close>

definition frame :: "bytes \<Rightarrow> bytes" where
  "frame p = Int32ToByteArr (of_nat (length p)) @ p"

definition frame_len :: "bytes \<Rightarrow> nat" where
  "frame_len bs = (case ByteArrToInt32 bs of Inl _ \<Rightarrow> 0 | Inr v \<Rightarrow> nat (sint v))"

text \<open>
  A stream position is \<open>incomplete\<close> when no whole frame starts there, and \<open>frame_fits\<close> when the
  length announced there, if there is one, is not negative and the frame fits the buffer.
\<close>

definition incomplete :: "bytes \<Rightarrow> bool" where
  "incomplete bs \<longleftrightarrow> length bs < 4 \<or> length bs < 4 + frame_len bs"

definition frame_fits :: "bytes \<Rightarrow> bool" where
  "frame_fits bs \<longleftrightarrow>
     (case ByteArrToInt32 bs of Inl _ \<Rightarrow> True | Inr v \<Rightarrow> 0 \<le> sint v \<and> sint v \<le> int MAX_SOCK_RECVBUF - 4)"

function split_frames :: "bytes \<Rightarrow> bytes list \<times> bytes" where
  "split_frames bs =
     (if incomplete bs then ([], bs)
      else let n = frame_len bs; (ps, t) = split_frames (drop (4 + n) bs)
           in (take n (drop 4 bs) # ps, t))"
  by pat_completeness auto
termination
  by (relation "measure length") (auto simp: incomplete_def)

declare split_frames.simps [simp del]

function stream_fits :: "bytes \<Rightarrow> bool" where
  "stream_fits bs =
     (if incomplete bs then frame_fits bs
      else frame_fits bs \<and> stream_fits (drop (4 + frame_len bs) bs))"
  by pat_completeness auto
termination
  by (relation "measure length") (auto simp: incomplete_def)

declare stream_fits.simps [simp del]

lemma split_frames_incomplete: "incomplete bs \<Longrightarrow> split_frames bs = ([], bs)"
  by (simp add: split_frames.simps)

lemma split_frames_complete:
  "\<not> incomplete bs \<Longrightarrow> split_frames bs =
     (take (frame_len bs) (drop 4 bs) # fst (split_frames (drop (4 + frame_len bs) bs)),
      snd (split_frames (drop (4 + frame_len bs) bs)))"
  by (subst split_frames.simps) (simp add: Let_def split: prod.splits)

lemma stream_induct [case_names incomplete complete]:
  assumes "\<And>bs. incomplete bs \<Longrightarrow> P bs"
    and "\<And>bs. \<not> incomplete bs \<Longrightarrow> P (drop (4 + frame_len bs) bs) \<Longrightarrow> P bs"
  shows "P bs"
proof (induction bs rule: measure_induct_rule [where f = length])
  case (less bs)
  then show ?case
    using assms by (cases "incomplete bs") (auto simp: incomplete_def)
qed

lemma snd_split_frames_incomplete: "incomplete (snd (split_frames bs))"
  by (induction bs rule: stream_induct) (simp_all add: split_frames_incomplete split_frames_complete)

lemma frame_len_append: "4 \<le> length xs \<Longrightarrow> frame_len (xs @ ys) = frame_len xs"
  by (simp add: frame_len_def ByteArrToInt32_prefix)

lemma incomplete_appendD: "incomplete (xs @ ys) \<Longrightarrow> incomplete xs"
  by (cases "length xs < 4") (auto simp: incomplete_def frame_len_append)

text \<open>Cutting a stream chunk by chunk: what is left after the first part is cut together with the second.\<close>

lemma split_frames_append:
  "split_frames (xs @ ys) =
     (fst (split_frames xs) @ fst (split_frames (snd (split_frames xs) @ ys)),
      snd (split_frames (snd (split_frames xs) @ ys)))"
proof (induction xs rule: stream_induct)
  case (incomplete xs)
  then show ?case by (simp add: split_frames_incomplete)
next
  case (complete xs)
  let ?n = "frame_len xs"
  from complete(1) have len: "4 + ?n \<le> length xs" and n: "frame_len (xs @ ys) = ?n"
    and nc: "\<not> incomplete (xs @ ys)"
    by (auto simp: incomplete_def frame_len_append)
  show ?case
    unfolding split_frames_complete [OF complete(1)] split_frames_complete [OF nc]
    using complete(2) len n by simp
qed

lemma frame_fits_append1: "frame_fits (xs @ ys) \<Longrightarrow> frame_fits xs"
  by (cases "length xs < 4")
    (auto simp: frame_fits_def ByteArrToInt32_prefix split: sum.splits dest: ByteArrToInt32_InrD)

lemma stream_fits_append1: "stream_fits (xs @ ys) \<Longrightarrow> stream_fits xs"
proof (induction xs rule: stream_induct)
  case (incomplete xs)
  then have "frame_fits (xs @ ys)"
    by (subst (asm) stream_fits.simps) (simp split: if_splits)
  with incomplete show ?case
    by (subst stream_fits.simps) (simp add: frame_fits_append1)
next
  case (complete xs)
  from complete(1) have len: "4 + frame_len xs \<le> length xs" and n: "frame_len (xs @ ys) = frame_len xs"
    and nc: "\<not> incomplete (xs @ ys)"
    by (auto simp: incomplete_def frame_len_append)
  from complete(3) nc len n have "frame_fits (xs @ ys)" "stream_fits (drop (4 + frame_len xs) xs @ ys)"
    by (simp_all add: stream_fits.simps [of "xs @ ys"])
  with complete(1,2) show ?case
    by (subst stream_fits.simps) (simp add: frame_fits_append1)
qed

lemma stream_fits_append2: "stream_fits (xs @ ys) \<Longrightarrow> stream_fits (snd (split_frames xs) @ ys)"
proof (induction xs rule: stream_induct)
  case (incomplete xs)
  then show ?case by (simp add: split_frames_incomplete)
next
  case (complete xs)
  from complete(1) have len: "4 + frame_len xs \<le> length xs" and n: "frame_len (xs @ ys) = frame_len xs"
    and nc: "\<not> incomplete (xs @ ys)"
    by (auto simp: incomplete_def frame_len_append)
  from complete(3) nc len n have "stream_fits (drop (4 + frame_len xs) xs @ ys)"
    by (simp add: stream_fits.simps [of "xs @ ys"])
  with complete(1,2) show ?case by (simp add: split_frames_complete)
qed

section \<open>OnReceive implements the specification\<close>

definition slot_ok :: "recv_slot \<Rightarrow> bool" where
  "slot_ok s \<longleftrightarrow> length (recvBuf s) = MAX_SOCK_RECVBUF \<and> unat (lastSize s) \<le> MAX_SOCK_RECVBUF \<and>
     incomplete (leftover s)"

lemma incomplete_Nil [simp]: "incomplete []"
  by (simp add: incomplete_def)

lemma slot_ok_fresh: "length b = MAX_SOCK_RECVBUF \<Longrightarrow> slot_ok \<lparr>recvBuf = b, lastSize = 0\<rparr>"
  by (simp add: slot_ok_def leftover_def)

lemma length_leftover: "slot_ok s \<Longrightarrow> length (leftover s) = unat (lastSize s)"
  by (simp add: slot_ok_def leftover_def)

lemma unat_add_small:
  fixes a b :: uint32
  assumes "unat a + unat b < 2 ^ 32"
  shows "unat (a + b) = unat a + unat b"
  using assms by (simp add: unat_word_ariths)

lemma frame_lenD:
  assumes "frame_fits bs" and "ByteArrToInt32 bs = Inr v"
  shows "0 \<le> sint v" and "unat v = frame_len bs" and "frame_len bs \<le> MAX_SOCK_RECVBUF - 4"
proof -
  from assms show nn: "0 \<le> sint v" by (simp add: frame_fits_def)
  then show "unat v = frame_len bs"
    using assms(2) by (simp add: frame_len_def unat_eq_nat_sint)
  from assms show "frame_len bs \<le> MAX_SOCK_RECVBUF - 4"
    by (simp add: frame_fits_def frame_len_def MAX_SOCK_RECVBUF_def nat_le_iff)
qed

lemma save_tail_ok:
  assumes "length pData = MAX_SOCK_RECVBUF" and "unat sz \<le> MAX_SOCK_RECVBUF" and "cur \<le> sz"
    and "length (recvBuf slot) = MAX_SOCK_RECVBUF"
    and "incomplete (drop (unat cur) (take (unat sz) pData))"
  shows "\<exists>slot'. save_tail pData sz cur slot = Inr slot' \<and> slot_ok slot' \<and>
      leftover slot' = drop (unat cur) (take (unat sz) pData)"
proof -
  have n: "unat (sz - cur) = unat sz - unat cur" using assms(3) by (rule unat_sub)
  have le: "unat cur \<le> unat sz" using assms(3) by (simp add: word_le_nat_alt)
  have eq: "take (unat sz - unat cur) (drop (unat cur) pData) = drop (unat cur) (take (unat sz) pData)"
    by (simp add: drop_take)
  show ?thesis
    using assms n le eq
    by (auto simp: save_tail_def copy_into_def slot_ok_def leftover_def)
qed

text \<open>What the loop reads at a position that holds a length prefix.\<close>

lemma position_view:
  assumes "length pData = MAX_SOCK_RECVBUF" and "unat sz \<le> MAX_SOCK_RECVBUF" and "cur \<le> sz"
    and D: "D = drop (unat cur) (take (unat sz) pData)" and "4 \<le> length D" and ff: "frame_fits D"
  obtains v where "ByteArrToInt32 (drop (unat cur) pData) = Inr v" and "0 \<le> sint v"
    and "nat (sint v) = frame_len D"
    and "unat (cur + 4) = unat cur + 4" and "unat (cur + 4 + v) = unat cur + 4 + frame_len D"
proof -
  from \<open>4 \<le> length D\<close> obtain v where vD: "ByteArrToInt32 D = Inr v" using ByteArrToInt32_ok by blast
  have le: "unat cur \<le> unat sz" using assms(3) by (simp add: word_le_nat_alt)
  have "drop (unat cur) pData = D @ drop (unat sz) pData"
    by (simp add: D drop_take take_drop_split [OF le])
  then have v: "ByteArrToInt32 (drop (unat cur) pData) = Inr v"
    using vD \<open>4 \<le> length D\<close> by (simp add: ByteArrToInt32_prefix)
  note fl = frame_lenD [OF ff vD]
  have c4: "unat (cur + 4) = unat cur + 4"
    using le assms(2) unat_add_small [of cur 4] by (simp add: MAX_SOCK_RECVBUF_def)
  have "unat (cur + 4 + v) = unat cur + 4 + frame_len D"
    using fl(2,3) le assms(2) c4 unat_add_small [of "cur + 4" v] by (simp add: MAX_SOCK_RECVBUF_def)
  with v fl c4 that show thesis by (simp add: unat_eq_nat_sint)
qed

lemma OnReceive_loop_tail:
  assumes "length pData = MAX_SOCK_RECVBUF" and "unat sz \<le> MAX_SOCK_RECVBUF" and "cur < sz"
    and D: "D = drop (unat cur) (take (unat sz) pData)" and "incomplete D" and "frame_fits D"
  shows "OnReceive_loop parse pData sz cur slot out =
     bind_result (save_tail pData sz cur slot) (\<lambda>s. Inr (s, out))"
proof -
  have lenD: "length D = unat sz - unat cur" using assms(1,2) by (simp add: D)
  show ?thesis
  proof (cases "length D < 4")
    case True
    then have "sz < cur + 4"
      using lenD assms(2,3) unat_add_small [of cur 4]
      by (simp add: word_less_nat_alt MAX_SOCK_RECVBUF_def)
    with assms(1,3) show ?thesis by (subst OnReceive_loop.simps) simp
  next
    case False
    then obtain v where v: "ByteArrToInt32 (drop (unat cur) pData) = Inr v"
        "unat (cur + 4) = unat cur + 4" "unat (cur + 4 + v) = unat cur + 4 + frame_len D"
      using position_view [OF assms(1,2) less_imp_le [OF assms(3)] D _ assms(6)] by auto
    have "\<not> sz < cur + 4" "sz < cur + 4 + v"
      using False lenD assms(3,5) v(2,3) by (auto simp: word_less_nat_alt incomplete_def)
    with v(1) assms(1,3) show ?thesis by (subst OnReceive_loop.simps) simp
  qed
qed

lemma OnReceive_loop_frame:
  assumes "length pData = MAX_SOCK_RECVBUF" and "unat sz \<le> MAX_SOCK_RECVBUF" and "cur \<le> sz"
    and D: "D = drop (unat cur) (take (unat sz) pData)" and "\<not> incomplete D" and "frame_fits D"
  obtains cur' where "cur' \<le> sz" and "unat cur' = unat cur + 4 + frame_len D"
    and "OnReceive_loop parse pData sz cur slot out =
       OnReceive_loop parse pData sz cur' (slot\<lparr>lastSize := 0\<rparr>)
         (deliver_unpacked out (parse (take (frame_len D) (drop 4 D))))"
proof -
  have len: "4 + frame_len D \<le> length D" "length D = unat sz - unat cur" "4 \<le> length D"
    using assms(1,2,5) by (auto simp: D incomplete_def)
  obtain v where v: "ByteArrToInt32 (drop (unat cur) pData) = Inr v" "0 \<le> sint v"
      "nat (sint v) = frame_len D" "unat (cur + 4) = unat cur + 4"
      "unat (cur + 4 + v) = unat cur + 4 + frame_len D"
    using position_view [OF assms(1-4) len(3) assms(6)] by blast
  have le: "unat cur \<le> unat sz" using assms(3) by (simp add: word_le_nat_alt)
  have ord: "cur < sz" "\<not> sz < cur + 4" "\<not> sz < cur + 4 + v"
    using len v(4,5) le by (auto simp: word_less_nat_alt)
  have tk: "take (frame_len D) (drop 4 (drop (unat cur) pData)) = take (frame_len D) (drop 4 D)"
    using len by (simp add: D take_drop)
  have "4 + frame_len D \<le> length (drop (unat cur) pData)"
    using len(1,2) assms(1,2) by (simp add: le_diff_conv2)
  then have "Unpack parse (drop (unat cur) pData) = Inr (parse (take (frame_len D) (drop 4 D)))"
    using v(2,3) tk by (intro iffD2 [OF Unpack_Inr_iff [OF v(1)]]) simp
  with ord v(1) assms(1) have "OnReceive_loop parse pData sz cur slot out =
       OnReceive_loop parse pData sz (cur + (v + 4)) (slot\<lparr>lastSize := 0\<rparr>)
         (deliver_unpacked out (parse (take (frame_len D) (drop 4 D))))"
    by (subst OnReceive_loop.simps) simp
  moreover have "cur + (v + 4) = cur + 4 + v" by simp
  moreover have "cur + 4 + v \<le> sz" using ord(3) by simp
  ultimately show thesis using that v(5) by metis
qed

lemma deliver_unpacked_map_filter:
  "deliver_unpacked out (f p) @ List.map_filter f ps = out @ List.map_filter f (p # ps)"
  by (simp add: deliver_unpacked_def List.map_filter_def split: option.splits)

text \<open>From any position in a chunk whose rest is well formed, the loop delivers the frames and keeps the tail.\<close>

lemma OnReceive_loop_correct:
  assumes "length pData = MAX_SOCK_RECVBUF" and "unat sz \<le> MAX_SOCK_RECVBUF" and "cur \<le> sz"
    and "length (recvBuf slot) = MAX_SOCK_RECVBUF" and "lastSize slot = 0"
    and "D = drop (unat cur) (take (unat sz) pData)" and "stream_fits D"
  shows "\<exists>slot'. OnReceive_loop parse pData sz cur slot out =
        Inr (slot', out @ List.map_filter parse (fst (split_frames D))) \<and>
      slot_ok slot' \<and> leftover slot' = snd (split_frames D)"
  using assms(3-)
proof (induction D arbitrary: cur slot out rule: stream_induct)
  case (incomplete D)
  from incomplete(1,6) have ff: "frame_fits D" by (subst (asm) stream_fits.simps) simp
  show ?case
  proof (cases "cur = sz")
    case True
    with incomplete show ?thesis
      by (simp add: OnReceive_loop.simps [of parse pData sz] split_frames_incomplete slot_ok_def
          leftover_def List.map_filter_def)
  next
    case False
    with incomplete(2) have lt: "cur < sz" by simp
    obtain slot' where st: "save_tail pData sz cur slot = Inr slot'" "slot_ok slot'" "leftover slot' = D"
      using save_tail_ok [OF assms(1,2) incomplete(2,3)] incomplete(1,5) by blast
    have "OnReceive_loop parse pData sz cur slot out = Inr (slot', out)"
      by (simp add: OnReceive_loop_tail [OF assms(1,2) lt incomplete(5,1) ff] st(1))
    with st incomplete(1) show ?thesis
      by (simp add: split_frames_incomplete List.map_filter_def)
  qed
next
  case (complete D)
  from complete(1,7) have ff: "frame_fits D" "stream_fits (drop (4 + frame_len D) D)"
    by (subst (asm) stream_fits.simps, simp)+
  obtain cur' where c: "cur' \<le> sz" "unat cur' = unat cur + 4 + frame_len D"
    "OnReceive_loop parse pData sz cur slot out =
       OnReceive_loop parse pData sz cur' (slot\<lparr>lastSize := 0\<rparr>)
         (deliver_unpacked out (parse (take (frame_len D) (drop 4 D))))"
    using OnReceive_loop_frame [OF assms(1,2) complete(3,6,1) ff(1)] by blast
  have "drop (4 + frame_len D) (drop (unat cur) (take (unat sz) pData)) = drop (unat cur') (take (unat sz) pData)"
    by (simp add: c(2) ac_simps)
  then have "drop (4 + frame_len D) D = drop (unat cur') (take (unat sz) pData)"
    by (simp flip: complete(6))
  note ih = complete(2) [OF c(1) _ _ this ff(2)]
  let ?out = "deliver_unpacked out (parse (take (frame_len D) (drop 4 D)))"
  obtain slot' where "OnReceive_loop parse pData sz cur' (slot\<lparr>lastSize := 0\<rparr>) ?out =
      Inr (slot', ?out @ List.map_filter parse (fst (split_frames (drop (4 + frame_len D) D))))"
    "slot_ok slot'" "leftover slot' = snd (split_frames (drop (4 + frame_len D) D))"
    using ih [of "slot\<lparr>lastSize := 0\<rparr>" ?out] complete(4) by auto
  then show ?case
    unfolding c(3) split_frames_complete [OF complete(1)]
    by (simp only: deliver_unpacked_map_filter fst_conv snd_conv) blast
qed

text \<open>
  The branch that resumes a packet, when the chunk completes it: the kept bytes followed by the
  chunk start with a whole frame that fits the buffer.
\<close>

lemma unat_scast_u64: "0 \<le> sint (v :: int32) \<Longrightarrow> unat (scast v :: u64) = nat (sint v)"
  using sint_less [of v]
  by (simp only: unat_eq_nat_uint scast_eq uint_word_of_int) simp

lemma resume_known_raw:
  assumes "slot_ok slot" and known: "4 \<le> unat (lastSize slot)"
    and len: "length pData = MAX_SOCK_RECVBUF" and ff: "frame_fits (leftover slot)"
    and n: "n = frame_len (leftover slot)"
  shows "\<exists>cur. OnReceive_resume pData slot =
       Inr (leftover slot @ take (4 + n - unat (lastSize slot)) pData @ drop (4 + n) (recvBuf slot), cur) \<and>
     unat cur = 4 + n - unat (lastSize slot) \<and> unat (lastSize slot) < 4 + n \<and> 4 + n \<le> MAX_SOCK_RECVBUF"
proof -
  let ?L = "leftover slot" and ?l = "unat (lastSize slot)"
  have L: "length ?L = ?l" "take ?l (recvBuf slot) = ?L" "length (recvBuf slot) = MAX_SOCK_RECVBUF"
    using assms(1) by (simp_all add: length_leftover leftover_def slot_ok_def)
  obtain v where v: "ByteArrToInt32 ?L = Inr v" using ByteArrToInt32_ok [of ?L] known L(1) by auto
  have vb: "ByteArrToInt32 (recvBuf slot) = Inr v"
    using v known L(1) ByteArrToInt32_prefix [of ?L "drop ?l (recvBuf slot)"] by (simp flip: L(2))
  note fl = frame_lenD [OF ff v]
  have m: "4 + n \<le> MAX_SOCK_RECVBUF" using fl(3) by (simp add: n MAX_SOCK_RECVBUF_def)
  have lt: "?l < 4 + n" using assms(1) known L(1) by (simp add: slot_ok_def incomplete_def n)
  have "sint v = int n" using fl(1) v by (simp add: n frame_len_def)
  then have ov: "add_int32 (sint v) 4 = Inr (sint v + 4)"
    using m by (simp add: add_int32_def int32_bounds MAX_SOCK_RECVBUF_def)
  have v4: "unat (v + 4) = n + 4"
    using fl(2) m unat_add_small [of v 4] by (simp add: n MAX_SOCK_RECVBUF_def)
  have cur: "unat (v + 4 - lastSize slot) = 4 + n - ?l"
    using v4 lt by (subst unat_sub) (auto simp: word_le_nat_alt)
  have "?l + (4 + n - ?l) = 4 + n" using lt by simp
  then have "copy_into (recvBuf slot) ?l pData 0 (4 + n - ?l) =
      Inr (?L @ take (4 + n - ?l) pData @ drop (4 + n) (recvBuf slot))"
    using m L len by (simp add: copy_into_def)
  then have "OnReceive_resume pData slot =
      Inr (?L @ take (4 + n - ?l) pData @ drop (4 + n) (recvBuf slot), v + 4 - lastSize slot)"
    using known ov by (simp add: OnReceive_resume_def Let_def word_le_nat_alt vb cur)
  with cur lt m show ?thesis by blast
qed

lemma resume_prefix_known:
  assumes "slot_ok slot" and known: "4 \<le> unat (lastSize slot)"
    and len: "length pData = MAX_SOCK_RECVBUF" "unat sz \<le> MAX_SOCK_RECVBUF"
    and S: "S = leftover slot @ take (unat sz) pData" and nc: "\<not> incomplete S" and ff: "frame_fits S"
  shows "\<exists>b cur. OnReceive_resume pData slot = Inr (b, cur) \<and> length b = MAX_SOCK_RECVBUF \<and>
     take (4 + frame_len S) b = take (4 + frame_len S) S \<and>
     unat cur = 4 + frame_len S - unat (lastSize slot)"
proof -
  let ?L = "leftover slot" and ?l = "unat (lastSize slot)" and ?n = "frame_len S"
  have L: "length ?L = ?l" "length (recvBuf slot) = MAX_SOCK_RECVBUF"
    using assms(1) by (simp_all add: length_leftover slot_ok_def)
  have n: "?n = frame_len ?L" using known L(1) by (simp add: S frame_len_append)
  have ffL: "frame_fits ?L" using ff unfolding S by (rule frame_fits_append1)
  obtain cur where r: "OnReceive_resume pData slot =
        Inr (?L @ take (4 + ?n - ?l) pData @ drop (4 + ?n) (recvBuf slot), cur)"
      "unat cur = 4 + ?n - ?l" "?l < 4 + ?n" "4 + ?n \<le> MAX_SOCK_RECVBUF"
    using resume_known_raw [OF assms(1) known len(1) ffL n] by blast
  have fit: "4 + ?n - ?l \<le> unat sz"
    using nc L(1) len by (auto simp: incomplete_def S)
  have tS: "take (4 + ?n) S = ?L @ take (4 + ?n - ?l) pData"
    using r(3) fit L(1) by (simp add: S min_def)
  have "length (?L @ take (4 + ?n - ?l) pData @ drop (4 + ?n) (recvBuf slot)) = MAX_SOCK_RECVBUF"
    "take (4 + ?n) (?L @ take (4 + ?n - ?l) pData @ drop (4 + ?n) (recvBuf slot)) = take (4 + ?n) S"
    unfolding tS using L r(3,4) fit len by simp_all
  with r(1,2) show ?thesis by blast
qed

lemma resume_prefix_short:
  assumes "slot_ok slot" and "unat (lastSize slot) < 4"
    and len: "length pData = MAX_SOCK_RECVBUF" "unat sz \<le> MAX_SOCK_RECVBUF"
    and S: "S = leftover slot @ take (unat sz) pData" and nc: "\<not> incomplete S" and ff: "frame_fits S"
  shows "\<exists>b cur. OnReceive_resume pData slot = Inr (b, cur) \<and> length b = MAX_SOCK_RECVBUF \<and>
     take (4 + frame_len S) b = take (4 + frame_len S) S \<and>
     unat cur = 4 + frame_len S - unat (lastSize slot)"
proof -
  let ?L = "leftover slot" and ?l = "unat (lastSize slot)" and ?n = "frame_len S"
  have L: "length ?L = ?l" "take ?l (recvBuf slot) = ?L" "length (recvBuf slot) = MAX_SOCK_RECVBUF"
    using assms(1) by (simp_all add: length_leftover leftover_def slot_ok_def)
  have S4: "4 \<le> length S" "4 + ?n \<le> length S" using nc by (auto simp: incomplete_def)
  then have fit: "4 - ?l \<le> unat sz" "4 - ?l + ?n \<le> unat sz"
    using L(1) len assms(2) by (auto simp: S)
  obtain v where vS: "ByteArrToInt32 S = Inr v" using ByteArrToInt32_ok [OF S4(1)] by blast
  note fl = frame_lenD [OF ff vS]
  have m: "4 + ?n \<le> MAX_SOCK_RECVBUF" using fl(3) by (simp add: MAX_SOCK_RECVBUF_def)
  have ul: "unat (4 - lastSize slot) = 4 - ?l"
    using assms(2) by (subst unat_sub) (auto simp: word_le_nat_alt)
  let ?b = "?L @ take (4 - ?l) pData @ drop 4 (recvBuf slot)"
  have c1: "copy_into (recvBuf slot) ?l pData 0 (4 - ?l) = Inr ?b"
    using L len assms(2) by (simp add: copy_into_def MAX_SOCK_RECVBUF_def)
  have t4: "take 4 ?b = take 4 S" "?L @ take (4 - ?l) pData = take 4 S"
    using L(1) assms(2) fit(1) len by (simp_all add: S min_def MAX_SOCK_RECVBUF_def)
  have vb: "ByteArrToInt32 ?b = Inr v"
    using vS ByteArrToInt32_cong [OF t4(1) _ S4(1)] S4(1) t4 L by (simp add: MAX_SOCK_RECVBUF_def)
  have u64: "unat (scast v :: u64) = ?n"
    using fl(1,2) by (simp add: unat_scast_u64 unat_eq_nat_sint)
  have c2: "copy_into ?b 4 pData (4 - ?l) ?n =
      Inr (take 4 S @ take ?n (drop (4 - ?l) pData) @ drop (4 + ?n) ?b)"
    unfolding t4(1) [symmetric] using L len fit m assms(2) by (simp add: copy_into_def)
  have tS: "take (4 + ?n) S = take 4 S @ take ?n (drop (4 - ?l) pData)"
  proof -
    have "4 + ?n - ?l = 4 - ?l + ?n" using assms(2) by simp
    then have "take (4 + ?n) S = ?L @ take (4 - ?l + ?n) pData"
      using L(1) assms(2) fit(2) by (simp add: S min_absorb1)
    then show ?thesis by (simp add: take_add flip: t4(2))
  qed
  have lb: "length ?b = MAX_SOCK_RECVBUF" using c1 L(3) length_copy_into by metis
  have cur: "unat (4 - lastSize slot + v) = 4 + ?n - ?l"
    using ul fl(2) m assms(2) unat_add_small [of "4 - lastSize slot" v]
    by (simp add: MAX_SOCK_RECVBUF_def)
  have "OnReceive_resume pData slot =
      Inr (take 4 S @ take ?n (drop (4 - ?l) pData) @ drop (4 + ?n) ?b, 4 - lastSize slot + v)"
    using assms(2) by (simp add: OnReceive_resume_def Let_def word_le_nat_alt ul c1 vb u64 c2)
  moreover have "length (take 4 S @ take ?n (drop (4 - ?l) pData) @ drop (4 + ?n) ?b) = MAX_SOCK_RECVBUF"
    using length_copy_into [OF c2] lb by simp
  moreover have "take (4 + ?n) (take 4 S @ take ?n (drop (4 - ?l) pData) @ drop (4 + ?n) ?b) = take (4 + ?n) S"
    unfolding tS using S4(1) fit len by simp
  ultimately show ?thesis using cur by blast
qed

lemma OnReceive_slot_correct:
  assumes "slot_ok slot" and "length pData = MAX_SOCK_RECVBUF" and "unat sz \<le> MAX_SOCK_RECVBUF"
    and S: "S = leftover slot @ take (unat sz) pData" and fits: "stream_fits S"
    and two: "lastSize slot \<noteq> 0 \<Longrightarrow> \<not> incomplete S"
  shows "\<exists>slot'. OnReceive_slot parse sz pData slot =
       Inr (slot', List.map_filter parse (fst (split_frames S))) \<and>
     slot_ok slot' \<and> leftover slot' = snd (split_frames S)"
proof (cases "lastSize slot = 0")
  case True
  then have "S = drop (unat 0) (take (unat sz) pData)" by (simp add: S leftover_def)
  from OnReceive_loop_correct [OF assms(2,3) _ _ True this fits, where parse = parse and out = "[]"]
    assms(1) True show ?thesis
    by (simp add: OnReceive_slot_def slot_ok_def)
next
  case False
  note nc = two [OF False]
  have ff: "frame_fits S" "stream_fits (drop (4 + frame_len S) S)"
    using fits nc by (subst (asm) stream_fits.simps, simp)+
  let ?l = "unat (lastSize slot)"
  obtain b cur where r: "OnReceive_resume pData slot = Inr (b, cur)" "length b = MAX_SOCK_RECVBUF"
      "take (4 + frame_len S) b = take (4 + frame_len S) S" "unat cur = 4 + frame_len S - ?l"
    using resume_prefix_known [OF assms(1) _ assms(2-4) nc ff(1)]
      resume_prefix_short [OF assms(1) _ assms(2-4) nc ff(1)] by (meson not_le)
  have lS: "4 + frame_len S \<le> length S" "4 \<le> length S" using nc by (auto simp: incomplete_def)
  have lL: "length (leftover slot) = ?l" using assms(1) by (rule length_leftover)
  obtain v where v: "ByteArrToInt32 S = Inr v" using ByteArrToInt32_ok [OF lS(2)] by blast
  note fl = frame_lenD [OF ff(1) v]
  have m: "4 + frame_len S \<le> MAX_SOCK_RECVBUF" using fl(3) by (simp add: MAX_SOCK_RECVBUF_def)
  have t4: "take 4 b = take 4 S"
    using r(3) by (metis le_add1 min.absorb1 take_take)
  have vb: "ByteArrToInt32 b = Inr v"
    using v ByteArrToInt32_cong [OF t4 _ lS(2)] r(2) by (simp add: MAX_SOCK_RECVBUF_def)
  have pl: "take (frame_len S) (drop 4 b) = take (frame_len S) (drop 4 S)"
    using arg_cong [OF r(3), of "drop 4"] by (simp add: drop_take)
  have "nat (sint v) = frame_len S" using fl(1,2) by (simp add: unat_eq_nat_sint)
  then have up: "Unpack parse b = Inr (parse (take (frame_len S) (drop 4 S)))"
    using fl(1) m r(2) pl by (intro iffD2 [OF Unpack_Inr_iff [OF vb]]) simp
  have incL: "?l < 4 + frame_len S"
    using assms(1) lL frame_len_append [of "leftover slot" "take (unat sz) pData"]
    by (cases "?l < 4") (auto simp: slot_ok_def incomplete_def S)
  have curle: "cur \<le> sz" using r(4) lS(1) lL assms(2,3) by (simp add: word_le_nat_alt S)
  have D: "drop (4 + frame_len S) S = drop (unat cur) (take (unat sz) pData)"
    using incL lL r(4) by (simp add: S)
  obtain slot' where "OnReceive_loop parse pData sz cur \<lparr>recvBuf = b, lastSize = 0\<rparr>
        (deliver_unpacked [] (parse (take (frame_len S) (drop 4 S)))) =
      Inr (slot', deliver_unpacked [] (parse (take (frame_len S) (drop 4 S))) @
        List.map_filter parse (fst (split_frames (drop (4 + frame_len S) S))))"
    "slot_ok slot'" "leftover slot' = snd (split_frames (drop (4 + frame_len S) S))"
    using OnReceive_loop_correct [OF assms(2,3) curle, of "\<lparr>recvBuf = b, lastSize = 0\<rparr>" _ parse
        "deliver_unpacked [] (parse (take (frame_len S) (drop 4 S)))", OF _ _ D ff(2)] r(2) by auto
  with r(1,2) up False assms(2) show ?thesis
    unfolding split_frames_complete [OF nc] deliver_unpacked_map_filter
    by (simp add: OnReceive_slot_def)
qed

section \<open>A whole stream of chunks\<close>

text \<open>
  A chunk is the pair of \<open>size_\<close> and the content of the receive buffer. \<open>OnReceive_chunks\<close> is
  the sequence of receive completions of one client.
\<close>

type_synonym chunk = "uint32 \<times> bytes"

definition chunk_ok :: "chunk \<Rightarrow> bool" where
  "chunk_ok c \<longleftrightarrow> length (snd c) = MAX_SOCK_RECVBUF \<and> unat (fst c) \<le> MAX_SOCK_RECVBUF"

definition chunk_data :: "chunk \<Rightarrow> bytes" where
  "chunk_data c = take (unat (fst c)) (snd c)"

fun OnReceive_chunks ::
    "(bytes \<Rightarrow> 'h option) \<Rightarrow> recv_slot list \<Rightarrow> nat \<Rightarrow> chunk list \<Rightarrow> (recv_slot list \<times> 'h list) result" where
  "OnReceive_chunks parse slots client [] = Inr (slots, [])"
| "OnReceive_chunks parse slots client (c # cs) =
     bind_result (OnReceive parse slots client (fst c) (snd c)) (\<lambda>(slots', out).
     bind_result (OnReceive_chunks parse slots' client cs) (\<lambda>(slots'', out').
       Inr (slots'', out @ out')))"

text \<open>No packet spans more than two chunks: whatever is kept is completed by the next chunk.\<close>

fun two_piece :: "bytes \<Rightarrow> bytes list \<Rightarrow> bool" where
  "two_piece kept [] \<longleftrightarrow> True"
| "two_piece kept (d # ds) \<longleftrightarrow>
     (kept \<noteq> [] \<longrightarrow> \<not> incomplete (kept @ d)) \<and> two_piece (snd (split_frames (kept @ d))) ds"

lemma leftover_Nil_iff: "slot_ok s \<Longrightarrow> leftover s = [] \<longleftrightarrow> lastSize s = 0"
  using length_leftover [of s] by (metis length_0_conv unat_eq_zero)

lemma map_filter_append: "List.map_filter f (xs @ ys) = List.map_filter f xs @ List.map_filter f ys"
  by (simp add: List.map_filter_def)

lemma OnReceive_chunks_correct:
  assumes "client < length slots" and "slot_ok (slots ! client)" and "\<forall>c \<in> set cs. chunk_ok c"
    and "stream_fits (leftover (slots ! client) @ concat (map chunk_data cs))"
    and "two_piece (leftover (slots ! client)) (map chunk_data cs)"
    and "R = split_frames (leftover (slots ! client) @ concat (map chunk_data cs))"
  shows "\<exists>slot'. OnReceive_chunks parse slots client cs =
       Inr (slots[client := slot'], List.map_filter parse (fst R)) \<and> slot_ok slot' \<and> leftover slot' = snd R"
  using assms
proof (induction cs arbitrary: slots R)
  case Nil
  then show ?case
    by (auto simp: split_frames_incomplete slot_ok_def List.map_filter_def intro!: exI [of _ "slots ! client"])
next
  case (Cons c cs)
  let ?s = "slots ! client"
  let ?S = "leftover ?s @ chunk_data c"
  have fits: "stream_fits ?S" using Cons.prems(4) stream_fits_append1 [of ?S] by simp
  have two: "lastSize ?s \<noteq> 0 \<Longrightarrow> \<not> incomplete ?S"
    using Cons.prems(2,5) leftover_Nil_iff [of ?s] by simp
  obtain s1 where s1: "OnReceive_slot parse (fst c) (snd c) ?s = Inr (s1, List.map_filter parse (fst (split_frames ?S)))"
      "slot_ok s1" "leftover s1 = snd (split_frames ?S)"
    using OnReceive_slot_correct [OF Cons.prems(2) _ _ _ fits two, of "snd c" "fst c" parse] Cons.prems(3)
    by (auto simp: chunk_ok_def chunk_data_def)
  let ?slots = "slots[client := s1]" and ?rest = "concat (map chunk_data cs)"
  have at: "?slots ! client = s1" using Cons.prems(1) by simp
  have app: "split_frames (leftover ?s @ concat (map chunk_data (c # cs))) =
      (fst (split_frames ?S) @ fst (split_frames (leftover s1 @ ?rest)), snd (split_frames (leftover s1 @ ?rest)))"
    using split_frames_append [of ?S ?rest] s1(3) by simp
  have "stream_fits (leftover s1 @ ?rest)"
    using Cons.prems(4) stream_fits_append2 [of ?S ?rest] s1(3) by simp
  then obtain s2 where "OnReceive_chunks parse ?slots client cs =
       Inr (?slots[client := s2], List.map_filter parse (fst (split_frames (leftover s1 @ ?rest))))"
      "slot_ok s2" "leftover s2 = snd (split_frames (leftover s1 @ ?rest))"
    using Cons.IH [of ?slots] Cons.prems(1,3,5) s1(2,3) at by auto
  with s1(1) Cons.prems(1) show ?case
    unfolding Cons.prems(6) app
    by (intro exI [of _ s2]) (simp add: OnReceive_def map_filter_append)
qed

text \<open>What a sender produces: the concatenation of framed payloads.\<close>

lemma frame_of_payload:
  assumes "length p \<le> MAX_SOCK_RECVBUF - 4"
  shows "frame_len (frame p @ r) = length p" and "\<not> incomplete (frame p @ r)" and "frame_fits (frame p @ r)"
proof -
  have "sint (of_nat (length p) :: int32) = int (length p)"
    using assms by (simp add: MAX_SOCK_RECVBUF_def sint_of_nat_small)
  then have "frame_len (frame p @ r) = length p \<and> frame_fits (frame p @ r)"
    using assms by (simp add: frame_len_def frame_def frame_fits_def MAX_SOCK_RECVBUF_def)
  then show "frame_len (frame p @ r) = length p" "frame_fits (frame p @ r)" by simp_all
  then show "\<not> incomplete (frame p @ r)" by (simp add: incomplete_def frame_def)
qed

lemma split_frames_frames:
  "\<forall>p \<in> set ps. length p \<le> MAX_SOCK_RECVBUF - 4 \<Longrightarrow>
     split_frames (concat (map frame ps)) = (ps, []) \<and> stream_fits (concat (map frame ps))"
proof (induction ps)
  case Nil
  then show ?case
    by (simp add: split_frames_incomplete stream_fits.simps [of "[]"] frame_fits_def ByteArrToInt32_def)
next
  case (Cons p ps)
  note f = frame_of_payload [of p "concat (map frame ps)"]
  from Cons f show ?case
    by (simp add: split_frames_complete stream_fits.simps [of "frame p @ _"]) (simp add: frame_def)
qed

section \<open>Properties\<close>

text \<open>C2: Cut the stream that a client sends, the framed payloads one after the other, into received
  chunks such that no packet spans more than two of them. Starting with nothing kept, the sequence of
  \<open>OnReceive\<close> calls hands over exactly the payloads that parse, in the order sent, keeps no byte at the
  end, and leaves the slots of the other clients alone.\<close>

theorem OnReceive_stream:
  assumes "client < length slots" and "length (recvBuf (slots ! client)) = MAX_SOCK_RECVBUF"
    and "lastSize (slots ! client) = 0" and "\<forall>c \<in> set cs. chunk_ok c"
    and "\<forall>p \<in> set ps. length p \<le> MAX_SOCK_RECVBUF - 4"
    and "concat (map chunk_data cs) = concat (map frame ps)"
    and "two_piece [] (map chunk_data cs)"
  shows "\<exists>slot'. OnReceive_chunks parse slots client cs =
       Inr (slots[client := slot'], List.map_filter parse ps) \<and> leftover slot' = []"
proof -
  have l: "leftover (slots ! client) = []" "slot_ok (slots ! client)"
    using assms(2,3) by (simp_all add: leftover_def slot_ok_def)
  show ?thesis
    using OnReceive_chunks_correct [OF assms(1) l(2) assms(4) _ _ refl, of parse]
      split_frames_frames [OF assms(5)] assms(6,7) l(1) by auto
qed

text \<open>One receive from any state the handler leaves behind: kept bytes and chunk together are cut
  at the length prefixes, the frames are handed over in order, the incomplete rest is kept, and the
  slot is again in such a state. The condition says that a kept piece is completed by this chunk.\<close>

lemma OnReceive_step:
  assumes "client < length slots" and "slot_ok (slots ! client)" and "chunk_ok c"
    and "S = leftover (slots ! client) @ chunk_data c" and "stream_fits S"
    and "leftover (slots ! client) \<noteq> [] \<longrightarrow> \<not> incomplete S"
  shows "\<exists>slot'. OnReceive parse slots client (fst c) (snd c) =
       Inr (slots[client := slot'], List.map_filter parse (fst (split_frames S))) \<and>
     slot_ok slot' \<and> leftover slot' = snd (split_frames S)"
proof -
  have "lastSize (slots ! client) \<noteq> 0 \<Longrightarrow> \<not> incomplete S"
    using assms(6) leftover_Nil_iff [OF assms(2)] by blast
  with OnReceive_slot_correct [OF assms(2) _ _ _ assms(5), of "snd c" "fst c" parse] assms(1,3,4)
  show ?thesis by (auto simp: OnReceive_def chunk_ok_def chunk_data_def)
qed

text \<open>The bytes of a packet that spans three chunks are lost. With the length known and a chunk that
  does not complete the packet, \<open>OnReceive\<close> copies the missing bytes anyway: it takes what the
  receive buffer holds behind the chunk, hands the mixture over as the payload, and keeps nothing, so
  that the real rest of the packet will be read as a length prefix.\<close>

lemma OnReceive_three_pieces:
  assumes ok: "slot_ok slot" and known: "4 \<le> unat (lastSize slot)" and c: "chunk_ok (sz, pData)"
    and fits: "frame_fits (leftover slot)"
    and short: "unat (lastSize slot) + unat sz < 4 + frame_len (leftover slot)"
  shows "\<exists>slot'. OnReceive_slot parse sz pData slot =
       Inr (slot', List.map_filter parse [drop 4 (leftover slot) @
         take (4 + frame_len (leftover slot) - unat (lastSize slot)) pData]) \<and>
     lastSize slot' = 0"
proof -
  let ?L = "leftover slot" and ?n = "frame_len (leftover slot)" and ?l = "unat (lastSize slot)"
  have len: "length pData = MAX_SOCK_RECVBUF" and szle: "unat sz \<le> MAX_SOCK_RECVBUF"
    using c by (simp_all add: chunk_ok_def)
  have lL: "length ?L = ?l" using ok by (rule length_leftover)
  obtain v where v: "ByteArrToInt32 ?L = Inr v" using ByteArrToInt32_ok known lL by metis
  note fl = frame_lenD [OF fits v]
  let ?b = "?L @ take (4 + ?n - ?l) pData @ drop (4 + ?n) (recvBuf slot)"
  obtain cur where r: "OnReceive_resume pData slot = Inr (?b, cur)"
      "unat cur = 4 + ?n - ?l" "?l < 4 + ?n" "4 + ?n \<le> MAX_SOCK_RECVBUF"
    using resume_known_raw [OF ok known len fits refl] by blast
  have vb: "ByteArrToInt32 ?b = Inr v" using v known lL by (simp add: ByteArrToInt32_prefix)
  have nv: "nat (sint v) = ?n" using v by (simp add: frame_len_def)
  have "take ?n (drop 4 ?b) = drop 4 ?L @ take (4 + ?n - ?l) pData"
    using known lL r(3,4) len by (simp add: add.commute)
  moreover have "4 + ?n \<le> length ?b" using lL r(3,4) len by simp
  ultimately have up: "Unpack parse ?b = Inr (parse (drop 4 ?L @ take (4 + ?n - ?l) pData))"
    using fl(1) nv by (intro iffD2 [OF Unpack_Inr_iff [OF vb]]) simp
  have "\<not> cur < sz" using r(2) short by (simp add: word_less_nat_alt)
  then have "OnReceive_loop parse pData sz cur s out = Inr (s, out)" for s out
    by (subst OnReceive_loop.simps) simp
  moreover have "lastSize slot \<noteq> 0" using known by auto
  ultimately show ?thesis
    using r(1) up len
    by (simp add: OnReceive_slot_def deliver_unpacked_def List.map_filter_def split: option.splits)
qed





section \<open>Witnesses\<close>

definition wslot :: recv_slot where
  "wslot = \<lparr>recvBuf = replicate 4096 0, lastSize = 0\<rparr>"

definition wchunk :: "bytes \<Rightarrow> chunk" where
  "wchunk d = (of_nat (length d), d @ replicate (4096 - length d) 0)"

lemma wchunk_ok: "length d \<le> 4096 \<Longrightarrow> chunk_ok (wchunk d)"
  by (simp add: wchunk_def chunk_ok_def MAX_SOCK_RECVBUF_def unat_of_nat)

lemma wchunk_data: "length d \<le> 4096 \<Longrightarrow> chunk_data (wchunk d) = d"
  by (simp add: wchunk_def chunk_data_def unat_of_nat)

lemma Int32ToByteArr_2: "Int32ToByteArr 2 = [0, 0, 0, 2]"
  by (simp add: Int32ToByteArr_def)

text \<open>A packet of two bytes and an empty one, cut in the middle of the first length prefix.\<close>

theorem OnReceive_stream_witness:
  "\<exists>slot'. OnReceive_chunks Some [wslot] 0 [wchunk [0, 0, 0], wchunk [2, 7, 8, 0, 0, 0, 0]] =
       Inr ([wslot][0 := slot'], [[7, 8], []]) \<and> leftover slot' = []"
proof -
  have f: "concat (map frame [[7, 8], []]) = [0, 0, 0, 2, 7, 8, 0, 0, 0, 0]"
    by (simp add: frame_def Int32ToByteArr_def)
  have d: "map chunk_data [wchunk [0, 0, 0], wchunk [2, 7, 8, 0, 0, 0, 0]] = [[0, 0, 0], [2, 7, 8, 0, 0, 0, 0]]"
    by (simp add: wchunk_data)
  have t: "two_piece [] [[0, 0, 0], [2, 7, 8, 0, 0, 0, 0]]"
    by (simp add: split_frames_incomplete incomplete_def frame_len_def ByteArrToInt32_def)
  show ?thesis
    using OnReceive_stream [of 0 "[wslot]" "[wchunk [0, 0, 0], wchunk [2, 7, 8, 0, 0, 0, 0]]" "[[7, 8], []]" Some]
      f d t by (simp add: wslot_def MAX_SOCK_RECVBUF_def wchunk_ok List.map_filter_def)
qed


end
