(* ===== verification/Route_Base.thy ===== *)
theory Route_Base
  imports Recv_Framing Message_Header
begin

unbundle bit_operations_syntax

text \<open>
  Putting a message into an envelope and taking it out again: \<open>MakePackedHeader\<close> and \<open>Pack\<close> of
  \<^verbatim>\<open>PacketUtil.h\<close>, and the base class of the routes, \<^verbatim>\<open>Route.h\<close>: \<open>GetPacket\<close>, \<open>GetPacked\<close>,
  \<open>WrappPakcet\<close>. A message class is given by its name, its size and its two codec functions.
\<close>

section \<open>PacketUtil\<close>

text \<open>
  \<open>MakePackedHeader\<close> allocates a buffer for the serialised message but never serialises into it:
  the payload is \<open>fresh\<close>, whatever the allocator returned.
\<close>

definition MakePackedHeader :: "nat \<Rightarrow> string \<Rightarrow> bytes \<Rightarrow> messageHeader" where
  "MakePackedHeader len full_name fresh =
     set_type full_name (set_arrsize (of_nat len) (set_arr (take len fresh) messageHeader_new))"

text \<open>
  \<open>Pack\<close> serialises the header behind the four bytes of the length prefix, but it passes on the
  capacity of the whole buffer. The result is the header and, unless it returned \<open>false\<close>, the
  buffer with the packed length.
\<close>

definition packed_header :: "messageHeader \<Rightarrow> bytes \<Rightarrow> string \<Rightarrow> messageHeader" where
  "packed_header header payload typeBuffer =
     set_type typeBuffer (set_arrsize (of_nat (length payload)) (set_arr payload header))"

definition Pack ::
    "pb_lib \<Rightarrow> messageHeader \<Rightarrow> bytes \<Rightarrow> nat \<Rightarrow> string \<Rightarrow> bytes \<Rightarrow> nat \<Rightarrow>
     (messageHeader \<times> (bytes \<times> nat) option) result" where
  "Pack L header serializedBuffer serializedBufferLength typeBuffer packedBuffer packedBufferMax =
     (if length serializedBuffer < serializedBufferLength then Inl OutOfBounds
      else let h = packed_header header (take serializedBufferLength serializedBuffer) typeBuffer in
        case Serialize messageHeader_ByteSizeLong (messageHeader_InternalSerialize L) (Some h) packedBufferMax of
          None \<Rightarrow> Inr (h, None)
        | Some bs \<Rightarrow>
            bind_result (copy_into packedBuffer 4 bs 0 (length bs)) (\<lambda>b.
            bind_result (copy_into b 0 (Int32ToByteArr (of_nat (length bs))) 0 4) (\<lambda>b'.
              Inr (h, Some (b', length bs + 4)))))"

section \<open>Route\<close>

definition BUF_SIZE :: nat where "BUF_SIZE = 4096"

text \<open>An array \<open>char[BUF_SIZE]\<close> on the stack, with arbitrary content.\<close>

definition stack_buffer :: "bytes \<Rightarrow> bytes" where
  "stack_buffer stack = take BUF_SIZE (stack @ replicate BUF_SIZE 0)"

lemma length_stack_buffer [simp]: "length (stack_buffer stack) = BUF_SIZE"
  by (simp add: stack_buffer_def)

text \<open>\<open>GetPacket<T>\<close>: the length of the payload is the header's \<open>arrSize\<close>, not the length of \<open>arr\<close>. The bytes of the
  \<open>std::string\<close> are followed by a null byte, which may be read as well.\<close>

definition GetPacket :: "(bytes \<Rightarrow> 'm option) \<Rightarrow> messageHeader \<Rightarrow> 'm option result" where
  "GetPacket parse header = Deserialize parse (hdr_arr header @ [0]) (ucast (hdr_arrsize header)) (hdr_type header)"

text \<open>
  \<open>GetPacked\<close> packs in two stack buffers of \<open>BUF_SIZE\<close> bytes, whose initial content \<open>stack\<close> is
  arbitrary, and returns a heap copy of exactly the packed bytes; \<open>Inr None\<close> is the null pointer.
\<close>

definition GetPacked ::
    "pb_lib \<Rightarrow> ('m \<Rightarrow> nat) \<Rightarrow> (pb_lib \<Rightarrow> 'm \<Rightarrow> bytes) \<Rightarrow> string \<Rightarrow> bytes \<Rightarrow> uint32 \<Rightarrow> 'm \<Rightarrow> bytes option result" where
  "GetPacked L byte_size ser full_name stack userid packet =
     (case Serialize byte_size (ser L) (Some packet) BUF_SIZE of
        None \<Rightarrow> Inr None
      | Some s \<Rightarrow>
          bind_result (Pack L (set_userid userid messageHeader_new) s (length s) full_name
              (stack_buffer stack) BUF_SIZE) (\<lambda>(header, packed).
            case packed of
              None \<Rightarrow> Inr None
            | Some (packedBuffer, packedSize) \<Rightarrow> Inr (Some (take packedSize packedBuffer))))"

text \<open>
  \<open>WrappPakcet\<close> sets the payload from a C string, so it ends at the first zero byte of the buffer,
  and it does not set \<open>arrSize\<close>.
\<close>

definition WrappPakcet ::
    "pb_lib \<Rightarrow> ('m \<Rightarrow> nat) \<Rightarrow> (pb_lib \<Rightarrow> 'm \<Rightarrow> bytes) \<Rightarrow> string \<Rightarrow> bytes \<Rightarrow> int32 \<Rightarrow> 'm \<Rightarrow> messageHeader option result" where
  "WrappPakcet L byte_size ser full_name stack userid packet =
     (case Serialize byte_size (ser L) (Some packet) BUF_SIZE of
        None \<Rightarrow> Inr None
      | Some s \<Rightarrow>
          let buf = s @ drop (length s) (stack_buffer stack) in
          if 0 \<notin> set buf then Inl OutOfBounds
          else Inr (Some (set_type full_name
                 (set_arr (takeWhile (\<lambda>b. b \<noteq> 0) buf) (set_userid userid messageHeader_new)))))"

section \<open>Packing\<close>

lemma packed_header_simps [simp]:
  "hdr_arr (packed_header h p t) = p" "hdr_type (packed_header h p t) = t"
  "hdr_arrsize (packed_header h p t) = of_nat (length p)"
  "hdr_userid (packed_header h p t) = hdr_userid h" "hdr_unknown (packed_header h p t) = hdr_unknown h"
  by (simp_all add: packed_header_def set_type_def set_arr_def set_arrsize_def)

lemma packed_header_inv: "messageHeader_inv h \<Longrightarrow> messageHeader_inv (packed_header h p t)"
  by (simp add: packed_header_def messageHeader_inv_set)

lemma Pack_cases:
  assumes "pb_lib_ok L" and "h = packed_header header (take n s) type" and "n \<le> length s"
    and "messageHeader_wf L h"
  shows "Pack L header s n type buf cap =
     (if cap < messageHeader_ByteSizeLong h then Inr (h, None)
      else if length buf < messageHeader_ByteSizeLong h + 4 then Inl OutOfBounds
      else Inr (h, Some (frame (messageHeader_InternalSerialize L h) @ drop (messageHeader_ByteSizeLong h + 4) buf,
                         messageHeader_ByteSizeLong h + 4)))"
proof -
  have "length (messageHeader_InternalSerialize L h) = messageHeader_ByteSizeLong h"
    using header.ser_size [OF assms(1,4)] .
  then show ?thesis
    using assms(2,3) by (auto simp: Pack_def Let_def Serialize_def copy_into_def frame_def add.commute)
qed

lemma frame_prefix: "take (length p + 4) (frame p @ r) = frame p"
  by (simp add: frame_def)

lemma Unpack_frame:
  assumes "pb_lib_ok L" and "messageHeader_wf L h"
  shows "Unpack (messageHeader_parse L) (frame (messageHeader_InternalSerialize L h) @ r) = Inr (Some h)"
proof -
  let ?s = "messageHeader_InternalSerialize L h"
  have n: "length ?s = messageHeader_ByteSizeLong h" "messageHeader_ByteSizeLong h < 2147483648"
    using header.ser_size [OF assms] header.size_int [OF assms(2)] by simp_all
  then have v: "sint (of_nat (length ?s) :: int32) = int (length ?s)" by (intro sint_of_nat_small) simp
  have b: "ByteArrToInt32 (frame ?s @ r) = Inr (of_nat (length ?s))"
    unfolding frame_def append_assoc by (rule ByteArrToInt32_Int32ToByteArr)
  show ?thesis
    unfolding Unpack_Inr_iff [OF b] v using header.ser_parse [OF assms] by (simp add: frame_def)
qed


section \<open>Reading the payload\<close>

lemma unat_ucast_u64 [simp]: "ucast (ucast (v :: u32) :: u64) = v"
  by (rule bit_word_eqI) (auto simp: bit_simps)

lemma GetPacket_eq:
  "GetPacket parse h =
     (if \<not> FindMessageTypeByName (hdr_type h) then Inr None
      else if 2 ^ 31 \<le> unat (hdr_arrsize h) then Inl NegativeLength
      else if length (hdr_arr h) + 1 < unat (hdr_arrsize h)
      then Inl (if unat (hdr_arrsize h) \<le> 16 then OutOfBounds else LengthBeyondBuffer)
      else Inr (parse (take (unat (hdr_arrsize h)) (hdr_arr h @ [0]))))"
proof -
  have "\<not> sint (hdr_arrsize h) < 0 \<Longrightarrow> unat (hdr_arrsize h) = nat (sint (hdr_arrsize h))"
    by (intro unat_eq_nat_sint) simp
  then show ?thesis
    using sint_nonneg_iff [of "hdr_arrsize h"]
    by (auto simp: GetPacket_def Deserialize_def Let_def)
qed

text \<open>The envelope adds at most 44 bytes to the payload and the name.\<close>

lemma VarintSize32_le: "VarintSize32 v \<le> 10"
  unfolding VarintSize32_eq by (rule length_UnsafeVarint_le)

lemma envelope_size:
  "messageHeader_ByteSizeLong (packed_header (set_userid userid messageHeader_new) p name) \<le> length p + length name + 44"
proof -
  have v: "UInt32SizePlusOne w \<le> 11" for w
    using VarintSize32_le [of w] by (simp add: UInt32SizePlusOne_def VarintSizePlusOne)
  have l: "StringSize x \<le> length x + 10" for x
    using VarintSize32_le [of "of_nat (length x)"] by (simp add: StringSize_def LengthDelimitedSize_def)
  have u: "hdr_unknown (set_userid userid messageHeader_new) = []"
    by (simp add: set_userid_def messageHeader_new_def)
  have hu: "hdr_userid (set_userid userid messageHeader_new) = userid" by (simp add: set_userid_def)
  have four: "(if b0 then (if b1 then 1 + t else 0) + (if b2 then 1 + a else 0) + (if b3 then i else 0) +
      (if b4 then n else 0) else 0) + 0 \<le> t + a + i + n + 2" for b0 b1 b2 b3 b4 and t a i n :: nat
    by simp
  have "messageHeader_ByteSizeLong (packed_header (set_userid userid messageHeader_new) p name) \<le>
      StringSize (bytes_of_string name) + StringSize p + UInt32SizePlusOne userid + UInt32SizePlusOne (of_nat (length p)) + 2"
    unfolding messageHeader_ByteSizeLong_def Let_def packed_header_simps u hu list.size by (rule four)
  with v [of userid] v [of "of_nat (length p)"] l [of p] l [of "bytes_of_string name"] show ?thesis
    by simp
qed

definition ascii :: "string \<Rightarrow> bool" where
  "ascii s \<longleftrightarrow> (\<forall>c \<in> set s. of_char c < (128 :: nat))"

lemma ascii_bytes: "ascii s \<Longrightarrow> \<forall>b \<in> set (bytes_of_string s). b < 128"
proof -
  have "(of_nat (of_char c) :: byte) < 128" if "of_char c < (128 :: nat)" for c
  proof -
    have "unat (of_nat (of_char c) :: byte) = of_char c" by (simp only: unat_of_nat) simp
    with that show ?thesis by (simp add: word_less_nat_alt)
  qed
  then show "ascii s \<Longrightarrow> ?thesis" by (auto simp: ascii_def bytes_of_string_def)
qed

context codec
begin

text \<open>
  What \<open>GetPacked\<close> returns for a message that its class can read back: nothing when the message or
  its envelope is longer than a buffer, a write past the second buffer when the envelope is within
  four bytes of its end, and otherwise one frame with the envelope.
\<close>

definition envelope :: "pb_lib \<Rightarrow> string \<Rightarrow> uint32 \<Rightarrow> 'm \<Rightarrow> messageHeader" where
  "envelope L full_name userid m =
     packed_header (set_userid userid messageHeader_new) (ser L m) full_name"

lemma GetPacked_cases:
  assumes "pb_lib_ok L" and "wf L m" and "messageHeader_wf L (envelope L full_name userid m)"
  shows "GetPacked L byte_size ser full_name stack userid m =
     (let n = messageHeader_ByteSizeLong (envelope L full_name userid m) in
      if BUF_SIZE < byte_size m \<or> BUF_SIZE < n then Inr None
      else if BUF_SIZE < n + 4 then Inl OutOfBounds
      else Inr (Some (frame (messageHeader_InternalSerialize L (envelope L full_name userid m)))))"
proof -
  let ?h = "envelope L full_name userid m"
  let ?n = "messageHeader_ByteSizeLong ?h"
  have len: "length (messageHeader_InternalSerialize L ?h) = ?n"
    using header.ser_size [OF assms(1,3)] .
  have "Pack L (set_userid userid messageHeader_new) (ser L m) (length (ser L m)) full_name buf cap =
      (if cap < ?n then Inr (?h, None)
       else if length buf < ?n + 4 then Inl OutOfBounds
       else Inr (?h, Some (frame (messageHeader_InternalSerialize L ?h) @ drop (?n + 4) buf, ?n + 4)))"
    for buf cap
    by (rule Pack_cases [OF assms(1) _ _ assms(3)]) (simp_all add: envelope_def)
  moreover have "take (?n + 4) (frame (messageHeader_InternalSerialize L ?h) @ r) =
      frame (messageHeader_InternalSerialize L ?h)" for r
    using frame_prefix [of "messageHeader_InternalSerialize L ?h" r] len by simp
  ultimately show ?thesis
    by (auto simp: GetPacked_def Serialize_def Let_def BUF_SIZE_def)
qed

text \<open>A payload that leaves room for the envelope is always packed; one that is longer than the buffer never is.\<close>

lemma envelope_wf:
  assumes "pb_lib_ok L" and "wf L m" and "ascii full_name" and "length full_name \<le> 48" and "byte_size m \<le> 4000"
  shows "messageHeader_wf L (envelope L full_name userid m)"
proof -
  have "messageHeader_ByteSizeLong (envelope L full_name userid m) \<le> 4092"
    using envelope_size [of userid "ser L m" full_name] ser_size [OF assms(1,2)] assms(4,5)
    by (simp add: envelope_def)
  moreover have "messageHeader_inv (envelope L full_name userid m)"
    unfolding envelope_def by (intro packed_header_inv messageHeader_inv_set messageHeader_inv_new)
  moreover have "hdr_type (envelope L full_name userid m) = full_name"
    "hdr_unknown (envelope L full_name userid m) = []"
    by (simp_all add: envelope_def set_userid_def messageHeader_new_def)
  ultimately show ?thesis
    using pb_lib_ascii [OF assms(1) ascii_bytes [OF assms(3)]] by (simp add: messageHeader_wf_def)
qed

lemma GetPacked_fits:
  assumes "pb_lib_ok L" and "wf L m" and "ascii full_name" and "length full_name \<le> 48" and "byte_size m \<le> 4000"
  shows "GetPacked L byte_size ser full_name stack userid m =
     Inr (Some (frame (messageHeader_InternalSerialize L (envelope L full_name userid m))))"
  using envelope_size [of userid "ser L m" full_name] ser_size [OF assms(1,2)] assms(4,5)
  by (simp add: GetPacked_cases [OF assms(1,2) envelope_wf [OF assms]] envelope_def BUF_SIZE_def)

lemma GetPacked_too_long:
  "BUF_SIZE < byte_size m \<Longrightarrow> GetPacked L byte_size ser full_name stack userid m = Inr None"
  by (simp add: GetPacked_def Serialize_def)

lemma envelope_fields [simp]:
  "hdr_userid (envelope L full_name userid m) = userid"
  "hdr_type (envelope L full_name userid m) = full_name"
  "hdr_arr (envelope L full_name userid m) = ser L m"
  by (simp_all add: envelope_def set_userid_def)

text \<open>Whoever receives the frame and takes the payload out has the message.\<close>

lemma GetPacked_GetPacket:
  assumes "pb_lib_ok L" and "wf L m" and "messageHeader_wf L (envelope L full_name userid m)"
    and "FindMessageTypeByName full_name"
    and "GetPacked L byte_size ser full_name stack userid m = Inr (Some bs)"
  shows "\<exists>h. Unpack (messageHeader_parse L) (bs @ r) = Inr (Some h) \<and> hdr_userid h = userid \<and>
     hdr_type h = full_name \<and> GetPacket (parse L) h = Inr (Some m)"
proof -
  let ?h = "envelope L full_name userid m"
  have bs: "bs = frame (messageHeader_InternalSerialize L ?h)"
    using assms(5) unfolding GetPacked_cases [OF assms(1-3)] by (auto simp: Let_def split: if_splits)
  have n: "length (ser L m) = byte_size m" "byte_size m < 2147483648"
    using ser_size [OF assms(1,2)] size_int [OF assms(2)] by simp_all
  then have u: "unat (hdr_arrsize ?h) = length (ser L m)"
    unfolding envelope_def by (simp add: unat_of_nat_u32 del: of_nat_eq_0_iff)
  have "GetPacket (parse L) ?h = Inr (Some m)"
    using assms(4) n ser_parse [OF assms(1,2)] by (simp add: GetPacket_eq u)
  then show ?thesis
    unfolding bs Unpack_frame [OF assms(1,3)] by auto
qed

end


section \<open>Properties\<close>

text \<open>C3: When \<open>Pack\<close> succeeds, the buffer starts with one length-prefixed frame that holds the
  envelope with the given payload, its length and type; \<open>packedLength\<close> is the length of that frame
  and within the buffer, and \<open>Unpack\<close> on the buffer returns the envelope.\<close>

theorem Pack_Unpack:
  assumes "pb_lib_ok L" and "n \<le> length s" and "messageHeader_wf L (packed_header header (take n s) type)"
    and "Pack L header s n type buf cap = Inr (h, Some (b, k))"
  shows "h = packed_header header (take n s) type \<and> k = messageHeader_ByteSizeLong h + 4 \<and>
     k \<le> length b \<and> take k b = frame (messageHeader_InternalSerialize L h) \<and>
     Unpack (messageHeader_parse L) b = Inr (Some h)"
proof -
  note c = Pack_cases [OF assms(1) refl assms(2,3), of buf cap]
  let ?h = "packed_header header (take n s) type"
  let ?f = "frame (messageHeader_InternalSerialize L ?h)"
  from assms(4) [unfolded c] have h: "h = ?h" and k: "k = messageHeader_ByteSizeLong ?h + 4"
    and b: "b = ?f @ drop k buf" and le: "k \<le> length buf"
    by (auto split: if_splits)
  have "length ?f = k"
    using header.ser_size [OF assms(1,3)] k by (simp add: frame_def)
  then show ?thesis
    using Unpack_frame [OF assms(1,3), of "drop k buf"] h k b by simp
qed

text \<open>C33: \<open>Pack\<close> checks the envelope against the capacity of the whole buffer although it writes it
  behind the four bytes of the prefix. It writes past the buffer exactly when the envelope is longer
  than the capacity less four and not longer than the capacity.\<close>

theorem Pack_overrun:
  assumes "pb_lib_ok L" and "n \<le> length s" and "messageHeader_wf L (packed_header header (take n s) type)"
    and "4 \<le> length buf"
  shows "Pack L header s n type buf (length buf) = Inl OutOfBounds \<longleftrightarrow>
     length buf - 4 < messageHeader_ByteSizeLong (packed_header header (take n s) type) \<and>
     messageHeader_ByteSizeLong (packed_header header (take n s) type) \<le> length buf"
  using assms(4) unfolding Pack_cases [OF assms(1) refl assms(2,3), of buf "length buf"]
  by auto

text \<open>A header that claims more bytes than it carries survives \<open>Unpack\<close> unchanged.\<close>

lemma forged_arrsize:
  assumes "pb_lib_ok L" and "messageHeader_wf L h" and "FindMessageTypeByName (hdr_type h)"
    and "length (hdr_arr h) + 1 < unat (hdr_arrsize h)" and "unat (hdr_arrsize h) < 2 ^ 31"
  shows "Unpack (messageHeader_parse L) (frame (messageHeader_InternalSerialize L h)) = Inr (Some h) \<and>
     GetPacket parse h = Inl (if unat (hdr_arrsize h) \<le> 16 then OutOfBounds else LengthBeyondBuffer)"
  using Unpack_frame [OF assms(1,2), of "[]"] assms(3-5) by (simp add: GetPacket_eq)

subsection \<open>Witnesses\<close>

definition wbuf :: bytes where "wbuf = replicate 30 0"

lemma wpack_size: "messageHeader_ByteSizeLong (packed_header messageHeader_new (take 2 [8, 5]) ''CKPacket.reqPing'') = 24"
  by code_simp

lemma wpack_wf: "messageHeader_wf ref_lib (packed_header messageHeader_new (take 2 [8, 5]) ''CKPacket.reqPing'')"
  by (rule messageHeader_wfI [OF _ wpack_size]) (code_simp, simp)

theorem Pack_Unpack_witness:
  "\<exists>b. Pack ref_lib messageHeader_new [8, 5] 2 ''CKPacket.reqPing'' wbuf 30 =
       Inr (packed_header messageHeader_new (take 2 [8, 5]) ''CKPacket.reqPing'', Some (b, 28)) \<and>
     Unpack (messageHeader_parse ref_lib) b =
       Inr (Some (packed_header messageHeader_new (take 2 [8, 5]) ''CKPacket.reqPing''))"
proof -
  have n: "2 \<le> length [8, 5 :: byte]" by simp
  have "\<exists>b. Pack ref_lib messageHeader_new [8, 5] 2 ''CKPacket.reqPing'' wbuf 30 =
       Inr (packed_header messageHeader_new (take 2 [8, 5]) ''CKPacket.reqPing'', Some (b, 28))"
    unfolding Pack_cases [OF ref_lib_ok refl n wpack_wf] wpack_size wbuf_def by simp
  then obtain b where b: "Pack ref_lib messageHeader_new [8, 5] 2 ''CKPacket.reqPing'' wbuf 30 =
       Inr (packed_header messageHeader_new (take 2 [8, 5]) ''CKPacket.reqPing'', Some (b, 28))" ..
  show ?thesis
    by (intro exI [of _ b] conjI b) (use Pack_Unpack [OF ref_lib_ok n wpack_wf b] in blast)
qed

theorem Pack_overrun_witness:
  "Pack ref_lib messageHeader_new [8, 5] 2 ''CKPacket.reqPing'' (replicate 27 0) 27 = Inl OutOfBounds"
  using Pack_overrun [OF ref_lib_ok _ wpack_wf, of "replicate 27 0"] wpack_size by simp

end
