(* ===== verification/Message_Fields.thy ===== *)
theory Message_Fields
  imports Route_Base
begin

unbundle bit_operations_syntax

text \<open>
  The pieces from which the generated classes of \<^verbatim>\<open>item.pb.h\<close> are made: the readers that a
  \<open>switch\<close> calls for each kind of field (\<^verbatim>\<open>parse_context.h\<close>), the loop over the elements of a
  repeated field, nested messages, and the lemmas that each of them reads back what the
  corresponding writer wrote.
\<close>

section \<open>Readers\<close>

definition ReadVarint32 :: "pb_lib \<Rightarrow> bytes \<Rightarrow> (bytes \<times> u32) option" where
  "ReadVarint32 L p = VarintParse32 L p"

definition ReadVarint64 :: "pb_lib \<Rightarrow> bytes \<Rightarrow> (bytes \<times> u64) option" where
  "ReadVarint64 L p = VarintParse64 L p"

text \<open>A string field: \<open>InlineGreedyStringParser\<close> followed by \<open>VerifyUTF8\<close>, both must succeed.\<close>

definition ReadUtf8 :: "pb_lib \<Rightarrow> bytes \<Rightarrow> (bytes \<times> string) option" where
  "ReadUtf8 L p =
     (case InlineGreedyStringParser L p of
        None \<Rightarrow> None
      | Some (r, s) \<Rightarrow> if VerifyUTF8 L s then Some (r, string_of_bytes s) else None)"

text \<open>A float is its four bytes, little endian; its bits are kept as they are.\<close>

definition UnalignedLoad :: "bytes \<Rightarrow> (bytes \<times> u32) option" where
  "UnalignedLoad p =
     (case p of
        b0 # b1 # b2 # b3 # r \<Rightarrow>
          Some (r, ucast b0 OR push_bit 8 (ucast b1) OR push_bit 16 (ucast b2) OR push_bit 24 (ucast b3))
      | _ \<Rightarrow> None)"

definition ReadSize :: "pb_lib \<Rightarrow> bytes \<Rightarrow> (bytes \<times> nat) option" where
  "ReadSize L p =
     (case p of
        [] \<Rightarrow> None
      | b # r \<Rightarrow> if b < 128 then Some (r, unat b) else ReadSizeFallback L p (ucast b))"

definition ExpectTag :: "byte \<Rightarrow> bytes \<Rightarrow> bool" where
  "ExpectTag tag p = (case p of [] \<Rightarrow> False | b # _ \<Rightarrow> b = tag)"

text \<open>
  \<open>ParseContext::ParseMessage\<close>: the size, then the nested class's \<open>_InternalParse\<close> on exactly that
  many bytes, which must end at the limit. The recursion limit of 100 is out of reach of these
  messages, which nest once.
\<close>

definition ParseMessage :: "pb_lib \<Rightarrow> (bytes \<Rightarrow> 'x option) \<Rightarrow> bytes \<Rightarrow> (bytes \<times> 'x) option" where
  "ParseMessage L parse p =
     (case ReadSize L p of
        None \<Rightarrow> None
      | Some (r, n) \<Rightarrow>
          if length r < n then None
          else (case parse (take n r) of None \<Rightarrow> None | Some x \<Rightarrow> Some (drop n r, x)))"

text \<open>The result of a case of the \<open>switch\<close>: a null pointer is a failure, otherwise the field is set.\<close>

definition handled :: "(bytes \<times> 'v) option \<Rightarrow> ('v \<Rightarrow> 'm) \<Rightarrow> 'm field_result" where
  "handled x set_field = (case x of None \<Rightarrow> Failure | Some (r, v) \<Rightarrow> Handled (set_field v) r)"

text \<open>
  The \<open>do\<close> loop of a repeated message field: another element follows as long as data is available
  and the next byte is the field's tag. An element takes at least one byte, so the number of bytes
  bounds the rounds.
\<close>

fun repeated_loop ::
    "nat \<Rightarrow> byte \<Rightarrow> (bytes \<Rightarrow> (bytes \<times> 'x) option) \<Rightarrow> ('x \<Rightarrow> 'm \<Rightarrow> 'm) \<Rightarrow> bytes \<Rightarrow> 'm \<Rightarrow> 'm field_result" where
  "repeated_loop 0 tag read add p m = Failure"
| "repeated_loop (Suc n) tag read add p m =
     (case read p of
        None \<Rightarrow> Failure
      | Some (r, x) \<Rightarrow>
          if ExpectTag tag r then repeated_loop n tag read add (tl r) (add x m)
          else Handled (add x m) r)"

section \<open>They read back what was written\<close>

lemma handled_Handled: "handled x f = Handled m r \<longleftrightarrow> (\<exists>v. x = Some (r, v) \<and> m = f v)"
  by (auto simp: handled_def split: option.splits)

lemma handled_Some [simp]: "handled (Some (r, v)) f = Handled (f v) r"
  by (simp add: handled_def)

lemma ReadVarint32_uint32:
  "pb_lib_ok L \<Longrightarrow> ReadVarint32 L (WriteVarint32ToArray v @ r) = Some (r, v)"
  by (simp add: ReadVarint32_def WriteVarint32ToArray_def VarintParse32_UnsafeVarint)

lemma ReadVarint32_int32:
  "pb_lib_ok L \<Longrightarrow> ReadVarint32 L (WriteVarint32SignExtendedToArray v @ r) = Some (r, v)"
proof -
  have "(ucast (scast v :: u64) :: u32) = v" by (rule bit_word_eqI) (auto simp: bit_simps)
  then show "pb_lib_ok L \<Longrightarrow> ?thesis"
    by (simp add: ReadVarint32_def WriteVarint32SignExtendedToArray_def WriteVarint64ToArray_def
        VarintParse32_UnsafeVarint64)
qed

lemma ReadUtf8_string:
  "pb_lib_ok L \<Longrightarrow> length s < 2 ^ 31 - 16 \<Longrightarrow> VerifyUTF8 L (bytes_of_string s) \<Longrightarrow>
     ReadUtf8 L (length_prefixed (bytes_of_string s) @ r) = Some (r, s)"
  by (simp add: ReadUtf8_def read_length_prefixed)

lemma UnalignedLoad_float: "UnalignedLoad (WriteLittleEndian32ToArray v @ r) = Some (r, v)"
proof -
  have "ucast (ucast v :: byte) OR push_bit 8 (ucast (ucast (drop_bit 8 v) :: byte)) OR
      push_bit 16 (ucast (ucast (drop_bit 16 v) :: byte)) OR
      push_bit 24 (ucast (ucast (drop_bit 24 v) :: byte)) = v" (is "?w = v")
  proof (rule bit_word_eqI)
    fix n
    assume "n < LENGTH(32)"
    then consider "n < 8" | "8 \<le> n" "n < 16" | "16 \<le> n" "n < 24" | "24 \<le> n" "n < 32" by force
    then show "bit ?w n = bit v n" by cases (auto simp: bit_simps not_le)
  qed
  then show ?thesis by (simp add: UnalignedLoad_def WriteLittleEndian32ToArray_def)
qed

lemma ReadSize_size:
  assumes "pb_lib_ok L" and "n < 2 ^ 31 - 16"
  shows "ReadSize L (WriteVarint32ToArray (of_nat n) @ r) = Some (r, n)"
proof -
  have u: "unat (of_nat n :: u32) = n" using assms(2) by (intro unat_of_nat_u32) simp
  then have u64: "unat (ucast (of_nat n :: u32) :: u64) = n" by simp
  show ?thesis
  proof (cases "n < 128")
    case True
    then have "unat (ucast (ucast (of_nat n :: u32) :: u64) :: byte) = n"
      using u64 by (simp only: unat_ucast_byte) simp
    with True u64 show ?thesis
      by (simp only: WriteVarint32ToArray_def UnsafeVarint_last) (simp add: ReadSize_def word_less_nat_alt)
  next
    case False
    have "\<not> (ucast (ucast (of_nat n :: u32) :: u64) OR 0x80 :: byte) < 128"
      by (rule or_0x80_AND(2))
    moreover have "UnsafeVarint (ucast (of_nat n :: u32)) =
        (ucast (ucast (of_nat n :: u32) :: u64) OR 0x80) # UnsafeVarint (drop_bit 7 (ucast (of_nat n :: u32)))"
      using False u64 by (simp only: UnsafeVarint_more not_less)
    moreover have "ReadSizeFallback L (UnsafeVarint (ucast (of_nat n :: u32)) @ r) h = Some (r, n)" for h
      using pb_lib_nested(1) [OF assms(1) _ assms(2)] False by (simp add: UnsafeWriteSize_eq)
    ultimately show ?thesis
      by (simp add: ReadSize_def WriteVarint32ToArray_def)
  qed
qed

lemma ParseMessage_nested:
  assumes "pb_lib_ok L" and "length bs < 2 ^ 31 - 16" and "parse bs = Some x"
  shows "ParseMessage L parse (WriteVarint32ToArray (of_nat (length bs)) @ bs @ r) = Some (r, x)"
  using assms by (simp add: ParseMessage_def ReadSize_size)

lemma repeated_loop_all:
  assumes "\<forall>y \<in> set (x # xs). \<forall>r. read (enc y @ r) = Some (r, y)" and "length xs < n"
  shows "repeated_loop n tag read add (enc x @ concat (map (\<lambda>y. tag # enc y) xs)) m =
     Handled (fold add (x # xs) m) []"
  using assms
proof (induction xs arbitrary: x n m)
  case Nil
  then have r: "read (enc x @ []) = Some ([], x)" by (meson list.set_intros(1))
  obtain k where "n = Suc k" using Nil(2) by (cases n) auto
  then show ?case using r by (simp add: ExpectTag_def)
next
  case (Cons y ys)
  from Cons.prems(2) obtain k where n: "n = Suc k" "length ys < k" by (cases n) auto
  have "read (enc x @ (tag # enc y @ concat (map (\<lambda>y. tag # enc y) ys))) =
      Some (tag # enc y @ concat (map (\<lambda>y. tag # enc y) ys), x)"
    using Cons.prems(1) by (meson list.set_intros(1))
  moreover have "\<forall>z \<in> set (y # ys). \<forall>r. read (enc z @ r) = Some (r, z)" using Cons.prems(1) by simp
  ultimately show ?case
    using Cons.IH [of y k "add x m"] n by (simp add: ExpectTag_def)
qed

section \<open>They give no input back\<close>

lemma reader_shrinks:
  assumes "pb_lib_ok L"
  shows "ReadVarint32 L p = Some (r, v) \<Longrightarrow> length r \<le> length p"
    and "ReadVarint64 L p = Some (r, w) \<Longrightarrow> length r \<le> length p"
    and "ReadUtf8 L p = Some (r, s) \<Longrightarrow> length r \<le> length p"
    and "UnalignedLoad p = Some (r, v) \<Longrightarrow> length r \<le> length p"
    and "ReadSize L p = Some (r, n) \<Longrightarrow> length r \<le> length p"
proof -
  show "ReadVarint32 L p = Some (r, v) \<Longrightarrow> length r \<le> length p"
    unfolding ReadVarint32_def by (auto dest: VarintParse_shrinks(2) [OF assms])
  show "ReadVarint64 L p = Some (r, w) \<Longrightarrow> length r \<le> length p"
    unfolding ReadVarint64_def by (auto dest: VarintParse_shrinks(1) [OF assms])
  show "ReadUtf8 L p = Some (r, s) \<Longrightarrow> length r \<le> length p"
    unfolding ReadUtf8_def by (auto dest: pb_lib_shrinks(4) [OF assms] split: option.splits if_splits)
  show "UnalignedLoad p = Some (r, v) \<Longrightarrow> length r \<le> length p"
    by (auto simp: UnalignedLoad_def split: list.splits)
  show "ReadSize L p = Some (r, n) \<Longrightarrow> length r \<le> length p"
    unfolding ReadSize_def by (auto dest: pb_lib_shrinks(6) [OF assms] split: list.splits if_splits)
qed

lemma ParseMessage_shrinks:
  "pb_lib_ok L \<Longrightarrow> ParseMessage L parse p = Some (r, x) \<Longrightarrow> length r \<le> length p"
  unfolding ParseMessage_def
  by (auto dest!: reader_shrinks(5) split: option.splits if_splits)

lemma repeated_loop_shrinks:
  assumes "\<And>p r x. read p = Some (r, x) \<Longrightarrow> length r \<le> length p"
  shows "repeated_loop n tag read add p m = Handled m' r \<Longrightarrow> length r \<le> length p"
proof (induction n arbitrary: p m)
  case (Suc n)
  then obtain q x where q: "read p = Some (q, x)"
    and h: "(if ExpectTag tag q then repeated_loop n tag read add (tl q) (add x m) else Handled (add x m) q) = Handled m' r"
    by (auto split: option.splits)
  from assms [OF q] have "length q \<le> length p" .
  moreover have "length r \<le> length q"
    using h Suc.IH [of "tl q" "add x m"] by (auto split: if_splits)
  ultimately show ?case by simp
qed simp

lemma repeated_message_shrinks:
  "pb_lib_ok L \<Longrightarrow> repeated_loop n tag (ParseMessage L parse) add p m = Handled m' r \<Longrightarrow> length r \<le> length p"
  by (rule repeated_loop_shrinks) (auto dest: ParseMessage_shrinks)

section \<open>Tags\<close>

lemma MakeTag_table:
  "MakeTag 1 0 = 8" "MakeTag 2 0 = 16" "MakeTag 3 0 = 24" "MakeTag 4 0 = 32"
  "MakeTag 1 2 = 10" "MakeTag 2 2 = 18" "MakeTag 3 2 = 26" "MakeTag 4 2 = 34"
  "MakeTag 1 5 = 13" "MakeTag 2 5 = 21" "MakeTag 3 5 = 29" "MakeTag 4 5 = 37"
  by code_simp+

lemma WriteTag_table:
  "WriteTagToArray 1 0 = [8]" "WriteTagToArray 2 0 = [16]" "WriteTagToArray 3 0 = [24]" "WriteTagToArray 4 0 = [32]"
  "WriteTagToArray 1 2 = [10]" "WriteTagToArray 2 2 = [18]" "WriteTagToArray 3 2 = [26]" "WriteTagToArray 4 2 = [34]"
  "WriteTagToArray 1 5 = [13]" "WriteTagToArray 2 5 = [21]" "WriteTagToArray 3 5 = [29]" "WriteTagToArray 4 5 = [37]"
  by (simp_all add: WriteTag_byte MakeTag_table)

lemma write_field:
  "WriteInt32ToArray num i = WriteTagToArray num 0 @ WriteVarint32SignExtendedToArray i"
  "WriteUInt32ToArray num v = WriteTagToArray num 0 @ WriteVarint32ToArray v"
  "WriteFloatToArray num v = WriteTagToArray num 5 @ WriteLittleEndian32ToArray v"
  by (simp_all add: WriteInt32ToArray_def WriteUInt32ToArray_def WriteFloatToArray_def)

lemma write_string:
  assumes "pb_lib_ok L" and "length s < 2 ^ 31"
  shows "WriteStringMaybeAliased L 1 s = 10 # length_prefixed s" "WriteStringMaybeAliased L 2 s = 18 # length_prefixed s"
    "WriteStringMaybeAliased L 3 s = 26 # length_prefixed s" "WriteStringMaybeAliased L 4 s = 34 # length_prefixed s"
  using WriteStringMaybeAliased_eq [OF assms, of 1] WriteStringMaybeAliased_eq [OF assms, of 2]
    WriteStringMaybeAliased_eq [OF assms, of 3] WriteStringMaybeAliased_eq [OF assms, of 4]
  by (simp_all add: MakeTag_table)

lemma length_int32: "Suc (length (WriteVarint32SignExtendedToArray i)) = Int32SizePlusOne i"
  by (simp add: WriteVarint32SignExtendedToArray_def WriteVarint64ToArray_def Int32SizePlusOne_def
      VarintSize32SignExtendedPlusOne_def VarintSizePlusOne VarintSize64_eq)

lemma length_float [simp]: "length (WriteLittleEndian32ToArray v) = 4"
  by (simp add: WriteLittleEndian32ToArray_def)

lemma LengthDelimitedSize_ge: "n \<le> LengthDelimitedSize n"
  by (simp add: LengthDelimitedSize_def)

lemmas field_sizes = length_int32 length_WriteVarint32 length_length_prefixed StringSize_def


section \<open>Presence bits\<close>

text \<open>A word of presence bits is rebuilt from its bits.\<close>

lemma flag_collect4:
  fixes w :: u32
  assumes "w < 16"
  shows "((((0 OR (if bit w 0 then 1 else 0)) OR (if bit w 1 then 2 else 0)) OR (if bit w 2 then 4 else 0)) OR
     (if bit w 3 then 8 else 0)) = w" (is "?w = w")
proof (rule bit_word_eqI)
  fix n :: nat
  have hi: "4 \<le> n \<Longrightarrow> \<not> bit w n" using assms unfolding flag_none by blast
  consider "n = 0" | "n = 1" | "n = 2" | "n = 3" | "4 \<le> n" by linarith
  then show "bit ?w n \<longleftrightarrow> bit w n"
    using hi by cases (auto simp: bit_or_iff flag_bits simp del: bit_numeral_word_iff)
qed

lemma flag_collect1:
  fixes w :: u32
  assumes "w < 2"
  shows "(if bit w 0 then 1 else 0) = w"
proof -
  have "unat w < 2" using assms by (simp add: word_less_nat_alt)
  then have "unat w = 0 \<or> unat w = 1" by linarith
  then have "w = 0 \<or> w = 1" by (metis unat_1 unat_eq_zero word_unat_eq_iff)
  then show ?thesis by auto
qed

end
