(* ===== verification/Messages_Empty.thy ===== *)
theory Messages_Empty
  imports Message_Fields Route_Base
begin

text \<open>
  The generated classes without fields (\<^verbatim>\<open>item.pb.h\<close>, \<^verbatim>\<open>system.pb.h\<close>), all derived from
  \<open>ZeroFieldsBase\<close> of \<^verbatim>\<open>generated_message_bases.h\<close>: an object holds nothing but the unknown fields
  that a parser kept. The parser and the writer of the base class are library code, the fields
  \<open>ZeroFieldsParse\<close> and \<open>ZeroFieldsSerialize\<close> of \<open>pb_lib\<close>.
\<close>

record zero_fields =
  zf_unknown :: bytes

type_synonym resPlayerJoin = zero_fields
type_synonym reqPing = zero_fields
type_synonym reqShopItemList = zero_fields
type_synonym SYSTEM_USER_CONNECT = zero_fields
type_synonym SYSTEM_USER_DISCONNECT = zero_fields

definition resPlayerJoin_new :: resPlayerJoin where
  "resPlayerJoin_new = \<lparr>zf_unknown = []\<rparr>"

definition ZeroFields_ByteSizeLong :: "zero_fields \<Rightarrow> nat" where
  "ZeroFields_ByteSizeLong m = length (zf_unknown m)"

definition ZeroFields_InternalSerialize :: "pb_lib \<Rightarrow> zero_fields \<Rightarrow> bytes" where
  "ZeroFields_InternalSerialize L m = ZeroFieldsSerialize L (zf_unknown m)"

definition ZeroFields_parse :: "pb_lib \<Rightarrow> bytes \<Rightarrow> zero_fields option" where
  "ZeroFields_parse L p = map_option (\<lambda>u. \<lparr>zf_unknown = u\<rparr>) (ZeroFieldsParse L p)"

definition zero_fields_wf :: "pb_lib \<Rightarrow> zero_fields \<Rightarrow> bool" where
  "zero_fields_wf L m \<longleftrightarrow> zf_unknown m = []"

interpretation zero_fields_codec: codec ZeroFields_ByteSizeLong ZeroFields_InternalSerialize ZeroFields_parse zero_fields_wf
  by unfold_locales
    (simp_all add: ZeroFields_ByteSizeLong_def ZeroFields_InternalSerialize_def ZeroFields_parse_def
      zero_fields_wf_def pb_lib_nested)

section \<open>Type names\<close>

text \<open>\<open>GetDescriptor()->full_name()\<close> of each class, the string that goes into the envelope.\<close>

definition resPlayerJoin_full_name :: string where "resPlayerJoin_full_name = ''CKPacket.resPlayerJoin''"
definition reqPing_full_name :: string where "reqPing_full_name = ''CKPacket.reqPing''"
definition reqNotifyPlayerName_full_name :: string where
  "reqNotifyPlayerName_full_name = ''CKPacket.reqNotifyPlayerName''"
definition reqPlayerPosition_full_name :: string where
  "reqPlayerPosition_full_name = ''CKPacket.reqPlayerPosition''"
definition resPlayerPosition_full_name :: string where
  "resPlayerPosition_full_name = ''CKPacket.resPlayerPosition''"
definition resReplicatedPlayerGen_full_name :: string where
  "resReplicatedPlayerGen_full_name = ''CKPacket.resReplicatedPlayerGen''"
definition reqReplicatedPlayerDes_full_name :: string where
  "reqReplicatedPlayerDes_full_name = ''CKPacket.reqReplicatedPlayerDes''"
definition reqAddToItem_full_name :: string where "reqAddToItem_full_name = ''CKPacket.reqAddToItem''"
definition resInventoryItems_full_name :: string where
  "resInventoryItems_full_name = ''CKPacket.resInventoryItems''"
definition reqShopItemList_full_name :: string where
  "reqShopItemList_full_name = ''CKPacket.reqShopItemList''"
definition resShopItemList_full_name :: string where
  "resShopItemList_full_name = ''CKPacket.resShopItemList''"
definition reqShopBuy_full_name :: string where "reqShopBuy_full_name = ''CKPacket.reqShopBuy''"
definition SystemEnd_full_name :: string where "SystemEnd_full_name = ''CKPacket.SystemEnd''"
definition SYSTEM_USER_CONNECT_full_name :: string where
  "SYSTEM_USER_CONNECT_full_name = ''CKPacket.SYSTEM_USER_CONNECT''"
definition SYSTEM_USER_DISCONNECT_full_name :: string where
  "SYSTEM_USER_DISCONNECT_full_name = ''CKPacket.SYSTEM_USER_DISCONNECT''"

lemmas full_names = resPlayerJoin_full_name_def reqPing_full_name_def reqNotifyPlayerName_full_name_def
  reqPlayerPosition_full_name_def resPlayerPosition_full_name_def resReplicatedPlayerGen_full_name_def
  reqReplicatedPlayerDes_full_name_def reqAddToItem_full_name_def resInventoryItems_full_name_def
  reqShopItemList_full_name_def resShopItemList_full_name_def reqShopBuy_full_name_def
  SystemEnd_full_name_def SYSTEM_USER_CONNECT_full_name_def SYSTEM_USER_DISCONNECT_full_name_def

lemma full_names_in_pool [simp]:
  "FindMessageTypeByName resPlayerJoin_full_name" "FindMessageTypeByName reqPing_full_name"
  "FindMessageTypeByName reqNotifyPlayerName_full_name" "FindMessageTypeByName reqPlayerPosition_full_name"
  "FindMessageTypeByName resPlayerPosition_full_name" "FindMessageTypeByName resReplicatedPlayerGen_full_name"
  "FindMessageTypeByName resInventoryItems_full_name" "FindMessageTypeByName reqShopItemList_full_name"
  "FindMessageTypeByName resShopItemList_full_name" "FindMessageTypeByName reqShopBuy_full_name"
  by (simp_all add: FindMessageTypeByName_def generated_pool_names_def full_names)

lemma full_names_short [simp]:
  "ascii resPlayerJoin_full_name" "length resPlayerJoin_full_name \<le> 48"
  "ascii resPlayerPosition_full_name" "length resPlayerPosition_full_name \<le> 48"
  "ascii resReplicatedPlayerGen_full_name" "length resReplicatedPlayerGen_full_name \<le> 48"
  "ascii resInventoryItems_full_name" "length resInventoryItems_full_name \<le> 48"
  "ascii resShopItemList_full_name" "length resShopItemList_full_name \<le> 48"
  by (simp_all add: ascii_def full_names)

end
