(* ===== verification/Messages_Item.thy ===== *)
theory Messages_Item
  imports Message_Fields
begin

unbundle bit_operations_syntax

text \<open>
  The generated classes that carry items (\<^verbatim>\<open>Packet/item.pb.h\<close>, \<^verbatim>\<open>item.pb.cc\<close>): \<open>itemInfo\<close> and
  \<open>shopItem\<close>, the lists \<open>resInventoryItems\<close> and \<open>resShopItemList\<close> of them, and the purchase request
  \<open>reqShopBuy\<close>. Their fields have no presence bits: a field at its default is not written. Each class
  is an instance of the interface \<open>codec\<close>.
\<close>

section \<open>itemInfo\<close>

text \<open>An item of a player's inventory.\<close>

record itemInfo =
  itemInfo_itemid :: int32
  itemInfo_itemname :: string
  itemInfo_itemdesc :: string
  itemInfo_count :: uint32
  itemInfo_unknown :: bytes

definition itemInfo_new :: itemInfo where
  "itemInfo_new = \<lparr>itemInfo_itemid = 0, itemInfo_itemname = [], itemInfo_itemdesc = [], itemInfo_count = 0, itemInfo_unknown = []\<rparr>"

definition itemInfo_clear_itemid :: "itemInfo \<Rightarrow> itemInfo" where
  "itemInfo_clear_itemid m = m\<lparr>itemInfo_itemid := 0\<rparr>"

definition itemInfo_set_itemid :: "int32 \<Rightarrow> itemInfo \<Rightarrow> itemInfo" where
  "itemInfo_set_itemid v m = m\<lparr>itemInfo_itemid := v\<rparr>"

definition itemInfo_clear_itemname :: "itemInfo \<Rightarrow> itemInfo" where
  "itemInfo_clear_itemname m = m\<lparr>itemInfo_itemname := []\<rparr>"

definition itemInfo_set_itemname :: "string \<Rightarrow> itemInfo \<Rightarrow> itemInfo" where
  "itemInfo_set_itemname v m = m\<lparr>itemInfo_itemname := v\<rparr>"

definition itemInfo_clear_itemdesc :: "itemInfo \<Rightarrow> itemInfo" where
  "itemInfo_clear_itemdesc m = m\<lparr>itemInfo_itemdesc := []\<rparr>"

definition itemInfo_set_itemdesc :: "string \<Rightarrow> itemInfo \<Rightarrow> itemInfo" where
  "itemInfo_set_itemdesc v m = m\<lparr>itemInfo_itemdesc := v\<rparr>"

definition itemInfo_clear_count :: "itemInfo \<Rightarrow> itemInfo" where
  "itemInfo_clear_count m = m\<lparr>itemInfo_count := 0\<rparr>"

definition itemInfo_set_count :: "uint32 \<Rightarrow> itemInfo \<Rightarrow> itemInfo" where
  "itemInfo_set_count v m = m\<lparr>itemInfo_count := v\<rparr>"

definition itemInfo_Clear :: "itemInfo \<Rightarrow> itemInfo" where
  "itemInfo_Clear m = m\<lparr>itemInfo_itemid := 0, itemInfo_itemname := [], itemInfo_itemdesc := [], itemInfo_count := 0, itemInfo_unknown := []\<rparr>"

definition itemInfo_MergeImpl :: "itemInfo \<Rightarrow> itemInfo \<Rightarrow> itemInfo" where
  "itemInfo_MergeImpl this from =
     (let m1 = (if itemInfo_itemname from \<noteq> [] then itemInfo_set_itemname (itemInfo_itemname from) this else this);
          m2 = (if itemInfo_itemdesc from \<noteq> [] then itemInfo_set_itemdesc (itemInfo_itemdesc from) m1 else m1);
          m3 = (if itemInfo_itemid from \<noteq> 0 then itemInfo_set_itemid (itemInfo_itemid from) m2 else m2);
          m4 = (if itemInfo_count from \<noteq> 0 then itemInfo_set_count (itemInfo_count from) m3 else m3)
      in m4\<lparr>itemInfo_unknown := itemInfo_unknown m4 @ itemInfo_unknown from\<rparr>)"

definition itemInfo_CopyFrom :: "itemInfo \<Rightarrow> itemInfo \<Rightarrow> itemInfo" where
  "itemInfo_CopyFrom this from = itemInfo_MergeImpl (itemInfo_Clear this) from"

definition itemInfo_ByteSizeLong :: "itemInfo \<Rightarrow> nat" where
  "itemInfo_ByteSizeLong m =
     (if itemInfo_itemname m \<noteq> [] then 1 + StringSize (bytes_of_string (itemInfo_itemname m)) else 0) +
     (if itemInfo_itemdesc m \<noteq> [] then 1 + StringSize (bytes_of_string (itemInfo_itemdesc m)) else 0) +
     (if itemInfo_itemid m \<noteq> 0 then Int32SizePlusOne (itemInfo_itemid m) else 0) +
     (if itemInfo_count m \<noteq> 0 then UInt32SizePlusOne (itemInfo_count m) else 0) + length (itemInfo_unknown m)"

definition itemInfo_InternalSerialize :: "pb_lib \<Rightarrow> itemInfo \<Rightarrow> bytes" where
  "itemInfo_InternalSerialize L m =
     (if itemInfo_itemid m \<noteq> 0 then WriteInt32ToArray 1 (itemInfo_itemid m) else []) @
     (if itemInfo_itemname m \<noteq> [] then WriteStringMaybeAliased L 2 (bytes_of_string (itemInfo_itemname m)) else []) @
     (if itemInfo_itemdesc m \<noteq> [] then WriteStringMaybeAliased L 3 (bytes_of_string (itemInfo_itemdesc m)) else []) @
     (if itemInfo_count m \<noteq> 0 then WriteUInt32ToArray 4 (itemInfo_count m) else []) @
     itemInfo_unknown m"

definition itemInfo_field :: "pb_lib \<Rightarrow> u32 \<Rightarrow> bytes \<Rightarrow> itemInfo \<Rightarrow> itemInfo field_result" where
  "itemInfo_field L tag p m =
     (if drop_bit 3 tag = 1 then
        (if (ucast tag :: byte) = 8 then handled (ReadVarint32 L p) (\<lambda>v. m\<lparr>itemInfo_itemid := v\<rparr>)
         else Unusual)
      else if drop_bit 3 tag = 2 then
        (if (ucast tag :: byte) = 18 then handled (ReadUtf8 L p) (\<lambda>v. m\<lparr>itemInfo_itemname := v\<rparr>)
         else Unusual)
      else if drop_bit 3 tag = 3 then
        (if (ucast tag :: byte) = 26 then handled (ReadUtf8 L p) (\<lambda>v. m\<lparr>itemInfo_itemdesc := v\<rparr>)
         else Unusual)
      else if drop_bit 3 tag = 4 then
        (if (ucast tag :: byte) = 32 then handled (ReadVarint32 L p) (\<lambda>v. m\<lparr>itemInfo_count := v\<rparr>)
         else Unusual)
      else Unusual)"

definition itemInfo_keep :: "bytes \<Rightarrow> itemInfo \<Rightarrow> itemInfo" where
  "itemInfo_keep raw m = m\<lparr>itemInfo_unknown := itemInfo_unknown m @ raw\<rparr>"

definition itemInfo_parse :: "pb_lib \<Rightarrow> bytes \<Rightarrow> itemInfo option" where
  "itemInfo_parse L p = parse_message L itemInfo_field itemInfo_keep itemInfo_new p"

text \<open>The messages that are read back.\<close>

definition itemInfo_wf :: "pb_lib \<Rightarrow> itemInfo \<Rightarrow> bool" where
  "itemInfo_wf L m \<longleftrightarrow> itemInfo_unknown m = [] \<and>
     itemInfo_ByteSizeLong m < 2 ^ 31 - 16 \<and>
     VerifyUTF8 L (bytes_of_string (itemInfo_itemname m)) \<and>
     VerifyUTF8 L (bytes_of_string (itemInfo_itemdesc m))"

lemma itemInfo_shrinks:
  assumes "pb_lib_ok L"
  shows "field_shrinks L itemInfo_field"
  unfolding field_shrinks_def itemInfo_field_def
  by (auto simp: handled_Handled split: if_splits
      dest: reader_shrinks [OF assms])

lemma itemInfo_itemname_length:
  assumes "itemInfo_wf L m"
  shows "length (itemInfo_itemname m) < 2 ^ 31 - 16"
  using assms LengthDelimitedSize_ge [of "length (itemInfo_itemname m)"]
  by (cases "itemInfo_itemname m = []") (auto simp: itemInfo_wf_def itemInfo_ByteSizeLong_def StringSize_def)

lemma itemInfo_itemdesc_length:
  assumes "itemInfo_wf L m"
  shows "length (itemInfo_itemdesc m) < 2 ^ 31 - 16"
  using assms LengthDelimitedSize_ge [of "length (itemInfo_itemdesc m)"]
  by (cases "itemInfo_itemdesc m = []") (auto simp: itemInfo_wf_def itemInfo_ByteSizeLong_def StringSize_def)

lemma itemInfo_size:
  assumes "pb_lib_ok L" and "itemInfo_wf L m"
  shows "length (itemInfo_InternalSerialize L m) = itemInfo_ByteSizeLong m"
proof -
  have "length (bytes_of_string (itemInfo_itemname m)) < 2 ^ 31" "length (bytes_of_string (itemInfo_itemdesc m)) < 2 ^ 31"
    using itemInfo_itemname_length [OF assms(2)] itemInfo_itemdesc_length [OF assms(2)] by simp_all
  then show ?thesis
    by (simp add: itemInfo_InternalSerialize_def itemInfo_ByteSizeLong_def write_string [OF assms(1)] write_field
        WriteTag_table field_sizes)
qed

abbreviation itemInfo_from :: "pb_lib \<Rightarrow> bytes \<Rightarrow> itemInfo \<Rightarrow> (itemInfo \<times> u32 option) option" where
  "itemInfo_from L p m \<equiv> parse_from L itemInfo_field itemInfo_keep p m"

lemma itemInfo_read_back:
  assumes L: "pb_lib_ok L" and wf: "itemInfo_wf L m"
  shows "itemInfo_parse L (itemInfo_InternalSerialize L m) = Some m"
proof -
  note step = parse_from_field [OF L itemInfo_shrinks [OF L]]
  note w = wf [unfolded itemInfo_wf_def]
  note len = itemInfo_itemname_length [OF wf] itemInfo_itemdesc_length [OF wf]
  let ?m1 = "itemInfo_new\<lparr>itemInfo_itemid := itemInfo_itemid m\<rparr>"
  let ?m2 = "?m1\<lparr>itemInfo_itemname := itemInfo_itemname m\<rparr>"
  let ?m3 = "?m2\<lparr>itemInfo_itemdesc := itemInfo_itemdesc m\<rparr>"
  let ?m4 = "?m3\<lparr>itemInfo_count := itemInfo_count m\<rparr>"
  have 1: "itemInfo_from L ((if itemInfo_itemid m \<noteq> 0 then WriteInt32ToArray 1 (itemInfo_itemid m) else []) @ r) itemInfo_new = itemInfo_from L r ?m1" for r
  proof (cases "itemInfo_itemid m \<noteq> 0")
    case True
    have "itemInfo_field L (ucast (8 :: byte)) (WriteVarint32SignExtendedToArray (itemInfo_itemid m) @ r) itemInfo_new = Handled ?m1 r"
      using w True by (simp add: itemInfo_field_def ReadVarint32_int32 [OF L] itemInfo_new_def)
    then have "itemInfo_from L (8 # WriteVarint32SignExtendedToArray (itemInfo_itemid m) @ r) itemInfo_new = itemInfo_from L r ?m1"
      by (intro step) simp_all
    then show ?thesis using True by (simp add: write_field WriteTag_table)
  next
    case False
    then show ?thesis using w by (simp add: itemInfo_new_def)
  qed
  have 2: "itemInfo_from L ((if itemInfo_itemname m \<noteq> [] then WriteStringMaybeAliased L 2 (bytes_of_string (itemInfo_itemname m)) else []) @ r) ?m1 = itemInfo_from L r ?m2" for r
  proof (cases "itemInfo_itemname m \<noteq> []")
    case True
    have "itemInfo_field L (ucast (18 :: byte)) (length_prefixed (bytes_of_string (itemInfo_itemname m)) @ r) ?m1 = Handled ?m2 r"
      using w len True by (simp add: itemInfo_field_def ReadUtf8_string [OF L] itemInfo_new_def)
    then have "itemInfo_from L (18 # length_prefixed (bytes_of_string (itemInfo_itemname m)) @ r) ?m1 = itemInfo_from L r ?m2"
      by (intro step) simp_all
    then show ?thesis using True len by (simp add: write_string [OF L])
  next
    case False
    then show ?thesis using w by (simp add: itemInfo_new_def)
  qed
  have 3: "itemInfo_from L ((if itemInfo_itemdesc m \<noteq> [] then WriteStringMaybeAliased L 3 (bytes_of_string (itemInfo_itemdesc m)) else []) @ r) ?m2 = itemInfo_from L r ?m3" for r
  proof (cases "itemInfo_itemdesc m \<noteq> []")
    case True
    have "itemInfo_field L (ucast (26 :: byte)) (length_prefixed (bytes_of_string (itemInfo_itemdesc m)) @ r) ?m2 = Handled ?m3 r"
      using w len True by (simp add: itemInfo_field_def ReadUtf8_string [OF L] itemInfo_new_def)
    then have "itemInfo_from L (26 # length_prefixed (bytes_of_string (itemInfo_itemdesc m)) @ r) ?m2 = itemInfo_from L r ?m3"
      by (intro step) simp_all
    then show ?thesis using True len by (simp add: write_string [OF L])
  next
    case False
    then show ?thesis using w by (simp add: itemInfo_new_def)
  qed
  have 4: "itemInfo_from L ((if itemInfo_count m \<noteq> 0 then WriteUInt32ToArray 4 (itemInfo_count m) else []) @ r) ?m3 = itemInfo_from L r ?m4" for r
  proof (cases "itemInfo_count m \<noteq> 0")
    case True
    have "itemInfo_field L (ucast (32 :: byte)) (WriteVarint32ToArray (itemInfo_count m) @ r) ?m3 = Handled ?m4 r"
      using w True by (simp add: itemInfo_field_def ReadVarint32_uint32 [OF L] itemInfo_new_def)
    then have "itemInfo_from L (32 # WriteVarint32ToArray (itemInfo_count m) @ r) ?m3 = itemInfo_from L r ?m4"
      by (intro step) simp_all
    then show ?thesis using True by (simp add: write_field WriteTag_table)
  next
    case False
    then show ?thesis using w by (simp add: itemInfo_new_def)
  qed
  have "?m4 = m"
    using w by (intro itemInfo.equality) (simp_all add: itemInfo_new_def)
  then show ?thesis
    using w 4 [of "[]"] unfolding itemInfo_parse_def parse_message_from itemInfo_InternalSerialize_def 1 2 3 4
    by simp
qed

interpretation itemInfo_codec: codec itemInfo_ByteSizeLong itemInfo_InternalSerialize itemInfo_parse itemInfo_wf
  by unfold_locales (simp_all add: itemInfo_size itemInfo_read_back itemInfo_wf_def)

section \<open>resInventoryItems\<close>

text \<open>The inventory sent to a client.\<close>

record resInventoryItems =
  resInventoryItems_items :: "itemInfo list"
  resInventoryItems_unknown :: bytes

definition resInventoryItems_new :: resInventoryItems where
  "resInventoryItems_new = \<lparr>resInventoryItems_items = [], resInventoryItems_unknown = []\<rparr>"

definition resInventoryItems_add_items :: "itemInfo \<Rightarrow> resInventoryItems \<Rightarrow> resInventoryItems" where
  "resInventoryItems_add_items v m = m\<lparr>resInventoryItems_items := resInventoryItems_items m @ [v]\<rparr>"

definition resInventoryItems_clear_items :: "resInventoryItems \<Rightarrow> resInventoryItems" where
  "resInventoryItems_clear_items m = m\<lparr>resInventoryItems_items := []\<rparr>"

definition resInventoryItems_Clear :: "resInventoryItems \<Rightarrow> resInventoryItems" where
  "resInventoryItems_Clear m = m\<lparr>resInventoryItems_items := [], resInventoryItems_unknown := []\<rparr>"

definition resInventoryItems_MergeImpl :: "resInventoryItems \<Rightarrow> resInventoryItems \<Rightarrow> resInventoryItems" where
  "resInventoryItems_MergeImpl this from =
     (let m1 = this\<lparr>resInventoryItems_items := resInventoryItems_items this @ resInventoryItems_items from\<rparr>
      in m1\<lparr>resInventoryItems_unknown := resInventoryItems_unknown m1 @ resInventoryItems_unknown from\<rparr>)"

definition resInventoryItems_CopyFrom :: "resInventoryItems \<Rightarrow> resInventoryItems \<Rightarrow> resInventoryItems" where
  "resInventoryItems_CopyFrom this from = resInventoryItems_MergeImpl (resInventoryItems_Clear this) from"

definition resInventoryItems_ByteSizeLong :: "resInventoryItems \<Rightarrow> nat" where
  "resInventoryItems_ByteSizeLong m =
     length (resInventoryItems_items m) + sum_list (map (\<lambda>x. LengthDelimitedSize (itemInfo_ByteSizeLong x)) (resInventoryItems_items m)) + length (resInventoryItems_unknown m)"

definition resInventoryItems_InternalSerialize :: "pb_lib \<Rightarrow> resInventoryItems \<Rightarrow> bytes" where
  "resInventoryItems_InternalSerialize L m =
     concat (map (\<lambda>x. InternalWriteMessage L 1 (itemInfo_ByteSizeLong x) (itemInfo_InternalSerialize L x)) (resInventoryItems_items m)) @
     resInventoryItems_unknown m"

definition resInventoryItems_field :: "pb_lib \<Rightarrow> u32 \<Rightarrow> bytes \<Rightarrow> resInventoryItems \<Rightarrow> resInventoryItems field_result" where
  "resInventoryItems_field L tag p m =
     (if drop_bit 3 tag = 1 then
        (if (ucast tag :: byte) = 10 then repeated_loop (Suc (length p)) 10 (ParseMessage L (itemInfo_parse L)) resInventoryItems_add_items p m
         else Unusual)
      else Unusual)"

definition resInventoryItems_keep :: "bytes \<Rightarrow> resInventoryItems \<Rightarrow> resInventoryItems" where
  "resInventoryItems_keep raw m = m\<lparr>resInventoryItems_unknown := resInventoryItems_unknown m @ raw\<rparr>"

definition resInventoryItems_parse :: "pb_lib \<Rightarrow> bytes \<Rightarrow> resInventoryItems option" where
  "resInventoryItems_parse L p = parse_message L resInventoryItems_field resInventoryItems_keep resInventoryItems_new p"

text \<open>The messages that are read back.\<close>

definition resInventoryItems_wf :: "pb_lib \<Rightarrow> resInventoryItems \<Rightarrow> bool" where
  "resInventoryItems_wf L m \<longleftrightarrow> resInventoryItems_unknown m = [] \<and>
     resInventoryItems_ByteSizeLong m < 2 ^ 31 - 16 \<and>
     (\<forall>x \<in> set (resInventoryItems_items m). itemInfo_wf L x)"

lemma resInventoryItems_shrinks:
  assumes "pb_lib_ok L"
  shows "field_shrinks L resInventoryItems_field"
  unfolding field_shrinks_def resInventoryItems_field_def
  by (auto simp: handled_Handled simp del: repeated_loop.simps split: if_splits
      dest: reader_shrinks [OF assms] repeated_message_shrinks [OF assms])

lemma resInventoryItems_element:
  assumes "pb_lib_ok L" and "itemInfo_wf L x"
  shows "InternalWriteMessage L 1 (itemInfo_ByteSizeLong x) (itemInfo_InternalSerialize L x) =
     10 # WriteVarint32ToArray (of_nat (itemInfo_ByteSizeLong x)) @ itemInfo_InternalSerialize L x"
  by (simp add: pb_lib_nested(2) [OF assms(1)] WriteTag_table)

lemma resInventoryItems_size:
  assumes "pb_lib_ok L" and "resInventoryItems_wf L m"
  shows "length (resInventoryItems_InternalSerialize L m) = resInventoryItems_ByteSizeLong m"
proof -
  have "length (concat (map (\<lambda>x. InternalWriteMessage L 1 (itemInfo_ByteSizeLong x) (itemInfo_InternalSerialize L x)) xs)) =
      length xs + sum_list (map (\<lambda>x. LengthDelimitedSize (itemInfo_ByteSizeLong x)) xs)"
    if "\<forall>x \<in> set xs. itemInfo_wf L x" for xs
    using that
  proof (induction xs)
    case (Cons x xs)
    then have "length (itemInfo_InternalSerialize L x) = itemInfo_ByteSizeLong x"
      using itemInfo_size [OF assms(1)] by simp
    with Cons show ?case
      by (simp add: resInventoryItems_element [OF assms(1)] LengthDelimitedSize_def VarintSize32_eq WriteVarint32ToArray_def)
  qed simp
  then show ?thesis
    using assms(2) by (simp add: resInventoryItems_InternalSerialize_def resInventoryItems_ByteSizeLong_def resInventoryItems_wf_def)
qed

abbreviation resInventoryItems_from :: "pb_lib \<Rightarrow> bytes \<Rightarrow> resInventoryItems \<Rightarrow> (resInventoryItems \<times> u32 option) option" where
  "resInventoryItems_from L p m \<equiv> parse_from L resInventoryItems_field resInventoryItems_keep p m"

lemma resInventoryItems_add_fold:
  "fold resInventoryItems_add_items xs m = m\<lparr>resInventoryItems_items := resInventoryItems_items m @ xs\<rparr>"
  by (induction xs arbitrary: m) (simp_all add: resInventoryItems_add_items_def)

lemma resInventoryItems_read_back:
  assumes L: "pb_lib_ok L" and wf: "resInventoryItems_wf L m"
  shows "resInventoryItems_parse L (resInventoryItems_InternalSerialize L m) = Some m"
proof (cases "resInventoryItems_items m")
  case Nil
  then have "m = resInventoryItems_new"
    using wf by (intro resInventoryItems.equality) (simp_all add: resInventoryItems_wf_def resInventoryItems_new_def)
  then show ?thesis
    by (simp add: resInventoryItems_parse_def parse_message_from resInventoryItems_InternalSerialize_def resInventoryItems_new_def)
next
  case (Cons x xs)
  let ?enc = "\<lambda>y. WriteVarint32ToArray (of_nat (itemInfo_ByteSizeLong y)) @ itemInfo_InternalSerialize L y"
  have elem: "\<forall>y \<in> set (x # xs). itemInfo_wf L y" using wf Cons by (simp add: resInventoryItems_wf_def)
  have "ParseMessage L (itemInfo_parse L) (?enc y @ r) = Some (r, y)" if "y \<in> set (x # xs)" for y r
  proof -
    have w: "itemInfo_wf L y" using elem that by blast
    have "length (itemInfo_InternalSerialize L y) = itemInfo_ByteSizeLong y" using itemInfo_size [OF L w] .
    moreover have "itemInfo_ByteSizeLong y < 2 ^ 31 - 16" using w by (simp add: itemInfo_wf_def)
    ultimately show ?thesis
      using ParseMessage_nested [OF L, of "itemInfo_InternalSerialize L y" "itemInfo_parse L" y r] itemInfo_read_back [OF L w] by simp
  qed
  then have rd: "\<forall>y \<in> set (x # xs). \<forall>r. ParseMessage L (itemInfo_parse L) (?enc y @ r) = Some (r, y)" by blast
  have ser: "resInventoryItems_InternalSerialize L m = 10 # ?enc x @ concat (map (\<lambda>y. 10 # ?enc y) xs)"
  proof -
    have "map (\<lambda>y. InternalWriteMessage L 1 (itemInfo_ByteSizeLong y) (itemInfo_InternalSerialize L y)) xs = map (\<lambda>y. 10 # ?enc y) xs"
      using elem by (simp add: resInventoryItems_element [OF L])
    note map_eq = this
    show ?thesis
      using wf Cons elem by (simp add: resInventoryItems_InternalSerialize_def resInventoryItems_wf_def resInventoryItems_element [OF L] map_eq)
  qed
  let ?p = "?enc x @ concat (map (\<lambda>y. 10 # ?enc y) xs)"
  have "length xs \<le> length (concat (map (\<lambda>y. 10 # ?enc y) xs))"
    by (induction xs) simp_all
  then have len: "length xs < Suc (length ?p)" by simp
  have "resInventoryItems_field L (ucast (10 :: byte)) ?p resInventoryItems_new = Handled (fold resInventoryItems_add_items (x # xs) resInventoryItems_new) []"
    using repeated_loop_all [OF rd len, of "10" resInventoryItems_add_items resInventoryItems_new] by (simp add: resInventoryItems_field_def)
  then have "resInventoryItems_from L (10 # ?p) resInventoryItems_new = resInventoryItems_from L [] (fold resInventoryItems_add_items (x # xs) resInventoryItems_new)"
    by (intro parse_from_field [OF L resInventoryItems_shrinks [OF L]]) (simp_all only:, simp)
  then have "resInventoryItems_from L (10 # ?p) resInventoryItems_new = Some (fold resInventoryItems_add_items (x # xs) resInventoryItems_new, None)"
    by (simp only: parse_from_Nil)
  moreover have "fold resInventoryItems_add_items (x # xs) resInventoryItems_new = m"
    using wf Cons unfolding resInventoryItems_add_fold
    by (intro resInventoryItems.equality) (simp_all add: resInventoryItems_wf_def resInventoryItems_new_def)
  ultimately show ?thesis
    by (simp add: resInventoryItems_parse_def parse_message_from ser)
qed

interpretation resInventoryItems_codec: codec resInventoryItems_ByteSizeLong resInventoryItems_InternalSerialize resInventoryItems_parse resInventoryItems_wf
  by unfold_locales (simp_all add: resInventoryItems_size resInventoryItems_read_back resInventoryItems_wf_def)

section \<open>shopItem\<close>

text \<open>An item on sale.\<close>

record shopItem =
  shopItem_itemid :: int32
  shopItem_itemname :: string
  shopItem_itemdesc :: string
  shopItem_itemcount :: int32
  shopItem_unknown :: bytes

definition shopItem_new :: shopItem where
  "shopItem_new = \<lparr>shopItem_itemid = 0, shopItem_itemname = [], shopItem_itemdesc = [], shopItem_itemcount = 0, shopItem_unknown = []\<rparr>"

definition shopItem_clear_itemid :: "shopItem \<Rightarrow> shopItem" where
  "shopItem_clear_itemid m = m\<lparr>shopItem_itemid := 0\<rparr>"

definition shopItem_set_itemid :: "int32 \<Rightarrow> shopItem \<Rightarrow> shopItem" where
  "shopItem_set_itemid v m = m\<lparr>shopItem_itemid := v\<rparr>"

definition shopItem_clear_itemname :: "shopItem \<Rightarrow> shopItem" where
  "shopItem_clear_itemname m = m\<lparr>shopItem_itemname := []\<rparr>"

definition shopItem_set_itemname :: "string \<Rightarrow> shopItem \<Rightarrow> shopItem" where
  "shopItem_set_itemname v m = m\<lparr>shopItem_itemname := v\<rparr>"

definition shopItem_clear_itemdesc :: "shopItem \<Rightarrow> shopItem" where
  "shopItem_clear_itemdesc m = m\<lparr>shopItem_itemdesc := []\<rparr>"

definition shopItem_set_itemdesc :: "string \<Rightarrow> shopItem \<Rightarrow> shopItem" where
  "shopItem_set_itemdesc v m = m\<lparr>shopItem_itemdesc := v\<rparr>"

definition shopItem_clear_itemcount :: "shopItem \<Rightarrow> shopItem" where
  "shopItem_clear_itemcount m = m\<lparr>shopItem_itemcount := 0\<rparr>"

definition shopItem_set_itemcount :: "int32 \<Rightarrow> shopItem \<Rightarrow> shopItem" where
  "shopItem_set_itemcount v m = m\<lparr>shopItem_itemcount := v\<rparr>"

definition shopItem_Clear :: "shopItem \<Rightarrow> shopItem" where
  "shopItem_Clear m = m\<lparr>shopItem_itemid := 0, shopItem_itemname := [], shopItem_itemdesc := [], shopItem_itemcount := 0, shopItem_unknown := []\<rparr>"

definition shopItem_MergeImpl :: "shopItem \<Rightarrow> shopItem \<Rightarrow> shopItem" where
  "shopItem_MergeImpl this from =
     (let m1 = (if shopItem_itemname from \<noteq> [] then shopItem_set_itemname (shopItem_itemname from) this else this);
          m2 = (if shopItem_itemdesc from \<noteq> [] then shopItem_set_itemdesc (shopItem_itemdesc from) m1 else m1);
          m3 = (if shopItem_itemid from \<noteq> 0 then shopItem_set_itemid (shopItem_itemid from) m2 else m2);
          m4 = (if shopItem_itemcount from \<noteq> 0 then shopItem_set_itemcount (shopItem_itemcount from) m3 else m3)
      in m4\<lparr>shopItem_unknown := shopItem_unknown m4 @ shopItem_unknown from\<rparr>)"

definition shopItem_CopyFrom :: "shopItem \<Rightarrow> shopItem \<Rightarrow> shopItem" where
  "shopItem_CopyFrom this from = shopItem_MergeImpl (shopItem_Clear this) from"

definition shopItem_ByteSizeLong :: "shopItem \<Rightarrow> nat" where
  "shopItem_ByteSizeLong m =
     (if shopItem_itemname m \<noteq> [] then 1 + StringSize (bytes_of_string (shopItem_itemname m)) else 0) +
     (if shopItem_itemdesc m \<noteq> [] then 1 + StringSize (bytes_of_string (shopItem_itemdesc m)) else 0) +
     (if shopItem_itemid m \<noteq> 0 then Int32SizePlusOne (shopItem_itemid m) else 0) +
     (if shopItem_itemcount m \<noteq> 0 then Int32SizePlusOne (shopItem_itemcount m) else 0) + length (shopItem_unknown m)"

definition shopItem_InternalSerialize :: "pb_lib \<Rightarrow> shopItem \<Rightarrow> bytes" where
  "shopItem_InternalSerialize L m =
     (if shopItem_itemid m \<noteq> 0 then WriteInt32ToArray 1 (shopItem_itemid m) else []) @
     (if shopItem_itemname m \<noteq> [] then WriteStringMaybeAliased L 2 (bytes_of_string (shopItem_itemname m)) else []) @
     (if shopItem_itemdesc m \<noteq> [] then WriteStringMaybeAliased L 3 (bytes_of_string (shopItem_itemdesc m)) else []) @
     (if shopItem_itemcount m \<noteq> 0 then WriteInt32ToArray 4 (shopItem_itemcount m) else []) @
     shopItem_unknown m"

definition shopItem_field :: "pb_lib \<Rightarrow> u32 \<Rightarrow> bytes \<Rightarrow> shopItem \<Rightarrow> shopItem field_result" where
  "shopItem_field L tag p m =
     (if drop_bit 3 tag = 1 then
        (if (ucast tag :: byte) = 8 then handled (ReadVarint32 L p) (\<lambda>v. m\<lparr>shopItem_itemid := v\<rparr>)
         else Unusual)
      else if drop_bit 3 tag = 2 then
        (if (ucast tag :: byte) = 18 then handled (ReadUtf8 L p) (\<lambda>v. m\<lparr>shopItem_itemname := v\<rparr>)
         else Unusual)
      else if drop_bit 3 tag = 3 then
        (if (ucast tag :: byte) = 26 then handled (ReadUtf8 L p) (\<lambda>v. m\<lparr>shopItem_itemdesc := v\<rparr>)
         else Unusual)
      else if drop_bit 3 tag = 4 then
        (if (ucast tag :: byte) = 32 then handled (ReadVarint32 L p) (\<lambda>v. m\<lparr>shopItem_itemcount := v\<rparr>)
         else Unusual)
      else Unusual)"

definition shopItem_keep :: "bytes \<Rightarrow> shopItem \<Rightarrow> shopItem" where
  "shopItem_keep raw m = m\<lparr>shopItem_unknown := shopItem_unknown m @ raw\<rparr>"

definition shopItem_parse :: "pb_lib \<Rightarrow> bytes \<Rightarrow> shopItem option" where
  "shopItem_parse L p = parse_message L shopItem_field shopItem_keep shopItem_new p"

text \<open>The messages that are read back.\<close>

definition shopItem_wf :: "pb_lib \<Rightarrow> shopItem \<Rightarrow> bool" where
  "shopItem_wf L m \<longleftrightarrow> shopItem_unknown m = [] \<and>
     shopItem_ByteSizeLong m < 2 ^ 31 - 16 \<and>
     VerifyUTF8 L (bytes_of_string (shopItem_itemname m)) \<and>
     VerifyUTF8 L (bytes_of_string (shopItem_itemdesc m))"

lemma shopItem_shrinks:
  assumes "pb_lib_ok L"
  shows "field_shrinks L shopItem_field"
  unfolding field_shrinks_def shopItem_field_def
  by (auto simp: handled_Handled split: if_splits
      dest: reader_shrinks [OF assms])

lemma shopItem_itemname_length:
  assumes "shopItem_wf L m"
  shows "length (shopItem_itemname m) < 2 ^ 31 - 16"
  using assms LengthDelimitedSize_ge [of "length (shopItem_itemname m)"]
  by (cases "shopItem_itemname m = []") (auto simp: shopItem_wf_def shopItem_ByteSizeLong_def StringSize_def)

lemma shopItem_itemdesc_length:
  assumes "shopItem_wf L m"
  shows "length (shopItem_itemdesc m) < 2 ^ 31 - 16"
  using assms LengthDelimitedSize_ge [of "length (shopItem_itemdesc m)"]
  by (cases "shopItem_itemdesc m = []") (auto simp: shopItem_wf_def shopItem_ByteSizeLong_def StringSize_def)

lemma shopItem_size:
  assumes "pb_lib_ok L" and "shopItem_wf L m"
  shows "length (shopItem_InternalSerialize L m) = shopItem_ByteSizeLong m"
proof -
  have "length (bytes_of_string (shopItem_itemname m)) < 2 ^ 31" "length (bytes_of_string (shopItem_itemdesc m)) < 2 ^ 31"
    using shopItem_itemname_length [OF assms(2)] shopItem_itemdesc_length [OF assms(2)] by simp_all
  then show ?thesis
    by (simp add: shopItem_InternalSerialize_def shopItem_ByteSizeLong_def write_string [OF assms(1)] write_field
        WriteTag_table field_sizes)
qed

abbreviation shopItem_from :: "pb_lib \<Rightarrow> bytes \<Rightarrow> shopItem \<Rightarrow> (shopItem \<times> u32 option) option" where
  "shopItem_from L p m \<equiv> parse_from L shopItem_field shopItem_keep p m"

lemma shopItem_read_back:
  assumes L: "pb_lib_ok L" and wf: "shopItem_wf L m"
  shows "shopItem_parse L (shopItem_InternalSerialize L m) = Some m"
proof -
  note step = parse_from_field [OF L shopItem_shrinks [OF L]]
  note w = wf [unfolded shopItem_wf_def]
  note len = shopItem_itemname_length [OF wf] shopItem_itemdesc_length [OF wf]
  let ?m1 = "shopItem_new\<lparr>shopItem_itemid := shopItem_itemid m\<rparr>"
  let ?m2 = "?m1\<lparr>shopItem_itemname := shopItem_itemname m\<rparr>"
  let ?m3 = "?m2\<lparr>shopItem_itemdesc := shopItem_itemdesc m\<rparr>"
  let ?m4 = "?m3\<lparr>shopItem_itemcount := shopItem_itemcount m\<rparr>"
  have 1: "shopItem_from L ((if shopItem_itemid m \<noteq> 0 then WriteInt32ToArray 1 (shopItem_itemid m) else []) @ r) shopItem_new = shopItem_from L r ?m1" for r
  proof (cases "shopItem_itemid m \<noteq> 0")
    case True
    have "shopItem_field L (ucast (8 :: byte)) (WriteVarint32SignExtendedToArray (shopItem_itemid m) @ r) shopItem_new = Handled ?m1 r"
      using w True by (simp add: shopItem_field_def ReadVarint32_int32 [OF L] shopItem_new_def)
    then have "shopItem_from L (8 # WriteVarint32SignExtendedToArray (shopItem_itemid m) @ r) shopItem_new = shopItem_from L r ?m1"
      by (intro step) simp_all
    then show ?thesis using True by (simp add: write_field WriteTag_table)
  next
    case False
    then show ?thesis using w by (simp add: shopItem_new_def)
  qed
  have 2: "shopItem_from L ((if shopItem_itemname m \<noteq> [] then WriteStringMaybeAliased L 2 (bytes_of_string (shopItem_itemname m)) else []) @ r) ?m1 = shopItem_from L r ?m2" for r
  proof (cases "shopItem_itemname m \<noteq> []")
    case True
    have "shopItem_field L (ucast (18 :: byte)) (length_prefixed (bytes_of_string (shopItem_itemname m)) @ r) ?m1 = Handled ?m2 r"
      using w len True by (simp add: shopItem_field_def ReadUtf8_string [OF L] shopItem_new_def)
    then have "shopItem_from L (18 # length_prefixed (bytes_of_string (shopItem_itemname m)) @ r) ?m1 = shopItem_from L r ?m2"
      by (intro step) simp_all
    then show ?thesis using True len by (simp add: write_string [OF L])
  next
    case False
    then show ?thesis using w by (simp add: shopItem_new_def)
  qed
  have 3: "shopItem_from L ((if shopItem_itemdesc m \<noteq> [] then WriteStringMaybeAliased L 3 (bytes_of_string (shopItem_itemdesc m)) else []) @ r) ?m2 = shopItem_from L r ?m3" for r
  proof (cases "shopItem_itemdesc m \<noteq> []")
    case True
    have "shopItem_field L (ucast (26 :: byte)) (length_prefixed (bytes_of_string (shopItem_itemdesc m)) @ r) ?m2 = Handled ?m3 r"
      using w len True by (simp add: shopItem_field_def ReadUtf8_string [OF L] shopItem_new_def)
    then have "shopItem_from L (26 # length_prefixed (bytes_of_string (shopItem_itemdesc m)) @ r) ?m2 = shopItem_from L r ?m3"
      by (intro step) simp_all
    then show ?thesis using True len by (simp add: write_string [OF L])
  next
    case False
    then show ?thesis using w by (simp add: shopItem_new_def)
  qed
  have 4: "shopItem_from L ((if shopItem_itemcount m \<noteq> 0 then WriteInt32ToArray 4 (shopItem_itemcount m) else []) @ r) ?m3 = shopItem_from L r ?m4" for r
  proof (cases "shopItem_itemcount m \<noteq> 0")
    case True
    have "shopItem_field L (ucast (32 :: byte)) (WriteVarint32SignExtendedToArray (shopItem_itemcount m) @ r) ?m3 = Handled ?m4 r"
      using w True by (simp add: shopItem_field_def ReadVarint32_int32 [OF L] shopItem_new_def)
    then have "shopItem_from L (32 # WriteVarint32SignExtendedToArray (shopItem_itemcount m) @ r) ?m3 = shopItem_from L r ?m4"
      by (intro step) simp_all
    then show ?thesis using True by (simp add: write_field WriteTag_table)
  next
    case False
    then show ?thesis using w by (simp add: shopItem_new_def)
  qed
  have "?m4 = m"
    using w by (intro shopItem.equality) (simp_all add: shopItem_new_def)
  then show ?thesis
    using w 4 [of "[]"] unfolding shopItem_parse_def parse_message_from shopItem_InternalSerialize_def 1 2 3 4
    by simp
qed

interpretation shopItem_codec: codec shopItem_ByteSizeLong shopItem_InternalSerialize shopItem_parse shopItem_wf
  by unfold_locales (simp_all add: shopItem_size shopItem_read_back shopItem_wf_def)

section \<open>resShopItemList\<close>

text \<open>The list on sale.\<close>

record resShopItemList =
  resShopItemList_items :: "shopItem list"
  resShopItemList_unknown :: bytes

definition resShopItemList_new :: resShopItemList where
  "resShopItemList_new = \<lparr>resShopItemList_items = [], resShopItemList_unknown = []\<rparr>"

definition resShopItemList_add_items :: "shopItem \<Rightarrow> resShopItemList \<Rightarrow> resShopItemList" where
  "resShopItemList_add_items v m = m\<lparr>resShopItemList_items := resShopItemList_items m @ [v]\<rparr>"

definition resShopItemList_clear_items :: "resShopItemList \<Rightarrow> resShopItemList" where
  "resShopItemList_clear_items m = m\<lparr>resShopItemList_items := []\<rparr>"

definition resShopItemList_Clear :: "resShopItemList \<Rightarrow> resShopItemList" where
  "resShopItemList_Clear m = m\<lparr>resShopItemList_items := [], resShopItemList_unknown := []\<rparr>"

definition resShopItemList_MergeImpl :: "resShopItemList \<Rightarrow> resShopItemList \<Rightarrow> resShopItemList" where
  "resShopItemList_MergeImpl this from =
     (let m1 = this\<lparr>resShopItemList_items := resShopItemList_items this @ resShopItemList_items from\<rparr>
      in m1\<lparr>resShopItemList_unknown := resShopItemList_unknown m1 @ resShopItemList_unknown from\<rparr>)"

definition resShopItemList_CopyFrom :: "resShopItemList \<Rightarrow> resShopItemList \<Rightarrow> resShopItemList" where
  "resShopItemList_CopyFrom this from = resShopItemList_MergeImpl (resShopItemList_Clear this) from"

definition resShopItemList_ByteSizeLong :: "resShopItemList \<Rightarrow> nat" where
  "resShopItemList_ByteSizeLong m =
     length (resShopItemList_items m) + sum_list (map (\<lambda>x. LengthDelimitedSize (shopItem_ByteSizeLong x)) (resShopItemList_items m)) + length (resShopItemList_unknown m)"

definition resShopItemList_InternalSerialize :: "pb_lib \<Rightarrow> resShopItemList \<Rightarrow> bytes" where
  "resShopItemList_InternalSerialize L m =
     concat (map (\<lambda>x. InternalWriteMessage L 1 (shopItem_ByteSizeLong x) (shopItem_InternalSerialize L x)) (resShopItemList_items m)) @
     resShopItemList_unknown m"

definition resShopItemList_field :: "pb_lib \<Rightarrow> u32 \<Rightarrow> bytes \<Rightarrow> resShopItemList \<Rightarrow> resShopItemList field_result" where
  "resShopItemList_field L tag p m =
     (if drop_bit 3 tag = 1 then
        (if (ucast tag :: byte) = 10 then repeated_loop (Suc (length p)) 10 (ParseMessage L (shopItem_parse L)) resShopItemList_add_items p m
         else Unusual)
      else Unusual)"

definition resShopItemList_keep :: "bytes \<Rightarrow> resShopItemList \<Rightarrow> resShopItemList" where
  "resShopItemList_keep raw m = m\<lparr>resShopItemList_unknown := resShopItemList_unknown m @ raw\<rparr>"

definition resShopItemList_parse :: "pb_lib \<Rightarrow> bytes \<Rightarrow> resShopItemList option" where
  "resShopItemList_parse L p = parse_message L resShopItemList_field resShopItemList_keep resShopItemList_new p"

text \<open>The messages that are read back.\<close>

definition resShopItemList_wf :: "pb_lib \<Rightarrow> resShopItemList \<Rightarrow> bool" where
  "resShopItemList_wf L m \<longleftrightarrow> resShopItemList_unknown m = [] \<and>
     resShopItemList_ByteSizeLong m < 2 ^ 31 - 16 \<and>
     (\<forall>x \<in> set (resShopItemList_items m). shopItem_wf L x)"

lemma resShopItemList_shrinks:
  assumes "pb_lib_ok L"
  shows "field_shrinks L resShopItemList_field"
  unfolding field_shrinks_def resShopItemList_field_def
  by (auto simp: handled_Handled simp del: repeated_loop.simps split: if_splits
      dest: reader_shrinks [OF assms] repeated_message_shrinks [OF assms])

lemma resShopItemList_element:
  assumes "pb_lib_ok L" and "shopItem_wf L x"
  shows "InternalWriteMessage L 1 (shopItem_ByteSizeLong x) (shopItem_InternalSerialize L x) =
     10 # WriteVarint32ToArray (of_nat (shopItem_ByteSizeLong x)) @ shopItem_InternalSerialize L x"
  by (simp add: pb_lib_nested(2) [OF assms(1)] WriteTag_table)

lemma resShopItemList_size:
  assumes "pb_lib_ok L" and "resShopItemList_wf L m"
  shows "length (resShopItemList_InternalSerialize L m) = resShopItemList_ByteSizeLong m"
proof -
  have "length (concat (map (\<lambda>x. InternalWriteMessage L 1 (shopItem_ByteSizeLong x) (shopItem_InternalSerialize L x)) xs)) =
      length xs + sum_list (map (\<lambda>x. LengthDelimitedSize (shopItem_ByteSizeLong x)) xs)"
    if "\<forall>x \<in> set xs. shopItem_wf L x" for xs
    using that
  proof (induction xs)
    case (Cons x xs)
    then have "length (shopItem_InternalSerialize L x) = shopItem_ByteSizeLong x"
      using shopItem_size [OF assms(1)] by simp
    with Cons show ?case
      by (simp add: resShopItemList_element [OF assms(1)] LengthDelimitedSize_def VarintSize32_eq WriteVarint32ToArray_def)
  qed simp
  then show ?thesis
    using assms(2) by (simp add: resShopItemList_InternalSerialize_def resShopItemList_ByteSizeLong_def resShopItemList_wf_def)
qed

abbreviation resShopItemList_from :: "pb_lib \<Rightarrow> bytes \<Rightarrow> resShopItemList \<Rightarrow> (resShopItemList \<times> u32 option) option" where
  "resShopItemList_from L p m \<equiv> parse_from L resShopItemList_field resShopItemList_keep p m"

lemma resShopItemList_add_fold:
  "fold resShopItemList_add_items xs m = m\<lparr>resShopItemList_items := resShopItemList_items m @ xs\<rparr>"
  by (induction xs arbitrary: m) (simp_all add: resShopItemList_add_items_def)

lemma resShopItemList_read_back:
  assumes L: "pb_lib_ok L" and wf: "resShopItemList_wf L m"
  shows "resShopItemList_parse L (resShopItemList_InternalSerialize L m) = Some m"
proof (cases "resShopItemList_items m")
  case Nil
  then have "m = resShopItemList_new"
    using wf by (intro resShopItemList.equality) (simp_all add: resShopItemList_wf_def resShopItemList_new_def)
  then show ?thesis
    by (simp add: resShopItemList_parse_def parse_message_from resShopItemList_InternalSerialize_def resShopItemList_new_def)
next
  case (Cons x xs)
  let ?enc = "\<lambda>y. WriteVarint32ToArray (of_nat (shopItem_ByteSizeLong y)) @ shopItem_InternalSerialize L y"
  have elem: "\<forall>y \<in> set (x # xs). shopItem_wf L y" using wf Cons by (simp add: resShopItemList_wf_def)
  have "ParseMessage L (shopItem_parse L) (?enc y @ r) = Some (r, y)" if "y \<in> set (x # xs)" for y r
  proof -
    have w: "shopItem_wf L y" using elem that by blast
    have "length (shopItem_InternalSerialize L y) = shopItem_ByteSizeLong y" using shopItem_size [OF L w] .
    moreover have "shopItem_ByteSizeLong y < 2 ^ 31 - 16" using w by (simp add: shopItem_wf_def)
    ultimately show ?thesis
      using ParseMessage_nested [OF L, of "shopItem_InternalSerialize L y" "shopItem_parse L" y r] shopItem_read_back [OF L w] by simp
  qed
  then have rd: "\<forall>y \<in> set (x # xs). \<forall>r. ParseMessage L (shopItem_parse L) (?enc y @ r) = Some (r, y)" by blast
  have ser: "resShopItemList_InternalSerialize L m = 10 # ?enc x @ concat (map (\<lambda>y. 10 # ?enc y) xs)"
  proof -
    have "map (\<lambda>y. InternalWriteMessage L 1 (shopItem_ByteSizeLong y) (shopItem_InternalSerialize L y)) xs = map (\<lambda>y. 10 # ?enc y) xs"
      using elem by (simp add: resShopItemList_element [OF L])
    note map_eq = this
    show ?thesis
      using wf Cons elem by (simp add: resShopItemList_InternalSerialize_def resShopItemList_wf_def resShopItemList_element [OF L] map_eq)
  qed
  let ?p = "?enc x @ concat (map (\<lambda>y. 10 # ?enc y) xs)"
  have "length xs \<le> length (concat (map (\<lambda>y. 10 # ?enc y) xs))"
    by (induction xs) simp_all
  then have len: "length xs < Suc (length ?p)" by simp
  have "resShopItemList_field L (ucast (10 :: byte)) ?p resShopItemList_new = Handled (fold resShopItemList_add_items (x # xs) resShopItemList_new) []"
    using repeated_loop_all [OF rd len, of "10" resShopItemList_add_items resShopItemList_new] by (simp add: resShopItemList_field_def)
  then have "resShopItemList_from L (10 # ?p) resShopItemList_new = resShopItemList_from L [] (fold resShopItemList_add_items (x # xs) resShopItemList_new)"
    by (intro parse_from_field [OF L resShopItemList_shrinks [OF L]]) (simp_all only:, simp)
  then have "resShopItemList_from L (10 # ?p) resShopItemList_new = Some (fold resShopItemList_add_items (x # xs) resShopItemList_new, None)"
    by (simp only: parse_from_Nil)
  moreover have "fold resShopItemList_add_items (x # xs) resShopItemList_new = m"
    using wf Cons unfolding resShopItemList_add_fold
    by (intro resShopItemList.equality) (simp_all add: resShopItemList_wf_def resShopItemList_new_def)
  ultimately show ?thesis
    by (simp add: resShopItemList_parse_def parse_message_from ser)
qed

interpretation resShopItemList_codec: codec resShopItemList_ByteSizeLong resShopItemList_InternalSerialize resShopItemList_parse resShopItemList_wf
  by unfold_locales (simp_all add: resShopItemList_size resShopItemList_read_back resShopItemList_wf_def)

section \<open>reqShopBuy\<close>

text \<open>A purchase request.\<close>

record reqShopBuy =
  reqShopBuy_playername :: string
  reqShopBuy_itemid :: int32
  reqShopBuy_count :: int32
  reqShopBuy_unknown :: bytes

definition reqShopBuy_new :: reqShopBuy where
  "reqShopBuy_new = \<lparr>reqShopBuy_playername = [], reqShopBuy_itemid = 0, reqShopBuy_count = 0, reqShopBuy_unknown = []\<rparr>"

definition reqShopBuy_clear_playername :: "reqShopBuy \<Rightarrow> reqShopBuy" where
  "reqShopBuy_clear_playername m = m\<lparr>reqShopBuy_playername := []\<rparr>"

definition reqShopBuy_set_playername :: "string \<Rightarrow> reqShopBuy \<Rightarrow> reqShopBuy" where
  "reqShopBuy_set_playername v m = m\<lparr>reqShopBuy_playername := v\<rparr>"

definition reqShopBuy_clear_itemid :: "reqShopBuy \<Rightarrow> reqShopBuy" where
  "reqShopBuy_clear_itemid m = m\<lparr>reqShopBuy_itemid := 0\<rparr>"

definition reqShopBuy_set_itemid :: "int32 \<Rightarrow> reqShopBuy \<Rightarrow> reqShopBuy" where
  "reqShopBuy_set_itemid v m = m\<lparr>reqShopBuy_itemid := v\<rparr>"

definition reqShopBuy_clear_count :: "reqShopBuy \<Rightarrow> reqShopBuy" where
  "reqShopBuy_clear_count m = m\<lparr>reqShopBuy_count := 0\<rparr>"

definition reqShopBuy_set_count :: "int32 \<Rightarrow> reqShopBuy \<Rightarrow> reqShopBuy" where
  "reqShopBuy_set_count v m = m\<lparr>reqShopBuy_count := v\<rparr>"

definition reqShopBuy_Clear :: "reqShopBuy \<Rightarrow> reqShopBuy" where
  "reqShopBuy_Clear m = m\<lparr>reqShopBuy_playername := [], reqShopBuy_itemid := 0, reqShopBuy_count := 0, reqShopBuy_unknown := []\<rparr>"

definition reqShopBuy_MergeImpl :: "reqShopBuy \<Rightarrow> reqShopBuy \<Rightarrow> reqShopBuy" where
  "reqShopBuy_MergeImpl this from =
     (let m1 = (if reqShopBuy_playername from \<noteq> [] then reqShopBuy_set_playername (reqShopBuy_playername from) this else this);
          m2 = (if reqShopBuy_itemid from \<noteq> 0 then reqShopBuy_set_itemid (reqShopBuy_itemid from) m1 else m1);
          m3 = (if reqShopBuy_count from \<noteq> 0 then reqShopBuy_set_count (reqShopBuy_count from) m2 else m2)
      in m3\<lparr>reqShopBuy_unknown := reqShopBuy_unknown m3 @ reqShopBuy_unknown from\<rparr>)"

definition reqShopBuy_CopyFrom :: "reqShopBuy \<Rightarrow> reqShopBuy \<Rightarrow> reqShopBuy" where
  "reqShopBuy_CopyFrom this from = reqShopBuy_MergeImpl (reqShopBuy_Clear this) from"

definition reqShopBuy_ByteSizeLong :: "reqShopBuy \<Rightarrow> nat" where
  "reqShopBuy_ByteSizeLong m =
     (if reqShopBuy_playername m \<noteq> [] then 1 + StringSize (bytes_of_string (reqShopBuy_playername m)) else 0) +
     (if reqShopBuy_itemid m \<noteq> 0 then Int32SizePlusOne (reqShopBuy_itemid m) else 0) +
     (if reqShopBuy_count m \<noteq> 0 then Int32SizePlusOne (reqShopBuy_count m) else 0) + length (reqShopBuy_unknown m)"

definition reqShopBuy_InternalSerialize :: "pb_lib \<Rightarrow> reqShopBuy \<Rightarrow> bytes" where
  "reqShopBuy_InternalSerialize L m =
     (if reqShopBuy_playername m \<noteq> [] then WriteStringMaybeAliased L 1 (bytes_of_string (reqShopBuy_playername m)) else []) @
     (if reqShopBuy_itemid m \<noteq> 0 then WriteInt32ToArray 2 (reqShopBuy_itemid m) else []) @
     (if reqShopBuy_count m \<noteq> 0 then WriteInt32ToArray 3 (reqShopBuy_count m) else []) @
     reqShopBuy_unknown m"

definition reqShopBuy_field :: "pb_lib \<Rightarrow> u32 \<Rightarrow> bytes \<Rightarrow> reqShopBuy \<Rightarrow> reqShopBuy field_result" where
  "reqShopBuy_field L tag p m =
     (if drop_bit 3 tag = 1 then
        (if (ucast tag :: byte) = 10 then handled (ReadUtf8 L p) (\<lambda>v. m\<lparr>reqShopBuy_playername := v\<rparr>)
         else Unusual)
      else if drop_bit 3 tag = 2 then
        (if (ucast tag :: byte) = 16 then handled (ReadVarint32 L p) (\<lambda>v. m\<lparr>reqShopBuy_itemid := v\<rparr>)
         else Unusual)
      else if drop_bit 3 tag = 3 then
        (if (ucast tag :: byte) = 24 then handled (ReadVarint32 L p) (\<lambda>v. m\<lparr>reqShopBuy_count := v\<rparr>)
         else Unusual)
      else Unusual)"

definition reqShopBuy_keep :: "bytes \<Rightarrow> reqShopBuy \<Rightarrow> reqShopBuy" where
  "reqShopBuy_keep raw m = m\<lparr>reqShopBuy_unknown := reqShopBuy_unknown m @ raw\<rparr>"

definition reqShopBuy_parse :: "pb_lib \<Rightarrow> bytes \<Rightarrow> reqShopBuy option" where
  "reqShopBuy_parse L p = parse_message L reqShopBuy_field reqShopBuy_keep reqShopBuy_new p"

text \<open>The messages that are read back.\<close>

definition reqShopBuy_wf :: "pb_lib \<Rightarrow> reqShopBuy \<Rightarrow> bool" where
  "reqShopBuy_wf L m \<longleftrightarrow> reqShopBuy_unknown m = [] \<and>
     reqShopBuy_ByteSizeLong m < 2 ^ 31 - 16 \<and>
     VerifyUTF8 L (bytes_of_string (reqShopBuy_playername m))"

lemma reqShopBuy_shrinks:
  assumes "pb_lib_ok L"
  shows "field_shrinks L reqShopBuy_field"
  unfolding field_shrinks_def reqShopBuy_field_def
  by (auto simp: handled_Handled split: if_splits
      dest: reader_shrinks [OF assms])

lemma reqShopBuy_playername_length:
  assumes "reqShopBuy_wf L m"
  shows "length (reqShopBuy_playername m) < 2 ^ 31 - 16"
  using assms LengthDelimitedSize_ge [of "length (reqShopBuy_playername m)"]
  by (cases "reqShopBuy_playername m = []") (auto simp: reqShopBuy_wf_def reqShopBuy_ByteSizeLong_def StringSize_def)

lemma reqShopBuy_size:
  assumes "pb_lib_ok L" and "reqShopBuy_wf L m"
  shows "length (reqShopBuy_InternalSerialize L m) = reqShopBuy_ByteSizeLong m"
proof -
  have "length (bytes_of_string (reqShopBuy_playername m)) < 2 ^ 31"
    using reqShopBuy_playername_length [OF assms(2)] by simp_all
  then show ?thesis
    by (simp add: reqShopBuy_InternalSerialize_def reqShopBuy_ByteSizeLong_def write_string [OF assms(1)] write_field
        WriteTag_table field_sizes)
qed

abbreviation reqShopBuy_from :: "pb_lib \<Rightarrow> bytes \<Rightarrow> reqShopBuy \<Rightarrow> (reqShopBuy \<times> u32 option) option" where
  "reqShopBuy_from L p m \<equiv> parse_from L reqShopBuy_field reqShopBuy_keep p m"

lemma reqShopBuy_read_back:
  assumes L: "pb_lib_ok L" and wf: "reqShopBuy_wf L m"
  shows "reqShopBuy_parse L (reqShopBuy_InternalSerialize L m) = Some m"
proof -
  note step = parse_from_field [OF L reqShopBuy_shrinks [OF L]]
  note w = wf [unfolded reqShopBuy_wf_def]
  note len = reqShopBuy_playername_length [OF wf]
  let ?m1 = "reqShopBuy_new\<lparr>reqShopBuy_playername := reqShopBuy_playername m\<rparr>"
  let ?m2 = "?m1\<lparr>reqShopBuy_itemid := reqShopBuy_itemid m\<rparr>"
  let ?m3 = "?m2\<lparr>reqShopBuy_count := reqShopBuy_count m\<rparr>"
  have 1: "reqShopBuy_from L ((if reqShopBuy_playername m \<noteq> [] then WriteStringMaybeAliased L 1 (bytes_of_string (reqShopBuy_playername m)) else []) @ r) reqShopBuy_new = reqShopBuy_from L r ?m1" for r
  proof (cases "reqShopBuy_playername m \<noteq> []")
    case True
    have "reqShopBuy_field L (ucast (10 :: byte)) (length_prefixed (bytes_of_string (reqShopBuy_playername m)) @ r) reqShopBuy_new = Handled ?m1 r"
      using w len True by (simp add: reqShopBuy_field_def ReadUtf8_string [OF L] reqShopBuy_new_def)
    then have "reqShopBuy_from L (10 # length_prefixed (bytes_of_string (reqShopBuy_playername m)) @ r) reqShopBuy_new = reqShopBuy_from L r ?m1"
      by (intro step) simp_all
    then show ?thesis using True len by (simp add: write_string [OF L])
  next
    case False
    then show ?thesis using w by (simp add: reqShopBuy_new_def)
  qed
  have 2: "reqShopBuy_from L ((if reqShopBuy_itemid m \<noteq> 0 then WriteInt32ToArray 2 (reqShopBuy_itemid m) else []) @ r) ?m1 = reqShopBuy_from L r ?m2" for r
  proof (cases "reqShopBuy_itemid m \<noteq> 0")
    case True
    have "reqShopBuy_field L (ucast (16 :: byte)) (WriteVarint32SignExtendedToArray (reqShopBuy_itemid m) @ r) ?m1 = Handled ?m2 r"
      using w True by (simp add: reqShopBuy_field_def ReadVarint32_int32 [OF L] reqShopBuy_new_def)
    then have "reqShopBuy_from L (16 # WriteVarint32SignExtendedToArray (reqShopBuy_itemid m) @ r) ?m1 = reqShopBuy_from L r ?m2"
      by (intro step) simp_all
    then show ?thesis using True by (simp add: write_field WriteTag_table)
  next
    case False
    then show ?thesis using w by (simp add: reqShopBuy_new_def)
  qed
  have 3: "reqShopBuy_from L ((if reqShopBuy_count m \<noteq> 0 then WriteInt32ToArray 3 (reqShopBuy_count m) else []) @ r) ?m2 = reqShopBuy_from L r ?m3" for r
  proof (cases "reqShopBuy_count m \<noteq> 0")
    case True
    have "reqShopBuy_field L (ucast (24 :: byte)) (WriteVarint32SignExtendedToArray (reqShopBuy_count m) @ r) ?m2 = Handled ?m3 r"
      using w True by (simp add: reqShopBuy_field_def ReadVarint32_int32 [OF L] reqShopBuy_new_def)
    then have "reqShopBuy_from L (24 # WriteVarint32SignExtendedToArray (reqShopBuy_count m) @ r) ?m2 = reqShopBuy_from L r ?m3"
      by (intro step) simp_all
    then show ?thesis using True by (simp add: write_field WriteTag_table)
  next
    case False
    then show ?thesis using w by (simp add: reqShopBuy_new_def)
  qed
  have "?m3 = m"
    using w by (intro reqShopBuy.equality) (simp_all add: reqShopBuy_new_def)
  then show ?thesis
    using w 3 [of "[]"] unfolding reqShopBuy_parse_def parse_message_from reqShopBuy_InternalSerialize_def 1 2 3
    by simp
qed

interpretation reqShopBuy_codec: codec reqShopBuy_ByteSizeLong reqShopBuy_InternalSerialize reqShopBuy_parse reqShopBuy_wf
  by unfold_locales (simp_all add: reqShopBuy_size reqShopBuy_read_back reqShopBuy_wf_def)

end
