(* ===== verification/Messages_Player.thy ===== *)
theory Messages_Player
  imports Message_Fields
begin

unbundle bit_operations_syntax

text \<open>
  The generated classes about players (\<^verbatim>\<open>Packet/item.pb.h\<close>, \<^verbatim>\<open>item.pb.cc\<close>): the name a client reports,
  positions, and the announcement of another player. Fields marked \<open>optional\<close> have a presence bit.
  A float is kept as its 32 bits.
\<close>

section \<open>reqNotifyPlayerName\<close>

text \<open>The player's name.\<close>

record reqNotifyPlayerName =
  reqNotifyPlayerName_name :: string
  reqNotifyPlayerName_unknown :: bytes

definition reqNotifyPlayerName_new :: reqNotifyPlayerName where
  "reqNotifyPlayerName_new = \<lparr>reqNotifyPlayerName_name = [], reqNotifyPlayerName_unknown = []\<rparr>"

definition reqNotifyPlayerName_clear_name :: "reqNotifyPlayerName \<Rightarrow> reqNotifyPlayerName" where
  "reqNotifyPlayerName_clear_name m = m\<lparr>reqNotifyPlayerName_name := []\<rparr>"

definition reqNotifyPlayerName_set_name :: "string \<Rightarrow> reqNotifyPlayerName \<Rightarrow> reqNotifyPlayerName" where
  "reqNotifyPlayerName_set_name v m = m\<lparr>reqNotifyPlayerName_name := v\<rparr>"

definition reqNotifyPlayerName_Clear :: "reqNotifyPlayerName \<Rightarrow> reqNotifyPlayerName" where
  "reqNotifyPlayerName_Clear m = m\<lparr>reqNotifyPlayerName_name := [], reqNotifyPlayerName_unknown := []\<rparr>"

definition reqNotifyPlayerName_MergeImpl :: "reqNotifyPlayerName \<Rightarrow> reqNotifyPlayerName \<Rightarrow> reqNotifyPlayerName" where
  "reqNotifyPlayerName_MergeImpl this from =
     (let m1 = (if reqNotifyPlayerName_name from \<noteq> [] then reqNotifyPlayerName_set_name (reqNotifyPlayerName_name from) this else this)
      in m1\<lparr>reqNotifyPlayerName_unknown := reqNotifyPlayerName_unknown m1 @ reqNotifyPlayerName_unknown from\<rparr>)"

definition reqNotifyPlayerName_CopyFrom :: "reqNotifyPlayerName \<Rightarrow> reqNotifyPlayerName \<Rightarrow> reqNotifyPlayerName" where
  "reqNotifyPlayerName_CopyFrom this from = reqNotifyPlayerName_MergeImpl (reqNotifyPlayerName_Clear this) from"

definition reqNotifyPlayerName_ByteSizeLong :: "reqNotifyPlayerName \<Rightarrow> nat" where
  "reqNotifyPlayerName_ByteSizeLong m =
     (if reqNotifyPlayerName_name m \<noteq> [] then 1 + StringSize (bytes_of_string (reqNotifyPlayerName_name m)) else 0) + length (reqNotifyPlayerName_unknown m)"

definition reqNotifyPlayerName_InternalSerialize :: "pb_lib \<Rightarrow> reqNotifyPlayerName \<Rightarrow> bytes" where
  "reqNotifyPlayerName_InternalSerialize L m =
     (if reqNotifyPlayerName_name m \<noteq> [] then WriteStringMaybeAliased L 1 (bytes_of_string (reqNotifyPlayerName_name m)) else []) @
     reqNotifyPlayerName_unknown m"

definition reqNotifyPlayerName_field :: "pb_lib \<Rightarrow> u32 \<Rightarrow> bytes \<Rightarrow> reqNotifyPlayerName \<Rightarrow> reqNotifyPlayerName field_result" where
  "reqNotifyPlayerName_field L tag p m =
     (if drop_bit 3 tag = 1 then
        (if (ucast tag :: byte) = 10 then handled (ReadUtf8 L p) (\<lambda>v. m\<lparr>reqNotifyPlayerName_name := v\<rparr>)
         else Unusual)
      else Unusual)"

definition reqNotifyPlayerName_keep :: "bytes \<Rightarrow> reqNotifyPlayerName \<Rightarrow> reqNotifyPlayerName" where
  "reqNotifyPlayerName_keep raw m = m\<lparr>reqNotifyPlayerName_unknown := reqNotifyPlayerName_unknown m @ raw\<rparr>"

definition reqNotifyPlayerName_parse :: "pb_lib \<Rightarrow> bytes \<Rightarrow> reqNotifyPlayerName option" where
  "reqNotifyPlayerName_parse L p = parse_message L reqNotifyPlayerName_field reqNotifyPlayerName_keep reqNotifyPlayerName_new p"

text \<open>The messages that are read back.\<close>

definition reqNotifyPlayerName_wf :: "pb_lib \<Rightarrow> reqNotifyPlayerName \<Rightarrow> bool" where
  "reqNotifyPlayerName_wf L m \<longleftrightarrow> reqNotifyPlayerName_unknown m = [] \<and>
     reqNotifyPlayerName_ByteSizeLong m < 2 ^ 31 - 16 \<and>
     VerifyUTF8 L (bytes_of_string (reqNotifyPlayerName_name m))"

lemma reqNotifyPlayerName_shrinks:
  assumes "pb_lib_ok L"
  shows "field_shrinks L reqNotifyPlayerName_field"
  unfolding field_shrinks_def reqNotifyPlayerName_field_def
  by (auto simp: handled_Handled split: if_splits
      dest: reader_shrinks [OF assms])

lemma reqNotifyPlayerName_name_length:
  assumes "reqNotifyPlayerName_wf L m"
  shows "length (reqNotifyPlayerName_name m) < 2 ^ 31 - 16"
  using assms LengthDelimitedSize_ge [of "length (reqNotifyPlayerName_name m)"]
  by (cases "reqNotifyPlayerName_name m = []") (auto simp: reqNotifyPlayerName_wf_def reqNotifyPlayerName_ByteSizeLong_def StringSize_def)

lemma reqNotifyPlayerName_size:
  assumes "pb_lib_ok L" and "reqNotifyPlayerName_wf L m"
  shows "length (reqNotifyPlayerName_InternalSerialize L m) = reqNotifyPlayerName_ByteSizeLong m"
proof -
  have "length (bytes_of_string (reqNotifyPlayerName_name m)) < 2 ^ 31"
    using reqNotifyPlayerName_name_length [OF assms(2)] by simp_all
  then show ?thesis
    by (simp add: reqNotifyPlayerName_InternalSerialize_def reqNotifyPlayerName_ByteSizeLong_def write_string [OF assms(1)] write_field
        WriteTag_table field_sizes)
qed

abbreviation reqNotifyPlayerName_from :: "pb_lib \<Rightarrow> bytes \<Rightarrow> reqNotifyPlayerName \<Rightarrow> (reqNotifyPlayerName \<times> u32 option) option" where
  "reqNotifyPlayerName_from L p m \<equiv> parse_from L reqNotifyPlayerName_field reqNotifyPlayerName_keep p m"

lemma reqNotifyPlayerName_read_back:
  assumes L: "pb_lib_ok L" and wf: "reqNotifyPlayerName_wf L m"
  shows "reqNotifyPlayerName_parse L (reqNotifyPlayerName_InternalSerialize L m) = Some m"
proof -
  note step = parse_from_field [OF L reqNotifyPlayerName_shrinks [OF L]]
  note w = wf [unfolded reqNotifyPlayerName_wf_def]
  note len = reqNotifyPlayerName_name_length [OF wf]
  let ?m1 = "reqNotifyPlayerName_new\<lparr>reqNotifyPlayerName_name := reqNotifyPlayerName_name m\<rparr>"
  have 1: "reqNotifyPlayerName_from L ((if reqNotifyPlayerName_name m \<noteq> [] then WriteStringMaybeAliased L 1 (bytes_of_string (reqNotifyPlayerName_name m)) else []) @ r) reqNotifyPlayerName_new = reqNotifyPlayerName_from L r ?m1" for r
  proof (cases "reqNotifyPlayerName_name m \<noteq> []")
    case True
    have "reqNotifyPlayerName_field L (ucast (10 :: byte)) (length_prefixed (bytes_of_string (reqNotifyPlayerName_name m)) @ r) reqNotifyPlayerName_new = Handled ?m1 r"
      using w len True by (simp add: reqNotifyPlayerName_field_def ReadUtf8_string [OF L] reqNotifyPlayerName_new_def)
    then have "reqNotifyPlayerName_from L (10 # length_prefixed (bytes_of_string (reqNotifyPlayerName_name m)) @ r) reqNotifyPlayerName_new = reqNotifyPlayerName_from L r ?m1"
      by (intro step) simp_all
    then show ?thesis using True len by (simp add: write_string [OF L])
  next
    case False
    then show ?thesis using w by (simp add: reqNotifyPlayerName_new_def)
  qed
  have "?m1 = m"
    using w by (intro reqNotifyPlayerName.equality) (simp_all add: reqNotifyPlayerName_new_def)
  then show ?thesis
    using w 1 [of "[]"] unfolding reqNotifyPlayerName_parse_def parse_message_from reqNotifyPlayerName_InternalSerialize_def 1
    by simp
qed

interpretation reqNotifyPlayerName_codec: codec reqNotifyPlayerName_ByteSizeLong reqNotifyPlayerName_InternalSerialize reqNotifyPlayerName_parse reqNotifyPlayerName_wf
  by unfold_locales (simp_all add: reqNotifyPlayerName_size reqNotifyPlayerName_read_back reqNotifyPlayerName_wf_def)

section \<open>reqPlayerPosition\<close>

text \<open>The position that a client reports.\<close>

record reqPlayerPosition =
  reqPlayerPosition_has_bits :: u32
  reqPlayerPosition_x :: u32
  reqPlayerPosition_y :: u32
  reqPlayerPosition_z :: u32
  reqPlayerPosition_index :: int32
  reqPlayerPosition_unknown :: bytes

definition reqPlayerPosition_new :: reqPlayerPosition where
  "reqPlayerPosition_new = \<lparr>reqPlayerPosition_has_bits = 0, reqPlayerPosition_x = 0, reqPlayerPosition_y = 0, reqPlayerPosition_z = 0, reqPlayerPosition_index = 0, reqPlayerPosition_unknown = []\<rparr>"

definition reqPlayerPosition_has_x :: "reqPlayerPosition \<Rightarrow> bool" where
  "reqPlayerPosition_has_x m \<longleftrightarrow> reqPlayerPosition_has_bits m AND 1 \<noteq> 0"

definition reqPlayerPosition_clear_x :: "reqPlayerPosition \<Rightarrow> reqPlayerPosition" where
  "reqPlayerPosition_clear_x m = m\<lparr>reqPlayerPosition_x := 0, reqPlayerPosition_has_bits := reqPlayerPosition_has_bits m AND NOT 1\<rparr>"

definition reqPlayerPosition_set_x :: "u32 \<Rightarrow> reqPlayerPosition \<Rightarrow> reqPlayerPosition" where
  "reqPlayerPosition_set_x v m = m\<lparr>reqPlayerPosition_has_bits := reqPlayerPosition_has_bits m OR 1, reqPlayerPosition_x := v\<rparr>"

definition reqPlayerPosition_has_y :: "reqPlayerPosition \<Rightarrow> bool" where
  "reqPlayerPosition_has_y m \<longleftrightarrow> reqPlayerPosition_has_bits m AND 2 \<noteq> 0"

definition reqPlayerPosition_clear_y :: "reqPlayerPosition \<Rightarrow> reqPlayerPosition" where
  "reqPlayerPosition_clear_y m = m\<lparr>reqPlayerPosition_y := 0, reqPlayerPosition_has_bits := reqPlayerPosition_has_bits m AND NOT 2\<rparr>"

definition reqPlayerPosition_set_y :: "u32 \<Rightarrow> reqPlayerPosition \<Rightarrow> reqPlayerPosition" where
  "reqPlayerPosition_set_y v m = m\<lparr>reqPlayerPosition_has_bits := reqPlayerPosition_has_bits m OR 2, reqPlayerPosition_y := v\<rparr>"

definition reqPlayerPosition_has_z :: "reqPlayerPosition \<Rightarrow> bool" where
  "reqPlayerPosition_has_z m \<longleftrightarrow> reqPlayerPosition_has_bits m AND 4 \<noteq> 0"

definition reqPlayerPosition_clear_z :: "reqPlayerPosition \<Rightarrow> reqPlayerPosition" where
  "reqPlayerPosition_clear_z m = m\<lparr>reqPlayerPosition_z := 0, reqPlayerPosition_has_bits := reqPlayerPosition_has_bits m AND NOT 4\<rparr>"

definition reqPlayerPosition_set_z :: "u32 \<Rightarrow> reqPlayerPosition \<Rightarrow> reqPlayerPosition" where
  "reqPlayerPosition_set_z v m = m\<lparr>reqPlayerPosition_has_bits := reqPlayerPosition_has_bits m OR 4, reqPlayerPosition_z := v\<rparr>"

definition reqPlayerPosition_has_index :: "reqPlayerPosition \<Rightarrow> bool" where
  "reqPlayerPosition_has_index m \<longleftrightarrow> reqPlayerPosition_has_bits m AND 8 \<noteq> 0"

definition reqPlayerPosition_clear_index :: "reqPlayerPosition \<Rightarrow> reqPlayerPosition" where
  "reqPlayerPosition_clear_index m = m\<lparr>reqPlayerPosition_index := 0, reqPlayerPosition_has_bits := reqPlayerPosition_has_bits m AND NOT 8\<rparr>"

definition reqPlayerPosition_set_index :: "int32 \<Rightarrow> reqPlayerPosition \<Rightarrow> reqPlayerPosition" where
  "reqPlayerPosition_set_index v m = m\<lparr>reqPlayerPosition_has_bits := reqPlayerPosition_has_bits m OR 8, reqPlayerPosition_index := v\<rparr>"

definition reqPlayerPosition_Clear :: "reqPlayerPosition \<Rightarrow> reqPlayerPosition" where
  "reqPlayerPosition_Clear m =
     (if reqPlayerPosition_has_bits m AND 15 \<noteq> 0 then m\<lparr>reqPlayerPosition_x := 0, reqPlayerPosition_y := 0, reqPlayerPosition_z := 0, reqPlayerPosition_index := 0\<rparr> else m)
       \<lparr>reqPlayerPosition_has_bits := 0, reqPlayerPosition_unknown := []\<rparr>"

definition reqPlayerPosition_MergeImpl :: "reqPlayerPosition \<Rightarrow> reqPlayerPosition \<Rightarrow> reqPlayerPosition" where
  "reqPlayerPosition_MergeImpl this from =
     (let b = reqPlayerPosition_has_bits from;
          m = (if b AND 15 \<noteq> 0 then
                 (let m1 = (if b AND 1 \<noteq> 0 then this\<lparr>reqPlayerPosition_x := reqPlayerPosition_x from\<rparr> else this);
                      m2 = (if b AND 2 \<noteq> 0 then m1\<lparr>reqPlayerPosition_y := reqPlayerPosition_y from\<rparr> else m1);
                      m3 = (if b AND 4 \<noteq> 0 then m2\<lparr>reqPlayerPosition_z := reqPlayerPosition_z from\<rparr> else m2);
                      m4 = (if b AND 8 \<noteq> 0 then m3\<lparr>reqPlayerPosition_index := reqPlayerPosition_index from\<rparr> else m3)
                  in m4\<lparr>reqPlayerPosition_has_bits := reqPlayerPosition_has_bits m4 OR b\<rparr>)
               else this)
      in m\<lparr>reqPlayerPosition_unknown := reqPlayerPosition_unknown m @ reqPlayerPosition_unknown from\<rparr>)"

definition reqPlayerPosition_CopyFrom :: "reqPlayerPosition \<Rightarrow> reqPlayerPosition \<Rightarrow> reqPlayerPosition" where
  "reqPlayerPosition_CopyFrom this from = reqPlayerPosition_MergeImpl (reqPlayerPosition_Clear this) from"

definition reqPlayerPosition_ByteSizeLong :: "reqPlayerPosition \<Rightarrow> nat" where
  "reqPlayerPosition_ByteSizeLong m =
     (if reqPlayerPosition_has_bits m AND 15 \<noteq> 0 then
        (if reqPlayerPosition_has_x m then 1 + 4 else 0) +
        (if reqPlayerPosition_has_y m then 1 + 4 else 0) +
        (if reqPlayerPosition_has_z m then 1 + 4 else 0) +
        (if reqPlayerPosition_has_index m then Int32SizePlusOne (reqPlayerPosition_index m) else 0)
      else 0) + length (reqPlayerPosition_unknown m)"

definition reqPlayerPosition_InternalSerialize :: "pb_lib \<Rightarrow> reqPlayerPosition \<Rightarrow> bytes" where
  "reqPlayerPosition_InternalSerialize L m =
     (if reqPlayerPosition_has_x m then WriteFloatToArray 1 (reqPlayerPosition_x m) else []) @
     (if reqPlayerPosition_has_y m then WriteFloatToArray 2 (reqPlayerPosition_y m) else []) @
     (if reqPlayerPosition_has_z m then WriteFloatToArray 3 (reqPlayerPosition_z m) else []) @
     (if reqPlayerPosition_has_index m then WriteInt32ToArray 4 (reqPlayerPosition_index m) else []) @
     reqPlayerPosition_unknown m"

definition reqPlayerPosition_field :: "pb_lib \<Rightarrow> u32 \<Rightarrow> bytes \<Rightarrow> reqPlayerPosition \<Rightarrow> reqPlayerPosition field_result" where
  "reqPlayerPosition_field L tag p m =
     (if drop_bit 3 tag = 1 then
        (if (ucast tag :: byte) = 13 then handled (UnalignedLoad p)
           (\<lambda>v. m\<lparr>reqPlayerPosition_has_bits := reqPlayerPosition_has_bits m OR 1, reqPlayerPosition_x := v\<rparr>)
         else Unusual)
      else if drop_bit 3 tag = 2 then
        (if (ucast tag :: byte) = 21 then handled (UnalignedLoad p)
           (\<lambda>v. m\<lparr>reqPlayerPosition_has_bits := reqPlayerPosition_has_bits m OR 2, reqPlayerPosition_y := v\<rparr>)
         else Unusual)
      else if drop_bit 3 tag = 3 then
        (if (ucast tag :: byte) = 29 then handled (UnalignedLoad p)
           (\<lambda>v. m\<lparr>reqPlayerPosition_has_bits := reqPlayerPosition_has_bits m OR 4, reqPlayerPosition_z := v\<rparr>)
         else Unusual)
      else if drop_bit 3 tag = 4 then
        (if (ucast tag :: byte) = 32 then handled (ReadVarint32 L p)
           (\<lambda>v. m\<lparr>reqPlayerPosition_has_bits := reqPlayerPosition_has_bits m OR 8, reqPlayerPosition_index := v\<rparr>)
         else Unusual)
      else Unusual)"

definition reqPlayerPosition_keep :: "bytes \<Rightarrow> reqPlayerPosition \<Rightarrow> reqPlayerPosition" where
  "reqPlayerPosition_keep raw m = m\<lparr>reqPlayerPosition_unknown := reqPlayerPosition_unknown m @ raw\<rparr>"

definition reqPlayerPosition_parse :: "pb_lib \<Rightarrow> bytes \<Rightarrow> reqPlayerPosition option" where
  "reqPlayerPosition_parse L p = parse_message L reqPlayerPosition_field reqPlayerPosition_keep reqPlayerPosition_new p"

text \<open>The messages that are read back.\<close>

definition reqPlayerPosition_wf :: "pb_lib \<Rightarrow> reqPlayerPosition \<Rightarrow> bool" where
  "reqPlayerPosition_wf L m \<longleftrightarrow> reqPlayerPosition_unknown m = [] \<and>
     reqPlayerPosition_ByteSizeLong m < 2 ^ 31 - 16 \<and>
     reqPlayerPosition_has_bits m < 16 \<and>
     (\<not> reqPlayerPosition_has_x m \<longrightarrow> reqPlayerPosition_x m = 0) \<and>
     (\<not> reqPlayerPosition_has_y m \<longrightarrow> reqPlayerPosition_y m = 0) \<and>
     (\<not> reqPlayerPosition_has_z m \<longrightarrow> reqPlayerPosition_z m = 0) \<and>
     (\<not> reqPlayerPosition_has_index m \<longrightarrow> reqPlayerPosition_index m = 0)"

lemma reqPlayerPosition_shrinks:
  assumes "pb_lib_ok L"
  shows "field_shrinks L reqPlayerPosition_field"
  unfolding field_shrinks_def reqPlayerPosition_field_def
  by (auto simp: handled_Handled split: if_splits
      dest: reader_shrinks [OF assms])

lemma reqPlayerPosition_size:
  assumes "pb_lib_ok L" and "reqPlayerPosition_wf L m"
  shows "length (reqPlayerPosition_InternalSerialize L m) = reqPlayerPosition_ByteSizeLong m"
  by (simp add: reqPlayerPosition_InternalSerialize_def reqPlayerPosition_ByteSizeLong_def write_field WriteTag_table field_sizes flag_masks flag_test reqPlayerPosition_has_x_def reqPlayerPosition_has_y_def reqPlayerPosition_has_z_def reqPlayerPosition_has_index_def)

abbreviation reqPlayerPosition_from :: "pb_lib \<Rightarrow> bytes \<Rightarrow> reqPlayerPosition \<Rightarrow> (reqPlayerPosition \<times> u32 option) option" where
  "reqPlayerPosition_from L p m \<equiv> parse_from L reqPlayerPosition_field reqPlayerPosition_keep p m"

lemma reqPlayerPosition_read_back:
  assumes L: "pb_lib_ok L" and wf: "reqPlayerPosition_wf L m"
  shows "reqPlayerPosition_parse L (reqPlayerPosition_InternalSerialize L m) = Some m"
proof -
  note step = parse_from_field [OF L reqPlayerPosition_shrinks [OF L]]
  note w = wf [unfolded reqPlayerPosition_wf_def]
  let ?m1 = "reqPlayerPosition_new\<lparr>reqPlayerPosition_has_bits := reqPlayerPosition_has_bits reqPlayerPosition_new OR (if reqPlayerPosition_has_x m then 1 else 0), reqPlayerPosition_x := reqPlayerPosition_x m\<rparr>"
  let ?m2 = "?m1\<lparr>reqPlayerPosition_has_bits := reqPlayerPosition_has_bits ?m1 OR (if reqPlayerPosition_has_y m then 2 else 0), reqPlayerPosition_y := reqPlayerPosition_y m\<rparr>"
  let ?m3 = "?m2\<lparr>reqPlayerPosition_has_bits := reqPlayerPosition_has_bits ?m2 OR (if reqPlayerPosition_has_z m then 4 else 0), reqPlayerPosition_z := reqPlayerPosition_z m\<rparr>"
  let ?m4 = "?m3\<lparr>reqPlayerPosition_has_bits := reqPlayerPosition_has_bits ?m3 OR (if reqPlayerPosition_has_index m then 8 else 0), reqPlayerPosition_index := reqPlayerPosition_index m\<rparr>"
  have 1: "reqPlayerPosition_from L ((if reqPlayerPosition_has_x m then WriteFloatToArray 1 (reqPlayerPosition_x m) else []) @ r) reqPlayerPosition_new = reqPlayerPosition_from L r ?m1" for r
  proof (cases "reqPlayerPosition_has_x m")
    case True
    have "reqPlayerPosition_field L (ucast (13 :: byte)) (WriteLittleEndian32ToArray (reqPlayerPosition_x m) @ r) reqPlayerPosition_new = Handled ?m1 r"
      using w True by (simp add: reqPlayerPosition_field_def UnalignedLoad_float reqPlayerPosition_new_def)
    then have "reqPlayerPosition_from L (13 # WriteLittleEndian32ToArray (reqPlayerPosition_x m) @ r) reqPlayerPosition_new = reqPlayerPosition_from L r ?m1"
      by (intro step) simp_all
    then show ?thesis using True by (simp add: write_field WriteTag_table)
  next
    case False
    then show ?thesis using w by (simp add: reqPlayerPosition_new_def)
  qed
  have 2: "reqPlayerPosition_from L ((if reqPlayerPosition_has_y m then WriteFloatToArray 2 (reqPlayerPosition_y m) else []) @ r) ?m1 = reqPlayerPosition_from L r ?m2" for r
  proof (cases "reqPlayerPosition_has_y m")
    case True
    have "reqPlayerPosition_field L (ucast (21 :: byte)) (WriteLittleEndian32ToArray (reqPlayerPosition_y m) @ r) ?m1 = Handled ?m2 r"
      using w True by (simp add: reqPlayerPosition_field_def UnalignedLoad_float reqPlayerPosition_new_def)
    then have "reqPlayerPosition_from L (21 # WriteLittleEndian32ToArray (reqPlayerPosition_y m) @ r) ?m1 = reqPlayerPosition_from L r ?m2"
      by (intro step) simp_all
    then show ?thesis using True by (simp add: write_field WriteTag_table)
  next
    case False
    then show ?thesis using w by (simp add: reqPlayerPosition_new_def)
  qed
  have 3: "reqPlayerPosition_from L ((if reqPlayerPosition_has_z m then WriteFloatToArray 3 (reqPlayerPosition_z m) else []) @ r) ?m2 = reqPlayerPosition_from L r ?m3" for r
  proof (cases "reqPlayerPosition_has_z m")
    case True
    have "reqPlayerPosition_field L (ucast (29 :: byte)) (WriteLittleEndian32ToArray (reqPlayerPosition_z m) @ r) ?m2 = Handled ?m3 r"
      using w True by (simp add: reqPlayerPosition_field_def UnalignedLoad_float reqPlayerPosition_new_def)
    then have "reqPlayerPosition_from L (29 # WriteLittleEndian32ToArray (reqPlayerPosition_z m) @ r) ?m2 = reqPlayerPosition_from L r ?m3"
      by (intro step) simp_all
    then show ?thesis using True by (simp add: write_field WriteTag_table)
  next
    case False
    then show ?thesis using w by (simp add: reqPlayerPosition_new_def)
  qed
  have 4: "reqPlayerPosition_from L ((if reqPlayerPosition_has_index m then WriteInt32ToArray 4 (reqPlayerPosition_index m) else []) @ r) ?m3 = reqPlayerPosition_from L r ?m4" for r
  proof (cases "reqPlayerPosition_has_index m")
    case True
    have "reqPlayerPosition_field L (ucast (32 :: byte)) (WriteVarint32SignExtendedToArray (reqPlayerPosition_index m) @ r) ?m3 = Handled ?m4 r"
      using w True by (simp add: reqPlayerPosition_field_def ReadVarint32_int32 [OF L] reqPlayerPosition_new_def)
    then have "reqPlayerPosition_from L (32 # WriteVarint32SignExtendedToArray (reqPlayerPosition_index m) @ r) ?m3 = reqPlayerPosition_from L r ?m4"
      by (intro step) simp_all
    then show ?thesis using True by (simp add: write_field WriteTag_table)
  next
    case False
    then show ?thesis using w by (simp add: reqPlayerPosition_new_def)
  qed
  have "reqPlayerPosition_has_bits ?m4 = reqPlayerPosition_has_bits m"
    using w flag_collect4 [of "reqPlayerPosition_has_bits m"] by (simp add: reqPlayerPosition_new_def reqPlayerPosition_has_x_def reqPlayerPosition_has_y_def reqPlayerPosition_has_z_def reqPlayerPosition_has_index_def flag_test)
  then have "?m4 = m"
    using w by (intro reqPlayerPosition.equality) (simp_all add: reqPlayerPosition_new_def)
  then show ?thesis
    using w 4 [of "[]"] unfolding reqPlayerPosition_parse_def parse_message_from reqPlayerPosition_InternalSerialize_def 1 2 3 4
    by simp
qed

interpretation reqPlayerPosition_codec: codec reqPlayerPosition_ByteSizeLong reqPlayerPosition_InternalSerialize reqPlayerPosition_parse reqPlayerPosition_wf
  by unfold_locales (simp_all add: reqPlayerPosition_size reqPlayerPosition_read_back reqPlayerPosition_wf_def)

section \<open>resPlayerPosition\<close>

text \<open>The position that the server passes on.\<close>

record resPlayerPosition =
  resPlayerPosition_has_bits :: u32
  resPlayerPosition_x :: u32
  resPlayerPosition_y :: u32
  resPlayerPosition_z :: u32
  resPlayerPosition_index :: int32
  resPlayerPosition_unknown :: bytes

definition resPlayerPosition_new :: resPlayerPosition where
  "resPlayerPosition_new = \<lparr>resPlayerPosition_has_bits = 0, resPlayerPosition_x = 0, resPlayerPosition_y = 0, resPlayerPosition_z = 0, resPlayerPosition_index = 0, resPlayerPosition_unknown = []\<rparr>"

definition resPlayerPosition_has_x :: "resPlayerPosition \<Rightarrow> bool" where
  "resPlayerPosition_has_x m \<longleftrightarrow> resPlayerPosition_has_bits m AND 1 \<noteq> 0"

definition resPlayerPosition_clear_x :: "resPlayerPosition \<Rightarrow> resPlayerPosition" where
  "resPlayerPosition_clear_x m = m\<lparr>resPlayerPosition_x := 0, resPlayerPosition_has_bits := resPlayerPosition_has_bits m AND NOT 1\<rparr>"

definition resPlayerPosition_set_x :: "u32 \<Rightarrow> resPlayerPosition \<Rightarrow> resPlayerPosition" where
  "resPlayerPosition_set_x v m = m\<lparr>resPlayerPosition_has_bits := resPlayerPosition_has_bits m OR 1, resPlayerPosition_x := v\<rparr>"

definition resPlayerPosition_has_y :: "resPlayerPosition \<Rightarrow> bool" where
  "resPlayerPosition_has_y m \<longleftrightarrow> resPlayerPosition_has_bits m AND 2 \<noteq> 0"

definition resPlayerPosition_clear_y :: "resPlayerPosition \<Rightarrow> resPlayerPosition" where
  "resPlayerPosition_clear_y m = m\<lparr>resPlayerPosition_y := 0, resPlayerPosition_has_bits := resPlayerPosition_has_bits m AND NOT 2\<rparr>"

definition resPlayerPosition_set_y :: "u32 \<Rightarrow> resPlayerPosition \<Rightarrow> resPlayerPosition" where
  "resPlayerPosition_set_y v m = m\<lparr>resPlayerPosition_has_bits := resPlayerPosition_has_bits m OR 2, resPlayerPosition_y := v\<rparr>"

definition resPlayerPosition_has_z :: "resPlayerPosition \<Rightarrow> bool" where
  "resPlayerPosition_has_z m \<longleftrightarrow> resPlayerPosition_has_bits m AND 4 \<noteq> 0"

definition resPlayerPosition_clear_z :: "resPlayerPosition \<Rightarrow> resPlayerPosition" where
  "resPlayerPosition_clear_z m = m\<lparr>resPlayerPosition_z := 0, resPlayerPosition_has_bits := resPlayerPosition_has_bits m AND NOT 4\<rparr>"

definition resPlayerPosition_set_z :: "u32 \<Rightarrow> resPlayerPosition \<Rightarrow> resPlayerPosition" where
  "resPlayerPosition_set_z v m = m\<lparr>resPlayerPosition_has_bits := resPlayerPosition_has_bits m OR 4, resPlayerPosition_z := v\<rparr>"

definition resPlayerPosition_has_index :: "resPlayerPosition \<Rightarrow> bool" where
  "resPlayerPosition_has_index m \<longleftrightarrow> resPlayerPosition_has_bits m AND 8 \<noteq> 0"

definition resPlayerPosition_clear_index :: "resPlayerPosition \<Rightarrow> resPlayerPosition" where
  "resPlayerPosition_clear_index m = m\<lparr>resPlayerPosition_index := 0, resPlayerPosition_has_bits := resPlayerPosition_has_bits m AND NOT 8\<rparr>"

definition resPlayerPosition_set_index :: "int32 \<Rightarrow> resPlayerPosition \<Rightarrow> resPlayerPosition" where
  "resPlayerPosition_set_index v m = m\<lparr>resPlayerPosition_has_bits := resPlayerPosition_has_bits m OR 8, resPlayerPosition_index := v\<rparr>"

definition resPlayerPosition_Clear :: "resPlayerPosition \<Rightarrow> resPlayerPosition" where
  "resPlayerPosition_Clear m =
     (if resPlayerPosition_has_bits m AND 15 \<noteq> 0 then m\<lparr>resPlayerPosition_x := 0, resPlayerPosition_y := 0, resPlayerPosition_z := 0, resPlayerPosition_index := 0\<rparr> else m)
       \<lparr>resPlayerPosition_has_bits := 0, resPlayerPosition_unknown := []\<rparr>"

definition resPlayerPosition_MergeImpl :: "resPlayerPosition \<Rightarrow> resPlayerPosition \<Rightarrow> resPlayerPosition" where
  "resPlayerPosition_MergeImpl this from =
     (let b = resPlayerPosition_has_bits from;
          m = (if b AND 15 \<noteq> 0 then
                 (let m1 = (if b AND 1 \<noteq> 0 then this\<lparr>resPlayerPosition_x := resPlayerPosition_x from\<rparr> else this);
                      m2 = (if b AND 2 \<noteq> 0 then m1\<lparr>resPlayerPosition_y := resPlayerPosition_y from\<rparr> else m1);
                      m3 = (if b AND 4 \<noteq> 0 then m2\<lparr>resPlayerPosition_z := resPlayerPosition_z from\<rparr> else m2);
                      m4 = (if b AND 8 \<noteq> 0 then m3\<lparr>resPlayerPosition_index := resPlayerPosition_index from\<rparr> else m3)
                  in m4\<lparr>resPlayerPosition_has_bits := resPlayerPosition_has_bits m4 OR b\<rparr>)
               else this)
      in m\<lparr>resPlayerPosition_unknown := resPlayerPosition_unknown m @ resPlayerPosition_unknown from\<rparr>)"

definition resPlayerPosition_CopyFrom :: "resPlayerPosition \<Rightarrow> resPlayerPosition \<Rightarrow> resPlayerPosition" where
  "resPlayerPosition_CopyFrom this from = resPlayerPosition_MergeImpl (resPlayerPosition_Clear this) from"

definition resPlayerPosition_ByteSizeLong :: "resPlayerPosition \<Rightarrow> nat" where
  "resPlayerPosition_ByteSizeLong m =
     (if resPlayerPosition_has_bits m AND 15 \<noteq> 0 then
        (if resPlayerPosition_has_x m then 1 + 4 else 0) +
        (if resPlayerPosition_has_y m then 1 + 4 else 0) +
        (if resPlayerPosition_has_z m then 1 + 4 else 0) +
        (if resPlayerPosition_has_index m then Int32SizePlusOne (resPlayerPosition_index m) else 0)
      else 0) + length (resPlayerPosition_unknown m)"

definition resPlayerPosition_InternalSerialize :: "pb_lib \<Rightarrow> resPlayerPosition \<Rightarrow> bytes" where
  "resPlayerPosition_InternalSerialize L m =
     (if resPlayerPosition_has_x m then WriteFloatToArray 1 (resPlayerPosition_x m) else []) @
     (if resPlayerPosition_has_y m then WriteFloatToArray 2 (resPlayerPosition_y m) else []) @
     (if resPlayerPosition_has_z m then WriteFloatToArray 3 (resPlayerPosition_z m) else []) @
     (if resPlayerPosition_has_index m then WriteInt32ToArray 4 (resPlayerPosition_index m) else []) @
     resPlayerPosition_unknown m"

definition resPlayerPosition_field :: "pb_lib \<Rightarrow> u32 \<Rightarrow> bytes \<Rightarrow> resPlayerPosition \<Rightarrow> resPlayerPosition field_result" where
  "resPlayerPosition_field L tag p m =
     (if drop_bit 3 tag = 1 then
        (if (ucast tag :: byte) = 13 then handled (UnalignedLoad p)
           (\<lambda>v. m\<lparr>resPlayerPosition_has_bits := resPlayerPosition_has_bits m OR 1, resPlayerPosition_x := v\<rparr>)
         else Unusual)
      else if drop_bit 3 tag = 2 then
        (if (ucast tag :: byte) = 21 then handled (UnalignedLoad p)
           (\<lambda>v. m\<lparr>resPlayerPosition_has_bits := resPlayerPosition_has_bits m OR 2, resPlayerPosition_y := v\<rparr>)
         else Unusual)
      else if drop_bit 3 tag = 3 then
        (if (ucast tag :: byte) = 29 then handled (UnalignedLoad p)
           (\<lambda>v. m\<lparr>resPlayerPosition_has_bits := resPlayerPosition_has_bits m OR 4, resPlayerPosition_z := v\<rparr>)
         else Unusual)
      else if drop_bit 3 tag = 4 then
        (if (ucast tag :: byte) = 32 then handled (ReadVarint32 L p)
           (\<lambda>v. m\<lparr>resPlayerPosition_has_bits := resPlayerPosition_has_bits m OR 8, resPlayerPosition_index := v\<rparr>)
         else Unusual)
      else Unusual)"

definition resPlayerPosition_keep :: "bytes \<Rightarrow> resPlayerPosition \<Rightarrow> resPlayerPosition" where
  "resPlayerPosition_keep raw m = m\<lparr>resPlayerPosition_unknown := resPlayerPosition_unknown m @ raw\<rparr>"

definition resPlayerPosition_parse :: "pb_lib \<Rightarrow> bytes \<Rightarrow> resPlayerPosition option" where
  "resPlayerPosition_parse L p = parse_message L resPlayerPosition_field resPlayerPosition_keep resPlayerPosition_new p"

text \<open>The messages that are read back.\<close>

definition resPlayerPosition_wf :: "pb_lib \<Rightarrow> resPlayerPosition \<Rightarrow> bool" where
  "resPlayerPosition_wf L m \<longleftrightarrow> resPlayerPosition_unknown m = [] \<and>
     resPlayerPosition_ByteSizeLong m < 2 ^ 31 - 16 \<and>
     resPlayerPosition_has_bits m < 16 \<and>
     (\<not> resPlayerPosition_has_x m \<longrightarrow> resPlayerPosition_x m = 0) \<and>
     (\<not> resPlayerPosition_has_y m \<longrightarrow> resPlayerPosition_y m = 0) \<and>
     (\<not> resPlayerPosition_has_z m \<longrightarrow> resPlayerPosition_z m = 0) \<and>
     (\<not> resPlayerPosition_has_index m \<longrightarrow> resPlayerPosition_index m = 0)"

lemma resPlayerPosition_shrinks:
  assumes "pb_lib_ok L"
  shows "field_shrinks L resPlayerPosition_field"
  unfolding field_shrinks_def resPlayerPosition_field_def
  by (auto simp: handled_Handled split: if_splits
      dest: reader_shrinks [OF assms])

lemma resPlayerPosition_size:
  assumes "pb_lib_ok L" and "resPlayerPosition_wf L m"
  shows "length (resPlayerPosition_InternalSerialize L m) = resPlayerPosition_ByteSizeLong m"
  by (simp add: resPlayerPosition_InternalSerialize_def resPlayerPosition_ByteSizeLong_def write_field WriteTag_table field_sizes flag_masks flag_test resPlayerPosition_has_x_def resPlayerPosition_has_y_def resPlayerPosition_has_z_def resPlayerPosition_has_index_def)

abbreviation resPlayerPosition_from :: "pb_lib \<Rightarrow> bytes \<Rightarrow> resPlayerPosition \<Rightarrow> (resPlayerPosition \<times> u32 option) option" where
  "resPlayerPosition_from L p m \<equiv> parse_from L resPlayerPosition_field resPlayerPosition_keep p m"

lemma resPlayerPosition_read_back:
  assumes L: "pb_lib_ok L" and wf: "resPlayerPosition_wf L m"
  shows "resPlayerPosition_parse L (resPlayerPosition_InternalSerialize L m) = Some m"
proof -
  note step = parse_from_field [OF L resPlayerPosition_shrinks [OF L]]
  note w = wf [unfolded resPlayerPosition_wf_def]
  let ?m1 = "resPlayerPosition_new\<lparr>resPlayerPosition_has_bits := resPlayerPosition_has_bits resPlayerPosition_new OR (if resPlayerPosition_has_x m then 1 else 0), resPlayerPosition_x := resPlayerPosition_x m\<rparr>"
  let ?m2 = "?m1\<lparr>resPlayerPosition_has_bits := resPlayerPosition_has_bits ?m1 OR (if resPlayerPosition_has_y m then 2 else 0), resPlayerPosition_y := resPlayerPosition_y m\<rparr>"
  let ?m3 = "?m2\<lparr>resPlayerPosition_has_bits := resPlayerPosition_has_bits ?m2 OR (if resPlayerPosition_has_z m then 4 else 0), resPlayerPosition_z := resPlayerPosition_z m\<rparr>"
  let ?m4 = "?m3\<lparr>resPlayerPosition_has_bits := resPlayerPosition_has_bits ?m3 OR (if resPlayerPosition_has_index m then 8 else 0), resPlayerPosition_index := resPlayerPosition_index m\<rparr>"
  have 1: "resPlayerPosition_from L ((if resPlayerPosition_has_x m then WriteFloatToArray 1 (resPlayerPosition_x m) else []) @ r) resPlayerPosition_new = resPlayerPosition_from L r ?m1" for r
  proof (cases "resPlayerPosition_has_x m")
    case True
    have "resPlayerPosition_field L (ucast (13 :: byte)) (WriteLittleEndian32ToArray (resPlayerPosition_x m) @ r) resPlayerPosition_new = Handled ?m1 r"
      using w True by (simp add: resPlayerPosition_field_def UnalignedLoad_float resPlayerPosition_new_def)
    then have "resPlayerPosition_from L (13 # WriteLittleEndian32ToArray (resPlayerPosition_x m) @ r) resPlayerPosition_new = resPlayerPosition_from L r ?m1"
      by (intro step) simp_all
    then show ?thesis using True by (simp add: write_field WriteTag_table)
  next
    case False
    then show ?thesis using w by (simp add: resPlayerPosition_new_def)
  qed
  have 2: "resPlayerPosition_from L ((if resPlayerPosition_has_y m then WriteFloatToArray 2 (resPlayerPosition_y m) else []) @ r) ?m1 = resPlayerPosition_from L r ?m2" for r
  proof (cases "resPlayerPosition_has_y m")
    case True
    have "resPlayerPosition_field L (ucast (21 :: byte)) (WriteLittleEndian32ToArray (resPlayerPosition_y m) @ r) ?m1 = Handled ?m2 r"
      using w True by (simp add: resPlayerPosition_field_def UnalignedLoad_float resPlayerPosition_new_def)
    then have "resPlayerPosition_from L (21 # WriteLittleEndian32ToArray (resPlayerPosition_y m) @ r) ?m1 = resPlayerPosition_from L r ?m2"
      by (intro step) simp_all
    then show ?thesis using True by (simp add: write_field WriteTag_table)
  next
    case False
    then show ?thesis using w by (simp add: resPlayerPosition_new_def)
  qed
  have 3: "resPlayerPosition_from L ((if resPlayerPosition_has_z m then WriteFloatToArray 3 (resPlayerPosition_z m) else []) @ r) ?m2 = resPlayerPosition_from L r ?m3" for r
  proof (cases "resPlayerPosition_has_z m")
    case True
    have "resPlayerPosition_field L (ucast (29 :: byte)) (WriteLittleEndian32ToArray (resPlayerPosition_z m) @ r) ?m2 = Handled ?m3 r"
      using w True by (simp add: resPlayerPosition_field_def UnalignedLoad_float resPlayerPosition_new_def)
    then have "resPlayerPosition_from L (29 # WriteLittleEndian32ToArray (resPlayerPosition_z m) @ r) ?m2 = resPlayerPosition_from L r ?m3"
      by (intro step) simp_all
    then show ?thesis using True by (simp add: write_field WriteTag_table)
  next
    case False
    then show ?thesis using w by (simp add: resPlayerPosition_new_def)
  qed
  have 4: "resPlayerPosition_from L ((if resPlayerPosition_has_index m then WriteInt32ToArray 4 (resPlayerPosition_index m) else []) @ r) ?m3 = resPlayerPosition_from L r ?m4" for r
  proof (cases "resPlayerPosition_has_index m")
    case True
    have "resPlayerPosition_field L (ucast (32 :: byte)) (WriteVarint32SignExtendedToArray (resPlayerPosition_index m) @ r) ?m3 = Handled ?m4 r"
      using w True by (simp add: resPlayerPosition_field_def ReadVarint32_int32 [OF L] resPlayerPosition_new_def)
    then have "resPlayerPosition_from L (32 # WriteVarint32SignExtendedToArray (resPlayerPosition_index m) @ r) ?m3 = resPlayerPosition_from L r ?m4"
      by (intro step) simp_all
    then show ?thesis using True by (simp add: write_field WriteTag_table)
  next
    case False
    then show ?thesis using w by (simp add: resPlayerPosition_new_def)
  qed
  have "resPlayerPosition_has_bits ?m4 = resPlayerPosition_has_bits m"
    using w flag_collect4 [of "resPlayerPosition_has_bits m"] by (simp add: resPlayerPosition_new_def resPlayerPosition_has_x_def resPlayerPosition_has_y_def resPlayerPosition_has_z_def resPlayerPosition_has_index_def flag_test)
  then have "?m4 = m"
    using w by (intro resPlayerPosition.equality) (simp_all add: resPlayerPosition_new_def)
  then show ?thesis
    using w 4 [of "[]"] unfolding resPlayerPosition_parse_def parse_message_from resPlayerPosition_InternalSerialize_def 1 2 3 4
    by simp
qed

interpretation resPlayerPosition_codec: codec resPlayerPosition_ByteSizeLong resPlayerPosition_InternalSerialize resPlayerPosition_parse resPlayerPosition_wf
  by unfold_locales (simp_all add: resPlayerPosition_size resPlayerPosition_read_back resPlayerPosition_wf_def)

section \<open>resReplicatedPlayerGen\<close>

text \<open>Another player has joined.\<close>

record resReplicatedPlayerGen =
  resReplicatedPlayerGen_has_bits :: u32
  resReplicatedPlayerGen_index :: int32
  resReplicatedPlayerGen_unknown :: bytes

definition resReplicatedPlayerGen_new :: resReplicatedPlayerGen where
  "resReplicatedPlayerGen_new = \<lparr>resReplicatedPlayerGen_has_bits = 0, resReplicatedPlayerGen_index = 0, resReplicatedPlayerGen_unknown = []\<rparr>"

definition resReplicatedPlayerGen_has_index :: "resReplicatedPlayerGen \<Rightarrow> bool" where
  "resReplicatedPlayerGen_has_index m \<longleftrightarrow> resReplicatedPlayerGen_has_bits m AND 1 \<noteq> 0"

definition resReplicatedPlayerGen_clear_index :: "resReplicatedPlayerGen \<Rightarrow> resReplicatedPlayerGen" where
  "resReplicatedPlayerGen_clear_index m = m\<lparr>resReplicatedPlayerGen_index := 0, resReplicatedPlayerGen_has_bits := resReplicatedPlayerGen_has_bits m AND NOT 1\<rparr>"

definition resReplicatedPlayerGen_set_index :: "int32 \<Rightarrow> resReplicatedPlayerGen \<Rightarrow> resReplicatedPlayerGen" where
  "resReplicatedPlayerGen_set_index v m = m\<lparr>resReplicatedPlayerGen_has_bits := resReplicatedPlayerGen_has_bits m OR 1, resReplicatedPlayerGen_index := v\<rparr>"

definition resReplicatedPlayerGen_Clear :: "resReplicatedPlayerGen \<Rightarrow> resReplicatedPlayerGen" where
  "resReplicatedPlayerGen_Clear m = m\<lparr>resReplicatedPlayerGen_index := 0, resReplicatedPlayerGen_has_bits := 0, resReplicatedPlayerGen_unknown := []\<rparr>"

definition resReplicatedPlayerGen_MergeImpl :: "resReplicatedPlayerGen \<Rightarrow> resReplicatedPlayerGen \<Rightarrow> resReplicatedPlayerGen" where
  "resReplicatedPlayerGen_MergeImpl this from =
     (let m = (if resReplicatedPlayerGen_has_index from then resReplicatedPlayerGen_set_index (resReplicatedPlayerGen_index from) this else this)
      in m\<lparr>resReplicatedPlayerGen_unknown := resReplicatedPlayerGen_unknown m @ resReplicatedPlayerGen_unknown from\<rparr>)"

definition resReplicatedPlayerGen_CopyFrom :: "resReplicatedPlayerGen \<Rightarrow> resReplicatedPlayerGen \<Rightarrow> resReplicatedPlayerGen" where
  "resReplicatedPlayerGen_CopyFrom this from = resReplicatedPlayerGen_MergeImpl (resReplicatedPlayerGen_Clear this) from"

definition resReplicatedPlayerGen_ByteSizeLong :: "resReplicatedPlayerGen \<Rightarrow> nat" where
  "resReplicatedPlayerGen_ByteSizeLong m =
     (if resReplicatedPlayerGen_has_index m then Int32SizePlusOne (resReplicatedPlayerGen_index m) else 0) + length (resReplicatedPlayerGen_unknown m)"

definition resReplicatedPlayerGen_InternalSerialize :: "pb_lib \<Rightarrow> resReplicatedPlayerGen \<Rightarrow> bytes" where
  "resReplicatedPlayerGen_InternalSerialize L m =
     (if resReplicatedPlayerGen_has_index m then WriteInt32ToArray 1 (resReplicatedPlayerGen_index m) else []) @
     resReplicatedPlayerGen_unknown m"

definition resReplicatedPlayerGen_field :: "pb_lib \<Rightarrow> u32 \<Rightarrow> bytes \<Rightarrow> resReplicatedPlayerGen \<Rightarrow> resReplicatedPlayerGen field_result" where
  "resReplicatedPlayerGen_field L tag p m =
     (if drop_bit 3 tag = 1 then
        (if (ucast tag :: byte) = 8 then handled (ReadVarint32 L p)
           (\<lambda>v. m\<lparr>resReplicatedPlayerGen_has_bits := resReplicatedPlayerGen_has_bits m OR 1, resReplicatedPlayerGen_index := v\<rparr>)
         else Unusual)
      else Unusual)"

definition resReplicatedPlayerGen_keep :: "bytes \<Rightarrow> resReplicatedPlayerGen \<Rightarrow> resReplicatedPlayerGen" where
  "resReplicatedPlayerGen_keep raw m = m\<lparr>resReplicatedPlayerGen_unknown := resReplicatedPlayerGen_unknown m @ raw\<rparr>"

definition resReplicatedPlayerGen_parse :: "pb_lib \<Rightarrow> bytes \<Rightarrow> resReplicatedPlayerGen option" where
  "resReplicatedPlayerGen_parse L p = parse_message L resReplicatedPlayerGen_field resReplicatedPlayerGen_keep resReplicatedPlayerGen_new p"

text \<open>The messages that are read back.\<close>

definition resReplicatedPlayerGen_wf :: "pb_lib \<Rightarrow> resReplicatedPlayerGen \<Rightarrow> bool" where
  "resReplicatedPlayerGen_wf L m \<longleftrightarrow> resReplicatedPlayerGen_unknown m = [] \<and>
     resReplicatedPlayerGen_ByteSizeLong m < 2 ^ 31 - 16 \<and>
     resReplicatedPlayerGen_has_bits m < 2 \<and>
     (\<not> resReplicatedPlayerGen_has_index m \<longrightarrow> resReplicatedPlayerGen_index m = 0)"

lemma resReplicatedPlayerGen_shrinks:
  assumes "pb_lib_ok L"
  shows "field_shrinks L resReplicatedPlayerGen_field"
  unfolding field_shrinks_def resReplicatedPlayerGen_field_def
  by (auto simp: handled_Handled split: if_splits
      dest: reader_shrinks [OF assms])

lemma resReplicatedPlayerGen_size:
  assumes "pb_lib_ok L" and "resReplicatedPlayerGen_wf L m"
  shows "length (resReplicatedPlayerGen_InternalSerialize L m) = resReplicatedPlayerGen_ByteSizeLong m"
  by (simp add: resReplicatedPlayerGen_InternalSerialize_def resReplicatedPlayerGen_ByteSizeLong_def write_field WriteTag_table field_sizes)

abbreviation resReplicatedPlayerGen_from :: "pb_lib \<Rightarrow> bytes \<Rightarrow> resReplicatedPlayerGen \<Rightarrow> (resReplicatedPlayerGen \<times> u32 option) option" where
  "resReplicatedPlayerGen_from L p m \<equiv> parse_from L resReplicatedPlayerGen_field resReplicatedPlayerGen_keep p m"

lemma resReplicatedPlayerGen_read_back:
  assumes L: "pb_lib_ok L" and wf: "resReplicatedPlayerGen_wf L m"
  shows "resReplicatedPlayerGen_parse L (resReplicatedPlayerGen_InternalSerialize L m) = Some m"
proof -
  note step = parse_from_field [OF L resReplicatedPlayerGen_shrinks [OF L]]
  note w = wf [unfolded resReplicatedPlayerGen_wf_def]
  let ?m1 = "resReplicatedPlayerGen_new\<lparr>resReplicatedPlayerGen_has_bits := resReplicatedPlayerGen_has_bits resReplicatedPlayerGen_new OR (if resReplicatedPlayerGen_has_index m then 1 else 0), resReplicatedPlayerGen_index := resReplicatedPlayerGen_index m\<rparr>"
  have 1: "resReplicatedPlayerGen_from L ((if resReplicatedPlayerGen_has_index m then WriteInt32ToArray 1 (resReplicatedPlayerGen_index m) else []) @ r) resReplicatedPlayerGen_new = resReplicatedPlayerGen_from L r ?m1" for r
  proof (cases "resReplicatedPlayerGen_has_index m")
    case True
    have "resReplicatedPlayerGen_field L (ucast (8 :: byte)) (WriteVarint32SignExtendedToArray (resReplicatedPlayerGen_index m) @ r) resReplicatedPlayerGen_new = Handled ?m1 r"
      using w True by (simp add: resReplicatedPlayerGen_field_def ReadVarint32_int32 [OF L] resReplicatedPlayerGen_new_def)
    then have "resReplicatedPlayerGen_from L (8 # WriteVarint32SignExtendedToArray (resReplicatedPlayerGen_index m) @ r) resReplicatedPlayerGen_new = resReplicatedPlayerGen_from L r ?m1"
      by (intro step) simp_all
    then show ?thesis using True by (simp add: write_field WriteTag_table)
  next
    case False
    then show ?thesis using w by (simp add: resReplicatedPlayerGen_new_def)
  qed
  have "resReplicatedPlayerGen_has_bits ?m1 = resReplicatedPlayerGen_has_bits m"
    using w flag_collect1 [of "resReplicatedPlayerGen_has_bits m"] by (simp add: resReplicatedPlayerGen_new_def resReplicatedPlayerGen_has_index_def flag_test)
  then have "?m1 = m"
    using w by (intro resReplicatedPlayerGen.equality) (simp_all add: resReplicatedPlayerGen_new_def)
  then show ?thesis
    using w 1 [of "[]"] unfolding resReplicatedPlayerGen_parse_def parse_message_from resReplicatedPlayerGen_InternalSerialize_def 1
    by simp
qed

interpretation resReplicatedPlayerGen_codec: codec resReplicatedPlayerGen_ByteSizeLong resReplicatedPlayerGen_InternalSerialize resReplicatedPlayerGen_parse resReplicatedPlayerGen_wf
  by unfold_locales (simp_all add: resReplicatedPlayerGen_size resReplicatedPlayerGen_read_back resReplicatedPlayerGen_wf_def)

end
