(* ===== verification/Server_State.thy ===== *)
theory Server_State
  imports Packet_Manager Inventory_DB Messages_Empty Messages_Item Messages_Player
begin

text \<open>
  The state that the routes work on: the packet manager, the members of the route objects, the
  database, and the calls of \<open>SendPacketFunc\<close> so far, with \<open>BroadcastPacket\<close> of
  \<^verbatim>\<open>PacketManager.cpp\<close>. The surroundings that the code does not determine are one record \<open>env\<close>: the
  protobuf library, the traversal order of a hash set, the content of fresh stack memory, the names
  of the database's tables.
\<close>

section \<open>State\<close>

datatype route_handler =
    RConnection_Connect
  | RConnection_Disconnect
  | RPing_Ping
  | RReplicationPlayer_Synchronize
  | RReplicationPlayer_Des
  | RReplicationPlayer_Join
  | RIenventory_Connect
  | RIenventory_Disconnect
  | RShop_Buy
  | RShop_Sell
  | RShop_RequireItemList

record server =
  srv_pm :: "route_handler packet_manager"
  m_count :: int
  shop_mItemList :: "item list"
  shop_mPacketManager :: bool
  inv_mProvider :: bool
  srv_db :: database
  srv_sent :: "(int \<times> bytes) list"

record env =
  env_lib :: pb_lib
  env_enum :: "int set \<Rightarrow> int list"
  env_stack :: bytes
  env_table :: table_key

abbreviation srv_um :: "server \<Rightarrow> user_manager" where
  "srv_um s \<equiv> mUserManager (srv_pm s)"

definition with_um :: "(user_manager \<Rightarrow> user_manager) \<Rightarrow> server \<Rightarrow> server" where
  "with_um f s = s\<lparr>srv_pm := (srv_pm s)\<lparr>mUserManager := f (srv_um s)\<rparr>\<rparr>"

section \<open>Sending\<close>

text \<open>
  A call of \<open>SendPacketFunc\<close>: the callee takes the size as 16 bits and copies that many bytes from the
  pointer before it returns. \<open>None\<close> is a null pointer.
\<close>

definition SendPacketFunc :: "int \<Rightarrow> bytes option \<Rightarrow> server \<Rightarrow> server result" where
  "SendPacketFunc clientIndex buf s =
     (case buf of
        None \<Rightarrow> Inl NullDeref
      | Some bs \<Rightarrow> Inr (s\<lparr>srv_sent := srv_sent s @ [(clientIndex, take (length bs mod 65536) bs)]\<rparr>))"

definition net_index :: "nat \<Rightarrow> server \<Rightarrow> int" where
  "net_index ptr s = GetNetConnIdx (mUserObjPool (srv_um s) ! ptr)"

fun Broadcast_loop :: "int \<Rightarrow> bytes option \<Rightarrow> bool \<Rightarrow> nat list \<Rightarrow> server \<Rightarrow> server result" where
  "Broadcast_loop sender buf includingSender [] s = Inr s"
| "Broadcast_loop sender buf includingSender (i # rest) s =
     (if \<not> includingSender \<and> net_index i s = sender
      then Broadcast_loop sender buf includingSender rest s
      else bind_result (SendPacketFunc (net_index i s) buf s)
             (Broadcast_loop sender buf includingSender rest))"

text \<open>\<open>reserve\<close> throws when it is given a negative count.\<close>

definition BroadcastPacket :: "env \<Rightarrow> int \<Rightarrow> bytes option \<Rightarrow> bool \<Rightarrow> server \<Rightarrow> server result" where
  "BroadcastPacket E sender buf includingSender s =
     (if GetCurrentUserCnt (srv_um s) < 0 then Inl NegativeLength
      else bind_result (GetAllUser (env_enum E) (srv_um s)) (\<lambda>users.
        Broadcast_loop sender buf includingSender users s))"

section \<open>Facts\<close>

lemma with_um_simps [simp]:
  "srv_um (with_um f s) = f (srv_um s)" "srv_sent (with_um f s) = srv_sent s"
  "shop_mItemList (with_um f s) = shop_mItemList s" "srv_db (with_um f s) = srv_db s"
  "m_count (with_um f s) = m_count s" "shop_mPacketManager (with_um f s) = shop_mPacketManager s"
  "inv_mProvider (with_um f s) = inv_mProvider s"
  "mRecvFuntionDictionary (srv_pm (with_um f s)) = mRecvFuntionDictionary (srv_pm s)"
  by (simp_all add: with_um_def)

lemma net_index_eq: "um_ok (srv_um s) \<Longrightarrow> p < length (mUserObjPool (srv_um s)) \<Longrightarrow> net_index p s = int p"
  by (simp add: net_index_def GetNetConnIdx_def um_ok_def)

lemma net_index_sent [simp]: "net_index i (s\<lparr>srv_sent := x\<rparr>) = net_index i s"
  by (simp add: net_index_def)

lemma SendPacketFunc_Some:
  "length bs < 65536 \<Longrightarrow> SendPacketFunc i (Some bs) s = Inr (s\<lparr>srv_sent := srv_sent s @ [(i, bs)]\<rparr>)"
  by (simp add: SendPacketFunc_def)

lemma Broadcast_loop_Some:
  "length bs < 65536 \<Longrightarrow> Broadcast_loop sender (Some bs) incl us s =
     Inr (s\<lparr>srv_sent := srv_sent s @
       map (\<lambda>i. (i, bs)) (filter (\<lambda>i. incl \<or> i \<noteq> sender) (map (\<lambda>u. net_index u s) us))\<rparr>)"
proof (induction us arbitrary: s)
  case (Cons u us)
  show ?case
  proof (cases "\<not> incl \<and> net_index u s = sender")
    case True
    then show ?thesis using Cons by auto
  next
    case False
    then show ?thesis using Cons.prems by (auto simp: SendPacketFunc_Some Cons.IH [OF Cons.prems])
  qed
qed simp

lemma Broadcast_loop_None:
  "Broadcast_loop sender None incl us s =
     (if \<exists>u \<in> set us. incl \<or> net_index u s \<noteq> sender then Inl NullDeref else Inr s)"
  by (induction us) (auto simp: SendPacketFunc_def)

text \<open>The recipients of a broadcast: the connected indices, in the order of the hash set.\<close>

definition recipients :: "env \<Rightarrow> int \<Rightarrow> bool \<Rightarrow> server \<Rightarrow> int list" where
  "recipients E sender incl s =
     filter (\<lambda>i. incl \<or> i \<noteq> sender) (env_enum E (mUserIDDictionary (srv_um s)))"

definition srv_ok :: "env \<Rightarrow> server \<Rightarrow> bool" where
  "srv_ok E s \<longleftrightarrow> um_ok (srv_um s) \<and> counted (srv_um s) \<and> enum_ok (env_enum E) \<and> pb_lib_ok (env_lib E)"

lemma srv_ok_enum:
  assumes "srv_ok E s"
  shows "set (env_enum E (mUserIDDictionary (srv_um s))) = mUserIDDictionary (srv_um s)"
    and "distinct (env_enum E (mUserIDDictionary (srv_um s)))"
  using assms um_ok_finite by (auto simp: srv_ok_def enum_ok_def)

lemma net_indices:
  assumes "srv_ok E s"
  shows "map (\<lambda>u. net_index u s) (map nat (env_enum E (mUserIDDictionary (srv_um s)))) =
     env_enum E (mUserIDDictionary (srv_um s))"
proof -
  have "net_index (nat i) s = i" if "i \<in> mUserIDDictionary (srv_um s)" for i
  proof -
    have "0 \<le> i" "i < int (length (mUserObjPool (srv_um s)))" using assms that by (auto simp: srv_ok_def um_ok_def)
    then show ?thesis using assms by (simp add: net_index_eq srv_ok_def)
  qed
  then show ?thesis
    using srv_ok_enum(1) [OF assms] unfolding map_map comp_def by (intro map_idI) simp
qed

lemma srv_ok_users: "srv_ok E s \<Longrightarrow>
    GetAllUser (env_enum E) (srv_um s) = Inr (map nat (env_enum E (mUserIDDictionary (srv_um s))))"
  by (simp add: srv_ok_def GetAllUser_eq)

lemma srv_ok_count: "srv_ok E s \<Longrightarrow> \<not> GetCurrentUserCnt (srv_um s) < 0"
  by (simp add: srv_ok_def counted_def GetCurrentUserCnt_def)

lemma BroadcastPacket_Some:
  assumes "srv_ok E s" and "length bs < 65536"
  shows "BroadcastPacket E sender (Some bs) incl s =
     Inr (s\<lparr>srv_sent := srv_sent s @ map (\<lambda>i. (i, bs)) (recipients E sender incl s)\<rparr>)"
  using net_indices [OF assms(1)]
  by (simp add: BroadcastPacket_def srv_ok_count [OF assms(1)] srv_ok_users [OF assms(1)]
      Broadcast_loop_Some [OF assms(2)] recipients_def del: map_map)

lemma BroadcastPacket_None:
  assumes "srv_ok E s"
  shows "BroadcastPacket E sender None incl s =
     (if recipients E sender incl s = [] then Inr s else Inl NullDeref)"
proof -
  let ?us = "map nat (env_enum E (mUserIDDictionary (srv_um s)))"
  have "(\<exists>u \<in> set ?us. incl \<or> net_index u s \<noteq> sender) \<longleftrightarrow>
      (\<exists>i \<in> set (map (\<lambda>u. net_index u s) ?us). incl \<or> i \<noteq> sender)" by (simp del: map_map)
  also have "\<dots> \<longleftrightarrow> recipients E sender incl s \<noteq> []"
    unfolding net_indices [OF assms] by (auto simp: recipients_def filter_empty_conv)
  finally show ?thesis
    by (simp add: BroadcastPacket_def srv_ok_count [OF assms] srv_ok_users [OF assms] Broadcast_loop_None
        del: set_map)
qed

lemma srv_ok_with_user:
  assumes "srv_ok E s" and "\<And>v. mIndex (f v) = mIndex v"
  shows "srv_ok E (with_um (with_user p f) s)"
  using assms(1) with_user_um_ok [OF _ assms(2), of "srv_um s" p]
  by (simp add: srv_ok_def counted_def with_user_def)

text \<open>What \<open>GetPacked\<close> allocates fits in the 16 bits of a size.\<close>

lemma GetPacked_short:
  assumes "GetPacked L sz ser nm st uid m = Inr (Some bs)"
  shows "length bs \<le> BUF_SIZE"
  using assms
  by (auto simp: GetPacked_def Pack_def Let_def bind_result_Inr_iff split: option.splits if_splits
      dest!: length_copy_into)

lemma GetPacked_short16: "GetPacked L sz ser nm st uid m = Inr (Some bs) \<Longrightarrow> length bs < 65536"
  using GetPacked_short [of L sz ser nm st uid m bs] by (simp add: BUF_SIZE_def)

lemma Int32SizePlusOne_le: "Int32SizePlusOne i \<le> 11"
  using length_UnsafeVarint_le
  by (simp add: Int32SizePlusOne_def VarintSize32SignExtendedPlusOne_def VarintSizePlusOne VarintSize64_eq)

end
