(* ===== verification/Routes_Player.thy ===== *)
theory Routes_Player
  imports Server_State
begin

unbundle bit_operations_syntax

text \<open>
  The routes of connections and players: \<^verbatim>\<open>RConnection.cpp\<close>, \<^verbatim>\<open>RPing.cpp\<close>, \<^verbatim>\<open>RReplicationPlayer.cpp\<close>. A handler
  takes the header it is called with and the server state. A heap block that is not freed is left
  out of the state; a block that is freed and used again is followed with a flag.
\<close>

section \<open>Packing a reply\<close>

definition packed_reply ::
    "env \<Rightarrow> ('m \<Rightarrow> nat) \<Rightarrow> (pb_lib \<Rightarrow> 'm \<Rightarrow> bytes) \<Rightarrow> string \<Rightarrow> uint32 \<Rightarrow> 'm \<Rightarrow> bytes option result" where
  "packed_reply E byte_size ser full_name userid m =
     GetPacked (env_lib E) byte_size ser full_name (env_stack E) userid m"

abbreviation packed_Gen :: "env \<Rightarrow> uint32 \<Rightarrow> resReplicatedPlayerGen \<Rightarrow> bytes option result" where
  "packed_Gen E \<equiv> packed_reply E resReplicatedPlayerGen_ByteSizeLong resReplicatedPlayerGen_InternalSerialize
     resReplicatedPlayerGen_full_name"

abbreviation packed_Position :: "env \<Rightarrow> uint32 \<Rightarrow> resPlayerPosition \<Rightarrow> bytes option result" where
  "packed_Position E \<equiv> packed_reply E resPlayerPosition_ByteSizeLong resPlayerPosition_InternalSerialize
     resPlayerPosition_full_name"

abbreviation packed_Join :: "env \<Rightarrow> uint32 \<Rightarrow> resPlayerJoin \<Rightarrow> bytes option result" where
  "packed_Join E \<equiv> packed_reply E ZeroFields_ByteSizeLong ZeroFields_InternalSerialize resPlayerJoin_full_name"

section \<open>RConnection\<close>

definition RConnection_Connect_run :: "env \<Rightarrow> messageHeader \<Rightarrow> server \<Rightarrow> server result" where
  "RConnection_Connect_run E header s =
     bind_result (AddUser (sint (hdr_userid header)) (srv_um s)) (\<lambda>(pUser, um).
     bind_result (packed_Join E (hdr_userid header) resPlayerJoin_new) (\<lambda>tosendHeader.
       SendPacketFunc (sint (hdr_userid header)) tosendHeader (with_um (\<lambda>_. um) s)))"

definition RConnection_Disconnect_run :: "messageHeader \<Rightarrow> server \<Rightarrow> server result" where
  "RConnection_Disconnect_run header s =
     bind_result (GetUserByConnIdx (sint (hdr_userid header)) (srv_um s)) (\<lambda>pReqUser.
     bind_result (DeleteUser pReqUser (srv_um s)) (\<lambda>um. Inr (with_um (\<lambda>_. um) s)))"

section \<open>RPing\<close>

definition RPing_Ping_run :: "env \<Rightarrow> messageHeader \<Rightarrow> server \<Rightarrow> server result" where
  "RPing_Ping_run E header s =
     bind_result (GetPacket (ZeroFields_parse (env_lib E)) header) (\<lambda>a.
       case a of
         None \<Rightarrow> Inr s
       | Some _ \<Rightarrow> bind_result (add_int32 (m_count s) 1) (\<lambda>c. Inr (s\<lparr>m_count := c\<rparr>)))"

section \<open>RReplicationPlayer\<close>

definition resPlayerPosition_of :: "uint32 \<Rightarrow> reqPlayerPosition \<Rightarrow> resPlayerPosition" where
  "resPlayerPosition_of userid req =
     resPlayerPosition_set_z (reqPlayerPosition_z req)
       (resPlayerPosition_set_y (reqPlayerPosition_y req)
         (resPlayerPosition_set_x (reqPlayerPosition_x req)
           (resPlayerPosition_set_index userid resPlayerPosition_new)))"

text \<open>\<open>GetPacket\<close> returns null when the payload does not parse, and the request is used without a check.\<close>

definition RReplicationPlayer_Synchronize_run :: "env \<Rightarrow> messageHeader \<Rightarrow> server \<Rightarrow> server result" where
  "RReplicationPlayer_Synchronize_run E header s =
     bind_result (GetPacket (reqPlayerPosition_parse (env_lib E)) header) (\<lambda>r.
       case r of
         None \<Rightarrow> Inl NullDeref
       | Some req \<Rightarrow>
           bind_result (packed_Position E (hdr_userid header) (resPlayerPosition_of (hdr_userid header) req)) (\<lambda>buf.
             case buf of
               None \<Rightarrow> Inr s
             | Some _ \<Rightarrow> BroadcastPacket E (sint (hdr_userid header)) buf False s))"

definition RReplicationPlayer_Des_run :: "messageHeader \<Rightarrow> server \<Rightarrow> server result" where
  "RReplicationPlayer_Des_run header s = Inr s"

text \<open>
  The first loop of \<open>Join\<close> sends the block \<open>buf\<close>, allocated once before the loop, to every other user
  and deletes it in each round.
\<close>

fun Join_announce :: "uint32 \<Rightarrow> bytes option \<Rightarrow> bool \<Rightarrow> nat list \<Rightarrow> server \<Rightarrow> server result" where
  "Join_announce userid buf freed [] s = Inr s"
| "Join_announce userid buf freed (user # users) s =
     (if userid = word_of_int (net_index user s) then Join_announce userid buf freed users s
      else case buf of
             None \<Rightarrow> Join_announce userid buf freed users s
           | Some _ \<Rightarrow>
               if freed then Inl UseAfterFree
               else bind_result (SendPacketFunc (net_index user s) buf s) (Join_announce userid buf True users))"

fun Join_introduce :: "env \<Rightarrow> uint32 \<Rightarrow> resReplicatedPlayerGen \<Rightarrow> nat list \<Rightarrow> server \<Rightarrow> server result" where
  "Join_introduce E userid genRes [] s = Inr s"
| "Join_introduce E userid genRes (user # users) s =
     (if userid = word_of_int (net_index user s) then Join_introduce E userid genRes users s
      else let genRes' = resReplicatedPlayerGen_set_index (word_of_int (net_index user s)) genRes in
        bind_result (packed_Gen E userid genRes') (\<lambda>buf.
          case buf of
            None \<Rightarrow> Join_introduce E userid genRes' users s
          | Some _ \<Rightarrow>
              bind_result (SendPacketFunc (sint userid) buf s) (Join_introduce E userid genRes' users)))"

definition RReplicationPlayer_Join_run :: "env \<Rightarrow> messageHeader \<Rightarrow> server \<Rightarrow> server result" where
  "RReplicationPlayer_Join_run E header s =
     (let genRes = resReplicatedPlayerGen_set_index (hdr_userid header) resReplicatedPlayerGen_new in
      bind_result (packed_Gen E (hdr_userid header) genRes) (\<lambda>buf.
      bind_result (GetAllUser (env_enum E) (srv_um s)) (\<lambda>users.
      bind_result (Join_announce (hdr_userid header) buf False users s)
        (Join_introduce E (hdr_userid header) genRes users))))"

section \<open>The messages that are sent\<close>

lemma Gen_set_index [simp]:
  "resReplicatedPlayerGen_set_index i (resReplicatedPlayerGen_set_index j m) = resReplicatedPlayerGen_set_index i m"
  by (simp add: resReplicatedPlayerGen_set_index_def)

lemma Gen_wf:
  "resReplicatedPlayerGen_wf L (resReplicatedPlayerGen_set_index i resReplicatedPlayerGen_new)"
  "resReplicatedPlayerGen_ByteSizeLong (resReplicatedPlayerGen_set_index i resReplicatedPlayerGen_new) \<le> 4000"
  using Int32SizePlusOne_le [of i]
  by (simp_all add: resReplicatedPlayerGen_wf_def resReplicatedPlayerGen_ByteSizeLong_def resReplicatedPlayerGen_new_def
      resReplicatedPlayerGen_set_index_def resReplicatedPlayerGen_has_index_def)

lemma Position_wf:
  "resPlayerPosition_wf L (resPlayerPosition_of i req)"
  "resPlayerPosition_ByteSizeLong (resPlayerPosition_of i req) \<le> 4000"
  using Int32SizePlusOne_le [of i]
  by (simp_all add: resPlayerPosition_wf_def resPlayerPosition_ByteSizeLong_def resPlayerPosition_new_def
      resPlayerPosition_of_def resPlayerPosition_set_x_def resPlayerPosition_set_y_def resPlayerPosition_set_z_def
      resPlayerPosition_set_index_def resPlayerPosition_has_index_def resPlayerPosition_has_x_def
      resPlayerPosition_has_y_def resPlayerPosition_has_z_def)

text \<open>The frames that carry them.\<close>

definition Gen_packet :: "env \<Rightarrow> uint32 \<Rightarrow> uint32 \<Rightarrow> bytes" where
  "Gen_packet E userid i =
     frame (messageHeader_InternalSerialize (env_lib E)
       (resReplicatedPlayerGen_codec.envelope (env_lib E) resReplicatedPlayerGen_full_name userid
         (resReplicatedPlayerGen_set_index i resReplicatedPlayerGen_new)))"

definition Position_packet :: "env \<Rightarrow> uint32 \<Rightarrow> reqPlayerPosition \<Rightarrow> bytes" where
  "Position_packet E userid req =
     frame (messageHeader_InternalSerialize (env_lib E)
       (resPlayerPosition_codec.envelope (env_lib E) resPlayerPosition_full_name userid
         (resPlayerPosition_of userid req)))"

definition Join_packet :: "env \<Rightarrow> uint32 \<Rightarrow> bytes" where
  "Join_packet E userid =
     frame (messageHeader_InternalSerialize (env_lib E)
       (zero_fields_codec.envelope (env_lib E) resPlayerJoin_full_name userid resPlayerJoin_new))"

lemma packed_Gen_eq:
  assumes "pb_lib_ok (env_lib E)"
  shows "packed_Gen E userid (resReplicatedPlayerGen_set_index i resReplicatedPlayerGen_new) =
     Inr (Some (Gen_packet E userid i))"
  unfolding packed_reply_def Gen_packet_def
  by (intro resReplicatedPlayerGen_codec.GetPacked_fits [OF assms] Gen_wf full_names_short)

lemma packed_Position_eq:
  assumes "pb_lib_ok (env_lib E)"
  shows "packed_Position E userid (resPlayerPosition_of userid req) = Inr (Some (Position_packet E userid req))"
  unfolding packed_reply_def Position_packet_def
  by (intro resPlayerPosition_codec.GetPacked_fits [OF assms] Position_wf full_names_short)

lemma packed_Join_eq:
  assumes "pb_lib_ok (env_lib E)"
  shows "packed_Join E userid resPlayerJoin_new = Inr (Some (Join_packet E userid))"
  unfolding packed_reply_def Join_packet_def
  by (intro zero_fields_codec.GetPacked_fits [OF assms] full_names_short)
    (simp_all add: zero_fields_wf_def resPlayerJoin_new_def ZeroFields_ByteSizeLong_def)

lemma packet_lengths:
  assumes "pb_lib_ok (env_lib E)"
  shows "length (Gen_packet E userid i) < 65536" "length (Position_packet E userid req) < 65536"
    "length (Join_packet E userid) < 65536"
  using packed_Gen_eq [OF assms] packed_Position_eq [OF assms] packed_Join_eq [OF assms]
  unfolding packed_reply_def by (blast intro: GetPacked_short16)+

lemma Position_packet_read:
  assumes "pb_lib_ok (env_lib E)"
  shows "\<exists>h. Unpack (messageHeader_parse (env_lib E)) (Position_packet E userid req) = Inr (Some h) \<and>
     hdr_type h = resPlayerPosition_full_name \<and>
     GetPacket (resPlayerPosition_parse (env_lib E)) h = Inr (Some (resPlayerPosition_of userid req))"
  using resPlayerPosition_codec.GetPacked_GetPacket [OF assms Position_wf(1)
      resPlayerPosition_codec.envelope_wf [OF assms Position_wf(1) full_names_short(3,4) Position_wf(2)]
      _ packed_Position_eq [OF assms, unfolded packed_reply_def], where r = "[]"]
  by (auto simp: Position_packet_def)

section \<open>The loops of Join\<close>

text \<open>A user id that is compared with an index of the pool.\<close>

lemma userid_eq_index:
  assumes "0 \<le> i" and "i \<le> int32_max"
  shows "userid = word_of_int i \<longleftrightarrow> i = sint (userid :: uint32)"
proof -
  have "sint (word_of_int i :: uint32) = i"
    using sint_of_nat_small [of "nat i"] assms by (simp add: int32_max_def)
  then show ?thesis by auto
qed

definition indices_ok :: "server \<Rightarrow> nat list \<Rightarrow> bool" where
  "indices_ok s us \<longleftrightarrow> (\<forall>u \<in> set us. 0 \<le> net_index u s \<and> net_index u s \<le> int32_max)"

definition other_users :: "uint32 \<Rightarrow> server \<Rightarrow> nat list \<Rightarrow> int list" where
  "other_users userid s us = filter (\<lambda>i. i \<noteq> sint userid) (map (\<lambda>u. net_index u s) us)"

lemma Join_announce_freed:
  assumes "indices_ok s us"
  shows "Join_announce userid (Some bs) True us s =
     (if other_users userid s us = [] then Inr s else Inl UseAfterFree)"
  using assms by (induction us) (auto simp: indices_ok_def other_users_def userid_eq_index)

lemma indices_ok_sent [simp]: "indices_ok (s\<lparr>srv_sent := x\<rparr>) us = indices_ok s us"
  by (simp add: indices_ok_def)

lemma other_users_sent [simp]: "other_users u (s\<lparr>srv_sent := x\<rparr>) us = other_users u s us"
  by (simp add: other_users_def)

lemma Join_announce_eq:
  assumes "indices_ok s us" and "length bs < 65536"
  shows "Join_announce userid (Some bs) False us s =
     (if 2 \<le> length (other_users userid s us) then Inl UseAfterFree
      else Inr (s\<lparr>srv_sent := srv_sent s @ map (\<lambda>i. (i, bs)) (other_users userid s us)\<rparr>))"
  using assms(1)
proof (induction us)
  case Nil
  then show ?case by (simp add: other_users_def)
next
  case (Cons u us)
  then have u: "0 \<le> net_index u s" "net_index u s \<le> int32_max" and us: "indices_ok s us"
    by (simp_all add: indices_ok_def)
  show ?case
  proof (cases "net_index u s = sint userid")
    case True
    then have "userid = word_of_int (net_index u s)" using userid_eq_index [OF u] by simp
    moreover have "other_users userid s (u # us) = other_users userid s us" using True by (simp add: other_users_def)
    ultimately show ?thesis using Cons.IH [OF us] by simp
  next
    case False
    then have n: "userid \<noteq> word_of_int (net_index u s)" using userid_eq_index [OF u] by simp
    have o: "other_users userid s (u # us) = net_index u s # other_users userid s us"
      using False by (simp add: other_users_def)
    show ?thesis
      using us n unfolding o
      by (cases "other_users userid s us") (simp_all add: SendPacketFunc_Some [OF assms(2)] Join_announce_freed)
  qed
qed

lemma Join_introduce_eq:
  assumes "indices_ok s us" and "pb_lib_ok (env_lib E)"
  shows "Join_introduce E userid (resReplicatedPlayerGen_set_index j resReplicatedPlayerGen_new) us s =
     Inr (s\<lparr>srv_sent := srv_sent s @
       map (\<lambda>i. (sint userid, Gen_packet E userid (word_of_int i))) (other_users userid s us)\<rparr>)"
  using assms(1)
proof (induction us arbitrary: s j)
  case Nil
  then show ?case by (simp add: other_users_def)
next
  case (Cons u us)
  then have u: "0 \<le> net_index u s" "net_index u s \<le> int32_max" and us: "indices_ok s us"
    by (simp_all add: indices_ok_def)
  show ?case
  proof (cases "net_index u s = sint userid")
    case True
    then have "userid = word_of_int (net_index u s)" using userid_eq_index [OF u] by simp
    moreover have "other_users userid s (u # us) = other_users userid s us" using True by (simp add: other_users_def)
    ultimately show ?thesis using Cons.IH [OF us] by simp
  next
    case False
    then have n: "userid \<noteq> word_of_int (net_index u s)" using userid_eq_index [OF u] by simp
    have o: "other_users userid s (u # us) = net_index u s # other_users userid s us"
      using False by (simp add: other_users_def)
    show ?thesis
      using n us unfolding o
      by (simp add: packed_Gen_eq [OF assms(2)] SendPacketFunc_Some packet_lengths [OF assms(2)] Cons.IH Let_def)
  qed
qed

section \<open>The handlers\<close>

lemma srv_ok_indices:
  assumes "srv_ok E s"
  shows "indices_ok s (map nat (env_enum E (mUserIDDictionary (srv_um s))))"
    and "other_users userid s (map nat (env_enum E (mUserIDDictionary (srv_um s)))) = recipients E (sint userid) False s"
proof -
  let ?us = "map nat (env_enum E (mUserIDDictionary (srv_um s)))"
  have "set (map (\<lambda>u. net_index u s) ?us) = mUserIDDictionary (srv_um s)"
    unfolding net_indices [OF assms] by (rule srv_ok_enum(1) [OF assms])
  moreover have "mUserIDDictionary (srv_um s) \<subseteq> {0..int32_max}"
    using assms by (auto simp: srv_ok_def um_ok_def)
  ultimately show "indices_ok s ?us" by (fastforce simp: indices_ok_def)
  show "other_users userid s ?us = recipients E (sint userid) False s"
    unfolding other_users_def net_indices [OF assms] by (simp add: recipients_def)
qed

lemma recipients_set:
  assumes "srv_ok E s"
  shows "set (recipients E sender False s) = mUserIDDictionary (srv_um s) - {sender}"
    and "set (recipients E sender True s) = mUserIDDictionary (srv_um s)"
    and "distinct (recipients E sender incl s)"
  using srv_ok_enum [OF assms] by (auto simp: recipients_def)

lemma recipients_sent [simp]: "recipients E x incl (s\<lparr>srv_sent := y\<rparr>) = recipients E x incl s"
  by (simp add: recipients_def)

lemma Join_run_eq:
  assumes "srv_ok E s"
  shows "RReplicationPlayer_Join_run E header s =
     (let others = recipients E (sint (hdr_userid header)) False s in
      if 2 \<le> length others then Inl UseAfterFree
      else Inr (s\<lparr>srv_sent := srv_sent s @
         map (\<lambda>i. (i, Gen_packet E (hdr_userid header) (hdr_userid header))) others @
         map (\<lambda>i. (sint (hdr_userid header), Gen_packet E (hdr_userid header) (word_of_int i))) others\<rparr>))"
proof -
  have L: "pb_lib_ok (env_lib E)" using assms by (simp add: srv_ok_def)
  note i = srv_ok_indices [OF assms]
  show ?thesis
    by (simp add: RReplicationPlayer_Join_run_def Let_def packed_Gen_eq [OF L] srv_ok_users [OF assms] i
        Join_announce_eq packet_lengths [OF L] Join_introduce_eq [OF _ L])
qed

lemma Connect_run_eq:
  assumes "srv_ok E s" and "i = sint (hdr_userid header)" and "AddUser i (srv_um s) = Inr (e, um)"
  shows "RConnection_Connect_run E header s =
     Inr ((with_um (\<lambda>_. um) s)\<lparr>srv_sent := srv_sent s @ [(i, Join_packet E (hdr_userid header))]\<rparr>)"
  using assms by (simp add: RConnection_Connect_run_def packed_Join_eq SendPacketFunc_Some packet_lengths srv_ok_def)

lemma Disconnect_run_eq:
  assumes "i = sint (hdr_userid header)" and "0 \<le> i" and "i < int (length (mUserObjPool (srv_um s)))"
    and "DeleteUser (nat i) (srv_um s) = Inr um"
  shows "RConnection_Disconnect_run header s = Inr (with_um (\<lambda>_. um) s)"
  using assms by (simp add: RConnection_Disconnect_run_def GetUserByConnIdx_def vec_get_def)

lemma srv_ok_frame [simp]: "srv_ok E (s\<lparr>srv_sent := x\<rparr>) = srv_ok E s"
  by (simp add: srv_ok_def)

section \<open>Properties\<close>

text \<open>C25: A position request is relayed to every other connected player exactly once, and what each of them
  unpacks is a position message with the index of the sender and the coordinates of the request.\<close>

theorem position_relayed:
  assumes "srv_ok E s" and "GetPacket (reqPlayerPosition_parse (env_lib E)) header = Inr (Some req)"
  shows "\<exists>bs h res to. RReplicationPlayer_Synchronize_run E header s =
       Inr (s\<lparr>srv_sent := srv_sent s @ map (\<lambda>i. (i, bs)) to\<rparr>) \<and>
     distinct to \<and> set to = mUserIDDictionary (srv_um s) - {sint (hdr_userid header)} \<and>
     Unpack (messageHeader_parse (env_lib E)) bs = Inr (Some h) \<and>
     GetPacket (resPlayerPosition_parse (env_lib E)) h = Inr (Some res) \<and>
     resPlayerPosition_index res = hdr_userid header \<and> resPlayerPosition_x res = reqPlayerPosition_x req \<and>
     resPlayerPosition_y res = reqPlayerPosition_y req \<and> resPlayerPosition_z res = reqPlayerPosition_z req"
proof -
  have L: "pb_lib_ok (env_lib E)" using assms(1) by (simp add: srv_ok_def)
  have "RReplicationPlayer_Synchronize_run E header s = Inr (s\<lparr>srv_sent := srv_sent s @
      map (\<lambda>i. (i, Position_packet E (hdr_userid header) req)) (recipients E (sint (hdr_userid header)) False s)\<rparr>)"
    by (simp add: RReplicationPlayer_Synchronize_run_def assms(2) packed_Position_eq [OF L]
        BroadcastPacket_Some [OF assms(1)] packet_lengths [OF L])
  moreover have "let res = resPlayerPosition_of (hdr_userid header) req in
     resPlayerPosition_index res = hdr_userid header \<and> resPlayerPosition_x res = reqPlayerPosition_x req \<and>
     resPlayerPosition_y res = reqPlayerPosition_y req \<and> resPlayerPosition_z res = reqPlayerPosition_z req"
    by (simp add: resPlayerPosition_of_def resPlayerPosition_set_x_def resPlayerPosition_set_y_def
        resPlayerPosition_set_z_def resPlayerPosition_set_index_def)
  ultimately show ?thesis
    using Position_packet_read [OF L, of "hdr_userid header" req] recipients_set(1,3) [OF assms(1)]
    unfolding Let_def by blast
qed

text \<open>C24: When a player joins, with at most one other player connected, that player is told of the new one
  and the new one of that player, in this order. With two or more others connected the handler
  deletes the announcement in the first round of its loop and sends the freed block in the second.\<close>

theorem Join_announcements:
  assumes "srv_ok E s"
  shows "RReplicationPlayer_Join_run E header s =
     (let others = recipients E (sint (hdr_userid header)) False s in
      if 2 \<le> length others then Inl UseAfterFree
      else Inr (s\<lparr>srv_sent := srv_sent s @
         map (\<lambda>i. (i, Gen_packet E (hdr_userid header) (hdr_userid header))) others @
         map (\<lambda>i. (sint (hdr_userid header), Gen_packet E (hdr_userid header) (word_of_int i))) others\<rparr>))"
  by (rule Join_run_eq [OF assms])

text \<open>The handlers of connections follow the user manager: connecting an index that is not connected
  sends exactly one join message to it, makes it the one new member of the connected set and keeps
  the server well-formed; disconnecting it again restores set and count without sending.\<close>

lemma Connect_Disconnect:
  assumes "srv_ok E s" and "hdr_userid header = word_of_int i" and "0 \<le> i" and "i < mMaxUserCnt (srv_um s)"
    and "i \<notin> mUserIDDictionary (srv_um s)"
  shows "\<exists>s1 s2. RConnection_Connect_run E header s = Inr s1 \<and> srv_ok E s1 \<and>
     mUserIDDictionary (srv_um s1) = insert i (mUserIDDictionary (srv_um s)) \<and>
     srv_sent s1 = srv_sent s @ [(i, Join_packet E (hdr_userid header))] \<and>
     RConnection_Disconnect_run header s1 = Inr s2 \<and> srv_ok E s2 \<and>
     mUserIDDictionary (srv_um s2) = mUserIDDictionary (srv_um s) \<and>
     mCurrentUserCnt (srv_um s2) = mCurrentUserCnt (srv_um s) \<and> srv_sent s2 = srv_sent s1"
proof -
  have um: "um_ok (srv_um s)" "counted (srv_um s)" using assms(1) by (simp_all add: srv_ok_def)
  from AddUser_counted [OF um assms(3-5)] obtain m1 where
    m1: "AddUser i (srv_um s) = Inr (NONE, m1)" "um_ok m1" "counted m1"
    "mUserIDDictionary m1 = insert i (mUserIDDictionary (srv_um s))" "mMaxUserCnt m1 = mMaxUserCnt (srv_um s)" by blast
  from DeleteUser_counted [of m1 i] m1 obtain m2 where
    m2: "DeleteUser (nat i) m1 = Inr m2" "um_ok m2" "counted m2"
    "mUserIDDictionary m2 = mUserIDDictionary m1 - {i}" by blast
  have "i \<le> int32_max" using assms(4) um(1) by (simp add: um_ok_def)
  then have sint: "sint (hdr_userid header) = i"
    using userid_eq_index [OF assms(3), of "hdr_userid header"] assms(2) by simp
  have len: "i < int (length (mUserObjPool m1))" using m1(2,5) assms(4) by (simp add: um_ok_def)
  let ?s1 = "(with_um (\<lambda>_. m1) s)\<lparr>srv_sent := srv_sent s @ [(i, Join_packet E (hdr_userid header))]\<rparr>"
  have 1: "RConnection_Connect_run E header s = Inr ?s1"
    by (rule Connect_run_eq [OF assms(1) sint [symmetric] m1(1)])
  have 2: "RConnection_Disconnect_run header ?s1 = Inr (with_um (\<lambda>_. m2) ?s1)"
    using m2(1) len assms(3) by (intro Disconnect_run_eq [OF sint [symmetric]]) simp_all
  have "mUserIDDictionary m2 = mUserIDDictionary (srv_um s)" using m2(4) m1(4) assms(5) by simp
  with 1 2 m1 m2 um(2) assms(1) show ?thesis
    by (intro exI [of _ ?s1] exI [of _ "with_um (\<lambda>_. m2) ?s1"]) (simp add: srv_ok_def counted_def)
qed

text \<open>The type of a client's packet is not checked against the types that only the server should send:
  when the handler of connections runs for an index that is connected, as it does for a client that
  sends a packet of type \<open>SYSTEM_USER_CONNECT\<close>, the counter of users exceeds their number.\<close>

lemma forged_connect_miscounts:
  assumes "srv_ok E s" and "hdr_userid header = word_of_int i" and "i \<in> mUserIDDictionary (srv_um s)"
    and "mCurrentUserCnt (srv_um s) < int32_max"
  shows "\<exists>s1. RConnection_Connect_run E header s = Inr s1 \<and>
     mUserIDDictionary (srv_um s1) = mUserIDDictionary (srv_um s) \<and> \<not> counted (srv_um s1)"
proof -
  have um: "um_ok (srv_um s)" "counted (srv_um s)" using assms(1) by (simp_all add: srv_ok_def)
  then have i: "0 \<le> i" "i < int (length (mUserObjPool (srv_um s)))" "i \<le> int32_max"
    using assms(3) by (auto simp: um_ok_def)
  then have sint: "sint (hdr_userid header) = i"
    using userid_eq_index [OF i(1,3), of "hdr_userid header"] assms(2) by simp
  have "in_int32 (mCurrentUserCnt (srv_um s) + 1)"
    using um(2) assms(4) by (simp add: counted_def int32_bounds int32_max_def)
  then obtain m where m: "AddUser i (srv_um s) = Inr (NONE, m)" "mCurrentUserCnt m = mCurrentUserCnt (srv_um s) + 1"
    "mUserIDDictionary m = mUserIDDictionary (srv_um s)"
    using i assms(3) by (auto simp: AddUser_Inr_iff insert_absorb)
  then show ?thesis
    unfolding Connect_run_eq [OF assms(1) sint [symmetric] m(1)] using um(2) by (simp add: counted_def)
qed

subsection \<open>Witnesses\<close>

definition wenv :: env where
  "wenv = \<lparr>env_lib = ref_lib, env_enum = sorted_enum, env_stack = [], env_table = Some\<rparr>"

definition wserver :: "int set \<Rightarrow> server" where
  "wserver D =
     \<lparr>srv_pm = \<lparr>mUserManager = wum\<lparr>mUserIDDictionary := D, mCurrentUserCnt := int (card D)\<rparr>,
        mInComingPacketUserIndex = [], mSystemPacketQueue = [], mRecvFuntionDictionary = (\<lambda>_. None)\<rparr>,
      m_count = 0, shop_mItemList = [], shop_mPacketManager = True, inv_mProvider = True,
      srv_db = \<lparr>reachable = True, db_items = (\<lambda>_. None), db_inventory = (\<lambda>_. None)\<rparr>, srv_sent = []\<rparr>"

lemma wserver_ok: "D \<subseteq> {0..<3} \<Longrightarrow> srv_ok wenv (wserver D)"
  using wum_ok(1) by (simp add: srv_ok_def wserver_def wenv_def counted_def um_ok_def sorted_enum_ok ref_lib_ok wum_def)

definition wposition :: messageHeader where
  "wposition = set_userid 1 (packed_header messageHeader_new [13, 0, 0, 128, 63] reqPlayerPosition_full_name)"

lemma wposition_req:
  "GetPacket (reqPlayerPosition_parse ref_lib) wposition =
     Inr (Some (reqPlayerPosition_set_x 0x3F800000 reqPlayerPosition_new))"
  by code_simp

theorem position_relayed_witness:
  "\<exists>bs h res to. RReplicationPlayer_Synchronize_run wenv wposition (wserver {0, 1, 2}) =
       Inr ((wserver {0, 1, 2})\<lparr>srv_sent := map (\<lambda>i. (i, bs)) to\<rparr>) \<and> distinct to \<and> set to = {0, 2} \<and>
     Unpack (messageHeader_parse ref_lib) bs = Inr (Some h) \<and>
     GetPacket (resPlayerPosition_parse ref_lib) h = Inr (Some res) \<and> resPlayerPosition_x res = 0x3F800000"
proof -
  have p: "GetPacket (reqPlayerPosition_parse (env_lib wenv)) wposition =
      Inr (Some (reqPlayerPosition_set_x 0x3F800000 reqPlayerPosition_new))"
    using wposition_req by (simp add: wenv_def)
  have "hdr_userid wposition = 1" "srv_sent (wserver {0, 1, 2}) = []" "env_lib wenv = ref_lib"
    "mUserIDDictionary (srv_um (wserver {0, 1, 2})) = {0, 1, 2}"
    "reqPlayerPosition_x (reqPlayerPosition_set_x 0x3F800000 reqPlayerPosition_new) = 0x3F800000"
    by (simp_all add: wposition_def set_userid_def wserver_def wenv_def reqPlayerPosition_set_x_def)
  with position_relayed [OF wserver_ok p, of "{0, 1, 2}"] show ?thesis
    by (simp add: insert_Diff_if) blast
qed

lemma wserver_recipients:
  "recipients wenv i incl (wserver D) = filter (\<lambda>j. incl \<or> j \<noteq> i) (sorted_list_of_set D)"
  by (simp add: recipients_def wenv_def sorted_enum_def wserver_def)

theorem Join_announcements_witness:
  "RReplicationPlayer_Join_run wenv wposition (wserver {0, 1, 2}) = Inl UseAfterFree \<and>
   RReplicationPlayer_Join_run wenv wposition (wserver {0, 1}) = Inr ((wserver {0, 1})\<lparr>srv_sent :=
     [(0, Gen_packet wenv 1 1), (1, Gen_packet wenv 1 0)]\<rparr>)"
  using Join_announcements [OF wserver_ok, of "{0, 1, 2}" wposition]
    Join_announcements [OF wserver_ok, of "{0, 1}" wposition]
  by (simp add: wserver_recipients wposition_def set_userid_def) (simp add: wserver_def)

end
