(* ===== verification/Item_Replies.thy ===== *)
theory Item_Replies
  imports Routes_Player
begin

text \<open>
  The messages by which the routes of inventories and of the shop tell a client about items: how they
  are filled from the server's items (\<^verbatim>\<open>RIenventory.cpp\<close>, \<^verbatim>\<open>RShop.cpp\<close>), and which lists fit into the
  buffer of \<open>GetPacked\<close>.
\<close>

section \<open>Replies\<close>

definition itemInfo_of :: "item \<Rightarrow> itemInfo" where
  "itemInfo_of i =
     itemInfo_set_count (word_of_int (item_count i))
       (itemInfo_set_itemdesc (item_desc i)
         (itemInfo_set_itemname (item_name i)
           (itemInfo_set_itemid (word_of_int (item_id i)) itemInfo_new)))"

definition shopItem_of :: "item \<Rightarrow> shopItem" where
  "shopItem_of i =
     shopItem_set_itemcount (word_of_int (item_count i))
       (shopItem_set_itemdesc (item_desc i)
         (shopItem_set_itemname (item_name i)
           (shopItem_set_itemid (word_of_int (item_id i)) shopItem_new)))"

fun inventory_message :: "item list \<Rightarrow> resInventoryItems \<Rightarrow> resInventoryItems" where
  "inventory_message [] m = m"
| "inventory_message (i # l) m = inventory_message l (resInventoryItems_add_items (itemInfo_of i) m)"

fun shop_message :: "item list \<Rightarrow> resShopItemList \<Rightarrow> resShopItemList" where
  "shop_message [] m = m"
| "shop_message (i # l) m = shop_message l (resShopItemList_add_items (shopItem_of i) m)"

abbreviation packed_Inventory :: "env \<Rightarrow> uint32 \<Rightarrow> resInventoryItems \<Rightarrow> bytes option result" where
  "packed_Inventory E \<equiv> packed_reply E resInventoryItems_ByteSizeLong resInventoryItems_InternalSerialize
     resInventoryItems_full_name"

abbreviation packed_ShopList :: "env \<Rightarrow> uint32 \<Rightarrow> resShopItemList \<Rightarrow> bytes option result" where
  "packed_ShopList E \<equiv> packed_reply E resShopItemList_ByteSizeLong resShopItemList_InternalSerialize
     resShopItemList_full_name"

section \<open>Replies fit\<close>

text \<open>
  An item costs at most 60 bytes more than its texts. A list of items with ASCII texts and a weight of
  at most 4000 is always sent.
\<close>

definition weight :: "item list \<Rightarrow> nat" where
  "weight l = sum_list (map (\<lambda>i. length (item_name i) + length (item_desc i) + 60) l)"

definition texts_ok :: "item list \<Rightarrow> bool" where
  "texts_ok l \<longleftrightarrow> (\<forall>i \<in> set l. ascii (item_name i) \<and> ascii (item_desc i))"

lemma weight_simps [simp]: "weight [] = 0"
  "weight (i # l) = length (item_name i) + length (item_desc i) + 60 + weight l"
  "weight (l @ l') = weight l + weight l'"
  by (simp_all add: weight_def)

lemma texts_ok_simps [simp]: "texts_ok []" "texts_ok (i # l) \<longleftrightarrow> ascii (item_name i) \<and> ascii (item_desc i) \<and> texts_ok l"
  by (auto simp: texts_ok_def)

lemma LengthDelimitedSize_le: "LengthDelimitedSize n \<le> n + 10"
  using VarintSize32_le by (simp add: LengthDelimitedSize_def)

lemma UInt32SizePlusOne_le: "UInt32SizePlusOne v \<le> 11"
  using VarintSize32_le [of v] by (simp add: UInt32SizePlusOne_def VarintSizePlusOne)

lemma four_fields: "(if b1 then 1 + x else 0) + (if b2 then 1 + y else 0) + (if b3 then i else 0) + (if b4 then n else 0) + 0
    \<le> x + y + i + n + (2 :: nat)"
  by simp

lemma item_size:
  "itemInfo_ByteSizeLong (itemInfo_of i) \<le> length (item_name i) + length (item_desc i) + 44"
  "shopItem_ByteSizeLong (shopItem_of i) \<le> length (item_name i) + length (item_desc i) + 44"
proof -
  have s: "StringSize (bytes_of_string x) \<le> length x + 10" for x
    using LengthDelimitedSize_le [of "length x"] by (simp add: StringSize_def)
  have b: "StringSize (bytes_of_string (item_name i)) + StringSize (bytes_of_string (item_desc i)) +
      Int32SizePlusOne j + UInt32SizePlusOne c + 2 \<le> length (item_name i) + length (item_desc i) + 44"
    "StringSize (bytes_of_string (item_name i)) + StringSize (bytes_of_string (item_desc i)) +
      Int32SizePlusOne j + Int32SizePlusOne c + 2 \<le> length (item_name i) + length (item_desc i) + 44" for j c
    using s [of "item_name i"] s [of "item_desc i"] Int32SizePlusOne_le [of j] UInt32SizePlusOne_le [of c]
      Int32SizePlusOne_le [of c] by simp_all
  show "itemInfo_ByteSizeLong (itemInfo_of i) \<le> length (item_name i) + length (item_desc i) + 44"
    unfolding itemInfo_ByteSizeLong_def itemInfo_of_def itemInfo_new_def itemInfo_set_itemid_def
      itemInfo_set_itemname_def itemInfo_set_itemdesc_def itemInfo_set_count_def
    by (simp only: itemInfo.simps list.size) (rule order.trans [OF four_fields b(1)])
  show "shopItem_ByteSizeLong (shopItem_of i) \<le> length (item_name i) + length (item_desc i) + 44"
    unfolding shopItem_ByteSizeLong_def shopItem_of_def shopItem_new_def shopItem_set_itemid_def
      shopItem_set_itemname_def shopItem_set_itemdesc_def shopItem_set_itemcount_def
    by (simp only: shopItem.simps list.size) (rule order.trans [OF four_fields b(2)])
qed

lemma item_wf:
  assumes "pb_lib_ok L" and "ascii (item_name i)" and "ascii (item_desc i)"
    and "length (item_name i) + length (item_desc i) \<le> 4000"
  shows "itemInfo_wf L (itemInfo_of i)" "shopItem_wf L (shopItem_of i)"
  using item_size [of i] assms(4) pb_lib_ascii [OF assms(1) ascii_bytes [OF assms(2)]]
    pb_lib_ascii [OF assms(1) ascii_bytes [OF assms(3)]]
  by (simp_all add: itemInfo_wf_def shopItem_wf_def itemInfo_of_def shopItem_of_def itemInfo_new_def shopItem_new_def
      itemInfo_set_itemid_def itemInfo_set_itemname_def itemInfo_set_itemdesc_def itemInfo_set_count_def
      shopItem_set_itemid_def shopItem_set_itemname_def shopItem_set_itemdesc_def shopItem_set_itemcount_def)

lemma inventory_message_eq:
  "inventory_message l m = m\<lparr>resInventoryItems_items := resInventoryItems_items m @ map itemInfo_of l\<rparr>"
  by (induction l arbitrary: m) (simp_all add: resInventoryItems_add_items_def)

lemma shop_message_eq:
  "shop_message l m = m\<lparr>resShopItemList_items := resShopItemList_items m @ map shopItem_of l\<rparr>"
  by (induction l arbitrary: m) (simp_all add: resShopItemList_add_items_def)

lemma nested_weight:
  assumes "\<And>i. size_of i \<le> length (item_name i) + length (item_desc i) + 44"
  shows "length l + sum_list (map (\<lambda>i. LengthDelimitedSize (size_of i)) l) \<le> weight l"
proof (induction l)
  case (Cons i l)
  then show ?case using LengthDelimitedSize_le [of "size_of i"] assms [of i] by simp
qed simp

lemma message_sizes:
  "resInventoryItems_ByteSizeLong (inventory_message l resInventoryItems_new) \<le> weight l"
  "resShopItemList_ByteSizeLong (shop_message l resShopItemList_new) \<le> weight l"
  using nested_weight [of "\<lambda>i. itemInfo_ByteSizeLong (itemInfo_of i)" l]
    nested_weight [of "\<lambda>i. shopItem_ByteSizeLong (shopItem_of i)" l] item_size
  by (simp_all add: inventory_message_eq shop_message_eq resInventoryItems_ByteSizeLong_def
      resShopItemList_ByteSizeLong_def resInventoryItems_new_def resShopItemList_new_def comp_def)

lemma weight_member: "i \<in> set l \<Longrightarrow> length (item_name i) + length (item_desc i) \<le> weight l"
  by (induction l) auto

lemma message_wf:
  assumes "pb_lib_ok L" and "texts_ok l" and "weight l \<le> 4000"
  shows "resInventoryItems_wf L (inventory_message l resInventoryItems_new)"
    "resShopItemList_wf L (shop_message l resShopItemList_new)"
proof -
  have "\<forall>i \<in> set l. itemInfo_wf L (itemInfo_of i) \<and> shopItem_wf L (shopItem_of i)"
    using assms(2,3) item_wf [OF assms(1)] weight_member [of _ l] by (fastforce simp: texts_ok_def)
  then show "resInventoryItems_wf L (inventory_message l resInventoryItems_new)"
    "resShopItemList_wf L (shop_message l resShopItemList_new)"
    using message_sizes [of l] assms(3)
    by (simp_all add: resInventoryItems_wf_def resShopItemList_wf_def inventory_message_eq shop_message_eq
        resInventoryItems_new_def resShopItemList_new_def)
qed

definition Inventory_packet :: "env \<Rightarrow> uint32 \<Rightarrow> item list \<Rightarrow> bytes" where
  "Inventory_packet E userid l =
     frame (messageHeader_InternalSerialize (env_lib E)
       (resInventoryItems_codec.envelope (env_lib E) resInventoryItems_full_name userid
         (inventory_message l resInventoryItems_new)))"

definition ShopList_packet :: "env \<Rightarrow> uint32 \<Rightarrow> item list \<Rightarrow> bytes" where
  "ShopList_packet E userid l =
     frame (messageHeader_InternalSerialize (env_lib E)
       (resShopItemList_codec.envelope (env_lib E) resShopItemList_full_name userid
         (shop_message l resShopItemList_new)))"

lemma packed_Inventory_eq:
  assumes "pb_lib_ok (env_lib E)" and "texts_ok l" and "weight l \<le> 4000"
  shows "packed_Inventory E userid (inventory_message l resInventoryItems_new) = Inr (Some (Inventory_packet E userid l))"
    and "length (Inventory_packet E userid l) < 65536"
proof -
  show *: "packed_Inventory E userid (inventory_message l resInventoryItems_new) = Inr (Some (Inventory_packet E userid l))"
    unfolding packed_reply_def Inventory_packet_def
    by (intro resInventoryItems_codec.GetPacked_fits [OF assms(1)] message_wf(1) [OF assms] full_names_short)
      (use message_sizes(1) [of l] assms(3) in simp)
  show "length (Inventory_packet E userid l) < 65536"
    using GetPacked_short16 [OF * [unfolded packed_reply_def]] .
qed

lemma packed_ShopList_eq:
  assumes "pb_lib_ok (env_lib E)" and "texts_ok l" and "weight l \<le> 4000"
  shows "packed_ShopList E userid (shop_message l resShopItemList_new) = Inr (Some (ShopList_packet E userid l))"
    and "length (ShopList_packet E userid l) < 65536"
proof -
  show *: "packed_ShopList E userid (shop_message l resShopItemList_new) = Inr (Some (ShopList_packet E userid l))"
    unfolding packed_reply_def ShopList_packet_def
    by (intro resShopItemList_codec.GetPacked_fits [OF assms(1)] message_wf(2) [OF assms] full_names_short)
      (use message_sizes(2) [of l] assms(3) in simp)
  show "length (ShopList_packet E userid l) < 65536"
    using GetPacked_short16 [OF * [unfolded packed_reply_def]] .
qed

text \<open>The items of the database have short texts, as those that \<^verbatim>\<open>sample_item.sql\<close> inserts.\<close>

definition short_items :: "database \<Rightarrow> bool" where
  "short_items d \<longleftrightarrow> (\<forall>k name desc. db_items d k = Some (name, desc) \<longrightarrow>
     ascii name \<and> ascii desc \<and> length name + length desc \<le> 73)"

text \<open>A list whose texts alone are longer than the buffer is never sent.\<close>

lemma texts_below_size:
  "sum_list (map (\<lambda>i. length (item_name i) + length (item_desc i)) l) \<le>
     resInventoryItems_ByteSizeLong (inventory_message l resInventoryItems_new)"
proof -
  have s: "(if x \<noteq> [] then 1 + StringSize (bytes_of_string x) else 0) \<ge> length x" for x
    using LengthDelimitedSize_ge [of "length x"] by (simp add: StringSize_def)
  have i: "length (item_name i) + length (item_desc i) \<le> itemInfo_ByteSizeLong (itemInfo_of i)" for i
    using s [of "item_name i"] s [of "item_desc i"]
    unfolding itemInfo_ByteSizeLong_def itemInfo_of_def itemInfo_new_def itemInfo_set_itemid_def
      itemInfo_set_itemname_def itemInfo_set_itemdesc_def itemInfo_set_count_def itemInfo.simps by linarith
  have "sum_list (map (\<lambda>i. length (item_name i) + length (item_desc i)) l) \<le>
      sum_list (map (\<lambda>i. LengthDelimitedSize (itemInfo_ByteSizeLong (itemInfo_of i))) l)"
    by (rule sum_list_mono) (use i LengthDelimitedSize_ge order.trans in blast)
  then show ?thesis
    by (simp add: inventory_message_eq resInventoryItems_ByteSizeLong_def resInventoryItems_new_def comp_def)
qed

lemma packed_Inventory_too_long:
  assumes "BUF_SIZE < sum_list (map (\<lambda>i. length (item_name i) + length (item_desc i)) l)"
  shows "packed_Inventory E userid (inventory_message l resInventoryItems_new) = Inr None"
  unfolding packed_reply_def
  by (rule resInventoryItems_codec.GetPacked_too_long) (use assms texts_below_size [of l] in simp)

end
