(* ===== verification/Inventory_Route.thy ===== *)
theory Inventory_Route
  imports Item_Replies
begin

text \<open>
  The route of inventories, \<^verbatim>\<open>RIenventory.cpp\<close>: loading a player's items when it tells its name, writing
  them back when it leaves and periodically. A database call either succeeds or throws; a \<open>try\<close> block
  keeps what was done before the exception. Whether the server can be reached is part of the database
  state and does not change while a handler runs.
\<close>

section \<open>Handlers\<close>

definition TryCreateInventory :: "env \<Rightarrow> int \<Rightarrow> server \<Rightarrow> server result" where
  "TryCreateInventory E userid s =
     bind_result (GetUserByConnIdx userid (srv_um s)) (\<lambda>p.
       let userName = GetName (mUserObjPool (srv_um s) ! p) in
       if \<not> reachable (srv_db s) then Inr s
       else case TryCreateInventoryTable (env_table E) userName (srv_db s) of
              None \<Rightarrow> Inr s
            | Some d \<Rightarrow> Inr (s\<lparr>srv_db := d\<rparr>))"

text \<open>The rows of the inventory table, then for each the name and the description of its item.\<close>

definition describe_item :: "database \<Rightarrow> item \<Rightarrow> item" where
  "describe_item d i = foldl (\<lambda>i (k, name, desc). (k, name, desc, item_count i)) i (GetItemsRange (item_id i) d)"

definition load_items :: "env \<Rightarrow> string \<Rightarrow> database \<Rightarrow> item list" where
  "load_items E userName d =
     (if \<not> reachable d then []
      else case GetInventoryItemList (env_table E) userName d of
             None \<Rightarrow> []
           | Some rows \<Rightarrow> map (describe_item d) (map (\<lambda>(k, c). (k, [], [], c)) rows))"

fun AddItemCount_all :: "item list \<Rightarrow> user \<Rightarrow> user result" where
  "AddItemCount_all [] u = Inr u"
| "AddItemCount_all (i # l) u = bind_result (AddItemCount i u) (AddItemCount_all l)"

definition UpdateInventoryServerData :: "env \<Rightarrow> int \<Rightarrow> server \<Rightarrow> server result" where
  "UpdateInventoryServerData E userid s =
     bind_result (GetUserByConnIdx userid (srv_um s)) (\<lambda>p.
       let itemList = load_items E (GetName (mUserObjPool (srv_um s) ! p)) (srv_db s) in
       bind_result (AddItemCount_all itemList (ClearItem (mUserObjPool (srv_um s) ! p))) (\<lambda>u.
       bind_result (packed_Inventory E (word_of_int userid) (inventory_message itemList resInventoryItems_new)) (\<lambda>buf.
         SendPacketFunc userid buf (with_um (with_user p (\<lambda>_. u)) s))))"

fun store_items :: "env \<Rightarrow> string \<Rightarrow> item list \<Rightarrow> database \<Rightarrow> database" where
  "store_items E userName [] d = d"
| "store_items E userName (i # l) d =
     (case InventoryUpdate (env_table E) userName (item_id i) (item_count i) True d of
        None \<Rightarrow> d
      | Some d' \<Rightarrow> store_items E userName l d')"

definition UpdateInventoryDB :: "env \<Rightarrow> int \<Rightarrow> server \<Rightarrow> server result" where
  "UpdateInventoryDB E userid s =
     bind_result (GetUserByConnIdx userid (srv_um s)) (\<lambda>p.
       let u = mUserObjPool (srv_um s) ! p; items = GetItemAll [] u in
       if \<not> reachable (srv_db s) then Inr s
       else Inr (s\<lparr>srv_db := store_items E (GetName u) items (srv_db s)\<rparr>))"

definition RIenventory_Connect_run :: "env \<Rightarrow> messageHeader \<Rightarrow> server \<Rightarrow> server result" where
  "RIenventory_Connect_run E header s =
     (let s0 = s\<lparr>inv_mProvider := True\<rparr> in
      bind_result (GetPacket (reqNotifyPlayerName_parse (env_lib E)) header) (\<lambda>r.
        case r of
          None \<Rightarrow> Inr s0
        | Some packet \<Rightarrow>
            bind_result (GetUserByConnIdx (sint (hdr_userid header)) (srv_um s0)) (\<lambda>p.
            bind_result (TryCreateInventory E (sint (hdr_userid header))
                (with_um (with_user p (SetName (reqNotifyPlayerName_name packet))) s0))
              (UpdateInventoryServerData E (sint (hdr_userid header))))))"

definition RIenventory_Disconnect_run :: "env \<Rightarrow> messageHeader \<Rightarrow> server \<Rightarrow> server result" where
  "RIenventory_Disconnect_run E packet s = UpdateInventoryDB E (sint (hdr_userid packet)) s"

text \<open>One round of the write-back thread.\<close>

fun SynchronizeDB_loop :: "env \<Rightarrow> nat list \<Rightarrow> server \<Rightarrow> server result" where
  "SynchronizeDB_loop E [] s = Inr s"
| "SynchronizeDB_loop E (user # users) s =
     bind_result (UpdateInventoryDB E (net_index user s) s) (SynchronizeDB_loop E users)"

definition SynchronizeDB :: "env \<Rightarrow> server \<Rightarrow> server result" where
  "SynchronizeDB E s =
     (if \<not> inv_mProvider s then Inr s
      else bind_result (GetAllUser (env_enum E) (srv_um s)) (\<lambda>users.
        if \<not> reachable (srv_db s) then Inr s else SynchronizeDB_loop E users s))"

section \<open>Writing back\<close>

lemma store_items_eq:
  assumes "items_ok l" and "table (env_table E) name d = Some rows" and "\<forall>i \<in> set l. db_items d (item_id i) \<noteq> None"
  shows "\<exists>rows'. store_items E name l d =
       d\<lparr>db_inventory := (db_inventory d)(the (env_table E name) := Some rows')\<rparr> \<and>
     map_of rows' = (\<lambda>k. if 0 < count_of l k then Some (count_of l k) else map_of rows k) \<and>
     (distinct (map fst rows) \<longrightarrow> distinct (map fst rows')) \<and>
     (\<forall>x \<in> set rows'. x \<in> set rows \<or> 0 < snd x \<and> snd x \<le> int32_max \<and> db_items d (fst x) \<noteq> None) \<and>
     length rows' \<le> length rows + length l"
  using assms
proof (induction l arbitrary: d rows)
  case Nil
  from Nil.prems(2) obtain t where "env_table E name = Some t" "db_inventory d t = Some rows"
    by (auto simp: table_def Option.bind_eq_Some_conv)
  then show ?case by (intro exI [of _ rows]) (simp add: fun_upd_idem)
next
  case (Cons i l)
  have i: "0 < item_count i" "item_count i \<le> int32_max" "items_ok l" "item_id i \<notin> item_id ` set l"
    using Cons.prems(1) by (simp_all add: items_ok_Cons)
  then have "in_int32 (item_count i)" by (simp add: int32_bounds int32_max_def)
  from InventoryUpdate_set [OF Cons.prems(2) this, of "item_id i"] Cons.prems(3) obtain rows1 where
    r1: "InventoryUpdate (env_table E) name (item_id i) (item_count i) True d =
        Some (d\<lparr>db_inventory := (db_inventory d)(the (env_table E name) := Some rows1)\<rparr>)"
      "map_of rows1 = (map_of rows)(item_id i \<mapsto> item_count i)"
      "distinct (map fst rows) \<longrightarrow> distinct (map fst rows1)"
      "\<forall>x \<in> set rows1. x \<in> set rows \<or> x = (item_id i, item_count i)" "length rows1 \<le> Suc (length rows)" by auto
  let ?d = "d\<lparr>db_inventory := (db_inventory d)(the (env_table E name) := Some rows1)\<rparr>"
  have "table (env_table E) name ?d = Some rows1"
    using Cons.prems(2) by (auto simp: table_def Option.bind_eq_Some_conv)
  moreover have "\<forall>j \<in> set l. db_items ?d (item_id j) \<noteq> None" using Cons.prems(3) by simp
  ultimately obtain rows' where r': "store_items E name l ?d =
        ?d\<lparr>db_inventory := (db_inventory ?d)(the (env_table E name) := Some rows')\<rparr>"
      "map_of rows' = (\<lambda>k. if 0 < count_of l k then Some (count_of l k) else map_of rows1 k)"
      "distinct (map fst rows1) \<longrightarrow> distinct (map fst rows')"
      "\<forall>x \<in> set rows'. x \<in> set rows1 \<or> 0 < snd x \<and> snd x \<le> int32_max \<and> db_items ?d (fst x) \<noteq> None"
      "length rows' \<le> length rows1 + length l"
    using Cons.IH [OF i(3)] by blast
  have "map_of rows' = (\<lambda>k. if 0 < count_of (i # l) k then Some (count_of (i # l) k) else map_of rows k)"
    unfolding r'(2) r1(2) using i(1) count_of_absent [OF i(4)] by (auto simp: fun_eq_iff count_of_Cons)
  moreover have "\<forall>x \<in> set rows'. x \<in> set rows \<or> 0 < snd x \<and> snd x \<le> int32_max \<and> db_items d (fst x) \<noteq> None"
    using r'(4) r1(4) i(1,2) Cons.prems(3) by fastforce
  moreover have "store_items E name (i # l) d =
      d\<lparr>db_inventory := (db_inventory d)(the (env_table E name) := Some rows')\<rparr>"
    using r1(1) r'(1) by (simp del: fun_upd_apply)
  ultimately show ?case
    using r1(3,5) r'(3,5) by (intro exI [of _ rows']) (simp del: store_items.simps fun_upd_apply)
qed

section \<open>Loading\<close>

lemma AddItemCount_absent:
  "item_id i \<notin> item_id ` set l \<Longrightarrow> AddItemCount_loop i l = Inr (l @ [i])"
  by (induction l) auto

lemma AddItemCount_all_eq:
  assumes "distinct (map item_id l)" and "item_id ` set l \<inter> item_id ` set (mItemList u) = {}"
  shows "AddItemCount_all l u = Inr (u\<lparr>mItemList := mItemList u @ l\<rparr>)"
  using assms
proof (induction l arbitrary: u)
  case (Cons i l)
  then have "AddItemCount i u = Inr (u\<lparr>mItemList := mItemList u @ [i]\<rparr>)"
    by (simp add: AddItemCount_def AddItemCount_absent)
  with Cons.IH [of "u\<lparr>mItemList := mItemList u @ [i]\<rparr>"] Cons.prems show ?case by auto
qed simp

lemma describe_item_eq:
  "describe_item d (k, n, s, c) = (case db_items d k of None \<Rightarrow> (k, n, s, c) | Some (name, desc) \<Rightarrow> (k, name, desc, c))"
  by (simp add: describe_item_def GetItemsRange_def split: option.splits)

lemma describe_item_simps [simp]:
  "item_id (describe_item d (k, n, s, c)) = k" "item_count (describe_item d (k, n, s, c)) = c"
  by (simp_all add: describe_item_eq split: option.splits)

lemma load_items_eq:
  assumes "reachable d" and "table (env_table E) name d = Some rows"
  shows "load_items E name d = map (\<lambda>(k, c). describe_item d (k, [], [], c)) rows"
  using assms by (simp add: load_items_def GetInventoryItemList_eq case_prod_unfold)

definition positive_rows :: "(int \<times> int) list \<Rightarrow> bool" where
  "positive_rows rows \<longleftrightarrow> distinct (map fst rows) \<and> (\<forall>x \<in> set rows. 0 < snd x \<and> snd x \<le> int32_max)"

lemma loaded_facts:
  fixes d :: database
  assumes "positive_rows rows"
  defines "l \<equiv> map (\<lambda>(k, c). describe_item d (k, [], [], c)) rows"
  shows "items_ok l" and "count_of l = (\<lambda>k. case map_of rows k of None \<Rightarrow> 0 | Some c \<Rightarrow> c)"
    and "short_items d \<Longrightarrow> texts_ok l \<and> weight l \<le> 133 * length rows"
proof -
  have "items_ok l \<and> item_id ` set l = fst ` set rows \<and> count_of l = (\<lambda>k. case map_of rows k of None \<Rightarrow> 0 | Some c \<Rightarrow> c)"
    using assms(1) unfolding l_def
  proof (induction rows)
    case Nil
    then show ?case by (simp add: fun_eq_iff)
  next
    case (Cons x rows)
    obtain k c where x: "x = (k, c)" by (cases x)
    with Cons.prems have "k \<notin> fst ` set rows" "0 < c" "c \<le> int32_max" "positive_rows rows"
      by (simp_all add: positive_rows_def)
    with Cons.IH x show ?case by (auto simp: items_ok_Cons count_of_Cons fun_eq_iff)
  qed
  then show "items_ok l" "count_of l = (\<lambda>k. case map_of rows k of None \<Rightarrow> 0 | Some c \<Rightarrow> c)" by blast+
  have "texts_ok [describe_item d (k, [], [], c)] \<and> weight [describe_item d (k, [], [], c)] \<le> 133" if "short_items d" for k c
    using that by (auto simp: describe_item_eq short_items_def ascii_def split: option.splits)
  then have one: "short_items d \<Longrightarrow> texts_ok [describe_item d x] \<and> weight [describe_item d x] \<le> 133" if "fst (snd x) = []" "fst (snd (snd x)) = []" for x
    using that by (cases x) simp
  show "short_items d \<Longrightarrow> texts_ok l \<and> weight l \<le> 133 * length rows"
    unfolding l_def
  proof (induction rows)
    case (Cons x rows)
    then show ?case using one [of "(fst x, [], [], snd x)"] by (cases x) simp
  qed simp
qed

section \<open>The handlers\<close>

text \<open>Loading a table with positive counts, when the message fits.\<close>

lemma UpdateInventoryServerData_eq:
  assumes "srv_ok E s" and "b < length (mUserObjPool (srv_um s))" and "reachable (srv_db s)"
    and "table (env_table E) (mName (mUserObjPool (srv_um s) ! b)) (srv_db s) = Some rows" and "positive_rows rows"
    and "short_items (srv_db s)" and "133 * length rows \<le> 4000"
  defines "l \<equiv> map (\<lambda>(k, c). describe_item (srv_db s) (k, [], [], c)) rows"
  shows "UpdateInventoryServerData E (int b) s =
     Inr ((with_um (with_user b (\<lambda>u. u\<lparr>mItemList := l\<rparr>)) s)\<lparr>srv_sent := srv_sent s @ [(int b, Inventory_packet E (of_nat b) l)]\<rparr>)"
proof -
  have L: "pb_lib_ok (env_lib E)" using assms(1) by (simp add: srv_ok_def)
  note l = loaded_facts [OF assms(5), of "srv_db s", folded l_def]
  let ?u = "mUserObjPool (srv_um s) ! b"
  have load: "load_items E (GetName ?u) (srv_db s) = l"
    using load_items_eq [OF assms(3,4)] by (simp add: GetName_def l_def)
  have add: "AddItemCount_all l (ClearItem ?u) = Inr (?u\<lparr>mItemList := l\<rparr>)"
    using AddItemCount_all_eq [of l "ClearItem ?u"] l(1) by (simp add: items_ok_def ClearItem_def)
  have t: "texts_ok l" "weight l \<le> 4000" using l(3) [OF assms(6)] assms(7) by simp_all
  have um: "with_um (with_user b (\<lambda>_. ?u\<lparr>mItemList := l\<rparr>)) s = with_um (with_user b (\<lambda>u. u\<lparr>mItemList := l\<rparr>)) s"
    by (simp add: with_um_def with_user_def)
  have "GetUserByConnIdx (int b) (srv_um s) = Inr b"
    using assms(2) by (simp add: GetUserByConnIdx_Inr_iff)
  then show ?thesis
    by (simp add: UpdateInventoryServerData_def load add um Let_def packed_Inventory_eq [OF L t] SendPacketFunc_Some)
qed

lemma UpdateInventoryDB_eq:
  assumes "b < length (mUserObjPool (srv_um s))" and "reachable (srv_db s)"
  shows "UpdateInventoryDB E (int b) s =
     Inr (s\<lparr>srv_db := store_items E (mName (mUserObjPool (srv_um s) ! b)) (mItemList (mUserObjPool (srv_um s) ! b)) (srv_db s)\<rparr>)"
proof -
  have "GetUserByConnIdx (int b) (srv_um s) = Inr b"
    using assms(1) by (simp add: GetUserByConnIdx_Inr_iff)
  then show ?thesis using assms(2) by (simp add: UpdateInventoryDB_def Let_def GetName_def GetItemAll_def)
qed

section \<open>Properties\<close>

text \<open>C12: Writing an inventory back and loading it again restores the count of every item that the player
  had, faithfully and with the message that tells the client. An item that the player no longer has
  keeps the count of the table, since writing back never deletes a row: it is there again after the
  next login.\<close>

theorem inventory_store_load:
  assumes "srv_ok E s" and "b < length (mUserObjPool (srv_um s))" and "reachable (srv_db s)"
    and "items_ok (mItemList (mUserObjPool (srv_um s) ! b))"
    and "\<forall>i \<in> set (mItemList (mUserObjPool (srv_um s) ! b)). db_items (srv_db s) (item_id i) \<noteq> None"
    and "table (env_table E) (mName (mUserObjPool (srv_um s) ! b)) (srv_db s) = Some rows" and "positive_rows rows"
    and "short_items (srv_db s)"
    and "133 * (length rows + length (mItemList (mUserObjPool (srv_um s) ! b))) \<le> 4000"
  shows "\<exists>s1 s2. UpdateInventoryDB E (int b) s = Inr s1 \<and> UpdateInventoryServerData E (int b) s1 = Inr s2 \<and>
     items_ok (mItemList (mUserObjPool (srv_um s2) ! b)) \<and>
     count_of (mItemList (mUserObjPool (srv_um s2) ! b)) =
       (\<lambda>k. if 0 < count_of (mItemList (mUserObjPool (srv_um s) ! b)) k
            then count_of (mItemList (mUserObjPool (srv_um s) ! b)) k
            else case map_of rows k of None \<Rightarrow> 0 | Some c \<Rightarrow> c) \<and>
     srv_sent s2 = srv_sent s @ [(int b, Inventory_packet E (of_nat b) (mItemList (mUserObjPool (srv_um s2) ! b)))]"
proof -
  let ?u = "mUserObjPool (srv_um s) ! b"
  let ?d = "\<lambda>rows'. (srv_db s)\<lparr>db_inventory := (db_inventory (srv_db s))(the (env_table E (mName ?u)) := Some rows')\<rparr>"
  from store_items_eq [OF assms(4,6,5)] obtain rows' where
    r: "store_items E (mName ?u) (mItemList ?u) (srv_db s) = ?d rows'"
      "map_of rows' = (\<lambda>k. if 0 < count_of (mItemList ?u) k then Some (count_of (mItemList ?u) k) else map_of rows k)"
      "distinct (map fst rows) \<longrightarrow> distinct (map fst rows')"
      "\<forall>x \<in> set rows'. x \<in> set rows \<or> 0 < snd x \<and> snd x \<le> int32_max \<and> db_items (srv_db s) (fst x) \<noteq> None"
      "length rows' \<le> length rows + length (mItemList ?u)" by blast
  let ?s1 = "s\<lparr>srv_db := ?d rows'\<rparr>"
  have s1: "UpdateInventoryDB E (int b) s = Inr ?s1" using UpdateInventoryDB_eq [OF assms(2,3)] r(1) by simp
  have p: "positive_rows rows'" using assms(7) r(3,4) by (auto simp: positive_rows_def)
  have "table (env_table E) (mName (mUserObjPool (srv_um ?s1) ! b)) (srv_db ?s1) = Some rows'"
    using assms(6) by (auto simp: table_def Option.bind_eq_Some_conv)
  moreover have "srv_ok E ?s1" "reachable (srv_db ?s1)" "short_items (srv_db ?s1)"
    using assms(1,3,8) by (simp_all add: srv_ok_def short_items_def)
  moreover have "133 * length rows' \<le> 4000" using assms(9) r(5) by simp
  ultimately have s2: "UpdateInventoryServerData E (int b) ?s1 =
      Inr ((with_um (with_user b (\<lambda>u. u\<lparr>mItemList := map (\<lambda>(k, c). describe_item (?d rows') (k, [], [], c)) rows'\<rparr>)) ?s1)
        \<lparr>srv_sent := srv_sent s @ [(int b, Inventory_packet E (of_nat b) (map (\<lambda>(k, c). describe_item (?d rows') (k, [], [], c)) rows'))]\<rparr>)"
    using UpdateInventoryServerData_eq [of E ?s1 b rows'] p assms(2) by simp
  note l = loaded_facts(1,2) [OF p, of "?d rows'"]
  show ?thesis
    using s1 s2 l assms(2) r(2) by (auto simp: with_user_def fun_eq_iff)
qed

text \<open>C36: The result of packing the inventory is not checked: a player whose items have texts longer than the
  buffer together, 4096 bytes, cannot log in, because the handler hands the null pointer to the network layer.\<close>

theorem long_inventory_faults:
  assumes "srv_ok E s" and "b < length (mUserObjPool (srv_um s))" and "reachable (srv_db s)"
    and "table (env_table E) (mName (mUserObjPool (srv_um s) ! b)) (srv_db s) = Some rows" and "positive_rows rows"
    and "BUF_SIZE < sum_list (map (\<lambda>i. length (item_name i) + length (item_desc i))
       (map (\<lambda>(k, c). describe_item (srv_db s) (k, [], [], c)) rows))"
  shows "UpdateInventoryServerData E (int b) s = Inl NullDeref"
proof -
  let ?l = "map (\<lambda>(k, c). describe_item (srv_db s) (k, [], [], c)) rows"
  let ?u = "mUserObjPool (srv_um s) ! b"
  have "load_items E (GetName ?u) (srv_db s) = ?l"
    using load_items_eq [OF assms(3,4)] by (simp add: GetName_def)
  moreover have "AddItemCount_all ?l (ClearItem ?u) = Inr (?u\<lparr>mItemList := ?l\<rparr>)"
    using AddItemCount_all_eq [of ?l "ClearItem ?u"] loaded_facts(1) [OF assms(5), of "srv_db s"]
    by (simp add: items_ok_def ClearItem_def)
  moreover have "GetUserByConnIdx (int b) (srv_um s) = Inr b"
    using assms(2) by (simp add: GetUserByConnIdx_Inr_iff)
  ultimately show ?thesis
    by (simp add: UpdateInventoryServerData_def Let_def packed_Inventory_too_long [OF assms(6)] SendPacketFunc_def
        del: map_map)
qed

subsection \<open>Witnesses\<close>

definition wdb :: "string \<Rightarrow> database" where
  "wdb desc = \<lparr>reachable = True,
     db_items = (\<lambda>k. if k = 7 then Some (''axe'', desc) else if k = 9 then Some (''bow'', desc) else None),
     db_inventory = [''kim'' \<mapsto> [(7, 3), (9, 1)]]\<rparr>"

definition wplayer :: "string \<Rightarrow> server" where
  "wplayer desc = (with_um (with_user 1 (\<lambda>u. u\<lparr>mName := ''kim'', mItemList := [(9, ''bow'', [], 5)]\<rparr>)) (wserver {1}))\<lparr>srv_db := wdb desc\<rparr>"

lemma wplayer_facts: "srv_ok wenv (wplayer desc)" "1 < length (mUserObjPool (srv_um (wplayer desc)))"
    "reachable (srv_db (wplayer desc))" "mUserObjPool (srv_um (wplayer desc)) ! 1 =
      (User_Init 1 User_new)\<lparr>mName := ''kim'', mItemList := [(9, ''bow'', [], 5)]\<rparr>"
    "table (env_table wenv) ''kim'' (srv_db (wplayer desc)) = Some [(7, 3), (9, 1)]" "positive_rows [(7, 3), (9, 1)]"
proof -
  have "srv_ok wenv (with_um (with_user 1 (\<lambda>u. u\<lparr>mName := ''kim'', mItemList := [(9, ''bow'', [], 5)]\<rparr>)) (wserver {1}))"
    by (intro srv_ok_with_user wserver_ok) simp_all
  then show "srv_ok wenv (wplayer desc)" by (simp add: wplayer_def srv_ok_def)
qed (simp_all add: wplayer_def wserver_def wum_def with_user_def wdb_def table_def wenv_def positive_rows_def int32_max_def)

theorem inventory_store_load_witness:
  "\<exists>s1 s2. UpdateInventoryDB wenv 1 (wplayer []) = Inr s1 \<and> UpdateInventoryServerData wenv 1 s1 = Inr s2 \<and>
     count_of (mItemList (mUserObjPool (srv_um s2) ! 1)) 9 = 5 \<and>
     count_of (mItemList (mUserObjPool (srv_um s2) ! 1)) 7 = 3"
proof -
  have "short_items (srv_db (wplayer []))"
    by (auto simp: short_items_def wplayer_def wdb_def ascii_def)
  moreover have "db_items (srv_db (wplayer [])) 9 \<noteq> None" by (simp add: wplayer_def wdb_def)
  ultimately show ?thesis
    using inventory_store_load [OF wplayer_facts(1-3), of "[]" "[(7, 3), (9, 1)]"] wplayer_facts(5,6)
    unfolding wplayer_facts(4) by (auto simp: items_ok_Cons int32_max_def count_of_Cons)
qed

theorem long_inventory_faults_witness:
  "UpdateInventoryServerData wenv 1 (wplayer (replicate 4100 CHR ''x'')) = Inl NullDeref"
proof -
  have "BUF_SIZE < sum_list (map (\<lambda>i. length (item_name i) + length (item_desc i))
     (map (\<lambda>(k, c). describe_item (srv_db (wplayer (replicate 4100 CHR ''x''))) (k, [], [], c)) [(7, 3), (9, 1)]))"
    by (simp add: describe_item_eq wplayer_def wdb_def BUF_SIZE_def)
  from long_inventory_faults [OF wplayer_facts(1-3) _ wplayer_facts(6) this] show ?thesis
    unfolding wplayer_facts(4) by (simp add: wplayer_facts(5))
qed

end
