(* ===== verification/Shop_Route.thy ===== *)
theory Shop_Route
  imports Item_Replies
begin

text \<open>
  The route of the shop, \<^verbatim>\<open>RShop.cpp\<close>: a list of items with counts from which players buy, which is
  filled anew from the database periodically.
\<close>

section \<open>Handlers\<close>

definition SAMPLE_ITEM_COUNT :: int where "SAMPLE_ITEM_COUNT = 100000"
definition ITEM_LIST_MAX_COUNT :: nat where "ITEM_LIST_MAX_COUNT = 30"
definition DEFAULT_ITEM_COUNT :: int where "DEFAULT_ITEM_COUNT = 30"

definition SendCurrentShopItemList :: "env \<Rightarrow> int \<Rightarrow> bool \<Rightarrow> server \<Rightarrow> server result" where
  "SendCurrentShopItemList E userid useBroadcast s =
     bind_result (packed_ShopList E (word_of_int userid) (shop_message (shop_mItemList s) resShopItemList_new)) (\<lambda>arr.
       if \<not> shop_mPacketManager s then Inl NullDeref
       else if useBroadcast then BroadcastPacket E userid arr True s
       else SendPacketFunc userid arr s)"

definition UpdateClientInventory :: "env \<Rightarrow> string \<Rightarrow> server \<Rightarrow> server result" where
  "UpdateClientInventory E userName s =
     bind_result (GetUserByName userName (srv_um s)) (\<lambda>r.
       case r of
         None \<Rightarrow> Inr s
       | Some p \<Rightarrow>
           let user = mUserObjPool (srv_um s) ! p; l = GetItemAll [] user in
           bind_result (packed_Inventory E (word_of_int (GetNetConnIdx user))
               (inventory_message l resInventoryItems_new)) (\<lambda>buf.
             SendPacketFunc (GetNetConnIdx user) buf s))"

text \<open>
  The search of \<open>Buy\<close>: the first entry with the id whose count is at least the requested one is taken;
  the result is the entry as it was, with the new list.
\<close>

fun Buy_loop :: "int \<Rightarrow> int \<Rightarrow> item list \<Rightarrow> (item \<times> item list) option result" where
  "Buy_loop itemid count [] = Inr None"
| "Buy_loop itemid count (i # rest) =
     (if item_id i = itemid \<and> item_count i \<ge> count then
        bind_result (sub_int32 (item_count i) count) (\<lambda>c.
          Inr (Some (i, if c \<le> 0 then rest else set_item_count c i # rest)))
      else bind_result (Buy_loop itemid count rest) (\<lambda>r.
        Inr (map_option (\<lambda>(it, l). (it, i # l)) r)))"

definition RShop_Buy_run :: "env \<Rightarrow> messageHeader \<Rightarrow> server \<Rightarrow> server result" where
  "RShop_Buy_run E packet s =
     bind_result (GetPacket (reqShopBuy_parse (env_lib E)) packet) (\<lambda>r.
       case r of
         None \<Rightarrow> Inr s
       | Some buyInfo \<Rightarrow>
           let count = sint (reqShopBuy_count buyInfo) in
           bind_result (Buy_loop (sint (reqShopBuy_itemid buyInfo)) count (shop_mItemList s)) (\<lambda>found.
             case found of
               None \<Rightarrow> Inr s
             | Some (item, itemList) \<Rightarrow>
                 let s1 = s\<lparr>shop_mItemList := itemList\<rparr> in
                 if item_id item = -1 \<or> count = -1 then Inr s1
                 else
                   bind_result (GetUserByConnIdx (sint (hdr_userid packet)) (srv_um s1)) (\<lambda>p.
                   bind_result (AddItemCount (set_item_count count item) (mUserObjPool (srv_um s1) ! p)) (\<lambda>u.
                   bind_result (SendCurrentShopItemList E (sint (hdr_userid packet)) True
                       (with_um (with_user p (\<lambda>_. u)) s1)) (\<lambda>s2.
                     UpdateClientInventory E (GetName u) s2)))))"

definition RShop_Sell_run :: "messageHeader \<Rightarrow> server \<Rightarrow> server result" where
  "RShop_Sell_run packet s = Inr s"

definition RShop_RequireItemList_run :: "env \<Rightarrow> messageHeader \<Rightarrow> server \<Rightarrow> server result" where
  "RShop_RequireItemList_run E packet s =
     bind_result (GetPacket (ZeroFields_parse (env_lib E)) packet) (\<lambda>r.
       case r of
         None \<Rightarrow> Inr s
       | Some itemInfo \<Rightarrow> SendCurrentShopItemList E (sint (hdr_userid packet)) False s)"

text \<open>One round of the thread that resets the shop, with the numbers that the generator draws.\<close>

definition ResetItem :: "env \<Rightarrow> (nat \<Rightarrow> int) \<Rightarrow> server \<Rightarrow> server result" where
  "ResetItem E dis s =
     (let itemList = concat (map (\<lambda>i. map (\<lambda>(k, name, desc). (k, name, desc, DEFAULT_ITEM_COUNT))
            (GetItemsRange (dis i) (srv_db s))) [0..<ITEM_LIST_MAX_COUNT]);
          s1 = (if reachable (srv_db s) then s\<lparr>shop_mItemList := itemList\<rparr> else s)
      in SendCurrentShopItemList E 0 True s1)"

section \<open>The stock\<close>

text \<open>The shop may list an item more than once; its stock is the sum.\<close>

definition stock :: "item list \<Rightarrow> int \<Rightarrow> int" where
  "stock l k = sum_list (map item_count (filter (\<lambda>i. item_id i = k) l))"

definition shop_ok :: "item list \<Rightarrow> bool" where
  "shop_ok l \<longleftrightarrow> (\<forall>i \<in> set l. 0 < item_count i \<and> item_count i \<le> int32_max)"

lemma stock_simps [simp]: "stock [] k = 0"
  "stock (i # l) k = (if item_id i = k then item_count i else 0) + stock l k"
  by (simp_all add: stock_def)

lemma shop_ok_simps [simp]: "shop_ok []"
  "shop_ok (i # l) \<longleftrightarrow> 0 < item_count i \<and> item_count i \<le> int32_max \<and> shop_ok l"
  by (auto simp: shop_ok_def)

lemma Buy_loop_total:
  assumes "shop_ok l" and "0 < n" and "n \<le> int32_max"
  shows "\<exists>r. Buy_loop k n l = Inr r"
  using assms by (induction l) (auto simp: sub_int32_def int32_bounds)

lemma Buy_loop_None:
  assumes "Buy_loop k n l = Inr None"
  shows "\<forall>i \<in> set l. item_id i = k \<longrightarrow> item_count i < n"
  using assms by (induction l) (auto simp: bind_result_Inr_iff split: if_splits)

lemma Buy_loop_Some:
  assumes "Buy_loop k n l = Inr (Some (it, l'))" and "shop_ok l" and "0 < n"
  shows "it \<in> set l \<and> item_id it = k \<and> n \<le> item_count it \<and> shop_ok l' \<and>
     (\<forall>j. stock l' j = stock l j - (if j = k then n else 0)) \<and> weight l' \<le> weight l \<and> (texts_ok l \<longrightarrow> texts_ok l')"
  using assms
proof (induction l arbitrary: l')
  case (Cons i l)
  show ?case
  proof (cases "item_id i = k \<and> n \<le> item_count i")
    case True
    with Cons.prems show ?thesis
      by (auto simp: bind_result_Inr_iff sub_int32_Inr_iff int32_bounds split: if_splits)
  next
    case False
    with Cons.prems(1) obtain l1 where l1: "Buy_loop k n l = Inr (Some (it, l1))" "l' = i # l1"
      by (auto simp: bind_result_Inr_iff)
    with Cons.IH [OF l1(1)] Cons.prems(2,3) show ?thesis by auto
  qed
qed simp

text \<open>A request for a negative count takes from the first entry with the id and makes it larger.\<close>

lemma Buy_loop_negative:
  assumes "shop_ok l" and "n < 0" and "List.find (\<lambda>i. item_id i = k) l = Some it" and "in_int32 (item_count it - n)"
  shows "\<exists>l'. Buy_loop k n l = Inr (Some (it, l')) \<and> item_id it = k \<and>
     (\<forall>j. stock l' j = stock l j + (if j = k then - n else 0)) \<and>
     weight l' = weight l \<and> texts_ok l' = texts_ok l \<and> it \<in> set l"
  using assms
proof (induction l)
  case (Cons i l)
  show ?case
  proof (cases "item_id i = k")
    case True
    with Cons.prems show ?thesis by (auto simp: sub_int32_def)
  next
    case False
    with Cons show ?thesis by auto
  qed
qed simp

section \<open>The handler\<close>

lemma AddItemCount_loop_texts:
  "AddItemCount_loop it l = Inr l' \<Longrightarrow> weight l' \<le> weight l + weight [it] \<and>
     (texts_ok l \<longrightarrow> ascii (item_name it) \<longrightarrow> ascii (item_desc it) \<longrightarrow> texts_ok l')"
proof (induction l arbitrary: l')
  case (Cons i l)
  show ?case
  proof (cases "item_id i = item_id it")
    case True
    with Cons.prems show ?thesis by (auto simp: bind_result_Inr_iff split: if_splits)
  next
    case False
    with Cons.prems obtain r where "AddItemCount_loop it l = Inr r" "l' = i # r"
      by (auto simp: bind_result_Inr_iff)
    with Cons.IH show ?thesis by auto
  qed
qed auto

lemma weight_one: "it \<in> set l \<Longrightarrow> weight [it] \<le> weight l \<and> (texts_ok l \<longrightarrow> ascii (item_name it) \<and> ascii (item_desc it))"
  by (induction l) auto

lemma SendCurrentShopItemList_eq:
  assumes "srv_ok E s" and "shop_mPacketManager s" and "texts_ok (shop_mItemList s)" and "weight (shop_mItemList s) \<le> 4000"
  shows "SendCurrentShopItemList E userid True s =
     Inr (s\<lparr>srv_sent := srv_sent s @ map (\<lambda>i. (i, ShopList_packet E (word_of_int userid) (shop_mItemList s)))
        (recipients E userid True s)\<rparr>)"
proof -
  have L: "pb_lib_ok (env_lib E)" using assms(1) by (simp add: srv_ok_def)
  show ?thesis
    by (simp add: SendCurrentShopItemList_def packed_ShopList_eq [OF L assms(3,4)] assms(2)
        BroadcastPacket_Some [OF assms(1)])
qed

definition first_named :: "string \<Rightarrow> server \<Rightarrow> nat option" where
  "first_named name s = List.find (\<lambda>j. mName (mUserObjPool (srv_um s) ! j) = name) [0..<length (mUserObjPool (srv_um s))]"

lemma UpdateClientInventory_eq:
  assumes "srv_ok E s" and "first_named name s = Some p"
    and "texts_ok (mItemList (mUserObjPool (srv_um s) ! p))" and "weight (mItemList (mUserObjPool (srv_um s) ! p)) \<le> 4000"
  shows "UpdateClientInventory E name s =
     Inr (s\<lparr>srv_sent := srv_sent s @ [(int p, Inventory_packet E (of_nat p) (mItemList (mUserObjPool (srv_um s) ! p)))]\<rparr>)"
proof -
  have L: "pb_lib_ok (env_lib E)" and um: "um_ok (srv_um s)" using assms(1) by (simp_all add: srv_ok_def)
  have "p < length (mUserObjPool (srv_um s))" using assms(2) by (simp add: first_named_def find_upt_Some_iff)
  then have "GetNetConnIdx (mUserObjPool (srv_um s) ! p) = int p"
    using um by (simp add: um_ok_def GetNetConnIdx_def)
  then show ?thesis
    using assms(2)
    by (simp add: UpdateClientInventory_def GetUserByName_eq [OF um] first_named_def GetItemAll_def Let_def
        packed_Inventory_eq [OF L assms(3,4)] SendPacketFunc_Some)
qed

lemma srv_ok_shop [simp]: "srv_ok E (s\<lparr>shop_mItemList := l\<rparr>) = srv_ok E s"
  by (simp add: srv_ok_def)

lemma first_named_sent [simp]: "first_named n (s\<lparr>srv_sent := x\<rparr>) = first_named n s"
  by (simp add: first_named_def)

lemma first_named_exists:
  assumes "p < length (mUserObjPool (srv_um s))"
  shows "\<exists>q. first_named (mName (mUserObjPool (srv_um s) ! p)) s = Some q \<and> q < length (mUserObjPool (srv_um s))"
proof -
  let ?f = "first_named (mName (mUserObjPool (srv_um s) ! p)) s"
  have "?f \<noteq> None" using assms by (auto simp: first_named_def find_None_iff)
  then show ?thesis by (auto simp: first_named_def find_upt_Some_iff)
qed

text \<open>The room in the replies: for no player do the texts of the shop and of the inventory fill a buffer.\<close>

definition replies_fit :: "server \<Rightarrow> bool" where
  "replies_fit s \<longleftrightarrow> texts_ok (shop_mItemList s) \<and> weight (shop_mItemList s) \<le> 4000 \<and>
     (\<forall>u \<in> set (mUserObjPool (srv_um s)). texts_ok (mItemList u) \<and> weight (mItemList u) + weight (shop_mItemList s) \<le> 4000)"

text \<open>What \<open>Buy\<close> does once it has found an entry, for a buyer whose inventory accepts it.\<close>

lemma Buy_run_found:
  assumes "srv_ok E s" and "shop_mPacketManager s" and "replies_fit s"
    and "GetPacket (reqShopBuy_parse (env_lib E)) packet = Inr (Some req)"
    and "Buy_loop (sint (reqShopBuy_itemid req)) (sint (reqShopBuy_count req)) (shop_mItemList s) = Inr (Some (it, l'))"
    and "item_id it \<noteq> -1" and "sint (reqShopBuy_count req) \<noteq> -1"
    and "it \<in> set (shop_mItemList s)" and "weight l' \<le> weight (shop_mItemList s)" and "texts_ok l'"
    and "sint (hdr_userid packet) = int b" and "b < length (mUserObjPool (srv_um s))"
    and "AddItemCount (set_item_count (sint (reqShopBuy_count req)) it) (mUserObjPool (srv_um s) ! b) =
       Inr ((mUserObjPool (srv_um s) ! b)\<lparr>mItemList := bag\<rparr>)"
  shows "\<exists>p s1. s1 = (with_um (with_user b (\<lambda>u. u\<lparr>mItemList := bag\<rparr>)) s)\<lparr>shop_mItemList := l'\<rparr> \<and>
     first_named (mName (mUserObjPool (srv_um s) ! b)) s = Some p \<and>
     RShop_Buy_run E packet s = Inr (s1\<lparr>srv_sent := srv_sent s @
       map (\<lambda>i. (i, ShopList_packet E (hdr_userid packet) l')) (recipients E (int b) True s) @
       [(int p, Inventory_packet E (of_nat p) (mItemList (mUserObjPool (srv_um s1) ! p)))]\<rparr>)"
proof -
  let ?u0 = "mUserObjPool (srv_um s) ! b"
  let ?s1 = "(with_um (with_user b (\<lambda>u. u\<lparr>mItemList := bag\<rparr>)) s)\<lparr>shop_mItemList := l'\<rparr>"
  let ?s2 = "?s1\<lparr>srv_sent := srv_sent s @ map (\<lambda>i. (i, ShopList_packet E (hdr_userid packet) l')) (recipients E (int b) True s)\<rparr>"
  have ok1: "srv_ok E ?s1" using srv_ok_with_user [OF assms(1)] by simp
  have fit: "texts_ok (mItemList ?u0)" "weight (mItemList ?u0) + weight (shop_mItemList s) \<le> 4000"
    "weight (shop_mItemList s) \<le> 4000" "texts_ok (shop_mItemList s)"
    using assms(3,12) by (simp_all add: replies_fit_def)
  from assms(13) have "AddItemCount_loop (set_item_count (sint (reqShopBuy_count req)) it) (mItemList ?u0) = Inr bag"
    unfolding AddItemCount_Inr_iff by (auto dest: arg_cong [of _ _ mItemList])
  from AddItemCount_loop_texts [OF this] weight_one [OF assms(8)] fit
  have bag: "texts_ok bag" "weight bag \<le> 4000" by auto
  from first_named_exists [OF assms(12)] obtain p where
    p: "first_named (mName ?u0) s = Some p" "p < length (mUserObjPool (srv_um s))" by blast
  have name: "first_named (mName ?u0) ?s1 = Some p"
  proof -
    have "mName (mUserObjPool (srv_um ?s1) ! j) = mName (mUserObjPool (srv_um s) ! j)" for j
      using assms(12) by (cases "j = b") (simp_all add: with_user_def)
    then show ?thesis using p(1) by (simp add: first_named_def)
  qed
  have items: "texts_ok (mItemList (mUserObjPool (srv_um ?s1) ! p)) \<and> weight (mItemList (mUserObjPool (srv_um ?s1) ! p)) \<le> 4000"
  proof -
    have "mUserObjPool (srv_um ?s1) ! p = (if p = b then ?u0\<lparr>mItemList := bag\<rparr> else mUserObjPool (srv_um s) ! p)"
      using p(2) by (auto simp: with_user_def)
    moreover have "texts_ok (mItemList (mUserObjPool (srv_um s) ! p))" "weight (mItemList (mUserObjPool (srv_um s) ! p)) \<le> 4000"
      using assms(3) nth_mem [OF p(2)] by (fastforce simp: replies_fit_def)+
    ultimately show ?thesis using bag by simp
  qed
  have uid: "hdr_userid packet = word_of_int (int b)" unfolding assms(11) [symmetric] by simp
  have rec: "recipients E x True ?s1 = recipients E y True s" for x y
    by (simp add: recipients_def with_user_def)
  have send: "SendCurrentShopItemList E (int b) True ?s1 = Inr ?s2"
    using SendCurrentShopItemList_eq [OF ok1, of "int b"] assms(2,9,10) fit(3) rec [of "int b" "int b"] uid
    by simp
  have upd: "UpdateClientInventory E (mName ?u0) ?s2 = Inr (?s2\<lparr>srv_sent := srv_sent ?s2 @
      [(int p, Inventory_packet E (of_nat p) (mItemList (mUserObjPool (srv_um ?s1) ! p)))]\<rparr>)"
    using UpdateClientInventory_eq [of E ?s2 "mName ?u0" p] ok1 name items by simp
  have "GetUserByConnIdx (int b) (srv_um s) = Inr b"
    using assms(12) by (simp add: GetUserByConnIdx_Inr_iff)
  moreover have "(with_um (with_user b (\<lambda>_. ?u0\<lparr>mItemList := bag\<rparr>)) (s\<lparr>shop_mItemList := l'\<rparr>)) = ?s1"
    by (simp add: with_um_def with_user_def)
  ultimately have "RShop_Buy_run E packet s = Inr (?s2\<lparr>srv_sent := srv_sent ?s2 @
      [(int p, Inventory_packet E (of_nat p) (mItemList (mUserObjPool (srv_um ?s1) ! p)))]\<rparr>)"
    using assms(4-7,11,13) send upd by (simp add: RShop_Buy_run_def Let_def GetName_def)
  then show ?thesis using p(1) by auto
qed

section \<open>Properties\<close>

text \<open>C6: Buying conserves items and keeps the clients informed. For a request with a positive count whose
  answers fit in the buffers: if an entry of the shop has the item in the requested quantity, the
  stock of that item goes down and the buyer's count of it goes up by exactly the requested count,
  every other count of shop and players stays, the new list of the shop goes to every connected player
  and then an inventory to the first player with the buyer's name; if there is none, nothing happens.\<close>

theorem Buy_purchase:
  assumes "srv_ok E s" and "shop_mPacketManager s" and "replies_fit s" and "shop_ok (shop_mItemList s)"
    and "GetPacket (reqShopBuy_parse (env_lib E)) packet = Inr (Some req)"
    and "sint (reqShopBuy_itemid req) = k" and "k \<noteq> -1" and "sint (reqShopBuy_count req) = n" and "0 < n"
    and "sint (hdr_userid packet) = int b" and "b < length (mUserObjPool (srv_um s))"
    and "items_ok (mItemList (mUserObjPool (srv_um s) ! b))"
    and "count_of (mItemList (mUserObjPool (srv_um s) ! b)) k + n \<le> int32_max"
  shows "if \<exists>i \<in> set (shop_mItemList s). item_id i = k \<and> n \<le> item_count i
     then \<exists>s' p. RShop_Buy_run E packet s = Inr s' \<and>
       stock (shop_mItemList s') = (stock (shop_mItemList s))(k := stock (shop_mItemList s) k - n) \<and>
       shop_ok (shop_mItemList s') \<and> items_ok (mItemList (mUserObjPool (srv_um s') ! b)) \<and>
       count_of (mItemList (mUserObjPool (srv_um s') ! b)) =
         (count_of (mItemList (mUserObjPool (srv_um s) ! b)))
           (k := count_of (mItemList (mUserObjPool (srv_um s) ! b)) k + n) \<and>
       (\<forall>j. j \<noteq> b \<longrightarrow> mUserObjPool (srv_um s') ! j = mUserObjPool (srv_um s) ! j) \<and>
       first_named (mName (mUserObjPool (srv_um s) ! b)) s = Some p \<and>
       srv_sent s' = srv_sent s @
         map (\<lambda>i. (i, ShopList_packet E (hdr_userid packet) (shop_mItemList s'))) (recipients E (int b) True s) @
         [(int p, Inventory_packet E (of_nat p) (mItemList (mUserObjPool (srv_um s') ! p)))]
     else RShop_Buy_run E packet s = Inr s"
proof -
  let ?u0 = "mUserObjPool (srv_um s) ! b"
  have n: "n \<le> int32_max" using assms(8) sint_less [of "reqShopBuy_count req"] by (simp add: int32_max_def)
  obtain r where r: "Buy_loop k n (shop_mItemList s) = Inr r"
    using Buy_loop_total [OF assms(4,9) n] by blast
  show ?thesis
  proof (cases r)
    case None
    with r Buy_loop_None [of k n "shop_mItemList s"]
    have "\<not> (\<exists>i \<in> set (shop_mItemList s). item_id i = k \<and> n \<le> item_count i)" by fastforce
    moreover have "RShop_Buy_run E packet s = Inr s"
      using r None assms(5,6,8) by (simp add: RShop_Buy_run_def Let_def)
    ultimately show ?thesis by simp
  next
    case (Some x)
    then obtain it l' where l': "Buy_loop k n (shop_mItemList s) = Inr (Some (it, l'))"
      using r by (cases x) auto
    note b = Buy_loop_Some [OF l' assms(4,9)]
    have "texts_ok (shop_mItemList s)" using assms(3) by (simp add: replies_fit_def)
    with b have t: "texts_ok l'" by blast
    have c: "0 \<le> count_of (mItemList ?u0) k" using count_of_bounds [OF assms(12)] by blast
    have "in_int32 (count_of (mItemList ?u0) k + n)" "in_int32 n"
      using c assms(9,13) n by (simp_all add: int32_bounds int32_max_def)
    with AddItemCount_cases [of ?u0 "set_item_count n it"] assms(9,12) b c obtain bag where
      bag: "AddItemCount (set_item_count n it) ?u0 = Inr (?u0\<lparr>mItemList := bag\<rparr>)" "items_ok bag"
        "count_of bag = (count_of (mItemList ?u0))(k := count_of (mItemList ?u0) k + n)" by auto
    let ?s1 = "(with_um (with_user b (\<lambda>u. u\<lparr>mItemList := bag\<rparr>)) s)\<lparr>shop_mItemList := l'\<rparr>"
    have "\<exists>p. first_named (mName ?u0) s = Some p \<and> RShop_Buy_run E packet s = Inr (?s1\<lparr>srv_sent := srv_sent s @
       map (\<lambda>i. (i, ShopList_packet E (hdr_userid packet) l')) (recipients E (int b) True s) @
       [(int p, Inventory_packet E (of_nat p) (mItemList (mUserObjPool (srv_um ?s1) ! p)))]\<rparr>)"
      using Buy_run_found [OF assms(1-3,5), of it l' b bag] b t l' bag(1) assms(6-11) by simp
    then obtain p where p: "first_named (mName ?u0) s = Some p" "RShop_Buy_run E packet s = Inr (?s1\<lparr>srv_sent := srv_sent s @
       map (\<lambda>i. (i, ShopList_packet E (hdr_userid packet) l')) (recipients E (int b) True s) @
       [(int p, Inventory_packet E (of_nat p) (mItemList (mUserObjPool (srv_um ?s1) ! p)))]\<rparr>)" by blast
    have st: "stock l' = (stock (shop_mItemList s))(k := stock (shop_mItemList s) k - n)"
      using b by (auto simp: fun_eq_iff)
    have ex: "\<exists>i \<in> set (shop_mItemList s). item_id i = k \<and> n \<le> item_count i" using b by blast
    let ?s2 = "?s1\<lparr>srv_sent := srv_sent s @
       map (\<lambda>i. (i, ShopList_packet E (hdr_userid packet) l')) (recipients E (int b) True s) @
       [(int p, Inventory_packet E (of_nat p) (mItemList (mUserObjPool (srv_um ?s1) ! p)))]\<rparr>"
    have v: "mUserObjPool (srv_um ?s2) ! b = ?u0\<lparr>mItemList := bag\<rparr>"
      "\<And>j. j \<noteq> b \<Longrightarrow> mUserObjPool (srv_um ?s2) ! j = mUserObjPool (srv_um s) ! j"
      "shop_mItemList ?s2 = l'" "srv_um ?s2 = srv_um ?s1"
      using assms(11) by (simp_all add: with_user_def)
    have bag': "items_ok (mItemList (mUserObjPool (srv_um ?s2) ! b))"
      "count_of (mItemList (mUserObjPool (srv_um ?s2) ! b)) =
         (count_of (mItemList ?u0))(k := count_of (mItemList ?u0) k + n)"
      using bag(2,3) unfolding v(1) by simp_all
    have sent: "srv_sent ?s2 = srv_sent s @
         map (\<lambda>i. (i, ShopList_packet E (hdr_userid packet) (shop_mItemList ?s2))) (recipients E (int b) True s) @
         [(int p, Inventory_packet E (of_nat p) (mItemList (mUserObjPool (srv_um ?s2) ! p)))]"
      unfolding v(3,4) by simp
    show ?thesis
      unfolding if_P [OF ex]
      by (intro exI [of _ ?s2] exI [of _ p] conjI p bag' sent allI impI v(2))
        (use b st v(3) in simp_all)
  qed
qed

text \<open>C35: The count of a request is not checked to be positive. A request for a negative number below minus
  one, from a player who has the item, makes the stock larger by that number although the player
  cannot lose more than it has: the total of shop and player grows by the difference.\<close>

theorem Buy_negative_count:
  assumes "srv_ok E s" and "shop_mPacketManager s" and "replies_fit s" and "shop_ok (shop_mItemList s)"
    and "GetPacket (reqShopBuy_parse (env_lib E)) packet = Inr (Some req)"
    and "sint (reqShopBuy_itemid req) = k" and "k \<noteq> -1" and "sint (reqShopBuy_count req) = n" and "n < -1"
    and "List.find (\<lambda>i. item_id i = k) (shop_mItemList s) = Some it" and "in_int32 (item_count it - n)"
    and "sint (hdr_userid packet) = int b" and "b < length (mUserObjPool (srv_um s))"
    and "items_ok (mItemList (mUserObjPool (srv_um s) ! b))"
    and "0 < count_of (mItemList (mUserObjPool (srv_um s) ! b)) k"
  shows "\<exists>s'. RShop_Buy_run E packet s = Inr s' \<and>
     stock (shop_mItemList s') k = stock (shop_mItemList s) k - n \<and>
     count_of (mItemList (mUserObjPool (srv_um s') ! b)) k =
       max 0 (count_of (mItemList (mUserObjPool (srv_um s) ! b)) k + n)"
proof -
  let ?u0 = "mUserObjPool (srv_um s) ! b"
  from assms(9) have "n < 0" by simp
  from Buy_loop_negative [OF assms(4) this assms(10,11)] obtain l' where
    l': "Buy_loop k n (shop_mItemList s) = Inr (Some (it, l'))" "item_id it = k"
      "\<forall>j. stock l' j = stock (shop_mItemList s) j + (if j = k then - n else 0)"
      "weight l' = weight (shop_mItemList s)" "texts_ok l' = texts_ok (shop_mItemList s)"
      "it \<in> set (shop_mItemList s)" by blast
  have t: "texts_ok l'" using assms(3) l'(5) by (simp add: replies_fit_def)
  have "in_int32 n" using assms(8) by (metis in_int32_sint)
  moreover have "count_of (mItemList ?u0) k \<le> int32_max" using count_of_bounds [OF assms(14)] by blast
  ultimately have "in_int32 (count_of (mItemList ?u0) k + n)"
    using assms(9,15) by (simp add: int32_bounds int32_max_def)
  with AddItemCount_cases [of ?u0 "set_item_count n it"] assms(14,15) l'(2) \<open>in_int32 n\<close> obtain bag where
    bag: "AddItemCount (set_item_count n it) ?u0 = Inr (?u0\<lparr>mItemList := bag\<rparr>)"
      "count_of bag = (count_of (mItemList ?u0))(k := max 0 (count_of (mItemList ?u0) k + n))" by auto
  have "sint (reqShopBuy_count req) \<noteq> -1" using assms(8,9) by simp
  moreover have "Buy_loop (sint (reqShopBuy_itemid req)) (sint (reqShopBuy_count req)) (shop_mItemList s) = Inr (Some (it, l'))"
    using l'(1) assms(6,8) by simp
  ultimately obtain p s1 x where s1: "s1 = (with_um (with_user b (\<lambda>u. u\<lparr>mItemList := bag\<rparr>)) s)\<lparr>shop_mItemList := l'\<rparr>"
      "RShop_Buy_run E packet s = Inr (s1\<lparr>srv_sent := x\<rparr>)"
    using Buy_run_found [OF assms(1-3,5), of it l' b bag] bag(1) assms(7,8,12,13) l'(2,4,6) t by auto
  have "mUserObjPool (srv_um (s1\<lparr>srv_sent := x\<rparr>)) ! b = ?u0\<lparr>mItemList := bag\<rparr>"
    "shop_mItemList (s1\<lparr>srv_sent := x\<rparr>) = l'"
    using s1(1) assms(13) by (simp_all add: with_user_def)
  with s1(2) bag(2) l'(3) show ?thesis by (intro exI [of _ "s1\<lparr>srv_sent := x\<rparr>"]) simp
qed

text \<open>A request for minus one is taken for "nothing found", but after the list was changed: the stock grows
  by one, and neither the buyer's inventory nor any client hears of it.\<close>

lemma Buy_minus_one:
  assumes "shop_ok (shop_mItemList s)" and "GetPacket (reqShopBuy_parse (env_lib E)) packet = Inr (Some req)"
    and "reqShopBuy_count req = -1" and "sint (reqShopBuy_itemid req) = k"
    and "List.find (\<lambda>i. item_id i = k) (shop_mItemList s) = Some it" and "item_count it < int32_max"
  shows "\<exists>l'. RShop_Buy_run E packet s = Inr (s\<lparr>shop_mItemList := l'\<rparr>) \<and>
     stock l' = (stock (shop_mItemList s))(k := stock (shop_mItemList s) k + 1)"
proof -
  have c: "sint (reqShopBuy_count req) = -1" using assms(3) by simp
  have "0 < item_count it"
    using find_Some_in [OF assms(5)] assms(1) by (simp add: shop_ok_def)
  then have "in_int32 (item_count it - (-1))" using assms(6) by (simp add: int32_bounds int32_max_def)
  from Buy_loop_negative [OF assms(1) _ assms(5) this] obtain l' where
    l': "Buy_loop k (-1) (shop_mItemList s) = Inr (Some (it, l'))"
      "\<forall>j. stock l' j = stock (shop_mItemList s) j + (if j = k then 1 else 0)" by auto
  then have "RShop_Buy_run E packet s = Inr (s\<lparr>shop_mItemList := l'\<rparr>)"
    using assms(2,4) c by (simp add: RShop_Buy_run_def Let_def)
  moreover have "stock l' = (stock (shop_mItemList s))(k := stock (shop_mItemList s) k + 1)"
    using l'(2) by (auto simp: fun_eq_iff)
  ultimately show ?thesis by blast
qed

text \<open>What a reset collects, draw by draw.\<close>

lemma refill_facts:
  fixes dis :: "nat \<Rightarrow> int" and xs :: "nat list" and d :: database
  defines "l \<equiv> concat (map (\<lambda>i. map (\<lambda>(k, name, desc). (k, name, desc, DEFAULT_ITEM_COUNT)) (GetItemsRange (dis i) d)) xs)"
  shows "map item_id l = filter (\<lambda>k. db_items d k \<noteq> None) (map dis xs)"
    and "\<forall>i \<in> set l. item_count i = DEFAULT_ITEM_COUNT \<and> db_items d (item_id i) = Some (item_name i, item_desc i)"
    and "stock l k = (if db_items d k = None then 0 else DEFAULT_ITEM_COUNT * int (length (filter (\<lambda>i. dis i = k) xs)))"
    and "short_items d \<Longrightarrow> weight l \<le> 133 * length xs"
proof -
  have "map item_id l = filter (\<lambda>k. db_items d k \<noteq> None) (map dis xs) \<and>
    (\<forall>i \<in> set l. item_count i = DEFAULT_ITEM_COUNT \<and> db_items d (item_id i) = Some (item_name i, item_desc i)) \<and>
    stock l k = (if db_items d k = None then 0 else DEFAULT_ITEM_COUNT * int (length (filter (\<lambda>i. dis i = k) xs))) \<and>
    (short_items d \<longrightarrow> weight l \<le> 133 * length xs)"
    unfolding l_def
  proof (induction xs)
    case (Cons x xs)
    show ?case
    proof (cases "db_items d (dis x)")
      case None
      with Cons show ?thesis by (auto simp: GetItemsRange_def)
    next
      case (Some a)
      obtain name desc where a: "a = (name, desc)" by (cases a)
      with Some have "short_items d \<Longrightarrow> length name + length desc \<le> 73" by (auto simp: short_items_def)
      with Cons Some a show ?thesis by (auto simp: GetItemsRange_def algebra_simps)
    qed
  qed simp
  then show "map item_id l = filter (\<lambda>k. db_items d k \<noteq> None) (map dis xs)"
    "\<forall>i \<in> set l. item_count i = DEFAULT_ITEM_COUNT \<and> db_items d (item_id i) = Some (item_name i, item_desc i)"
    "stock l k = (if db_items d k = None then 0 else DEFAULT_ITEM_COUNT * int (length (filter (\<lambda>i. dis i = k) xs)))"
    "short_items d \<Longrightarrow> weight l \<le> 133 * length xs" by blast+
qed

text \<open>C28: With item texts of at most 73 characters together, a reset replaces the shop: its entries are, in the order of the
  30 draws, the drawn numbers that the item table has, each with the name and description of the table and 30 pieces,
  so that the stock of an item is 30 times the number of its draws; nothing of the old list stays. Every connected player
  is sent the new list once. The thread starts in the constructor: a reset that comes before \<open>RegisterPacket\<close> has set
  \<open>mPacketManager\<close> dereferences a null pointer.\<close>

theorem ResetItem_refills:
  assumes "srv_ok E s" and "reachable (srv_db s)" and "short_items (srv_db s)"
  shows "\<exists>l. map item_id l = filter (\<lambda>k. db_items (srv_db s) k \<noteq> None) (map dis [0..<30]) \<and>
    (\<forall>i \<in> set l. item_count i = 30 \<and> db_items (srv_db s) (item_id i) = Some (item_name i, item_desc i)) \<and>
    (\<forall>k. stock l k = (if db_items (srv_db s) k = None then 0 else 30 * int (length (filter (\<lambda>i. dis i = k) [0..<30])))) \<and>
    (if shop_mPacketManager s
     then \<exists>rs. distinct rs \<and> set rs = mUserIDDictionary (srv_um s) \<and>
       ResetItem E dis s = Inr (s\<lparr>shop_mItemList := l, srv_sent := srv_sent s @ map (\<lambda>i. (i, ShopList_packet E 0 l)) rs\<rparr>)
     else ResetItem E dis s = Inl NullDeref)"
proof -
  let ?l = "concat (map (\<lambda>i. map (\<lambda>(k, name, desc). (k, name, desc, DEFAULT_ITEM_COUNT)) (GetItemsRange (dis i) (srv_db s)))
      [0..<30])"
  have c: "DEFAULT_ITEM_COUNT = 30" "ITEM_LIST_MAX_COUNT = 30" by (simp_all add: DEFAULT_ITEM_COUNT_def ITEM_LIST_MAX_COUNT_def)
  note facts = refill_facts [where dis = dis and d = "srv_db s" and xs = "[0..<30]"]
  have w: "weight ?l \<le> 4000" using facts(4) [OF assms(3)] by simp
  have t: "texts_ok ?l" using facts(2) assms(3) by (fastforce simp: texts_ok_def short_items_def)
  have L: "pb_lib_ok (env_lib E)" using assms(1) by (simp add: srv_ok_def)
  let ?s1 = "s\<lparr>shop_mItemList := ?l\<rparr>"
  have r: "ResetItem E dis s = SendCurrentShopItemList E 0 True ?s1" by (simp add: ResetItem_def assms(2) c(2))
  have ok: "srv_ok E ?s1" using assms(1) by (simp add: srv_ok_def)
  have "if shop_mPacketManager s
     then \<exists>rs. distinct rs \<and> set rs = mUserIDDictionary (srv_um s) \<and>
       ResetItem E dis s = Inr (s\<lparr>shop_mItemList := ?l, srv_sent := srv_sent s @ map (\<lambda>i. (i, ShopList_packet E 0 ?l)) rs\<rparr>)
     else ResetItem E dis s = Inl NullDeref"
  proof (cases "shop_mPacketManager s")
    case True
    with SendCurrentShopItemList_eq [OF ok, of 0] t w have
      "ResetItem E dis s = Inr (s\<lparr>shop_mItemList := ?l, srv_sent := srv_sent s @
         map (\<lambda>i. (i, ShopList_packet E 0 ?l)) (recipients E 0 True ?s1)\<rparr>)"
      unfolding r by simp
    moreover have "distinct (recipients E 0 True ?s1)" "set (recipients E 0 True ?s1) = mUserIDDictionary (srv_um s)"
      using recipients_set(2,3) [OF ok] by simp_all
    ultimately show ?thesis unfolding if_P [OF True] by blast
  next
    case False
    with packed_ShopList_eq(1) [OF L t w, of 0] show ?thesis unfolding r by (simp add: SendCurrentShopItemList_def)
  qed
  with facts(1,2,3) show ?thesis unfolding c(1) by blast
qed

subsection \<open>Witnesses\<close>

definition wshop :: "item list" where
  "wshop = [(7, ''axe'', [], 30), (9, ''bow'', [], 4)]"

definition wmarket :: server where
  "wmarket = (with_um (with_user 1 (\<lambda>u. u\<lparr>mItemList := [(9, ''bow'', [], 2)]\<rparr>)) (wserver {0, 1}))\<lparr>shop_mItemList := wshop\<rparr>"

lemma wmarket_ok: "srv_ok wenv wmarket"
  unfolding wmarket_def by (simp add: srv_ok_with_user wserver_ok)

lemma wmarket_pool: "mUserObjPool (srv_um wmarket) = [User_Init 0 User_new,
    (User_Init 1 User_new)\<lparr>mItemList := [(9, ''bow'', [], 2)]\<rparr>, User_Init 2 User_new]"
  by (simp add: wmarket_def wserver_def wum_def with_user_def upt_rec)

lemma wmarket_facts: "shop_mPacketManager wmarket" "shop_mItemList wmarket = wshop" "shop_ok wshop"
    "replies_fit wmarket" "b < 3 \<Longrightarrow> items_ok (mItemList (mUserObjPool (srv_um wmarket) ! b))"
proof -
  show "shop_mPacketManager wmarket" "shop_mItemList wmarket = wshop" "shop_ok wshop"
    by (simp_all add: wmarket_def wserver_def wshop_def int32_max_def)
  show "replies_fit wmarket"
    unfolding replies_fit_def wmarket_pool
    by (simp add: wmarket_def wserver_def wshop_def User_Init_def User_new_def ascii_def)
  show "b < 3 \<Longrightarrow> items_ok (mItemList (mUserObjPool (srv_um wmarket) ! b))"
    unfolding wmarket_pool
    by (auto simp: less_Suc_eq numeral_3_eq_3 User_Init_def User_new_def items_ok_Cons int32_max_def)
qed

definition wreq :: "int32 \<Rightarrow> reqShopBuy" where
  "wreq n = reqShopBuy_set_count n (reqShopBuy_set_itemid 9 reqShopBuy_new)"

definition wbuy :: "int32 \<Rightarrow> messageHeader" where
  "wbuy n = set_userid 1 (packed_header messageHeader_new (reqShopBuy_InternalSerialize ref_lib (wreq n)) reqShopBuy_full_name)"

lemma wreq_simps [simp]: "reqShopBuy_itemid (wreq n) = 9" "reqShopBuy_count (wreq n) = n"
  by (simp_all add: wreq_def reqShopBuy_set_count_def reqShopBuy_set_itemid_def)

lemma wreq_wf: "reqShopBuy_wf ref_lib (wreq n)" "reqShopBuy_ByteSizeLong (wreq n) \<le> 22"
proof -
  show *: "reqShopBuy_ByteSizeLong (wreq n) \<le> 22"
    using Int32SizePlusOne_le [of n] Int32SizePlusOne_le [of 9]
    by (simp add: reqShopBuy_ByteSizeLong_def wreq_def reqShopBuy_new_def reqShopBuy_set_count_def reqShopBuy_set_itemid_def)
  have "VerifyUTF8 ref_lib (bytes_of_string [])" by (rule pb_lib_ascii [OF ref_lib_ok]) (simp add: bytes_of_string_def)
  with * show "reqShopBuy_wf ref_lib (wreq n)"
    by (simp add: reqShopBuy_wf_def)
      (simp add: wreq_def reqShopBuy_new_def reqShopBuy_set_count_def reqShopBuy_set_itemid_def)
qed

lemma wbuy_request: "GetPacket (reqShopBuy_parse (env_lib wenv)) (wbuy n) = Inr (Some (wreq n))"
proof -
  let ?s = "reqShopBuy_InternalSerialize ref_lib (wreq n)"
  have l: "length ?s \<le> 22" using reqShopBuy_codec.ser_size [OF ref_lib_ok wreq_wf(1)] wreq_wf(2) by simp
  have h: "hdr_arr (wbuy n) = ?s" "hdr_arrsize (wbuy n) = of_nat (length ?s)" "hdr_type (wbuy n) = reqShopBuy_full_name"
    by (simp_all add: wbuy_def set_userid_def)
  have u: "unat (hdr_arrsize (wbuy n)) = length ?s" unfolding h(2) using l by (intro unat_of_nat_u32) simp
  have "env_lib wenv = ref_lib" by (simp add: wenv_def)
  then show ?thesis
    unfolding GetPacket_eq u h(1,3) using l reqShopBuy_codec.ser_parse [OF ref_lib_ok wreq_wf(1)] by simp
qed

lemma wbuy_userid: "sint (hdr_userid (wbuy n)) = int 1"
  by (simp add: wbuy_def set_userid_def)

lemma wmarket_count: "count_of (mItemList (mUserObjPool (srv_um wmarket) ! 1)) 9 = 2"
  unfolding wmarket_pool by (simp add: count_of_Cons)

theorem Buy_purchase_witness:
  "\<exists>s'. RShop_Buy_run wenv (wbuy 3) wmarket = Inr s' \<and> stock (shop_mItemList s') 9 = 1 \<and>
     count_of (mItemList (mUserObjPool (srv_um s') ! 1)) 9 = 5"
proof -
  have ex: "\<exists>i \<in> set (shop_mItemList wmarket). item_id i = 9 \<and> 3 \<le> item_count i"
    by (simp add: wmarket_facts wshop_def)
  have "length (mUserObjPool (srv_um wmarket)) = 3" by (simp add: wmarket_pool)
  with Buy_purchase [OF wmarket_ok wmarket_facts(1,4) _ wbuy_request, of 3 9 3 1]
  show ?thesis
    using wmarket_facts(5) [of 1] wmarket_count ex
    by (auto simp: wmarket_facts wbuy_userid int32_max_def wshop_def)
qed

theorem Buy_negative_count_witness:
  "\<exists>s'. RShop_Buy_run wenv (wbuy (- 5)) wmarket = Inr s' \<and> stock (shop_mItemList s') 9 = 9 \<and>
     count_of (mItemList (mUserObjPool (srv_um s') ! 1)) 9 = 0"
proof -
  have "length (mUserObjPool (srv_um wmarket)) = 3" by (simp add: wmarket_pool)
  with Buy_negative_count [OF wmarket_ok wmarket_facts(1,4) _ wbuy_request, of "-5" 9 "-5" "(9, ''bow'', [], 4)" 1]
  show ?thesis
    using wmarket_facts(5) [of 1] wmarket_count
    by (auto simp: wmarket_facts wbuy_userid int32_bounds wshop_def)
qed

text \<open>Two items in the table, the first drawn twice, the second once; two players are connected.\<close>

definition wstocked :: server where
  "wstocked = wmarket\<lparr>srv_db := (srv_db wmarket)\<lparr>db_items := [7 \<mapsto> (''axe'', []), 9 \<mapsto> (''bow'', [])]\<rparr>\<rparr>"

definition wdraws :: "nat \<Rightarrow> int" where
  "wdraws i = (if i = 3 \<or> i = 8 then 7 else if i = 5 then 9 else 1)"

lemma wstocked_facts: "srv_ok wenv wstocked" "shop_mPacketManager wstocked" "reachable (srv_db wstocked)"
  "short_items (srv_db wstocked)" "mUserIDDictionary (srv_um wstocked) = {0, 1}"
proof -
  show "srv_ok wenv wstocked" using wmarket_ok by (simp add: srv_ok_def wstocked_def)
  show "shop_mPacketManager wstocked" using wmarket_facts(1) by (simp add: wstocked_def)
  show "reachable (srv_db wstocked)" "short_items (srv_db wstocked)"
    by (auto simp: wstocked_def wmarket_def wserver_def short_items_def ascii_def split: if_splits)
  show "mUserIDDictionary (srv_um wstocked) = {0, 1}" by (simp add: wstocked_def wmarket_def wserver_def with_user_def)
qed

theorem ResetItem_refills_witness:
  "(\<exists>s'. ResetItem wenv wdraws wstocked = Inr s' \<and> map item_id (shop_mItemList s') = [7, 9, 7] \<and>
      stock (shop_mItemList s') 7 = 60 \<and> stock (shop_mItemList s') 1 = 0 \<and>
      length (srv_sent s') = length (srv_sent wstocked) + 2) \<and>
   ResetItem wenv wdraws (wstocked\<lparr>shop_mPacketManager := False\<rparr>) = Inl NullDeref"
proof -
  have d: "db_items (srv_db wstocked) = [7 \<mapsto> (''axe'', []), 9 \<mapsto> (''bow'', [])]" by (simp add: wstocked_def)
  have m: "filter (\<lambda>k. db_items (srv_db wstocked) k \<noteq> None) (map wdraws [0..<30]) = [7, 9, 7]"
    "length (filter (\<lambda>i. wdraws i = 7) [0..<30]) = 2"
    unfolding d by (simp_all add: wdraws_def upt_rec)
  note r = ResetItem_refills [OF wstocked_facts(1,3,4), of wdraws, unfolded m(1) if_P [OF wstocked_facts(2)] wstocked_facts(5)]
  from r obtain l rs where l: "map item_id l = [7, 9, 7]"
    "\<forall>k. stock l k = (if db_items (srv_db wstocked) k = None then 0 else 30 * int (length (filter (\<lambda>i. wdraws i = k) [0..<30])))"
    "distinct rs" "set rs = {0, 1}" "ResetItem wenv wdraws wstocked =
        Inr (wstocked\<lparr>shop_mItemList := l, srv_sent := srv_sent wstocked @ map (\<lambda>i. (i, ShopList_packet wenv 0 l)) rs\<rparr>)"
    by (elim exE conjE) (rule that; assumption)
  have k: "stock l 7 = 60" "stock l 1 = 0" using l(2) [rule_format, of 7] l(2) [rule_format, of 1] m(2) by (simp_all add: d)
  have "length rs = 2" using distinct_card [OF l(3)] l(4) by simp
  moreover have "srv_ok wenv (wstocked\<lparr>shop_mPacketManager := False\<rparr>)" using wstocked_facts(1) by (simp add: srv_ok_def)
  from ResetItem_refills [OF this, of wdraws] have
    "ResetItem wenv wdraws (wstocked\<lparr>shop_mPacketManager := False\<rparr>) = Inl NullDeref"
    using wstocked_facts(3,4) by simp (elim exE conjE, assumption)
  ultimately show ?thesis using l(1,5) k by simp
qed

end
