(* ===== verification/Server_Loop.thy ===== *)
theory Server_Loop
  imports Inventory_Route Shop_Route
begin

text \<open>
  The server as a whole: the registration of the routes (\<^verbatim>\<open>RouteInjector.h\<close> and each \<open>RegisterPacket\<close>),
  the packet thread (\<open>ProcessPacket\<close>, \<open>ProcessRecvPacket\<close> of \<^verbatim>\<open>PacketManager.cpp\<close>) and the events by which
  the other threads take part: packets and connections that the network reports, a round of the write-back thread, a reset
  of the shop. A step is one locked operation of the queues or one round of a thread.
\<close>

section \<open>Registration\<close>

definition RConnection_RegisterPacket :: "route_handler packet_manager \<Rightarrow> route_handler packet_manager" where
  "RConnection_RegisterPacket pm =
     RegisterCallback SYSTEM_USER_DISCONNECT_full_name RConnection_Disconnect
       (RegisterCallback SYSTEM_USER_CONNECT_full_name RConnection_Connect pm)"

definition RPing_RegisterPacket :: "route_handler packet_manager \<Rightarrow> route_handler packet_manager" where
  "RPing_RegisterPacket pm = RegisterCallback reqPing_full_name RPing_Ping pm"

definition RReplicationPlayer_RegisterPacket :: "route_handler packet_manager \<Rightarrow> route_handler packet_manager" where
  "RReplicationPlayer_RegisterPacket pm =
     RegisterCallback SYSTEM_USER_CONNECT_full_name RReplicationPlayer_Join
       (RegisterCallback reqReplicatedPlayerDes_full_name RReplicationPlayer_Des
         (RegisterCallback reqPlayerPosition_full_name RReplicationPlayer_Synchronize pm))"

definition RIenventory_RegisterPacket :: "route_handler packet_manager \<Rightarrow> route_handler packet_manager" where
  "RIenventory_RegisterPacket pm =
     RegisterCallback SYSTEM_USER_DISCONNECT_full_name RIenventory_Disconnect
       (RegisterCallback reqNotifyPlayerName_full_name RIenventory_Connect pm)"

definition RShop_RegisterPacket :: "route_handler packet_manager \<Rightarrow> route_handler packet_manager" where
  "RShop_RegisterPacket pm =
     RegisterCallback reqShopItemList_full_name RShop_RequireItemList
       (RegisterCallback reqAddToItem_full_name RShop_Sell
         (RegisterCallback reqShopBuy_full_name RShop_Buy pm))"

definition RouteInit :: "server \<Rightarrow> server" where
  "RouteInit s =
     s\<lparr>srv_pm := RShop_RegisterPacket (RIenventory_RegisterPacket (RReplicationPlayer_RegisterPacket
         (RPing_RegisterPacket (RConnection_RegisterPacket (srv_pm s))))),
       shop_mPacketManager := True\<rparr>"

definition PacketManager_Init :: "int \<Rightarrow> server \<Rightarrow> server result" where
  "PacketManager_Init maxClient s =
     bind_result (CreateCompent maxClient ((srv_pm s)\<lparr>mRecvFuntionDictionary := (\<lambda>_. None)\<rparr>)) (\<lambda>pm.
       Inr (RouteInit (s\<lparr>srv_pm := pm\<rparr>)))"

section \<open>The packet thread\<close>

fun run_handler :: "env \<Rightarrow> route_handler \<Rightarrow> messageHeader \<Rightarrow> server \<Rightarrow> server result" where
  "run_handler E RConnection_Connect h s = RConnection_Connect_run E h s"
| "run_handler E RConnection_Disconnect h s = RConnection_Disconnect_run h s"
| "run_handler E RPing_Ping h s = RPing_Ping_run E h s"
| "run_handler E RReplicationPlayer_Synchronize h s = RReplicationPlayer_Synchronize_run E h s"
| "run_handler E RReplicationPlayer_Des h s = RReplicationPlayer_Des_run h s"
| "run_handler E RReplicationPlayer_Join h s = RReplicationPlayer_Join_run E h s"
| "run_handler E RIenventory_Connect h s = RIenventory_Connect_run E h s"
| "run_handler E RIenventory_Disconnect h s = RIenventory_Disconnect_run E h s"
| "run_handler E RShop_Buy h s = RShop_Buy_run E h s"
| "run_handler E RShop_Sell h s = RShop_Sell_run h s"
| "run_handler E RShop_RequireItemList h s = RShop_RequireItemList_run E h s"

fun run_container :: "env \<Rightarrow> route_handler list \<Rightarrow> messageHeader \<Rightarrow> server \<Rightarrow> server result" where
  "run_container E [] h s = Inr s"
| "run_container E (i # container) h s = bind_result (run_handler E i h s) (run_container E container h)"

definition ProcessRecvPacket :: "env \<Rightarrow> messageHeader \<Rightarrow> server \<Rightarrow> server result" where
  "ProcessRecvPacket E packet s =
     (case mRecvFuntionDictionary (srv_pm s) (hdr_type packet) of
        None \<Rightarrow> Inr s
      | Some container \<Rightarrow> run_container E container packet s)"

text \<open>
  One round of \<open>ProcessPacket\<close>. The Redis manager is created but never run, so its response queue stays
  empty and the third branch of the loop does nothing.
\<close>

definition ProcessPacket_round :: "env \<Rightarrow> server \<Rightarrow> server result" where
  "ProcessPacket_round E s =
     bind_result (DequePacketData (srv_pm s)) (\<lambda>(packetData, pm1).
     bind_result
       (case packetData of
          None \<Rightarrow> Inr (s\<lparr>srv_pm := pm1\<rparr>)
        | Some p \<Rightarrow>
            if IsPacket (hdr_type p) SystemEnd_full_name then Inr (s\<lparr>srv_pm := pm1\<rparr>)
            else ProcessRecvPacket E p (s\<lparr>srv_pm := pm1\<rparr>)) (\<lambda>s1.
     let (systemData, pm2) = DequeSystemPacketData (srv_pm s1); s2 = s1\<lparr>srv_pm := pm2\<rparr> in
       case systemData of
         None \<Rightarrow> Inr s2
       | Some p \<Rightarrow> ProcessRecvPacket E p s2))"

section \<open>Events\<close>

definition GameServer_OnConnect :: "uint32 \<Rightarrow> bytes \<Rightarrow> 'h packet_manager \<Rightarrow> 'h packet_manager" where
  "GameServer_OnConnect clientIndex fresh pm =
     PushSystemPacket (set_userid clientIndex (MakePackedHeader 0 SYSTEM_USER_CONNECT_full_name fresh)) pm"

definition GameServer_OnClose :: "uint32 \<Rightarrow> bytes \<Rightarrow> 'h packet_manager \<Rightarrow> 'h packet_manager" where
  "GameServer_OnClose clientIndex fresh pm =
     PushSystemPacket (set_userid clientIndex (MakePackedHeader 0 SYSTEM_USER_DISCONNECT_full_name fresh)) pm"

inductive server_step :: "env \<Rightarrow> server \<Rightarrow> server \<Rightarrow> bool" where
  received: "ReceivePacketData (int i) p (srv_pm s) = Inr pm \<Longrightarrow> server_step E s (s\<lparr>srv_pm := pm\<rparr>)"
| connected: "server_step E s (s\<lparr>srv_pm := GameServer_OnConnect (of_nat i) fresh (srv_pm s)\<rparr>)"
| closed: "server_step E s (s\<lparr>srv_pm := GameServer_OnClose (of_nat i) fresh (srv_pm s)\<rparr>)"
| processed: "ProcessPacket_round E s = Inr s' \<Longrightarrow> server_step E s s'"
| written_back: "SynchronizeDB E s = Inr s' \<Longrightarrow> server_step E s s'"
| reset: "ResetItem E dis s = Inr s' \<Longrightarrow> server_step E s s'"
| database: "server_step E s (s\<lparr>srv_db := (srv_db s)\<lparr>reachable := up\<rparr>\<rparr>)"

inductive_cases server_stepE: "server_step E s s'"

inductive server_reachable :: "env \<Rightarrow> int \<Rightarrow> server \<Rightarrow> server \<Rightarrow> bool" where
  start: "PacketManager_Init n s0 = Inr s \<Longrightarrow> server_reachable E n s0 s"
| more: "server_reachable E n s0 s \<Longrightarrow> server_step E s s' \<Longrightarrow> server_reachable E n s0 s'"

section \<open>What the handlers keep\<close>

text \<open>
  A handler works on users and sends; it leaves the queues, the callback table and the size of the pool
  alone and keeps the user manager well-formed.
\<close>

definition keeps :: "server \<Rightarrow> server \<Rightarrow> bool" where
  "keeps s s' \<longleftrightarrow> (um_ok (srv_um s) \<longrightarrow> um_ok (srv_um s')) \<and>
     user_queues (srv_um s') = user_queues (srv_um s) \<and> mMaxUserCnt (srv_um s') = mMaxUserCnt (srv_um s) \<and>
     mInComingPacketUserIndex (srv_pm s') = mInComingPacketUserIndex (srv_pm s) \<and>
     mSystemPacketQueue (srv_pm s') = mSystemPacketQueue (srv_pm s) \<and>
     mRecvFuntionDictionary (srv_pm s') = mRecvFuntionDictionary (srv_pm s)"

lemma keeps_refl [simp]: "keeps s s"
  by (simp add: keeps_def)

lemma keeps_trans: "keeps s s' \<Longrightarrow> keeps s' s'' \<Longrightarrow> keeps s s''"
  by (simp add: keeps_def)

lemma GetUserByConnIdx_InrD: "GetUserByConnIdx i m = Inr p \<Longrightarrow> p < length (mUserObjPool m)"
  by (auto simp: GetUserByConnIdx_Inr_iff)

lemma keeps_fields [simp]:
  "keeps s (s'\<lparr>srv_sent := a\<rparr>) = keeps s s'" "keeps s (s'\<lparr>srv_db := d\<rparr>) = keeps s s'"
  "keeps s (s'\<lparr>shop_mItemList := l\<rparr>) = keeps s s'" "keeps s (s'\<lparr>m_count := c\<rparr>) = keeps s s'"
  "keeps s (s'\<lparr>inv_mProvider := b\<rparr>) = keeps s s'"
  "keeps (s\<lparr>shop_mItemList := l\<rparr>) s' = keeps s s'" "keeps (s\<lparr>inv_mProvider := b\<rparr>) s' = keeps s s'"
  by (simp_all add: keeps_def)

text \<open>A change of one user that leaves its index and its packet queue alone.\<close>

definition user_frame :: "(user \<Rightarrow> user) \<Rightarrow> user \<Rightarrow> bool" where
  "user_frame f u \<longleftrightarrow> mIndex (f u) = mIndex u \<and> mPacketQueue (f u) = mPacketQueue u"

lemma keeps_with_user:
  assumes "p < length (mUserObjPool (srv_um s))" and "user_frame f (mUserObjPool (srv_um s) ! p)"
  shows "keeps s (with_um (with_user p f) s)"
proof -
  have "um_ok (srv_um s) \<Longrightarrow> um_ok (with_user p f (srv_um s))"
    using assms by (auto simp: um_ok_def with_user_def user_frame_def nth_list_update)
  moreover have "user_queues (with_user p f (srv_um s)) = user_queues (srv_um s)"
    using assms by (auto simp: user_queues_with_user user_frame_def user_queues_def fun_eq_iff)
  ultimately show ?thesis by (simp add: keeps_def with_um_def with_user_def)
qed

lemma keeps_with_um:
  assumes "um_ok (srv_um s) \<Longrightarrow> um_ok um" and "user_queues um = user_queues (srv_um s)" and "mMaxUserCnt um = mMaxUserCnt (srv_um s)"
  shows "keeps s (with_um (\<lambda>_. um) s)"
  using assms by (simp add: keeps_def with_um_def)

lemma user_queues_pool:
  assumes "length (mUserObjPool um) = length (mUserObjPool um')"
    and "\<forall>i < length (mUserObjPool um'). mPacketQueue (mUserObjPool um ! i) = mPacketQueue (mUserObjPool um' ! i)"
  shows "user_queues um = user_queues um'"
  using assms by (auto simp: user_queues_def fun_eq_iff)

lemma keeps_AddUser: "AddUser i (srv_um s) = Inr (e, um) \<Longrightarrow> keeps s (with_um (\<lambda>_. um) s)"
  by (rule keeps_with_um)
    (auto simp: AddUser_um_ok AddUser_Inr_iff User_Clear_def nth_list_update intro!: user_queues_pool)

lemma keeps_DeleteUser: "DeleteUser p (srv_um s) = Inr um \<Longrightarrow> keeps s (with_um (\<lambda>_. um) s)"
  by (rule keeps_with_um)
    (auto simp: DeleteUser_um_ok DeleteUser_Inr_iff User_Clear_def nth_list_update intro!: user_queues_pool)

lemma keeps_SendPacketFunc: "SendPacketFunc i buf s = Inr s' \<Longrightarrow> keeps s s'"
  by (auto simp: SendPacketFunc_def split: option.splits)

lemma keeps_Broadcast_loop: "Broadcast_loop sender buf incl us s = Inr s' \<Longrightarrow> keeps s s'"
proof (induction us arbitrary: s)
  case (Cons u us)
  then show ?case
    by (auto simp: bind_result_Inr_iff split: if_splits intro: keeps_trans dest!: keeps_SendPacketFunc)
qed simp

lemma keeps_BroadcastPacket: "BroadcastPacket E sender buf incl s = Inr s' \<Longrightarrow> keeps s s'"
  by (auto simp: BroadcastPacket_def bind_result_Inr_iff split: if_splits dest: keeps_Broadcast_loop)

lemma keeps_Join_loops:
  "Join_announce userid buf freed us s = Inr s' \<Longrightarrow> keeps s s'"
  "Join_introduce E userid g us s = Inr s' \<Longrightarrow> keeps s s'"
proof -
  show "Join_announce userid buf freed us s = Inr s' \<Longrightarrow> keeps s s'"
    by (induction us arbitrary: s freed)
      (auto simp: bind_result_Inr_iff split: if_splits option.splits intro: keeps_trans dest!: keeps_SendPacketFunc)
  show "Join_introduce E userid g us s = Inr s' \<Longrightarrow> keeps s s'"
    by (induction us arbitrary: s g)
      (auto simp: bind_result_Inr_iff Let_def split: if_splits option.splits intro: keeps_trans dest!: keeps_SendPacketFunc)
qed

lemma AddItemCount_frame: "AddItemCount i u = Inr u' \<Longrightarrow> user_frame (\<lambda>_. u') u"
  by (auto simp: AddItemCount_Inr_iff user_frame_def)

lemma AddItemCount_all_frame: "AddItemCount_all l u = Inr u' \<Longrightarrow> user_frame (\<lambda>_. u') u"
proof (induction l arbitrary: u)
  case (Cons i l)
  then obtain u1 where u1: "AddItemCount i u = Inr u1" "AddItemCount_all l u1 = Inr u'"
    by (auto simp: bind_result_Inr_iff)
  from AddItemCount_frame [OF u1(1)] Cons.IH [OF u1(2)] show ?case by (simp add: user_frame_def)
qed (simp add: user_frame_def)

lemma keeps_SendCurrentShopItemList: "SendCurrentShopItemList E userid b s = Inr s' \<Longrightarrow> keeps s s'"
  by (auto simp: SendCurrentShopItemList_def bind_result_Inr_iff split: if_splits
      dest: keeps_BroadcastPacket keeps_SendPacketFunc)

lemma keeps_UpdateClientInventory: "UpdateClientInventory E name s = Inr s' \<Longrightarrow> keeps s s'"
  by (auto simp: UpdateClientInventory_def bind_result_Inr_iff Let_def split: option.splits
      dest: keeps_SendPacketFunc)

lemma keeps_UpdateInventoryDB: "UpdateInventoryDB E userid s = Inr s' \<Longrightarrow> keeps s s'"
  by (auto simp: UpdateInventoryDB_def bind_result_Inr_iff Let_def split: if_splits)

lemma keeps_TryCreateInventory: "TryCreateInventory E userid s = Inr s' \<Longrightarrow> keeps s s'"
  by (auto simp: TryCreateInventory_def bind_result_Inr_iff Let_def split: if_splits option.splits)

lemma keeps_UpdateInventoryServerData:
  assumes "UpdateInventoryServerData E userid s = Inr s'"
  shows "keeps s s'"
proof -
  from assms obtain p u buf l where
    p: "p < length (mUserObjPool (srv_um s))" and u: "AddItemCount_all l (ClearItem (mUserObjPool (srv_um s) ! p)) = Inr u"
    and s': "SendPacketFunc userid buf (with_um (with_user p (\<lambda>_. u)) s) = Inr s'"
    by (auto simp: UpdateInventoryServerData_def bind_result_Inr_iff Let_def dest!: GetUserByConnIdx_InrD)
  have "user_frame (\<lambda>_. u) (mUserObjPool (srv_um s) ! p)"
    using AddItemCount_all_frame [OF u] by (simp add: user_frame_def ClearItem_def)
  from keeps_trans [OF keeps_with_user [OF p this] keeps_SendPacketFunc [OF s']] show ?thesis .
qed

lemma keeps_RIenventory_Connect:
  assumes "RIenventory_Connect_run E h s = Inr s'"
  shows "keeps s s'"
proof (cases "GetPacket (reqNotifyPlayerName_parse (env_lib E)) h")
  case (Inr r)
  show ?thesis
  proof (cases r)
    case None
    with Inr assms show ?thesis by (auto simp: RIenventory_Connect_run_def)
  next
    case (Some packet)
    let ?s0 = "s\<lparr>inv_mProvider := True\<rparr>"
    from assms Inr Some obtain p s1 where
      p: "p < length (mUserObjPool (srv_um ?s0))" and
      s1: "TryCreateInventory E (sint (hdr_userid h)) (with_um (with_user p (SetName (reqNotifyPlayerName_name packet))) ?s0) = Inr s1"
      and s': "UpdateInventoryServerData E (sint (hdr_userid h)) s1 = Inr s'"
      by (auto simp: RIenventory_Connect_run_def bind_result_Inr_iff Let_def dest!: GetUserByConnIdx_InrD)
    have "user_frame (SetName (reqNotifyPlayerName_name packet)) (mUserObjPool (srv_um ?s0) ! p)"
      by (simp add: user_frame_def SetName_def)
    from keeps_trans [OF keeps_trans [OF keeps_with_user [OF p this] keeps_TryCreateInventory [OF s1]]
        keeps_UpdateInventoryServerData [OF s']]
    show ?thesis by simp
  qed
qed (use assms in \<open>simp add: RIenventory_Connect_run_def\<close>)

lemma keeps_RShop_Buy:
  assumes "RShop_Buy_run E h s = Inr s'"
  shows "keeps s s'"
proof -
  from assms obtain r where r: "GetPacket (reqShopBuy_parse (env_lib E)) h = Inr r"
    by (auto simp: RShop_Buy_run_def bind_result_Inr_iff)
  show ?thesis
  proof (cases r)
    case None
    with r assms show ?thesis by (simp add: RShop_Buy_run_def)
  next
    case (Some req)
    with r assms obtain f where
      f: "Buy_loop (sint (reqShopBuy_itemid req)) (sint (reqShopBuy_count req)) (shop_mItemList s) = Inr f"
      by (auto simp: RShop_Buy_run_def bind_result_Inr_iff Let_def)
    show ?thesis
    proof (cases f)
      case None
      with r f Some assms show ?thesis by (simp add: RShop_Buy_run_def Let_def)
    next
      case (Some x)
      obtain it l where x: "x = (it, l)" by (cases x)
      let ?s1 = "s\<lparr>shop_mItemList := l\<rparr>"
      show ?thesis
      proof (cases "item_id it = -1 \<or> sint (reqShopBuy_count req) = -1")
        case True
        with r f x Some \<open>r = Some req\<close> assms have "s' = ?s1" by (auto simp: RShop_Buy_run_def Let_def)
        then show ?thesis by simp
      next
        case False
        with r f x Some \<open>r = Some req\<close> assms obtain p u s2 i where
          p: "p < length (mUserObjPool (srv_um ?s1))"
          and u: "AddItemCount (set_item_count (sint (reqShopBuy_count req)) it) (mUserObjPool (srv_um ?s1) ! p) = Inr u"
          and s2: "SendCurrentShopItemList E i True (with_um (with_user p (\<lambda>_. u)) ?s1) = Inr s2"
          and s': "UpdateClientInventory E (GetName u) s2 = Inr s'"
          by (auto simp: RShop_Buy_run_def bind_result_Inr_iff Let_def dest!: GetUserByConnIdx_InrD)
        from keeps_trans [OF keeps_trans [OF keeps_with_user [OF p AddItemCount_frame [OF u]]
              keeps_SendCurrentShopItemList [OF s2]] keeps_UpdateClientInventory [OF s']]
        show ?thesis by simp
      qed
    qed
  qed
qed

lemma keeps_handler:
  assumes "run_handler E i h s = Inr s'"
  shows "keeps s s'"
proof (cases i)
  case RConnection_Connect
  with assms show ?thesis
    by (auto simp: RConnection_Connect_run_def bind_result_Inr_iff
        intro: keeps_trans [OF keeps_AddUser keeps_SendPacketFunc])
next
  case RConnection_Disconnect
  with assms show ?thesis
    by (auto simp: RConnection_Disconnect_run_def bind_result_Inr_iff intro: keeps_DeleteUser)
next
  case RPing_Ping
  with assms show ?thesis by (auto simp: RPing_Ping_run_def bind_result_Inr_iff split: option.splits)
next
  case RReplicationPlayer_Synchronize
  with assms show ?thesis
    by (auto simp: RReplicationPlayer_Synchronize_run_def bind_result_Inr_iff split: option.splits
        dest: keeps_BroadcastPacket)
next
  case RReplicationPlayer_Join
  with assms show ?thesis
    by (auto simp: RReplicationPlayer_Join_run_def bind_result_Inr_iff Let_def
        intro: keeps_trans [OF keeps_Join_loops(1) keeps_Join_loops(2)])
next
  case RIenventory_Connect
  with assms keeps_RIenventory_Connect show ?thesis by simp
next
  case RIenventory_Disconnect
  with assms keeps_UpdateInventoryDB show ?thesis by (simp add: RIenventory_Disconnect_run_def)
next
  case RShop_Buy
  with assms keeps_RShop_Buy show ?thesis by simp
next
  case RShop_RequireItemList
  with assms show ?thesis
    by (auto simp: RShop_RequireItemList_run_def bind_result_Inr_iff split: option.splits
        dest: keeps_SendCurrentShopItemList)
qed (use assms in \<open>auto simp: RReplicationPlayer_Des_run_def RShop_Sell_run_def\<close>)

lemma keeps_container: "run_container E c h s = Inr s' \<Longrightarrow> keeps s s'"
  by (induction c arbitrary: s) (auto simp: bind_result_Inr_iff intro: keeps_trans dest!: keeps_handler)

lemma keeps_ProcessRecvPacket: "ProcessRecvPacket E p s = Inr s' \<Longrightarrow> keeps s s'"
  by (auto simp: ProcessRecvPacket_def split: option.splits dest: keeps_container)

lemma keeps_SynchronizeDB: "SynchronizeDB E s = Inr s' \<Longrightarrow> keeps s s'"
proof -
  have "SynchronizeDB_loop E us s = Inr s' \<Longrightarrow> keeps s s'" for us s
    by (induction us arbitrary: s) (auto simp: bind_result_Inr_iff intro: keeps_trans dest!: keeps_UpdateInventoryDB)
  then show "SynchronizeDB E s = Inr s' \<Longrightarrow> keeps s s'"
    by (auto simp: SynchronizeDB_def bind_result_Inr_iff split: if_splits)
qed

lemma keeps_ResetItem: "ResetItem E dis s = Inr s' \<Longrightarrow> keeps s s'"
  by (auto simp: ResetItem_def Let_def split: if_splits dest: keeps_SendCurrentShopItemList)

section \<open>The invariant of the server\<close>

text \<open>The table that the five routes build, per type in the order of registration.\<close>

definition routes :: "string \<Rightarrow> route_handler list option" where
  "routes = map_of
     [(SYSTEM_USER_CONNECT_full_name, [RConnection_Connect, RReplicationPlayer_Join]),
      (SYSTEM_USER_DISCONNECT_full_name, [RConnection_Disconnect, RIenventory_Disconnect]),
      (reqPing_full_name, [RPing_Ping]),
      (reqPlayerPosition_full_name, [RReplicationPlayer_Synchronize]),
      (reqReplicatedPlayerDes_full_name, [RReplicationPlayer_Des]),
      (reqNotifyPlayerName_full_name, [RIenventory_Connect]),
      (reqShopBuy_full_name, [RShop_Buy]),
      (reqAddToItem_full_name, [RShop_Sell]),
      (reqShopItemList_full_name, [RShop_RequireItemList])]"

definition server_inv :: "int \<Rightarrow> server \<Rightarrow> bool" where
  "server_inv n s \<longleftrightarrow> pm_ok (srv_pm s) \<and> mMaxUserCnt (srv_um s) = n \<and> mRecvFuntionDictionary (srv_pm s) = routes"

lemma RouteInit_routes:
  assumes "mRecvFuntionDictionary (srv_pm s) = (\<lambda>_. None)"
  shows "mRecvFuntionDictionary (srv_pm (RouteInit s)) = routes"
  using assms
  by (simp add: RouteInit_def RShop_RegisterPacket_def RIenventory_RegisterPacket_def
      RReplicationPlayer_RegisterPacket_def RPing_RegisterPacket_def RConnection_RegisterPacket_def
      RegisterCallback_def full_names fun_eq_iff routes_def)

lemma RouteInit_frame [simp]: "srv_um (RouteInit s) = srv_um s"
    "mInComingPacketUserIndex (srv_pm (RouteInit s)) = mInComingPacketUserIndex (srv_pm s)"
  by (simp_all add: RouteInit_def RShop_RegisterPacket_def RIenventory_RegisterPacket_def
      RReplicationPlayer_RegisterPacket_def RPing_RegisterPacket_def RConnection_RegisterPacket_def)

lemma PacketManager_Init_inv:
  assumes "PacketManager_Init n s0 = Inr s" and "mInComingPacketUserIndex (srv_pm s0) = []" and "n \<le> int32_max"
  shows "server_inv n s" and "0 \<le> n"
proof -
  have n: "0 \<le> n" using assms(1)
    by (auto simp: PacketManager_Init_def CreateCompent_def bind_result_Inr_iff UserManager_Init_def split: if_splits)
  then show "0 \<le> n" .
  let ?um = "UserManager_new\<lparr>mMaxUserCnt := n, mUserObjPool := map (\<lambda>i. User_Init (int i) User_new) [0..<nat n]\<rparr>"
  have um: "um_ok ?um" "mMaxUserCnt ?um = n" "UserManager_Init n UserManager_new = Inr ?um"
    using n assms(3) UserManager_Init_ok [of n] by (auto simp: UserManager_Init_def)
  then have s: "s = RouteInit (s0\<lparr>srv_pm := (srv_pm s0)\<lparr>mRecvFuntionDictionary := (\<lambda>_. None), mUserManager := ?um\<rparr>\<rparr>)"
    using assms(1) by (simp add: PacketManager_Init_def CreateCompent_def)
  have "user_queues ?um i = []" for i
    by (auto simp: user_queues_def User_Init_def)
  then have "balanced [] (user_queues ?um)" by (simp add: balanced_def)
  then show "server_inv n s"
    using um(1,2) assms(2) unfolding s server_inv_def pm_ok_def by (simp add: RouteInit_routes)
qed

lemma server_inv_keeps: "server_inv n s \<Longrightarrow> keeps s s' \<Longrightarrow> server_inv n s'"
  by (simp add: server_inv_def pm_ok_def keeps_def)

lemma um_ok_max: "um_ok m \<Longrightarrow> um_ok m' \<Longrightarrow> length (mUserObjPool m') = length (mUserObjPool m) \<Longrightarrow> mMaxUserCnt m' = mMaxUserCnt m"
  by (simp add: um_ok_def)

lemma server_inv_pm:
  assumes "server_inv n s" and "pm_ok pm" and "length (mUserObjPool (mUserManager pm)) = length (mUserObjPool (srv_um s))"
    and "mRecvFuntionDictionary pm = mRecvFuntionDictionary (srv_pm s)"
  shows "server_inv n (s\<lparr>srv_pm := pm\<rparr>)"
  using assms um_ok_max [of "srv_um s" "mUserManager pm"] by (simp add: server_inv_def pm_ok_def)

lemma ReceivePacketData_inv:
  assumes "server_inv n s" and "ReceivePacketData i p (srv_pm s) = Inr pm"
  shows "server_inv n (s\<lparr>srv_pm := pm\<rparr>)"
proof -
  have "0 \<le> i" "i < int (length (mUserObjPool (srv_um s)))"
    using assms(2) by (auto simp: ReceivePacketData_def bind_result_Inr_iff GetUserByConnIdx_Inr_iff Let_def)
  from ReceivePacketData_ok [OF _ this, of p] assms have "pm_ok pm" "length (mUserObjPool (mUserManager pm)) = length (mUserObjPool (srv_um s))"
    by (auto simp: server_inv_def)
  moreover have "mRecvFuntionDictionary pm = mRecvFuntionDictionary (srv_pm s)"
    using assms(2) by (auto simp: ReceivePacketData_def bind_result_Inr_iff Let_def)
  ultimately show ?thesis by (rule server_inv_pm [OF assms(1)])
qed

lemma DequePacketData_inv:
  assumes "server_inv n s" and "DequePacketData (srv_pm s) = Inr (r, pm)"
  shows "server_inv n (s\<lparr>srv_pm := pm\<rparr>)"
proof -
  have ok: "pm_ok (srv_pm s)" using assms(1) by (simp add: server_inv_def)
  show ?thesis
  proof (cases "packets_of (srv_pm s)")
    case Nil
    from DequePacketData_empty [OF ok this] assms show ?thesis by simp
  next
    case (Cons y ys)
    from DequePacketData_next [OF ok this] assms(2)
    have "pm_ok pm" "length (mUserObjPool (mUserManager pm)) = length (mUserObjPool (srv_um s))" by auto
    then show ?thesis using DequePacketData_frame(2) [OF assms(2)] by (intro server_inv_pm [OF assms(1)])
  qed
qed

lemma system_queue_inv:
  assumes "server_inv n s"
  shows "server_inv n (s\<lparr>srv_pm := PushSystemPacket p (srv_pm s)\<rparr>)"
    and "server_inv n (s\<lparr>srv_pm := snd (DequeSystemPacketData (srv_pm s))\<rparr>)"
  using assms
  by (simp_all add: server_inv_def pm_ok_def PushSystemPacket_def DequeSystemPacketData_def split: list.splits)

lemma ProcessPacket_round_inv:
  assumes "server_inv n s" and "ProcessPacket_round E s = Inr s'"
  shows "server_inv n s'"
proof -
  from assms(2) obtain p pm1 where pm1: "DequePacketData (srv_pm s) = Inr (p, pm1)"
    by (auto simp: ProcessPacket_round_def bind_result_Inr_iff)
  define first where "first = (case p of None \<Rightarrow> Inr (s\<lparr>srv_pm := pm1\<rparr>)
     | Some p \<Rightarrow> if IsPacket (hdr_type p) SystemEnd_full_name then Inr (s\<lparr>srv_pm := pm1\<rparr>)
         else ProcessRecvPacket E p (s\<lparr>srv_pm := pm1\<rparr>))"
  have "bind_result first (\<lambda>s1. let (systemData, pm2) = DequeSystemPacketData (srv_pm s1); s2 = s1\<lparr>srv_pm := pm2\<rparr> in
      case systemData of None \<Rightarrow> Inr s2 | Some p \<Rightarrow> ProcessRecvPacket E p s2) = Inr s'"
    using assms(2) unfolding ProcessPacket_round_def pm1 first_def by (simp only: bind_result.simps prod.case)
  then obtain s1 where s1: "first = Inr s1"
    and s': "(case fst (DequeSystemPacketData (srv_pm s1)) of
        None \<Rightarrow> Inr (s1\<lparr>srv_pm := snd (DequeSystemPacketData (srv_pm s1))\<rparr>)
      | Some q \<Rightarrow> ProcessRecvPacket E q (s1\<lparr>srv_pm := snd (DequeSystemPacketData (srv_pm s1))\<rparr>)) = Inr s'"
    by (auto simp: bind_result_Inr_iff Let_def case_prod_unfold)
  have i1: "server_inv n (s\<lparr>srv_pm := pm1\<rparr>)" by (rule DequePacketData_inv [OF assms(1) pm1])
  have "keeps (s\<lparr>srv_pm := pm1\<rparr>) s1"
    using s1 by (auto simp: first_def split: option.splits if_splits dest: keeps_ProcessRecvPacket)
  from system_queue_inv(2) [OF server_inv_keeps [OF i1 this]]
  have i2: "server_inv n (s1\<lparr>srv_pm := snd (DequeSystemPacketData (srv_pm s1))\<rparr>)" .
  have "keeps (s1\<lparr>srv_pm := snd (DequeSystemPacketData (srv_pm s1))\<rparr>) s'"
    using s' by (auto split: option.splits dest: keeps_ProcessRecvPacket)
  then show ?thesis by (rule server_inv_keeps [OF i2])
qed

lemma server_step_inv:
  assumes "server_step E s s'" and "server_inv n s"
  shows "server_inv n s'"
  using assms
proof cases
  case (received i p pm)
  then show ?thesis using ReceivePacketData_inv assms(2) by blast
next
  case (connected i fresh)
  then show ?thesis using system_queue_inv(1) assms(2) by (simp add: GameServer_OnConnect_def)
next
  case (closed i fresh)
  then show ?thesis using system_queue_inv(1) assms(2) by (simp add: GameServer_OnClose_def)
next
  case processed
  then show ?thesis using ProcessPacket_round_inv assms(2) by blast
next
  case written_back
  then show ?thesis using keeps_SynchronizeDB server_inv_keeps assms(2) by blast
next
  case (reset dis)
  then show ?thesis using keeps_ResetItem server_inv_keeps assms(2) by blast
next
  case (database up)
  then show ?thesis using assms(2) by (simp add: server_inv_def)
qed

lemma server_reachable_inv:
  assumes "server_reachable E n s0 s" and "mInComingPacketUserIndex (srv_pm s0) = []" and "n \<le> int32_max"
  shows "server_inv n s"
  using assms by (induction rule: server_reachable.induct) (auto intro: PacketManager_Init_inv server_step_inv)

section \<open>Rounds of the packet thread\<close>

lemma ProcessPacket_round_eq:
  assumes "server_inv n s"
  shows "ProcessPacket_round E s =
     bind_result
       (case packets_of (srv_pm s) of
          [] \<Rightarrow> Inr s
        | p # ps \<Rightarrow> bind_result (DequePacketData (srv_pm s)) (\<lambda>(_, pm1).
            if hdr_type p = SystemEnd_full_name then Inr (s\<lparr>srv_pm := pm1\<rparr>)
            else ProcessRecvPacket E p (s\<lparr>srv_pm := pm1\<rparr>))) (\<lambda>s1.
     case mSystemPacketQueue (srv_pm s1) of
       [] \<Rightarrow> Inr s1
     | p # ps \<Rightarrow> ProcessRecvPacket E p (s1\<lparr>srv_pm := (srv_pm s1)\<lparr>mSystemPacketQueue := ps\<rparr>\<rparr>))"
proof -
  have ok: "pm_ok (srv_pm s)" using assms by (simp add: server_inv_def)
  have sys: "(let (systemData, pm2) = DequeSystemPacketData (srv_pm s1); s2 = s1\<lparr>srv_pm := pm2\<rparr> in
       case systemData of None \<Rightarrow> Inr s2 | Some p \<Rightarrow> ProcessRecvPacket E p s2) =
     (case mSystemPacketQueue (srv_pm s1) of
       [] \<Rightarrow> Inr s1
     | p # ps \<Rightarrow> ProcessRecvPacket E p (s1\<lparr>srv_pm := (srv_pm s1)\<lparr>mSystemPacketQueue := ps\<rparr>\<rparr>))" for s1
    by (simp add: DequeSystemPacketData_def split: list.splits)
  show ?thesis
  proof (cases "packets_of (srv_pm s)")
    case Nil
    with DequePacketData_empty [OF ok Nil] show ?thesis
      unfolding ProcessPacket_round_def sys by (simp split: list.split)
  next
    case (Cons p ps)
    from DequePacketData_next [OF ok this] obtain pm1 where "DequePacketData (srv_pm s) = Inr (Some p, pm1)" by blast
    with Cons show ?thesis unfolding ProcessPacket_round_def sys by simp
  qed
qed

lemma bind_result_Inr_right [simp]: "bind_result m Inr = m"
  by (cases m) simp_all

section \<open>Properties\<close>

text \<open>C10: In every state that the server reaches from its start, whatever packets and connections come, however
  the threads interleave and whether or not the database can be reached: the callback table is the one
  that the five routes register, the pool of users has its size and every user its own index, connected indices are
  within the pool, and the common queue has exactly one entry for each packet that waits.\<close>

theorem server_invariant:
  assumes "server_reachable E n s0 s" and "mInComingPacketUserIndex (srv_pm s0) = []" and "n \<le> int32_max"
  shows "mRecvFuntionDictionary (srv_pm s) = routes \<and> um_ok (srv_um s) \<and> mMaxUserCnt (srv_um s) = n \<and>
     balanced (mInComingPacketUserIndex (srv_pm s)) (user_queues (srv_um s))"
  using server_reachable_inv [OF assms] by (simp add: server_inv_def pm_ok_def)

text \<open>A round of the packet thread takes the oldest waiting client packet, runs the handlers that are registered
  for its type in order, and drops it when the type is unknown or \<open>SystemEnd\<close>; then it does the same for the oldest
  system packet, without a check for \<open>SystemEnd\<close>. With both queues empty it does nothing.\<close>

lemma ProcessPacket_dispatch:
  assumes "server_inv n s"
  shows "ProcessPacket_round E s =
     bind_result
       (case packets_of (srv_pm s) of
          [] \<Rightarrow> Inr s
        | p # ps \<Rightarrow> bind_result (DequePacketData (srv_pm s)) (\<lambda>(_, pm1).
            if hdr_type p = SystemEnd_full_name then Inr (s\<lparr>srv_pm := pm1\<rparr>)
            else ProcessRecvPacket E p (s\<lparr>srv_pm := pm1\<rparr>))) (\<lambda>s1.
     case mSystemPacketQueue (srv_pm s1) of
       [] \<Rightarrow> Inr s1
     | p # ps \<Rightarrow> ProcessRecvPacket E p (s1\<lparr>srv_pm := (srv_pm s1)\<lparr>mSystemPacketQueue := ps\<rparr>\<rparr>))"
  by (rule ProcessPacket_round_eq [OF assms])

text \<open>C5: From the accepted socket to the replies: when nothing waits, the connection of a free index followed by
  one round of the packet thread makes it the one new connected index and sends, in this order, the join message to the
  new player, the announcement of it to the player already there, if any, and the introduction of that player to it.
  With two or more players already there the round runs into the freed announcement.\<close>

theorem connection_served:
  assumes "srv_ok E s" and "server_inv n s" and "packets_of (srv_pm s) = []" and "mSystemPacketQueue (srv_pm s) = []"
    and "int i < n" and "int i \<notin> mUserIDDictionary (srv_um s)"
  shows "let r = ProcessPacket_round E (s\<lparr>srv_pm := GameServer_OnConnect (of_nat i) fresh (srv_pm s)\<rparr>) in
     if 2 \<le> card (mUserIDDictionary (srv_um s)) then r = Inl UseAfterFree
     else \<exists>s2 others. r = Inr s2 \<and> srv_ok E s2 \<and>
       mUserIDDictionary (srv_um s2) = insert (int i) (mUserIDDictionary (srv_um s)) \<and>
       distinct others \<and> set others = mUserIDDictionary (srv_um s) \<and>
       srv_sent s2 = srv_sent s @ [(int i, Join_packet E (of_nat i))] @
         map (\<lambda>j. (j, Gen_packet E (of_nat i) (of_nat i))) others @
         map (\<lambda>j. (int i, Gen_packet E (of_nat i) (word_of_int j))) others"
proof -
  let ?h = "set_userid (of_nat i) (MakePackedHeader 0 SYSTEM_USER_CONNECT_full_name fresh)"
  let ?s1 = "s\<lparr>srv_pm := GameServer_OnConnect (of_nat i) fresh (srv_pm s)\<rparr>"
  have inv1: "server_inv n ?s1" using system_queue_inv(1) [OF assms(2)] by (simp add: GameServer_OnConnect_def)
  have q: "packets_of (srv_pm ?s1) = []" "mSystemPacketQueue (srv_pm ?s1) = [?h]"
    using assms(3,4) by (simp_all add: GameServer_OnConnect_def PushSystemPacket_def packets_of_def)
  have restored: "?s1\<lparr>srv_pm := (srv_pm ?s1)\<lparr>mSystemPacketQueue := []\<rparr>\<rparr> = s"
    using assms(4) by (cases s) (simp add: GameServer_OnConnect_def PushSystemPacket_def)
  have h: "hdr_type ?h = SYSTEM_USER_CONNECT_full_name" "hdr_userid ?h = of_nat i"
    by (simp_all add: set_userid_def MakePackedHeader_def set_type_def)
  have r: "mRecvFuntionDictionary (srv_pm s) (hdr_type ?h) = Some [RConnection_Connect, RReplicationPlayer_Join]"
    using assms(2) unfolding h by (simp add: server_inv_def routes_def)
  have none: "run_container E [] ?h = Inr" by (rule ext) simp
  have one: "run_container E [RReplicationPlayer_Join] ?h = RReplicationPlayer_Join_run E ?h"
    by (rule ext) (simp add: none)
  have round: "ProcessPacket_round E ?s1 =
      bind_result (RConnection_Connect_run E ?h s) (RReplicationPlayer_Join_run E ?h)"
    unfolding ProcessPacket_round_eq [OF inv1] q list.case bind_result.simps restored ProcessRecvPacket_def r
    by (simp add: one)
  have um: "um_ok (srv_um s)" "counted (srv_um s)" "mMaxUserCnt (srv_um s) = n"
    using assms(1,2) by (simp_all add: srv_ok_def server_inv_def)
  from AddUser_counted [OF um(1,2), of "int i"] assms(5,6) um(3) obtain m where
    m: "AddUser (int i) (srv_um s) = Inr (NONE, m)" "um_ok m" "counted m"
      "mUserIDDictionary m = insert (int i) (mUserIDDictionary (srv_um s))" by auto
  have "int i \<le> int32_max" using assms(5) um by (simp add: um_ok_def)
  then have sint: "sint (hdr_userid ?h) = int i"
    using userid_eq_index [of "int i" "hdr_userid ?h"] h(2) by simp
  let ?s2 = "(with_um (\<lambda>_. m) s)\<lparr>srv_sent := srv_sent s @ [(int i, Join_packet E (of_nat i))]\<rparr>"
  have c: "RConnection_Connect_run E ?h s = Inr ?s2"
    using Connect_run_eq [OF assms(1) sint [symmetric] m(1)] h(2) by simp
  have ok2: "srv_ok E ?s2" using assms(1) m(2,3) by (simp add: srv_ok_def)
  let ?o = "recipients E (int i) False ?s2"
  have o: "distinct ?o" "set ?o = mUserIDDictionary (srv_um s)"
    using recipients_set(1,3) [OF ok2, of "int i"] m(4) assms(6) by auto
  then have len: "length ?o = card (mUserIDDictionary (srv_um s))" using distinct_card by metis
  note j = Join_run_eq [OF ok2, of ?h, unfolded h(2), unfolded sint [unfolded h(2)] Let_def]
  show ?thesis
    using o len m(4) ok2 unfolding round c bind_result.simps j
    by (auto simp: Let_def intro!: exI [of _ ?o])
qed

subsection \<open>Witnesses\<close>

definition wstart :: server where
  "wstart = (wserver {0})\<lparr>srv_pm := (srv_pm (wserver {0}))\<lparr>mRecvFuntionDictionary := routes\<rparr>\<rparr>"

lemma wserver_inv: "server_inv 3 wstart"
proof -
  have "um_ok (srv_um (wserver {0}))" using wserver_ok [of "{0}"] by (simp add: srv_ok_def)
  then have "um_ok (srv_um wstart)" by (simp add: wstart_def)
  then show ?thesis
    by (auto simp: server_inv_def pm_ok_def balanced_def wstart_def wserver_def user_queues_def wum_def User_Init_def)
qed

theorem server_invariant_witness:
  "\<exists>s. server_reachable wenv 3 (wserver {}) s \<and> srv_sent s = [] \<and> mRecvFuntionDictionary (srv_pm s) = routes"
proof -
  obtain s where s: "PacketManager_Init 3 (wserver {}) = Inr s"
    by (simp add: PacketManager_Init_def CreateCompent_def UserManager_Init_def)
  then have "srv_sent s = []"
    by (auto simp: PacketManager_Init_def CreateCompent_def UserManager_Init_def RouteInit_def wserver_def)
  moreover have "server_reachable wenv 3 (wserver {}) s" by (rule server_reachable.start [OF s])
  ultimately show ?thesis
    using server_invariant [of wenv 3 "wserver {}" s] by (auto simp: wserver_def int32_max_def)
qed

theorem connection_served_witness:
  "\<exists>s2. ProcessPacket_round wenv (wstart\<lparr>srv_pm := GameServer_OnConnect 2 [] (srv_pm wstart)\<rparr>) = Inr s2 \<and>
     mUserIDDictionary (srv_um s2) = {2, 0} \<and>
     srv_sent s2 = [(2, Join_packet wenv 2), (0, Gen_packet wenv 2 2), (2, Gen_packet wenv 2 0)]"
proof -
  have "srv_ok wenv wstart"
    using wserver_ok [of "{0}"] by (simp add: srv_ok_def wstart_def)
  moreover have "packets_of (srv_pm wstart) = []" "mSystemPacketQueue (srv_pm wstart) = []"
    "mUserIDDictionary (srv_um wstart) = {0}" "srv_sent wstart = []"
    by (simp_all add: wstart_def wserver_def packets_of_def)
  ultimately obtain s2 others where
    "ProcessPacket_round wenv (wstart\<lparr>srv_pm := GameServer_OnConnect 2 [] (srv_pm wstart)\<rparr>) = Inr s2"
    "mUserIDDictionary (srv_um s2) = {2, 0}" "distinct others" "set others = {0}"
    "srv_sent s2 = [(2, Join_packet wenv 2)] @ map (\<lambda>j. (j, Gen_packet wenv 2 2)) others @
      map (\<lambda>j. (2, Gen_packet wenv 2 (word_of_int j))) others"
    using connection_served [OF _ wserver_inv, of wenv 2 "[]"] by auto
  moreover then have "others = [0]" by (cases others; cases "tl others") auto
  ultimately show ?thesis by simp
qed

end
