(* ===== verification/Client_Info.thy ===== *)
theory Client_Info
  imports Recv_Framing
begin

text \<open>
  One client slot of the network layer, \<^verbatim>\<open>ServerNetwork/ClientInfo.h\<close>, over the types of
  \<^verbatim>\<open>ServerNetwork/Define.h\<close>. Winsock is not part of the sources: what its calls return is a record
  \<open>os_results\<close> that every operation takes, and the calls that an operation makes are the list
  \<open>os_call list\<close> that it returns. The send queue is guarded by one mutex, so \<open>SendMsg\<close> and
  \<open>SendCompleted\<close> are one step each.
\<close>

section \<open>Types and constants\<close>

datatype IOOperation = ACCEPT | RECV | SEND

definition RE_USE_SESSION_WAIT_TIMESEC :: u64 where "RE_USE_SESSION_WAIT_TIMESEC = 3"

definition INVALID_SOCKET :: u64 where "INVALID_SOCKET = -1"
definition INVALID_HANDLE_VALUE :: u64 where "INVALID_HANDLE_VALUE = -1"
definition SOCKET_ERROR :: int32 where "SOCKET_ERROR = -1"
definition ERROR_IO_PENDING :: u32 where "ERROR_IO_PENDING = 997"
definition UINT32_MAX :: u64 where "UINT32_MAX = 0xFFFFFFFF"

text \<open>The pointer in a \<open>WSABUF\<close>: null, the client's own \<open>mRecvBuf\<close>, or an array of its own.\<close>

datatype wsa_pointer = Null | RecvBuf | Heap bytes

record stOverlappedEx =
  m_len :: u32
  m_buf :: wsa_pointer
  m_eOperation :: IOOperation
  SessionIndex :: u32

text \<open>\<open>ZeroMemory\<close>: the enumerator with value zero is \<open>ACCEPT\<close>.\<close>

definition zero_overlapped :: stOverlappedEx where
  "zero_overlapped = \<lparr>m_len = 0, m_buf = Null, m_eOperation = ACCEPT, SessionIndex = 0\<rparr>"

record client_info =
  ci_mIndex :: u32
  ci_mIOCPHandle :: u64
  mIsConnect :: u64
  mLatestClosedTimeSec :: u64
  mSocket :: u64
  mAcceptContext :: stOverlappedEx
  mRecvOverlappedEx :: stOverlappedEx
  mRecvBuf :: bytes
  mSendDataqueue :: "stOverlappedEx list"

text \<open>
  Results of the calls of one operation: the new socket, the clock in seconds, the handle that
  \<open>CreateIoCompletionPort\<close> returns, and for each overlapped call its return value and the error code
  after it.
\<close>

record os_results =
  res_WSASocket :: u64
  res_now :: u64
  res_CreateIoCompletionPort :: u64
  res_AcceptEx :: "bool \<times> u32"
  res_WSARecv :: "int32 \<times> u32"
  res_WSASend :: "int32 \<times> u32"

datatype os_call =
    Call_shutdown u64
  | Call_SO_LINGER u64 bool
  | Call_closesocket u64
  | Call_WSASocket
  | Call_AcceptEx u64 u64 stOverlappedEx
  | Call_CreateIoCompletionPort u64 u64
  | Call_WSARecv u64
  | Call_WSASend u64 stOverlappedEx

section \<open>Operations\<close>

definition stClientInfo :: "bytes \<Rightarrow> stOverlappedEx \<Rightarrow> client_info" where
  "stClientInfo fresh context =
     \<lparr>ci_mIndex = 0, ci_mIOCPHandle = INVALID_HANDLE_VALUE, mIsConnect = 0, mLatestClosedTimeSec = 0,
      mSocket = INVALID_SOCKET, mAcceptContext = context, mRecvOverlappedEx = zero_overlapped,
      mRecvBuf = fresh, mSendDataqueue = []\<rparr>"

definition stClientInfo_Init :: "u32 \<Rightarrow> u64 \<Rightarrow> client_info \<Rightarrow> client_info" where
  "stClientInfo_Init index iocpHandle c = c\<lparr>ci_mIndex := index, ci_mIOCPHandle := iocpHandle\<rparr>"

definition GetIndex :: "client_info \<Rightarrow> u32" where "GetIndex c = ci_mIndex c"
definition IsConnectd :: "client_info \<Rightarrow> bool" where "IsConnectd c \<longleftrightarrow> mIsConnect c = 1"
definition GetSock :: "client_info \<Rightarrow> u64" where "GetSock c = mSocket c"
definition GetLatestClosedTimeSec :: "client_info \<Rightarrow> u64" where "GetLatestClosedTimeSec c = mLatestClosedTimeSec c"
definition RecvBuffer :: "client_info \<Rightarrow> bytes" where "RecvBuffer c = mRecvBuf c"

text \<open>An overlapped send or receive counts as posted unless it fails with another error than \<open>ERROR_IO_PENDING\<close>.\<close>

definition posted :: "int32 \<times> u32 \<Rightarrow> bool" where
  "posted r \<longleftrightarrow> \<not> (fst r = SOCKET_ERROR \<and> snd r \<noteq> ERROR_IO_PENDING)"

definition BindIOCompletionPort :: "os_results \<Rightarrow> u64 \<Rightarrow> client_info \<Rightarrow> bool \<times> os_call list" where
  "BindIOCompletionPort R iocpHandle c =
     (res_CreateIoCompletionPort R \<noteq> INVALID_HANDLE_VALUE, [Call_CreateIoCompletionPort (GetSock c) iocpHandle])"

definition BindRecv :: "os_results \<Rightarrow> client_info \<Rightarrow> bool \<times> client_info \<times> os_call list" where
  "BindRecv R c =
     (let c' = c\<lparr>mRecvOverlappedEx := (mRecvOverlappedEx c)
                  \<lparr>m_len := of_nat MAX_SOCK_RECVBUF, m_buf := RecvBuf, m_eOperation := RECV\<rparr>\<rparr>
      in (posted (res_WSARecv R), c', [Call_WSARecv (mSocket c')]))"

definition OnConnect :: "os_results \<Rightarrow> u64 \<Rightarrow> u64 \<Rightarrow> client_info \<Rightarrow> bool \<times> client_info \<times> os_call list" where
  "OnConnect R iocpHandle socket c =
     (let c1 = c\<lparr>mSocket := socket, mIsConnect := 1\<rparr>;
          (bound, calls) = BindIOCompletionPort R iocpHandle c1
      in if \<not> bound then (False, c1, calls)
         else (let (ok, c2, calls') = BindRecv R c1 in (ok, c2, calls @ calls')))"

definition Close :: "os_results \<Rightarrow> bool \<Rightarrow> client_info \<Rightarrow> client_info \<times> os_call list" where
  "Close R bIsForce c =
     (c\<lparr>mIsConnect := 0, mLatestClosedTimeSec := res_now R, mSocket := INVALID_SOCKET\<rparr>,
      [Call_shutdown (mSocket c), Call_SO_LINGER (mSocket c) bIsForce, Call_closesocket (mSocket c)])"

definition PostAccept :: "os_results \<Rightarrow> u64 \<Rightarrow> client_info \<Rightarrow> bool \<times> client_info \<times> os_call list" where
  "PostAccept R listenSock c =
     (let c1 = c\<lparr>mLatestClosedTimeSec := UINT32_MAX, mSocket := res_WSASocket R\<rparr> in
      if mSocket c1 = INVALID_SOCKET then (False, c1, [Call_WSASocket])
      else
        let context = zero_overlapped\<lparr>m_eOperation := ACCEPT, SessionIndex := ci_mIndex c1\<rparr>;
            c2 = c1\<lparr>mAcceptContext := context\<rparr>
        in (\<not> (\<not> fst (res_AcceptEx R) \<and> snd (res_AcceptEx R) \<noteq> ERROR_IO_PENDING), c2,
            [Call_WSASocket, Call_AcceptEx listenSock (mSocket c2) context]))"

text \<open>\<open>AcceptCompletion\<close> prints an address that it never obtained; nothing else depends on it.\<close>

definition AcceptCompletion :: "os_results \<Rightarrow> client_info \<Rightarrow> bool \<times> client_info \<times> os_call list" where
  "AcceptCompletion R c = OnConnect R (ci_mIOCPHandle c) (mSocket c) c"

text \<open>The result of \<open>SendIO\<close> is ignored by both callers.\<close>

definition SendIO :: "os_results \<Rightarrow> client_info \<Rightarrow> (bool \<times> os_call list) result" where
  "SendIO R c =
     (case mSendDataqueue c of
        [] \<Rightarrow> Inl EmptyQueue
      | sendOverlappedEx # _ \<Rightarrow> Inr (posted (res_WSASend R), [Call_WSASend (mSocket c) sendOverlappedEx]))"

definition send_overlapped :: "bytes \<Rightarrow> stOverlappedEx" where
  "send_overlapped bs = zero_overlapped\<lparr>m_len := of_nat (length bs), m_buf := Heap bs, m_eOperation := SEND\<rparr>"

definition SendMsg :: "os_results \<Rightarrow> u32 \<Rightarrow> bytes \<Rightarrow> client_info \<Rightarrow> (bool \<times> client_info \<times> os_call list) result" where
  "SendMsg R dataSize pMsg c =
     (if length pMsg < unat dataSize then Inl OutOfBounds
      else
        let c' = c\<lparr>mSendDataqueue := mSendDataqueue c @ [send_overlapped (take (unat dataSize) pMsg)]\<rparr> in
        if length (mSendDataqueue c') = 1
        then bind_result (SendIO R c') (\<lambda>(_, calls). Inr (True, c', calls))
        else Inr (True, c', []))"

definition SendCompleted :: "os_results \<Rightarrow> client_info \<Rightarrow> (client_info \<times> os_call list) result" where
  "SendCompleted R c =
     (case mSendDataqueue c of
        [] \<Rightarrow> Inl EmptyQueue
      | _ # rest \<Rightarrow>
          let c' = c\<lparr>mSendDataqueue := rest\<rparr> in
          if rest \<noteq> [] then bind_result (SendIO R c') (\<lambda>(_, calls). Inr (c', calls))
          else Inr (c', []))"

section \<open>Histories of a slot\<close>

datatype slot_op =
    Op_SendMsg os_results u32 bytes
  | Op_SendCompleted os_results
  | Op_Close os_results bool
  | Op_PostAccept os_results u64
  | Op_AcceptCompletion os_results
  | Op_BindRecv os_results

fun run_slot_op :: "slot_op \<Rightarrow> client_info \<Rightarrow> (client_info \<times> os_call list) result" where
  "run_slot_op (Op_SendMsg R n bs) c = bind_result (SendMsg R n bs c) (\<lambda>(_, c', calls). Inr (c', calls))"
| "run_slot_op (Op_SendCompleted R) c = SendCompleted R c"
| "run_slot_op (Op_Close R f) c = Inr (Close R f c)"
| "run_slot_op (Op_PostAccept R l) c = Inr (snd (PostAccept R l c))"
| "run_slot_op (Op_AcceptCompletion R) c = Inr (snd (AcceptCompletion R c))"
| "run_slot_op (Op_BindRecv R) c = Inr (snd (BindRecv R c))"

fun run_slot :: "slot_op list \<Rightarrow> client_info \<Rightarrow> (client_info \<times> os_call list) result" where
  "run_slot [] c = Inr (c, [])"
| "run_slot (x # xs) c =
     bind_result (run_slot_op x c) (\<lambda>(c1, calls).
     bind_result (run_slot xs c1) (\<lambda>(c2, calls'). Inr (c2, calls @ calls')))"

fun wsa_sends :: "os_call list \<Rightarrow> stOverlappedEx list" where
  "wsa_sends [] = []"
| "wsa_sends (Call_WSASend s x # calls) = x # wsa_sends calls"
| "wsa_sends (call # calls) = wsa_sends calls"

fun slot_messages :: "slot_op list \<Rightarrow> stOverlappedEx list" where
  "slot_messages [] = []"
| "slot_messages (Op_SendMsg R n bs # xs) = send_overlapped (take (unat n) bs) # slot_messages xs"
| "slot_messages (x # xs) = slot_messages xs"

fun slot_completions :: "slot_op list \<Rightarrow> nat" where
  "slot_completions [] = 0"
| "slot_completions (Op_SendCompleted R # xs) = Suc (slot_completions xs)"
| "slot_completions (x # xs) = slot_completions xs"

lemma wsa_sends_append [simp]: "wsa_sends (a @ b) = wsa_sends a @ wsa_sends b"
  by (induction a rule: wsa_sends.induct) simp_all

lemma slot_op_cases:
  assumes "run_slot_op x c = Inr (c', calls)"
  obtains
    (message) "slot_messages [x] \<noteq> []" "slot_completions [x] = 0"
      "mSendDataqueue c' = mSendDataqueue c @ slot_messages [x]"
      "wsa_sends calls = (if mSendDataqueue c = [] then slot_messages [x] else [])"
  | (completion) y where "slot_messages [x] = []" "slot_completions [x] = 1"
      "mSendDataqueue c = y # mSendDataqueue c'" "wsa_sends calls = take 1 (mSendDataqueue c')"
  | (other) "slot_messages [x] = []" "slot_completions [x] = 0" "mSendDataqueue c' = mSendDataqueue c"
      "wsa_sends calls = []"
proof (cases x)
  case (Op_SendMsg R n bs)
  with assms message show ?thesis
    by (auto simp: SendMsg_def SendIO_def Let_def bind_result_Inr_iff split: if_splits list.splits)
next
  case (Op_SendCompleted R)
  with assms completion show ?thesis
    by (auto simp: SendCompleted_def SendIO_def Let_def bind_result_Inr_iff split: if_splits list.splits)
next
  case (Op_Close R f)
  with assms other show ?thesis by (auto simp: Close_def)
next
  case (Op_PostAccept R l)
  with assms other show ?thesis by (auto simp: PostAccept_def Let_def split: if_splits)
next
  case (Op_AcceptCompletion R)
  with assms other show ?thesis
    by (auto simp: AcceptCompletion_def OnConnect_def BindIOCompletionPort_def BindRecv_def Let_def split: if_splits)
next
  case (Op_BindRecv R)
  with assms other show ?thesis by (auto simp: BindRecv_def Let_def)
qed

lemma slot_Cons: "slot_messages (x # xs) = slot_messages [x] @ slot_messages xs"
    "slot_completions (x # xs) = slot_completions [x] + slot_completions xs"
  by (cases x; simp)+

lemma slot_messages_single: "length (slot_messages [x]) \<le> 1"
  by (cases x) simp_all

lemma run_slot_sends:
  assumes "run_slot ops c = Inr (c', calls)"
  shows "slot_completions ops \<le> length (mSendDataqueue c @ slot_messages ops)"
    and "mSendDataqueue c' = drop (slot_completions ops) (mSendDataqueue c @ slot_messages ops)"
    and "wsa_sends calls =
      (if mSendDataqueue c = [] then take (Suc (slot_completions ops)) (slot_messages ops)
       else take (slot_completions ops) (tl (mSendDataqueue c @ slot_messages ops)))"
proof -
  have "slot_completions ops \<le> length (mSendDataqueue c @ slot_messages ops) \<and>
    mSendDataqueue c' = drop (slot_completions ops) (mSendDataqueue c @ slot_messages ops) \<and>
    wsa_sends calls =
      (if mSendDataqueue c = [] then take (Suc (slot_completions ops)) (slot_messages ops)
       else take (slot_completions ops) (tl (mSendDataqueue c @ slot_messages ops)))"
    using assms
  proof (induction ops arbitrary: c calls)
    case (Cons x xs)
    then obtain c1 k1 k2 where x: "run_slot_op x c = Inr (c1, k1)" and xs: "run_slot xs c1 = Inr (c', k2)"
      and calls: "calls = k1 @ k2"
      by (auto simp: bind_result_Inr_iff)
    note IH = Cons.IH [OF xs]
    from x show ?case
    proof (cases rule: slot_op_cases)
      case message
      then obtain m where m: "slot_messages [x] = [m]"
        using slot_messages_single [of x] by (cases "slot_messages [x]") auto
      show ?thesis
        using IH message(2-) unfolding slot_Cons [of x xs] calls m by (auto split: if_splits)
    next
      case (completion y)
      show ?thesis
      proof (cases "mSendDataqueue c1")
        case Nil
        with IH completion show ?thesis unfolding slot_Cons [of x xs] calls by auto
      next
        case (Cons z zs)
        with IH completion show ?thesis unfolding slot_Cons [of x xs] calls by auto
      qed
    next
      case other
      with IH show ?thesis unfolding slot_Cons [of x xs] calls by auto
    qed
  qed simp
  then show "slot_completions ops \<le> length (mSendDataqueue c @ slot_messages ops)"
    and "mSendDataqueue c' = drop (slot_completions ops) (mSendDataqueue c @ slot_messages ops)"
    and "wsa_sends calls =
      (if mSendDataqueue c = [] then take (Suc (slot_completions ops)) (slot_messages ops)
       else take (slot_completions ops) (tl (mSendDataqueue c @ slot_messages ops)))" by blast+
qed

section \<open>Properties\<close>

text \<open>C8: Whatever happens to a slot whose send queue is empty at first, through any number of connections: the
  buffers handed to \<open>WSASend\<close> are the messages given to \<open>SendMsg\<close>, each copied, complete, in order and once, and
  they run at most one ahead of the completions; the queue holds the messages that are not completed.\<close>

theorem send_order:
  assumes "run_slot ops c = Inr (c', calls)" and "mSendDataqueue c = []"
  shows "wsa_sends calls = take (Suc (slot_completions ops)) (slot_messages ops) \<and>
     mSendDataqueue c' = drop (slot_completions ops) (slot_messages ops) \<and>
     length (wsa_sends calls) \<le> Suc (slot_completions ops)"
  using run_slot_sends [OF assms(1)] assms(2) by simp

text \<open>A send that fails stalls the slot for good. \<open>SendMsg\<close> on an empty queue returns true and leaves the message
  in the queue even when \<open>WSASend\<close> refused it. There is no completion for a refused call; and as long as none is reported no
  other operation calls \<open>WSASend\<close> again: not a later \<open>SendMsg\<close>, and not after the socket was
  closed and the slot accepted another client, whose messages queue up behind the old one.\<close>

lemma refused_send_stalls:
  assumes "mSendDataqueue c = []" and "unat n \<le> length bs" and "\<not> posted (res_WSASend R)"
    and "slot_completions ops = 0" and "run_slot ops (fst (snd (projr (SendMsg R n bs c)))) = Inr (c', calls)"
  shows "(\<exists>c1. SendMsg R n bs c = Inr (True, c1, [Call_WSASend (mSocket c) (send_overlapped (take (unat n) bs))])) \<and>
     wsa_sends calls = [] \<and> mSendDataqueue c' = send_overlapped (take (unat n) bs) # slot_messages ops"
proof -
  let ?c = "c\<lparr>mSendDataqueue := [send_overlapped (take (unat n) bs)]\<rparr>"
  have s: "SendMsg R n bs c = Inr (True, ?c, [Call_WSASend (mSocket c) (send_overlapped (take (unat n) bs))])"
    using assms(1,2) by (simp add: SendMsg_def SendIO_def)
  with run_slot_sends [of ops ?c c' calls] assms(4,5) show ?thesis by simp
qed

subsection \<open>Witnesses\<close>

definition wos :: os_results where
  "wos = \<lparr>res_WSASocket = 7, res_now = 100, res_CreateIoCompletionPort = 1, res_AcceptEx = (True, 0),
     res_WSARecv = (0, 0), res_WSASend = (0, 0)\<rparr>"

definition wclient :: client_info where
  "wclient = (stClientInfo_Init 2 1 (stClientInfo [] zero_overlapped))\<lparr>mIsConnect := 1, mSocket := 7\<rparr>"

theorem send_order_witness:
  "\<exists>c' calls. run_slot [Op_SendMsg wos 1 [10], Op_SendMsg wos 2 [20, 21], Op_SendCompleted wos, Op_SendMsg wos 1 [30]] wclient
       = Inr (c', calls) \<and>
     wsa_sends calls = [send_overlapped [10], send_overlapped [20, 21]] \<and>
     mSendDataqueue c' = [send_overlapped [20, 21], send_overlapped [30]]"
proof -
  let ?ops = "[Op_SendMsg wos 1 [10], Op_SendMsg wos 2 [20, 21], Op_SendCompleted wos, Op_SendMsg wos 1 [30]]"
  have q: "mSendDataqueue wclient = []" by (simp add: wclient_def stClientInfo_Init_def stClientInfo_def)
  then obtain c' calls where r: "run_slot ?ops wclient = Inr (c', calls)"
    by (simp add: SendMsg_def SendIO_def SendCompleted_def Let_def)
  from send_order [OF r q] r show ?thesis by auto
qed

end
