(* ===== verification/IOCP_Server.thy ===== *)
theory IOCP_Server
  imports Client_Info
begin

text \<open>
  The completion-port server, \<^verbatim>\<open>ServerNetwork/IOCPServer.h\<close>: its start, the thread that posts
  accepts, the body of the worker threads, and the closing of a socket. The calls of the virtual functions
  \<open>OnConnect\<close>, \<open>OnClose\<close> and \<open>OnReceive\<close> are returned as a list of \<open>net_event\<close>, which \<open>Game_Server\<close> handles. There
  is no lock in this file: a round of a worker is therefore cut into the steps between which another thread
  can run, and \<open>Net_Steps\<close> interleaves them.
\<close>

section \<open>State\<close>

record iocp_server =
  MaxIOWorkerThreadCount :: u32
  mClientInfos :: "client_info list"
  mListenSocket :: u64
  mClientCnt :: int
  mIOWorkerThreads :: nat
  mAccepterThread :: bool
  mIOCPHandle :: u64
  mIsWorkerRun :: bool
  mIsAccepterRun :: bool

definition IOCPServer_new :: iocp_server where
  "IOCPServer_new =
     \<lparr>MaxIOWorkerThreadCount = 0, mClientInfos = [], mListenSocket = INVALID_SOCKET, mClientCnt = 0,
      mIOWorkerThreads = 0, mAccepterThread = False, mIOCPHandle = INVALID_HANDLE_VALUE,
      mIsWorkerRun = True, mIsAccepterRun = True\<rparr>"

datatype net_event =
    Ev_OnConnect u32
  | Ev_OnClose u32
  | Ev_OnReceive u32 u32 bytes

text \<open>What a worker dequeues: the completion key is the client, or null for the listening socket.\<close>

record completion =
  bSuccess :: bool
  dwIoSize :: u32
  completionKey :: "nat option"
  lpOverlapped :: "(IOOperation \<times> u32) option"

text \<open>Results of the calls that start the server.\<close>

record setup_results =
  res_WSAStartup :: int32
  res_ListenSocket :: u64
  res_bind :: int32
  res_listen :: int32
  res_NewPort :: u64
  res_ListenPort :: u64

section \<open>Starting and stopping\<close>

definition IOCPServer_Init :: "setup_results \<Rightarrow> u32 \<Rightarrow> iocp_server \<Rightarrow> bool \<times> iocp_server" where
  "IOCPServer_Init R maxIOWorkerThreadCount s =
     (if res_WSAStartup R \<noteq> 0 then (False, s)
      else
        let s1 = s\<lparr>mListenSocket := res_ListenSocket R\<rparr> in
        if mListenSocket s1 = INVALID_SOCKET then (False, s1)
        else (True, s1\<lparr>MaxIOWorkerThreadCount := maxIOWorkerThreadCount\<rparr>))"

definition BindandListen :: "setup_results \<Rightarrow> iocp_server \<Rightarrow> bool \<times> iocp_server" where
  "BindandListen R s =
     (if res_bind R \<noteq> 0 then (False, s)
      else if res_listen R \<noteq> 0 then (False, s)
      else
        let s1 = s\<lparr>mIOCPHandle := res_NewPort R\<rparr> in
        if mIOCPHandle s1 = 0 then (False, s1)
        else if res_ListenPort R = 0 then (False, s1)
        else (True, s1))"

text \<open>The constructor leaves the receive buffer and the accept context as the allocator returns them: \<open>fresh\<close>.\<close>

definition CreateClient :: "(nat \<Rightarrow> client_info) \<Rightarrow> u32 \<Rightarrow> iocp_server \<Rightarrow> iocp_server" where
  "CreateClient fresh maxClientCount s =
     s\<lparr>mClientInfos := mClientInfos s @
         map (\<lambda>i. stClientInfo_Init (of_nat i) (mIOCPHandle s) (fresh i)) [0..<unat maxClientCount]\<rparr>"

definition CreateWokerThread :: "iocp_server \<Rightarrow> bool \<times> iocp_server" where
  "CreateWokerThread s =
     (let threadCount = MaxIOWorkerThreadCount s * 2 + 1
      in (True, s\<lparr>mIOWorkerThreads := mIOWorkerThreads s + unat threadCount\<rparr>))"

definition CreateAccepterThread :: "iocp_server \<Rightarrow> bool \<times> iocp_server" where
  "CreateAccepterThread s = (True, s\<lparr>mAccepterThread := True\<rparr>)"

definition StartServer :: "(nat \<Rightarrow> client_info) \<Rightarrow> u32 \<Rightarrow> iocp_server \<Rightarrow> bool \<times> iocp_server" where
  "StartServer fresh maxClientCount s =
     (let (bRet, s1) = CreateWokerThread (CreateClient fresh maxClientCount s) in
      if \<not> bRet then (False, s1)
      else let (bRet, s2) = CreateAccepterThread s1 in
        if \<not> bRet then (False, s2) else (True, s2))"

text \<open>Both kinds of threads are joined; the handles are closed but keep their values.\<close>

definition DestroyThread :: "iocp_server \<Rightarrow> iocp_server" where
  "DestroyThread s =
     s\<lparr>mIsWorkerRun := False, mIsAccepterRun := False, mAccepterThread := False, mIOWorkerThreads := 0\<rparr>"

section \<open>Clients\<close>

definition GetEmptyClientInfo :: "iocp_server \<Rightarrow> client_info option" where
  "GetEmptyClientInfo s = List.find (\<lambda>c. \<not> IsConnectd c) (mClientInfos s)"

definition GetClientInfo :: "u32 \<Rightarrow> iocp_server \<Rightarrow> client_info result" where
  "GetClientInfo clientIndex s = vec_get (mClientInfos s) (int (unat clientIndex))"

definition put_client :: "nat \<Rightarrow> client_info \<Rightarrow> iocp_server \<Rightarrow> iocp_server" where
  "put_client p c s = s\<lparr>mClientInfos := (mClientInfos s)[p := c]\<rparr>"

definition IOCPServer_SendMsg ::
    "os_results \<Rightarrow> u32 \<Rightarrow> u32 \<Rightarrow> bytes \<Rightarrow> iocp_server \<Rightarrow> (bool \<times> iocp_server \<times> os_call list) result" where
  "IOCPServer_SendMsg R clientIndex dataSize pData s =
     bind_result (GetClientInfo clientIndex s) (\<lambda>c.
     bind_result (SendMsg R dataSize pData c) (\<lambda>(ok, c', calls).
       Inr (ok, put_client (unat clientIndex) c' s, calls)))"

section \<open>The accepting thread\<close>

definition accept_due :: "u64 \<Rightarrow> client_info \<Rightarrow> bool" where
  "accept_due curTimeSec client \<longleftrightarrow>
     \<not> IsConnectd client \<and> \<not> curTimeSec < GetLatestClosedTimeSec client \<and>
     \<not> curTimeSec - GetLatestClosedTimeSec client \<le> RE_USE_SESSION_WAIT_TIMESEC"

definition AccepterThread_client :: "os_results \<Rightarrow> u64 \<Rightarrow> u64 \<Rightarrow> client_info \<Rightarrow> client_info \<times> os_call list" where
  "AccepterThread_client R listenSock curTimeSec client =
     (if accept_due curTimeSec client then snd (PostAccept R listenSock client) else (client, []))"

fun AccepterThread_loop ::
    "(u32 \<Rightarrow> os_results) \<Rightarrow> u64 \<Rightarrow> u64 \<Rightarrow> client_info list \<Rightarrow> client_info list \<times> os_call list" where
  "AccepterThread_loop R listenSock curTimeSec [] = ([], [])"
| "AccepterThread_loop R listenSock curTimeSec (client # rest) =
     (let (client', calls) = AccepterThread_client (R (GetIndex client)) listenSock curTimeSec client;
          (rest', calls') = AccepterThread_loop R listenSock curTimeSec rest
      in (client' # rest', calls @ calls'))"

definition AccepterThread :: "(u32 \<Rightarrow> os_results) \<Rightarrow> u64 \<Rightarrow> iocp_server \<Rightarrow> iocp_server \<times> os_call list" where
  "AccepterThread R curTimeSec s =
     (if mIsAccepterRun s
      then let (cs, calls) = AccepterThread_loop R (mListenSocket s) curTimeSec (mClientInfos s)
           in (s\<lparr>mClientInfos := cs\<rparr>, calls)
      else (s, []))"

section \<open>The worker threads\<close>

text \<open>\<open>CloseSocket\<close> up to its call of \<open>OnClose\<close>: the test, and the close of a client that was found connected.\<close>

definition CloseSocket_test :: "nat option \<Rightarrow> iocp_server \<Rightarrow> bool result" where
  "CloseSocket_test clientInfo s =
     (case clientInfo of
        None \<Rightarrow> Inl NullDeref
      | Some p \<Rightarrow> bind_result (vec_get (mClientInfos s) (int p)) (\<lambda>c. Inr (IsConnectd c)))"

definition CloseSocket_close ::
    "os_results \<Rightarrow> nat \<Rightarrow> bool \<Rightarrow> iocp_server \<Rightarrow> (u32 \<times> iocp_server \<times> os_call list) result" where
  "CloseSocket_close R p isForce s =
     bind_result (vec_get (mClientInfos s) (int p)) (\<lambda>c.
       let clientIndex = GetIndex c; (c', calls) = Close R isForce c
       in Inr (clientIndex, put_client p c' s, calls))"

text \<open>
  A round of \<open>WokerThread\<close> touches what other threads share at several points. \<open>WokerThread_begin\<close> goes up to the
  first of them after which another thread can matter, and \<open>worker\<close> says where the round goes on:
  \<open>Announce p\<close> before \<open>++mClientCnt\<close> and \<open>OnConnect\<close>, \<open>Rebind p\<close> between \<open>OnReceive\<close> and \<open>BindRecv\<close>,
  \<open>Test\<close> before the test of \<open>CloseSocket\<close>, \<open>Shut\<close> between this test and \<open>Close\<close>, and \<open>Notify\<close> before
  \<open>OnClose\<close> with the index that was read before.
\<close>

datatype worker =
    Finished
  | Announce nat
  | Rebind nat
  | Test "nat option" bool
  | Shut nat bool
  | Notify u32

definition WokerThread_begin ::
    "os_results \<Rightarrow> completion \<Rightarrow> iocp_server \<Rightarrow> (worker \<times> iocp_server \<times> net_event list \<times> os_call list) result" where
  "WokerThread_begin R k s =
     (if bSuccess k \<and> dwIoSize k = 0 \<and> lpOverlapped k = None then Inr (Finished, s\<lparr>mIsWorkerRun := False\<rparr>, [], [])
      else case lpOverlapped k of
        None \<Rightarrow> Inr (Finished, s, [], [])
      | Some (eOperation, session) \<Rightarrow>
          if \<not> bSuccess k \<or> dwIoSize k = 0 \<and> eOperation \<noteq> ACCEPT then Inr (Test (completionKey k) False, s, [], [])
          else (case eOperation of
            ACCEPT \<Rightarrow>
              bind_result (GetClientInfo session s) (\<lambda>c.
                let (ok, c', calls) = AcceptCompletion R c; s' = put_client (unat session) c' s in
                if ok then Inr (Announce (unat session), s', [], calls)
                else Inr (Test (Some (unat session)) True, s', [], calls))
          | RECV \<Rightarrow>
              (case completionKey k of
                 None \<Rightarrow> Inl NullDeref
               | Some p \<Rightarrow>
                   bind_result (vec_get (mClientInfos s) (int p)) (\<lambda>c.
                     Inr (Rebind p, s, [Ev_OnReceive (GetIndex c) (dwIoSize k) (RecvBuffer c)], [])))
          | SEND \<Rightarrow>
              (case completionKey k of
                 None \<Rightarrow> Inl NullDeref
               | Some p \<Rightarrow>
                   bind_result (vec_get (mClientInfos s) (int p)) (\<lambda>c.
                   bind_result (SendCompleted R c) (\<lambda>(c', calls).
                     Inr (Finished, put_client p c' s, [], calls))))))"

text \<open>The next step of a round.\<close>

definition WokerThread_continue ::
    "os_results \<Rightarrow> worker \<Rightarrow> iocp_server \<Rightarrow> (worker \<times> iocp_server \<times> net_event list \<times> os_call list) result" where
  "WokerThread_continue R w s =
     (case w of
        Finished \<Rightarrow> Inr (Finished, s, [], [])
      | Announce p \<Rightarrow>
          bind_result (vec_get (mClientInfos s) (int p)) (\<lambda>c.
          bind_result (add_int32 (mClientCnt s) 1) (\<lambda>n.
            Inr (Finished, s\<lparr>mClientCnt := n\<rparr>, [Ev_OnConnect (GetIndex c)], [])))
      | Rebind p \<Rightarrow>
          bind_result (vec_get (mClientInfos s) (int p)) (\<lambda>c.
            let (ok, c', calls) = BindRecv R c in Inr (Finished, put_client p c' s, [], calls))
      | Test clientInfo isForce \<Rightarrow>
          bind_result (CloseSocket_test clientInfo s) (\<lambda>connected.
            Inr (if connected then Shut (the clientInfo) isForce else Finished, s, [], []))
      | Shut p isForce \<Rightarrow>
          bind_result (CloseSocket_close R p isForce s) (\<lambda>(clientIndex, s', calls).
            Inr (Notify clientIndex, s', [], calls))
      | Notify clientIndex \<Rightarrow> Inr (Finished, s, [Ev_OnClose clientIndex], []))"

text \<open>One round of the loop alone: after its beginning there are at most three further steps.\<close>

fun WokerThread_rest ::
    "nat \<Rightarrow> os_results \<Rightarrow> worker \<Rightarrow> iocp_server \<Rightarrow> (iocp_server \<times> net_event list \<times> os_call list) result" where
  "WokerThread_rest 0 R w s = Inr (s, [], [])"
| "WokerThread_rest (Suc k) R w s =
     bind_result (WokerThread_continue R w s) (\<lambda>(w', s', events, calls).
     bind_result (WokerThread_rest k R w' s') (\<lambda>(s'', events', calls'). Inr (s'', events @ events', calls @ calls')))"

definition WokerThread ::
    "os_results \<Rightarrow> completion \<Rightarrow> iocp_server \<Rightarrow> (iocp_server \<times> net_event list \<times> os_call list) result" where
  "WokerThread R k s =
     bind_result (WokerThread_begin R k s) (\<lambda>(w, s', events, calls).
     bind_result (WokerThread_rest 3 R w s') (\<lambda>(s'', events', calls'). Inr (s'', events @ events', calls @ calls')))"

end
