(* ===== verification/Net_Steps.thy ===== *)
theory Net_Steps
  imports IOCP_Server
begin

text \<open>
  The threads of the network layer over the shared clients, with no lock between them: the accepting thread, the
  workers, whose rounds are cut into the steps of \<open>WokerThread_begin\<close> and \<open>WokerThread_continue\<close>, and the
  packet thread, which calls \<open>SendMsg\<close>. Windows completes each operation that was posted once, with success or
  failure and at any time, whatever happened to the socket since; it is counted per client how many of its
  \<open>AcceptEx\<close>, \<open>WSARecv\<close> and \<open>WSASend\<close> are still to be completed. A step that faults is no step: the
  relation describes the runs up to a fault.
\<close>

section \<open>Steps\<close>

text \<open>
  The log of a run: the calls of the game server's virtual functions, and for the slots the moments at which
  \<open>AcceptCompletion\<close> and \<open>Close\<close> have run and at which a failed \<open>WSASend\<close> was taken.
\<close>

datatype net_note = Note net_event | Opened nat | Closed nat | SendFailed nat

record net =
  net_server :: iocp_server
  net_accepts :: "nat \<Rightarrow> nat"
  net_recvs :: "nat \<Rightarrow> nat"
  net_sends :: "nat \<Rightarrow> nat"
  net_workers :: "worker list"
  net_notes :: "net_note list"

definition accept_completion :: "u32 \<Rightarrow> nat \<Rightarrow> completion" where
  "accept_completion len i =
     \<lparr>bSuccess = True, dwIoSize = len, completionKey = None, lpOverlapped = Some (ACCEPT, of_nat i)\<rparr>"

definition client_completion :: "bool \<Rightarrow> u32 \<Rightarrow> nat \<Rightarrow> IOOperation \<Rightarrow> completion" where
  "client_completion ok len p eOperation =
     \<lparr>bSuccess = ok, dwIoSize = len, completionKey = Some p, lpOverlapped = Some (eOperation, 0)\<rparr>"

text \<open>How many receives and sends a list of calls has posted.\<close>

fun is_recv :: "os_call \<Rightarrow> bool" where
  "is_recv (Call_WSARecv s) = True"
| "is_recv call = False"

definition recvs_posted :: "os_results \<Rightarrow> os_call list \<Rightarrow> nat" where
  "recvs_posted R calls = (if posted (res_WSARecv R) then length (filter is_recv calls) else 0)"

definition sends_posted :: "os_results \<Rightarrow> os_call list \<Rightarrow> nat" where
  "sends_posted R calls = (if posted (res_WSASend R) then length (wsa_sends calls) else 0)"

lemma posted_none [simp]: "recvs_posted R [] = 0" "sends_posted R [] = 0"
  by (simp_all add: recvs_posted_def sends_posted_def)

definition resumed :: "worker \<Rightarrow> worker list" where
  "resumed w = (if w = Finished then [] else [w])"

text \<open>The bytes that a receive brings are at the start of the client's buffer.\<close>

definition receive_bytes :: "bytes \<Rightarrow> client_info \<Rightarrow> client_info" where
  "receive_bytes bs c = c\<lparr>mRecvBuf := bs @ drop (length bs) (mRecvBuf c)\<rparr>"

definition add_at :: "nat \<Rightarrow> nat \<Rightarrow> (nat \<Rightarrow> nat) \<Rightarrow> nat \<Rightarrow> nat" where
  "add_at p k f = f(p := f p + k)"

text \<open>
  An idle worker takes a completion; a busy one continues. The clock of the accepting thread counts seconds since
  the start of the machine, so that it stays below 136 years.
\<close>

inductive net_step :: "net \<Rightarrow> net \<Rightarrow> bool" where
  accepter: "\<lbrakk>i < length (mClientInfos (net_server n)); cur \<le> UINT32_MAX;
      c = mClientInfos (net_server n) ! i;
      AccepterThread_client R (mListenSocket (net_server n)) cur c = (c', calls)\<rbrakk> \<Longrightarrow>
    net_step n (n\<lparr>net_server := put_client i c' (net_server n),
      net_accepts := add_at i
        (if accept_due cur c \<and> fst (PostAccept R (mListenSocket (net_server n)) c) then 1 else 0) (net_accepts n)\<rparr>)"
| accepted: "\<lbrakk>i < length (mClientInfos (net_server n)); 0 < net_accepts n i;
      length (net_workers n) < mIOWorkerThreads (net_server n);
      WokerThread_begin R (accept_completion len i) (net_server n) = Inr (w, s, events, calls)\<rbrakk> \<Longrightarrow>
    net_step n (n\<lparr>net_server := s, net_accepts := (net_accepts n)(i := net_accepts n i - 1),
      net_recvs := add_at i (recvs_posted R calls) (net_recvs n),
      net_workers := resumed w @ net_workers n, net_notes := net_notes n @ [Opened i] @ map Note events\<rparr>)"
| received: "\<lbrakk>p < length (mClientInfos (net_server n)); 0 < net_recvs n p;
      length (net_workers n) < mIOWorkerThreads (net_server n);
      c = mClientInfos (net_server n) ! p; length bs \<le> length (mRecvBuf c);
      WokerThread_begin R (client_completion ok (of_nat (length bs)) p RECV)
        (put_client p (receive_bytes bs c) (net_server n)) = Inr (w, s, events, calls)\<rbrakk> \<Longrightarrow>
    net_step n (n\<lparr>net_server := s, net_recvs := (net_recvs n)(p := net_recvs n p - 1),
      net_workers := resumed w @ net_workers n, net_notes := net_notes n @ map Note events\<rparr>)"
| send_done: "\<lbrakk>p < length (mClientInfos (net_server n)); 0 < net_sends n p;
      length (net_workers n) < mIOWorkerThreads (net_server n);
      WokerThread_begin R (client_completion ok len p SEND) (net_server n) = Inr (w, s, events, calls)\<rbrakk> \<Longrightarrow>
    net_step n (n\<lparr>net_server := s,
      net_sends := add_at p (sends_posted R calls) ((net_sends n)(p := net_sends n p - 1)),
      net_workers := resumed w @ net_workers n,
      net_notes := net_notes n @ (if w = Finished then [] else [SendFailed p]) @ map Note events\<rparr>)"
| continued: "\<lbrakk>net_workers n = ws @ w # ws';
      WokerThread_continue R w (net_server n) = Inr (w', s, events, calls)\<rbrakk> \<Longrightarrow>
    net_step n (n\<lparr>net_server := s,
      net_recvs := (case w of Rebind p \<Rightarrow> add_at p (recvs_posted R calls) (net_recvs n) | _ \<Rightarrow> net_recvs n),
      net_workers := ws @ resumed w' @ ws',
      net_notes := net_notes n @ (case w of Shut p f \<Rightarrow> [Closed p] | _ \<Rightarrow> []) @ map Note events\<rparr>)"
| sent: "IOCPServer_SendMsg R clientIndex dataSize pData (net_server n) = Inr (ok, s, calls) \<Longrightarrow>
    net_step n (n\<lparr>net_server := s, net_sends := add_at (unat clientIndex) (sends_posted R calls) (net_sends n)\<rparr>)"

inductive_cases net_stepE: "net_step n n'"

inductive net_reachable :: "net \<Rightarrow> net \<Rightarrow> bool" where
  start: "net_reachable n n"
| more: "net_reachable n0 n \<Longrightarrow> net_step n n' \<Longrightarrow> net_reachable n0 n'"

definition net_start :: "iocp_server \<Rightarrow> net" where
  "net_start s = \<lparr>net_server = s, net_accepts = (\<lambda>_. 0), net_recvs = (\<lambda>_. 0), net_sends = (\<lambda>_. 0),
     net_workers = [], net_notes = []\<rparr>"

lemma net_reachable_trans: "net_reachable n1 n2 \<Longrightarrow> net_reachable n0 n1 \<Longrightarrow> net_reachable n0 n2"
  by (induction rule: net_reachable.induct) (auto intro: net_reachable.more)

section \<open>The life of a slot\<close>

text \<open>
  The openings and closings of a slot in a log, its failed sends, and what the game server was told. \<open>phase\<close> is
  \<open>Some True\<close> after an opening and \<open>Some False\<close> after a closing, and \<open>None\<close> once they did not alternate.
\<close>

definition opens :: "nat \<Rightarrow> net_note list \<Rightarrow> nat" where "opens i log = count_list log (Opened i)"
definition closes :: "nat \<Rightarrow> net_note list \<Rightarrow> nat" where "closes i log = count_list log (Closed i)"
definition failed_sends :: "nat \<Rightarrow> net_note list \<Rightarrow> nat" where "failed_sends i log = count_list log (SendFailed i)"
definition OnConnects :: "nat \<Rightarrow> net_note list \<Rightarrow> nat" where
  "OnConnects i log = count_list log (Note (Ev_OnConnect (of_nat i)))"
definition OnCloses :: "nat \<Rightarrow> net_note list \<Rightarrow> nat" where
  "OnCloses i log = count_list log (Note (Ev_OnClose (of_nat i)))"

fun phase_step :: "nat \<Rightarrow> net_note \<Rightarrow> bool option \<Rightarrow> bool option" where
  "phase_step i (Opened j) ph = (if j \<noteq> i then ph else if ph = Some False then Some True else None)"
| "phase_step i (Closed j) ph = (if j \<noteq> i then ph else if ph = Some True then Some False else None)"
| "phase_step i (Note e) ph = ph"
| "phase_step i (SendFailed j) ph = ph"

definition phase :: "nat \<Rightarrow> net_note list \<Rightarrow> bool option" where
  "phase i log = fold (phase_step i) log (Some False)"

lemma log_simps [simp]:
  "opens i [] = 0" "opens i (log @ log') = opens i log + opens i log'"
  "opens i (x # log) = (if x = Opened i then 1 else 0) + opens i log"
  "closes i [] = 0" "closes i (log @ log') = closes i log + closes i log'"
  "closes i (x # log) = (if x = Closed i then 1 else 0) + closes i log"
  "failed_sends i [] = 0" "failed_sends i (log @ log') = failed_sends i log + failed_sends i log'"
  "failed_sends i (x # log) = (if x = SendFailed i then 1 else 0) + failed_sends i log"
  "OnConnects i [] = 0" "OnConnects i (log @ log') = OnConnects i log + OnConnects i log'"
  "OnConnects i (x # log) = (if x = Note (Ev_OnConnect (of_nat i)) then 1 else 0) + OnConnects i log"
  "OnCloses i [] = 0" "OnCloses i (log @ log') = OnCloses i log + OnCloses i log'"
  "OnCloses i (x # log) = (if x = Note (Ev_OnClose (of_nat i)) then 1 else 0) + OnCloses i log"
  "phase i [] = Some False"
  by (simp_all add: opens_def closes_def failed_sends_def OnConnects_def OnCloses_def phase_def)

lemma phase_append [simp]: "log' \<noteq> [] \<Longrightarrow> phase i (log @ log') = fold (phase_step i) log' (phase i log)"
  by (simp add: phase_def)

lemma phase_notes [simp]: "fold (phase_step i) (map Note events) ph = ph"
  by (induction events) simp_all

text \<open>Workers that may still close client \<open>i\<close> or post its receive again, and those that have yet to tell the
  game server of its connection or of its end.\<close>

fun engages :: "nat \<Rightarrow> worker \<Rightarrow> bool" where
  "engages i (Test c f) \<longleftrightarrow> c = Some i"
| "engages i (Shut p f) \<longleftrightarrow> p = i"
| "engages i (Rebind p) \<longleftrightarrow> p = i"
| "engages i _ \<longleftrightarrow> False"

definition engaged :: "nat \<Rightarrow> worker list \<Rightarrow> nat" where "engaged i ws = length (filter (engages i) ws)"
definition announcing :: "nat \<Rightarrow> worker list \<Rightarrow> nat" where "announcing i ws = count_list ws (Announce i)"
definition notifying :: "nat \<Rightarrow> worker list \<Rightarrow> nat" where "notifying i ws = count_list ws (Notify (of_nat i))"

lemma worker_simps [simp]:
  "engaged i [] = 0" "engaged i (ws @ ws') = engaged i ws + engaged i ws'"
  "engaged i (w # ws) = (if engages i w then 1 else 0) + engaged i ws"
  "announcing i [] = 0" "announcing i (ws @ ws') = announcing i ws + announcing i ws'"
  "announcing i (w # ws) = (if w = Announce i then 1 else 0) + announcing i ws"
  "notifying i [] = 0" "notifying i (ws @ ws') = notifying i ws + notifying i ws'"
  "notifying i (w # ws) = (if w = Notify (of_nat i) then 1 else 0) + notifying i ws"
  "resumed Finished = []" "w \<noteq> Finished \<Longrightarrow> resumed w = [w]"
  by (simp_all add: engaged_def announcing_def notifying_def resumed_def)

lemma add_at_simps [simp]: "add_at p k f p = f p + k" "j \<noteq> p \<Longrightarrow> add_at p k f j = f j"
  by (simp_all add: add_at_def)

text \<open>
  What one slot satisfies, with \<open>a\<close>, \<open>r\<close> and \<open>d\<close> accepts, receives and sends to be completed. Each opening needs a
  posted accept, and each posted accept the closing before it; each closing needs a failed receive, of which
  an opening brings at most one, or a failed send, after which the queue is never empty again.
\<close>

definition slot_inv :: "nat \<Rightarrow> client_info \<Rightarrow> nat \<Rightarrow> nat \<Rightarrow> nat \<Rightarrow> worker list \<Rightarrow> net_note list \<Rightarrow> bool" where
  "slot_inv i c a r d ws log \<longleftrightarrow>
     ci_mIndex c = of_nat i \<and>
     a + opens i log + (if mLatestClosedTimeSec c = UINT32_MAX then 0 else 1) \<le> closes i log + 1 \<and>
     closes i log + engaged i ws + r \<le> opens i log + failed_sends i log \<and>
     failed_sends i log + d \<le> (if mSendDataqueue c = [] then 0 else 1) \<and>
     OnConnects i log + announcing i ws \<le> opens i log \<and>
     OnCloses i log + notifying i ws = closes i log \<and>
     (failed_sends i log = 0 \<longrightarrow> phase i log = Some (IsConnectd c) \<and>
        opens i log = closes i log + (if IsConnectd c then 1 else 0))"

definition net_inv :: "net \<Rightarrow> bool" where
  "net_inv n \<longleftrightarrow> length (mClientInfos (net_server n)) < 2 ^ 32 \<and>
     (\<forall>i < length (mClientInfos (net_server n)).
        slot_inv i (mClientInfos (net_server n) ! i) (net_accepts n i) (net_recvs n i) (net_sends n i)
          (net_workers n) (net_notes n))"

lemma net_invD:
  "net_inv n \<Longrightarrow> i < length (mClientInfos (net_server n)) \<Longrightarrow>
     slot_inv i (mClientInfos (net_server n) ! i) (net_accepts n i) (net_recvs n i) (net_sends n i)
          (net_workers n) (net_notes n)"
  by (simp add: net_inv_def)

lemma net_inv_bound: "net_inv n \<Longrightarrow> i < length (mClientInfos (net_server n)) \<Longrightarrow> i < 2 ^ 32"
  by (simp add: net_inv_def)

lemma of_nat_u32_eq: "i < 2 ^ 32 \<Longrightarrow> j < 2 ^ 32 \<Longrightarrow> (of_nat i :: u32) = of_nat j \<longleftrightarrow> i = j"
  by (metis unat_of_nat_u32)

lemma put_client_simps [simp]:
  "mClientInfos (put_client p c s) = (mClientInfos s)[p := c]"
  "mListenSocket (put_client p c s) = mListenSocket s"
  "mIOWorkerThreads (put_client p c s) = mIOWorkerThreads s"
  "mClientCnt (put_client p c s) = mClientCnt s"
  by (simp_all add: put_client_def)

text \<open>What the invariant of slot \<open>j\<close> reads of the workers and the log; a step that concerns another slot leaves it.\<close>

definition slot_view :: "nat \<Rightarrow> worker list \<Rightarrow> net_note list \<Rightarrow> nat list \<times> bool option" where
  "slot_view j ws log =
     ([engaged j ws, announcing j ws, notifying j ws, opens j log, closes j log, failed_sends j log,
       OnConnects j log, OnCloses j log], phase j log)"

lemma slot_inv_view:
  "slot_view j ws' log' = slot_view j ws log \<Longrightarrow> slot_inv j c a r d ws' log' = slot_inv j c a r d ws log"
  by (simp add: slot_view_def slot_inv_def)

lemma net_inv_slot:
  assumes "net_inv n" and "mClientInfos (net_server n') = (mClientInfos (net_server n))[i := c]"
    and "i < length (mClientInfos (net_server n))"
    and "\<And>j. j \<noteq> i \<Longrightarrow> j < 2 ^ 32 \<Longrightarrow> net_accepts n' j = net_accepts n j \<and> net_recvs n' j = net_recvs n j \<and>
      net_sends n' j = net_sends n j \<and>
      slot_view j (net_workers n') (net_notes n') = slot_view j (net_workers n) (net_notes n)"
    and "slot_inv i c (net_accepts n' i) (net_recvs n' i) (net_sends n' i) (net_workers n') (net_notes n')"
  shows "net_inv n'"
  unfolding net_inv_def
proof (intro conjI allI impI)
  show "length (mClientInfos (net_server n')) < 2 ^ 32" using assms(1,2) by (simp add: net_inv_def)
  fix j assume j: "j < length (mClientInfos (net_server n'))"
  with assms(1,2) have b: "j < 2 ^ 32" "j < length (mClientInfos (net_server n))" by (simp_all add: net_inv_def)
  show "slot_inv j (mClientInfos (net_server n') ! j) (net_accepts n' j) (net_recvs n' j) (net_sends n' j)
      (net_workers n') (net_notes n')"
  proof (cases "j = i")
    case True
    with assms(2,3,5) show ?thesis by simp
  next
    case False
    from assms(4) [OF False b(1)] slot_inv_view [of j "net_workers n'" "net_notes n'" "net_workers n" "net_notes n"]
      net_invD [OF assms(1) b(2)] False assms(2)
    show ?thesis by simp
  qed
qed

section \<open>What the steps do to a slot\<close>

lemma GetClientInfo_Inr_iff:
  "GetClientInfo i s = Inr c \<longleftrightarrow> unat i < length (mClientInfos s) \<and> c = mClientInfos s ! unat i"
  unfolding GetClientInfo_def vec_get_Inr_iff by (metis nat_int of_nat_0_le_iff of_nat_less_iff)

lemma IOCPServer_SendMsg_Inr:
  assumes "IOCPServer_SendMsg R i n bs s = Inr (ok, s', calls)"
  shows "\<exists>c'. unat i < length (mClientInfos s) \<and> SendMsg R n bs (mClientInfos s ! unat i) = Inr (ok, c', calls) \<and>
     s' = put_client (unat i) c' s"
  using assms unfolding IOCPServer_SendMsg_def by (fastforce simp: bind_result_Inr_iff GetClientInfo_Inr_iff)

text \<open>Operations that leave the connection of the client as it is.\<close>

definition same_life :: "client_info \<Rightarrow> client_info \<Rightarrow> bool" where
  "same_life c c' \<longleftrightarrow> ci_mIndex c' = ci_mIndex c \<and> mIsConnect c' = mIsConnect c \<and>
     mLatestClosedTimeSec c' = mLatestClosedTimeSec c"

lemma same_lifeD: "same_life c c' \<Longrightarrow> IsConnectd c' = IsConnectd c"
  by (simp add: same_life_def IsConnectd_def)

lemma SendMsg_slot:
  assumes "SendMsg R n bs c = Inr (ok, c', calls)"
  shows "same_life c c' \<and> mSendDataqueue c' \<noteq> [] \<and> sends_posted R calls \<le> (if mSendDataqueue c = [] then 1 else 0)"
  using assms
  by (auto simp: SendMsg_def SendIO_def Let_def bind_result_Inr_iff same_life_def sends_posted_def
      split: if_splits list.splits)

lemma SendCompleted_slot:
  assumes "SendCompleted R c = Inr (c', calls)"
  shows "same_life c c' \<and> mSendDataqueue c \<noteq> [] \<and> sends_posted R calls \<le> (if mSendDataqueue c' = [] then 0 else 1)"
  using assms
  by (auto simp: SendCompleted_def SendIO_def Let_def bind_result_Inr_iff same_life_def sends_posted_def
      split: if_splits list.splits)

lemma BindRecv_slot:
  assumes "BindRecv R c = (ok, c', calls)"
  shows "same_life c c' \<and> mSendDataqueue c' = mSendDataqueue c \<and> recvs_posted R calls = (if ok then 1 else 0)"
  using assms by (auto simp: BindRecv_def Let_def same_life_def recvs_posted_def)

lemma AcceptCompletion_slot:
  assumes "AcceptCompletion R c = (ok, c', calls)"
  shows "ci_mIndex c' = ci_mIndex c \<and> IsConnectd c' \<and> mLatestClosedTimeSec c' = mLatestClosedTimeSec c \<and>
     mSendDataqueue c' = mSendDataqueue c \<and> recvs_posted R calls = (if ok then 1 else 0)"
  using assms
  by (auto simp: AcceptCompletion_def OnConnect_def BindIOCompletionPort_def BindRecv_def IsConnectd_def Let_def
      recvs_posted_def split: if_splits)

lemma PostAccept_slot:
  assumes "PostAccept R l c = (ok, c', calls)"
  shows "ci_mIndex c' = ci_mIndex c \<and> IsConnectd c' = IsConnectd c \<and> mLatestClosedTimeSec c' = UINT32_MAX \<and>
     mSendDataqueue c' = mSendDataqueue c"
  using assms by (auto simp: PostAccept_def Let_def IsConnectd_def split: if_splits)

lemma accept_due_not_MAX:
  assumes "accept_due cur c" and "cur \<le> UINT32_MAX"
  shows "mLatestClosedTimeSec c \<noteq> UINT32_MAX"
proof
  assume "mLatestClosedTimeSec c = UINT32_MAX"
  with assms have "cur = UINT32_MAX" by (auto simp: accept_due_def GetLatestClosedTimeSec_def)
  with assms(1) \<open>mLatestClosedTimeSec c = UINT32_MAX\<close> show False
    by (simp add: accept_due_def GetLatestClosedTimeSec_def)
qed

text \<open>The three kinds of completions.\<close>

lemma begin_accept:
  assumes "WokerThread_begin R (accept_completion len i) s = Inr (w, s', events, calls)"
    and "i < length (mClientInfos s)" and "i < 2 ^ 32"
  obtains ok c' where "AcceptCompletion R (mClientInfos s ! i) = (ok, c', calls)" and "s' = put_client i c' s"
    and "events = []" and "w = (if ok then Announce i else Test (Some i) True)"
proof -
  have u: "unat (of_nat i :: u32) = i" using assms(3) by (rule unat_of_nat_u32)
  obtain ok c' k where a: "AcceptCompletion R (mClientInfos s ! i) = (ok, c', k)"
    by (cases "AcceptCompletion R (mClientInfos s ! i)") auto
  have "GetClientInfo (of_nat i) s = Inr (mClientInfos s ! i)" using assms(2) u by (simp add: GetClientInfo_def)
  with assms(1) a u that [of ok c'] show ?thesis
    by (auto simp: WokerThread_begin_def accept_completion_def Let_def split: if_splits)
qed

lemma begin_receive:
  assumes "WokerThread_begin R (client_completion ok len p RECV) s = Inr (w, s', events, calls)"
    and "p < length (mClientInfos s)"
  shows "s' = s \<and> calls = [] \<and> (w, events) =
     (if \<not> ok \<or> len = 0 then (Test (Some p) False, [])
      else (Rebind p, [Ev_OnReceive (GetIndex (mClientInfos s ! p)) len (RecvBuffer (mClientInfos s ! p))]))"
  using assms by (auto simp: WokerThread_begin_def client_completion_def vec_get_def split: if_splits)

lemma begin_send:
  assumes "WokerThread_begin R (client_completion ok len p SEND) s = Inr (w, s', events, calls)"
    and "p < length (mClientInfos s)"
  shows "events = [] \<and>
     (if \<not> ok \<or> len = 0 then w = Test (Some p) False \<and> s' = s \<and> calls = []
      else w = Finished \<and> (\<exists>c'. SendCompleted R (mClientInfos s ! p) = Inr (c', calls) \<and> s' = put_client p c' s))"
  using assms
  by (auto simp: WokerThread_begin_def client_completion_def vec_get_def bind_result_Inr_iff split: if_splits)

section \<open>The invariant is kept\<close>

lemma accepter_inv:
  assumes inv: "net_inv n" and i: "i < length (mClientInfos (net_server n))" and "cur \<le> UINT32_MAX"
    and c: "c = mClientInfos (net_server n) ! i"
    and step: "AccepterThread_client R (mListenSocket (net_server n)) cur c = (c', calls)"
  shows "net_inv (n\<lparr>net_server := put_client i c' (net_server n),
      net_accepts := add_at i
        (if accept_due cur c \<and> fst (PostAccept R (mListenSocket (net_server n)) c) then 1 else 0) (net_accepts n)\<rparr>)"
    (is "net_inv ?n")
proof (rule net_inv_slot [OF inv, of ?n i c'])
  note s = net_invD [OF inv i, folded c]
  show "slot_inv i c' (net_accepts ?n i) (net_recvs ?n i) (net_sends ?n i) (net_workers ?n) (net_notes ?n)"
  proof (cases "accept_due cur c")
    case True
    obtain ok k where p: "PostAccept R (mListenSocket (net_server n)) c = (ok, c', k)"
      using True step by (cases "PostAccept R (mListenSocket (net_server n)) c") (simp add: AccepterThread_client_def)
    have "mLatestClosedTimeSec c \<noteq> UINT32_MAX" by (rule accept_due_not_MAX [OF True assms(3)])
    with s p PostAccept_slot [OF p] True show ?thesis by (simp add: slot_inv_def)
  next
    case False
    with step s show ?thesis by (simp add: AccepterThread_client_def)
  qed
qed (use i in simp_all)

lemma accepted_inv:
  assumes inv: "net_inv n" and i: "i < length (mClientInfos (net_server n))" and "0 < net_accepts n i"
    and step: "WokerThread_begin R (accept_completion len i) (net_server n) = Inr (w, s, events, calls)"
  shows "net_inv (n\<lparr>net_server := s, net_accepts := (net_accepts n)(i := net_accepts n i - 1),
      net_recvs := add_at i (recvs_posted R calls) (net_recvs n),
      net_workers := resumed w @ net_workers n, net_notes := net_notes n @ [Opened i] @ map Note events\<rparr>)"
    (is "net_inv ?n")
proof -
  note b = net_inv_bound [OF inv i] and si = net_invD [OF inv i]
  let ?c = "mClientInfos (net_server n) ! i"
  obtain ok c' where a: "AcceptCompletion R ?c = (ok, c', calls)" and s: "s = put_client i c' (net_server n)"
    and e: "events = []" and w: "w = (if ok then Announce i else Test (Some i) True)"
    by (rule begin_accept [OF step i b])
  note l = AcceptCompletion_slot [OF a]
  have ph: "failed_sends i (net_notes n) = 0 \<Longrightarrow> \<not> IsConnectd ?c" using si assms(3) by (auto simp: slot_inv_def)
  show ?thesis
  proof (rule net_inv_slot [OF inv, of ?n i c'])
    show "slot_inv i c' (net_accepts ?n i) (net_recvs ?n i) (net_sends ?n i) (net_workers ?n) (net_notes ?n)"
      using si l w e assms(3) ph by (auto simp: slot_inv_def)
  qed (use i s w e in \<open>auto simp: slot_view_def\<close>)
qed

lemma received_inv:
  assumes inv: "net_inv n" and p: "p < length (mClientInfos (net_server n))" and r: "0 < net_recvs n p"
    and c: "c = mClientInfos (net_server n) ! p"
    and step: "WokerThread_begin R (client_completion ok len p RECV)
        (put_client p (receive_bytes bs c) (net_server n)) = Inr (w, s, events, calls)"
  shows "net_inv (n\<lparr>net_server := s, net_recvs := (net_recvs n)(p := net_recvs n p - 1),
      net_workers := resumed w @ net_workers n, net_notes := net_notes n @ map Note events\<rparr>)"
    (is "net_inv ?n")
proof -
  have s: "s = put_client p (receive_bytes bs c) (net_server n)"
    and w: "w = Test (Some p) False \<and> events = [] \<or> w = Rebind p \<and> (\<exists>k bs. events = [Ev_OnReceive k len bs])"
    using begin_receive [OF step] p by (auto split: if_splits)
  have same: "same_life c (receive_bytes bs c)" "mSendDataqueue (receive_bytes bs c) = mSendDataqueue c"
    by (simp_all add: same_life_def receive_bytes_def)
  show ?thesis
  proof (rule net_inv_slot [OF inv, of ?n p "receive_bytes bs c"])
    show "slot_inv p (receive_bytes bs c) (net_accepts ?n p) (net_recvs ?n p) (net_sends ?n p) (net_workers ?n) (net_notes ?n)"
      using net_invD [OF inv p] same same_lifeD [OF same(1)] w r
      by (auto simp: slot_inv_def same_life_def c)
  qed (use p s w in \<open>auto simp: slot_view_def\<close>)
qed

lemma send_done_inv:
  assumes inv: "net_inv n" and p: "p < length (mClientInfos (net_server n))" and d: "0 < net_sends n p"
    and step: "WokerThread_begin R (client_completion ok len p SEND) (net_server n) = Inr (w, s, events, calls)"
  shows "net_inv (n\<lparr>net_server := s,
      net_sends := add_at p (sends_posted R calls) ((net_sends n)(p := net_sends n p - 1)),
      net_workers := resumed w @ net_workers n,
      net_notes := net_notes n @ (if w = Finished then [] else [SendFailed p]) @ map Note events\<rparr>)"
    (is "net_inv ?n")
proof -
  note b = begin_send [OF step p] and si = net_invD [OF inv p]
  let ?c = "mClientInfos (net_server n) ! p"
  show ?thesis
  proof (cases "\<not> ok \<or> len = 0")
    case True
    with b have b: "w = Test (Some p) False" "s = net_server n" "calls = []" "events = []" by auto
    show ?thesis
      by (rule net_inv_slot [OF inv, of ?n p ?c])
        (use b p d si in \<open>auto simp: slot_view_def slot_inv_def sends_posted_def split: if_splits\<close>)
  next
    case False
    with b obtain c' where w: "w = Finished" "events = []" and c': "SendCompleted R ?c = Inr (c', calls)"
      and s: "s = put_client p c' (net_server n)" by auto
    note l = SendCompleted_slot [OF c']
    have f: "failed_sends p (net_notes n) = 0" "net_sends n p = 1"
      using si d by (auto simp: slot_inv_def split: if_splits)
    show ?thesis
    proof (rule net_inv_slot [OF inv, of ?n p c'])
      show "slot_inv p c' (net_accepts ?n p) (net_recvs ?n p) (net_sends ?n p) (net_workers ?n) (net_notes ?n)"
        using si l w f same_lifeD [of ?c c'] by (auto simp: slot_inv_def same_life_def)
    qed (use p s w in \<open>auto simp: slot_view_def\<close>)
  qed
qed

lemma slot_inv_queue:
  assumes "slot_inv i c a r d ws log" and "same_life c c'"
    and "failed_sends i log + d' \<le> (if mSendDataqueue c' = [] then 0 else 1)"
  shows "slot_inv i c' a r d' ws log"
  using assms same_lifeD [OF assms(2)] by (simp add: slot_inv_def same_life_def)

definition continues :: "net \<Rightarrow> os_results \<Rightarrow> worker list \<Rightarrow> worker \<Rightarrow> worker list \<Rightarrow> net \<Rightarrow> bool" where
  "continues n R ws w ws' n' \<longleftrightarrow> net_workers n = ws @ w # ws' \<and>
     (\<exists>w' s events calls. WokerThread_continue R w (net_server n) = Inr (w', s, events, calls) \<and>
      n' = n\<lparr>net_server := s,
        net_recvs := (case w of Rebind p \<Rightarrow> add_at p (recvs_posted R calls) (net_recvs n) | _ \<Rightarrow> net_recvs n),
        net_workers := ws @ resumed w' @ ws',
        net_notes := net_notes n @ (case w of Shut p f \<Rightarrow> [Closed p] | _ \<Rightarrow> []) @ map Note events\<rparr>)"

lemma announce_inv:
  assumes inv: "net_inv n" and "continues n R ws (Announce p) ws' n'"
  shows "net_inv n'"
proof -
  let ?c = "mClientInfos (net_server n) ! p"
  from assms(2) obtain k where p: "p < length (mClientInfos (net_server n))"
    and ws: "net_workers n = ws @ Announce p # ws'"
    and n': "n' = n\<lparr>net_server := (net_server n)\<lparr>mClientCnt := k\<rparr>, net_workers := ws @ ws', net_notes := net_notes n @ [Note (Ev_OnConnect (GetIndex ?c))]\<rparr>"
    by (auto simp: continues_def WokerThread_continue_def bind_result_Inr_iff vec_get_Inr_iff)
  note si = net_invD [OF inv p]
  then have x: "GetIndex ?c = of_nat p" by (simp add: slot_inv_def GetIndex_def)
  show ?thesis
  proof (rule net_inv_slot [OF inv, of n' p ?c])
    show "slot_inv p ?c (net_accepts n' p) (net_recvs n' p) (net_sends n' p) (net_workers n') (net_notes n')"
      using si ws by (simp add: n' x slot_inv_def)
  qed (use p ws x of_nat_u32_eq [OF net_inv_bound [OF inv p]] in \<open>auto simp: n' slot_view_def\<close>)
qed

lemma rebind_inv:
  assumes inv: "net_inv n" and "continues n R ws (Rebind p) ws' n'"
  shows "net_inv n'"
proof -
  let ?c = "mClientInfos (net_server n) ! p"
  obtain ok c' k where b: "BindRecv R ?c = (ok, c', k)" by (cases "BindRecv R ?c") auto
  with assms(2) have p: "p < length (mClientInfos (net_server n))" and ws: "net_workers n = ws @ Rebind p # ws'"
    and n': "n' = n\<lparr>net_server := put_client p c' (net_server n), net_recvs := add_at p (recvs_posted R k) (net_recvs n),
      net_workers := ws @ ws'\<rparr>"
    by (auto simp: continues_def WokerThread_continue_def bind_result_Inr_iff vec_get_Inr_iff)
  note l = BindRecv_slot [OF b] and si = net_invD [OF inv p]
  have "slot_inv p c' (net_accepts n p) (net_recvs n p) (net_sends n p) (net_workers n) (net_notes n)"
  proof (rule slot_inv_queue [OF si])
    show "failed_sends p (net_notes n) + net_sends n p \<le> (if mSendDataqueue c' = [] then 0 else 1)"
      using si l by (simp add: slot_inv_def)
  qed (use l in simp)
  then have q: "slot_inv p c' (net_accepts n' p) (net_recvs n' p) (net_sends n' p) (net_workers n') (net_notes n')"
    using l ws by (auto simp: n' slot_inv_def split: if_splits)
  show ?thesis
    by (rule net_inv_slot [OF inv _ _ _ q]) (use p ws in \<open>auto simp: n' slot_view_def\<close>)
qed

lemma test_inv:
  assumes inv: "net_inv n" and "continues n R ws (Test q f) ws' n'"
  shows "net_inv n'"
proof -
  from assms(2) obtain p where q: "q = Some p" and p: "p < length (mClientInfos (net_server n))"
    and ws: "net_workers n = ws @ Test q f # ws'"
    and n': "n' = n\<lparr>net_workers := ws @ (if IsConnectd (mClientInfos (net_server n) ! p) then [Shut p f] else []) @ ws'\<rparr>"
    by (cases q) (auto simp: continues_def WokerThread_continue_def CloseSocket_test_def bind_result_Inr_iff
        vec_get_Inr_iff split: if_splits)
  note si = net_invD [OF inv p]
  have "slot_inv p (mClientInfos (net_server n) ! p) (net_accepts n' p) (net_recvs n' p) (net_sends n' p)
      (net_workers n') (net_notes n')"
    using si ws q by (simp add: n' slot_inv_def)
  from net_inv_slot [OF inv _ _ _ this] show ?thesis using p ws q by (simp add: n' slot_view_def)
qed

lemma shut_inv:
  assumes inv: "net_inv n" and "continues n R ws (Shut p f) ws' n'"
  shows "net_inv n'"
proof -
  let ?c = "mClientInfos (net_server n) ! p"
  from assms(2) have p: "p < length (mClientInfos (net_server n))" and ws: "net_workers n = ws @ Shut p f # ws'"
    and n': "n' = n\<lparr>net_server := put_client p (fst (Close R f ?c)) (net_server n),
      net_workers := ws @ Notify (GetIndex ?c) # ws', net_notes := net_notes n @ [Closed p]\<rparr>"
    by (auto simp: continues_def WokerThread_continue_def CloseSocket_close_def bind_result_Inr_iff vec_get_Inr_iff
        Let_def split: prod.splits)
  note si = net_invD [OF inv p]
  then have x: "GetIndex ?c = of_nat p" by (simp add: slot_inv_def GetIndex_def)
  let ?c' = "fst (Close R f ?c)"
  have c': "ci_mIndex ?c' = ci_mIndex ?c" "\<not> IsConnectd ?c'" "mSendDataqueue ?c' = mSendDataqueue ?c"
    by (simp_all add: Close_def IsConnectd_def)
  have "IsConnectd ?c" if "failed_sends p (net_notes n) = 0"
    using si that ws by (auto simp: slot_inv_def split: if_splits)
  with si ws c' have q: "slot_inv p ?c' (net_accepts n' p) (net_recvs n' p) (net_sends n' p) (net_workers n') (net_notes n')"
    by (simp add: n' x slot_inv_def)
  show ?thesis
    by (rule net_inv_slot [OF inv _ _ _ q])
      (use p ws x of_nat_u32_eq [OF net_inv_bound [OF inv p]] in \<open>auto simp: n' slot_view_def\<close>)
qed

lemma continued_inv:
  assumes inv: "net_inv n" and step: "continues n R ws w ws' n'"
  shows "net_inv n'"
proof (cases w)
  case Finished
  with step show ?thesis
    using inv by (auto simp: continues_def WokerThread_continue_def net_inv_def slot_inv_def)
next
  case (Notify i)
  with step show ?thesis
    using inv by (auto simp: continues_def WokerThread_continue_def net_inv_def slot_inv_def)
next
  case (Announce p)
  with announce_inv [OF inv] step show ?thesis by simp
next
  case (Rebind p)
  with rebind_inv [OF inv] step show ?thesis by simp
next
  case (Test q f)
  with test_inv [OF inv] step show ?thesis by simp
next
  case (Shut p f)
  with shut_inv [OF inv] step show ?thesis by simp
qed

lemma net_step_inv:
  assumes "net_step n n'" and inv: "net_inv n"
  shows "net_inv n'"
  using assms(1)
proof cases
  case (accepter i cur c R c' calls)
  then show ?thesis using accepter_inv [OF inv] by blast
next
  case (accepted i R len w s events calls)
  then show ?thesis using accepted_inv [OF inv] by blast
next
  case (received p c bs ok R w s events calls)
  then show ?thesis using received_inv [OF inv] by blast
next
  case (send_done p R ok len w s events calls)
  then show ?thesis using send_done_inv [OF inv] by blast
next
  case (continued ws w ws' R w' s events calls)
  then show ?thesis using continued_inv [OF inv, of R ws w ws' n'] by (simp add: continues_def)
next
  case (sent R clientIndex dataSize pData ok s calls)
  from IOCPServer_SendMsg_Inr [OF sent(2)] obtain c' where p: "unat clientIndex < length (mClientInfos (net_server n))"
    and c': "SendMsg R dataSize pData (mClientInfos (net_server n) ! unat clientIndex) = Inr (ok, c', calls)"
    and s: "s = put_client (unat clientIndex) c' (net_server n)" by blast
  note l = SendMsg_slot [OF c'] and si = net_invD [OF inv p]
  let ?p = "unat clientIndex"
  have "failed_sends ?p (net_notes n) + (net_sends n ?p + sends_posted R calls) \<le> 1"
    using si l by (simp add: slot_inv_def split: if_splits)
  then have "slot_inv ?p c' (net_accepts n ?p) (net_recvs n ?p) (net_sends n ?p + sends_posted R calls)
      (net_workers n) (net_notes n)"
    using l by (intro slot_inv_queue [OF si]) simp_all
  then show ?thesis unfolding sent(1)
    by (intro net_inv_slot [OF inv, of _ ?p c']) (simp_all add: p s)
qed

lemma net_reachable_inv: "net_reachable n0 n \<Longrightarrow> net_inv n0 \<Longrightarrow> net_inv n"
  by (induction rule: net_reachable.induct) (auto intro: net_step_inv)

lemma continue_length:
  assumes "WokerThread_continue R w s0 = Inr (w', s, events, calls)"
  shows "length (mClientInfos s) = length (mClientInfos s0)"
  using assms
  by (auto simp: WokerThread_continue_def CloseSocket_close_def bind_result_Inr_iff Let_def case_prod_unfold
      split: worker.splits)

lemma net_step_length:
  assumes "net_step n n'"
  shows "length (mClientInfos (net_server n')) = length (mClientInfos (net_server n))"
  using assms
proof cases
  case (accepted i R len w s events calls)
  from accepted(5) have "length (mClientInfos s) = length (mClientInfos (net_server n))"
    by (auto simp: WokerThread_begin_def accept_completion_def Let_def bind_result_Inr_iff case_prod_unfold
        split: if_splits)
  with accepted(1) show ?thesis by simp
next
  case (received p c bs ok R w s events calls)
  with begin_receive [OF received(7)] show ?thesis by simp
next
  case (send_done p R ok len w s events calls)
  with begin_send [OF send_done(5,2)] show ?thesis by (auto split: if_splits)
next
  case (continued ws w ws' R w' s events calls)
  with continue_length [OF continued(3)] show ?thesis by simp
next
  case (sent R clientIndex dataSize pData ok s calls)
  with IOCPServer_SendMsg_Inr [OF sent(2)] show ?thesis by auto
qed simp_all

lemma net_reachable_length:
  "net_reachable n0 n \<Longrightarrow> length (mClientInfos (net_server n)) = length (mClientInfos (net_server n0))"
  by (induction rule: net_reachable.induct) (auto dest: net_step_length)

text \<open>The clients right after \<open>StartServer\<close>.\<close>

definition constructed :: "(nat \<Rightarrow> client_info) \<Rightarrow> bool" where
  "constructed fresh \<longleftrightarrow> (\<forall>i. fresh i = stClientInfo (mRecvBuf (fresh i)) (mAcceptContext (fresh i)))"

lemma StartServer_clients:
  assumes "mClientInfos s0 = []"
  shows "mClientInfos (snd (StartServer fresh m s0)) =
    map (\<lambda>i. stClientInfo_Init (of_nat i) (mIOCPHandle s0) (fresh i)) [0..<unat m]"
  using assms
  by (simp add: StartServer_def CreateWokerThread_def CreateAccepterThread_def CreateClient_def Let_def)

lemma net_start_inv:
  assumes "mClientInfos s0 = []" and "constructed fresh"
  shows "net_inv (net_start (snd (StartServer fresh m s0)))"
proof -
  have "\<not> IsConnectd (stClientInfo_Init j h (fresh i))" for i j h
    by (subst assms(2) [unfolded constructed_def, rule_format, of i])
      (simp add: IsConnectd_def stClientInfo_Init_def stClientInfo_def)
  then show ?thesis
    using unsigned_less [where 'a = nat, of m]
    by (auto simp: net_inv_def net_start_def StartServer_clients [OF assms(1)] slot_inv_def stClientInfo_Init_def)
qed

section \<open>Rounds of the accepting thread\<close>

lemma AccepterThread_loop_eq:
  "AccepterThread_loop R l cur cs =
     (map (\<lambda>c. fst (AccepterThread_client (R (GetIndex c)) l cur c)) cs,
      concat (map (\<lambda>c. snd (AccepterThread_client (R (GetIndex c)) l cur c)) cs))"
  by (induction cs) (simp_all add: case_prod_unfold Let_def)

lemma accept_due_time:
  assumes "\<not> IsConnectd c"
  shows "accept_due cur c \<longleftrightarrow> unat (mLatestClosedTimeSec c) + 3 < unat cur"
proof (cases "cur < mLatestClosedTimeSec c")
  case True
  then have "unat cur < unat (mLatestClosedTimeSec c)" by (simp add: word_less_nat_alt)
  with True show ?thesis by (simp add: accept_due_def GetLatestClosedTimeSec_def)
next
  case False
  then have "unat (cur - mLatestClosedTimeSec c) = unat cur - unat (mLatestClosedTimeSec c)"
    by (intro unat_sub) (simp add: not_less)
  moreover have "unat (mLatestClosedTimeSec c) \<le> unat cur" using False by (simp add: word_less_nat_alt not_less)
  ultimately show ?thesis
    using False assms
    by (auto simp: accept_due_def GetLatestClosedTimeSec_def RE_USE_SESSION_WAIT_TIMESEC_def word_le_nat_alt)
qed

section \<open>Single steps\<close>

lemma receive_none [simp]: "receive_bytes [] c = c"
  by (simp add: receive_bytes_def)

lemma put_client_same [simp]: "put_client p (mClientInfos s ! p) s = s"
  by (simp add: put_client_def)

lemma receive_fails:
  assumes "p < length (mClientInfos (net_server n))" and "0 < net_recvs n p"
    and "length (net_workers n) < mIOWorkerThreads (net_server n)"
  shows "net_step n (n\<lparr>net_recvs := (net_recvs n)(p := net_recvs n p - 1),
    net_workers := Test (Some p) False # net_workers n\<rparr>)"
  using net_step.received [OF assms refl, where bs = "[]" and ok = False and R = wos]
  by (simp add: WokerThread_begin_def client_completion_def)

lemma send_fails:
  assumes "p < length (mClientInfos (net_server n))" and "0 < net_sends n p"
    and "length (net_workers n) < mIOWorkerThreads (net_server n)"
  shows "net_step n (n\<lparr>net_sends := (net_sends n)(p := net_sends n p - 1),
    net_workers := Test (Some p) False # net_workers n, net_notes := net_notes n @ [SendFailed p]\<rparr>)"
  using net_step.send_done [OF assms, where R = wos and ok = False and len = 0]
  by (simp add: WokerThread_begin_def client_completion_def add_at_def)

lemma continues_step: "continues n R ws w ws' n' \<Longrightarrow> net_step n n'"
  unfolding continues_def using net_step.continued by blast

lemma test_step:
  assumes "net_workers n = ws @ Test (Some p) f # ws'" and "p < length (mClientInfos (net_server n))"
    and "IsConnectd (mClientInfos (net_server n) ! p)"
  shows "net_step n (n\<lparr>net_workers := ws @ Shut p f # ws'\<rparr>)"
  by (rule continues_step [of n wos ws "Test (Some p) f" ws'])
    (use assms in \<open>simp add: continues_def WokerThread_continue_def CloseSocket_test_def vec_get_def\<close>)

lemma shut_step:
  assumes "net_workers n = ws @ Shut p f # ws'" and "p < length (mClientInfos (net_server n))"
  shows "net_step n (n\<lparr>net_server := put_client p (fst (Close R f (mClientInfos (net_server n) ! p))) (net_server n),
    net_workers := ws @ Notify (GetIndex (mClientInfos (net_server n) ! p)) # ws',
    net_notes := net_notes n @ [Closed p]\<rparr>)"
  by (rule continues_step [of n R ws "Shut p f" ws'])
    (use assms in \<open>simp add: continues_def WokerThread_continue_def CloseSocket_close_def vec_get_def case_prod_unfold Let_def\<close>)

lemma notify_step:
  assumes "net_workers n = ws @ Notify i # ws'"
  shows "net_step n (n\<lparr>net_workers := ws @ ws', net_notes := net_notes n @ [Note (Ev_OnClose i)]\<rparr>)"
  by (rule continues_step [of n wos ws "Notify i" ws'])
    (use assms in \<open>simp add: continues_def WokerThread_continue_def\<close>)

lemma announce_step:
  assumes "net_workers n = ws @ Announce p # ws'" and "p < length (mClientInfos (net_server n))"
    and "add_int32 (mClientCnt (net_server n)) 1 = Inr k"
  shows "net_step n (n\<lparr>net_server := (net_server n)\<lparr>mClientCnt := k\<rparr>, net_workers := ws @ ws',
    net_notes := net_notes n @ [Note (Ev_OnConnect (GetIndex (mClientInfos (net_server n) ! p)))]\<rparr>)"
  by (rule continues_step [of n wos ws "Announce p" ws'])
    (use assms in \<open>simp add: continues_def WokerThread_continue_def vec_get_def\<close>)

text \<open>Closing a client that a worker has found connected, up to \<open>OnClose\<close>.\<close>

lemma close_steps:
  assumes "net_workers n = ws @ Shut p f # ws'" and "p < length (mClientInfos (net_server n))"
  shows "net_reachable n (n\<lparr>net_server := put_client p (fst (Close R f (mClientInfos (net_server n) ! p))) (net_server n),
    net_workers := ws @ ws',
    net_notes := net_notes n @ [Closed p, Note (Ev_OnClose (GetIndex (mClientInfos (net_server n) ! p)))]\<rparr>)"
proof -
  note s = shut_step [OF assms, of R]
  show ?thesis using net_reachable.more [OF net_reachable.more [OF net_reachable.start s] notify_step [OF refl [THEN trans]]]
    by simp
qed

section \<open>Properties\<close>

text \<open>C9: The life of a client slot, from the start of the server and however its threads interleave. An opening is an
  \<open>AcceptCompletion\<close>, a closing a \<open>Close\<close>. Accepts that are posted and openings together exceed the closings by
  at most one. Every closing, every worker that may still close, and every receive that is posted goes back to
  an opening or to a failed send; of those there is at most one for the whole run, after which the send queue stays
  non-empty, and at most one send is posted at a time. The game server hears of a connection at most once per opening and of
  an end once per closing. As long as no send of the slot has failed, openings and closings alternate, in the state
  that \<open>IsConnectd\<close> shows, there is at most one accept, none while connected, and at most one receive or closing
  worker, none while not connected.\<close>

theorem slot_life:
  assumes "net_reachable (net_start (snd (StartServer fresh m s0))) n"
    and "mClientInfos s0 = []" and "constructed fresh" and "i < unat m"
  shows "net_accepts n i + opens i (net_notes n) \<le> closes i (net_notes n) + 1 \<and>
     closes i (net_notes n) + engaged i (net_workers n) + net_recvs n i
       \<le> opens i (net_notes n) + failed_sends i (net_notes n) \<and>
     failed_sends i (net_notes n) + net_sends n i
       \<le> (if mSendDataqueue (mClientInfos (net_server n) ! i) = [] then 0 else 1) \<and>
     OnConnects i (net_notes n) + announcing i (net_workers n) \<le> opens i (net_notes n) \<and>
     OnCloses i (net_notes n) + notifying i (net_workers n) = closes i (net_notes n) \<and>
     (failed_sends i (net_notes n) = 0 \<longrightarrow>
       phase i (net_notes n) = Some (IsConnectd (mClientInfos (net_server n) ! i)) \<and>
       (if IsConnectd (mClientInfos (net_server n) ! i)
        then net_accepts n i = 0 \<and> engaged i (net_workers n) + net_recvs n i \<le> 1
        else net_accepts n i \<le> 1 \<and> engaged i (net_workers n) + net_recvs n i = 0))"
proof -
  have "net_inv n" by (rule net_reachable_inv [OF assms(1) net_start_inv [OF assms(2,3)]])
  moreover have "i < length (mClientInfos (net_server n))"
    using net_reachable_length [OF assms(1)] assms(4) StartServer_clients [OF assms(2)] by (simp add: net_start_def)
  ultimately have s: "slot_inv i (mClientInfos (net_server n) ! i) (net_accepts n i) (net_recvs n i) (net_sends n i)
      (net_workers n) (net_notes n)" by (rule net_invD)
  show ?thesis
  proof (cases "IsConnectd (mClientInfos (net_server n) ! i)")
    case True
    with s show ?thesis unfolding slot_inv_def by (auto split: if_splits)
  next
    case False
    with s show ?thesis unfolding slot_inv_def by (auto split: if_splits)
  qed
qed

text \<open>C37: \<open>CloseSocket\<close> tests and closes without a lock. From any state in which a connected client has its receive and a
  send outstanding, with two idle workers, the failure of both can be taken by the two workers so that each
  finds the client connected and each closes it: the game server sees \<open>OnClose\<close> twice, and the second close works on a
  socket that is already gone.\<close>

theorem double_close:
  assumes "p < length (mClientInfos (net_server n))" and "IsConnectd (mClientInfos (net_server n) ! p)"
    and "0 < net_recvs n p" and "0 < net_sends n p" and "length (net_workers n) + 2 \<le> mIOWorkerThreads (net_server n)"
  shows "\<exists>n'. net_reachable n n' \<and> net_workers n' = net_workers n \<and>
     net_notes n' = net_notes n @ [SendFailed p,
       Closed p, Note (Ev_OnClose (GetIndex (mClientInfos (net_server n) ! p))),
       Closed p, Note (Ev_OnClose (GetIndex (mClientInfos (net_server n) ! p)))]"
proof -
  let ?i = "GetIndex (mClientInfos (net_server n) ! p)" and ?T = "Test (Some p) False" and ?S = "Shut p False"
  define n1 where "n1 = n\<lparr>net_recvs := (net_recvs n)(p := net_recvs n p - 1), net_workers := ?T # net_workers n\<rparr>"
  have s1: "net_step n n1" unfolding n1_def by (rule receive_fails) (use assms in simp_all)
  define n2 where "n2 = n1\<lparr>net_sends := (net_sends n1)(p := net_sends n1 p - 1),
      net_workers := ?T # net_workers n1, net_notes := net_notes n1 @ [SendFailed p]\<rparr>"
  have s2: "net_step n1 n2" unfolding n2_def by (rule send_fails) (use assms in \<open>simp_all add: n1_def\<close>)
  define n3 where "n3 = n2\<lparr>net_workers := ?S # ?T # net_workers n\<rparr>"
  have s3: "net_step n2 n3"
    unfolding n3_def using test_step [of n2 "[]" p False "?T # net_workers n"] assms by (simp add: n2_def n1_def)
  define n4 where "n4 = n3\<lparr>net_workers := ?S # ?S # net_workers n\<rparr>"
  have s4: "net_step n3 n4"
    unfolding n4_def using test_step [of n3 "[?S]" p False "net_workers n"] assms by (simp add: n3_def n2_def n1_def)
  have r4: "net_reachable n n4"
    by (rule net_reachable.more [OF net_reachable.more [OF net_reachable.more [OF net_reachable.more
      [OF net_reachable.start s1] s2] s3] s4])
  have p4: "net_workers n4 = [] @ ?S # ?S # net_workers n" "p < length (mClientInfos (net_server n4))"
      "net_server n4 = net_server n" "net_notes n4 = net_notes n @ [SendFailed p]"
    using assms(1) by (simp_all add: n4_def n3_def n2_def n1_def)
  define n5 where "n5 = n4\<lparr>net_server := put_client p (fst (Close wos False (mClientInfos (net_server n) ! p))) (net_server n),
      net_workers := ?S # net_workers n, net_notes := net_notes n @ [SendFailed p, Closed p, Note (Ev_OnClose ?i)]\<rparr>"
  have r5: "net_reachable n4 n5" unfolding n5_def using close_steps [OF p4(1,2), of wos] p4(3,4) by simp
  have p5: "net_workers n5 = [] @ ?S # net_workers n" "p < length (mClientInfos (net_server n5))"
      "GetIndex (mClientInfos (net_server n5) ! p) = ?i"
    using assms(1) by (simp_all add: n5_def Close_def GetIndex_def)
  from net_reachable_trans [OF close_steps [OF p5(1,2), of wos] net_reachable_trans [OF r5 r4]] p5(3)
  show ?thesis by (intro exI conjI) (assumption, simp_all add: n5_def)
qed

text \<open>C38: \<open>AcceptCompletion\<close> posts the first receive before its worker calls \<open>OnConnect\<close>. While a worker is between the two,
  another worker can take the failure of this receive, close the client and call \<open>OnClose\<close> first: the game server
  learns of a connection, as the last event of the slot, that has ended before.\<close>

theorem close_before_connect:
  assumes "net_workers n = ws @ Announce p # ws'" and "p < length (mClientInfos (net_server n))"
    and "IsConnectd (mClientInfos (net_server n) ! p)" and "0 < net_recvs n p"
    and "length (net_workers n) < mIOWorkerThreads (net_server n)"
    and "mClientCnt (net_server n) \<in> {0..<int32_max}"
  shows "\<exists>n'. net_reachable n n' \<and> net_workers n' = ws @ ws' \<and> \<not> IsConnectd (mClientInfos (net_server n') ! p) \<and>
     net_notes n' = net_notes n @ [Closed p, Note (Ev_OnClose (GetIndex (mClientInfos (net_server n) ! p))),
       Note (Ev_OnConnect (GetIndex (mClientInfos (net_server n) ! p)))]"
proof -
  let ?i = "GetIndex (mClientInfos (net_server n) ! p)"
  define n1 where "n1 = n\<lparr>net_recvs := (net_recvs n)(p := net_recvs n p - 1),
      net_workers := Test (Some p) False # net_workers n\<rparr>"
  have s1: "net_step n n1" unfolding n1_def by (rule receive_fails) (use assms in simp_all)
  define n2 where "n2 = n1\<lparr>net_workers := Shut p False # net_workers n\<rparr>"
  have s2: "net_step n1 n2"
    unfolding n2_def using test_step [of n1 "[]" p False "net_workers n"] assms by (simp add: n1_def)
  have p2: "net_workers n2 = [] @ Shut p False # net_workers n" "p < length (mClientInfos (net_server n2))"
    using assms(2) by (simp_all add: n2_def n1_def)
  define n3 where "n3 = n2\<lparr>net_server := put_client p (fst (Close wos False (mClientInfos (net_server n) ! p))) (net_server n),
      net_workers := net_workers n, net_notes := net_notes n @ [Closed p, Note (Ev_OnClose ?i)]\<rparr>"
  have r3: "net_reachable n2 n3" unfolding n3_def using close_steps [OF p2, of wos] by (simp add: n2_def n1_def)
  have p3: "net_workers n3 = ws @ Announce p # ws'" "p < length (mClientInfos (net_server n3))"
      "add_int32 (mClientCnt (net_server n3)) 1 = Inr (mClientCnt (net_server n) + 1)"
      "GetIndex (mClientInfos (net_server n3) ! p) = ?i"
    using assms(1,2,6) by (simp_all add: n3_def add_int32_def int32_bounds Close_def GetIndex_def)
  from net_reachable.more [OF net_reachable_trans [OF r3 net_reachable.more [OF net_reachable.more
      [OF net_reachable.start s1] s2]] announce_step [OF p3(1-3)]] p3(4) assms(2)
  show ?thesis by (intro exI conjI) (assumption, simp_all add: n3_def Close_def IsConnectd_def)
qed

text \<open>A failed send silences its slot for good. Close does not empty the send queue, and the completion of a failed
  send does not remove its front: in every state that is reached afterwards, also with another client on the slot,
  \<open>SendMsg\<close> returns true and posts nothing, and no send is outstanding.\<close>

lemma failed_send_silences:
  assumes "net_reachable (net_start (snd (StartServer fresh m s0))) n"
    and "mClientInfos s0 = []" and "constructed fresh" and "i < unat m" and "SendFailed i \<in> set (net_notes n)"
    and "IOCPServer_SendMsg R (of_nat i) dataSize pData (net_server n) = Inr (ok, s, calls)"
  shows "ok \<and> calls = [] \<and> net_sends n i = 0"
proof -
  have inv: "net_inv n" by (rule net_reachable_inv [OF assms(1) net_start_inv [OF assms(2,3)]])
  have i: "i < length (mClientInfos (net_server n))"
    using net_reachable_length [OF assms(1)] assms(4) StartServer_clients [OF assms(2)] by (simp add: net_start_def)
  have "0 < failed_sends i (net_notes n)"
    using assms(5) unfolding failed_sends_def by (simp add: count_list_0_iff neq0_conv [symmetric] del: neq0_conv)
  with net_invD [OF inv i] have q: "mSendDataqueue (mClientInfos (net_server n) ! i) \<noteq> []" "net_sends n i = 0"
    by (auto simp: slot_inv_def split: if_splits)
  have "unat (of_nat i :: u32) = i" using net_inv_bound [OF inv i] by (rule unat_of_nat_u32)
  with IOCPServer_SendMsg_Inr [OF assms(6)] q show ?thesis
    by (auto simp: SendMsg_def Let_def bind_result_Inr_iff split: if_splits)
qed

text \<open>C26: A closed slot comes back. A round of the accepting thread posts an \<open>AcceptEx\<close> on a new socket for a client
  that was closed more than three seconds before, and leaves it alone until then.\<close>

theorem closed_slot_reopens:
  assumes "mIsAccepterRun s" and "i < length (mClientInfos s)" and "mClientInfos s ! i = fst (Close Rc f c)"
    and "res_WSASocket (R (ci_mIndex c)) \<noteq> INVALID_SOCKET"
  shows "if unat (res_now Rc) + 3 < unat cur
     then Call_AcceptEx (mListenSocket s) (res_WSASocket (R (ci_mIndex c)))
            (zero_overlapped\<lparr>SessionIndex := ci_mIndex c\<rparr>) \<in> set (snd (AccepterThread R cur s))
     else mClientInfos (fst (AccepterThread R cur s)) ! i = mClientInfos s ! i"
proof -
  let ?c = "mClientInfos s ! i"
  have d: "accept_due cur ?c \<longleftrightarrow> unat (res_now Rc) + 3 < unat cur"
    using accept_due_time [of ?c cur] assms(3) by (simp add: Close_def IsConnectd_def)
  have m: "?c \<in> set (mClientInfos s)" using assms(2) by simp
  have g: "GetIndex ?c = ci_mIndex c" using assms(3) by (simp add: GetIndex_def Close_def)
  show ?thesis
  proof (cases "unat (res_now Rc) + 3 < unat cur")
    case True
    then have "Call_AcceptEx (mListenSocket s) (res_WSASocket (R (ci_mIndex c)))
            (zero_overlapped\<lparr>SessionIndex := ci_mIndex c\<rparr>)
        \<in> set (snd (AccepterThread_client (R (GetIndex ?c)) (mListenSocket s) cur ?c))"
      using d g assms(3,4)
      by (simp add: AccepterThread_client_def PostAccept_def Let_def Close_def zero_overlapped_def)
    with True m assms(1) show ?thesis by (auto simp: AccepterThread_def AccepterThread_loop_eq)
  next
    case False
    then show ?thesis
      using d assms(1,2) by (auto simp: AccepterThread_def AccepterThread_loop_eq AccepterThread_client_def)
  qed
qed

text \<open>What a failed accept costs. When \<open>PostAccept\<close> fails, at the socket or at \<open>AcceptEx\<close>, it has already
  marked the slot as waiting, and no later round of the accepting thread finds it due in the next 136 years. When
  a posted accept completes with an error, the key of the completion is that of the listening socket, null, and
  the worker dereferences it in \<open>CloseSocket\<close>.\<close>

lemma failed_accept_lost:
  assumes "PostAccept R l c = (False, c', calls)" and "\<not> IsConnectd c" and "unat cur \<le> 2 ^ 32 + 2"
  shows "\<not> accept_due cur c' \<and> AccepterThread_client R' l cur c' = (c', []) \<and>
     WokerThread R \<lparr>bSuccess = False, dwIoSize = n, completionKey = None, lpOverlapped = Some (ACCEPT, i)\<rparr> s = Inl NullDeref"
proof -
  note p = PostAccept_slot [OF assms(1)]
  then have "\<not> accept_due cur c'"
    using accept_due_time [of c' cur] assms(2,3) by (simp add: UINT32_MAX_def)
  moreover have "WokerThread_rest 3 R (Test None False) s = Inl NullDeref"
    by (simp add: numeral_3_eq_3 WokerThread_continue_def CloseSocket_test_def)
  ultimately show ?thesis
    by (simp add: AccepterThread_client_def WokerThread_def WokerThread_begin_def)
qed

subsection \<open>Witnesses\<close>

text \<open>A server with one slot, on which a client is accepted and a packet is sent.\<close>

definition wserver_net :: iocp_server where
  "wserver_net = snd (StartServer (\<lambda>i. stClientInfo [] zero_overlapped) 1 (IOCPServer_new\<lparr>MaxIOWorkerThreadCount := 4\<rparr>))"

definition wposted :: client_info where
  "wposted = fst (AccepterThread_client wos INVALID_SOCKET 100 (stClientInfo_Init 0 INVALID_HANDLE_VALUE (stClientInfo [] zero_overlapped)))"

definition wopened :: client_info where
  "wopened = fst (snd (AcceptCompletion wos wposted))"

definition wsent :: client_info where
  "wsent = wopened\<lparr>mSendDataqueue := [send_overlapped [1, 2]]\<rparr>"

definition wnet :: "client_info \<Rightarrow> int \<Rightarrow> nat \<Rightarrow> nat \<Rightarrow> nat \<Rightarrow> worker list \<Rightarrow> net_note list \<Rightarrow> net" where
  "wnet c k a r d ws log =
     \<lparr>net_server = wserver_net\<lparr>mClientInfos := [c], mClientCnt := k\<rparr>, net_accepts = (\<lambda>_. 0)(0 := a),
      net_recvs = (\<lambda>_. 0)(0 := r), net_sends = (\<lambda>_. 0)(0 := d), net_workers = ws, net_notes = log\<rparr>"

lemma wserver_net_facts [simp]:
  "mClientInfos wserver_net = [stClientInfo_Init 0 INVALID_HANDLE_VALUE (stClientInfo [] zero_overlapped)]"
  "mListenSocket wserver_net = INVALID_SOCKET" "mIOWorkerThreads wserver_net = 9" "mClientCnt wserver_net = 0"
  "mIsAccepterRun wserver_net"
  by (simp_all add: wserver_net_def StartServer_def CreateWokerThread_def CreateAccepterThread_def CreateClient_def
      IOCPServer_new_def Let_def)

lemma wnet_simps [simp]:
  "net_accepts (wnet c k a r d ws log) 0 = a" "net_recvs (wnet c k a r d ws log) 0 = r"
  "net_sends (wnet c k a r d ws log) 0 = d" "net_workers (wnet c k a r d ws log) = ws"
  "net_notes (wnet c k a r d ws log) = log" "mClientInfos (net_server (wnet c k a r d ws log)) = [c]"
  "mClientCnt (net_server (wnet c k a r d ws log)) = k" "mIOWorkerThreads (net_server (wnet c k a r d ws log)) = 9"
  "mListenSocket (net_server (wnet c k a r d ws log)) = INVALID_SOCKET"
  by (simp_all add: wnet_def)

lemma wserver_order:
  "s\<lparr>mClientCnt := k, mClientInfos := cs\<rparr> = s\<lparr>mClientInfos := cs, mClientCnt := k\<rparr>"
  by simp

lemma wposted_eq: "wposted = (stClientInfo_Init 0 INVALID_HANDLE_VALUE (stClientInfo [] zero_overlapped))
   \<lparr>mLatestClosedTimeSec := UINT32_MAX, mSocket := 7, mAcceptContext := zero_overlapped\<rparr>"
  by (simp add: wposted_def AccepterThread_client_def accept_due_time IsConnectd_def stClientInfo_Init_def
      stClientInfo_def PostAccept_def wos_def INVALID_SOCKET_def zero_overlapped_def Let_def)

lemma wopened_facts: "IsConnectd wopened" "GetIndex wopened = 0" "mSendDataqueue wopened = []"
    "\<exists>k. AcceptCompletion wos wposted = (True, wopened, k) \<and> recvs_posted wos k = 1"
proof -
  have p: "posted (res_WSARecv wos)" by (simp add: wos_def posted_def SOCKET_ERROR_def)
  have b: "res_CreateIoCompletionPort wos \<noteq> INVALID_HANDLE_VALUE" by (simp add: wos_def INVALID_HANDLE_VALUE_def)
  show "IsConnectd wopened" "GetIndex wopened = 0" "mSendDataqueue wopened = []"
    "\<exists>k. AcceptCompletion wos wposted = (True, wopened, k) \<and> recvs_posted wos k = 1"
    using p b by (simp_all add: wopened_def AcceptCompletion_def OnConnect_def BindIOCompletionPort_def BindRecv_def
        Let_def IsConnectd_def GetIndex_def wposted_eq stClientInfo_Init_def stClientInfo_def recvs_posted_def)
qed

lemma wnet_accepted: "net_reachable (net_start wserver_net) (wnet wopened 0 0 1 0 [Announce 0] [Opened 0])"
proof -
  let ?c = "stClientInfo_Init 0 INVALID_HANDLE_VALUE (stClientInfo [] zero_overlapped)"
  have c: "net_start wserver_net = wnet ?c 0 0 0 0 [] []"
    using wserver_net_facts(1,4) by (simp add: net_start_def wnet_def fun_eq_iff)
  have due: "accept_due 100 ?c"
    by (simp add: accept_due_time IsConnectd_def stClientInfo_Init_def stClientInfo_def)
  have ok: "fst (PostAccept wos l ?c)" for l
    by (simp add: PostAccept_def wos_def INVALID_SOCKET_def Let_def)
  have "net_step (wnet ?c 0 0 0 0 [] []) (wnet wposted 0 1 0 0 [] [])"
    using net_step.accepter [of 0 "wnet ?c 0 0 0 0 [] []" 100 ?c wos wposted
        "snd (AccepterThread_client wos INVALID_SOCKET 100 ?c)"] due ok
    by (simp add: UINT32_MAX_def wposted_def) (simp add: wnet_def put_client_def add_at_def wserver_order)
  moreover have "net_step (wnet wposted 0 1 0 0 [] []) (wnet wopened 0 0 1 0 [Announce 0] [Opened 0])"
  proof -
    from wopened_facts(4) obtain k where k: "AcceptCompletion wos wposted = (True, wopened, k)" "recvs_posted wos k = 1"
      by blast
    have "WokerThread_begin wos (accept_completion 0 0) (net_server (wnet wposted 0 1 0 0 [] [])) =
        Inr (Announce 0, net_server (wnet wopened 0 0 1 0 [] []), [], k)"
      by (simp add: k WokerThread_begin_def accept_completion_def GetClientInfo_def vec_get_def)
        (simp add: wnet_def put_client_def)
    from net_step.accepted [OF _ _ _ this] k(2) show ?thesis by simp (simp add: wnet_def add_at_def)
  qed
  ultimately show ?thesis unfolding c by (meson net_reachable.intros)
qed

lemma wnet_opened: "net_reachable (net_start wserver_net) (wnet wopened 1 0 1 0 [] [Opened 0, Note (Ev_OnConnect 0)])"
proof -
  have "net_step (wnet wopened 0 0 1 0 [Announce 0] [Opened 0]) (wnet wopened 1 0 1 0 [] [Opened 0, Note (Ev_OnConnect 0)])"
    using announce_step [of "wnet wopened 0 0 1 0 [Announce 0] [Opened 0]" "[]" 0 "[]" 1] wopened_facts(2)
    by (simp add: add_int32_def int32_bounds) (simp add: wnet_def)
  with wnet_accepted show ?thesis by (rule net_reachable.more)
qed

lemma wnet_sent: "net_reachable (net_start wserver_net) (wnet wsent 1 0 1 1 [] [Opened 0, Note (Ev_OnConnect 0)])"
proof -
  let ?n = "wnet wopened 1 0 1 0 [] [Opened 0, Note (Ev_OnConnect 0)]"
  have "IOCPServer_SendMsg wos 0 2 [1, 2] (net_server ?n) =
      Inr (True, put_client 0 wsent (net_server ?n), [Call_WSASend (mSocket wsent) (send_overlapped [1, 2])])"
    using wopened_facts(3)
    by (simp add: IOCPServer_SendMsg_def GetClientInfo_def vec_get_def SendMsg_def SendIO_def Let_def wsent_def)
  from net_step.sent [OF this] have "net_step ?n (wnet wsent 1 0 1 1 [] [Opened 0, Note (Ev_OnConnect 0)])"
    by (simp add: sends_posted_def wos_def posted_def SOCKET_ERROR_def wnet_def put_client_def add_at_def wserver_order)
  with wnet_opened show ?thesis by (rule net_reachable.more)
qed

lemma wstart: "constructed (\<lambda>i. stClientInfo [] zero_overlapped)" "mClientInfos (IOCPServer_new\<lparr>MaxIOWorkerThreadCount := 4\<rparr>) = []"
  by (simp_all add: constructed_def stClientInfo_def IOCPServer_new_def)

theorem slot_life_witness:
  "\<exists>n. net_reachable (net_start wserver_net) n \<and> IsConnectd (mClientInfos (net_server n) ! 0) \<and> net_sends n 0 = 1 \<and>
     net_recvs n 0 = 1 \<and> phase 0 (net_notes n) = Some True"
proof -
  let ?n = "wnet wsent 1 0 1 1 [] [Opened 0, Note (Ev_OnConnect 0)]"
  have c: "IsConnectd wsent" using wopened_facts(1) by (simp add: wsent_def IsConnectd_def)
  from slot_life [OF wnet_sent [unfolded wserver_net_def] wstart(2,1), of 0] c
  have "phase 0 (net_notes ?n) = Some True" by simp
  with wnet_sent c show ?thesis by (intro exI [of _ ?n]) simp
qed

theorem double_close_witness:
  "\<exists>n'. net_reachable (net_start wserver_net) n' \<and>
     net_notes n' = [Opened 0, Note (Ev_OnConnect 0), SendFailed 0, Closed 0, Note (Ev_OnClose 0), Closed 0, Note (Ev_OnClose 0)]"
proof -
  have c: "IsConnectd wsent" "GetIndex wsent = 0"
    using wopened_facts(1,2) by (simp_all add: wsent_def IsConnectd_def GetIndex_def)
  from double_close [of 0 "wnet wsent 1 0 1 1 [] [Opened 0, Note (Ev_OnConnect 0)]"] c
  obtain n' where "net_reachable (wnet wsent 1 0 1 1 [] [Opened 0, Note (Ev_OnConnect 0)]) n'"
    and "net_notes n' = [Opened 0, Note (Ev_OnConnect 0), SendFailed 0, Closed 0, Note (Ev_OnClose 0), Closed 0, Note (Ev_OnClose 0)]"
    by auto
  with net_reachable_trans [OF _ wnet_sent] show ?thesis by blast
qed

theorem close_before_connect_witness:
  "\<exists>n'. net_reachable (net_start wserver_net) n' \<and>
     net_notes n' = [Opened 0, Closed 0, Note (Ev_OnClose 0), Note (Ev_OnConnect 0)]"
proof -
  from close_before_connect [of "wnet wopened 0 0 1 0 [Announce 0] [Opened 0]" "[]" 0 "[]"] wopened_facts
  obtain n' where "net_reachable (wnet wopened 0 0 1 0 [Announce 0] [Opened 0]) n'"
    and "net_notes n' = [Opened 0, Closed 0, Note (Ev_OnClose 0), Note (Ev_OnConnect 0)]"
    by (auto simp: int32_bounds)
  with net_reachable_trans [OF _ wnet_accepted] show ?thesis by blast
qed

theorem closed_slot_reopens_witness:
  "Call_AcceptEx 5 7 zero_overlapped \<in> set (snd (AccepterThread (\<lambda>_. wos) 104
     (wserver_net\<lparr>mListenSocket := 5, mClientInfos := [fst (Close wos False wopened)]\<rparr>)))"
proof -
  let ?s = "wserver_net\<lparr>mListenSocket := 5, mClientInfos := [fst (Close wos False wopened)]\<rparr>"
  have "zero_overlapped\<lparr>SessionIndex := 0\<rparr> = zero_overlapped" by (simp add: zero_overlapped_def)
  with closed_slot_reopens [of ?s 0 wos False wopened "\<lambda>_. wos" 104] wopened_facts(2) show ?thesis
    by (simp add: Let_def wos_def INVALID_SOCKET_def GetIndex_def)
qed

end
