(* ===== verification/Game_Server.thy ===== *)
theory Game_Server
  imports Server_Loop Net_Steps
begin

text \<open>
  The program as a whole: \<^verbatim>\<open>main.cpp\<close>, \<open>Run\<close> and \<open>End\<close> of \<^verbatim>\<open>GameServer.h\<close>, and the overridden
  \<open>OnConnect\<close>, \<open>OnClose\<close> and \<open>OnReceive\<close>, through which the network layer of \<open>Net_Steps\<close> acts on the
  server of \<open>Server_Loop\<close>.
\<close>

section \<open>The game server\<close>

record game_server =
  gs_slots :: "recv_slot list"
  gs_server :: server

fun receive_all :: "int \<Rightarrow> messageHeader list \<Rightarrow> route_handler packet_manager \<Rightarrow> route_handler packet_manager result" where
  "receive_all i [] pm = Inr pm"
| "receive_all i (h # hs) pm = bind_result (ReceivePacketData i h pm) (receive_all i hs)"

definition GameServer_OnReceive :: "env \<Rightarrow> u32 \<Rightarrow> u32 \<Rightarrow> bytes \<Rightarrow> game_server \<Rightarrow> game_server result" where
  "GameServer_OnReceive E clientIndex sz pData g =
     bind_result (OnReceive (messageHeader_parse (env_lib E)) (gs_slots g) (unat clientIndex) sz pData) (\<lambda>(slots, hs).
     bind_result (receive_all (int (unat clientIndex)) hs (srv_pm (gs_server g))) (\<lambda>pm.
       Inr \<lparr>gs_slots = slots, gs_server = (gs_server g)\<lparr>srv_pm := pm\<rparr>\<rparr>))"

fun handle_note :: "env \<Rightarrow> net_note \<Rightarrow> game_server \<Rightarrow> game_server result" where
  "handle_note E (Note (Ev_OnConnect i)) g =
     Inr (g\<lparr>gs_server := (gs_server g)\<lparr>srv_pm := GameServer_OnConnect i (env_stack E) (srv_pm (gs_server g))\<rparr>\<rparr>)"
| "handle_note E (Note (Ev_OnClose i)) g =
     Inr (g\<lparr>gs_server := (gs_server g)\<lparr>srv_pm := GameServer_OnClose i (env_stack E) (srv_pm (gs_server g))\<rparr>\<rparr>)"
| "handle_note E (Note (Ev_OnReceive i sz pData)) g = GameServer_OnReceive E i sz pData g"
| "handle_note E (Opened i) g = Inr g"
| "handle_note E (Closed i) g = Inr g"
| "handle_note E (SendFailed i) g = Inr g"

fun handle_notes :: "env \<Rightarrow> net_note list \<Rightarrow> game_server \<Rightarrow> game_server result" where
  "handle_notes E [] g = Inr g"
| "handle_notes E (x # xs) g = bind_result (handle_note E x g) (handle_notes E xs)"

definition GameServer_Run ::
    "(nat \<Rightarrow> client_info) \<Rightarrow> u32 \<Rightarrow> game_server \<Rightarrow> iocp_server \<Rightarrow> (game_server \<times> iocp_server) result" where
  "GameServer_Run fresh maxClient g n =
     bind_result (PacketManager_Init (int (unat maxClient)) (gs_server g)) (\<lambda>s.
       Inr (g\<lparr>gs_server := s\<rparr>, snd (StartServer fresh maxClient n)))"

definition GameServer_End :: "iocp_server \<Rightarrow> iocp_server" where
  "GameServer_End n = DestroyThread n"

section \<open>main\<close>

definition MAX_CLIENT :: u32 where "MAX_CLIENT = 3"
definition MAX_IO_WORKER_THREAD :: u32 where "MAX_IO_WORKER_THREAD = 4"

text \<open>
  \<open>main\<close> up to its console loop. The results of \<open>Init\<close> and \<open>BindandListen\<close> are not looked at. \<open>s0\<close> is
  the server's state before \<open>Run\<close>, with the queues empty.
\<close>

definition main_start ::
    "setup_results \<Rightarrow> (nat \<Rightarrow> client_info) \<Rightarrow> (nat \<Rightarrow> bytes) \<Rightarrow> server \<Rightarrow> (game_server \<times> iocp_server) result" where
  "main_start R fresh bufs s0 =
     (let (_, n1) = IOCPServer_Init R MAX_IO_WORKER_THREAD IOCPServer_new;
          (_, n2) = BindandListen R n1
      in GameServer_Run fresh MAX_CLIENT \<lparr>gs_slots = GameServer_init_slots bufs, gs_server = s0\<rparr> n2)"

section \<open>The running program\<close>

text \<open>
  A step is one of the network layer, whose new notes the game server handles, or one of the server's own threads.
\<close>

inductive program_step :: "env \<Rightarrow> net \<times> game_server \<Rightarrow> net \<times> game_server \<Rightarrow> bool" where
  network: "\<lbrakk>net_step n n'; net_notes n' = net_notes n @ new; handle_notes E new g = Inr g'\<rbrakk> \<Longrightarrow>
    program_step E (n, g) (n', g')"
| server: "server_step E (gs_server g) s' \<Longrightarrow> program_step E (n, g) (n, g\<lparr>gs_server := s'\<rparr>)"

inductive_cases program_stepE: "program_step E p p'"

inductive program_reachable :: "env \<Rightarrow> net \<times> game_server \<Rightarrow> net \<times> game_server \<Rightarrow> bool" where
  start: "program_reachable E p p"
| more: "program_reachable E p0 p \<Longrightarrow> program_step E p p' \<Longrightarrow> program_reachable E p0 p'"

text \<open>Every effect of the network on the server is a run of the server's own steps.\<close>

lemma receive_all_reachable:
  assumes "receive_all (int i) hs (srv_pm s) = Inr pm" and "server_reachable E n s0 s"
  shows "server_reachable E n s0 (s\<lparr>srv_pm := pm\<rparr>)"
  using assms
proof (induction hs arbitrary: s)
  case Nil
  then have pm: "pm = srv_pm s" by simp
  show ?case unfolding pm using Nil.prems(2) by simp
next
  case (Cons h hs)
  then obtain pm1 where pm1: "ReceivePacketData (int i) h (srv_pm s) = Inr pm1" "receive_all (int i) hs pm1 = Inr pm"
    by (auto simp: bind_result_Inr_iff)
  from server_reachable.more [OF Cons.prems(2) server_step.received [OF pm1(1)]]
  have "server_reachable E n s0 (s\<lparr>srv_pm := pm1\<rparr>)" .
  from Cons.IH [OF _ this] pm1(2) show ?case by simp
qed

lemma handle_note_reachable:
  assumes "handle_note E x g = Inr g'" and "server_reachable E n s0 (gs_server g)"
  shows "server_reachable E n s0 (gs_server g')"
  using assms
proof (cases rule: handle_note.cases [of "(E, x, g)"])
  case (1 E' i g1)
  then show ?thesis
    using assms server_reachable.more [OF assms(2) server_step.connected [of E _ "unat i" "env_stack E"]] by auto
next
  case (2 E' i g1)
  then show ?thesis
    using assms server_reachable.more [OF assms(2) server_step.closed [of E _ "unat i" "env_stack E"]] by auto
next
  case (3 E' i sz pData g1)
  then obtain slots hs pm where "receive_all (int (unat i)) hs (srv_pm (gs_server g)) = Inr pm"
    and g': "g' = \<lparr>gs_slots = slots, gs_server = (gs_server g)\<lparr>srv_pm := pm\<rparr>\<rparr>"
    using assms(1) by (auto simp: GameServer_OnReceive_def bind_result_Inr_iff)
  with receive_all_reachable [OF this(1) assms(2)] show ?thesis by simp
qed (use assms in auto)

lemma handle_notes_reachable:
  "handle_notes E xs g = Inr g' \<Longrightarrow> server_reachable E n s0 (gs_server g) \<Longrightarrow> server_reachable E n s0 (gs_server g')"
  by (induction xs arbitrary: g) (auto simp: bind_result_Inr_iff dest: handle_note_reachable)

lemma program_reachable_parts:
  assumes "program_reachable E p0 p" and "server_reachable E m s0 (gs_server (snd p0))"
  shows "net_reachable (fst p0) (fst p) \<and> server_reachable E m s0 (gs_server (snd p))"
  using assms
proof (induction rule: program_reachable.induct)
  case (start E p)
  then show ?case by (simp add: net_reachable.start)
next
  case (more E p0 p p')
  then have r: "net_reachable (fst p0) (fst p)" "server_reachable E m s0 (gs_server (snd p))" by simp_all
  from more.hyps(2) r show ?case
    by cases (auto intro: net_reachable.more server_reachable.more handle_notes_reachable)
qed

lemma main_start_eq:
  "main_start R fresh bufs s0 =
     bind_result (PacketManager_Init 3 s0) (\<lambda>s.
       Inr (\<lparr>gs_slots = GameServer_init_slots bufs, gs_server = s\<rparr>,
         snd (StartServer fresh 3 (snd (BindandListen R (snd (IOCPServer_Init R 4 IOCPServer_new)))))))"
  by (simp add: main_start_def GameServer_Run_def MAX_CLIENT_def MAX_IO_WORKER_THREAD_def case_prod_unfold Let_def)

lemma setup_frame [simp]:
  "mClientInfos (snd (BindandListen R s)) = mClientInfos s" "mIOWorkerThreads (snd (BindandListen R s)) = mIOWorkerThreads s"
  "MaxIOWorkerThreadCount (snd (BindandListen R s)) = MaxIOWorkerThreadCount s"
  "mClientInfos (snd (IOCPServer_Init R k s)) = mClientInfos s" "mIOWorkerThreads (snd (IOCPServer_Init R k s)) = mIOWorkerThreads s"
  by (simp_all add: BindandListen_def IOCPServer_Init_def Let_def)

section \<open>Properties\<close>

text \<open>C1: In every state that the program reaches from \<open>main\<close>, through any interleaving of the steps of its workers,
  accepting thread, packet thread, write-back thread and shop thread, with no lock but those of the code: the callback
  table is the registered one, the pool of users is well formed with three users, every waiting packet has its entry in the
  common queue, and for each of the three client slots: accepts that are posted and openings exceed the closings by at
  most one, closings (with the workers that may still close and the receives that are posted) exceed the openings by at most
  the one failed send that a slot can have, and without a failed send openings and closings alternate in the state that
  \<open>IsConnectd\<close> shows.\<close>

theorem program_invariant:
  assumes "main_start R fresh bufs s0 = Inr (g0, n0)" and "mInComingPacketUserIndex (srv_pm s0) = []"
    and "constructed fresh" and "program_reachable E (net_start n0, g0) (n, g)"
  shows "mRecvFuntionDictionary (srv_pm (gs_server g)) = routes \<and> um_ok (srv_um (gs_server g)) \<and>
     mMaxUserCnt (srv_um (gs_server g)) = 3 \<and>
     balanced (mInComingPacketUserIndex (srv_pm (gs_server g))) (user_queues (srv_um (gs_server g))) \<and>
     length (mClientInfos (net_server n)) = 3 \<and>
     list_all (\<lambda>(i, c).
       net_accepts n i + opens i (net_notes n) \<le> closes i (net_notes n) + 1 \<and>
       closes i (net_notes n) + engaged i (net_workers n) + net_recvs n i
         \<le> opens i (net_notes n) + failed_sends i (net_notes n) \<and> failed_sends i (net_notes n) \<le> 1 \<and>
       (failed_sends i (net_notes n) = 0 \<longrightarrow> phase i (net_notes n) = Some (IsConnectd c)))
       (zip [0, 1, 2] (mClientInfos (net_server n)))"
proof -
  let ?n0 = "snd (BindandListen R (snd (IOCPServer_Init R 4 IOCPServer_new)))"
  from assms(1) have s: "PacketManager_Init 3 s0 = Inr (gs_server g0)"
    and n0: "n0 = snd (StartServer fresh 3 ?n0)"
    unfolding main_start_eq by (auto simp: bind_result_Inr_iff simp del: setup_frame)
  have e: "mClientInfos ?n0 = []" by (simp add: IOCPServer_new_def)
  from program_reachable_parts [OF assms(4), of 3 s0] server_reachable.start [OF s]
  have r: "net_reachable (net_start n0) n" "server_reachable E 3 s0 (gs_server g)" by simp_all
  have inv2: "server_inv 3 (gs_server g)"
    by (rule server_reachable_inv [OF r(2) assms(2)]) (simp add: int32_max_def)
  have inv: "net_inv n"
    by (rule net_reachable_inv [OF r(1)]) (unfold n0, rule net_start_inv [OF e assms(3)])
  have len: "length (mClientInfos (net_server n)) = 3"
    using net_reachable_length [OF r(1)] StartServer_clients [OF e, of fresh 3] n0 by (simp add: net_start_def)
  then obtain c0 c1 c2 where c: "mClientInfos (net_server n) = [c0, c1, c2]"
    by (auto simp: length_Suc_conv numeral_3_eq_3)
  have slot: "net_accepts n i + opens i (net_notes n) \<le> closes i (net_notes n) + 1 \<and>
       closes i (net_notes n) + engaged i (net_workers n) + net_recvs n i
         \<le> opens i (net_notes n) + failed_sends i (net_notes n) \<and> failed_sends i (net_notes n) \<le> 1 \<and>
       (failed_sends i (net_notes n) = 0 \<longrightarrow> phase i (net_notes n) = Some (IsConnectd c))"
    if "i < 3" "c = mClientInfos (net_server n) ! i" for i c
    using net_invD [OF inv, of i] that len by (simp add: slot_inv_def split: if_splits)
  show ?thesis
    using inv2 slot [of 0 c0] slot [of 1 c1] slot [of 2 c2] len by (simp add: server_inv_def pm_ok_def c)
qed

text \<open>\<open>main\<close> starts three client slots, ten receive buffers and the accepting thread whether or not the listening
  socket exists: a failure of \<open>Init\<close> or \<open>BindandListen\<close> stops nothing. After a failed \<open>Init\<close> there is one
  worker thread instead of nine, and after a failed \<open>BindandListen\<close> every slot holds the port handle that
  it left behind, which is null or invalid.\<close>

lemma main_ignores_failures:
  "\<exists>g n. main_start R fresh bufs s0 = Inr (g, n) \<and> length (gs_slots g) = 10 \<and> mAccepterThread n \<and>
     map ci_mIndex (mClientInfos n) = [0, 1, 2] \<and> (\<forall>c \<in> set (mClientInfos n). ci_mIOCPHandle c = mIOCPHandle n) \<and>
     mIOWorkerThreads n = (if fst (IOCPServer_Init R MAX_IO_WORKER_THREAD IOCPServer_new) then 9 else 1) \<and>
     mIOCPHandle n = mIOCPHandle (snd (BindandListen R (snd (IOCPServer_Init R MAX_IO_WORKER_THREAD IOCPServer_new))))"
proof -
  define n0 where "n0 = snd (BindandListen R (snd (IOCPServer_Init R 4 IOCPServer_new)))"
  have e: "mClientInfos n0 = []" by (simp add: n0_def IOCPServer_new_def)
  obtain s where s: "PacketManager_Init 3 s0 = Inr s"
    by (simp add: PacketManager_Init_def CreateCompent_def UserManager_Init_def)
  have t: "[0..<unat (3 :: u32)] = [0, 1, 2]" by (simp add: upt_rec)
  have c: "mClientInfos (snd (StartServer fresh 3 n0)) =
      map (\<lambda>i. stClientInfo_Init (of_nat i) (mIOCPHandle n0) (fresh i)) [0, 1, 2]"
    unfolding StartServer_clients [OF e] t ..
  have p: "mIOCPHandle (snd (StartServer fresh 3 n0)) = mIOCPHandle n0"
    "mIOWorkerThreads (snd (StartServer fresh 3 n0)) = mIOWorkerThreads n0 + unat (MaxIOWorkerThreadCount n0 * 2 + 1)"
    "mAccepterThread (snd (StartServer fresh 3 n0))"
    by (simp_all add: StartServer_def CreateWokerThread_def CreateAccepterThread_def CreateClient_def Let_def)
  have w: "MaxIOWorkerThreadCount n0 = (if fst (IOCPServer_Init R 4 IOCPServer_new) then 4 else 0)"
    "mIOWorkerThreads n0 = 0"
    by (simp_all add: n0_def IOCPServer_Init_def IOCPServer_new_def Let_def)
  have m: "main_start R fresh bufs s0 =
      Inr (\<lparr>gs_slots = GameServer_init_slots bufs, gs_server = s\<rparr>, snd (StartServer fresh 3 n0))"
    unfolding main_start_eq s n0_def by simp
  show ?thesis
    unfolding m MAX_IO_WORKER_THREAD_def
    using p w c n0_def by (simp add: GameServer_init_slots_def stClientInfo_Init_def)
qed

text \<open>C40: The receive buffer outlives the connection. Closing a client and accepting another on its slot leaves the bytes
  that were kept of the old client's last packet, so that the new client's first chunk is read as their continuation: the
  packets that come out are those of the old bytes followed by the new ones.\<close>

theorem stale_bytes_prefix_new_client:
  assumes "unat i < length (gs_slots g)" and "slot_ok (gs_slots g ! unat i)"
    and "length pData = MAX_SOCK_RECVBUF" and "unat sz \<le> MAX_SOCK_RECVBUF"
    and "stream_fits (leftover (gs_slots g ! unat i) @ take (unat sz) pData)"
    and "\<not> incomplete (leftover (gs_slots g ! unat i) @ take (unat sz) pData)"
  shows "\<exists>slot'. leftover slot' = snd (split_frames (leftover (gs_slots g ! unat i) @ take (unat sz) pData)) \<and>
     handle_notes E [Note (Ev_OnClose i), Note (Ev_OnConnect i), Note (Ev_OnReceive i sz pData)] g =
     bind_result (handle_notes E [Note (Ev_OnClose i), Note (Ev_OnConnect i)] g) (\<lambda>g1.
     bind_result (receive_all (int (unat i)) (List.map_filter (messageHeader_parse (env_lib E))
         (fst (split_frames (leftover (gs_slots g ! unat i) @ take (unat sz) pData)))) (srv_pm (gs_server g1))) (\<lambda>pm.
       Inr \<lparr>gs_slots = (gs_slots g)[unat i := slot'], gs_server = (gs_server g1)\<lparr>srv_pm := pm\<rparr>\<rparr>))"
proof -
  let ?parse = "messageHeader_parse (env_lib E)"
  obtain slot' where slot: "OnReceive_slot ?parse sz pData (gs_slots g ! unat i) =
      Inr (slot', List.map_filter ?parse (fst (split_frames (leftover (gs_slots g ! unat i) @ take (unat sz) pData))))"
    and l: "leftover slot' = snd (split_frames (leftover (gs_slots g ! unat i) @ take (unat sz) pData))"
    using OnReceive_slot_correct [OF assms(2-4) refl assms(5), of ?parse] assms(6) by blast
  have "OnReceive ?parse (gs_slots g) (unat i) sz pData = Inr ((gs_slots g)[unat i := slot'],
      List.map_filter ?parse (fst (split_frames (leftover (gs_slots g ! unat i) @ take (unat sz) pData))))"
    by (simp only: OnReceive_def vec_get_of_nat [OF assms(1)] bind_result.simps slot prod.case)
  moreover have "handle_notes E [] = Inr" by (rule ext) simp
  ultimately show ?thesis
    using l by (intro exI [of _ slot'] conjI) (simp_all add: GameServer_OnReceive_def)
qed

subsection \<open>Witnesses\<close>

definition wsetup :: setup_results where
  "wsetup = \<lparr>res_WSAStartup = 0, res_ListenSocket = 5, res_bind = 0, res_listen = 0, res_NewPort = 1, res_ListenPort = 1\<rparr>"

theorem program_invariant_witness:
  "\<exists>g n0 n. main_start wsetup (\<lambda>_. stClientInfo [] zero_overlapped) (\<lambda>_. []) (wserver {}) = Inr (g, n0) \<and>
     program_reachable wenv (net_start n0, g) (n, g) \<and> net_accepts n 0 = 1 \<and>
     mRecvFuntionDictionary (srv_pm (gs_server g)) = routes \<and> phase 0 (net_notes n) = Some False"
proof -
  obtain s where "PacketManager_Init 3 (wserver {}) = Inr s"
    by (simp add: PacketManager_Init_def CreateCompent_def UserManager_Init_def)
  then obtain g n0 where m: "main_start wsetup (\<lambda>_. stClientInfo [] zero_overlapped) (\<lambda>_. []) (wserver {}) = Inr (g, n0)"
    and n0: "n0 = snd (StartServer (\<lambda>_. stClientInfo [] zero_overlapped) 3
      (snd (BindandListen wsetup (snd (IOCPServer_Init wsetup 4 IOCPServer_new)))))"
    by (simp add: main_start_eq)
  let ?c = "stClientInfo_Init 0 (mIOCPHandle (snd (BindandListen wsetup (snd (IOCPServer_Init wsetup 4 IOCPServer_new)))))
      (stClientInfo [] zero_overlapped)"
  have e: "mClientInfos (snd (BindandListen wsetup (snd (IOCPServer_Init wsetup 4 IOCPServer_new)))) = []"
    by (simp add: IOCPServer_new_def)
  have c: "0 < length (mClientInfos n0)" "mClientInfos n0 ! 0 = ?c"
    unfolding n0 StartServer_clients [OF e] by simp_all
  have due: "accept_due 100 ?c"
    by (simp add: accept_due_time IsConnectd_def stClientInfo_Init_def stClientInfo_def)
  have ok: "fst (PostAccept wos l ?c)" for l
    by (simp add: PostAccept_def wos_def INVALID_SOCKET_def Let_def)
  obtain c' calls where p: "AccepterThread_client wos (mListenSocket n0) 100 ?c = (c', calls)"
    by (cases "AccepterThread_client wos (mListenSocket n0) 100 ?c") auto
  define n where "n = (net_start n0)\<lparr>net_server := put_client 0 c' n0, net_accepts := add_at 0 1 (\<lambda>_. 0)\<rparr>"
  have "net_step (net_start n0) n"
    using net_step.accepter [of 0 "net_start n0" 100 ?c wos c' calls] c p due ok
    by (simp add: n_def net_start_def UINT32_MAX_def)
  then have "program_step wenv (net_start n0, g) (n, g)"
    by (rule program_step.network [where new = "[]"]) (simp_all add: n_def net_start_def)
  then have r: "program_reachable wenv (net_start n0, g) (n, g)"
    by (rule program_reachable.more [OF program_reachable.start])
  have "constructed (\<lambda>_. stClientInfo [] zero_overlapped)" by (simp add: constructed_def stClientInfo_def)
  from program_invariant [OF m _ this r] have i: "mRecvFuntionDictionary (srv_pm (gs_server g)) = routes"
    "length (mClientInfos (net_server n)) = 3"
    "list_all (\<lambda>(i, c). failed_sends i (net_notes n) = 0 \<longrightarrow> phase i (net_notes n) = Some (IsConnectd c))
       (zip [0, 1, 2] (mClientInfos (net_server n)))"
    by (simp_all add: wserver_def list_all_iff split_beta)
  have "phase 0 (net_notes n) = Some False" by (simp add: n_def net_start_def)
  with m r i show ?thesis by (intro exI [of _ g] exI [of _ n0] exI [of _ n]) (simp add: n_def)
qed

definition wgame :: game_server where
  "wgame = \<lparr>gs_slots = [\<lparr>recvBuf = [0, 0, 0, 3, 9] @ replicate 4091 0, lastSize = 5\<rparr>], gs_server = wserver {}\<rparr>"

theorem stale_bytes_prefix_new_client_witness:
  "\<exists>slot'. leftover slot' = [0, 0] \<and>
     handle_notes wenv [Note (Ev_OnClose 0), Note (Ev_OnConnect 0), Note (Ev_OnReceive 0 4 ([8, 7, 0, 0] @ replicate 4092 0))] wgame =
     bind_result (handle_notes wenv [Note (Ev_OnClose 0), Note (Ev_OnConnect 0)] wgame) (\<lambda>g1.
     bind_result (receive_all 0 (List.map_filter (messageHeader_parse (env_lib wenv)) [[9, 8, 7]]) (srv_pm (gs_server g1))) (\<lambda>pm.
       Inr \<lparr>gs_slots = [slot'], gs_server = (gs_server g1)\<lparr>srv_pm := pm\<rparr>\<rparr>))"
proof -
  have l: "leftover (gs_slots wgame ! unat (0 :: u32)) = [0, 0, 0, 3, 9]" "slot_ok (gs_slots wgame ! unat (0 :: u32))"
    by (simp_all add: wgame_def leftover_def slot_ok_def incomplete_def frame_len_def frame_fits_def
        ByteArrToInt32_def MAX_SOCK_RECVBUF_def)
  let ?S = "[0, 0, 0, 3, 9, 8, 7, 0, 0] :: bytes"
  have sp: "split_frames ?S = ([[9, 8, 7]], [0, 0])"
    by (simp add: split_frames.simps incomplete_def frame_len_def ByteArrToInt32_def)
  have fits: "stream_fits ?S"
    by (simp add: stream_fits.simps incomplete_def frame_fits_def frame_len_def ByteArrToInt32_def MAX_SOCK_RECVBUF_def)
  have nc: "\<not> incomplete ?S" by (simp add: incomplete_def frame_len_def ByteArrToInt32_def)
  have s: "leftover (gs_slots wgame ! unat (0 :: u32)) @ take (unat (4 :: u32)) ([8, 7, 0, 0] @ replicate 4092 0) = ?S"
    unfolding l(1) by simp
  show ?thesis
    using stale_bytes_prefix_new_client [of 0 wgame "[8, 7, 0, 0] @ replicate 4092 0" 4 wenv, unfolded s] l(2) sp fits nc
    by (simp add: wgame_def MAX_SOCK_RECVBUF_def)
qed

end
