(* ===== verification/Repeated_Field.thy ===== *)
theory Repeated_Field
  imports CK_Prelude
begin

text \<open>
  \<open>RepeatedField\<close> of \<^verbatim>\<open>google/protobuf/repeated_field.h\<close>, the array behind a repeated scalar field: a
  current size, a capacity, and an allocation of that many elements of which only the first
  ones are in use. \<open>fresh\<close> gives the content of a new allocation. The assertions
  \<open>GOOGLE_DCHECK\<close> are off in a release build; a use outside the allocation is a fault. The refinement at the
  end is to lists.
\<close>

section \<open>Growth\<close>

text \<open>\<open>sz\<close> is \<open>sizeof(Element)\<close>; the header holds a pointer of eight bytes, padded to an element.\<close>

definition kRepHeaderSize :: "int \<Rightarrow> int" where
  "kRepHeaderSize sz = (if 8 < sz then sz else 8)"

definition RepeatedFieldLowerClampLimit :: "int \<Rightarrow> int" where
  "RepeatedFieldLowerClampLimit sz = kRepHeaderSize sz div sz"

definition CalculateReserveSize :: "int \<Rightarrow> int \<Rightarrow> int \<Rightarrow> int" where
  "CalculateReserveSize sz total_size new_size =
     (let lower_limit = RepeatedFieldLowerClampLimit sz in
      if new_size < lower_limit then lower_limit
      else if (int32_max - kRepHeaderSize sz) div 2 < total_size then int32_max
      else max (2 * total_size + kRepHeaderSize sz div sz) new_size)"

section \<open>State\<close>

record 'a repeated_field =
  current_size :: int
  total_size :: int
  rf_arena :: "nat option"
  rf_elements :: "'a list"

definition RepeatedField_new :: "nat option \<Rightarrow> 'a repeated_field" where
  "RepeatedField_new arena = \<lparr>current_size = 0, total_size = 0, rf_arena = arena, rf_elements = []\<rparr>"

definition rf_empty :: "'a repeated_field \<Rightarrow> bool" where "rf_empty f \<longleftrightarrow> current_size f = 0"
definition rf_size :: "'a repeated_field \<Rightarrow> int" where "rf_size f = current_size f"
definition Capacity :: "'a repeated_field \<Rightarrow> int" where "Capacity f = total_size f"
definition rf_data :: "'a repeated_field \<Rightarrow> 'a list" where "rf_data f = rf_elements f"

definition SpaceUsedExcludingSelfLong :: "int \<Rightarrow> 'a repeated_field \<Rightarrow> int" where
  "SpaceUsedExcludingSelfLong sz f = (if 0 < total_size f then total_size f * sz + kRepHeaderSize sz else 0)"

section \<open>Operations\<close>

text \<open>\<open>MoveArray\<close> and \<open>CopyArray\<close> copy the first elements of one array to a place in another.\<close>

definition CopyArray :: "'a list \<Rightarrow> int \<Rightarrow> 'a list \<Rightarrow> int \<Rightarrow> 'a list result" where
  "CopyArray to at from array_size =
     (if at < 0 \<or> array_size < 0 then Inl OutOfBounds else copy_into to (nat at) from 0 (nat array_size))"

definition rf_Reserve :: "int \<Rightarrow> (nat \<Rightarrow> 'a list) \<Rightarrow> int \<Rightarrow> 'a repeated_field \<Rightarrow> 'a repeated_field result" where
  "rf_Reserve sz fresh new_size f =
     (if new_size \<le> total_size f then Inr f
      else
        let n = CalculateReserveSize sz (total_size f) new_size; new_elements = take (nat n) (fresh (nat n)) in
        bind_result (if 0 < current_size f then CopyArray new_elements 0 (rf_elements f) (current_size f)
                     else Inr new_elements) (\<lambda>moved.
          Inr (f\<lparr>total_size := n, rf_elements := moved\<rparr>)))"

definition AddAlreadyReserved :: "'a \<Rightarrow> 'a repeated_field \<Rightarrow> 'a repeated_field result" where
  "AddAlreadyReserved value f =
     bind_result (vec_set (rf_elements f) (current_size f) value) (\<lambda>es.
     bind_result (add_int32 (current_size f) 1) (\<lambda>n. Inr (f\<lparr>current_size := n, rf_elements := es\<rparr>)))"

definition AddNAlreadyReserved :: "int \<Rightarrow> 'a repeated_field \<Rightarrow> 'a repeated_field result" where
  "AddNAlreadyReserved elements f =
     bind_result (add_int32 (current_size f) elements) (\<lambda>n. Inr (f\<lparr>current_size := n\<rparr>))"

definition rf_Get :: "int \<Rightarrow> 'a repeated_field \<Rightarrow> 'a result" where
  "rf_Get index f = vec_get (rf_elements f) index"

definition rf_at :: "int \<Rightarrow> 'a repeated_field \<Rightarrow> 'a result" where
  "rf_at index f =
     (if index < 0 then Inl CheckFailed
      else if current_size f \<le> index then Inl CheckFailed
      else vec_get (rf_elements f) index)"

definition rf_Set :: "int \<Rightarrow> 'a \<Rightarrow> 'a repeated_field \<Rightarrow> 'a repeated_field result" where
  "rf_Set index value f =
     bind_result (vec_set (rf_elements f) index value) (\<lambda>es. Inr (f\<lparr>rf_elements := es\<rparr>))"

text \<open>\<open>std::fill\<close> from index \<open>i\<close> to index \<open>j\<close>, and the constructors' \<open>std::copy\<close>.\<close>

definition fill_elements :: "int \<Rightarrow> int \<Rightarrow> 'a \<Rightarrow> 'a list \<Rightarrow> 'a list result" where
  "fill_elements i j value es = CopyArray es i (replicate (nat (j - i)) value) (j - i)"

definition rf_Resize :: "int \<Rightarrow> (nat \<Rightarrow> 'a list) \<Rightarrow> int \<Rightarrow> 'a \<Rightarrow> 'a repeated_field \<Rightarrow> 'a repeated_field result" where
  "rf_Resize sz fresh new_size value f =
     (if current_size f < new_size then
        bind_result (rf_Reserve sz fresh new_size f) (\<lambda>f1.
        bind_result (fill_elements (current_size f1) new_size value (rf_elements f1)) (\<lambda>es.
          Inr (f1\<lparr>rf_elements := es, current_size := new_size\<rparr>)))
      else Inr (f\<lparr>current_size := new_size\<rparr>))"

definition rf_Add :: "int \<Rightarrow> (nat \<Rightarrow> 'a list) \<Rightarrow> 'a \<Rightarrow> 'a repeated_field \<Rightarrow> 'a repeated_field result" where
  "rf_Add sz fresh value f =
     (let size = current_size f in
      if size = total_size f then
        bind_result (add_int32 (total_size f) 1) (\<lambda>n.
        bind_result (rf_Reserve sz fresh n f) (\<lambda>f1.
        bind_result (vec_set (rf_elements f1) size value) (\<lambda>es.
          Inr (f1\<lparr>rf_elements := es, current_size := size + 1\<rparr>))))
      else
        bind_result (vec_set (rf_elements f) size value) (\<lambda>es.
          Inr (f\<lparr>rf_elements := es, current_size := size + 1\<rparr>)))"

text \<open>\<open>Add()\<close> returns a pointer to the new element: its index.\<close>

definition rf_Add_uninitialized :: "int \<Rightarrow> (nat \<Rightarrow> 'a list) \<Rightarrow> 'a repeated_field \<Rightarrow> (int \<times> 'a repeated_field) result" where
  "rf_Add_uninitialized sz fresh f =
     (let size = current_size f in
      bind_result
        (if size = total_size f then bind_result (add_int32 (total_size f) 1) (\<lambda>n. rf_Reserve sz fresh n f) else Inr f) (\<lambda>f1.
        Inr (size, f1\<lparr>current_size := size + 1\<rparr>)))"

text \<open>The adder keeps size, capacity and buffer in locals and writes the size back at its end.\<close>

fun FastAdder_loop :: "int \<Rightarrow> (nat \<Rightarrow> 'a list) \<Rightarrow> 'a list \<Rightarrow> int \<Rightarrow> 'a repeated_field \<Rightarrow> 'a repeated_field result" where
  "FastAdder_loop sz fresh [] index f = Inr (f\<lparr>current_size := index\<rparr>)"
| "FastAdder_loop sz fresh (val # vals) index f =
     bind_result
       (if index = total_size f then
          bind_result (add_int32 index 1) (\<lambda>n. rf_Reserve sz fresh n (f\<lparr>current_size := index\<rparr>))
        else Inr f) (\<lambda>f1.
     bind_result (vec_set (rf_elements f1) index val) (\<lambda>es.
     bind_result (add_int32 index 1) (\<lambda>n.
       FastAdder_loop sz fresh vals n (f1\<lparr>rf_elements := es\<rparr>))))"

text \<open>\<open>Add(begin, end)\<close>: a forward iterator knows its distance, an input iterator gives -1.\<close>

definition CalculateReserve :: "bool \<Rightarrow> 'a list \<Rightarrow> int" where
  "CalculateReserve forward xs = (if forward then int (length xs) else -1)"

definition rf_Add_range :: "int \<Rightarrow> (nat \<Rightarrow> 'a list) \<Rightarrow> bool \<Rightarrow> 'a list \<Rightarrow> 'a repeated_field \<Rightarrow> 'a repeated_field result" where
  "rf_Add_range sz fresh forward xs f =
     (let reserve = CalculateReserve forward xs in
      if reserve \<noteq> -1 then
        (if reserve = 0 then Inr f
         else
           bind_result (add_int32 reserve (current_size f)) (\<lambda>n.
           bind_result (rf_Reserve sz fresh n f) (\<lambda>f1.
           bind_result (CopyArray (rf_elements f1) (current_size f1) xs reserve) (\<lambda>es.
             Inr (f1\<lparr>rf_elements := es, current_size := reserve + current_size f1\<rparr>)))))
      else FastAdder_loop sz fresh xs (current_size f) f)"

definition rf_RemoveLast :: "'a repeated_field \<Rightarrow> 'a repeated_field" where
  "rf_RemoveLast f = f\<lparr>current_size := current_size f - 1\<rparr>"

definition rf_Truncate :: "int \<Rightarrow> 'a repeated_field \<Rightarrow> 'a repeated_field" where
  "rf_Truncate new_size f = (if 0 < current_size f then f\<lparr>current_size := new_size\<rparr> else f)"

definition rf_Clear :: "'a repeated_field \<Rightarrow> 'a repeated_field" where
  "rf_Clear f = f\<lparr>current_size := 0\<rparr>"

text \<open>\<open>ExtractSubrange\<close>: the values are copied out, then the elements behind them slide down.\<close>

fun extract_loop :: "nat \<Rightarrow> int \<Rightarrow> 'a repeated_field \<Rightarrow> 'a list result" where
  "extract_loop 0 i f = Inr []"
| "extract_loop (Suc num) i f =
     bind_result (rf_Get i f) (\<lambda>x. bind_result (extract_loop num (i + 1) f) (\<lambda>xs. Inr (x # xs)))"

fun slide_loop :: "nat \<Rightarrow> int \<Rightarrow> int \<Rightarrow> 'a repeated_field \<Rightarrow> 'a repeated_field result" where
  "slide_loop 0 i num f = Inr f"
| "slide_loop (Suc k) i num f =
     bind_result (rf_Get i f) (\<lambda>x. bind_result (rf_Set (i - num) x f) (slide_loop k (i + 1) num))"

definition rf_ExtractSubrange :: "int \<Rightarrow> int \<Rightarrow> bool \<Rightarrow> 'a repeated_field \<Rightarrow> ('a list \<times> 'a repeated_field) result" where
  "rf_ExtractSubrange start num wanted f =
     bind_result (if wanted then extract_loop (nat num) start f else Inr []) (\<lambda>out.
       if 0 < num then
         bind_result (slide_loop (nat (current_size f - (start + num))) (start + num) num f) (\<lambda>f1.
           Inr (out, rf_Truncate (current_size f1 - num) f1))
       else Inr (out, f))"

definition rf_MergeFrom :: "int \<Rightarrow> (nat \<Rightarrow> 'a list) \<Rightarrow> 'a repeated_field \<Rightarrow> 'a repeated_field \<Rightarrow> 'a repeated_field result" where
  "rf_MergeFrom sz fresh other f =
     (if current_size other \<noteq> 0 then
        let existing_size = rf_size f in
        bind_result (add_int32 existing_size (rf_size other)) (\<lambda>n.
        bind_result (rf_Reserve sz fresh n f) (\<lambda>f1.
        bind_result (AddNAlreadyReserved (rf_size other) f1) (\<lambda>f2.
        bind_result (CopyArray (rf_elements f2) existing_size (rf_elements other) (rf_size other)) (\<lambda>es.
          Inr (f2\<lparr>rf_elements := es\<rparr>)))))
      else Inr f)"

definition rf_CopyFrom :: "int \<Rightarrow> (nat \<Rightarrow> 'a list) \<Rightarrow> 'a repeated_field \<Rightarrow> 'a repeated_field \<Rightarrow> 'a repeated_field result" where
  "rf_CopyFrom sz fresh other f = rf_MergeFrom sz fresh other (rf_Clear f)"

definition rf_Assign :: "int \<Rightarrow> (nat \<Rightarrow> 'a list) \<Rightarrow> bool \<Rightarrow> 'a list \<Rightarrow> 'a repeated_field \<Rightarrow> 'a repeated_field result" where
  "rf_Assign sz fresh forward xs f = rf_Add_range sz fresh forward xs (rf_Clear f)"

definition RepeatedField_copy :: "int \<Rightarrow> (nat \<Rightarrow> 'a list) \<Rightarrow> 'a repeated_field \<Rightarrow> 'a repeated_field result" where
  "RepeatedField_copy sz fresh other =
     (if current_size other \<noteq> 0 then
        bind_result (rf_Reserve sz fresh (rf_size other) (RepeatedField_new None)) (\<lambda>f1.
        bind_result (AddNAlreadyReserved (rf_size other) f1) (\<lambda>f2.
        bind_result (CopyArray (rf_elements f2) 0 (rf_elements other) (rf_size other)) (\<lambda>es.
          Inr (f2\<lparr>rf_elements := es\<rparr>))))
      else Inr (RepeatedField_new None))"

definition RepeatedField_range :: "int \<Rightarrow> (nat \<Rightarrow> 'a list) \<Rightarrow> bool \<Rightarrow> 'a list \<Rightarrow> 'a repeated_field result" where
  "RepeatedField_range sz fresh forward xs = rf_Add_range sz fresh forward xs (RepeatedField_new None)"

text \<open>\<open>erase\<close>: iterators are indices; \<open>std::copy\<close> moves the tail down and returns its new end.\<close>

definition rf_begin :: "'a repeated_field \<Rightarrow> int" where "rf_begin f = 0"
definition rf_end :: "'a repeated_field \<Rightarrow> int" where "rf_end f = current_size f"

definition rf_erase_range :: "int \<Rightarrow> int \<Rightarrow> 'a repeated_field \<Rightarrow> (int \<times> 'a repeated_field) result" where
  "rf_erase_range p q f =
     (let first_offset = p - rf_begin f; dest = rf_begin f + first_offset in
      if p \<noteq> q then
        bind_result (CopyArray (rf_elements f) dest (drop (nat q) (rf_elements f)) (rf_end f - q)) (\<lambda>es.
          Inr (dest, rf_Truncate (dest + (rf_end f - q) - rf_begin f) (f\<lparr>rf_elements := es\<rparr>)))
      else Inr (dest, f))"

definition rf_erase :: "int \<Rightarrow> 'a repeated_field \<Rightarrow> (int \<times> 'a repeated_field) result" where
  "rf_erase position f = rf_erase_range position (position + 1) f"

definition rf_InternalSwap :: "'a repeated_field \<Rightarrow> 'a repeated_field \<Rightarrow> 'a repeated_field \<times> 'a repeated_field" where
  "rf_InternalSwap this other = (other, this)"

definition UnsafeArenaSwap :: "'a repeated_field \<Rightarrow> 'a repeated_field \<Rightarrow> 'a repeated_field \<times> 'a repeated_field" where
  "UnsafeArenaSwap this other = rf_InternalSwap this other"

definition rf_Swap ::
    "int \<Rightarrow> (nat \<Rightarrow> 'a list) \<Rightarrow> 'a repeated_field \<Rightarrow> 'a repeated_field \<Rightarrow> ('a repeated_field \<times> 'a repeated_field) result" where
  "rf_Swap sz fresh other this =
     (if rf_arena this = rf_arena other then Inr (rf_InternalSwap this other)
      else
        bind_result (rf_MergeFrom sz fresh this (RepeatedField_new (rf_arena other))) (\<lambda>temp.
        bind_result (rf_CopyFrom sz fresh other this) (\<lambda>this'.
          Inr (this', fst (UnsafeArenaSwap other temp)))))"

text \<open>The move constructor and assignment, without the copies that a debugging macro would force.\<close>

definition RepeatedField_move :: "int \<Rightarrow> (nat \<Rightarrow> 'a list) \<Rightarrow> 'a repeated_field \<Rightarrow> ('a repeated_field \<times> 'a repeated_field) result" where
  "RepeatedField_move sz fresh other =
     (if rf_arena other \<noteq> None then
        bind_result (rf_CopyFrom sz fresh other (RepeatedField_new None)) (\<lambda>f. Inr (f, other))
      else Inr (rf_InternalSwap (RepeatedField_new None) other))"

definition rf_move_assign ::
    "int \<Rightarrow> (nat \<Rightarrow> 'a list) \<Rightarrow> 'a repeated_field \<Rightarrow> 'a repeated_field \<Rightarrow> ('a repeated_field \<times> 'a repeated_field) result" where
  "rf_move_assign sz fresh other f =
     (if rf_arena f \<noteq> rf_arena other then bind_result (rf_CopyFrom sz fresh other f) (\<lambda>f'. Inr (f', other))
      else Inr (rf_InternalSwap f other))"

definition rf_SwapElements :: "int \<Rightarrow> int \<Rightarrow> 'a repeated_field \<Rightarrow> 'a repeated_field result" where
  "rf_SwapElements index1 index2 f =
     bind_result (vec_get (rf_elements f) index1) (\<lambda>x.
     bind_result (vec_get (rf_elements f) index2) (\<lambda>y.
     bind_result (vec_set (rf_elements f) index1 y) (\<lambda>es.
     bind_result (vec_set es index2 x) (\<lambda>es'. Inr (f\<lparr>rf_elements := es'\<rparr>)))))"

section \<open>The list that a field holds\<close>

definition rf_list :: "'a repeated_field \<Rightarrow> 'a list" where
  "rf_list f = take (nat (current_size f)) (rf_elements f)"

definition rf_ok :: "'a repeated_field \<Rightarrow> bool" where
  "rf_ok f \<longleftrightarrow> 0 \<le> current_size f \<and> current_size f \<le> total_size f \<and> total_size f \<le> int32_max \<and>
     length (rf_elements f) = nat (total_size f)"

definition fresh_ok :: "(nat \<Rightarrow> 'a list) \<Rightarrow> bool" where
  "fresh_ok fresh \<longleftrightarrow> (\<forall>n. length (fresh n) = n)"

lemma rf_ok_new [simp]: "rf_ok (RepeatedField_new a)" "rf_list (RepeatedField_new a) = []"
  by (simp_all add: rf_ok_def RepeatedField_new_def rf_list_def int32_max_def)

lemma length_rf_list: "rf_ok f \<Longrightarrow> int (length (rf_list f)) = current_size f"
  by (auto simp: rf_list_def rf_ok_def min_def)

text \<open>A size that suffices for the request, stays an \<open>int\<close>, and at least doubles a full array unless it is clamped.\<close>

lemma kRepHeaderSize_facts:
  assumes "0 < sz" and "sz \<le> 16"
  shows "1 \<le> RepeatedFieldLowerClampLimit sz" and "RepeatedFieldLowerClampLimit sz \<le> kRepHeaderSize sz"
    and "8 \<le> kRepHeaderSize sz" and "kRepHeaderSize sz \<le> 16"
proof -
  show h: "8 \<le> kRepHeaderSize sz" "kRepHeaderSize sz \<le> 16" using assms(2) by (auto simp: kRepHeaderSize_def)
  have "sz \<le> kRepHeaderSize sz" by (simp add: kRepHeaderSize_def)
  then show "1 \<le> RepeatedFieldLowerClampLimit sz"
    using assms(1) zdiv_mono1 [of sz "kRepHeaderSize sz" sz] by (simp add: RepeatedFieldLowerClampLimit_def)
  show "RepeatedFieldLowerClampLimit sz \<le> kRepHeaderSize sz"
    using zdiv_mono2 [of "kRepHeaderSize sz" 1 sz] h(1) assms(1) by (simp add: RepeatedFieldLowerClampLimit_def)
qed

lemma CalculateReserveSize_range:
  assumes "0 < sz" and "sz \<le> 16" and "0 \<le> cap" and "cap < new" and "new \<le> int32_max"
  shows "new \<le> CalculateReserveSize sz cap new" and "CalculateReserveSize sz cap new \<le> int32_max"
    and "RepeatedFieldLowerClampLimit sz \<le> CalculateReserveSize sz cap new"
    and "cap = 0 \<or> RepeatedFieldLowerClampLimit sz \<le> cap \<Longrightarrow>
      2 * cap \<le> CalculateReserveSize sz cap new \<or> CalculateReserveSize sz cap new = int32_max"
proof -
  note h = kRepHeaderSize_facts [OF assms(1,2)]
  have l: "RepeatedFieldLowerClampLimit sz \<le> int32_max" using h by (simp add: int32_max_def)
  have m: "2 * cap + kRepHeaderSize sz div sz \<le> int32_max" if "\<not> (int32_max - kRepHeaderSize sz) div 2 < cap"
    using that h(2) unfolding RepeatedFieldLowerClampLimit_def by linarith
  show "new \<le> CalculateReserveSize sz cap new"
    using assms(5) by (auto simp: CalculateReserveSize_def Let_def)
  show "CalculateReserveSize sz cap new \<le> int32_max"
    using assms(5) m l by (auto simp: CalculateReserveSize_def Let_def)
  show "RepeatedFieldLowerClampLimit sz \<le> CalculateReserveSize sz cap new"
    using l by (auto simp: CalculateReserveSize_def Let_def)
  show "cap = 0 \<or> RepeatedFieldLowerClampLimit sz \<le> cap \<Longrightarrow>
      2 * cap \<le> CalculateReserveSize sz cap new \<or> CalculateReserveSize sz cap new = int32_max"
    using h(1) assms(4) by (auto simp: CalculateReserveSize_def Let_def RepeatedFieldLowerClampLimit_def)
qed

text \<open>The array split into what is in use and the rest.\<close>

definition rf_rep :: "'a repeated_field \<Rightarrow> 'a list \<Rightarrow> 'a list \<Rightarrow> bool" where
  "rf_rep f xs ys \<longleftrightarrow> current_size f = int (length xs) \<and> rf_elements f = xs @ ys \<and>
     total_size f = int (length xs + length ys) \<and> total_size f \<le> int32_max"

lemma rf_rep_iff: "rf_ok f \<and> rf_list f = xs \<longleftrightarrow> (\<exists>ys. rf_rep f xs ys)"
proof
  assume "rf_ok f \<and> rf_list f = xs"
  then have "rf_rep f xs (drop (nat (current_size f)) (rf_elements f))"
    by (auto simp: rf_rep_def rf_ok_def rf_list_def min_def)
  then show "\<exists>ys. rf_rep f xs ys" ..
next
  assume "\<exists>ys. rf_rep f xs ys"
  then show "rf_ok f \<and> rf_list f = xs" by (auto simp: rf_rep_def rf_ok_def rf_list_def)
qed

lemma rf_repE: "rf_ok f \<Longrightarrow> rf_list f = xs \<Longrightarrow> (\<And>ys. rf_rep f xs ys \<Longrightarrow> P) \<Longrightarrow> P"
  using rf_rep_iff [of f xs] by blast

lemma CopyArray_append:
  "0 \<le> at \<Longrightarrow> nat at = length a \<Longrightarrow> nat k = length b \<Longrightarrow> 0 \<le> k \<Longrightarrow> length b = length c \<Longrightarrow>
     CopyArray (a @ b @ d) at (c @ e) k = Inr (a @ c @ d)"
  by (simp add: CopyArray_def copy_into_def)

lemma vec_set_append: "vec_set (xs @ y # ys) (int (length xs)) v = Inr (xs @ v # ys)"
  by (simp add: vec_set_def)

lemma Reserve_rep:
  assumes "0 < sz" and "sz \<le> 16" and "fresh_ok fresh" and "rf_rep f xs ys" and "m \<le> int32_max"
  shows "\<exists>f' zs. rf_Reserve sz fresh m f = Inr f' \<and> rf_rep f' xs zs \<and> m \<le> total_size f' \<and> total_size f \<le> total_size f' \<and>
     rf_arena f' = rf_arena f"
proof (cases "m \<le> total_size f")
  case True
  with assms(4) show ?thesis by (auto simp: rf_Reserve_def)
next
  case False
  let ?n = "CalculateReserveSize sz (total_size f) m"
  have t: "0 \<le> total_size f" using assms(4) by (simp add: rf_rep_def)
  from CalculateReserveSize_range [OF assms(1,2) t _ assms(5)] False
  have n: "m \<le> ?n" "?n \<le> int32_max" by simp_all
  have len: "length (fresh (nat ?n)) = nat ?n" using assms(3) by (simp add: fresh_ok_def)
  let ?zs = "drop (length xs) (fresh (nat ?n))"
  have le: "length xs \<le> nat ?n" using n(1) False assms(4) by (auto simp: rf_rep_def)
  have "(if 0 < current_size f then CopyArray (take (nat ?n) (fresh (nat ?n))) 0 (rf_elements f) (current_size f)
      else Inr (take (nat ?n) (fresh (nat ?n)))) = Inr (xs @ ?zs)"
    using assms(4) le len by (auto simp: rf_rep_def CopyArray_def copy_into_def)
  then have "rf_Reserve sz fresh m f = Inr (f\<lparr>total_size := ?n, rf_elements := xs @ ?zs\<rparr>)"
    using False by (simp add: rf_Reserve_def Let_def)
  moreover have "rf_rep (f\<lparr>total_size := ?n, rf_elements := xs @ ?zs\<rparr>) xs ?zs"
    using assms(4) n le len t False by (auto simp: rf_rep_def)
  ultimately show ?thesis
    using n False by (intro exI [of _ "f\<lparr>total_size := ?n, rf_elements := xs @ ?zs\<rparr>"] exI [of _ ?zs]) simp
qed

text \<open>Room for \<open>k\<close> more elements.\<close>

lemma Reserve_room:
  assumes "0 < sz" and "sz \<le> 16" and "fresh_ok fresh" and "rf_rep f xs ys" and "int (length xs) + int k \<le> int32_max"
    and "m = int (length xs) + int k"
  obtains f' us zs where "rf_Reserve sz fresh m f = Inr f'" "rf_rep f' xs (us @ zs)" "length us = k"
    "total_size f \<le> total_size f'" "rf_arena f' = rf_arena f"
proof -
  from Reserve_rep [OF assms(1-4), of m] assms(5,6) obtain f' zs where
    r: "rf_Reserve sz fresh m f = Inr f'" "rf_rep f' xs zs" "m \<le> total_size f'" "total_size f \<le> total_size f'"
      "rf_arena f' = rf_arena f" by auto
  then have "k \<le> length zs" using assms(6) by (auto simp: rf_rep_def)
  then show thesis using that [of f' "take k zs" "drop k zs"] r by simp
qed

lemma rep_use:
  assumes "rf_rep f xs (us @ zs)" and "length vs = length us"
  shows "rf_rep (f\<lparr>rf_elements := xs @ vs @ zs, current_size := int (length xs + length us)\<rparr>) (xs @ vs) zs"
  using assms by (simp add: rf_rep_def)

lemma Add_rep:
  assumes "0 < sz" and "sz \<le> 16" and "fresh_ok fresh" and "rf_rep f xs ys" and "int (length xs) < int32_max"
  shows "\<exists>f' zs. rf_Add sz fresh v f = Inr f' \<and> rf_rep f' (xs @ [v]) zs \<and> total_size f \<le> total_size f'"
proof (cases ys)
  case Nil
  with assms(4) have full: "current_size f = total_size f" "total_size f = int (length xs)" by (simp_all add: rf_rep_def)
  have m: "int (length xs) + int 1 \<le> int32_max" "total_size f + 1 = int (length xs) + int 1"
    using assms(5) full by simp_all
  from Reserve_room [OF assms(1-4) m] obtain f1 us zs where
    f1: "rf_Reserve sz fresh (total_size f + 1) f = Inr f1" "rf_rep f1 xs (us @ zs)" "length us = 1"
      "total_size f \<le> total_size f1" by metis
  then obtain u where u: "us = [u]" by (cases us) auto
  have "vec_set (rf_elements f1) (total_size f) v = Inr (xs @ v # zs)"
    using f1(2) u full vec_set_append [of xs u zs v] by (simp add: rf_rep_def)
  moreover have "add_int32 (total_size f) 1 = Inr (total_size f + 1)"
    using assms(5) full by (simp add: add_int32_def in_int32_def int32_min_def)
  ultimately have "rf_Add sz fresh v f = Inr (f1\<lparr>rf_elements := xs @ v # zs, current_size := total_size f + 1\<rparr>)"
    using full(1) f1(1) by (simp add: rf_Add_def Let_def)
  moreover have "rf_rep (f1\<lparr>rf_elements := xs @ v # zs, current_size := total_size f + 1\<rparr>) (xs @ [v]) zs"
    using f1(2) u full by (simp add: rf_rep_def)
  ultimately show ?thesis using f1(4)
    by (intro exI [of _ "f1\<lparr>rf_elements := xs @ v # zs, current_size := total_size f + 1\<rparr>"] exI [of _ zs]) simp
next
  case (Cons y zs)
  have "vec_set (rf_elements f) (current_size f) v = Inr (xs @ v # zs)"
    using assms(4) Cons vec_set_append [of xs y zs v] by (simp add: rf_rep_def)
  moreover have "current_size f \<noteq> total_size f" using assms(4) Cons by (simp add: rf_rep_def)
  moreover have "rf_rep (f\<lparr>rf_elements := xs @ v # zs, current_size := current_size f + 1\<rparr>) (xs @ [v]) zs"
    using assms(4) Cons by (simp add: rf_rep_def)
  ultimately show ?thesis
    by (intro exI [of _ "f\<lparr>rf_elements := xs @ v # zs, current_size := current_size f + 1\<rparr>"] exI [of _ zs])
      (simp add: rf_Add_def Let_def)
qed

lemma copy_at_end:
  "CopyArray (xs @ us @ zs) (int (length xs)) (vs @ ws) (int (length vs)) = Inr (xs @ vs @ zs)"
  if "length us = length vs"
  using that by (simp add: CopyArray_def copy_into_def)

lemma add_int32_size: "int (length xs) + int k \<le> int32_max \<Longrightarrow>
    add_int32 (int (length xs)) (int k) = Inr (int (length xs) + int k) \<and>
    add_int32 (int k) (int (length xs)) = Inr (int (length xs) + int k)"
  by (simp add: add_int32_def in_int32_def int32_min_def)

lemma FastAdder_rep:
  assumes "0 < sz" and "sz \<le> 16" and "fresh_ok fresh"
  shows "rf_rep (f\<lparr>current_size := i\<rparr>) xs ys \<Longrightarrow> int (length xs) + int (length vs) \<le> int32_max \<Longrightarrow>
    \<exists>f' zs. FastAdder_loop sz fresh vs i f = Inr f' \<and> rf_rep f' (xs @ vs) zs \<and> total_size f \<le> total_size f'"
proof (induction vs arbitrary: xs ys i f)
  case Nil
  then show ?case by auto
next
  case (Cons v vs)
  have i: "i = int (length xs)" using Cons.prems(1) by (simp add: rf_rep_def)
  obtain f1 u zs where f1: "(if i = total_size f then
          bind_result (add_int32 i 1) (\<lambda>n. rf_Reserve sz fresh n (f\<lparr>current_size := i\<rparr>))
        else Inr f) = Inr f1" "rf_rep (f1\<lparr>current_size := i\<rparr>) xs (u # zs)" "total_size f \<le> total_size f1"
  proof (cases "i = total_size f")
    case True
    have m: "int (length xs) + int 1 \<le> int32_max" "i + 1 = int (length xs) + int 1" using Cons.prems(2) i by simp_all
    from Reserve_room [OF assms Cons.prems(1) m] obtain f1 us zs where
      f1: "rf_Reserve sz fresh (i + 1) (f\<lparr>current_size := i\<rparr>) = Inr f1" "rf_rep f1 xs (us @ zs)" "length us = 1"
        "total_size (f\<lparr>current_size := i\<rparr>) \<le> total_size f1" by metis
    then obtain u where u: "us = [u]" by (cases us) auto
    have "f1\<lparr>current_size := i\<rparr> = f1" using f1(2) i by (simp add: rf_rep_def)
    moreover have "add_int32 i 1 = Inr (i + 1)" using add_int32_size [OF m(1)] i by simp
    ultimately show ?thesis using that [of f1 u zs] f1 u True by simp
  next
    case False
    with Cons.prems(1) i have "ys \<noteq> []" by (auto simp: rf_rep_def)
    then obtain u zs where "ys = u # zs" by (cases ys) auto
    with that [of f u zs] False Cons.prems(1) show ?thesis by simp
  qed
  have s: "vec_set (rf_elements f1) i v = Inr (xs @ v # zs)"
    using f1(2) i vec_set_append [of xs u zs v] by (simp add: rf_rep_def)
  have a: "add_int32 i 1 = Inr (i + 1)" using add_int32_size [of xs 1] Cons.prems(2) i by simp
  have "rf_rep ((f1\<lparr>rf_elements := xs @ v # zs\<rparr>)\<lparr>current_size := i + 1\<rparr>) (xs @ [v]) zs"
    using f1(2) i by (simp add: rf_rep_def)
  from Cons.IH [OF this] Cons.prems(2) obtain f' ws where
    "FastAdder_loop sz fresh vs (i + 1) (f1\<lparr>rf_elements := xs @ v # zs\<rparr>) = Inr f'" "rf_rep f' ((xs @ [v]) @ vs) ws"
    "total_size f1 \<le> total_size f'" by auto
  then show ?case using f1 s a by (intro exI [of _ f'] exI [of _ ws]) simp
qed

lemma Add_range_rep:
  assumes "0 < sz" and "sz \<le> 16" and "fresh_ok fresh" and "rf_rep f xs ys" and "int (length xs) + int (length vs) \<le> int32_max"
  shows "\<exists>f' zs. rf_Add_range sz fresh forward vs f = Inr f' \<and> rf_rep f' (xs @ vs) zs \<and> total_size f \<le> total_size f'"
proof (cases "forward \<and> vs \<noteq> []")
  case True
  from Reserve_room [OF assms(1-5) refl] obtain f1 us zs where
    f1: "rf_Reserve sz fresh (int (length xs) + int (length vs)) f = Inr f1" "rf_rep f1 xs (us @ zs)" "length us = length vs"
      "total_size f \<le> total_size f1" by metis
  have c: "current_size f = int (length xs)" "current_size f1 = int (length xs)" "rf_elements f1 = xs @ us @ zs"
    using assms(4) f1(2) by (simp_all add: rf_rep_def)
  have "rf_Add_range sz fresh forward vs f =
      Inr (f1\<lparr>rf_elements := xs @ vs @ zs, current_size := int (length xs + length us)\<rparr>)"
    using True f1(1,3) c add_int32_size [OF assms(5)] copy_at_end [of us vs xs zs "[]"]
    by (simp add: rf_Add_range_def CalculateReserve_def Let_def add.commute)
  then show ?thesis using rep_use [OF f1(2), of vs] f1(3,4)
    by (intro exI [of _ "f1\<lparr>rf_elements := xs @ vs @ zs, current_size := int (length xs + length us)\<rparr>"] exI [of _ zs]) simp
next
  case False
  then consider "vs = []" "forward" | "\<not> forward" by blast
  then show ?thesis
  proof cases
    case 1
    with assms(4) show ?thesis by (auto simp: rf_Add_range_def CalculateReserve_def)
  next
    case 2
    have "f\<lparr>current_size := current_size f\<rparr> = f" by simp
    with FastAdder_rep [OF assms(1-3), where f = f and i = "current_size f" and xs = xs and vs = vs] assms(4,5) 2 show ?thesis
      by (simp add: rf_Add_range_def CalculateReserve_def)
  qed
qed

lemma Resize_rep:
  assumes "0 < sz" and "sz \<le> 16" and "fresh_ok fresh" and "rf_rep f xs ys" and "0 \<le> m" and "m \<le> int32_max"
  shows "\<exists>f' zs. rf_Resize sz fresh m v f = Inr f' \<and>
    rf_rep f' (take (nat m) xs @ replicate (nat m - length xs) v) zs \<and> total_size f \<le> total_size f'"
proof (cases "current_size f < m")
  case True
  let ?k = "nat m - length xs"
  have m: "int (length xs) + int ?k \<le> int32_max" "m = int (length xs) + int ?k"
    using True assms(4,6) by (auto simp: rf_rep_def)
  from Reserve_room [OF assms(1-4) m] obtain f1 us zs where
    f1: "rf_Reserve sz fresh m f = Inr f1" "rf_rep f1 xs (us @ zs)" "length us = ?k"
      "total_size f \<le> total_size f1" by metis
  have "fill_elements (current_size f1) m v (rf_elements f1) = Inr (xs @ replicate ?k v @ zs)"
    using f1(2,3) m(2) copy_at_end [of us "replicate ?k v" xs zs "[]"]
    by (simp add: fill_elements_def rf_rep_def nat_diff_distrib)
  then have "rf_Resize sz fresh m v f =
      Inr (f1\<lparr>rf_elements := xs @ replicate ?k v @ zs, current_size := int (length xs + length us)\<rparr>)"
    using True f1(1,3) m(2) by (simp add: rf_Resize_def)
  moreover have "take (nat m) xs = xs" using m(2) by simp
  ultimately show ?thesis using rep_use [OF f1(2), of "replicate ?k v"] f1(3,4)
    by (intro exI [of _ "f1\<lparr>rf_elements := xs @ replicate ?k v @ zs, current_size := int (length xs + length us)\<rparr>"]
        exI [of _ zs]) simp
next
  case False
  then have "nat m \<le> length xs" using assms(4,5) by (simp add: rf_rep_def)
  then have "rf_rep (f\<lparr>current_size := m\<rparr>) (take (nat m) xs @ replicate (nat m - length xs) v) (drop (nat m) xs @ ys)"
    using assms(4,5) by (auto simp: rf_rep_def)
  with False show ?thesis by (auto simp: rf_Resize_def)
qed

text \<open>Sliding the tail down over a gap, and the same move by \<open>std::copy\<close>.\<close>

lemma slide_loop_rep:
  assumes "rf_elements f = pre @ gap @ tail @ rest" and "length gap = nat num" and "0 < num"
  shows "\<exists>junk. slide_loop (length tail) (int (length pre) + num) num f =
    Inr (f\<lparr>rf_elements := pre @ tail @ junk @ rest\<rparr>) \<and> length junk = nat num"
  using assms
proof (induction tail arbitrary: f pre gap)
  case Nil
  then show ?case by (intro exI [of _ gap]) (cases f, simp)
next
  case (Cons t ts)
  from Cons.prems(2,3) obtain g gs where gap: "gap = g # gs" by (cases gap) auto
  have len: "int (length pre) + num = int (length (pre @ gap))" using Cons.prems(2,3) by simp
  have get: "rf_Get (int (length pre) + num) f = Inr t"
    unfolding len rf_Get_def Cons.prems(1) by (simp only: append.assoc [symmetric] vec_get_of_nat length_append
        list.size add_less_cancel_left) (simp add: vec_get_def nth_append)
  have set: "rf_Set (int (length pre) + num - num) t f = Inr (f\<lparr>rf_elements := (pre @ [t]) @ (gs @ [t]) @ ts @ rest\<rparr>)"
    using vec_set_append [of pre g "gs @ t # ts @ rest" t] Cons.prems(1) gap by (simp add: rf_Set_def)
  have "length (gs @ [t]) = nat num" using Cons.prems(2) gap by simp
  from Cons.IH [of "f\<lparr>rf_elements := (pre @ [t]) @ (gs @ [t]) @ ts @ rest\<rparr>" "pre @ [t]" "gs @ [t]", OF _ this Cons.prems(3)]
  obtain junk where "slide_loop (length ts) (int (length (pre @ [t])) + num) num (f\<lparr>rf_elements := (pre @ [t]) @ (gs @ [t]) @ ts @ rest\<rparr>) =
      Inr (f\<lparr>rf_elements := (pre @ [t]) @ ts @ junk @ rest\<rparr>)" "length junk = nat num" by auto
  then show ?case using get set by (intro exI [of _ junk]) (simp add: algebra_simps)
qed

lemma extract_loop_eq:
  "rf_elements f = pre @ xs @ rest \<Longrightarrow> extract_loop (length xs) (int (length pre)) f = Inr xs"
proof (induction xs arbitrary: pre)
  case (Cons x xs)
  have "rf_Get (int (length pre)) f = Inr x" using Cons.prems by (simp add: rf_Get_def vec_get_def)
  moreover have "extract_loop (length xs) (int (length (pre @ [x]))) f = Inr xs"
    using Cons.IH [of "pre @ [x]"] Cons.prems by simp
  ultimately show ?case by (simp add: algebra_simps)
qed simp

lemma ExtractSubrange_rep:
  assumes "rf_rep f (a @ b @ c) ys"
  shows "\<exists>f' zs. rf_ExtractSubrange (int (length a)) (int (length b)) wanted f = Inr (if wanted then b else [], f') \<and>
    rf_rep f' (a @ c) zs \<and> total_size f' = total_size f"
proof -
  have es: "rf_elements f = a @ b @ (c @ ys)" and cur: "current_size f = int (length a + length b + length c)"
    and es': "rf_elements f = a @ b @ c @ ys"
    using assms by (simp_all add: rf_rep_def)
  have out: "(if wanted then extract_loop (nat (int (length b))) (int (length a)) f else Inr []) = Inr (if wanted then b else [])"
    using extract_loop_eq [OF es] by simp
  show ?thesis
  proof (cases "b = []")
    case True
    with out assms show ?thesis by (auto simp: rf_ExtractSubrange_def)
  next
    case False
    then have b: "0 < int (length b)" "length b = nat (int (length b))" by simp_all
    from slide_loop_rep [OF es' b(2,1)] obtain junk where
      s: "slide_loop (length c) (int (length a) + int (length b)) (int (length b)) f =
        Inr (f\<lparr>rf_elements := a @ c @ junk @ ys\<rparr>)" "length junk = length b" by auto
    have k: "nat (current_size f - (int (length a) + int (length b))) = length c" using cur by simp
    have "rf_rep (f\<lparr>rf_elements := a @ c @ junk @ ys, current_size := int (length a + length c)\<rparr>) (a @ c) (junk @ ys)"
      using assms s(2) by (simp add: rf_rep_def)
    moreover have "0 < int (length a) + int (length b) + int (length c)" using b(1) by linarith
    ultimately show ?thesis using s(1) out k False cur
      by (intro exI [of _ "f\<lparr>rf_elements := a @ c @ junk @ ys, current_size := int (length a + length c)\<rparr>"] exI [of _ "junk @ ys"])
        (simp add: rf_ExtractSubrange_def rf_Truncate_def)
  qed
qed

lemma erase_rep:
  assumes "rf_rep f (a @ b @ c) ys"
  shows "\<exists>f' zs. rf_erase_range (int (length a)) (int (length a + length b)) f = Inr (int (length a), f') \<and>
    rf_rep f' (a @ c) zs \<and> total_size f' = total_size f"
proof (cases "b = []")
  case True
  with assms show ?thesis by (auto simp: rf_erase_range_def rf_begin_def rf_end_def Let_def)
next
  case False
  have es: "rf_elements f = a @ b @ c @ ys" and cur: "current_size f = int (length a + length b + length c)"
    using assms by (simp_all add: rf_rep_def)
  have pos: "0 < int (length a) + int (length b) + int (length c)"
    using False by (intro add_pos_nonneg add_nonneg_pos) simp_all
  have d: "drop (nat (int (length a + length b))) (rf_elements f) = c @ ys"
    unfolding es nat_int append.assoc [symmetric] by (simp add: drop_append del: append_assoc)
  have bc: "b @ c @ ys = take (length c) (b @ c) @ drop (length c) (b @ c) @ ys"
    by (metis append_assoc append_take_drop_id)
  have "CopyArray (a @ b @ c @ ys) (int (length a)) (c @ ys) (int (length c)) = Inr (a @ c @ drop (length c) (b @ c) @ ys)"
    unfolding bc using copy_at_end [of "take (length c) (b @ c)" c a "drop (length c) (b @ c) @ ys" ys] by simp
  then have "rf_erase_range (int (length a)) (int (length a + length b)) f = Inr (int (length a),
      f\<lparr>rf_elements := a @ c @ drop (length c) (b @ c) @ ys, current_size := int (length a + length c)\<rparr>)"
    using False cur d pos by (simp add: rf_erase_range_def rf_begin_def rf_end_def Let_def rf_Truncate_def es)
  moreover have "rf_rep (f\<lparr>rf_elements := a @ c @ drop (length c) (b @ c) @ ys, current_size := int (length a + length c)\<rparr>)
      (a @ c) (drop (length c) (b @ c) @ ys)"
    using assms by (simp add: rf_rep_def)
  ultimately show ?thesis
    by (intro exI [of _ "f\<lparr>rf_elements := a @ c @ drop (length c) (b @ c) @ ys, current_size := int (length a + length c)\<rparr>"]
        exI [of _ "drop (length c) (b @ c) @ ys"]) simp
qed

lemma MergeFrom_rep:
  assumes "0 < sz" and "sz \<le> 16" and "fresh_ok fresh" and "rf_rep f xs ys" and "rf_rep g vs ws"
    and "int (length xs) + int (length vs) \<le> int32_max"
  shows "\<exists>f' zs. rf_MergeFrom sz fresh g f = Inr f' \<and> rf_rep f' (xs @ vs) zs \<and> total_size f \<le> total_size f'"
proof (cases "vs = []")
  case True
  with assms(4,5) show ?thesis by (auto simp: rf_MergeFrom_def rf_rep_def)
next
  case False
  from Reserve_room [OF assms(1-4,6) refl] obtain f1 us zs where
    f1: "rf_Reserve sz fresh (int (length xs) + int (length vs)) f = Inr f1" "rf_rep f1 xs (us @ zs)" "length us = length vs"
      "total_size f \<le> total_size f1" by metis
  have c: "current_size f = int (length xs)" "current_size f1 = int (length xs)" "rf_elements f1 = xs @ us @ zs"
    "current_size g = int (length vs)" "rf_elements g = vs @ ws"
    using assms(4,5) f1(2) by (simp_all add: rf_rep_def)
  let ?f = "f1\<lparr>current_size := int (length xs + length us), rf_elements := xs @ vs @ zs\<rparr>"
  have "rf_MergeFrom sz fresh g f = Inr ?f"
    using False f1(1,3) c add_int32_size [OF assms(6)] copy_at_end [of us vs xs zs ws]
    by (simp add: rf_MergeFrom_def rf_size_def AddNAlreadyReserved_def Let_def)
  then show ?thesis using rep_use [OF f1(2), of vs] f1(3,4) by (intro exI [of _ ?f] exI [of _ zs]) (simp add: rf_rep_def)
qed

section \<open>Histories\<close>

text \<open>
  The member functions of one field, with what they return: elements, or an index. A function that returns a
  pointer to uninitialised elements comes with the values that the caller writes there.
\<close>

datatype 'a rf_op =
    Op_Add 'a
  | Op_Add_uninitialized 'a
  | Op_AddAlreadyReserved 'a
  | Op_AddNAlreadyReserved "'a list"
  | Op_Add_range bool "'a list"
  | Op_Get int
  | Op_at int
  | Op_size
  | Op_Set int 'a
  | Op_RemoveLast
  | Op_Clear
  | Op_Truncate int
  | Op_Resize int 'a
  | Op_Reserve int
  | Op_SwapElements int int
  | Op_ExtractSubrange int int bool
  | Op_erase int
  | Op_erase_range int int
  | Op_Assign bool "'a list"

datatype 'a rf_out = Nothing | Values "'a list" | Index int

fun run_rf_op :: "int \<Rightarrow> (nat \<Rightarrow> 'a list) \<Rightarrow> 'a rf_op \<Rightarrow> 'a repeated_field \<Rightarrow> ('a rf_out \<times> 'a repeated_field) result" where
  "run_rf_op sz fresh (Op_Add v) f = bind_result (rf_Add sz fresh v f) (\<lambda>f'. Inr (Nothing, f'))"
| "run_rf_op sz fresh (Op_Add_uninitialized v) f =
     bind_result (rf_Add_uninitialized sz fresh f) (\<lambda>(i, f1). bind_result (rf_Set i v f1) (\<lambda>f'. Inr (Index i, f')))"
| "run_rf_op sz fresh (Op_AddAlreadyReserved v) f = bind_result (AddAlreadyReserved v f) (\<lambda>f'. Inr (Nothing, f'))"
| "run_rf_op sz fresh (Op_AddNAlreadyReserved vs) f =
     bind_result (AddNAlreadyReserved (int (length vs)) f) (\<lambda>f1.
     bind_result (CopyArray (rf_elements f1) (current_size f) vs (int (length vs))) (\<lambda>es.
       Inr (Index (current_size f), f1\<lparr>rf_elements := es\<rparr>)))"
| "run_rf_op sz fresh (Op_Add_range forward vs) f =
     bind_result (rf_Add_range sz fresh forward vs f) (\<lambda>f'. Inr (Nothing, f'))"
| "run_rf_op sz fresh (Op_Get i) f = bind_result (rf_Get i f) (\<lambda>v. Inr (Values [v], f))"
| "run_rf_op sz fresh (Op_at i) f = bind_result (rf_at i f) (\<lambda>v. Inr (Values [v], f))"
| "run_rf_op sz fresh Op_size f = Inr (Index (rf_size f), f)"
| "run_rf_op sz fresh (Op_Set i v) f = bind_result (rf_Set i v f) (\<lambda>f'. Inr (Nothing, f'))"
| "run_rf_op sz fresh Op_RemoveLast f = Inr (Nothing, rf_RemoveLast f)"
| "run_rf_op sz fresh Op_Clear f = Inr (Nothing, rf_Clear f)"
| "run_rf_op sz fresh (Op_Truncate n) f = Inr (Nothing, rf_Truncate n f)"
| "run_rf_op sz fresh (Op_Resize n v) f = bind_result (rf_Resize sz fresh n v f) (\<lambda>f'. Inr (Nothing, f'))"
| "run_rf_op sz fresh (Op_Reserve n) f = bind_result (rf_Reserve sz fresh n f) (\<lambda>f'. Inr (Nothing, f'))"
| "run_rf_op sz fresh (Op_SwapElements i j) f = bind_result (rf_SwapElements i j f) (\<lambda>f'. Inr (Nothing, f'))"
| "run_rf_op sz fresh (Op_ExtractSubrange start num wanted) f =
     bind_result (rf_ExtractSubrange start num wanted f) (\<lambda>(vs, f'). Inr (Values vs, f'))"
| "run_rf_op sz fresh (Op_erase p) f = bind_result (rf_erase p f) (\<lambda>(i, f'). Inr (Index i, f'))"
| "run_rf_op sz fresh (Op_erase_range p q) f = bind_result (rf_erase_range p q f) (\<lambda>(i, f'). Inr (Index i, f'))"
| "run_rf_op sz fresh (Op_Assign forward vs) f =
     bind_result (rf_Assign sz fresh forward vs f) (\<lambda>f'. Inr (Nothing, f'))"

text \<open>The functions over two different fields, on either of which the others act: \<open>Exchange\<close> swaps their roles.\<close>

datatype 'a rf_act =
    This "'a rf_op"
  | Exchange
  | Act_MergeFrom
  | Act_CopyFrom
  | Act_Swap
  | Act_UnsafeArenaSwap
  | Act_move_assign
  | Act_new "nat option"
  | Act_copy
  | Act_range bool "'a list"
  | Act_move

type_synonym 'a rf_pair = "'a repeated_field \<times> 'a repeated_field"

definition silent :: "'b result \<Rightarrow> ('a rf_out \<times> 'b) result" where
  "silent m = bind_result m (\<lambda>x. Inr (Nothing, x))"

fun run_rf_act :: "int \<Rightarrow> (nat \<Rightarrow> 'a list) \<Rightarrow> 'a rf_act \<Rightarrow> 'a rf_pair \<Rightarrow> ('a rf_out \<times> 'a rf_pair) result" where
  "run_rf_act sz fresh (This x) (f, g) = bind_result (run_rf_op sz fresh x f) (\<lambda>(out, f'). Inr (out, f', g))"
| "run_rf_act sz fresh Exchange (f, g) = Inr (Nothing, g, f)"
| "run_rf_act sz fresh Act_MergeFrom (f, g) = silent (bind_result (rf_MergeFrom sz fresh g f) (\<lambda>f'. Inr (f', g)))"
| "run_rf_act sz fresh Act_CopyFrom (f, g) = silent (bind_result (rf_CopyFrom sz fresh g f) (\<lambda>f'. Inr (f', g)))"
| "run_rf_act sz fresh Act_Swap (f, g) = silent (rf_Swap sz fresh g f)"
| "run_rf_act sz fresh Act_UnsafeArenaSwap (f, g) = silent (Inr (UnsafeArenaSwap f g))"
| "run_rf_act sz fresh Act_move_assign (f, g) = silent (rf_move_assign sz fresh g f)"
| "run_rf_act sz fresh (Act_new arena) (f, g) = silent (Inr (RepeatedField_new arena, g))"
| "run_rf_act sz fresh Act_copy (f, g) = silent (bind_result (RepeatedField_copy sz fresh g) (\<lambda>f'. Inr (f', g)))"
| "run_rf_act sz fresh (Act_range forward vs) (f, g) =
     silent (bind_result (RepeatedField_range sz fresh forward vs) (\<lambda>f'. Inr (f', g)))"
| "run_rf_act sz fresh Act_move (f, g) = silent (RepeatedField_move sz fresh g)"

fun run_rf :: "int \<Rightarrow> (nat \<Rightarrow> 'a list) \<Rightarrow> 'a rf_act list \<Rightarrow> 'a rf_pair \<Rightarrow> ('a rf_out list \<times> 'a rf_pair) result" where
  "run_rf sz fresh [] p = Inr ([], p)"
| "run_rf sz fresh (x # xs) p =
     bind_result (run_rf_act sz fresh x p) (\<lambda>(out, p1).
     bind_result (run_rf sz fresh xs p1) (\<lambda>(outs, p2). Inr (out # outs, p2)))"

text \<open>
  The same on lists, undefined where the documentation forbids the call or the size leaves an \<open>int\<close>. Beside
  its elements a field has an arena and a capacity \<open>k\<close> that the caller may rely on.
\<close>

fun list_rf_op :: "'a rf_op \<Rightarrow> 'a list \<Rightarrow> int \<Rightarrow> ('a rf_out \<times> 'a list \<times> int) option" where
  "list_rf_op (Op_Add v) xs k = (if int (length xs) < int32_max then Some (Nothing, xs @ [v], k) else None)"
| "list_rf_op (Op_Add_uninitialized v) xs k =
     (if int (length xs) < int32_max then Some (Index (int (length xs)), xs @ [v], k) else None)"
| "list_rf_op (Op_AddAlreadyReserved v) xs k =
     (if int (length xs) < k then Some (Nothing, xs @ [v], k) else None)"
| "list_rf_op (Op_AddNAlreadyReserved vs) xs k =
     (if int (length xs) + int (length vs) \<le> k then Some (Index (int (length xs)), xs @ vs, k) else None)"
| "list_rf_op (Op_Add_range forward vs) xs k =
     (if int (length xs) + int (length vs) \<le> int32_max then Some (Nothing, xs @ vs, k) else None)"
| "list_rf_op (Op_Get i) xs k = (if 0 \<le> i \<and> i < int (length xs) then Some (Values [xs ! nat i], xs, k) else None)"
| "list_rf_op (Op_at i) xs k = (if 0 \<le> i \<and> i < int (length xs) then Some (Values [xs ! nat i], xs, k) else None)"
| "list_rf_op Op_size xs k = Some (Index (int (length xs)), xs, k)"
| "list_rf_op (Op_Set i v) xs k = (if 0 \<le> i \<and> i < int (length xs) then Some (Nothing, xs[nat i := v], k) else None)"
| "list_rf_op Op_RemoveLast xs k = (if xs \<noteq> [] then Some (Nothing, butlast xs, k) else None)"
| "list_rf_op Op_Clear xs k = Some (Nothing, [], k)"
| "list_rf_op (Op_Truncate n) xs k =
     (if 0 \<le> n \<and> n \<le> int (length xs) then Some (Nothing, take (nat n) xs, k) else None)"
| "list_rf_op (Op_Resize n v) xs k =
     (if 0 \<le> n \<and> n \<le> int32_max then Some (Nothing, take (nat n) xs @ replicate (nat n - length xs) v, k) else None)"
| "list_rf_op (Op_Reserve n) xs k = (if n \<le> int32_max then Some (Nothing, xs, max k n) else None)"
| "list_rf_op (Op_SwapElements i j) xs k =
     (if 0 \<le> i \<and> i < int (length xs) \<and> 0 \<le> j \<and> j < int (length xs)
      then Some (Nothing, xs[nat i := xs ! nat j, nat j := xs ! nat i], k) else None)"
| "list_rf_op (Op_ExtractSubrange start num wanted) xs k =
     (if 0 \<le> start \<and> 0 \<le> num \<and> start + num \<le> int (length xs)
      then Some (Values (if wanted then take (nat num) (drop (nat start) xs) else []),
        take (nat start) xs @ drop (nat (start + num)) xs, k) else None)"
| "list_rf_op (Op_erase p) xs k =
     (if 0 \<le> p \<and> p < int (length xs) then Some (Index p, take (nat p) xs @ drop (nat (p + 1)) xs, k) else None)"
| "list_rf_op (Op_erase_range p q) xs k =
     (if 0 \<le> p \<and> p \<le> q \<and> q \<le> int (length xs) then Some (Index p, take (nat p) xs @ drop (nat q) xs, k) else None)"
| "list_rf_op (Op_Assign forward vs) xs k = (if int (length vs) \<le> int32_max then Some (Nothing, vs, k) else None)"

type_synonym 'a rf_abs = "'a list \<times> nat option \<times> int"

fun list_rf_act :: "'a rf_act \<Rightarrow> 'a rf_abs \<times> 'a rf_abs \<Rightarrow> ('a rf_out \<times> 'a rf_abs \<times> 'a rf_abs) option" where
  "list_rf_act (This x) ((xs, a, k), g) = map_option (\<lambda>(out, xs', k'). (out, (xs', a, k'), g)) (list_rf_op x xs k)"
| "list_rf_act Exchange (f, g) = Some (Nothing, g, f)"
| "list_rf_act Act_MergeFrom ((xs, a, k), (ys, b, l)) =
     (if int (length xs) + int (length ys) \<le> int32_max then Some (Nothing, (xs @ ys, a, k), (ys, b, l)) else None)"
| "list_rf_act Act_CopyFrom ((xs, a, k), (ys, b, l)) = Some (Nothing, (ys, a, k), (ys, b, l))"
| "list_rf_act Act_Swap ((xs, a, k), (ys, b, l)) =
     Some (Nothing, if a = b then ((ys, a, l), (xs, b, k)) else ((ys, a, k), (xs, b, 0)))"
| "list_rf_act Act_UnsafeArenaSwap ((xs, a, k), (ys, b, l)) =
     (if a = b then Some (Nothing, (ys, a, l), (xs, b, k)) else None)"
| "list_rf_act Act_move_assign ((xs, a, k), (ys, b, l)) =
     Some (Nothing, if a = b then ((ys, a, l), (xs, b, k)) else ((ys, a, k), (ys, b, l)))"
| "list_rf_act (Act_new arena) (f, g) = Some (Nothing, ([], arena, 0), g)"
| "list_rf_act Act_copy (f, (ys, b, l)) = Some (Nothing, (ys, None, 0), (ys, b, l))"
| "list_rf_act (Act_range forward vs) (f, g) =
     (if int (length vs) \<le> int32_max then Some (Nothing, (vs, None, 0), g) else None)"
| "list_rf_act Act_move (f, (ys, b, l)) =
     Some (Nothing, if b = None then ((ys, None, l), ([], None, 0)) else ((ys, None, 0), (ys, b, l)))"

fun list_rf :: "'a rf_act list \<Rightarrow> 'a rf_abs \<times> 'a rf_abs \<Rightarrow> ('a rf_out list \<times> 'a rf_abs \<times> 'a rf_abs) option" where
  "list_rf [] p = Some ([], p)"
| "list_rf (x # ops) p =
     (case list_rf_act x p of
        None \<Rightarrow> None
      | Some (out, p1) \<Rightarrow> map_option (\<lambda>(outs, p2). (out # outs, p2)) (list_rf ops p1))"

lemma shrink_rep: "rf_rep f (xs @ us) ys \<Longrightarrow> rf_rep (f\<lparr>current_size := int (length xs)\<rparr>) xs (us @ ys)"
  by (simp add: rf_rep_def)

lemma Set_rep:
  "rf_rep f xs ys \<Longrightarrow> 0 \<le> i \<Longrightarrow> i < int (length xs) \<Longrightarrow>
     rf_Set i v f = Inr (f\<lparr>rf_elements := xs[nat i := v] @ ys\<rparr>) \<and> rf_rep (f\<lparr>rf_elements := xs[nat i := v] @ ys\<rparr>) (xs[nat i := v]) ys"
  by (auto simp: rf_rep_def rf_Set_def vec_set_def list_update_append)

lemma SwapElements_rep:
  assumes "rf_rep f xs ys" and "0 \<le> i" and "i < int (length xs)" and "0 \<le> j" and "j < int (length xs)"
  shows "\<exists>f'. rf_SwapElements i j f = Inr f' \<and> rf_rep f' (xs[nat i := xs ! nat j, nat j := xs ! nat i]) ys \<and>
    total_size f' = total_size f"
proof -
  have n: "nat i < length xs" "nat j < length xs" using assms by linarith+
  have "rf_SwapElements i j f = Inr (f\<lparr>rf_elements := xs[nat i := xs ! nat j, nat j := xs ! nat i] @ ys\<rparr>)"
    using assms n by (simp add: rf_SwapElements_def rf_rep_def vec_get_def vec_set_def nth_append list_update_append)
  moreover have "rf_rep (f\<lparr>rf_elements := xs[nat i := xs ! nat j, nat j := xs ! nat i] @ ys\<rparr>)
      (xs[nat i := xs ! nat j, nat j := xs ! nat i]) ys"
    using assms(1) by (simp add: rf_rep_def)
  ultimately show ?thesis by simp
qed

lemma split_at:
  assumes "0 \<le> p" and "p \<le> q" and "q \<le> int (length xs)"
  obtains a b c where "xs = a @ b @ c" "p = int (length a)" "q = int (length a + length b)"
proof -
  have "xs = take (nat p) xs @ take (nat q - nat p) (drop (nat p) xs) @ drop (nat q) xs"
    using assms take_drop_split [of "nat p" "nat q" xs] by simp
  moreover have "p = int (length (take (nat p) xs))" using assms by simp
  moreover have "q = int (length (take (nat p) xs) + length (take (nat q - nat p) (drop (nat p) xs)))"
    using assms by auto
  ultimately show thesis by (rule that)
qed

lemma AddAlreadyReserved_rep:
  assumes "rf_rep f xs ys" and "int (length xs) < total_size f"
  shows "\<exists>f' zs. AddAlreadyReserved v f = Inr f' \<and> rf_rep f' (xs @ [v]) zs \<and> total_size f' = total_size f"
proof -
  obtain y zs where y: "ys = y # zs" using assms by (cases ys) (auto simp: rf_rep_def)
  have "vec_set (rf_elements f) (current_size f) v = Inr (xs @ v # zs)"
    using assms(1) y vec_set_append [of xs y zs v] by (simp add: rf_rep_def)
  moreover have "int (length xs) + int 1 \<le> int32_max" using assms unfolding rf_rep_def by linarith
  then have "add_int32 (current_size f) 1 = Inr (current_size f + 1)"
    using add_int32_size [of xs 1] assms(1) by (simp add: rf_rep_def)
  ultimately have "AddAlreadyReserved v f = Inr (f\<lparr>current_size := current_size f + 1, rf_elements := xs @ v # zs\<rparr>)"
    by (simp add: AddAlreadyReserved_def)
  moreover have "rf_rep (f\<lparr>current_size := current_size f + 1, rf_elements := xs @ v # zs\<rparr>) (xs @ [v]) zs"
    using assms(1) y by (simp add: rf_rep_def)
  ultimately show ?thesis by fastforce
qed

lemma AddNAlreadyReserved_rep:
  assumes "rf_rep f xs ys" and "int (length xs) + int (length vs) \<le> total_size f"
  shows "\<exists>f' zs. run_rf_op sz fresh (Op_AddNAlreadyReserved vs) f = Inr (Index (int (length xs)), f') \<and>
    rf_rep f' (xs @ vs) zs \<and> total_size f' = total_size f"
proof -
  let ?us = "take (length vs) ys" and ?zs = "drop (length vs) ys"
  have len: "length ?us = length vs" using assms by (auto simp: rf_rep_def)
  have c: "current_size f = int (length xs)" "rf_elements f = xs @ ?us @ ?zs" using assms(1) by (simp_all add: rf_rep_def)
  have le: "int (length xs) + int (length vs) \<le> int32_max" using assms by (auto simp: rf_rep_def)
  have "run_rf_op sz fresh (Op_AddNAlreadyReserved vs) f = Inr (Index (int (length xs)),
      f\<lparr>current_size := int (length xs) + int (length vs), rf_elements := xs @ vs @ ?zs\<rparr>)"
    using add_int32_size [OF le] copy_at_end [OF len, of xs ?zs "[]"] c by (simp add: AddNAlreadyReserved_def)
  moreover have "rf_rep (f\<lparr>current_size := int (length xs) + int (length vs), rf_elements := xs @ vs @ ?zs\<rparr>) (xs @ vs) ?zs"
    using assms(1) len by (auto simp: rf_rep_def)
  ultimately show ?thesis by fastforce
qed

lemma Add_uninitialized_rep:
  assumes "0 < sz" and "sz \<le> 16" and "fresh_ok fresh" and "rf_rep f xs ys" and "int (length xs) < int32_max"
  shows "\<exists>f' zs. run_rf_op sz fresh (Op_Add_uninitialized v) f = Inr (Index (int (length xs)), f') \<and>
    rf_rep f' (xs @ [v]) zs \<and> total_size f \<le> total_size f'"
proof -
  have m: "int (length xs) + int 1 \<le> int32_max" using assms(5) by simp
  obtain f1 u zs where f1: "(if current_size f = total_size f
       then bind_result (add_int32 (total_size f) 1) (\<lambda>n. rf_Reserve sz fresh n f) else Inr f) = Inr f1"
    "rf_rep f1 xs (u # zs)" "total_size f \<le> total_size f1"
  proof (cases "current_size f = total_size f")
    case True
    from Reserve_room [OF assms(1-4) m refl] obtain f1 us zs where
      f1: "rf_Reserve sz fresh (int (length xs) + int 1) f = Inr f1" "rf_rep f1 xs (us @ zs)" "length us = 1"
        "total_size f \<le> total_size f1" by metis
    then obtain u where "us = [u]" by (cases us) auto
    with that [of f1 u zs] f1 True assms(4) add_int32_size [OF m] show ?thesis by (simp add: rf_rep_def)
  next
    case False
    with assms(4) obtain u zs where "ys = u # zs" by (cases ys) (auto simp: rf_rep_def)
    with that [of f u zs] False assms(4) show ?thesis by simp
  qed
  have c: "current_size f = int (length xs)" using assms(4) by (simp add: rf_rep_def)
  let ?f = "f1\<lparr>current_size := int (length xs) + 1, rf_elements := xs @ v # zs\<rparr>"
  have "rf_Set (int (length xs)) v (f1\<lparr>current_size := int (length xs) + 1\<rparr>) = Inr ?f"
    using f1(2) vec_set_append [of xs u zs v] by (simp add: rf_Set_def rf_rep_def)
  then have "run_rf_op sz fresh (Op_Add_uninitialized v) f = Inr (Index (int (length xs)), ?f)"
    using f1(1) c by (simp add: rf_Add_uninitialized_def Let_def)
  moreover have "rf_rep ?f (xs @ [v]) zs" using f1(2) by (simp add: rf_rep_def)
  ultimately show ?thesis using f1(3) by (intro exI [of _ ?f] exI [of _ zs]) simp
qed

lemma Get_rep:
  "rf_rep f xs ys \<Longrightarrow> 0 \<le> i \<Longrightarrow> i < int (length xs) \<Longrightarrow> rf_Get i f = Inr (xs ! nat i) \<and> rf_at i f = Inr (xs ! nat i)"
  by (auto simp: rf_rep_def rf_Get_def rf_at_def vec_get_def nth_append nat_less_iff)

lemma rf_op_refines:
  assumes "0 < sz" and "sz \<le> 16" and "fresh_ok fresh" and "rf_rep f xs ys" and "k \<le> total_size f"
    and "list_rf_op x xs k = Some (out, xs', k')"
  shows "\<exists>f' zs. run_rf_op sz fresh x f = Inr (out, f') \<and> rf_rep f' xs' zs \<and> k' \<le> total_size f'"
proof (cases x)
  case (Op_Add v)
  with assms Add_rep [OF assms(1-4), of v] show ?thesis by (fastforce split: if_splits)
next
  case (Op_Add_uninitialized v)
  with assms(5,6) Add_uninitialized_rep [OF assms(1-4), of v] show ?thesis by (auto split: if_splits simp del: run_rf_op.simps)
next
  case (Op_AddAlreadyReserved v)
  with assms(5,6) AddAlreadyReserved_rep [OF assms(4), of v] show ?thesis by (auto split: if_splits)
next
  case (Op_AddNAlreadyReserved vs)
  with assms(5,6) AddNAlreadyReserved_rep [OF assms(4), of vs sz fresh] show ?thesis by (auto split: if_splits simp del: run_rf_op.simps)
next
  case (Op_Add_range forward vs)
  with assms Add_range_rep [OF assms(1-4), of vs forward] show ?thesis by (fastforce split: if_splits)
next
  case (Op_Get i)
  with assms(4-6) Get_rep [OF assms(4), of i] show ?thesis by (auto split: if_splits)
next
  case (Op_at i)
  with assms(4-6) Get_rep [OF assms(4), of i] show ?thesis by (auto split: if_splits)
next
  case Op_size
  with assms(4-6) show ?thesis by (auto simp: rf_size_def rf_rep_def)
next
  case (Op_Set i v)
  with assms Set_rep [OF assms(4), of i v] show ?thesis
    by (auto split: if_splits)
next
  case Op_RemoveLast
  with assms(6) obtain u where u: "xs = xs' @ [u]" by (auto split: if_splits intro: append_butlast_last_id [symmetric])
  have "rf_RemoveLast f = f\<lparr>current_size := int (length xs')\<rparr>" using assms(4) u by (simp add: rf_RemoveLast_def rf_rep_def)
  with Op_RemoveLast shrink_rep [of f xs' "[u]" ys] assms(4-6) u show ?thesis by (auto split: if_splits)
next
  case Op_Clear
  with shrink_rep [of f "[]" xs ys] assms(4-6) show ?thesis by (auto simp: rf_Clear_def)
next
  case (Op_Truncate n)
  then have n: "0 \<le> n" "n \<le> int (length xs)" "xs' = take (nat n) xs" "k' = k" "out = Nothing"
    using assms(6) by (auto split: if_splits)
  have "rf_Truncate n f = f\<lparr>current_size := int (length xs')\<rparr>"
    using n assms(4) by (cases f) (auto simp: rf_Truncate_def rf_rep_def)
  with Op_Truncate n(3-5) shrink_rep [of f xs' "drop (nat n) xs" ys] assms(4,5) show ?thesis by auto
next
  case (Op_Resize n v)
  with assms Resize_rep [OF assms(1-4), of n v] show ?thesis by (fastforce split: if_splits)
next
  case (Op_Reserve n)
  with assms Reserve_rep [OF assms(1-4), of n] show ?thesis by (fastforce split: if_splits)
next
  case (Op_SwapElements i j)
  with assms SwapElements_rep [OF assms(4), of i j] show ?thesis by (auto split: if_splits)
next
  case (Op_ExtractSubrange s n wanted)
  then have c: "0 \<le> s" "s \<le> s + n" "s + n \<le> int (length xs)" "xs' = take (nat s) xs @ drop (nat (s + n)) xs"
      "out = Values (if wanted then take (nat n) (drop (nat s) xs) else [])" "k' = k"
    using assms(6) by (auto split: if_splits)
  obtain a b d where d: "xs = a @ b @ d" "s = int (length a)" "s + n = int (length a + length b)"
    using split_at [OF c(1-3)] by blast
  then have n: "n = int (length b)" by simp
  from ExtractSubrange_rep [of f a b d ys wanted] assms(4) d(1) obtain f' zs where
    "rf_ExtractSubrange (int (length a)) (int (length b)) wanted f = Inr (if wanted then b else [], f')"
    "rf_rep f' (a @ d) zs" "total_size f' = total_size f" by blast
  moreover have "xs' = a @ d" "out = Values (if wanted then b else [])"
    using c(4,5) d n by (simp_all add: nat_add_distrib)
  ultimately show ?thesis using Op_ExtractSubrange d(2) n c(6) assms(5) by auto
next
  case (Op_erase p)
  then have c: "0 \<le> p" "p \<le> p + 1" "p + 1 \<le> int (length xs)" "xs' = take (nat p) xs @ drop (nat (p + 1)) xs"
      "out = Index p" "k' = k"
    using assms(6) by (auto split: if_splits)
  obtain a b d where d: "xs = a @ b @ d" "p = int (length a)" "p + 1 = int (length a + length b)"
    using split_at [OF c(1-3)] by blast
  have "drop (nat (p + 1)) xs = d" unfolding d(1,3) nat_int by (simp add: drop_append)
  with d(1,2) c(4) have "xs' = a @ d" by simp
  with erase_rep [of f a b d ys] assms(4,5) d c(5,6) Op_erase show ?thesis by (auto simp: rf_erase_def)
next
  case (Op_erase_range p q)
  then have c: "0 \<le> p" "p \<le> q" "q \<le> int (length xs)" "xs' = take (nat p) xs @ drop (nat q) xs"
      "out = Index p" "k' = k"
    using assms(6) by (auto split: if_splits)
  obtain a b d where d: "xs = a @ b @ d" "p = int (length a)" "q = int (length a + length b)"
    using split_at [OF c(1-3)] by blast
  have "drop (nat q) xs = d" unfolding d(1,3) nat_int by (simp add: drop_append)
  with d(1,2) c(4) have "xs' = a @ d" by simp
  with erase_rep [of f a b d ys] assms(4,5) d c(5,6) Op_erase_range show ?thesis by auto
next
  case (Op_Assign forward vs)
  from shrink_rep [of f "[]" xs ys] assms(4) have "rf_rep (rf_Clear f) [] (xs @ ys)" by (simp add: rf_Clear_def)
  from Add_range_rep [OF assms(1-3) this, of vs forward] assms(5,6) Op_Assign show ?thesis
    by (fastforce simp: rf_Assign_def rf_Clear_def split: if_splits)
qed

text \<open>No function but the exchanges and constructors touches the arena.\<close>

lemma Reserve_arena: "rf_Reserve sz fresh n f = Inr f' \<Longrightarrow> rf_arena f' = rf_arena f"
  by (auto simp: rf_Reserve_def Let_def bind_result_Inr_iff split: if_splits)

lemma FastAdder_arena: "FastAdder_loop sz fresh vs i f = Inr f' \<Longrightarrow> rf_arena f' = rf_arena f"
proof (induction vs arbitrary: i f)
  case (Cons v vs)
  then show ?case by (fastforce simp: bind_result_Inr_iff dest: Reserve_arena split: if_splits)
qed auto

lemma slide_arena: "slide_loop k i n f = Inr f' \<Longrightarrow> rf_arena f' = rf_arena f"
  by (induction k arbitrary: i f) (auto simp: bind_result_Inr_iff rf_Set_def)

lemma Add_range_arena: "rf_Add_range sz fresh forward vs f = Inr f' \<Longrightarrow> rf_arena f' = rf_arena f"
  by (auto simp: rf_Add_range_def Let_def bind_result_Inr_iff dest: Reserve_arena FastAdder_arena split: if_splits)

lemma MergeFrom_arena: "rf_MergeFrom sz fresh g f = Inr f' \<Longrightarrow> rf_arena f' = rf_arena f"
  by (auto simp: rf_MergeFrom_def AddNAlreadyReserved_def Let_def bind_result_Inr_iff dest: Reserve_arena split: if_splits)

lemma run_rf_op_arena: "run_rf_op sz fresh x f = Inr (out, f') \<Longrightarrow> rf_arena f' = rf_arena f"
  by (cases x)
    (auto simp: bind_result_Inr_iff rf_Add_def rf_Add_uninitialized_def AddAlreadyReserved_def AddNAlreadyReserved_def Let_def
      rf_Set_def rf_RemoveLast_def rf_Clear_def rf_Truncate_def rf_Resize_def rf_SwapElements_def rf_ExtractSubrange_def
      rf_erase_def rf_erase_range_def rf_Assign_def
      dest: Reserve_arena Add_range_arena slide_arena split: if_splits)

definition rf_abs :: "'a repeated_field \<Rightarrow> 'a rf_abs \<Rightarrow> bool" where
  "rf_abs f h \<longleftrightarrow> (case h of (xs, a, k) \<Rightarrow> rf_ok f \<and> rf_list f = xs \<and> rf_arena f = a \<and> k \<le> Capacity f)"

lemma rf_absI: "rf_rep f xs ys \<Longrightarrow> rf_arena f = a \<Longrightarrow> k \<le> total_size f \<Longrightarrow> rf_abs f (xs, a, k)"
  using rf_rep_iff [of f xs] by (auto simp: rf_abs_def Capacity_def)

lemma rf_absE:
  assumes "rf_abs f (xs, a, k)"
  obtains ys where "rf_rep f xs ys" "rf_arena f = a" "k \<le> total_size f" "int (length xs) \<le> int32_max"
  using assms rf_rep_iff [of f xs] that by (auto simp: rf_abs_def Capacity_def rf_rep_def)

lemma rf_abs_new: "rf_abs (RepeatedField_new a) ([], a, 0)"
  by (simp add: rf_abs_def Capacity_def) (simp add: RepeatedField_new_def)

lemma MergeFrom_abs:
  assumes "0 < sz" and "sz \<le> 16" and "fresh_ok fresh" and "rf_abs f (xs, a, k)" and "rf_abs g (ys, b, l)"
    and "int (length xs) + int (length ys) \<le> int32_max"
  shows "\<exists>f'. rf_MergeFrom sz fresh g f = Inr f' \<and> rf_abs f' (xs @ ys, a, k)"
proof -
  obtain us where f: "rf_rep f xs us" "rf_arena f = a" "k \<le> total_size f" by (rule rf_absE [OF assms(4)])
  obtain vs where g: "rf_rep g ys vs" by (rule rf_absE [OF assms(5)])
  from MergeFrom_rep [OF assms(1-3) f(1) g assms(6)] obtain f' zs where
    r: "rf_MergeFrom sz fresh g f = Inr f'" "rf_rep f' (xs @ ys) zs" "total_size f \<le> total_size f'" by blast
  with rf_absI [of f' "xs @ ys" zs a k] f MergeFrom_arena [OF r(1)] show ?thesis by auto
qed

lemma rf_abs_Clear: "rf_abs f (xs, a, k) \<Longrightarrow> rf_abs (rf_Clear f) ([], a, k)"
  by (auto simp: rf_abs_def rf_ok_def rf_list_def rf_Clear_def Capacity_def)

lemma CopyFrom_abs:
  assumes "0 < sz" and "sz \<le> 16" and "fresh_ok fresh" and "rf_abs f (xs, a, k)" and "rf_abs g (ys, b, l)"
  shows "\<exists>f'. rf_CopyFrom sz fresh g f = Inr f' \<and> rf_abs f' (ys, a, k)"
proof -
  have "int (length ys) \<le> int32_max" by (rule rf_absE [OF assms(5)])
  with MergeFrom_abs [OF assms(1-3) rf_abs_Clear [OF assms(4)] assms(5)] show ?thesis by (simp add: rf_CopyFrom_def)
qed

text \<open>The copy constructor does what \<open>MergeFrom\<close> does to a new field.\<close>

lemma copy_is_Merge: "rf_abs g h \<Longrightarrow> RepeatedField_copy sz fresh g = rf_MergeFrom sz fresh g (RepeatedField_new None)"
  by (auto simp: rf_abs_def RepeatedField_copy_def rf_MergeFrom_def rf_size_def RepeatedField_new_def add_int32_def
      in_int32_def int32_min_def rf_ok_def split: prod.splits)

lemma rf_act_refines:
  assumes sz: "0 < sz" "sz \<le> 16" "fresh_ok fresh" and f: "rf_abs f (xs, a, k)" and g: "rf_abs g (ys, b, l)"
    and step: "list_rf_act x ((xs, a, k), (ys, b, l)) = Some (out, h1, h2)"
  shows "\<exists>f' g'. run_rf_act sz fresh x (f, g) = Inr (out, f', g') \<and> rf_abs f' h1 \<and> rf_abs g' h2"
proof -
  have new: "\<exists>f'. rf_MergeFrom sz fresh g (RepeatedField_new a') = Inr f' \<and> rf_abs f' (ys, a', 0)" for a'
  proof -
    have "int (length ys) \<le> int32_max" by (rule rf_absE [OF g])
    with MergeFrom_abs [OF sz rf_abs_new g] show ?thesis by simp
  qed
  have ar: "rf_arena f = a" "rf_arena g = b" using f g by (simp_all add: rf_abs_def)
  show ?thesis
  proof (cases x)
    case (This op)
    with step obtain xs' k' where op: "list_rf_op op xs k = Some (out, xs', k')" and h: "h1 = (xs', a, k')" "h2 = (ys, b, l)"
      by auto
    obtain us where r: "rf_rep f xs us" "rf_arena f = a" "k \<le> total_size f" by (rule rf_absE [OF f])
    from rf_op_refines [OF sz r(1,3) op] obtain f' zs where
      f': "run_rf_op sz fresh op f = Inr (out, f')" "rf_rep f' xs' zs" "k' \<le> total_size f'" by blast
    with rf_absI [of f' xs' zs a k'] run_rf_op_arena [OF f'(1)] r(2) g h This show ?thesis by auto
  next
    case Act_MergeFrom
    with step MergeFrom_abs [OF sz f g] g show ?thesis by (auto simp: silent_def split: if_splits)
  next
    case Act_CopyFrom
    with step CopyFrom_abs [OF sz f g] g show ?thesis by (auto simp: silent_def)
  next
    case Act_Swap
    show ?thesis
    proof (cases "a = b")
      case True
      with Act_Swap step f g ar show ?thesis by (auto simp: silent_def rf_Swap_def rf_InternalSwap_def)
    next
      case False
      have "int (length xs) \<le> int32_max" by (rule rf_absE [OF f])
      with MergeFrom_abs [OF sz rf_abs_new f, of b] obtain temp where
        t: "rf_MergeFrom sz fresh f (RepeatedField_new b) = Inr temp" "rf_abs temp (xs, b, 0)" by auto
      with False Act_Swap step CopyFrom_abs [OF sz f g] ar show ?thesis
        by (auto simp: silent_def rf_Swap_def UnsafeArenaSwap_def rf_InternalSwap_def)
    qed
  next
    case Act_UnsafeArenaSwap
    with step f g show ?thesis by (auto simp: silent_def UnsafeArenaSwap_def rf_InternalSwap_def split: if_splits)
  next
    case Act_move_assign
    with step f g ar CopyFrom_abs [OF sz f g] show ?thesis
      by (auto simp: silent_def rf_move_assign_def rf_InternalSwap_def split: if_splits)
  next
    case (Act_new arena)
    with step g rf_abs_new show ?thesis by (auto simp: silent_def)
  next
    case Act_copy
    with step g new [of None] show ?thesis by (auto simp: silent_def copy_is_Merge [OF g])
  next
    case (Act_range forward vs)
    have "rf_rep (RepeatedField_new None) [] []" by (simp add: rf_rep_def RepeatedField_new_def int32_max_def)
    from Add_range_rep [OF sz this, of vs forward] Act_range step obtain f' zs where
      f': "rf_Add_range sz fresh forward vs (RepeatedField_new None) = Inr f'" "rf_rep f' vs zs" by (auto split: if_splits)
    have "rf_arena f' = None" using Add_range_arena [OF f'(1)] by (simp add: RepeatedField_new_def)
    with f' rf_absI [of f' vs zs None 0] have "rf_abs f' (vs, None, 0)" by (simp add: rf_rep_def)
    with f' Act_range step g show ?thesis by (auto simp: silent_def RepeatedField_range_def split: if_splits)
  next
    case Act_move
    show ?thesis
    proof (cases "b = None")
      case True
      with Act_move step g ar rf_abs_new [of None] show ?thesis
        by (auto simp: silent_def RepeatedField_move_def rf_InternalSwap_def)
    next
      case False
      from CopyFrom_abs [OF sz rf_abs_new [of None] g] False Act_move step g ar show ?thesis
        by (auto simp: silent_def RepeatedField_move_def)
    qed
  qed (use step f g in auto)
qed

lemma run_rf_refines:
  assumes "0 < sz" and "sz \<le> 16" and "fresh_ok fresh" and "rf_abs f h1" and "rf_abs g h2"
    and "list_rf ops (h1, h2) = Some (outs, h1', h2')"
  shows "\<exists>f' g'. run_rf sz fresh ops (f, g) = Inr (outs, f', g') \<and> rf_abs f' h1' \<and> rf_abs g' h2'"
  using assms(4-)
proof (induction ops arbitrary: f g h1 h2 outs)
  case (Cons x ops)
  obtain xs a k ys b l where h: "h1 = (xs, a, k)" "h2 = (ys, b, l)" by (metis prod_cases3)
  from Cons.prems(3) obtain out i1 i2 outs' where
    x: "list_rf_act x ((xs, a, k), (ys, b, l)) = Some (out, i1, i2)" and
    rest: "list_rf ops (i1, i2) = Some (outs', h1', h2')" and outs: "outs = out # outs'"
    by (auto simp: h split: option.splits)
  from rf_act_refines [OF assms(1-3) Cons.prems(1,2) [unfolded h] x] obtain f1 g1 where
    "run_rf_act sz fresh x (f, g) = Inr (out, f1, g1)" "rf_abs f1 i1" "rf_abs g1 i2" by blast
  with Cons.IH [OF this(2,3) rest] outs show ?case by auto
qed auto

section \<open>Properties\<close>

text \<open>C21: A repeated field is a list. Take two fields and any sequence of member functions on either of them: the ways to add,
  with and without reservation, reading, setting, removing, truncating, resizing, reserving, extracting a range with or without
  its values, erasing, assigning, merging, copying, swapping on the same and on different arenas, the constructors, and both
  moves. As long as it keeps within the documented preconditions and the range of an \<open>int\<close>, it runs without leaving the
  allocations, whatever a new allocation contains and through every growth; it returns what the same functions return on
  lists and leaves the elements that they leave there; each field stays on its arena, and the capacity that was reserved
  is there.\<close>

theorem RepeatedField_refines:
  assumes "0 < sz" and "sz \<le> 16" and "fresh_ok fresh" and "rf_ok f" and "rf_ok g"
    and "list_rf ops ((rf_list f, rf_arena f, Capacity f), (rf_list g, rf_arena g, Capacity g)) =
      Some (outs, (xs, a, k), (ys, b, l))"
  shows "\<exists>f' g'. run_rf sz fresh ops (f, g) = Inr (outs, f', g') \<and>
     rf_ok f' \<and> rf_list f' = xs \<and> rf_arena f' = a \<and> k \<le> Capacity f' \<and>
     rf_ok g' \<and> rf_list g' = ys \<and> rf_arena g' = b \<and> l \<le> Capacity g'"
proof -
  have "rf_abs f (rf_list f, rf_arena f, Capacity f)" "rf_abs g (rf_list g, rf_arena g, Capacity g)"
    using assms(4,5) by (simp_all add: rf_abs_def)
  from run_rf_refines [OF assms(1-3) this assms(6)] show ?thesis by (auto simp: rf_abs_def)
qed

text \<open>The capacity that a growth chooses holds the request, never overflows an \<open>int\<close>, is at least one header's worth of
  elements, and doubles the old one unless it is clamped at the largest \<open>int\<close>, so that the cost of adding stays constant on
  average.\<close>

lemma CalculateReserveSize_bounds:
  assumes "0 < sz" and "sz \<le> 16" and "0 \<le> cap" and "cap < new" and "new \<le> int32_max"
    and "cap = 0 \<or> RepeatedFieldLowerClampLimit sz \<le> cap"
  shows "new \<le> CalculateReserveSize sz cap new \<and> CalculateReserveSize sz cap new \<le> int32_max \<and>
     RepeatedFieldLowerClampLimit sz \<le> CalculateReserveSize sz cap new \<and>
     min (2 * cap) int32_max \<le> CalculateReserveSize sz cap new"
  using CalculateReserveSize_range [OF assms(1-5)] assms(6) by (auto simp: min_def)

subsection \<open>Witnesses\<close>

theorem RepeatedField_refines_witness:
  "\<exists>f g. run_rf 4 (\<lambda>n. replicate n (77 :: int))
      [This (Op_Add 1), This (Op_Add_range True [2, 3]), This (Op_Resize 5 9), This (Op_ExtractSubrange 1 2 True),
       Exchange, Act_CopyFrom, This (Op_Reserve 4), This (Op_AddAlreadyReserved 8), This (Op_erase 0), Act_Swap]
      (RepeatedField_new None, RepeatedField_new (Some 3)) =
      Inr ([Nothing, Nothing, Nothing, Values [2, 3], Nothing, Nothing, Nothing, Nothing, Index 0, Nothing], f, g) \<and>
     rf_list f = [1, 9, 9] \<and> rf_arena f = Some 3 \<and> rf_list g = [9, 9, 8] \<and> rf_arena g = None"
  using RepeatedField_refines [of 4 "\<lambda>n. replicate n (77 :: int)" "RepeatedField_new None" "RepeatedField_new (Some 3)"
    "[This (Op_Add 1), This (Op_Add_range True [2, 3]), This (Op_Resize 5 9), This (Op_ExtractSubrange 1 2 True),
       Exchange, Act_CopyFrom, This (Op_Reserve 4), This (Op_AddAlreadyReserved 8), This (Op_erase 0), Act_Swap]"]
  by (simp add: fresh_ok_def int32_max_def numeral_eq_Suc Capacity_def) (force simp: RepeatedField_new_def)

end
