(* ===== verification/Wire_Lite.thy ===== *)
theory Wire_Lite
  imports Message_Fields Repeated_Field
begin

unbundle bit_operations_syntax

text \<open>
  The scalar types of \<^verbatim>\<open>google/protobuf/wire_format_lite.h\<close>: how each of the fourteen is written with and
  without its tag, alone, repeated and packed, the sizes that are computed before, and the readers of
  \<^verbatim>\<open>parse_context.h\<close>. The locale \<open>scalar\<close> is what a type promises; it is interpreted for every one of them, over the
  arrays of \<open>Repeated_Field\<close>. Floating-point values are their bits.
\<close>

section \<open>Wire types and ZigZag\<close>

definition WIRETYPE_VARINT :: u32 where "WIRETYPE_VARINT = 0"
definition WIRETYPE_FIXED64 :: u32 where "WIRETYPE_FIXED64 = 1"
definition WIRETYPE_FIXED32 :: u32 where "WIRETYPE_FIXED32 = 5"

definition ZigZagEncode32 :: "int32 \<Rightarrow> u32" where
  "ZigZagEncode32 n = push_bit 1 n XOR signed_drop_bit 31 n"

definition ZigZagDecode32 :: "u32 \<Rightarrow> int32" where
  "ZigZagDecode32 n = drop_bit 1 n XOR (NOT (n AND 1) + 1)"

definition ZigZagEncode64 :: "u64 \<Rightarrow> u64" where
  "ZigZagEncode64 n = push_bit 1 n XOR signed_drop_bit 63 n"

definition ZigZagDecode64 :: "u64 \<Rightarrow> u64" where
  "ZigZagDecode64 n = drop_bit 1 n XOR (NOT (n AND 1) + 1)"

lemma not_plus_one: "NOT (n AND 1) + 1 = (if bit n 0 then - 1 else 0)" for n :: "'a::len word"
  by (cases "bit n 0") (simp_all add: and_one_eq mod2_eq_if minus_eq_not_plus_1 [symmetric] bit_0)

lemma signed_drop_bit_top: "signed_drop_bit (LENGTH('a) - 1) n = (if bit n (LENGTH('a) - 1) then - 1 else 0)"
  for n :: "'a::len word"
  by (rule bit_word_eqI) (auto simp: bit_signed_drop_bit_iff Suc_le_eq)

lemma push_bit_0: "\<not> bit (push_bit 1 n) 0" for n :: "'a::len word"
  by (simp only: bit_push_bit_iff) simp

lemma zigzag_core:
  fixes n :: "'a::len word"
  assumes "s = (if bit n (LENGTH('a) - 1) then - 1 else 0)"
  shows "drop_bit 1 (push_bit 1 n XOR s) XOR s = n"
proof (rule bit_word_eqI)
  fix k
  assume k: "k < LENGTH('a)"
  have s: "bit s j = (j < LENGTH('a) \<and> bit n (LENGTH('a) - 1))" for j by (auto simp: assms)
  have p: "bit (push_bit 1 n) (1 + k) = (1 + k < LENGTH('a) \<and> bit n k)"
    by (simp only: bit_push_bit_iff) auto
  show "bit (drop_bit 1 (push_bit 1 n XOR s) XOR s) k = bit n k"
  proof (cases "1 + k < LENGTH('a)")
    case True
    with k show ?thesis unfolding bit_xor_iff bit_drop_bit_eq comp_def s p by auto
  next
    case False
    then have "k = LENGTH('a) - 1" using k by simp
    with False k show ?thesis unfolding bit_xor_iff bit_drop_bit_eq comp_def s p by auto
  qed
qed

lemma ZigZag32: "ZigZagDecode32 (ZigZagEncode32 n) = n"
proof -
  have s: "signed_drop_bit 31 n = (if bit n 31 then - 1 else 0)" using signed_drop_bit_top [of n] by simp
  have b: "bit (ZigZagEncode32 n) 0 = bit n 31"
    unfolding ZigZagEncode32_def s bit_xor_iff using push_bit_0 [of n] by simp
  show ?thesis
    unfolding ZigZagDecode32_def not_plus_one b unfolding ZigZagEncode32_def s by (rule zigzag_core) simp
qed

lemma ZigZag64: "ZigZagDecode64 (ZigZagEncode64 n) = n"
proof -
  have s: "signed_drop_bit 63 n = (if bit n 63 then - 1 else 0)" using signed_drop_bit_top [of n] by simp
  have b: "bit (ZigZagEncode64 n) 0 = bit n 63"
    unfolding ZigZagEncode64_def s bit_xor_iff using push_bit_0 [of n] by simp
  show ?thesis
    unfolding ZigZagDecode64_def not_plus_one b unfolding ZigZagEncode64_def s by (rule zigzag_core) simp
qed

text \<open>The code is the usual one: even numbers for the nonnegative values, odd ones for the negative.\<close>

lemma ZigZagEncode32_value:
  "int (unat (ZigZagEncode32 n)) = (if 0 \<le> sint n then 2 * sint n else - 2 * sint n - 1)"
proof -
  have s: "signed_drop_bit 31 n = (if bit n 31 then - 1 else 0)" using signed_drop_bit_top [of n] by simp
  have b: "bit n 31 \<longleftrightarrow> sint n < 0" using bit_last_iff [of n] by simp
  have p: "push_bit 1 n = 2 * n" by (simp add: push_bit_eq_mult)
  show ?thesis
  proof (cases "0 \<le> sint n")
    case True
    then have "ZigZagEncode32 n = 2 * n" unfolding ZigZagEncode32_def s p using b by simp
    moreover have "uint n = sint n" "sint n < 2 ^ 31"
      using True uint_of_sint [of n] sint_less [of n] by simp_all
    ultimately show ?thesis using True by (simp add: uint_word_ariths)
  next
    case False
    then have e: "ZigZagEncode32 n = NOT (2 * n)" unfolding ZigZagEncode32_def s p using b by (simp add: not_eq_complement)
    have "uint (NOT (2 * n)) = (- 2 * sint n - 1) mod 2 ^ 32"
    proof -
      have "NOT (2 * n) = word_of_int (- 2 * sint n - 1)" by (simp add: not_eq_complement wi_hom_syms)
      then have "uint (NOT (2 * n)) = uint (word_of_int (- 2 * sint n - 1) :: u32)" by (rule arg_cong)
      also have "\<dots> = (- 2 * sint n - 1) mod 2 ^ 32" by (simp only: uint_word_of_int) simp
      finally show ?thesis .
    qed
    moreover have "- (2 ^ 31) \<le> sint n" using sint_greater_eq [of n] by simp
    ultimately show ?thesis using False e by simp
  qed
qed

section \<open>Scalars\<close>

definition WriteLittleEndian64ToArray :: "u64 \<Rightarrow> bytes" where
  "WriteLittleEndian64ToArray v =
     WriteLittleEndian32ToArray (ucast v) @ WriteLittleEndian32ToArray (ucast (drop_bit 32 v))"

definition UnalignedLoad64 :: "bytes \<Rightarrow> (bytes \<times> u64) option" where
  "UnalignedLoad64 p =
     (case UnalignedLoad p of
        None \<Rightarrow> None
      | Some (q, lo) \<Rightarrow> map_option (\<lambda>(r, hi). (r, ucast lo OR push_bit 32 (ucast hi))) (UnalignedLoad q))"

definition ReadVarintZigZag32 :: "pb_lib \<Rightarrow> bytes \<Rightarrow> (bytes \<times> int32) option" where
  "ReadVarintZigZag32 L p = map_option (\<lambda>(r, v). (r, ZigZagDecode32 (ucast v))) (VarintParse64 L p)"

definition ReadVarintZigZag64 :: "pb_lib \<Rightarrow> bytes \<Rightarrow> (bytes \<times> u64) option" where
  "ReadVarintZigZag64 L p = map_option (\<lambda>(r, v). (r, ZigZagDecode64 v)) (VarintParse64 L p)"

definition TagSize :: "u32 \<Rightarrow> bool \<Rightarrow> nat" where
  "TagSize field_number is_group =
     (let result = VarintSize32 (push_bit 3 field_number) in if is_group then result * 2 else result)"

subsection \<open>Writing one value\<close>

definition WriteInt32NoTagToArray :: "int32 \<Rightarrow> bytes" where
  "WriteInt32NoTagToArray value = WriteVarint32SignExtendedToArray value"

definition WriteInt64NoTagToArray :: "u64 \<Rightarrow> bytes" where
  "WriteInt64NoTagToArray value = WriteVarint64ToArray value"

definition WriteUInt32NoTagToArray :: "u32 \<Rightarrow> bytes" where
  "WriteUInt32NoTagToArray value = WriteVarint32ToArray value"

definition WriteUInt64NoTagToArray :: "u64 \<Rightarrow> bytes" where
  "WriteUInt64NoTagToArray value = WriteVarint64ToArray value"

definition WriteSInt32NoTagToArray :: "int32 \<Rightarrow> bytes" where
  "WriteSInt32NoTagToArray value = WriteVarint32ToArray (ZigZagEncode32 value)"

definition WriteSInt64NoTagToArray :: "u64 \<Rightarrow> bytes" where
  "WriteSInt64NoTagToArray value = WriteVarint64ToArray (ZigZagEncode64 value)"

definition WriteFixed32NoTagToArray :: "u32 \<Rightarrow> bytes" where
  "WriteFixed32NoTagToArray value = WriteLittleEndian32ToArray value"

definition WriteFixed64NoTagToArray :: "u64 \<Rightarrow> bytes" where
  "WriteFixed64NoTagToArray value = WriteLittleEndian64ToArray value"

definition WriteSFixed32NoTagToArray :: "int32 \<Rightarrow> bytes" where
  "WriteSFixed32NoTagToArray value = WriteLittleEndian32ToArray value"

definition WriteSFixed64NoTagToArray :: "u64 \<Rightarrow> bytes" where
  "WriteSFixed64NoTagToArray value = WriteLittleEndian64ToArray value"

definition WriteFloatNoTagToArray :: "u32 \<Rightarrow> bytes" where
  "WriteFloatNoTagToArray value = WriteLittleEndian32ToArray value"

definition WriteDoubleNoTagToArray :: "u64 \<Rightarrow> bytes" where
  "WriteDoubleNoTagToArray value = WriteLittleEndian64ToArray value"

definition WriteBoolNoTagToArray :: "bool \<Rightarrow> bytes" where
  "WriteBoolNoTagToArray value = WriteVarint32ToArray (if value then 1 else 0)"

definition WriteEnumNoTagToArray :: "int32 \<Rightarrow> bytes" where
  "WriteEnumNoTagToArray value = WriteVarint32SignExtendedToArray value"

definition WriteInt64ToArray :: "u32 \<Rightarrow> u64 \<Rightarrow> bytes" where
  "WriteInt64ToArray field_number value =
     WriteTagToArray field_number WIRETYPE_VARINT @ WriteInt64NoTagToArray value"

definition WriteUInt64ToArray :: "u32 \<Rightarrow> u64 \<Rightarrow> bytes" where
  "WriteUInt64ToArray field_number value =
     WriteTagToArray field_number WIRETYPE_VARINT @ WriteUInt64NoTagToArray value"

definition WriteSInt32ToArray :: "u32 \<Rightarrow> int32 \<Rightarrow> bytes" where
  "WriteSInt32ToArray field_number value =
     WriteTagToArray field_number WIRETYPE_VARINT @ WriteSInt32NoTagToArray value"

definition WriteSInt64ToArray :: "u32 \<Rightarrow> u64 \<Rightarrow> bytes" where
  "WriteSInt64ToArray field_number value =
     WriteTagToArray field_number WIRETYPE_VARINT @ WriteSInt64NoTagToArray value"

definition WriteFixed32ToArray :: "u32 \<Rightarrow> u32 \<Rightarrow> bytes" where
  "WriteFixed32ToArray field_number value =
     WriteTagToArray field_number WIRETYPE_FIXED32 @ WriteFixed32NoTagToArray value"

definition WriteFixed64ToArray :: "u32 \<Rightarrow> u64 \<Rightarrow> bytes" where
  "WriteFixed64ToArray field_number value =
     WriteTagToArray field_number WIRETYPE_FIXED64 @ WriteFixed64NoTagToArray value"

definition WriteSFixed32ToArray :: "u32 \<Rightarrow> int32 \<Rightarrow> bytes" where
  "WriteSFixed32ToArray field_number value =
     WriteTagToArray field_number WIRETYPE_FIXED32 @ WriteSFixed32NoTagToArray value"

definition WriteSFixed64ToArray :: "u32 \<Rightarrow> u64 \<Rightarrow> bytes" where
  "WriteSFixed64ToArray field_number value =
     WriteTagToArray field_number WIRETYPE_FIXED64 @ WriteSFixed64NoTagToArray value"

definition WriteDoubleToArray :: "u32 \<Rightarrow> u64 \<Rightarrow> bytes" where
  "WriteDoubleToArray field_number value =
     WriteTagToArray field_number WIRETYPE_FIXED64 @ WriteDoubleNoTagToArray value"

definition WriteBoolToArray :: "u32 \<Rightarrow> bool \<Rightarrow> bytes" where
  "WriteBoolToArray field_number value =
     WriteTagToArray field_number WIRETYPE_VARINT @ WriteBoolNoTagToArray value"

definition WriteEnumToArray :: "u32 \<Rightarrow> int32 \<Rightarrow> bytes" where
  "WriteEnumToArray field_number value =
     WriteTagToArray field_number WIRETYPE_VARINT @ WriteEnumNoTagToArray value"

subsection \<open>Sizes\<close>

definition Int32Size :: "int32 \<Rightarrow> nat" where "Int32Size value = VarintSize32SignExtended value"

definition Int64Size :: "u64 \<Rightarrow> nat" where "Int64Size value = VarintSize64 value"

definition UInt32Size :: "u32 \<Rightarrow> nat" where "UInt32Size value = VarintSize32 value"

definition UInt64Size :: "u64 \<Rightarrow> nat" where "UInt64Size value = VarintSize64 value"

definition SInt32Size :: "int32 \<Rightarrow> nat" where "SInt32Size value = VarintSize32 (ZigZagEncode32 value)"

definition SInt64Size :: "u64 \<Rightarrow> nat" where "SInt64Size value = VarintSize64 (ZigZagEncode64 value)"

definition kFixed32Size :: nat where "kFixed32Size = 4"

definition kFixed64Size :: nat where "kFixed64Size = 8"

definition kSFixed32Size :: nat where "kSFixed32Size = 4"

definition kSFixed64Size :: nat where "kSFixed64Size = 8"

definition kFloatSize :: nat where "kFloatSize = 4"

definition kDoubleSize :: nat where "kDoubleSize = 8"

definition kBoolSize :: nat where "kBoolSize = 1"

definition EnumSize :: "int32 \<Rightarrow> nat" where "EnumSize value = VarintSize32SignExtended value"

definition Int64SizePlusOne :: "u64 \<Rightarrow> nat" where "Int64SizePlusOne value = VarintSize64PlusOne value"

definition UInt64SizePlusOne :: "u64 \<Rightarrow> nat" where "UInt64SizePlusOne value = VarintSize64PlusOne value"

definition SInt32SizePlusOne :: "int32 \<Rightarrow> nat" where "SInt32SizePlusOne value = VarintSize32PlusOne (ZigZagEncode32 value)"

definition SInt64SizePlusOne :: "u64 \<Rightarrow> nat" where "SInt64SizePlusOne value = VarintSize64PlusOne (ZigZagEncode64 value)"

definition EnumSizePlusOne :: "int32 \<Rightarrow> nat" where "EnumSizePlusOne value = VarintSize32SignExtendedPlusOne value"

definition BytesSize :: "bytes \<Rightarrow> nat" where "BytesSize value = LengthDelimitedSize (length value)"
definition MessageSize :: "('m \<Rightarrow> nat) \<Rightarrow> 'm \<Rightarrow> nat" where
  "MessageSize ByteSizeLong value = LengthDelimitedSize (ByteSizeLong value)"
definition GroupSize :: "('m \<Rightarrow> nat) \<Rightarrow> 'm \<Rightarrow> nat" where
  "GroupSize ByteSizeLong value = ByteSizeLong value"

subsection \<open>Writing repeated fields\<close>

text \<open>
  The \<open>do\<close> loops over the elements: without the tag the field must have an element, with the tag
  the empty field writes nothing.
\<close>

function write_elements :: "('v \<Rightarrow> bytes) \<Rightarrow> 'v list \<Rightarrow> int \<Rightarrow> int \<Rightarrow> bytes result" where
  "write_elements Writer ii i n =
     bind_result (vec_get ii i) (\<lambda>v.
       if i + 1 < n then bind_result (write_elements Writer ii (i + 1) n) (\<lambda>bs. Inr (Writer v @ bs))
       else Inr (Writer v))"
  by pat_completeness auto
termination by (relation "measure (\<lambda>(_, _, i, n). nat (n - i))") auto

declare write_elements.simps [simp del]

definition WritePrimitiveNoTagToArray :: "('v \<Rightarrow> bytes) \<Rightarrow> 'v repeated_field \<Rightarrow> bytes result" where
  "WritePrimitiveNoTagToArray Writer value = write_elements Writer (rf_data value) 0 (rf_size value)"

text \<open>
  On a little-endian machine the array is copied as it lies in memory: its elements' bytes. Their number
  is a product of \<open>int\<close>s, with \<open>width\<close> for \<open>sizeof(T)\<close>.
\<close>

definition WriteFixedNoTagToArray :: "int \<Rightarrow> ('v \<Rightarrow> bytes) \<Rightarrow> 'v repeated_field \<Rightarrow> bytes result" where
  "WriteFixedNoTagToArray width layout value =
     (let n = rf_size value; ii = rf_data value in
      bind_result (mul_int32 n width) (\<lambda>bytes.
        if 0 \<le> bytes \<and> n \<le> int (length ii) then Inr (concat (map layout (take (nat n) ii))) else Inl OutOfBounds))"

definition WritePrimitiveToArray :: "u32 \<Rightarrow> (u32 \<Rightarrow> 'v \<Rightarrow> bytes) \<Rightarrow> 'v repeated_field \<Rightarrow> bytes result" where
  "WritePrimitiveToArray field_number Writer value =
     (if rf_size value = 0 then Inr []
      else write_elements (Writer field_number) (rf_data value) 0 (rf_size value))"

definition WriteInt32NoTagToArray_repeated :: "int32 repeated_field \<Rightarrow> bytes result" where
  "WriteInt32NoTagToArray_repeated value = WritePrimitiveNoTagToArray WriteInt32NoTagToArray value"

definition WriteInt64NoTagToArray_repeated :: "u64 repeated_field \<Rightarrow> bytes result" where
  "WriteInt64NoTagToArray_repeated value = WritePrimitiveNoTagToArray WriteInt64NoTagToArray value"

definition WriteUInt32NoTagToArray_repeated :: "u32 repeated_field \<Rightarrow> bytes result" where
  "WriteUInt32NoTagToArray_repeated value = WritePrimitiveNoTagToArray WriteUInt32NoTagToArray value"

definition WriteUInt64NoTagToArray_repeated :: "u64 repeated_field \<Rightarrow> bytes result" where
  "WriteUInt64NoTagToArray_repeated value = WritePrimitiveNoTagToArray WriteUInt64NoTagToArray value"

definition WriteSInt32NoTagToArray_repeated :: "int32 repeated_field \<Rightarrow> bytes result" where
  "WriteSInt32NoTagToArray_repeated value = WritePrimitiveNoTagToArray WriteSInt32NoTagToArray value"

definition WriteSInt64NoTagToArray_repeated :: "u64 repeated_field \<Rightarrow> bytes result" where
  "WriteSInt64NoTagToArray_repeated value = WritePrimitiveNoTagToArray WriteSInt64NoTagToArray value"

definition WriteFixed32NoTagToArray_repeated :: "u32 repeated_field \<Rightarrow> bytes result" where
  "WriteFixed32NoTagToArray_repeated value = WriteFixedNoTagToArray 4 WriteFixed32NoTagToArray value"

definition WriteFixed64NoTagToArray_repeated :: "u64 repeated_field \<Rightarrow> bytes result" where
  "WriteFixed64NoTagToArray_repeated value = WriteFixedNoTagToArray 8 WriteFixed64NoTagToArray value"

definition WriteSFixed32NoTagToArray_repeated :: "int32 repeated_field \<Rightarrow> bytes result" where
  "WriteSFixed32NoTagToArray_repeated value = WriteFixedNoTagToArray 4 WriteSFixed32NoTagToArray value"

definition WriteSFixed64NoTagToArray_repeated :: "u64 repeated_field \<Rightarrow> bytes result" where
  "WriteSFixed64NoTagToArray_repeated value = WriteFixedNoTagToArray 8 WriteSFixed64NoTagToArray value"

definition WriteFloatNoTagToArray_repeated :: "u32 repeated_field \<Rightarrow> bytes result" where
  "WriteFloatNoTagToArray_repeated value = WriteFixedNoTagToArray 4 WriteFloatNoTagToArray value"

definition WriteDoubleNoTagToArray_repeated :: "u64 repeated_field \<Rightarrow> bytes result" where
  "WriteDoubleNoTagToArray_repeated value = WriteFixedNoTagToArray 8 WriteDoubleNoTagToArray value"

definition WriteBoolNoTagToArray_repeated :: "bool repeated_field \<Rightarrow> bytes result" where
  "WriteBoolNoTagToArray_repeated value = WritePrimitiveNoTagToArray WriteBoolNoTagToArray value"

definition WriteEnumNoTagToArray_repeated :: "int32 repeated_field \<Rightarrow> bytes result" where
  "WriteEnumNoTagToArray_repeated value = WritePrimitiveNoTagToArray WriteEnumNoTagToArray value"

definition WriteInt32ToArray_repeated :: "u32 \<Rightarrow> int32 repeated_field \<Rightarrow> bytes result" where
  "WriteInt32ToArray_repeated field_number value = WritePrimitiveToArray field_number WriteInt32ToArray value"

definition WriteInt64ToArray_repeated :: "u32 \<Rightarrow> u64 repeated_field \<Rightarrow> bytes result" where
  "WriteInt64ToArray_repeated field_number value = WritePrimitiveToArray field_number WriteInt64ToArray value"

definition WriteUInt32ToArray_repeated :: "u32 \<Rightarrow> u32 repeated_field \<Rightarrow> bytes result" where
  "WriteUInt32ToArray_repeated field_number value = WritePrimitiveToArray field_number WriteUInt32ToArray value"

definition WriteUInt64ToArray_repeated :: "u32 \<Rightarrow> u64 repeated_field \<Rightarrow> bytes result" where
  "WriteUInt64ToArray_repeated field_number value = WritePrimitiveToArray field_number WriteUInt64ToArray value"

definition WriteSInt32ToArray_repeated :: "u32 \<Rightarrow> int32 repeated_field \<Rightarrow> bytes result" where
  "WriteSInt32ToArray_repeated field_number value = WritePrimitiveToArray field_number WriteSInt32ToArray value"

definition WriteSInt64ToArray_repeated :: "u32 \<Rightarrow> u64 repeated_field \<Rightarrow> bytes result" where
  "WriteSInt64ToArray_repeated field_number value = WritePrimitiveToArray field_number WriteSInt64ToArray value"

definition WriteFixed32ToArray_repeated :: "u32 \<Rightarrow> u32 repeated_field \<Rightarrow> bytes result" where
  "WriteFixed32ToArray_repeated field_number value = WritePrimitiveToArray field_number WriteFixed32ToArray value"

definition WriteFixed64ToArray_repeated :: "u32 \<Rightarrow> u64 repeated_field \<Rightarrow> bytes result" where
  "WriteFixed64ToArray_repeated field_number value = WritePrimitiveToArray field_number WriteFixed64ToArray value"

definition WriteSFixed32ToArray_repeated :: "u32 \<Rightarrow> int32 repeated_field \<Rightarrow> bytes result" where
  "WriteSFixed32ToArray_repeated field_number value = WritePrimitiveToArray field_number WriteSFixed32ToArray value"

definition WriteSFixed64ToArray_repeated :: "u32 \<Rightarrow> u64 repeated_field \<Rightarrow> bytes result" where
  "WriteSFixed64ToArray_repeated field_number value = WritePrimitiveToArray field_number WriteSFixed64ToArray value"

definition WriteFloatToArray_repeated :: "u32 \<Rightarrow> u32 repeated_field \<Rightarrow> bytes result" where
  "WriteFloatToArray_repeated field_number value = WritePrimitiveToArray field_number WriteFloatToArray value"

definition WriteDoubleToArray_repeated :: "u32 \<Rightarrow> u64 repeated_field \<Rightarrow> bytes result" where
  "WriteDoubleToArray_repeated field_number value = WritePrimitiveToArray field_number WriteDoubleToArray value"

definition WriteBoolToArray_repeated :: "u32 \<Rightarrow> bool repeated_field \<Rightarrow> bytes result" where
  "WriteBoolToArray_repeated field_number value = WritePrimitiveToArray field_number WriteBoolToArray value"

definition WriteEnumToArray_repeated :: "u32 \<Rightarrow> int32 repeated_field \<Rightarrow> bytes result" where
  "WriteEnumToArray_repeated field_number value = WritePrimitiveToArray field_number WriteEnumToArray value"

subsection \<open>Reading packed fields\<close>

text \<open>
  \<open>ReadPackedVarintArray\<close> reads until the position is at or behind the end, \<open>k\<close> bytes ahead; a varint takes at
  least one byte. The buffer is one chunk.
\<close>

fun ReadPackedVarintArray ::
    "nat \<Rightarrow> pb_lib \<Rightarrow> (u64 \<Rightarrow> 'm \<Rightarrow> 'm) \<Rightarrow> bytes \<Rightarrow> int \<Rightarrow> 'm \<Rightarrow> (bytes \<times> int \<times> 'm) option" where
  "ReadPackedVarintArray fuel L add p k m =
     (if k \<le> 0 then Some (p, k, m)
      else case fuel of
        0 \<Rightarrow> None
      | Suc n \<Rightarrow>
          (case VarintParse64 L p of
             None \<Rightarrow> None
           | Some (r, v) \<Rightarrow> ReadPackedVarintArray n L add r (k - int (length p - length r)) (add v m)))"

declare ReadPackedVarintArray.simps [simp del]

definition ReadPackedVarint :: "pb_lib \<Rightarrow> (u64 \<Rightarrow> 'm \<Rightarrow> 'm) \<Rightarrow> bytes \<Rightarrow> 'm \<Rightarrow> (bytes \<times> 'm) option" where
  "ReadPackedVarint L add p m =
     (case ReadSize L p of
        None \<Rightarrow> None
      | Some (r, k) \<Rightarrow>
          if length r < k then None
          else (case ReadPackedVarintArray k L add r (int k) m of
                  None \<Rightarrow> None
                | Some (r', k', m') \<Rightarrow> if k' = 0 then Some (r', m') else None))"

fun load_many :: "(bytes \<Rightarrow> (bytes \<times> 'v) option) \<Rightarrow> nat \<Rightarrow> bytes \<Rightarrow> (bytes \<times> 'v list) option" where
  "load_many load 0 p = Some (p, [])"
| "load_many load (Suc n) p =
     (case load p of
        None \<Rightarrow> None
      | Some (r, v) \<Rightarrow> map_option (\<lambda>(r', vs). (r', v # vs)) (load_many load n r))"

text \<open>
  The last round of \<open>ReadPackedFixed\<close>, with the whole array in the buffer (the loop over buffers is
  \<open>ReadPackedFixed_loop\<close> of \<open>Eps_Input\<close>): room for the elements, the size moved on, the bytes copied over
  them. \<open>size / sizeof(T)\<close> and \<open>num * sizeof(T)\<close> are computed in \<open>size_t\<close> and narrowed to \<open>int\<close>. A length that
  is not a multiple of the width fails after the whole elements were appended.
\<close>

definition size_quotient :: "int \<Rightarrow> nat \<Rightarrow> int" where
  "size_quotient n width = sint (of_int (n mod 2 ^ 64 div int width) :: int32)"

definition size_product :: "int \<Rightarrow> nat \<Rightarrow> int" where
  "size_product num width = sint (of_int (num * int width) :: int32)"

definition ReadPackedFixed ::
    "nat \<Rightarrow> (nat \<Rightarrow> 'v list) \<Rightarrow> (bytes \<Rightarrow> (bytes \<times> 'v) option) \<Rightarrow> bytes \<Rightarrow> int \<Rightarrow> 'v repeated_field \<Rightarrow>
      (bytes option \<times> 'v repeated_field) result" where
  "ReadPackedFixed width fresh load p n out =
     (let num = size_quotient n width; old_entries = rf_size out; block_size = size_product num width in
      bind_result (add_int32 old_entries num) (\<lambda>k.
      bind_result (rf_Reserve (int width) fresh k out) (\<lambda>out1.
      bind_result (AddNAlreadyReserved num out1) (\<lambda>out2.
      if block_size < 0 then Inl OutOfBounds
      else (case load_many load (nat num) p of
        None \<Rightarrow> Inl OutOfBounds
      | Some (r, vs) \<Rightarrow>
          bind_result (CopyArray (rf_elements out2) old_entries vs num) (\<lambda>es.
            Inr (if n \<noteq> block_size then None else Some r, out2\<lparr>rf_elements := es\<rparr>)))))))"

lemma size_quotient_multiple:
  assumes "0 < width" and "int k * int width \<le> int32_max"
  shows "size_quotient (int k * int width) width = int k" and "size_product (int k) width = int k * int width"
proof -
  have "int k * 1 \<le> int k * int width" using assms(1) by (intro mult_left_mono) simp_all
  with assms(2) have k: "k < 2147483648" by (simp add: int32_max_def)
  have "int k * int width mod 2 ^ 64 = int k * int width"
    using assms(2) by (intro mod_pos_pos_trivial) (simp_all add: int32_max_def)
  then show "size_quotient (int k * int width) width = int k"
    using assms(1) sint_of_nat_small [OF k] by (simp add: size_quotient_def)
  have "k * width < 2147483648"
    using assms(2) by (simp add: int32_max_def flip: of_nat_mult)
  from sint_of_nat_small [OF this] show "size_product (int k) width = int k * int width"
    by (simp add: size_product_def)
qed

section \<open>What a scalar type promises\<close>

lemma rf_list_data: "rf_ok f \<Longrightarrow> take (nat (rf_size f)) (rf_data f) = rf_list f \<and> int (length (rf_list f)) = rf_size f"
  using length_rf_list [of f] by (simp add: rf_list_def rf_size_def rf_data_def)

lemma write_elements_eq:
  "0 \<le> i \<Longrightarrow> i < n \<Longrightarrow> n \<le> int (length ii) \<Longrightarrow>
     write_elements Writer ii i n = Inr (concat (map Writer (drop (nat i) (take (nat n) ii))))"
proof (induction Writer ii i n rule: write_elements.induct)
  case (1 Writer ii i n)
  have d: "drop (nat i) (take (nat n) ii) = ii ! nat i # drop (nat (i + 1)) (take (nat n) ii)"
  proof -
    have "nat i < length (take (nat n) ii)" "nat i < nat n" "nat (i + 1) = Suc (nat i)" using 1(2-4) by auto
    then show ?thesis using Cons_nth_drop_Suc [of "nat i" "take (nat n) ii"] by (simp only: nth_take)
  qed
  from 1(2-4) have g: "vec_get ii i = Inr (ii ! nat i)" by (simp add: vec_get_def)
  show ?case
  proof (cases "i + 1 < n")
    case True
    have "write_elements Writer ii (i + 1) n = Inr (concat (map Writer (drop (nat (i + 1)) (take (nat n) ii))))"
      using 1(2-4) True by (intro 1(1) [OF g True]) simp_all
    with True g show ?thesis unfolding d by (subst write_elements.simps) simp
  next
    case False
    then have "drop (nat (i + 1)) (take (nat n) ii) = []" using 1(2-4) by simp
    with False g show ?thesis unfolding d by (subst write_elements.simps) simp
  qed
qed

lemma repeated_writers:
  assumes "rf_ok f"
  shows "rf_list f \<noteq> [] \<Longrightarrow> WritePrimitiveNoTagToArray w f = Inr (concat (map w (rf_list f)))"
    and "0 < width \<Longrightarrow> WriteFixedNoTagToArray width w f =
      (if current_size f * width \<le> int32_max then Inr (concat (map w (rf_list f))) else Inl SignedOverflow)"
    and "WritePrimitiveToArray field w' f = Inr (concat (map (w' field) (rf_list f)))"
proof -
  note l = rf_list_data [OF assms]
  have n: "0 \<le> rf_size f" "rf_size f \<le> int (length (rf_data f))"
    using assms by (auto simp: rf_ok_def rf_size_def rf_data_def)
  have e: "write_elements u (rf_data f) 0 (rf_size f) = Inr (concat (map u (rf_list f)))" if "rf_list f \<noteq> []" for u
  proof -
    have "0 < rf_size f" using that l n(1) by (metis length_greater_0_conv of_nat_0_less_iff)
    with write_elements_eq [of 0 "rf_size f" "rf_data f" u] n(2) l show ?thesis by simp
  qed
  show "rf_list f \<noteq> [] \<Longrightarrow> WritePrimitiveNoTagToArray w f = Inr (concat (map w (rf_list f)))"
    by (simp add: WritePrimitiveNoTagToArray_def e)
  show "WriteFixedNoTagToArray width w f =
      (if current_size f * width \<le> int32_max then Inr (concat (map w (rf_list f))) else Inl SignedOverflow)" if "0 < width"
  proof -
    have "0 \<le> current_size f * width" using n(1) that by (simp add: rf_size_def)
    then show ?thesis
      using n l by (auto simp: WriteFixedNoTagToArray_def Let_def mul_int32_def in_int32_def int32_min_def rf_size_def)
  qed
  show "WritePrimitiveToArray field w' f = Inr (concat (map (w' field) (rf_list f)))"
    by (cases "rf_list f = []") (use e [of "w' field"] l in \<open>auto simp: WritePrimitiveToArray_def\<close>)
qed

locale scalar =
  fixes write_value :: "'v \<Rightarrow> bytes"
    and write_field :: "u32 \<Rightarrow> 'v \<Rightarrow> bytes"
    and wiretype :: u32
    and value_size :: "'v \<Rightarrow> nat"
    and read_value :: "pb_lib \<Rightarrow> bytes \<Rightarrow> (bytes \<times> 'v) option"
  assumes field: "write_field n v = WriteTagToArray n wiretype @ write_value v"
    and value_length: "length (write_value v) = value_size v"
    and read_back: "pb_lib_ok L \<Longrightarrow> read_value L (write_value v @ r) = Some (r, v)"
begin

lemma repeated_field_bytes:
  "rf_ok f \<Longrightarrow> WritePrimitiveToArray n write_field f =
     Inr (concat (map (\<lambda>v. WriteTagToArray n wiretype @ write_value v) (rf_list f)))"
  by (simp add: repeated_writers(3) field [abs_def])

lemma length_values: "length (concat (map write_value vs)) = sum_list (map value_size vs)"
  by (induction vs) (simp_all add: value_length)

lemma load_back:
  "pb_lib_ok L \<Longrightarrow> load_many (read_value L) (length vs) (concat (map write_value vs) @ r) = Some (r, vs)"
  by (induction vs) (simp_all add: read_back)

end

text \<open>A type whose values are varints, and one whose values have a fixed width.\<close>

locale varint_scalar = scalar +
  fixes to64 :: "'a \<Rightarrow> u64" and of64 :: "u64 \<Rightarrow> 'a"
  assumes varint: "write_value v = UnsafeVarint (to64 v)" and of64_to64: "of64 (to64 v) = v"
begin

lemma packed_array:
  assumes "pb_lib_ok L"
  shows "length (concat (map write_value vs)) \<le> fuel \<Longrightarrow>
    ReadPackedVarintArray fuel L (\<lambda>v xs. xs @ [of64 v]) (concat (map write_value vs) @ r)
      (int (length (concat (map write_value vs)))) m = Some (r, 0, m @ vs)"
proof (induction vs arbitrary: fuel m)
  case Nil
  then show ?case by (subst ReadPackedVarintArray.simps) simp
next
  case (Cons v vs)
  have pos: "0 < length (write_value v)" by (simp add: varint)
  then obtain k where k: "fuel = Suc k" "length (concat (map write_value vs)) \<le> k"
    using Cons.prems by (cases fuel) (simp_all add: length_greater_0_conv [symmetric] del: length_concat length_greater_0_conv)
  have p: "VarintParse64 L (write_value v @ concat (map write_value vs) @ r) = Some (concat (map write_value vs) @ r, to64 v)"
    unfolding varint [of v] by (rule VarintParse64_UnsafeVarint [OF assms])
  have "\<not> int (length (write_value v)) + int (length (concat (map write_value vs))) \<le> 0" using pos by linarith
  then show ?case
    using Cons.IH [OF k(2), of "m @ [v]"] p k(1)
    by (subst ReadPackedVarintArray.simps) (simp add: of64_to64)
qed

lemma packed_varints_back:
  assumes "pb_lib_ok L" and "length (concat (map write_value vs)) < 2 ^ 31 - 16"
  shows "ReadPackedVarint L (\<lambda>v xs. xs @ [of64 v])
    (WriteVarint32ToArray (of_nat (length (concat (map write_value vs)))) @ concat (map write_value vs) @ r) [] = Some (r, vs)"
  using packed_array [OF assms(1) order_refl, of vs r "[]"] ReadSize_size [OF assms]
  by (simp add: ReadPackedVarint_def)

end

locale fixed_scalar = scalar +
  fixes width :: nat
  assumes width: "value_size v = width" and width_pos: "0 < width" and width_16: "width \<le> 16"
begin

lemma packed_fixed_roundtrip:
  assumes "pb_lib_ok L" and "fresh_ok fresh" and "rf_ok f" and "int (length (rf_list f)) + int (length vs) \<le> int32_max"
    and "int (length vs) * int width \<le> int32_max"
  shows "\<exists>f'. ReadPackedFixed width fresh (read_value L) (concat (map write_value vs) @ r) (int (length (concat (map write_value vs)))) f =
      Inr (Some r, f') \<and> rf_ok f' \<and> rf_list f' = rf_list f @ vs"
proof -
  have n: "length (concat (map write_value vs)) = length vs * width"
    by (simp only: length_values) (induction vs, simp_all add: width)
  have sz: "0 < int width" "int width \<le> 16" using width_pos width_16 by simp_all
  from rf_repE [OF assms(3) refl] obtain ys where f: "rf_rep f (rf_list f) ys" by blast
  from Reserve_room [OF sz assms(2) f assms(4) refl] obtain f1 us zs where
    f1: "rf_Reserve (int width) fresh (int (length (rf_list f)) + int (length vs)) f = Inr f1"
      "rf_rep f1 (rf_list f) (us @ zs)" "length us = length vs" by metis
  have c: "current_size f = int (length (rf_list f))" "current_size f1 = int (length (rf_list f))"
    "rf_elements f1 = rf_list f @ us @ zs"
    using f f1(2) by (simp_all add: rf_rep_def)
  let ?f = "f1\<lparr>rf_elements := rf_list f @ vs @ zs, current_size := int (length (rf_list f) + length us)\<rparr>"
  note q = size_quotient_multiple [OF width_pos assms(5)]
  have nn: "\<not> int (length vs) * int width < 0" by (simp add: not_less)
  have "ReadPackedFixed width fresh (read_value L) (concat (map write_value vs) @ r) (int (length vs) * int width) f = Inr (Some r, ?f)"
    using f1(1,3) c add_int32_size [OF assms(4)] copy_at_end [of us vs "rf_list f" zs "[]"] width_pos load_back [OF assms(1), of vs r]
    by (simp add: ReadPackedFixed_def rf_size_def AddNAlreadyReserved_def Let_def q nn)
  moreover have "rf_ok ?f \<and> rf_list ?f = rf_list f @ vs"
    using rep_use [OF f1(2), of vs] f1(3) rf_rep_iff [of ?f "rf_list f @ vs"] by auto
  ultimately show ?thesis unfolding n of_nat_mult by blast
qed

end

section \<open>The fourteen types\<close>

lemma UnalignedLoad64_back: "UnalignedLoad64 (WriteLittleEndian64ToArray v @ r) = Some (r, v)"
proof -
  have "ucast (ucast v :: u32) OR push_bit 32 (ucast (ucast (drop_bit 32 v) :: u32)) = v" (is "?w = v")
  proof (rule bit_word_eqI)
    fix n
    assume "n < LENGTH(64)"
    then consider "n < 32" | "32 \<le> n" "n < 64" by force
    then show "bit ?w n = bit v n" by cases (auto simp: bit_simps not_le)
  qed
  then show ?thesis by (simp add: UnalignedLoad64_def WriteLittleEndian64ToArray_def UnalignedLoad_float)
qed

lemma ucast_u32_u64: "ucast (ucast v :: u64) = v" "ucast (scast v :: u64) = v" for v :: u32
  by (rule bit_word_eqI, auto simp: bit_simps)+

lemmas varint_writers = WriteVarint32ToArray_def WriteVarint64ToArray_def WriteVarint32SignExtendedToArray_def
  WIRETYPE_VARINT_def WIRETYPE_FIXED32_def WIRETYPE_FIXED64_def

lemma UnsafeVarint_bool: "length (UnsafeVarint 1) = 1" "length (UnsafeVarint 0) = 1"
  by (simp_all add: UnsafeVarint.simps)

lemmas varint_sizes = UnsafeVarint_bool VarintSize32_eq VarintSize64_eq VarintSize32SignExtended_def

lemmas varint_readers = ReadVarint32_def ReadVarint64_def ReadVarintZigZag32_def ReadVarintZigZag64_def
  VarintParse32_UnsafeVarint VarintParse32_UnsafeVarint64 VarintParse64_UnsafeVarint ucast_u32_u64 ZigZag32 ZigZag64

interpretation int32: varint_scalar WriteInt32NoTagToArray WriteInt32ToArray WIRETYPE_VARINT "Int32Size" "\<lambda>L p. ReadVarint32 L p"
    "scast" "ucast"
  by unfold_locales (simp_all add: WriteInt32NoTagToArray_def WriteInt32ToArray_def Int32Size_def
      varint_writers varint_sizes varint_readers)

interpretation int64: varint_scalar WriteInt64NoTagToArray WriteInt64ToArray WIRETYPE_VARINT "Int64Size" "\<lambda>L p. ReadVarint64 L p"
    "\<lambda>v. v" "\<lambda>v. v"
  by unfold_locales (simp_all add: WriteInt64NoTagToArray_def WriteInt64ToArray_def Int64Size_def
      varint_writers varint_sizes varint_readers)

interpretation uint32: varint_scalar WriteUInt32NoTagToArray WriteUInt32ToArray WIRETYPE_VARINT "UInt32Size" "\<lambda>L p. ReadVarint32 L p"
    "ucast" "ucast"
  by unfold_locales (simp_all add: WriteUInt32NoTagToArray_def WriteUInt32ToArray_def UInt32Size_def
      varint_writers varint_sizes varint_readers)

interpretation uint64: varint_scalar WriteUInt64NoTagToArray WriteUInt64ToArray WIRETYPE_VARINT "UInt64Size" "\<lambda>L p. ReadVarint64 L p"
    "\<lambda>v. v" "\<lambda>v. v"
  by unfold_locales (simp_all add: WriteUInt64NoTagToArray_def WriteUInt64ToArray_def UInt64Size_def
      varint_writers varint_sizes varint_readers)

interpretation sint32: varint_scalar WriteSInt32NoTagToArray WriteSInt32ToArray WIRETYPE_VARINT "SInt32Size" "\<lambda>L p. ReadVarintZigZag32 L p"
    "\<lambda>v. ucast (ZigZagEncode32 v)" "\<lambda>v. ZigZagDecode32 (ucast v)"
  by unfold_locales (simp_all add: WriteSInt32NoTagToArray_def WriteSInt32ToArray_def SInt32Size_def
      varint_writers varint_sizes varint_readers)

interpretation sint64: varint_scalar WriteSInt64NoTagToArray WriteSInt64ToArray WIRETYPE_VARINT "SInt64Size" "\<lambda>L p. ReadVarintZigZag64 L p"
    "ZigZagEncode64" "ZigZagDecode64"
  by unfold_locales (simp_all add: WriteSInt64NoTagToArray_def WriteSInt64ToArray_def SInt64Size_def
      varint_writers varint_sizes varint_readers)

interpretation fixed32: fixed_scalar WriteFixed32NoTagToArray WriteFixed32ToArray WIRETYPE_FIXED32 "\<lambda>_. kFixed32Size" "\<lambda>L p. UnalignedLoad p" 4
  by unfold_locales
    ((simp add: WriteFixed32NoTagToArray_def WriteFixed32ToArray_def kFixed32Size_def varint_writers; fail) |
     (simp add: WriteFixed32NoTagToArray_def WriteFixed32ToArray_def kFixed32Size_def UnalignedLoad_float; fail) | simp add: WriteFixed32NoTagToArray_def WriteFixed32ToArray_def kFixed32Size_def WriteLittleEndian32ToArray_def)+

interpretation fixed64: fixed_scalar WriteFixed64NoTagToArray WriteFixed64ToArray WIRETYPE_FIXED64 "\<lambda>_. kFixed64Size" "\<lambda>L p. UnalignedLoad64 p" 8
  by unfold_locales
    ((simp add: WriteFixed64NoTagToArray_def WriteFixed64ToArray_def kFixed64Size_def varint_writers; fail) |
     (simp add: WriteFixed64NoTagToArray_def WriteFixed64ToArray_def kFixed64Size_def UnalignedLoad64_back; fail) | simp add: WriteFixed64NoTagToArray_def WriteFixed64ToArray_def kFixed64Size_def WriteLittleEndian64ToArray_def WriteLittleEndian32ToArray_def)+

interpretation sfixed32: fixed_scalar WriteSFixed32NoTagToArray WriteSFixed32ToArray WIRETYPE_FIXED32 "\<lambda>_. kSFixed32Size" "\<lambda>L p. UnalignedLoad p" 4
  by unfold_locales
    ((simp add: WriteSFixed32NoTagToArray_def WriteSFixed32ToArray_def kSFixed32Size_def varint_writers; fail) |
     (simp add: WriteSFixed32NoTagToArray_def WriteSFixed32ToArray_def kSFixed32Size_def UnalignedLoad_float; fail) | simp add: WriteSFixed32NoTagToArray_def WriteSFixed32ToArray_def kSFixed32Size_def WriteLittleEndian32ToArray_def)+

interpretation sfixed64: fixed_scalar WriteSFixed64NoTagToArray WriteSFixed64ToArray WIRETYPE_FIXED64 "\<lambda>_. kSFixed64Size" "\<lambda>L p. UnalignedLoad64 p" 8
  by unfold_locales
    ((simp add: WriteSFixed64NoTagToArray_def WriteSFixed64ToArray_def kSFixed64Size_def varint_writers; fail) |
     (simp add: WriteSFixed64NoTagToArray_def WriteSFixed64ToArray_def kSFixed64Size_def UnalignedLoad64_back; fail) | simp add: WriteSFixed64NoTagToArray_def WriteSFixed64ToArray_def kSFixed64Size_def WriteLittleEndian64ToArray_def WriteLittleEndian32ToArray_def)+

interpretation float: fixed_scalar WriteFloatNoTagToArray WriteFloatToArray WIRETYPE_FIXED32 "\<lambda>_. kFloatSize" "\<lambda>L p. UnalignedLoad p" 4
  by unfold_locales
    ((simp add: WriteFloatNoTagToArray_def WriteFloatToArray_def kFloatSize_def varint_writers; fail) |
     (simp add: WriteFloatNoTagToArray_def WriteFloatToArray_def kFloatSize_def UnalignedLoad_float; fail) | simp add: WriteFloatNoTagToArray_def WriteFloatToArray_def kFloatSize_def WriteLittleEndian32ToArray_def)+

interpretation double: fixed_scalar WriteDoubleNoTagToArray WriteDoubleToArray WIRETYPE_FIXED64 "\<lambda>_. kDoubleSize" "\<lambda>L p. UnalignedLoad64 p" 8
  by unfold_locales
    ((simp add: WriteDoubleNoTagToArray_def WriteDoubleToArray_def kDoubleSize_def varint_writers; fail) |
     (simp add: WriteDoubleNoTagToArray_def WriteDoubleToArray_def kDoubleSize_def UnalignedLoad64_back; fail) | simp add: WriteDoubleNoTagToArray_def WriteDoubleToArray_def kDoubleSize_def WriteLittleEndian64ToArray_def WriteLittleEndian32ToArray_def)+

interpretation bool: varint_scalar WriteBoolNoTagToArray WriteBoolToArray WIRETYPE_VARINT "\<lambda>_. kBoolSize" "\<lambda>L p. map_option (\<lambda>(r, v). (r, v \<noteq> 0)) (ReadVarint64 L p)"
    "\<lambda>v. if v then 1 else 0" "\<lambda>v. v \<noteq> 0"
  by unfold_locales (simp_all add: WriteBoolNoTagToArray_def WriteBoolToArray_def kBoolSize_def
      varint_writers varint_sizes varint_readers)

interpretation enum: varint_scalar WriteEnumNoTagToArray WriteEnumToArray WIRETYPE_VARINT "EnumSize" "\<lambda>L p. map_option (\<lambda>(r, v). (r, ucast v)) (ReadVarint64 L p)"
    "scast" "ucast"
  by unfold_locales (simp_all add: WriteEnumNoTagToArray_def WriteEnumToArray_def EnumSize_def
      varint_writers varint_sizes varint_readers)

section \<open>Properties\<close>

lemma length_concat_map_le: "(\<And>v. length (w v) \<le> k) \<Longrightarrow> length (concat (map w vs)) \<le> k * length vs"
proof (induction vs)
  case (Cons v vs)
  have "length (concat (map w vs)) \<le> k * length vs" by (rule Cons.IH [OF Cons.prems])
  with Cons.prems [of v] show ?case by (simp del: length_concat)
qed simp

text \<open>C22: Every scalar type of the wire format survives the wire: what its writer appends is exactly as long as the size that
  was computed for it and is read back, whatever follows, by the reader that generated code pairs with it. That holds for all
  values: negative ones that travel sign-extended, ZigZag codes, the bits of floating-point numbers, enums.\<close>

theorem scalar_roundtrip:
  assumes "pb_lib_ok L"
  shows "ReadVarint32 L (WriteInt32NoTagToArray v @ r) = Some (r, v) \<and> length (WriteInt32NoTagToArray v) = Int32Size v \<and>
     ReadVarint64 L (WriteInt64NoTagToArray w @ r) = Some (r, w) \<and> length (WriteInt64NoTagToArray w) = Int64Size w \<and>
     ReadVarint32 L (WriteUInt32NoTagToArray v @ r) = Some (r, v) \<and> length (WriteUInt32NoTagToArray v) = UInt32Size v \<and>
     ReadVarint64 L (WriteUInt64NoTagToArray w @ r) = Some (r, w) \<and> length (WriteUInt64NoTagToArray w) = UInt64Size w \<and>
     ReadVarintZigZag32 L (WriteSInt32NoTagToArray v @ r) = Some (r, v) \<and> length (WriteSInt32NoTagToArray v) = SInt32Size v \<and>
     ReadVarintZigZag64 L (WriteSInt64NoTagToArray w @ r) = Some (r, w) \<and> length (WriteSInt64NoTagToArray w) = SInt64Size w \<and>
     UnalignedLoad (WriteFixed32NoTagToArray v @ r) = Some (r, v) \<and> length (WriteFixed32NoTagToArray v) = kFixed32Size \<and>
     UnalignedLoad64 (WriteFixed64NoTagToArray w @ r) = Some (r, w) \<and> length (WriteFixed64NoTagToArray w) = kFixed64Size \<and>
     UnalignedLoad (WriteSFixed32NoTagToArray v @ r) = Some (r, v) \<and> length (WriteSFixed32NoTagToArray v) = kSFixed32Size \<and>
     UnalignedLoad64 (WriteSFixed64NoTagToArray w @ r) = Some (r, w) \<and> length (WriteSFixed64NoTagToArray w) = kSFixed64Size \<and>
     UnalignedLoad (WriteFloatNoTagToArray v @ r) = Some (r, v) \<and> length (WriteFloatNoTagToArray v) = kFloatSize \<and>
     UnalignedLoad64 (WriteDoubleNoTagToArray w @ r) = Some (r, w) \<and> length (WriteDoubleNoTagToArray w) = kDoubleSize \<and>
     map_option (\<lambda>(q, x). (q, x \<noteq> 0)) (ReadVarint64 L (WriteBoolNoTagToArray b @ r)) = Some (r, b) \<and> length (WriteBoolNoTagToArray b) = kBoolSize \<and>
     map_option (\<lambda>(q, x). (q, ucast x)) (ReadVarint64 L (WriteEnumNoTagToArray v @ r)) = Some (r, v) \<and> length (WriteEnumNoTagToArray v) = EnumSize v"
  by (intro conjI; rule int32.read_back [OF assms] int32.value_length int64.read_back [OF assms] int64.value_length uint32.read_back [OF assms] uint32.value_length uint64.read_back [OF assms] uint64.value_length sint32.read_back [OF assms] sint32.value_length sint64.read_back [OF assms] sint64.value_length fixed32.read_back [OF assms] fixed32.value_length fixed64.read_back [OF assms] fixed64.value_length sfixed32.read_back [OF assms] sfixed32.value_length sfixed64.read_back [OF assms] sfixed64.value_length float.read_back [OF assms] float.value_length double.read_back [OF assms] double.value_length bool.read_back [OF assms] bool.value_length enum.read_back [OF assms] enum.value_length)

text \<open>C27: Packed fields: the array of a non-empty \<open>sint32\<close> field, written with its length in front and read back value by value,
  gives the field's list again and stops at the bytes behind it. The array of a \<open>float\<close> field is copied as it lies in memory
  when its bytes can be counted in an \<open>int\<close>, and the packed reader appends it, from one buffer, to what the receiving
  field holds, through any growth of that field; from 2 to the 29 elements on the count of bytes overflows.\<close>

theorem packed_roundtrip:
  assumes "pb_lib_ok L" and "rf_ok f" and "rf_list f \<noteq> []" and "length (rf_list f) < 2 ^ 27"
    and "rf_ok g" and "rf_ok h" and "fresh_ok fresh" and "current_size h + current_size g \<le> int32_max"
  shows "(\<exists>bs. WriteSInt32NoTagToArray_repeated f = Inr bs \<and>
       ReadPackedVarint L (\<lambda>v xs. xs @ [ZigZagDecode32 (ucast v)]) (WriteVarint32ToArray (of_nat (length bs)) @ bs @ r) [] =
         Some (r, rf_list f)) \<and>
     (if current_size g < 2 ^ 29
      then \<exists>bs h'. WriteFloatNoTagToArray_repeated g = Inr bs \<and>
        ReadPackedFixed 4 fresh UnalignedLoad (bs @ r) (int (length bs)) h = Inr (Some r, h') \<and> rf_ok h' \<and>
        rf_list h' = rf_list h @ rf_list g
      else WriteFloatNoTagToArray_repeated g = Inl SignedOverflow)"
proof (intro conjI)
  let ?bs = "concat (map WriteSInt32NoTagToArray (rf_list f))"
  have "length ?bs \<le> 10 * length (rf_list f)"
    by (rule length_concat_map_le) (simp add: WriteSInt32NoTagToArray_def WriteVarint32ToArray_def length_UnsafeVarint_le)
  then have "length ?bs < 2 ^ 31 - 16" using assms(4) by simp
  with sint32.packed_varints_back [OF assms(1), of "rf_list f" r] repeated_writers(1) [OF assms(2,3)]
  show "\<exists>bs. WriteSInt32NoTagToArray_repeated f = Inr bs \<and>
       ReadPackedVarint L (\<lambda>v xs. xs @ [ZigZagDecode32 (ucast v)]) (WriteVarint32ToArray (of_nat (length bs)) @ bs @ r) [] =
         Some (r, rf_list f)"
    by (simp add: WriteSInt32NoTagToArray_repeated_def)
next
  have n: "int (length (rf_list h)) + int (length (rf_list g)) \<le> int32_max" "int (length (rf_list g)) = current_size g"
    using assms(8) length_rf_list [OF assms(5)] length_rf_list [OF assms(6)] by simp_all
  have w: "WriteFloatNoTagToArray_repeated g =
      (if current_size g < 2 ^ 29 then Inr (concat (map WriteFloatNoTagToArray (rf_list g))) else Inl SignedOverflow)"
    unfolding WriteFloatNoTagToArray_repeated_def
    by (subst repeated_writers(2) [OF assms(5)]) (auto simp: int32_max_def)
  show "if current_size g < 2 ^ 29
      then \<exists>bs h'. WriteFloatNoTagToArray_repeated g = Inr bs \<and>
        ReadPackedFixed 4 fresh UnalignedLoad (bs @ r) (int (length bs)) h = Inr (Some r, h') \<and> rf_ok h' \<and>
        rf_list h' = rf_list h @ rf_list g
      else WriteFloatNoTagToArray_repeated g = Inl SignedOverflow"
    using float.packed_fixed_roundtrip [OF assms(1,7,6) n(1), of r] n(2) by (simp add: w int32_max_def)
qed

subsection \<open>Witnesses\<close>

theorem scalar_roundtrip_witness:
  "ReadVarintZigZag32 ref_lib (WriteSInt32NoTagToArray (- 3) @ [9]) = Some ([9], - 3) \<and>
   length (WriteSInt32NoTagToArray (- 3)) = SInt32Size (- 3)"
  using scalar_roundtrip [OF ref_lib_ok, where r = "[9]" and v = "- 3" and w = 7 and b = True] by blast

theorem packed_roundtrip_witness:
  "\<exists>bs h'. WriteFloatNoTagToArray_repeated \<lparr>current_size = 2, total_size = 3, rf_arena = None, rf_elements = [5, 6, 7]\<rparr> = Inr bs \<and>
     ReadPackedFixed 4 (\<lambda>n. replicate n 0) UnalignedLoad (bs @ [9]) (int (length bs)) (RepeatedField_new None) = Inr (Some [9], h') \<and>
     rf_list h' = [5, 6]"
proof -
  let ?f = "\<lparr>current_size = 2, total_size = 3, rf_arena = None, rf_elements = [5, 6, 7]\<rparr> :: u32 repeated_field"
  have ok: "rf_ok ?f" "rf_list ?f = [5, 6]" by (simp_all add: rf_ok_def rf_list_def int32_max_def numeral_eq_Suc)
  have c: "rf_list ?f \<noteq> []" "length (rf_list ?f) < 2 ^ 27" "fresh_ok (\<lambda>n. replicate n (0 :: u32))"
    "current_size (RepeatedField_new None :: u32 repeated_field) + current_size ?f \<le> int32_max"
    by (simp_all add: ok(2) fresh_ok_def int32_max_def RepeatedField_new_def)
  from packed_roundtrip [OF ref_lib_ok ok(1) c(1,2) ok(1) rf_ok_new(1) c(3,4), of "[9]"]
  show ?thesis unfolding ok(2) rf_ok_new(2) append_Nil by (simp, blast)
qed


end
