(* ===== verification/Repeated_Ptr.thy ===== *)
theory Repeated_Ptr
  imports Messages_Item "HOL-Library.Multiset"
begin

text \<open>
  The container of submessages and strings, \<^verbatim>\<open>google/protobuf/repeated_ptr_field.h\<close>: an array of pointers to
  objects, of which the first \<open>current_size\<close> are in use and the next, up to \<open>allocated_size\<close>, are cleared objects
  that wait for reuse. The objects live in an explicit store, so that what is shared, deleted or leaked can be
  stated. The functions of the \<^verbatim>\<open>.cc\<close> file are a parameter, described by \<open>rp_lib_ok\<close>, and the
  type of the elements is a handler, whose laws are the locale \<open>type_handler\<close>.
\<close>

section \<open>Objects\<close>

text \<open>
  An object has the arena that it was constructed on and the arena that will destroy it; both are missing for an
  object on the heap, and \<open>Own\<close> gives a heap object an owner.
\<close>

record 'm object =
  ob_arena :: "nat option"
  ob_owner :: "nat option"
  ob_value :: 'm

record 'm store =
  ob_at :: "nat \<Rightarrow> 'm object option"
  ob_next :: nat

definition ob_load :: "'m store \<Rightarrow> nat \<Rightarrow> 'm object result" where
  "ob_load st p = (case ob_at st p of None \<Rightarrow> Inl UseAfterFree | Some ob \<Rightarrow> Inr ob)"

definition ob_update :: "nat \<Rightarrow> ('m \<Rightarrow> 'm) \<Rightarrow> 'm store \<Rightarrow> 'm store result" where
  "ob_update p g st =
     bind_result (ob_load st p) (\<lambda>ob. Inr (st\<lparr>ob_at := (ob_at st)(p := Some (ob\<lparr>ob_value := g (ob_value ob)\<rparr>))\<rparr>))"

definition arena_Own :: "nat option \<Rightarrow> nat \<Rightarrow> 'm store \<Rightarrow> 'm store result" where
  "arena_Own arena p st =
     bind_result (ob_load st p) (\<lambda>ob. Inr (st\<lparr>ob_at := (ob_at st)(p := Some (ob\<lparr>ob_owner := arena\<rparr>))\<rparr>))"

text \<open>
  A type handler: the value of a new object, \<open>Clear\<close>, \<open>Merge\<close> (target first), the arena that an object admits to (a
  string admits to none), whether the type implements merging, and whether it is a message class, which the destructor
  of a field asks.
\<close>

record 'm handler =
  th_blank :: 'm
  th_clear :: "'m \<Rightarrow> 'm"
  th_merge :: "'m \<Rightarrow> 'm \<Rightarrow> 'm"
  th_GetOwningArena :: "'m object \<Rightarrow> nat option"
  th_SpaceUsedLong :: "'m \<Rightarrow> int"
  th_merges :: bool
  th_is_message :: bool

definition th_New :: "'m \<Rightarrow> nat option \<Rightarrow> 'm store \<Rightarrow> nat \<times> 'm store" where
  "th_New v arena st =
     (ob_next st, st\<lparr>ob_at := (ob_at st)(ob_next st := Some \<lparr>ob_arena = arena, ob_owner = arena, ob_value = v\<rparr>),
        ob_next := Suc (ob_next st)\<rparr>)"

definition th_NewFromPrototype :: "'m handler \<Rightarrow> nat option \<Rightarrow> 'm store \<Rightarrow> nat \<times> 'm store" where
  "th_NewFromPrototype H arena st = th_New (th_blank H) arena st"

text \<open>\<open>delete\<close> of an object that is gone, or that an arena will destroy, is a fault.\<close>

definition th_Delete :: "nat \<Rightarrow> nat option \<Rightarrow> 'm store \<Rightarrow> 'm store result" where
  "th_Delete p arena st =
     (if arena = None then
        bind_result (ob_load st p) (\<lambda>ob.
          if ob_owner ob = None then Inr (st\<lparr>ob_at := (ob_at st)(p := None)\<rparr>) else Inl UseAfterFree)
      else Inr st)"

definition th_Clear :: "'m handler \<Rightarrow> nat \<Rightarrow> 'm store \<Rightarrow> 'm store result" where
  "th_Clear H p st = ob_update p (th_clear H) st"

definition th_Merge :: "'m handler \<Rightarrow> nat \<Rightarrow> nat \<Rightarrow> 'm store \<Rightarrow> 'm store result" where
  "th_Merge H src dst st = bind_result (ob_load st src) (\<lambda>ob. ob_update dst (\<lambda>v. th_merge H v (ob_value ob)) st)"

section \<open>The field\<close>

record ptr_rep =
  allocated_size :: int
  rep_elements :: "nat list"

record ptr_field =
  pf_arena :: "nat option"
  pf_current :: int
  pf_total :: int
  pf_rep :: "ptr_rep option"

text \<open>
  The functions that are implemented in the \<^verbatim>\<open>.cc\<close> file. \<open>DestroyProtos\<close> ends the life of a field of submessages; it is
  given by the objects that it deletes, in its order.
\<close>

record rp_lib =
  lib_Reserve :: "int \<Rightarrow> ptr_field \<Rightarrow> ptr_field"
  lib_InternalExtend :: "int \<Rightarrow> ptr_field \<Rightarrow> ptr_field"
  lib_AddOutOfLineHelper :: "nat \<Rightarrow> ptr_field \<Rightarrow> ptr_field"
  lib_CloseGap :: "int \<Rightarrow> int \<Rightarrow> ptr_field \<Rightarrow> ptr_field"
  lib_DestroyProtos :: "ptr_field \<Rightarrow> nat list"

definition pf_new :: "nat option \<Rightarrow> ptr_field" where
  "pf_new arena = \<lparr>pf_arena = arena, pf_current = 0, pf_total = 0, pf_rep = None\<rparr>"

definition pf_empty :: "ptr_field \<Rightarrow> bool" where "pf_empty f \<longleftrightarrow> pf_current f = 0"
definition pf_size :: "ptr_field \<Rightarrow> int" where "pf_size f = pf_current f"
definition pf_Capacity :: "ptr_field \<Rightarrow> int" where "pf_Capacity f = pf_total f"
definition NeedsDestroy :: "ptr_field \<Rightarrow> bool" where "NeedsDestroy f \<longleftrightarrow> pf_rep f \<noteq> None \<and> pf_arena f = None"

text \<open>\<open>rep_->elements[i]\<close>, read and written, \<open>rep_->allocated_size\<close>, and its change.\<close>

definition pf_element :: "ptr_field \<Rightarrow> int \<Rightarrow> nat result" where
  "pf_element f i = (case pf_rep f of None \<Rightarrow> Inl NullDeref | Some r \<Rightarrow> vec_get (rep_elements r) i)"

definition pf_put :: "int \<Rightarrow> nat \<Rightarrow> ptr_field \<Rightarrow> ptr_field result" where
  "pf_put i p f =
     (case pf_rep f of
        None \<Rightarrow> Inl NullDeref
      | Some r \<Rightarrow> bind_result (vec_set (rep_elements r) i p) (\<lambda>es. Inr (f\<lparr>pf_rep := Some (r\<lparr>rep_elements := es\<rparr>)\<rparr>)))"

definition pf_allocated :: "ptr_field \<Rightarrow> int" where
  "pf_allocated f = (case pf_rep f of None \<Rightarrow> 0 | Some r \<Rightarrow> allocated_size r)"

definition set_allocated :: "int \<Rightarrow> ptr_field \<Rightarrow> ptr_field result" where
  "set_allocated n f =
     (case pf_rep f of None \<Rightarrow> Inl NullDeref | Some r \<Rightarrow> Inr (f\<lparr>pf_rep := Some (r\<lparr>allocated_size := n\<rparr>)\<rparr>))"

text \<open>A cleared object can be reused.\<close>

definition has_cleared :: "ptr_field \<Rightarrow> bool" where
  "has_cleared f \<longleftrightarrow> pf_rep f \<noteq> None \<and> pf_current f < pf_allocated f"

definition pf_at :: "'m store \<Rightarrow> int \<Rightarrow> ptr_field \<Rightarrow> 'm result" where
  "pf_at st index f =
     (if index < 0 then Inl CheckFailed
      else if pf_current f \<le> index then Inl CheckFailed
      else bind_result (pf_element f index) (\<lambda>p. map_sum id ob_value (ob_load st p)))"

definition pf_Get :: "'m store \<Rightarrow> int \<Rightarrow> ptr_field \<Rightarrow> 'm result" where
  "pf_Get st index f = bind_result (pf_element f index) (\<lambda>p. map_sum id ob_value (ob_load st p))"

definition pf_Mutable :: "int \<Rightarrow> ptr_field \<Rightarrow> nat result" where
  "pf_Mutable index f = pf_element f index"

section \<open>Adding and removing\<close>

definition pf_Add :: "'m handler \<Rightarrow> rp_lib \<Rightarrow> 'm store \<Rightarrow> ptr_field \<Rightarrow> (nat \<times> 'm store \<times> ptr_field) result" where
  "pf_Add H L st f =
     (if has_cleared f then
        bind_result (pf_element f (pf_current f)) (\<lambda>p. Inr (p, st, f\<lparr>pf_current := pf_current f + 1\<rparr>))
      else
        let (p, st1) = th_NewFromPrototype H (pf_arena f) st in Inr (p, st1, lib_AddOutOfLineHelper L p f))"

definition pf_Reserve_one :: "rp_lib \<Rightarrow> ptr_field \<Rightarrow> ptr_field result" where
  "pf_Reserve_one L f = bind_result (add_int32 (pf_total f) 1) (\<lambda>n. Inr (lib_Reserve L n f))"

definition pf_Add_move :: "rp_lib \<Rightarrow> 'm \<Rightarrow> 'm store \<Rightarrow> ptr_field \<Rightarrow> ('m store \<times> ptr_field) result" where
  "pf_Add_move L value st f =
     (if has_cleared f then
        bind_result (pf_element f (pf_current f)) (\<lambda>p.
        bind_result (ob_update p (\<lambda>_. value) st) (\<lambda>st1. Inr (st1, f\<lparr>pf_current := pf_current f + 1\<rparr>)))
      else
        bind_result (if pf_rep f = None \<or> pf_allocated f = pf_total f then pf_Reserve_one L f else Inr f) (\<lambda>f1.
        bind_result (set_allocated (pf_allocated f1 + 1) f1) (\<lambda>f2.
        let (p, st1) = th_New value (pf_arena f2) st in
        bind_result (pf_put (pf_current f2) p f2) (\<lambda>f3. Inr (st1, f3\<lparr>pf_current := pf_current f3 + 1\<rparr>)))))"

definition pf_Delete :: "int \<Rightarrow> 'm store \<Rightarrow> ptr_field \<Rightarrow> 'm store result" where
  "pf_Delete index st f = bind_result (pf_element f index) (\<lambda>p. th_Delete p (pf_arena f) st)"

fun delete_loop :: "nat \<Rightarrow> int \<Rightarrow> 'm store \<Rightarrow> ptr_field \<Rightarrow> 'm store result" where
  "delete_loop 0 i st f = Inr st"
| "delete_loop (Suc k) i st f = bind_result (pf_Delete i st f) (\<lambda>st1. delete_loop k (i + 1) st1 f)"

definition pf_Destroy :: "'m store \<Rightarrow> ptr_field \<Rightarrow> ('m store \<times> ptr_field) result" where
  "pf_Destroy st f =
     bind_result (if pf_rep f \<noteq> None \<and> pf_arena f = None then delete_loop (nat (pf_allocated f)) 0 st f else Inr st)
       (\<lambda>st1. Inr (st1, f\<lparr>pf_rep := None\<rparr>))"

text \<open>
  The destructor of \<open>RepeatedPtrField\<close>: a field of submessages that has an array and no arena leaves the work to
  \<open>DestroyProtos\<close>, whose deletions are carried out on the store, each a fault when its object is gone or owned; a field
  of strings runs \<open>Destroy\<close>.
\<close>

fun delete_each :: "nat list \<Rightarrow> 'm store \<Rightarrow> 'm store result" where
  "delete_each [] st = Inr st"
| "delete_each (p # ps) st = bind_result (th_Delete p None st) (delete_each ps)"

definition RepeatedPtrField_destroy :: "'m handler \<Rightarrow> rp_lib \<Rightarrow> 'm store \<Rightarrow> ptr_field \<Rightarrow> 'm store result" where
  "RepeatedPtrField_destroy H L st f =
     (if th_is_message H then if NeedsDestroy f then delete_each (lib_DestroyProtos L f) st else Inr st
      else bind_result (pf_Destroy st f) (\<lambda>(st1, _). Inr st1))"

fun clear_loop :: "'m handler \<Rightarrow> nat \<Rightarrow> int \<Rightarrow> 'm store \<Rightarrow> ptr_field \<Rightarrow> 'm store result" where
  "clear_loop H 0 i st f = Inr st"
| "clear_loop H (Suc k) i st f =
     bind_result (pf_element f i) (\<lambda>p. bind_result (th_Clear H p st) (\<lambda>st1. clear_loop H k (i + 1) st1 f))"

definition pf_Clear :: "'m handler \<Rightarrow> 'm store \<Rightarrow> ptr_field \<Rightarrow> ('m store \<times> ptr_field) result" where
  "pf_Clear H st f =
     (let n = pf_current f in
      if 0 < n then bind_result (clear_loop H (nat n) 0 st f) (\<lambda>st1. Inr (st1, f\<lparr>pf_current := 0\<rparr>))
      else Inr (st, f))"

definition pf_RemoveLast :: "'m handler \<Rightarrow> 'm store \<Rightarrow> ptr_field \<Rightarrow> ('m store \<times> ptr_field) result" where
  "pf_RemoveLast H st f =
     (let f1 = f\<lparr>pf_current := pf_current f - 1\<rparr> in
      bind_result (pf_element f1 (pf_current f1)) (\<lambda>p. bind_result (th_Clear H p st) (\<lambda>st1. Inr (st1, f1))))"

definition pf_SwapElements :: "int \<Rightarrow> int \<Rightarrow> ptr_field \<Rightarrow> ptr_field result" where
  "pf_SwapElements index1 index2 f =
     bind_result (pf_element f index1) (\<lambda>p.
     bind_result (pf_element f index2) (\<lambda>q.
     bind_result (pf_put index1 q f) (\<lambda>f1. pf_put index2 p f1)))"

text \<open>\<open>SpaceUsedExcludingSelfLong\<close>; a pointer takes \<open>psz\<close> bytes.\<close>

fun space_loop :: "'m handler \<Rightarrow> nat \<Rightarrow> int \<Rightarrow> 'm store \<Rightarrow> ptr_field \<Rightarrow> int result" where
  "space_loop H 0 i st f = Inr 0"
| "space_loop H (Suc k) i st f =
     bind_result (pf_Get st i f) (\<lambda>v. bind_result (space_loop H k (i + 1) st f) (\<lambda>n. Inr (th_SpaceUsedLong H v + n)))"

definition pf_SpaceUsedExcludingSelfLong :: "'m handler \<Rightarrow> int \<Rightarrow> int \<Rightarrow> 'm store \<Rightarrow> ptr_field \<Rightarrow> int result" where
  "pf_SpaceUsedExcludingSelfLong H psz header st f =
     (if pf_rep f \<noteq> None then
        bind_result (space_loop H (nat (pf_allocated f)) 0 st f) (\<lambda>n. Inr (pf_total f * psz + n + header))
      else Inr (pf_total f * psz))"

section \<open>Merging and copying\<close>

text \<open>
  \<open>MergeFromInnerLoop\<close>: \<open>our_elems\<close> is the array of this field from \<open>current_size\<close> on. The loops run from \<open>i\<close> for
  \<open>k\<close> rounds.
\<close>

fun new_loop :: "'m handler \<Rightarrow> nat \<Rightarrow> int \<Rightarrow> 'm store \<Rightarrow> ptr_field \<Rightarrow> ('m store \<times> ptr_field) result" where
  "new_loop H 0 i st f = Inr (st, f)"
| "new_loop H (Suc k) i st f =
     (let (p, st1) = th_NewFromPrototype H (pf_arena f) st in
      bind_result (pf_put (pf_current f + i) p f) (\<lambda>f1. new_loop H k (i + 1) st1 f1))"

fun merge_loop :: "'m handler \<Rightarrow> nat \<Rightarrow> int \<Rightarrow> ptr_field \<Rightarrow> 'm store \<Rightarrow> ptr_field \<Rightarrow> 'm store result" where
  "merge_loop H 0 i other st f = Inr st"
| "merge_loop H (Suc k) i other st f =
     bind_result (pf_element other i) (\<lambda>p.
     bind_result (pf_element f (pf_current f + i)) (\<lambda>q.
     bind_result (th_Merge H p q st) (\<lambda>st1. merge_loop H k (i + 1) other st1 f)))"

definition MergeFromInnerLoop ::
    "'m handler \<Rightarrow> ptr_field \<Rightarrow> int \<Rightarrow> int \<Rightarrow> 'm store \<Rightarrow> ptr_field \<Rightarrow> ('m store \<times> ptr_field) result" where
  "MergeFromInnerLoop H other len already_allocated st f =
     bind_result
       (if already_allocated < len then new_loop H (nat (len - already_allocated)) already_allocated st f else Inr (st, f))
       (\<lambda>(st1, f1). bind_result (merge_loop H (nat len) 0 other st1 f1) (\<lambda>st2. Inr (st2, f1)))"

definition MergeFromInternal ::
    "'m handler \<Rightarrow> rp_lib \<Rightarrow> ptr_field \<Rightarrow> 'm store \<Rightarrow> ptr_field \<Rightarrow> ('m store \<times> ptr_field) result" where
  "MergeFromInternal H L other st f =
     (let other_size = pf_current other; f1 = lib_InternalExtend L other_size f;
          allocated_elems = pf_allocated f1 - pf_current f1
      in
      bind_result (MergeFromInnerLoop H other other_size allocated_elems st f1) (\<lambda>(st2, f2).
      let f3 = f2\<lparr>pf_current := pf_current f2 + other_size\<rparr> in
      bind_result (if pf_allocated f3 < pf_current f3 then set_allocated (pf_current f3) f3 else Inr f3) (\<lambda>f4.
        Inr (st2, f4))))"

definition pf_MergeFrom :: "'m handler \<Rightarrow> rp_lib \<Rightarrow> ptr_field \<Rightarrow> 'm store \<Rightarrow> ptr_field \<Rightarrow> ('m store \<times> ptr_field) result" where
  "pf_MergeFrom H L other st f = (if pf_current other = 0 then Inr (st, f) else MergeFromInternal H L other st f)"

definition pf_CopyFrom :: "'m handler \<Rightarrow> rp_lib \<Rightarrow> ptr_field \<Rightarrow> 'm store \<Rightarrow> ptr_field \<Rightarrow> ('m store \<times> ptr_field) result" where
  "pf_CopyFrom H L other st f =
     bind_result (pf_Clear H st f) (\<lambda>(st1, f1). pf_MergeFrom H L other st1 f1)"

definition copy_value :: "'m handler \<Rightarrow> nat \<Rightarrow> 'm store \<Rightarrow> (nat \<times> 'm store) result" where
  "copy_value H p st =
     (let (q, st1) = th_NewFromPrototype H None st in bind_result (th_Merge H p q st1) (\<lambda>st2. Inr (q, st2)))"

definition pf_InternalSwap :: "ptr_field \<Rightarrow> ptr_field \<Rightarrow> ptr_field \<times> ptr_field" where
  "pf_InternalSwap this rhs = (rhs, this)"

definition SwapFallback ::
    "'m handler \<Rightarrow> rp_lib \<Rightarrow> 'm store \<Rightarrow> ptr_field \<Rightarrow> ptr_field \<Rightarrow> ('m store \<times> ptr_field \<times> ptr_field) result" where
  "SwapFallback H L st other this =
     bind_result (pf_MergeFrom H L this st (pf_new (pf_arena other))) (\<lambda>(st1, temp).
     bind_result (pf_Clear H st1 this) (\<lambda>(st2, this1).
     bind_result (pf_MergeFrom H L other st2 this1) (\<lambda>(st3, this2).
     let (other1, temp1) = pf_InternalSwap other temp in
     bind_result (pf_Destroy st3 temp1) (\<lambda>(st4, _). Inr (st4, this2, other1)))))"

definition pf_Swap ::
    "'m handler \<Rightarrow> rp_lib \<Rightarrow> 'm store \<Rightarrow> ptr_field \<Rightarrow> ptr_field \<Rightarrow> ('m store \<times> ptr_field \<times> ptr_field) result" where
  "pf_Swap H L st other this =
     (if pf_arena this = pf_arena other then let (this1, other1) = pf_InternalSwap this other in Inr (st, this1, other1)
      else SwapFallback H L st other this)"

section \<open>Ownership\<close>

definition AddFromCleared :: "ptr_field \<Rightarrow> (nat option \<times> ptr_field) result" where
  "AddFromCleared f =
     (if has_cleared f then
        bind_result (pf_element f (pf_current f)) (\<lambda>p. Inr (Some p, f\<lparr>pf_current := pf_current f + 1\<rparr>))
      else Inr (None, f))"

definition UnsafeArenaAddAllocated :: "rp_lib \<Rightarrow> nat \<Rightarrow> 'm store \<Rightarrow> ptr_field \<Rightarrow> ('m store \<times> ptr_field) result" where
  "UnsafeArenaAddAllocated L value st f =
     bind_result
       (if pf_rep f = None \<or> pf_current f = pf_total f then
          bind_result (pf_Reserve_one L f) (\<lambda>f1.
          bind_result (set_allocated (pf_allocated f1 + 1) f1) (\<lambda>f2. Inr (st, f2)))
        else if pf_allocated f = pf_total f then
          bind_result (pf_Delete (pf_current f) st f) (\<lambda>st1. Inr (st1, f))
        else if pf_current f < pf_allocated f then
          bind_result (pf_element f (pf_current f)) (\<lambda>p.
          bind_result (pf_put (pf_allocated f) p f) (\<lambda>f1.
          bind_result (set_allocated (pf_allocated f1 + 1) f1) (\<lambda>f2. Inr (st, f2))))
        else bind_result (set_allocated (pf_allocated f + 1) f) (\<lambda>f1. Inr (st, f1)))
       (\<lambda>(st1, f1). bind_result (pf_put (pf_current f1) value f1) (\<lambda>f2. Inr (st1, f2\<lparr>pf_current := pf_current f2 + 1\<rparr>)))"

definition AddAllocatedSlowWithCopy ::
    "'m handler \<Rightarrow> rp_lib \<Rightarrow> nat \<Rightarrow> nat option \<Rightarrow> nat option \<Rightarrow> 'm store \<Rightarrow> ptr_field \<Rightarrow> ('m store \<times> ptr_field) result" where
  "AddAllocatedSlowWithCopy H L value value_arena my_arena st f =
     bind_result
       (if my_arena \<noteq> None \<and> value_arena = None then bind_result (arena_Own my_arena value st) (\<lambda>st1. Inr (value, st1))
        else if my_arena \<noteq> value_arena then
          let (new_value, st1) = th_NewFromPrototype H my_arena st in
          bind_result (th_Merge H value new_value st1) (\<lambda>st2.
          bind_result (th_Delete value value_arena st2) (\<lambda>st3. Inr (new_value, st3)))
        else Inr (value, st))
       (\<lambda>(v, st1). UnsafeArenaAddAllocated L v st1 f)"

text \<open>The fast path of both overloads: the first cleared object makes room.\<close>

definition AddAllocated_fast :: "nat \<Rightarrow> ptr_field \<Rightarrow> ptr_field result" where
  "AddAllocated_fast value f =
     bind_result
       (if pf_current f < pf_allocated f then
          bind_result (pf_element f (pf_current f)) (\<lambda>p. pf_put (pf_allocated f) p f)
        else Inr f) (\<lambda>f1.
     bind_result (pf_put (pf_current f1) value f1) (\<lambda>f2.
       set_allocated (pf_allocated f2 + 1) (f2\<lparr>pf_current := pf_current f2 + 1\<rparr>)))"

definition AddAllocatedInternal_copy ::
    "'m handler \<Rightarrow> rp_lib \<Rightarrow> nat \<Rightarrow> 'm store \<Rightarrow> ptr_field \<Rightarrow> ('m store \<times> ptr_field) result" where
  "AddAllocatedInternal_copy H L value st f =
     bind_result (ob_load st value) (\<lambda>ob.
       let element_arena = th_GetOwningArena H ob; arena = pf_arena f in
       if arena = element_arena \<and> pf_rep f \<noteq> None \<and> pf_allocated f < pf_total f then
         bind_result (AddAllocated_fast value f) (\<lambda>f1. Inr (st, f1))
       else AddAllocatedSlowWithCopy H L value element_arena arena st f)"

definition AddAllocatedInternal_plain :: "rp_lib \<Rightarrow> nat \<Rightarrow> 'm store \<Rightarrow> ptr_field \<Rightarrow> ('m store \<times> ptr_field) result" where
  "AddAllocatedInternal_plain L value st f =
     (if pf_rep f \<noteq> None \<and> pf_allocated f < pf_total f then
        bind_result (AddAllocated_fast value f) (\<lambda>f1. Inr (st, f1))
      else UnsafeArenaAddAllocated L value st f)"

definition AddAllocated :: "'m handler \<Rightarrow> rp_lib \<Rightarrow> nat \<Rightarrow> 'm store \<Rightarrow> ptr_field \<Rightarrow> ('m store \<times> ptr_field) result" where
  "AddAllocated H L value st f =
     (if th_merges H then AddAllocatedInternal_copy H L value st f else AddAllocatedInternal_plain L value st f)"

definition UnsafeArenaReleaseLast :: "ptr_field \<Rightarrow> (nat \<times> ptr_field) result" where
  "UnsafeArenaReleaseLast f =
     (let f1 = f\<lparr>pf_current := pf_current f - 1\<rparr> in
      bind_result (pf_element f1 (pf_current f1)) (\<lambda>p.
      bind_result (set_allocated (pf_allocated f1 - 1) f1) (\<lambda>f2.
      if pf_current f2 < pf_allocated f2 then
        bind_result (pf_element f2 (pf_allocated f2)) (\<lambda>q.
        bind_result (pf_put (pf_current f2) q f2) (\<lambda>f3. Inr (p, f3)))
      else Inr (p, f2))))"

definition ReleaseLastInternal_copy ::
    "'m handler \<Rightarrow> 'm store \<Rightarrow> ptr_field \<Rightarrow> (nat \<times> 'm store \<times> ptr_field) result" where
  "ReleaseLastInternal_copy H st f =
     bind_result (UnsafeArenaReleaseLast f) (\<lambda>(p, f1).
       if pf_arena f1 = None then Inr (p, st, f1)
       else bind_result (copy_value H p st) (\<lambda>(q, st1). Inr (q, st1, f1)))"

definition ReleaseLast :: "'m handler \<Rightarrow> 'm store \<Rightarrow> ptr_field \<Rightarrow> (nat \<times> 'm store \<times> ptr_field) result" where
  "ReleaseLast H st f =
     (if th_merges H then ReleaseLastInternal_copy H st f
      else bind_result (UnsafeArenaReleaseLast f) (\<lambda>(p, f1). Inr (p, st, f1)))"

definition ClearedCount :: "ptr_field \<Rightarrow> int" where
  "ClearedCount f = (if pf_rep f \<noteq> None then pf_allocated f - pf_current f else 0)"

definition AddCleared :: "rp_lib \<Rightarrow> nat \<Rightarrow> ptr_field \<Rightarrow> ptr_field result" where
  "AddCleared L value f =
     bind_result (if pf_rep f = None \<or> pf_allocated f = pf_total f then pf_Reserve_one L f else Inr f) (\<lambda>f1.
     bind_result (pf_put (pf_allocated f1) value f1) (\<lambda>f2. set_allocated (pf_allocated f2 + 1) f2))"

definition ReleaseCleared :: "ptr_field \<Rightarrow> (nat \<times> ptr_field) result" where
  "ReleaseCleared f =
     bind_result (set_allocated (pf_allocated f - 1) f) (\<lambda>f1.
     bind_result (pf_element f1 (pf_allocated f1)) (\<lambda>p. Inr (p, f1)))"

section \<open>Ranges\<close>

fun add_loop :: "'m handler \<Rightarrow> rp_lib \<Rightarrow> 'm list \<Rightarrow> 'm store \<Rightarrow> ptr_field \<Rightarrow> ('m store \<times> ptr_field) result" where
  "add_loop H L [] st f = Inr (st, f)"
| "add_loop H L (v # vs) st f =
     bind_result (pf_Add H L st f) (\<lambda>(p, st1, f1).
     bind_result (ob_update p (\<lambda>_. v) st1) (\<lambda>st2. add_loop H L vs st2 f1))"

definition pf_Add_range ::
    "'m handler \<Rightarrow> rp_lib \<Rightarrow> bool \<Rightarrow> 'm list \<Rightarrow> 'm store \<Rightarrow> ptr_field \<Rightarrow> ('m store \<times> ptr_field) result" where
  "pf_Add_range H L forward vs st f =
     bind_result
       (if forward then bind_result (add_int32 (pf_size f) (int (length vs))) (\<lambda>n. Inr (lib_Reserve L n f)) else Inr f)
       (\<lambda>f1. add_loop H L vs st f1)"

definition pf_Assign ::
    "'m handler \<Rightarrow> rp_lib \<Rightarrow> bool \<Rightarrow> 'm list \<Rightarrow> 'm store \<Rightarrow> ptr_field \<Rightarrow> ('m store \<times> ptr_field) result" where
  "pf_Assign H L forward vs st f =
     bind_result (pf_Clear H st f) (\<lambda>(st1, f1). pf_Add_range H L forward vs st1 f1)"

fun take_loop :: "nat \<Rightarrow> int \<Rightarrow> ptr_field \<Rightarrow> nat list result" where
  "take_loop 0 i f = Inr []"
| "take_loop (Suc k) i f =
     bind_result (pf_Mutable i f) (\<lambda>p. bind_result (take_loop k (i + 1) f) (\<lambda>ps. Inr (p # ps)))"

fun copy_loop :: "'m handler \<Rightarrow> nat \<Rightarrow> int \<Rightarrow> 'm store \<Rightarrow> ptr_field \<Rightarrow> (nat list \<times> 'm store) result" where
  "copy_loop H 0 i st f = Inr ([], st)"
| "copy_loop H (Suc k) i st f =
     bind_result (pf_Mutable i f) (\<lambda>p.
     bind_result (copy_value H p st) (\<lambda>(q, st1).
     bind_result (copy_loop H k (i + 1) st1 f) (\<lambda>(qs, st2). Inr (q # qs, st2))))"

definition UnsafeArenaExtractSubrange :: "rp_lib \<Rightarrow> int \<Rightarrow> int \<Rightarrow> bool \<Rightarrow> ptr_field \<Rightarrow> (nat list \<times> ptr_field) result" where
  "UnsafeArenaExtractSubrange L start num wanted f =
     (if 0 < num then
        bind_result (if wanted then take_loop (nat num) start f else Inr []) (\<lambda>ps. Inr (ps, lib_CloseGap L start num f))
      else Inr ([], f))"

definition pf_DeleteSubrange :: "rp_lib \<Rightarrow> int \<Rightarrow> int \<Rightarrow> 'm store \<Rightarrow> ptr_field \<Rightarrow> ('m store \<times> ptr_field) result" where
  "pf_DeleteSubrange L start num st f =
     bind_result (delete_loop (nat num) start st f) (\<lambda>st1.
     bind_result (UnsafeArenaExtractSubrange L start num False f) (\<lambda>(_, f1). Inr (st1, f1)))"

definition ExtractSubrangeInternal_copy ::
    "'m handler \<Rightarrow> rp_lib \<Rightarrow> int \<Rightarrow> int \<Rightarrow> bool \<Rightarrow> 'm store \<Rightarrow> ptr_field \<Rightarrow> (nat list \<times> 'm store \<times> ptr_field) result" where
  "ExtractSubrangeInternal_copy H L start num wanted st f =
     (if num = 0 then Inr ([], st, f)
      else if \<not> wanted then Inr ([], st, lib_CloseGap L start num f)
      else
        bind_result
          (if pf_arena f \<noteq> None then copy_loop H (nat num) start st f
           else bind_result (take_loop (nat num) start f) (\<lambda>ps. Inr (ps, st)))
          (\<lambda>(ps, st1). Inr (ps, st1, lib_CloseGap L start num f)))"

definition pf_ExtractSubrange ::
    "'m handler \<Rightarrow> rp_lib \<Rightarrow> int \<Rightarrow> int \<Rightarrow> bool \<Rightarrow> 'm store \<Rightarrow> ptr_field \<Rightarrow> (nat list \<times> 'm store \<times> ptr_field) result" where
  "pf_ExtractSubrange H L start num wanted st f =
     (if th_merges H then ExtractSubrangeInternal_copy H L start num wanted st f
      else bind_result (UnsafeArenaExtractSubrange L start num wanted f) (\<lambda>(ps, f1). Inr (ps, st, f1)))"

definition pf_erase_range :: "rp_lib \<Rightarrow> int \<Rightarrow> int \<Rightarrow> 'm store \<Rightarrow> ptr_field \<Rightarrow> (int \<times> 'm store \<times> ptr_field) result" where
  "pf_erase_range L first_offset last_offset st f =
     bind_result (pf_DeleteSubrange L first_offset (last_offset - first_offset) st f) (\<lambda>(st1, f1).
       Inr (first_offset, st1, f1))"

definition pf_erase :: "rp_lib \<Rightarrow> int \<Rightarrow> 'm store \<Rightarrow> ptr_field \<Rightarrow> (int \<times> 'm store \<times> ptr_field) result" where
  "pf_erase L position st f = pf_erase_range L position (position + 1) st f"

definition RepeatedPtrField_copy :: "'m handler \<Rightarrow> rp_lib \<Rightarrow> ptr_field \<Rightarrow> 'm store \<Rightarrow> ('m store \<times> ptr_field) result" where
  "RepeatedPtrField_copy H L other st = pf_MergeFrom H L other st (pf_new None)"

definition RepeatedPtrField_range :: "'m handler \<Rightarrow> rp_lib \<Rightarrow> bool \<Rightarrow> 'm list \<Rightarrow> 'm store \<Rightarrow> ('m store \<times> ptr_field) result" where
  "RepeatedPtrField_range H L forward vs st = pf_Add_range H L forward vs st (pf_new None)"

definition RepeatedPtrField_move ::
    "'m handler \<Rightarrow> rp_lib \<Rightarrow> ptr_field \<Rightarrow> 'm store \<Rightarrow> ('m store \<times> ptr_field \<times> ptr_field) result" where
  "RepeatedPtrField_move H L other st =
     (if pf_arena other \<noteq> None then
        bind_result (pf_CopyFrom H L other st (pf_new None)) (\<lambda>(st1, f). Inr (st1, f, other))
      else let (this1, other1) = pf_InternalSwap (pf_new None) other in Inr (st, this1, other1))"

definition pf_move_assign ::
    "'m handler \<Rightarrow> rp_lib \<Rightarrow> ptr_field \<Rightarrow> 'm store \<Rightarrow> ptr_field \<Rightarrow> ('m store \<times> ptr_field \<times> ptr_field) result" where
  "pf_move_assign H L other st f =
     (if pf_arena f \<noteq> pf_arena other then
        bind_result (pf_CopyFrom H L other st f) (\<lambda>(st1, f1). Inr (st1, f1, other))
      else let (this1, other1) = pf_InternalSwap f other in Inr (st, this1, other1))"

section \<open>What is owned\<close>

text \<open>
  \<open>owned base st K\<close>: the store consists of the objects of \<open>base\<close> and, apart from them, of one heap object for every
  pointer and value in \<open>K\<close>. So nothing in \<open>base\<close> was touched and nothing beyond \<open>K\<close> is left behind.
\<close>

definition heap_object :: "'m \<Rightarrow> 'm object" where
  "heap_object v = \<lparr>ob_arena = None, ob_owner = None, ob_value = v\<rparr>"

definition owned :: "(nat \<Rightarrow> 'm object option) \<Rightarrow> 'm store \<Rightarrow> (nat \<times> 'm) list \<Rightarrow> bool" where
  "owned base st K \<longleftrightarrow> distinct (map fst K) \<and> (\<forall>p v. (p, v) \<in> set K \<longrightarrow> base p = None \<and> ob_at st p = Some (heap_object v)) \<and>
     (\<forall>p. p \<notin> fst ` set K \<longrightarrow> ob_at st p = base p) \<and> (\<forall>p. ob_next st \<le> p \<longrightarrow> ob_at st p = None)"

lemma owned_mset: "mset K = mset K' \<Longrightarrow> owned base st K \<longleftrightarrow> owned base st K'"
proof -
  assume m: "mset K = mset K'"
  then have "mset (map fst K) = mset (map fst K')" by simp
  then have "distinct (map fst K) = distinct (map fst K')" by (rule mset_eq_imp_distinct_iff)
  with mset_eq_setD [OF m] show ?thesis by (simp add: owned_def)
qed

lemma owned_load:
  "owned base st K \<Longrightarrow> (p, v) \<in> set K \<Longrightarrow> ob_load st p = Inr (heap_object v)"
  by (auto simp: owned_def ob_load_def)

lemma owned_load_base: "owned base st K \<Longrightarrow> base p = Some ob \<Longrightarrow> ob_load st p = Inr ob"
proof -
  assume o: "owned base st K" and b: "base p = Some ob"
  then have "p \<notin> fst ` set K" by (auto simp: owned_def)
  with o b show ?thesis by (auto simp: owned_def ob_load_def)
qed

lemma heap_object_sel [simp]:
  "ob_value (heap_object v) = v" "ob_arena (heap_object v) = None" "ob_owner (heap_object v) = None"
  "heap_object v\<lparr>ob_value := w\<rparr> = heap_object w"
  by (simp_all add: heap_object_def)

lemma owned_update:
  assumes "owned base st (A @ (p, v) # B)"
  shows "\<exists>st'. ob_update p g st = Inr st' \<and> owned base st' (A @ (p, g v) # B)"
proof -
  have n: "p < ob_next st"
  proof (rule ccontr)
    assume "\<not> p < ob_next st"
    then have "ob_at st p = None" using assms by (simp add: owned_def)
    then show False using assms by (auto simp: owned_def)
  qed
  have "ob_update p g st = Inr (st\<lparr>ob_at := (ob_at st)(p := Some (heap_object (g v)))\<rparr>)"
    using owned_load [OF assms, of p v] by (simp add: ob_update_def)
  moreover have "owned base (st\<lparr>ob_at := (ob_at st)(p := Some (heap_object (g v)))\<rparr>) (A @ (p, g v) # B)"
    using assms n unfolding owned_def by (auto simp: rev_image_eqI)
  ultimately show ?thesis by blast
qed

lemma owned_new:
  assumes "owned base st K" and "th_New v None st = (p, st')"
  shows "owned base st' ((p, v) # K)"
proof -
  have p: "p = ob_next st" "st' = st\<lparr>ob_at := (ob_at st)(p := Some (heap_object v)), ob_next := Suc p\<rparr>"
    using assms(2) by (auto simp: th_New_def heap_object_def)
  have none: "ob_at st p = None" using assms(1) p(1) by (simp add: owned_def)
  then have k: "p \<notin> fst ` set K" using assms(1) by (auto simp: owned_def)
  then have "base p = None" using none assms(1) by (auto simp: owned_def)
  with k none assms(1) p show ?thesis unfolding owned_def by (auto simp: rev_image_eqI)
qed

lemma owned_delete:
  assumes "owned base st (A @ (p, v) # B)"
  shows "\<exists>st'. th_Delete p None st = Inr st' \<and> owned base st' (A @ B)"
proof -
  have "th_Delete p None st = Inr (st\<lparr>ob_at := (ob_at st)(p := None)\<rparr>)"
    using owned_load [OF assms, of p v] by (simp add: th_Delete_def)
  moreover have "owned base (st\<lparr>ob_at := (ob_at st)(p := None)\<rparr>) (A @ B)"
    using assms unfolding owned_def by (auto simp: rev_image_eqI)
  ultimately show ?thesis by blast
qed

section \<open>The array in three parts\<close>

definition pf_mk :: "nat option \<Rightarrow> nat list \<Rightarrow> nat list \<Rightarrow> nat list \<Rightarrow> ptr_field" where
  "pf_mk a us cs zs = \<lparr>pf_arena = a, pf_current = int (length us), pf_total = int (length us + length cs + length zs),
     pf_rep = Some \<lparr>allocated_size = int (length us + length cs), rep_elements = us @ cs @ zs\<rparr>\<rparr>"

definition ptr_split :: "ptr_field \<Rightarrow> nat list \<Rightarrow> nat list \<Rightarrow> nat list \<Rightarrow> bool" where
  "ptr_split f us cs zs \<longleftrightarrow> int (length us + length cs + length zs) \<le> int32_max \<and>
     (\<exists>a. f = pf_mk a us cs zs \<or> f = pf_new a \<and> us = [] \<and> cs = [] \<and> zs = [])"

lemma pf_mk_simps [simp]:
  "pf_arena (pf_mk a us cs zs) = a" "pf_current (pf_mk a us cs zs) = int (length us)"
  "pf_total (pf_mk a us cs zs) = int (length us + length cs + length zs)"
  "pf_allocated (pf_mk a us cs zs) = int (length us + length cs)" "pf_rep (pf_mk a us cs zs) \<noteq> None"
  "has_cleared (pf_mk a us cs zs) \<longleftrightarrow> cs \<noteq> []"
  by (auto simp: pf_mk_def pf_allocated_def has_cleared_def)

lemma pf_new_simps [simp]:
  "pf_arena (pf_new a) = a" "pf_current (pf_new a) = 0" "pf_total (pf_new a) = 0" "pf_allocated (pf_new a) = 0"
  "pf_rep (pf_new a) = None" "\<not> has_cleared (pf_new a)"
  by (simp_all add: pf_new_def pf_allocated_def has_cleared_def)

lemma ptr_split_sizes:
  "ptr_split f us cs zs \<Longrightarrow> pf_current f = int (length us) \<and> pf_allocated f = int (length us + length cs) \<and>
     pf_total f = int (length us + length cs + length zs) \<and> pf_total f \<le> int32_max"
  by (auto simp: ptr_split_def)

lemma ptr_split_mk: "ptr_split f us cs zs \<Longrightarrow> us @ cs @ zs \<noteq> [] \<Longrightarrow> pf_arena f = a \<Longrightarrow> f = pf_mk a us cs zs"
  by (auto simp: ptr_split_def)

lemma ptr_split_mkI: "int (length us + length cs + length zs) \<le> int32_max \<Longrightarrow> ptr_split (pf_mk a us cs zs) us cs zs"
  by (auto simp: ptr_split_def)

lemma pf_element_mk: "us @ cs @ zs = a @ p # b \<Longrightarrow> i = int (length a) \<Longrightarrow> pf_element (pf_mk r us cs zs) i = Inr p"
  by (simp add: pf_element_def pf_mk_def)

lemma pf_element_simps [simp]:
  "i = int (length us) \<Longrightarrow> pf_element (pf_mk r us (c # cs) zs) i = Inr c"
  "i = int (length us) \<Longrightarrow> pf_element (pf_mk r (us @ [u]) cs zs) i = Inr u"
  by (simp_all add: pf_element_mk)

lemma pf_mk_moves [simp]:
  "n = 1 + int (length us) \<Longrightarrow> pf_mk a us (c # cs) zs\<lparr>pf_current := n\<rparr> = pf_mk a (us @ [c]) cs zs"
  "n = int (length us) \<Longrightarrow> pf_mk a (us @ [u]) cs zs\<lparr>pf_current := n\<rparr> = pf_mk a us (u # cs) zs"
  by (simp_all add: pf_mk_def)

lemma set_allocated_mk:
  "us @ cs @ zs = us @ cs' @ zs' \<Longrightarrow> n = int (length us + length cs') \<Longrightarrow>
     set_allocated n (pf_mk a us cs zs) = Inr (pf_mk a us cs' zs')"
proof -
  assume e: "us @ cs @ zs = us @ cs' @ zs'" and n: "n = int (length us + length cs')"
  have "length us + length cs + length zs = length us + length cs' + length zs'"
    using arg_cong [OF e, of length] by simp
  with e n show ?thesis by (simp add: set_allocated_def pf_mk_def)
qed

lemma pf_put_mk:
  "us @ cs @ zs = a @ q # b \<Longrightarrow> us' @ cs' @ zs' = a @ p # b \<Longrightarrow> length us' = length us \<Longrightarrow> length cs' = length cs \<Longrightarrow>
     i = int (length a) \<Longrightarrow> pf_put i p (pf_mk r us cs zs) = Inr (pf_mk r us' cs' zs')"
proof -
  assume e: "us @ cs @ zs = a @ q # b" "us' @ cs' @ zs' = a @ p # b" "length us' = length us" "length cs' = length cs"
    "i = int (length a)"
  have "length zs' = length zs" using arg_cong [OF e(1), of length] arg_cong [OF e(2), of length] e(3,4) by simp
  with e show ?thesis by (simp add: pf_put_def pf_mk_def vec_set_def)
qed

lemma pf_put_simps [simp]:
  "i = int (length us) \<Longrightarrow> pf_put i p (pf_mk r us (c # cs) zs) = Inr (pf_mk r us (p # cs) zs)"
  "i = int (length us) \<Longrightarrow> pf_put i p (pf_mk r us [] (z # zs)) = Inr (pf_mk r us [] (p # zs))"
  "i = int (length us + length cs) \<Longrightarrow> pf_put i p (pf_mk r us cs (z # zs)) = Inr (pf_mk r us cs (p # zs))"
  by (simp_all add: pf_put_mk [of us "c # cs" zs us c "cs @ zs" us "p # cs" zs] pf_put_mk [of us "[]" "z # zs" us z zs us "[]" "p # zs"]
      pf_put_mk [of us cs "z # zs" "us @ cs" z zs us cs "p # zs"])

lemma set_allocated_simps [simp]:
  "n = int (length us + length cs) + 1 \<Longrightarrow> set_allocated n (pf_mk a us cs (z # zs)) = Inr (pf_mk a us (cs @ [z]) zs)"
  "n = int (length us + length cs) \<Longrightarrow> set_allocated n (pf_mk a us (cs @ [c]) zs) = Inr (pf_mk a us cs (c # zs))"
  by (simp_all add: set_allocated_mk)

text \<open>
  What the header says of the functions of the \<^verbatim>\<open>.cc\<close> file: \<open>Reserve\<close> and \<open>InternalExtend\<close> make room and change
  nothing else, \<open>AddOutOfLineHelper\<close> adds the pointer as the next element of a field without cleared objects, \<open>CloseGap\<close>
  removes a range of the elements in use and keeps the cleared ones. \<open>DestroyProtos\<close>, the destructor's form of \<open>Destroy\<close>
  for message classes, deletes each object in use and each cleared one once, in whatever order.
\<close>

definition rp_lib_ok :: "rp_lib \<Rightarrow> bool" where
  "rp_lib_ok L \<longleftrightarrow>
     (\<forall>f us cs zs n. ptr_split f us cs zs \<and> n \<le> int32_max \<longrightarrow>
        (\<exists>zs'. ptr_split (lib_Reserve L n f) us cs zs' \<and> n \<le> pf_total (lib_Reserve L n f) \<and>
           pf_arena (lib_Reserve L n f) = pf_arena f)) \<and>
     (\<forall>f us cs zs n. ptr_split f us cs zs \<and> 0 < n \<and> int (length us) + n \<le> int32_max \<longrightarrow>
        (\<exists>zs'. ptr_split (lib_InternalExtend L n f) us cs zs' \<and> int (length us) + n \<le> pf_total (lib_InternalExtend L n f) \<and>
           pf_arena (lib_InternalExtend L n f) = pf_arena f)) \<and>
     (\<forall>f us zs p. ptr_split f us [] zs \<and> int (length us) < int32_max \<longrightarrow>
        (\<exists>zs'. ptr_split (lib_AddOutOfLineHelper L p f) (us @ [p]) [] zs' \<and>
           pf_arena (lib_AddOutOfLineHelper L p f) = pf_arena f)) \<and>
     (\<forall>f a b c cs zs. ptr_split f (a @ b @ c) cs zs \<longrightarrow>
        (\<exists>zs'. ptr_split (lib_CloseGap L (int (length a)) (int (length b)) f) (a @ c) cs zs' \<and>
           pf_arena (lib_CloseGap L (int (length a)) (int (length b)) f) = pf_arena f)) \<and>
     (\<forall>f us cs zs. ptr_split f us cs zs \<and> NeedsDestroy f \<longrightarrow> mset (lib_DestroyProtos L f) = mset (us @ cs))"

lemma rp_lib_laws:
  assumes "rp_lib_ok L"
  shows "ptr_split f us cs zs \<Longrightarrow> n \<le> int32_max \<Longrightarrow> \<exists>zs'. ptr_split (lib_Reserve L n f) us cs zs' \<and>
      n \<le> pf_total (lib_Reserve L n f) \<and> pf_arena (lib_Reserve L n f) = pf_arena f"
    and "ptr_split f us cs zs \<Longrightarrow> 0 < n \<Longrightarrow> int (length us) + n \<le> int32_max \<Longrightarrow>
      \<exists>zs'. ptr_split (lib_InternalExtend L n f) us cs zs' \<and> int (length us) + n \<le> pf_total (lib_InternalExtend L n f) \<and>
        pf_arena (lib_InternalExtend L n f) = pf_arena f"
    and "ptr_split f us [] zs \<Longrightarrow> int (length us) < int32_max \<Longrightarrow>
      \<exists>zs'. ptr_split (lib_AddOutOfLineHelper L p f) (us @ [p]) [] zs' \<and> pf_arena (lib_AddOutOfLineHelper L p f) = pf_arena f"
    and "ptr_split f (a @ b @ c) cs zs \<Longrightarrow> \<exists>zs'. ptr_split (lib_CloseGap L (int (length a)) (int (length b)) f) (a @ c) cs zs' \<and>
        pf_arena (lib_CloseGap L (int (length a)) (int (length b)) f) = pf_arena f"
    and "ptr_split f us cs zs \<Longrightarrow> NeedsDestroy f \<Longrightarrow> mset (lib_DestroyProtos L f) = mset (us @ cs)"
  using assms unfolding rp_lib_ok_def by (blast | metis)+

section \<open>A field on the heap\<close>

text \<open>
  The field has the pointers of \<open>U\<close> in use and those of \<open>C\<close> cleared, whose objects are blank; the objects of \<open>R\<close> were
  given away. Together with \<open>base\<close> they are all that exists.
\<close>

definition pf_holds ::
    "'m handler \<Rightarrow> (nat \<Rightarrow> 'm object option) \<Rightarrow> 'm store \<Rightarrow> ptr_field \<Rightarrow> (nat \<times> 'm) list \<Rightarrow> (nat \<times> 'm) list \<Rightarrow> (nat \<times> 'm) list \<Rightarrow> bool" where
  "pf_holds H base st f U C R \<longleftrightarrow> owned base st (U @ C @ R) \<and> pf_arena f = None \<and>
     (\<exists>zs. ptr_split f (map fst U) (map fst C) zs) \<and> (\<forall>x \<in> set C. snd x = th_blank H)"

lemma pf_holdsE:
  assumes "pf_holds H base st f U C R"
  obtains zs where "owned base st (U @ C @ R)" "pf_arena f = None" "ptr_split f (map fst U) (map fst C) zs"
    "\<forall>x \<in> set C. snd x = th_blank H"
  using assms by (auto simp: pf_holds_def)

lemma pf_holdsI:
  "owned base st K \<Longrightarrow> mset K = mset (U @ C @ R) \<Longrightarrow> pf_arena f = None \<Longrightarrow> ptr_split f (map fst U) (map fst C) zs \<Longrightarrow>
     \<forall>x \<in> set C. snd x = th_blank H \<Longrightarrow> pf_holds H base st f U C R"
  using owned_mset [of K "U @ C @ R"] by (auto simp: pf_holds_def)

text \<open>The usual case: the field has an array.\<close>

lemma pf_holds_mkI:
  "owned base st K \<Longrightarrow> mset K = mset (U @ C @ R) \<Longrightarrow> int (length U + length C + length zs) \<le> int32_max \<Longrightarrow>
     us = map fst U \<Longrightarrow> cs = map fst C \<Longrightarrow> \<forall>x \<in> set C. snd x = th_blank H \<Longrightarrow> pf_holds H base st (pf_mk None us cs zs) U C R"
  by (rule pf_holdsI [of base st K U C R _ zs]) (simp_all add: ptr_split_mkI)

lemma pf_holds_mkE:
  assumes "pf_holds H base st f U C R" and "U @ C \<noteq> []"
  obtains zs where "owned base st (U @ C @ R)" "f = pf_mk None (map fst U) (map fst C) zs"
    "int (length U + length C + length zs) \<le> int32_max" "\<forall>x \<in> set C. snd x = th_blank H"
proof -
  from assms(1) obtain zs where h: "owned base st (U @ C @ R)" "pf_arena f = None"
    "ptr_split f (map fst U) (map fst C) zs" "\<forall>x \<in> set C. snd x = th_blank H" by (rule pf_holdsE)
  have "f = pf_mk None (map fst U) (map fst C) zs" using assms(2) by (intro ptr_split_mk [OF h(3) _ h(2)]) auto
  moreover have "int (length U + length C + length zs) \<le> int32_max" using h(3) by (simp add: ptr_split_def)
  ultimately show thesis using that h(1,4) by blast
qed

lemma pf_holds_sizes:
  "pf_holds H base st f U C R \<Longrightarrow> pf_current f = int (length U) \<and> pf_allocated f = int (length U + length C) \<and>
     pf_allocated f \<le> pf_total f \<and> pf_total f \<le> int32_max"
  by (erule pf_holdsE) (drule ptr_split_sizes, simp)

lemma pf_holds_no_array: "pf_holds H base st f U C R \<Longrightarrow> pf_rep f = None \<Longrightarrow> U = [] \<and> C = [] \<and> pf_total f = 0"
  by (erule pf_holdsE) (auto simp: ptr_split_def)

lemma blank_pair: "\<forall>x \<in> set (c # C). snd x = b \<Longrightarrow> \<exists>q. c = (q, b)"
  by (cases c) auto

end
