(* ===== verification/Ptr_Refinement.thy ===== *)
theory Ptr_Refinement
  imports Repeated_Ptr
begin

text \<open>
  The fields of \<open>Repeated_Ptr\<close> as lists: a history of operations leaves the values that it leaves on a list, reuses
  cleared objects without their old content, and neither touches, loses nor deletes twice any object. The proofs are in the
  locale \<open>type_handler\<close>, interpreted for the message classes with repeated fields and for strings.
\<close>

section \<open>Type handlers\<close>

text \<open>The field that is merged from: its objects are among those of \<open>base\<close>, which stay as they are.\<close>

definition held_elsewhere :: "(nat \<Rightarrow> 'm object option) \<Rightarrow> ptr_field \<Rightarrow> (nat \<times> 'm) list \<Rightarrow> bool" where
  "held_elsewhere base g W \<longleftrightarrow>
     (\<exists>cs zs. ptr_split g (map fst W) cs zs) \<and> (\<forall>(p, v) \<in> set W. \<exists>ob. base p = Some ob \<and> ob_value ob = v)"


locale type_handler =
  fixes H :: "'m handler"
  assumes clear: "th_clear H v = th_blank H"
    and merge_blank: "th_merge H (th_blank H) v = v"
    and on_heap: "th_GetOwningArena H (heap_object v) = None"
begin

lemma Add_holds:
  assumes "rp_lib_ok L" and "pf_holds H base st f U C R" and "int (length U) < int32_max"
  shows "\<exists>p st' f' C'. pf_Add H L st f = Inr (p, st', f') \<and> pf_holds H base st' f' (U @ [(p, th_blank H)]) C' R"
proof -
  from assms(2) obtain zs where h: "owned base st (U @ C @ R)" "pf_arena f = None"
    "ptr_split f (map fst U) (map fst C) zs" "\<forall>x \<in> set C. snd x = th_blank H" by (rule pf_holdsE)
  show ?thesis
  proof (cases C)
    case Nil
    obtain p st1 where n: "th_NewFromPrototype H None st = (p, st1)" by fastforce
    then have o: "owned base st1 ((p, th_blank H) # U @ R)"
      using owned_new [OF h(1), of "th_blank H"] Nil by (simp add: th_NewFromPrototype_def)
    from rp_lib_laws(3) [OF assms(1), of f "map fst U" zs p] h(2,3) Nil assms(3) obtain zs' where
      l: "ptr_split (lib_AddOutOfLineHelper L p f) (map fst U @ [p]) [] zs'" "pf_arena (lib_AddOutOfLineHelper L p f) = None"
      by auto
    have "\<not> has_cleared f" using ptr_split_sizes [OF h(3)] Nil by (simp add: has_cleared_def)
    then have "pf_Add H L st f = Inr (p, st1, lib_AddOutOfLineHelper L p f)" using n h(2) by (simp add: pf_Add_def)
    moreover have "pf_holds H base st1 (lib_AddOutOfLineHelper L p f) (U @ [(p, th_blank H)]) [] R"
      using o l by (intro pf_holdsI [OF o, of _ _ _ _ zs']) simp_all
    ultimately show ?thesis by blast
  next
    case (Cons c C')
    then obtain q where c: "C = (q, th_blank H) # C'" using blank_pair [of c C'] h(4) by auto
    from pf_holds_mkE [OF assms(2)] c obtain zs where
      f: "f = pf_mk None (map fst U) (q # map fst C') zs" "int (length U + length C + length zs) \<le> int32_max" by auto
    have "pf_Add H L st f = Inr (q, st, pf_mk None (map fst U @ [q]) (map fst C') zs)"
      unfolding f by (simp add: pf_Add_def)
    moreover have "pf_holds H base st (pf_mk None (map fst U @ [q]) (map fst C') zs) (U @ [(q, th_blank H)]) C' R"
      using h(4) f(2) c by (intro pf_holds_mkI [OF h(1)]) auto
    ultimately show ?thesis by blast
  qed
qed

lemma Write_holds:
  assumes "pf_holds H base st f (A @ (p, v) # B) C R"
  shows "pf_Mutable (int (length A)) f = Inr p \<and>
    (\<exists>st'. ob_update p g st = Inr st' \<and> pf_holds H base st' f (A @ (p, g v) # B) C R)"
proof -
  from pf_holds_mkE [OF assms] obtain zs where h: "owned base st ((A @ (p, v) # B) @ C @ R)"
    "f = pf_mk None (map fst (A @ (p, v) # B)) (map fst C) zs" "int (length (A @ (p, v) # B) + length C + length zs) \<le> int32_max"
    "\<forall>x \<in> set C. snd x = th_blank H" by blast
  have "pf_Mutable (int (length A)) f = Inr p" unfolding h(2) pf_Mutable_def
    by (rule pf_element_mk [of _ _ _ "map fst A" p]) simp_all
  moreover from owned_update [of base st A p v "B @ C @ R" g] h(1) obtain st' where
    u: "ob_update p g st = Inr st'" "owned base st' (A @ (p, g v) # B @ C @ R)" by auto
  moreover have "pf_holds H base st' f (A @ (p, g v) # B) C R"
    unfolding h(2) using h(3,4) by (intro pf_holds_mkI [OF u(2)]) simp_all
  ultimately show ?thesis by blast
qed

lemma Add_value_holds:
  assumes "rp_lib_ok L" and "pf_holds H base st f U C R" and "int (length U) < int32_max"
  shows "\<exists>p st1 f' st' C'. pf_Add H L st f = Inr (p, st1, f') \<and> ob_update p (\<lambda>_. v) st1 = Inr st' \<and>
    pf_holds H base st' f' (U @ [(p, v)]) C' R"
  using Add_holds [OF assms] Write_holds [of base _ _ U _ "th_blank H" "[]" _ R "\<lambda>_. v"] by metis

lemma add_loop_holds:
  assumes "rp_lib_ok L"
  shows "pf_holds H base st f U C R \<Longrightarrow> int (length U + length vs) \<le> int32_max \<Longrightarrow>
    \<exists>st' f' V C'. add_loop H L vs st f = Inr (st', f') \<and> pf_holds H base st' f' (U @ V) C' R \<and> map snd V = vs"
proof (induction vs arbitrary: st f U C)
  case Nil
  then show ?case by (intro exI [of _ st] exI [of _ f] exI [of _ "[]"] exI [of _ C]) simp
next
  case (Cons v vs)
  from Add_value_holds [OF assms Cons.prems(1), of v] Cons.prems(2) obtain p st1 f1 st2 C1 where
    a: "pf_Add H L st f = Inr (p, st1, f1)" "ob_update p (\<lambda>_. v) st1 = Inr st2" "pf_holds H base st2 f1 (U @ [(p, v)]) C1 R"
    by auto
  from Cons.IH [OF a(3)] Cons.prems(2) obtain st' f' V C' where
    "add_loop H L vs st2 f1 = Inr (st', f')" "pf_holds H base st' f' ((U @ [(p, v)]) @ V) C' R" "map snd V = vs" by auto
  with a show ?case by (intro exI [of _ st'] exI [of _ f'] exI [of _ "(p, v) # V"] exI [of _ C']) simp
qed

lemma Reserve_holds:
  assumes "rp_lib_ok L" and "pf_holds H base st f U C R" and "n \<le> int32_max"
  shows "pf_holds H base st (lib_Reserve L n f) U C R \<and> n \<le> pf_total (lib_Reserve L n f)"
  using assms(2) rp_lib_laws(1) [OF assms(1) _ assms(3)] unfolding pf_holds_def by metis

lemma Add_range_holds:
  assumes "rp_lib_ok L" and "pf_holds H base st f U C R" and "int (length U + length vs) \<le> int32_max"
  shows "\<exists>st' f' V C'. pf_Add_range H L forward vs st f = Inr (st', f') \<and> pf_holds H base st' f' (U @ V) C' R \<and> map snd V = vs"
proof (cases forward)
  case True
  have "add_int32 (pf_size f) (int (length vs)) = Inr (int (length U + length vs))"
    using pf_holds_sizes [OF assms(2)] assms(3) by (simp add: pf_size_def add_int32_def in_int32_def int32_min_def)
  then show ?thesis
    using True add_loop_holds [OF assms(1) Reserve_holds [OF assms(1,2,3), THEN conjunct1] assms(3)]
    by (simp add: pf_Add_range_def)
next
  case False
  then show ?thesis using add_loop_holds [OF assms] by (simp add: pf_Add_range_def)
qed

lemma Reserve_one_holds:
  assumes "rp_lib_ok L" and "pf_holds H base st f U C R" and "int (length U + length C) < int32_max"
  shows "\<exists>f1. (if pf_rep f = None \<or> pf_allocated f = pf_total f then pf_Reserve_one L f else Inr f) = Inr f1 \<and>
    pf_holds H base st f1 U C R \<and> int (length U + length C) < pf_total f1"
proof (cases "pf_rep f = None \<or> pf_allocated f = pf_total f")
  case True
  then have "pf_total f = int (length U + length C)" using pf_holds_sizes [OF assms(2)] pf_holds_no_array [OF assms(2)] by auto
  then have "pf_Reserve_one L f = Inr (lib_Reserve L (int (length U + length C) + 1) f)"
    using assms(3) by (simp add: pf_Reserve_one_def add_int32_def in_int32_def int32_min_def)
  with True Reserve_holds [OF assms(1,2), of "int (length U + length C) + 1"] assms(3) show ?thesis by auto
next
  case False
  with pf_holds_sizes [OF assms(2)] assms(2) show ?thesis by (intro exI [of _ f]) auto
qed

lemma Add_move_holds:
  assumes "rp_lib_ok L" and "pf_holds H base st f U C R" and "int (length U) < int32_max"
  shows "\<exists>p st' f' C'. pf_Add_move L v st f = Inr (st', f') \<and> pf_holds H base st' f' (U @ [(p, v)]) C' R"
proof (cases C)
  case Nil
  note s = pf_holds_sizes [OF assms(2)]
  from Reserve_one_holds [OF assms(1,2)] assms(3) Nil obtain f1 where
    f1: "(if pf_rep f = None \<or> pf_allocated f = pf_total f then pf_Reserve_one L f else Inr f) = Inr f1"
    "pf_holds H base st f1 U C R" "int (length U) < pf_total f1" by auto
  from f1(2) obtain zs where z: "owned base st (U @ C @ R)" "pf_arena f1 = None" "ptr_split f1 (map fst U) (map fst C) zs"
    by (rule pf_holdsE)
  then have "zs \<noteq> []" using f1(3) Nil ptr_split_sizes [OF z(3)] by auto
  then obtain z' zs' where zs: "zs = z' # zs'" by (cases zs) auto
  have mk: "f1 = pf_mk None (map fst U) [] (z' # zs')" using ptr_split_mk [OF z(3) _ z(2)] zs Nil by simp
  obtain p st1 where n: "th_New v None st = (p, st1)" by fastforce
  have "\<not> has_cleared f" using s Nil by (simp add: has_cleared_def)
  then have "pf_Add_move L v st f = Inr (st1, pf_mk None (map fst U @ [p]) [] zs')"
    using f1(1) n unfolding mk by (simp add: pf_Add_move_def)
  moreover have "pf_holds H base st1 (pf_mk None (map fst U @ [p]) [] zs') (U @ [(p, v)]) [] R"
    using z(3) zs Nil by (intro pf_holds_mkI [OF owned_new [OF z(1) n]]) (auto simp: ptr_split_def)
  ultimately show ?thesis by blast
next
  case (Cons c C')
  with assms(2) obtain q where c: "C = (q, th_blank H) # C'" using blank_pair [of c C'] by (auto simp: pf_holds_def)
  from pf_holds_mkE [OF assms(2)] c obtain zs where f: "owned base st (U @ C @ R)"
    "f = pf_mk None (map fst U) (q # map fst C') zs" "int (length U + length C + length zs) \<le> int32_max"
    "\<forall>x \<in> set C. snd x = th_blank H" by auto
  from owned_update [of base st U q "th_blank H" "C' @ R" "\<lambda>_. v"] f(1) c obtain st1 where
    u: "ob_update q (\<lambda>_. v) st = Inr st1" "owned base st1 (U @ (q, v) # C' @ R)" by auto
  then have "pf_Add_move L v st f = Inr (st1, pf_mk None (map fst U @ [q]) (map fst C') zs)"
    unfolding f(2) by (simp add: pf_Add_move_def)
  moreover have "pf_holds H base st1 (pf_mk None (map fst U @ [q]) (map fst C') zs) (U @ [(q, v)]) C' R"
    using f(3,4) c by (intro pf_holds_mkI [OF u(2)]) auto
  ultimately show ?thesis by blast
qed

lemma clear_loop_owned:
  "f = pf_mk None us cs zs \<Longrightarrow> us = map fst (A :: (nat \<times> 'm) list) @ map fst B @ us' \<Longrightarrow> owned base st (K @ B @ K') \<Longrightarrow>
    \<exists>st'. clear_loop H (length B) (int (length A)) st f = Inr st' \<and>
      owned base st' (K @ map (\<lambda>x. (fst x, th_blank H)) B @ K')"
proof (induction B arbitrary: A K st)
  case Nil
  then show ?case by simp
next
  case (Cons b B)
  from owned_update [of base st K "fst b" "snd b" "B @ K'" "th_clear H"] Cons.prems(3) obtain st1 where
    u: "th_Clear H (fst b) st = Inr st1" "owned base st1 ((K @ [(fst b, th_blank H)]) @ B @ K')"
    by (auto simp: th_Clear_def clear)
  have e: "pf_element f (int (length A)) = Inr (fst b)"
    using Cons.prems(1,2) by (simp add: pf_element_mk [of _ _ _ "map fst A"])
  from Cons.IH [OF Cons.prems(1) _ u(2), of "A @ [b]"] Cons.prems(2) obtain st' where
    "clear_loop H (length B) (int (length (A @ [b]))) st1 f = Inr st'"
    "owned base st' ((K @ [(fst b, th_blank H)]) @ map (\<lambda>x. (fst x, th_blank H)) B @ K')" by auto
  with e u(1) show ?case by (simp add: add.commute)
qed

lemma Clear_holds:
  assumes "pf_holds H base st f U C R"
  shows "\<exists>st' f' C'. pf_Clear H st f = Inr (st', f') \<and> pf_holds H base st' f' [] C' R"
proof (cases "U = []")
  case True
  with assms pf_holds_sizes [OF assms] show ?thesis by (auto simp: pf_Clear_def)
next
  case False
  with pf_holds_mkE [OF assms] obtain zs where h: "owned base st (U @ C @ R)" "f = pf_mk None (map fst U) (map fst C) zs"
    "int (length U + length C + length zs) \<le> int32_max" "\<forall>x \<in> set C. snd x = th_blank H" by blast
  let ?B = "map (\<lambda>x. (fst x, th_blank H)) U"
  from clear_loop_owned [OF h(2), of "[]" U "[]" base st "[]" "C @ R"] h(1) obtain st' where
    c: "clear_loop H (length U) 0 st f = Inr st'" "owned base st' (?B @ C @ R)" by auto
  have "pf_Clear H st f = Inr (st', pf_mk None [] (map fst U @ map fst C) zs)"
    using c(1) False unfolding h(2) by (simp add: pf_Clear_def) (simp add: pf_mk_def)
  moreover have "pf_holds H base st' (pf_mk None [] (map fst U @ map fst C) zs) [] (?B @ C) R"
    using h(3,4) by (intro pf_holds_mkI [OF c(2)]) (auto simp: comp_def)
  ultimately show ?thesis by blast
qed

lemma RemoveLast_holds:
  assumes "pf_holds H base st f (U @ [(p, v)]) C R"
  shows "\<exists>st' f'. pf_RemoveLast H st f = Inr (st', f') \<and> pf_holds H base st' f' U ((p, th_blank H) # C) R"
proof -
  from pf_holds_mkE [OF assms] obtain zs where h: "owned base st ((U @ [(p, v)]) @ C @ R)"
    "f = pf_mk None (map fst U @ [p]) (map fst C) zs" "int (length (U @ [(p, v)]) + length C + length zs) \<le> int32_max"
    "\<forall>x \<in> set C. snd x = th_blank H" by auto
  from owned_update [of base st U p v "C @ R" "th_clear H"] h(1) obtain st' where
    u: "th_Clear H p st = Inr st'" "owned base st' (U @ (p, th_blank H) # C @ R)" by (auto simp: th_Clear_def clear)
  have "pf_RemoveLast H st f = Inr (st', pf_mk None (map fst U) (p # map fst C) zs)"
    using u(1) unfolding h(2) by (simp add: pf_RemoveLast_def Let_def)
  moreover have "pf_holds H base st' (pf_mk None (map fst U) (p # map fst C) zs) U ((p, th_blank H) # C) R"
    using h(3,4) by (intro pf_holds_mkI [OF u(2)]) auto
  ultimately show ?thesis by blast
qed

lemma SwapElements_holds:
  assumes "pf_holds H base st f U C R" and "i < length U" and "j < length U"
  shows "\<exists>f'. pf_SwapElements (int i) (int j) f = Inr f' \<and> pf_holds H base st f' (U[i := U ! j, j := U ! i]) C R"
proof -
  have "U @ C \<noteq> []" using assms(2) by auto
  with pf_holds_mkE [OF assms(1)] obtain zs where h: "owned base st (U @ C @ R)" "f = pf_mk None (map fst U) (map fst C) zs"
    "int (length U + length C + length zs) \<le> int32_max" "\<forall>x \<in> set C. snd x = th_blank H" by blast
  let ?V = "U[i := U ! j, j := U ! i]"
  have g: "vec_get (map fst U @ map fst C @ zs) (int k) = Inr (fst (U ! k))" if "k < length U" for k
    using that by (simp add: nth_append)
  have "pf_SwapElements (int i) (int j) f = Inr (pf_mk None (map fst ?V) (map fst C) zs)"
    using assms(2,3) g unfolding h(2)
    by (simp add: pf_SwapElements_def pf_element_def pf_put_def pf_mk_def vec_set_def list_update_append map_update)
  moreover have "pf_holds H base st (pf_mk None (map fst ?V) (map fst C) zs) ?V C R"
    using h(3,4) mset_swap [OF assms(3,2)] by (intro pf_holds_mkI [OF h(1)]) auto
  ultimately show ?thesis by blast
qed

lemma delete_loop_owned:
  "f = pf_mk None us cs zs \<Longrightarrow> us @ cs = map fst (A :: (nat \<times> 'b) list) @ map fst (B :: (nat \<times> 'b) list) @ ps \<Longrightarrow> owned base st (K @ B @ K') \<Longrightarrow>
    \<exists>st'. delete_loop (length B) (int (length A)) st f = Inr st' \<and> owned base st' (K @ K')"
proof (induction B arbitrary: A st)
  case Nil
  then show ?case by simp
next
  case (Cons b B)
  from owned_delete [of base st K "fst b" "snd b" "B @ K'"] Cons.prems(3) obtain st1 where
    d: "th_Delete (fst b) None st = Inr st1" "owned base st1 (K @ B @ K')" by auto
  have "pf_element f (int (length A)) = Inr (fst b)"
    unfolding Cons.prems(1) using arg_cong [OF Cons.prems(2), of "\<lambda>x. x @ zs"]
    by (intro pf_element_mk [of us cs zs "map fst A" _ "map fst B @ ps @ zs"]) simp_all
  then have "pf_Delete (int (length A)) st f = Inr st1" using d(1) Cons.prems(1) by (simp add: pf_Delete_def)
  moreover from Cons.IH [OF Cons.prems(1) _ d(2), of "A @ [b]"] Cons.prems(2) obtain st' where
    "delete_loop (length B) (int (length (A @ [b]))) st1 f = Inr st'" "owned base st' (K @ K')" by auto
  ultimately show ?case by (simp add: add.commute)
qed

lemma Destroy_holds:
  assumes "pf_holds H base st f U C R"
  shows "\<exists>st' f'. pf_Destroy st f = Inr (st', f') \<and> owned base st' R"
proof (cases "pf_rep f = None")
  case True
  with assms pf_holds_no_array [OF assms True] show ?thesis by (auto simp: pf_Destroy_def pf_holds_def)
next
  case False
  from assms obtain zs where h: "owned base st (U @ C @ R)" "pf_arena f = None" "ptr_split f (map fst U) (map fst C) zs"
    by (rule pf_holdsE)
  then have mk: "f = pf_mk None (map fst U) (map fst C) zs" using False by (auto simp: ptr_split_def)
  from delete_loop_owned [OF mk, of "[]" "U @ C" "[]" base st "[]" R] h(1) obtain st' where
    "delete_loop (length (U @ C)) 0 st f = Inr st'" "owned base st' R" by auto
  moreover have "nat (pf_allocated f) = length (U @ C)" using pf_holds_sizes [OF assms] by simp
  ultimately show ?thesis using False h(2) by (simp add: pf_Destroy_def)
qed

text \<open>Deleting, in any order, every object but those of \<open>R\<close>.\<close>

lemma delete_each_owned:
  "owned base st (K @ R) \<Longrightarrow> mset ps = mset (map fst K) \<Longrightarrow> \<exists>st'. delete_each ps st = Inr st' \<and> owned base st' R"
proof (induction ps arbitrary: K st)
  case (Cons p ps)
  have "p \<in> set (map fst K)" using mset_eq_setD [OF Cons.prems(2)] by auto
  then obtain v A B where K: "K = A @ (p, v) # B" by (auto dest: split_list)
  from owned_delete [of base st A p v "B @ R"] Cons.prems(1) obtain st1 where
    d: "th_Delete p None st = Inr st1" "owned base st1 ((A @ B) @ R)" unfolding K by auto
  have "mset ps = mset (map fst (A @ B))" using Cons.prems(2) unfolding K by simp
  from Cons.IH [OF d(2) this] d(1) show ?case by simp
qed simp

lemma destructor_holds:
  assumes "rp_lib_ok L" and "pf_holds H base st f U C R"
  shows "\<exists>st'. RepeatedPtrField_destroy H L st f = Inr st' \<and> owned base st' R"
proof (cases "th_is_message H")
  case True
  from assms(2) obtain zs where h: "owned base st ((U @ C) @ R)" "pf_arena f = None" "ptr_split f (map fst U) (map fst C) zs"
    by (rule pf_holdsE) simp
  show ?thesis
  proof (cases "NeedsDestroy f")
    case d: True
    have "mset (lib_DestroyProtos L f) = mset (map fst (U @ C))" using rp_lib_laws(5) [OF assms(1) h(3) d] by simp
    from delete_each_owned [OF h(1) this] True d show ?thesis by (simp add: RepeatedPtrField_destroy_def)
  next
    case False
    then have "U = [] \<and> C = []" using pf_holds_no_array [OF assms(2)] h(2) by (auto simp: NeedsDestroy_def)
    with h(1) True False show ?thesis by (simp add: RepeatedPtrField_destroy_def)
  qed
next
  case False
  with Destroy_holds [OF assms(2)] show ?thesis by (auto simp: RepeatedPtrField_destroy_def)
qed

lemma CloseGap_holds:
  assumes "rp_lib_ok L" and "ptr_split f (map fst (A @ B @ D)) (map fst C) zs" and "pf_arena f = None"
    and "owned base st K" and "mset K = mset ((A @ D) @ C @ R)" and "\<forall>x \<in> set C. snd x = th_blank H"
  shows "pf_holds H base st (lib_CloseGap L (int (length A)) (int (length B)) f) (A @ D) C R"
  using rp_lib_laws(4) [OF assms(1), of f "map fst A" "map fst B" "map fst D" "map fst C" zs] assms(2,3)
  by (auto intro: pf_holdsI [OF assms(4,5) _ _ assms(6)])

lemma DeleteSubrange_holds:
  assumes "rp_lib_ok L" and "pf_holds H base st f (A @ B @ D) C R"
  shows "\<exists>st' f'. pf_DeleteSubrange L (int (length A)) (int (length B)) st f = Inr (st', f') \<and> pf_holds H base st' f' (A @ D) C R"
proof (cases "B = []")
  case True
  with assms(2) show ?thesis by (simp add: pf_DeleteSubrange_def UnsafeArenaExtractSubrange_def)
next
  case False
  from assms(2) obtain zs where h: "owned base st ((A @ B @ D) @ C @ R)" "pf_arena f = None"
    "ptr_split f (map fst (A @ B @ D)) (map fst C) zs" "\<forall>x \<in> set C. snd x = th_blank H" by (rule pf_holdsE)
  have mk: "f = pf_mk None (map fst (A @ B @ D)) (map fst C) zs" using False by (intro ptr_split_mk [OF h(3) _ h(2)]) simp
  from delete_loop_owned [OF mk, of A B "map fst D @ map fst C" base st A "D @ C @ R"] h(1) obtain st' where
    d: "delete_loop (length B) (int (length A)) st f = Inr st'" "owned base st' (A @ D @ C @ R)" by auto
  from CloseGap_holds [OF assms(1) h(3,2) d(2) _ h(4)] d(1) False show ?thesis
    by (simp add: pf_DeleteSubrange_def UnsafeArenaExtractSubrange_def)
qed

lemma take_loop_eq:
  "f = pf_mk a us cs zs \<Longrightarrow> us = as @ ps @ bs \<Longrightarrow> take_loop (length ps) (int (length as)) f = Inr ps"
proof (induction ps arbitrary: as)
  case (Cons p ps)
  have "pf_Mutable (int (length as)) f = Inr p"
    using Cons.prems by (simp add: pf_Mutable_def pf_element_mk [of _ _ _ as])
  moreover have "take_loop (length ps) (int (length (as @ [p]))) f = Inr ps" by (rule Cons.IH) (use Cons.prems in simp_all)
  ultimately show ?case by (simp add: add.commute)
qed simp

lemma UnsafeArenaExtractSubrange_holds:
  assumes "rp_lib_ok L" and "pf_holds H base st f (A @ B @ D) C R"
  shows "\<exists>f'. UnsafeArenaExtractSubrange L (int (length A)) (int (length B)) True f = Inr (map fst B, f') \<and>
    pf_holds H base st f' (A @ D) C (R @ B)"
proof (cases "B = []")
  case True
  with assms(2) show ?thesis by (simp add: UnsafeArenaExtractSubrange_def)
next
  case False
  from assms(2) obtain zs where h: "owned base st ((A @ B @ D) @ C @ R)" "pf_arena f = None"
    "ptr_split f (map fst (A @ B @ D)) (map fst C) zs" "\<forall>x \<in> set C. snd x = th_blank H" by (rule pf_holdsE)
  have mk: "f = pf_mk None (map fst (A @ B @ D)) (map fst C) zs" using False by (intro ptr_split_mk [OF h(3) _ h(2)]) simp
  have "take_loop (length B) (int (length A)) f = Inr (map fst B)"
    using take_loop_eq [OF mk, of "map fst A" "map fst B" "map fst D"] by simp
  with CloseGap_holds [OF assms(1) h(3,2,1) _ h(4), of "R @ B"] False show ?thesis
    by (simp add: UnsafeArenaExtractSubrange_def)
qed

lemma ExtractSubrange_holds:
  assumes "rp_lib_ok L" and "pf_holds H base st f (A @ B @ D) C R"
  shows "\<exists>f'. pf_ExtractSubrange H L (int (length A)) (int (length B)) True st f = Inr (map fst B, st, f') \<and>
    pf_holds H base st f' (A @ D) C (R @ B)"
proof -
  from UnsafeArenaExtractSubrange_holds [OF assms] obtain f' where
    e: "UnsafeArenaExtractSubrange L (int (length A)) (int (length B)) True f = Inr (map fst B, f')"
      "pf_holds H base st f' (A @ D) C (R @ B)" by blast
  have "pf_arena f = None" using assms(2) by (simp add: pf_holds_def)
  with e have "pf_ExtractSubrange H L (int (length A)) (int (length B)) True st f = Inr (map fst B, st, f')"
    by (auto simp: pf_ExtractSubrange_def ExtractSubrangeInternal_copy_def UnsafeArenaExtractSubrange_def bind_result_Inr_iff
        split: if_splits)
  with e(2) show ?thesis by blast
qed

lemma UnsafeArenaAddAllocated_holds:
  assumes "rp_lib_ok L" and "pf_holds H base st f U C ((p, v) # R)" and "int (length U) < int32_max"
  shows "\<exists>st' f' C'. UnsafeArenaAddAllocated L p st f = Inr (st', f') \<and> pf_holds H base st' f' (U @ [(p, v)]) C' R"
proof -
  note s = pf_holds_sizes [OF assms(2)]
  from assms(2) obtain zs where h: "owned base st (U @ C @ (p, v) # R)" "pf_arena f = None"
    "ptr_split f (map fst U) (map fst C) zs" "\<forall>x \<in> set C. snd x = th_blank H" by (rule pf_holdsE)
  note sz = ptr_split_sizes [OF h(3)]
  consider (full) "pf_rep f = None \<or> pf_current f = pf_total f"
    | (cleared) q C' where "pf_rep f \<noteq> None" "C = (q, th_blank H) # C'"
    | (room) z zs' where "pf_rep f \<noteq> None" "C = []" "zs = z # zs'"
    using h(4) sz blank_pair by (cases C; cases zs) fastforce+
  then show ?thesis
  proof cases
    case full
    then have "pf_total f = int (length U)" using pf_holds_no_array [OF assms(2)] sz by auto
    moreover from this have "C = []" using sz by (cases C) auto
    ultimately have none: "C = []" "pf_total f = int (length U)" by simp_all
    then have r: "pf_Reserve_one L f = Inr (lib_Reserve L (int (length U) + 1) f)"
      using assms(3) by (simp add: pf_Reserve_one_def add_int32_def in_int32_def int32_min_def)
    from rp_lib_laws(1) [OF assms(1) h(3), of "int (length U) + 1"] assms(3) obtain zs1 where
      l: "ptr_split (lib_Reserve L (int (length U) + 1) f) (map fst U) (map fst C) zs1"
        "int (length U) + 1 \<le> pf_total (lib_Reserve L (int (length U) + 1) f)"
        "pf_arena (lib_Reserve L (int (length U) + 1) f) = None" using h(2) by auto
    then obtain z zs' where z: "zs1 = z # zs'" using ptr_split_sizes [OF l(1)] none(1) by (cases zs1) auto
    have mk: "lib_Reserve L (int (length U) + 1) f = pf_mk None (map fst U) [] (z # zs')"
      using ptr_split_mk [OF l(1) _ l(3)] z none(1) by simp
    have "UnsafeArenaAddAllocated L p st f = Inr (st, pf_mk None (map fst U @ [p]) [] zs')"
      using full r unfolding UnsafeArenaAddAllocated_def by (simp add: mk)
    moreover have "pf_holds H base st (pf_mk None (map fst U @ [p]) [] zs') (U @ [(p, v)]) [] R"
      using l(1) z none(1) by (intro pf_holds_mkI [OF h(1)]) (auto simp: ptr_split_def)
    ultimately show ?thesis by blast
  next
    case room
    have mk: "f = pf_mk None (map fst U) [] (z # zs')" using ptr_split_mk [OF h(3) _ h(2)] room by simp
    have "UnsafeArenaAddAllocated L p st f = Inr (st, pf_mk None (map fst U @ [p]) [] zs')"
      unfolding mk UnsafeArenaAddAllocated_def by simp
    moreover have "pf_holds H base st (pf_mk None (map fst U @ [p]) [] zs') (U @ [(p, v)]) [] R"
      using h(3) room by (intro pf_holds_mkI [OF h(1)]) (auto simp: ptr_split_def)
    ultimately show ?thesis by blast
  next
    case cleared
    have mk: "f = pf_mk None (map fst U) (q # map fst C') zs" using ptr_split_mk [OF h(3) _ h(2)] cleared by simp
    show ?thesis
    proof (cases zs)
      case Nil
      from owned_delete [of base st U q "th_blank H" "C' @ (p, v) # R"] h(1) cleared(2) obtain st' where
        d: "th_Delete q None st = Inr st'" "owned base st' (U @ C' @ (p, v) # R)" by auto
      have "UnsafeArenaAddAllocated L p st f = Inr (st', pf_mk None (map fst U @ [p]) (map fst C') [])"
        using d(1) unfolding mk Nil UnsafeArenaAddAllocated_def by (simp add: pf_Delete_def)
      moreover have "pf_holds H base st' (pf_mk None (map fst U @ [p]) (map fst C') []) (U @ [(p, v)]) C' R"
        using h(3,4) cleared(2) by (intro pf_holds_mkI [OF d(2)]) (auto simp: ptr_split_def)
      ultimately show ?thesis by blast
    next
      case (Cons z zs')
      have "UnsafeArenaAddAllocated L p st f = Inr (st, pf_mk None (map fst U @ [p]) (map fst C' @ [q]) zs')"
        using set_allocated_simps(1) [of _ "map fst U" "q # map fst C'" None q zs'] unfolding mk Cons UnsafeArenaAddAllocated_def
        by simp
      moreover have "pf_holds H base st (pf_mk None (map fst U @ [p]) (map fst C' @ [q]) zs') (U @ [(p, v)]) (C' @ [(q, th_blank H)]) R"
        using h(3,4) cleared(2) Cons by (intro pf_holds_mkI [OF h(1)]) (auto simp: ptr_split_def)
      ultimately show ?thesis by blast
    qed
  qed
qed

lemma AddAllocated_fast_eq:
  "f = pf_mk a us cs (z # zs) \<Longrightarrow>
     AddAllocated_fast p f = Inr (pf_mk a (us @ [p]) (case cs of [] \<Rightarrow> [] | c # cs' \<Rightarrow> cs' @ [c]) zs)"
  using set_allocated_simps(1) [of _ "us @ [p]" "tl cs" a "hd cs" zs]
  by (cases cs) (simp_all add: AddAllocated_fast_def, simp_all add: pf_mk_def set_allocated_def pf_allocated_def)

lemma AddAllocated_holds:
  assumes "rp_lib_ok L" and "pf_holds H base st f U C ((p, v) # R)" and "int (length U) < int32_max"
  shows "\<exists>st' f' C'. AddAllocated H L p st f = Inr (st', f') \<and> pf_holds H base st' f' (U @ [(p, v)]) C' R"
proof -
  from assms(2) obtain zs where h: "owned base st (U @ C @ (p, v) # R)" "pf_arena f = None"
    "ptr_split f (map fst U) (map fst C) zs" "\<forall>x \<in> set C. snd x = th_blank H" by (rule pf_holdsE)
  have load: "ob_load st p = Inr (heap_object v)" by (rule owned_load [OF h(1)]) simp
  show ?thesis
  proof (cases "pf_rep f \<noteq> None \<and> pf_allocated f < pf_total f")
    case True
    then obtain z zs' where z: "zs = z # zs'" using ptr_split_sizes [OF h(3)] by (cases zs) auto
    then have mk: "f = pf_mk None (map fst U) (map fst C) (z # zs')" using ptr_split_mk [OF h(3) _ h(2)] by simp
    let ?C = "case C of [] \<Rightarrow> [] | c # C' \<Rightarrow> C' @ [c]"
    have m: "map fst ?C = (case map fst C of [] \<Rightarrow> [] | c # cs' \<Rightarrow> cs' @ [c])" "mset ?C = mset C" "set ?C = set C" "length ?C = length C"
      by (cases C; auto)+
    have "AddAllocated H L p st f = Inr (st, pf_mk None (map fst U @ [p]) (map fst ?C) zs')"
      using True h(2) load AddAllocated_fast_eq [OF mk, of p] m(1)
      by (simp add: AddAllocated_def AddAllocatedInternal_copy_def AddAllocatedInternal_plain_def on_heap)
    moreover have "pf_holds H base st (pf_mk None (map fst U @ [p]) (map fst ?C) zs') (U @ [(p, v)]) ?C R"
      using h(3,4) z m(2,3,4) by (intro pf_holds_mkI [OF h(1)]) (auto simp: ptr_split_def)
    ultimately show ?thesis by blast
  next
    case False
    then have "AddAllocated H L p st f = UnsafeArenaAddAllocated L p st f"
      using h(2) load
      by (auto simp: AddAllocated_def AddAllocatedInternal_copy_def AddAllocatedInternal_plain_def on_heap
          AddAllocatedSlowWithCopy_def)
    with UnsafeArenaAddAllocated_holds [OF assms] show ?thesis by simp
  qed
qed

lemma UnsafeArenaReleaseLast_holds:
  assumes "pf_holds H base st f (U @ [(p, v)]) C R"
  shows "\<exists>f' C'. UnsafeArenaReleaseLast f = Inr (p, f') \<and> pf_holds H base st f' U C' (R @ [(p, v)])"
proof -
  from pf_holds_mkE [OF assms] obtain zs where h: "owned base st ((U @ [(p, v)]) @ C @ R)"
    "f = pf_mk None (map fst U @ [p]) (map fst C) zs" "int (length (U @ [(p, v)]) + length C + length zs) \<le> int32_max"
    "\<forall>x \<in> set C. snd x = th_blank H" by auto
  show ?thesis
  proof (cases C rule: rev_cases)
    case Nil
    have "UnsafeArenaReleaseLast f = Inr (p, pf_mk None (map fst U) [] (p # zs))"
      using set_allocated_simps(2) [of _ "map fst U" "[]" None p zs] unfolding h(2) Nil
      by (simp add: UnsafeArenaReleaseLast_def Let_def)
    moreover have "pf_holds H base st (pf_mk None (map fst U) [] (p # zs)) U [] (R @ [(p, v)])"
      using h(3) Nil by (intro pf_holds_mkI [OF h(1)]) auto
    ultimately show ?thesis by blast
  next
    case (snoc C' c)
    have "pf_element (pf_mk None (map fst U) (p # map fst C') (fst c # zs)) (int (length U) + int (length C') + 1) = Inr (fst c)"
      by (rule pf_element_mk [of _ _ _ "map fst U @ p # map fst C'"]) simp_all
    then have "UnsafeArenaReleaseLast f = Inr (p, pf_mk None (map fst U) (fst c # map fst C') (fst c # zs))"
      using set_allocated_simps(2) [of _ "map fst U" "p # map fst C'" None "fst c" zs] unfolding h(2) snoc
      by (simp add: UnsafeArenaReleaseLast_def Let_def algebra_simps)
    moreover have "pf_holds H base st (pf_mk None (map fst U) (fst c # map fst C') (fst c # zs)) U (c # C') (R @ [(p, v)])"
      using h(3,4) snoc by (intro pf_holds_mkI [OF h(1)]) auto
    ultimately show ?thesis by blast
  qed
qed

lemma ReleaseLast_holds:
  assumes "pf_holds H base st f (U @ [(p, v)]) C R"
  shows "\<exists>f' C'. ReleaseLast H st f = Inr (p, st, f') \<and> pf_holds H base st f' U C' (R @ [(p, v)])"
proof -
  from UnsafeArenaReleaseLast_holds [OF assms] obtain f' C' where
    r: "UnsafeArenaReleaseLast f = Inr (p, f')" "pf_holds H base st f' U C' (R @ [(p, v)])" by blast
  then have "pf_arena f' = None" by (simp add: pf_holds_def)
  with r show ?thesis by (auto simp: ReleaseLast_def ReleaseLastInternal_copy_def)
qed

text \<open>The pool of cleared objects, which the list does not show.\<close>

lemma ReleaseCleared_holds:
  assumes "pf_holds H base st f U (C @ [c]) R"
  shows "\<exists>f'. ReleaseCleared f = Inr (fst c, f') \<and> pf_holds H base st f' U C (R @ [c])"
proof -
  from pf_holds_mkE [OF assms] obtain zs where h: "owned base st (U @ (C @ [c]) @ R)"
    "f = pf_mk None (map fst U) (map fst C @ [fst c]) zs" "int (length U + length (C @ [c]) + length zs) \<le> int32_max"
    "\<forall>x \<in> set (C @ [c]). snd x = th_blank H" by auto
  have "pf_element (pf_mk None (map fst U) (map fst C) (fst c # zs)) (int (length U + length C)) = Inr (fst c)"
    by (rule pf_element_mk [of _ _ _ "map fst U @ map fst C"]) simp_all
  then have "ReleaseCleared f = Inr (fst c, pf_mk None (map fst U) (map fst C) (fst c # zs))"
    using set_allocated_simps(2) [of _ "map fst U" "map fst C" None "fst c" zs] unfolding h(2)
    by (simp add: ReleaseCleared_def algebra_simps)
  moreover have "pf_holds H base st (pf_mk None (map fst U) (map fst C) (fst c # zs)) U C (R @ [c])"
    using h(3,4) by (intro pf_holds_mkI [OF h(1)]) auto
  ultimately show ?thesis by blast
qed

lemma AddCleared_holds:
  assumes "rp_lib_ok L" and "pf_holds H base st f U C ((p, th_blank H) # R)" and "int (length U + length C) < int32_max"
  shows "\<exists>f'. AddCleared L p f = Inr f' \<and> pf_holds H base st f' U (C @ [(p, th_blank H)]) R"
proof -
  let ?R = "(p, th_blank H) # R"
  from Reserve_one_holds [OF assms] obtain f1 where
    f1: "(if pf_rep f = None \<or> pf_allocated f = pf_total f then pf_Reserve_one L f else Inr f) = Inr f1"
    "pf_holds H base st f1 U C ?R" "int (length U + length C) < pf_total f1" by blast
  from f1(2) obtain zs where z: "owned base st (U @ C @ ?R)" "pf_arena f1 = None" "ptr_split f1 (map fst U) (map fst C) zs"
    "\<forall>x \<in> set C. snd x = th_blank H" by (rule pf_holdsE)
  then obtain z' zs' where zs: "zs = z' # zs'" using f1(3) ptr_split_sizes [OF z(3)] by (cases zs) auto
  have mk: "f1 = pf_mk None (map fst U) (map fst C) (z' # zs')" using ptr_split_mk [OF z(3) _ z(2)] zs by simp
  have "AddCleared L p f = Inr (pf_mk None (map fst U) (map fst C @ [p]) zs')"
    using f1(1) unfolding mk by (simp add: AddCleared_def add.commute)
  moreover have "pf_holds H base st (pf_mk None (map fst U) (map fst C @ [p]) zs') U (C @ [(p, th_blank H)]) R"
    using z(3,4) zs by (intro pf_holds_mkI [OF z(1)]) (auto simp: ptr_split_def)
  ultimately show ?thesis by blast
qed

lemma new_loop_owned:
  "k \<le> length zs \<Longrightarrow> owned base st K \<Longrightarrow> i = int (length cs + length ns) \<Longrightarrow>
    \<exists>st' N. new_loop H k i st (pf_mk None us cs (ns @ zs)) = Inr (st', pf_mk None us cs (ns @ map fst N @ drop k zs)) \<and>
      length N = k \<and> (\<forall>x \<in> set N. snd x = th_blank H) \<and> owned base st' (K @ N)"
proof (induction k arbitrary: st K ns zs i)
  case 0
  then show ?case by (intro exI [of _ st] exI [of _ "[]"]) simp
next
  case (Suc k)
  then obtain z zs' where z: "zs = z # zs'" by (cases zs) auto
  obtain p st1 where n: "th_New (th_blank H) None st = (p, st1)" by fastforce
  have put: "pf_put (int (length us) + i) p (pf_mk None us cs (ns @ z # zs')) = Inr (pf_mk None us cs ((ns @ [p]) @ zs'))"
    using Suc.prems(3) by (intro pf_put_mk [of _ _ _ "us @ cs @ ns" z]) simp_all
  have "owned base st1 (K @ [(p, th_blank H)])"
    using owned_new [OF Suc.prems(2) n] owned_mset [of "(p, th_blank H) # K" "K @ [(p, th_blank H)]"] by simp
  from Suc.IH [OF _ this, of zs' "i + 1" "ns @ [p]"] Suc.prems(1,3) z obtain st' N where
    r: "new_loop H k (i + 1) st1 (pf_mk None us cs ((ns @ [p]) @ zs')) =
        Inr (st', pf_mk None us cs ((ns @ [p]) @ map fst N @ drop k zs'))"
      "length N = k" "\<forall>x \<in> set N. snd x = th_blank H" "owned base st' ((K @ [(p, th_blank H)]) @ N)" by auto
  with n put z show ?case
    by (intro exI [of _ st'] exI [of _ "(p, th_blank H) # N"]) (simp add: th_NewFromPrototype_def)
qed

lemma merge_loop_owned:
  "g = pf_mk ag (map fst (W1 :: (nat \<times> 'm) list) @ map fst W2) cg zg \<Longrightarrow> f = pf_mk None us cs zs \<Longrightarrow>
    us @ cs @ zs = us @ map fst (D1 :: (nat \<times> 'm) list) @ map fst D2 @ rest \<Longrightarrow> length W1 = length D1 \<Longrightarrow> length W2 = length D2 \<Longrightarrow>
    \<forall>(p, v) \<in> set W2. \<exists>ob. base p = Some ob \<and> ob_value ob = v \<Longrightarrow> \<forall>x \<in> set D2. snd x = th_blank H \<Longrightarrow>
    owned base st (K @ D2 @ K') \<Longrightarrow> i = int (length D1) \<Longrightarrow>
    \<exists>st'. merge_loop H (length D2) i g st f = Inr st' \<and> owned base st' (K @ zip (map fst D2) (map snd W2) @ K')"
proof (induction D2 arbitrary: W1 W2 D1 K st i)
  case Nil
  then show ?case by simp
next
  case (Cons d D2)
  then obtain w W2' where w: "W2 = w # W2'" by (cases W2) auto
  from Cons.prems(6) w obtain ob where ob: "base (fst w) = Some ob" "ob_value ob = snd w" by (cases w) auto
  have d: "d = (fst d, th_blank H)" using Cons.prems(7) by (cases d) auto
  have load: "ob_load st (fst w) = Inr ob" by (rule owned_load_base [OF Cons.prems(8) ob(1)])
  from owned_update [of base st K "fst d" "th_blank H" "D2 @ K'" "\<lambda>v. th_merge H v (ob_value ob)"] Cons.prems(8) d obtain st1 where
    u: "ob_update (fst d) (\<lambda>v. th_merge H v (ob_value ob)) st = Inr st1" "owned base st1 ((K @ [(fst d, snd w)]) @ D2 @ K')"
    by (auto simp: merge_blank ob(2))
  have e: "pf_element g i = Inr (fst w)" unfolding Cons.prems(1) using Cons.prems(4,9) w
    by (intro pf_element_mk [of _ _ _ "map fst W1" _ "map fst W2' @ cg @ zg"]) simp_all
  have e': "pf_element f (pf_current f + i) = Inr (fst d)" unfolding Cons.prems(2) using Cons.prems(3,9)
    by (intro pf_element_mk [of us cs zs "us @ map fst D1" _ "map fst D2 @ rest"]) simp_all
  from Cons.IH [OF _ Cons.prems(2) _ _ _ _ _ u(2), of "W1 @ [w]" W2' "D1 @ [d]" "i + 1"] Cons.prems w obtain st' where
    "merge_loop H (length D2) (i + 1) g st1 f = Inr st'" "owned base st' ((K @ [(fst d, snd w)]) @ zip (map fst D2) (map snd W2') @ K')"
    by auto
  with load u(1) e e' w show ?case by (simp add: th_Merge_def)
qed

lemma InnerLoop_owned:
  assumes "owned base st (U @ C @ R)" and "\<forall>x \<in> set C. snd x = th_blank H" and "g = pf_mk ag (map fst W) cg zg"
    and "\<forall>(p, v) \<in> set W. \<exists>ob. base p = Some ob \<and> ob_value ob = v" and "length W \<le> length C + length zs"
  shows "\<exists>st2 N. MergeFromInnerLoop H g (int (length W)) (int (length C)) st (pf_mk None (map fst U) (map fst C) zs) =
      Inr (st2, pf_mk None (map fst U) (map fst C) (map fst N @ drop (length W - length C) zs)) \<and>
    length N = length W - length C \<and>
    owned base st2 (U @ zip (map fst (take (length W) C @ N)) (map snd W) @ drop (length W) C @ R)"
proof -
  define k where "k = length W - length C"
  have "k \<le> length zs" using assms(5) by (simp add: k_def)
  from new_loop_owned [OF this assms(1), of "int (length C)" "map fst C" "[]" "map fst U"] obtain st1 N where
    n: "new_loop H k (int (length C)) st (pf_mk None (map fst U) (map fst C) zs) =
        Inr (st1, pf_mk None (map fst U) (map fst C) (map fst N @ drop k zs))"
      "length N = k" "\<forall>x \<in> set N. snd x = th_blank H" "owned base st1 ((U @ C @ R) @ N)" by auto
  let ?f1 = "pf_mk None (map fst U) (map fst C) (map fst N @ drop k zs)"
  let ?D = "take (length W) C @ N" and ?C = "drop (length W) C"
  have CN: "C @ N = ?D @ ?C" using n(2) by (cases "length C \<le> length W") (simp_all add: k_def)
  have lD: "length ?D = length W" using n(2) by (auto simp: k_def)
  have o1: "owned base st1 (U @ ?D @ (?C @ R))"
    using n(4) owned_mset [of "(U @ C @ R) @ N" "U @ ?D @ ?C @ R" base st1] arg_cong [OF CN, of mset] by (simp add: union_ac)
  have blank: "\<forall>x \<in> set ?D. snd x = th_blank H" using assms(2) n(3) by (auto dest: in_set_takeD)
  have arr: "map fst U @ map fst C @ map fst N @ drop k zs =
      map fst U @ map fst [] @ map fst ?D @ map fst ?C @ drop k zs"
    using arg_cong [OF CN, of "map fst"] by simp
  have g: "g = pf_mk ag (map fst [] @ map fst W) cg zg" using assms(3) by simp
  have "\<exists>st2. merge_loop H (length ?D) 0 g st1 ?f1 = Inr st2 \<and> owned base st2 (U @ zip (map fst ?D) (map snd W) @ ?C @ R)"
    by (rule merge_loop_owned [OF g refl arr _ _ assms(4) blank o1]) (use lD in simp_all)
  then obtain st2 where
    m: "merge_loop H (length W) 0 g st1 ?f1 = Inr st2" "owned base st2 (U @ zip (map fst ?D) (map snd W) @ ?C @ R)"
    unfolding lD by blast
  have "MergeFromInnerLoop H g (int (length W)) (int (length C)) st (pf_mk None (map fst U) (map fst C) zs) = Inr (st2, ?f1)"
    using n(1) m(1) n(2) by (cases "length C < length W") (auto simp: MergeFromInnerLoop_def k_def nat_diff_distrib')
  with m(2) n(2) show ?thesis unfolding k_def by blast
qed

lemma MergeFrom_holds:
  assumes "rp_lib_ok L" and "pf_holds H base st f U C R" and "held_elsewhere base g W"
    and "int (length U + length W) \<le> int32_max"
  shows "\<exists>st' f' V C'. pf_MergeFrom H L g st f = Inr (st', f') \<and> pf_holds H base st' f' (U @ V) C' R \<and> map snd V = map snd W"
proof (cases "W = []")
  case True
  with assms(3) have "pf_current g = 0" by (auto simp: held_elsewhere_def dest: ptr_split_sizes)
  with assms(2) True show ?thesis
    by (intro exI [of _ st] exI [of _ f] exI [of _ "[]"] exI [of _ C]) (simp add: pf_MergeFrom_def)
next
  case False
  from assms(3) obtain cg zg where g: "ptr_split g (map fst W) cg zg"
    "\<forall>(p, v) \<in> set W. \<exists>ob. base p = Some ob \<and> ob_value ob = v" by (auto simp: held_elsewhere_def)
  have gm: "g = pf_mk (pf_arena g) (map fst W) cg zg" using ptr_split_mk [OF g(1) _ refl] False by simp
  let ?n = "int (length W)"
  have gn: "pf_current g = ?n" "?n \<noteq> 0" using ptr_split_sizes [OF g(1)] False by simp_all
  from assms(2) obtain zs0 where h: "owned base st (U @ C @ R)" "pf_arena f = None" "ptr_split f (map fst U) (map fst C) zs0"
    "\<forall>x \<in> set C. snd x = th_blank H" by (rule pf_holdsE)
  from rp_lib_laws(2) [OF assms(1) h(3), of ?n] False assms(4) h(2) obtain zs where
    e: "ptr_split (lib_InternalExtend L ?n f) (map fst U) (map fst C) zs"
      "int (length U) + ?n \<le> pf_total (lib_InternalExtend L ?n f)" "pf_arena (lib_InternalExtend L ?n f) = None" by auto
  have room: "length W \<le> length C + length zs" using e(2) ptr_split_sizes [OF e(1)] by simp
  then have "map fst C @ zs \<noteq> []" using False by auto
  then have mk: "lib_InternalExtend L ?n f = pf_mk None (map fst U) (map fst C) zs" by (intro ptr_split_mk [OF e(1) _ e(3)]) simp
  from InnerLoop_owned [OF h(1,4) gm g(2) room] obtain st2 N where
    inner: "MergeFromInnerLoop H g ?n (int (length C)) st (pf_mk None (map fst U) (map fst C) zs) =
      Inr (st2, pf_mk None (map fst U) (map fst C) (map fst N @ drop (length W - length C) zs))"
    and N: "length N = length W - length C"
    and o2: "owned base st2 (U @ zip (map fst (take (length W) C @ N)) (map snd W) @ drop (length W) C @ R)" by blast
  let ?f1 = "pf_mk None (map fst U) (map fst C) (map fst N @ drop (length W - length C) zs)"
  let ?D = "take (length W) C @ N" and ?C = "drop (length W) C"
  let ?V = "zip (map fst ?D) (map snd W)" and ?f2 = "pf_mk None (map fst U @ map fst ?D) (map fst ?C) (drop (length W - length C) zs)"
  have lD: "length ?D = length W" using N by auto
  have arr: "map fst C @ map fst N = map fst ?D @ map fst ?C"
    using N by (cases "length C \<le> length W") (simp_all flip: map_append)
  have fin: "(let f3 = ?f1\<lparr>pf_current := pf_current ?f1 + ?n\<rparr> in
      if pf_allocated f3 < pf_current f3 then set_allocated (pf_current f3) f3 else Inr f3) = Inr ?f2"
    using lD arr N by (auto simp: pf_mk_def set_allocated_def pf_allocated_def Let_def)
  have "pf_MergeFrom H L g st f = Inr (st2, ?f2)"
  proof -
    have "pf_MergeFrom H L g st f = MergeFromInternal H L g st f" using gn by (simp add: pf_MergeFrom_def)
    also have "\<dots> = bind_result (MergeFromInnerLoop H g ?n (int (length C)) st (pf_mk None (map fst U) (map fst C) zs))
        (\<lambda>(st2, f2). bind_result (let f3 = f2\<lparr>pf_current := pf_current f2 + ?n\<rparr> in
          if pf_allocated f3 < pf_current f3 then set_allocated (pf_current f3) f3 else Inr f3) (\<lambda>f4. Inr (st2, f4)))"
      unfolding MergeFromInternal_def Let_def gn(1) mk by simp
    also have "\<dots> = Inr (st2, ?f2)" unfolding inner bind_result.simps prod.case fin ..
    finally show ?thesis .
  qed
  moreover have "pf_holds H base st2 ?f2 (U @ ?V) ?C R"
    using e(1) h(4) lD N room by (intro pf_holds_mkI [OF o2]) (auto simp: ptr_split_def dest: in_set_dropD)
  moreover have "map snd ?V = map snd W" using lD by simp
  ultimately show ?thesis by blast
qed

lemma CopyFrom_holds:
  assumes "rp_lib_ok L" and "pf_holds H base st f U C R" and "held_elsewhere base g W" and "int (length W) \<le> int32_max"
  shows "\<exists>st' f' V C'. pf_CopyFrom H L g st f = Inr (st', f') \<and> pf_holds H base st' f' V C' R \<and> map snd V = map snd W"
proof -
  from Clear_holds [OF assms(2)] obtain st1 f1 C1 where
    "pf_Clear H st f = Inr (st1, f1)" "pf_holds H base st1 f1 [] C1 R" by blast
  with MergeFrom_holds [OF assms(1) this(2) assms(3)] assms(4) show ?thesis by (simp add: pf_CopyFrom_def)
qed

lemma Assign_holds:
  assumes "rp_lib_ok L" and "pf_holds H base st f U C R" and "int (length vs) \<le> int32_max"
  shows "\<exists>st' f' V C'. pf_Assign H L forward vs st f = Inr (st', f') \<and> pf_holds H base st' f' V C' R \<and> map snd V = vs"
proof -
  from Clear_holds [OF assms(2)] obtain st1 f1 C1 where
    "pf_Clear H st f = Inr (st1, f1)" "pf_holds H base st1 f1 [] C1 R" by blast
  with Add_range_holds [OF assms(1) this(2), of vs forward] assms(3) show ?thesis by (simp add: pf_Assign_def)
qed

end

section \<open>Histories\<close>

datatype 'm pf_op =
    PAdd 'm
  | PAdd_move 'm
  | PWrite int 'm
  | PAdd_range bool "'m list"
  | PRemoveLast
  | PClear
  | PAssign bool "'m list"
  | PDeleteSubrange int int
  | PExtractSubrange int int
  | PSwapElements int int
  | PUnsafeArenaExtractSubrange int int
  | PErase int
  | PErase_range int int
  | PAddAllocated 'm
  | PUnsafeArenaAddAllocated 'm
  | PReleaseLast
  | PUnsafeArenaReleaseLast
  | PReserve int
  | PMergeFrom
  | PCopyFrom

text \<open>
  One operation, the other field of a merge being \<open>g\<close>; the pointers given away so far are collected. \<open>PAdd\<close> writes
  through the pointer that \<open>Add\<close> returned, \<open>PAddAllocated\<close> and \<open>PUnsafeArenaAddAllocated\<close> hand over an object that was
  just created.
\<close>

fun run_pf_op ::
    "'m handler \<Rightarrow> rp_lib \<Rightarrow> ptr_field \<Rightarrow> 'm pf_op \<Rightarrow> 'm store \<times> ptr_field \<times> nat list \<Rightarrow> ('m store \<times> ptr_field \<times> nat list) result" where
  "run_pf_op H L g (PAdd v) (st, f, ps) =
     bind_result (pf_Add H L st f) (\<lambda>(p, st1, f1). bind_result (ob_update p (\<lambda>_. v) st1) (\<lambda>st2. Inr (st2, f1, ps)))"
| "run_pf_op H L g (PAdd_move v) (st, f, ps) = bind_result (pf_Add_move L v st f) (\<lambda>(st1, f1). Inr (st1, f1, ps))"
| "run_pf_op H L g (PWrite i v) (st, f, ps) =
     bind_result (pf_Mutable i f) (\<lambda>p. bind_result (ob_update p (\<lambda>_. v) st) (\<lambda>st1. Inr (st1, f, ps)))"
| "run_pf_op H L g (PAdd_range forward vs) (st, f, ps) =
     bind_result (pf_Add_range H L forward vs st f) (\<lambda>(st1, f1). Inr (st1, f1, ps))"
| "run_pf_op H L g PRemoveLast (st, f, ps) = bind_result (pf_RemoveLast H st f) (\<lambda>(st1, f1). Inr (st1, f1, ps))"
| "run_pf_op H L g PClear (st, f, ps) = bind_result (pf_Clear H st f) (\<lambda>(st1, f1). Inr (st1, f1, ps))"
| "run_pf_op H L g (PAssign forward vs) (st, f, ps) =
     bind_result (pf_Assign H L forward vs st f) (\<lambda>(st1, f1). Inr (st1, f1, ps))"
| "run_pf_op H L g (PDeleteSubrange i n) (st, f, ps) =
     bind_result (pf_DeleteSubrange L i n st f) (\<lambda>(st1, f1). Inr (st1, f1, ps))"
| "run_pf_op H L g (PExtractSubrange i n) (st, f, ps) =
     bind_result (pf_ExtractSubrange H L i n True st f) (\<lambda>(qs, st1, f1). Inr (st1, f1, ps @ qs))"
| "run_pf_op H L g (PSwapElements i j) (st, f, ps) = bind_result (pf_SwapElements i j f) (\<lambda>f1. Inr (st, f1, ps))"
| "run_pf_op H L g (PAddAllocated v) (st, f, ps) =
     (let (p, st1) = th_New v None st in bind_result (AddAllocated H L p st1 f) (\<lambda>(st2, f1). Inr (st2, f1, ps)))"
| "run_pf_op H L g (PUnsafeArenaExtractSubrange i n) (st, f, ps) =
     bind_result (UnsafeArenaExtractSubrange L i n True f) (\<lambda>(qs, f1). Inr (st, f1, ps @ qs))"
| "run_pf_op H L g (PErase i) (st, f, ps) = bind_result (pf_erase L i st f) (\<lambda>(k, st1, f1). Inr (st1, f1, ps))"
| "run_pf_op H L g (PErase_range i j) (st, f, ps) =
     bind_result (pf_erase_range L i j st f) (\<lambda>(k, st1, f1). Inr (st1, f1, ps))"
| "run_pf_op H L g (PUnsafeArenaAddAllocated v) (st, f, ps) =
     (let (p, st1) = th_New v None st in bind_result (UnsafeArenaAddAllocated L p st1 f) (\<lambda>(st2, f1). Inr (st2, f1, ps)))"
| "run_pf_op H L g PUnsafeArenaReleaseLast (st, f, ps) =
     bind_result (UnsafeArenaReleaseLast f) (\<lambda>(p, f1). Inr (st, f1, ps @ [p]))"
| "run_pf_op H L g PReleaseLast (st, f, ps) = bind_result (ReleaseLast H st f) (\<lambda>(p, st1, f1). Inr (st1, f1, ps @ [p]))"
| "run_pf_op H L g (PReserve n) (st, f, ps) = Inr (st, lib_Reserve L n f, ps)"
| "run_pf_op H L g PMergeFrom (st, f, ps) = bind_result (pf_MergeFrom H L g st f) (\<lambda>(st1, f1). Inr (st1, f1, ps))"
| "run_pf_op H L g PCopyFrom (st, f, ps) = bind_result (pf_CopyFrom H L g st f) (\<lambda>(st1, f1). Inr (st1, f1, ps))"

fun run_pf ::
    "'m handler \<Rightarrow> rp_lib \<Rightarrow> ptr_field \<Rightarrow> 'm pf_op list \<Rightarrow> 'm store \<times> ptr_field \<times> nat list \<Rightarrow> ('m store \<times> ptr_field \<times> nat list) result" where
  "run_pf H L g [] s = Inr s"
| "run_pf H L g (op # ops) s = bind_result (run_pf_op H L g op s) (run_pf H L g ops)"

text \<open>
  The same operations on the list of values, together with the values given away; \<open>ws\<close> are those of the other field.
  Outside the documented preconditions there is no result.
\<close>

fun list_pf_op :: "'m list \<Rightarrow> 'm pf_op \<Rightarrow> 'm list \<times> 'm list \<Rightarrow> ('m list \<times> 'm list) option" where
  "list_pf_op ws (PAdd v) (xs, ys) = (if int (length xs) < int32_max then Some (xs @ [v], ys) else None)"
| "list_pf_op ws (PAdd_move v) (xs, ys) = (if int (length xs) < int32_max then Some (xs @ [v], ys) else None)"
| "list_pf_op ws (PWrite i v) (xs, ys) = (if 0 \<le> i \<and> i < int (length xs) then Some (xs[nat i := v], ys) else None)"
| "list_pf_op ws (PAdd_range forward vs) (xs, ys) =
     (if int (length xs + length vs) \<le> int32_max then Some (xs @ vs, ys) else None)"
| "list_pf_op ws PRemoveLast (xs, ys) = (if xs \<noteq> [] then Some (butlast xs, ys) else None)"
| "list_pf_op ws PClear (xs, ys) = Some ([], ys)"
| "list_pf_op ws (PAssign forward vs) (xs, ys) = (if int (length vs) \<le> int32_max then Some (vs, ys) else None)"
| "list_pf_op ws (PDeleteSubrange i n) (xs, ys) =
     (if 0 \<le> i \<and> 0 \<le> n \<and> i + n \<le> int (length xs) then Some (take (nat i) xs @ drop (nat i + nat n) xs, ys) else None)"
| "list_pf_op ws (PExtractSubrange i n) (xs, ys) =
     (if 0 \<le> i \<and> 0 \<le> n \<and> i + n \<le> int (length xs)
      then Some (take (nat i) xs @ drop (nat i + nat n) xs, ys @ take (nat n) (drop (nat i) xs)) else None)"
| "list_pf_op ws (PUnsafeArenaExtractSubrange i n) (xs, ys) =
     (if 0 \<le> i \<and> 0 \<le> n \<and> i + n \<le> int (length xs)
      then Some (take (nat i) xs @ drop (nat i + nat n) xs, ys @ take (nat n) (drop (nat i) xs)) else None)"
| "list_pf_op ws (PErase i) (xs, ys) =
     (if 0 \<le> i \<and> i < int (length xs) then Some (take (nat i) xs @ drop (nat i + 1) xs, ys) else None)"
| "list_pf_op ws (PErase_range i j) (xs, ys) =
     (if 0 \<le> i \<and> i \<le> j \<and> j \<le> int (length xs) then Some (take (nat i) xs @ drop (nat j) xs, ys) else None)"
| "list_pf_op ws (PUnsafeArenaAddAllocated v) (xs, ys) = (if int (length xs) < int32_max then Some (xs @ [v], ys) else None)"
| "list_pf_op ws PUnsafeArenaReleaseLast (xs, ys) = (if xs \<noteq> [] then Some (butlast xs, ys @ [last xs]) else None)"
| "list_pf_op ws (PSwapElements i j) (xs, ys) =
     (if 0 \<le> i \<and> i < int (length xs) \<and> 0 \<le> j \<and> j < int (length xs)
      then Some (xs[nat i := xs ! nat j, nat j := xs ! nat i], ys) else None)"
| "list_pf_op ws (PAddAllocated v) (xs, ys) = (if int (length xs) < int32_max then Some (xs @ [v], ys) else None)"
| "list_pf_op ws PReleaseLast (xs, ys) = (if xs \<noteq> [] then Some (butlast xs, ys @ [last xs]) else None)"
| "list_pf_op ws (PReserve n) (xs, ys) = (if n \<le> int32_max then Some (xs, ys) else None)"
| "list_pf_op ws PMergeFrom (xs, ys) = (if int (length xs + length ws) \<le> int32_max then Some (xs @ ws, ys) else None)"
| "list_pf_op ws PCopyFrom (xs, ys) = (if int (length ws) \<le> int32_max then Some (ws, ys) else None)"

fun list_pf :: "'m list \<Rightarrow> 'm pf_op list \<Rightarrow> 'm list \<times> 'm list \<Rightarrow> ('m list \<times> 'm list) option" where
  "list_pf ws [] s = Some s"
| "list_pf ws (op # ops) s = Option.bind (list_pf_op ws op s) (list_pf ws ops)"

lemma split_at_index:
  "0 \<le> i \<Longrightarrow> i < int (length U) \<Longrightarrow> U = take (nat i) U @ (fst (U ! nat i), snd (U ! nat i)) # drop (Suc (nat i)) U \<and>
     int (length (take (nat i) U)) = i"
  using id_take_nth_drop [of "nat i" U] by auto

lemma split_range:
  assumes "0 \<le> i" and "0 \<le> n" and "i + n \<le> int (length U)"
  shows "U = take (nat i) U @ take (nat n) (drop (nat i) U) @ drop (nat i + nat n) U \<and> int (length (take (nat i) U)) = i \<and>
    int (length (take (nat n) (drop (nat i) U))) = n"
proof -
  have "drop (nat i) U = take (nat n) (drop (nat i) U) @ drop (nat i + nat n) U"
    using append_take_drop_id [of "nat n" "drop (nat i) U"] by (simp add: add.commute)
  then have "U = take (nat i) U @ take (nat n) (drop (nat i) U) @ drop (nat i + nat n) U"
    using append_take_drop_id [of "nat i" U] by simp
  with assms show ?thesis by auto
qed

lemma snoc_pair: "U \<noteq> [] \<Longrightarrow> U = butlast U @ [(fst (last U), snd (last U))]"
  by simp

text \<open>The state of a history: the store with the field, and what was given away.\<close>

definition pf_world ::
    "'m handler \<Rightarrow> (nat \<Rightarrow> 'm object option) \<Rightarrow> 'm store \<times> ptr_field \<times> nat list \<Rightarrow> 'm list \<Rightarrow> 'm list \<Rightarrow> bool" where
  "pf_world H base s xs ys \<longleftrightarrow>
     (\<exists>U C R. pf_holds H base (fst s) (fst (snd s)) U C R \<and> map snd U = xs \<and> map snd R = ys \<and> snd (snd s) = map fst R)"

lemma pf_worldI: "pf_holds H base st f U C R \<Longrightarrow> map snd U = xs \<Longrightarrow> map snd R = ys \<Longrightarrow> ps = map fst R \<Longrightarrow>
    pf_world H base (st, f, ps) xs ys"
  by (auto simp: pf_world_def)

context type_handler
begin

lemma delete_range:
  assumes "rp_lib_ok L" and "pf_holds H base st f U C R" and "0 \<le> i" and "0 \<le> n" and "i + n \<le> int (length U)"
  shows "\<exists>st' f'. pf_DeleteSubrange L i n st f = Inr (st', f') \<and>
    pf_holds H base st' f' (take (nat i) U @ drop (nat i + nat n) U) C R"
  using DeleteSubrange_holds [OF assms(1), of base st f "take (nat i) U" "take (nat n) (drop (nat i) U)" "drop (nat i + nat n) U" C R]
    split_range [OF assms(3-5)] assms(2) by metis

lemma handed_over:
  assumes "pf_holds H base st f U C R" and "th_New v None st = (p, st1)"
  shows "pf_holds H base st1 f U C ((p, v) # R)"
proof -
  from assms(1) obtain zs where h: "owned base st (U @ C @ R)" "pf_arena f = None" "ptr_split f (map fst U) (map fst C) zs"
    "\<forall>x \<in> set C. snd x = th_blank H" by (rule pf_holdsE)
  show ?thesis by (rule pf_holdsI [OF owned_new [OF h(1) assms(2)] _ h(2,3,4)]) simp
qed

lemma pf_op_refines:
  assumes "rp_lib_ok L" and "held_elsewhere base g W" and "pf_holds H base st f U C R"
    and "list_pf_op (map snd W) op (map snd U, map snd R) = Some (xs, ys)"
  shows "\<exists>s. run_pf_op H L g op (st, f, map fst R) = Inr s \<and> pf_world H base s xs ys"
proof (cases op)
  case (PAdd v)
  with assms(4) Add_value_holds [OF assms(1,3), of v] show ?thesis by (fastforce intro: pf_worldI split: if_splits)
next
  case (PAdd_move v)
  with assms(4) Add_move_holds [OF assms(1,3), of v] show ?thesis by (fastforce intro: pf_worldI split: if_splits)
next
  case (PWrite i v)
  with assms(4) have i: "0 \<le> i" "i < int (length U)" by (auto split: if_splits)
  note u = split_at_index [OF this]
  from Write_holds [of base st f "take (nat i) U" "fst (U ! nat i)" "snd (U ! nat i)" "drop (Suc (nat i)) U" C R "\<lambda>_. v"] u assms(3)
  obtain st' where "pf_Mutable i f = Inr (fst (U ! nat i))" "ob_update (fst (U ! nat i)) (\<lambda>_. v) st = Inr st'"
    "pf_holds H base st' f (take (nat i) U @ (fst (U ! nat i), v) # drop (Suc (nat i)) U) C R" by metis
  moreover have "map snd (take (nat i) U @ (fst (U ! nat i), v) # drop (Suc (nat i)) U) = (map snd U)[nat i := v]"
    using i by (simp add: upd_conv_take_nth_drop take_map drop_map)
  ultimately show ?thesis using PWrite assms(4) i by (auto intro!: pf_worldI)
next
  case (PAdd_range forward vs)
  with assms(4) Add_range_holds [OF assms(1,3), of vs forward] show ?thesis by (fastforce intro: pf_worldI split: if_splits)
next
  case PRemoveLast
  with assms(4) have u: "U \<noteq> []" by (auto split: if_splits)
  with RemoveLast_holds [of base st f "butlast U" "fst (last U)" "snd (last U)" C R] assms(3) snoc_pair [OF u]
  obtain st' f' where "pf_RemoveLast H st f = Inr (st', f')"
    "pf_holds H base st' f' (butlast U) ((fst (last U), th_blank H) # C) R" by metis
  with PRemoveLast assms(4) show ?thesis by (auto intro!: pf_worldI simp: map_butlast split: if_splits)
next
  case PClear
  with assms(4) Clear_holds [OF assms(3)] show ?thesis by (fastforce intro: pf_worldI)
next
  case (PAssign forward vs)
  with assms(4) Assign_holds [OF assms(1,3), of vs forward] show ?thesis by (fastforce intro: pf_worldI split: if_splits)
next
  case (PDeleteSubrange i n)
  with assms(4) have i: "0 \<le> i" "0 \<le> n" "i + n \<le> int (length U)" by (auto split: if_splits)
  from delete_range [OF assms(1,3) this] obtain st' f' where "pf_DeleteSubrange L i n st f = Inr (st', f')"
    "pf_holds H base st' f' (take (nat i) U @ drop (nat i + nat n) U) C R" by blast
  with PDeleteSubrange assms(4) i show ?thesis by (auto intro!: pf_worldI simp: take_map drop_map)
next
  case (PExtractSubrange i n)
  with assms(4) have i: "0 \<le> i" "0 \<le> n" "i + n \<le> int (length U)" by (auto split: if_splits)
  note u = split_range [OF this]
  from ExtractSubrange_holds [OF assms(1), of base st f "take (nat i) U" "take (nat n) (drop (nat i) U)" "drop (nat i + nat n) U" C R]
    u assms(3) obtain f' where "pf_ExtractSubrange H L i n True st f = Inr (map fst (take (nat n) (drop (nat i) U)), st, f')"
    "pf_holds H base st f' (take (nat i) U @ drop (nat i + nat n) U) C (R @ take (nat n) (drop (nat i) U))" by metis
  with PExtractSubrange assms(4) i show ?thesis by (auto intro!: pf_worldI simp: take_map drop_map)
next
  case (PSwapElements i j)
  with assms(4) have i: "0 \<le> i" "i < int (length U)" "0 \<le> j" "j < int (length U)" by (auto split: if_splits)
  with SwapElements_holds [OF assms(3), of "nat i" "nat j"] obtain f' where "pf_SwapElements i j f = Inr f'"
    "pf_holds H base st f' (U[nat i := U ! nat j, nat j := U ! nat i]) C R" by (auto simp: nat_less_iff)
  with PSwapElements assms(4) i show ?thesis by (auto intro!: pf_worldI simp: map_update)
next
  case (PAddAllocated v)
  obtain p st1 where n: "th_New v None st = (p, st1)" by fastforce
  with PAddAllocated assms(4) AddAllocated_holds [OF assms(1) handed_over [OF assms(3) n]] show ?thesis
    by (fastforce intro: pf_worldI split: if_splits)
next
  case (PUnsafeArenaAddAllocated v)
  obtain p st1 where n: "th_New v None st = (p, st1)" by fastforce
  with PUnsafeArenaAddAllocated assms(4) UnsafeArenaAddAllocated_holds [OF assms(1) handed_over [OF assms(3) n]] show ?thesis
    by (fastforce intro: pf_worldI split: if_splits)
next
  case PUnsafeArenaReleaseLast
  with assms(4) have u: "U \<noteq> []" by (auto split: if_splits)
  with UnsafeArenaReleaseLast_holds [of base st f "butlast U" "fst (last U)" "snd (last U)" C R] assms(3) snoc_pair [OF u]
  obtain f' C' where "UnsafeArenaReleaseLast f = Inr (fst (last U), f')" "pf_holds H base st f' (butlast U) C' (R @ [last U])" by auto
  with PUnsafeArenaReleaseLast assms(4) u show ?thesis by (auto intro!: pf_worldI simp: map_butlast last_map split: if_splits)
next
  case (PErase i)
  with assms(4) have i: "0 \<le> i" "0 \<le> (1 :: int)" "i + 1 \<le> int (length U)" by (auto split: if_splits)
  from delete_range [OF assms(1,3) this] obtain st' f' where "pf_DeleteSubrange L i 1 st f = Inr (st', f')"
    "pf_holds H base st' f' (take (nat i) U @ drop (nat i + nat 1) U) C R" by blast
  with PErase assms(4) i show ?thesis
    by (auto intro!: pf_worldI simp: pf_erase_def pf_erase_range_def take_map drop_map)
next
  case (PErase_range i j)
  with assms(4) have i: "0 \<le> i" "0 \<le> j - i" "i + (j - i) \<le> int (length U)" by (auto split: if_splits)
  have j: "nat i + nat (j - i) = nat j" using i by simp
  from delete_range [OF assms(1,3) i] obtain st' f' where "pf_DeleteSubrange L i (j - i) st f = Inr (st', f')"
    "pf_holds H base st' f' (take (nat i) U @ drop (nat j) U) C R" unfolding j by blast
  with PErase_range assms(4) i show ?thesis
    by (auto intro!: pf_worldI simp: pf_erase_range_def take_map drop_map)
next
  case (PUnsafeArenaExtractSubrange i n)
  with assms(4) have i: "0 \<le> i" "0 \<le> n" "i + n \<le> int (length U)" by (auto split: if_splits)
  note u = split_range [OF this]
  from UnsafeArenaExtractSubrange_holds [OF assms(1), of base st f "take (nat i) U" "take (nat n) (drop (nat i) U)"
      "drop (nat i + nat n) U" C R] u assms(3) obtain f' where
    "UnsafeArenaExtractSubrange L i n True f = Inr (map fst (take (nat n) (drop (nat i) U)), f')"
    "pf_holds H base st f' (take (nat i) U @ drop (nat i + nat n) U) C (R @ take (nat n) (drop (nat i) U))" by metis
  with PUnsafeArenaExtractSubrange assms(4) i show ?thesis by (auto intro!: pf_worldI simp: take_map drop_map)
next
  case PReleaseLast
  with assms(4) have u: "U \<noteq> []" by (auto split: if_splits)
  with ReleaseLast_holds [of base st f "butlast U" "fst (last U)" "snd (last U)" C R] assms(3) snoc_pair [OF u]
  obtain f' C' where "ReleaseLast H st f = Inr (fst (last U), st, f')" "pf_holds H base st f' (butlast U) C' (R @ [last U])" by auto
  with PReleaseLast assms(4) u show ?thesis by (auto intro!: pf_worldI simp: map_butlast last_map split: if_splits)
next
  case (PReserve n)
  with assms(4) Reserve_holds [OF assms(1,3), of n] show ?thesis by (fastforce intro: pf_worldI split: if_splits)
next
  case PMergeFrom
  with assms(4) MergeFrom_holds [OF assms(1,3,2)] show ?thesis by (fastforce intro: pf_worldI split: if_splits)
next
  case PCopyFrom
  with assms(4) CopyFrom_holds [OF assms(1,3,2)] show ?thesis by (fastforce intro: pf_worldI split: if_splits)
qed

lemma run_pf_refines:
  "rp_lib_ok L \<Longrightarrow> held_elsewhere base g W \<Longrightarrow> pf_world H base s vs us \<Longrightarrow> list_pf (map snd W) ops (vs, us) = Some (xs, ys) \<Longrightarrow>
     \<exists>s'. run_pf H L g ops s = Inr s' \<and> pf_world H base s' xs ys"
proof (induction ops arbitrary: s vs us)
  case (Cons op ops)
  from Cons.prems(3) obtain U C R where h: "pf_holds H base (fst s) (fst (snd s)) U C R" "map snd U = vs" "map snd R = us"
    "snd (snd s) = map fst R" by (auto simp: pf_world_def)
  from Cons.prems(4) obtain t where t: "list_pf_op (map snd W) op (vs, us) = Some t" "list_pf (map snd W) ops t = Some (xs, ys)"
    by (auto simp: bind_eq_Some_conv)
  have s: "s = (fst s, fst (snd s), map fst R)" using h(4) by (cases s) auto
  from pf_op_refines [OF Cons.prems(1,2) h(1), of op "fst t" "snd t"] t(1) h(2,3) obtain s1 where
    "run_pf_op H L g op s = Inr s1" "pf_world H base s1 (fst t) (snd t)" using s by auto
  with Cons.IH [OF Cons.prems(1,2) this(2)] t(2) show ?case by simp
qed simp

text \<open>What \<open>Get\<close> reads, and what the destructor leaves.\<close>

lemma Get_holds:
  assumes "pf_holds H base st f U C R" and "i < length U"
  shows "pf_Get st (int i) f = Inr (snd (U ! i))"
proof -
  from assms(2) have "U @ C \<noteq> []" by auto
  with pf_holds_mkE [OF assms(1)] obtain zs where h: "owned base st (U @ C @ R)" "f = pf_mk None (map fst U) (map fst C) zs" by blast
  have "ob_load st (fst (U ! i)) = Inr (heap_object (snd (U ! i)))" using assms(2) by (intro owned_load [OF h(1)]) simp
  then show ?thesis using assms(2) unfolding h(2) by (simp add: pf_Get_def pf_element_def pf_mk_def nth_append)
qed

lemma lifetime:
  assumes "rp_lib_ok L" and "held_elsewhere base g W" and "\<forall>p. n \<le> p \<longrightarrow> base p = None"
    and "list_pf (map snd W) ops ([], []) = Some (xs, ys)"
  shows "\<exists>st f ps st'. run_pf H L g ops (\<lparr>ob_at = base, ob_next = n\<rparr>, pf_new None, []) = Inr (st, f, ps) \<and>
     pf_size f = int (length xs) \<and> (\<forall>i < length xs. pf_Get st (int i) f = Inr (xs ! i)) \<and>
     RepeatedPtrField_destroy H L st f = Inr st' \<and> distinct ps \<and> length ps = length ys \<and>
     ob_at st' = (\<lambda>p. case map_of (zip ps ys) p of None \<Rightarrow> base p | Some y \<Rightarrow> Some (heap_object y))"
proof -
  have "pf_holds H base \<lparr>ob_at = base, ob_next = n\<rparr> (pf_new None) [] [] []"
    using assms(3) by (intro pf_holdsI [of base _ "[]" _ _ _ _ "[]"]) (auto simp: owned_def ptr_split_def int32_max_def)
  then have "pf_world H base (\<lparr>ob_at = base, ob_next = n\<rparr>, pf_new None, []) [] []" by (auto intro!: pf_worldI)
  from run_pf_refines [OF assms(1,2) this assms(4)] obtain s where
    s: "run_pf H L g ops (\<lparr>ob_at = base, ob_next = n\<rparr>, pf_new None, []) = Inr s" "pf_world H base s xs ys" by blast
  obtain st f ps where sp: "s = (st, f, ps)" by (cases s) auto
  from s(2) sp obtain U C R where h: "pf_holds H base st f U C R" "map snd U = xs" "map snd R = ys" "ps = map fst R"
    by (auto simp: pf_world_def)
  from destructor_holds [OF assms(1) h(1)] obtain st' where d: "RepeatedPtrField_destroy H L st f = Inr st'" "owned base st' R" by blast
  have "ob_at st' p = (case map_of (zip ps ys) p of None \<Rightarrow> base p | Some y \<Rightarrow> Some (heap_object y))" for p
  proof (cases "map_of R p")
    case None
    then have "p \<notin> fst ` set R" by (simp add: map_of_eq_None_iff)
    with d(2) None h(3,4) show ?thesis by (auto simp: owned_def zip_map_fst_snd)
  next
    case (Some y)
    then have "(p, y) \<in> set R" by (rule map_of_SomeD)
    with d(2) Some h(3,4) show ?thesis by (auto simp: owned_def zip_map_fst_snd)
  qed
  moreover have "pf_size f = int (length xs)" "\<forall>i < length xs. pf_Get st (int i) f = Inr (xs ! i)"
    using pf_holds_sizes [OF h(1)] Get_holds [OF h(1)] h(2) by (auto simp: pf_size_def)
  moreover have "distinct ps" "length ps = length ys" using d(2) h(3,4) by (auto simp: owned_def)
  ultimately show ?thesis using s(1) sp d(1) by blast
qed

end

section \<open>The handlers of the program\<close>

text \<open>\<open>GenericTypeHandler\<close> over a message class, and \<open>StringTypeHandler\<close>; the space of an object is not looked into.\<close>

definition GenericTypeHandler :: "'m \<Rightarrow> ('m \<Rightarrow> 'm) \<Rightarrow> ('m \<Rightarrow> 'm \<Rightarrow> 'm) \<Rightarrow> ('m \<Rightarrow> int) \<Rightarrow> 'm handler" where
  "GenericTypeHandler blank clear merge space =
     \<lparr>th_blank = blank, th_clear = clear, th_merge = merge, th_GetOwningArena = ob_arena, th_SpaceUsedLong = space, th_merges = True,
        th_is_message = True\<rparr>"

definition StringTypeHandler :: "(string \<Rightarrow> int) \<Rightarrow> string handler" where
  "StringTypeHandler space =
     \<lparr>th_blank = [], th_clear = (\<lambda>_. []), th_merge = (\<lambda>to from. from), th_GetOwningArena = (\<lambda>_. None),
        th_SpaceUsedLong = space, th_merges = True,
        th_is_message = False\<rparr>"

definition itemInfo_handler :: "(itemInfo \<Rightarrow> int) \<Rightarrow> itemInfo handler" where
  "itemInfo_handler = GenericTypeHandler itemInfo_new itemInfo_Clear itemInfo_MergeImpl"

definition shopItem_handler :: "(shopItem \<Rightarrow> int) \<Rightarrow> shopItem handler" where
  "shopItem_handler = GenericTypeHandler shopItem_new shopItem_Clear shopItem_MergeImpl"

interpretation items: type_handler "itemInfo_handler space" for space
  by unfold_locales
    (auto simp: itemInfo_handler_def GenericTypeHandler_def itemInfo_Clear_def itemInfo_new_def itemInfo_MergeImpl_def
      itemInfo_set_itemname_def itemInfo_set_itemdesc_def itemInfo_set_itemid_def itemInfo_set_count_def Let_def)

interpretation shop_items: type_handler "shopItem_handler space" for space
  by unfold_locales
    (auto simp: shopItem_handler_def GenericTypeHandler_def shopItem_Clear_def shopItem_new_def shopItem_MergeImpl_def
      shopItem_set_itemname_def shopItem_set_itemdesc_def shopItem_set_itemid_def shopItem_set_itemcount_def Let_def)

interpretation strings: type_handler "StringTypeHandler space" for space
  by unfold_locales (auto simp: StringTypeHandler_def)

text \<open>An implementation of the library's functions, which grows an array to the exact size.\<close>

definition ref_grow :: "int \<Rightarrow> ptr_field \<Rightarrow> ptr_field" where
  "ref_grow n f =
     (if n \<le> pf_total f then f
      else f\<lparr>pf_total := n, pf_rep := Some (case pf_rep f of
        None \<Rightarrow> \<lparr>allocated_size = 0, rep_elements = replicate (nat n) 0\<rparr>
      | Some r \<Rightarrow> r\<lparr>rep_elements := rep_elements r @ replicate (nat (n - pf_total f)) 0\<rparr>)\<rparr>)"

definition ref_CloseGap :: "int \<Rightarrow> int \<Rightarrow> ptr_field \<Rightarrow> ptr_field" where
  "ref_CloseGap start num f =
     (case pf_rep f of
        None \<Rightarrow> f
      | Some r \<Rightarrow> f\<lparr>pf_current := pf_current f - num, pf_rep := Some \<lparr>allocated_size = allocated_size r - num,
          rep_elements = take (nat start) (rep_elements r) @ drop (nat (start + num)) (rep_elements r) @ replicate (nat num) 0\<rparr>\<rparr>)"

definition ref_AddOutOfLineHelper :: "nat \<Rightarrow> ptr_field \<Rightarrow> ptr_field" where
  "ref_AddOutOfLineHelper p f =
     (case ref_grow (pf_current f + 1) f of f1 \<Rightarrow>
        f1\<lparr>pf_current := pf_current f1 + 1, pf_rep := map_option (\<lambda>r. r\<lparr>allocated_size := allocated_size r + 1,
          rep_elements := (rep_elements r)[nat (pf_current f1) := p]\<rparr>) (pf_rep f1)\<rparr>)"

definition ref_DestroyProtos :: "ptr_field \<Rightarrow> nat list" where
  "ref_DestroyProtos f = (case pf_rep f of None \<Rightarrow> [] | Some r \<Rightarrow> take (nat (allocated_size r)) (rep_elements r))"

definition ref_rp_lib :: rp_lib where
  "ref_rp_lib = \<lparr>lib_Reserve = ref_grow, lib_InternalExtend = (\<lambda>n f. ref_grow (pf_current f + n) f),
     lib_AddOutOfLineHelper = ref_AddOutOfLineHelper, lib_CloseGap = ref_CloseGap,
     lib_DestroyProtos = ref_DestroyProtos\<rparr>"

lemma ref_grow_split:
  assumes "ptr_split f us cs zs" and "n \<le> int32_max"
  shows "\<exists>zs'. ptr_split (ref_grow n f) us cs zs' \<and> n \<le> pf_total (ref_grow n f) \<and> pf_arena (ref_grow n f) = pf_arena f"
proof (cases "n \<le> pf_total f")
  case True
  with assms show ?thesis by (auto simp: ref_grow_def)
next
  case False
  let ?zs = "zs @ replicate (nat (n - pf_total f)) 0"
  have t: "pf_total f = int (length us + length cs + length zs)" using ptr_split_sizes [OF assms(1)] by simp
  have "ref_grow n f = pf_mk (pf_arena f) us cs ?zs"
    using assms(1) False t by (auto simp: ptr_split_def ref_grow_def) (auto simp: pf_mk_def pf_new_def)
  moreover have "ptr_split (pf_mk (pf_arena f) us cs ?zs) us cs ?zs" using assms(2) False t by (intro ptr_split_mkI) simp
  ultimately show ?thesis using False t by (intro exI [of _ ?zs]) simp
qed

lemma ref_CloseGap_split:
  assumes "ptr_split f (a @ b @ c) cs zs"
  shows "\<exists>zs'. ptr_split (ref_CloseGap (int (length a)) (int (length b)) f) (a @ c) cs zs' \<and>
    pf_arena (ref_CloseGap (int (length a)) (int (length b)) f) = pf_arena f"
proof -
  from assms obtain r where "f = pf_mk r (a @ b @ c) cs zs \<or> f = pf_new r \<and> a = [] \<and> b = [] \<and> c = [] \<and> cs = [] \<and> zs = []"
    by (auto simp: ptr_split_def)
  then show ?thesis
  proof (elim disjE conjE)
    assume f: "f = pf_mk r (a @ b @ c) cs zs"
    let ?zs = "zs @ replicate (length b) 0"
    have "ref_CloseGap (int (length a)) (int (length b)) f = pf_mk r (a @ c) cs ?zs"
      unfolding f by (simp add: ref_CloseGap_def pf_mk_def nat_add_distrib)
    moreover have "ptr_split (pf_mk r (a @ c) cs ?zs) (a @ c) cs ?zs"
      using assms by (intro ptr_split_mkI) (simp add: ptr_split_def)
    ultimately show ?thesis using f by auto
  next
    assume "f = pf_new r" "a = []" "b = []" "c = []" "cs = []" "zs = []"
    then show ?thesis by (intro exI [of _ "[]"]) (auto simp: ptr_split_def ref_CloseGap_def int32_max_def)
  qed
qed

lemma ref_helper_split:
  assumes "ptr_split f us [] zs" and "int (length us) < int32_max"
  shows "\<exists>zs'. ptr_split (ref_AddOutOfLineHelper p f) (us @ [p]) [] zs' \<and> pf_arena (ref_AddOutOfLineHelper p f) = pf_arena f"
proof -
  have c: "pf_current f = int (length us)" using ptr_split_sizes [OF assms(1)] by simp
  from ref_grow_split [OF assms(1), of "int (length us) + 1"] assms(2) obtain zs1 where
    g: "ptr_split (ref_grow (int (length us) + 1) f) us [] zs1" "int (length us) + 1 \<le> pf_total (ref_grow (int (length us) + 1) f)"
      "pf_arena (ref_grow (int (length us) + 1) f) = pf_arena f" by auto
  then obtain z zs' where z: "zs1 = z # zs'" using ptr_split_sizes [OF g(1)] by (cases zs1) auto
  have "ref_grow (int (length us) + 1) f = pf_mk (pf_arena f) us [] (z # zs')" using ptr_split_mk [OF g(1) _ g(3)] z by simp
  then have "ref_AddOutOfLineHelper p f = pf_mk (pf_arena f) (us @ [p]) [] zs'"
    by (simp add: ref_AddOutOfLineHelper_def c) (simp add: pf_mk_def)
  then show ?thesis using g(1) z by (intro exI [of _ zs']) (simp add: ptr_split_def, auto)
qed

lemma ref_extend_split:
  assumes "ptr_split f us cs zs" and "int (length us) + n \<le> int32_max"
  shows "\<exists>zs'. ptr_split (ref_grow (pf_current f + n) f) us cs zs' \<and> int (length us) + n \<le> pf_total (ref_grow (pf_current f + n) f) \<and>
    pf_arena (ref_grow (pf_current f + n) f) = pf_arena f"
  using ref_grow_split [OF assms(1), of "int (length us) + n"] assms(2) ptr_split_sizes [OF assms(1)] by simp

lemma ref_DestroyProtos_split:
  assumes "ptr_split f us cs zs" and "NeedsDestroy f"
  shows "mset (ref_DestroyProtos f) = mset (us @ cs)"
proof -
  from assms obtain a where "f = pf_mk a us cs zs" by (auto simp: ptr_split_def NeedsDestroy_def)
  then show ?thesis by (simp add: ref_DestroyProtos_def pf_mk_def nat_add_distrib)
qed

lemma ref_rp_lib_ok: "rp_lib_ok ref_rp_lib"
  unfolding rp_lib_ok_def ref_rp_lib_def rp_lib.simps
  by (intro conjI allI impI; (elim conjE)?; rule ref_grow_split ref_extend_split ref_helper_split ref_CloseGap_split ref_DestroyProtos_split; assumption)

section \<open>Properties\<close>

text \<open>C20: The life of the \<open>items\<close> of an inventory reply. From its constructor through any history of the operations of
  \<open>pf_op\<close> within their preconditions (adding, writing, removing, erasing and extracting elements, handing objects over and
  taking them back, merging and copying from another field) to its destructor, which runs \<open>DestroyProtos\<close> as the parameter
  describes it, a repeated field of submessages never meets a null, dangling or twice deleted pointer; before
  the destructor \<open>Get\<close> reads exactly the values that the history leaves on a list, although the field reuses the objects
  of removed elements; and afterwards the store is what it was, apart from one object for every element that was
  released, with the value that it had: nothing else was changed, and nothing is left behind. The list model of the
  generated classes rests on this.\<close>

theorem RepeatedPtrField_lifetime:
  assumes "rp_lib_ok L" and "held_elsewhere base g W" and "\<forall>p. n \<le> p \<longrightarrow> base p = None"
    and "list_pf (map snd W) ops ([], []) = Some (xs, ys)"
  shows "\<exists>st f ps st'.
     run_pf (itemInfo_handler space) L g ops (\<lparr>ob_at = base, ob_next = n\<rparr>, pf_new None, []) = Inr (st, f, ps) \<and>
     pf_size f = int (length xs) \<and> (\<forall>i < length xs. pf_Get st (int i) f = Inr (xs ! i)) \<and>
     RepeatedPtrField_destroy (itemInfo_handler space) L st f = Inr st' \<and> distinct ps \<and> length ps = length ys \<and>
     ob_at st' = (\<lambda>p. case map_of (zip ps ys) p of None \<Rightarrow> base p | Some y \<Rightarrow> Some (heap_object y))"
  by (rule items.lifetime [OF assms])

subsection \<open>Witnesses\<close>

text \<open>Two items are added, one is released and one merged in from another field; only the released one outlives the field.\<close>

definition wpf_item :: "int32 \<Rightarrow> itemInfo" where
  "wpf_item k = itemInfo_set_itemid k itemInfo_new"

definition wpf_base :: "nat \<Rightarrow> itemInfo object option" where
  "wpf_base = (\<lambda>p. if p = 0 then Some (heap_object (wpf_item 7)) else None)"

theorem RepeatedPtrField_lifetime_witness:
  "\<exists>st f ps st'.
     run_pf (itemInfo_handler (\<lambda>_. 0)) ref_rp_lib (pf_mk None [0] [] [])
       [PAdd (wpf_item 1), PAddAllocated (wpf_item 2), PClear, PAdd (wpf_item 3), PReleaseLast, PMergeFrom]
       (\<lparr>ob_at = wpf_base, ob_next = 1\<rparr>, pf_new None, []) = Inr (st, f, ps) \<and>
     pf_Get st 0 f = Inr (wpf_item 7) \<and> RepeatedPtrField_destroy (itemInfo_handler (\<lambda>_. 0)) ref_rp_lib st f = Inr st' \<and>
     (\<exists>p. ps = [p] \<and> ob_at st' = wpf_base(p := Some (heap_object (wpf_item 3))))"
proof -
  have g: "held_elsewhere wpf_base (pf_mk None [0] [] []) [(0, wpf_item 7)]"
    by (auto simp: held_elsewhere_def wpf_base_def int32_max_def intro!: exI [of _ "[]"] ptr_split_mkI)
  have l: "list_pf (map snd [(0 :: nat, wpf_item 7)])
      [PAdd (wpf_item 1), PAddAllocated (wpf_item 2), PClear, PAdd (wpf_item 3), PReleaseLast, PMergeFrom] ([], []) =
      Some ([wpf_item 7], [wpf_item 3])"
    by (simp add: int32_max_def)
  have b: "\<forall>p. 1 \<le> p \<longrightarrow> wpf_base p = None" by (simp add: wpf_base_def)
  from RepeatedPtrField_lifetime [OF ref_rp_lib_ok g b l, of "\<lambda>_. 0"] obtain st f ps st' where
    r: "run_pf (itemInfo_handler (\<lambda>_. 0)) ref_rp_lib (pf_mk None [0] [] [])
       [PAdd (wpf_item 1), PAddAllocated (wpf_item 2), PClear, PAdd (wpf_item 3), PReleaseLast, PMergeFrom]
       (\<lparr>ob_at = wpf_base, ob_next = 1\<rparr>, pf_new None, []) = Inr (st, f, ps)"
      "pf_Get st 0 f = Inr (wpf_item 7)" "RepeatedPtrField_destroy (itemInfo_handler (\<lambda>_. 0)) ref_rp_lib st f = Inr st'" "length ps = 1"
      "ob_at st' = (\<lambda>p. case map_of (zip ps [wpf_item 3]) p of None \<Rightarrow> wpf_base p | Some y \<Rightarrow> Some (heap_object y))" by auto
  from r(4) obtain p where "ps = [p]" by (auto simp: length_Suc_conv)
  with r show ?thesis by (auto simp: fun_eq_iff)
qed

end
