(* ===== verification/Eps_Output.thy ===== *)
theory Eps_Output
  imports Wire_Lite
begin

unbundle bit_operations_syntax

text \<open>
  The output streams of \<^verbatim>\<open>coded_stream.h\<close>: \<open>EpsCopyOutputStream\<close>, through which every generated
  \<open>_InternalSerialize\<close> writes, and the inline part of \<open>CodedOutputStream\<close> above it. Here the bytes go
  to memory: a write has a position, and a position outside its array is a fault. In \<^verbatim>\<open>Wire_Format\<close>
  and \<^verbatim>\<open>Wire_Lite\<close> the same writers are functions that return the bytes they write;
  \<^verbatim>\<open>Eps_Refinement\<close> connects the two.
\<close>

section \<open>Pointers and memory\<close>

text \<open>
  A stream writes to two arrays: the block that the caller or the underlying stream provides, and
  the stream's own \<open>buffer_\<close> of 32 bytes, the patch buffer, which bridges two blocks. Pointers into
  different arrays have no difference.
\<close>

datatype ptr = Block int | Patch int

fun ptr_add :: "ptr \<Rightarrow> int \<Rightarrow> ptr" where
  "ptr_add (Block i) n = Block (i + n)"
| "ptr_add (Patch i) n = Patch (i + n)"

fun ptr_diff :: "ptr \<Rightarrow> ptr \<Rightarrow> int result" where
  "ptr_diff (Block i) (Block j) = Inr (i - j)"
| "ptr_diff (Patch i) (Patch j) = Inr (i - j)"
| "ptr_diff _ _ = Inl OutOfBounds"

definition kSlopBytes :: int where "kSlopBytes = 16"

record 's eps_out =
  eo_end :: ptr
  eo_buffer_end :: "ptr option"
  eo_buffer :: bytes
  eo_block :: bytes
  eo_stream :: "'s option"
  eo_had_error :: bool
  eo_aliasing_enabled :: bool
  eo_deterministic :: bool

text \<open>\<open>memcpy(ptr, data, n)\<close> followed by \<open>ptr + n\<close>.\<close>

definition mem_write :: "bytes \<Rightarrow> int \<Rightarrow> bytes \<Rightarrow> bytes result" where
  "mem_write mem i bs = (if 0 \<le> i then copy_into mem (nat i) bs 0 (length bs) else Inl OutOfBounds)"

fun write_at :: "'s eps_out \<Rightarrow> ptr \<Rightarrow> bytes \<Rightarrow> ('s eps_out \<times> ptr) result" where
  "write_at st (Block i) bs =
     bind_result (mem_write (eo_block st) i bs) (\<lambda>m. Inr (st\<lparr>eo_block := m\<rparr>, Block (i + int (length bs))))"
| "write_at st (Patch i) bs =
     bind_result (mem_write (eo_buffer st) i bs) (\<lambda>m. Inr (st\<lparr>eo_buffer := m\<rparr>, Patch (i + int (length bs))))"

text \<open>
  The routines that are declared here and compiled elsewhere, and the underlying stream of type
  \<open>'s\<close>: \<open>stream_Next\<close> hands out the next block, or nothing when it fails.
\<close>

record 's eps_lib =
  EnsureSpaceFallback :: "'s eps_out \<Rightarrow> ptr \<Rightarrow> ('s eps_out \<times> ptr) result"
  WriteRawFallback :: "bytes \<Rightarrow> 's eps_out \<Rightarrow> ptr \<Rightarrow> ('s eps_out \<times> ptr) result"
  WriteAliasedRaw :: "bytes \<Rightarrow> 's eps_out \<Rightarrow> ptr \<Rightarrow> ('s eps_out \<times> ptr) result"
  StringMaybeAliasedOutline :: "u32 \<Rightarrow> bytes \<Rightarrow> 's eps_out \<Rightarrow> ptr \<Rightarrow> ('s eps_out \<times> ptr) result"
  StringOutline :: "u32 \<Rightarrow> bytes \<Rightarrow> 's eps_out \<Rightarrow> ptr \<Rightarrow> ('s eps_out \<times> ptr) result"
  UnknownFieldsToArray :: "bytes \<Rightarrow> 's eps_out \<Rightarrow> ptr \<Rightarrow> ('s eps_out \<times> ptr) result"
  FlushAndResetBuffer :: "'s eps_out \<Rightarrow> ptr \<Rightarrow> ('s eps_out \<times> ptr) result"
  TrimStream :: "'s eps_out \<Rightarrow> ptr \<Rightarrow> ('s eps_out \<times> ptr) result"
  StreamByteCount :: "'s eps_out \<Rightarrow> ptr \<Rightarrow> int"
  stream_Next :: "'s \<Rightarrow> bytes option \<times> 's"
  stream_ByteCount :: "'s \<Rightarrow> int"

section \<open>EpsCopyOutputStream\<close>

text \<open>
  The three constructors. The stream constructors start in the patch buffer, whose content is
  indeterminate, or in a first block; the array constructor puts \<open>end_\<close> at the end of the array.
\<close>

definition EpsCopyOutputStream_stream :: "bytes \<Rightarrow> 's \<Rightarrow> bool \<Rightarrow> 's eps_out \<times> ptr" where
  "EpsCopyOutputStream_stream buffer stream deterministic =
     (\<lparr>eo_end = Patch 0, eo_buffer_end = Some (Patch 0), eo_buffer = buffer, eo_block = [],
       eo_stream = Some stream, eo_had_error = False, eo_aliasing_enabled = False,
       eo_deterministic = deterministic\<rparr>, Patch 0)"

definition EpsCopyOutputStream_array :: "bytes \<Rightarrow> bytes \<Rightarrow> int \<Rightarrow> int \<Rightarrow> bool \<Rightarrow> 's eps_out" where
  "EpsCopyOutputStream_array buffer mem data len deterministic =
     \<lparr>eo_end = Block (data + len), eo_buffer_end = None, eo_buffer = buffer, eo_block = mem,
      eo_stream = None, eo_had_error = False, eo_aliasing_enabled = False,
      eo_deterministic = deterministic\<rparr>"

definition SetInitialBuffer :: "bytes \<Rightarrow> 's eps_out \<Rightarrow> 's eps_out \<times> ptr" where
  "SetInitialBuffer data st =
     (if kSlopBytes < int (length data)
      then (st\<lparr>eo_block := data, eo_end := Block (int (length data) - kSlopBytes), eo_buffer_end := None\<rparr>, Block 0)
      else (st\<lparr>eo_block := data, eo_end := Patch (int (length data)), eo_buffer_end := Some (Block 0)\<rparr>, Patch 0))"

definition EpsCopyOutputStream_eager :: "bytes \<Rightarrow> bytes \<Rightarrow> 's \<Rightarrow> bool \<Rightarrow> 's eps_out \<times> ptr" where
  "EpsCopyOutputStream_eager buffer data stream deterministic =
     SetInitialBuffer data (fst (EpsCopyOutputStream_stream buffer stream deterministic))"

subsection \<open>Space\<close>

definition EnsureSpace :: "'s eps_lib \<Rightarrow> 's eps_out \<Rightarrow> ptr \<Rightarrow> ('s eps_out \<times> ptr) result" where
  "EnsureSpace L st p =
     bind_result (ptr_diff p (eo_end st)) (\<lambda>d. if 0 \<le> d then EnsureSpaceFallback L st p else Inr (st, p))"

definition GetSize :: "'s eps_out \<Rightarrow> ptr \<Rightarrow> int result" where
  "GetSize st p = ptr_diff (ptr_add (eo_end st) kSlopBytes) p"

definition EpsCopyOutputStream_Error :: "'s eps_out \<Rightarrow> 's eps_out \<times> ptr" where
  "EpsCopyOutputStream_Error st = (st\<lparr>eo_had_error := True, eo_end := Patch kSlopBytes\<rparr>, Patch 0)"

definition EpsCopyOutputStream_HadError :: "'s eps_out \<Rightarrow> bool" where
  "EpsCopyOutputStream_HadError st = eo_had_error st"

definition eps_SetSerializationDeterministic :: "bool \<Rightarrow> 's eps_out \<Rightarrow> 's eps_out" where
  "eps_SetSerializationDeterministic v st = st\<lparr>eo_deterministic := v\<rparr>"

definition eps_IsSerializationDeterministic :: "'s eps_out \<Rightarrow> bool" where
  "eps_IsSerializationDeterministic st = eo_deterministic st"

subsection \<open>Raw bytes\<close>

text \<open>The pair of a pointer and its size is the list of the bytes.\<close>

definition WriteRaw :: "'s eps_lib \<Rightarrow> bytes \<Rightarrow> 's eps_out \<Rightarrow> ptr \<Rightarrow> ('s eps_out \<times> ptr) result" where
  "WriteRaw L data st p =
     bind_result (ptr_diff (eo_end st) p) (\<lambda>room.
       if room < int (length data) then WriteRawFallback L data st p else write_at st p data)"

definition WriteRawMaybeAliased :: "'s eps_lib \<Rightarrow> bytes \<Rightarrow> 's eps_out \<Rightarrow> ptr \<Rightarrow> ('s eps_out \<times> ptr) result" where
  "WriteRawMaybeAliased L data st p =
     (if eo_aliasing_enabled st then WriteAliasedRaw L data st p else WriteRaw L data st p)"

text \<open>
  A call that narrows the length of its data with \<open>static_cast<int>\<close>. When the result is not negative, \<open>write\<close> sees as many
  bytes. Otherwise \<open>WriteRaw\<close>, to which every such call leads, hands a negative size to \<open>WriteRawFallback\<close> or
  copies from \<open>memcpy\<close>'s point of view more than any array holds.
\<close>

definition with_int_size ::
    "(bytes \<Rightarrow> 's eps_out \<Rightarrow> ptr \<Rightarrow> ('s eps_out \<times> ptr) result) \<Rightarrow> bytes \<Rightarrow> 's eps_out \<Rightarrow> ptr \<Rightarrow> ('s eps_out \<times> ptr) result" where
  "with_int_size write data st p =
     (let size = sint (of_nat (length data) :: int32) in
      if 0 \<le> size then write (take (nat size) data) st p
      else bind_result (ptr_diff (eo_end st) p) (\<lambda>room.
        if room < size then Inl NegativeLength else Inl OutOfBounds))"

text \<open>On a little-endian machine an array of fixed-width values is copied as it lies in memory.\<close>

definition WriteRawLittleEndian1 :: "'s eps_lib \<Rightarrow> bytes \<Rightarrow> 's eps_out \<Rightarrow> ptr \<Rightarrow> ('s eps_out \<times> ptr) result" where
  "WriteRawLittleEndian1 L data st p = WriteRaw L data st p"

definition WriteRawLittleEndian4 :: "'s eps_lib \<Rightarrow> bytes \<Rightarrow> 's eps_out \<Rightarrow> ptr \<Rightarrow> ('s eps_out \<times> ptr) result" where
  "WriteRawLittleEndian4 L data st p = WriteRaw L data st p"

definition WriteRawLittleEndian8 :: "'s eps_lib \<Rightarrow> bytes \<Rightarrow> 's eps_out \<Rightarrow> ptr \<Rightarrow> ('s eps_out \<times> ptr) result" where
  "WriteRawLittleEndian8 L data st p = WriteRaw L data st p"

subsection \<open>Strings\<close>

definition eps_TagSize :: "u32 \<Rightarrow> nat" where
  "eps_TagSize tag =
     (if unat tag < 2 ^ 7 then 1 else if unat tag < 2 ^ 14 then 2
      else if unat tag < 2 ^ 21 then 3 else if unat tag < 2 ^ 28 then 4 else 5)"

definition write_short_string :: "u32 \<Rightarrow> bytes \<Rightarrow> 's eps_out \<Rightarrow> ptr \<Rightarrow> ('s eps_out \<times> ptr) result" where
  "write_short_string num s st p =
     bind_result (write_at st p (UnsafeVarint (ucast (push_bit 3 num OR 2)))) (\<lambda>(st1, p1).
       bind_result (write_at st1 p1 [of_nat (length s)]) (\<lambda>(st2, p2).
         write_at st2 p2 s))"

definition WriteStringMaybeAliased_at ::
    "'s eps_lib \<Rightarrow> u32 \<Rightarrow> bytes \<Rightarrow> 's eps_out \<Rightarrow> ptr \<Rightarrow> ('s eps_out \<times> ptr) result" where
  "WriteStringMaybeAliased_at L num s st p =
     (if 128 \<le> length s then StringMaybeAliasedOutline L num s st p
      else bind_result (ptr_diff (eo_end st) p) (\<lambda>room.
        if room + 16 - int (eps_TagSize (push_bit 3 num)) - 1 < int (length s)
        then StringMaybeAliasedOutline L num s st p
        else write_short_string num s st p))"

definition WriteBytesMaybeAliased_at ::
    "'s eps_lib \<Rightarrow> u32 \<Rightarrow> bytes \<Rightarrow> 's eps_out \<Rightarrow> ptr \<Rightarrow> ('s eps_out \<times> ptr) result" where
  "WriteBytesMaybeAliased_at L num s st p = WriteStringMaybeAliased_at L num s st p"

definition WriteString_at :: "'s eps_lib \<Rightarrow> u32 \<Rightarrow> bytes \<Rightarrow> 's eps_out \<Rightarrow> ptr \<Rightarrow> ('s eps_out \<times> ptr) result" where
  "WriteString_at L num s st p =
     (if 128 \<le> length s then StringOutline L num s st p
      else bind_result (ptr_diff (eo_end st) p) (\<lambda>room.
        if room + 16 - int (eps_TagSize (push_bit 3 num)) - 1 < int (length s)
        then StringOutline L num s st p
        else write_short_string num s st p))"

definition WriteBytes_at :: "'s eps_lib \<Rightarrow> u32 \<Rightarrow> bytes \<Rightarrow> 's eps_out \<Rightarrow> ptr \<Rightarrow> ('s eps_out \<times> ptr) result" where
  "WriteBytes_at L num s st p = WriteString_at L num s st p"

subsection \<open>Packed fields\<close>

definition Encode32 :: "u32 \<Rightarrow> u32" where "Encode32 v = v"

definition Encode64 :: "u64 \<Rightarrow> u64" where "Encode64 v = v"

definition WriteLengthDelim_at :: "u32 \<Rightarrow> u32 \<Rightarrow> 's eps_out \<Rightarrow> ptr \<Rightarrow> ('s eps_out \<times> ptr) result" where
  "WriteLengthDelim_at num len st p =
     bind_result (write_at st p (UnsafeVarint (ucast (MakeTag num 2)))) (\<lambda>(st1, p1).
       write_at st1 p1 (UnsafeWriteSize len))"

text \<open>The loop is a \<open>do\<close>: it reads an element before it asks whether there is one.\<close>

fun packed_elements ::
    "'s eps_lib \<Rightarrow> ('v \<Rightarrow> u64) \<Rightarrow> 'v list \<Rightarrow> 's eps_out \<Rightarrow> ptr \<Rightarrow> ('s eps_out \<times> ptr) result" where
  "packed_elements L encode [] st p = Inl OutOfBounds"
| "packed_elements L encode (v # vs) st p =
     bind_result (EnsureSpace L st p) (\<lambda>(st1, p1).
       bind_result (write_at st1 p1 (UnsafeVarint (encode v))) (\<lambda>(st2, p2).
         if vs = [] then Inr (st2, p2) else packed_elements L encode vs st2 p2))"

definition WriteVarintPacked ::
    "'s eps_lib \<Rightarrow> u32 \<Rightarrow> 'v list \<Rightarrow> u32 \<Rightarrow> ('v \<Rightarrow> u64) \<Rightarrow> 's eps_out \<Rightarrow> ptr \<Rightarrow> ('s eps_out \<times> ptr) result" where
  "WriteVarintPacked L num r len encode st p =
     bind_result (EnsureSpace L st p) (\<lambda>(st1, p1).
       bind_result (WriteLengthDelim_at num len st1 p1) (\<lambda>(st2, p2).
         packed_elements L encode r st2 p2))"

definition WriteInt32Packed :: "'s eps_lib \<Rightarrow> u32 \<Rightarrow> int32 list \<Rightarrow> u32 \<Rightarrow> 's eps_out \<Rightarrow> ptr \<Rightarrow> ('s eps_out \<times> ptr) result" where
  "WriteInt32Packed L num r len = WriteVarintPacked L num r len (\<lambda>v. Encode64 (scast v))"

definition WriteUInt32Packed :: "'s eps_lib \<Rightarrow> u32 \<Rightarrow> u32 list \<Rightarrow> u32 \<Rightarrow> 's eps_out \<Rightarrow> ptr \<Rightarrow> ('s eps_out \<times> ptr) result" where
  "WriteUInt32Packed L num r len = WriteVarintPacked L num r len (\<lambda>v. ucast (Encode32 v))"

definition WriteSInt32Packed :: "'s eps_lib \<Rightarrow> u32 \<Rightarrow> int32 list \<Rightarrow> u32 \<Rightarrow> 's eps_out \<Rightarrow> ptr \<Rightarrow> ('s eps_out \<times> ptr) result" where
  "WriteSInt32Packed L num r len = WriteVarintPacked L num r len (\<lambda>v. ucast (ZigZagEncode32 v))"

definition WriteInt64Packed :: "'s eps_lib \<Rightarrow> u32 \<Rightarrow> u64 list \<Rightarrow> u32 \<Rightarrow> 's eps_out \<Rightarrow> ptr \<Rightarrow> ('s eps_out \<times> ptr) result" where
  "WriteInt64Packed L num r len = WriteVarintPacked L num r len Encode64"

definition WriteUInt64Packed :: "'s eps_lib \<Rightarrow> u32 \<Rightarrow> u64 list \<Rightarrow> u32 \<Rightarrow> 's eps_out \<Rightarrow> ptr \<Rightarrow> ('s eps_out \<times> ptr) result" where
  "WriteUInt64Packed L num r len = WriteVarintPacked L num r len Encode64"

definition WriteSInt64Packed :: "'s eps_lib \<Rightarrow> u32 \<Rightarrow> u64 list \<Rightarrow> u32 \<Rightarrow> 's eps_out \<Rightarrow> ptr \<Rightarrow> ('s eps_out \<times> ptr) result" where
  "WriteSInt64Packed L num r len = WriteVarintPacked L num r len ZigZagEncode64"

definition WriteEnumPacked :: "'s eps_lib \<Rightarrow> u32 \<Rightarrow> int32 list \<Rightarrow> u32 \<Rightarrow> 's eps_out \<Rightarrow> ptr \<Rightarrow> ('s eps_out \<times> ptr) result" where
  "WriteEnumPacked L num r len = WriteVarintPacked L num r len (\<lambda>v. Encode64 (scast v))"

text \<open>\<open>element_size\<close> is the \<open>sizeof\<close> of an element, \<open>layout\<close> its bytes in memory.\<close>

definition WriteFixedPacked ::
    "'s eps_lib \<Rightarrow> nat \<Rightarrow> ('v \<Rightarrow> bytes) \<Rightarrow> u32 \<Rightarrow> 'v list \<Rightarrow> 's eps_out \<Rightarrow> ptr \<Rightarrow> ('s eps_out \<times> ptr) result" where
  "WriteFixedPacked L element_size layout num r st p =
     bind_result (EnsureSpace L st p) (\<lambda>(st1, p1).
       bind_result (WriteLengthDelim_at num (of_nat (length r * element_size)) st1 p1) (\<lambda>(st2, p2).
         (if element_size = 1 then with_int_size (WriteRawLittleEndian1 L) (concat (map layout r)) st2 p2
          else if element_size = 4 then with_int_size (WriteRawLittleEndian4 L) (concat (map layout r)) st2 p2
          else with_int_size (WriteRawLittleEndian8 L) (concat (map layout r)) st2 p2)))"

text \<open>
  What generated code does for a field of fixed small size: \<open>EnsureSpace\<close>, then a \<open>ToArray\<close>
  writer, given by the bytes it writes.
\<close>

definition put_field :: "'s eps_lib \<Rightarrow> bytes \<Rightarrow> 's eps_out \<Rightarrow> ptr \<Rightarrow> ('s eps_out \<times> ptr) result" where
  "put_field L bs st p = bind_result (EnsureSpace L st p) (\<lambda>(st1, p1). write_at st1 p1 bs)"

section \<open>CodedOutputStream\<close>

text \<open>
  The wrapper keeps the cursor. Its constructor takes a first block from the stream at once, unless
  the stream fails or hands out an empty one; a lazy construction leaves that to the first write.
\<close>

record 's coded_out =
  co_impl :: "'s eps_out"
  co_cur :: ptr
  co_start_count :: int

definition InitEagerly :: "'s eps_lib \<Rightarrow> 's \<Rightarrow> 's coded_out \<Rightarrow> 's coded_out" where
  "InitEagerly L stream c =
     (case stream_Next L stream of
        (Some data, stream') \<Rightarrow>
          if data \<noteq> []
          then (let (st, p) = SetInitialBuffer data ((co_impl c)\<lparr>eo_stream := Some stream'\<rparr>)
                in c\<lparr>co_impl := st, co_cur := p\<rparr>)
          else c\<lparr>co_impl := (co_impl c)\<lparr>eo_stream := Some stream'\<rparr>\<rparr>
      | (None, stream') \<Rightarrow> c\<lparr>co_impl := (co_impl c)\<lparr>eo_stream := Some stream'\<rparr>\<rparr>)"

definition CodedOutputStream_new :: "'s eps_lib \<Rightarrow> bytes \<Rightarrow> 's \<Rightarrow> bool \<Rightarrow> 's coded_out" where
  "CodedOutputStream_new L buffer stream deterministic =
     (let (st, p) = EpsCopyOutputStream_stream buffer stream deterministic
      in InitEagerly L stream \<lparr>co_impl = st, co_cur = p, co_start_count = stream_ByteCount L stream\<rparr>)"

definition CodedOutputStream_new_eager_init :: "'s eps_lib \<Rightarrow> bytes \<Rightarrow> 's \<Rightarrow> bool \<Rightarrow> bool \<Rightarrow> 's coded_out" where
  "CodedOutputStream_new_eager_init L buffer stream deterministic eager_init =
     (let (st, p) = EpsCopyOutputStream_stream buffer stream deterministic;
          c = \<lparr>co_impl = st, co_cur = p, co_start_count = stream_ByteCount L stream\<rparr>
      in if eager_init then InitEagerly L stream c else c)"

text \<open>Every method that writes runs a writer of the inner stream at the cursor and keeps the new cursor.\<close>

definition co_run ::
    "('s eps_out \<Rightarrow> ptr \<Rightarrow> ('s eps_out \<times> ptr) result) \<Rightarrow> 's coded_out \<Rightarrow> 's coded_out result" where
  "co_run writer c =
     bind_result (writer (co_impl c) (co_cur c)) (\<lambda>(st, p). Inr (c\<lparr>co_impl := st, co_cur := p\<rparr>))"

definition CodedOutputStream_HadError :: "'s eps_lib \<Rightarrow> 's coded_out \<Rightarrow> (bool \<times> 's coded_out) result" where
  "CodedOutputStream_HadError L c =
     bind_result (co_run (FlushAndResetBuffer L) c) (\<lambda>c'. Inr (EpsCopyOutputStream_HadError (co_impl c'), c'))"

definition CodedOutputStream_Trim :: "'s eps_lib \<Rightarrow> 's coded_out \<Rightarrow> 's coded_out result" where
  "CodedOutputStream_Trim L = co_run (TrimStream L)"

definition CodedOutputStream_WriteRaw :: "'s eps_lib \<Rightarrow> bytes \<Rightarrow> 's coded_out \<Rightarrow> 's coded_out result" where
  "CodedOutputStream_WriteRaw L data = co_run (WriteRaw L data)"

definition CodedOutputStream_WriteRawMaybeAliased :: "'s eps_lib \<Rightarrow> bytes \<Rightarrow> 's coded_out \<Rightarrow> 's coded_out result" where
  "CodedOutputStream_WriteRawMaybeAliased L data = co_run (WriteRawMaybeAliased L data)"

definition CodedOutputStream_WriteString :: "'s eps_lib \<Rightarrow> bytes \<Rightarrow> 's coded_out \<Rightarrow> 's coded_out result" where
  "CodedOutputStream_WriteString L s = co_run (with_int_size (WriteRaw L) s)"

definition CodedOutputStream_WriteLittleEndian32 :: "'s eps_lib \<Rightarrow> u32 \<Rightarrow> 's coded_out \<Rightarrow> 's coded_out result" where
  "CodedOutputStream_WriteLittleEndian32 L v = co_run (put_field L (WriteLittleEndian32ToArray v))"

definition CodedOutputStream_WriteLittleEndian64 :: "'s eps_lib \<Rightarrow> u64 \<Rightarrow> 's coded_out \<Rightarrow> 's coded_out result" where
  "CodedOutputStream_WriteLittleEndian64 L v = co_run (put_field L (WriteLittleEndian64ToArray v))"

definition CodedOutputStream_WriteVarint32 :: "'s eps_lib \<Rightarrow> u32 \<Rightarrow> 's coded_out \<Rightarrow> 's coded_out result" where
  "CodedOutputStream_WriteVarint32 L v = co_run (put_field L (WriteVarint32ToArray v))"

definition CodedOutputStream_WriteVarint64 :: "'s eps_lib \<Rightarrow> u64 \<Rightarrow> 's coded_out \<Rightarrow> 's coded_out result" where
  "CodedOutputStream_WriteVarint64 L v = co_run (put_field L (WriteVarint64ToArray v))"

definition CodedOutputStream_WriteVarint32SignExtended :: "'s eps_lib \<Rightarrow> int32 \<Rightarrow> 's coded_out \<Rightarrow> 's coded_out result" where
  "CodedOutputStream_WriteVarint32SignExtended L v = CodedOutputStream_WriteVarint64 L (scast v)"

definition CodedOutputStream_WriteTag :: "'s eps_lib \<Rightarrow> u32 \<Rightarrow> 's coded_out \<Rightarrow> 's coded_out result" where
  "CodedOutputStream_WriteTag L v = CodedOutputStream_WriteVarint32 L v"

text \<open>The difference of the two counters is narrowed to an \<open>int\<close>.\<close>

definition CodedOutputStream_ByteCount :: "'s eps_lib \<Rightarrow> 's coded_out \<Rightarrow> int32" where
  "CodedOutputStream_ByteCount L c = word_of_int (StreamByteCount L (co_impl c) (co_cur c) - co_start_count c)"

end
