(* ===== verification/Eps_Refinement.thy ===== *)
theory Eps_Refinement
  imports Eps_Output Message_Header
begin

unbundle bit_operations_syntax

text \<open>
  The output stream writes what the list-level writers say, and nowhere else. \<open>emits\<close> is the contract
  of one writer: from a state that is fit for the bytes that are still to come it does not fault,
  appends its bytes and leaves a fit state. The locale \<open>out_mode\<close> states it for the primitive
  operations and derives it for packed fields, sequences and the generated \<open>_InternalSerialize\<close>. It is
  interpreted twice: on an array of the right size, where no bounds check and no out-of-line refill is
  needed, and on a stream of blocks, where the slop bytes and the patch buffer carry a field across
  the end of a block.
\<close>

section \<open>Memory and sizes\<close>

lemma mem_write_ok:
  "0 \<le> i \<Longrightarrow> nat i + length bs \<le> length m \<Longrightarrow>
     mem_write m i bs = Inr (take (nat i) m @ bs @ drop (nat i + length bs) m)"
  by (simp add: mem_write_def copy_into_def)

lemma length_varint_unroll:
  "length (UnsafeVarint v) = (if unat v < 128 then 1 else Suc (length (UnsafeVarint (drop_bit 7 v))))"
  by (cases "unat v < 128") (simp_all add: UnsafeVarint_last UnsafeVarint_more)

lemma eps_TagSize_exact: "length (UnsafeVarint (ucast tag)) = eps_TagSize tag"
proof -
  have "unat tag < 2 ^ LENGTH(32)" by (rule unsigned_less)
  then have b: "unat tag < 4294967296" by simp
  then have u: "unat (ucast tag :: u64) = unat tag"
    by (simp only: unsigned_ucast_eq) (simp add: take_bit_nat_eq_self)
  let ?v = "ucast tag :: u64"
  let ?d = "\<lambda>v :: u64. drop_bit 7 v"
  have n: "unat (?d ?v) = unat tag div 128" "unat (?d (?d ?v)) = unat tag div 16384"
    "unat (?d (?d (?d ?v))) = unat tag div 2097152" "unat (?d (?d (?d (?d ?v)))) = unat tag div 268435456"
    by (simp_all only: unat_drop_bit_7 u div_mult2_eq [symmetric]) simp_all
  have "length (UnsafeVarint ?v) =
      (if unat tag < 128 then 1 else if unat tag div 128 < 128 then 2 else if unat tag div 16384 < 128 then 3
       else if unat tag div 2097152 < 128 then 4 else if unat tag div 268435456 < 128 then 5
       else 5 + length (UnsafeVarint (?d (?d (?d (?d (?d ?v)))))))"
    by (simp only: length_varint_unroll [of ?v] length_varint_unroll [of "?d ?v"] length_varint_unroll [of "?d (?d ?v)"]
        length_varint_unroll [of "?d (?d (?d ?v))"] length_varint_unroll [of "?d (?d (?d (?d ?v)))"] n u) simp
  also have "\<dots> = eps_TagSize tag"
    using b by (auto simp: eps_TagSize_def div_less_iff_less_mult)
  finally show ?thesis .
qed

lemma unat_tag:
  fixes num :: u32
  shows "unat (push_bit 3 num OR 2) = 8 * (unat num mod 2 ^ 29) + 2"
    and "unat (push_bit 3 num) = 8 * (unat num mod 2 ^ 29)"
proof -
  have p: "unat (push_bit 3 num) = take_bit 32 (push_bit 3 (unat num))"
    by (simp add: unsigned_push_bit_eq)
  also have "\<dots> = 8 * (unat num mod 2 ^ 29)"
    by (simp only: take_bit_push_bit) (simp add: push_bit_eq_mult take_bit_eq_mod)
  finally show q: "unat (push_bit 3 num) = 8 * (unat num mod 2 ^ 29)" .
  have "unat (push_bit 3 num OR 2) = unat (push_bit 3 num) OR 2" by (simp add: unsigned_or_eq)
  also have "\<dots> = push_bit 3 (unat num mod 2 ^ 29) OR 2" unfolding q by (simp add: push_bit_eq_mult mult.commute)
  also have "\<dots> = push_bit 3 (unat num mod 2 ^ 29) + 2"
    by (rule disjunctive_add [symmetric]) (auto simp: bit_2_iff bit_push_bit_iff)
  also have "\<dots> = 8 * (unat num mod 2 ^ 29) + 2" by (simp add: push_bit_eq_mult)
  finally show "unat (push_bit 3 num OR 2) = 8 * (unat num mod 2 ^ 29) + 2" .
qed

lemma string_tag_size: "length (UnsafeVarint (ucast (push_bit 3 num OR 2))) = eps_TagSize (push_bit 3 num)"
proof -
  have "8 * k + 2 < 8 * m \<longleftrightarrow> 8 * k < 8 * m" for k m :: nat by arith
  from this [of _ "2 ^ 4"] this [of _ "2 ^ 11"] this [of _ "2 ^ 18"] this [of _ "2 ^ 25"] show ?thesis
    unfolding eps_TagSize_exact eps_TagSize_def unat_tag by simp
qed


text \<open>The length of a string as an \<open>int\<close>.\<close>

lemma with_int_size_eq:
  "with_int_size write data =
     (if length data mod 2 ^ 32 < 2 ^ 31 then write (take (length data mod 2 ^ 32) data)
      else (\<lambda>st p. bind_result (ptr_diff (eo_end st) p) (\<lambda>room.
        Inl (if room < sint (of_nat (length data) :: int32) then NegativeLength else OutOfBounds))))"
proof -
  let ?w = "of_nat (length data) :: int32"
  have u: "unat ?w = length data mod 2 ^ 32" by (simp add: unat_of_nat)
  show ?thesis
  proof (cases "0 \<le> sint ?w")
    case True
    with u sint_nonneg_iff [of ?w] unat_eq_nat_sint [OF True] show ?thesis by (simp add: with_int_size_def fun_eq_iff)
  next
    case False
    with u sint_nonneg_iff [of ?w] show ?thesis by (simp add: with_int_size_def fun_eq_iff if_distrib [of Inl])
  qed
qed

section \<open>The contract of a writer\<close>

text \<open>
  \<open>ok st p n\<close>: the stream is fit to take \<open>n\<close> more bytes at \<open>p\<close>; \<open>room st p k\<close>: the next \<open>k\<close> of them can be
  stored without asking; \<open>wrote st p bs st' p'\<close>: between the two states \<open>bs\<close> was appended.
\<close>

type_synonym 's writer = "'s eps_out \<Rightarrow> ptr \<Rightarrow> ('s eps_out \<times> ptr) result"
type_synonym 's wrote = "'s eps_out \<Rightarrow> ptr \<Rightarrow> bytes \<Rightarrow> 's eps_out \<Rightarrow> ptr \<Rightarrow> bool"

definition emits :: "('s eps_out \<Rightarrow> ptr \<Rightarrow> nat \<Rightarrow> bool) \<Rightarrow> 's wrote \<Rightarrow> 's writer \<Rightarrow> bytes \<Rightarrow> bool" where
  "emits ok wrote w bs \<longleftrightarrow>
     (\<forall>st p n. ok st p n \<longrightarrow> length bs \<le> n \<longrightarrow>
        (\<exists>st' p'. w st p = Inr (st', p') \<and> ok st' p' (n - length bs) \<and> wrote st p bs st' p'))"

lemma emitsI:
  "(\<And>st p n. ok st p n \<Longrightarrow> length bs \<le> n \<Longrightarrow>
      \<exists>st' p'. w st p = Inr (st', p') \<and> ok st' p' (n - length bs) \<and> wrote st p bs st' p') \<Longrightarrow> emits ok wrote w bs"
  by (simp add: emits_def)

lemma emitsD:
  "emits ok wrote w bs \<Longrightarrow> ok st p n \<Longrightarrow> length bs \<le> n \<Longrightarrow>
     \<exists>st' p'. w st p = Inr (st', p') \<and> ok st' p' (n - length bs) \<and> wrote st p bs st' p'"
  by (simp add: emits_def)

text \<open>A length-delimited field.\<close>

definition string_field :: "u32 \<Rightarrow> bytes \<Rightarrow> bytes" where
  "string_field num s = WriteLengthDelim num (of_nat (length s)) @ s"

definition run_writers :: "'s writer list \<Rightarrow> 's writer" where
  "run_writers ws st p = fold (\<lambda>w r. bind_result r (\<lambda>(st, p). w st p)) ws (Inr (st, p))"

lemma run_writers_Nil [simp]: "run_writers [] st p = Inr (st, p)"
  by (simp add: run_writers_def)

lemma run_writers_Cons [simp]:
  "run_writers (w # ws) st p = bind_result (w st p) (\<lambda>(st', p'). run_writers ws st' p')"
proof -
  have e: "fold (\<lambda>w r. bind_result r (\<lambda>(st, p). w st p)) ws (Inl e) = Inl e" for e ws
    by (induction ws) simp_all
  show ?thesis by (cases "w st p") (auto simp: run_writers_def e)
qed

locale out_mode =
  fixes L :: "'s eps_lib"
    and ok :: "'s eps_out \<Rightarrow> ptr \<Rightarrow> nat \<Rightarrow> bool"
    and room :: "'s eps_out \<Rightarrow> ptr \<Rightarrow> nat \<Rightarrow> bool"
    and wrote :: "'s wrote"
  assumes wrote_trans: "wrote st p a st1 p1 \<Longrightarrow> wrote st1 p1 b st2 p2 \<Longrightarrow> wrote st p (a @ b) st2 p2"
    and wrote_refl: "ok st p n \<Longrightarrow> wrote st p [] st p"
    and ensure: "ok st p n \<Longrightarrow> 0 < n \<Longrightarrow>
      \<exists>st' p'. EnsureSpace L st p = Inr (st', p') \<and> ok st' p' n \<and> room st' p' 16 \<and> wrote st p [] st' p'"
    and put: "ok st p n \<Longrightarrow> room st p k \<Longrightarrow> length bs \<le> k \<Longrightarrow> length bs \<le> n \<Longrightarrow>
      \<exists>st' p'. write_at st p bs = Inr (st', p') \<and> ok st' p' (n - length bs) \<and> room st' p' (k - length bs) \<and>
        wrote st p bs st' p'"
    and raw: "emits ok wrote (WriteRaw L bs) bs"
    and raw_maybe_aliased: "emits ok wrote (WriteRawMaybeAliased L bs) bs"
    and unknown: "emits ok wrote (UnknownFieldsToArray L bs) bs"
    and string: "length s < 2 ^ 31 \<Longrightarrow> emits ok wrote (WriteStringMaybeAliased_at L num s) (string_field num s)"
    and plain_string: "length s < 2 ^ 31 \<Longrightarrow> emits ok wrote (WriteString_at L num s) (string_field num s)"
begin

lemma put_from:
  "ok st p (n + m) \<Longrightarrow> room st p (k + n) \<Longrightarrow> length bs = n \<Longrightarrow>
     \<exists>st' p'. write_at st p bs = Inr (st', p') \<and> ok st' p' m \<and> room st' p' k \<and> wrote st p bs st' p'"
  using put [of st p "n + m" "k + n" bs] by simp

lemma ensured:
  assumes "\<And>st p n. ok st p n \<Longrightarrow> room st p 16 \<Longrightarrow> length bs \<le> n \<Longrightarrow>
      \<exists>st' p'. w st p = Inr (st', p') \<and> ok st' p' (n - length bs) \<and> wrote st p bs st' p'"
    and "bs \<noteq> []"
  shows "emits ok wrote (\<lambda>st p. bind_result (EnsureSpace L st p) (\<lambda>(st1, p1). w st1 p1)) bs"
proof (rule emitsI)
  fix st p n
  assume o: "ok st p n" and l: "length bs \<le> n"
  with assms(2) have "0 < n" by (cases bs) auto
  from ensure [OF o this] obtain st1 p1 where
    1: "EnsureSpace L st p = Inr (st1, p1)" "ok st1 p1 n" "room st1 p1 16" "wrote st p [] st1 p1" by blast
  from assms(1) [OF 1(2,3) l] obtain st2 p2 where
    2: "w st1 p1 = Inr (st2, p2)" "ok st2 p2 (n - length bs)" "wrote st1 p1 bs st2 p2" by blast
  from wrote_trans [OF 1(4) 2(3)] 1(1) 2(1,2)
  show "\<exists>st' p'. bind_result (EnsureSpace L st p) (\<lambda>(st1, p1). w st1 p1) = Inr (st', p') \<and>
      ok st' p' (n - length bs) \<and> wrote st p bs st' p'" by simp
qed

lemma field:
  assumes "length bs \<le> 16" and "bs \<noteq> []"
  shows "emits ok wrote (put_field L bs) bs"
proof -
  have "emits ok wrote (\<lambda>st p. bind_result (EnsureSpace L st p) (\<lambda>(st1, p1). write_at st1 p1 bs)) bs"
    using put assms by (intro ensured) blast+
  then show ?thesis by (simp add: put_field_def [abs_def])
qed

lemma emits_bind:
  assumes "emits ok wrote v a" and "emits ok wrote w b"
  shows "emits ok wrote (\<lambda>st p. bind_result (v st p) (\<lambda>(st1, p1). w st1 p1)) (a @ b)"
proof (rule emitsI)
  fix st p n
  assume "ok st p n" and l: "length (a @ b) \<le> n"
  then obtain st1 p1 where 1: "v st p = Inr (st1, p1)" "ok st1 p1 (n - length a)" "wrote st p a st1 p1"
    using emitsD [OF assms(1)] by fastforce
  with l obtain st2 p2 where 2: "w st1 p1 = Inr (st2, p2)" "ok st2 p2 (n - length a - length b)" "wrote st1 p1 b st2 p2"
    using emitsD [OF assms(2), of st1 p1 "n - length a"] by fastforce
  from wrote_trans [OF 1(3) 2(3)] 1(1) 2(1,2)
  show "\<exists>st' p'. bind_result (v st p) (\<lambda>(st1, p1). w st1 p1) = Inr (st', p') \<and>
      ok st' p' (n - length (a @ b)) \<and> wrote st p (a @ b) st' p'" by simp
qed

lemma emits_nothing: "emits ok wrote (\<lambda>st p. Inr (st, p)) []"
  by (rule emitsI) (auto intro: wrote_refl)

lemma emits_if: "(c \<Longrightarrow> emits ok wrote w bs) \<Longrightarrow>
    emits ok wrote (\<lambda>st p. if c then w st p else Inr (st, p)) (if c then bs else [])"
  using emits_nothing by (cases c) simp_all

lemma length_delim:
  assumes "ok st p n" and "room st p 16" and "length (WriteLengthDelim num len) \<le> n"
  shows "\<exists>st' p'. WriteLengthDelim_at num len st p = Inr (st', p') \<and>
    ok st' p' (n - length (WriteLengthDelim num len)) \<and> wrote st p (WriteLengthDelim num len) st' p'"
proof -
  let ?tag = "UnsafeVarint (ucast (MakeTag num 2))" and ?len = "UnsafeWriteSize len"
  have t: "length ?tag \<le> 5" and s: "length ?len \<le> 5"
    by (simp_all add: UnsafeWriteSize_eq eps_TagSize_exact) (simp_all add: eps_TagSize_def)
  have n: "length ?tag + length ?len \<le> n" using assms(3) by (simp add: WriteLengthDelim_def)
  from put [OF assms(1,2), of ?tag] t n obtain st1 p1 where
    1: "write_at st p ?tag = Inr (st1, p1)" "ok st1 p1 (n - length ?tag)" "room st1 p1 (16 - length ?tag)"
      "wrote st p ?tag st1 p1" by fastforce
  from put [OF 1(2,3), of ?len] t s n obtain st2 p2 where
    2: "write_at st1 p1 ?len = Inr (st2, p2)" "ok st2 p2 (n - length ?tag - length ?len)"
      "wrote st1 p1 ?len st2 p2" by fastforce
  from wrote_trans [OF 1(4) 2(3)] 1(1) 2(1,2) show ?thesis
    by (simp add: WriteLengthDelim_at_def WriteLengthDelim_def)
qed

lemma packed_elements:
  "vs \<noteq> [] \<Longrightarrow> emits ok wrote (packed_elements L encode vs) (concat (map (\<lambda>v. UnsafeVarint (encode v)) vs))"
proof (induction vs)
  case Nil
  then show ?case by simp
next
  case (Cons v vs)
  have l: "length (UnsafeVarint (encode v)) \<le> 16" using length_UnsafeVarint_le [of "encode v"] by simp
  have one: "emits ok wrote (put_field L (UnsafeVarint (encode v))) (UnsafeVarint (encode v))"
    by (rule field [OF l]) simp
  have e: "packed_elements L encode (v # vs) = (\<lambda>st p. bind_result (put_field L (UnsafeVarint (encode v)) st p)
      (\<lambda>(st2, p2). if vs = [] then Inr (st2, p2) else packed_elements L encode vs st2 p2))"
    by (simp add: put_field_def bind_result_assoc fun_eq_iff case_prod_unfold)
  show ?case
  proof (cases "vs = []")
    case True
    with emits_bind [OF one emits_nothing] show ?thesis unfolding e by simp
  next
    case False
    with emits_bind [OF one Cons.IH] show ?thesis unfolding e by simp
  qed
qed

lemma varint_packed:
  assumes "r \<noteq> []"
  shows "emits ok wrote (WriteVarintPacked L num r len encode)
    (WriteLengthDelim num len @ concat (map (\<lambda>v. UnsafeVarint (encode v)) r))"
proof -
  let ?h = "WriteLengthDelim num len"
  have "emits ok wrote (\<lambda>st p. bind_result (EnsureSpace L st p) (\<lambda>(st1, p1). WriteLengthDelim_at num len st1 p1)) ?h"
    by (rule ensured [OF length_delim]) (simp_all add: WriteLengthDelim_def)
  from emits_bind [OF this packed_elements [OF assms]] show ?thesis
    by (simp add: WriteVarintPacked_def [abs_def] bind_result_assoc case_prod_unfold)
qed

lemma fixed_packed:
  assumes "length (concat (map layout r)) < 2 ^ 31"
  shows "emits ok wrote (WriteFixedPacked L size_of layout num r)
    (WriteLengthDelim num (of_nat (length r * size_of)) @ concat (map layout r))"
proof -
  let ?h = "WriteLengthDelim num (of_nat (length r * size_of))"
  have n: "with_int_size w (concat (map layout r)) = w (concat (map layout r))" for w :: "bytes \<Rightarrow> 's writer"
    using assms unfolding with_int_size_eq by (simp del: length_concat)
  have "emits ok wrote
      (\<lambda>st p. bind_result (EnsureSpace L st p) (\<lambda>(st1, p1). WriteLengthDelim_at num (of_nat (length r * size_of)) st1 p1)) ?h"
    by (rule ensured [OF length_delim]) (simp_all add: WriteLengthDelim_def)
  from emits_bind [OF this raw [of "concat (map layout r)"]] show ?thesis
    unfolding WriteFixedPacked_def [abs_def] n WriteRawLittleEndian1_def WriteRawLittleEndian4_def
      WriteRawLittleEndian8_def if_cancel
    by (simp add: bind_result_assoc case_prod_unfold)
qed

lemma writers: "list_all2 (emits ok wrote) ws bss \<Longrightarrow> emits ok wrote (run_writers ws) (concat bss)"
proof (induction rule: list_all2_induct)
  case Nil
  have "run_writers [] = (\<lambda>st p. Inr (st, p) :: ('s eps_out \<times> ptr) result)" by (simp add: fun_eq_iff)
  with emits_nothing show ?case by simp
next
  case (Cons w ws b bs)
  have "run_writers (w # ws) = (\<lambda>st p. bind_result (w st p) (\<lambda>(st', p'). run_writers ws st' p'))"
    by (simp add: fun_eq_iff)
  with emits_bind [OF Cons(1,3)] show ?case by simp
qed

end


section \<open>Writing to an array\<close>

text \<open>
  The array has room for the bytes that are still to come, up to \<open>end_\<close>, and aliasing is off. There
  the out-of-line writers store their bytes at \<open>ptr\<close>.
\<close>

fun at_array :: "'s eps_out \<Rightarrow> ptr \<Rightarrow> nat \<Rightarrow> bool" where
  "at_array st (Block i) n \<longleftrightarrow>
     eo_stream st = None \<and> \<not> eo_aliasing_enabled st \<and> 0 \<le> i \<and>
     (case eo_end st of Block e \<Rightarrow> i + int n \<le> e \<and> e \<le> int (length (eo_block st)) | Patch e \<Rightarrow> False)"
| "at_array st (Patch i) n \<longleftrightarrow> False"

definition eps_array_ok :: "'s eps_lib \<Rightarrow> bool" where
  "eps_array_ok L \<longleftrightarrow>
     (\<forall>st p num s. length s < 2 ^ 31 \<longrightarrow> at_array st p (length (string_field num s)) \<longrightarrow>
        StringMaybeAliasedOutline L num s st p = write_at st p (string_field num s) \<and>
        StringOutline L num s st p = write_at st p (string_field num s)) \<and>
     (\<forall>st p u. at_array st p (length u) \<longrightarrow> UnknownFieldsToArray L u st p = write_at st p u)"

definition array_ok :: "'s eps_lib \<Rightarrow> 's eps_out \<Rightarrow> ptr \<Rightarrow> nat \<Rightarrow> bool" where
  "array_ok L st p n \<longleftrightarrow> eps_array_ok L \<and> at_array st p n"

definition array_wrote :: "'s wrote" where
  "array_wrote st p bs st' p' \<longleftrightarrow>
     (\<exists>i. p = Block (int i) \<and> p' = Block (int i + int (length bs)) \<and> i + length bs \<le> length (eo_block st) \<and>
        st' = st\<lparr>eo_block := take i (eo_block st) @ bs @ drop (i + length bs) (eo_block st)\<rparr>)"

lemma array_wrote_trans:
  "array_wrote st p a st1 p1 \<Longrightarrow> array_wrote st1 p1 b st2 p2 \<Longrightarrow> array_wrote st p (a @ b) st2 p2"
  by (auto simp: array_wrote_def) (auto simp: add.assoc simp flip: of_nat_add)

lemma array_put:
  assumes "at_array st p n" and "length bs \<le> n"
  shows "\<exists>st' p'. write_at st p bs = Inr (st', p') \<and> at_array st' p' (n - length bs) \<and> array_wrote st p bs st' p'"
proof -
  obtain i e where p: "p = Block i" "0 \<le> i" "eo_end st = Block e" "i + int n \<le> e" "e \<le> int (length (eo_block st))"
    and r: "eo_stream st = None" "\<not> eo_aliasing_enabled st"
    using assms(1) by (cases p) (auto split: ptr.splits)
  then obtain k where k: "i = int k" by (metis nonneg_int_cases)
  have m: "mem_write (eo_block st) i bs =
      Inr (take k (eo_block st) @ bs @ drop (k + length bs) (eo_block st))"
    using p assms(2) mem_write_ok [of i bs "eo_block st"] by (simp add: k)
  then show ?thesis using p r assms(2) by (simp add: array_wrote_def k)
qed

lemma array_direct:
  assumes "\<And>st p. at_array st p (length bs) \<Longrightarrow> eps_array_ok L \<Longrightarrow> w st p = write_at st p bs"
  shows "emits (array_ok L) array_wrote w bs"
proof (rule emitsI)
  fix st p n
  assume o: "array_ok L st p n" and l: "length bs \<le> n"
  then have "at_array st p (length bs)" by (cases p) (auto simp: array_ok_def split: ptr.splits)
  with assms o have w: "w st p = write_at st p bs" by (simp add: array_ok_def)
  show "\<exists>st' p'. w st p = Inr (st', p') \<and> array_ok L st' p' (n - length bs) \<and> array_wrote st p bs st' p'"
    using array_put [OF _ l, of st p] o by (simp add: w array_ok_def)
qed

lemma array_room: "at_array st p n \<Longrightarrow> \<exists>d. ptr_diff (eo_end st) p = Inr d \<and> int n \<le> d \<and> ptr_diff p (eo_end st) = Inr (- d)"
  by (cases p) (auto split: ptr.splits)

lemma array_raw: "at_array st p (length bs) \<Longrightarrow> WriteRaw L bs st p = write_at st p bs"
  using array_room [of st p "length bs"] by (auto simp: WriteRaw_def)

lemma bind_write_at:
  "bind_result (write_at st p a) (\<lambda>(st1, p1). write_at st1 p1 b) = write_at st p (a @ b)"
  if "at_array st p (length (a @ b))" for st :: "'s eps_out"
proof -
  from array_put [OF that, of a] obtain st1 p1 where
    1: "write_at st p a = Inr (st1, p1)" "at_array st1 p1 (length b)" "array_wrote st p a st1 p1" by auto
  from array_put [OF 1(2) order_refl] obtain st2 p2 where
    2: "write_at st1 p1 b = Inr (st2, p2)" "array_wrote st1 p1 b st2 p2" by auto
  from array_put [OF that order_refl] obtain st3 p3 where
    3: "write_at st p (a @ b) = Inr (st3, p3)" "array_wrote st p (a @ b) st3 p3" by auto
  from array_wrote_trans [OF 1(3) 2(2)] 3(2) have "st3 = st2 \<and> p3 = p2" by (auto simp: array_wrote_def)
  with 1(1) 2(1) 3(1) show ?thesis by simp
qed

lemma string_field_short:
  "length s < 128 \<Longrightarrow> string_field num s = UnsafeVarint (ucast (push_bit 3 num OR 2)) @ [of_nat (length s)] @ s"
proof -
  assume l: "length s < 128"
  have u: "unat (of_nat (length s) :: u32) = length s" using l by (intro unat_of_nat_u32) simp
  then have "(ucast (of_nat (length s) :: u32) :: byte) = of_nat (length s)" by (metis of_nat_unat)
  then show ?thesis
    using l u by (simp add: string_field_def WriteLengthDelim_def MakeTag_def UnsafeWriteSize_eq UnsafeVarint_small)
qed

lemma length_string_field_short:
  "length s < 128 \<Longrightarrow> length (string_field num s) = eps_TagSize (push_bit 3 num) + 1 + length s"
  by (simp add: string_field_short string_tag_size)

lemma array_short:
  assumes "at_array st p (length (string_field num s))" and l: "length s < 128"
  shows "write_short_string num s st p = write_at st p (string_field num s)"
proof -
  let ?t = "UnsafeVarint (ucast (push_bit 3 num OR 2))"
  have a: "at_array st p (length (?t @ [of_nat (length s)] @ s))" using assms string_field_short [OF l] by simp
  from array_put [OF a, of ?t] obtain st1 p1 where
    1: "write_at st p ?t = Inr (st1, p1)" "at_array st1 p1 (length ([of_nat (length s)] @ s))" by auto
  show ?thesis
    using bind_write_at [OF a] bind_write_at [OF 1(2)]
    by (simp add: write_short_string_def string_field_short [OF l] 1(1))
qed

lemma array_string:
  assumes "eps_array_ok L" and "length s < 2 ^ 31" and a: "at_array st p (length (string_field num s))"
  shows "WriteStringMaybeAliased_at L num s st p = write_at st p (string_field num s)"
    and "WriteString_at L num s st p = write_at st p (string_field num s)"
proof -
  have o: "StringMaybeAliasedOutline L num s st p = write_at st p (string_field num s)"
    "StringOutline L num s st p = write_at st p (string_field num s)"
    using assms by (simp_all add: eps_array_ok_def)
  from array_room [OF a] obtain d where d: "ptr_diff (eo_end st) p = Inr d" by blast
  show "WriteStringMaybeAliased_at L num s st p = write_at st p (string_field num s)"
    "WriteString_at L num s st p = write_at st p (string_field num s)"
    using o array_short [OF a] by (auto simp: WriteStringMaybeAliased_at_def WriteString_at_def d)
qed

interpretation to_array: out_mode L "array_ok L" "\<lambda>st p k. True" array_wrote for L :: "'s eps_lib"
proof unfold_locales
  show "array_wrote st p a st1 p1 \<Longrightarrow> array_wrote st1 p1 b st2 p2 \<Longrightarrow> array_wrote st p (a @ b) st2 p2"
    for st st1 st2 :: "'s eps_out" and p p1 p2 a b by (rule array_wrote_trans)
  show r: "array_wrote st p [] st p" if "array_ok L st p n" for st :: "'s eps_out" and p n
    using that array_put [of st p n "[]"] by (cases p) (auto simp: array_ok_def array_wrote_def dest: nonneg_int_cases)
  show "\<exists>st' p'. EnsureSpace L st p = Inr (st', p') \<and> array_ok L st' p' n \<and> True \<and> array_wrote st p [] st' p'"
    if "array_ok L st p n" "0 < n" for st :: "'s eps_out" and p n
    using that r [OF that(1)] array_room [of st p n] by (auto simp: EnsureSpace_def array_ok_def)
  show "\<exists>st' p'. write_at st p bs = Inr (st', p') \<and> array_ok L st' p' (n - length bs) \<and> True \<and> array_wrote st p bs st' p'"
    if "array_ok L st p n" "True" "length bs \<le> k" "length bs \<le> n" for st :: "'s eps_out" and p n k bs
    using that array_put [of st p n bs] by (auto simp: array_ok_def)
  show "emits (array_ok L) array_wrote (WriteRaw L bs) bs" for bs
    by (rule array_direct) (rule array_raw)
  show "emits (array_ok L) array_wrote (WriteRawMaybeAliased L bs) bs" for bs
    by (rule array_direct) (metis WriteRawMaybeAliased_def array_raw at_array.elims(2))
  show "emits (array_ok L) array_wrote (UnknownFieldsToArray L bs) bs" for bs
    by (rule array_direct) (simp add: eps_array_ok_def)
  show "emits (array_ok L) array_wrote (WriteStringMaybeAliased_at L num s) (string_field num s)"
    if "length s < 2 ^ 31" for num s using that by (intro array_direct array_string)
  show "emits (array_ok L) array_wrote (WriteString_at L num s) (string_field num s)"
    if "length s < 2 ^ 31" for num s using that by (intro array_direct array_string)
qed


section \<open>Writing to a stream of blocks\<close>

text \<open>
  What has been written: the bytes of the blocks that were handed back (\<open>sent\<close>), then the current block
  up to the cursor, or up to where the patch buffer continues it, and the patch buffer up to the
  cursor.
\<close>

definition handed :: "('s \<Rightarrow> bytes) \<Rightarrow> 's eps_out \<Rightarrow> bytes" where
  "handed sent st = (case eo_stream st of Some s \<Rightarrow> sent s | None \<Rightarrow> [])"

fun pending :: "'s eps_out \<Rightarrow> ptr \<Rightarrow> bytes" where
  "pending st (Block i) = take (nat i) (eo_block st)"
| "pending st (Patch j) =
     (case eo_buffer_end st of Some (Block b) \<Rightarrow> take (nat b) (eo_block st) | _ \<Rightarrow> []) @ take (nat j) (eo_buffer st)"

definition written :: "('s \<Rightarrow> bytes) \<Rightarrow> 's eps_out \<Rightarrow> ptr \<Rightarrow> bytes" where
  "written sent st p = handed sent st @ pending st p"

text \<open>
  Between calls the cursor is at most 16 bytes past \<open>end_\<close>, and these 16 bytes exist: \<open>end_\<close> is 16
  bytes before the end of the block, or inside the first half of the patch buffer, which then covers
  the rest of the block. After an error the patch buffer takes whatever is written.
\<close>

fun stream_at :: "'s eps_out \<Rightarrow> ptr \<Rightarrow> ptr \<Rightarrow> bool" where
  "stream_at st (Block e) (Block i) \<longleftrightarrow>
     0 \<le> i \<and> i \<le> e + 16 \<and> 0 \<le> e \<and> e + 16 = int (length (eo_block st)) \<and> eo_buffer_end st = None \<and> \<not> eo_had_error st"
| "stream_at st (Patch e) (Patch i) \<longleftrightarrow>
     0 \<le> i \<and> i \<le> e + 16 \<and> 0 \<le> e \<and> e \<le> 16 \<and>
     (if eo_had_error st then e = 16
      else case eo_buffer_end st of
             Some (Block b) \<Rightarrow> 0 \<le> b \<and> b + e = int (length (eo_block st))
           | Some (Patch b) \<Rightarrow> e = 0
           | None \<Rightarrow> False)"
| "stream_at st _ _ \<longleftrightarrow> False"

definition stream_fit :: "'s eps_out \<Rightarrow> ptr \<Rightarrow> bool" where
  "stream_fit st p \<longleftrightarrow> length (eo_buffer st) = 32 \<and> eo_stream st \<noteq> None \<and> stream_at st (eo_end st) p"

definition stream_room :: "'s eps_out \<Rightarrow> ptr \<Rightarrow> nat \<Rightarrow> bool" where
  "stream_room st p k \<longleftrightarrow> (\<exists>d. ptr_diff (eo_end st) p = Inr d \<and> int k \<le> d + 16)"

definition stream_wrote :: "('s \<Rightarrow> bytes) \<Rightarrow> 's wrote" where
  "stream_wrote sent st p bs st' p' \<longleftrightarrow>
     (eo_had_error st \<longrightarrow> eo_had_error st') \<and>
     (\<not> eo_had_error st' \<longrightarrow> written sent st' p' = written sent st p @ bs)"

definition stream_appends :: "('s \<Rightarrow> bytes) \<Rightarrow> 's writer \<Rightarrow> bytes \<Rightarrow> bool" where
  "stream_appends sent w bs \<longleftrightarrow>
     (\<forall>st p. stream_fit st p \<longrightarrow>
        (\<exists>st' p'. w st p = Inr (st', p') \<and> stream_fit st' p' \<and> stream_wrote sent st p bs st' p'))"

text \<open>
  The out-of-line routines: \<open>EnsureSpaceFallback\<close> never fails and returns a cursor before \<open>end_\<close>, the
  writers append their bytes, and \<open>Trim\<close> leaves nothing pending. The first \<open>Next\<close> of a stream hands
  nothing back.
\<close>

definition eps_stream_ok :: "'s eps_lib \<Rightarrow> ('s \<Rightarrow> bytes) \<Rightarrow> bool" where
  "eps_stream_ok L sent \<longleftrightarrow>
     (\<forall>st p d. stream_fit st p \<longrightarrow> ptr_diff p (eo_end st) = Inr d \<longrightarrow> 0 \<le> d \<longrightarrow>
        (\<exists>st' p'. EnsureSpaceFallback L st p = Inr (st', p') \<and> stream_fit st' p' \<and> stream_room st' p' 17 \<and>
           stream_wrote sent st p [] st' p')) \<and>
     (\<forall>bs. stream_appends sent (WriteRawFallback L bs) bs \<and> stream_appends sent (WriteAliasedRaw L bs) bs \<and>
        stream_appends sent (UnknownFieldsToArray L bs) bs) \<and>
     (\<forall>num s. length s < 2 ^ 31 \<longrightarrow>
        stream_appends sent (StringMaybeAliasedOutline L num s) (string_field num s) \<and>
        stream_appends sent (StringOutline L num s) (string_field num s)) \<and>
     (\<forall>st p. stream_fit st p \<longrightarrow>
        (\<exists>st' p'. TrimStream L st p = Inr (st', p') \<and> stream_fit st' p' \<and> stream_wrote sent st p [] st' p' \<and>
           (\<not> eo_had_error st' \<longrightarrow> pending st' p' = []))) \<and>
     (\<forall>s. sent (snd (stream_Next L s)) = sent s)"

definition stream_ok :: "'s eps_lib \<Rightarrow> ('s \<Rightarrow> bytes) \<Rightarrow> 's eps_out \<Rightarrow> ptr \<Rightarrow> nat \<Rightarrow> bool" where
  "stream_ok L sent st p n \<longleftrightarrow> eps_stream_ok L sent \<and> stream_fit st p"

lemma stream_wrote_trans:
  "stream_wrote sent st p a st1 p1 \<Longrightarrow> stream_wrote sent st1 p1 b st2 p2 \<Longrightarrow> stream_wrote sent st p (a @ b) st2 p2"
  by (auto simp: stream_wrote_def)

lemma stream_cursor:
  assumes "stream_fit st p"
  obtains (block) i where "p = Block (int i)" "eo_end st = Block (int (length (eo_block st)) - 16)"
      "i \<le> length (eo_block st)" "16 \<le> length (eo_block st)" "eo_buffer_end st = None" "\<not> eo_had_error st"
  | (patch) i e where "p = Patch (int i)" "eo_end st = Patch e" "int i \<le> e + 16" "0 \<le> e" "e \<le> 16"
proof (cases p)
  case (Block i)
  then obtain e where e: "eo_end st = Block e" using assms by (cases "eo_end st") (auto simp: stream_fit_def)
  with Block assms have "0 \<le> i" "i \<le> e + 16" "0 \<le> e" "e + 16 = int (length (eo_block st))" "eo_buffer_end st = None" "\<not> eo_had_error st"
    by (auto simp: stream_fit_def)
  with block [of "nat i"] Block e show ?thesis by simp
next
  case (Patch i)
  then obtain e where e: "eo_end st = Patch e" using assms by (cases "eo_end st") (auto simp: stream_fit_def)
  with Patch assms have "0 \<le> i" "i \<le> e + 16" "0 \<le> e" "e \<le> 16" by (auto simp: stream_fit_def)
  with patch [of "nat i" e] Patch e show ?thesis by simp
qed

lemma stream_put:
  assumes f: "stream_fit st p" and r: "stream_room st p k" and l: "length bs \<le> k"
  shows "\<exists>st' p'. write_at st p bs = Inr (st', p') \<and> stream_fit st' p' \<and> stream_room st' p' (k - length bs) \<and>
    stream_wrote sent st p bs st' p'"
  using f
proof (cases rule: stream_cursor)
  case (block i)
  then have "int k \<le> int (length (eo_block st)) - int i" using r by (auto simp: stream_room_def)
  then have k: "i + length bs \<le> length (eo_block st)" "k \<le> length (eo_block st) - i" using l by linarith+
  then have "write_at st p bs = Inr (st\<lparr>eo_block := take i (eo_block st) @ bs @ drop (i + length bs) (eo_block st)\<rparr>,
      Block (int i + int (length bs)))"
    using mem_write_ok [of "int i" bs "eo_block st"] by (simp add: block(1))
  moreover have "nat (int i + int (length bs)) = i + length bs" by (metis nat_int of_nat_add)
  ultimately show ?thesis
    using f block k l by (auto simp: stream_fit_def stream_room_def stream_wrote_def written_def handed_def)
next
  case (patch i e)
  have b: "length (eo_buffer st) = 32" using f by (simp add: stream_fit_def)
  have "int k \<le> e - int i + 16" using r patch by (auto simp: stream_room_def)
  then have k: "i + length bs \<le> length (eo_buffer st)" "int i + int (length bs) \<le> e + 16" using l patch b by linarith+
  then have "write_at st p bs = Inr (st\<lparr>eo_buffer := take i (eo_buffer st) @ bs @ drop (i + length bs) (eo_buffer st)\<rparr>,
      Patch (int i + int (length bs)))"
    using mem_write_ok [of "int i" bs "eo_buffer st"] by (simp add: patch(1))
  moreover have "nat (int i + int (length bs)) = i + length bs" by (metis nat_int of_nat_add)
  ultimately show ?thesis
    using f patch k l b \<open>int k \<le> e - int i + 16\<close>
    by (auto simp: stream_fit_def stream_room_def stream_wrote_def written_def handed_def
        split: option.splits ptr.splits if_splits)
qed

lemma stream_appendsD:
  "stream_appends sent w bs \<Longrightarrow> stream_fit st p \<Longrightarrow>
     \<exists>st' p'. w st p = Inr (st', p') \<and> stream_fit st' p' \<and> stream_wrote sent st p bs st' p'"
  by (simp add: stream_appends_def)

lemma stream_emits:
  "(eps_stream_ok L sent \<Longrightarrow> stream_appends sent w bs) \<Longrightarrow> emits (stream_ok L sent) (stream_wrote sent) w bs"
  by (auto simp: emits_def stream_ok_def stream_appends_def)

lemma eps_stream_writers:
  assumes "eps_stream_ok L sent"
  shows "stream_appends sent (WriteRawFallback L bs) bs" "stream_appends sent (WriteAliasedRaw L bs) bs"
    "stream_appends sent (UnknownFieldsToArray L bs) bs"
    "length s < 2 ^ 31 \<Longrightarrow> stream_appends sent (StringMaybeAliasedOutline L num s) (string_field num s)"
    "length s < 2 ^ 31 \<Longrightarrow> stream_appends sent (StringOutline L num s) (string_field num s)"
  using assms unfolding eps_stream_ok_def by blast+

lemma stream_diff: "stream_fit st p \<Longrightarrow> \<exists>d. ptr_diff (eo_end st) p = Inr d \<and> ptr_diff p (eo_end st) = Inr (- d) \<and> - 16 \<le> d"
  by (erule stream_cursor) auto

lemma stream_raw:
  assumes "eps_stream_ok L sent"
  shows "stream_appends sent (WriteRaw L bs) bs"
  unfolding stream_appends_def
proof (intro allI impI)
  fix st :: "'a eps_out" and p
  assume f: "stream_fit st p"
  then obtain d where d: "ptr_diff (eo_end st) p = Inr d" using stream_diff by blast
  show "\<exists>st' p'. WriteRaw L bs st p = Inr (st', p') \<and> stream_fit st' p' \<and> stream_wrote sent st p bs st' p'"
  proof (cases "d < int (length bs)")
    case True
    with stream_appendsD [OF eps_stream_writers(1) [OF assms] f, of bs] d show ?thesis by (simp add: WriteRaw_def)
  next
    case False
    then have "stream_room st p (length bs)" using d by (simp add: stream_room_def)
    from stream_put [OF f this order_refl, of sent] False d show ?thesis by (auto simp: WriteRaw_def)
  qed
qed

lemma stream_short:
  assumes f: "stream_fit st p" and r: "stream_room st p (length (string_field num s))" and l: "length s < 128"
  shows "\<exists>st' p'. write_short_string num s st p = Inr (st', p') \<and> stream_fit st' p' \<and>
    stream_wrote sent st p (string_field num s) st' p'"
proof -
  let ?t = "UnsafeVarint (ucast (push_bit 3 num OR 2))"
  have n: "length (string_field num s) = length ?t + Suc (length s)" by (simp add: string_field_short [OF l])
  from stream_put [OF f r, of ?t sent] obtain st1 p1 where
    1: "write_at st p ?t = Inr (st1, p1)" "stream_fit st1 p1" "stream_room st1 p1 (Suc (length s))" "stream_wrote sent st p ?t st1 p1"
    unfolding n by auto
  from stream_put [OF 1(2,3), of "[of_nat (length s)]" sent] obtain st2 p2 where
    2: "write_at st1 p1 [of_nat (length s)] = Inr (st2, p2)" "stream_fit st2 p2" "stream_room st2 p2 (length s)"
      "stream_wrote sent st1 p1 [of_nat (length s)] st2 p2" by auto
  from stream_put [OF 2(2,3), of s sent] obtain st3 p3 where
    3: "write_at st2 p2 s = Inr (st3, p3)" "stream_fit st3 p3" "stream_wrote sent st2 p2 s st3 p3" by auto
  from stream_wrote_trans [OF 1(4) stream_wrote_trans [OF 2(4) 3(3)]] 1(1) 2(1) 3(1,2) show ?thesis
    by (simp add: write_short_string_def string_field_short [OF l])
qed

lemma stream_string:
  assumes "eps_stream_ok L sent" and "length s < 2 ^ 31"
  shows "stream_appends sent (WriteStringMaybeAliased_at L num s) (string_field num s)"
    and "stream_appends sent (WriteString_at L num s) (string_field num s)"
proof -
  note o = eps_stream_writers(4,5) [OF assms, of num, THEN stream_appendsD]
  have c: "\<exists>st' p'. w st p = Inr (st', p') \<and> stream_fit st' p' \<and> stream_wrote sent st p (string_field num s) st' p'"
    if f: "stream_fit st p" and w: "w = WriteStringMaybeAliased_at L num s \<or> w = WriteString_at L num s" for w st p
  proof -
    from stream_diff [OF f] obtain d where d: "ptr_diff (eo_end st) p = Inr d" by blast
    show ?thesis
    proof (cases "128 \<le> length s \<or> d + 16 - int (eps_TagSize (push_bit 3 num)) - 1 < int (length s)")
      case True
      with o [OF f] w d show ?thesis by (auto simp: WriteStringMaybeAliased_at_def WriteString_at_def)
    next
      case False
      then have l: "length s < 128" and r: "stream_room st p (length (string_field num s))"
        using d length_string_field_short [of s num] by (auto simp: stream_room_def)
      from stream_short [OF f r l, of sent] False w d show ?thesis
        by (auto simp: WriteStringMaybeAliased_at_def WriteString_at_def)
    qed
  qed
  show "stream_appends sent (WriteStringMaybeAliased_at L num s) (string_field num s)"
    "stream_appends sent (WriteString_at L num s) (string_field num s)"
    using c by (auto simp: stream_appends_def)
qed

interpretation to_stream: out_mode L "stream_ok L sent" stream_room "stream_wrote sent" for L :: "'s eps_lib" and sent
proof unfold_locales
  show "stream_wrote sent st p a st1 p1 \<Longrightarrow> stream_wrote sent st1 p1 b st2 p2 \<Longrightarrow> stream_wrote sent st p (a @ b) st2 p2"
    for st st1 st2 :: "'s eps_out" and p p1 p2 a b by (rule stream_wrote_trans)
  show r: "stream_wrote sent st p [] st p" for st :: "'s eps_out" and p by (simp add: stream_wrote_def)
  show "\<exists>st' p'. EnsureSpace L st p = Inr (st', p') \<and> stream_ok L sent st' p' n \<and> stream_room st' p' 16 \<and>
      stream_wrote sent st p [] st' p'" if o: "stream_ok L sent st p n" "0 < n" for st :: "'s eps_out" and p n
  proof -
    have f: "stream_fit st p" and L: "eps_stream_ok L sent" using o by (simp_all add: stream_ok_def)
    from stream_diff [OF f] obtain d where d: "ptr_diff (eo_end st) p = Inr d" "ptr_diff p (eo_end st) = Inr (- d)" by blast
    show ?thesis
    proof (cases "0 \<le> - d")
      case True
      with L f d obtain st' p' where
        "EnsureSpaceFallback L st p = Inr (st', p')" "stream_fit st' p'" "stream_room st' p' 17" "stream_wrote sent st p [] st' p'"
        unfolding eps_stream_ok_def by blast
      with True L d show ?thesis by (auto simp: EnsureSpace_def stream_ok_def stream_room_def)
    next
      case False
      with o d r show ?thesis by (auto simp: EnsureSpace_def stream_room_def)
    qed
  qed
  show "\<exists>st' p'. write_at st p bs = Inr (st', p') \<and> stream_ok L sent st' p' (n - length bs) \<and>
      stream_room st' p' (k - length bs) \<and> stream_wrote sent st p bs st' p'"
    if "stream_ok L sent st p n" "stream_room st p k" "length bs \<le> k" "length bs \<le> n" for st :: "'s eps_out" and p n k bs
    using that stream_put [of st p k bs sent] by (auto simp: stream_ok_def)
  show "emits (stream_ok L sent) (stream_wrote sent) (WriteRaw L bs) bs" for bs
    by (intro stream_emits stream_raw)
  show "emits (stream_ok L sent) (stream_wrote sent) (WriteRawMaybeAliased L bs) bs" for bs
    by (rule stream_emits) (use stream_raw [of L sent bs] eps_stream_writers(2) [of L sent bs] in
        \<open>auto simp: stream_appends_def WriteRawMaybeAliased_def\<close>)
  show "emits (stream_ok L sent) (stream_wrote sent) (UnknownFieldsToArray L bs) bs" for bs
    by (intro stream_emits eps_stream_writers)
  show "emits (stream_ok L sent) (stream_wrote sent) (WriteStringMaybeAliased_at L num s) (string_field num s)"
    if "length s < 2 ^ 31" for num s using that by (intro stream_emits stream_string)
  show "emits (stream_ok L sent) (stream_wrote sent) (WriteString_at L num s) (string_field num s)"
    if "length s < 2 ^ 31" for num s using that by (intro stream_emits stream_string)
qed

end
