(* ===== verification/Eps_Reference.thy ===== *)
theory Eps_Reference
  imports Eps_Refinement
begin

unbundle bit_operations_syntax

text \<open>
  An instance of the out-of-line part of the output stream, over an underlying stream that hands out
  blocks of given lengths and fails after the last. It satisfies the laws \<open>eps_array_ok\<close> and
  \<open>eps_stream_ok\<close>, so that what is proved from them is about something; the theorems are not about it.
\<close>

type_synonym block_stream = "bytes \<times> nat list"

text \<open>
  The next buffer: from a block to the patch buffer over its last 16 bytes, from the patch buffer to
  the next block, with the 16 bytes after \<open>end_\<close> copied.
\<close>

definition ref_next :: "block_stream eps_out \<Rightarrow> block_stream eps_out \<times> ptr" where
  "ref_next st =
     (if eo_had_error st then (st, Patch 0)
      else case eo_end st of
        Block e \<Rightarrow>
          (st\<lparr>eo_buffer := take 16 (drop (nat e) (eo_block st)) @ drop 16 (eo_buffer st),
              eo_buffer_end := Some (Block e), eo_end := Patch 16\<rparr>, Patch 0)
      | Patch e \<Rightarrow>
          (let slop = take 16 (drop (nat e) (eo_buffer st))
           in case eo_stream st of
                Some (out, n # ns) \<Rightarrow>
                  (let st1 = st\<lparr>eo_stream := Some (out @ pending st (Patch e), ns)\<rparr>
                   in if 16 < n
                      then (st1\<lparr>eo_block := slop @ replicate (n - 16) 0, eo_end := Block (int n - 16),
                                eo_buffer_end := None\<rparr>, Block 0)
                      else (st1\<lparr>eo_buffer := slop @ drop 16 (eo_buffer st), eo_block := replicate n 0,
                                eo_end := Patch (int n), eo_buffer_end := Some (Block 0)\<rparr>, Patch 0))
              | _ \<Rightarrow> EpsCopyOutputStream_Error st))"

fun ref_ensure :: "nat \<Rightarrow> block_stream eps_out \<Rightarrow> ptr \<Rightarrow> (block_stream eps_out \<times> ptr) result" where
  "ref_ensure 0 st p = Inl OutOfBounds"
| "ref_ensure (Suc k) st p =
     (if eo_had_error st then Inr (st, Patch 0)
      else bind_result (ptr_diff p (eo_end st)) (\<lambda>overrun.
        let (st', q) = ref_next st; p' = ptr_add q overrun
        in bind_result (ptr_diff p' (eo_end st')) (\<lambda>d. if d < 0 then Inr (st', p') else ref_ensure k st' p')))"

text \<open>The rounds left: two for every block to come.\<close>

definition rounds :: "block_stream eps_out \<Rightarrow> nat" where
  "rounds st =
     (if eo_had_error st then 0
      else 1 + 2 * (case eo_stream st of Some (out, ns) \<Rightarrow> length ns | None \<Rightarrow> 0) +
        (case eo_end st of Block e \<Rightarrow> 1 | Patch e \<Rightarrow> 0))"

definition ref_space :: "block_stream eps_out \<Rightarrow> ptr \<Rightarrow> (block_stream eps_out \<times> ptr) result" where
  "ref_space st p =
     bind_result (ptr_diff p (eo_end st)) (\<lambda>d. if 0 \<le> d then ref_ensure (Suc (rounds st)) st p else Inr (st, p))"

fun ref_raw :: "bytes \<Rightarrow> block_stream eps_out \<Rightarrow> ptr \<Rightarrow> (block_stream eps_out \<times> ptr) result" where
  "ref_raw [] st p = Inr (st, p)"
| "ref_raw (b # bs) st p =
     bind_result (ref_space st p) (\<lambda>(st1, p1).
       bind_result (write_at st1 p1 [b]) (\<lambda>(st2, p2). ref_raw bs st2 p2))"

definition ref_trim :: "block_stream eps_out \<Rightarrow> ptr \<Rightarrow> (block_stream eps_out \<times> ptr) result" where
  "ref_trim st p =
     (if eo_had_error st then Inr (st, p)
      else Inr (st\<lparr>eo_stream := map_option (\<lambda>(out, ns). (out @ pending st p, ns)) (eo_stream st),
                   eo_end := Patch 0, eo_buffer_end := Some (Patch 0)\<rparr>, Patch 0))"

definition ref_stream_Next :: "block_stream \<Rightarrow> bytes option \<times> block_stream" where
  "ref_stream_Next s = (case s of (out, n # ns) \<Rightarrow> (Some (replicate n 0), (out, ns)) | (out, []) \<Rightarrow> (None, s))"

definition ref_eps :: "block_stream eps_lib" where
  "ref_eps =
     \<lparr>EnsureSpaceFallback = \<lambda>st p. ref_ensure (Suc (rounds st)) st p,
      WriteRawFallback = ref_raw,
      WriteAliasedRaw = ref_raw,
      StringMaybeAliasedOutline = \<lambda>num s. ref_raw (string_field num s),
      StringOutline = \<lambda>num s. ref_raw (string_field num s),
      UnknownFieldsToArray = ref_raw,
      FlushAndResetBuffer = ref_trim,
      TrimStream = ref_trim,
      StreamByteCount = \<lambda>st p. int (length (written fst st p)),
      stream_Next = ref_stream_Next,
      stream_ByteCount = \<lambda>s. int (length (fst s))\<rparr>"

section \<open>The laws\<close>

lemma ref_next_step:
  assumes f: "stream_fit st p" and d: "ptr_diff p (eo_end st) = Inr d" and "0 \<le> d" and e: "\<not> eo_had_error st"
    and n: "ref_next st = (st', q)"
  shows "stream_fit st' (ptr_add q d) \<and> stream_wrote fst st p [] st' (ptr_add q d) \<and> rounds st' < rounds st"
  using f
proof (cases rule: stream_cursor)
  case (block i)
  then have i: "int i = int (length (eo_block st)) - 16 + d" "d \<le> 16" "16 \<le> length (eo_block st)"
    using d assms(3) f by (auto simp: stream_fit_def)
  let ?e = "length (eo_block st) - 16"
  have e16: "int (length (eo_block st)) - 16 = int ?e" using i(3) by simp
  have st': "st' = st\<lparr>eo_buffer := drop ?e (eo_block st) @ drop 16 (eo_buffer st), eo_buffer_end := Some (Block (int ?e)), eo_end := Patch 16\<rparr>"
    and q: "q = Patch 0"
    using n e unfolding ref_next_def block(2) e16 by simp_all
  have ie: "i = ?e + nat d" using i assms(3) by linarith
  have "pending st p = take ?e (eo_block st) @ take (nat d) (drop ?e (eo_block st))"
    by (simp only: block(1) pending.simps nat_int ie take_add)
  moreover have "nat d + ?e - length (eo_block st) = 0" using i(2,3) by linarith
  ultimately have "written fst st' (Patch d) = written fst st p"
    by (simp add: written_def handed_def st')
  moreover have "stream_fit st' (Patch d)"
    using f e i(2,3) assms(3) by (auto simp: stream_fit_def st')
  moreover have "rounds st' < rounds st" using e block(2) by (simp add: rounds_def st')
  ultimately show ?thesis using e by (simp add: q stream_wrote_def)
next
  case (patch i e)
  have b: "length (eo_buffer st) = 32" using f by (simp add: stream_fit_def)
  have i: "int i = e + d" "d \<le> 16" "i = nat e + nat d" using d assms(3) patch by auto
  obtain out ns where s: "eo_stream st = Some (out, ns)" using f by (cases "eo_stream st") (auto simp: stream_fit_def)
  let ?slop = "take 16 (drop (nat e) (eo_buffer st))"
  have l: "length ?slop = 16" using patch b by simp
  have pe: "pending st p = pending st (Patch e) @ take (nat d) ?slop"
  proof -
    have "nat d \<le> 16" using i(2) by linarith
    then have "take (nat d) ?slop = take (nat d) (drop (nat e) (eo_buffer st))" by (simp add: min_def)
    then show ?thesis by (simp only: patch(1) pending.simps nat_int i(3) take_add append_assoc)
  qed
  show ?thesis
  proof (cases ns)
    case Nil
    with n e s patch have "st' = st\<lparr>eo_had_error := True, eo_end := Patch 16\<rparr>" "q = Patch 0"
      unfolding ref_next_def by (simp_all add: EpsCopyOutputStream_Error_def kSlopBytes_def Let_def)
    with f e i assms(3) show ?thesis by (auto simp: stream_fit_def stream_wrote_def rounds_def)
  next
    case (Cons m ms)
    show ?thesis
    proof (cases "16 < m")
      case True
      with Cons n e s patch have "st' = st\<lparr>eo_stream := Some (out @ pending st (Patch e), ms),
          eo_block := ?slop @ replicate (m - 16) 0, eo_end := Block (int m - 16), eo_buffer_end := None\<rparr>" "q = Block 0"
        unfolding ref_next_def by (simp_all add: Let_def)
      with True Cons f e i l pe s patch assms(3) show ?thesis
        by (auto simp: stream_fit_def stream_wrote_def written_def handed_def rounds_def)
    next
      case False
      with Cons n e s patch have "st' = st\<lparr>eo_stream := Some (out @ pending st (Patch e), ms),
          eo_buffer := ?slop @ drop 16 (eo_buffer st), eo_block := replicate m 0,
          eo_end := Patch (int m), eo_buffer_end := Some (Block 0)\<rparr>" "q = Patch 0"
        unfolding ref_next_def by (simp_all add: Let_def)
      with False Cons f e i l b pe s patch assms(3) show ?thesis
        by (auto simp: stream_fit_def stream_wrote_def written_def handed_def rounds_def)
    qed
  qed
qed

lemma stream_wrote_error: "eo_had_error st \<Longrightarrow> stream_wrote sent st p bs st p'"
  by (simp add: stream_wrote_def)

lemma ref_ensure_ok:
  "stream_fit st p \<Longrightarrow> ptr_diff p (eo_end st) = Inr d \<Longrightarrow> 0 \<le> d \<Longrightarrow> rounds st < k \<Longrightarrow>
     \<exists>st' p'. ref_ensure k st p = Inr (st', p') \<and> stream_fit st' p' \<and> stream_room st' p' 17 \<and> stream_wrote fst st p [] st' p'"
proof (induction k arbitrary: st p d)
  case 0
  then show ?case by simp
next
  case (Suc k)
  show ?case
  proof (cases "eo_had_error st")
    case True
    then have "eo_end st = Patch 16"
      by (rule_tac stream_cursor [OF Suc.prems(1)]) (use Suc.prems(1) in \<open>auto simp: stream_fit_def\<close>)
    with True Suc.prems(1) show ?thesis by (auto simp: stream_fit_def stream_room_def stream_wrote_error)
  next
    case False
    obtain st1 q where n: "ref_next st = (st1, q)" by fastforce
    let ?p1 = "ptr_add q d"
    from ref_next_step [OF Suc.prems(1-3) False n] Suc.prems(4) have
      1: "stream_fit st1 ?p1" "stream_wrote fst st p [] st1 ?p1" "rounds st1 < k" by auto
    from stream_diff [OF 1(1)] obtain d1 where
      d1: "ptr_diff (eo_end st1) ?p1 = Inr d1" "ptr_diff ?p1 (eo_end st1) = Inr (- d1)" by blast
    show ?thesis
    proof (cases "0 < d1")
      case True
      with False Suc.prems(2) n d1 1 show ?thesis by (auto simp: stream_room_def)
    next
      case pos: False
      then have "0 \<le> - d1" by simp
      from Suc.IH [OF 1(1) d1(2) this 1(3)] obtain st2 p2 where
        2: "ref_ensure k st1 ?p1 = Inr (st2, p2)" "stream_fit st2 p2" "stream_room st2 p2 17" "stream_wrote fst st1 ?p1 [] st2 p2"
        by blast
      from stream_wrote_trans [OF 1(2) 2(4)] 2 pos False Suc.prems(2) n d1 show ?thesis by auto
    qed
  qed
qed

lemma ref_space_ok:
  assumes "stream_fit st p"
  shows "\<exists>st' p'. ref_space st p = Inr (st', p') \<and> stream_fit st' p' \<and> stream_room st' p' 1 \<and> stream_wrote fst st p [] st' p'"
proof -
  from stream_diff [OF assms] obtain d where d: "ptr_diff (eo_end st) p = Inr d" "ptr_diff p (eo_end st) = Inr (- d)" by blast
  show ?thesis
  proof (cases "0 \<le> - d")
    case True
    from ref_ensure_ok [OF assms d(2) True, of "Suc (rounds st)"] obtain st' p' where
      "ref_ensure (Suc (rounds st)) st p = Inr (st', p')" "stream_fit st' p'" "stream_room st' p' 17" "stream_wrote fst st p [] st' p'"
      by blast
    with True d show ?thesis by (auto simp: ref_space_def stream_room_def simp del: ref_ensure.simps)
  next
    case False
    with assms d show ?thesis by (auto simp: ref_space_def stream_room_def stream_wrote_def)
  qed
qed

lemma ref_raw_ok:
  "stream_fit st p \<Longrightarrow>
     \<exists>st' p'. ref_raw bs st p = Inr (st', p') \<and> stream_fit st' p' \<and> stream_wrote fst st p bs st' p'"
proof (induction bs arbitrary: st p)
  case Nil
  then show ?case by (simp add: stream_wrote_def)
next
  case (Cons b bs)
  from ref_space_ok [OF Cons.prems] obtain st1 p1 where
    1: "ref_space st p = Inr (st1, p1)" "stream_fit st1 p1" "stream_room st1 p1 1" "stream_wrote fst st p [] st1 p1" by blast
  from stream_put [OF 1(2,3), of "[b]" fst] obtain st2 p2 where
    2: "write_at st1 p1 [b] = Inr (st2, p2)" "stream_fit st2 p2" "stream_wrote fst st1 p1 [b] st2 p2" by auto
  from Cons.IH [OF 2(2)] obtain st3 p3 where
    3: "ref_raw bs st2 p2 = Inr (st3, p3)" "stream_fit st3 p3" "stream_wrote fst st2 p2 bs st3 p3" by blast
  from stream_wrote_trans [OF stream_wrote_trans [OF 1(4) 2(3)] 3(3)] 1(1) 2(1) 3(1,2) show ?case by simp
qed

lemma ref_raw_appends: "stream_appends fst (ref_raw bs) bs"
  using ref_raw_ok by (auto simp: stream_appends_def)

lemma ref_trim_ok:
  assumes "stream_fit st p"
  shows "\<exists>st' p'. ref_trim st p = Inr (st', p') \<and> stream_fit st' p' \<and> stream_wrote fst st p [] st' p' \<and>
    (\<not> eo_had_error st' \<longrightarrow> pending st' p' = [])"
  using assms by (auto simp: ref_trim_def stream_fit_def stream_wrote_def written_def handed_def)

lemma ref_raw_array: "at_array st p (length bs) \<Longrightarrow> ref_raw bs st p = write_at st p bs"
proof (induction bs arbitrary: st p)
  case Nil
  then show ?case using array_put [of st p 0 "[]"] by (cases p) (auto simp: mem_write_def copy_into_def split: ptr.splits)
next
  case (Cons b bs)
  from array_room [OF Cons.prems] have s: "ref_space st p = Inr (st, p)" by (auto simp: ref_space_def)
  from array_put [OF Cons.prems, of "[b]"] obtain st1 p1 where
    1: "write_at st p [b] = Inr (st1, p1)" "at_array st1 p1 (length bs)" by auto
  from bind_write_at [of st p "[b]" bs] Cons.prems show ?case
    by (simp add: s 1(1) Cons.IH [OF 1(2)])
qed

lemma ref_eps_array: "eps_array_ok ref_eps"
  by (simp add: eps_array_ok_def ref_eps_def ref_raw_array)

lemma ref_eps_stream: "eps_stream_ok ref_eps fst"
  unfolding eps_stream_ok_def
proof (intro conjI allI impI)
  show "\<exists>st' p'. EnsureSpaceFallback ref_eps st p = Inr (st', p') \<and> stream_fit st' p' \<and> stream_room st' p' 17 \<and>
      stream_wrote fst st p [] st' p'"
    if "stream_fit st p" "ptr_diff p (eo_end st) = Inr d" "0 \<le> d" for st p d
    using ref_ensure_ok [OF that, of "Suc (rounds st)"] by (simp add: ref_eps_def del: ref_ensure.simps)
  show "stream_appends fst (WriteRawFallback ref_eps bs) bs" "stream_appends fst (WriteAliasedRaw ref_eps bs) bs"
    "stream_appends fst (UnknownFieldsToArray ref_eps bs) bs" for bs
    by (simp_all add: ref_eps_def ref_raw_appends)
  show "stream_appends fst (StringMaybeAliasedOutline ref_eps num s) (string_field num s)"
    "stream_appends fst (StringOutline ref_eps num s) (string_field num s)" for num s
    by (simp_all add: ref_eps_def ref_raw_appends)
  show "\<exists>st' p'. TrimStream ref_eps st p = Inr (st', p') \<and> stream_fit st' p' \<and> stream_wrote fst st p [] st' p' \<and>
      (\<not> eo_had_error st' \<longrightarrow> pending st' p' = [])" if "stream_fit st p" for st p
    using ref_trim_ok [OF that] by (simp add: ref_eps_def)
  show "fst (snd (stream_Next ref_eps s)) = fst s" for s
    by (cases s rule: prod.exhaust, cases "snd s") (auto simp: ref_eps_def ref_stream_Next_def split: list.splits)
qed

end
