(* ===== verification/Eps_Messages.thy ===== *)
theory Eps_Messages
  imports Eps_Reference Messages_Item
begin

unbundle bit_operations_syntax

text \<open>
  The generated \<open>_InternalSerialize\<close> of the envelope and of an item as it runs on an output stream, and
  the methods of \<open>CodedOutputStream\<close>. What they put into memory is what the list-level functions of
  \<^verbatim>\<open>Message_Header\<close> and \<^verbatim>\<open>Messages_Item\<close> return: in an array of the size that \<open>ByteSizeLong\<close> announces,
  and on a stream of blocks of any lengths.
\<close>

section \<open>The generated serialisers\<close>

definition skip :: "'s writer" where
  "skip st p = Inr (st, p)"

definition messageHeader_InternalSerialize_at :: "'s eps_lib \<Rightarrow> messageHeader \<Rightarrow> 's writer" where
  "messageHeader_InternalSerialize_at L m = run_writers
     [(if has_userid m then put_field L (WriteUInt32ToArray 1 (hdr_userid m)) else skip),
      (if has_type m then WriteStringMaybeAliased_at L 2 (bytes_of_string (hdr_type m)) else skip),
      (if has_arr m then WriteBytesMaybeAliased_at L 3 (hdr_arr m) else skip),
      (if has_arrsize m then put_field L (WriteUInt32ToArray 4 (hdr_arrsize m)) else skip),
      (if hdr_unknown m \<noteq> [] then UnknownFieldsToArray L (hdr_unknown m) else skip)]"

definition itemInfo_InternalSerialize_at :: "'s eps_lib \<Rightarrow> itemInfo \<Rightarrow> 's writer" where
  "itemInfo_InternalSerialize_at L m = run_writers
     [(if itemInfo_itemid m \<noteq> 0 then put_field L (WriteInt32ToArray 1 (itemInfo_itemid m)) else skip),
      (if itemInfo_itemname m \<noteq> [] then WriteStringMaybeAliased_at L 2 (bytes_of_string (itemInfo_itemname m)) else skip),
      (if itemInfo_itemdesc m \<noteq> [] then WriteStringMaybeAliased_at L 3 (bytes_of_string (itemInfo_itemdesc m)) else skip),
      (if itemInfo_count m \<noteq> 0 then put_field L (WriteUInt32ToArray 4 (itemInfo_count m)) else skip),
      (if itemInfo_unknown m \<noteq> [] then UnknownFieldsToArray L (itemInfo_unknown m) else skip)]"

text \<open>The library's long strings and the inline short ones are the same field.\<close>

lemma string_field_pb:
  assumes "pb_lib_ok Lp" and "length s < 2 ^ 31" and "unat (MakeTag num 2) < 128"
  shows "WriteStringMaybeAliased Lp num s = string_field num s"
  using WriteStringMaybeAliased_eq [OF assms] assms(3)
  by (simp add: string_field_def WriteLengthDelim_def UnsafeVarint_small length_prefixed_def)

lemma scalar_lengths:
  "length (WriteUInt32ToArray num v) \<le> 16" "length (WriteInt32ToArray num v) \<le> 16"
  "WriteUInt32ToArray num v \<noteq> []" "WriteInt32ToArray num v \<noteq> []"
proof -
  have t: "length (WriteTagToArray num 0) \<le> 5"
    by (simp add: WriteTagToArray_def WriteVarint32ToArray_def eps_TagSize_exact) (simp add: eps_TagSize_def)
  show "length (WriteUInt32ToArray num v) \<le> 16" "length (WriteInt32ToArray num v) \<le> 16"
    using t length_UnsafeVarint_le [of "ucast v"] length_UnsafeVarint_le [of "scast v"]
    by (simp_all add: WriteUInt32ToArray_def WriteInt32ToArray_def WriteVarint32ToArray_def
        WriteVarint32SignExtendedToArray_def WriteVarint64ToArray_def)
  show "WriteUInt32ToArray num v \<noteq> []" "WriteInt32ToArray num v \<noteq> []"
    by (simp_all add: WriteUInt32ToArray_def WriteInt32ToArray_def WriteTagToArray_def WriteVarint32ToArray_def)
qed

context out_mode
begin

lemma emits_skip: "emits ok wrote skip []"
  using emits_nothing by (simp add: skip_def [abs_def])

lemma optional: "(c \<Longrightarrow> emits ok wrote w bs) \<Longrightarrow> emits ok wrote (if c then w else skip) (if c then bs else [])"
  using emits_skip by simp

lemma unknown_fields: "emits ok wrote (if u \<noteq> [] then UnknownFieldsToArray L u else skip) u"
  using unknown [of u] emits_skip by simp

lemma pb_string:
  assumes "pb_lib_ok Lp" and "length s < 2 ^ 31" and "unat (MakeTag num 2) < 128"
  shows "emits ok wrote (WriteStringMaybeAliased_at L num s) (WriteStringMaybeAliased Lp num s)"
    and "emits ok wrote (WriteBytesMaybeAliased_at L num s) (WriteStringMaybeAliased Lp num s)"
  using string [OF assms(2)] string_field_pb [OF assms]
  by (simp_all add: WriteBytesMaybeAliased_at_def [abs_def])

lemma scalar_field: "emits ok wrote (put_field L (WriteUInt32ToArray num v)) (WriteUInt32ToArray num v)"
  "emits ok wrote (put_field L (WriteInt32ToArray num v)) (WriteInt32ToArray num v)"
  by (simp_all add: field scalar_lengths)

lemma messageHeader_emitted:
  assumes "pb_lib_ok Lp" and "length (hdr_type m) < 2 ^ 31" and "length (hdr_arr m) < 2 ^ 31"
  shows "emits ok wrote (messageHeader_InternalSerialize_at L m) (messageHeader_InternalSerialize Lp m)"
proof -
  let ?bss = "[if has_userid m then WriteUInt32ToArray 1 (hdr_userid m) else [],
      if has_type m then WriteStringMaybeAliased Lp 2 (bytes_of_string (hdr_type m)) else [],
      if has_arr m then WriteStringMaybeAliased Lp 3 (hdr_arr m) else [],
      if has_arrsize m then WriteUInt32ToArray 4 (hdr_arrsize m) else [], hdr_unknown m]"
  have "emits ok wrote (messageHeader_InternalSerialize_at L m) (concat ?bss)"
    unfolding messageHeader_InternalSerialize_at_def
    by (rule writers) (intro list_all2_Cons [THEN iffD2] conjI optional scalar_field pb_string assms unknown_fields
        list.rel_intros; use assms in \<open>simp add: MakeTag_table\<close>)
  moreover have "concat ?bss = messageHeader_InternalSerialize Lp m"
    by (simp only: messageHeader_InternalSerialize_def concat.simps append_Nil2)
  ultimately show ?thesis by (simp only:)
qed

lemma itemInfo_emitted:
  assumes "pb_lib_ok Lp" and "length (itemInfo_itemname m) < 2 ^ 31" and "length (itemInfo_itemdesc m) < 2 ^ 31"
  shows "emits ok wrote (itemInfo_InternalSerialize_at L m) (itemInfo_InternalSerialize Lp m)"
proof -
  let ?bss = "[if itemInfo_itemid m \<noteq> 0 then WriteInt32ToArray 1 (itemInfo_itemid m) else [],
      if itemInfo_itemname m \<noteq> [] then WriteStringMaybeAliased Lp 2 (bytes_of_string (itemInfo_itemname m)) else [],
      if itemInfo_itemdesc m \<noteq> [] then WriteStringMaybeAliased Lp 3 (bytes_of_string (itemInfo_itemdesc m)) else [],
      if itemInfo_count m \<noteq> 0 then WriteUInt32ToArray 4 (itemInfo_count m) else [], itemInfo_unknown m]"
  have "emits ok wrote (itemInfo_InternalSerialize_at L m) (concat ?bss)"
    unfolding itemInfo_InternalSerialize_at_def
    by (rule writers) (intro list_all2_Cons [THEN iffD2] conjI optional scalar_field pb_string assms unknown_fields
        list.rel_intros; use assms in \<open>simp add: MakeTag_table\<close>)
  moreover have "concat ?bss = itemInfo_InternalSerialize Lp m"
    by (simp only: itemInfo_InternalSerialize_def concat.simps append_Nil2)
  ultimately show ?thesis by (simp only:)
qed

end


section \<open>In an array\<close>

lemma in_array:
  assumes "emits (array_ok L) array_wrote w bs" and "eps_array_ok L" and "data + length bs \<le> length mem"
  shows "\<exists>st'. w (EpsCopyOutputStream_array buffer mem (int data) (int (length bs)) det) (Block (int data)) =
      Inr (st', Block (int (data + length bs))) \<and>
    eo_block st' = take data mem @ bs @ drop (data + length bs) mem"
proof -
  let ?st = "EpsCopyOutputStream_array buffer mem (int data) (int (length bs)) det :: 'a eps_out"
  have "array_ok L ?st (Block (int data)) (length bs)"
    using assms(2,3) by (simp add: array_ok_def EpsCopyOutputStream_array_def)
  from emitsD [OF assms(1) this] obtain st' p' where
    "w ?st (Block (int data)) = Inr (st', p')" "array_wrote ?st (Block (int data)) bs st' p'" by auto
  then show ?thesis by (auto simp: array_wrote_def EpsCopyOutputStream_array_def)
qed

text \<open>C16: The generated _InternalSerialize, run on an array stream over exactly the number of bytes that
  ByteSizeLong announces, stays inside those bytes, ends at their end and leaves in them what the list-level
  serialiser returns; the memory before and after them is unchanged. This is how Pack serialises the envelope
  and the items, into a buffer that it allocated by that size.\<close>

theorem serialized_in_place:
  assumes "pb_lib_ok Lp" and "eps_array_ok L"
    and "messageHeader_wf Lp h" and "data + messageHeader_ByteSizeLong h \<le> length mem"
    and "itemInfo_wf Lp m" and "data' + itemInfo_ByteSizeLong m \<le> length mem'"
  shows "(\<exists>st. messageHeader_InternalSerialize_at L h
        (EpsCopyOutputStream_array buffer mem (int data) (int (messageHeader_ByteSizeLong h)) det) (Block (int data)) =
          Inr (st, Block (int (data + messageHeader_ByteSizeLong h))) \<and>
        eo_block st = take data mem @ messageHeader_InternalSerialize Lp h @
          drop (data + messageHeader_ByteSizeLong h) mem) \<and>
    (\<exists>st. itemInfo_InternalSerialize_at L m
        (EpsCopyOutputStream_array buffer mem' (int data') (int (itemInfo_ByteSizeLong m)) det) (Block (int data')) =
          Inr (st, Block (int (data' + itemInfo_ByteSizeLong m))) \<and>
        eo_block st = take data' mem' @ itemInfo_InternalSerialize Lp m @
          drop (data' + itemInfo_ByteSizeLong m) mem')"
proof -
  have h: "length (hdr_type h) < 2 ^ 31" "length (hdr_arr h) < 2 ^ 31" using wf_lengths [OF assms(3)] by simp_all
  have m: "length (itemInfo_itemname m) < 2 ^ 31" "length (itemInfo_itemdesc m) < 2 ^ 31"
    using itemInfo_itemname_length [OF assms(5)] itemInfo_itemdesc_length [OF assms(5)] by simp_all
  note sizes = messageHeader_size [OF assms(1,3)] itemInfo_size [OF assms(1,5)]
  show ?thesis
    using in_array [OF to_array.messageHeader_emitted [OF assms(1) h] assms(2), of data mem buffer det]
      in_array [OF to_array.itemInfo_emitted [OF assms(1) m] assms(2), of data' mem' buffer det] assms(4,6)
    unfolding sizes by blast
qed

section \<open>On a stream of blocks\<close>

text \<open>A client of \<open>CodedOutputStream\<close>: a sequence of calls of its writing methods.\<close>

datatype coded_op =
    PutRaw bytes
  | PutRawMaybeAliased bytes
  | PutString bytes
  | PutLittleEndian32 u32
  | PutLittleEndian64 u64
  | PutVarint32 u32
  | PutVarint64 u64
  | PutVarint32SignExtended int32
  | PutTag u32

fun coded_step :: "'s eps_lib \<Rightarrow> coded_op \<Rightarrow> 's coded_out \<Rightarrow> 's coded_out result" where
  "coded_step L (PutRaw bs) = CodedOutputStream_WriteRaw L bs"
| "coded_step L (PutRawMaybeAliased bs) = CodedOutputStream_WriteRawMaybeAliased L bs"
| "coded_step L (PutString bs) = CodedOutputStream_WriteString L bs"
| "coded_step L (PutLittleEndian32 v) = CodedOutputStream_WriteLittleEndian32 L v"
| "coded_step L (PutLittleEndian64 v) = CodedOutputStream_WriteLittleEndian64 L v"
| "coded_step L (PutVarint32 v) = CodedOutputStream_WriteVarint32 L v"
| "coded_step L (PutVarint64 v) = CodedOutputStream_WriteVarint64 L v"
| "coded_step L (PutVarint32SignExtended v) = CodedOutputStream_WriteVarint32SignExtended L v"
| "coded_step L (PutTag v) = CodedOutputStream_WriteTag L v"

text \<open>
  The bytes that a call should deliver. \<open>WriteString\<close> sees the length of its string as an \<open>int\<close>; a string of \<open>2\<^sup>3\<^sup>1\<close> bytes or
  more does not fit.
\<close>

fun coded_bytes :: "coded_op \<Rightarrow> bytes" where
  "coded_bytes (PutRaw bs) = bs"
| "coded_bytes (PutRawMaybeAliased bs) = bs"
| "coded_bytes (PutString bs) = take (length bs mod 2 ^ 32) bs"
| "coded_bytes (PutLittleEndian32 v) = WriteLittleEndian32ToArray v"
| "coded_bytes (PutLittleEndian64 v) = WriteLittleEndian64ToArray v"
| "coded_bytes (PutVarint32 v) = WriteVarint32ToArray v"
| "coded_bytes (PutVarint64 v) = WriteVarint64ToArray v"
| "coded_bytes (PutVarint32SignExtended v) = WriteVarint32SignExtendedToArray v"
| "coded_bytes (PutTag v) = WriteVarint32ToArray v"

fun coded_fits :: "coded_op \<Rightarrow> bool" where
  "coded_fits (PutString bs) \<longleftrightarrow> length bs mod 2 ^ 32 < 2 ^ 31"
| "coded_fits _ \<longleftrightarrow> True"

fun coded_run :: "'s eps_lib \<Rightarrow> coded_op list \<Rightarrow> 's coded_out \<Rightarrow> 's coded_out result" where
  "coded_run L [] c = Inr c"
| "coded_run L (op # ops) c = bind_result (coded_step L op c) (coded_run L ops)"

lemma coded_run_append: "coded_run L (xs @ ys) c = bind_result (coded_run L xs c) (coded_run L ys)"
proof (induction xs arbitrary: c)
  case (Cons x xs)
  then show ?case by (cases "coded_step L x c") simp_all
qed simp

lemma coded_step_misfit:
  assumes "\<not> coded_fits op"
  shows "\<exists>e. coded_step L op c = Inl e \<and> e \<in> {NegativeLength, OutOfBounds}"
proof -
  obtain bs where op: "op = PutString bs" using assms by (cases op) auto
  have "ptr_diff p q = Inl OutOfBounds \<or> (\<exists>d. ptr_diff p q = Inr d)" for p q by (cases p; cases q) auto
  from this [of "eo_end (co_impl c)" "co_cur c"] assms show ?thesis
    unfolding op by (auto simp: CodedOutputStream_WriteString_def co_run_def with_int_size_eq)
qed

context out_mode
begin

lemma short_fields:
  "emits ok wrote (put_field L (WriteLittleEndian32ToArray w)) (WriteLittleEndian32ToArray w)"
  "emits ok wrote (put_field L (WriteLittleEndian64ToArray v)) (WriteLittleEndian64ToArray v)"
  "emits ok wrote (put_field L (WriteVarint32ToArray w)) (WriteVarint32ToArray w)"
  "emits ok wrote (put_field L (WriteVarint64ToArray v)) (WriteVarint64ToArray v)"
  using length_UnsafeVarint_le [of "ucast w"] length_UnsafeVarint_le [of v]
  by (auto intro!: field simp: WriteLittleEndian32ToArray_def WriteLittleEndian64ToArray_def WriteVarint32ToArray_def
      WriteVarint64ToArray_def)

lemma coded_step_writer: "coded_fits op \<Longrightarrow> \<exists>w. coded_step L op = co_run w \<and> emits ok wrote w (coded_bytes op)"
  by (cases op) (auto simp: CodedOutputStream_WriteRaw_def CodedOutputStream_WriteRawMaybeAliased_def
      CodedOutputStream_WriteString_def with_int_size_eq CodedOutputStream_WriteLittleEndian32_def CodedOutputStream_WriteLittleEndian64_def
      CodedOutputStream_WriteVarint32_def CodedOutputStream_WriteVarint64_def CodedOutputStream_WriteVarint32SignExtended_def
      CodedOutputStream_WriteTag_def WriteVarint32SignExtendedToArray_def short_fields raw raw_maybe_aliased)

lemma coded_run_wrote:
  "\<forall>op \<in> set ops. coded_fits op \<Longrightarrow> ok (co_impl c) (co_cur c) (length (concat (map coded_bytes ops))) \<Longrightarrow>
     \<exists>c'. coded_run L ops c = Inr c' \<and> ok (co_impl c') (co_cur c') 0 \<and>
       wrote (co_impl c) (co_cur c) (concat (map coded_bytes ops)) (co_impl c') (co_cur c')"
proof (induction ops arbitrary: c)
  case Nil
  then show ?case using wrote_refl by auto
next
  case (Cons op ops)
  have "coded_fits op" using Cons.prems(1) by simp
  from coded_step_writer [OF this] obtain w where w: "coded_step L op = co_run w" "emits ok wrote w (coded_bytes op)" by blast
  from emitsD [OF w(2) Cons.prems(2)] obtain st' p' where
    1: "w (co_impl c) (co_cur c) = Inr (st', p')" "ok st' p' (length (concat (map coded_bytes ops)))"
      "wrote (co_impl c) (co_cur c) (coded_bytes op) st' p'" by auto
  let ?c = "c\<lparr>co_impl := st', co_cur := p'\<rparr>"
  from Cons.IH [of ?c] Cons.prems(1) 1(2) obtain c' where
    2: "coded_run L ops ?c = Inr c'" "ok (co_impl c') (co_cur c') 0"
      "wrote st' p' (concat (map coded_bytes ops)) (co_impl c') (co_cur c')" by auto
  have "coded_run L (op # ops) c = Inr c'" using 1(1) 2(1) by (simp add: w(1) co_run_def)
  with 2(2) wrote_trans [OF 1(3) 2(3)] show ?case by auto
qed

end

lemma CodedOutputStream_new_fit:
  assumes "eps_stream_ok L sent" and "length buffer = 32"
  shows "stream_fit (co_impl (CodedOutputStream_new L buffer s det)) (co_cur (CodedOutputStream_new L buffer s det)) \<and>
    written sent (co_impl (CodedOutputStream_new L buffer s det)) (co_cur (CodedOutputStream_new L buffer s det)) = sent s"
proof -
  have "sent (snd (stream_Next L s)) = sent s" using assms(1) unfolding eps_stream_ok_def by blast
  with assms(2) show ?thesis
    by (cases "stream_Next L s")
      (auto simp: CodedOutputStream_new_def EpsCopyOutputStream_stream_def InitEagerly_def SetInitialBuffer_def Let_def
        kSlopBytes_def stream_fit_def written_def handed_def split: option.splits if_splits)
qed

text \<open>What a run without misfits delivers.\<close>

lemma coded_run_delivers:
  assumes "eps_stream_ok L sent" and "length buffer = 32" and "\<forall>op \<in> set ops. coded_fits op"
  shows "\<exists>c c'. coded_run L ops (CodedOutputStream_new L buffer s det) = Inr c \<and>
    CodedOutputStream_Trim L c = Inr c' \<and>
    (eo_had_error (co_impl c') \<or>
      map_option sent (eo_stream (co_impl c')) = Some (sent s @ concat (map coded_bytes ops)))"
proof -
  let ?c0 = "CodedOutputStream_new L buffer s det" and ?bs = "concat (map coded_bytes ops)"
  note new = CodedOutputStream_new_fit [OF assms(1,2), of s det]
  then have "stream_ok L sent (co_impl ?c0) (co_cur ?c0) (length ?bs)" using assms(1) by (simp add: stream_ok_def)
  from to_stream.coded_run_wrote [OF assms(3) this] obtain c where
    1: "coded_run L ops ?c0 = Inr c" "stream_fit (co_impl c) (co_cur c)"
      "stream_wrote sent (co_impl ?c0) (co_cur ?c0) ?bs (co_impl c) (co_cur c)" by (auto simp: stream_ok_def)
  have trim: "\<exists>st' p'. TrimStream L (co_impl c) (co_cur c) = Inr (st', p') \<and> stream_fit st' p' \<and>
      stream_wrote sent (co_impl c) (co_cur c) [] st' p' \<and> (\<not> eo_had_error st' \<longrightarrow> pending st' p' = [])"
    using assms(1) 1(2) unfolding eps_stream_ok_def by blast
  then obtain st' p' where
    2: "TrimStream L (co_impl c) (co_cur c) = Inr (st', p')" "stream_fit st' p'"
      "stream_wrote sent (co_impl c) (co_cur c) [] st' p'" "\<not> eo_had_error st' \<longrightarrow> pending st' p' = []" by blast
  from stream_wrote_trans [OF 1(3) 2(3)] new 2(2,4) have
    "eo_had_error st' \<or> map_option sent (eo_stream st') = Some (sent s @ ?bs)"
    by (auto simp: stream_wrote_def written_def handed_def stream_fit_def)
  with 1(1) 2(1) show ?thesis by (auto simp: CodedOutputStream_Trim_def co_run_def)
qed

text \<open>C17: A CodedOutputStream over a stream of blocks of any lengths. When the length of every string fits the \<open>int\<close> that
  \<open>WriteString\<close> makes of it, no call of any sequence of writes faults; after Trim, unless the stream reported an error,
  the underlying stream has received exactly the bytes of the writes, in order, wherever the ends of the blocks fall
  (of a string of \<open>2\<^sup>3\<^sup>2\<close> bytes or more, what its wrapped length leaves). A string whose length becomes a negative \<open>int\<close>
  ends the sequence in a fault.\<close>

theorem coded_stream_output:
  assumes "eps_stream_ok L sent" and "length buffer = 32"
  shows "if \<forall>op \<in> set ops. coded_fits op
    then \<exists>c c'. coded_run L ops (CodedOutputStream_new L buffer s det) = Inr c \<and>
      CodedOutputStream_Trim L c = Inr c' \<and>
      (eo_had_error (co_impl c') \<or>
        map_option sent (eo_stream (co_impl c')) = Some (sent s @ concat (map coded_bytes ops)))
    else \<exists>e. coded_run L ops (CodedOutputStream_new L buffer s det) = Inl e \<and> e \<in> {NegativeLength, OutOfBounds}"
proof (cases "\<forall>op \<in> set ops. coded_fits op")
  case True
  show ?thesis unfolding if_P [OF True] by (rule coded_run_delivers [OF assms True])
next
  case False
  then obtain pre op post where ops: "ops = pre @ op # post" "\<not> coded_fits op" "\<forall>x \<in> set pre. coded_fits x"
    using split_list_first_prop [of ops "\<lambda>x. \<not> coded_fits x"] by blast
  from coded_run_delivers [OF assms ops(3), of s det] obtain c where
    c: "coded_run L pre (CodedOutputStream_new L buffer s det) = Inr c" by blast
  from coded_step_misfit [OF ops(2), of L c] c have
    "\<exists>e. coded_run L ops (CodedOutputStream_new L buffer s det) = Inl e \<and> e \<in> {NegativeLength, OutOfBounds}"
    unfolding ops(1) by (auto simp: coded_run_append)
  then show ?thesis unfolding if_not_P [OF False] .
qed

section \<open>Witnesses\<close>

definition witem :: itemInfo where
  "witem = \<lparr>itemInfo_itemid = 7, itemInfo_itemname = ''sword'', itemInfo_itemdesc = [], itemInfo_count = 300, itemInfo_unknown = []\<rparr>"

theorem serialized_in_place_witness:
  "\<exists>st. itemInfo_InternalSerialize_at ref_eps witem
      (EpsCopyOutputStream_array [] (replicate 20 0) 4 (int (itemInfo_ByteSizeLong witem)) False) (Block 4) =
        Inr (st, Block (int (4 + itemInfo_ByteSizeLong witem))) \<and>
      eo_block st = take 4 (replicate 20 0) @ itemInfo_InternalSerialize ref_lib witem @
        drop (4 + itemInfo_ByteSizeLong witem) (replicate 20 0)"
proof -
  have z: "itemInfo_ByteSizeLong witem = 12" and n: "messageHeader_ByteSizeLong whdr = 27" by code_simp+
  have "itemInfo_unknown witem = [] \<and> VerifyUTF8 ref_lib (bytes_of_string (itemInfo_itemname witem)) \<and>
      VerifyUTF8 ref_lib (bytes_of_string (itemInfo_itemdesc witem))" by code_simp
  then have w: "itemInfo_wf ref_lib witem" by (simp add: itemInfo_wf_def z)
  have h: "0 + messageHeader_ByteSizeLong whdr \<le> length (replicate 27 (0 :: byte))" by (simp add: n)
  have l: "4 + itemInfo_ByteSizeLong witem \<le> length (replicate 20 (0 :: byte))" by (simp add: z)
  show ?thesis
    using serialized_in_place [OF ref_lib_ok ref_eps_array whdr_wf h w l, of "[]" False, THEN conjunct2]
    by (simp only: of_nat_numeral)
qed

definition wcoded :: "coded_op list" where
  "wcoded = [PutTag 8, PutVarint32 300, PutString [1, 2, 3, 4, 5], PutLittleEndian64 9]"

definition wcoded_new :: "block_stream coded_out" where
  "wcoded_new = CodedOutputStream_new ref_eps (replicate 32 0) ([], [3, 20]) False"

lemma wcoded_no_error:
  "bind_result (bind_result (coded_run ref_eps wcoded wcoded_new) (CodedOutputStream_Trim ref_eps))
     (\<lambda>c. Inr (eo_had_error (co_impl c))) = Inr False"
  by code_simp

theorem coded_stream_output_witness:
  "(\<exists>c c'. coded_run ref_eps wcoded wcoded_new = Inr c \<and> CodedOutputStream_Trim ref_eps c = Inr c' \<and>
     map_option fst (eo_stream (co_impl c')) = Some (concat (map coded_bytes wcoded))) \<and>
   (\<exists>e. coded_run ref_eps [PutTag 8, PutString (replicate (2 ^ 31) 0)] wcoded_new = Inl e \<and> e \<in> {NegativeLength, OutOfBounds})"
proof -
  note out = coded_stream_output [OF ref_eps_stream, of "replicate 32 0" _ "([], [3, 20])" False]
  have "\<forall>op \<in> set wcoded. coded_fits op" by (simp add: wcoded_def)
  moreover have "\<not> (\<forall>op \<in> set [PutTag 8, PutString (replicate (2 ^ 31) 0)]. coded_fits op)" by simp
  ultimately show ?thesis
    using out [of wcoded] out [of "[PutTag 8, PutString (replicate (2 ^ 31) 0)]"] wcoded_no_error
    by (auto simp: wcoded_new_def)
qed

end
