(* ===== verification/Eps_Input.thy ===== *)
theory Eps_Input
  imports Eps_Output Message_Fields
begin

unbundle bit_operations_syntax

text \<open>
  The input stream of \<^verbatim>\<open>parse_context.h\<close>: \<open>EpsCopyInputStream\<close>, its limits, its copies across the end of
  a buffer and the readers of packed fields, and \<open>ParseContext\<close> with the recursion depth. As in
  \<^verbatim>\<open>Eps_Output\<close> a read has a position in memory and a position outside is a fault; the readers of
  \<^verbatim>\<open>Wire_Format\<close> and \<^verbatim>\<open>Message_Fields\<close> work on the list of the bytes that are left.
\<close>

section \<open>State\<close>

text \<open>
  \<open>ei_mem\<close> is the memory into which \<open>ptr\<close> and \<open>buffer_end_\<close> point: the flat input, a chunk of the stream
  or the stream's own \<open>buffer_\<close>; positions are offsets into it. It has 16 readable bytes behind
  \<open>buffer_end_\<close>, the slop. Of \<open>next_chunk_\<close> only matters whether it is null and whether it is \<open>buffer_\<close>.
\<close>

datatype next_chunk = Own_buffer | Stream_chunk

datatype aliasing = NoAliasing | OnPatch | NoDelta | Delta

record 's eps_in =
  ei_mem :: bytes
  ei_limit_end :: int
  ei_buffer_end :: int
  ei_next_chunk :: "next_chunk option"
  ei_size :: int
  ei_limit :: int
  ei_stream :: "'s option"
  ei_aliasing :: aliasing
  ei_last_tag_minus_1 :: u32
  ei_overall_limit :: int

text \<open>\<open>memcpy\<close> from the stream's memory.\<close>

definition mem_read :: "bytes \<Rightarrow> int \<Rightarrow> int \<Rightarrow> bytes result" where
  "mem_read mem i n =
     (if 0 \<le> i \<and> 0 \<le> n \<and> i + n \<le> int (length mem) then Inr (take (nat n) (drop (nat i) mem)) else Inl OutOfBounds)"

text \<open>
  The routines of the \<^verbatim>\<open>.cc\<close> file and the underlying stream. A pointer that comes back null is \<open>None\<close>.
\<close>

record 's in_lib =
  DoneFallback :: "int \<Rightarrow> int \<Rightarrow> 's eps_in \<Rightarrow> (int option \<times> bool) \<times> 's eps_in"
  NextChunk :: "'s eps_in \<Rightarrow> int option \<times> 's eps_in"
  SkipFallback :: "int \<Rightarrow> int \<Rightarrow> 's eps_in \<Rightarrow> int option \<times> 's eps_in"
  InReadStringFallback :: "int \<Rightarrow> int \<Rightarrow> 's eps_in \<Rightarrow> (int option \<times> bytes) \<times> 's eps_in"
  AppendStringFallback :: "int \<Rightarrow> int \<Rightarrow> bytes \<Rightarrow> 's eps_in \<Rightarrow> (int option \<times> bytes) \<times> 's eps_in"
  StringParser_at :: "int \<Rightarrow> 's eps_in \<Rightarrow> (int option \<times> bytes) \<times> 's eps_in"
  UnknownFieldParse_at :: "u32 \<Rightarrow> int \<Rightarrow> 's eps_in \<Rightarrow> (int option \<times> bytes) \<times> 's eps_in"
  InitFrom_zcis :: "'s \<Rightarrow> 's eps_in \<Rightarrow> int \<times> 's eps_in"
  zcis_Next :: "'s \<Rightarrow> bytes option \<times> 's"
  zcis_BackUp :: "int \<Rightarrow> 's \<Rightarrow> 's"

section \<open>EpsCopyInputStream\<close>

text \<open>The member initialisers; what they leave unset is given by the constructor that calls \<open>InitFrom\<close>.\<close>

definition EpsCopyInputStream_new :: "bool \<Rightarrow> bytes \<Rightarrow> 's eps_in" where
  "EpsCopyInputStream_new enable_aliasing buffer =
     \<lparr>ei_mem = buffer, ei_limit_end = 0, ei_buffer_end = 0, ei_next_chunk = None, ei_size = 0, ei_limit = 0,
      ei_stream = None, ei_aliasing = (if enable_aliasing then OnPatch else NoAliasing),
      ei_last_tag_minus_1 = 0, ei_overall_limit = int32_max\<rparr>"

text \<open>Long flat input is read where it lies, short input is copied to the front of \<open>buffer_\<close>.\<close>

definition InitFrom_flat :: "bytes \<Rightarrow> 's eps_in \<Rightarrow> int \<times> 's eps_in" where
  "InitFrom_flat flat st =
     (let n = int (length flat) in
      if kSlopBytes < n
      then (0, st\<lparr>ei_overall_limit := 0, ei_limit := kSlopBytes, ei_mem := flat, ei_buffer_end := n - kSlopBytes,
                  ei_limit_end := n - kSlopBytes, ei_next_chunk := Some Own_buffer,
                  ei_aliasing := (if ei_aliasing st = OnPatch then NoDelta else ei_aliasing st)\<rparr>)
      else (0, st\<lparr>ei_overall_limit := 0, ei_mem := flat @ drop (length flat) (ei_mem st), ei_limit := 0,
                  ei_buffer_end := n, ei_limit_end := n, ei_next_chunk := None,
                  ei_aliasing := (if ei_aliasing st = OnPatch then Delta else ei_aliasing st)\<rparr>))"

definition InitFrom_limit :: "'s in_lib \<Rightarrow> 's \<Rightarrow> int \<Rightarrow> 's eps_in \<Rightarrow> (int \<times> 's eps_in) result" where
  "InitFrom_limit L zcis limit st =
     (if limit = -1 then Inr (InitFrom_zcis L zcis st)
      else (let (res, st1) = InitFrom_zcis L zcis (st\<lparr>ei_overall_limit := limit\<rparr>)
            in bind_result (sub_int32 limit (ei_buffer_end st1 - res)) (\<lambda>l.
              Inr (res, st1\<lparr>ei_limit := l, ei_limit_end := ei_buffer_end st1 + min 0 l\<rparr>))))"

definition StreamNext :: "'s in_lib \<Rightarrow> 's eps_in \<Rightarrow> (bytes option \<times> 's eps_in) result" where
  "StreamNext L st =
     (case ei_stream st of
        None \<Rightarrow> Inl NullDeref
      | Some s \<Rightarrow>
          (case zcis_Next L s of
             (Some data, s') \<Rightarrow>
               bind_result (sub_int32 (ei_overall_limit st) (int (length data))) (\<lambda>l.
                 Inr (Some data, st\<lparr>ei_stream := Some s', ei_size := int (length data), ei_overall_limit := l\<rparr>))
           | (None, s') \<Rightarrow> Inr (None, st\<lparr>ei_stream := Some s'\<rparr>)))"

definition StreamBackUp :: "'s in_lib \<Rightarrow> int \<Rightarrow> 's eps_in \<Rightarrow> 's eps_in result" where
  "StreamBackUp L count st =
     (case ei_stream st of
        None \<Rightarrow> Inl NullDeref
      | Some s \<Rightarrow>
          bind_result (add_int32 (ei_overall_limit st) count) (\<lambda>l.
            Inr (st\<lparr>ei_stream := Some (zcis_BackUp L count s), ei_overall_limit := l\<rparr>)))"

definition eps_BackUp :: "'s in_lib \<Rightarrow> int \<Rightarrow> 's eps_in \<Rightarrow> 's eps_in result" where
  "eps_BackUp L ptr st =
     (let count = (if ei_next_chunk st = Some Own_buffer then ei_buffer_end st + kSlopBytes - ptr
                   else ei_size st + (ei_buffer_end st - ptr))
      in if 0 < count then StreamBackUp L count st else Inr st)"

subsection \<open>Limits\<close>

definition LastTag :: "'s eps_in \<Rightarrow> u32" where "LastTag st = ei_last_tag_minus_1 st + 1"

definition ConsumeEndGroup :: "u32 \<Rightarrow> 's eps_in \<Rightarrow> bool \<times> 's eps_in" where
  "ConsumeEndGroup start_tag st = (ei_last_tag_minus_1 st = start_tag, st\<lparr>ei_last_tag_minus_1 := 0\<rparr>)"

definition EndedAtLimit :: "'s eps_in \<Rightarrow> bool" where "EndedAtLimit st \<longleftrightarrow> ei_last_tag_minus_1 st = 0"

definition EndedAtEndOfStream :: "'s eps_in \<Rightarrow> bool" where "EndedAtEndOfStream st \<longleftrightarrow> ei_last_tag_minus_1 st = 1"

definition SetLastTag :: "u32 \<Rightarrow> 's eps_in \<Rightarrow> 's eps_in" where "SetLastTag tag st = st\<lparr>ei_last_tag_minus_1 := tag - 1\<rparr>"

definition SetEndOfStream :: "'s eps_in \<Rightarrow> 's eps_in" where "SetEndOfStream st = st\<lparr>ei_last_tag_minus_1 := 1\<rparr>"

definition PushLimit :: "int \<Rightarrow> int \<Rightarrow> 's eps_in \<Rightarrow> (int \<times> 's eps_in) result" where
  "PushLimit ptr limit st =
     bind_result (add_int32 limit (ptr - ei_buffer_end st)) (\<lambda>limit'.
       bind_result (sub_int32 (ei_limit st) limit') (\<lambda>delta.
         Inr (delta, st\<lparr>ei_limit_end := ei_buffer_end st + min 0 limit', ei_limit := limit'\<rparr>)))"

definition PopLimit :: "int \<Rightarrow> 's eps_in \<Rightarrow> (bool \<times> 's eps_in) result" where
  "PopLimit delta st =
     (if \<not> EndedAtLimit st then Inr (False, st)
      else bind_result (add_int32 (ei_limit st) delta) (\<lambda>l.
        Inr (True, st\<lparr>ei_limit := l, ei_limit_end := ei_buffer_end st + min 0 l\<rparr>)))"

definition IsExceedingLimit :: "int \<Rightarrow> 's eps_in \<Rightarrow> bool" where
  "IsExceedingLimit ptr st \<longleftrightarrow>
     ei_limit_end st < ptr \<and> (ei_next_chunk st = None \<or> ei_limit st < ptr - ei_buffer_end st)"

definition AliasingEnabled :: "'s eps_in \<Rightarrow> bool" where "AliasingEnabled st \<longleftrightarrow> ei_aliasing st \<noteq> NoAliasing"

definition BytesUntilLimit :: "int \<Rightarrow> 's eps_in \<Rightarrow> int" where
  "BytesUntilLimit ptr st = ei_limit st + (ei_buffer_end st - ptr)"

definition DataAvailable :: "int \<Rightarrow> 's eps_in \<Rightarrow> bool" where "DataAvailable ptr st \<longleftrightarrow> ptr < ei_limit_end st"

definition DoneWithCheck :: "'s in_lib \<Rightarrow> int \<Rightarrow> int \<Rightarrow> 's eps_in \<Rightarrow> (bool \<times> int option) \<times> 's eps_in" where
  "DoneWithCheck L ptr d st =
     (if ptr < ei_limit_end st then ((False, Some ptr), st)
      else let overrun = ptr - ei_buffer_end st in
        if overrun = ei_limit st
        then ((True, if 0 < overrun \<and> ei_next_chunk st = None then None else Some ptr), st)
        else (case DoneFallback L overrun d st of ((res, done), st') \<Rightarrow> ((done, res), st')))"

subsection \<open>Strings\<close>

definition InSkip :: "'s in_lib \<Rightarrow> int \<Rightarrow> int \<Rightarrow> 's eps_in \<Rightarrow> int option \<times> 's eps_in" where
  "InSkip L ptr n st =
     (if n \<le> ei_buffer_end st + kSlopBytes - ptr then (Some (ptr + n), st) else SkipFallback L ptr n st)"

definition InReadString :: "'s in_lib \<Rightarrow> int \<Rightarrow> int \<Rightarrow> 's eps_in \<Rightarrow> ((int option \<times> bytes) \<times> 's eps_in) result" where
  "InReadString L ptr n st =
     (if n \<le> ei_buffer_end st + kSlopBytes - ptr
      then bind_result (mem_read (ei_mem st) ptr n) (\<lambda>s. Inr ((Some (ptr + n), s), st))
      else Inr (InReadStringFallback L ptr n st))"

definition InAppendString :: "'s in_lib \<Rightarrow> int \<Rightarrow> int \<Rightarrow> bytes \<Rightarrow> 's eps_in \<Rightarrow> ((int option \<times> bytes) \<times> 's eps_in) result" where
  "InAppendString L ptr n s st =
     (if n \<le> ei_buffer_end st + kSlopBytes - ptr
      then bind_result (mem_read (ei_mem st) ptr n) (\<lambda>bs. Inr ((Some (ptr + n), s @ bs), st))
      else Inr (AppendStringFallback L ptr n s st))"

text \<open>
  Loops that go from chunk to chunk, or whose progress rests on a library routine, have fuel: the outer \<open>None\<close>
  says that it ran out.
\<close>

fun and_then :: "'a result option \<Rightarrow> ('a \<Rightarrow> 'b result option) \<Rightarrow> 'b result option" where
  "and_then None f = None"
| "and_then (Some (Inl e)) f = Some (Inl e)"
| "and_then (Some (Inr a)) f = f a"

text \<open>
  \<open>AppendSize\<close> and \<open>AppendUntilEnd\<close>: \<open>add\<close> appends a piece of memory to what has been collected. A chunk may be
  empty, so the rounds are bounded by the number of chunks.
\<close>

fun AppendSize_loop ::
    "nat \<Rightarrow> 's in_lib \<Rightarrow> (bytes \<Rightarrow> 'a \<Rightarrow> 'a) \<Rightarrow> int \<Rightarrow> int \<Rightarrow> int \<Rightarrow> 'a \<Rightarrow> 's eps_in \<Rightarrow> ((int option \<times> 'a) \<times> 's eps_in) result option" where
  "AppendSize_loop 0 L add ptr n chunk_size a st = None"
| "AppendSize_loop (Suc fuel) L add ptr n chunk_size a st =
     (if ei_next_chunk st = None then Some (Inr ((None, a), st))
      else and_then (Some (mem_read (ei_mem st) ptr chunk_size)) (\<lambda>bs.
        let a' = add bs a; n' = n - chunk_size in
        if ei_limit st \<le> kSlopBytes then Some (Inr ((None, a'), st))
        else case NextChunk L st of
          (None, st') \<Rightarrow> Some (Inr ((None, a'), st'))
        | (Some p, st') \<Rightarrow>
            (let ptr' = p + kSlopBytes; chunk' = ei_buffer_end st' + kSlopBytes - ptr' in
             if chunk' < n' then AppendSize_loop fuel L add ptr' n' chunk' a' st'
             else Some (bind_result (mem_read (ei_mem st') ptr' n') (\<lambda>bs'.
               Inr ((Some (ptr' + n'), add bs' a'), st'))))))"

definition AppendSize ::
    "nat \<Rightarrow> 's in_lib \<Rightarrow> (bytes \<Rightarrow> 'a \<Rightarrow> 'a) \<Rightarrow> int \<Rightarrow> int \<Rightarrow> 'a \<Rightarrow> 's eps_in \<Rightarrow> ((int option \<times> 'a) \<times> 's eps_in) result option" where
  "AppendSize fuel L add ptr n a st =
     AppendSize_loop fuel L add ptr n (ei_buffer_end st + kSlopBytes - ptr) a st"

fun AppendUntilEnd_loop ::
    "nat \<Rightarrow> 's in_lib \<Rightarrow> (bytes \<Rightarrow> 'a \<Rightarrow> 'a) \<Rightarrow> int \<Rightarrow> 'a \<Rightarrow> 's eps_in \<Rightarrow> ((int option \<times> 'a) \<times> 's eps_in) result option" where
  "AppendUntilEnd_loop fuel L add ptr a st =
     (if kSlopBytes < ei_limit st then
        (case fuel of
           0 \<Rightarrow> None
         | Suc k \<Rightarrow>
             and_then (Some (mem_read (ei_mem st) ptr (ei_buffer_end st + kSlopBytes - ptr))) (\<lambda>bs.
               case NextChunk L st of
                 (None, st') \<Rightarrow> Some (Inr ((Some (ei_limit_end st'), add bs a), st'))
               | (Some p, st') \<Rightarrow> AppendUntilEnd_loop k L add (p + kSlopBytes) (add bs a) st'))
      else (let end_ptr = ei_buffer_end st + ei_limit st in
        Some (bind_result (mem_read (ei_mem st) ptr (end_ptr - ptr)) (\<lambda>bs. Inr ((Some end_ptr, add bs a), st)))))"

declare AppendUntilEnd_loop.simps [simp del]

definition AppendUntilEnd ::
    "nat \<Rightarrow> 's in_lib \<Rightarrow> (bytes \<Rightarrow> 'a \<Rightarrow> 'a) \<Rightarrow> int \<Rightarrow> 'a \<Rightarrow> 's eps_in \<Rightarrow> ((int option \<times> 'a) \<times> 's eps_in) result option" where
  "AppendUntilEnd fuel L add ptr a st =
     (if ei_limit st < ptr - ei_buffer_end st then Some (Inr ((None, a), st))
      else AppendUntilEnd_loop fuel L add ptr a st)"

definition AppendString_until :: "nat \<Rightarrow> 's in_lib \<Rightarrow> int \<Rightarrow> bytes \<Rightarrow> 's eps_in \<Rightarrow> ((int option \<times> bytes) \<times> 's eps_in) result option" where
  "AppendString_until fuel L ptr str st = AppendUntilEnd fuel L (\<lambda>bs s. s @ bs) ptr str st"

section \<open>Reading values from memory\<close>

text \<open>The readers of \<^verbatim>\<open>Wire_Format\<close> again, at a position; the slow readers get the memory from there on.\<close>

definition back_at :: "bytes \<Rightarrow> (bytes \<times> 'v) option \<Rightarrow> 'v \<Rightarrow> int option \<times> 'v" where
  "back_at mem x v0 = (case x of None \<Rightarrow> (None, v0) | Some (r, v) \<Rightarrow> (Some (int (length mem) - int (length r)), v))"

definition VarintParse64_at :: "pb_lib \<Rightarrow> bytes \<Rightarrow> int \<Rightarrow> (int option \<times> u64) result" where
  "VarintParse64_at L mem p =
     bind_result (vec_get mem p) (\<lambda>b0.
       if b0 AND 0x80 = 0 then Inr (Some (p + 1), ucast b0)
       else bind_result (vec_get mem (p + 1)) (\<lambda>b1.
         let res = ucast b0 + push_bit 7 (ucast b1 - 1) :: u32
         in if b1 AND 0x80 = 0 then Inr (Some (p + 2), ucast res)
            else Inr (back_at mem (VarintParseSlow64 L (drop (nat p) mem) res) 0)))"

definition VarintParse32_at :: "pb_lib \<Rightarrow> bytes \<Rightarrow> int \<Rightarrow> (int option \<times> u32) result" where
  "VarintParse32_at L mem p =
     bind_result (vec_get mem p) (\<lambda>b0.
       if b0 AND 0x80 = 0 then Inr (Some (p + 1), ucast b0)
       else bind_result (vec_get mem (p + 1)) (\<lambda>b1.
         let res = ucast b0 + push_bit 7 (ucast b1 - 1) :: u32
         in if b1 AND 0x80 = 0 then Inr (Some (p + 2), res)
            else Inr (back_at mem (VarintParseSlow32 L (drop (nat p) mem) res) 0)))"

definition ReadTag_at :: "pb_lib \<Rightarrow> bytes \<Rightarrow> int \<Rightarrow> (int option \<times> u32) result" where
  "ReadTag_at L mem p =
     bind_result (vec_get mem p) (\<lambda>b0.
       if b0 < 128 then Inr (Some (p + 1), ucast b0)
       else bind_result (vec_get mem (p + 1)) (\<lambda>b1.
         let res = ucast b0 + push_bit 7 (ucast b1 - 1) :: u32
         in if b1 < 128 then Inr (Some (p + 2), res)
            else Inr (back_at mem (ReadTagFallback L (drop (nat p) mem) res) 0)))"

definition ReadSize_at :: "pb_lib \<Rightarrow> bytes \<Rightarrow> int \<Rightarrow> (int option \<times> nat) result" where
  "ReadSize_at L mem p =
     bind_result (vec_get mem p) (\<lambda>b.
       if b < 128 then Inr (Some (p + 1), unat b)
       else Inr (back_at mem (ReadSizeFallback L (drop (nat p) mem) (ucast b)) 0))"

definition UnalignedLoad_at :: "(bytes \<Rightarrow> (bytes \<times> 'v) option) \<Rightarrow> int \<Rightarrow> bytes \<Rightarrow> int \<Rightarrow> 'v result" where
  "UnalignedLoad_at load width mem p =
     bind_result (mem_read mem p width) (\<lambda>bs. case load bs of None \<Rightarrow> Inl OutOfBounds | Some (r, v) \<Rightarrow> Inr v)"

section \<open>ParseContext\<close>

record 's parse_ctx =
  pc_in :: "'s eps_in"
  pc_depth :: int
  pc_group_depth :: int

definition ParseContext_flat :: "int \<Rightarrow> bool \<Rightarrow> bytes \<Rightarrow> bytes \<Rightarrow> int \<times> 's parse_ctx" where
  "ParseContext_flat depth aliasing buffer flat =
     (let (start, st) = InitFrom_flat flat (EpsCopyInputStream_new aliasing buffer)
      in (start, \<lparr>pc_in = st, pc_depth = depth, pc_group_depth = int32_min\<rparr>))"

definition TrackCorrectEnding :: "'s parse_ctx \<Rightarrow> 's parse_ctx" where
  "TrackCorrectEnding c = c\<lparr>pc_group_depth := 0\<rparr>"

definition Done :: "'s in_lib \<Rightarrow> int \<Rightarrow> 's parse_ctx \<Rightarrow> (bool \<times> int option) \<times> 's parse_ctx" where
  "Done L ptr c = (case DoneWithCheck L ptr (pc_group_depth c) (pc_in c) of (r, st) \<Rightarrow> (r, c\<lparr>pc_in := st\<rparr>))"

definition Spawn :: "bytes \<Rightarrow> bytes \<Rightarrow> 's parse_ctx \<Rightarrow> int \<times> 's parse_ctx" where
  "Spawn buffer flat c = ParseContext_flat (pc_depth c) False buffer flat"

type_synonym ('s, 'm) parser_at = "int \<Rightarrow> 'm \<Rightarrow> 's parse_ctx \<Rightarrow> ((int option \<times> 'm) \<times> 's parse_ctx) result"

definition ParseGroup_at :: "('s, 'm) parser_at \<Rightarrow> u32 \<Rightarrow> ('s, 'm) parser_at" where
  "ParseGroup_at parse tag ptr m c =
     bind_result (sub_int32 (pc_depth c) 1) (\<lambda>d.
       if d < 0 then Inr ((None, m), c\<lparr>pc_depth := d\<rparr>)
       else bind_result (add_int32 (pc_group_depth c) 1) (\<lambda>g.
         bind_result (parse ptr m (c\<lparr>pc_depth := d, pc_group_depth := g\<rparr>)) (\<lambda>((p, m'), c').
           let (ok, st) = ConsumeEndGroup tag (pc_in c');
               c'' = c'\<lparr>pc_group_depth := pc_group_depth c' - 1, pc_depth := pc_depth c' + 1, pc_in := st\<rparr>
           in Inr ((if ok then p else None, m'), c''))))"

text \<open>\<open>ReadSizeAndPushLimitAndDepth\<close> is what its comment says: the size, the limit, one level less.\<close>

definition ReadSizeAndPushLimitAndDepth :: "pb_lib \<Rightarrow> int \<Rightarrow> 's parse_ctx \<Rightarrow> ((int option \<times> int) \<times> 's parse_ctx) result" where
  "ReadSizeAndPushLimitAndDepth L ptr c =
     bind_result (ReadSize_at L (ei_mem (pc_in c)) ptr) (\<lambda>(p, n).
       case p of
         None \<Rightarrow> Inr ((None, 0), c)
       | Some p' \<Rightarrow>
           bind_result (PushLimit p' (int n) (pc_in c)) (\<lambda>(old, st).
             bind_result (sub_int32 (pc_depth c) 1) (\<lambda>d.
               Inr ((if d < 0 then None else Some p', old), c\<lparr>pc_in := st, pc_depth := d\<rparr>))))"

definition ParseMessage_at :: "pb_lib \<Rightarrow> ('s, 'm) parser_at \<Rightarrow> ('s, 'm) parser_at" where
  "ParseMessage_at L parse ptr m c =
     bind_result (ReadSizeAndPushLimitAndDepth L ptr c) (\<lambda>((p, old), c1).
       bind_result (case p of None \<Rightarrow> Inr ((None, m), c1) | Some p' \<Rightarrow> parse p' m c1) (\<lambda>((q, m'), c2).
         bind_result (PopLimit old (pc_in c2)) (\<lambda>(ok, st).
           Inr ((if ok then q else None, m'), c2\<lparr>pc_in := st, pc_depth := pc_depth c2 + 1\<rparr>))))"

section \<open>Packed fields and repeated fixed values\<close>

text \<open>A block of \<open>num\<close> values that lie in memory at \<open>ptr\<close> is copied behind the elements of the field.\<close>

definition append_block ::
    "int \<Rightarrow> (nat \<Rightarrow> 'v list) \<Rightarrow> (bytes \<Rightarrow> (bytes \<times> 'v) option) \<Rightarrow> bytes \<Rightarrow> int \<Rightarrow> int \<Rightarrow> 'v repeated_field \<Rightarrow> 'v repeated_field result" where
  "append_block width fresh load mem ptr num out =
     (let old_entries = rf_size out in
      bind_result (add_int32 old_entries num) (\<lambda>k.
      bind_result (rf_Reserve width fresh k out) (\<lambda>out1.
      bind_result (AddNAlreadyReserved num out1) (\<lambda>out2.
      bind_result (mem_read mem ptr (num * width)) (\<lambda>bs.
      case load_many load (nat num) bs of
        None \<Rightarrow> Inl OutOfBounds
      | Some (r, vs) \<Rightarrow>
          bind_result (CopyArray (rf_elements out2) old_entries vs num) (\<lambda>es. Inr (out2\<lparr>rf_elements := es\<rparr>)))))))"

fun ReadPackedFixed_loop ::
    "nat \<Rightarrow> 's in_lib \<Rightarrow> int \<Rightarrow> (nat \<Rightarrow> 'v list) \<Rightarrow> (bytes \<Rightarrow> (bytes \<times> 'v) option) \<Rightarrow> int \<Rightarrow> int \<Rightarrow> int \<Rightarrow> 'v repeated_field \<Rightarrow>
      's eps_in \<Rightarrow> ((int option \<times> 'v repeated_field) \<times> 's eps_in) result option" where
  "ReadPackedFixed_loop fuel L width fresh load ptr n nbytes out st =
     (if nbytes < n then
        (case fuel of
           0 \<Rightarrow> None
         | Suc k \<Rightarrow>
             (let num = nbytes div width; block_size = num * width in
              and_then (Some (append_block width fresh load (ei_mem st) ptr num out)) (\<lambda>out'.
                if ei_limit st \<le> kSlopBytes then Some (Inr ((None, out'), st))
                else case NextChunk L st of
                  (None, st') \<Rightarrow> Some (Inr ((None, out'), st'))
                | (Some p, st') \<Rightarrow>
                    (let ptr' = p + (kSlopBytes - (nbytes - block_size)) in
                     ReadPackedFixed_loop k L width fresh load ptr' (n - block_size)
                       (ei_buffer_end st' + kSlopBytes - ptr') out' st'))))
      else (let num = n div width; block_size = num * width in
        Some (bind_result (append_block width fresh load (ei_mem st) ptr num out) (\<lambda>out'.
          Inr ((if n \<noteq> block_size then None else Some (ptr + block_size), out'), st)))))"

declare ReadPackedFixed_loop.simps [simp del]

definition ReadPackedFixed_at ::
    "nat \<Rightarrow> 's in_lib \<Rightarrow> int \<Rightarrow> (nat \<Rightarrow> 'v list) \<Rightarrow> (bytes \<Rightarrow> (bytes \<times> 'v) option) \<Rightarrow> int option \<Rightarrow> int \<Rightarrow> 'v repeated_field \<Rightarrow>
      's eps_in \<Rightarrow> ((int option \<times> 'v repeated_field) \<times> 's eps_in) result option" where
  "ReadPackedFixed_at fuel L width fresh load ptr n out st =
     (case ptr of
        None \<Rightarrow> Some (Inr ((None, out), st))
      | Some p \<Rightarrow> ReadPackedFixed_loop fuel L width fresh load p n (ei_buffer_end st + kSlopBytes - p) out st)"

fun ReadPackedVarintArray_at ::
    "nat \<Rightarrow> pb_lib \<Rightarrow> (u64 \<Rightarrow> 'm \<Rightarrow> 'm) \<Rightarrow> bytes \<Rightarrow> int \<Rightarrow> int \<Rightarrow> 'm \<Rightarrow> (int option \<times> 'm) result option" where
  "ReadPackedVarintArray_at fuel L add mem ptr end_ptr m =
     (if ptr < end_ptr then
        (case fuel of
           0 \<Rightarrow> None
         | Suc k \<Rightarrow>
             and_then (Some (VarintParse64_at L mem ptr)) (\<lambda>(p, v).
               case p of
                 None \<Rightarrow> Some (Inr (None, m))
               | Some p' \<Rightarrow> ReadPackedVarintArray_at k L add mem p' end_ptr (add v m)))
      else Some (Inr (Some ptr, m)))"

declare ReadPackedVarintArray_at.simps [simp del]

text \<open>
  Values may straddle \<open>buffer_end_\<close>: the array reader overruns it, and the rest is read either from the next
  buffer or, when the field ends within the slop, from a copy of the slop that is padded with zeros.
\<close>

fun ReadPackedVarint_loop ::
    "nat \<Rightarrow> 's in_lib \<Rightarrow> pb_lib \<Rightarrow> (u64 \<Rightarrow> 'm \<Rightarrow> 'm) \<Rightarrow> int \<Rightarrow> int \<Rightarrow> int \<Rightarrow> 'm \<Rightarrow> 's eps_in \<Rightarrow>
      ((int option \<times> 'm) \<times> 's eps_in) result option" where
  "ReadPackedVarint_loop fuel L Lp add ptr n chunk_size m st =
     (if chunk_size < n then
        (case fuel of
           0 \<Rightarrow> None
         | Suc k \<Rightarrow>
             and_then (ReadPackedVarintArray_at (nat chunk_size) Lp add (ei_mem st) ptr (ei_buffer_end st) m) (\<lambda>(q, m').
               case q of
                 None \<Rightarrow> Some (Inr ((None, m'), st))
               | Some ptr' \<Rightarrow>
                   (let overrun = ptr' - ei_buffer_end st in
                    if n - chunk_size \<le> kSlopBytes then
                      and_then (Some (mem_read (ei_mem st) (ei_buffer_end st) kSlopBytes)) (\<lambda>slop.
                      and_then (ReadPackedVarintArray_at (nat kSlopBytes) Lp add (slop @ replicate 10 0) overrun (n - chunk_size) m') (\<lambda>(res, m'').
                        Some (Inr ((if res = Some (n - chunk_size) then Some (ei_buffer_end st + (n - chunk_size)) else None, m''), st))))
                    else if ei_limit st \<le> kSlopBytes then Some (Inr ((None, m'), st))
                    else case NextChunk L st of
                      (None, st') \<Rightarrow> Some (Inr ((None, m'), st'))
                    | (Some p, st') \<Rightarrow>
                        ReadPackedVarint_loop k L Lp add (p + overrun) (n - (overrun + chunk_size))
                          (ei_buffer_end st' - (p + overrun)) m' st')))
      else and_then (ReadPackedVarintArray_at (nat n) Lp add (ei_mem st) ptr (ptr + n) m) (\<lambda>(q, m').
        Some (Inr ((if q = Some (ptr + n) then q else None, m'), st))))"

declare ReadPackedVarint_loop.simps [simp del]

definition ReadPackedVarint_at ::
    "nat \<Rightarrow> 's in_lib \<Rightarrow> pb_lib \<Rightarrow> (u64 \<Rightarrow> 'm \<Rightarrow> 'm) \<Rightarrow> int \<Rightarrow> 'm \<Rightarrow> 's eps_in \<Rightarrow> ((int option \<times> 'm) \<times> 's eps_in) result option" where
  "ReadPackedVarint_at fuel L Lp add ptr m st =
     and_then (Some (ReadSize_at Lp (ei_mem st) ptr)) (\<lambda>(p, n).
       case p of
         None \<Rightarrow> Some (Inr ((None, m), st))
       | Some p' \<Rightarrow> ReadPackedVarint_loop fuel L Lp add p' (int n) (ei_buffer_end st - p') m st)"

text \<open>
  \<open>ReadRepeatedFixed\<close>: unpacked values, each behind its tag. The rounds end at \<open>limit_end_\<close>.
\<close>

fun ReadRepeatedFixed_loop ::
    "nat \<Rightarrow> int \<Rightarrow> (bytes \<Rightarrow> (bytes \<times> 'v) option) \<Rightarrow> int \<Rightarrow> (bytes \<Rightarrow> bool) \<Rightarrow> ('v \<Rightarrow> 'm \<Rightarrow> 'm result) \<Rightarrow> int \<Rightarrow> 'm \<Rightarrow> 's eps_in \<Rightarrow>
      (int \<times> 'm) result option" where
  "ReadRepeatedFixed_loop fuel width load tag_width expected_tag add ptr m st =
     and_then (Some (bind_result (UnalignedLoad_at load width (ei_mem st) ptr) (\<lambda>v. add v m))) (\<lambda>m'.
       let p = ptr + width in
       if ei_limit_end st \<le> p then Some (Inr (p, m'))
       else and_then (Some (mem_read (ei_mem st) p tag_width)) (\<lambda>tag.
         if expected_tag tag
         then (case fuel of
                 0 \<Rightarrow> None
               | Suc k \<Rightarrow> ReadRepeatedFixed_loop k width load tag_width expected_tag add (p + tag_width) m' st)
         else Some (Inr (p, m'))))"

declare ReadRepeatedFixed_loop.simps [simp del]

section \<open>Fields of unknown messages\<close>

text \<open>What \<open>FieldParser\<close> calls on its \<open>field_parser\<close>.\<close>

record ('s, 'm) field_parser =
  AddVarint :: "u32 \<Rightarrow> u64 \<Rightarrow> 'm \<Rightarrow> 'm"
  AddFixed64 :: "u32 \<Rightarrow> u64 \<Rightarrow> 'm \<Rightarrow> 'm"
  AddFixed32 :: "u32 \<Rightarrow> u32 \<Rightarrow> 'm \<Rightarrow> 'm"
  ParseLengthDelimited :: "u32 \<Rightarrow> ('s, 'm) parser_at"
  FieldParseGroup :: "u32 \<Rightarrow> ('s, 'm) parser_at"

definition FieldParser :: "pb_lib \<Rightarrow> ('s, 'm) field_parser \<Rightarrow> u32 \<Rightarrow> ('s, 'm) parser_at" where
  "FieldParser L fp tag ptr m c =
     (let number = drop_bit 3 tag; mem = ei_mem (pc_in c) in
      if number = 0 then Inr ((None, m), c)
      else if tag AND 7 = 0 then
        bind_result (VarintParse64_at L mem ptr) (\<lambda>(p, v).
          Inr (if p = None then (None, m) else (p, AddVarint fp number v m), c))
      else if tag AND 7 = 1 then
        bind_result (UnalignedLoad_at UnalignedLoad64 8 mem ptr) (\<lambda>v. Inr ((Some (ptr + 8), AddFixed64 fp number v m), c))
      else if tag AND 7 = 2 then ParseLengthDelimited fp number ptr m c
      else if tag AND 7 = 3 then FieldParseGroup fp number ptr m c
      else if tag AND 7 = 4 then Inl CheckFailed
      else if tag AND 7 = 5 then
        bind_result (UnalignedLoad_at UnalignedLoad 4 mem ptr) (\<lambda>v. Inr ((Some (ptr + 4), AddFixed32 fp number v m), c))
      else Inr ((None, m), c))"

fun WireFormatParser ::
    "nat \<Rightarrow> 's in_lib \<Rightarrow> pb_lib \<Rightarrow> ('s, 'm) field_parser \<Rightarrow> int \<Rightarrow> 'm \<Rightarrow> 's parse_ctx \<Rightarrow>
      ((int option \<times> 'm) \<times> 's parse_ctx) result option" where
  "WireFormatParser 0 L Lp fp ptr m c = None"
| "WireFormatParser (Suc fuel) L Lp fp ptr m c =
     (case Done L ptr c of
        ((True, p), c1) \<Rightarrow> Some (Inr ((p, m), c1))
      | ((False, None), c1) \<Rightarrow> Some (Inl NullDeref)
      | ((False, Some p), c1) \<Rightarrow>
          and_then (Some (ReadTag_at Lp (ei_mem (pc_in c1)) p)) (\<lambda>(q, tag).
            case q of
              None \<Rightarrow> Some (Inr ((None, m), c1))
            | Some q' \<Rightarrow>
                if tag = 0 \<or> tag AND 7 = 4
                then Some (Inr ((Some q', m), c1\<lparr>pc_in := SetLastTag tag (pc_in c1)\<rparr>))
                else and_then (Some (FieldParser Lp fp tag q' m c1)) (\<lambda>((r, m'), c2).
                  case r of
                    None \<Rightarrow> Some (Inr ((None, m'), c2))
                  | Some r' \<Rightarrow> WireFormatParser fuel L Lp fp r' m' c2)))"

end
