(* ===== verification/Eps_Parse.thy ===== *)
theory Eps_Parse
  imports Eps_Input Message_Header
begin

unbundle bit_operations_syntax

text \<open>
  Parsing from memory and parsing from a list agree. The list is what lies before the current limit; the
  memory goes on behind it, with the slop and whatever follows, and the readers do not look at the limit: they
  may run past it, and \<open>Done\<close> finds that out afterwards. So the state of a parse is either at a position with
  a list of bytes left or past the limit, and then nothing but failure can follow.
\<close>

section \<open>What is left of the input\<close>

text \<open>
  \<open>T st\<close> is the input from \<open>buffer_end_\<close> on; unless it is empty, its first 16 bytes lie in the slop. Limits
  are not behind the end of the input.
\<close>

definition in_fit :: "('s eps_in \<Rightarrow> bytes) \<Rightarrow> 's eps_in \<Rightarrow> bool" where
  "in_fit T st \<longleftrightarrow>
     0 \<le> ei_buffer_end st \<and> ei_buffer_end st + 16 \<le> int (length (ei_mem st)) \<and>
     ei_limit_end st = ei_buffer_end st + min 0 (ei_limit st) \<and> ei_limit st \<le> int (length (T st)) \<and>
     (if ei_next_chunk st = None then T st = []
      else 16 \<le> length (T st) \<and> take 16 (drop (nat (ei_buffer_end st)) (ei_mem st)) = take 16 (T st))"

definition ahead :: "('s eps_in \<Rightarrow> bytes) \<Rightarrow> 's eps_in \<Rightarrow> int \<Rightarrow> bytes" where
  "ahead T st p =
     (if p \<le> ei_buffer_end st then drop (nat p) (take (nat (ei_buffer_end st)) (ei_mem st)) @ T st
      else drop (nat (p - ei_buffer_end st)) (T st))"

text \<open>\<open>None\<close> when the position is past the limit.\<close>

definition left :: "('s eps_in \<Rightarrow> bytes) \<Rightarrow> 's eps_in \<Rightarrow> int \<Rightarrow> bytes option" where
  "left T st p =
     (if 0 \<le> BytesUntilLimit p st then Some (take (nat (BytesUntilLimit p st)) (ahead T st p)) else None)"

definition in_at :: "('s eps_in \<Rightarrow> bytes) \<Rightarrow> 's eps_in \<Rightarrow> int \<Rightarrow> bool" where
  "in_at T st p \<longleftrightarrow> in_fit T st \<and> 0 \<le> p \<and> p \<le> ei_buffer_end st + 16"

lemma length_ahead:
  assumes "in_at T st p"
  shows "int (length (ahead T st p)) = max 0 (int (length (T st)) + ei_buffer_end st - p)"
  using assms by (auto simp: ahead_def in_at_def in_fit_def)

lemma left_length:
  "in_at T st p \<Longrightarrow> left T st p = Some s \<Longrightarrow> int (length s) = BytesUntilLimit p st"
  using length_ahead [of T st p] by (auto simp: left_def BytesUntilLimit_def in_at_def in_fit_def split: if_splits)

lemma left_take:
  assumes "in_at T st p" and "left T st p = Some s"
  shows "s = take (length s) (ahead T st p)" and "length s \<le> length (ahead T st p)"
proof -
  from assms(2) have "s = take (nat (BytesUntilLimit p st)) (ahead T st p)" by (auto simp: left_def split: if_splits)
  moreover have "nat (BytesUntilLimit p st) = length s" using left_length [OF assms] by simp
  ultimately show s: "s = take (length s) (ahead T st p)" by simp
  then show "length s \<le> length (ahead T st p)" by (metis length_take min.cobounded1)
qed

text \<open>Up to the end of the slop memory and input agree, unless the input ends before.\<close>

lemma memory_ahead:
  assumes "in_at T st p"
  shows "\<exists>c g e. drop (nat p) (ei_mem st) = c @ g \<and> ahead T st p = c @ e \<and>
    (ei_buffer_end st + 16 \<le> p + int (length c) \<or> e = [])"
proof -
  let ?b = "nat (ei_buffer_end st)" and ?m = "ei_mem st"
  have f: "0 \<le> ei_buffer_end st" "ei_buffer_end st + 16 \<le> int (length ?m)" "0 \<le> p" "p \<le> ei_buffer_end st + 16"
    and n: "if ei_next_chunk st = None then T st = [] else 16 \<le> length (T st) \<and> take 16 (drop ?b ?m) = take 16 (T st)"
    using assms by (auto simp: in_at_def in_fit_def)
  show ?thesis
  proof (cases "p \<le> ei_buffer_end st")
    case True
    then have m: "drop (nat p) ?m = drop (nat p) (take ?b ?m) @ drop ?b ?m"
      using f take_drop_split [of "nat p" ?b ?m] by (simp add: drop_take)
    show ?thesis
    proof (cases "ei_next_chunk st = None")
      case empty: True
      with m n True show ?thesis
        by (intro exI [of _ "drop (nat p) (take ?b ?m)"] exI [of _ "drop ?b ?m"] exI [of _ "[]"]) (simp add: ahead_def)
    next
      case more: False
      then have t: "16 \<le> length (T st)" "take 16 (drop ?b ?m) = take 16 (T st)" using n by simp_all
      let ?c = "drop (nat p) (take ?b ?m) @ take 16 (T st)"
      have "drop (nat p) ?m = ?c @ drop 16 (drop ?b ?m)"
        unfolding m t(2) [symmetric] by (simp only: append_assoc append_take_drop_id)
      moreover have "ahead T st p = ?c @ drop 16 (T st)" using True by (simp add: ahead_def)
      moreover have "ei_buffer_end st + 16 \<le> p + int (length ?c)" using f t True by simp
      ultimately show ?thesis by blast
    qed
  next
    case False
    let ?k = "nat (p - ei_buffer_end st)"
    have k: "nat p = ?b + ?k" "?k \<le> 16" using False f by linarith+
    then have d: "drop (nat p) ?m = drop ?k (drop ?b ?m)" by (simp add: add.commute)
    show ?thesis
    proof (cases "ei_next_chunk st = None")
      case True
      with n False show ?thesis
        by (intro exI [of _ "[]"] exI [of _ "drop (nat p) ?m"] exI [of _ "[]"]) (simp add: ahead_def)
    next
      case more: False
      then have t: "16 \<le> length (T st)" "take 16 (drop ?b ?m) = take 16 (T st)" using n by simp_all
      have "drop ?k xs = drop ?k (take 16 xs) @ drop 16 xs" for xs :: bytes
        using k(2) take_drop_split [of ?k 16 xs] by (simp add: drop_take)
      from this [of "drop ?b ?m"] this [of "T st"] t have
        "drop (nat p) ?m = drop ?k (take 16 (T st)) @ drop 16 (drop ?b ?m)"
        "ahead T st p = drop ?k (take 16 (T st)) @ drop 16 (T st)"
        using False by (simp_all add: d ahead_def)
      moreover have "ei_buffer_end st + 16 \<le> p + int (length (drop ?k (take 16 (T st))))" using k f t False by simp
      ultimately show ?thesis by blast
    qed
  qed
qed


lemma ahead_advance: "0 \<le> p \<Longrightarrow> 0 \<le> ei_buffer_end st \<Longrightarrow> ei_buffer_end st \<le> int (length (ei_mem st)) \<Longrightarrow>
    ahead T st (p + int n) = drop n (ahead T st p)"
proof -
  assume p: "0 \<le> p" and b: "0 \<le> ei_buffer_end st" "ei_buffer_end st \<le> int (length (ei_mem st))"
  let ?b = "nat (ei_buffer_end st)"
  obtain i where i: "p = int i" using p by (metis nonneg_int_cases)
  obtain k where k: "ei_buffer_end st = int k" using b by (metis nonneg_int_cases)
  have l: "k \<le> length (ei_mem st)" using b k by simp
  consider "i + n \<le> k" | "k < i + n" "i \<le> k" | "k < i" by linarith
  then show ?thesis
  proof cases
    case 1
    then show ?thesis using l by (simp add: ahead_def i k flip: of_nat_add) (simp add: add.commute)
  next
    case 2
    then show ?thesis using l by (simp add: ahead_def i k flip: of_nat_add of_nat_diff) (simp add: add.commute)
  next
    case 3
    then show ?thesis by (simp add: ahead_def i k flip: of_nat_add of_nat_diff) (simp add: add.commute)
  qed
qed

lemma left_advance:
  assumes "in_at T st p" and "p + int n \<le> ei_buffer_end st + 16"
  shows "in_at T st (p + int n)"
    and "left T st p = Some s \<Longrightarrow> left T st (p + int n) = (if n \<le> length s then Some (drop n s) else None)"
    and "left T st p = None \<Longrightarrow> left T st (p + int n) = None"
proof -
  have f: "0 \<le> p" "0 \<le> ei_buffer_end st" "ei_buffer_end st \<le> int (length (ei_mem st))"
    using assms by (auto simp: in_at_def in_fit_def)
  show "in_at T st (p + int n)" using assms by (auto simp: in_at_def)
  have u: "BytesUntilLimit (p + int n) st = BytesUntilLimit p st - int n" by (simp add: BytesUntilLimit_def)
  show "left T st p = None \<Longrightarrow> left T st (p + int n) = None" by (auto simp: left_def u split: if_splits)
  assume s: "left T st p = Some s"
  have "drop n s = take (length s - n) (drop n (ahead T st p))"
    using left_take(1) [OF assms(1) s] by (metis drop_take)
  moreover have "nat (BytesUntilLimit p st - int n) = length s - n" using left_length [OF assms(1) s] by simp
  ultimately show "left T st (p + int n) = (if n \<le> length s then Some (drop n s) else None)"
    using left_length [OF assms(1) s] ahead_advance [OF f, of T n] by (auto simp: left_def u)
qed

section \<open>Readers\<close>

text \<open>
  A reader that looks at no more than the bytes it consumes, and consumes at most \<open>k\<close>: cutting the input behind
  them changes nothing, cutting it before makes it fail.
\<close>

definition reads_locally :: "nat \<Rightarrow> (bytes \<Rightarrow> (bytes \<times> 'v) option) \<Rightarrow> bool" where
  "reads_locally k f \<longleftrightarrow>
     (\<forall>p q. case f (p @ q) of
        None \<Rightarrow> f p = None
      | Some (r, v) \<Rightarrow> \<exists>n. 0 < n \<and> n \<le> k \<and> n \<le> length (p @ q) \<and> r = drop n (p @ q) \<and>
          f p = (if n \<le> length p then Some (drop n p, v) else None))"

lemma reads_locally_case:
  "reads_locally k f \<Longrightarrow>
     (case f (p @ q) of
        None \<Rightarrow> f p = None
      | Some (r, v) \<Rightarrow> \<exists>n. 0 < n \<and> n \<le> k \<and> n \<le> length (p @ q) \<and> r = drop n (p @ q) \<and>
          f p = (if n \<le> length p then Some (drop n p, v) else None))"
  by (simp only: reads_locally_def)

lemma reads_locally_None: "reads_locally k f \<Longrightarrow> f (p @ q) = None \<Longrightarrow> f p = None"
  using reads_locally_case [of k f p q] by simp

lemma reads_locally_Some:
  "reads_locally k f \<Longrightarrow> f (p @ q) = Some (r, v) \<Longrightarrow>
     \<exists>n. 0 < n \<and> n \<le> k \<and> n \<le> length (p @ q) \<and> r = drop n (p @ q) \<and>
       f p = (if n \<le> length p then Some (drop n p, v) else None)"
  using reads_locally_case [of k f p q] by (simp only: option.case prod.case)

lemma local_None:
  assumes "reads_locally k f" and "k \<le> length c \<or> e = []" and "f (c @ g) = None"
  shows "f (take u (c @ e)) = None"
proof -
  have c: "f c = None" by (rule reads_locally_None [OF assms(1,3)])
  have "f (c @ e) = None"
  proof (cases "f (c @ e)")
    case (Some x)
    obtain r v where x: "x = (r, v)" by fastforce
    from reads_locally_Some [OF assms(1) Some [unfolded x]] assms(2) c show ?thesis by (auto split: if_splits)
  qed
  then have "f (take u (c @ e) @ drop u (c @ e)) = None" by (simp only: append_take_drop_id)
  then show ?thesis by (rule reads_locally_None [OF assms(1)])
qed

lemma local_Some:
  assumes "reads_locally k f" and "k \<le> length c \<or> e = []" and "f (c @ g) = Some (r, v)" and "u \<le> length (c @ e)"
  shows "\<exists>n. 0 < n \<and> n \<le> k \<and> n \<le> length (c @ g) \<and> r = drop n (c @ g) \<and>
    f (take u (c @ e)) = (if n \<le> u then Some (drop n (take u (c @ e)), v) else None)"
proof -
  from reads_locally_Some [OF assms(1,3)] obtain n where
    n: "0 < n" "n \<le> k" "n \<le> length (c @ g)" "r = drop n (c @ g)"
      "f c = (if n \<le> length c then Some (drop n c, v) else None)" by blast
  have "f (take u (c @ e)) = (if n \<le> u then Some (drop n (take u (c @ e)), v) else None)"
  proof (cases "n \<le> length c")
    case True
    then have c: "f c = Some (drop n c, v)" using n(5) by simp
    have "f (c @ e) \<noteq> None"
    proof
      assume "f (c @ e) = None"
      then have "f c = None" by (rule reads_locally_None [OF assms(1)])
      with c show False by simp
    qed
    then obtain r' v' where s: "f (c @ e) = Some (r', v')" by auto
    from reads_locally_Some [OF assms(1) s] n(5) True obtain n' where
      "drop n c = drop n' c" "v = v'" "n' \<le> length c" by (auto split: if_splits)
    then have n': "n' = n" "v' = v" using True by (metis diff_diff_cancel length_drop, simp)
    have s': "f (take u (c @ e) @ drop u (c @ e)) = Some (r', v)" using s n'(2) by (simp only: append_take_drop_id)
    from reads_locally_Some [OF assms(1) s'] obtain j where
      j: "r' = drop j (c @ e)" "j \<le> length (c @ e)"
        "f (take u (c @ e)) = (if j \<le> length (take u (c @ e)) then Some (drop j (take u (c @ e)), v) else None)"
      by (auto simp only: append_take_drop_id)
    from reads_locally_Some [OF assms(1) s] n(5) True obtain i where
      "r' = drop i (c @ e)" "i \<le> length (c @ e)" "drop n c = drop i c" "i \<le> length c" by (auto split: if_splits)
    then have "j = i" "i = n" using j(1,2) True by (metis diff_diff_cancel length_drop)+
    moreover have "length (take u (c @ e)) = u" using assms(4) by (simp only: length_take min.absorb2)
    ultimately show ?thesis using j(3) by (simp only:)
  next
    case False
    then have e: "e = []" using n(2) assms(2) by linarith
    have "f c = None" using n(5) False by simp
    then have "f (take u c @ drop u c) = None" by (simp only: append_take_drop_id)
    then have "f (take u c) = None" by (rule reads_locally_None [OF assms(1)])
    then show ?thesis using False assms(4) e by simp
  qed
  with n show ?thesis by blast
qed

text \<open>The two readings of one value agree.\<close>

definition agrees :: "('s eps_in \<Rightarrow> bytes) \<Rightarrow> 's eps_in \<Rightarrow> (bytes \<times> 'v) option \<Rightarrow> int option \<times> 'v \<Rightarrow> bool" where
  "agrees T st x y \<longleftrightarrow>
     (case x of
        Some (r, v) \<Rightarrow> (\<exists>p. y = (Some p, v) \<and> in_at T st p \<and> left T st p = Some r)
      | None \<Rightarrow> (\<forall>p. fst y = Some p \<longrightarrow> in_at T st p \<and> left T st p = None))"

lemma reader_agrees:
  assumes f: "reads_locally k f" and a: "in_at T st p" and k: "p + int k \<le> ei_buffer_end st + 16"
  shows "agrees T st (Option.bind (left T st p) f) (back_at (ei_mem st) (f (drop (nat p) (ei_mem st))) v0)"
    and "back_at (ei_mem st) (f (drop (nat p) (ei_mem st))) v0 = (Some q, v) \<Longrightarrow> p < q \<and> q \<le> p + int k"
proof -
  let ?m = "ei_mem st"
  from memory_ahead [OF a] obtain c g e where
    m: "drop (nat p) ?m = c @ g" and h: "ahead T st p = c @ e" and "ei_buffer_end st + 16 \<le> p + int (length c) \<or> e = []"
    by blast
  with k have ke: "k \<le> length c \<or> e = []" by linarith
  have lm: "length ?m = nat p + length (c @ g)"
    using a k arg_cong [OF m, of length] by (auto simp: in_at_def in_fit_def)
  have moved: "\<exists>n. 0 < n \<and> n \<le> k \<and> back_at ?m (f (c @ g)) v0 = (Some (p + int n), v) \<and>
      Option.bind (left T st p) f = Option.bind (left T st p) (\<lambda>s. if n \<le> length s then Some (drop n s, v) else None)"
    if v: "f (c @ g) = Some (r, v)" for r v
  proof -
    from local_Some [OF f ke v order_refl] obtain n where
      n: "0 < n" "n \<le> k" "n \<le> length (c @ g)" "r = drop n (c @ g)" by blast
    have "int (length ?m) - int (length r) = p + int n"
      using n(3,4) lm a by (simp add: in_at_def)
    moreover have "f s = (if n \<le> length s then Some (drop n s, v) else None)" if s: "left T st p = Some s" for s
    proof -
      have u: "s = take (length s) (c @ e)" "length s \<le> length (c @ e)"
        using left_take [OF a s] by (simp_all only: h)
      from local_Some [OF f ke v u(2)] obtain n' where
        n': "n' \<le> length (c @ g)" "r = drop n' (c @ g)" "f s = (if n' \<le> length s then Some (drop n' s, v) else None)"
        using u(1) by auto
      then have "n' = n" using n(3,4) by (metis diff_diff_cancel length_drop)
      with n'(3) show ?thesis by simp
    qed
    ultimately show ?thesis
      using v n(1,2) by (intro exI [of _ n]) (auto simp: back_at_def split: Option.bind_splits)
  qed
  show "agrees T st (Option.bind (left T st p) f) (back_at ?m (f (drop (nat p) ?m)) v0)"
  proof (cases "f (c @ g)")
    case None
    have "f s = None" if s: "left T st p = Some s" for s
    proof -
      have "s = take (length s) (c @ e)" using left_take [OF a s] by (simp only: h)
      then show ?thesis using local_None [OF f ke None, of "length s"] by simp
    qed
    then have "Option.bind (left T st p) f = None" by (cases "left T st p") simp_all
    with None show ?thesis by (simp add: m agrees_def back_at_def)
  next
    case (Some x)
    obtain r v where x: "x = (r, v)" by fastforce
    from moved [OF Some [unfolded x]] obtain n where
      n: "n \<le> k" "back_at ?m (f (c @ g)) v0 = (Some (p + int n), v)"
        "Option.bind (left T st p) f = Option.bind (left T st p) (\<lambda>s. if n \<le> length s then Some (drop n s, v) else None)"
      by blast
    have "p + int n \<le> ei_buffer_end st + 16" using n(1) k by linarith
    from left_advance [OF a this] n(2,3) show ?thesis
      by (cases "left T st p") (auto simp: m agrees_def)
  qed
  assume q: "back_at ?m (f (drop (nat p) ?m)) v0 = (Some q, v)"
  then obtain r where "f (c @ g) = Some (r, v)" by (auto simp: m back_at_def split: option.splits)
  from moved [OF this] q show "p < q \<and> q \<le> p + int k" by (auto simp: m)
qed


text \<open>
  The slow readers are local and go beyond the two bytes at which the inline code has looked; a varint has at
  most ten bytes, a tag five.
\<close>

definition slow_reader :: "nat \<Rightarrow> (bytes \<Rightarrow> u32 \<Rightarrow> (bytes \<times> 'v) option) \<Rightarrow> bool" where
  "slow_reader k f \<longleftrightarrow> (\<forall>h. reads_locally k (\<lambda>p. f p h)) \<and> (\<forall>p h r v. f p h = Some (r, v) \<longrightarrow> length r + 2 < length p)"

definition pb_local :: "pb_lib \<Rightarrow> bool" where
  "pb_local L \<longleftrightarrow> slow_reader 10 (VarintParseSlow64 L) \<and> slow_reader 10 (VarintParseSlow32 L) \<and> slow_reader 5 (ReadTagFallback L)"

text \<open>The inline readers in one form: \<open>goes_on\<close> is the continuation bit, \<open>small1\<close> and \<open>small2\<close> make the value.\<close>

definition two_byte_reader ::
    "(byte \<Rightarrow> bool) \<Rightarrow> (byte \<Rightarrow> 'v) \<Rightarrow> (byte \<Rightarrow> byte \<Rightarrow> 'v) \<Rightarrow> (byte \<Rightarrow> byte \<Rightarrow> u32) \<Rightarrow> (bytes \<Rightarrow> u32 \<Rightarrow> (bytes \<times> 'v) option) \<Rightarrow>
      bytes \<Rightarrow> (bytes \<times> 'v) option" where
  "two_byte_reader goes_on small1 small2 res slow p =
     (case p of
        [] \<Rightarrow> None
      | b0 # r0 \<Rightarrow>
          if \<not> goes_on b0 then Some (r0, small1 b0)
          else (case r0 of
                  [] \<Rightarrow> None
                | b1 # r1 \<Rightarrow> if \<not> goes_on b1 then Some (r1, small2 b0 b1) else slow p (res b0 b1)))"

lemma two_byte_reader_local:
  assumes "slow_reader k slow" and "2 \<le> k"
  shows "reads_locally k (two_byte_reader goes_on small1 small2 res slow)"
  unfolding reads_locally_def
proof (intro allI)
  fix p q
  let ?f = "two_byte_reader goes_on small1 small2 res slow"
  let ?goal = "case ?f (p @ q) of None \<Rightarrow> ?f p = None
    | Some (r, v) \<Rightarrow> \<exists>n. 0 < n \<and> n \<le> k \<and> n \<le> length (p @ q) \<and> r = drop n (p @ q) \<and>
        ?f p = (if n \<le> length p then Some (drop n p, v) else None)"
  have one: ?goal if "p @ q = b # s" "\<not> goes_on b" for b s
    using that assms(2) by (cases p) (auto simp: two_byte_reader_def intro!: exI [of _ 1])
  have two: ?goal if "p @ q = b # b' # s" "goes_on b" "\<not> goes_on b'" for b b' s
    using that assms(2)
    by (cases p; cases "tl p") (auto simp: two_byte_reader_def intro!: exI [of _ 2])
  have slow: ?goal if c: "p @ q = b # b' # s" "goes_on b" "goes_on b'" for b b' s
  proof -
    have loc: "reads_locally k (\<lambda>p. slow p (res b b'))" and len: "slow xs h = Some (r, v) \<Longrightarrow> length r + 2 < length xs" for xs h r v
      using assms(1) unfolding slow_reader_def by blast+
    have pq: "?f (p @ q) = slow (p @ q) (res b b')" using c by (simp add: two_byte_reader_def)
    have p: "?f p = slow p (res b b')" if "2 \<le> length p" using c that by (cases p; cases "tl p") (auto simp: two_byte_reader_def)
    have short: "?f p = None" if "length p < 2" using c that by (cases p; cases "tl p") (auto simp: two_byte_reader_def)
    show ?thesis
    proof (cases "slow (p @ q) (res b b')")
      case None
      with reads_locally_None [OF loc None] pq p short show ?thesis by (cases "2 \<le> length p") auto
    next
      case (Some x)
      obtain r v where x: "x = (r, v)" by fastforce
      from reads_locally_Some [OF loc Some [unfolded x]] obtain n where
        n: "0 < n" "n \<le> k" "n \<le> length (p @ q)" "r = drop n (p @ q)"
          "slow p (res b b') = (if n \<le> length p then Some (drop n p, v) else None)" by blast
      have "2 < n" using len [OF Some [unfolded x]] n(3,4) by simp
      then have "?f p = (if n \<le> length p then Some (drop n p, v) else None)"
        using p short n(5) by (cases "2 \<le> length p") auto
      with n Some pq x show ?thesis by auto
    qed
  qed
  consider "p @ q = []" | b where "p @ q = [b]" "goes_on b" | b s where "p @ q = b # s" "\<not> goes_on b"
    | b b' s where "p @ q = b # b' # s" "goes_on b" "\<not> goes_on b'" | b b' s where "p @ q = b # b' # s" "goes_on b" "goes_on b'"
    by (cases "p @ q"; cases "tl (p @ q)") auto
  then show ?goal
  proof cases
    case 1
    then show ?thesis by (simp add: two_byte_reader_def)
  next
    case (2 b)
    then show ?thesis by (cases p) (auto simp: two_byte_reader_def)
  next
    case (3 b s)
    then show ?thesis by (rule one)
  next
    case (4 b b' s)
    then show ?thesis by (rule two)
  next
    case (5 b b' s)
    then show ?thesis by (rule slow)
  qed
qed

lemma inline_readers:
  "VarintParse64 L = two_byte_reader (\<lambda>b. b AND 0x80 \<noteq> 0) ucast (\<lambda>b0 b1. ucast (ucast b0 + push_bit 7 (ucast b1 - 1) :: u32))
     (\<lambda>b0 b1. ucast b0 + push_bit 7 (ucast b1 - 1)) (VarintParseSlow64 L)"
  "VarintParse32 L = two_byte_reader (\<lambda>b. b AND 0x80 \<noteq> 0) ucast (\<lambda>b0 b1. ucast b0 + push_bit 7 (ucast b1 - 1))
     (\<lambda>b0 b1. ucast b0 + push_bit 7 (ucast b1 - 1)) (VarintParseSlow32 L)"
  "ReadTag L = two_byte_reader (\<lambda>b. \<not> b < 128) ucast (\<lambda>b0 b1. ucast b0 + push_bit 7 (ucast b1 - 1))
     (\<lambda>b0 b1. ucast b0 + push_bit 7 (ucast b1 - 1)) (ReadTagFallback L)"
  by (simp_all add: fun_eq_iff VarintParse64_def VarintParse32_def ReadTag_def two_byte_reader_def Let_def split: list.splits)

lemma inline_readers_local:
  assumes "pb_local L"
  shows "reads_locally 10 (VarintParse64 L)" "reads_locally 10 (VarintParse32 L)" "reads_locally 5 (ReadTag L)"
  using assms by (simp_all add: inline_readers two_byte_reader_local pb_local_def)

text \<open>With two bytes in reach the positional readers are the list readers on the rest of the memory.\<close>

lemma inline_readers_at:
  assumes "0 \<le> p" and "p + 2 \<le> int (length mem)"
  shows "VarintParse64_at L mem p = Inr (back_at mem (VarintParse64 L (drop (nat p) mem)) 0)"
    "VarintParse32_at L mem p = Inr (back_at mem (VarintParse32 L (drop (nat p) mem)) 0)"
    "ReadTag_at L mem p = Inr (back_at mem (ReadTag L (drop (nat p) mem)) 0)"
proof -
  obtain i where i: "p = int i" using assms(1) by (metis nonneg_int_cases)
  have l: "i + 2 \<le> length mem" using assms(2) i by linarith
  then have d: "drop i mem = mem ! i # mem ! Suc i # drop (Suc (Suc i)) mem"
    by (simp add: Cons_nth_drop_Suc)
  have g: "vec_get mem p = Inr (mem ! i)" "vec_get mem (p + 1) = Inr (mem ! Suc i)"
    using l by (simp_all add: vec_get_def i nat_add_distrib)
  have n: "int (length mem - Suc i) = int (length mem) - p - 1" "int (length mem - Suc (Suc i)) = int (length mem) - p - 2"
    using l i by linarith+
  show "VarintParse64_at L mem p = Inr (back_at mem (VarintParse64 L (drop (nat p) mem)) 0)"
    "VarintParse32_at L mem p = Inr (back_at mem (VarintParse32 L (drop (nat p) mem)) 0)"
    "ReadTag_at L mem p = Inr (back_at mem (ReadTag L (drop (nat p) mem)) 0)"
    unfolding VarintParse64_at_def VarintParse32_at_def ReadTag_at_def g
    by (simp_all add: i d VarintParse64_def VarintParse32_def ReadTag_def back_at_def Let_def n [unfolded i])
qed


section \<open>The library below\<close>

text \<open>
  \<open>DoneFallback\<close> at or behind \<open>buffer_end_\<close> reports a position past the limit, and otherwise moves to the next
  buffer, to the same place in the input; so does \<open>Next\<close> from \<open>buffer_end_\<close>; the string parser and the parser of unknown fields read from memory
  what their list versions read from the list.
\<close>

definition moves :: "('s eps_in \<Rightarrow> bytes) \<Rightarrow> 's eps_in \<Rightarrow> int \<Rightarrow> 's eps_in \<Rightarrow> int \<Rightarrow> bool" where
  "moves T st p st' p' \<longleftrightarrow>
     in_at T st' p' \<and> ahead T st' p' = ahead T st p \<and> BytesUntilLimit p' st' = BytesUntilLimit p st \<and>
     ei_last_tag_minus_1 st' = ei_last_tag_minus_1 st"

lemma moves_left: "moves T st p st' p' \<Longrightarrow> left T st' p' = left T st p"
  by (simp add: moves_def left_def)

definition in_lib_ok :: "'s in_lib \<Rightarrow> pb_lib \<Rightarrow> ('s eps_in \<Rightarrow> bytes) \<Rightarrow> bool" where
  "in_lib_ok L Lp T \<longleftrightarrow>
     (\<forall>st p d. in_at T st p \<longrightarrow> ei_limit_end st \<le> p \<longrightarrow>
        (case DoneFallback L (p - ei_buffer_end st) d st of ((q, fin), st') \<Rightarrow>
           if ei_limit st < p - ei_buffer_end st then q = None \<and> fin
           else if p - ei_buffer_end st < ei_limit st then
             \<not> fin \<and> (\<exists>p'. q = Some p' \<and> moves T st p st' p' \<and> p' < ei_buffer_end st')
           else True)) \<and>
     (\<forall>st. in_fit T st \<longrightarrow> 16 < ei_limit st \<longrightarrow>
        (\<exists>p st'. NextChunk L st = (Some p, st') \<and> moves T st (ei_buffer_end st) st' p \<and> p \<le> ei_buffer_end st' \<and>
           length (T st') < length (T st))) \<and>
     (\<forall>st p. in_at T st p \<longrightarrow> p + 5 \<le> ei_buffer_end st + 16 \<longrightarrow>
        (case StringParser_at L p st of (y, st') \<Rightarrow>
           agrees T st' (Option.bind (left T st p) (InlineGreedyStringParser Lp)) y \<and>
           ei_last_tag_minus_1 st' = ei_last_tag_minus_1 st)) \<and>
     (\<forall>tag st p. in_at T st p \<longrightarrow> p + 10 \<le> ei_buffer_end st + 16 \<longrightarrow>
        (case UnknownFieldParse_at L tag p st of ((q, raw), st') \<Rightarrow>
           agrees T st' (Option.bind (left T st p) (\<lambda>s. map_option (\<lambda>(raw, r). (r, raw)) (UnknownFieldParse Lp tag s))) (q, raw) \<and>
           ei_last_tag_minus_1 st' = ei_last_tag_minus_1 st))"

lemma in_lib_done:
  assumes "in_lib_ok L Lp T" and "in_at T st p" and "ei_limit_end st \<le> p"
    and "DoneFallback L (p - ei_buffer_end st) d st = ((q, fin), st')"
  shows "if ei_limit st < p - ei_buffer_end st then q = None \<and> fin
     else if p - ei_buffer_end st < ei_limit st then
       \<not> fin \<and> (\<exists>p'. q = Some p' \<and> moves T st p st' p' \<and> p' < ei_buffer_end st')
     else True"
proof -
  note u = assms(1) [unfolded in_lib_ok_def, THEN conjunct1, rule_format, OF assms(2,3), of d]
  show ?thesis by (rule u [unfolded assms(4) prod.case])
qed

lemma Done_past:
  assumes "in_lib_ok L Lp T" and "in_at T (pc_in c) p" and "left T (pc_in c) p = None"
  shows "\<exists>c'. Done L p c = ((True, None), c')"
proof -
  let ?st = "pc_in c"
  have u: "ei_limit ?st < p - ei_buffer_end ?st"
    using assms(3) by (auto simp: left_def BytesUntilLimit_def split: if_splits)
  then have e: "ei_limit_end ?st \<le> p" using assms(2) by (auto simp: in_at_def in_fit_def)
  obtain q fin st' where f: "DoneFallback L (p - ei_buffer_end ?st) (pc_group_depth c) ?st = ((q, fin), st')"
    by (metis prod.exhaust)
  have "q = None \<and> fin"
    using in_lib_done [OF assms(1,2) e f] u by simp
  with e u f show ?thesis by (simp add: Done_def DoneWithCheck_def Let_def)
qed

lemma Done_end:
  assumes "in_at T (pc_in c) p" and "left T (pc_in c) p = Some []"
  shows "Done L p c = ((True, Some p), c)"
proof -
  let ?st = "pc_in c"
  have z: "BytesUntilLimit p ?st = 0" using left_length [OF assms] by simp
  then have "ei_limit ?st = p - ei_buffer_end ?st" by (simp add: BytesUntilLimit_def)
  then show ?thesis
    using assms(1) by (auto simp: Done_def DoneWithCheck_def Let_def in_at_def in_fit_def min_def split: if_splits)
qed

lemma Done_more:
  assumes "in_lib_ok L Lp T" and "in_at T (pc_in c) p" and s: "left T (pc_in c) p = Some s" "s \<noteq> []"
  shows "\<exists>p' st'. Done L p c = ((False, Some p'), c\<lparr>pc_in := st'\<rparr>) \<and> in_at T st' p' \<and> p' < ei_buffer_end st' \<and>
    left T st' p' = Some s \<and> ei_last_tag_minus_1 st' = ei_last_tag_minus_1 (pc_in c)"
proof -
  let ?st = "pc_in c"
  have u: "0 < BytesUntilLimit p ?st" using left_length [OF assms(2) s(1)] s(2) by (cases s) simp_all
  show ?thesis
  proof (cases "p < ei_limit_end ?st")
    case True
    then have "p < ei_buffer_end ?st" using assms(2) by (auto simp: in_at_def in_fit_def)
    with True assms(2) s show ?thesis
      by (intro exI [of _ p] exI [of _ ?st]) (simp add: Done_def DoneWithCheck_def)
  next
    case False
    obtain q fin st' where f: "DoneFallback L (p - ei_buffer_end ?st) (pc_group_depth c) ?st = ((q, fin), st')"
      by (metis prod.exhaust)
    have l: "p - ei_buffer_end ?st < ei_limit ?st" using u by (simp add: BytesUntilLimit_def)
    have "\<not> fin \<and> (\<exists>p'. q = Some p' \<and> moves T ?st p st' p' \<and> p' < ei_buffer_end st')"
      using in_lib_done [OF assms(1,2) _ f] False l by simp
    then obtain p' where q: "q = Some p'" "\<not> fin" "in_at T st' p'" "p' < ei_buffer_end st'" "left T st' p' = Some s"
      "ei_last_tag_minus_1 st' = ei_last_tag_minus_1 ?st" using s(1) by (auto simp: moves_left) (auto simp: moves_def)
    have "Done L p c = ((False, Some p'), c\<lparr>pc_in := st'\<rparr>)"
      using False l f q(1,2) by (simp add: Done_def DoneWithCheck_def Let_def)
    with q show ?thesis by blast
  qed
qed

section \<open>The parse loop in memory\<close>

text \<open>
  The generated loop around a \<open>switch\<close>. A null pointer from \<open>ReadTag\<close> comes with the tag 0, for which no case
  matches and \<open>CHK_\<close> fails. A null result keeps the message as far as it was filled.
\<close>

datatype 'm at_result = AtHandled 'm int | AtFailure 'm | AtUnusual

type_synonym ('s, 'm) field_at = "'s in_lib \<Rightarrow> pb_lib \<Rightarrow> u32 \<Rightarrow> int \<Rightarrow> 'm \<Rightarrow> 's eps_in \<Rightarrow> ('m at_result \<times> 's eps_in) result"

type_synonym ('s, 'm) continue = "int \<Rightarrow> 'm \<Rightarrow> 's parse_ctx \<Rightarrow> ((int option \<times> 'm) \<times> 's parse_ctx) result option"

definition switch_at ::
    "('s, 'm) continue \<Rightarrow> 's in_lib \<Rightarrow> pb_lib \<Rightarrow> ('s, 'm) field_at \<Rightarrow> (bytes \<Rightarrow> 'm \<Rightarrow> 'm) \<Rightarrow> u32 \<Rightarrow> ('s, 'm) continue" where
  "switch_at continue L Lp field keep tag p m c =
     and_then (Some (field L Lp tag p m (pc_in c))) (\<lambda>(res, st).
       case res of
         AtHandled m' p' \<Rightarrow> continue p' m' (c\<lparr>pc_in := st\<rparr>)
       | AtFailure m' \<Rightarrow> Some (Inr ((None, m'), c\<lparr>pc_in := st\<rparr>))
       | AtUnusual \<Rightarrow>
           if tag = 0 \<or> tag AND 7 = 4 then Some (Inr ((Some p, m), c\<lparr>pc_in := SetLastTag tag st\<rparr>))
           else (case UnknownFieldParse_at L tag p st of
                   ((None, raw), st') \<Rightarrow> Some (Inr ((None, m), c\<lparr>pc_in := st'\<rparr>))
                 | ((Some p', raw), st') \<Rightarrow> continue p' (keep raw m) (c\<lparr>pc_in := st'\<rparr>)))"

fun parse_loop_at ::
    "nat \<Rightarrow> 's in_lib \<Rightarrow> pb_lib \<Rightarrow> ('s, 'm) field_at \<Rightarrow> (bytes \<Rightarrow> 'm \<Rightarrow> 'm) \<Rightarrow> ('s, 'm) continue" where
  "parse_loop_at 0 L Lp field keep p m c = None"
| "parse_loop_at (Suc fuel) L Lp field keep p m c =
     (case Done L p c of
        ((True, q), c1) \<Rightarrow> Some (Inr ((q, m), c1))
      | ((False, None), c1) \<Rightarrow> Some (Inl NullDeref)
      | ((False, Some p1), c1) \<Rightarrow>
          and_then (Some (ReadTag_at Lp (ei_mem (pc_in c1)) p1)) (\<lambda>(q, tag).
            case q of
              None \<Rightarrow> Some (Inr ((None, m), c1))
            | Some p2 \<Rightarrow> switch_at (parse_loop_at fuel L Lp field keep) L Lp field keep tag p2 m c1))"

text \<open>What a caller accepts: a pointer that is not null, and an end at the limit rather than at a tag.\<close>

definition accepted :: "((int option \<times> 'm) \<times> 's parse_ctx) result option \<Rightarrow> 'm option" where
  "accepted x =
     (case x of
        Some (Inr ((Some p, m), c)) \<Rightarrow> if EndedAtLimit (pc_in c) then Some m else None
      | _ \<Rightarrow> None)"

definition returns :: "((int option \<times> 'm) \<times> 's parse_ctx) result option \<Rightarrow> bool" where
  "returns x \<longleftrightarrow> (\<exists>y. x = Some (Inr y))"

text \<open>A case of the \<open>switch\<close> past the limit can only fail or stay past it.\<close>

definition lost :: "('s eps_in \<Rightarrow> bytes) \<Rightarrow> 's eps_in \<Rightarrow> 'm at_result \<Rightarrow> bool" where
  "lost T st res \<longleftrightarrow> (case res of AtHandled m p \<Rightarrow> in_at T st p \<and> left T st p = None | AtFailure m \<Rightarrow> True | AtUnusual \<Rightarrow> False)"

definition field_simulates :: "pb_lib \<Rightarrow> (pb_lib \<Rightarrow> u32 \<Rightarrow> bytes \<Rightarrow> 'm \<Rightarrow> 'm field_result) \<Rightarrow> 's in_lib \<Rightarrow> ('s eps_in \<Rightarrow> bytes) \<Rightarrow> ('s, 'm) field_at \<Rightarrow> bool" where
  "field_simulates Lp field L T field_at \<longleftrightarrow>
     (\<forall>tag p m st. in_at T st p \<longrightarrow> p + 10 \<le> ei_buffer_end st + 16 \<longrightarrow>
        (\<exists>res st'. field_at L Lp tag p m st = Inr (res, st') \<and>
           (res = AtUnusual \<longrightarrow> st' = st) \<and> ei_last_tag_minus_1 st' = ei_last_tag_minus_1 st \<and>
           (case left T st p of
              None \<Rightarrow> lost T st' res \<or> res = AtUnusual
            | Some s \<Rightarrow>
                (case field Lp tag s m of
                   Handled m' r \<Rightarrow> \<exists>p'. res = AtHandled m' p' \<and> in_at T st' p' \<and> left T st' p' = Some r
                 | Failure \<Rightarrow> lost T st' res
                 | Unusual \<Rightarrow> res = AtUnusual))))"

definition rejects :: "((int option \<times> 'm) \<times> 's parse_ctx) result option \<Rightarrow> bool" where
  "rejects x \<longleftrightarrow> returns x \<and> accepted x = None"

lemma rejects_simps [simp]:
  "rejects (Some (Inr ((None, m), c)))" "rejects (Some (Inr ((Some p, m), c))) \<longleftrightarrow> \<not> EndedAtLimit (pc_in c)"
  by (simp_all add: rejects_def returns_def accepted_def)

lemma last_tag_set: "tag = 0 \<or> tag AND 7 = 4 \<Longrightarrow> \<not> EndedAtLimit (SetLastTag tag st)"
  by (auto simp: EndedAtLimit_def SetLastTag_def)

text \<open>The two facts about unknown fields, from the library.\<close>

lemma unknown_past:
  assumes "in_lib_ok L Lp T" and "in_at T st p" and "p + 10 \<le> ei_buffer_end st + 16"
    and "UnknownFieldParse_at L tag p st = ((Some p', raw), st')"
    and "left T st p = None \<or> (\<exists>s. left T st p = Some s \<and> UnknownFieldParse Lp tag s = None)"
  shows "in_at T st' p' \<and> left T st' p' = None"
proof -
  have "agrees T st' (Option.bind (left T st p) (\<lambda>s. map_option (\<lambda>(raw, r). (r, raw)) (UnknownFieldParse Lp tag s))) (Some p', raw)"
    using assms(1-4) unfolding in_lib_ok_def by (metis (mono_tags, lifting) case_prod_conv)
  moreover have "Option.bind (left T st p) (\<lambda>s. map_option (\<lambda>(raw, r). (r, raw)) (UnknownFieldParse Lp tag s)) = None"
    using assms(5) by auto
  ultimately show ?thesis by (simp add: agrees_def)
qed

lemma unknown_live:
  assumes "in_lib_ok L Lp T" and "in_at T st p" and "p + 10 \<le> ei_buffer_end st + 16"
    and "left T st p = Some s" and "UnknownFieldParse Lp tag s = Some (raw, r)"
  shows "\<exists>p' st'. UnknownFieldParse_at L tag p st = ((Some p', raw), st') \<and> in_at T st' p' \<and> left T st' p' = Some r \<and>
    ei_last_tag_minus_1 st' = ei_last_tag_minus_1 st"
proof -
  obtain q raw' st' where u: "UnknownFieldParse_at L tag p st = ((q, raw'), st')" by (metis prod.exhaust)
  then have "agrees T st' (Option.bind (left T st p) (\<lambda>s. map_option (\<lambda>(raw, r). (r, raw)) (UnknownFieldParse Lp tag s))) (q, raw') \<and>
      ei_last_tag_minus_1 st' = ei_last_tag_minus_1 st"
    using assms(1-3) unfolding in_lib_ok_def by (metis (mono_tags, lifting) case_prod_conv)
  then show ?thesis using assms(4,5) u by (auto simp: agrees_def)
qed

lemma unknown_same_tag:
  "in_lib_ok L Lp T \<Longrightarrow> in_at T st p \<Longrightarrow> p + 10 \<le> ei_buffer_end st + 16 \<Longrightarrow>
     UnknownFieldParse_at L tag p st = (y, st') \<Longrightarrow> ei_last_tag_minus_1 st' = ei_last_tag_minus_1 st"
  unfolding in_lib_ok_def by (metis (mono_tags, lifting) case_prod_conv prod.exhaust)

lemma parse_step:
  assumes "s \<noteq> []" and "ReadTag Lp s = Some (r, tag)"
  shows "parse_loop (Suc k) Lp field keep s m =
    (case field Lp tag r m of
       Handled m' r \<Rightarrow> parse_loop k Lp field keep r m'
     | Failure \<Rightarrow> None
     | Unusual \<Rightarrow>
         if tag = 0 \<or> tag AND 7 = 4 then Some (m, Some tag)
         else (case UnknownFieldParse Lp tag r of None \<Rightarrow> None | Some (raw, r) \<Rightarrow> parse_loop k Lp field keep r (keep raw m)))"
  using assms by simp

locale stream_class =
  fixes field :: "pb_lib \<Rightarrow> u32 \<Rightarrow> bytes \<Rightarrow> 'm \<Rightarrow> 'm field_result"
    and field_at :: "('s, 'm) field_at"
    and keep :: "bytes \<Rightarrow> 'm \<Rightarrow> 'm"
  assumes simulates: "in_lib_ok L Lp T \<Longrightarrow> pb_local Lp \<Longrightarrow> field_simulates Lp field L T field_at"
    and shrinks: "pb_lib_ok Lp \<Longrightarrow> field_shrinks Lp field"
begin

lemma past_rejects:
  "in_lib_ok L Lp T \<Longrightarrow> in_at T (pc_in c) p \<Longrightarrow> left T (pc_in c) p = None \<Longrightarrow>
     rejects (parse_loop_at (Suc k) L Lp field_at keep p m c)"
  using Done_past [of L Lp T c p] by auto

lemma lost_rejects:
  assumes "lost T st res" and "\<And>p m. in_at T st p \<Longrightarrow> left T st p = None \<Longrightarrow> rejects (continue p m (c\<lparr>pc_in := st\<rparr>))"
  shows "rejects (case res of
      AtHandled m' p' \<Rightarrow> continue p' m' (c\<lparr>pc_in := st\<rparr>)
    | AtFailure m' \<Rightarrow> Some (Inr ((None, m'), c\<lparr>pc_in := st\<rparr>))
    | AtUnusual \<Rightarrow> x)"
  using assms by (cases res) (auto simp: lost_def)

lemma switch_past:
  assumes L: "in_lib_ok L Lp T" and lo: "pb_local Lp" and a: "in_at T (pc_in c) p" "p + 10 \<le> ei_buffer_end (pc_in c) + 16"
    and n: "left T (pc_in c) p = None"
    and past: "\<And>p m c. in_at T (pc_in c) p \<Longrightarrow> left T (pc_in c) p = None \<Longrightarrow> rejects (continue p m c)"
  shows "rejects (switch_at continue L Lp field_at keep tag p m c)"
proof -
  from simulates [OF L lo, unfolded field_simulates_def] a n obtain res st' where
    f: "field_at L Lp tag p m (pc_in c) = Inr (res, st')" "res = AtUnusual \<longrightarrow> st' = pc_in c" "lost T st' res \<or> res = AtUnusual"
    by fastforce
  show ?thesis
  proof (cases "res = AtUnusual")
    case True
    then have "rejects (continue p' (keep raw m) (c\<lparr>pc_in := st''\<rparr>))"
      if "UnknownFieldParse_at L tag p (pc_in c) = ((Some p', raw), st'')" for p' raw st''
      using unknown_past [OF L a that] n past by simp
    with True f show ?thesis
      by (auto simp: switch_at_def last_tag_set split: prod.splits option.splits)
  next
    case False
    with f(3) have "lost T st' res" by blast
    from lost_rejects [OF this, of continue c] past f(1) show ?thesis by (simp add: switch_at_def)
  qed
qed

lemma switch_live:
  assumes L: "in_lib_ok L Lp T" and lo: "pb_local Lp" and a: "in_at T (pc_in c) p" "p + 10 \<le> ei_buffer_end (pc_in c) + 16"
    and s: "left T (pc_in c) p = Some s" and e: "EndedAtLimit (pc_in c)"
    and past: "\<And>p m c. in_at T (pc_in c) p \<Longrightarrow> left T (pc_in c) p = None \<Longrightarrow> rejects (continue p m c)"
    and live: "\<And>p m c r. in_at T (pc_in c) p \<Longrightarrow> left T (pc_in c) p = Some r \<Longrightarrow> EndedAtLimit (pc_in c) \<Longrightarrow>
      length r \<le> length s \<Longrightarrow> returns (continue p m c) \<and> accepted (continue p m c) = F r m"
    and P: "pb_lib_ok Lp"
  shows "returns (switch_at continue L Lp field_at keep tag p m c) \<and>
    accepted (switch_at continue L Lp field_at keep tag p m c) =
      (case field Lp tag s m of
         Handled m' r \<Rightarrow> F r m'
       | Failure \<Rightarrow> None
       | Unusual \<Rightarrow>
           if tag = 0 \<or> tag AND 7 = 4 then None
           else (case UnknownFieldParse Lp tag s of None \<Rightarrow> None | Some (raw, r) \<Rightarrow> F r (keep raw m)))"
proof -
  from simulates [OF L lo, unfolded field_simulates_def] a s obtain res st' where
    f: "field_at L Lp tag p m (pc_in c) = Inr (res, st')" "res = AtUnusual \<longrightarrow> st' = pc_in c"
      "ei_last_tag_minus_1 st' = ei_last_tag_minus_1 (pc_in c)"
      "case field Lp tag s m of
         Handled m' r \<Rightarrow> \<exists>p'. res = AtHandled m' p' \<and> in_at T st' p' \<and> left T st' p' = Some r
       | Failure \<Rightarrow> lost T st' res | Unusual \<Rightarrow> res = AtUnusual"
    by fastforce
  have e': "EndedAtLimit st'" using e f(3) by (simp add: EndedAtLimit_def)
  show ?thesis
  proof (cases "field Lp tag s m")
    case (Handled m' r)
    then have "length r \<le> length s" using shrinks [OF P] unfolding field_shrinks_def by blast
    with f Handled e' live [of "c\<lparr>pc_in := st'\<rparr>"] show ?thesis by (auto simp: switch_at_def)
  next
    case Failure
    with f(4) have "lost T st' res" by simp
    from lost_rejects [OF this, of continue c] past f(1) Failure show ?thesis by (simp add: switch_at_def rejects_def)
  next
    case Unusual
    then have u: "res = AtUnusual" "st' = pc_in c" using f(2,4) by simp_all
    show ?thesis
    proof (cases "tag = 0 \<or> tag AND 7 = 4")
      case True
      with Unusual u f(1) show ?thesis
        using last_tag_set [OF True, of "pc_in c"] by (auto simp: switch_at_def returns_def accepted_def)
    next
      case False
      then have sw: "switch_at continue L Lp field_at keep tag p m c =
          (case UnknownFieldParse_at L tag p (pc_in c) of
             ((None, raw), st') \<Rightarrow> Some (Inr ((None, m), c\<lparr>pc_in := st'\<rparr>))
           | ((Some p', raw), st') \<Rightarrow> continue p' (keep raw m) (c\<lparr>pc_in := st'\<rparr>))"
        using u f(1) by (auto simp: switch_at_def)
      show ?thesis
      proof (cases "UnknownFieldParse Lp tag s")
        case None
        have "rejects (continue p' (keep raw m) (c\<lparr>pc_in := st''\<rparr>))"
          if "UnknownFieldParse_at L tag p (pc_in c) = ((Some p', raw), st'')" for p' raw st''
          using unknown_past [OF L a that] None s past by simp
        then have "rejects (switch_at continue L Lp field_at keep tag p m c)"
          unfolding sw by (auto split: prod.splits option.splits)
        with None Unusual False show ?thesis by (auto simp: rejects_def)
      next
        case (Some x)
        obtain raw r where x: "x = (raw, r)" by fastforce
        from unknown_live [OF L a s Some [unfolded x]] obtain p' st'' where
          l: "UnknownFieldParse_at L tag p (pc_in c) = ((Some p', raw), st'')" "in_at T st'' p'" "left T st'' p' = Some r"
            "ei_last_tag_minus_1 st'' = ei_last_tag_minus_1 (pc_in c)" by blast
        have "length r \<le> length s" using pb_lib_shrinks(5) [OF P] Some x by blast
        with l e live [of "c\<lparr>pc_in := st''\<rparr>" p' r "keep raw m"] have
          "returns (continue p' (keep raw m) (c\<lparr>pc_in := st''\<rparr>)) \<and> accepted (continue p' (keep raw m) (c\<lparr>pc_in := st''\<rparr>)) = F r (keep raw m)"
          by (simp add: EndedAtLimit_def)
        with Some x Unusual False l(1) show ?thesis unfolding sw by simp
      qed
    qed
  qed
qed

lemma loop_agrees:
  assumes L: "in_lib_ok L Lp T" and lo: "pb_local Lp" and P: "pb_lib_ok Lp"
  shows "in_at T (pc_in c) p \<Longrightarrow> left T (pc_in c) p = Some s \<Longrightarrow> EndedAtLimit (pc_in c) \<Longrightarrow> length s < k \<Longrightarrow>
    returns (parse_loop_at (Suc k) L Lp field_at keep p m c) \<and>
    accepted (parse_loop_at (Suc k) L Lp field_at keep p m c) =
      (case parse_loop k Lp field keep s m of Some (m', None) \<Rightarrow> Some m' | _ \<Rightarrow> None)"
proof (induction k arbitrary: p s m c)
  case 0
  then show ?case by simp
next
  case (Suc k)
  show ?case
  proof (cases "s = []")
    case True
    with Done_end [of T c p L] Suc.prems show ?thesis by (simp add: returns_def accepted_def)
  next
    case False
    from Done_more [OF L Suc.prems(1,2) False] obtain p1 st1 where
      d: "Done L p c = ((False, Some p1), c\<lparr>pc_in := st1\<rparr>)" "in_at T st1 p1" "p1 < ei_buffer_end st1"
        "left T st1 p1 = Some s" "ei_last_tag_minus_1 st1 = ei_last_tag_minus_1 (pc_in c)" by blast
    let ?c1 = "c\<lparr>pc_in := st1\<rparr>" and ?again = "parse_loop_at (Suc k) L Lp field_at keep"
    have b: "0 \<le> p1" "p1 + 2 \<le> int (length (ei_mem st1))" "p1 + int 5 \<le> ei_buffer_end st1 + 16"
      using d(2,3) by (auto simp: in_at_def in_fit_def)
    note at = inline_readers_at(3) [OF b(1,2), of Lp]
    obtain q tag where t: "back_at (ei_mem st1) (ReadTag Lp (drop (nat p1) (ei_mem st1))) 0 = (q, tag)" by fastforce
    have ag: "agrees T st1 (ReadTag Lp s) (q, tag)"
      using reader_agrees(1) [OF inline_readers_local(3) [OF lo] d(2) b(3), of 0] by (simp add: d(4) t)
    have room: "p2 + 10 \<le> ei_buffer_end st1 + 16" if "q = Some p2" for p2
      using reader_agrees(2) [OF inline_readers_local(3) [OF lo] d(2) b(3), of 0 p2 tag] that t d(3) by simp
    have again: "parse_loop_at (Suc (Suc k)) L Lp field_at keep p m c =
        (case q of None \<Rightarrow> Some (Inr ((None, m), ?c1)) | Some p2 \<Rightarrow> switch_at ?again L Lp field_at keep tag p2 m ?c1)"
      using d(1) at t by (subst parse_loop_at.simps) simp
    have past: "rejects (?again p m c)" if "in_at T (pc_in c) p" "left T (pc_in c) p = None" for p m c
      by (rule past_rejects [OF L that])
    show ?thesis
    proof (cases "ReadTag Lp s")
      case None
      have "rejects (parse_loop_at (Suc (Suc k)) L Lp field_at keep p m c)"
        using switch_past [where c = ?c1 and continue = ?again and tag = tag and m = m, OF L lo] past ag room None
        unfolding again by (auto simp: agrees_def split: option.splits)
      with None False show ?thesis by (auto simp: rejects_def)
    next
      case (Some x)
      obtain r tag' where "x = (r, tag')" by fastforce
      with ag Some obtain p2 where r: "ReadTag Lp s = Some (r, tag)" "q = Some p2" "in_at T st1 p2" "left T st1 p2 = Some r"
        by (auto simp: agrees_def)
      have len: "length r < length s" using VarintParse_shrinks(3) [OF P r(1)] .
      have e1: "EndedAtLimit st1" using Suc.prems(3) d(5) by (simp add: EndedAtLimit_def)
      let ?F = "\<lambda>r m. case parse_loop k Lp field keep r m of Some (m', None) \<Rightarrow> Some m' | _ \<Rightarrow> None"
      have live: "returns (?again p m c) \<and> accepted (?again p m c) = ?F r' m"
        if "in_at T (pc_in c) p" "left T (pc_in c) p = Some r'" "EndedAtLimit (pc_in c)" "length r' \<le> length r" for p m c r'
        using Suc.IH [OF that(1-3)] that(4) len Suc.prems(4) by simp
      have sw: "returns (switch_at ?again L Lp field_at keep tag p2 m ?c1) \<and>
          accepted (switch_at ?again L Lp field_at keep tag p2 m ?c1) =
            (case field Lp tag r m of
               Handled m' r \<Rightarrow> ?F r m'
             | Failure \<Rightarrow> None
             | Unusual \<Rightarrow>
                 if tag = 0 \<or> tag AND 7 = 4 then None
                 else (case UnknownFieldParse Lp tag r of None \<Rightarrow> None | Some (raw, r) \<Rightarrow> ?F r (keep raw m)))"
        by (rule switch_live [OF L lo _ _ _ _ past live P]) (use r room e1 in simp_all)
      have "accepted (switch_at ?again L Lp field_at keep tag p2 m ?c1) =
          (case parse_loop (Suc k) Lp field keep s m of Some (m', None) \<Rightarrow> Some m' | _ \<Rightarrow> None)"
        unfolding sw [THEN conjunct2] parse_step [OF False r(1)]
        by (cases "field Lp tag r m") (simp_all split: option.split)
      with sw r(2) show ?thesis unfolding again by simp
    qed
  qed
qed

end

end
