(* ===== verification/Eps_Header.thy ===== *)
theory Eps_Header
  imports Eps_Parse
begin

unbundle bit_operations_syntax

text \<open>
  The parser of \<^verbatim>\<open>messageHeader\<close> on the memory of an input stream, as an instance of \<open>stream_class\<close>, and a
  library for flat input that satisfies the laws. A field whose reader returns null keeps what was stored
  before \<open>CHK_\<close> looks at the pointer.
\<close>

section \<open>Fields\<close>

definition varint32_at ::
    "pb_lib \<Rightarrow> (u32 \<Rightarrow> 'm \<Rightarrow> 'm) \<Rightarrow> int \<Rightarrow> 'm \<Rightarrow> 's eps_in \<Rightarrow> ('m at_result \<times> 's eps_in) result" where
  "varint32_at Lp assign p m st =
     bind_result (VarintParse32_at Lp (ei_mem st) p) (\<lambda>(q, v).
       Inr (case q of None \<Rightarrow> AtFailure (assign v m) | Some p' \<Rightarrow> AtHandled (assign v m) p', st))"

definition string_at ::
    "'s in_lib \<Rightarrow> (bytes \<Rightarrow> bool) \<Rightarrow> (bytes \<Rightarrow> 'm \<Rightarrow> 'm) \<Rightarrow> int \<Rightarrow> 'm \<Rightarrow> 's eps_in \<Rightarrow> ('m at_result \<times> 's eps_in) result" where
  "string_at L check assign p m st =
     (case StringParser_at L p st of
        ((None, s), st') \<Rightarrow> Inr (AtFailure (assign s m), st')
      | ((Some p', s), st') \<Rightarrow> Inr (if check s then AtHandled (assign s m) p' else AtFailure (assign s m), st'))"

definition messageHeader_field_at :: "('s, messageHeader) field_at" where
  "messageHeader_field_at L Lp tag p m st =
     (if drop_bit 3 tag = 1 then
        (if (ucast tag :: byte) = 8
         then varint32_at Lp (\<lambda>v m. m\<lparr>hdr_has_bits := hdr_has_bits m OR 4, hdr_userid := v\<rparr>) p m st
         else Inr (AtUnusual, st))
      else if drop_bit 3 tag = 2 then
        (if (ucast tag :: byte) = 18
         then string_at L (VerifyUTF8 Lp) (\<lambda>s m. m\<lparr>hdr_has_bits := hdr_has_bits m OR 1, hdr_type := string_of_bytes s\<rparr>) p m st
         else Inr (AtUnusual, st))
      else if drop_bit 3 tag = 3 then
        (if (ucast tag :: byte) = 26
         then string_at L (\<lambda>s. True) (\<lambda>s m. m\<lparr>hdr_has_bits := hdr_has_bits m OR 2, hdr_arr := s\<rparr>) p m st
         else Inr (AtUnusual, st))
      else if drop_bit 3 tag = 4 then
        (if (ucast tag :: byte) = 32
         then varint32_at Lp (\<lambda>v m. m\<lparr>hdr_has_bits := hdr_has_bits m OR 8, hdr_arrsize := v\<rparr>) p m st
         else Inr (AtUnusual, st))
      else Inr (AtUnusual, st))"

text \<open>What the two kinds of field do, against their readers on lists.\<close>

definition field_at_ok ::
    "('s eps_in \<Rightarrow> bytes) \<Rightarrow> 's eps_in \<Rightarrow> int \<Rightarrow> ('m at_result \<times> 's eps_in) result \<Rightarrow> (bytes \<Rightarrow> 'm field_result) \<Rightarrow> bool" where
  "field_at_ok T st p y field \<longleftrightarrow>
     (\<exists>res st'. y = Inr (res, st') \<and> (res = AtUnusual \<longrightarrow> st' = st) \<and> ei_last_tag_minus_1 st' = ei_last_tag_minus_1 st \<and>
        (case left T st p of
           None \<Rightarrow> lost T st' res \<or> res = AtUnusual
         | Some s \<Rightarrow>
             (case field s of
                Handled m' r \<Rightarrow> \<exists>p'. res = AtHandled m' p' \<and> in_at T st' p' \<and> left T st' p' = Some r
              | Failure \<Rightarrow> lost T st' res
              | Unusual \<Rightarrow> res = AtUnusual)))"

lemma unusual_at_ok: "field_at_ok T st p (Inr (AtUnusual, st)) (\<lambda>s. Unusual)"
  by (simp add: field_at_ok_def split: option.split)

lemma varint32_at_ok:
  assumes "pb_local Lp" and a: "in_at T st p" and k: "p + 10 \<le> ei_buffer_end st + 16"
  shows "field_at_ok T st p (varint32_at Lp assign p m st)
    (\<lambda>s. case VarintParse32 Lp s of None \<Rightarrow> Failure | Some (r, v) \<Rightarrow> Handled (assign v m) r)"
proof -
  have b: "0 \<le> p" "p + 2 \<le> int (length (ei_mem st))" "p + int 10 \<le> ei_buffer_end st + 16"
    using a k by (auto simp: in_at_def in_fit_def)
  obtain q v where y: "back_at (ei_mem st) (VarintParse32 Lp (drop (nat p) (ei_mem st))) 0 = (q, v)" by fastforce
  have "agrees T st (Option.bind (left T st p) (VarintParse32 Lp)) (q, v)"
    using reader_agrees(1) [OF inline_readers_local(2) [OF assms(1)] a b(3), of 0] by (simp add: y)
  then show ?thesis
    using inline_readers_at(2) [OF b(1,2), of Lp] y
    by (cases q) (auto simp: field_at_ok_def varint32_at_def agrees_def lost_def split: option.splits)
qed

lemma in_lib_string:
  "in_lib_ok L Lp T \<Longrightarrow> in_at T st p \<Longrightarrow> p + 10 \<le> ei_buffer_end st + 16 \<Longrightarrow> StringParser_at L p st = (y, st') \<Longrightarrow>
     agrees T st' (Option.bind (left T st p) (InlineGreedyStringParser Lp)) y \<and> ei_last_tag_minus_1 st' = ei_last_tag_minus_1 st"
  unfolding in_lib_ok_def by fastforce

lemma string_at_ok:
  assumes "in_lib_ok L Lp T" and "in_at T st p" and "p + 10 \<le> ei_buffer_end st + 16"
  shows "field_at_ok T st p (string_at L check assign p m st)
    (\<lambda>s. case InlineGreedyStringParser Lp s of None \<Rightarrow> Failure | Some (r, v) \<Rightarrow> if check v then Handled (assign v m) r else Failure)"
proof -
  obtain q v st' where y: "StringParser_at L p st = ((q, v), st')" by (metis prod.exhaust)
  from in_lib_string [OF assms y] show ?thesis
    by (cases q) (auto simp: y field_at_ok_def string_at_def agrees_def lost_def split: option.splits)
qed

lemmas bytes_at_ok = string_at_ok [where check = "\<lambda>s. True", simplified if_True]

lemma field_at_ok_if:
  "(b \<Longrightarrow> field_at_ok T st p x f) \<Longrightarrow> (\<not> b \<Longrightarrow> field_at_ok T st p y g) \<Longrightarrow>
     field_at_ok T st p (if b then x else y) (\<lambda>s. if b then f s else g s)"
  by simp

lemma messageHeader_simulates:
  assumes "in_lib_ok L Lp T" and "pb_local Lp"
  shows "field_simulates Lp messageHeader_field L T messageHeader_field_at"
proof -
  have "field_at_ok T st p (messageHeader_field_at L Lp tag p m st) (\<lambda>s. messageHeader_field Lp tag s m)"
    if a: "in_at T st p" "p + 10 \<le> ei_buffer_end st + 16" for st p tag m
    unfolding messageHeader_field_at_def messageHeader_field_def
    by (intro field_at_ok_if unusual_at_ok varint32_at_ok [OF assms(2) a] string_at_ok [OF assms(1) a] bytes_at_ok [OF assms(1) a])
  then show ?thesis unfolding field_at_ok_def field_simulates_def by blast
qed

interpretation header_in: stream_class messageHeader_field messageHeader_field_at messageHeader_keep
  by unfold_locales (fact messageHeader_simulates, fact messageHeader_field_shrinks)

section \<open>Flat input\<close>

lemma InitFrom_flat_at:
  assumes "length buffer = 32" and "InitFrom_flat d (EpsCopyInputStream_new aliasing buffer) = (p, st)"
    and "T st = (if length d \<le> 16 then [] else drop (length d - 16) d)"
  shows "in_at T st p \<and> left T st p = Some d \<and> EndedAtLimit st"
proof (cases "length d \<le> 16")
  case True
  then have "p = 0" "ei_mem st = d @ drop (length d) buffer" "ei_limit st = 0" "ei_buffer_end st = int (length d)"
      "ei_limit_end st = int (length d)" "ei_next_chunk st = None" "ei_last_tag_minus_1 st = 0" "T st = []"
    using assms by (auto simp: InitFrom_flat_def EpsCopyInputStream_new_def Let_def kSlopBytes_def)
  with True assms(1) show ?thesis
    by (simp add: in_at_def in_fit_def left_def ahead_def BytesUntilLimit_def EndedAtLimit_def)
next
  case False
  then have n: "nat (int (length d) - 16) = length d - 16" by simp
  have f: "p = 0" "ei_mem st = d" "ei_limit st = 16" "ei_buffer_end st = int (length d) - 16"
      "ei_limit_end st = int (length d) - 16" "ei_next_chunk st = Some Own_buffer" "ei_last_tag_minus_1 st = 0"
      "T st = drop (length d - 16) d"
    using False assms by (auto simp: InitFrom_flat_def EpsCopyInputStream_new_def Let_def kSlopBytes_def)
  then have "ahead T st p = d" using n False by (simp add: ahead_def)
  with f n False show ?thesis
    by (simp add: in_at_def in_fit_def left_def BytesUntilLimit_def EndedAtLimit_def)
qed

definition messageHeader_InternalParse_at ::
    "nat \<Rightarrow> 's in_lib \<Rightarrow> pb_lib \<Rightarrow> int \<Rightarrow> messageHeader \<Rightarrow> 's parse_ctx \<Rightarrow> ((int option \<times> messageHeader) \<times> 's parse_ctx) result option" where
  "messageHeader_InternalParse_at fuel L Lp = parse_loop_at fuel L Lp messageHeader_field_at messageHeader_keep"

text \<open>A whole message: a context on the bytes, an empty message, and the caller's test.\<close>

definition messageHeader_parse_flat ::
    "'s in_lib \<Rightarrow> pb_lib \<Rightarrow> int \<Rightarrow> bool \<Rightarrow> bytes \<Rightarrow> bytes \<Rightarrow> ((int option \<times> messageHeader) \<times> 's parse_ctx) result option" where
  "messageHeader_parse_flat L Lp depth aliasing buffer d =
     (case ParseContext_flat depth aliasing buffer d of
        (p, c) \<Rightarrow> messageHeader_InternalParse_at (length d + 2) L Lp p messageHeader_new c)"

lemma header_flat:
  fixes L :: "'s in_lib"
  assumes "pb_lib_ok Lp" and "pb_local Lp" and "in_lib_ok L Lp T" and "length buffer = 32"
    and T: "\<And>p st. InitFrom_flat d (EpsCopyInputStream_new aliasing buffer) = (p, st) \<Longrightarrow>
      T st = (if length d \<le> 16 then [] else drop (length d - 16) d)"
  shows "returns (messageHeader_parse_flat L Lp depth aliasing buffer d) \<and>
    accepted (messageHeader_parse_flat L Lp depth aliasing buffer d) = messageHeader_parse Lp d"
proof -
  obtain p and st :: "'s eps_in" where i: "InitFrom_flat d (EpsCopyInputStream_new aliasing buffer) = (p, st)" by fastforce
  let ?c = "\<lparr>pc_in = st, pc_depth = depth, pc_group_depth = int32_min\<rparr>"
  from InitFrom_flat_at [where T = T, OF assms(4) i T [OF i]] have
    a: "in_at T (pc_in ?c) p" "left T (pc_in ?c) p = Some d" "EndedAtLimit (pc_in ?c)" by simp_all
  have e: "messageHeader_parse_flat L Lp depth aliasing buffer d =
      parse_loop_at (Suc (Suc (length d))) L Lp messageHeader_field_at messageHeader_keep p messageHeader_new ?c"
    by (simp add: messageHeader_parse_flat_def messageHeader_InternalParse_at_def ParseContext_flat_def i)
  show ?thesis
    using header_in.loop_agrees [OF assms(3,2,1) a, of "Suc (length d)" messageHeader_new]
    unfolding e messageHeader_parse_def parse_message_def by simp
qed

end
