(* ===== verification/Eps_Chunks.thy ===== *)
theory Eps_Chunks
  imports Eps_Header
begin

unbundle bit_operations_syntax

text \<open>
  A library for flat input that satisfies the laws, with slow readers that stop at ten and five bytes, and the
  parse of \<^verbatim>\<open>messageHeader\<close> from a buffer with it.
\<close>

section \<open>Bounded readers\<close>

text \<open>\<open>up_to lo k f\<close> reads what \<open>f\<close> reads when that is more than \<open>lo\<close> and at most \<open>k\<close> bytes.\<close>

definition up_to :: "nat \<Rightarrow> nat \<Rightarrow> (bytes \<Rightarrow> (bytes \<times> 'v) option) \<Rightarrow> bytes \<Rightarrow> (bytes \<times> 'v) option" where
  "up_to lo k f p =
     (case f p of
        None \<Rightarrow> None
      | Some (r, v) \<Rightarrow> if length r + lo < length p \<and> length p \<le> length r + k then Some (r, v) else None)"

text \<open>One form for the readers that begin with a varint: it gives a length, which is taken from what follows.\<close>

definition after_varint :: "(nat \<Rightarrow> nat) \<Rightarrow> (nat \<Rightarrow> bytes \<Rightarrow> 'v) \<Rightarrow> bytes \<Rightarrow> (bytes \<times> 'v) option" where
  "after_varint len g p =
     (case varint_decode p of
        None \<Rightarrow> None
      | Some (m, r) \<Rightarrow>
          if len m \<le> length r then Some (drop (len m) r, g m (take (length p - length r + len m) p)) else None)"

definition bounded_lib :: pb_lib where
  "bounded_lib = ref_lib\<lparr>VarintParseSlow64 := \<lambda>p h. up_to 2 10 (\<lambda>p. slow64_ref p h) p,
     VarintParseSlow32 := \<lambda>p h. up_to 2 10 (\<lambda>p. slow32_ref p h) p,
     ReadTagFallback := \<lambda>p h. up_to 2 5 (\<lambda>p. slow32_ref p h) p,
     ReadSizeFallback := \<lambda>p h. up_to 1 5 (after_varint (\<lambda>m. 0) (\<lambda>m bs. m)) p\<rparr>"

text \<open>A reader whose result does not depend on what follows.\<close>

definition prefix_reader :: "(bytes \<Rightarrow> (bytes \<times> 'v) option) \<Rightarrow> bool" where
  "prefix_reader f \<longleftrightarrow>
     (\<forall>p q. case f (p @ q) of
        None \<Rightarrow> f p = None
      | Some (r, v) \<Rightarrow> \<exists>n \<le> length (p @ q). r = drop n (p @ q) \<and> f p = (if n \<le> length p then Some (drop n p, v) else None))"

lemma up_to_local:
  assumes "prefix_reader f"
  shows "reads_locally k (up_to lo k f)"
  unfolding reads_locally_def
proof (intro allI)
  fix p q
  have f: "case f (p @ q) of None \<Rightarrow> f p = None
    | Some (r, v) \<Rightarrow> \<exists>n \<le> length (p @ q). r = drop n (p @ q) \<and> f p = (if n \<le> length p then Some (drop n p, v) else None)"
    using assms unfolding prefix_reader_def by blast
  show "case up_to lo k f (p @ q) of None \<Rightarrow> up_to lo k f p = None
    | Some (r, v) \<Rightarrow> \<exists>n. 0 < n \<and> n \<le> k \<and> n \<le> length (p @ q) \<and> r = drop n (p @ q) \<and>
        up_to lo k f p = (if n \<le> length p then Some (drop n p, v) else None)"
  proof (cases "f (p @ q)")
    case None
    with f show ?thesis by (simp add: up_to_def)
  next
    case (Some x)
    obtain r v where "x = (r, v)" by fastforce
    with f Some obtain n where n: "f (p @ q) = Some (drop n (p @ q), v)" "n \<le> length (p @ q)"
      "f p = (if n \<le> length p then Some (drop n p, v) else None)" by auto
    show ?thesis
    proof (cases "lo < n \<and> n \<le> k")
      case True
      then have "up_to lo k f (p @ q) = Some (drop n (p @ q), v)"
        "up_to lo k f p = (if n \<le> length p then Some (drop n p, v) else None)"
        using n by (auto simp: up_to_def)
      with True n(2) show ?thesis by (auto intro!: exI [of _ n])
    next
      case False
      then have "up_to lo k f (p @ q) = None" "up_to lo k f p = None" using n by (auto simp: up_to_def)
      then show ?thesis by simp
    qed
  qed
qed

lemma varint_decode_drop: "varint_decode q = Some (m, r) \<Longrightarrow> \<exists>n. 0 < n \<and> n \<le> length q \<and> r = drop n q"
proof (induction q arbitrary: m r)
  case (Cons b q)
  show ?case
  proof (cases "unat b < 128")
    case True
    with Cons.prems show ?thesis by (intro exI [of _ 1]) auto
  next
    case False
    with Cons.prems obtain m' where "varint_decode q = Some (m', r)" by (auto split: option.splits)
    from Cons.IH [OF this] obtain n where "n \<le> length q" "r = drop n q" by blast
    then show ?thesis by (intro exI [of _ "Suc n"]) simp
  qed
qed simp

lemma varint_decode_append_None: "varint_decode (p @ q) = None \<Longrightarrow> varint_decode p = None"
  by (induction p) (auto split: if_splits option.splits)

lemma varint_decode_append_Some:
  "varint_decode (p @ q) = Some (m, drop n (p @ q)) \<Longrightarrow> n \<le> length (p @ q) \<Longrightarrow>
     varint_decode p = (if n \<le> length p then Some (m, drop n p) else None)"
proof (induction p arbitrary: m n)
  case Nil
  then show ?case using varint_decode_shrinks [of q m "drop n q"] by (cases n) auto
next
  case (Cons b p)
  have "0 < n" using Cons.prems varint_decode_shrinks [of "(b # p) @ q" m "drop n ((b # p) @ q)"] by (cases n) auto
  then obtain k where n: "n = Suc k" by (cases n) auto
  show ?case
  proof (cases "unat b < 128")
    case True
    with Cons.prems n have "drop k (p @ q) = p @ q" and k: "k \<le> length (p @ q)" by (simp_all del: drop_append)
    from arg_cong [OF this(1), of length] k have "k = 0" by (simp del: drop_append)
    with True Cons.prems n show ?thesis by simp
  next
    case False
    with Cons.prems n obtain m' where "varint_decode (p @ q) = Some (m', drop k (p @ q))" "m = unat b - 128 + 128 * m'"
      by (auto split: option.splits)
    with Cons.IH [of m' k] Cons.prems n False show ?thesis by simp
  qed
qed

lemma after_varint_Some:
  "varint_decode s = Some (m, drop n s) \<Longrightarrow> n \<le> length s \<Longrightarrow>
     after_varint len g s =
       (if n + len m \<le> length s then Some (drop (n + len m) s, g m (take (n + len m) s)) else None)"
  by (simp add: after_varint_def add.commute le_diff_conv2)

lemma after_varint_prefix: "prefix_reader (after_varint len g)"
  unfolding prefix_reader_def
proof (intro allI)
  fix p q
  let ?f = "after_varint len g"
  show "case ?f (p @ q) of None \<Rightarrow> ?f p = None
    | Some (r, v) \<Rightarrow> \<exists>n \<le> length (p @ q). r = drop n (p @ q) \<and> ?f p = (if n \<le> length p then Some (drop n p, v) else None)"
  proof (cases "varint_decode (p @ q)")
    case None
    with varint_decode_append_None [OF None] show ?thesis by (simp add: after_varint_def)
  next
    case (Some x)
    obtain m r where x: "x = (m, r)" by fastforce
    from varint_decode_drop [OF Some [unfolded x]] obtain n where n: "n \<le> length (p @ q)" "r = drop n (p @ q)" by blast
    have p: "varint_decode p = (if n \<le> length p then Some (m, drop n p) else None)"
      using varint_decode_append_Some [of p q m n] Some x n by simp
    have pq: "?f (p @ q) =
        (if n + len m \<le> length (p @ q) then Some (drop (n + len m) (p @ q), g m (take (n + len m) (p @ q))) else None)"
      using after_varint_Some [of "p @ q" m n len g] Some x n by simp
    have "?f p = (if n + len m \<le> length p then Some (drop (n + len m) p, g m (take (n + len m) p)) else None)"
    proof (cases "n \<le> length p")
      case True
      with p after_varint_Some [of p m n len g] show ?thesis by simp
    next
      case False
      with p show ?thesis by (simp add: after_varint_def)
    qed
    with pq show ?thesis by (auto simp del: drop_append intro!: exI [of _ "n + len m"])
  qed
qed

lemma ref_readers:
  "(\<lambda>p. slow64_ref p h) = after_varint (\<lambda>m. 0) (\<lambda>m bs. of_nat m)"
  "(\<lambda>p. slow32_ref p h) = after_varint (\<lambda>m. 0) (\<lambda>m bs. of_nat m)"
  "string_ref = after_varint (\<lambda>m. m) (\<lambda>m bs. drop (length bs - m) bs)"
  by (auto simp: take_drop add.commute fun_eq_iff slow64_ref_def slow32_ref_def string_ref_def after_varint_def
      split: option.splits dest!: varint_decode_drop)

lemma unknown_ref_prefix: "prefix_reader (\<lambda>p. map_option (\<lambda>(raw, r). (r, raw)) (unknown_ref tag p))"
proof (cases "tag AND 7 = 0")
  case True
  then have "(\<lambda>p. map_option (\<lambda>(raw, r). (r, raw)) (unknown_ref tag p)) =
      after_varint (\<lambda>m. 0) (\<lambda>m bs. WriteVarint32ToArray tag @ bs)"
    by (auto simp: fun_eq_iff unknown_ref_def after_varint_def split: option.splits)
  then show ?thesis by (simp add: after_varint_prefix)
next
  case False
  then show ?thesis
    by (auto simp: prefix_reader_def unknown_ref_def intro!: exI [of _ 4])
qed

lemma up_to_shrinks: "up_to lo k f p = Some (r, v) \<Longrightarrow> f p = Some (r, v) \<and> length r + lo < length p"
  by (auto simp: up_to_def split: option.splits if_splits)

lemma bounded_lib_local: "pb_local bounded_lib"
  by (auto simp: pb_local_def slow_reader_def bounded_lib_def ref_readers
      intro!: up_to_local after_varint_prefix dest!: up_to_shrinks)

lemma UnsafeVarint_at_most: "unat v < 128 ^ Suc n \<Longrightarrow> length (UnsafeVarint v) \<le> Suc n"
proof (induction n arbitrary: v)
  case (Suc n)
  show ?case
  proof (cases "unat v < 128")
    case True
    then show ?thesis by (simp add: UnsafeVarint_last)
  next
    case False
    have "unat (drop_bit 7 v) < 128 ^ Suc n" using Suc.prems by (simp add: unat_drop_bit_7 div_less_iff_less_mult)
    with Suc.IH False show ?thesis by (simp add: UnsafeVarint_more)
  qed
qed (simp add: UnsafeVarint_last)

lemma UnsafeVarint_length: "16384 \<le> unat v \<Longrightarrow> 2 < length (UnsafeVarint v)" "length (UnsafeVarint v) \<le> 10"
proof -
  have "unat v < 128 ^ Suc 9" using unsigned_less [of v, where 'a = nat] by simp
  then show "length (UnsafeVarint v) \<le> 10" using UnsafeVarint_at_most [of v 9] by simp
  assume "16384 \<le> unat v"
  then have "128 \<le> unat v" "128 \<le> unat (drop_bit 7 v)" by (simp_all add: unat_drop_bit_7)
  then show "2 < length (UnsafeVarint v)" by (simp add: UnsafeVarint_more Suc_lessI)
qed

lemma bounded_lib_ok: "pb_lib_ok bounded_lib"
proof -
  note ok = ref_lib_ok [unfolded pb_lib_ok_def]
  have "pb_varints bounded_lib"
    using ok [THEN conjunct1] UnsafeVarint_length
    by (simp add: pb_varints_def bounded_lib_def ref_lib_def up_to_def)
  moreover have "pb_strings bounded_lib" using ok by (simp add: pb_strings_def bounded_lib_def)
  moreover have "ReadSizeFallback bounded_lib (UnsafeWriteSize (of_nat n) @ r) h = Some (r, n)"
    if n: "128 \<le> n" "n < 2 ^ 31 - 16" for n r h
  proof -
    let ?v = "ucast (of_nat n :: u32) :: u64"
    have u: "unat ?v = n" using n(2) by (simp add: unat_of_nat_u32)
    have "length (UnsafeVarint ?v) \<le> 5" using UnsafeVarint_at_most [of ?v 4] u n(2) by simp
    moreover have "1 < length (UnsafeVarint ?v)" using u n(1) by (simp add: UnsafeVarint_more Suc_lessI)
    ultimately show ?thesis
      using u by (simp add: bounded_lib_def up_to_def after_varint_def UnsafeWriteSize_eq varint_decode_UnsafeVarint)
  qed
  then have "pb_messages bounded_lib" using ok by (simp add: pb_messages_def bounded_lib_def)
  moreover have "pb_progress bounded_lib"
    using ok unfolding pb_progress_def bounded_lib_def by (auto dest!: up_to_shrinks)
  ultimately show ?thesis by (simp add: pb_lib_ok_def)
qed

section \<open>Input in chunks\<close>

text \<open>
  The stream is the chunk that \<open>next_chunk_\<close> may point to and the chunks behind it; flat input has none. As in
  the library the last 16 bytes of a buffer are moved to the front of \<open>buffer_\<close> and joined there with the next
  chunk, or its first 16 bytes if it is larger; then the chunk itself is the buffer. The readers of strings and
  unknown fields read from the list of what is left and walk to the place behind.
\<close>

type_synonym chunks = "bytes \<times> bytes list"

definition slop_of :: "chunks eps_in \<Rightarrow> bytes" where
  "slop_of st = take 16 (drop (nat (ei_buffer_end st)) (ei_mem st))"

definition behind :: "chunks eps_in \<Rightarrow> bytes list" where
  "behind st = (case ei_stream st of None \<Rightarrow> [] | Some (c, cs) \<Rightarrow> cs)"

definition pending :: "chunks eps_in \<Rightarrow> bytes option" where
  "pending st =
     (case ei_stream st of
        Some (c, cs) \<Rightarrow> if ei_next_chunk st = Some Stream_chunk \<and> 16 < length c then Some c else None
      | None \<Rightarrow> None)"

definition chunk_T :: "chunks eps_in \<Rightarrow> bytes" where
  "chunk_T st =
     (if ei_next_chunk st = None then []
      else (case pending st of Some c \<Rightarrow> c | None \<Rightarrow> slop_of st) @ concat (behind st))"

definition set_buffer :: "bytes \<Rightarrow> int \<Rightarrow> next_chunk option \<Rightarrow> chunks option \<Rightarrow> chunks eps_in \<Rightarrow> chunks eps_in" where
  "set_buffer mem e nx s st =
     st\<lparr>ei_mem := mem, ei_buffer_end := e, ei_next_chunk := nx, ei_stream := s, ei_limit := ei_limit st - e,
        ei_limit_end := e + min 0 (ei_limit st - e)\<rparr>"

definition next_buffer :: "chunks eps_in \<Rightarrow> chunks eps_in" where
  "next_buffer st =
     (case pending st of
        Some c \<Rightarrow> set_buffer c (int (length c) - 16) (Some Own_buffer) (ei_stream st) st
      | None \<Rightarrow>
          (case dropWhile (\<lambda>c. c = []) (behind st) of
             [] \<Rightarrow> set_buffer (slop_of st @ replicate 16 0) 16 None None st
           | c # cs \<Rightarrow>
               if 16 < length c then set_buffer (slop_of st @ take 16 c) 16 (Some Stream_chunk) (Some (c, cs)) st
               else set_buffer (slop_of st @ c @ replicate 16 0) (int (length c)) (Some Own_buffer) (Some (c, cs)) st))"

definition chunk_Next :: "chunks eps_in \<Rightarrow> int option \<times> chunks eps_in" where
  "chunk_Next st = (if ei_next_chunk st = None then (None, st) else (Some 0, next_buffer st))"

fun walk :: "nat \<Rightarrow> int \<Rightarrow> int \<Rightarrow> chunks eps_in \<Rightarrow> int \<times> chunks eps_in" where
  "walk 0 slack p st = (p, st)"
| "walk (Suc k) slack p st =
     (if p < ei_buffer_end st + slack \<or> ei_next_chunk st = None then (p, st)
      else walk k slack (p - ei_buffer_end st) (next_buffer st))"

definition chunk_Done :: "int \<Rightarrow> int \<Rightarrow> chunks eps_in \<Rightarrow> (int option \<times> bool) \<times> chunks eps_in" where
  "chunk_Done overrun d st =
     (if ei_limit st < overrun then ((None, True), st)
      else (case walk (length (chunk_T st)) 0 (ei_buffer_end st + overrun) st of (p, st') \<Rightarrow> ((Some p, False), st')))"

definition chunk_read :: "(bytes \<Rightarrow> (bytes \<times> bytes) option) \<Rightarrow> int \<Rightarrow> chunks eps_in \<Rightarrow> (int option \<times> bytes) \<times> chunks eps_in" where
  "chunk_read f p st =
     (case left chunk_T st p of
        None \<Rightarrow> ((None, []), st)
      | Some s \<Rightarrow>
          (case f s of
             None \<Rightarrow> ((None, []), st)
           | Some (r, v) \<Rightarrow>
               (case walk (length (chunk_T st)) 17 (p + int (length s - length r)) st of (p', st') \<Rightarrow> ((Some p', v), st'))))"

definition chunk_lib :: "chunks in_lib" where
  "chunk_lib = \<lparr>DoneFallback = chunk_Done, NextChunk = chunk_Next,
     SkipFallback = \<lambda>p n st. (None, st), InReadStringFallback = \<lambda>p n st. ((None, []), st),
     AppendStringFallback = \<lambda>p n s st. ((None, s), st),
     StringParser_at = chunk_read string_ref,
     UnknownFieldParse_at = \<lambda>tag. chunk_read (\<lambda>p. map_option (\<lambda>(raw, r). (r, raw)) (unknown_ref tag p)),
     InitFrom_zcis = \<lambda>s st. (0, st), zcis_Next = \<lambda>s. (None, s), zcis_BackUp = \<lambda>n s. s\<rparr>"

lemma concat_dropWhile: "concat (dropWhile (\<lambda>c. c = []) cs) = concat cs"
  by (induction cs) auto

lemma set_buffer_fields [simp]:
  "ei_buffer_end (set_buffer mem e nx s st) = e" "ei_limit_end (set_buffer mem e nx s st) = e + min 0 (ei_limit st - e)"
  "ei_limit (set_buffer mem e nx s st) = ei_limit st - e"
  "ei_mem (set_buffer mem e nx s st) = mem" "ei_next_chunk (set_buffer mem e nx s st) = nx"
  "ei_stream (set_buffer mem e nx s st) = s" "ei_last_tag_minus_1 (set_buffer mem e nx s st) = ei_last_tag_minus_1 st"
  by (simp_all add: set_buffer_def)

lemma set_buffer_at:
  assumes "int (length mem) \<ge> e + 16" and "0 < e" and "T st = take (nat e) mem @ T'"
    and "T (set_buffer mem e nx s st) = T'" and "in_fit T st"
    and "if nx = None then T' = [] else 16 \<le> length T' \<and> take 16 (drop (nat e) mem) = take 16 T'"
  shows "in_fit T (set_buffer mem e nx s st)" and "ahead T (set_buffer mem e nx s st) 0 = T st"
    and "length (T (set_buffer mem e nx s st)) < length (T st)"
proof -
  show "in_fit T (set_buffer mem e nx s st)"
    using assms by (cases nx) (simp_all add: in_fit_def)
  show "ahead T (set_buffer mem e nx s st) 0 = T st"
    using assms(2-4) by (simp add: ahead_def)
  show "length (T (set_buffer mem e nx s st)) < length (T st)" using assms by simp
qed

lemma next_buffer_limit [simp]:
  "ei_limit (next_buffer st) = ei_limit st - ei_buffer_end (next_buffer st)"
  "ei_last_tag_minus_1 (next_buffer st) = ei_last_tag_minus_1 st"
  by (simp_all add: next_buffer_def split: option.split list.split)

lemma next_buffer_at:
  assumes "in_fit chunk_T st" and "ei_next_chunk st \<noteq> None"
  shows "in_fit chunk_T (next_buffer st)" and "ahead chunk_T (next_buffer st) 0 = chunk_T st"
    and "length (chunk_T (next_buffer st)) < length (chunk_T st)"
proof -
  let ?n = "next_buffer st"
  obtain nx where nx: "ei_next_chunk st = Some nx" using assms(2) by auto
  have sl: "length (slop_of st) = 16" using assms(1) by (auto simp: in_fit_def slop_of_def)
  have "in_fit chunk_T ?n \<and> ahead chunk_T ?n 0 = chunk_T st \<and> length (chunk_T ?n) < length (chunk_T st)"
  proof (cases "pending st")
    case (Some c)
    then have c: "16 < length c" by (auto simp: pending_def split: option.splits if_splits)
    then have n: "nat (int (length c) - 16) = length c - 16" by simp
    let ?s = "set_buffer c (int (length c) - 16) (Some Own_buffer) (ei_stream st) st"
    have T: "chunk_T ?s = drop (length c - 16) c @ concat (behind st)"
      using c n by (auto simp: chunk_T_def pending_def slop_of_def behind_def split: option.split)
    have S: "chunk_T st = take (nat (int (length c) - 16)) c @ drop (length c - 16) c @ concat (behind st)"
      using Some nx n by (simp add: chunk_T_def)
    have "next_buffer st = ?s" using Some by (simp add: next_buffer_def)
    with set_buffer_at [of "int (length c) - 16" c chunk_T st, OF _ _ S T assms(1)] c n show ?thesis by auto
  next
    case None
    show ?thesis
    proof (cases "dropWhile (\<lambda>c. c = []) (behind st)")
      case Nil
      then have b: "concat (behind st) = []" using concat_dropWhile [of "behind st"] by simp
      let ?s = "set_buffer (slop_of st @ replicate 16 0) 16 None None st"
      have T: "chunk_T ?s = []" by (simp add: chunk_T_def)
      have S: "chunk_T st = take (nat 16) (slop_of st @ replicate 16 0) @ []"
        using None nx sl b by (simp add: chunk_T_def)
      have "next_buffer st = ?s" using None by (simp only: next_buffer_def Nil option.case list.case)
      with set_buffer_at [of 16 "slop_of st @ replicate 16 0" chunk_T st, OF _ _ S T assms(1)] sl show ?thesis by simp
    next
      case (Cons c cs)
      have b: "concat (behind st) = c @ concat cs"
        using concat_dropWhile [of "behind st"] unfolding Cons by simp
      have c: "c \<noteq> []" using Cons by (simp add: dropWhile_eq_Cons_conv)
      show ?thesis
      proof (cases "16 < length c")
        case True
        let ?s = "set_buffer (slop_of st @ take 16 c) 16 (Some Stream_chunk) (Some (c, cs)) st"
        have T: "chunk_T ?s = c @ concat cs" using True by (simp add: chunk_T_def pending_def behind_def)
        have S: "chunk_T st = take (nat 16) (slop_of st @ take 16 c) @ c @ concat cs"
          using None nx sl b by (simp add: chunk_T_def)
        have "next_buffer st = ?s" using None Cons True by (simp add: next_buffer_def)
        with set_buffer_at [of 16 "slop_of st @ take 16 c" chunk_T st, OF _ _ S T assms(1)] sl True show ?thesis by simp
      next
        case False
        let ?m = "slop_of st @ c @ replicate 16 0" and ?e = "int (length c)"
        let ?s = "set_buffer ?m ?e (Some Own_buffer) (Some (c, cs)) st"
        have d: "take 16 (drop (length c) ?m) = drop (length c) (slop_of st @ c)" using False sl by simp
        then have T: "chunk_T ?s = drop (length c) (slop_of st @ c) @ concat cs"
          by (simp add: chunk_T_def pending_def behind_def slop_of_def)
        have S: "chunk_T st = take (nat ?e) ?m @ drop (length c) (slop_of st @ c) @ concat cs"
          using None nx sl b False by (simp add: chunk_T_def)
        have "next_buffer st = ?s" using None Cons False by (simp add: next_buffer_def)
        with set_buffer_at [of ?e ?m chunk_T st, OF _ _ S T assms(1)] sl c d show ?thesis by simp
      qed
    qed
  qed
  then show "in_fit chunk_T ?n" and "ahead chunk_T ?n 0 = chunk_T st"
    and "length (chunk_T ?n) < length (chunk_T st)" by blast+
qed

lemma next_buffer_moves:
  assumes "in_fit chunk_T st" and "ei_next_chunk st \<noteq> None" and "ei_buffer_end st \<le> p"
  shows "ahead chunk_T (next_buffer st) (p - ei_buffer_end st) = ahead chunk_T st p"
    and "BytesUntilLimit (p - ei_buffer_end st) (next_buffer st) = BytesUntilLimit p st"
proof -
  let ?k = "nat (p - ei_buffer_end st)"
  have f: "0 \<le> ei_buffer_end (next_buffer st)" "ei_buffer_end (next_buffer st) \<le> int (length (ei_mem (next_buffer st)))"
    using next_buffer_at(1) [OF assms(1,2)] by (auto simp: in_fit_def)
  have "ahead chunk_T (next_buffer st) (p - ei_buffer_end st) = drop ?k (chunk_T st)"
    using ahead_advance [OF _ f, of 0 chunk_T ?k] next_buffer_at(2) [OF assms(1,2)] assms(3) by simp
  moreover have "ahead chunk_T st p = drop ?k (chunk_T st)" using assms(3) by (auto simp: ahead_def)
  ultimately show "ahead chunk_T (next_buffer st) (p - ei_buffer_end st) = ahead chunk_T st p" by simp
  show "BytesUntilLimit (p - ei_buffer_end st) (next_buffer st) = BytesUntilLimit p st"
    by (simp add: BytesUntilLimit_def)
qed

lemma walk_at:
  assumes "in_fit chunk_T st" and "0 \<le> p" and "0 \<le> slack" and "length (chunk_T st) \<le> k" and "walk k slack p st = (p', st')"
  shows "in_fit chunk_T st' \<and> 0 \<le> p' \<and> ahead chunk_T st' p' = ahead chunk_T st p \<and>
    BytesUntilLimit p' st' = BytesUntilLimit p st \<and> ei_last_tag_minus_1 st' = ei_last_tag_minus_1 st \<and>
    (p' < ei_buffer_end st' + slack \<or> ei_next_chunk st' = None)"
  using assms
proof (induction k arbitrary: p st)
  case 0
  then have "ei_next_chunk st = None" by (auto simp: in_fit_def split: if_splits)
  with 0 show ?case by simp
next
  case (Suc k)
  show ?case
  proof (cases "p < ei_buffer_end st + slack \<or> ei_next_chunk st = None")
    case True
    with Suc.prems show ?thesis by auto
  next
    case False
    then have n: "ei_next_chunk st \<noteq> None" "ei_buffer_end st \<le> p" using Suc.prems(3) by auto
    have "walk k slack (p - ei_buffer_end st) (next_buffer st) = (p', st')" using Suc.prems(5) False by simp
    from Suc.IH [OF next_buffer_at(1) _ Suc.prems(3) _ this] Suc.prems(1,4) n next_buffer_at(3) [OF Suc.prems(1) n(1)]
    show ?thesis using next_buffer_moves [OF Suc.prems(1) n] by simp
  qed
qed

lemma walk_moves:
  assumes "in_fit chunk_T st" and "0 \<le> p" and "0 \<le> BytesUntilLimit p st" and "walk (length (chunk_T st)) 17 p st = (p', st')"
  shows "moves chunk_T st p st' p'"
proof -
  from walk_at [OF assms(1,2) _ order_refl assms(4)] have w: "in_fit chunk_T st'" "0 \<le> p'"
    "ahead chunk_T st' p' = ahead chunk_T st p" "BytesUntilLimit p' st' = BytesUntilLimit p st"
    "ei_last_tag_minus_1 st' = ei_last_tag_minus_1 st" "p' < ei_buffer_end st' + 17 \<or> ei_next_chunk st' = None" by simp_all
  have "p' \<le> ei_buffer_end st' + 16"
  proof (cases "ei_next_chunk st' = None")
    case True
    then have "ei_limit st' \<le> 0" using w(1) by (auto simp: in_fit_def)
    with w(4) assms(3) show ?thesis by (simp add: BytesUntilLimit_def)
  qed (use w(6) in auto)
  with w show ?thesis by (simp add: moves_def in_at_def)
qed

lemma prefix_reader_drop:
  assumes "prefix_reader f" and "f s = Some (r, v)"
  shows "r = drop (length s - length r) s" and "length r \<le> length s"
proof -
  have "case f (s @ []) of None \<Rightarrow> f s = None
    | Some (r, v) \<Rightarrow> \<exists>n \<le> length (s @ []). r = drop n (s @ []) \<and> f s = (if n \<le> length s then Some (drop n s, v) else None)"
    using assms(1) unfolding prefix_reader_def by blast
  then obtain n where "n \<le> length s" "r = drop n s" using assms(2) by auto
  then show "r = drop (length s - length r) s" "length r \<le> length s" by simp_all
qed

lemma chunk_read_agrees:
  assumes f: "prefix_reader f" and a: "in_at chunk_T st p"
  shows "chunk_read f p st = (y, st') \<Longrightarrow>
    agrees chunk_T st' (Option.bind (left chunk_T st p) f) y \<and> ei_last_tag_minus_1 st' = ei_last_tag_minus_1 st"
proof -
  assume y: "chunk_read f p st = (y, st')"
  show ?thesis
  proof (cases "\<exists>s r v. left chunk_T st p = Some s \<and> f s = Some (r, v)")
    case False
    then show ?thesis using y by (auto simp: chunk_read_def agrees_def split: option.splits)
  next
    case True
    then obtain s r v where s: "left chunk_T st p = Some s" "f s = Some (r, v)" by blast
    let ?n = "length s - length r"
    note r = prefix_reader_drop [OF f s(2)]
    obtain p' where w: "walk (length (chunk_T st)) 17 (p + int ?n) st = (p', st')" "y = (Some p', v)"
      using y s r(2) by (auto simp: chunk_read_def of_nat_diff split: prod.splits)
    have u: "BytesUntilLimit (p + int ?n) st = int (length r)"
      using left_length [OF a s(1)] r(2) by (simp add: BytesUntilLimit_def)
    have m: "moves chunk_T st (p + int ?n) st' p'"
      by (rule walk_moves [OF _ _ _ w(1)]) (use a u in \<open>simp_all add: in_at_def\<close>)
    have "ahead chunk_T st (p + int ?n) = drop ?n (ahead chunk_T st p)"
      using a by (intro ahead_advance) (auto simp: in_at_def in_fit_def)
    moreover have "take (length r) (drop ?n (ahead chunk_T st p)) = drop ?n s"
      using left_take [OF a s(1)] r(2) by (metis drop_take diff_diff_cancel)
    ultimately have "left chunk_T st' p' = Some r"
      using m u r(1) by (simp add: moves_def left_def)
    with m w s show ?thesis by (simp add: agrees_def moves_def)
  qed
qed

lemma chunk_lib_ok: "in_lib_ok chunk_lib bounded_lib chunk_T"
  unfolding in_lib_ok_def
proof (intro conjI allI impI)
  fix st p d
  assume a: "in_at chunk_T st p" "ei_limit_end st \<le> p"
  show "case DoneFallback chunk_lib (p - ei_buffer_end st) d st of ((q, fin), st') \<Rightarrow>
      if ei_limit st < p - ei_buffer_end st then q = None \<and> fin
      else if p - ei_buffer_end st < ei_limit st then
        \<not> fin \<and> (\<exists>p'. q = Some p' \<and> moves chunk_T st p st' p' \<and> p' < ei_buffer_end st')
      else True"
  proof (cases "p - ei_buffer_end st < ei_limit st")
    case True
    obtain p' st' where w: "walk (length (chunk_T st)) 0 p st = (p', st')" by fastforce
    from walk_at [OF _ _ _ order_refl w] a have m: "in_fit chunk_T st'" "0 \<le> p'"
      "ahead chunk_T st' p' = ahead chunk_T st p" "BytesUntilLimit p' st' = BytesUntilLimit p st"
      "ei_last_tag_minus_1 st' = ei_last_tag_minus_1 st" "p' < ei_buffer_end st' \<or> ei_next_chunk st' = None"
      by (auto simp: in_at_def)
    have "p' < ei_buffer_end st'"
    proof (cases "ei_next_chunk st' = None")
      case none: True
      then have "ei_limit st' \<le> 0" using m(1) by (auto simp: in_fit_def)
      with m(4) True show ?thesis by (simp add: BytesUntilLimit_def)
    qed (use m(6) in auto)
    with m True w show ?thesis by (simp add: chunk_lib_def chunk_Done_def moves_def in_at_def)
  next
    case False
    then show ?thesis by (simp add: chunk_lib_def chunk_Done_def)
  qed
next
  fix st
  assume f: "in_fit chunk_T st" and l: "16 < ei_limit st"
  then have n: "ei_next_chunk st \<noteq> None" by (auto simp: in_fit_def split: if_splits)
  have b: "0 \<le> ei_buffer_end (next_buffer st)" using next_buffer_at(1) [OF f n] by (simp add: in_fit_def)
  have "moves chunk_T st (ei_buffer_end st) (next_buffer st) 0"
    using next_buffer_at(1) [OF f n] next_buffer_moves [OF f n order_refl] b by (simp add: moves_def in_at_def)
  with n b next_buffer_at(3) [OF f n] show "\<exists>p st'. NextChunk chunk_lib st = (Some p, st') \<and>
      moves chunk_T st (ei_buffer_end st) st' p \<and> p \<le> ei_buffer_end st' \<and> length (chunk_T st') < length (chunk_T st)"
    by (simp add: chunk_lib_def chunk_Next_def)
next
  fix st p
  assume a: "in_at chunk_T st p"
  have "prefix_reader string_ref" by (simp add: ref_readers after_varint_prefix)
  then show "case StringParser_at chunk_lib p st of (y, st') \<Rightarrow>
      agrees chunk_T st' (Option.bind (left chunk_T st p) (InlineGreedyStringParser bounded_lib)) y \<and>
      ei_last_tag_minus_1 st' = ei_last_tag_minus_1 st"
    using chunk_read_agrees [of string_ref st p] a by (auto simp: chunk_lib_def bounded_lib_def ref_lib_def)
next
  fix tag st p
  assume a: "in_at chunk_T st p"
  show "case UnknownFieldParse_at chunk_lib tag p st of ((q, raw), st') \<Rightarrow>
      agrees chunk_T st' (Option.bind (left chunk_T st p)
        (\<lambda>s. map_option (\<lambda>(raw, r). (r, raw)) (UnknownFieldParse bounded_lib tag s))) (q, raw) \<and>
      ei_last_tag_minus_1 st' = ei_last_tag_minus_1 st"
    using chunk_read_agrees [OF unknown_ref_prefix a, of tag] by (auto simp: chunk_lib_def bounded_lib_def ref_lib_def)
qed

section \<open>The envelope\<close>

text \<open>C18: Parsing the envelope class from memory and parsing it from the list of its bytes are the same: the code reads
  at positions in the buffer or, near the end and for short input, in its copy of the last 16 bytes, sees what lies
  behind the end, and checks the limit only between fields, yet it meets no access outside, returns, and accepts
  exactly the input that the list parser accepts, with the same message.
\<close>

theorem messageHeader_parse_in_place:
  fixes L :: "'s in_lib"
  assumes "pb_lib_ok Lp" and "pb_local Lp" and "in_lib_ok L Lp T" and "length buffer = 32"
    and "\<And>st. InitFrom_flat d (EpsCopyInputStream_new aliasing buffer) = (0, st) \<Longrightarrow>
      T st = (if length d \<le> 16 then [] else drop (length d - 16) d)"
  shows "returns (messageHeader_parse_flat L Lp depth aliasing buffer d) \<and>
    accepted (messageHeader_parse_flat L Lp depth aliasing buffer d) = messageHeader_parse Lp d"
  by (rule header_flat [OF assms(1-4)]) (simp add: InitFrom_flat_def Let_def assms(5) split: if_splits)

lemma whdr_bounded: "messageHeader_wf bounded_lib whdr"
  using whdr_wf by (simp add: messageHeader_wf_def bounded_lib_def)

lemma chunk_T_input:
  "InitFrom_flat d (EpsCopyInputStream_new aliasing buffer) = (0, st) \<Longrightarrow>
     chunk_T st = (if length d \<le> 16 then [] else drop (length d - 16) d)"
proof -
  have "nat (int n - 16) = n - 16" for n by linarith
  then show "InitFrom_flat d (EpsCopyInputStream_new aliasing buffer) = (0, st) \<Longrightarrow> ?thesis"
    by (auto simp: InitFrom_flat_def EpsCopyInputStream_new_def Let_def chunk_T_def pending_def slop_of_def behind_def
        kSlopBytes_def split: if_splits)
qed

theorem messageHeader_parse_in_place_witness:
  "accepted (messageHeader_parse_flat chunk_lib bounded_lib 100 False (replicate 32 0)
     (messageHeader_InternalSerialize bounded_lib whdr)) = Some whdr \<and>
   accepted (messageHeader_parse_flat chunk_lib bounded_lib 100 False (replicate 32 0) [8]) = None"
proof -
  have "accepted (messageHeader_parse_flat chunk_lib bounded_lib 100 False (replicate 32 0) d) =
      messageHeader_parse bounded_lib d" for d
    by (rule messageHeader_parse_in_place [OF bounded_lib_ok bounded_lib_local chunk_lib_ok _ chunk_T_input, THEN conjunct2]) simp_all
  moreover have "messageHeader_parse bounded_lib (messageHeader_InternalSerialize bounded_lib whdr) = Some whdr"
    using header.ser_parse [OF bounded_lib_ok whdr_bounded] .
  moreover have "messageHeader_parse bounded_lib [8] = None" by code_simp
  ultimately show ?thesis by simp
qed

end
