(* ===== verification/Eps_Packed.thy ===== *)
theory Eps_Packed
  imports Eps_Chunks Wire_Lite
begin

unbundle bit_operations_syntax

text \<open>
  Packed varints across the end of a buffer: \<open>ReadPackedVarint\<close> on an input stream agrees with the reader of
  \<^verbatim>\<open>Wire_Lite\<close> on the list of the bytes that are left, whether the field ends in the buffer, in the slop, or
  some buffers later.
\<close>

section \<open>The array reader on lists\<close>

text \<open>With as much fuel as there are bytes to the end.\<close>

definition array_from :: "pb_lib \<Rightarrow> (u64 \<Rightarrow> 'm \<Rightarrow> 'm) \<Rightarrow> bytes \<Rightarrow> int \<Rightarrow> 'm \<Rightarrow> (bytes \<times> int \<times> 'm) option" where
  "array_from L add p k m = ReadPackedVarintArray (nat k) L add p k m"

lemma varint_step:
  assumes "pb_local L" and "VarintParse64 L p = Some (r, v)"
  shows "\<exists>n. 0 < n \<and> n \<le> 10 \<and> n \<le> length p \<and> r = drop n p"
  using reads_locally_Some [OF inline_readers_local(1) [OF assms(1)], of p "[]" r v] assms(2) by auto

lemma array_fuel:
  assumes "pb_local L"
  shows "k \<le> int f \<Longrightarrow> k \<le> int g \<Longrightarrow> ReadPackedVarintArray f L add p k m = ReadPackedVarintArray g L add p k m"
proof (induction f arbitrary: g p k m)
  case 0
  then show ?case by (simp add: ReadPackedVarintArray.simps)
next
  case (Suc f)
  show ?case
  proof (cases "0 < k")
    case False
    then show ?thesis by (simp add: ReadPackedVarintArray.simps)
  next
    case True
    with Suc.prems(2) obtain h where g: "g = Suc h" by (cases g) auto
    have "ReadPackedVarintArray f L add r (k - int (length p - length r)) m' =
        ReadPackedVarintArray h L add r (k - int (length p - length r)) m'"
      if "VarintParse64 L p = Some (r, v)" for r v m'
      using varint_step [OF assms that] Suc.prems g by (intro Suc.IH) auto
    with True show ?thesis
      by (simp add: g ReadPackedVarintArray.simps [of "Suc _"] split: option.split)
  qed
qed

lemma array_enough: "pb_local L \<Longrightarrow> k \<le> int f \<Longrightarrow> ReadPackedVarintArray f L add p k m = array_from L add p k m"
  unfolding array_from_def by (rule array_fuel) simp_all

lemma array_done: "k \<le> 0 \<Longrightarrow> array_from L add p k m = Some (p, k, m)"
  by (simp add: array_from_def ReadPackedVarintArray.simps)

lemma array_step:
  assumes "pb_local L" and "0 < k"
  shows "VarintParse64 L p = None \<Longrightarrow> array_from L add p k m = None"
    and "VarintParse64 L p = Some (r, v) \<Longrightarrow>
      array_from L add p k m = array_from L add r (k - int (length p - length r)) (add v m)"
proof -
  obtain i where i: "nat k = Suc i" using assms(2) by (cases "nat k") auto
  show "VarintParse64 L p = None \<Longrightarrow> array_from L add p k m = None"
    using assms(2) by (simp add: array_from_def i ReadPackedVarintArray.simps)
  assume v: "VarintParse64 L p = Some (r, v)"
  have "k - int (length p - length r) \<le> int i" using varint_step [OF assms(1) v] i by auto
  from array_enough [OF assms(1) this] show
    "array_from L add p k m = array_from L add r (k - int (length p - length r)) (add v m)"
    using assms(2) v by (simp add: array_from_def [of L add p] i ReadPackedVarintArray.simps [of "Suc i"])
qed

text \<open>One induction for all: either the end is reached, or a varint fails, or a varint moves on.\<close>

lemma array_induct [consumes 1, case_names ended fail more]:
  assumes "pb_local L"
    and "\<And>p k m. k \<le> 0 \<Longrightarrow> P p k m"
    and "\<And>p k m. 0 < k \<Longrightarrow> VarintParse64 L p = None \<Longrightarrow> P p k m"
    and "\<And>p k m n v. 0 < k \<Longrightarrow> 0 < n \<Longrightarrow> n \<le> 10 \<Longrightarrow> n \<le> length p \<Longrightarrow> VarintParse64 L p = Some (drop n p, v) \<Longrightarrow>
      P (drop n p) (k - int n) (add v m) \<Longrightarrow> P p k m"
  shows "P p k m"
proof (induction "length p" arbitrary: p k m rule: less_induct)
  case (less p k m)
  show ?case
  proof (cases "k \<le> 0")
    case False
    then have k: "0 < k" by simp
    show ?thesis
    proof (cases "VarintParse64 L p")
      case (Some x)
      obtain r v where x: "x = (r, v)" by fastforce
      from varint_step [OF assms(1) Some [unfolded x]] obtain n where
        n: "0 < n" "n \<le> 10" "n \<le> length p" "r = drop n p" by blast
      have "length (drop n p) < length p" using n(1,3) by simp
      from less [OF this, of "k - int n" "add v m"] assms(4) [OF k n(1-3)] Some x n(4) show ?thesis by simp
    qed (use k assms(3) in blast)
  qed (use assms(2) in blast)
qed

lemma array_more:
  assumes "pb_local L" and "0 < k" and "n \<le> length p" and "VarintParse64 L p = Some (drop n p, v)"
  shows "array_from L add p k m = array_from L add (drop n p) (k - int n) (add v m)"
  using array_step(2) [OF assms(1,2,4)] assms(3) by simp

lemma array_result:
  assumes "pb_local L"
  shows "array_from L add p k m = Some (r, j, m') \<Longrightarrow>
    \<exists>i \<le> length p. r = drop i p \<and> j = k - int i \<and> j \<le> 0 \<and> (i = 0 \<or> - 10 < j)"
  using assms
proof (induction p k m rule: array_induct [where add = add])
  case (ended p k m)
  then show ?case by (auto simp: array_done)
next
  case (fail p k m)
  with assms show ?case by (simp add: array_step(1))
next
  case (more p k m n v)
  then have "array_from L add (drop n p) (k - int n) (add v m) = Some (r, j, m')"
    using array_more [where add = add and m = m, OF assms more(1,4,5)] by simp
  from more(6) [OF this] obtain i where i: "i \<le> length p - n" "r = drop i (drop n p)" "j = k - int n - int i" "j \<le> 0"
    "i = 0 \<or> - 10 < j" by auto
  show ?case
  proof (intro exI [of _ "n + i"] conjI)
    show "n + i \<le> length p" using i(1) more(4) by simp
    show "n + i = 0 \<or> - 10 < j" using i(3,5) more(1,3) by auto
  qed (use i in \<open>simp_all add: add.commute\<close>)
qed

lemma array_split:
  assumes "pb_local L"
  shows "k \<le> n \<Longrightarrow> array_from L add p n m =
    (case array_from L add p k m of None \<Rightarrow> None | Some (r, j, m') \<Rightarrow> array_from L add r (n - k + j) m')"
  using assms
proof (induction p k m arbitrary: n rule: array_induct [where add = add])
  case (ended p k m)
  then show ?case by (simp add: array_done)
next
  case (fail p k m)
  with assms show ?case by (simp add: array_step(1))
next
  case (more p k m i v)
  have "0 < n" using more(1,7) by simp
  from array_more [where add = add and m = m, OF assms this more(4,5)] array_more [where add = add and m = m, OF assms more(1,4,5)] more(6) [of "n - int i"] more(7)
  show ?case by (simp only: diff_diff_eq add_diff_cancel) (simp split: option.split)
qed

text \<open>With ten bytes to spare behind the end the array reader sees no further.\<close>

definition outcome :: "(bytes \<times> int \<times> 'm) option \<Rightarrow> (int \<times> 'm) option" where
  "outcome = map_option snd"

lemma outcome_simps [simp]: "outcome None = None" "outcome (Some (r, x)) = Some x"
  by (simp_all add: outcome_def)

lemma array_prefix:
  assumes "pb_local L"
  shows "p = c @ g \<Longrightarrow> k \<le> 0 \<or> k + 10 \<le> int (length c) \<Longrightarrow>
    outcome (array_from L add p k m) = outcome (array_from L add c k m)"
  using assms
proof (induction p k m arbitrary: c rule: array_induct [where add = add])
  case (ended p k m)
  then show ?case by (simp add: array_done)
next
  case (fail p k m)
  have "VarintParse64 L c = None"
    using reads_locally_None [OF inline_readers_local(1) [OF assms], of c g] fail(2,3) by simp
  with fail assms show ?case by (simp add: array_step(1))
next
  case (more p k m n v)
  have l: "n \<le> length c" using more(1,3,8) by simp
  obtain n' where "drop n p = drop n' p" "n' \<le> length p"
    "VarintParse64 L c = (if n' \<le> length c then Some (drop n' c, v) else None)"
    using reads_locally_Some [OF inline_readers_local(1) [OF assms], of c g "drop n p" v] more(5,7) by auto
  moreover from this(1,2) more(4) have "n' = n" by (metis diff_diff_cancel length_drop)
  ultimately have c: "VarintParse64 L c = Some (drop n c, v)" using l by simp
  have "outcome (array_from L add (drop n p) (k - int n) (add v m)) = outcome (array_from L add (drop n c) (k - int n) (add v m))"
    using more(1,7,8) l by (intro more(6)) auto
  with array_more [where add = add and m = m, OF assms more(1,4,5)] array_more [where add = add and m = m, OF assms more(1) l c] show ?case by simp
qed

text \<open>A field is accepted when the end of a varint is the end of the field; then only its own bytes matter.\<close>

definition exact :: "(bytes \<times> int \<times> 'm) option \<Rightarrow> 'm option" where
  "exact x = (case x of Some (r, j, m) \<Rightarrow> if j = 0 then Some m else None | None \<Rightarrow> None)"

lemma exact_simps [simp]: "exact None = None" "exact (Some (r, j, m)) = (if j = 0 then Some m else None)"
  by (simp_all add: exact_def)

lemma exact_prefix:
  assumes "pb_local L"
  shows "p = c @ g \<Longrightarrow> k \<le> int (length c) \<Longrightarrow> exact (array_from L add p k m) = exact (array_from L add c k m)"
  using assms
proof (induction p k m arbitrary: c rule: array_induct [where add = add])
  case (ended p k m)
  then show ?case by (simp add: array_done)
next
  case (fail p k m)
  have "VarintParse64 L c = None"
    using reads_locally_None [OF inline_readers_local(1) [OF assms], of c g] fail(2,3) by simp
  with fail assms show ?case by (simp add: array_step(1))
next
  case (more p k m n v)
  obtain n' where "drop n p = drop n' p" "n' \<le> length p"
    "VarintParse64 L c = (if n' \<le> length c then Some (drop n' c, v) else None)"
    using reads_locally_Some [OF inline_readers_local(1) [OF assms], of c g "drop n p" v] more(5,7) by auto
  moreover from this(1,2) more(4) have "n' = n" by (metis diff_diff_cancel length_drop)
  ultimately have c: "VarintParse64 L c = (if n \<le> length c then Some (drop n c, v) else None)" by simp
  show ?case
  proof (cases "n \<le> length c")
    case True
    have "exact (array_from L add (drop n p) (k - int n) (add v m)) = exact (array_from L add (drop n c) (k - int n) (add v m))"
      using more(7,8) True by (intro more(6)) auto
    with array_more [where add = add and m = m, OF assms more(1,4,5)] array_more [where add = add and m = m, OF assms more(1) True] c True show ?thesis by simp
  next
    case False
    then have "array_from L add c k m = None" using c more(1) assms by (simp add: array_step(1))
    moreover have "array_from L add p k m = Some (drop n p, k - int n, add v m)"
      using array_more [where add = add and m = m, OF assms more(1,4,5)] more(8) False by (simp add: array_done)
    ultimately show ?thesis using more(8) False by simp
  qed
qed

lemma exact_take:
  assumes "pb_local L" and "k \<le> length p" and "k \<le> length q" and "take k p = take k q"
  shows "exact (array_from L add p (int k) m) = exact (array_from L add q (int k) m)"
proof -
  have p: "p = take k q @ drop k p" and q: "q = take k q @ drop k q" using assms(4) by (metis append_take_drop_id)+
  from exact_prefix [OF assms(1) p, of "int k" add m] exact_prefix [OF assms(1) q, of "int k" add m] assms(3)
  show ?thesis by simp
qed

section \<open>In memory\<close>

lemma array_at:
  assumes "pb_local L"
  shows "0 \<le> p \<Longrightarrow> e < int (length mem) \<Longrightarrow> e \<le> p + int fuel \<Longrightarrow>
    \<exists>y. ReadPackedVarintArray_at fuel L add mem p e m = Some (Inr y) \<and>
      (case array_from L add (drop (nat p) mem) (e - p) m of
         None \<Rightarrow> fst y = None
       | Some (r, j, m') \<Rightarrow> y = (Some (e - j), m'))"
proof (induction fuel arbitrary: p m)
  case 0
  then show ?case by (subst ReadPackedVarintArray_at.simps) (simp add: array_done)
next
  case (Suc f)
  show ?case
  proof (cases "p < e")
    case False
    then show ?thesis by (subst ReadPackedVarintArray_at.simps) (simp add: array_done)
  next
    case True
    let ?d = "drop (nat p) mem"
    have at: "VarintParse64_at L mem p = Inr (back_at mem (VarintParse64 L ?d) 0)"
      using inline_readers_at(1) Suc.prems True by simp
    show ?thesis
    proof (cases "VarintParse64 L ?d")
      case None
      then show ?thesis
        using True at array_step(1) [OF assms, of "e - p" ?d add m]
        by (subst ReadPackedVarintArray_at.simps) (simp add: back_at_def)
    next
      case (Some x)
      obtain r v where x: "x = (r, v)" by fastforce
      from varint_step [OF assms Some [unfolded x]] obtain n where
        n: "0 < n" "n \<le> length ?d" "r = drop n ?d" by blast
      then have l: "int (length mem) - int (length r) = p + int n" using Suc.prems(1) by simp
      have d: "drop n ?d = drop (nat (p + int n)) mem" using Suc.prems(1) by (simp add: nat_add_distrib add.commute)
      have "ReadPackedVarintArray_at (Suc f) L add mem p e m = ReadPackedVarintArray_at f L add mem (p + int n) e (add v m)"
        using True at Some x l by (subst ReadPackedVarintArray_at.simps) (simp add: back_at_def)
      moreover have "array_from L add ?d (e - p) m = array_from L add (drop (nat (p + int n)) mem) (e - (p + int n)) (add v m)"
        using array_more [OF assms _ n(2), of "e - p" v add m] Some x n(3) True unfolding d by (simp add: algebra_simps)
      moreover have "0 \<le> p + int n" "e \<le> p + int n + int f" using Suc.prems n(1) by simp_all
      ultimately show ?thesis using Suc.IH [of "p + int n" "add v m"] Suc.prems(2) by simp
    qed
  qed
qed

text \<open>Both memory and what is left agree up to the end of the slop.\<close>

lemma memory_left:
  assumes "in_at T st p" and "left T st p = Some s" and "n \<le> length s" and "p + int n \<le> ei_buffer_end st + 16"
  shows "take n (drop (nat p) (ei_mem st)) = take n s" and "n \<le> length (drop (nat p) (ei_mem st))"
proof -
  from memory_ahead [OF assms(1)] obtain c g e where m: "drop (nat p) (ei_mem st) = c @ g"
    and h: "ahead T st p = c @ e" "ei_buffer_end st + 16 \<le> p + int (length c) \<or> e = []" by blast
  have s: "s = take (length s) (c @ e)" "length s \<le> length (c @ e)" using left_take [OF assms(1,2)] by (simp_all only: h)
  have n: "n \<le> length c" using h(2)
  proof
    assume "e = []"
    with s(2) assms(3) show ?thesis by simp
  qed (use assms(4) in simp)
  have "take n s = take n (take (length s) (c @ e))" using s(1) by simp
  also have "\<dots> = take n c" using n assms(3) by simp
  finally show "take n (drop (nat p) (ei_mem st)) = take n s" "n \<le> length (drop (nat p) (ei_mem st))" using n m by simp_all
qed

lemma moves_advance:
  assumes "moves T st p st' q" and "in_at T st p" and "q + int i \<le> ei_buffer_end st' + 16"
  shows "moves T st (p + int i) st' (q + int i)"
proof -
  have "ahead T st' (q + int i) = drop i (ahead T st' q)" "ahead T st (p + int i) = drop i (ahead T st p)"
    using ahead_advance [of q st' T i] ahead_advance [of p st T i] assms(1,2)
    by (simp_all add: moves_def in_at_def in_fit_def)
  then show ?thesis using assms by (simp add: moves_def in_at_def BytesUntilLimit_def)
qed

lemma in_lib_next:
  assumes "in_lib_ok L Lp T" and "in_fit T st" and "16 < ei_limit st"
  shows "\<exists>p st'. NextChunk L st = (Some p, st') \<and> moves T st (ei_buffer_end st) st' p \<and> p \<le> ei_buffer_end st' \<and>
    length (T st') < length (T st)"
  using assms(1) [unfolded in_lib_ok_def, THEN conjunct2, THEN conjunct1, rule_format, OF assms(2,3)] .

section \<open>A packed field\<close>

definition packed_list :: "pb_lib \<Rightarrow> (u64 \<Rightarrow> 'm \<Rightarrow> 'm) \<Rightarrow> int \<Rightarrow> 'm \<Rightarrow> bytes \<Rightarrow> (bytes \<times> 'm) option" where
  "packed_list L add n m s =
     (if n \<le> int (length s) then map_option (\<lambda>m'. (drop (nat n) s, m')) (exact (array_from L add s n m)) else None)"

lemma packed_here:
  assumes "pb_local Lp" and a: "in_at T st p" and n: "0 \<le> n" "p + n \<le> ei_buffer_end st + 16"
    and y: "case exact (array_from Lp add (drop (nat p) (ei_mem st)) n m) of
      None \<Rightarrow> fst y = None | Some m' \<Rightarrow> y = (Some (p + n), m')"
  shows "agrees T st (Option.bind (left T st p) (packed_list Lp add n m)) y"
proof -
  obtain i where i: "n = int i" using n(1) by (metis nonneg_int_cases)
  note adv = left_advance [OF a n(2) [unfolded i]]
  show ?thesis
  proof (cases "left T st p")
    case None
    then show ?thesis using adv(1,3) y by (auto simp: agrees_def i split: option.splits)
  next
    case (Some s)
    show ?thesis
    proof (cases "i \<le> length s")
      case True
      have "exact (array_from Lp add s n m) = exact (array_from Lp add (drop (nat p) (ei_mem st)) n m)"
        unfolding i by (rule exact_take [OF assms(1) True]) (use memory_left [OF a Some True n(2) [unfolded i]] in simp_all)
      then show ?thesis
        using Some True adv(1,2) y by (auto simp: agrees_def packed_list_def i split: option.splits)
    next
      case False
      then show ?thesis using Some adv(1,2) y by (auto simp: agrees_def packed_list_def i split: option.splits)
    qed
  qed
qed

lemma slop_copy:
  "k + i \<le> 16 \<Longrightarrow> 16 \<le> length z \<Longrightarrow>
     take k (drop i (take 16 z @ b)) = take k (drop i z) \<and> k \<le> length (drop i (take 16 z @ b)) \<and> k \<le> length (drop i z)"
  by (auto simp: drop_take min_absorb1)

text \<open>The field ends in the buffer; it ends in the slop.\<close>

lemma packed_in_buffer:
  assumes "pb_local Lp" and a: "in_at T st p" and n: "0 \<le> n" "n \<le> ei_buffer_end st - p"
  shows "\<exists>y. ReadPackedVarint_loop fuel L Lp add p n (ei_buffer_end st - p) m st = Some (Inr (y, st)) \<and>
    agrees T st (Option.bind (left T st p) (packed_list Lp add n m)) y"
proof -
  have "0 \<le> p" "p + n < int (length (ei_mem st))" "p + n \<le> p + int (nat n)"
    using a n by (auto simp: in_at_def in_fit_def)
  from array_at [OF assms(1) this, of add m] obtain q m' where
    r: "ReadPackedVarintArray_at (nat n) Lp add (ei_mem st) p (p + n) m = Some (Inr (q, m'))"
    and c: "case array_from Lp add (drop (nat p) (ei_mem st)) n m of
      None \<Rightarrow> q = None | Some (r, j, m'') \<Rightarrow> q = Some (p + n - j) \<and> m' = m''" by (auto split: option.splits)
  let ?y = "(if q = Some (p + n) then q else None, m')"
  have "ReadPackedVarint_loop fuel L Lp add p n (ei_buffer_end st - p) m st = Some (Inr (?y, st))"
    using n r by (subst ReadPackedVarint_loop.simps) simp
  moreover have "agrees T st (Option.bind (left T st p) (packed_list Lp add n m)) ?y"
    using c n(2) by (intro packed_here [OF assms(1) a n(1)]) (auto simp: exact_def split: option.splits)
  ultimately show ?thesis by blast
qed

lemma packed_in_slop:
  assumes lo: "pb_local Lp" and a: "in_at T st p" and n: "ei_buffer_end st - p < n" "0 \<le> n" "n - (ei_buffer_end st - p) \<le> 16"
  shows "\<exists>y. ReadPackedVarint_loop (Suc fuel) L Lp add p n (ei_buffer_end st - p) m st = Some (Inr (y, st)) \<and>
    agrees T st (Option.bind (left T st p) (packed_list Lp add n m)) y"
proof -
  let ?e = "ei_buffer_end st" and ?x = "drop (nat p) (ei_mem st)"
  let ?k = "?e - p"
  have f: "0 \<le> p" "?e < int (length (ei_mem st))" "?e \<le> p + int (nat ?k)" "0 \<le> ?e" "?e + 16 \<le> int (length (ei_mem st))"
    using a by (auto simp: in_at_def in_fit_def)
  from array_at [OF lo f(1-3), of add m] obtain q m' where
    r: "ReadPackedVarintArray_at (nat ?k) Lp add (ei_mem st) p ?e m = Some (Inr (q, m'))"
    and c: "case array_from Lp add ?x ?k m of
      None \<Rightarrow> q = None | Some (r, j, m'') \<Rightarrow> q = Some (?e - j) \<and> m' = m''" by (auto split: option.splits)
  have split: "array_from Lp add ?x n m =
      (case array_from Lp add ?x ?k m of None \<Rightarrow> None | Some (r, j, m') \<Rightarrow> array_from Lp add r (n - ?k + j) m')"
    using array_split [OF lo, of ?k n add ?x m] n(1) by simp
  have here: "agrees T st (Option.bind (left T st p) (packed_list Lp add n m)) y"
    if "case exact (array_from Lp add ?x n m) of None \<Rightarrow> fst y = None | Some m' \<Rightarrow> y = (Some (p + n), m')" for y
    using n(3) by (intro packed_here [OF lo a n(2) _ that]) simp
  show ?thesis
  proof (cases "array_from Lp add ?x ?k m")
    case None
    with c have "q = None" by simp
    with r n(1) have "ReadPackedVarint_loop (Suc fuel) L Lp add p n ?k m st = Some (Inr ((None, m'), st))"
      by (subst ReadPackedVarint_loop.simps) simp
    with None split here [of "(None, m')"] show ?thesis by auto
  next
    case (Some z)
    obtain r j m'' where z: "z = (r, j, m'')" by (cases z)
    from array_result [OF lo Some [unfolded z]] obtain i where
      i: "i \<le> length ?x" "r = drop i ?x" "j = ?k - int i" "j \<le> 0" by blast
    have q: "q = Some (?e - j)" "m'' = m'" using c Some z by auto
    let ?slop = "take 16 (drop (nat ?e) (ei_mem st))" and ?t = "n - ?k + j"
    let ?b = "?slop @ replicate 10 0" and ?o = "nat (- j)"
    have sl: "length ?slop = 16" "mem_read (ei_mem st) ?e kSlopBytes = Inr ?slop"
      using f(4,5) by (auto simp: mem_read_def kSlopBytes_def)
    have "0 \<le> - j" "n - ?k < int (length ?b)" "n - ?k \<le> - j + int 16" using i(4) sl n(3) by simp_all
    from array_at [OF lo this, of add m'] obtain res m3 where
      b: "ReadPackedVarintArray_at 16 Lp add ?b (- j) (n - ?k) m' = Some (Inr (res, m3))"
      and d: "case array_from Lp add (drop ?o ?b) ?t m' of
        None \<Rightarrow> res = None | Some (r, j', m4) \<Rightarrow> res = Some (n - ?k - j') \<and> m3 = m4" by (auto split: option.splits)
    have "nat p + i = nat ?e + ?o" using i(3,4) f(1,4) by linarith
    then have r': "r = drop ?o (drop (nat ?e) (ei_mem st))" by (simp add: i(2) add.commute)
    have "exact (array_from Lp add (drop ?o ?b) ?t m') = exact (array_from Lp add r ?t m')"
    proof (cases "?t \<le> 0")
      case False
      then obtain k where t: "?t = int k" by (metis nonneg_int_cases nle_le)
      then have "k + ?o \<le> 16" using n(3) i(4) by simp
      moreover have "16 \<le> length (drop (nat ?e) (ei_mem st))" using f(4,5) by simp
      ultimately have w: "take k (drop ?o ?b) = take k r" "k \<le> length (drop ?o ?b)" "k \<le> length r"
        using slop_copy [of k ?o "drop (nat ?e) (ei_mem st)" "replicate 10 0"] unfolding r' by blast+
      show ?thesis unfolding t by (rule exact_take [OF lo w(2,3,1)])
    qed (simp add: array_done)
    moreover have "array_from Lp add ?x n m = array_from Lp add r ?t m'" using split Some z q(2) by simp
    ultimately have e: "exact (array_from Lp add ?x n m) = exact (array_from Lp add (drop ?o ?b) ?t m')" by simp
    let ?y = "(if res = Some (n - ?k) then Some (?e + (n - ?k)) else None, m3)"
    have "ReadPackedVarint_loop (Suc fuel) L Lp add p n ?k m st = Some (Inr (?y, st))"
      using n r q b sl(2) by (subst ReadPackedVarint_loop.simps) (simp add: kSlopBytes_def)
    moreover have "agrees T st (Option.bind (left T st p) (packed_list Lp add n m)) ?y"
      using d e by (intro here) (auto simp: exact_def split: option.splits)
    ultimately show ?thesis by blast
  qed
qed

text \<open>The field goes on behind the slop: the rest of it is a field in the next buffer.\<close>

lemma packed_list_moves:
  assumes lo: "pb_local Lp" and a: "in_at T st p" and m: "moves T st (p + int i) st' q" and ip: "p + int i \<le> ei_buffer_end st + 16"
    and k: "k \<le> n" "int i = k - j" "int i \<le> n"
    and c: "\<And>s. left T st p = Some s \<Longrightarrow> n \<le> int (length s) \<Longrightarrow> outcome (array_from Lp add s k m0) = Some (j, m')"
  shows "Option.bind (left T st p) (packed_list Lp add n m0) = Option.bind (left T st' q) (packed_list Lp add (n - int i) m')"
proof -
  note adv = left_advance [OF a ip] moves_left [OF m]
  show ?thesis
  proof (cases "left T st p")
    case None
    with adv show ?thesis by simp
  next
    case (Some s)
    show ?thesis
    proof (cases "n \<le> int (length s)")
      case True
      then have il: "i \<le> length s" using k(3) by linarith
      from c [OF Some True] obtain r where r: "array_from Lp add s k m0 = Some (r, j, m')"
        by (auto simp: outcome_def)
      from array_result [OF lo r] obtain i' where "i' \<le> length s" "r = drop i' s" "j = k - int i'" by blast
      then have "r = drop i s" "n - k + j = n - int i" using k(2) by simp_all
      then have "array_from Lp add s n m0 = array_from Lp add (drop i s) (n - int i) m'"
        by (simp only: array_split [OF lo k(1), of add s m0] r option.case prod.case)
      moreover have "left T st' q = Some (drop i s)" using adv(2,4) Some il by simp
      moreover have "nat (n - int i) + i = nat n" using k(3) by simp
      ultimately show ?thesis using Some True il k(3) by (simp add: packed_list_def of_nat_diff)
    next
      case False
      have "Option.bind (left T st' q) (packed_list Lp add (n - int i) m') = None"
        using adv(2,4) Some False by (auto simp: packed_list_def of_nat_diff split: Option.bind_splits if_splits)
      with Some False show ?thesis by (simp add: packed_list_def)
    qed
  qed
qed

lemma packed_loop:
  assumes lo: "pb_local Lp" and L: "in_lib_ok L Lp T"
  shows "in_at T st p \<Longrightarrow> 0 \<le> n \<Longrightarrow> length (T st) < fuel \<Longrightarrow>
    \<exists>y st'. ReadPackedVarint_loop fuel L Lp add p n (ei_buffer_end st - p) m st = Some (Inr (y, st')) \<and>
      ei_last_tag_minus_1 st' = ei_last_tag_minus_1 st \<and>
      agrees T st' (Option.bind (left T st p) (packed_list Lp add n m)) y"
proof (induction fuel arbitrary: p n m st)
  case 0
  then show ?case by simp
next
  case (Suc fuel)
  let ?e = "ei_buffer_end st" and ?x = "drop (nat p) (ei_mem st)"
  let ?k = "?e - p"
  note a = Suc.prems(1)
  consider "n \<le> ?k" | "?k < n" "n - ?k \<le> 16" | "16 < n - ?k" by linarith
  then show ?case
  proof cases
    case 1
    from packed_in_buffer [where add = add and m = m and fuel = "Suc fuel" and L = L, OF lo a Suc.prems(2) this]
    show ?thesis by blast
  next
    case 2
    from packed_in_slop [where add = add and m = m and fuel = fuel and L = L, OF lo a 2(1) Suc.prems(2) 2(2)]
    show ?thesis by blast
  next
    case 3
    have f: "0 \<le> p" "?e < int (length (ei_mem st))" "?e \<le> p + int (nat ?k)" "- 16 \<le> ?k" "in_fit T st"
      using a by (auto simp: in_at_def in_fit_def)
    have none: "Option.bind (left T st p) (packed_list Lp add n m) = None" if "ei_limit st \<le> 16"
    proof (cases "left T st p")
      case (Some s)
      then have "int (length s) < n" using left_length [OF a Some] 3 that by (simp add: BytesUntilLimit_def)
      with Some show ?thesis by (simp add: packed_list_def)
    qed simp
    have prefix: "outcome (array_from Lp add s ?k m) = outcome (array_from Lp add ?x ?k m)"
      if "left T st p = Some s" "n \<le> int (length s)" for s
    proof -
      let ?c = "take (nat (?k + 16)) s"
      have "nat (?k + 16) \<le> length s" "p + int (nat (?k + 16)) \<le> ?e + 16" using that(2) 3 f(4) by linarith+
      from memory_left(1) [OF a that(1) this] have "?c = take (nat (?k + 16)) ?x" by simp
      then have c: "s = ?c @ drop (nat (?k + 16)) s" "?x = ?c @ drop (nat (?k + 16)) ?x"
        by (metis append_take_drop_id)+
      have "int (length ?c) = ?k + 16" using that(2) 3 f(4) by simp
      then have w: "?k \<le> 0 \<or> ?k + 10 \<le> int (length ?c)" by simp
      from array_prefix [OF lo c(1) w, of add m] array_prefix [OF lo c(2) w, of add m] show ?thesis by (rule trans [OF _ sym])
    qed
    from array_at [OF lo f(1-3), of add m] obtain q m' where
      r: "ReadPackedVarintArray_at (nat ?k) Lp add (ei_mem st) p ?e m = Some (Inr (q, m'))"
      and c: "case array_from Lp add ?x ?k m of
        None \<Rightarrow> q = None | Some (r, j, m'') \<Rightarrow> q = Some (?e - j) \<and> m' = m''" by (auto split: option.splits)
    show ?thesis
    proof (cases "array_from Lp add ?x ?k m")
      case None
      with c have "q = None" by simp
      with r 3 have "ReadPackedVarint_loop (Suc fuel) L Lp add p n ?k m st = Some (Inr ((None, m'), st))"
        by (subst ReadPackedVarint_loop.simps) simp
      moreover have "packed_list Lp add n m s = None" if s: "left T st p = Some s" for s
      proof (cases "n \<le> int (length s)")
        case True
        then have "array_from Lp add s ?k m = None" using prefix [OF s] None by (simp add: outcome_def)
        then show ?thesis using array_split [OF lo, of ?k n add s m] 3 by (simp add: packed_list_def)
      qed (simp add: packed_list_def)
      ultimately show ?thesis by (cases "left T st p") (simp_all add: agrees_def)
    next
      case (Some z)
      obtain r' j m'' where z: "z = (r', j, m'')" by (cases z)
      from array_result [OF lo Some [unfolded z]] obtain i where
        i: "int i = ?k - j" "j \<le> 0" "i = 0 \<or> - 10 < j" by auto
      have q: "q = Some (?e - j)" "m'' = m'" using c Some z by auto
      have o: "- j \<le> 16" using i f(4) by auto
      show ?thesis
      proof (cases "ei_limit st \<le> 16")
        case True
        then have "ReadPackedVarint_loop (Suc fuel) L Lp add p n ?k m st = Some (Inr ((None, m'), st))"
          using r q 3 by (subst ReadPackedVarint_loop.simps) (simp add: kSlopBytes_def)
        with none [OF True] show ?thesis by (simp add: agrees_def)
      next
        case False
        with in_lib_next [OF L f(5)] obtain p' st' where
          n: "NextChunk L st = (Some p', st')" "moves T st ?e st' p'" "p' \<le> ei_buffer_end st'" "length (T st') < length (T st)"
          by auto
        let ?p = "p' + (- j)" and ?n = "n - int i"
        have "in_at T st ?e" using f(5) by (simp add: in_at_def in_fit_def)
        from moves_advance [OF n(2) this, of "nat (- j)"] have
          m: "moves T st (p + int i) st' ?p" using i(1,2) o n(3) by simp
        have step: "ReadPackedVarint_loop (Suc fuel) L Lp add p n ?k m st =
            ReadPackedVarint_loop fuel L Lp add ?p ?n (ei_buffer_end st' - ?p) m' st'"
          using r q 3 False n(1)
          by (subst ReadPackedVarint_loop.simps) (simp add: kSlopBytes_def i(1))
        have eq: "Option.bind (left T st p) (packed_list Lp add n m) = Option.bind (left T st' ?p) (packed_list Lp add ?n m')"
        proof (rule packed_list_moves [OF lo a m, of ?k n j])
          show "p + int i \<le> ?e + 16" "?k \<le> n" "int i = ?k - j" "int i \<le> n" using i o 3 by simp_all
          show "outcome (array_from Lp add s ?k m) = Some (j, m')" if "left T st p = Some s" "n \<le> int (length s)" for s
            using prefix [OF that] Some z q(2) by simp
        qed
        have "in_at T st' ?p" "0 \<le> ?n" "length (T st') < fuel" using m n(4) Suc.prems(3) i o 3 by (simp_all add: moves_def)
        from Suc.IH [OF this, of m'] show ?thesis using m unfolding step eq by (auto simp: moves_def)
      qed
    qed
  qed
qed

text \<open>The slow reader of lengths, like those of varints, looks at no more than it consumes.\<close>

definition size_local :: "pb_lib \<Rightarrow> bool" where
  "size_local L \<longleftrightarrow>
     (\<forall>h. reads_locally 5 (\<lambda>p. ReadSizeFallback L p h)) \<and>
     (\<forall>p h r n. ReadSizeFallback L p h = Some (r, n) \<longrightarrow> length r + 1 < length p)"

lemma ReadSize_local:
  assumes "size_local L"
  shows "reads_locally 5 (ReadSize L)"
  unfolding reads_locally_def
proof (intro allI)
  fix p q
  let ?goal = "case ReadSize L (p @ q) of None \<Rightarrow> ReadSize L p = None
    | Some (r, v) \<Rightarrow> \<exists>n. 0 < n \<and> n \<le> 5 \<and> n \<le> length (p @ q) \<and> r = drop n (p @ q) \<and>
        ReadSize L p = (if n \<le> length p then Some (drop n p, v) else None)"
  show ?goal
  proof (cases "p @ q")
    case Nil
    then show ?thesis by (simp add: ReadSize_def)
  next
    case (Cons b s)
    show ?thesis
    proof (cases "b < 128")
      case True
      with Cons show ?thesis by (cases p) (auto simp: ReadSize_def intro!: exI [of _ 1])
    next
      case False
      have pq: "ReadSize L (p @ q) = ReadSizeFallback L (p @ q) (ucast b)" using Cons False by (simp add: ReadSize_def)
      have p: "ReadSize L p = (if p = [] then None else ReadSizeFallback L p (ucast b))"
        using Cons False by (cases p) (simp_all add: ReadSize_def)
      have loc: "reads_locally 5 (\<lambda>p. ReadSizeFallback L p (ucast b))" using assms by (simp add: size_local_def)
      show ?thesis
      proof (cases "ReadSizeFallback L (p @ q) (ucast b)")
        case None
        with reads_locally_None [OF loc None] pq p show ?thesis by simp
      next
        case (Some x)
        obtain r v where x: "x = (r, v)" by fastforce
        from reads_locally_Some [OF loc Some [unfolded x]] obtain n where
          n: "0 < n" "n \<le> 5" "n \<le> length (p @ q)" "r = drop n (p @ q)"
            "ReadSizeFallback L p (ucast b) = (if n \<le> length p then Some (drop n p, v) else None)" by blast
        then have "ReadSize L p = (if n \<le> length p then Some (drop n p, v) else None)" using p by simp
        with n(1-4) show ?thesis unfolding pq Some x option.case prod.case by blast
      qed
    qed
  qed
qed

lemma ReadSize_at_eq:
  assumes "0 \<le> p" and "p < int (length mem)"
  shows "ReadSize_at L mem p = Inr (back_at mem (ReadSize L (drop (nat p) mem)) 0)"
proof -
  obtain i where i: "p = int i" "i < length mem" using assms by (metis nonneg_int_cases of_nat_less_iff)
  then have d: "drop i mem = mem ! i # drop (Suc i) mem" by (simp add: Cons_nth_drop_Suc)
  have n: "int (length mem - Suc i) = int (length mem) - p - 1" using i by simp
  show ?thesis using i by (simp add: ReadSize_at_def ReadSize_def vec_get_def d back_at_def n)
qed

lemma ReadPackedVarint_list:
  assumes "pb_local L"
  shows "ReadPackedVarint L add p m = Option.bind (ReadSize L p) (\<lambda>(r, k). packed_list L add (int k) m r)"
proof (cases "ReadSize L p")
  case (Some x)
  obtain r k where x: "x = (r, k)" by fastforce
  have e: "ReadPackedVarintArray k L add r (int k) m = array_from L add r (int k) m"
    by (rule array_enough [OF assms]) simp
  show ?thesis
  proof (cases "array_from L add r (int k) m")
    case None
    with Some x e show ?thesis by (simp add: ReadPackedVarint_def packed_list_def)
  next
    case s: (Some y)
    obtain r' j m' where y: "y = (r', j, m')" by (cases y)
    from array_result [OF assms s [unfolded y]] Some x e s y show ?thesis
      by (auto simp: ReadPackedVarint_def packed_list_def)
  qed
qed (simp add: ReadPackedVarint_def)

section \<open>Strings across buffers\<close>

text \<open>\<open>AppendSize\<close> takes the buffer with its slop, and from each next buffer what is behind the copied slop.\<close>

lemma append_size:
  assumes L: "in_lib_ok L Lp T"
  shows "in_at T st p \<Longrightarrow> left T st p = Some s \<Longrightarrow> n \<le> length s \<Longrightarrow> ei_buffer_end st + 16 - p < int n \<Longrightarrow>
      length (T st) < fuel \<Longrightarrow>
    \<exists>q st'. AppendSize fuel L (\<lambda>bs a. a @ bs) p (int n) a st = Some (Inr ((Some q, a @ take n s), st')) \<and>
      in_at T st' q \<and> left T st' q = Some (drop n s) \<and> ei_last_tag_minus_1 st' = ei_last_tag_minus_1 st"
  unfolding AppendSize_def
proof (induction fuel arbitrary: p s n a st)
  case 0
  then show ?case by simp
next
  case (Suc fuel)
  let ?e = "ei_buffer_end st"
  obtain k where k: "?e + 16 - p = int k" using Suc.prems(1) by (metis in_at_def diff_ge_0_iff_ge nonneg_int_cases)
  have f: "in_fit T st" "0 \<le> p" "?e + 16 \<le> int (length (ei_mem st))" using Suc.prems(1) by (auto simp: in_at_def in_fit_def)
  have kn: "k < n" "k \<le> length s" using Suc.prems(3,4) k by simp_all
  have pk: "p + int k = ?e + 16" using k by simp
  have lim: "16 < ei_limit st" using left_length [OF Suc.prems(1,2)] kn pk Suc.prems(3) by (simp add: BytesUntilLimit_def)
  then have nx: "ei_next_chunk st \<noteq> None" using f(1) by (auto simp: in_fit_def split: if_splits)
  have r: "mem_read (ei_mem st) p (int k) = Inr (take k s)"
    using memory_left(1) [OF Suc.prems(1,2) kn(2)] f(2,3) pk by (simp add: mem_read_def)
  from in_lib_next [OF L f(1) lim] obtain p' st' where
    n: "NextChunk L st = (Some p', st')" "moves T st ?e st' p'" "p' \<le> ei_buffer_end st'" "length (T st') < length (T st)"
    by blast
  have "in_at T st ?e" using f(1) by (simp add: in_at_def in_fit_def)
  from moves_advance [OF n(2) this, of 16] n(3) have m: "moves T st (?e + 16) st' (p' + 16)" by simp
  have at: "in_at T st' (p' + 16)" "ei_last_tag_minus_1 st' = ei_last_tag_minus_1 st" using m by (simp_all add: moves_def)
  have l: "left T st' (p' + 16) = Some (drop k s)"
    using moves_left [OF m] left_advance(2) [OF Suc.prems(1) _ Suc.prems(2), of k] pk kn(2) by simp
  let ?c = "ei_buffer_end st' + 16 - (p' + 16)" and ?n = "n - k"
  have n': "?n \<le> length (drop k s)" "int n - int k = int ?n" using Suc.prems(3) kn by simp_all
  have step: "AppendSize_loop (Suc fuel) L (\<lambda>bs a. a @ bs) p (int n) (?e + kSlopBytes - p) a st =
      (if ?c < int ?n then AppendSize_loop fuel L (\<lambda>bs a. a @ bs) (p' + 16) (int ?n) ?c (a @ take k s) st'
       else Some (bind_result (mem_read (ei_mem st') (p' + 16) (int ?n)) (\<lambda>bs.
         Inr ((Some (p' + 16 + int ?n), (a @ take k s) @ bs), st'))))"
  proof -
    have c: "?e + 16 - p = int k" "(ei_next_chunk st = None) = False" "(ei_limit st \<le> 16) = False"
      using k nx lim by simp_all
    show ?thesis
      by (simp only: kSlopBytes_def c AppendSize_loop.simps r and_then.simps Let_def n'(2) n(1) option.case prod.case if_False)
  qed
  have whole: "take k s @ take ?n (drop k s) = take n s" using kn(1) by (metis le_add_diff_inverse less_imp_le take_add)
  show ?case
  proof (cases "?c < int ?n")
    case True
    have "length (T st') < fuel" using n(4) Suc.prems(5) by simp
    from Suc.IH [OF at(1) l n'(1) True this, of "a @ take k s"] obtain q st'' where
      "AppendSize_loop fuel L (\<lambda>bs a. a @ bs) (p' + 16) (int ?n) (ei_buffer_end st' + kSlopBytes - (p' + 16)) (a @ take k s) st' =
        Some (Inr ((Some q, (a @ take k s) @ take ?n (drop k s)), st''))"
      "in_at T st'' q" "left T st'' q = Some (drop ?n (drop k s))" "ei_last_tag_minus_1 st'' = ei_last_tag_minus_1 st'" by blast
    with True step whole at(2) kn(1) show ?thesis by (auto simp: kSlopBytes_def)
  next
    case False
    have e: "p' + 16 + int ?n \<le> ei_buffer_end st' + 16" using False by simp
    have "0 \<le> p' + 16" "ei_buffer_end st' + 16 \<le> int (length (ei_mem st'))" using at(1) by (auto simp: in_at_def in_fit_def)
    then have "mem_read (ei_mem st') (p' + 16) (int ?n) = Inr (take ?n (drop k s))"
      using memory_left(1) [OF at(1) l n'(1) e] e by (simp add: mem_read_def)
    then have res: "AppendSize_loop (Suc fuel) L (\<lambda>bs a. a @ bs) p (int n) (?e + kSlopBytes - p) a st =
        Some (Inr ((Some (p' + 16 + int ?n), a @ take n s), st'))"
      unfolding step using False whole by simp
    have "left T st' (p' + 16 + int ?n) = Some (drop n s)" using left_advance(2) [OF at(1) e l] n'(1) kn(1) by simp
    with res left_advance(1) [OF at(1) e] at(2) show ?thesis by blast
  qed
qed

section \<open>Limits\<close>

text \<open>
  A nested message is read under a limit: after \<open>PushLimit\<close> for its length exactly its bytes are left, and when it
  has been read to the end, in whichever buffer that is, \<open>PopLimit\<close> with the returned difference leaves exactly
  what follows it.
\<close>

definition limit_free :: "('s eps_in \<Rightarrow> bytes) \<Rightarrow> bool" where
  "limit_free T \<longleftrightarrow> (\<forall>st l e. T (st\<lparr>ei_limit := l, ei_limit_end := e\<rparr>) = T st)"

lemma set_limit_at:
  assumes "limit_free T" and a: "in_at T st p" and l: "l = p - ei_buffer_end st + int n" and n: "l \<le> int (length (T st))"
  shows "in_at T (st\<lparr>ei_limit := l, ei_limit_end := ei_buffer_end st + min 0 l\<rparr>) p"
    and "left T (st\<lparr>ei_limit := l, ei_limit_end := ei_buffer_end st + min 0 l\<rparr>) p = Some (take n (ahead T st p))"
proof -
  let ?st = "st\<lparr>ei_limit := l, ei_limit_end := ei_buffer_end st + min 0 l\<rparr>"
  have T: "T ?st = T st" using assms(1) by (simp add: limit_free_def)
  have h: "ahead T ?st p = ahead T st p" by (simp add: ahead_def T)
  show "in_at T ?st p" using a n by (simp add: in_at_def in_fit_def T)
  show "left T ?st p = Some (take n (ahead T st p))" unfolding left_def h by (simp add: BytesUntilLimit_def l)
qed

lemma limit_push_pop:
  assumes "limit_free T" and a: "in_at T st p" "left T st p = Some s" and n: "n \<le> length s" "length s < 2 ^ 30"
    and b: "in_at T st2 q" "left T st2 q = Some []" "ahead T st2 q = drop n (ahead T st p)" "EndedAtLimit st2"
    and e: "ei_buffer_end st < 2 ^ 30" "ei_buffer_end st2 < 2 ^ 30"
  shows "\<exists>delta st1 st3. PushLimit p (int n) st = Inr (delta, st1) \<and> in_at T st1 p \<and> left T st1 p = Some (take n s) \<and>
    PopLimit delta st2 = Inr (True, st3) \<and> in_at T st3 q \<and> left T st3 q = Some (drop n s)"
proof -
  let ?l = "p - ei_buffer_end st + int n" and ?d = "int (length s) - int n"
  have f: "0 \<le> p" "p \<le> ei_buffer_end st + 16" "0 \<le> ei_buffer_end st" "0 \<le> q" "q \<le> ei_buffer_end st2 + 16" "0 \<le> ei_buffer_end st2"
    using a(1) b(1) by (auto simp: in_at_def in_fit_def)
  have lim: "ei_limit st = p - ei_buffer_end st + int (length s)" "ei_limit st2 = q - ei_buffer_end st2"
    using left_length [OF a] left_length [OF b(1,2)] by (simp_all add: BytesUntilLimit_def)
  note s = left_take [OF a]
  have t: "ei_limit st \<le> int (length (T st))" "ei_limit st2 \<le> int (length (T st2))"
    using a(1) b(1) by (auto simp: in_at_def in_fit_def)
  have "?l \<le> int (length (T st))" using t(1) lim(1) n(1) by simp
  note at1 = set_limit_at [OF assms(1) a(1) _ this, OF refl]
  have "q - ei_buffer_end st2 + int (length s - n) \<le> int (length (T st2))"
  proof (cases "length s = n")
    case True
    then show ?thesis using t(2) lim(2) by simp
  next
    case False
    have "length s - n \<le> length (ahead T st2 q)" using s(2) b(3) n(1) by simp
    then show ?thesis using length_ahead [OF b(1)] False n(1) by (simp add: of_nat_diff max_def split: if_splits)
  qed
  note at3 = set_limit_at [OF assms(1) b(1) _ this, OF refl]
  have "PushLimit p (int n) st = Inr (?d, st\<lparr>ei_limit := ?l, ei_limit_end := ei_buffer_end st + min 0 ?l\<rparr>)"
    using f lim(1) n e(1) by (simp add: PushLimit_def add_int32_def sub_int32_def in_int32_def int32_min_def int32_max_def algebra_simps)
  moreover have "PopLimit ?d st2 = Inr (True, st2\<lparr>ei_limit := q - ei_buffer_end st2 + int (length s - n),
      ei_limit_end := ei_buffer_end st2 + min 0 (q - ei_buffer_end st2 + int (length s - n))\<rparr>)"
    using f lim(2) n e(2) b(4) by (simp add: PopLimit_def add_int32_def in_int32_def int32_min_def int32_max_def of_nat_diff)
  moreover have "take n (ahead T st p) = take n s" using s(1) n(1) by (metis min.absorb1 take_take)
  moreover have "take (length s - n) (ahead T st2 q) = drop n s" unfolding b(3) using s(1) by (metis drop_take)
  ultimately show ?thesis using at1 at3 by auto
qed

lemma chunk_limit_free: "limit_free chunk_T"
  unfolding limit_free_def
proof (intro allI)
  fix st :: "chunks eps_in" and l e
  let ?st = "st\<lparr>ei_limit := l, ei_limit_end := e\<rparr>"
  have "pending ?st = pending st" "behind ?st = behind st" "slop_of ?st = slop_of st"
    by (simp_all add: pending_def behind_def slop_of_def split: option.split)
  then show "chunk_T ?st = chunk_T st" by (simp add: chunk_T_def split: option.split)
qed

text \<open>C19: The reader of packed varints, which runs over the end of a buffer into the slop, finishes in a copy of the slop
  or goes on in the next buffer, is the reader of \<^verbatim>\<open>Wire_Lite\<close> on the bytes that are left before the limit: it
  returns, meets no access outside the buffers, and yields the same elements and the same place, or null or a place past
  the limit where the other fails. It needs one round for every buffer.\<close>

theorem packed_varints_in_place:
  assumes "pb_local Lp" and "size_local Lp" and "in_lib_ok L Lp T"
    and "in_at T st p" and "p + 5 \<le> ei_buffer_end st + 16" and "length (T st) < fuel"
  shows "\<exists>y st'. ReadPackedVarint_at fuel L Lp add p m st = Some (Inr (y, st')) \<and>
    ei_last_tag_minus_1 st' = ei_last_tag_minus_1 st \<and>
    agrees T st' (Option.bind (left T st p) (\<lambda>s. ReadPackedVarint Lp add s m)) y"
proof -
  have b: "0 \<le> p" "p < int (length (ei_mem st))" "p + int 5 \<le> ei_buffer_end st + 16"
    using assms(4,5) by (auto simp: in_at_def in_fit_def)
  obtain q k where t: "back_at (ei_mem st) (ReadSize Lp (drop (nat p) (ei_mem st))) 0 = (q, k)" by fastforce
  have ag: "agrees T st (Option.bind (left T st p) (ReadSize Lp)) (q, k)"
    using reader_agrees(1) [OF ReadSize_local [OF assms(2)] assms(4) b(3), of 0] by (simp add: t)
  note at = ReadSize_at_eq [OF b(1,2), of Lp]
  have list: "Option.bind (left T st p) (\<lambda>s. ReadPackedVarint Lp add s m) =
      Option.bind (Option.bind (left T st p) (ReadSize Lp)) (\<lambda>(r, k). packed_list Lp add (int k) m r)"
    by (cases "left T st p") (simp_all add: ReadPackedVarint_list [OF assms(1)])
  show ?thesis
  proof (cases q)
    case None
    then have "Option.bind (left T st p) (ReadSize Lp) = None" using ag by (auto simp: agrees_def split: option.splits)
    with None at t list show ?thesis by (simp add: ReadPackedVarint_at_def agrees_def)
  next
    case (Some p1)
    have p1: "in_at T st p1" using ag Some by (auto simp: agrees_def split: option.splits)
    have "Option.bind (left T st p) (\<lambda>s. ReadPackedVarint Lp add s m) =
        Option.bind (left T st p1) (packed_list Lp add (int k) m)"
    proof (cases "Option.bind (left T st p) (ReadSize Lp)")
      case None
      then have "left T st p1 = None" using ag Some by (simp add: agrees_def)
      with None show ?thesis unfolding list None by simp
    next
      case s: (Some x)
      then have "x = (the (left T st p1), k)" "left T st p1 = Some (the (left T st p1))"
        using ag Some by (auto simp: agrees_def split: prod.splits)
      then show ?thesis unfolding list s by (metis Option.bind.simps(2) prod.case)
    qed
    with packed_loop [OF assms(1,3) p1 _ assms(6), of "int k" add m] Some at t show ?thesis
      by (simp add: ReadPackedVarint_at_def)
  qed
qed

lemma bounded_size_local: "size_local bounded_lib"
  by (auto simp: size_local_def bounded_lib_def intro!: up_to_local after_varint_prefix dest!: up_to_shrinks)

text \<open>A field of thirty elements that begins in a buffer of eight bytes and ends two buffers later.\<close>

definition wpacked :: "chunks eps_in" where
  "wpacked = (EpsCopyInputStream_new False [])\<lparr>ei_mem := 30 # replicate 23 1, ei_buffer_end := 8, ei_limit_end := 8,
     ei_limit := 28, ei_next_chunk := Some Own_buffer, ei_stream := Some ([], [replicate 5 1, [], replicate 10 1])\<rparr>"

theorem packed_varints_in_place_witness:
  "\<exists>q st'. ReadPackedVarint_at 32 chunk_lib bounded_lib (#) 0 [] wpacked = Some (Inr ((Some q, replicate 30 1), st')) \<and>
     left chunk_T st' q = Some (replicate 5 1)"
proof -
  have T: "chunk_T wpacked = replicate 31 1" by code_simp
  have a: "in_at chunk_T wpacked 0"
    unfolding in_at_def in_fit_def T by (simp add: wpacked_def EpsCopyInputStream_new_def)
  have l: "left chunk_T wpacked 0 = Some (30 # replicate 35 1)" by code_simp
  have r: "ReadPackedVarint bounded_lib (#) (30 # replicate 35 1) [] = Some (replicate 5 1, replicate 30 1)" by code_simp
  have "0 + 5 \<le> ei_buffer_end wpacked + 16" "length (chunk_T wpacked) < 32"
    unfolding T by (simp_all add: wpacked_def)
  from packed_varints_in_place [OF bounded_lib_local bounded_size_local chunk_lib_ok a this, of "(#)" "[]"]
  show ?thesis by (auto simp: l r agrees_def)
qed

end
