(* ===== verification/Hiredis_Sds.thy ===== *)
theory Hiredis_Sds
  imports CK_Prelude
begin

unbundle bit_operations_syntax

text \<open>
  The dynamic strings of \<^verbatim>\<open>hiredis\<close>, \<^verbatim>\<open>sds.h\<close> and \<^verbatim>\<open>sds.c\<close>: a header of one of
  five kinds with a length and a capacity, and a block of characters that always ends with a null byte. The
  operations are refined to lists of bytes.
\<close>

section \<open>Headers\<close>

datatype sds_type = Type5 | Type8 | Type16 | Type32 | Type64

fun sds_bits :: "sds_type \<Rightarrow> nat" where
  "sds_bits Type5 = 5"
| "sds_bits Type8 = 8"
| "sds_bits Type16 = 16"
| "sds_bits Type32 = 32"
| "sds_bits Type64 = 64"

text \<open>\<open>sds_chars\<close> is the block from the string's first character on; a string of kind 5 has no capacity field.\<close>

record sds =
  sds_type :: sds_type
  sds_len :: nat
  sds_alloc :: nat
  sds_chars :: bytes

text \<open>What a pointer to a string can be after a call that took it.\<close>

datatype sds_ptr = Null | Live sds | Freed

text \<open>An answer of the allocator: whether there is memory, and what it holds.\<close>

record memory =
  mem_ok :: bool
  mem_bytes :: "nat \<Rightarrow> bytes"

definition block :: "memory \<Rightarrow> nat \<Rightarrow> bytes" where
  "block m n = take n (mem_bytes m n @ replicate n 0)"

lemma length_block [simp]: "length (block m n) = n" by (simp add: block_def)

abbreviation sdslen :: "sds \<Rightarrow> nat" where "sdslen \<equiv> sds_len"

definition sdsalloc :: "sds \<Rightarrow> nat" where
  "sdsalloc s = (if sds_type s = Type5 then sds_len s else sds_alloc s)"

definition sdsavail :: "sds \<Rightarrow> nat" where
  "sdsavail s = (if sds_type s = Type5 then 0 else sds_alloc s - sds_len s)"

definition sdssetlen :: "nat \<Rightarrow> sds \<Rightarrow> sds" where
  "sdssetlen n s = s\<lparr>sds_len := n mod 2 ^ sds_bits (sds_type s)\<rparr>"

definition sdsinclen :: "nat \<Rightarrow> sds \<Rightarrow> sds" where
  "sdsinclen n s = s\<lparr>sds_len := (sds_len s + n mod 2 ^ sds_bits (sds_type s)) mod 2 ^ sds_bits (sds_type s)\<rparr>"

definition sdssetalloc :: "nat \<Rightarrow> sds \<Rightarrow> sds" where
  "sdssetalloc n s = (if sds_type s = Type5 then s else s\<lparr>sds_alloc := n mod 2 ^ sds_bits (sds_type s)\<rparr>)"

definition sdsReqType :: "nat \<Rightarrow> sds_type" where
  "sdsReqType n =
     (if n < 32 then Type5 else if n < 0xff then Type8 else if n < 0xffff then Type16
      else if n < 0xffffffff then Type32 else Type64)"

definition SDS_MAX_PREALLOC :: nat where "SDS_MAX_PREALLOC = 1024 * 1024"

section \<open>Creation\<close>

text \<open>\<open>init\<close> is \<open>None\<close> for a null pointer; otherwise its first \<open>n\<close> bytes are copied.\<close>

definition sdsnewlen :: "memory \<Rightarrow> bytes option \<Rightarrow> nat \<Rightarrow> sds option result" where
  "sdsnewlen m init n =
     (let type = (if sdsReqType n = Type5 \<and> n = 0 then Type8 else sdsReqType n) in
      if \<not> mem_ok m then Inr None
      else bind_result
        (case init of
           None \<Rightarrow> Inr (replicate (n + 1) 0)
         | Some t \<Rightarrow> copy_into (block m (n + 1)) 0 t 0 n) (\<lambda>chars.
        bind_result (vec_set chars (int n) 0) (\<lambda>chars'.
          Inr (Some \<lparr>sds_type = type, sds_len = n, sds_alloc = n, sds_chars = chars'\<rparr>))))"

definition sdsempty :: "memory \<Rightarrow> sds option result" where
  "sdsempty m = sdsnewlen m (Some []) 0"

definition sdsdup :: "memory \<Rightarrow> sds \<Rightarrow> sds option result" where
  "sdsdup m s = sdsnewlen m (Some (sds_chars s)) (sdslen s)"

text \<open>A pointer to a block that was already freed must not be freed again.\<close>

definition sdsfree :: "sds_ptr \<Rightarrow> unit result" where
  "sdsfree p = (case p of Freed \<Rightarrow> Inl UseAfterFree | _ \<Rightarrow> Inr ())"

section \<open>Room\<close>

text \<open>Capacities are doubled up to 1 MB; a string that grows is never of kind 5.\<close>

definition new_capacity :: "nat \<Rightarrow> nat" where
  "new_capacity n = (if n < SDS_MAX_PREALLOC then n * 2 else n + SDS_MAX_PREALLOC)"

definition new_type :: "nat \<Rightarrow> sds_type" where
  "new_type n = (if sdsReqType n = Type5 then Type8 else sdsReqType n)"

text \<open>
  The new string, and what the caller's old pointer is. When \<open>realloc\<close> fails the old block is freed all the same;
  when \<open>malloc\<close> fails, for a change of the kind, it is kept.
\<close>

definition sdsMakeRoomFor :: "memory \<Rightarrow> nat \<Rightarrow> sds \<Rightarrow> (sds option \<times> sds_ptr) result" where
  "sdsMakeRoomFor m addlen s =
     (if addlen \<le> sdsavail s then Inr (Some s, Live s)
      else
        (let len = sdslen s; newlen = new_capacity (len + addlen); type = new_type newlen in
         if sds_type s = type then
           (if \<not> mem_ok m then Inr (None, Freed)
            else
              (let s' = sdssetalloc newlen (s\<lparr>sds_chars := take (newlen + 1) (sds_chars s @ block m (newlen + 1))\<rparr>) in
               Inr (Some s', Live s')))
         else if \<not> mem_ok m then Inr (None, Live s)
         else
           bind_result (copy_into (block m (newlen + 1)) 0 (sds_chars s) 0 (len + 1)) (\<lambda>chars.
             let s' = sdssetalloc newlen (sdssetlen len (s\<lparr>sds_chars := chars, sds_type := type\<rparr>)) in
             Inr (Some s', Live s'))))"

definition sdsRemoveFreeSpace :: "memory \<Rightarrow> sds \<Rightarrow> sds option result" where
  "sdsRemoveFreeSpace m s =
     (let len = sdslen s; type = sdsReqType len in
      if \<not> mem_ok m then Inr None
      else if sds_type s = type then
        Inr (Some (sdssetalloc len (s\<lparr>sds_chars := take (len + 1) (sds_chars s @ block m (len + 1))\<rparr>)))
      else
        bind_result (copy_into (block m (len + 1)) 0 (sds_chars s) 0 (len + 1)) (\<lambda>chars.
          Inr (Some (sdssetalloc len (sdssetlen len (s\<lparr>sds_chars := chars, sds_type := type\<rparr>))))))"

section \<open>Operations\<close>

definition write_end :: "nat \<Rightarrow> sds \<Rightarrow> sds result" where
  "write_end n s = bind_result (vec_set (sds_chars s) (int n) 0) (\<lambda>chars. Inr (s\<lparr>sds_chars := chars\<rparr>))"

definition sdsclear :: "sds \<Rightarrow> sds result" where
  "sdsclear s = write_end 0 (sdssetlen 0 s)"

definition sdscatlen :: "memory \<Rightarrow> bytes \<Rightarrow> nat \<Rightarrow> sds \<Rightarrow> (sds option \<times> sds_ptr) result" where
  "sdscatlen m t n s =
     bind_result (sdsMakeRoomFor m n s) (\<lambda>(new, old).
       case new of
         None \<Rightarrow> Inr (None, old)
       | Some s1 \<Rightarrow>
           bind_result (copy_into (sds_chars s1) (sdslen s) t 0 n) (\<lambda>chars.
           bind_result (write_end (sdslen s + n) (sdssetlen (sdslen s + n) (s1\<lparr>sds_chars := chars\<rparr>))) (\<lambda>s2.
             Inr (Some s2, Live s2))))"

definition sdscpylen :: "memory \<Rightarrow> bytes \<Rightarrow> nat \<Rightarrow> sds \<Rightarrow> (sds option \<times> sds_ptr) result" where
  "sdscpylen m t n s =
     bind_result (if sdsalloc s < n then sdsMakeRoomFor m (n - sdslen s) s else Inr (Some s, Live s)) (\<lambda>(new, old).
       case new of
         None \<Rightarrow> Inr (None, old)
       | Some s1 \<Rightarrow>
           bind_result (copy_into (sds_chars s1) 0 t 0 n) (\<lambda>chars.
           bind_result (write_end n (s1\<lparr>sds_chars := chars\<rparr>)) (\<lambda>s2.
             Inr (Some (sdssetlen n s2), Live (sdssetlen n s2)))))"

definition sdsgrowzero :: "memory \<Rightarrow> nat \<Rightarrow> sds \<Rightarrow> (sds option \<times> sds_ptr) result" where
  "sdsgrowzero m len s =
     (if len \<le> sdslen s then Inr (Some s, Live s)
      else bind_result (sdsMakeRoomFor m (len - sdslen s) s) (\<lambda>(new, old).
        case new of
          None \<Rightarrow> Inr (None, old)
        | Some s1 \<Rightarrow>
            bind_result (copy_into (sds_chars s1) (sdslen s) (replicate (len - sdslen s + 1) 0) 0 (len - sdslen s + 1)) (\<lambda>chars.
              let s2 = sdssetlen len (s1\<lparr>sds_chars := chars\<rparr>) in Inr (Some s2, Live s2))))"

text \<open>The indices are \<open>int\<close>s, negative ones count from the end.\<close>

definition sdsrange :: "int \<Rightarrow> int \<Rightarrow> sds \<Rightarrow> sds result" where
  "sdsrange from to s =
     (let len = int (sdslen s) in
      if len = 0 then Inr s
      else
        (let start = (if from < 0 then (if len + from < 0 then 0 else len + from) else from);
             fin = (if to < 0 then (if len + to < 0 then 0 else len + to) else to);
             newlen0 = (if fin < start then 0 else fin - start + 1);
             (start', newlen) =
               (if newlen0 \<noteq> 0 then
                  (if len \<le> start then (start, 0)
                   else if len \<le> fin then (start, if len - 1 < start then 0 else len - 1 - start + 1)
                   else (start, newlen0))
                else (0, newlen0)) in
         bind_result
           (if start' \<noteq> 0 \<and> newlen \<noteq> 0 then copy_into (sds_chars s) 0 (sds_chars s) (nat start') (nat newlen)
            else Inr (sds_chars s)) (\<lambda>chars.
         bind_result (write_end (nat newlen) (s\<lparr>sds_chars := chars\<rparr>)) (\<lambda>s1. Inr (sdssetlen (nat newlen) s1)))))"

section \<open>Strings as lists\<close>

definition sds_val :: "sds \<Rightarrow> bytes" where "sds_val s = take (sds_len s) (sds_chars s)"

definition sds_ok :: "sds \<Rightarrow> bool" where
  "sds_ok s \<longleftrightarrow> sds_len s \<le> sdsalloc s \<and> sdsalloc s < 2 ^ sds_bits (sds_type s) \<and>
     sdsalloc s < length (sds_chars s) \<and> sds_chars s ! sds_len s = 0"

lemma length_sds_val: "sds_ok s \<Longrightarrow> length (sds_val s) = sdslen s"
  by (simp add: sds_ok_def sds_val_def)

lemma sdsReqType_bits: "n < 2 ^ 62 \<Longrightarrow> n < 2 ^ sds_bits (if sdsReqType n = Type5 then Type8 else sdsReqType n)"
  "n < 2 ^ 62 \<Longrightarrow> n < 2 ^ sds_bits (sdsReqType n)"
  by (simp_all add: sdsReqType_def)

lemma sdssetlen_simps [simp]:
  "sds_type (sdssetlen n s) = sds_type s" "sds_chars (sdssetlen n s) = sds_chars s" "sds_alloc (sdssetlen n s) = sds_alloc s"
  "sds_type (sdssetalloc n s) = sds_type s" "sds_chars (sdssetalloc n s) = sds_chars s" "sds_len (sdssetalloc n s) = sds_len s"
  by (simp_all add: sdssetlen_def sdssetalloc_def)

lemma sds_len_setlen: "n < 2 ^ sds_bits (sds_type s) \<Longrightarrow> sds_len (sdssetlen n s) = n"
  by (simp add: sdssetlen_def)

text \<open>A block with a header over it, which is how the operations leave a string.\<close>

lemma sds_okI:
  assumes "sds_len s = n" "sds_type s = Type5 \<Longrightarrow> n < 32"
    "sds_type s \<noteq> Type5 \<Longrightarrow> n \<le> sds_alloc s \<and> sds_alloc s < 2 ^ sds_bits (sds_type s) \<and> sds_alloc s < length (sds_chars s)"
    "n < length (sds_chars s)" "sds_chars s ! n = 0"
  shows "sds_ok s"
  using assms by (auto simp: sds_ok_def sdsalloc_def)

lemma sdsnewlen_ok:
  assumes "n < 2 ^ 62" "n \<le> length t" "mem_ok m"
  shows "\<exists>s. sdsnewlen m (Some t) n = Inr (Some s) \<and> sds_ok s \<and> sds_val s = take n t"
proof -
  let ?T = "if sdsReqType n = Type5 \<and> n = 0 then Type8 else sdsReqType n"
  have T: "n < 2 ^ sds_bits ?T" using sdsReqType_bits [OF assms(1)] by auto
  have c: "copy_into (block m (n + 1)) 0 t 0 n = Inr (take n t @ drop n (block m (n + 1)))"
    using assms(2) by (simp add: copy_into_def)
  have "length (drop n (block m (n + 1))) = Suc 0" by simp
  then obtain b where b: "drop n (block m (n + 1)) = [b]" unfolding length_Suc_conv by auto
  have v: "vec_set (take n t @ drop n (block m (n + 1))) (int n) 0 = Inr (take n t @ [0])"
    unfolding b using assms(2) by (simp add: vec_set_def list_update_append)
  let ?s = "\<lparr>sds_type = ?T, sds_len = n, sds_alloc = n, sds_chars = take n t @ [0]\<rparr>"
  have "sdsnewlen m (Some t) n = Inr (Some ?s)"
    unfolding sdsnewlen_def Let_def option.case c bind_result.simps v using assms(3) by simp
  moreover have "sds_ok ?s" using T assms(2) by (auto simp: sds_ok_def sdsalloc_def nth_append min_def)
  ultimately show ?thesis using assms(2) by (auto simp: sds_val_def)
qed

lemma sdsempty_ok: "mem_ok m \<Longrightarrow> \<exists>s. sdsempty m = Inr (Some s) \<and> sds_ok s \<and> sds_val s = []"
  using sdsnewlen_ok [of 0 "[]" m] by (simp add: sdsempty_def)

text \<open>Growing: what holds of the new string.\<close>

definition grown :: "nat \<Rightarrow> sds \<Rightarrow> sds \<Rightarrow> bool" where
  "grown n s s' \<longleftrightarrow> sds_ok s' \<and> sds_len s' = sds_len s \<and> sds_val s' = sds_val s \<and>
     (0 < n \<longrightarrow> sds_len s + n \<le> sdsalloc s' \<and> sds_type s' \<noteq> Type5)"

lemma sdsMakeRoomFor_ok:
  assumes "sds_ok s" "sds_len s + n < 2 ^ 60" "mem_ok m"
  shows "\<exists>s'. sdsMakeRoomFor m n s = Inr (Some s', Live s') \<and> grown n s s'"
proof (cases "n \<le> sdsavail s")
  case True
  then show ?thesis using assms(1)
    by (auto simp: sdsMakeRoomFor_def grown_def sds_ok_def sdsalloc_def sdsavail_def split: if_splits)
next
  case False
  let ?k = "new_capacity (sds_len s + n)"
  let ?T = "new_type ?k"
  have k: "sds_len s + n \<le> ?k" "?k < 2 ^ 62" using assms(2) by (auto simp: SDS_MAX_PREALLOC_def new_capacity_def)
  have T: "?k < 2 ^ sds_bits ?T" "?T \<noteq> Type5"
    using sdsReqType_bits(1) [OF k(2), folded new_type_def] by (auto simp: new_type_def)
  have len: "sds_len s < length (sds_chars s)" "sds_chars s ! sds_len s = 0" using assms(1) by (auto simp: sds_ok_def)
  show ?thesis
  proof (cases "sds_type s = ?T")
    case True
    let ?s = "sdssetalloc ?k (s\<lparr>sds_chars := take (?k + 1) (sds_chars s @ block m (?k + 1))\<rparr>)"
    have "sdsMakeRoomFor m n s = Inr (Some ?s, Live ?s)"
      using False True assms(3) by (simp add: sdsMakeRoomFor_def Let_def)
    moreover have "grown n s ?s"
      using True T k len by (auto simp: grown_def sds_ok_def sdsalloc_def sdssetalloc_def sds_val_def nth_append min_def)
    ultimately show ?thesis by blast
  next
    case other: False
    have c: "copy_into (block m (?k + 1)) 0 (sds_chars s) 0 (sds_len s + 1) =
        Inr (take (sds_len s + 1) (sds_chars s) @ drop (sds_len s + 1) (block m (?k + 1)))" (is "_ = Inr ?c")
      using k(1) len(1) by (simp add: copy_into_def)
    let ?s = "sdssetalloc ?k (sdssetlen (sds_len s) (s\<lparr>sds_chars := ?c, sds_type := ?T\<rparr>))"
    have "sdsMakeRoomFor m n s = Inr (Some ?s, Live ?s)"
      using False other assms(3) c by (simp add: sdsMakeRoomFor_def Let_def)
    moreover have "grown n s ?s"
      using T k len
      by (auto simp: grown_def sds_ok_def sdsalloc_def sdssetalloc_def sdssetlen_def sds_val_def nth_append min_def)
    ultimately show ?thesis by blast
  qed
qed

text \<open>The end of every operation: the length is set and the null byte written behind it.\<close>

definition fits :: "nat \<Rightarrow> sds \<Rightarrow> bool" where
  "fits n s \<longleftrightarrow> n < length (sds_chars s) \<and> n < 2 ^ sds_bits (sds_type s) \<and>
     (sds_type s \<noteq> Type5 \<longrightarrow> n \<le> sds_alloc s \<and> sds_alloc s < 2 ^ sds_bits (sds_type s) \<and> sds_alloc s < length (sds_chars s))"

lemma write_end_setlen:
  assumes "fits n s"
  shows "\<exists>s'. write_end n (sdssetlen n s) = Inr s' \<and> sds_ok s' \<and> sds_val s' = take n (sds_chars s)"
    and "\<exists>s'. bind_result (write_end n s) (\<lambda>s1. Inr (sdssetlen n s1)) = Inr s' \<and> sds_ok s' \<and> sds_val s' = take n (sds_chars s)"
  using assms
  by (auto simp: fits_def write_end_def vec_set_def sds_ok_def sdsalloc_def sdssetlen_def sds_val_def)

lemma grown_fits:
  assumes "grown n s s'" "m \<le> sds_len s + n" "length c = length (sds_chars s')"
  shows "fits m (s'\<lparr>sds_chars := c\<rparr>)"
  using assms by (cases "n = 0") (auto simp: grown_def fits_def sds_ok_def sdsalloc_def)

lemma sds_ok_fits: "sds_ok s \<Longrightarrow> m \<le> sds_len s \<Longrightarrow> length c = length (sds_chars s) \<Longrightarrow> fits m (s\<lparr>sds_chars := c\<rparr>)"
  by (auto simp: fits_def sds_ok_def sdsalloc_def split: if_splits)

lemma sdscatlen_ok:
  assumes "sds_ok s" "sds_len s + n < 2 ^ 60" "mem_ok m" "n \<le> length t"
  shows "\<exists>s'. sdscatlen m t n s = Inr (Some s', Live s') \<and> sds_ok s' \<and> sds_val s' = sds_val s @ take n t"
proof -
  obtain s1 where s1: "sdsMakeRoomFor m n s = Inr (Some s1, Live s1)" and g: "grown n s s1"
    using sdsMakeRoomFor_ok [OF assms(1-3)] by blast
  have room: "sds_len s + n < length (sds_chars s1)" "sds_len s < length (sds_chars s1)"
    using g by (cases "n = 0"; auto simp: grown_def sds_ok_def sdsalloc_def)+
  let ?c = "take (sds_len s) (sds_chars s1) @ take n t @ drop (sds_len s + n) (sds_chars s1)"
  have c: "copy_into (sds_chars s1) (sds_len s) t 0 n = Inr ?c" using room assms(4) by (simp add: copy_into_def)
  have len: "length ?c = length (sds_chars s1)" using room assms(4) by simp
  obtain s2 where s2: "write_end (sds_len s + n) (sdssetlen (sds_len s + n) (s1\<lparr>sds_chars := ?c\<rparr>)) = Inr s2"
    "sds_ok s2" "sds_val s2 = take (sds_len s + n) ?c"
    using write_end_setlen(1) [OF grown_fits [OF g le_refl len]] by auto
  moreover have "take (sds_len s) (sds_chars s1) = sds_val s" using g unfolding grown_def sds_val_def by metis
  then have "take (sds_len s + n) ?c = sds_val s @ take n t" using room assms(4) length_sds_val [OF assms(1)] by simp
  ultimately show ?thesis by (simp add: sdscatlen_def s1 c)
qed

lemma sdscpylen_ok:
  assumes "sds_ok s" "n < 2 ^ 59" "mem_ok m" "n \<le> length t"
  shows "\<exists>s'. sdscpylen m t n s = Inr (Some s', Live s') \<and> sds_ok s' \<and> sds_val s' = take n t"
proof -
  have "\<exists>s1. (if sdsalloc s < n then sdsMakeRoomFor m (n - sds_len s) s else Inr (Some s, Live s)) = Inr (Some s1, Live s1) \<and> fits n s1"
  proof (cases "sdsalloc s < n")
    case True
    then have "sds_len s + (n - sds_len s) = n" using assms(1) by (simp add: sds_ok_def)
    then obtain s1 where s1: "sdsMakeRoomFor m (n - sds_len s) s = Inr (Some s1, Live s1)" "grown (n - sds_len s) s s1"
      using sdsMakeRoomFor_ok [OF assms(1), of "n - sds_len s" m] assms(2,3) by auto
    then have "fits n (s1\<lparr>sds_chars := sds_chars s1\<rparr>)"
      using \<open>sds_len s + (n - sds_len s) = n\<close> by (intro grown_fits [OF s1(2)]) auto
    then show ?thesis using True s1 by simp
  next
    case False
    then show ?thesis using assms(1) by (auto simp: fits_def sds_ok_def sdsalloc_def split: if_splits)
  qed
  then obtain s1 where s1: "(if sdsalloc s < n then sdsMakeRoomFor m (n - sds_len s) s else Inr (Some s, Live s)) =
      Inr (Some s1, Live s1)" "fits n s1" by blast
  then have "n < length (sds_chars s1)" by (simp add: fits_def)
  then have c: "copy_into (sds_chars s1) 0 t 0 n = Inr (take n t @ drop n (sds_chars s1))"
    using assms(4) by (simp add: copy_into_def)
  have f: "fits n (s1\<lparr>sds_chars := take n t @ drop n (sds_chars s1)\<rparr>)" using s1(2) assms(4) by (simp add: fits_def)
  obtain s2 where s2: "bind_result (write_end n (s1\<lparr>sds_chars := take n t @ drop n (sds_chars s1)\<rparr>)) (\<lambda>s1. Inr (sdssetlen n s1)) = Inr s2"
    "sds_ok s2" "sds_val s2 = take n t"
    using write_end_setlen(2) [OF f] assms(4) by auto
  then obtain s3 where "write_end n (s1\<lparr>sds_chars := take n t @ drop n (sds_chars s1)\<rparr>) = Inr s3" "s2 = sdssetlen n s3"
    by (auto simp: bind_result_Inr_iff)
  then show ?thesis using s2 by (simp add: sdscpylen_def s1(1) c)
qed

lemma sdsgrowzero_ok:
  assumes "sds_ok s" "n < 2 ^ 60" "mem_ok m"
  shows "\<exists>s'. sdsgrowzero m n s = Inr (Some s', Live s') \<and> sds_ok s' \<and>
    sds_val s' = sds_val s @ replicate (n - length (sds_val s)) 0"
proof (cases "n \<le> sds_len s")
  case True
  then show ?thesis using assms(1) length_sds_val [OF assms(1)] by (simp add: sdsgrowzero_def)
next
  case False
  let ?k = "n - sds_len s"
  have n: "sds_len s + ?k = n" using False by simp
  then obtain s1 where s1: "sdsMakeRoomFor m ?k s = Inr (Some s1, Live s1)" and g: "grown ?k s s1"
    using sdsMakeRoomFor_ok [OF assms(1), of ?k m] assms(2,3) by auto
  have room: "n < length (sds_chars s1)" using g False by (auto simp: grown_def sds_ok_def sdsalloc_def)
  let ?c = "take (sds_len s) (sds_chars s1) @ replicate (?k + 1) 0 @ drop (n + 1) (sds_chars s1)"
  have c: "copy_into (sds_chars s1) (sds_len s) (replicate (?k + 1) 0) 0 (?k + 1) = Inr ?c"
    using room False by (simp add: copy_into_def)
  have len: "length ?c = length (sds_chars s1)" using room False by simp
  have f: "fits n (s1\<lparr>sds_chars := ?c\<rparr>)" using grown_fits [OF g _ len, of n] n by simp
  have v: "take (sds_len s) (sds_chars s1) = sds_val s" using g unfolding grown_def sds_val_def by metis
  have "n - Suc (sds_len s) < n - sds_len s" using False by simp
  then have "?c ! n = 0" using v length_sds_val [OF assms(1)] False by (simp add: nth_append)
  moreover have "take n ?c = sds_val s @ replicate ?k 0"
    using v length_sds_val [OF assms(1)] False take_replicate [of ?k "Suc ?k" "0 :: byte"]
    by (simp add: replicate_app_Cons_same flip: append_Cons)
  then have "sds_val (sdssetlen n (s1\<lparr>sds_chars := ?c\<rparr>)) = sds_val s @ replicate ?k 0"
    using f by (simp add: sds_val_def fits_def sdssetlen_def del: take_append)
  moreover have "sds_ok (sdssetlen n (s1\<lparr>sds_chars := ?c\<rparr>))"
    using f calculation(1) by (auto simp: fits_def sds_ok_def sdsalloc_def sdssetlen_def)
  ultimately show ?thesis
    using False length_sds_val [OF assms(1)] c by (simp add: sdsgrowzero_def s1 Let_def)
qed

lemma sdsclear_ok: "sds_ok s \<Longrightarrow> \<exists>s'. sdsclear s = Inr s' \<and> sds_ok s' \<and> sds_val s' = []"
  using write_end_setlen(1) [of 0 s] sds_ok_fits [of s 0 "sds_chars s"] by (simp add: sdsclear_def)

lemma sdsRemoveFreeSpace_ok:
  assumes "sds_ok s" "sds_len s < 2 ^ 60" "mem_ok m"
  shows "\<exists>s'. sdsRemoveFreeSpace m s = Inr (Some s') \<and> sds_ok s' \<and> sds_val s' = sds_val s"
proof -
  let ?n = "sds_len s"
  have n: "?n < 2 ^ sds_bits (sdsReqType ?n)" using sdsReqType_bits(2) [of ?n] assms(2) by simp
  have len: "?n < length (sds_chars s)" "sds_chars s ! ?n = 0" using assms(1) by (auto simp: sds_ok_def)
  then have t: "take (?n + 1) (sds_chars s) = sds_val s @ [0]"
    by (simp add: sds_val_def take_Suc_conv_app_nth)
  show ?thesis
  proof (cases "sds_type s = sdsReqType ?n")
    case True
    have "take (?n + 1) (sds_chars s @ block m (?n + 1)) = sds_val s @ [0]" using t len by simp
    then show ?thesis
      using True n assms(3) length_sds_val [OF assms(1)]
      by (cases "sdsReqType ?n") (simp_all add: sdsRemoveFreeSpace_def Let_def sds_ok_def sdsalloc_def sdssetalloc_def sds_val_def nth_append)
  next
    case False
    have "copy_into (block m (?n + 1)) 0 (sds_chars s) 0 (?n + 1) = Inr (sds_val s @ [0])"
      using t len by (simp add: copy_into_def)
    then show ?thesis
      using False n assms(3) length_sds_val [OF assms(1)]
      by (cases "sdsReqType ?n") (simp_all add: sdsRemoveFreeSpace_def Let_def sds_ok_def sdsalloc_def sdssetalloc_def sdssetlen_def sds_val_def nth_append)
  qed
qed

text \<open>The list that a range of indices selects.\<close>

definition sub_range :: "int \<Rightarrow> int \<Rightarrow> 'a list \<Rightarrow> 'a list" where
  "sub_range from to xs =
     (let len = int (length xs);
          i = nat (if from < 0 then max 0 (len + from) else from);
          j = nat (if to < 0 then max 0 (len + to) else to) in
      take (j + 1 - i) (drop i xs))"

lemma sdsrange_ok:
  assumes "sds_ok s"
  shows "\<exists>s'. sdsrange from to s = Inr s' \<and> sds_ok s' \<and> sds_val s' = sub_range from to (sds_val s)"
proof (cases "sds_len s = 0")
  case True
  then show ?thesis using assms by (simp add: sdsrange_def sub_range_def sds_val_def)
next
  case False
  let ?l = "sds_len s"
  have len: "length (sds_val s) = ?l" using length_sds_val [OF assms] .
  define i where "i = (if from < 0 then if int ?l + from < 0 then 0 else int ?l + from else from)"
  define j where "j = (if to < 0 then if int ?l + to < 0 then 0 else int ?l + to else to)"
  have max: "(if from < 0 then max 0 (int ?l + from) else from) = i" "(if to < 0 then max 0 (int ?l + to) else to) = j"
    by (auto simp: i_def j_def)
  have ij: "0 \<le> i" "0 \<le> j" by (auto simp: i_def j_def)
  define k where "k = (if j < i \<or> int ?l \<le> i then 0 else if int ?l \<le> j then int ?l - i else j - i + 1)"
  define st where "st = (if j < i then 0 else i)"
  have k: "0 \<le> k" "k \<le> int ?l" "0 < k \<Longrightarrow> i + k \<le> int ?l" using ij by (auto simp: k_def)
  have sub: "sub_range from to (sds_val s) = take (nat k) (drop (nat i) (sds_val s))"
  proof -
    have "take (nat j + 1 - nat i) (drop (nat i) (sds_val s)) = take (nat k) (drop (nat i) (sds_val s))"
      using ij len by (cases "int ?l \<le> i"; cases "j < i"; cases "int ?l \<le> j")
        (auto simp: k_def nat_diff_distrib nat_add_distrib le_nat_iff Suc_diff_le)
    then show ?thesis by (simp add: sub_range_def Let_def len max)
  qed
  let ?c = "if st \<noteq> 0 \<and> k \<noteq> 0 then take (nat k) (drop (nat st) (sds_chars s)) @ drop (nat k) (sds_chars s) else sds_chars s"
  have room: "?l < length (sds_chars s)" using assms by (auto simp: sds_ok_def)
  have c: "(if st \<noteq> 0 \<and> k \<noteq> 0 then copy_into (sds_chars s) 0 (sds_chars s) (nat st) (nat k) else Inr (sds_chars s)) = Inr ?c"
    using k room ij by (auto simp: copy_into_def st_def)
  have lc: "length ?c = length (sds_chars s)" using k room ij by (auto simp: st_def)
  have tc: "take (nat k) ?c = sub_range from to (sds_val s)"
  proof (cases "k = 0")
    case True
    then show ?thesis by (simp add: sub)
  next
    case k0: False
    then have "st = i" "i + k \<le> int ?l" using k by (auto simp: st_def k_def)
    then have "nat k \<le> ?l - nat i" using ij k by auto
    then have "take (nat k) (drop (nat i) (sds_val s)) = take (nat k) (drop (nat i) (sds_chars s))"
      by (simp add: sds_val_def drop_take min_absorb1)
    then show ?thesis using \<open>st = i\<close> k0 room \<open>nat k \<le> ?l - nat i\<close> unfolding sub by simp
  qed
  have "sdsrange from to s = bind_result (Inr ?c) (\<lambda>chars.
         bind_result (write_end (nat k) (s\<lparr>sds_chars := chars\<rparr>)) (\<lambda>s1. Inr (sdssetlen (nat k) s1)))"
    unfolding c [symmetric] sdsrange_def Let_def i_def [symmetric] j_def [symmetric] using False ij
    by (simp add: k_def st_def)
  then show ?thesis
    using write_end_setlen(2) [OF sds_ok_fits [OF assms _ lc, of "nat k"]] k tc by auto
qed

section \<open>Sequences of operations\<close>

datatype sds_op = Cat bytes | Copy bytes | Range int int | GrowZero nat | Clear | RemoveFreeSpace

definition got :: "(sds option \<times> sds_ptr) result \<Rightarrow> sds option result" where
  "got x = bind_result x (\<lambda>(new, _). Inr new)"

fun sds_step :: "memory \<Rightarrow> sds_op \<Rightarrow> sds \<Rightarrow> sds option result" where
  "sds_step m (Cat t) s = got (sdscatlen m t (length t) s)"
| "sds_step m (Copy t) s = got (sdscpylen m t (length t) s)"
| "sds_step m (Range from to) s = bind_result (sdsrange from to s) (\<lambda>s'. Inr (Some s'))"
| "sds_step m (GrowZero n) s = got (sdsgrowzero m n s)"
| "sds_step m Clear s = bind_result (sdsclear s) (\<lambda>s'. Inr (Some s'))"
| "sds_step m RemoveFreeSpace s = sdsRemoveFreeSpace m s"

fun sds_spec :: "sds_op \<Rightarrow> bytes \<Rightarrow> bytes" where
  "sds_spec (Cat t) xs = xs @ t"
| "sds_spec (Copy t) xs = t"
| "sds_spec (Range from to) xs = sub_range from to xs"
| "sds_spec (GrowZero n) xs = xs @ replicate (n - length xs) 0"
| "sds_spec Clear xs = []"
| "sds_spec RemoveFreeSpace xs = xs"

fun op_bytes :: "sds_op \<Rightarrow> nat" where
  "op_bytes (Cat t) = length t"
| "op_bytes (Copy t) = length t"
| "op_bytes (GrowZero n) = n"
| "op_bytes _ = 0"

fun run_sds :: "(memory \<times> sds_op) list \<Rightarrow> sds \<Rightarrow> sds option result" where
  "run_sds [] s = Inr (Some s)"
| "run_sds ((m, x) # xs) s =
     bind_result (sds_step m x s) (\<lambda>s'. case s' of None \<Rightarrow> Inr None | Some s'' \<Rightarrow> run_sds xs s'')"

lemma sds_step_ok:
  assumes "sds_ok s" "mem_ok m" "length (sds_val s) + op_bytes x < 2 ^ 59"
  shows "\<exists>s'. sds_step m x s = Inr (Some s') \<and> sds_ok s' \<and> sds_val s' = sds_spec x (sds_val s)"
proof (cases x)
  case (Cat t)
  then show ?thesis using sdscatlen_ok [OF assms(1) _ assms(2), of "length t" t] assms(1,3)
    by (auto simp: got_def length_sds_val)
next
  case (Copy t)
  then show ?thesis using sdscpylen_ok [OF assms(1) _ assms(2), of "length t" t] assms(3) by (auto simp: got_def)
next
  case (Range a b)
  then show ?thesis using sdsrange_ok [OF assms(1), of a b] by auto
next
  case (GrowZero n)
  then show ?thesis using sdsgrowzero_ok [OF assms(1) _ assms(2), of n] assms(3) by (auto simp: got_def)
next
  case Clear
  then show ?thesis using sdsclear_ok [OF assms(1)] by auto
next
  case RemoveFreeSpace
  then show ?thesis using sdsRemoveFreeSpace_ok [OF assms(1) _ assms(2)] assms(1,3) by (auto simp: length_sds_val)
qed

lemma length_sds_spec: "length (sds_spec x xs) \<le> length xs + op_bytes x"
  by (cases x) (simp_all add: sub_range_def Let_def min.coboundedI1)

text \<open>Every sequence of operations on a string does to its contents what the list operations do, keeps the header
  consistent with the block and the null byte behind the contents, and leaves no access outside the block.\<close>

lemma sds_refines:
  assumes "sds_ok s" "\<forall>(m, x) \<in> set ops. mem_ok m" "length (sds_val s) + sum_list (map (op_bytes \<circ> snd) ops) < 2 ^ 59"
  shows "\<exists>s'. run_sds ops s = Inr (Some s') \<and> sds_ok s' \<and> sds_val s' = fold (sds_spec \<circ> snd) ops (sds_val s)"
  using assms
proof (induction ops arbitrary: s)
  case (Cons op ops)
  obtain m x where op: "op = (m, x)" by fastforce
  obtain s1 where s1: "sds_step m x s = Inr (Some s1)" "sds_ok s1" "sds_val s1 = sds_spec x (sds_val s)"
    using sds_step_ok [of s m x] Cons.prems op by auto
  then show ?case
    using Cons.IH [OF s1(2)] Cons.prems(2,3) length_sds_spec [of x "sds_val s"] op by auto
qed simp

definition zero_memory :: memory where "zero_memory = \<lparr>mem_ok = True, mem_bytes = (\<lambda>n. replicate n 0)\<rparr>"

lemma sds_refines_example:
  "\<exists>s s'. sdsempty zero_memory = Inr (Some s) \<and>
     run_sds [(zero_memory, Cat [1, 2, 3]), (zero_memory, Range 1 (-1)), (zero_memory, GrowZero 4)] s = Inr (Some s') \<and>
     sds_val s' = [2, 3, 0, 0]"
proof -
  obtain s where s: "sdsempty zero_memory = Inr (Some s)" "sds_ok s" "sds_val s = []"
    using sdsempty_ok [of zero_memory] by (auto simp: zero_memory_def)
  let ?ops = "[(zero_memory, Cat [1, 2, 3]), (zero_memory, Range 1 (-1)), (zero_memory, GrowZero 4)]"
  have "fold (sds_spec \<circ> snd) ?ops [] = [2, 3, 0, 0]" by (simp add: sub_range_def eval_nat_numeral)
  moreover have "\<forall>(m, x) \<in> set ?ops. mem_ok m" by (simp add: zero_memory_def)
  moreover have "length (sds_val s) + sum_list (map (op_bytes \<circ> snd) ?ops) < 2 ^ 59" using s(3) by simp
  ultimately have "\<exists>s'. run_sds ?ops s = Inr (Some s') \<and> sds_val s' = [2, 3, 0, 0]"
    using sds_refines [OF s(2), of ?ops] s(3) by metis
  then show ?thesis using s(1) by blast
qed

end
