(* ===== verification/Hiredis_Read.thy ===== *)
theory Hiredis_Read
  imports Hiredis_Sds "HOL-Library.Char_ord"
begin

unbundle bit_operations_syntax

text \<open>
  The reply parser of \<^verbatim>\<open>hiredis\<close>, \<^verbatim>\<open>read.c\<close>, through which the Redis manager gets its
  answers: a buffer with a cursor, a stack of at most nine read tasks, and functions that build the reply
  objects. The project is built for 64-bit Windows, where \<open>size_t\<close> has 64 bits and \<open>long\<close> has 32.
\<close>

section \<open>Types\<close>

text \<open>The codes of \<^verbatim>\<open>read.h\<close>; a task whose type has not been read has \<open>None\<close> for \<open>-1\<close>.\<close>

datatype reply_kind =
    REPLY_STRING | REPLY_ARRAY | REPLY_INTEGER | REPLY_NIL | REPLY_STATUS | REPLY_ERROR | REPLY_DOUBLE | REPLY_BOOL
  | REPLY_MAP | REPLY_SET

datatype redis_err = ERR_IO | ERR_OTHER | ERR_EOF | ERR_PROTOCOL | ERR_OOM | ERR_TIMEOUT

text \<open>Without a function to build it an object is the code of its type.\<close>

datatype 'o reply_object = Code reply_kind | Object 'o

record 'o read_task =
  task_type :: "reply_kind option"
  task_elements :: int
  task_idx :: int
  task_obj :: "'o reply_object option"

text \<open>
  The stack with its top in front; \<open>ridx\<close> is one less than its length, and the parent of a task is the task
  below. The functions get a task with the tasks below it, and objects live in a heap \<open>'h\<close>; a null result is
  \<open>None\<close>. A string argument is the memory from the pointer on, with a length.
\<close>

type_synonym 'o tasks = "'o read_task list"

record ('o, 'h) object_functions =
  createString :: "('o tasks \<Rightarrow> bytes \<Rightarrow> nat \<Rightarrow> 'h \<Rightarrow> ('o reply_object option \<times> 'h) result) option"
  createArray :: "('o tasks \<Rightarrow> nat \<Rightarrow> 'h \<Rightarrow> ('o reply_object option \<times> 'h) result) option"
  createInteger :: "('o tasks \<Rightarrow> int \<Rightarrow> 'h \<Rightarrow> ('o reply_object option \<times> 'h) result) option"
  createDouble :: "('o tasks \<Rightarrow> u64 \<Rightarrow> bytes \<Rightarrow> 'h \<Rightarrow> ('o reply_object option \<times> 'h) result) option"
  createNil :: "('o tasks \<Rightarrow> 'h \<Rightarrow> ('o reply_object option \<times> 'h) result) option"
  createBool :: "('o tasks \<Rightarrow> bool \<Rightarrow> 'h \<Rightarrow> ('o reply_object option \<times> 'h) result) option"
  freeObject :: "('o reply_object \<Rightarrow> 'h \<Rightarrow> 'h result) option"

record 'o redis_reader =
  rd_err :: "redis_err option"
  rd_errstr :: string
  rd_buf :: "sds option"
  rd_pos :: nat
  rd_len :: nat
  rd_maxbuf :: nat
  rd_tasks :: "'o tasks"
  rd_reply :: "'o reply_object option"

text \<open>\<open>strtod\<close> of the C library: the bits of the value and the number of characters read.\<close>

type_synonym strtod = "bytes \<Rightarrow> u64 \<times> nat"

abbreviation ch :: "char \<Rightarrow> byte" where "ch c \<equiv> of_char c"

section \<open>Errors\<close>

definition redisReaderSetError ::
    "('o, 'h) object_functions \<Rightarrow> redis_err \<Rightarrow> string \<Rightarrow> 'o redis_reader \<Rightarrow> 'h \<Rightarrow> ('o redis_reader \<times> 'h) result" where
  "redisReaderSetError fn type str r h =
     bind_result
       (case (rd_reply r, freeObject fn) of
          (Some obj, Some free) \<Rightarrow> bind_result (free obj h) (\<lambda>h'. Inr (None, h'))
        | (reply, _) \<Rightarrow> Inr (reply, h)) (\<lambda>(reply, h').
     Inr (r\<lparr>rd_reply := reply, rd_buf := None, rd_pos := 0, rd_len := 0, rd_tasks := [], rd_err := Some type,
            rd_errstr := take 127 str\<rparr>, h'))"

definition hex_digit :: "nat \<Rightarrow> char" where "hex_digit n = ''0123456789abcdef'' ! n"

definition isprint :: "byte \<Rightarrow> bool" where "isprint b \<longleftrightarrow> 32 \<le> b \<and> b < 127"

text \<open>The printable form of a byte, in quotes; every form fits the eight characters of the buffer.\<close>

definition chrtos :: "byte \<Rightarrow> string" where
  "chrtos b =
     CHR 0x22 #
     (if b = ch CHR 0x5C \<or> b = ch CHR 0x22 then [CHR 0x5C, char_of (unat b)]
      else if b = 10 then [CHR 0x5C, CHR ''n'']
      else if b = 13 then [CHR 0x5C, CHR ''r'']
      else if b = 9 then [CHR 0x5C, CHR ''t'']
      else if b = 7 then [CHR 0x5C, CHR ''a'']
      else if b = 8 then [CHR 0x5C, CHR ''b'']
      else if isprint b then [char_of (unat b)]
      else [CHR 0x5C, CHR ''x'', hex_digit (unat b div 16), hex_digit (unat b mod 16)]) @
     [CHR 0x22]"

definition redisReaderSetErrorProtocolByte ::
    "('o, 'h) object_functions \<Rightarrow> byte \<Rightarrow> 'o redis_reader \<Rightarrow> 'h \<Rightarrow> ('o redis_reader \<times> 'h) result" where
  "redisReaderSetErrorProtocolByte fn b =
     redisReaderSetError fn ERR_PROTOCOL (''Protocol error, got '' @ chrtos b @ '' as reply type byte'')"

definition redisReaderSetErrorOOM ::
    "('o, 'h) object_functions \<Rightarrow> 'o redis_reader \<Rightarrow> 'h \<Rightarrow> ('o redis_reader \<times> 'h) result" where
  "redisReaderSetErrorOOM fn = redisReaderSetError fn ERR_OOM ''Out of memory''"

section \<open>Reading from the buffer\<close>

definition rest_of :: "'o redis_reader \<Rightarrow> bytes" where
  "rest_of r = (case rd_buf r of None \<Rightarrow> [] | Some buf \<Rightarrow> drop (rd_pos r) (sds_val buf))"

definition readBytes :: "nat \<Rightarrow> 'o redis_reader \<Rightarrow> bytes option \<times> 'o redis_reader" where
  "readBytes n r =
     (if n \<le> rd_len r - rd_pos r then (Some (rest_of r), r\<lparr>rd_pos := rd_pos r + n\<rparr>) else (None, r))"

text \<open>
  The two loops of \<open>seekNewline\<close>; the length is converted to \<open>int\<close>, also that of an empty buffer less one.
\<close>

function skip_to_cr :: "bytes \<Rightarrow> int \<Rightarrow> int \<Rightarrow> int" where
  "skip_to_cr s pos l = (if pos < l \<and> s ! nat pos \<noteq> 13 then skip_to_cr s (pos + 1) l else pos)"
  by pat_completeness auto
termination by (relation "measure (\<lambda>(s, pos, l). nat (l - pos))") auto

declare skip_to_cr.simps [simp del]

lemma skip_to_cr_ge: "pos \<le> skip_to_cr s pos l"
proof (induction s pos l rule: skip_to_cr.induct)
  case (1 s pos l)
  then show ?case by (subst skip_to_cr.simps) auto
qed

function seek_loop :: "bytes \<Rightarrow> int \<Rightarrow> int \<Rightarrow> nat option" where
  "seek_loop s pos l =
     (if pos < l then
        (let pos' = skip_to_cr s pos l in
         if pos' = l then None
         else if s ! nat (pos' + 1) = 10 then Some (nat pos')
         else seek_loop s (pos' + 1) l)
      else None)"
  by pat_completeness auto
termination
proof (relation "measure (\<lambda>(s, pos, l). nat (l - pos))")
  fix s :: bytes and pos l pos'
  assume "pos < l" "pos' = skip_to_cr s pos l"
  then show "((s, pos' + 1, l), s, pos, l) \<in> measure (\<lambda>(s, pos, l). nat (l - pos))"
    using skip_to_cr_ge [of pos s l] by simp
qed simp

declare seek_loop.simps [simp del]

definition seekNewline :: "bytes \<Rightarrow> nat \<Rightarrow> nat option" where
  "seekNewline s len = seek_loop s 0 (sint (word_of_int (int len - 1) :: int32))"

text \<open>The memory at the line and its length without the end; the cursor moves behind the end.\<close>

definition readLine :: "'o redis_reader \<Rightarrow> (bytes \<times> nat) option \<times> 'o redis_reader" where
  "readLine r =
     (case seekNewline (rest_of r) (rd_len r - rd_pos r) of
        Some len \<Rightarrow> (Some (rest_of r, len), r\<lparr>rd_pos := rd_pos r + (len + 2)\<rparr>)
      | None \<Rightarrow> (None, r))"

subsection \<open>Numbers\<close>

definition isdigit :: "byte \<Rightarrow> bool" where "isdigit b \<longleftrightarrow> 48 \<le> b \<and> b \<le> 57"

definition LLONG_MAX :: int where "LLONG_MAX = 9223372036854775807"

definition LLONG_MIN :: int where "LLONG_MIN = - 9223372036854775808"

text \<open>The digits after the first; \<open>None\<close> is an overflow.\<close>

fun digits_loop :: "bytes \<Rightarrow> u64 \<Rightarrow> (bytes \<times> u64) option" where
  "digits_loop [] v = Some ([], v)"
| "digits_loop (b # s) v =
     (if isdigit b then
        (if v > - 1 div 10 then None
         else if v * 10 > - 1 - (ucast b - 48) then None
         else digits_loop s (v * 10 + (ucast b - 48)))
      else Some (b # s, v))"

definition string2ll :: "bytes \<Rightarrow> int option" where
  "string2ll s =
     (if s = [] then None
      else if length s = 1 \<and> hd s = ch CHR ''0'' then Some 0
      else
        (let negative = (hd s = ch CHR ''-''); p = (if negative then tl s else s) in
         if p = [] then None
         else if ch CHR ''1'' \<le> hd p \<and> hd p \<le> ch CHR ''9'' then
           (case digits_loop (tl p) (ucast (hd p) - 48) of
              None \<Rightarrow> None
            | Some (r, v) \<Rightarrow>
                if r \<noteq> [] then None
                else if negative then
                  (if v > of_int (- (LLONG_MIN + 1)) + 1 then None else Some (sint (- v)))
                else (if v > of_int LLONG_MAX then None else Some (sint v)))
         else None))"

section \<open>The stack of tasks\<close>

definition is_aggregate :: "reply_kind option \<Rightarrow> bool" where
  "is_aggregate t \<longleftrightarrow> t = Some REPLY_ARRAY \<or> t = Some REPLY_MAP \<or> t = Some REPLY_SET"

fun moveToNextTask :: "'o tasks \<Rightarrow> 'o tasks result" where
  "moveToNextTask [] = Inr []"
| "moveToNextTask [cur] = Inr []"
| "moveToNextTask (cur # prv # ts) =
     (if \<not> is_aggregate (task_type prv) then Inl CheckFailed
      else bind_result (sub_int32 (task_elements prv) 1) (\<lambda>n.
        if task_idx cur = n then moveToNextTask (prv # ts)
        else if \<not> task_idx cur < task_elements prv then Inl CheckFailed
        else Inr (cur\<lparr>task_type := None, task_elements := -1, task_idx := task_idx cur + 1\<rparr> # prv # ts)))"

definition new_task :: "int \<Rightarrow> 'o read_task" where
  "new_task i = \<lparr>task_type = None, task_elements = -1, task_idx = i, task_obj = None\<rparr>"

section \<open>Items\<close>

text \<open>\<open>True\<close> is \<open>REDIS_OK\<close>.\<close>

type_synonym ('o, 'h) processed = "(bool \<times> 'o redis_reader \<times> 'h) result"

definition protocol_error :: "('o, 'h) object_functions \<Rightarrow> string \<Rightarrow> 'o redis_reader \<Rightarrow> 'h \<Rightarrow> ('o, 'h) processed" where
  "protocol_error fn str r h =
     bind_result (redisReaderSetError fn ERR_PROTOCOL str r h) (\<lambda>(r', h'). Inr (False, r', h'))"

text \<open>The end that the three kinds of items share: a null object is an error, a root object the reply.\<close>

definition item_done :: "('o, 'h) object_functions \<Rightarrow> 'o reply_object option \<Rightarrow> 'o redis_reader \<Rightarrow> 'h \<Rightarrow> ('o, 'h) processed" where
  "item_done fn obj r h =
     (case obj of
        None \<Rightarrow> bind_result (redisReaderSetErrorOOM fn r h) (\<lambda>(r', h'). Inr (False, r', h'))
      | Some ob \<Rightarrow>
          bind_result (moveToNextTask (rd_tasks r)) (\<lambda>ts.
            Inr (True, r\<lparr>rd_reply := (if length (rd_tasks r) = 1 then Some ob else rd_reply r), rd_tasks := ts\<rparr>, h)))"

definition call_fn :: "('a \<Rightarrow> 'h \<Rightarrow> ('o reply_object option \<times> 'h) result) option \<Rightarrow> reply_kind \<Rightarrow> 'a \<Rightarrow> 'h \<Rightarrow> ('o reply_object option \<times> 'h) result" where
  "call_fn f t a h = (case f of None \<Rightarrow> Inr (Some (Code t), h) | Some g \<Rightarrow> g a h)"

definition lower :: "byte \<Rightarrow> byte" where "lower b = (if 65 \<le> b \<and> b \<le> 90 then b + 32 else b)"

definition strcasecmp_eq :: "bytes \<Rightarrow> string \<Rightarrow> bool" where
  "strcasecmp_eq s t \<longleftrightarrow> map lower s = map (\<lambda>c. lower (ch c)) t"

definition INFINITY_bits :: u64 where "INFINITY_bits = 0x7FF0000000000000"

definition isnan_bits :: "u64 \<Rightarrow> bool" where "isnan_bits d \<longleftrightarrow> INFINITY_bits < d AND 0x7FFFFFFFFFFFFFFF"

text \<open>The text of a double is a C string; a null character in it ends it.\<close>

definition parse_double :: "strtod \<Rightarrow> bytes \<Rightarrow> u64 option" where
  "parse_double sd line =
     (let buf = takeWhile (\<lambda>b. b \<noteq> 0) line in
      if strcasecmp_eq buf '',inf'' then Some INFINITY_bits
      else if strcasecmp_eq buf '',-inf'' then Some (INFINITY_bits OR 0x8000000000000000)
      else (let (d, n) = sd buf in
            if buf = [] \<or> n < length buf \<or> isnan_bits d then None else Some d))"

definition line_object ::
    "strtod \<Rightarrow> ('o, 'h) object_functions \<Rightarrow> reply_kind \<Rightarrow> 'o tasks \<Rightarrow> bytes \<Rightarrow> nat \<Rightarrow> 'h \<Rightarrow>
      (string + ('o reply_object option \<times> 'h)) result" where
  "line_object sd fn t ts p len h =
     (if t = REPLY_INTEGER then
        (case createInteger fn of
           None \<Rightarrow> Inr (Inr (Some (Code t), h))
         | Some f \<Rightarrow>
             (case string2ll (take len p) of
                None \<Rightarrow> Inr (Inl ''Bad integer value'')
              | Some v \<Rightarrow> bind_result (f ts v h) (\<lambda>x. Inr (Inr x))))
      else if t = REPLY_DOUBLE then
        (case createDouble fn of
           None \<Rightarrow> Inr (Inr (Some (Code t), h))
         | Some f \<Rightarrow>
             if 326 \<le> len then Inr (Inl ''Double value is too large'')
             else (case parse_double sd (take len p) of
                     None \<Rightarrow> Inr (Inl ''Bad double value'')
                   | Some d \<Rightarrow> bind_result (f ts d (take len p) h) (\<lambda>x. Inr (Inr x))))
      else if t = REPLY_NIL then
        bind_result (call_fn (createNil fn) t ts h) (\<lambda>x. Inr (Inr x))
      else if t = REPLY_BOOL then
        bind_result
          (case createBool fn of
             None \<Rightarrow> Inr (Some (Code t), h)
           | Some f \<Rightarrow> f ts (hd p = ch CHR ''t'' \<or> hd p = ch CHR ''T'') h) (\<lambda>x. Inr (Inr x))
      else
        bind_result
          (case createString fn of
             None \<Rightarrow> Inr (Some (Code t), h)
           | Some f \<Rightarrow> f ts p len h) (\<lambda>x. Inr (Inr x)))"

definition processLineItem ::
    "strtod \<Rightarrow> ('o, 'h) object_functions \<Rightarrow> reply_kind \<Rightarrow> 'o redis_reader \<Rightarrow> 'h \<Rightarrow> ('o, 'h) processed" where
  "processLineItem sd fn t r h =
     (case readLine r of
        (None, r1) \<Rightarrow> Inr (False, r1, h)
      | (Some (p, len), r1) \<Rightarrow>
          bind_result (line_object sd fn t (rd_tasks r1) p len h) (\<lambda>x.
            case x of
              Inl msg \<Rightarrow> protocol_error fn msg r1 h
            | Inr (obj, h') \<Rightarrow> item_done fn obj r1 h'))"

text \<open>
  A bulk string is read when its bytes and their end are in the buffer. \<open>bytelen\<close> is an \<open>unsigned long\<close>, of
  32 bits here; the length itself is a \<open>long long\<close>.
\<close>

definition processBulkItem ::
    "('o, 'h) object_functions \<Rightarrow> 'o redis_reader \<Rightarrow> 'h \<Rightarrow> ('o, 'h) processed" where
  "processBulkItem fn r h =
     (let p = rest_of r in
      case seekNewline p (rd_len r - rd_pos r) of
        None \<Rightarrow> Inr (False, r, h)
      | Some k \<Rightarrow>
          (case string2ll (take k p) of
             None \<Rightarrow> protocol_error fn ''Bad bulk string length'' r h
           | Some len \<Rightarrow>
               if len < -1 then protocol_error fn ''Bulk string length out of range'' r h
               else if len = -1 then
                 bind_result (call_fn (createNil fn) REPLY_NIL (rd_tasks r) h) (\<lambda>(obj, h').
                   item_done fn obj (if obj = None then r else r\<lparr>rd_pos := rd_pos r + (k + 2)\<rparr>) h')
               else if LLONG_MAX < int (k + 2) + (len + 2) then Inl SignedOverflow
               else
                 (let bytelen = unat (of_nat (k + 2) + word_of_int (len + 2) :: u32) in
                  if rd_pos r + bytelen \<le> rd_len r then
                    bind_result
                      (case createString fn of
                         None \<Rightarrow> Inr (Some (Code REPLY_STRING), h)
                       | Some f \<Rightarrow> f (rd_tasks r) (drop (k + 2) p) (nat len) h) (\<lambda>(obj, h').
                      item_done fn obj (if obj = None then r else r\<lparr>rd_pos := rd_pos r + bytelen\<rparr>) h')
                  else Inr (False, r, h))))"

definition processAggregateItem ::
    "('o, 'h) object_functions \<Rightarrow> reply_kind \<Rightarrow> 'o redis_reader \<Rightarrow> 'h \<Rightarrow> ('o, 'h) processed" where
  "processAggregateItem fn t r h =
     (if length (rd_tasks r) = 9 then
        protocol_error fn ''No support for nested multi bulk replies with depth > 7'' r h
      else
        case readLine r of
          (None, r1) \<Rightarrow> Inr (False, r1, h)
        | (Some (p, len), r1) \<Rightarrow>
            (case string2ll (take len p) of
               None \<Rightarrow> protocol_error fn ''Bad multi-bulk length'' r1 h
             | Some n \<Rightarrow>
                 if n < -1 then protocol_error fn ''Multi-bulk length out of range'' r1 h
                 else if n = -1 then
                   bind_result (call_fn (createNil fn) REPLY_NIL (rd_tasks r1) h) (\<lambda>(obj, h'). item_done fn obj r1 h')
                 else
                   (let elements = (if t = REPLY_MAP then n * 2 else n) in
                    if LLONG_MAX < elements then Inl SignedOverflow
                    else
                      bind_result
                        (case createArray fn of
                           None \<Rightarrow> Inr (Some (Code t), h)
                         | Some f \<Rightarrow> f (rd_tasks r1) (nat elements) h) (\<lambda>(obj, h').
                        case (obj, rd_tasks r1) of
                          (Some ob, cur # ts) \<Rightarrow>
                            if 0 < elements then
                              Inr (True, r1\<lparr>rd_tasks := new_task 0 #
                                     cur\<lparr>task_elements := sint (word_of_int elements :: int32), task_obj := Some ob\<rparr> # ts,
                                   rd_reply := (if ts = [] then Some ob else rd_reply r1)\<rparr>, h')
                            else item_done fn obj r1 h'
                        | _ \<Rightarrow> item_done fn obj r1 h'))))"

definition type_of_byte :: "byte \<Rightarrow> reply_kind option" where
  "type_of_byte b =
     (if b = ch CHR ''-'' then Some REPLY_ERROR
      else if b = ch CHR ''+'' then Some REPLY_STATUS
      else if b = ch CHR '':'' then Some REPLY_INTEGER
      else if b = ch CHR '','' then Some REPLY_DOUBLE
      else if b = ch CHR ''_'' then Some REPLY_NIL
      else if b = ch CHR ''$'' then Some REPLY_STRING
      else if b = ch CHR ''*'' then Some REPLY_ARRAY
      else if b = ch CHR ''%'' then Some REPLY_MAP
      else if b = ch CHR ''~'' then Some REPLY_SET
      else if b = ch CHR ''#'' then Some REPLY_BOOL
      else None)"

definition process_typed ::
    "strtod \<Rightarrow> ('o, 'h) object_functions \<Rightarrow> reply_kind \<Rightarrow> 'o redis_reader \<Rightarrow> 'h \<Rightarrow> ('o, 'h) processed" where
  "process_typed sd fn t r h =
     (if t = REPLY_STRING then processBulkItem fn r h
      else if t = REPLY_ARRAY \<or> t = REPLY_MAP \<or> t = REPLY_SET then processAggregateItem fn t r h
      else processLineItem sd fn t r h)"

definition processItem :: "strtod \<Rightarrow> ('o, 'h) object_functions \<Rightarrow> 'o redis_reader \<Rightarrow> 'h \<Rightarrow> ('o, 'h) processed" where
  "processItem sd fn r h =
     (case rd_tasks r of
        [] \<Rightarrow> Inl OutOfBounds
      | cur # ts \<Rightarrow>
          (case task_type cur of
             Some t \<Rightarrow> process_typed sd fn t r h
           | None \<Rightarrow>
               (case readBytes 1 r of
                  (None, r1) \<Rightarrow> Inr (False, r1, h)
                | (Some p, r1) \<Rightarrow>
                    (case type_of_byte (hd p) of
                       None \<Rightarrow> bind_result (redisReaderSetErrorProtocolByte fn (hd p) r1 h) (\<lambda>(r', h'). Inr (False, r', h'))
                     | Some t \<Rightarrow> process_typed sd fn t (r1\<lparr>rd_tasks := cur\<lparr>task_type := Some t\<rparr> # ts\<rparr>) h))))"

section \<open>The reader\<close>

text \<open>\<open>None\<close> when an allocation fails; \<open>m\<close> is for the buffer.\<close>

definition redisReaderCreateWithFunctions :: "bool \<Rightarrow> memory \<Rightarrow> 'o redis_reader option result" where
  "redisReaderCreateWithFunctions alloc m =
     (if \<not> alloc then Inr None
      else bind_result (sdsempty m) (\<lambda>buf.
        case buf of
          None \<Rightarrow> Inr None
        | Some s \<Rightarrow>
            Inr (Some \<lparr>rd_err = None, rd_errstr = [], rd_buf = Some s, rd_pos = 0, rd_len = 0, rd_maxbuf = 1024 * 16,
                       rd_tasks = [], rd_reply = None\<rparr>)))"

definition redisReaderFree :: "('o, 'h) object_functions \<Rightarrow> 'o redis_reader option \<Rightarrow> 'h \<Rightarrow> 'h result" where
  "redisReaderFree fn r h =
     (case r of
        None \<Rightarrow> Inr h
      | Some r \<Rightarrow> (case (rd_reply r, freeObject fn) of (Some obj, Some free) \<Rightarrow> free obj h | _ \<Rightarrow> Inr h))"

text \<open>
  \<open>m1\<close> and \<open>m2\<close> are the memory for a new buffer and for its growth. A null buffer argument and an empty one do
  nothing. When the buffer cannot grow it is freed, which \<open>sdsMakeRoomFor\<close> may have done before.
\<close>

definition redisReaderFeed ::
    "memory \<Rightarrow> memory \<Rightarrow> ('o, 'h) object_functions \<Rightarrow> bytes \<Rightarrow> 'o redis_reader \<Rightarrow> 'h \<Rightarrow> ('o, 'h) processed" where
  "redisReaderFeed m1 m2 fn data r h =
     (if rd_err r \<noteq> None then Inr (False, r, h)
      else if data = [] then Inr (True, r, h)
      else
        bind_result
          (case rd_buf r of
             None \<Rightarrow> Inl NullDeref
           | Some buf \<Rightarrow>
               if rd_len r = 0 \<and> rd_maxbuf r \<noteq> 0 \<and> rd_maxbuf r < sdsavail buf then
                 bind_result (sdsempty m1) (\<lambda>new.
                   case new of None \<Rightarrow> Inl CheckFailed | Some s \<Rightarrow> Inr (s, r\<lparr>rd_buf := Some s, rd_pos := 0\<rparr>))
               else Inr (buf, r)) (\<lambda>(buf, r1).
        bind_result (sdscatlen m2 data (length data) buf) (\<lambda>(new, old).
          case new of
            None \<Rightarrow>
              bind_result (redisReaderSetErrorOOM fn r1 h) (\<lambda>(r', h').
              bind_result (sdsfree old) (\<lambda>_. Inr (False, r', h')))
          | Some s \<Rightarrow> Inr (True, r1\<lparr>rd_buf := Some s, rd_len := sdslen s\<rparr>, h))))"

text \<open>The loop of \<open>redisReaderGetReply\<close>, with fuel.\<close>

fun process_loop ::
    "nat \<Rightarrow> strtod \<Rightarrow> ('o, 'h) object_functions \<Rightarrow> 'o redis_reader \<Rightarrow> 'h \<Rightarrow> ('o redis_reader \<times> 'h) result option" where
  "process_loop fuel sd fn r h =
     (if rd_tasks r = [] then Some (Inr (r, h))
      else case fuel of
        0 \<Rightarrow> None
      | Suc k \<Rightarrow>
          (case processItem sd fn r h of
             Inl e \<Rightarrow> Some (Inl e)
           | Inr (False, r', h') \<Rightarrow> Some (Inr (r', h'))
           | Inr (True, r', h') \<Rightarrow> process_loop k sd fn r' h'))"

declare process_loop.simps [simp del]

text \<open>The cursor becomes an \<open>int\<close> on its way to \<open>sdsrange\<close>.\<close>

definition discard_consumed :: "'o redis_reader \<Rightarrow> 'o redis_reader result" where
  "discard_consumed r =
     (if 1024 \<le> rd_pos r then
        (case rd_buf r of
           None \<Rightarrow> Inl NullDeref
         | Some buf \<Rightarrow>
             bind_result (sdsrange (sint (of_nat (rd_pos r) :: int32)) (-1) buf) (\<lambda>s.
               Inr (r\<lparr>rd_buf := Some s, rd_pos := 0, rd_len := sdslen s\<rparr>)))
      else Inr r)"

text \<open>\<open>want\<close>: whether the caller passes a place for the reply.\<close>

definition redisReaderGetReply ::
    "nat \<Rightarrow> strtod \<Rightarrow> ('o, 'h) object_functions \<Rightarrow> bool \<Rightarrow> 'o redis_reader \<Rightarrow> 'h \<Rightarrow>
      (bool \<times> 'o reply_object option \<times> 'o redis_reader \<times> 'h) result option" where
  "redisReaderGetReply fuel sd fn want r h =
     (if rd_err r \<noteq> None then Some (Inr (False, None, r, h))
      else if rd_len r = 0 then Some (Inr (True, None, r, h))
      else
        (case process_loop fuel sd fn (if rd_tasks r = [] then r\<lparr>rd_tasks := [new_task (-1)]\<rparr> else r) h of
           None \<Rightarrow> None
         | Some (Inl e) \<Rightarrow> Some (Inl e)
         | Some (Inr (r1, h1)) \<Rightarrow>
             if rd_err r1 \<noteq> None then Some (Inr (False, None, r1, h1))
             else
               (case discard_consumed r1 of
                  Inl e \<Rightarrow> Some (Inl e)
                | Inr r2 \<Rightarrow>
                    if rd_tasks r2 \<noteq> [] then Some (Inr (True, None, r2, h1))
                    else if want then Some (Inr (True, rd_reply r2, r2\<lparr>rd_reply := None\<rparr>, h1))
                    else (case (rd_reply r2, freeObject fn) of
                            (Some obj, Some free) \<Rightarrow>
                              Some (bind_result (free obj h1) (\<lambda>h2. Inr (True, None, r2\<lparr>rd_reply := None\<rparr>, h2)))
                          | _ \<Rightarrow> Some (Inr (True, None, r2\<lparr>rd_reply := None\<rparr>, h1))))))"

end
