(* ===== verification/Hiredis_Text.thy ===== *)
theory Hiredis_Text
  imports Hiredis_Read
begin

text \<open>
  The two texts that \<^verbatim>\<open>read.c\<close> takes apart: a line, up to its carriage return and line feed, and the strict
  decimal text of a number of 64 bits, with what \<open>seekNewline\<close> and \<open>string2ll\<close> make of them.
\<close>

section \<open>Lines\<close>

fun find_crlf :: "bytes \<Rightarrow> nat option" where
  "find_crlf (b # c # s) = (if b = 13 \<and> c = 10 then Some 0 else map_option Suc (find_crlf (c # s)))"
| "find_crlf _ = None"

lemma find_crlf_length: "find_crlf s = Some k \<Longrightarrow> k + 2 \<le> length s"
  by (induction s arbitrary: k rule: find_crlf.induct) (auto split: if_splits)

lemma find_crlf_append: "find_crlf s = Some k \<Longrightarrow> find_crlf (s @ e) = Some k"
  by (induction s arbitrary: k rule: find_crlf.induct) (auto split: if_splits)

lemma find_crlf_line:
  assumes "13 \<notin> set s"
  shows "find_crlf (s @ 13 # 10 # e) = Some (length s)"
  using assms
proof (induction s)
  case (Cons b s)
  then show ?case by (cases s) auto
qed simp

lemma find_crlf_Cons: "b \<noteq> 13 \<Longrightarrow> find_crlf (b # s) = map_option Suc (find_crlf s)"
  by (cases s) auto

lemma skip_to_cr_spec:
  assumes "0 \<le> pos" "pos \<le> l"
  shows "skip_to_cr s pos l \<le> l \<and> (skip_to_cr s pos l < l \<longrightarrow> s ! nat (skip_to_cr s pos l) = 13)"
  using assms
proof (induction s pos l rule: skip_to_cr.induct)
  case (1 s pos l)
  then show ?case by (subst (1 2 3) skip_to_cr.simps) auto
qed

lemma find_crlf_skip:
  assumes "0 \<le> pos" "pos \<le> l" "l < int (length s)"
  shows "find_crlf (drop (nat pos) s) =
    map_option ((+) (nat (skip_to_cr s pos l) - nat pos)) (find_crlf (drop (nat (skip_to_cr s pos l)) s))"
  using assms
proof (induction s pos l rule: skip_to_cr.induct)
  case (1 s pos l)
  show ?case
  proof (cases "pos < l \<and> s ! nat pos \<noteq> 13")
    case True
    let ?q = "skip_to_cr s (pos + 1) l"
    have q: "skip_to_cr s pos l = ?q" using True by (subst skip_to_cr.simps) simp
    have ge: "pos + 1 \<le> ?q" by (rule skip_to_cr_ge)
    have "drop (nat pos) s = s ! nat pos # drop (nat (pos + 1)) s"
      using 1(2-4) True Cons_nth_drop_Suc [of "nat pos" s] by (simp add: nat_add_distrib zless_nat_conj nat_less_iff)
    then have "find_crlf (drop (nat pos) s) = map_option Suc (find_crlf (drop (nat (pos + 1)) s))"
      using True by (simp add: find_crlf_Cons)
    also have "\<dots> = map_option Suc (map_option ((+) (nat ?q - nat (pos + 1))) (find_crlf (drop (nat ?q) s)))"
      using 1 True by simp
    also have "\<dots> = map_option ((+) (nat ?q - nat pos)) (find_crlf (drop (nat ?q) s))"
      using 1(2) ge by (cases "find_crlf (drop (nat ?q) s)") auto
    finally show ?thesis unfolding q .
  next
    case False
    then have "skip_to_cr s pos l = pos" by (subst skip_to_cr.simps) auto
    then show ?thesis by (simp add: option.map_id0[unfolded id_def] option.map_ident)
  qed
qed

lemma find_crlf_short: "length s < 2 \<Longrightarrow> find_crlf s = None"
  using find_crlf_length by (cases "find_crlf s") fastforce+

lemma seek_loop_find:
  assumes "0 \<le> pos" "pos \<le> l" "l = int (length s) - 1"
  shows "seek_loop s pos l = map_option ((+) (nat pos)) (find_crlf (drop (nat pos) s))"
  using assms
proof (induction s pos l rule: seek_loop.induct)
  case (1 s pos l)
  let ?q = "skip_to_cr s pos l"
  note spec = skip_to_cr_spec [OF 1(2,3), of s] and ge = skip_to_cr_ge [of pos s l]
  have skip: "find_crlf (drop (nat pos) s) = map_option ((+) (nat ?q - nat pos)) (find_crlf (drop (nat ?q) s))"
    by (rule find_crlf_skip) (use 1(2-4) in auto)
  show ?case
  proof (cases "pos < l \<and> ?q < l")
    case False
    then have "?q = l" using spec 1(3) ge by linarith
    then have "find_crlf (drop (nat ?q) s) = None"
      using 1(2-4) by (intro find_crlf_short) auto
    moreover have "seek_loop s pos l = None" using \<open>?q = l\<close> by (subst seek_loop.simps) (simp add: Let_def)
    ultimately show ?thesis by (simp add: skip)
  next
    case True
    have cr: "s ! nat ?q = 13" using spec True by simp
    have len: "Suc (nat ?q) < length s" using True 1(2,4) ge by linarith
    have sq: "nat (?q + 1) = Suc (nat ?q)" using 1(2) ge by simp
    have d: "drop (nat ?q) s = 13 # s ! Suc (nat ?q) # drop (Suc (Suc (nat ?q))) s"
      using len cr by (metis Cons_nth_drop_Suc Suc_lessD)
    have d': "drop (Suc (nat ?q)) s = s ! Suc (nat ?q) # drop (Suc (Suc (nat ?q))) s"
      using len by (metis Cons_nth_drop_Suc)
    show ?thesis
    proof (cases "s ! Suc (nat ?q) = 10")
      case nl: True
      have "seek_loop s pos l = Some (nat ?q)"
        using True nl by (subst seek_loop.simps) (simp add: Let_def sq)
      then show ?thesis using nl ge 1(2) by (simp add: skip d)
    next
      case nl: False
      have "seek_loop s pos l = seek_loop s (?q + 1) l"
        using True nl by (subst seek_loop.simps) (simp add: Let_def sq)
      also have "\<dots> = map_option ((+) (nat (?q + 1))) (find_crlf (drop (nat (?q + 1)) s))"
        using 1(1) [of ?q] True nl 1(2,4) ge sq by simp
      also have "\<dots> = map_option ((+) (nat pos)) (find_crlf (drop (nat pos) s))"
        using nl ge 1(2) by (cases "find_crlf (drop (Suc (nat ?q)) s)") (simp_all add: skip d d' sq)
      finally show ?thesis .
    qed
  qed
qed

lemma seekNewline_find:
  assumes "length s < 2147483648"
  shows "seekNewline s (length s) = find_crlf s"
proof (cases "s = []")
  case True
  then show ?thesis by (simp add: seekNewline_def seek_loop.simps)
next
  case False
  have "sint (word_of_int (int (length s) - 1) :: int32) = sint (of_nat (length s - 1) :: int32)"
    using False by (cases s) auto
  also have "\<dots> = int (length s) - 1"
    using assms False by (subst sint_of_nat_small) (cases s; auto)+
  finally show ?thesis
    using seek_loop_find [of 0 "int (length s) - 1" s] False
    by (cases "find_crlf s") (simp_all add: seekNewline_def Suc_le_eq)
qed

section \<open>Numbers\<close>

text \<open>The decimal text of a number; \<open>dvalue\<close> reads a text of digits.\<close>

function nat_decimal :: "nat \<Rightarrow> bytes" where
  "nat_decimal n = (if n < 10 then [of_nat (48 + n)] else nat_decimal (n div 10) @ [of_nat (48 + n mod 10)])"
  by pat_completeness auto
termination by (relation "measure id") auto

declare nat_decimal.simps [simp del]

definition int_decimal :: "int \<Rightarrow> bytes" where
  "int_decimal z = (if z < 0 then 45 # nat_decimal (nat (- z)) else nat_decimal (nat z))"

definition dvalue :: "nat \<Rightarrow> bytes \<Rightarrow> nat" where
  "dvalue n s = foldl (\<lambda>n b. n * 10 + (unat b - 48)) n s"

lemma dvalue_simps [simp]:
  "dvalue n [] = n"
  "dvalue n (b # s) = dvalue (n * 10 + (unat b - 48)) s"
  "dvalue n (s @ [b]) = dvalue n s * 10 + (unat b - 48)"
  by (simp_all add: dvalue_def)

lemma dvalue_ge: "n \<le> dvalue n s"
proof (induction s arbitrary: n)
  case (Cons b s)
  have "n \<le> n * 10 + (unat b - 48)" by simp
  also have "\<dots> \<le> dvalue n (b # s)" using Cons by simp
  finally show ?case .
qed simp

lemma isdigit_unat: "isdigit b \<longleftrightarrow> 48 \<le> unat b \<and> unat b \<le> 57"
  by (simp add: isdigit_def word_le_nat_alt)

lemma digit_byte: "d < 10 \<Longrightarrow> unat (of_nat (48 + d) :: byte) = 48 + d"
  by (simp add: unat_of_nat take_bit_nat_eq_self del: of_nat_add)

lemma isdigit_of_nat: "d < 10 \<Longrightarrow> isdigit (of_nat (48 + d))"
  by (simp add: isdigit_unat digit_byte del: of_nat_add)

lemma digit_of_unat: "isdigit b \<Longrightarrow> of_nat (48 + (unat b - 48)) = b"
  by (simp add: isdigit_unat del: of_nat_add)

lemma nat_decimal_props:
  "(\<forall>b\<in>set (nat_decimal n). isdigit b) \<and> nat_decimal n \<noteq> [] \<and> dvalue 0 (nat_decimal n) = n \<and>
   (0 < n \<longrightarrow> hd (nat_decimal n) \<noteq> 48)"
proof (induction n rule: nat_decimal.induct)
  case (1 n)
  show ?case
  proof (cases "n < 10")
    case True
    then have e: "nat_decimal n = [of_nat (48 + n)]" by (subst nat_decimal.simps) simp
    have "0 < n \<longrightarrow> (of_nat (48 + n) :: byte) \<noteq> 48"
      using digit_byte [OF True] by (auto simp del: of_nat_add)
    then show ?thesis using isdigit_of_nat [OF True] digit_byte [OF True]
      by (simp add: e del: of_nat_add)
  next
    case False
    have m: "n mod 10 < 10" by simp
    have e: "nat_decimal n = nat_decimal (n div 10) @ [of_nat (48 + n mod 10)]"
      using False by (subst nat_decimal.simps) simp
    show ?thesis
      using 1 [OF False] False isdigit_of_nat [OF m] digit_byte [OF m]
      by (auto simp: e simp del: of_nat_add)
  qed
qed

lemmas nat_decimal_digits = nat_decimal_props [THEN conjunct1]
lemmas nat_decimal_nonempty = nat_decimal_props [THEN conjunct2, THEN conjunct1]
lemmas dvalue_nat_decimal = nat_decimal_props [THEN conjunct2, THEN conjunct2, THEN conjunct1]
lemmas nat_decimal_hd = nat_decimal_props [THEN conjunct2, THEN conjunct2, THEN conjunct2]

lemma nat_decimal_unique:
  assumes "\<forall>b\<in>set s. isdigit b" "s \<noteq> []" "hd s \<noteq> 48"
  shows "nat_decimal (dvalue 0 s) = s \<and> 0 < dvalue 0 s"
  using assms
proof (induction s rule: rev_induct)
  case (snoc b s)
  then have b: "isdigit b" by simp
  then have d: "unat b - 48 < 10" unfolding isdigit_unat by arith
  show ?case
  proof (cases "s = []")
    case True
    then have "unat b \<noteq> 48" using snoc.prems(3) by (auto simp: word_unat_eq_iff)
    then show ?thesis using True d b digit_of_unat [OF b]
      by (simp add: nat_decimal.simps [of "unat b - 48"] isdigit_unat del: of_nat_add)
  next
    case False
    then have IH: "nat_decimal (dvalue 0 s) = s" "0 < dvalue 0 s" using snoc by auto
    let ?n = "dvalue 0 s * 10 + (unat b - 48)"
    have "\<not> ?n < 10" "?n div 10 = dvalue 0 s" "?n mod 10 = unat b - 48"
      using IH(2) d by (auto simp: not_less)
    then have "nat_decimal ?n = s @ [b]"
      using IH(1) digit_of_unat [OF b] by (subst nat_decimal.simps) (simp del: of_nat_add)
    then show ?thesis using IH(2) by simp
  qed
qed simp

lemma unat_ucast_byte64: "unat (ucast (b :: byte) :: u64) = unat b"
  by (simp add: unsigned_ucast_eq take_bit_nat_eq_self order.strict_trans [OF unsigned_less])

lemma digits_loop_iff:
  "digits_loop s v = Some ([], w) \<longleftrightarrow> (\<forall>b\<in>set s. isdigit b) \<and> unat w = dvalue (unat v) s"
proof (induction s arbitrary: v)
  case Nil
  show ?case by (auto simp: word_unat_eq_iff)
next
  case (Cons b s)
  show ?case
  proof (cases "isdigit b")
    case False
    then show ?thesis by simp
  next
    case True
    have c: "unat (ucast b - 48 :: u64) = unat b - 48"
      using True by (subst unat_sub) (simp_all add: isdigit_unat word_le_nat_alt unat_ucast_byte64)
    have m1: "v > - 1 div 10 \<longleftrightarrow> 1844674407370955161 < unat v"
    proof -
      have "(- 1 div 10 :: u64) = 1844674407370955161" by simp
      then show ?thesis by (simp add: word_less_nat_alt)
    qed
    have "unat w < 2 ^ LENGTH(64)" by (rule unsigned_less)
    then have big: "unat w < 18446744073709551616" by simp
    have ge: "unat v * 10 + (unat b - 48) \<le> dvalue (unat v * 10 + (unat b - 48)) s" by (rule dvalue_ge)
    show ?thesis
    proof (cases "1844674407370955161 < unat v")
      case m: True
      then have "dvalue (unat v) (b # s) \<noteq> unat w" using ge big by simp
      then show ?thesis using True m1 m by auto
    next
      case m: False
      have v10: "unat (v * 10) = unat v * 10"
        using m by (subst unat_mult_lem [THEN iffD1]) simp_all
      have m2: "v * 10 > - 1 - (ucast b - 48) \<longleftrightarrow> 18446744073709551615 < unat v * 10 + (unat b - 48)"
      proof -
        have "unat (- 1 - (ucast b - 48) :: u64) = 18446744073709551615 - (unat b - 48)"
          using c by (subst unat_sub) (simp_all add: unsigned_minus_1_eq_mask mask_eq_exp_minus_1)
        then show ?thesis using v10 True by (auto simp: word_less_nat_alt isdigit_unat)
      qed
      show ?thesis
      proof (cases "18446744073709551615 < unat v * 10 + (unat b - 48)")
        case o: True
        then have "dvalue (unat v) (b # s) \<noteq> unat w" using ge big by simp
        then show ?thesis using True m1 m m2 o by auto
      next
        case o: False
        have "unat (v * 10 + (ucast b - 48)) = unat v * 10 + (unat b - 48)"
          using o v10 c by (subst unat_add_lem [THEN iffD1]) simp_all
        then show ?thesis using True m1 m m2 o Cons.IH [of "v * 10 + (ucast b - 48)"] by simp
      qed
    qed
  qed
qed


lemma nonzero_digit: "49 \<le> b \<and> b \<le> 57 \<longleftrightarrow> isdigit b \<and> b \<noteq> 48"
proof -
  have "49 \<le> b \<and> b \<le> 57 \<longleftrightarrow> 49 \<le> unat b \<and> unat b \<le> 57"
    by (simp add: word_le_nat_alt)
  then show ?thesis by (auto simp: isdigit_unat word_unat_eq_iff)
qed

lemma magnitude_iff:
  assumes "p \<noteq> []" "isdigit (hd p)"
  shows "digits_loop (tl p) (ucast (hd p) - 48) = Some ([], w) \<longleftrightarrow> (\<forall>b\<in>set p. isdigit b) \<and> unat w = dvalue 0 p"
proof -
  obtain b s where p: "p = b # s" using assms(1) by (cases p) auto
  have "unat (ucast b - 48 :: u64) = unat b - 48"
    using assms by (subst unat_sub) (simp_all add: p isdigit_unat word_le_nat_alt unat_ucast_byte64)
  then show ?thesis using assms by (simp add: p digits_loop_iff)
qed

lemma sint_of_int64:
  assumes "- 9223372036854775808 \<le> k" "k \<le> 9223372036854775807"
  shows "sint (word_of_int k :: u64) = k"
proof -
  have "sint (word_of_int k :: u64) = signed_take_bit 63 k" unfolding sint_sbintrunc' by simp
  then show ?thesis using assms by (simp add: signed_take_bit_int_eq_self)
qed

lemma sint_magnitude:
  fixes w :: u64
  shows "unat w \<le> 9223372036854775807 \<Longrightarrow> sint w = int (unat w)"
    and "unat w \<le> 9223372036854775808 \<Longrightarrow> sint (- w) = - int (unat w)"
proof -
  have w: "w = word_of_int (int (unat w))" "- w = word_of_int (- int (unat w))" by simp_all
  show "unat w \<le> 9223372036854775807 \<Longrightarrow> sint w = int (unat w)"
    by (subst w(1), rule sint_of_int64) linarith+
  show "unat w \<le> 9223372036854775808 \<Longrightarrow> sint (- w) = - int (unat w)"
    by (subst w(2), rule sint_of_int64) linarith+
qed

lemma nat_decimal_not_minus: "45 # s \<noteq> nat_decimal n"
proof
  assume "45 # s = nat_decimal n"
  then have "45 \<in> set (nat_decimal n)" by (metis list.set_intros(1))
  then show False using nat_decimal_digits [of n] by (auto simp: isdigit_unat)
qed

text \<open>The two halves of \<open>string2ll\<close> read a magnitude.\<close>

definition magnitude :: "bytes \<Rightarrow> u64 option" where
  "magnitude p =
     (if p \<noteq> [] \<and> isdigit (hd p) \<and> hd p \<noteq> 48 \<and> (\<forall>b\<in>set p. isdigit b) \<and> dvalue 0 p < 18446744073709551616
      then Some (of_nat (dvalue 0 p)) else None)"

lemma magnitude_eq:
  assumes "p \<noteq> []"
  shows "(if 49 \<le> hd p \<and> hd p \<le> 57 then
      (case digits_loop (tl p) (ucast (hd p) - 48) of
         None \<Rightarrow> None | Some (r, v) \<Rightarrow> if r \<noteq> [] then None else f v)
    else None) = Option.bind (magnitude p) f"
proof (cases "isdigit (hd p) \<and> hd p \<noteq> 48")
  case True
  note iff = magnitude_iff [OF assms True [THEN conjunct1]]
  show ?thesis
  proof (cases "\<exists>w. digits_loop (tl p) (ucast (hd p) - 48) = Some ([], w)")
    case ex: True
    then obtain w where w: "digits_loop (tl p) (ucast (hd p) - 48) = Some ([], w)" ..
    have "unat w < 2 ^ LENGTH(64)" by (rule unsigned_less)
    then have big: "unat w < 18446744073709551616" by simp
    have u: "(\<forall>b\<in>set p. isdigit b) \<and> unat w = dvalue 0 p" using iff w by blast
    then have "(of_nat (dvalue 0 p) :: u64) = w" by (simp flip: u [THEN conjunct2])
    then have "magnitude p = Some w"
      using u big True assms by (simp add: magnitude_def)
    then show ?thesis using True w by (simp only: nonzero_digit) simp
  next
    case ex: False
    have "magnitude p = None"
    proof (rule ccontr)
      assume "magnitude p \<noteq> None"
      then have "(\<forall>b\<in>set p. isdigit b) \<and> unat (of_nat (dvalue 0 p) :: u64) = dvalue 0 p"
        by (auto simp: magnitude_def unat_of_nat take_bit_nat_eq_self split: if_splits)
      then show False using ex iff by blast
    qed
    then show ?thesis using ex by (auto split: option.split)
  qed
next
  case False
  then have "magnitude p = None" by (auto simp: magnitude_def)
  then show ?thesis using False nonzero_digit [of "hd p"] by auto
qed

lemma magnitude_Some_iff:
  "magnitude p = Some w \<longleftrightarrow> p = nat_decimal (unat w) \<and> 0 < unat w"
proof
  assume "magnitude p = Some w"
  then have p: "p \<noteq> []" "hd p \<noteq> 48" "\<forall>b\<in>set p. isdigit b" "unat w = dvalue 0 p"
    by (auto simp: magnitude_def unat_of_nat take_bit_nat_eq_self split: if_splits)
  show "p = nat_decimal (unat w) \<and> 0 < unat w"
    using nat_decimal_unique [OF p(3,1,2)] p(4) by simp
next
  assume a: "p = nat_decimal (unat w) \<and> 0 < unat w"
  have "unat w < 2 ^ LENGTH(64)" by (rule unsigned_less)
  then show "magnitude p = Some w"
    using a nat_decimal_props [of "unat w"] by (auto simp: magnitude_def)
qed

lemma magnitude_range:
  assumes "0 < k" "k \<le> 9223372036854775808"
  shows "magnitude (nat_decimal (nat k)) = Some (of_int k)" "unat (of_int k :: u64) = nat k"
proof -
  have e: "(of_int k :: u64) = of_nat (nat k)" using assms by simp
  show u: "unat (of_int k :: u64) = nat k"
    unfolding e using assms by (simp only: unat_of_nat) (simp add: take_bit_nat_eq_self)
  then show "magnitude (nat_decimal (nat k)) = Some (of_int k)"
    using assms by (simp add: magnitude_Some_iff)
qed

lemma negative_iff:
  "Option.bind (magnitude p) (\<lambda>w. if w > 9223372036854775808 then None else Some (sint (- w))) = Some v
    \<longleftrightarrow> v < 0 \<and> p = nat_decimal (nat (- v)) \<and> LLONG_MIN \<le> v" (is "?b = Some v \<longleftrightarrow> ?r")
proof
  assume "?b = Some v"
  then obtain w where w: "magnitude p = Some w" "unat w \<le> 9223372036854775808" "v = sint (- w)"
    by (auto simp: bind_eq_Some_conv word_less_nat_alt split: if_splits)
  define n where "n = unat w"
  have v: "v = - int n" using w(2,3) by (simp only: sint_magnitude(2) n_def)
  have "p = nat_decimal n" "0 < n" "n \<le> 9223372036854775808"
    using w(1,2) by (simp_all only: n_def magnitude_Some_iff)
  then show ?r by (simp add: v LLONG_MIN_def)
next
  assume r: ?r
  then have k: "0 < - v" "- v \<le> 9223372036854775808" by (simp_all add: LLONG_MIN_def)
  let ?w = "of_int (- v) :: u64"
  have le: "unat ?w \<le> 9223372036854775808" using k by (simp add: magnitude_range(2) [OF k] nat_le_iff del: of_int_minus)
  have "\<not> ?w > 9223372036854775808" using le by (simp only: word_less_nat_alt) simp
  moreover have "sint (- ?w) = v" using k by (simp only: sint_magnitude(2) [OF le] magnitude_range(2) [OF k])
  ultimately show "?b = Some v"
    using r magnitude_range(1) [OF k] by (simp only: bind.bind_lunit if_False)
qed

lemma positive_iff:
  "Option.bind (magnitude p) (\<lambda>w. if w > 9223372036854775807 then None else Some (sint w)) = Some v
    \<longleftrightarrow> 0 < v \<and> p = nat_decimal (nat v) \<and> v \<le> LLONG_MAX" (is "?b = Some v \<longleftrightarrow> ?r")
proof
  assume "?b = Some v"
  then obtain w where w: "magnitude p = Some w" "unat w \<le> 9223372036854775807" "v = sint w"
    by (auto simp: bind_eq_Some_conv word_less_nat_alt split: if_splits)
  define n where "n = unat w"
  have v: "v = int n" using w(2,3) by (simp only: sint_magnitude(1) n_def)
  have "p = nat_decimal n" "0 < n" "n \<le> 9223372036854775807"
    using w(1,2) by (simp_all only: n_def magnitude_Some_iff)
  then show ?r by (simp add: v LLONG_MAX_def)
next
  assume r: ?r
  then have k: "0 < v" "v \<le> 9223372036854775808" by (simp_all add: LLONG_MAX_def)
  let ?w = "of_int v :: u64"
  have le: "unat ?w \<le> 9223372036854775807"
    using r by (simp add: magnitude_range(2) [OF k] LLONG_MAX_def nat_le_iff)
  have "\<not> ?w > 9223372036854775807" using le by (simp only: word_less_nat_alt) simp
  moreover have "sint ?w = v" using k by (simp only: sint_magnitude(1) [OF le] magnitude_range(2) [OF k])
  ultimately show "?b = Some v"
    using r magnitude_range(1) [OF k] by (simp only: bind.bind_lunit if_False)
qed

lemma string2ll_magnitude:
  assumes "s \<noteq> []" "s \<noteq> [48]"
  shows "string2ll s =
    (if hd s = 45 then
       (if tl s = [] then None
        else Option.bind (magnitude (tl s)) (\<lambda>w. if w > 9223372036854775808 then None else Some (sint (- w))))
     else Option.bind (magnitude s) (\<lambda>w. if w > 9223372036854775807 then None else Some (sint w)))"
proof -
  have c: "(of_int (- (LLONG_MIN + 1)) + 1 :: u64) = 9223372036854775808"
    "(of_int LLONG_MAX :: u64) = 9223372036854775807" "ch CHR ''1'' = (49 :: byte)" "ch CHR ''9'' = (57 :: byte)"
    "ch CHR ''-'' = (45 :: byte)" "ch CHR ''0'' = (48 :: byte)"
    by (simp_all add: LLONG_MIN_def LLONG_MAX_def of_char_def)
  have one: "\<not> (length s = 1 \<and> hd s = 48)" using assms by (cases s) auto
  show ?thesis
  proof (cases "hd s = 45")
    case True
    then show ?thesis using assms(1) one
      by (simp only: string2ll_def Let_def c if_True if_False simp_thms magnitude_eq [where f = "\<lambda>w. if w > 9223372036854775808 then None else Some (sint (- w))"] cong: if_cong)
  next
    case False
    then show ?thesis using assms(1) one
      by (simp only: string2ll_def Let_def c if_True if_False simp_thms magnitude_eq [where f = "\<lambda>w. if w > 9223372036854775807 then None else Some (sint w)"] cong: if_cong)
  qed
qed

text \<open>\<open>string2ll\<close> accepts exactly the decimal texts of the numbers of 64 bits.\<close>

lemma string2ll_iff:
  "string2ll s = Some v \<longleftrightarrow> s = int_decimal v \<and> LLONG_MIN \<le> v \<and> v \<le> LLONG_MAX"
proof -
  have minus: "hd s = 45 \<Longrightarrow> s \<noteq> [] \<Longrightarrow> s = int_decimal v \<longleftrightarrow> v < 0 \<and> tl s = nat_decimal (nat (- v))"
    by (cases s) (auto simp: int_decimal_def nat_decimal_not_minus)
  have plus: "hd s \<noteq> 45 \<Longrightarrow> s = int_decimal v \<longleftrightarrow> 0 \<le> v \<and> s = nat_decimal (nat v)"
    by (cases s) (auto simp: int_decimal_def)
  have unzero: "nat_decimal (nat v) = [48] \<longleftrightarrow> v \<le> 0"
    using nat_decimal_hd [of "nat v"] by (auto simp: nat_decimal.simps [of 0])
  have bounds: "LLONG_MIN \<le> 0" "0 \<le> LLONG_MAX" by (simp_all add: LLONG_MIN_def LLONG_MAX_def)
  consider "s = []" | "s = [48]" | "s \<noteq> []" "s \<noteq> [48]" by blast
  then show ?thesis
  proof cases
    case 1
    then show ?thesis using nat_decimal_nonempty [symmetric] by (auto simp: string2ll_def int_decimal_def)
  next
    case 2
    have "s = int_decimal v \<longleftrightarrow> v = 0" using plus 2 unzero by auto
    then show ?thesis using 2 bounds by (auto simp: string2ll_def)
  next
    case 3
    show ?thesis
    proof (cases "hd s = 45")
      case True
      then show ?thesis
        unfolding string2ll_magnitude [OF 3] minus [OF True 3(1)]
        using negative_iff [of "tl s" v] nat_decimal_nonempty [of "nat (- v)"] bounds by auto
    next
      case False
      have "0 \<le> v \<and> s = nat_decimal (nat v) \<longleftrightarrow> 0 < v \<and> s = nat_decimal (nat v)"
        using 3(2) unzero by (cases "v = 0") auto
      then show ?thesis
        unfolding string2ll_magnitude [OF 3] plus [OF False]
        using False positive_iff [of s v] bounds by auto
    qed
  qed
qed

end
