(* ===== verification/Hiredis_Stream.thy ===== *)
theory Hiredis_Stream
  imports Hiredis_Text
begin

text \<open>
  What \<^verbatim>\<open>read.c\<close> computes, as a machine on the bytes that have been received and not yet read: what an
  item does to the stack and the reply, and the run that turns a stream into replies. The reader refines it
  however the bytes arrive.
\<close>

section \<open>One item\<close>

datatype ('o, 'h) item_outcome =
    Wait
  | Fail redis_err string 'h
  | Done "'o reply_object" nat 'h
  | Push "'o reply_object" int nat 'h

definition built :: "nat \<Rightarrow> 'o reply_object option \<Rightarrow> 'h \<Rightarrow> ('o, 'h) item_outcome" where
  "built n obj h = (case obj of None \<Rightarrow> Fail ERR_OOM ''Out of memory'' h | Some ob \<Rightarrow> Done ob n h)"

definition line_outcome ::
    "strtod \<Rightarrow> ('o, 'h) object_functions \<Rightarrow> reply_kind \<Rightarrow> 'o tasks \<Rightarrow> bytes \<Rightarrow> 'h \<Rightarrow> ('o, 'h) item_outcome result" where
  "line_outcome sd fn t ts s h =
     (case find_crlf s of
        None \<Rightarrow> Inr Wait
      | Some k \<Rightarrow>
          bind_result (line_object sd fn t ts s k h) (\<lambda>x.
            Inr (case x of Inl msg \<Rightarrow> Fail ERR_PROTOCOL msg h | Inr (obj, h') \<Rightarrow> built (k + 2) obj h')))"

definition bulk_outcome :: "('o, 'h) object_functions \<Rightarrow> 'o tasks \<Rightarrow> bytes \<Rightarrow> 'h \<Rightarrow> ('o, 'h) item_outcome result" where
  "bulk_outcome fn ts s h =
     (case find_crlf s of
        None \<Rightarrow> Inr Wait
      | Some k \<Rightarrow>
          (case string2ll (take k s) of
             None \<Rightarrow> Inr (Fail ERR_PROTOCOL ''Bad bulk string length'' h)
           | Some len \<Rightarrow>
               if len < -1 then Inr (Fail ERR_PROTOCOL ''Bulk string length out of range'' h)
               else if len = -1 then
                 bind_result (call_fn (createNil fn) REPLY_NIL ts h) (\<lambda>(obj, h'). Inr (built (k + 2) obj h'))
               else if LLONG_MAX < int (k + 2) + (len + 2) then Inl SignedOverflow
               else
                 (let bytelen = unat (of_nat (k + 2) + word_of_int (len + 2) :: u32) in
                  if bytelen \<le> length s then
                    bind_result
                      (case createString fn of
                         None \<Rightarrow> Inr (Some (Code REPLY_STRING), h)
                       | Some f \<Rightarrow> f ts (drop (k + 2) s) (nat len) h) (\<lambda>(obj, h'). Inr (built bytelen obj h'))
                  else Inr Wait)))"

definition aggregate_outcome ::
    "('o, 'h) object_functions \<Rightarrow> reply_kind \<Rightarrow> 'o tasks \<Rightarrow> bytes \<Rightarrow> 'h \<Rightarrow> ('o, 'h) item_outcome result" where
  "aggregate_outcome fn t ts s h =
     (if length ts = 9 then
        Inr (Fail ERR_PROTOCOL ''No support for nested multi bulk replies with depth > 7'' h)
      else
        case find_crlf s of
          None \<Rightarrow> Inr Wait
        | Some k \<Rightarrow>
            (case string2ll (take k s) of
               None \<Rightarrow> Inr (Fail ERR_PROTOCOL ''Bad multi-bulk length'' h)
             | Some n \<Rightarrow>
                 if n < -1 then Inr (Fail ERR_PROTOCOL ''Multi-bulk length out of range'' h)
                 else if n = -1 then
                   bind_result (call_fn (createNil fn) REPLY_NIL ts h) (\<lambda>(obj, h'). Inr (built (k + 2) obj h'))
                 else
                   (let elements = (if t = REPLY_MAP then n * 2 else n) in
                    if LLONG_MAX < elements then Inl SignedOverflow
                    else
                      bind_result
                        (case createArray fn of
                           None \<Rightarrow> Inr (Some (Code t), h)
                         | Some f \<Rightarrow> f ts (nat elements) h) (\<lambda>(obj, h').
                        Inr (case obj of
                               Some ob \<Rightarrow> if 0 < elements then Push ob elements (k + 2) h' else Done ob (k + 2) h'
                             | None \<Rightarrow> built (k + 2) obj h')))))"

definition typed_outcome ::
    "strtod \<Rightarrow> ('o, 'h) object_functions \<Rightarrow> reply_kind \<Rightarrow> 'o tasks \<Rightarrow> bytes \<Rightarrow> 'h \<Rightarrow> ('o, 'h) item_outcome result" where
  "typed_outcome sd fn t ts s h =
     (if t = REPLY_STRING then bulk_outcome fn ts s h
      else if t = REPLY_ARRAY \<or> t = REPLY_MAP \<or> t = REPLY_SET then aggregate_outcome fn t ts s h
      else line_outcome sd fn t ts s h)"

section \<open>The machine\<close>

text \<open>What the reader keeps between calls, whatever the buffer looks like: the stack, the root object and the unread bytes, or an error.\<close>

datatype 'o view =
    Pending "'o tasks" "'o reply_object option" bytes
  | Failed redis_err string "'o reply_object option"

definition view_of :: "'o redis_reader \<Rightarrow> 'o view" where
  "view_of r =
     (case rd_err r of
        None \<Rightarrow> Pending (rd_tasks r) (rd_reply r) (rest_of r)
      | Some e \<Rightarrow> Failed e (rd_errstr r) (rd_reply r))"

definition stream_fail ::
    "('o, 'h) object_functions \<Rightarrow> redis_err \<Rightarrow> string \<Rightarrow> 'o reply_object option \<Rightarrow> 'h \<Rightarrow> (bool \<times> 'o view \<times> 'h) result" where
  "stream_fail fn e msg reply h =
     bind_result
       (case (reply, freeObject fn) of
          (Some obj, Some free) \<Rightarrow> bind_result (free obj h) (\<lambda>h'. Inr (None, h'))
        | (reply, _) \<Rightarrow> Inr (reply, h)) (\<lambda>(reply, h').
     Inr (False, Failed e (take 127 msg) reply, h'))"

definition root_reply :: "'o tasks \<Rightarrow> 'o reply_object \<Rightarrow> 'o reply_object option \<Rightarrow> 'o reply_object option" where
  "root_reply ts ob reply = (if length ts = 1 then Some ob else reply)"

definition pushed_tasks :: "'o reply_object \<Rightarrow> int \<Rightarrow> 'o tasks \<Rightarrow> 'o tasks" where
  "pushed_tasks ob elements ts =
     new_task 0 # (hd ts)\<lparr>task_elements := sint (word_of_int elements :: int32), task_obj := Some ob\<rparr> # tl ts"

fun apply_outcome ::
    "('o, 'h) object_functions \<Rightarrow> 'o tasks \<Rightarrow> 'o reply_object option \<Rightarrow> bytes \<Rightarrow> 'h \<Rightarrow> ('o, 'h) item_outcome \<Rightarrow>
      (bool \<times> 'o view \<times> 'h) result" where
  "apply_outcome fn ts reply s h Wait = Inr (False, Pending ts reply s, h)"
| "apply_outcome fn ts reply s h (Fail e msg h') = stream_fail fn e msg reply h'"
| "apply_outcome fn ts reply s h (Done ob n h') =
     bind_result (moveToNextTask ts) (\<lambda>ts'. Inr (True, Pending ts' (root_reply ts ob reply) (drop n s), h'))"
| "apply_outcome fn ts reply s h (Push ob elements n h') =
     Inr (True, Pending (pushed_tasks ob elements ts) (root_reply ts ob reply) (drop n s), h')"

definition stream_typed ::
    "strtod \<Rightarrow> ('o, 'h) object_functions \<Rightarrow> reply_kind \<Rightarrow> 'o tasks \<Rightarrow> 'o reply_object option \<Rightarrow> bytes \<Rightarrow> 'h \<Rightarrow>
      (bool \<times> 'o view \<times> 'h) result" where
  "stream_typed sd fn t ts reply s h = bind_result (typed_outcome sd fn t ts s h) (apply_outcome fn ts reply s h)"

definition stream_step ::
    "strtod \<Rightarrow> ('o, 'h) object_functions \<Rightarrow> 'o tasks \<Rightarrow> 'o reply_object option \<Rightarrow> bytes \<Rightarrow> 'h \<Rightarrow>
      (bool \<times> 'o view \<times> 'h) result" where
  "stream_step sd fn ts reply s h =
     (case ts of
        [] \<Rightarrow> Inl OutOfBounds
      | cur # us \<Rightarrow>
          (case task_type cur of
             Some t \<Rightarrow> stream_typed sd fn t ts reply s h
           | None \<Rightarrow>
               (case s of
                  [] \<Rightarrow> Inr (False, Pending ts reply [], h)
                | b # s' \<Rightarrow>
                    (case type_of_byte b of
                       None \<Rightarrow> stream_fail fn ERR_PROTOCOL
                                 (''Protocol error, got '' @ chrtos b @ '' as reply type byte'') reply h
                     | Some t \<Rightarrow> stream_typed sd fn t (cur\<lparr>task_type := Some t\<rparr> # us) reply s' h))))"

section \<open>The reader refines the machine\<close>

definition reader_wf :: "'o redis_reader \<Rightarrow> bool" where
  "reader_wf r \<longleftrightarrow>
     (case rd_err r of
        None \<Rightarrow> (case rd_buf r of None \<Rightarrow> False | Some s \<Rightarrow> sds_ok s \<and> rd_len r = length (sds_val s) \<and> rd_pos r \<le> rd_len r \<and> rd_len r < 2147483648)
      | Some _ \<Rightarrow> rd_tasks r = [])"

definition abs_processed :: "(bool \<times> 'o redis_reader \<times> 'h) result \<Rightarrow> (bool \<times> 'o view \<times> 'h) result" where
  "abs_processed x = bind_result x (\<lambda>(ok, r, h). Inr (ok, view_of r, h))"

lemma abs_processed_simps [simp]:
  "abs_processed (Inl e) = Inl e"
  "abs_processed (Inr (ok, r, h)) = Inr (ok, view_of r, h)"
  "abs_processed (bind_result m f) = bind_result m (\<lambda>x. abs_processed (f x))"
  by (simp_all add: abs_processed_def bind_result_assoc)

lemma reader_wfD:
  assumes "reader_wf r" "rd_err r = None"
  shows "rd_len r - rd_pos r = length (rest_of r)" "rd_pos r + n \<le> rd_len r \<longleftrightarrow> n \<le> length (rest_of r)"
    "view_of r = Pending (rd_tasks r) (rd_reply r) (rest_of r)" "rd_buf r \<noteq> None"
  using assms by (auto simp: reader_wf_def rest_of_def view_of_def split: option.splits)

lemma rest_of_advance [simp]:
  "rest_of (r\<lparr>rd_pos := rd_pos r + n\<rparr>) = drop n (rest_of r)"
  by (simp add: rest_of_def add.commute split: option.split)

lemma rest_of_cong [simp]:
  "rest_of (r\<lparr>rd_reply := x\<rparr>) = rest_of r" "rest_of (r\<lparr>rd_tasks := y\<rparr>) = rest_of r"
  by (simp_all add: rest_of_def split: option.split)

lemma redisReaderSetError_pos [simp]:
  "redisReaderSetError fn e m (r\<lparr>rd_pos := p\<rparr>) h = redisReaderSetError fn e m r h"
  by (simp add: redisReaderSetError_def)

lemma abs_error:
  "bind_result (redisReaderSetError fn e m r h) (\<lambda>x. abs_processed (Inr (False, x))) =
     stream_fail fn e m (rd_reply r) h"
  by (auto simp: redisReaderSetError_def stream_fail_def bind_result_assoc view_of_def
      split: option.split intro!: bind_result_cong)

lemma case_prod_Inr [simp]: "(case x of (r, h) \<Rightarrow> Inr (ok, r, h)) = Inr (ok, x)"
  by (cases x) simp

lemma abs_item_done:
  assumes "rd_err r = None"
  shows "abs_processed (item_done fn obj (r\<lparr>rd_pos := rd_pos r + n\<rparr>) h) =
    apply_outcome fn (rd_tasks r) (rd_reply r) (rest_of r) h0 (built n obj h)"
  using assms
  by (auto simp: item_done_def built_def redisReaderSetErrorOOM_def abs_error view_of_def root_reply_def
      rest_of_def add.commute split: option.split intro!: bind_result_cong)

lemma abs_line:
  assumes "reader_wf r" "rd_err r = None" "length (rest_of r) < 2147483648"
  shows "abs_processed (processLineItem sd fn t r h) =
    bind_result (line_outcome sd fn t (rd_tasks r) (rest_of r) h)
      (apply_outcome fn (rd_tasks r) (rd_reply r) (rest_of r) h)"
proof (cases "find_crlf (rest_of r)")
  case None
  then show ?thesis
    using reader_wfD [OF assms(1,2)] seekNewline_find [OF assms(3)]
    by (simp add: processLineItem_def readLine_def line_outcome_def)
next
  case (Some k)
  then have "readLine r = (Some (rest_of r, k), r\<lparr>rd_pos := rd_pos r + (k + 2)\<rparr>)"
    using reader_wfD [OF assms(1,2)] seekNewline_find [OF assms(3)] by (simp add: readLine_def)
  then show ?thesis
    by (auto simp: processLineItem_def line_outcome_def Some bind_result_assoc protocol_error_def abs_error
        abs_item_done [OF assms(2)] simp del: add_2_eq_Suc' split: sum.split intro!: bind_result_cong)
qed

lemma abs_bulk:
  assumes "reader_wf r" "rd_err r = None" "length (rest_of r) < 2147483648"
  shows "abs_processed (processBulkItem fn r h) =
    bind_result (bulk_outcome fn (rd_tasks r) (rest_of r) h)
      (apply_outcome fn (rd_tasks r) (rd_reply r) (rest_of r) h)"
proof (cases "find_crlf (rest_of r)")
  case None
  then show ?thesis
    using reader_wfD [OF assms(1,2)] seekNewline_find [OF assms(3)]
    by (simp add: processBulkItem_def bulk_outcome_def)
next
  case (Some k)
  have seek: "seekNewline (rest_of r) (rd_len r - rd_pos r) = Some k"
    using Some reader_wfD [OF assms(1,2)] seekNewline_find [OF assms(3)] by simp
  have item: "abs_processed (item_done fn obj (if obj = None then r else r\<lparr>rd_pos := rd_pos r + n\<rparr>) h') =
      apply_outcome fn (rd_tasks r) (rd_reply r) (rest_of r) h (built n obj h')" for obj n h'
    using abs_item_done [OF assms(2), of fn obj n h' h]
    by (cases obj) (simp_all add: item_done_def redisReaderSetErrorOOM_def)
  show ?thesis
  proof (cases "string2ll (take k (rest_of r))")
    case None
    then show ?thesis
      by (simp add: processBulkItem_def bulk_outcome_def Let_def seek Some protocol_error_def abs_error)
  next
    case len: (Some len)
    define bytelen where "bytelen = unat (of_nat (k + 2) + word_of_int (len + 2) :: u32)"
    consider "len < -1" | "len = -1" | "0 \<le> len" "LLONG_MAX < int (k + 2) + (len + 2)" | "0 \<le> len" "\<not> LLONG_MAX < int (k + 2) + (len + 2)" by linarith
    then show ?thesis
    proof cases
      case 1
      then show ?thesis
        by (simp add: processBulkItem_def bulk_outcome_def Let_def seek Some len protocol_error_def abs_error)
    next
      case 2
      then show ?thesis
        by (auto simp: processBulkItem_def bulk_outcome_def Let_def seek Some len bind_result_assoc item
            simp del: add_2_eq_Suc' intro!: bind_result_cong)
    next
      case 3
      then show ?thesis
        by (simp add: processBulkItem_def bulk_outcome_def Let_def seek Some len)
    next
      case 4
      have "processBulkItem fn r h =
        (if bytelen \<le> length (rest_of r) then
           bind_result
             (case createString fn of
                None \<Rightarrow> Inr (Some (Code REPLY_STRING), h)
              | Some f \<Rightarrow> f (rd_tasks r) (drop (k + 2) (rest_of r)) (nat len) h) (\<lambda>(obj, h').
             item_done fn obj (if obj = None then r else r\<lparr>rd_pos := rd_pos r + bytelen\<rparr>) h')
         else Inr (False, r, h))"
        using 4 reader_wfD(2) [OF assms(1,2)]
        by (simp only: processBulkItem_def Let_def seek Some len option.case bytelen_def) simp
      moreover have "bulk_outcome fn (rd_tasks r) (rest_of r) h =
        (if bytelen \<le> length (rest_of r) then
           bind_result
             (case createString fn of
                None \<Rightarrow> Inr (Some (Code REPLY_STRING), h)
              | Some f \<Rightarrow> f (rd_tasks r) (drop (k + 2) (rest_of r)) (nat len) h) (\<lambda>(obj, h'). Inr (built bytelen obj h'))
         else Inr Wait)"
        using 4 by (simp only: bulk_outcome_def Let_def Some len option.case bytelen_def) simp
      ultimately show ?thesis
        by (auto simp: bind_result_assoc item reader_wfD(3) [OF assms(1,2)] intro!: bind_result_cong)
    qed
  qed
qed

lemma abs_aggregate:
  assumes "reader_wf r" "rd_err r = None" "length (rest_of r) < 2147483648" "rd_tasks r \<noteq> []"
  shows "abs_processed (processAggregateItem fn t r h) =
    bind_result (aggregate_outcome fn t (rd_tasks r) (rest_of r) h)
      (apply_outcome fn (rd_tasks r) (rd_reply r) (rest_of r) h)"
proof (cases "find_crlf (rest_of r)")
  case None
  then show ?thesis
    using reader_wfD [OF assms(1,2)] seekNewline_find [OF assms(3)]
    by (auto simp: processAggregateItem_def readLine_def aggregate_outcome_def protocol_error_def bind_result_assoc abs_error)
next
  case (Some k)
  then have line: "readLine r = (Some (rest_of r, k), r\<lparr>rd_pos := rd_pos r + (k + 2)\<rparr>)"
    using reader_wfD [OF assms(1,2)] seekNewline_find [OF assms(3)] by (simp add: readLine_def)
  obtain cur us where ts: "rd_tasks r = cur # us" using assms(4) by (cases "rd_tasks r") auto
  have item: "abs_processed (item_done fn obj (r\<lparr>rd_pos := rd_pos r + n\<rparr>) h') =
      apply_outcome fn (rd_tasks r) (rd_reply r) (rest_of r) h (built n obj h')" for obj n h'
    by (rule abs_item_done [OF assms(2)])
  show ?thesis
  proof (cases "length (rd_tasks r) = 9 \<or> string2ll (take k (rest_of r)) = None")
    case True
    then show ?thesis
      by (auto simp: processAggregateItem_def aggregate_outcome_def line Some protocol_error_def abs_error)
  next
    case False
    then obtain n where n: "string2ll (take k (rest_of r)) = Some n" by blast
    define elements where "elements = (if t = REPLY_MAP then n * 2 else n)"
    consider "n < -1" | "n = -1" | "0 \<le> n" by linarith
    then show ?thesis
    proof cases
      case 1
      then show ?thesis using False
        by (simp add: processAggregateItem_def aggregate_outcome_def line Some n protocol_error_def abs_error)
    next
      case 2
      then show ?thesis using False
        by (auto simp: processAggregateItem_def aggregate_outcome_def line Some n bind_result_assoc item
            simp del: add_2_eq_Suc' intro!: bind_result_cong)
    next
      case 3
      have push: "abs_processed (case (obj, rd_tasks r) of
           (Some ob, cur # ts) \<Rightarrow>
             if 0 < elements then
               Inr (True, r\<lparr>rd_pos := rd_pos r + (k + 2),
                      rd_tasks := new_task 0 #
                      cur\<lparr>task_elements := sint (word_of_int elements :: int32), task_obj := Some ob\<rparr> # ts,
                      rd_reply := (if ts = [] then Some ob else rd_reply r)\<rparr>, h')
             else item_done fn obj (r\<lparr>rd_pos := rd_pos r + (k + 2)\<rparr>) h'
         | _ \<Rightarrow> item_done fn obj (r\<lparr>rd_pos := rd_pos r + (k + 2)\<rparr>) h') =
        apply_outcome fn (rd_tasks r) (rd_reply r) (rest_of r) h
          (case obj of
             Some ob \<Rightarrow> if 0 < elements then Push ob elements (k + 2) h' else Done ob (k + 2) h'
           | None \<Rightarrow> built (k + 2) obj h')" for obj h'
        using item [of obj "k + 2" h'] assms(2)
        by (cases obj) (auto simp: ts built_def pushed_tasks_def root_reply_def view_of_def simp del: add_2_eq_Suc')
      let ?create = "case createArray fn of None \<Rightarrow> Inr (Some (Code t), h) | Some f \<Rightarrow> f (rd_tasks r) (nat elements) h"
      show ?thesis
      proof (cases "LLONG_MAX < elements")
        case True
        then show ?thesis using False 3
          by (simp add: processAggregateItem_def aggregate_outcome_def line Some n Let_def flip: elements_def)
      next
        case small: False
        have "processAggregateItem fn t r h = bind_result ?create (\<lambda>(obj, h').
             case (obj, rd_tasks r) of
               (Some ob, cur # ts) \<Rightarrow>
                 if 0 < elements then
                   Inr (True, r\<lparr>rd_pos := rd_pos r + (k + 2),
                          rd_tasks := new_task 0 #
                          cur\<lparr>task_elements := sint (word_of_int elements :: int32), task_obj := Some ob\<rparr> # ts,
                          rd_reply := (if ts = [] then Some ob else rd_reply r)\<rparr>, h')
                 else item_done fn obj (r\<lparr>rd_pos := rd_pos r + (k + 2)\<rparr>) h'
             | _ \<Rightarrow> item_done fn obj (r\<lparr>rd_pos := rd_pos r + (k + 2)\<rparr>) h')"
          using False 3 small
          by (simp only: processAggregateItem_def line Let_def n option.case prod.case flip: elements_def)
            (auto simp del: add_2_eq_Suc' cong: option.case_cong list.case_cong intro!: bind_result_cong
              split: option.split list.split)
        moreover have "aggregate_outcome fn t (rd_tasks r) (rest_of r) h = bind_result ?create (\<lambda>(obj, h').
             Inr (case obj of
                    Some ob \<Rightarrow> if 0 < elements then Push ob elements (k + 2) h' else Done ob (k + 2) h'
                  | None \<Rightarrow> built (k + 2) obj h'))"
          using False 3 small
          by (simp only: aggregate_outcome_def Let_def Some n option.case flip: elements_def) simp
        ultimately show ?thesis
          using push by (auto simp only: abs_processed_simps bind_result_assoc bind_result.simps intro!: bind_result_cong split: prod.split)
      qed
    qed
  qed
qed

lemma abs_typed:
  assumes "reader_wf r" "rd_err r = None" "length (rest_of r) < 2147483648" "rd_tasks r \<noteq> []"
  shows "abs_processed (process_typed sd fn t r h) = stream_typed sd fn t (rd_tasks r) (rd_reply r) (rest_of r) h"
  using abs_bulk [OF assms(1-3)] abs_aggregate [OF assms] abs_line [OF assms(1-3)]
  by (auto simp: process_typed_def stream_typed_def typed_outcome_def)

text \<open>An item of the reader is a step of the machine, wherever the cursor stands in the buffer.\<close>

lemma processItem_refines:
  assumes "reader_wf r" "rd_err r = None" "length (rest_of r) < 2147483648"
  shows "abs_processed (processItem sd fn r h) = stream_step sd fn (rd_tasks r) (rd_reply r) (rest_of r) h"
proof (cases "rd_tasks r")
  case Nil
  then show ?thesis by (simp add: processItem_def stream_step_def)
next
  case (Cons cur us)
  note facts = reader_wfD [OF assms(1,2)]
  show ?thesis
  proof (cases "task_type cur")
    case (Some t)
    then show ?thesis using abs_typed [OF assms, of sd fn t h] Cons
      by (simp add: processItem_def stream_step_def)
  next
    case None
    show ?thesis
    proof (cases "rest_of r")
      case Nil
      then have "rd_len r - rd_pos r = 0" using facts(1) by simp
      then have "readBytes 1 r = (None, r)" by (simp add: readBytes_def)
      then show ?thesis using Cons None Nil facts(3) by (simp add: processItem_def stream_step_def)
    next
      case c: (Cons b s)
      then have read: "readBytes 1 r = (Some (b # s), r\<lparr>rd_pos := rd_pos r + 1\<rparr>)"
        using facts(1) by (simp add: readBytes_def)
      show ?thesis
      proof (cases "type_of_byte b")
        case tn: None
        then show ?thesis using Cons None c read
          by (simp add: processItem_def stream_step_def redisReaderSetErrorProtocolByte_def abs_error
              del: One_nat_def)
      next
        case t: (Some t)
        let ?r = "r\<lparr>rd_pos := rd_pos r + 1, rd_tasks := cur\<lparr>task_type := Some t\<rparr> # us\<rparr>"
        have rest: "rest_of ?r = s" using c by (simp add: rest_of_def split: option.splits)
          (metis drop_Suc tl_drop list.sel(3))
        have "reader_wf ?r" using assms(1,2) c
          by (auto simp: reader_wf_def rest_of_def split: option.splits intro!: Suc_leI)
            (metis drop_all leI list.distinct(1))
        then have "abs_processed (process_typed sd fn t ?r h) =
            stream_typed sd fn t (rd_tasks ?r) (rd_reply ?r) (rest_of ?r) h"
          by (rule abs_typed) (use assms c rest in auto)
        then show ?thesis using Cons None c read t rest
          by (simp add: processItem_def stream_step_def del: One_nat_def)
      qed
    qed
  qed
qed

section \<open>The reader stays well formed\<close>

definition keeps_wf :: "('o, 'h) processed \<Rightarrow> bool" where
  "keeps_wf x \<longleftrightarrow> (\<forall>ok r h. x = Inr (ok, r, h) \<longrightarrow> reader_wf r \<and> (ok \<longrightarrow> rd_err r = None))"

lemma keeps_wf_simps [simp]:
  "keeps_wf (Inl e)"
  "keeps_wf (Inr (ok, r, h)) \<longleftrightarrow> reader_wf r \<and> (ok \<longrightarrow> rd_err r = None)"
  by (simp_all add: keeps_wf_def)

lemma keeps_wf_bind: "(\<And>a. m = Inr a \<Longrightarrow> keeps_wf (f a)) \<Longrightarrow> keeps_wf (bind_result m f)"
  by (cases m) simp_all

lemma keeps_wf_error: "keeps_wf (bind_result (redisReaderSetError fn e m r h) (\<lambda>(r', h'). Inr (False, r', h')))"
  by (auto simp: redisReaderSetError_def bind_result_assoc reader_wf_def intro!: keeps_wf_bind split: option.split)

lemma reader_wf_advance:
  assumes "reader_wf r" "rd_err r = None" "n \<le> length (rest_of r)"
  shows "reader_wf (r\<lparr>rd_pos := rd_pos r + n\<rparr>)"
  using assms by (auto simp: reader_wf_def rest_of_def split: option.splits)

lemma reader_wf_cong [simp]:
  "rd_err r = None \<Longrightarrow> reader_wf (r\<lparr>rd_tasks := ts\<rparr>) = reader_wf r"
  "rd_err r = None \<Longrightarrow> reader_wf (r\<lparr>rd_reply := ob\<rparr>) = reader_wf r"
  by (simp_all add: reader_wf_def split: option.split)

lemma keeps_wf_item_done:
  assumes "reader_wf r" "rd_err r = None"
  shows "keeps_wf (item_done fn obj r h)"
  using assms
  by (auto simp: item_done_def redisReaderSetErrorOOM_def keeps_wf_error intro!: keeps_wf_bind split: option.split)

lemma readLine_wf:
  assumes "reader_wf r" "rd_err r = None" "length (rest_of r) < 2147483648" "readLine r = (l, r')"
  shows "reader_wf r' \<and> rd_err r' = None"
  using assms find_crlf_length [of "rest_of r"] reader_wfD(1) [OF assms(1,2)] seekNewline_find [OF assms(3)]
  by (auto simp: readLine_def reader_wf_advance simp del: add_2_eq_Suc' split: option.splits)

lemma keeps_wf_line:
  assumes "reader_wf r" "rd_err r = None" "length (rest_of r) < 2147483648"
  shows "keeps_wf (processLineItem sd fn t r h)"
proof -
  obtain l r' where l: "readLine r = (l, r')" by fastforce
  show ?thesis
    using readLine_wf [OF assms l] l
    by (auto simp: processLineItem_def protocol_error_def keeps_wf_error
        intro!: keeps_wf_bind keeps_wf_item_done split: option.split sum.split)
qed

lemma keeps_wf_aggregate:
  assumes "reader_wf r" "rd_err r = None" "length (rest_of r) < 2147483648"
  shows "keeps_wf (processAggregateItem fn t r h)"
proof -
  obtain l r' where l: "readLine r = (l, r')" by fastforce
  have wf: "reader_wf r'" "rd_err r' = None" using readLine_wf [OF assms l] by simp_all
  show ?thesis
    using wf l
    by (auto simp: processAggregateItem_def Let_def protocol_error_def keeps_wf_error
        intro!: keeps_wf_bind keeps_wf_item_done split: option.split list.split)
qed

lemma keeps_wf_bulk:
  assumes "reader_wf r" "rd_err r = None" "length (rest_of r) < 2147483648"
  shows "keeps_wf (processBulkItem fn r h)"
proof (cases "find_crlf (rest_of r)")
  case None
  then show ?thesis
    using assms reader_wfD [OF assms(1,2)] seekNewline_find [OF assms(3)]
    by (simp add: processBulkItem_def)
next
  case (Some k)
  have seek: "seekNewline (rest_of r) (rd_len r - rd_pos r) = Some k"
    using Some reader_wfD [OF assms(1,2)] seekNewline_find [OF assms(3)] by simp
  have item: "keeps_wf (item_done fn obj (if obj = None then r else r\<lparr>rd_pos := rd_pos r + n\<rparr>) h')"
    if "n \<le> length (rest_of r)" for obj n h'
    using that assms(1,2) reader_wf_advance [OF assms(1,2) that]
    by (intro keeps_wf_item_done) auto
  show ?thesis
  proof (cases "string2ll (take k (rest_of r))")
    case None
    then show ?thesis by (simp add: processBulkItem_def Let_def seek protocol_error_def keeps_wf_error)
  next
    case len: (Some len)
    define bytelen where "bytelen = unat (of_nat (k + 2) + word_of_int (len + 2) :: u32)"
    consider "len < -1" | "len = -1" | "0 \<le> len" by linarith
    then show ?thesis
    proof cases
      case 1
      then show ?thesis by (simp add: processBulkItem_def Let_def seek len protocol_error_def keeps_wf_error)
    next
      case 2
      then show ?thesis using find_crlf_length [OF Some]
        by (auto simp: processBulkItem_def Let_def seek len item simp del: add_2_eq_Suc' intro!: keeps_wf_bind)
    next
      case 3
      then show ?thesis using reader_wfD(2) [OF assms(1,2)] assms(1,2)
        by (simp only: processBulkItem_def Let_def seek len option.case flip: bytelen_def)
          (auto simp: item intro!: keeps_wf_bind)
    qed
  qed
qed

lemma keeps_wf_typed:
  assumes "reader_wf r" "rd_err r = None" "length (rest_of r) < 2147483648"
  shows "keeps_wf (process_typed sd fn t r h)"
  using keeps_wf_bulk [OF assms] keeps_wf_aggregate [OF assms] keeps_wf_line [OF assms]
  by (auto simp: process_typed_def)

lemma processItem_wf:
  assumes "reader_wf r" "rd_err r = None" "length (rest_of r) < 2147483648"
  shows "keeps_wf (processItem sd fn r h)"
proof (cases "readBytes 1 r")
  case read: (Pair p r1)
  then have r1: "reader_wf r1" "rd_err r1 = None" "length (rest_of r1) < 2147483648"
    using assms reader_wfD(1) [OF assms(1,2)]
    by (auto simp: readBytes_def reader_wf_advance simp del: One_nat_def split: if_splits)
  have typed: "keeps_wf (process_typed sd fn t (r1\<lparr>rd_tasks := ts\<rparr>) h)" for t ts
    by (rule keeps_wf_typed) (use r1 in simp_all)
  show ?thesis
    using keeps_wf_typed [OF assms] typed r1 read
    by (auto simp: processItem_def redisReaderSetErrorProtocolByte_def keeps_wf_error
        simp del: One_nat_def split: list.split option.split)
qed

end
