(* ===== verification/Hiredis_Chunks.thy ===== *)
theory Hiredis_Chunks
  imports Hiredis_Stream
begin

text \<open>
  The run of the machine over all the bytes that are there, its replies and what it keeps; more bytes resume
  it. The reader, fed in pieces and asked for replies after each, does the same: what it answers does not
  depend on where the stream is cut.
\<close>

section \<open>A step consumes\<close>

definition step_measure :: "'o tasks \<Rightarrow> bytes \<Rightarrow> nat" where
  "step_measure ts s = length s + (case ts of [] \<Rightarrow> 0 | t # _ \<Rightarrow> if task_type t = None then 0 else 1)"

definition untyped :: "'o tasks \<Rightarrow> bool" where
  "untyped ts \<longleftrightarrow> (case ts of [] \<Rightarrow> True | t # _ \<Rightarrow> task_type t = None)"

lemma step_measure_untyped: "untyped ts \<Longrightarrow> step_measure ts s = length s"
  by (cases ts) (simp_all add: untyped_def step_measure_def)

lemma moveToNextTask_untyped: "moveToNextTask ts = Inr ts' \<Longrightarrow> untyped ts'"
  by (induction ts rule: moveToNextTask.induct)
    (auto simp: untyped_def bind_result_Inr_iff split: if_splits)

lemma apply_outcome_True:
  assumes "apply_outcome fn ts reply s h out = Inr (True, v, h')"
  obtains ts' reply' n where "v = Pending ts' reply' (drop n s)" "untyped ts'"
  using assms
proof (cases out)
  case (Fail e m h1)
  then show thesis using assms by (auto simp: stream_fail_def bind_result_Inr_iff split: option.splits)
next
  case (Done ob n h1)
  then obtain ts' where "moveToNextTask ts = Inr ts'" "v = Pending ts' (root_reply ts ob reply) (drop n s)"
    using assms by (auto simp: bind_result_Inr_iff)
  then show thesis using that moveToNextTask_untyped by blast
next
  case (Push ob elements n h1)
  then show thesis using assms that [of "pushed_tasks ob elements ts" _ n] by (auto simp: pushed_tasks_def untyped_def new_task_def)
qed simp

lemma stream_step_True:
  assumes "stream_step sd fn ts reply s h = Inr (True, v, h')"
  obtains ts' reply' n where "v = Pending ts' reply' (drop n s)" "untyped ts'"
    "step_measure ts' (drop n s) < step_measure ts s"
proof -
  obtain cur us where ts: "ts = cur # us" using assms by (cases ts) (auto simp: stream_step_def)
  show thesis
  proof (cases "task_type cur")
    case (Some t)
    then obtain out where "apply_outcome fn ts reply s h out = Inr (True, v, h')"
      using assms by (auto simp: stream_step_def ts stream_typed_def bind_result_Inr_iff)
    then obtain ts' reply' n where "v = Pending ts' reply' (drop n s)" "untyped ts'" by (rule apply_outcome_True)
    then show thesis using that Some by (simp add: step_measure_untyped) (simp add: step_measure_def ts)
  next
    case None
    then obtain b s' t out where s: "s = b # s'"
      and "apply_outcome fn (cur\<lparr>task_type := Some t\<rparr> # us) reply s' h out = Inr (True, v, h')"
      using assms
      by (auto simp: stream_step_def ts stream_typed_def stream_fail_def bind_result_Inr_iff split: list.splits option.splits)
    then obtain ts' reply' n where v: "v = Pending ts' reply' (drop n s')" "untyped ts'" by (blast elim: apply_outcome_True)
    have "step_measure ts' (drop (Suc n) s) < step_measure ts s"
      using v(2) None by (simp add: step_measure_untyped) (simp add: step_measure_def ts s)
    then show thesis using v that [of ts' reply' "Suc n"] by (simp add: s)
  qed
qed

section \<open>The run\<close>

text \<open>
  When the stack is empty the root object is a reply, and the next item starts a new one.
\<close>

function stream_run ::
    "strtod \<Rightarrow> ('o, 'h) object_functions \<Rightarrow> 'o tasks \<Rightarrow> 'o reply_object option \<Rightarrow> bytes \<Rightarrow> 'h \<Rightarrow>
      ('o reply_object list \<times> 'o view \<times> 'h) result" where
  "stream_run sd fn ts reply s h =
     (case stream_step sd fn ts reply s h of
        Inl e \<Rightarrow> Inl e
      | Inr (ok, v, h') \<Rightarrow>
          if \<not> ok then Inr ([], v, h')
          else (case v of
                  Failed e m reply' \<Rightarrow> Inr ([], v, h')
                | Pending ts' reply' s' \<Rightarrow>
                    if ts' = []
                    then bind_result (stream_run sd fn [new_task (-1)] None s' h') (\<lambda>(os, v', h'').
                           Inr (the reply' # os, v', h''))
                    else stream_run sd fn ts' reply' s' h'))"
  by pat_completeness auto
termination
proof (relation "measure (\<lambda>(sd, fn, ts, reply, s, h). step_measure ts s)", goal_cases)
  case (2 sd fn ts reply s h x ok y v h' ts' reply' s')
  then have "stream_step sd fn ts reply s h = Inr (True, Pending ts' reply' s', h')" by simp
  then show ?case by (auto elim!: stream_step_True simp: step_measure_def new_task_def untyped_def)
next
  case (3 sd fn ts reply s h x ok y v h' ts' reply' s')
  then have "stream_step sd fn ts reply s h = Inr (True, Pending ts' reply' s', h')" by simp
  then show ?case by (auto elim!: stream_step_True)
qed simp

declare stream_run.simps [simp del]

section \<open>More bytes\<close>

fun view_more :: "'o view \<Rightarrow> bytes \<Rightarrow> 'o view" where
  "view_more (Pending ts reply s) e = Pending ts reply (s @ e)"
| "view_more (Failed err m reply) e = Failed err m reply"

fun resume ::
    "strtod \<Rightarrow> ('o, 'h) object_functions \<Rightarrow> 'o view \<Rightarrow> 'h \<Rightarrow> ('o reply_object list \<times> 'o view \<times> 'h) result" where
  "resume sd fn (Pending ts reply s) h = stream_run sd fn ts reply s h"
| "resume sd fn (Failed err m reply) h = Inr ([], Failed err m reply, h)"

definition prepend :: "'a list \<Rightarrow> ('a list \<times> 'v \<times> 'h) result \<Rightarrow> ('a list \<times> 'v \<times> 'h) result" where
  "prepend os x = bind_result x (\<lambda>(os', v, h). Inr (os @ os', v, h))"

lemma prepend_Nil [simp]: "prepend [] x = x"
  by (cases x) (auto simp: prepend_def)

lemma prepend_prepend [simp]: "prepend os (prepend os' x) = prepend (os @ os') x"
  by (cases x) (auto simp: prepend_def)

lemma prepend_Inl [simp]: "prepend os (Inl e) = Inl e"
  by (simp add: prepend_def)

lemma prepend_Inr [simp]: "prepend os (Inr (os', v, h)) = Inr (os @ os', v, h)"
  by (simp add: prepend_def)

lemma prepend_Inr_iff:
  "prepend os x = Inr (os', v, h) \<longleftrightarrow> (\<exists>os''. x = Inr (os'', v, h) \<and> os' = os @ os'')"
  by (cases x) (auto simp: prepend_def)

text \<open>
  What the client of the reader owes: a string object depends on the bytes of the string only, and
  a call that succeeds without them has not read them.
\<close>

locale object_builder =
  fixes fn :: "('o, 'h) object_functions"
  assumes string_prefix: "createString fn = Some f \<Longrightarrow> n \<le> length p \<Longrightarrow> f ts p n h = f ts (take n p) n h"
    and string_unread: "createString fn = Some f \<Longrightarrow> length p < n \<Longrightarrow> f ts p n h = Inr x \<Longrightarrow> f ts q n h = Inr x"
begin

lemma string_append:
  assumes "createString fn = Some f" "f ts p n h = Inr x"
  shows "f ts (p @ e) n h = Inr x"
proof (cases "n \<le> length p")
  case True
  then have "f ts (p @ e) n h = f ts (take n p) n h"
    using string_prefix [OF assms(1), of n "p @ e"] by simp
  then show ?thesis using string_prefix [OF assms(1) True] assms(2) by simp
next
  case False
  then show ?thesis using string_unread [OF assms(1) _ assms(2)] by simp
qed

lemma line_append:
  assumes "line_outcome sd fn t ts s h = Inr out" "out \<noteq> Wait"
  shows "line_outcome sd fn t ts (s @ e) h = Inr out"
proof -
  obtain k where k: "find_crlf s = Some k" using assms by (auto simp: line_outcome_def split: option.splits)
  have len: "k + 2 \<le> length s" using k by (rule find_crlf_length)
  then have eqs: "take k (s @ e) = take k s" "hd (s @ e) = hd s" by (auto simp: hd_append)
  have "line_object sd fn t ts (s @ e) k h = Inr x" if x: "line_object sd fn t ts s k h = Inr x" for x
  proof (cases "t \<in> {REPLY_INTEGER, REPLY_DOUBLE, REPLY_NIL, REPLY_BOOL}")
    case True
    then have "line_object sd fn t ts (s @ e) k h = line_object sd fn t ts s k h"
      by (simp only: line_object_def eqs) auto
    then show ?thesis using x by simp
  next
    case False
    then show ?thesis using x string_append
      by (auto simp: line_object_def bind_result_Inr_iff split: option.splits)
  qed
  then show ?thesis
    using assms find_crlf_append [OF k, of e] k by (auto simp: line_outcome_def bind_result_Inr_iff)
qed

lemma bulk_append:
  assumes "bulk_outcome fn ts s h = Inr out" "out \<noteq> Wait"
  shows "bulk_outcome fn ts (s @ e) h = Inr out"
proof -
  obtain k where k: "find_crlf s = Some k" using assms by (auto simp: bulk_outcome_def split: option.splits)
  have len: "k + 2 \<le> length s" using k by (rule find_crlf_length)
  then have eqs: "take k (s @ e) = take k s" "drop (k + 2) (s @ e) = drop (k + 2) s @ e" by auto
  note k' = find_crlf_append [OF k, of e]
  show ?thesis
  proof (cases "string2ll (take k s)")
    case None
    then show ?thesis using assms by (simp add: bulk_outcome_def k k' eqs(1) del: take_append)
  next
    case l: (Some l)
    define bytelen where "bytelen = unat (of_nat (k + 2) + word_of_int (l + 2) :: u32)"
    consider "l < -1" | "l = -1" | "LLONG_MAX < int (k + 2) + (l + 2)" "0 \<le> l" | "\<not> LLONG_MAX < int (k + 2) + (l + 2)" "0 \<le> l" by linarith
    then show ?thesis
    proof cases
      case 4
      have form: "bulk_outcome fn ts s' h =
          (if bytelen \<le> length s' then
             bind_result
               (case createString fn of
                  None \<Rightarrow> Inr (Some (Code REPLY_STRING), h)
                | Some f \<Rightarrow> f ts (drop (k + 2) s') (nat l) h) (\<lambda>(obj, h'). Inr (built bytelen obj h'))
           else Inr Wait)" if "find_crlf s' = Some k" "take k s' = take k s" for s'
        using 4 by (simp only: bulk_outcome_def that l Let_def option.case flip: bytelen_def) simp
      have "bytelen \<le> length s" using form [OF k refl] assms by (auto split: if_splits)
      then obtain obj h' where out: "out = built bytelen obj h'"
        and c: "(case createString fn of None \<Rightarrow> Inr (Some (Code REPLY_STRING), h)
                 | Some f \<Rightarrow> f ts (drop (k + 2) s) (nat l) h) = Inr (obj, h')"
        using assms(1) by (auto simp: form [OF k refl] bind_result_Inr_iff)
      have "(case createString fn of None \<Rightarrow> Inr (Some (Code REPLY_STRING), h)
              | Some f \<Rightarrow> f ts (drop (k + 2) (s @ e)) (nat l) h) = Inr (obj, h')"
        unfolding eqs(2) using c string_append by (auto split: option.splits)
      then show ?thesis using \<open>bytelen \<le> length s\<close> by (simp add: form [OF k' eqs(1)] out del: drop_append)
    qed (use assms in \<open>auto simp: bulk_outcome_def k k' eqs(1) l simp del: take_append\<close>)
  qed
qed

lemma aggregate_append:
  assumes "aggregate_outcome fn t ts s h = Inr out" "out \<noteq> Wait"
  shows "aggregate_outcome fn t ts (s @ e) h = Inr out"
proof (cases "find_crlf s")
  case None
  then show ?thesis using assms by (auto simp: aggregate_outcome_def split: if_splits)
next
  case k: (Some k)
  have "take k (s @ e) = take k s" using find_crlf_length [OF k] by simp
  then show ?thesis
    using assms(1) find_crlf_append [OF k, of e] by (simp only: aggregate_outcome_def k option.case)
qed

lemma typed_append:
  assumes "typed_outcome sd fn t ts s h = Inr out" "out \<noteq> Wait"
  shows "typed_outcome sd fn t ts (s @ e) h = Inr out"
  using assms line_append [of sd t ts s h out e] bulk_append [of ts s h out e] aggregate_append [of t ts s h out e]
  by (auto simp: typed_outcome_def split: if_splits)

end

text \<open>The bytes that an item takes are there.\<close>

lemma line_item_Done:
  "(case x of Inl msg \<Rightarrow> Fail ERR_PROTOCOL msg h | Inr (obj, h') \<Rightarrow> built n obj h') = Done ob m h2 \<Longrightarrow> m = n"
  by (cases x) (auto simp: built_def split: option.splits)

lemma line_item_Push:
  "(case x of Inl msg \<Rightarrow> Fail ERR_PROTOCOL msg h | Inr (obj, h') \<Rightarrow> built n obj h') \<noteq> Push ob els m h2"
  by (cases x) (auto simp: built_def split: option.splits)

lemma line_consumed:
  assumes "line_outcome sd fn t ts s h = Inr (Done ob n h')"
  shows "n \<le> length s"
  using assms find_crlf_length [of s]
  by (auto simp: line_outcome_def bind_result_Inr_iff simp del: add_2_eq_Suc' dest!: line_item_Done split: option.splits)

lemma bulk_consumed:
  assumes "bulk_outcome fn ts s h = Inr (Done ob n h')"
  shows "n \<le> length s"
proof -
  have "n = k + 2 \<Longrightarrow> find_crlf s = Some k \<Longrightarrow> n \<le> length s" for k
    using find_crlf_length [of s] by simp
  then show ?thesis using assms
    by (auto simp: bulk_outcome_def bind_result_Inr_iff built_def Let_def split: option.splits if_splits)
qed

lemma aggregate_consumed:
  assumes "aggregate_outcome fn t ts s h = Inr out" "out = Done ob n h' \<or> out = Push ob els n h'"
  shows "n \<le> length s"
  using assms find_crlf_length [of s]
  by (auto simp: aggregate_outcome_def bind_result_Inr_iff built_def Let_def split: option.splits if_splits)

lemma typed_consumed:
  assumes "typed_outcome sd fn t ts s h = Inr out" "out = Done ob n h' \<or> out = Push ob els n h'"
  shows "n \<le> length s"
proof (cases "t \<in> {REPLY_ARRAY, REPLY_MAP, REPLY_SET}")
  case True
  then show ?thesis using assms by (auto simp: typed_outcome_def intro: aggregate_consumed)
next
  case False
  have "\<not> (\<exists>ob n h'. out = Push ob els n h')"
    using False assms(1)
    by (auto simp: typed_outcome_def bulk_outcome_def line_outcome_def bind_result_Inr_iff built_def Let_def
        line_item_Push split: option.splits if_splits)
  then show ?thesis
    using False assms by (auto simp: typed_outcome_def intro: line_consumed bulk_consumed split: if_splits)
qed

context object_builder
begin

lemma stream_typed_append:
  assumes "stream_typed sd fn t ts reply s h = Inr (ok, v, h')"
  shows "ok \<or> (\<exists>e m r. v = Failed e m r) \<Longrightarrow>
      stream_typed sd fn t ts reply (s @ e) h = Inr (ok, view_more v e, h')"
    and "\<not> ok \<Longrightarrow> v = Pending ts' reply' s' \<Longrightarrow> ts' = ts \<and> reply' = reply \<and> s' = s \<and> h' = h"
proof -
  obtain out where out: "typed_outcome sd fn t ts s h = Inr out"
    and ap: "apply_outcome fn ts reply s h out = Inr (ok, v, h')"
    using assms by (auto simp: stream_typed_def bind_result_Inr_iff)
  show "\<not> ok \<Longrightarrow> v = Pending ts' reply' s' \<Longrightarrow> ts' = ts \<and> reply' = reply \<and> s' = s \<and> h' = h"
    using ap by (cases out) (auto simp: stream_fail_def bind_result_Inr_iff)
  assume a: "ok \<or> (\<exists>e m r. v = Failed e m r)"
  then have "out \<noteq> Wait" using ap by auto
  then have "stream_typed sd fn t ts reply (s @ e) h = apply_outcome fn ts reply (s @ e) h out"
    using typed_append [OF out] by (simp add: stream_typed_def)
  also have "\<dots> = Inr (ok, view_more v e, h')"
  proof (cases out)
    case (Fail err m h1)
    then show ?thesis using ap by (auto simp: stream_fail_def bind_result_Inr_iff)
  next
    case (Done ob n h1)
    then show ?thesis using ap typed_consumed [OF out] by (auto simp: bind_result_Inr_iff)
  next
    case (Push ob els n h1)
    then show ?thesis using ap typed_consumed [OF out] by auto
  qed (use \<open>out \<noteq> Wait\<close> in simp)
  finally show "stream_typed sd fn t ts reply (s @ e) h = Inr (ok, view_more v e, h')" .
qed

lemma stream_step_append:
  assumes "stream_step sd fn ts reply s h = Inr (ok, v, h')"
  shows "ok \<or> (\<exists>e m r. v = Failed e m r) \<Longrightarrow>
      stream_step sd fn ts reply (s @ e) h = Inr (ok, view_more v e, h')"
    and "\<not> ok \<Longrightarrow> v = Pending ts' reply' s' \<Longrightarrow>
      h' = h \<and> stream_step sd fn ts reply (s @ e) h = stream_step sd fn ts' reply' (s' @ e) h"
proof -
  obtain cur us where ts: "ts = cur # us" using assms by (cases ts) (auto simp: stream_step_def)
  note a = stream_typed_append(1) [where e = e] stream_typed_append(2)
  have "(ok \<or> (\<exists>e m r. v = Failed e m r) \<longrightarrow>
      stream_step sd fn ts reply (s @ e) h = Inr (ok, view_more v e, h')) \<and>
    (\<not> ok \<longrightarrow> v = Pending ts' reply' s' \<longrightarrow>
      h' = h \<and> stream_step sd fn ts reply (s @ e) h = stream_step sd fn ts' reply' (s' @ e) h)"
  proof (cases "task_type cur")
    case (Some t)
    then have "stream_typed sd fn t ts reply s h = Inr (ok, v, h')" using assms by (simp add: stream_step_def ts)
    then show ?thesis using a [of sd t ts reply s h ok v h'] Some by (auto simp: stream_step_def ts)
  next
    case None
    show ?thesis
    proof (cases s)
      case Nil
      then show ?thesis using assms None by (auto simp: stream_step_def ts)
    next
      case (Cons b s1)
      show ?thesis
      proof (cases "type_of_byte b")
        case tn: None
        then show ?thesis using assms None Cons
          by (auto simp: stream_step_def ts stream_fail_def bind_result_Inr_iff)
      next
        case (Some t)
        let ?us = "cur\<lparr>task_type := Some t\<rparr> # us"
        have "stream_typed sd fn t ?us reply s1 h = Inr (ok, v, h')"
          using assms None Cons Some by (simp add: stream_step_def ts)
        then show ?thesis using a [of sd t ?us reply s1 h ok v h'] None Cons Some by (auto simp: stream_step_def ts)
      qed
    qed
  qed
  then show "ok \<or> (\<exists>e m r. v = Failed e m r) \<Longrightarrow>
      stream_step sd fn ts reply (s @ e) h = Inr (ok, view_more v e, h')"
    and "\<not> ok \<Longrightarrow> v = Pending ts' reply' s' \<Longrightarrow>
      h' = h \<and> stream_step sd fn ts reply (s @ e) h = stream_step sd fn ts' reply' (s' @ e) h" by blast+
qed

lemma stream_run_append:
  assumes "stream_run sd fn ts reply s h = Inr (os, v, h')"
  shows "stream_run sd fn ts reply (s @ e) h = prepend os (resume sd fn (view_more v e) h')"
  using assms
proof (induction "step_measure ts s" arbitrary: ts reply s h os v h' rule: less_induct)
  case less
  obtain ok w h1 where step: "stream_step sd fn ts reply s h = Inr (ok, w, h1)"
    using less(2) by (subst (asm) stream_run.simps) (auto split: sum.splits prod.splits)
  show ?case
  proof (cases ok)
    case False
    then have v: "os = [] \<and> v = w \<and> h' = h1"
      using less(2) step by (subst (asm) stream_run.simps) auto
    show ?thesis
    proof (cases w)
      case (Pending ts1 reply1 s1)
      note a = stream_step_append(2) [OF step False Pending, of e]
      then have "stream_run sd fn ts reply (s @ e) h = stream_run sd fn ts1 reply1 (s1 @ e) h1"
        by (subst (1 2) stream_run.simps) simp
      then show ?thesis using v Pending by simp
    next
      case (Failed err m r)
      then have "stream_step sd fn ts reply (s @ e) h = Inr (ok, w, h1)"
        using stream_step_append(1) [OF step] by simp
      then show ?thesis using v Failed False by (subst stream_run.simps) simp
    qed
  next
    case True
    then obtain ts1 reply1 s1 where w: "w = Pending ts1 reply1 s1"
      and dec: "step_measure ts1 s1 < step_measure ts s" "untyped ts1"
      using step by (auto elim: stream_step_True)
    have step': "stream_step sd fn ts reply (s @ e) h = Inr (True, Pending ts1 reply1 (s1 @ e), h1)"
      using stream_step_append(1) [OF step] True w by simp
    show ?thesis
    proof (cases "ts1 = []")
      case empty: True
      then have dec': "step_measure [new_task (-1)] s1 < step_measure ts s"
        using dec by (simp add: step_measure_def new_task_def)
      obtain os1 where "stream_run sd fn [new_task (-1)] None s1 h1 = Inr (os1, v, h')" "os = the reply1 # os1"
        using less(2) step w True empty by (subst (asm) stream_run.simps) (auto simp: bind_result_Inr_iff)
      then show ?thesis
        using less(1) [OF dec'] step' w True empty
        by (subst stream_run.simps) (auto simp: prepend_def bind_result_assoc intro!: bind_result_cong)
    next
      case nonempty: False
      then have "stream_run sd fn ts1 reply1 s1 h1 = Inr (os, v, h')"
        using less(2) step w True by (subst (asm) stream_run.simps) simp
      then show ?thesis
        using less(1) [OF dec(1)] step' w True nonempty by (subst stream_run.simps) simp
    qed
  qed
qed

text \<open>Fewer bytes: a step that works on the whole stream works on a part of it, or waits.\<close>

lemma string_part:
  assumes "createString fn = Some f" "n \<le> length p"
  shows "f ts (p @ e) n h = f ts p n h"
  using string_prefix [OF assms(1), of n "p @ e"] string_prefix [OF assms] assms(2) by simp

lemma line_back:
  assumes "line_outcome sd fn t ts (s @ e) h = Inr out"
  shows "\<exists>out. line_outcome sd fn t ts s h = Inr out"
proof (cases "find_crlf s")
  case None
  then show ?thesis by (simp add: line_outcome_def)
next
  case (Some k)
  have len: "k \<le> length s" "k + 2 \<le> length s" using find_crlf_length [OF Some] by simp_all
  then have eqs: "take k (s @ e) = take k s" "hd (s @ e) = hd s" by (auto simp: hd_append)
  have "line_object sd fn t ts (s @ e) k h = line_object sd fn t ts s k h"
  proof (cases "createString fn")
    case None
    then show ?thesis unfolding line_object_def eqs by simp
  next
    case (Some f)
    show ?thesis unfolding line_object_def eqs Some option.case string_part [OF Some len(1)] ..
  qed
  then show ?thesis
    using assms find_crlf_append [OF Some, of e] by (auto simp: line_outcome_def Some bind_result_Inr_iff)
qed

lemma bulk_back:
  assumes "bulk_outcome fn ts (s @ e) h = Inr out" "length (s @ e) < 2147483648"
  shows "\<exists>out. bulk_outcome fn ts s h = Inr out"
proof (cases "find_crlf s")
  case None
  then show ?thesis by (simp add: bulk_outcome_def)
next
  case k: (Some k)
  have len: "k + 2 \<le> length s" using k by (rule find_crlf_length)
  then have eqs: "take k (s @ e) = take k s" "drop (k + 2) (s @ e) = drop (k + 2) s @ e" by auto
  note k' = find_crlf_append [OF k, of e]
  show ?thesis
  proof (cases "string2ll (take k s)")
    case None
    then show ?thesis by (simp add: bulk_outcome_def k)
  next
    case l: (Some l)
    define bytelen where "bytelen = unat (of_nat (k + 2) + word_of_int (l + 2) :: u32)"
    consider "l < -1" | "l = -1" | "LLONG_MAX < int (k + 2) + (l + 2)" "0 \<le> l" | "\<not> LLONG_MAX < int (k + 2) + (l + 2)" "0 \<le> l" by linarith
    then show ?thesis
    proof cases
      case 4
      have form: "bulk_outcome fn ts s' h =
          (if bytelen \<le> length s' then
             bind_result
               (case createString fn of
                  None \<Rightarrow> Inr (Some (Code REPLY_STRING), h)
                | Some f \<Rightarrow> f ts (drop (k + 2) s') (nat l) h) (\<lambda>(obj, h'). Inr (built bytelen obj h'))
           else Inr Wait)" if "find_crlf s' = Some k" "take k s' = take k s" for s'
        using 4 by (simp only: bulk_outcome_def that l Let_def option.case flip: bytelen_def) simp
      show ?thesis
      proof (cases "bytelen \<le> length s")
        case False
        then show ?thesis by (simp add: form [OF k refl])
      next
        case True
        then obtain x where x: "(case createString fn of
            None \<Rightarrow> Inr (Some (Code REPLY_STRING), h)
          | Some f \<Rightarrow> f ts (drop (k + 2) s @ e) (nat l) h) = Inr x"
          using assms(1) unfolding form [OF k' eqs(1)] eqs(2) by (auto simp: bind_result_Inr_iff)
        have "\<exists>x. (case createString fn of
            None \<Rightarrow> Inr (Some (Code REPLY_STRING), h)
          | Some f \<Rightarrow> f ts (drop (k + 2) s) (nat l) h) = Inr x"
        proof (cases "createString fn")
          case (Some f)
          show ?thesis
          proof (cases "nat l \<le> length (drop (k + 2) s)")
            case fits: True
            then show ?thesis using x Some string_part [OF Some fits] by simp
          next
            case short: False
            have "length (drop (k + 2) s @ e) < nat l"
            proof (rule ccontr)
              assume "\<not> length (drop (k + 2) s @ e) < nat l"
              then have small: "k + 2 + nat l \<le> length (s @ e)" using len by simp
              have "word_of_int (l + 2) = (of_nat (nat l + 2) :: u32)" using 4(2) by simp
              then have "bytelen = unat (of_nat ((k + 2) + (nat l + 2)) :: u32)"
                unfolding bytelen_def by (simp only: of_nat_add)
              also have "\<dots> = (k + 2) + (nat l + 2)"
                by (rule unat_of_nat_u32) (use small assms(2) in simp)
              finally have "bytelen = (k + 2) + (nat l + 2)" .
              then show False using True short len by simp
            qed
            then have "f ts (drop (k + 2) s) (nat l) h = Inr x"
              using string_unread [OF Some, of "drop (k + 2) s @ e" "nat l" ts h x "drop (k + 2) s"] x Some by simp
            then show ?thesis using Some by simp
          qed
        qed simp
        then show ?thesis using True by (auto simp: form [OF k refl])
      qed
    qed (use assms(1) in \<open>auto simp: bulk_outcome_def k k' eqs(1) l bind_result_Inr_iff simp del: take_append\<close>)
  qed
qed

lemma aggregate_back:
  assumes "aggregate_outcome fn t ts (s @ e) h = Inr out"
  shows "\<exists>out. aggregate_outcome fn t ts s h = Inr out"
proof (cases "find_crlf s")
  case None
  then show ?thesis by (simp add: aggregate_outcome_def)
next
  case k: (Some k)
  have "take k (s @ e) = take k s" using find_crlf_length [OF k] by simp
  then have "aggregate_outcome fn t ts (s @ e) h = aggregate_outcome fn t ts s h"
    using find_crlf_append [OF k, of e] by (simp only: aggregate_outcome_def k option.case)
  then show ?thesis using assms by metis
qed

lemma stream_typed_back:
  assumes "stream_typed sd fn t ts reply (s @ e) h = Inr y" "length (s @ e) < 2147483648"
  shows "\<exists>y. stream_typed sd fn t ts reply s h = Inr y"
proof -
  obtain out where out: "typed_outcome sd fn t ts (s @ e) h = Inr out"
    and ap: "apply_outcome fn ts reply (s @ e) h out = Inr y"
    using assms(1) by (auto simp: stream_typed_def bind_result_Inr_iff)
  obtain out' where out': "typed_outcome sd fn t ts s h = Inr out'"
    using out line_back [of sd t ts s e h out] bulk_back [OF _ assms(2), of ts h out] aggregate_back [of t ts s e h out]
    unfolding typed_outcome_def by (auto split: if_splits)
  show ?thesis
  proof (cases "out' = Wait")
    case False
    then have "out' = out" using typed_append [OF out' False, of e] out by simp
    then have "\<exists>y. apply_outcome fn ts reply s h out' = Inr y"
      using ap by (cases out; cases y) (auto simp: bind_result_Inr_iff)
    then show ?thesis using out' by (simp add: stream_typed_def)
  qed (auto simp: stream_typed_def out')
qed

lemma stream_step_back:
  assumes "stream_step sd fn ts reply (s @ e) h = Inr y" "length (s @ e) < 2147483648"
  shows "\<exists>y. stream_step sd fn ts reply s h = Inr y"
proof -
  obtain cur us where ts: "ts = cur # us" using assms by (cases ts) (auto simp: stream_step_def)
  show ?thesis
  proof (cases "task_type cur")
    case (Some t)
    then show ?thesis using assms stream_typed_back [of sd t ts reply s e h y] by (simp add: stream_step_def ts)
  next
    case None
    show ?thesis
    proof (cases s)
      case Nil
      then show ?thesis using None by (auto simp: stream_step_def ts)
    next
      case (Cons b s1)
      then show ?thesis
        using assms None stream_typed_back [of sd _ "cur\<lparr>task_type := Some t\<rparr> # us" reply s1 e h y for t]
        by (cases "type_of_byte b") (fastforce simp: stream_step_def ts)+
    qed
  qed
qed

lemma stream_run_back:
  assumes "stream_run sd fn ts reply (s @ e) h = Inr z" "length (s @ e) < 2147483648"
  shows "\<exists>z. stream_run sd fn ts reply s h = Inr z"
  using assms
proof (induction "step_measure ts s" arbitrary: ts reply s h z rule: less_induct)
  case less
  obtain y where "stream_step sd fn ts reply (s @ e) h = Inr y"
    using less(2) by (subst (asm) stream_run.simps) (auto split: sum.splits)
  then obtain ok w h1 where step: "stream_step sd fn ts reply s h = Inr (ok, w, h1)"
    using stream_step_back less(3) by (metis prod_cases3)
  show ?case
  proof (cases ok)
    case False
    then show ?thesis using step by (subst stream_run.simps) simp
  next
    case True
    obtain ts1 reply1 n where w: "w = Pending ts1 reply1 (drop n s)"
      and dec: "step_measure ts1 (drop n s) < step_measure ts s" "untyped ts1"
      using step True by (auto elim: stream_step_True)
    have step': "stream_step sd fn ts reply (s @ e) h = Inr (True, Pending ts1 reply1 (drop n s @ e), h1)"
      using stream_step_append(1) [OF step] True w by simp
    have len: "length (drop n s @ e) < 2147483648" using less(3) by simp
    show ?thesis
    proof (cases "ts1 = []")
      case nil: True
      have "step_measure [new_task (-1)] (drop n s) < step_measure ts s"
        using dec by (simp add: step_measure_untyped) (simp add: step_measure_def new_task_def)
      moreover obtain z1 where "stream_run sd fn [new_task (-1)] None (drop n s @ e) h1 = Inr z1"
        using less(2) step' nil by (subst (asm) stream_run.simps) (auto simp: bind_result_Inr_iff simp del: drop_append)
      ultimately obtain z2 where "stream_run sd fn [new_task (-1)] None (drop n s) h1 = Inr z2"
        using less(1) len by blast
      then show ?thesis using step w True nil by (subst stream_run.simps) (simp split: prod.split)
    next
      case ne: False
      then have "stream_run sd fn ts1 reply1 (drop n s @ e) h1 = Inr z"
        using less(2) step' by (subst (asm) stream_run.simps) simp
      then obtain z2 where "stream_run sd fn ts1 reply1 (drop n s) h1 = Inr z2"
        using less(1) [OF dec(1)] len by blast
      then show ?thesis using step w True ne by (subst stream_run.simps) (cases z2; simp)
    qed
  qed
qed

end

end
