(* ===== verification/Hiredis_Receive.thy ===== *)
theory Hiredis_Receive
  imports Hiredis_Chunks
begin

text \<open>
  The reader as its client uses it: bytes are fed as the connection delivers them, and after each delivery
  \<open>redisReaderGetReply\<close> is called until it has no reply. The loops end within the fuel that the unread bytes
  give, and the answers are those of the machine of \<^verbatim>\<open>Hiredis_Stream\<close>.
\<close>

section \<open>The invariant between calls\<close>

definition stack_ready :: "'o tasks \<Rightarrow> 'o reply_object option \<Rightarrow> bool" where
  "stack_ready ts reply \<longleftrightarrow>
     (ts = [] \<longrightarrow> reply = None) \<and> (2 \<le> length ts \<longrightarrow> reply \<noteq> None) \<and>
     (ts \<noteq> [] \<and> is_aggregate (task_type (hd ts)) \<longrightarrow> length ts \<noteq> 9)"

definition reader_ready :: "'o redis_reader \<Rightarrow> bool" where
  "reader_ready r \<longleftrightarrow> reader_wf r \<and> (rd_err r = None \<longrightarrow> stack_ready (rd_tasks r) (rd_reply r) \<and> rd_pos r < 1024)"

lemma apply_outcome_reply:
  assumes "apply_outcome fn (c # us) reply s h out = Inr (True, Pending ts' reply' s', h')" "us \<noteq> [] \<Longrightarrow> reply \<noteq> None"
  shows "reply' \<noteq> None"
proof (cases out)
  case (Fail e m h1)
  then show ?thesis using assms(1) by (simp add: stream_fail_def bind_result_Inr_iff)
qed (use assms in \<open>auto simp: root_reply_def bind_result_Inr_iff split: if_splits\<close>)

lemma apply_outcome_Wait:
  assumes "apply_outcome fn ts reply s h out = Inr (False, Pending ts' reply' s', h')"
  shows "out = Wait \<and> ts' = ts \<and> reply' = reply \<and> s' = s \<and> h' = h"
  using assms by (cases out) (auto simp: stream_fail_def bind_result_Inr_iff)

lemma typed_outcome_Wait:
  assumes "typed_outcome sd fn t ts s h = Inr Wait" "is_aggregate (Some t)"
  shows "length ts \<noteq> 9"
  using assms by (auto simp: typed_outcome_def is_aggregate_def aggregate_outcome_def)

lemma stack_ready_untyped: "untyped ts \<Longrightarrow> reply \<noteq> None \<Longrightarrow> ts \<noteq> [] \<Longrightarrow> stack_ready ts reply"
  by (auto simp: stack_ready_def untyped_def is_aggregate_def split: list.splits)

lemma stream_step_ready:
  assumes "stream_step sd fn ts reply s h = Inr (ok, Pending ts' reply' s', h')" "stack_ready ts reply"
  shows "length s' \<le> length s \<and> (if ok then reply' \<noteq> None \<and> untyped ts' else stack_ready ts' reply' \<and> ts' \<noteq> [])"
proof -
  obtain cur us where ts: "ts = cur # us" using assms by (cases ts) (auto simp: stream_step_def)
  have typed: "length s' \<le> length s1 \<and> (if ok then reply' \<noteq> None \<and> untyped ts' else stack_ready ts' reply' \<and> ts' \<noteq> [])"
    if st: "stream_typed sd fn t (c # us) reply s1 h = Inr (ok, Pending ts' reply' s', h')"
      and c: "task_type c = Some t" for t c s1
  proof -
    obtain out where out: "typed_outcome sd fn t (c # us) s1 h = Inr out"
      and ap: "apply_outcome fn (c # us) reply s1 h out = Inr (ok, Pending ts' reply' s', h')"
      using st by (auto simp: stream_typed_def bind_result_Inr_iff)
    show ?thesis
    proof (cases ok)
      case True
      have "us \<noteq> [] \<Longrightarrow> reply \<noteq> None" using assms(2) by (cases us) (auto simp: ts stack_ready_def)
      then have "reply' \<noteq> None" using ap True by (simp add: apply_outcome_reply)
      moreover obtain n where "s' = drop n s1" "untyped ts'" using ap True by (auto elim!: apply_outcome_True)
      ultimately show ?thesis using True by simp
    next
      case False
      then have w: "out = Wait \<and> ts' = c # us \<and> reply' = reply \<and> s' = s1"
        using apply_outcome_Wait [of fn "c # us" reply s1 h out ts' reply' s' h'] ap by simp
      then have "is_aggregate (task_type c) \<longrightarrow> length (c # us) \<noteq> 9"
        using typed_outcome_Wait [of sd fn t "c # us" s1 h] out c by auto
      then show ?thesis using False w assms(2) by (auto simp: stack_ready_def ts)
    qed
  qed
  show ?thesis
  proof (cases "task_type cur")
    case (Some t)
    then show ?thesis using typed [of t cur s] assms by (simp add: stream_step_def ts)
  next
    case None
    show ?thesis
    proof (cases s)
      case Nil
      then show ?thesis using assms None by (auto simp: stream_step_def ts)
    next
      case (Cons b s1)
      then show ?thesis
        using assms(1) None typed [of _ "cur\<lparr>task_type := Some t\<rparr>" s1 for t]
        by (fastforce simp: stream_step_def ts stream_fail_def bind_result_Inr_iff split: option.splits)
    qed
  qed
qed

section \<open>A call that waits\<close>

lemma stream_step_empty:
  assumes "stack_ready ts reply" "ts \<noteq> []"
  shows "stream_step sd fn ts reply [] h = Inr (False, Pending ts reply [], h)"
proof -
  obtain cur us where ts: "ts = cur # us" using assms(2) by (cases ts) auto
  show ?thesis
  proof (cases "task_type cur")
    case (Some t)
    then have "typed_outcome sd fn t ts [] h = Inr Wait"
      using assms by (auto simp: typed_outcome_def bulk_outcome_def line_outcome_def aggregate_outcome_def
          stack_ready_def is_aggregate_def ts)
    then show ?thesis using Some by (simp add: stream_step_def ts stream_typed_def)
  qed (simp add: stream_step_def ts)
qed

lemma stream_run_empty:
  assumes "stack_ready ts reply" "ts \<noteq> []"
  shows "stream_run sd fn ts reply [] h = Inr ([], Pending ts reply [], h)"
  using stream_step_empty [OF assms, of sd fn h] by (subst stream_run.simps) simp

section \<open>The loop of a call\<close>

text \<open>
  The loop ends with a whole reply, or it waits or fails and the machine stops there too.
\<close>

fun loop_refines ::
    "strtod \<Rightarrow> ('o, 'h) object_functions \<Rightarrow> ('o reply_object list \<times> 'o view \<times> 'h) result \<Rightarrow> nat \<Rightarrow> nat \<Rightarrow>
      ('o redis_reader \<times> 'h) result \<Rightarrow> bool" where
  "loop_refines sd fn run m n (Inl e) \<longleftrightarrow> run = Inl e"
| "loop_refines sd fn run m n (Inr (r, h)) \<longleftrightarrow>
     reader_wf r \<and>
     (if rd_err r = None \<and> rd_tasks r = []
      then rd_reply r \<noteq> None \<and> length (rest_of r) < m \<and>
        run = prepend [the (rd_reply r)] (stream_run sd fn [new_task (-1)] None (rest_of r) h)
      else run = Inr ([], view_of r, h) \<and>
        (rd_err r = None \<longrightarrow> stack_ready (rd_tasks r) (rd_reply r) \<and> length (rest_of r) \<le> n))"

lemma loop_refines_mono:
  "loop_refines sd fn run m n x \<Longrightarrow> m \<le> m' \<Longrightarrow> n \<le> n' \<Longrightarrow> loop_refines sd fn run m' n' x"
  by (cases x) (auto split: if_splits)

lemma process_loop_refines:
  assumes "reader_wf r" "rd_err r = None" "stack_ready (rd_tasks r) (rd_reply r)" "rd_tasks r \<noteq> []"
    "length (rest_of r) < 2147483648" "step_measure (rd_tasks r) (rest_of r) < fuel"
  shows "\<exists>x. process_loop fuel sd fn r h = Some x \<and>
    loop_refines sd fn (stream_run sd fn (rd_tasks r) (rd_reply r) (rest_of r) h)
      (step_measure (rd_tasks r) (rest_of r)) (length (rest_of r)) x"
  using assms
proof (induction fuel arbitrary: r h)
  case (Suc fuel)
  note ref = processItem_refines [OF Suc.prems(1,2,5), of sd fn h]
  note wf = processItem_wf [OF Suc.prems(1,2,5), of sd fn h]
  let ?ts = "rd_tasks r" and ?reply = "rd_reply r" and ?s = "rest_of r"
  show ?case
  proof (cases "processItem sd fn r h")
    case (Inl e)
    then have "stream_step sd fn ?ts ?reply ?s h = Inl e" using ref by simp
    then have "stream_run sd fn ?ts ?reply ?s h = Inl e" by (subst stream_run.simps) simp
    then show ?thesis using Inl Suc.prems(4) by (simp add: process_loop.simps [of "Suc fuel"])
  next
    case (Inr y)
    obtain ok r1 h1 where y: "y = (ok, r1, h1)" by (cases y) auto
    have step: "stream_step sd fn ?ts ?reply ?s h = Inr (ok, view_of r1, h1)"
      using ref Inr y by (simp split: sum.splits)
    have wf1: "reader_wf r1" "ok \<longrightarrow> rd_err r1 = None" using wf Inr y by simp_all
    show ?thesis
    proof (cases "ok")
      case False
      have run: "stream_run sd fn ?ts ?reply ?s h = Inr ([], view_of r1, h1)"
        using step False by (subst stream_run.simps) simp
      have loop: "process_loop (Suc fuel) sd fn r h = Some (Inr (r1, h1))"
        using Inr y False Suc.prems(4) by (simp add: process_loop.simps [of "Suc fuel"])
      show ?thesis
      proof (cases "rd_err r1")
        case None
        then have v: "view_of r1 = Pending (rd_tasks r1) (rd_reply r1) (rest_of r1)" by (simp add: view_of_def)
        have "length (rest_of r1) \<le> length ?s \<and> stack_ready (rd_tasks r1) (rd_reply r1) \<and> rd_tasks r1 \<noteq> []"
          using stream_step_ready [OF step [unfolded v] Suc.prems(3)] False by simp
        then show ?thesis using loop run wf1 by (auto simp: step_measure_def)
      next
        case (Some e)
        then show ?thesis using loop run wf1 by auto
      qed
    next
      case True
      then have err: "rd_err r1 = None" using wf1 by simp
      then have v: "view_of r1 = Pending (rd_tasks r1) (rd_reply r1) (rest_of r1)" by (simp add: view_of_def)
      have step': "stream_step sd fn ?ts ?reply ?s h = Inr (True, Pending (rd_tasks r1) (rd_reply r1) (rest_of r1), h1)"
        using step v True by simp
      have r1: "length (rest_of r1) \<le> length ?s" "rd_reply r1 \<noteq> None" "untyped (rd_tasks r1)"
        using stream_step_ready [OF step' Suc.prems(3)] by simp_all
      have dec: "step_measure (rd_tasks r1) (rest_of r1) < step_measure ?ts ?s"
        using step' by (auto elim!: stream_step_True)
      have loop: "process_loop (Suc fuel) sd fn r h = process_loop fuel sd fn r1 h1"
        using Inr y True Suc.prems(4) by (simp add: process_loop.simps [of "Suc fuel"])
      show ?thesis
      proof (cases "rd_tasks r1 = []")
        case nil: True
        have "stream_run sd fn ?ts ?reply ?s h =
            prepend [the (rd_reply r1)] (stream_run sd fn [new_task (-1)] None (rest_of r1) h1)"
          using step' nil by (subst stream_run.simps) (simp add: prepend_def)
        moreover have "process_loop fuel sd fn r1 h1 = Some (Inr (r1, h1))"
          using nil by (simp add: process_loop.simps [of fuel])
        moreover have "length (rest_of r1) < step_measure ?ts ?s"
          using dec step_measure_untyped [OF r1(3)] by simp
        ultimately show ?thesis using loop wf1 r1 nil err by simp
      next
        case ne: False
        have run: "stream_run sd fn ?ts ?reply ?s h = stream_run sd fn (rd_tasks r1) (rd_reply r1) (rest_of r1) h1"
          using step' ne by (subst stream_run.simps) simp
        have "\<exists>x. process_loop fuel sd fn r1 h1 = Some x \<and>
            loop_refines sd fn (stream_run sd fn (rd_tasks r1) (rd_reply r1) (rest_of r1) h1)
              (step_measure (rd_tasks r1) (rest_of r1)) (length (rest_of r1)) x"
          using Suc.prems(5,6) dec r1 wf1 err ne stack_ready_untyped [of "rd_tasks r1" "rd_reply r1"] by (intro Suc.IH) auto
        then show ?thesis unfolding loop run using dec r1(1) loop_refines_mono less_imp_le_nat by blast
      qed
    qed
  qed
qed simp

section \<open>A call\<close>

text \<open>An idle reader and one that waits for the first byte of a reply are the same to the client.\<close>

definition norm_tasks :: "'o tasks \<Rightarrow> 'o tasks" where
  "norm_tasks ts = (if ts = [] then [new_task (-1)] else ts)"

fun norm_view :: "'o view \<Rightarrow> 'o view" where
  "norm_view (Pending ts reply s) = Pending (norm_tasks ts) reply s"
| "norm_view (Failed e m reply) = Failed e m reply"

abbreviation nview :: "'o redis_reader \<Rightarrow> 'o view" where "nview r \<equiv> norm_view (view_of r)"

definition pending_measure :: "'o redis_reader \<Rightarrow> nat" where
  "pending_measure r = step_measure (norm_tasks (rd_tasks r)) (rest_of r)"

definition unread :: "'o redis_reader \<Rightarrow> nat" where
  "unread r = (if rd_err r = None then length (rest_of r) else 0)"

lemma stack_ready_norm: "stack_ready ts reply \<Longrightarrow> stack_ready (norm_tasks ts) reply"
  by (auto simp: stack_ready_def norm_tasks_def is_aggregate_def new_task_def)

lemma stack_ready_Nil [simp]: "stack_ready [] None"
  by (simp add: stack_ready_def)

lemma sub_range_rest: "n \<le> length xs \<Longrightarrow> sub_range (int n) (-1) xs = drop n xs"
  by (cases "xs = []") (auto simp: sub_range_def Let_def Suc_leI)

lemma discard_consumed_props:
  assumes "reader_wf r" "rd_err r = None"
  obtains r' where "discard_consumed r = Inr r'" "reader_wf r'" "rest_of r' = rest_of r" "rd_err r' = None"
    "rd_tasks r' = rd_tasks r" "rd_reply r' = rd_reply r" "rd_pos r' < 1024"
proof (cases "1024 \<le> rd_pos r")
  case True
  obtain s where s: "rd_buf r = Some s" "sds_ok s" "rd_len r = length (sds_val s)" "rd_pos r \<le> rd_len r" "rd_len r < 2147483648"
    using assms by (auto simp: reader_wf_def split: option.splits)
  obtain s' where s': "sdsrange (int (rd_pos r)) (-1) s = Inr s'" "sds_ok s'" "sds_val s' = drop (rd_pos r) (sds_val s)"
    using sdsrange_ok [OF s(2), of "int (rd_pos r)" "-1"] s(3,4) by (auto simp: sub_range_rest)
  have i: "sint (of_nat (rd_pos r) :: int32) = int (rd_pos r)" using s(4,5) by (intro sint_of_nat_small) simp
  have "discard_consumed r = Inr (r\<lparr>rd_buf := Some s', rd_pos := 0, rd_len := sdslen s'\<rparr>)"
    unfolding discard_consumed_def i using True s s' by simp
  then show thesis
    by (rule that) (use s s' assms(2) length_sds_val [OF s'(2)] in \<open>auto simp: reader_wf_def rest_of_def\<close>)
next
  case False
  then show thesis using that [of r] assms by (simp add: discard_consumed_def)
qed

fun call_refines ::
    "strtod \<Rightarrow> ('o, 'h) object_functions \<Rightarrow> ('o reply_object list \<times> 'o view \<times> 'h) result \<Rightarrow> nat \<Rightarrow> nat \<Rightarrow>
      (bool \<times> 'o reply_object option \<times> 'o redis_reader \<times> 'h) result \<Rightarrow> bool" where
  "call_refines sd fn run m n (Inl e) \<longleftrightarrow> run = Inl e"
| "call_refines sd fn run m n (Inr (ok, reply, r, h)) \<longleftrightarrow>
     reader_ready r \<and>
     (case reply of
        Some ob \<Rightarrow> ok \<and> rd_err r = None \<and> unread r < m \<and> run = prepend [ob] (resume sd fn (nview r) h) \<and>
          rd_tasks r = []
      | None \<Rightarrow> run = Inr ([], nview r, h) \<and> unread r \<le> n)"

lemma redisReaderGetReply_refines:
  assumes "reader_ready r" "unread r < 2147483648" "unread r + 1 < fuel"
  shows "\<exists>x. redisReaderGetReply fuel sd fn True r h = Some x \<and>
    call_refines sd fn (resume sd fn (nview r) h) (pending_measure r) (unread r) x"
proof (cases "rd_err r")
  case (Some e)
  then show ?thesis using assms(1) by (simp add: redisReaderGetReply_def view_of_def)
next
  case None
  have wf: "reader_wf r" and sr: "stack_ready (rd_tasks r) (rd_reply r)"
    using assms(1) None by (simp_all add: reader_ready_def)
  have view: "view_of r = Pending (rd_tasks r) (rd_reply r) (rest_of r)" using None by (simp add: view_of_def)
  have un: "unread r = length (rest_of r)" using None by (simp add: unread_def)
  note srn = stack_ready_norm [OF sr]
  show ?thesis
  proof (cases "rd_len r = 0")
    case True
    then have "rest_of r = []" using wf None by (simp add: reader_wf_def rest_of_def split: option.splits)
    then show ?thesis using True None assms(1) stream_run_empty [OF srn, of sd fn h]
      by (simp add: redisReaderGetReply_def view norm_tasks_def)
  next
    case False
    let ?r = "if rd_tasks r = [] then r\<lparr>rd_tasks := [new_task (-1)]\<rparr> else r"
    have r': "reader_wf ?r" "rd_err ?r = None" "rd_tasks ?r = norm_tasks (rd_tasks r)" "rd_reply ?r = rd_reply r"
      "rest_of ?r = rest_of r"
      using wf None by (simp_all add: norm_tasks_def)
    have m: "step_measure (norm_tasks (rd_tasks r)) (rest_of r) \<le> length (rest_of r) + 1"
      by (auto simp: step_measure_def split: list.split)
    obtain x where loop: "process_loop fuel sd fn ?r h = Some x"
      and lr: "loop_refines sd fn (stream_run sd fn (norm_tasks (rd_tasks r)) (rd_reply r) (rest_of r) h)
        (pending_measure r) (length (rest_of r)) x"
    proof -
      have "\<exists>x. process_loop fuel sd fn ?r h = Some x \<and>
          loop_refines sd fn (stream_run sd fn (rd_tasks ?r) (rd_reply ?r) (rest_of ?r) h)
            (step_measure (rd_tasks ?r) (rest_of ?r)) (length (rest_of ?r)) x"
        by (rule process_loop_refines [OF r'(1,2)])
          (use srn assms(2,3) m in \<open>simp_all only: r' un\<close>, auto simp: norm_tasks_def)
      then show thesis using that unfolding r' pending_measure_def by blast
    qed
    have call: "redisReaderGetReply fuel sd fn True r h = (case Some x of
        None \<Rightarrow> None
      | Some (Inl e) \<Rightarrow> Some (Inl e)
      | Some (Inr (r1, h1)) \<Rightarrow>
          if rd_err r1 \<noteq> None then Some (Inr (False, None, r1, h1))
          else
            (case discard_consumed r1 of
               Inl e \<Rightarrow> Some (Inl e)
             | Inr r2 \<Rightarrow>
                 if rd_tasks r2 \<noteq> [] then Some (Inr (True, None, r2, h1))
                 else Some (Inr (True, rd_reply r2, r2\<lparr>rd_reply := None\<rparr>, h1))))"
      using None False loop by (cases x) (auto simp: redisReaderGetReply_def split: sum.split)
    have run: "resume sd fn (nview r) h = stream_run sd fn (norm_tasks (rd_tasks r)) (rd_reply r) (rest_of r) h"
      by (simp add: view)
    show ?thesis
    proof (cases x)
      case (Inl e)
      then show ?thesis using lr call run by simp
    next
      case (Inr y)
      obtain r1 h1 where y: "y = (r1, h1)" by (cases y) auto
      have wf1: "reader_wf r1" using lr Inr y by simp
      show ?thesis
      proof (cases "rd_err r1")
        case (Some e)
        then show ?thesis using lr call run Inr y
          by (simp add: reader_ready_def unread_def view_of_def)
      next
        case err: None
        obtain rD where d: "discard_consumed r1 = Inr rD" "reader_wf rD" "rest_of rD = rest_of r1" "rd_err rD = None"
          "rd_tasks rD = rd_tasks r1" "rd_reply rD = rd_reply r1" "rd_pos rD < 1024"
          using discard_consumed_props [OF wf1 err] by blast
        have dv: "view_of rD = Pending (rd_tasks r1) (rd_reply r1) (rest_of r1)"
          by (simp add: view_of_def d)
        show ?thesis
        proof (cases "rd_tasks r1 = []")
          case True
          let ?r2 = "rD\<lparr>rd_reply := None\<rparr>"
          have "nview ?r2 = Pending [new_task (-1)] None (rest_of r1)"
            using d True by (simp add: view_of_def norm_tasks_def)
          then have "call_refines sd fn (resume sd fn (nview r) h) (pending_measure r) (unread r) (Inr (True, rd_reply r1, ?r2, h1))"
            using lr Inr y err True d run by (auto simp: reader_ready_def unread_def un)
          then show ?thesis using call Inr y err d True by (simp add: Let_def)
        next
          case ne: False
          have rr: "reader_ready rD" "unread rD = length (rest_of r1)"
            using lr Inr y err ne d by (simp_all add: reader_ready_def unread_def)
          have "call_refines sd fn (resume sd fn (nview r) h) (pending_measure r) (unread r) (Inr (True, None, rD, h1))"
            using lr Inr y err ne rr run dv by (simp add: un view_of_def norm_tasks_def)
          then show ?thesis using call Inr y err d ne by (simp add: Let_def)
        qed
      qed
    qed
  qed
qed

section \<open>All the replies, and pieces of input\<close>

text \<open>
  The client: call until there is no reply. The bytes that are left bound the steps of a call and the calls.
\<close>

definition call_fuel :: "'o redis_reader \<Rightarrow> nat" where
  "call_fuel r = rd_len r - rd_pos r + 2"

fun get_replies ::
    "nat \<Rightarrow> strtod \<Rightarrow> ('o, 'h) object_functions \<Rightarrow> 'o redis_reader \<Rightarrow> 'h \<Rightarrow>
      ('o reply_object list \<times> 'o redis_reader \<times> 'h) result option" where
  "get_replies 0 sd fn r h = None"
| "get_replies (Suc n) sd fn r h =
     (case redisReaderGetReply (call_fuel r) sd fn True r h of
        None \<Rightarrow> None
      | Some (Inl e) \<Rightarrow> Some (Inl e)
      | Some (Inr (ok, None, r', h')) \<Rightarrow> Some (Inr ([], r', h'))
      | Some (Inr (ok, Some ob, r', h')) \<Rightarrow>
          map_option (\<lambda>x. bind_result x (\<lambda>(os, r'', h''). Inr (ob # os, r'', h''))) (get_replies n sd fn r' h'))"

text \<open>Each piece comes with what the new memory holds that its call of \<open>redisReaderFeed\<close> gets.\<close>

definition granted :: "(nat \<Rightarrow> bytes) \<Rightarrow> memory" where "granted b = \<lparr>mem_ok = True, mem_bytes = b\<rparr>"

fun receive ::
    "strtod \<Rightarrow> ('o, 'h) object_functions \<Rightarrow> ((nat \<Rightarrow> bytes) \<times> bytes) list \<Rightarrow> 'o redis_reader \<Rightarrow> 'h \<Rightarrow>
      ('o reply_object list \<times> 'o redis_reader \<times> 'h) result option" where
  "receive sd fn [] r h = Some (Inr ([], r, h))"
| "receive sd fn ((junk, data) # ps) r h =
     (case redisReaderFeed (granted junk) (granted junk) fn data r h of
        Inl e \<Rightarrow> Some (Inl e)
      | Inr (ok, r1, h1) \<Rightarrow>
          (case get_replies (call_fuel r1) sd fn r1 h1 of
             None \<Rightarrow> None
           | Some (Inl e) \<Rightarrow> Some (Inl e)
           | Some (Inr (os, r2, h2)) \<Rightarrow>
               map_option (\<lambda>x. bind_result x (\<lambda>(os', r', h'). Inr (os @ os', r', h'))) (receive sd fn ps r2 h2)))"

fun run_refines ::
    "('o reply_object list \<times> 'o view \<times> 'h) result \<Rightarrow> nat \<Rightarrow> ('o reply_object list \<times> 'o redis_reader \<times> 'h) result \<Rightarrow> bool" where
  "run_refines run n (Inl e) \<longleftrightarrow> run = Inl e"
| "run_refines run n (Inr (os, r, h)) \<longleftrightarrow> reader_ready r \<and> unread r \<le> n \<and> run = Inr (os, nview r, h)"

lemma call_fuel_enough: "reader_ready r \<Longrightarrow> unread r + 1 < call_fuel r"
  using reader_wfD(1) [of r] by (auto simp: reader_ready_def call_fuel_def unread_def)

lemma get_replies_refines:
  assumes "reader_ready r" "unread r < 2147483648" "rd_err r = None \<longrightarrow> pending_measure r < n" "0 < n"
  shows "\<exists>x. get_replies n sd fn r h = Some x \<and> run_refines (resume sd fn (nview r) h) (unread r) x"
  using assms
proof (induction n arbitrary: r h)
  case (Suc n)
  obtain x where call: "redisReaderGetReply (call_fuel r) sd fn True r h = Some x"
    and ref: "call_refines sd fn (resume sd fn (nview r) h) (pending_measure r) (unread r) x"
    using redisReaderGetReply_refines [OF Suc.prems(1,2) call_fuel_enough [OF Suc.prems(1)], of sd fn h]
    by blast
  show ?case
  proof (cases x)
    case (Inl e)
    then show ?thesis using call ref by simp
  next
    case (Inr y)
    obtain ok reply r1 h1 where y: "y = (ok, reply, r1, h1)" by (cases y) auto
    show ?thesis
    proof (cases reply)
      case None
      then show ?thesis using call ref Inr y by simp
    next
      case (Some ob)
      have r1: "reader_ready r1" "rd_err r1 = None" "unread r1 < pending_measure r" "rd_tasks r1 = []"
        and run: "resume sd fn (nview r) h = prepend [ob] (resume sd fn (nview r1) h1)"
        using ref Inr y Some by simp_all
      have err: "rd_err r = None"
      proof (rule ccontr)
        assume "rd_err r \<noteq> None"
        then show False using call Inr y Some by (auto simp: redisReaderGetReply_def)
      qed
      have pm: "pending_measure r \<le> unread r + 1"
        using err by (auto simp: pending_measure_def unread_def step_measure_def split: list.split)
      have p1: "pending_measure r1 = unread r1"
        using r1 by (simp add: pending_measure_def unread_def norm_tasks_def step_measure_def new_task_def)
      have "\<exists>x. get_replies n sd fn r1 h1 = Some x \<and> run_refines (resume sd fn (nview r1) h1) (unread r1) x"
        using Suc.prems r1 p1 pm err by (intro Suc.IH) auto
      then obtain x1 where x1: "get_replies n sd fn r1 h1 = Some x1"
        "run_refines (resume sd fn (nview r1) h1) (unread r1) x1" by blast
      have "run_refines (resume sd fn (nview r) h) (unread r)
          (bind_result x1 (\<lambda>(os, r'', h''). Inr (ob # os, r'', h'')))"
        using x1(2) run r1(3) pm by (cases x1) (auto simp: prepend_def)
      then show ?thesis using call Inr y Some x1 by simp
    qed
  qed
qed simp

text \<open>The bound leaves room for the kilobyte of consumed bytes that the reader may keep.\<close>

lemma redisReaderFeed_granted:
  assumes "reader_ready r" "unread r + length data < 2147482624" "mem_ok m1" "mem_ok m2"
  shows "\<exists>r'. redisReaderFeed m1 m2 fn data r h = Inr (rd_err r = None, r', h) \<and> reader_ready r' \<and>
    nview r' = view_more (nview r) data \<and> unread r' \<le> unread r + length data"
proof (cases "rd_err r")
  case (Some e)
  then show ?thesis using assms by (auto simp: redisReaderFeed_def view_of_def unread_def)
next
  case None
  obtain s where s: "rd_buf r = Some s" "sds_ok s" "rd_len r = length (sds_val s)" "rd_pos r \<le> rd_len r" "rd_pos r < 1024"
    using assms(1) None by (auto simp: reader_ready_def reader_wf_def split: option.splits)
  show ?thesis
  proof (cases "data = []")
    case True
    then show ?thesis using assms(1) None by (auto simp: redisReaderFeed_def view_of_def)
  next
    case False
    have ready: "stack_ready (rd_tasks r) (rd_reply r)" using assms(1) None by (simp add: reader_ready_def)
    let ?fresh = "rd_len r = 0 \<and> rd_maxbuf r \<noteq> 0 \<and> rd_maxbuf r < sdsavail s"
    obtain s0 where s0: "sdsempty m1 = Inr (Some s0)" "sds_ok s0" "sds_val s0 = []"
      using sdsempty_ok [OF assms(3)] by blast
    define s1 where "s1 = (if ?fresh then s0 else s)"
    define r1 where "r1 = (if ?fresh then r\<lparr>rd_buf := Some s0, rd_pos := 0\<rparr> else r)"
    have s1: "sds_ok s1" "drop (rd_pos r1) (sds_val s1) = drop (rd_pos r) (sds_val s)" "rd_pos r1 \<le> length (sds_val s1)"
        "rd_pos r1 < 1024" "length (sds_val s1) - rd_pos r1 = length (sds_val s) - rd_pos r"
      using s s0 by (auto simp: s1_def r1_def)
    have len: "length (sds_val s1) + length data < 2147483648"
      using assms(2) None s s0 by (auto simp: s1_def unread_def rest_of_def)
    obtain s2 where s2: "sdscatlen m2 data (length data) s1 = Inr (Some s2, Live s2)" "sds_ok s2"
      "sds_val s2 = sds_val s1 @ data"
      using sdscatlen_ok [OF s1(1), of "length data" m2 data] len length_sds_val [OF s1(1)] assms(4)
      by auto
    have "redisReaderFeed m1 m2 fn data r h =
        Inr (True, r1\<lparr>rd_buf := Some s2, rd_len := sdslen s2\<rparr>, h)"
      using s None False s0(1) s2(1) by (auto simp: redisReaderFeed_def s1_def r1_def split: if_splits)
    then show ?thesis
      using s s1 s2 None ready len length_sds_val [OF s2(2)]
      by (auto simp: view_of_def unread_def rest_of_def reader_ready_def reader_wf_def r1_def)
  qed
qed

lemma redisReaderFeed_refines:
  assumes "reader_ready r" "unread r + length data < 2147482624"
  shows "\<exists>ok r'. redisReaderFeed (granted junk) (granted junk) fn data r h = Inr (ok, r', h) \<and> reader_ready r' \<and>
    nview r' = view_more (nview r) data \<and> unread r' \<le> unread r + length data"
  using redisReaderFeed_granted [OF assms, of "granted junk" "granted junk" fn h] by (auto simp: granted_def)

lemma nview_more_append: "view_more (view_more v d) e = view_more v (d @ e)"
  by (cases v) simp_all

definition stream_of :: "((nat \<Rightarrow> bytes) \<times> bytes) list \<Rightarrow> bytes" where
  "stream_of ps = concat (map snd ps)"

lemma stream_of_simps [simp]: "stream_of [] = []" "stream_of ((a, d) # ps) = d @ stream_of ps"
  by (simp_all add: stream_of_def)

text \<open>One piece: fed, and asked for its replies.\<close>

lemma receive_one:
  assumes "reader_ready r" "unread r + length d < 2147482624"
  shows "\<exists>x. (case redisReaderFeed (granted junk) (granted junk) fn d r h of
        Inl e \<Rightarrow> Some (Inl e)
      | Inr (ok, r1, h1) \<Rightarrow> get_replies (call_fuel r1) sd fn r1 h1) = Some x \<and>
    run_refines (resume sd fn (view_more (nview r) d) h) (unread r + length d) x"
proof -
  obtain ok r1 where feed: "redisReaderFeed (granted junk) (granted junk) fn d r h = Inr (ok, r1, h)"
    and r1: "reader_ready r1" "nview r1 = view_more (nview r) d" "unread r1 \<le> unread r + length d"
    using redisReaderFeed_refines [OF assms, of junk fn h] by blast
  have pm: "rd_err r1 = None \<Longrightarrow> pending_measure r1 \<le> unread r1 + 1"
    by (auto simp: pending_measure_def unread_def step_measure_def split: list.split)
  have "\<exists>x. get_replies (call_fuel r1) sd fn r1 h = Some x \<and> run_refines (resume sd fn (nview r1) h) (unread r1) x"
    using r1 assms(2) pm call_fuel_enough [OF r1(1)] by (intro get_replies_refines) auto
  then obtain x where x: "get_replies (call_fuel r1) sd fn r1 h = Some x"
    "run_refines (resume sd fn (nview r1) h) (unread r1) x" by blast
  then have "run_refines (resume sd fn (nview r1) h) (unread r + length d) x"
    using r1(3) by (cases x) auto
  then show ?thesis using feed x r1(2) by simp
qed

text \<open>The calls end, whatever the stream holds.\<close>

lemma receive_returns:
  assumes "reader_ready r" "unread r + length (stream_of ps) < 2147482624"
  shows "receive sd fn ps r h \<noteq> None"
  using assms
proof (induction ps arbitrary: r h)
  case (Cons p ps)
  obtain junk d where p: "p = (junk, d)" by (cases p) auto
  have "unread r + length d < 2147482624" using Cons.prems(2) p by simp
  then obtain x where x: "(case redisReaderFeed (granted junk) (granted junk) fn d r h of
        Inl e \<Rightarrow> Some (Inl e)
      | Inr (ok, r1, h1) \<Rightarrow> get_replies (call_fuel r1) sd fn r1 h1) = Some x"
    "run_refines (resume sd fn (view_more (nview r) d) h) (unread r + length d) x"
    using receive_one [OF Cons.prems(1), where d = d and junk = junk and fn = fn and h = h and sd = sd] by blast
  show ?case
  proof (cases x)
    case (Inl e)
    then show ?thesis using x(1) p by (auto split: sum.splits)
  next
    case (Inr y)
    obtain os r2 h2 where y: "y = (os, r2, h2)" by (cases y) auto
    then have "receive sd fn ps r2 h2 \<noteq> None"
      using x(2) Inr Cons.prems(2) p by (intro Cons.IH) auto
    then show ?thesis using x(1) p Inr y by (auto split: sum.splits)
  qed
qed simp

context object_builder
begin

lemma resume_append:
  assumes "resume sd fn v h = Inr (os, v', h')"
  shows "resume sd fn (view_more v e) h = prepend os (resume sd fn (view_more v' e) h')"
  using assms stream_run_append by (cases v) auto

lemma receive_run:
  assumes "reader_ready r" "unread r + length (stream_of ps) < 2147482624" "ps \<noteq> []"
    "receive sd fn ps r h = Some (Inr (os, r', h'))"
  shows "resume sd fn (view_more (nview r) (stream_of ps)) h = Inr (os, nview r', h') \<and> reader_ready r'"
  using assms
proof (induction ps arbitrary: r h os)
  case (Cons p ps)
  obtain junk d where p: "p = (junk, d)" by (cases p) auto
  have "unread r + length d < 2147482624" using Cons.prems(2) p by simp
  then obtain x where x: "(case redisReaderFeed (granted junk) (granted junk) fn d r h of
        Inl e \<Rightarrow> Some (Inl e)
      | Inr (ok, r1, h1) \<Rightarrow> get_replies (call_fuel r1) sd fn r1 h1) = Some x"
    "run_refines (resume sd fn (view_more (nview r) d) h) (unread r + length d) x"
    using receive_one [OF Cons.prems(1), where d = d and junk = junk and fn = fn and h = h and sd = sd] by blast
  obtain os1 r2 h2 os2 where step: "x = Inr (os1, r2, h2)" "receive sd fn ps r2 h2 = Some (Inr (os2, r', h'))"
    "os = os1 @ os2"
    using Cons.prems(4) x(1) by (auto simp: p bind_result_Inr_iff split: sum.splits prod.splits option.splits)
  have r2: "reader_ready r2" "unread r2 \<le> unread r + length d"
    "resume sd fn (view_more (nview r) d) h = Inr (os1, nview r2, h2)"
    using x(2) step(1) by simp_all
  show ?case
  proof (cases "ps = []")
    case True
    then show ?thesis using r2 step p by simp
  next
    case False
    have "resume sd fn (view_more (nview r2) (stream_of ps)) h2 = Inr (os2, nview r', h') \<and> reader_ready r'"
      using Cons.prems(2) p r2 step False by (intro Cons.IH) auto
    then show ?thesis
      using resume_append [OF r2(3), of "stream_of ps"] step(3) p by (simp add: nview_more_append)
  qed
qed simp

lemma resume_back:
  assumes "resume sd fn (view_more v e) h = Inr z" "case v of Pending ts reply s \<Rightarrow> length (s @ e) < 2147483648 | _ \<Rightarrow> True"
  shows "\<exists>z. resume sd fn v h = Inr z"
proof (cases v)
  case (Pending ts reply s)
  then show ?thesis using assms stream_run_back [of sd ts reply s e h z] by simp
next
  case (Failed err m reply)
  then show ?thesis by auto
qed

lemma nview_length: "case nview r of Pending ts reply s \<Rightarrow> length s = unread r | _ \<Rightarrow> True"
  by (simp add: view_of_def unread_def split: option.split)

text \<open>If the whole stream is read without a fault, so are its pieces.\<close>

lemma receive_ok:
  assumes "reader_ready r" "unread r + length (stream_of ps) < 2147482624"
    "resume sd fn (view_more (nview r) (stream_of ps)) h = Inr z"
  shows "\<exists>os r' h'. receive sd fn ps r h = Some (Inr (os, r', h'))"
  using assms
proof (induction ps arbitrary: r h z)
  case (Cons p ps)
  obtain junk d where p: "p = (junk, d)" by (cases p) auto
  have small: "unread r + length d < 2147482624" using Cons.prems(2) p by simp
  obtain x where x: "(case redisReaderFeed (granted junk) (granted junk) fn d r h of
        Inl e \<Rightarrow> Some (Inl e)
      | Inr (ok, r1, h1) \<Rightarrow> get_replies (call_fuel r1) sd fn r1 h1) = Some x"
    "run_refines (resume sd fn (view_more (nview r) d) h) (unread r + length d) x"
    using receive_one [OF Cons.prems(1) small, where junk = junk and fn = fn and h = h and sd = sd] by blast
  have whole: "resume sd fn (view_more (view_more (nview r) d) (stream_of ps)) h = Inr z"
    using Cons.prems(3) p by (simp add: nview_more_append)
  have len: "case view_more (nview r) d of
      Pending ts reply s \<Rightarrow> length (s @ stream_of ps) < 2147483648 | _ \<Rightarrow> True"
    using nview_length [of r] Cons.prems(2) p by (cases "nview r") auto
  obtain z' where "resume sd fn (view_more (nview r) d) h = Inr z'" using resume_back [OF whole len] by blast
  then obtain os1 r2 h2 where y: "x = Inr (os1, r2, h2)" using x(2) by (cases x) auto
  have r2: "reader_ready r2" "unread r2 \<le> unread r + length d"
    "resume sd fn (view_more (nview r) d) h = Inr (os1, nview r2, h2)"
    using x(2) y by simp_all
  have "prepend os1 (resume sd fn (view_more (nview r2) (stream_of ps)) h2) = Inr z"
    using resume_append [OF r2(3)] whole by simp
  then obtain z2 where "resume sd fn (view_more (nview r2) (stream_of ps)) h2 = Inr z2"
    by (cases "resume sd fn (view_more (nview r2) (stream_of ps)) h2") auto
  then have "\<exists>os r' h'. receive sd fn ps r2 h2 = Some (Inr (os, r', h'))"
    using Cons.prems(2) p r2 by (intro Cons.IH) auto
  then show ?case using x(1) y p by (auto split: sum.splits)
qed simp

text \<open>Where the stream is cut does not matter: the pieces and the whole give the same replies, heap and state.\<close>

lemma receive_cut:
  assumes "reader_ready r" "unread r + length (stream_of ps) < 2147482624" "ps \<noteq> []"
  shows "receive sd fn ps r h = Some (Inr (os, r', h')) \<Longrightarrow>
      \<exists>r''. receive sd fn [(junk, stream_of ps)] r h = Some (Inr (os, r'', h')) \<and> nview r'' = nview r'"
    and "receive sd fn [(junk, stream_of ps)] r h = Some (Inr (os, r'', h')) \<Longrightarrow>
      \<exists>r'. receive sd fn ps r h = Some (Inr (os, r', h')) \<and> nview r' = nview r''"
proof -
  have one: "stream_of [(junk, stream_of ps)] = stream_of ps" by simp
  {
    assume a: "receive sd fn ps r h = Some (Inr (os, r', h'))"
    have run: "resume sd fn (view_more (nview r) (stream_of ps)) h = Inr (os, nview r', h')"
      using receive_run [OF assms a] by simp
    obtain os2 r2 h2 where w: "receive sd fn [(junk, stream_of ps)] r h = Some (Inr (os2, r2, h2))"
      using receive_ok [of r "[(junk, stream_of ps)]" sd h] assms run one by auto
    then show "\<exists>r''. receive sd fn [(junk, stream_of ps)] r h = Some (Inr (os, r'', h')) \<and> nview r'' = nview r'"
      using receive_run [OF assms(1) _ _ w] assms(2) run by simp
  next
    assume a: "receive sd fn [(junk, stream_of ps)] r h = Some (Inr (os, r'', h'))"
    have run: "resume sd fn (view_more (nview r) (stream_of ps)) h = Inr (os, nview r'', h')"
      using receive_run [OF assms(1) _ _ a] assms(2) by simp
    obtain os2 r2 h2 where w: "receive sd fn ps r h = Some (Inr (os2, r2, h2))"
      using receive_ok [OF assms(1,2) run] by blast
    then show "\<exists>r'. receive sd fn ps r h = Some (Inr (os, r', h')) \<and> nview r' = nview r''"
      using receive_run [OF assms w] run by simp
  }
qed

end

end
