(* ===== verification/Hiredis_Reply.thy ===== *)
theory Hiredis_Reply
  imports Hiredis_Receive
begin

text \<open>
  The reply objects of \<^verbatim>\<open>hiredis.c\<close>: the functions that build a \<open>redisReply\<close> for each item and link it into
  its parent, and the one that frees a reply. They are the reader's default functions. A reply lives in a heap
  of nodes; its string and its vector of elements belong to the node. An allocation can fail.
\<close>

section \<open>The heap of replies\<close>

record redisReply =
  rp_type :: reply_kind
  rp_integer :: int
  rp_dval :: u64
  rp_len :: nat
  rp_str :: "bytes option"
  rp_elements :: nat
  rp_element :: "nat option list option"

text \<open>The next call of the allocator succeeds when the oracle says so; nodes get fresh addresses.\<close>

record reply_heap =
  rh_nodes :: "nat \<Rightarrow> redisReply option"
  rh_next :: nat
  rh_calls :: nat
  rh_oracle :: "nat \<Rightarrow> bool"

definition allocate :: "reply_heap \<Rightarrow> bool \<times> reply_heap" where
  "allocate h = (rh_oracle h (rh_calls h), h\<lparr>rh_calls := rh_calls h + 1\<rparr>)"

definition createReplyObject :: "reply_kind \<Rightarrow> reply_heap \<Rightarrow> nat option \<times> reply_heap" where
  "createReplyObject type h =
     (case allocate h of
        (False, h1) \<Rightarrow> (None, h1)
      | (True, h1) \<Rightarrow>
          (Some (rh_next h1),
           h1\<lparr>rh_nodes := (rh_nodes h1)(rh_next h1 \<mapsto>
                \<lparr>rp_type = type, rp_integer = 0, rp_dval = 0, rp_len = 0, rp_str = None,
                 rp_elements = 0, rp_element = None\<rparr>),
              rh_next := rh_next h1 + 1\<rparr>))"

definition write_node :: "nat \<Rightarrow> (redisReply \<Rightarrow> redisReply) \<Rightarrow> reply_heap \<Rightarrow> reply_heap result" where
  "write_node p f h =
     (case rh_nodes h p of
        None \<Rightarrow> Inl UseAfterFree
      | Some r \<Rightarrow> Inr (h\<lparr>rh_nodes := (rh_nodes h)(p \<mapsto> f r)\<rparr>))"

fun free_elements ::
    "(nat \<Rightarrow> reply_heap \<Rightarrow> reply_heap result) \<Rightarrow> nat option list \<Rightarrow> reply_heap \<Rightarrow> reply_heap result" where
  "free_elements free [] h = Inr h"
| "free_elements free (None # ps) h = free_elements free ps h"
| "free_elements free (Some p # ps) h = bind_result (free p h) (free_elements free ps)"

text \<open>\<open>depth\<close> bounds the recursion; deeper than the nodes of the heap it would not end.\<close>

fun free_node :: "nat \<Rightarrow> nat \<Rightarrow> reply_heap \<Rightarrow> reply_heap result" where
  "free_node 0 p h = Inl StackOverflow"
| "free_node (Suc depth) p h =
     (case rh_nodes h p of
        None \<Rightarrow> Inl UseAfterFree
      | Some r \<Rightarrow>
          bind_result
            (if is_aggregate (Some (rp_type r)) then
               (case rp_element r of
                  None \<Rightarrow> Inr h
                | Some els \<Rightarrow>
                    if length els < rp_elements r then Inl OutOfBounds
                    else free_elements (free_node depth) (take (rp_elements r) els) h)
             else Inr h) (\<lambda>h1.
          case rh_nodes h1 p of
            None \<Rightarrow> Inl UseAfterFree
          | Some _ \<Rightarrow> Inr (h1\<lparr>rh_nodes := (rh_nodes h1)(p := None)\<rparr>)))"

definition freeReplyObject :: "nat reply_object \<Rightarrow> reply_heap \<Rightarrow> reply_heap result" where
  "freeReplyObject obj h =
     (case obj of Code _ \<Rightarrow> Inl UseAfterFree | Object p \<Rightarrow> free_node (rh_next h + 1) p h)"

section \<open>The functions of the reader\<close>

text \<open>The end of each function: the parent's vector gets the new object at the task's index.\<close>

definition link_parent :: "nat tasks \<Rightarrow> nat \<Rightarrow> reply_heap \<Rightarrow> (nat reply_object option \<times> reply_heap) result" where
  "link_parent ts p h =
     (case ts of
        task # parent # _ \<Rightarrow>
          (case task_obj parent of
             Some (Object q) \<Rightarrow>
               (case rh_nodes h q of
                  None \<Rightarrow> Inl UseAfterFree
                | Some r \<Rightarrow>
                    if \<not> is_aggregate (Some (rp_type r)) then Inl CheckFailed
                    else (case rp_element r of
                            None \<Rightarrow> Inl NullDeref
                          | Some els \<Rightarrow>
                              bind_result (vec_set els (task_idx task) (Some p)) (\<lambda>els'.
                                Inr (Some (Object p),
                                     h\<lparr>rh_nodes := (rh_nodes h)(q \<mapsto> r\<lparr>rp_element := Some els'\<rparr>)\<rparr>))))
           | _ \<Rightarrow> Inl NullDeref)
      | _ \<Rightarrow> Inr (Some (Object p), h))"

definition createStringObject ::
    "nat tasks \<Rightarrow> bytes \<Rightarrow> nat \<Rightarrow> reply_heap \<Rightarrow> (nat reply_object option \<times> reply_heap) result" where
  "createStringObject ts str len h =
     (case ts of
        [] \<Rightarrow> Inl NullDeref
      | task # _ \<Rightarrow>
          (case task_type task of
             None \<Rightarrow> Inl CheckFailed
           | Some type \<Rightarrow>
               (case createReplyObject type h of
                  (None, h1) \<Rightarrow> Inr (None, h1)
                | (Some p, h1) \<Rightarrow>
                    (case allocate h1 of
                       (False, h2) \<Rightarrow> bind_result (freeReplyObject (Object p) h2) (\<lambda>h3. Inr (None, h3))
                     | (True, h2) \<Rightarrow>
                         if type \<notin> {REPLY_ERROR, REPLY_STATUS, REPLY_STRING} then Inl CheckFailed
                         else if length str < len then Inl OutOfBounds
                         else
                           bind_result (write_node p (\<lambda>r. r\<lparr>rp_str := Some (take len str @ [0]), rp_len := len\<rparr>) h2)
                             (link_parent ts p)))))"

definition createArrayObject ::
    "nat tasks \<Rightarrow> nat \<Rightarrow> reply_heap \<Rightarrow> (nat reply_object option \<times> reply_heap) result" where
  "createArrayObject ts elements h =
     (case ts of
        [] \<Rightarrow> Inl NullDeref
      | task # _ \<Rightarrow>
          (case task_type task of
             None \<Rightarrow> Inl CheckFailed
           | Some type \<Rightarrow>
               (case createReplyObject type h of
                  (None, h1) \<Rightarrow> Inr (None, h1)
                | (Some p, h1) \<Rightarrow>
                    (case (if 0 < elements then allocate h1 else (True, h1)) of
                       (False, h2) \<Rightarrow> bind_result (freeReplyObject (Object p) h2) (\<lambda>h3. Inr (None, h3))
                     | (True, h2) \<Rightarrow>
                         bind_result
                           (write_node p (\<lambda>r. r\<lparr>rp_element := (if 0 < elements then Some (replicate elements None) else None),
                                                rp_elements := elements\<rparr>) h2)
                           (link_parent ts p)))))"

text \<open>The three functions that only fill in the node.\<close>

definition create_plain ::
    "reply_kind \<Rightarrow> (redisReply \<Rightarrow> redisReply) \<Rightarrow> nat tasks \<Rightarrow> reply_heap \<Rightarrow> (nat reply_object option \<times> reply_heap) result" where
  "create_plain type fill ts h =
     (case createReplyObject type h of
        (None, h1) \<Rightarrow> Inr (None, h1)
      | (Some p, h1) \<Rightarrow> bind_result (write_node p fill h1) (link_parent ts p))"

definition createIntegerObject ::
    "nat tasks \<Rightarrow> int \<Rightarrow> reply_heap \<Rightarrow> (nat reply_object option \<times> reply_heap) result" where
  "createIntegerObject ts v = create_plain REPLY_INTEGER (\<lambda>r. r\<lparr>rp_integer := v\<rparr>) ts"

definition createNilObject :: "nat tasks \<Rightarrow> reply_heap \<Rightarrow> (nat reply_object option \<times> reply_heap) result" where
  "createNilObject ts = create_plain REPLY_NIL (\<lambda>r. r) ts"

definition createBoolObject ::
    "nat tasks \<Rightarrow> bool \<Rightarrow> reply_heap \<Rightarrow> (nat reply_object option \<times> reply_heap) result" where
  "createBoolObject ts bval = create_plain REPLY_BOOL (\<lambda>r. r\<lparr>rp_integer := (if bval then 1 else 0)\<rparr>) ts"

definition createDoubleObject ::
    "nat tasks \<Rightarrow> u64 \<Rightarrow> bytes \<Rightarrow> reply_heap \<Rightarrow> (nat reply_object option \<times> reply_heap) result" where
  "createDoubleObject ts d str h =
     (case createReplyObject REPLY_DOUBLE h of
        (None, h1) \<Rightarrow> Inr (None, h1)
      | (Some p, h1) \<Rightarrow>
          (case allocate h1 of
             (False, h2) \<Rightarrow> bind_result (freeReplyObject (Object p) h2) (\<lambda>h3. Inr (None, h3))
           | (True, h2) \<Rightarrow>
               bind_result (write_node p (\<lambda>r. r\<lparr>rp_dval := d, rp_str := Some (str @ [0])\<rparr>) h2) (link_parent ts p)))"

definition defaultFunctions :: "(nat, reply_heap) object_functions" where
  "defaultFunctions =
     \<lparr>createString = Some createStringObject, createArray = Some createArrayObject,
      createInteger = Some createIntegerObject, createDouble = Some createDoubleObject,
      createNil = Some createNilObject, createBool = Some createBoolObject,
      freeObject = Some freeReplyObject\<rparr>"

definition redisReaderCreate :: "bool \<Rightarrow> memory \<Rightarrow> nat redis_reader option result" where
  "redisReaderCreate = redisReaderCreateWithFunctions"

lemma createStringObject_prefix:
  assumes "n \<le> length p"
  shows "createStringObject ts p n h = createStringObject ts (take n p) n h"
proof -
  have eqs: "length p < n \<longleftrightarrow> False" "length (take n p) < n \<longleftrightarrow> False" "take n (take n p) = take n p"
    using assms by auto
  show ?thesis unfolding createStringObject_def eqs ..
qed

lemma createStringObject_unread:
  assumes "createStringObject ts p n h = Inr x" "length p < n"
  shows "createStringObject ts q n h = Inr x"
proof -
  obtain task us type where ts: "ts = task # us" "task_type task = Some type"
    using assms(1) by (auto simp: createStringObject_def split: list.splits option.splits)
  obtain po h1 where c: "createReplyObject type h = (po, h1)" by fastforce
  show ?thesis
  proof (cases po)
    case None
    then show ?thesis using assms(1) by (simp add: createStringObject_def ts c)
  next
    case (Some p)
    obtain b h2 where a: "allocate h1 = (b, h2)" by fastforce
    show ?thesis using assms Some by (cases b) (simp_all add: createStringObject_def ts c a split: if_splits)
  qed
qed

interpretation replies: object_builder defaultFunctions
proof unfold_locales
  fix f :: "nat tasks \<Rightarrow> bytes \<Rightarrow> nat \<Rightarrow> reply_heap \<Rightarrow> (nat reply_object option \<times> reply_heap) result" and n p ts h x q
  assume f: "createString defaultFunctions = Some f"
  then have f: "f = createStringObject" by (simp add: defaultFunctions_def)
  show "n \<le> length p \<Longrightarrow> f ts p n h = f ts (take n p) n h"
    unfolding f by (rule createStringObject_prefix)
  show "length p < n \<Longrightarrow> f ts p n h = Inr x \<Longrightarrow> f ts q n h = Inr x"
    unfolding f by (rule createStringObject_unread)
qed

end
