(* ===== verification/Hiredis_Resp.thy ===== *)
theory Hiredis_Resp
  imports Hiredis_Reply
begin

text \<open>
  The protocol that the reader reads: values, their encoding, and what it means that a reply in the heap is a
  value. A stream of encodings, cut anywhere, becomes these values, and freeing a reply frees its nodes.
\<close>

section \<open>Values and their encoding\<close>

text \<open>An aggregate has the type of an array, a map or a set; a map lists its keys and values in turn.\<close>

datatype resp =
    RString bytes
  | RStatus bytes
  | RError bytes
  | RInteger int
  | RNil
  | RBool bool
  | RDouble bytes u64
  | RAggregate reply_kind "resp list"

abbreviation crlf :: bytes where "crlf \<equiv> [13, 10]"

definition agg_byte :: "reply_kind \<Rightarrow> byte" where
  "agg_byte t = (if t = REPLY_MAP then 37 else if t = REPLY_SET then 126 else 42)"

definition agg_count :: "reply_kind \<Rightarrow> nat \<Rightarrow> nat" where
  "agg_count t n = (if t = REPLY_MAP then n div 2 else n)"

fun encode :: "resp \<Rightarrow> bytes" where
  "encode (RString s) = 36 # int_decimal (int (length s)) @ crlf @ s @ crlf"
| "encode (RStatus s) = 43 # s @ crlf"
| "encode (RError s) = 45 # s @ crlf"
| "encode (RInteger n) = 58 # int_decimal n @ crlf"
| "encode RNil = 36 # int_decimal (-1) @ crlf"
| "encode (RBool b) = 35 # (if b then 116 else 102) # crlf"
| "encode (RDouble txt d) = 44 # txt @ crlf"
| "encode (RAggregate t vs) =
     agg_byte t # int_decimal (int (agg_count t (length vs))) @ crlf @ concat (map encode vs)"

text \<open>What can be sent: a line has no carriage return, numbers have 64 bits, and \<open>depth\<close> levels of aggregates at most.\<close>

fun resp_ok :: "strtod \<Rightarrow> nat \<Rightarrow> resp \<Rightarrow> bool" where
  "resp_ok sd depth (RString s) \<longleftrightarrow> True"
| "resp_ok sd depth (RStatus s) \<longleftrightarrow> 13 \<notin> set s"
| "resp_ok sd depth (RError s) \<longleftrightarrow> 13 \<notin> set s"
| "resp_ok sd depth (RInteger n) \<longleftrightarrow> LLONG_MIN \<le> n \<and> n \<le> LLONG_MAX"
| "resp_ok sd depth RNil \<longleftrightarrow> True"
| "resp_ok sd depth (RBool b) \<longleftrightarrow> True"
| "resp_ok sd depth (RDouble txt d) \<longleftrightarrow> 13 \<notin> set txt \<and> length txt < 326 \<and> parse_double sd txt = Some d"
| "resp_ok sd depth (RAggregate t vs) \<longleftrightarrow>
     0 < depth \<and> is_aggregate (Some t) \<and> length vs \<le> 2147483647 \<and> (t = REPLY_MAP \<longrightarrow> even (length vs)) \<and>
     (\<forall>v\<in>set vs. resp_ok sd (depth - 1) v)"

text \<open>A value takes consecutive nodes of the heap, its own first.\<close>

fun nodes :: "resp \<Rightarrow> nat" where
  "nodes (RAggregate t vs) = Suc (sum_list (map nodes vs))"
| "nodes _ = 1"

fun leaf_is :: "resp \<Rightarrow> redisReply \<Rightarrow> bool" where
  "leaf_is (RString s) r \<longleftrightarrow> rp_type r = REPLY_STRING \<and> rp_str r = Some (s @ [0]) \<and> rp_len r = length s"
| "leaf_is (RStatus s) r \<longleftrightarrow> rp_type r = REPLY_STATUS \<and> rp_str r = Some (s @ [0]) \<and> rp_len r = length s"
| "leaf_is (RError s) r \<longleftrightarrow> rp_type r = REPLY_ERROR \<and> rp_str r = Some (s @ [0]) \<and> rp_len r = length s"
| "leaf_is (RInteger n) r \<longleftrightarrow> rp_type r = REPLY_INTEGER \<and> rp_integer r = n"
| "leaf_is RNil r \<longleftrightarrow> rp_type r = REPLY_NIL"
| "leaf_is (RBool b) r \<longleftrightarrow> rp_type r = REPLY_BOOL \<and> rp_integer r = (if b then 1 else 0)"
| "leaf_is (RDouble txt d) r \<longleftrightarrow> rp_type r = REPLY_DOUBLE \<and> rp_dval r = d \<and> rp_str r = Some (txt @ [0])"
| "leaf_is (RAggregate t vs) r \<longleftrightarrow> False"

function (sequential) reply_at :: "(nat \<Rightarrow> redisReply option) \<Rightarrow> nat \<Rightarrow> resp \<Rightarrow> bool"
  and elements_at :: "(nat \<Rightarrow> redisReply option) \<Rightarrow> nat \<Rightarrow> nat option list \<Rightarrow> resp list \<Rightarrow> bool" where
  "reply_at m p (RAggregate t vs) \<longleftrightarrow>
     (case m p of
        None \<Rightarrow> False
      | Some r \<Rightarrow>
          is_aggregate (Some t) \<and> rp_type r = t \<and> rp_elements r = length vs \<and>
          (case rp_element r of None \<Rightarrow> vs = [] | Some els \<Rightarrow> vs \<noteq> [] \<and> elements_at m (p + 1) els vs))"
| "reply_at m p v \<longleftrightarrow> (case m p of None \<Rightarrow> False | Some r \<Rightarrow> leaf_is v r)"
| "elements_at m p [] [] \<longleftrightarrow> True"
| "elements_at m p (e # els) (v # vs) \<longleftrightarrow> e = Some p \<and> reply_at m p v \<and> elements_at m (p + nodes v) els vs"
| "elements_at m p _ _ \<longleftrightarrow> False"
  by pat_completeness auto
termination
  by (relation "measure (\<lambda>x. case x of Inl (m, p, v) \<Rightarrow> size v | Inr (m, p, els, vs) \<Rightarrow> size_list size vs)") auto

lemma nodes_pos [simp]: "0 < nodes v"
  by (cases v) auto

lemma reply_at_cong:
  "(\<And>a. p \<le> a \<Longrightarrow> a < p + nodes v \<Longrightarrow> m a = m' a) \<Longrightarrow> reply_at m p v = reply_at m' p v"
  "(\<And>a. p \<le> a \<Longrightarrow> a < p + sum_list (map nodes vs) \<Longrightarrow> m a = m' a) \<Longrightarrow> elements_at m p els vs = elements_at m' p els vs"
proof (induction m p v and m p els vs rule: reply_at_elements_at.induct)
  case (1 m p t vs)
  have "m p = m' p" by (rule 1(2)) simp_all
  then show ?case using 1 by (auto split: option.split)
next
  case (4 m p e els v vs)
  then show ?case by auto
qed (auto split: option.split)

lemma elements_at_length: "elements_at m p els vs \<Longrightarrow> length els = length vs"
  by (induction els arbitrary: p vs) (auto elim: elements_at.elims)

section \<open>Freeing a reply\<close>

definition cleared :: "nat \<Rightarrow> nat \<Rightarrow> reply_heap \<Rightarrow> reply_heap" where
  "cleared p n h = h\<lparr>rh_nodes := (\<lambda>a. if p \<le> a \<and> a < p + n then None else rh_nodes h a)\<rparr>"

lemma cleared_0 [simp]: "cleared p 0 h = h"
proof -
  have "(\<lambda>a. if p \<le> a \<and> a < p + 0 then None else rh_nodes h a) = rh_nodes h" by (rule ext) auto
  then show ?thesis by (simp add: cleared_def)
qed

lemma cleared_node:
  "(cleared (p + 1) n h)\<lparr>rh_nodes := (rh_nodes (cleared (p + 1) n h))(p := None)\<rparr> = cleared p (Suc n) h"
proof -
  have "(\<lambda>a. if p + 1 \<le> a \<and> a < p + 1 + n then None else rh_nodes h a)(p := None) =
      (\<lambda>a. if p \<le> a \<and> a < p + Suc n then None else rh_nodes h a)" by (rule ext) auto
  then show ?thesis by (simp add: cleared_def)
qed

lemma cleared_cleared: "cleared (p + n) k (cleared p n h) = cleared p (n + k) h"
proof -
  have "(\<lambda>a. if p + n \<le> a \<and> a < p + n + k then None else if p \<le> a \<and> a < p + n then None else rh_nodes h a) =
      (\<lambda>a. if p \<le> a \<and> a < p + (n + k) then None else rh_nodes h a)" by (rule ext) auto
  then show ?thesis by (simp add: cleared_def cong: if_cong)
qed

lemma free_elements_ok:
  assumes "\<And>v p h. v \<in> set vs \<Longrightarrow> reply_at (rh_nodes h) p v \<Longrightarrow> free p h = Inr (cleared p (nodes v) h)"
    "elements_at (rh_nodes h) p els vs"
  shows "free_elements free els h = Inr (cleared p (sum_list (map nodes vs)) h)"
  using assms
proof (induction vs arbitrary: p els h)
  case Nil
  then show ?case by (cases els) auto
next
  case (Cons v vs)
  obtain els' where els: "els = Some p # els'" "reply_at (rh_nodes h) p v" "elements_at (rh_nodes h) (p + nodes v) els' vs"
    using Cons.prems(2) by (cases els) auto
  let ?h = "cleared p (nodes v) h"
  have free: "free p h = Inr ?h" using Cons.prems(1) els(2) by simp
  have "elements_at (rh_nodes ?h) (p + nodes v) els' vs"
    using els(3) reply_at_cong(2) [of "p + nodes v" vs "rh_nodes h" "rh_nodes ?h" els'] by (auto simp: cleared_def)
  then have "free_elements free els' ?h = Inr (cleared (p + nodes v) (sum_list (map nodes vs)) ?h)"
    using Cons.prems(1) by (intro Cons.IH) auto
  then show ?case by (simp add: els(1) free cleared_cleared)
qed

lemma free_node_ok:
  assumes "reply_at (rh_nodes h) p v" "nodes v \<le> depth"
  shows "free_node depth p h = Inr (cleared p (nodes v) h)"
  using assms
proof (induction v arbitrary: p h depth)
  case (RAggregate t vs)
  let ?k = "sum_list (map nodes vs)"
  obtain d where d: "depth = Suc d" "?k \<le> d" using RAggregate.prems(2) by (cases depth) auto
  obtain r where r: "rh_nodes h p = Some r" "is_aggregate (Some (rp_type r))" "rp_elements r = length vs"
    "case rp_element r of None \<Rightarrow> vs = [] | Some els \<Rightarrow> vs \<noteq> [] \<and> elements_at (rh_nodes h) (p + 1) els vs"
    using RAggregate.prems(1) by (auto split: option.splits)
  have "(case rp_element r of
           None \<Rightarrow> Inr h
         | Some els \<Rightarrow>
             if length els < rp_elements r then Inl OutOfBounds
             else free_elements (free_node d) (take (rp_elements r) els) h) = Inr (cleared (p + 1) ?k h)"
  proof (cases "rp_element r")
    case None
    then show ?thesis using r(4) by simp
  next
    case (Some els)
    have els: "elements_at (rh_nodes h) (p + 1) els vs" using r(4) Some by simp
    have "nodes v \<le> d" if "v \<in> set vs" for v
      using that d(2) member_le_sum_list [of "nodes v" "map nodes vs"] by simp
    then have "free_elements (free_node d) els h = Inr (cleared (p + 1) ?k h)"
      using RAggregate.IH by (intro free_elements_ok [OF _ els]) blast
    then show ?thesis using Some r(3) elements_at_length [OF els] by simp
  qed
  moreover have "rh_nodes (cleared (p + 1) ?k h) p = Some r" by (simp add: cleared_def r(1))
  ultimately show ?case using d r(1,2) by (simp add: cleared_node [unfolded Suc_eq_plus1 [symmetric]])
qed (use cleared_node [of _ 0] in \<open>auto simp: Suc_le_eq gr0_conv_Suc is_aggregate_def split: option.splits\<close>)

text \<open>A reply is freed with all its nodes, once each, and nothing else is.\<close>

lemma freeReplyObject_ok:
  assumes "reply_at (rh_nodes h) p v" "p + nodes v \<le> rh_next h"
  shows "freeReplyObject (Object p) h = Inr (cleared p (nodes v) h)"
  using assms by (simp add: freeReplyObject_def free_node_ok del: free_node.simps)

end
