(* ===== verification/Hiredis_Format.thy ===== *)
theory Hiredis_Format
  imports Hiredis_Resp
begin

text \<open>
  The commands of \<^verbatim>\<open>hiredis.c\<close>: \<open>redisvFormatCommand\<close>, which cuts a format into arguments and fills
  them in, and the formatters that get the arguments one by one. A command is an array of bulk strings.
\<close>

section \<open>Lengths\<close>

function digits_from :: "u64 \<Rightarrow> u32 \<Rightarrow> u32" where
  "digits_from v result =
     (if v < 10 then result else if v < 100 then result + 1 else if v < 1000 then result + 2
      else if v < 10000 then result + 3 else digits_from (v div 10000) (result + 4))"
  by pat_completeness auto
termination
proof (relation "measure (\<lambda>(v, result). unat v)")
  fix v :: u64
  assume "\<not> v < 10000"
  then have "10000 \<le> unat v" by (simp add: word_less_nat_alt)
  moreover have "unat (v div 10000) = unat v div 10000" by (simp add: unat_div)
  ultimately show "((v div 10000, result + 4), v, result) \<in> measure (\<lambda>(v, result). unat v)" for result :: u32
    by simp
qed simp

declare digits_from.simps [simp del]

definition countDigits :: "u64 \<Rightarrow> u32" where "countDigits v = digits_from v 1"

definition bulklen :: "nat \<Rightarrow> nat" where
  "bulklen len = 1 + unat (countDigits (of_nat len)) + 2 + len + 2"

section \<open>The variable arguments and the allocator\<close>

text \<open>An argument of another type than the one that is read is a fault, and so is a missing one. \<open>long\<close> has 32 bits.\<close>

datatype va_arg = ArgPtr bytes | ArgSize nat | ArgInt int | ArgLong int | ArgLongLong int | ArgDouble u64

datatype conversion = ConvInt | ConvLong | ConvLongLong | ConvDouble

fun va_number :: "conversion \<Rightarrow> va_arg list \<Rightarrow> (va_arg \<times> va_arg list) result" where
  "va_number ConvInt (ArgInt n # ap) = Inr (ArgInt n, ap)"
| "va_number ConvLong (ArgLong n # ap) = Inr (ArgLong n, ap)"
| "va_number ConvLongLong (ArgLongLong n # ap) = Inr (ArgLongLong n, ap)"
| "va_number ConvDouble (ArgDouble d # ap) = Inr (ArgDouble d, ap)"
| "va_number _ _ = Inl OutOfBounds"

text \<open>The \<open>k\<close>-th call of the allocator is answered by \<open>M k\<close>; \<open>vsnprintf\<close> of the C library gives the text of one conversion.\<close>

type_synonym allocator = "nat \<Rightarrow> memory"
type_synonym vsnprintf = "bytes \<Rightarrow> va_arg \<Rightarrow> bytes"

text \<open>The length of a C string.\<close>

definition c_text :: "bytes \<Rightarrow> bytes result" where
  "c_text bs = (if 0 \<in> set bs then Inr (takeWhile (\<lambda>b. b \<noteq> 0) bs) else Inl OutOfBounds)"

text \<open>The loop of \<open>sdscatvprintf\<close>, which doubles its buffer until a text of \<open>n\<close> characters fits; \<open>None\<close> when there is no memory.\<close>

function print_buffer :: "allocator \<Rightarrow> nat \<Rightarrow> nat \<Rightarrow> nat \<Rightarrow> nat option" where
  "print_buffer M k buflen n =
     (if n < buflen - 1 then Some k
      else if \<not> mem_ok (M k) \<or> buflen = 0 then None
      else print_buffer M (k + 1) (buflen * 2) n)"
  by pat_completeness auto
termination by (relation "measure (\<lambda>(M, k, buflen, n). n + 2 - buflen)") auto

declare print_buffer.simps [simp del]

text \<open>What is answered: the new string, the old pointer and the number of calls of the allocator so far.\<close>

definition sdscatvprintf :: "vsnprintf \<Rightarrow> allocator \<Rightarrow> nat \<Rightarrow> bytes \<Rightarrow> va_arg \<Rightarrow> sds \<Rightarrow> (sds option \<times> sds_ptr \<times> nat) result" where
  "sdscatvprintf V M k fmt a s =
     (let t = V fmt a; n = length fmt * 2;
          buffer = (if 1024 < n then (if mem_ok (M k) then print_buffer M (k + 1) n (length t) else None)
                    else print_buffer M k 1024 (length t)) in
      case buffer of
        None \<Rightarrow> Inr (None, Live s, k + 1)
      | Some k' \<Rightarrow> bind_result (sdscatlen (M k') t (length t) s) (\<lambda>(new, old). Inr (new, old, k' + 1)))"

section \<open>The arguments of a command\<close>

text \<open>\<open>curarg\<close>, \<open>touched\<close>, \<open>curargv\<close> and \<open>totlen\<close>; \<open>fm_live\<close> counts the blocks that the call holds.\<close>

record fmt =
  fm_calls :: nat
  fm_live :: nat
  fm_arg :: sds_ptr
  fm_touched :: bool
  fm_argv :: "sds list"
  fm_totlen :: int32

text \<open>A string that grew, or not: the current argument and the blocks.\<close>

definition set_arg :: "sds option \<Rightarrow> sds_ptr \<Rightarrow> nat \<Rightarrow> fmt \<Rightarrow> bool \<times> fmt" where
  "set_arg new old k st =
     (case new of
        Some s \<Rightarrow> (True, st\<lparr>fm_arg := Live s, fm_calls := k\<rparr>)
      | None \<Rightarrow> (False, st\<lparr>fm_arg := old, fm_calls := k, fm_live := (if old = Freed then fm_live st - 1 else fm_live st)\<rparr>))"

definition cat_arg :: "allocator \<Rightarrow> bytes \<Rightarrow> fmt \<Rightarrow> (bool \<times> fmt) result" where
  "cat_arg M t st =
     (case fm_arg st of
        Live s \<Rightarrow>
          bind_result (sdscatlen (M (fm_calls st)) t (length t) s) (\<lambda>(new, old).
            Inr (set_arg new old (fm_calls st + 1) st))
      | _ \<Rightarrow> Inl NullDeref)"

definition new_arg :: "allocator \<Rightarrow> fmt \<Rightarrow> (bool \<times> fmt) result" where
  "new_arg M st =
     bind_result (sdsempty (M (fm_calls st))) (\<lambda>new.
       Inr (case new of
              Some s \<Rightarrow> (True, st\<lparr>fm_arg := Live s, fm_calls := fm_calls st + 1, fm_live := fm_live st + 1\<rparr>)
            | None \<Rightarrow> (False, st\<lparr>fm_arg := Null, fm_calls := fm_calls st + 1\<rparr>)))"

text \<open>The current argument goes to the end of the vector, which is reallocated.\<close>

definition push_arg :: "allocator \<Rightarrow> fmt \<Rightarrow> (bool \<times> fmt) result" where
  "push_arg M st =
     (let st1 = st\<lparr>fm_calls := fm_calls st + 1\<rparr> in
      if \<not> mem_ok (M (fm_calls st)) then Inr (False, st1)
      else (case fm_arg st of
              Live s \<Rightarrow>
                Inr (True, st1\<lparr>fm_argv := fm_argv st @ [s], fm_arg := Null,
                  fm_live := (if fm_argv st = [] then fm_live st + 1 else fm_live st),
                  fm_totlen := fm_totlen st + of_nat (bulklen (sdslen s))\<rparr>)
            | _ \<Rightarrow> Inl NullDeref))"

section \<open>The format\<close>

text \<open>A C string is the list of its bytes, which ends before the null byte; \<open>strchr\<close> finds the null byte too.\<close>

definition deref :: "bytes \<Rightarrow> byte" where "deref p = (case p of [] \<Rightarrow> 0 | b # _ \<Rightarrow> b)"

definition in_set :: "string \<Rightarrow> byte \<Rightarrow> bool" where "in_set s b \<longleftrightarrow> b = 0 \<or> b \<in> set (map of_char s)"

definition intfmts :: string where "intfmts = ''diouxX''"

text \<open>What is converted and where its last character is; \<open>None\<close> is an invalid format.\<close>

definition skip_flags :: "bytes \<Rightarrow> bytes" where
  "skip_flags p = dropWhile (\<lambda>b. b \<noteq> 0 \<and> in_set ''#0-+ '' b) p"

definition skip_digits :: "bytes \<Rightarrow> bytes" where
  "skip_digits p = dropWhile isdigit p"

definition skip_precision :: "bytes \<Rightarrow> bytes" where
  "skip_precision p = (if deref p = ch CHR ''.'' then skip_digits (tl p) else p)"

definition sized :: "conversion \<Rightarrow> bytes \<Rightarrow> (conversion \<times> bytes) option" where
  "sized c p = (if deref p \<noteq> 0 \<and> in_set intfmts (deref p) then Some (c, p) else None)"

definition conversion_at :: "bytes \<Rightarrow> (conversion \<times> bytes) option" where
  "conversion_at p =
     (if in_set intfmts (deref p) then Some (ConvInt, p)
      else if in_set ''eEfFgGaA'' (deref p) then Some (ConvDouble, p)
      else if deref p = ch CHR ''h'' \<and> deref (tl p) = ch CHR ''h'' then sized ConvInt (tl (tl p))
      else if deref p = ch CHR ''h'' then sized ConvInt (tl p)
      else if deref p = ch CHR ''l'' \<and> deref (tl p) = ch CHR ''l'' then sized ConvLongLong (tl (tl p))
      else if deref p = ch CHR ''l'' then sized ConvLong (tl p)
      else None)"

definition printf_conversion :: "bytes \<Rightarrow> (conversion \<times> bytes) option" where
  "printf_conversion p = conversion_at (skip_precision (skip_digits (skip_flags p)))"

text \<open>
  One round of the loop: it stops with 0, -1 for no memory and -2 for an invalid format, or goes on at the next
  character. \<open>None\<close> is a pointer behind the end of the format.
\<close>

datatype format_next = Stop int fmt | Next "bytes option" "va_arg list" fmt

definition filled :: "bool \<times> fmt \<Rightarrow> bytes option \<Rightarrow> va_arg list \<Rightarrow> format_next" where
  "filled x c ap = (case x of (True, st) \<Rightarrow> Next c ap (st\<lparr>fm_touched := True\<rparr>) | (False, st) \<Rightarrow> Stop (-1) st)"

definition format_blank :: "allocator \<Rightarrow> bytes \<Rightarrow> va_arg list \<Rightarrow> fmt \<Rightarrow> format_next result" where
  "format_blank M s ap st =
     (if fm_touched st then
        bind_result (push_arg M st) (\<lambda>(ok, st1).
          if \<not> ok then Inr (Stop (-1) st1)
          else bind_result (new_arg M st1) (\<lambda>(ok, st2).
            Inr (if ok then Next (Some s) ap (st2\<lparr>fm_touched := False\<rparr>) else Stop (-1) st2)))
      else Inr (Next (Some s) ap st))"

definition format_string :: "allocator \<Rightarrow> bytes \<Rightarrow> va_arg list \<Rightarrow> fmt \<Rightarrow> format_next result" where
  "format_string M s ap st =
     (case ap of
        ArgPtr bs # ap' \<Rightarrow>
          bind_result (c_text bs) (\<lambda>t.
          bind_result (if t \<noteq> [] then cat_arg M t st else Inr (True, st)) (\<lambda>x. Inr (filled x (Some s) ap')))
      | _ \<Rightarrow> Inl OutOfBounds)"

definition format_bytes :: "allocator \<Rightarrow> bytes \<Rightarrow> va_arg list \<Rightarrow> fmt \<Rightarrow> format_next result" where
  "format_bytes M s ap st =
     (case ap of
        ArgPtr bs # ArgSize n # ap' \<Rightarrow>
          if length bs < n then Inl OutOfBounds
          else bind_result (if 0 < n then cat_arg M (take n bs) st else Inr (True, st)) (\<lambda>x. Inr (filled x (Some s) ap'))
      | _ \<Rightarrow> Inl OutOfBounds)"

text \<open>\<open>c\<close> points at the percent sign. A conversion of fourteen characters or more is not carried out.\<close>

definition format_printf :: "vsnprintf \<Rightarrow> allocator \<Rightarrow> bytes \<Rightarrow> va_arg list \<Rightarrow> fmt \<Rightarrow> format_next result" where
  "format_printf V M c ap st =
     (case printf_conversion (tl c) of
        None \<Rightarrow> Inr (Stop (-2) st)
      | Some (conv, p) \<Rightarrow>
          bind_result (va_number conv ap) (\<lambda>(a, ap').
            let l = length c - length p + 1 in
            if l < 14 then
              (case fm_arg st of
                 Live s \<Rightarrow>
                   bind_result (sdscatvprintf V M (fm_calls st) (take l c) a s) (\<lambda>(new, old, k).
                     Inr (filled (set_arg new old k st) (if p = [] then None else Some (tl p)) ap'))
               | _ \<Rightarrow> Inl NullDeref)
            else Inr (filled (True, st) (Some (tl (tl c))) ap')))"

definition format_step :: "vsnprintf \<Rightarrow> allocator \<Rightarrow> byte \<Rightarrow> bytes \<Rightarrow> va_arg list \<Rightarrow> fmt \<Rightarrow> format_next result" where
  "format_step V M b s ap st =
     (if b \<noteq> ch CHR ''%'' \<or> s = [] then
        (if b = ch CHR '' '' then format_blank M s ap st
         else bind_result (cat_arg M [b] st) (\<lambda>x. Inr (filled x (Some s) ap)))
      else if hd s = ch CHR ''s'' then format_string M (tl s) ap st
      else if hd s = ch CHR ''b'' then format_bytes M (tl s) ap st
      else if hd s = ch CHR ''%'' then
        bind_result (cat_arg M [ch CHR ''%''] st) (\<lambda>x. Inr (filled x (Some (tl s)) ap))
      else format_printf V M (b # s) ap st)"

fun left :: "bytes option \<Rightarrow> nat" where
  "left None = 0"
| "left (Some s) = Suc (length s)"

lemma printf_conversion_length: "printf_conversion s = Some (c, p) \<Longrightarrow> length p \<le> length s"
proof -
  have conv: "conversion_at x = Some (c, p) \<Longrightarrow> length p \<le> length x" for x
    by (auto simp: conversion_at_def sized_def split: if_splits)
  have "length (skip_precision x) \<le> length x" for x
    using length_dropWhile_le [of isdigit "tl x"] by (auto simp: skip_precision_def skip_digits_def intro: order_trans)
  moreover have "length (skip_digits x) \<le> length x" "length (skip_flags x) \<le> length x" for x
    by (simp_all add: skip_digits_def skip_flags_def length_dropWhile_le)
  moreover assume "printf_conversion s = Some (c, p)"
  ultimately show ?thesis unfolding printf_conversion_def using conv by (meson order_trans)
qed

lemma filled_Next: "filled x c ap = Next c' ap' st \<Longrightarrow> c' = c"
  by (auto simp: filled_def split: prod.splits bool.splits)

lemma format_step_left:
  assumes "format_step V M b s ap st = Inr (Next c ap' st')"
  shows "left c \<le> Suc (length s)"
proof -
  have blank: "format_blank M s ap st = Inr (Next c ap' st') \<Longrightarrow> left c \<le> Suc (length s)" for s
    by (auto simp: format_blank_def bind_result_Inr_iff split: if_splits)
  have str: "format_string M s ap st = Inr (Next c ap' st') \<Longrightarrow> left c \<le> Suc (length s)" for s
    by (auto simp: format_string_def bind_result_Inr_iff dest!: filled_Next split: list.splits va_arg.splits)
  have bts: "format_bytes M s ap st = Inr (Next c ap' st') \<Longrightarrow> left c \<le> Suc (length s)" for s
    by (auto simp: format_bytes_def bind_result_Inr_iff dest!: filled_Next split: list.splits va_arg.splits if_splits)
  have pr: "format_printf V M (b # s) ap st = Inr (Next c ap' st') \<Longrightarrow> left c \<le> Suc (length s)"
    using printf_conversion_length [of s]
    by (cases "fm_arg st") (auto simp: format_printf_def bind_result_Inr_iff Let_def dest!: filled_Next
        split: option.splits if_splits intro: le_SucI)
  show ?thesis
    using assms blank [of s] str [of "tl s"] bts [of "tl s"] pr
    by (cases s) (auto simp: format_step_def bind_result_Inr_iff dest!: filled_Next split: if_splits)
qed

text \<open>The loop over the format; the result is the code with which it stops.\<close>

function format_loop :: "vsnprintf \<Rightarrow> allocator \<Rightarrow> bytes option \<Rightarrow> va_arg list \<Rightarrow> fmt \<Rightarrow> (int \<times> fmt) result" where
  "format_loop V M None ap st = Inl OutOfBounds"
| "format_loop V M (Some []) ap st = Inr (0, st)"
| "format_loop V M (Some (b # s)) ap st =
     bind_result (format_step V M b s ap st) (\<lambda>x.
       case x of Stop e st' \<Rightarrow> Inr (e, st') | Next c ap' st' \<Rightarrow> format_loop V M c ap' st')"
  by pat_completeness auto
termination
  by (relation "measure (\<lambda>(V, M, c, ap, st). left c)") (auto dest: format_step_left)

section \<open>The command\<close>

text \<open>What the code frees on its way out: the arguments and their vector, and the current argument.\<close>

definition cleanup :: "int \<Rightarrow> fmt \<Rightarrow> (int \<times> bytes option \<times> nat) result" where
  "cleanup code st =
     (let live = fm_live st - (if fm_argv st = [] then 0 else length (fm_argv st) + 1) in
      bind_result (sdsfree (fm_arg st)) (\<lambda>_.
        Inr (code, None, if fm_arg st = Null then live else live - 1)))"

text \<open>The text of the command: \<open>sprintf\<close> and \<open>memcpy\<close> into one block.\<close>

definition bulk_text :: "bytes \<Rightarrow> bytes" where
  "bulk_text t = ch CHR ''$'' # nat_decimal (length t) @ crlf @ t @ crlf"

definition command_text :: "bytes list \<Rightarrow> bytes" where
  "command_text args = ch CHR ''*'' # nat_decimal (length args) @ crlf @ concat (map bulk_text args)"

text \<open>A block for the text and its null byte; \<open>malloc\<close> of a negative number, which becomes a huge one, fails.\<close>

definition build_command :: "allocator \<Rightarrow> nat \<Rightarrow> bytes list \<Rightarrow> int32 \<Rightarrow> bytes option result" where
  "build_command M k args totlen =
     bind_result (add_int32 (sint totlen) 1) (\<lambda>n.
       if n < 0 \<or> \<not> mem_ok (M k) then Inr None
       else if n < int (length (command_text args)) + 1 then Inl OutOfBounds
       else if int (length (command_text args)) \<noteq> sint totlen then Inl CheckFailed
       else Inr (Some (command_text args)))"

definition format_end :: "allocator \<Rightarrow> fmt \<Rightarrow> (int \<times> bytes option \<times> nat) result" where
  "format_end M st =
     bind_result
       (if fm_touched st then push_arg M st
        else bind_result (sdsfree (fm_arg st)) (\<lambda>_. Inr (True, st\<lparr>fm_arg := Null, fm_live := fm_live st - 1\<rparr>))) (\<lambda>(ok, st1).
     if \<not> ok then cleanup (-1) st1
     else
       (let totlen = fm_totlen st1 + (1 + countDigits (of_nat (length (fm_argv st1))) + 2) in
        bind_result (build_command M (fm_calls st1) (map sds_val (fm_argv st1)) totlen) (\<lambda>cmd.
          case cmd of
            None \<Rightarrow> cleanup (-1) st1
          | Some text \<Rightarrow>
              Inr (sint totlen, Some text,
                fm_live st1 + 1 - (if fm_argv st1 = [] then 0 else length (fm_argv st1) + 1)))))"

text \<open>The result: the length or an error, \<open>*target\<close>, and how many blocks the call leaves behind. A null target is -1.\<close>

definition redisvFormatCommand ::
    "vsnprintf \<Rightarrow> allocator \<Rightarrow> bool \<Rightarrow> bytes \<Rightarrow> va_arg list \<Rightarrow> (int \<times> bytes option \<times> nat) result" where
  "redisvFormatCommand V M target format ap =
     (if \<not> target then Inr (-1, None, 0)
      else bind_result (new_arg M \<lparr>fm_calls = 0, fm_live = 0, fm_arg = Null, fm_touched = False, fm_argv = [], fm_totlen = 0\<rparr>)
        (\<lambda>(ok, st).
         if \<not> ok then Inr (-1, None, 0)
         else bind_result (format_loop V M (Some format) ap st) (\<lambda>(e, st1).
           if e \<noteq> 0 then cleanup e st1 else format_end M st1)))"

definition redisFormatCommand ::
    "vsnprintf \<Rightarrow> allocator \<Rightarrow> bool \<Rightarrow> bytes \<Rightarrow> va_arg list \<Rightarrow> (int \<times> bytes option \<times> nat) result" where
  "redisFormatCommand V M target format ap =
     bind_result (redisvFormatCommand V M target format ap) (\<lambda>(len, text, live).
       Inr (if len < 0 then -1 else len, text, live))"

text \<open>
  The arguments one by one: blocks of memory, with their lengths or, when there are none, as C strings. The array
  of lengths, when there is one, is as long as that of the arguments.
\<close>

definition argument :: "bytes \<Rightarrow> nat option \<Rightarrow> bytes result" where
  "argument arg len =
     (case len of
        None \<Rightarrow> c_text arg
      | Some n \<Rightarrow> if length arg < n then Inl OutOfBounds else Inr (take n arg))"

fun arguments :: "(bytes \<times> nat option) list \<Rightarrow> bytes list result" where
  "arguments [] = Inr []"
| "arguments ((arg, len) # rest) =
     bind_result (argument arg len) (\<lambda>w. bind_result (arguments rest) (\<lambda>ws. Inr (w # ws)))"

definition redisFormatCommandArgv ::
    "allocator \<Rightarrow> bool \<Rightarrow> (bytes \<times> nat option) list \<Rightarrow> (int \<times> bytes option \<times> nat) result" where
  "redisFormatCommandArgv M target argv =
     (if \<not> target then Inr (-1, None, 0)
      else
        bind_result (arguments argv) (\<lambda>ws.
          let totlen = of_nat (sum_list (map (bulklen \<circ> length) ws)) + (1 + countDigits (of_nat (length ws)) + 2) in
          bind_result (build_command M 0 ws totlen) (\<lambda>cmd.
            case cmd of
              None \<Rightarrow> Inr (-1, None, 0)
            | Some out \<Rightarrow> Inr (sint totlen, Some out, 1))))"

end
