(* ===== verification/Hiredis_Roundtrip.thy ===== *)
theory Hiredis_Roundtrip
  imports Hiredis_Resp
begin

text \<open>
  The machine reads the encoding of a value: step by step the reply is built in fresh nodes and linked into its
  parent, and the stack goes on to the next task.
\<close>

section \<open>Building one object\<close>

definition heap_ok :: "reply_heap \<Rightarrow> bool" where
  "heap_ok h \<longleftrightarrow> rh_oracle h = (\<lambda>_. True) \<and> (\<forall>p\<ge>rh_next h. rh_nodes h p = None)"

text \<open>The parent of the top task has a vector with a place for it.\<close>

definition parent_ready :: "nat tasks \<Rightarrow> reply_heap \<Rightarrow> bool" where
  "parent_ready ts h \<longleftrightarrow>
     (case ts of
        task # parent # _ \<Rightarrow>
          (\<exists>q r els. task_obj parent = Some (Object q) \<and> q < rh_next h \<and> rh_nodes h q = Some r \<and>
             is_aggregate (Some (rp_type r)) \<and> rp_element r = Some els \<and>
             0 \<le> task_idx task \<and> task_idx task < int (length els))
      | _ \<Rightarrow> True)"

definition linked :: "nat tasks \<Rightarrow> nat \<Rightarrow> (nat \<Rightarrow> redisReply option) \<Rightarrow> nat \<Rightarrow> redisReply option" where
  "linked ts p m =
     (case ts of
        task # parent # _ \<Rightarrow>
          (case task_obj parent of
             Some (Object q) \<Rightarrow>
               m(q := map_option (\<lambda>r. r\<lparr>rp_element := map_option (\<lambda>els. els[nat (task_idx task) := Some p]) (rp_element r)\<rparr>) (m q))
           | _ \<Rightarrow> m)
      | _ \<Rightarrow> m)"

definition placed :: "nat tasks \<Rightarrow> redisReply \<Rightarrow> nat \<Rightarrow> reply_heap \<Rightarrow> reply_heap" where
  "placed ts r k h =
     h\<lparr>rh_nodes := linked ts (rh_next h) ((rh_nodes h)(rh_next h \<mapsto> r)), rh_next := rh_next h + 1,
       rh_calls := rh_calls h + k\<rparr>"

lemma link_parent_ok:
  assumes "parent_ready ts h" "rh_nodes h1 = (rh_nodes h)(rh_next h \<mapsto> r)"
  shows "link_parent ts (rh_next h) h1 =
    Inr (Some (Object (rh_next h)), h1\<lparr>rh_nodes := linked ts (rh_next h) (rh_nodes h1)\<rparr>)"
proof (cases "\<exists>task parent us. ts = task # parent # us")
  case True
  then obtain task parent us where ts: "ts = task # parent # us" by blast
  obtain q rq els where q: "task_obj parent = Some (Object q)" "q < rh_next h" "rh_nodes h q = Some rq"
    "is_aggregate (Some (rp_type rq))" "rp_element rq = Some els" "0 \<le> task_idx task" "task_idx task < int (length els)"
    using assms(1) by (auto simp: parent_ready_def ts)
  then have "rh_nodes h1 q = Some rq" using assms(2) by simp
  then show ?thesis using q by (simp add: link_parent_def linked_def ts vec_set_def fun_upd_def)
next
  case False
  then show ?thesis by (auto simp: link_parent_def linked_def split: list.split)
qed

lemma allocate_ok: "heap_ok h \<Longrightarrow> allocate h = (True, h\<lparr>rh_calls := rh_calls h + 1\<rparr>)"
  by (simp add: allocate_def heap_ok_def)

definition blank :: "reply_kind \<Rightarrow> redisReply" where
  "blank t = \<lparr>rp_type = t, rp_integer = 0, rp_dval = 0, rp_len = 0, rp_str = None, rp_elements = 0, rp_element = None\<rparr>"

definition with_node :: "redisReply \<Rightarrow> nat \<Rightarrow> reply_heap \<Rightarrow> reply_heap" where
  "with_node r k h =
     h\<lparr>rh_nodes := (rh_nodes h)(rh_next h \<mapsto> r), rh_next := rh_next h + 1, rh_calls := rh_calls h + k\<rparr>"

lemma createReplyObject_ok:
  "heap_ok h \<Longrightarrow> createReplyObject t h = (Some (rh_next h), with_node (blank t) 1 h)"
  by (simp add: createReplyObject_def allocate_ok with_node_def blank_def)

lemma allocate_with_node: "heap_ok h \<Longrightarrow> allocate (with_node r k h) = (True, with_node r (k + 1) h)"
  by (simp add: allocate_def heap_ok_def with_node_def)

lemma write_with_node: "write_node (rh_next h) f (with_node r k h) = Inr (with_node (f r) k h)"
  by (simp add: write_node_def with_node_def)

lemma link_with_node:
  "parent_ready ts h \<Longrightarrow>
     link_parent ts (rh_next h) (with_node r k h) = Inr (Some (Object (rh_next h)), placed ts r k h)"
  using link_parent_ok [of ts h "with_node r k h" r] by (simp add: with_node_def placed_def)

lemmas create_steps = createReplyObject_ok allocate_with_node write_with_node link_with_node

lemma create_plain_ok:
  assumes "heap_ok h" "parent_ready ts h"
  shows "create_plain t f ts h = Inr (Some (Object (rh_next h)), placed ts (f (blank t)) 1 h)"
  using assms by (simp add: create_plain_def create_steps)

lemma createStringObject_ok:
  assumes "heap_ok h" "parent_ready (cur # us) h" "task_type cur = Some t" "t \<in> {REPLY_ERROR, REPLY_STATUS, REPLY_STRING}"
    "len \<le> length p"
  shows "createStringObject (cur # us) p len h =
    Inr (Some (Object (rh_next h)), placed (cur # us) ((blank t)\<lparr>rp_str := Some (take len p @ [0]), rp_len := len\<rparr>) 2 h)"
  using assms by (auto simp: createStringObject_def create_steps numeral_2_eq_2)

lemma createDoubleObject_ok:
  assumes "heap_ok h" "parent_ready ts h"
  shows "createDoubleObject ts d txt h =
    Inr (Some (Object (rh_next h)), placed ts ((blank REPLY_DOUBLE)\<lparr>rp_dval := d, rp_str := Some (txt @ [0])\<rparr>) 2 h)"
  using assms by (simp add: createDoubleObject_def create_steps numeral_2_eq_2)

lemma createArrayObject_ok:
  assumes "heap_ok h" "parent_ready (cur # us) h" "task_type cur = Some t"
  shows "\<exists>k. createArrayObject (cur # us) n h =
    Inr (Some (Object (rh_next h)), placed (cur # us)
      ((blank t)\<lparr>rp_element := (if 0 < n then Some (replicate n None) else None), rp_elements := n\<rparr>) k h)"
  using assms by (cases "0 < n") (auto simp: createArrayObject_def create_steps)

text \<open>What a value leaves behind: its nodes, the link in the parent, and all else as it was.\<close>

definition after_value :: "nat tasks \<Rightarrow> resp \<Rightarrow> reply_heap \<Rightarrow> reply_heap \<Rightarrow> bool" where
  "after_value ts v h h' \<longleftrightarrow>
     heap_ok h' \<and> rh_next h' = rh_next h + nodes v \<and> reply_at (rh_nodes h') (rh_next h) v \<and>
     (\<forall>a<rh_next h. rh_nodes h' a = linked ts (rh_next h) (rh_nodes h) a)"

lemma linked_other:
  assumes "parent_ready ts h" "rh_next h \<le> a"
  shows "linked ts p m a = m a"
  using assms by (auto simp: linked_def parent_ready_def split: list.split option.split reply_object.split)

lemma linked_cong: "(\<And>b. b < n \<Longrightarrow> m b = m' b) \<Longrightarrow> a < n \<Longrightarrow> linked ts p m a = linked ts p m' a"
  by (auto simp: linked_def split: list.split option.split reply_object.split)

lemma placed_props:
  assumes "heap_ok h" "parent_ready ts h"
  shows "heap_ok (placed ts r k h)" "rh_next (placed ts r k h) = rh_next h + 1"
    "rh_nodes (placed ts r k h) (rh_next h) = Some r"
    "a < rh_next h \<Longrightarrow> rh_nodes (placed ts r k h) a = linked ts (rh_next h) (rh_nodes h) a"
proof -
  have "\<forall>p\<ge>Suc (rh_next h). rh_nodes (placed ts r k h) p = None"
    using assms(1) linked_other [OF assms(2)] by (simp add: placed_def heap_ok_def)
  then show "heap_ok (placed ts r k h)" using assms(1) by (simp add: heap_ok_def placed_def)
  show "rh_next (placed ts r k h) = rh_next h + 1" by (simp add: placed_def)
  show "rh_nodes (placed ts r k h) (rh_next h) = Some r"
    using linked_other [OF assms(2)] by (simp add: placed_def)
  show "a < rh_next h \<Longrightarrow> rh_nodes (placed ts r k h) a = linked ts (rh_next h) (rh_nodes h) a"
    by (auto simp: placed_def intro!: linked_cong [of "rh_next h"])
qed

lemma after_leaf:
  assumes "heap_ok h" "parent_ready ts h" "leaf_is v r"
  shows "after_value ts v h (placed ts r k h)"
proof -
  note p = placed_props [OF assms(1,2), where r = r and k = k]
  have n: "nodes v = 1" using assms(3) by (cases v) auto
  have "reply_at (rh_nodes (placed ts r k h)) (rh_next h) v"
    using p(3) assms(3) by (cases v) auto
  then show ?thesis using p n by (simp add: after_value_def)
qed

section \<open>Reading a leaf\<close>

lemma type_of_byte_simps [simp]:
  "type_of_byte 36 = Some REPLY_STRING" "type_of_byte 43 = Some REPLY_STATUS" "type_of_byte 45 = Some REPLY_ERROR"
  "type_of_byte 58 = Some REPLY_INTEGER" "type_of_byte 35 = Some REPLY_BOOL" "type_of_byte 44 = Some REPLY_DOUBLE"
  by (simp_all add: type_of_byte_def)

lemma type_of_agg_byte [simp]: "is_aggregate (Some t) \<Longrightarrow> type_of_byte (agg_byte t) = Some t"
  by (auto simp: type_of_byte_def agg_byte_def is_aggregate_def)

lemma cr_not_decimal: "13 \<notin> set (int_decimal n)"
proof -
  have "13 \<notin> set (nat_decimal k)" for k
    using nat_decimal_digits [of k] by (auto simp: isdigit_unat)
  then show ?thesis by (auto simp: int_decimal_def)
qed

lemma find_crlf_text:
  assumes "13 \<notin> set txt"
  shows "find_crlf (txt @ crlf @ s) = Some (length txt)" "take (length txt) (txt @ crlf @ s) = txt"
    "drop (length txt + 2) (txt @ crlf @ s) = s"
  using find_crlf_line [OF assms, of s] by simp_all

lemma string2ll_decimal: "LLONG_MIN \<le> n \<Longrightarrow> n \<le> LLONG_MAX \<Longrightarrow> string2ll (int_decimal n) = Some n"
  by (simp add: string2ll_iff)

definition moved ::
    "nat tasks \<Rightarrow> nat reply_object option \<Rightarrow> bytes \<Rightarrow> reply_heap \<Rightarrow> (bool \<times> nat view \<times> reply_heap) result" where
  "moved ts reply s h = bind_result (moveToNextTask ts) (\<lambda>ts'. Inr (True, Pending ts' reply s, h))"

lemma default_fields [simp]:
  "createString defaultFunctions = Some createStringObject" "createArray defaultFunctions = Some createArrayObject"
  "createInteger defaultFunctions = Some createIntegerObject" "createDouble defaultFunctions = Some createDoubleObject"
  "createNil defaultFunctions = Some createNilObject" "createBool defaultFunctions = Some createBoolObject"
  "freeObject defaultFunctions = Some freeReplyObject"
  by (simp_all add: defaultFunctions_def)

lemma step_line:
  assumes "task_type cur = None" "type_of_byte b = Some t" "t \<notin> {REPLY_STRING, REPLY_ARRAY, REPLY_MAP, REPLY_SET}"
    "13 \<notin> set txt"
    "line_object sd defaultFunctions t (cur\<lparr>task_type := Some t\<rparr> # us) (txt @ crlf @ s) (length txt) h =
       Inr (Inr (Some ob, h'))"
  shows "stream_step sd defaultFunctions (cur # us) reply (b # txt @ crlf @ s) h =
    moved (cur\<lparr>task_type := Some t\<rparr> # us) (root_reply (cur # us) ob reply) s h'"
  using assms(1-3,5) find_crlf_text [OF assms(4), of s]
  by (simp add: stream_step_def stream_typed_def typed_outcome_def line_outcome_def built_def moved_def root_reply_def
      del: take_append drop_append append.simps append_Cons)

lemma step_bulk:
  assumes "task_type cur = None"
    "bulk_outcome defaultFunctions (cur\<lparr>task_type := Some REPLY_STRING\<rparr> # us) s1 h = Inr (Done ob n h')"
  shows "stream_step sd defaultFunctions (cur # us) reply (36 # s1) h =
    moved (cur\<lparr>task_type := Some REPLY_STRING\<rparr> # us) (root_reply (cur # us) ob reply) (drop n s1) h'"
  using assms
  by (simp add: stream_step_def stream_typed_def typed_outcome_def moved_def root_reply_def)

lemma bulk_length:
  assumes "k + 2 + len + 2 < 2147483648"
  shows "unat (of_nat (k + 2) + word_of_int (int len + 2) :: u32) = k + 2 + (len + 2)"
proof -
  have "word_of_int (int len + 2) = (of_nat (len + 2) :: u32)" by simp
  then have "unat (of_nat (k + 2) + word_of_int (int len + 2) :: u32) = unat (of_nat ((k + 2) + (len + 2)) :: u32)"
    by (simp only: of_nat_add)
  also have "\<dots> = (k + 2) + (len + 2)"
    by (rule unat_of_nat_u32) (use assms in simp)
  finally show ?thesis .
qed

lemma leaf_step:
  assumes "heap_ok h" "parent_ready (cur # us) h" "task_type cur = None" "resp_ok sd d v"
    "length (encode v @ s) < 2147483648" "\<And>t vs. v \<noteq> RAggregate t vs"
  shows "\<exists>t r k. leaf_is v r \<and>
    stream_step sd defaultFunctions (cur # us) reply (encode v @ s) h =
      moved (cur\<lparr>task_type := Some t\<rparr> # us) (root_reply (cur # us) (Object (rh_next h)) reply) s (placed (cur # us) r k h)"
proof -
  have pr: "parent_ready (cur\<lparr>task_type := Some t\<rparr> # us) h" for t
    using assms(2) by (simp add: parent_ready_def split: list.splits)
  have pl: "placed (cur\<lparr>task_type := Some t\<rparr> # us) r k h = placed (cur # us) r k h" for t r k
    by (simp add: placed_def linked_def cong: list.case_cong option.case_cong reply_object.case_cong)
  note plain = create_plain_ok [OF assms(1) pr]
  have line: ?thesis
    if "encode v = b # l @ crlf" "type_of_byte b = Some t" "t \<notin> {REPLY_STRING, REPLY_ARRAY, REPLY_MAP, REPLY_SET}"
      "13 \<notin> set l" "leaf_is v r"
      "line_object sd defaultFunctions t (cur\<lparr>task_type := Some t\<rparr> # us) (l @ crlf @ s) (length l) h =
         Inr (Inr (Some (Object (rh_next h)), placed (cur # us) r k h))" for b t l r k
    using step_line [OF assms(3) that(2-4,6), of reply] that(1,5) by auto
  show ?thesis
  proof (cases v)
    case (RStatus l)
    show ?thesis
      by (rule line [of 43 l REPLY_STATUS "(blank REPLY_STATUS)\<lparr>rp_str := Some (l @ [0]), rp_len := length l\<rparr>" 2])
        (use assms(4) RStatus in \<open>simp_all add: line_object_def createStringObject_ok [OF assms(1) pr] pl blank_def\<close>)
  next
    case (RError l)
    show ?thesis
      by (rule line [of 45 l REPLY_ERROR "(blank REPLY_ERROR)\<lparr>rp_str := Some (l @ [0]), rp_len := length l\<rparr>" 2])
        (use assms(4) RError in \<open>simp_all add: line_object_def createStringObject_ok [OF assms(1) pr] pl blank_def\<close>)
  next
    case (RInteger n)
    show ?thesis
      by (rule line [of 58 "int_decimal n" REPLY_INTEGER "(blank REPLY_INTEGER)\<lparr>rp_integer := n\<rparr>" 1])
        (use assms(4) RInteger cr_not_decimal in
          \<open>simp_all add: line_object_def string2ll_decimal createIntegerObject_def plain pl blank_def\<close>)
  next
    case (RBool b)
    show ?thesis
      by (rule line [of 35 "[if b then 116 else 102]" REPLY_BOOL "(blank REPLY_BOOL)\<lparr>rp_integer := (if b then 1 else 0)\<rparr>" 1])
        (use RBool in \<open>simp_all add: line_object_def createBoolObject_def plain pl blank_def\<close>)
  next
    case (RDouble l d')
    show ?thesis
      by (rule line [of 44 l REPLY_DOUBLE "(blank REPLY_DOUBLE)\<lparr>rp_dval := d', rp_str := Some (l @ [0])\<rparr>" 2])
        (use assms(4) RDouble in \<open>simp_all add: line_object_def createDoubleObject_ok [OF assms(1) pr] pl blank_def\<close>)
  next
    case RNil
    let ?l = "int_decimal (-1)"
    note f = find_crlf_text [OF cr_not_decimal [of "-1"], of s]
    have "bulk_outcome defaultFunctions (cur\<lparr>task_type := Some REPLY_STRING\<rparr> # us) (?l @ crlf @ s) h =
        Inr (Done (Object (rh_next h)) (length ?l + 2) (placed (cur # us) (blank REPLY_NIL) 1 h))"
      using string2ll_decimal [of "-1"] unfolding bulk_outcome_def f option.case
      by (simp add: LLONG_MIN_def LLONG_MAX_def call_fn_def createNilObject_def plain pl built_def)
    from step_bulk [OF assms(3) this, of sd reply] show ?thesis
      unfolding f(3) using RNil by (intro exI [of _ REPLY_STRING] exI [of _ "blank REPLY_NIL"] exI [of _ 1]) (simp add: blank_def)
  next
    case (RString l)
    let ?l = "int_decimal (int (length l))" and ?k = "length (int_decimal (int (length l)))"
    let ?r = "(blank REPLY_STRING)\<lparr>rp_str := Some (l @ [0]), rp_len := length l\<rparr>"
    note f = find_crlf_text [OF cr_not_decimal [of "int (length l)"], of "l @ crlf @ s"]
    have small: "?k + 2 + length l + 2 < 2147483648" using assms(5) RString by simp
    note bl = bulk_length [OF small]
    have "bulk_outcome defaultFunctions (cur\<lparr>task_type := Some REPLY_STRING\<rparr> # us) (?l @ crlf @ l @ crlf @ s) h =
        Inr (Done (Object (rh_next h)) (?k + 2 + (length l + 2)) (placed (cur # us) ?r 2 h))"
    proof -
      have s2: "string2ll ?l = Some (int (length l))"
        using small by (intro string2ll_decimal) (simp_all add: LLONG_MIN_def LLONG_MAX_def)
      have "\<not> LLONG_MAX < int (?k + 2) + (int (length l) + 2)" using small by (simp add: LLONG_MAX_def)
      moreover have "createStringObject (cur\<lparr>task_type := Some REPLY_STRING\<rparr> # us) (l @ crlf @ s) (length l) h =
          Inr (Some (Object (rh_next h)), placed (cur # us) ?r 2 h)"
        by (simp add: createStringObject_ok [OF assms(1) pr] pl)
      ultimately show ?thesis
        unfolding bulk_outcome_def f option.case s2 Let_def bl by (simp add: built_def)
    qed
    moreover have "drop (?k + 2 + (length l + 2)) (?l @ crlf @ l @ crlf @ s) = s"
    proof -
      have "drop (?k + 2 + (length l + 2)) (?l @ crlf @ l @ crlf @ s) =
          drop (length l + 2) (drop (?k + 2) (?l @ crlf @ l @ crlf @ s))" by (simp only: drop_drop add.commute)
      then show ?thesis unfolding f(3) by simp
    qed
    ultimately have "stream_step sd defaultFunctions (cur # us) reply (36 # ?l @ crlf @ l @ crlf @ s) h =
        moved (cur\<lparr>task_type := Some REPLY_STRING\<rparr> # us) (root_reply (cur # us) (Object (rh_next h)) reply) s
          (placed (cur # us) ?r 2 h)"
      using step_bulk [OF assms(3)] by metis
    then show ?thesis
      using RString by (intro exI [of _ REPLY_STRING] exI [of _ ?r] exI [of _ 2]) (simp add: blank_def)
  qed (use assms in auto)
qed

section \<open>Steps of the machine\<close>

inductive parses ::
    "strtod \<Rightarrow> nat tasks \<times> nat reply_object option \<times> bytes \<times> reply_heap \<Rightarrow>
      nat tasks \<times> nat reply_object option \<times> bytes \<times> reply_heap \<Rightarrow> bool" for sd where
  parses_refl: "parses sd x x"
| parses_step:
    "stream_step sd defaultFunctions ts reply s h = Inr (True, Pending ts1 reply1 s1, h1) \<Longrightarrow>
     parses sd (ts1, reply1, s1, h1) x \<Longrightarrow> parses sd (ts, reply, s, h) x"

lemma parses_trans: "parses sd x y \<Longrightarrow> parses sd y z \<Longrightarrow> parses sd x z"
  by (induction rule: parses.induct) (auto intro: parses_step)

lemma parses_moved:
  assumes "stream_step sd defaultFunctions ts reply s h = moved ts0 reply1 s1 h1" "moveToNextTask ts0 = Inr ts1"
  shows "parses sd (ts, reply, s, h) (ts1, reply1, s1, h1)"
  by (rule parses_step [OF _ parses_refl]) (simp add: assms moved_def)

fun continue_run :: "strtod \<Rightarrow> nat tasks \<times> nat reply_object option \<times> bytes \<times> reply_heap \<Rightarrow>
      (nat reply_object list \<times> nat view \<times> reply_heap) result" where
  "continue_run sd (ts, reply, s, h) =
     (if ts = [] then prepend [the reply] (stream_run sd defaultFunctions [new_task (-1)] None s h)
      else stream_run sd defaultFunctions ts reply s h)"

lemma parses_continue: "parses sd x y \<Longrightarrow> fst x \<noteq> [] \<Longrightarrow> continue_run sd x = continue_run sd y"
proof (induction rule: parses.induct)
  case (parses_step ts reply s h ts1 reply1 s1 h1 x)
  have step: "continue_run sd (ts, reply, s, h) = continue_run sd (ts1, reply1, s1, h1)"
    using parses_step.hyps(1) parses_step.prems stream_run.simps [of sd defaultFunctions ts reply s h]
    by (simp add: prepend_def)
  show ?case
  proof (cases "ts1 = []")
    case True
    then have "x = (ts1, reply1, s1, h1)"
      using parses_step.hyps(2) True by (auto elim: parses.cases simp: stream_step_def)
    then show ?thesis using step by simp
  next
    case False
    then show ?thesis using step parses_step.IH by simp
  qed
qed simp

section \<open>Reading a value\<close>

definition parses_value :: "strtod \<Rightarrow> nat \<Rightarrow> resp \<Rightarrow> bool" where
  "parses_value sd d v \<longleftrightarrow>
     (\<forall>cur us reply s h.
        heap_ok h \<and> parent_ready (cur # us) h \<and> task_type cur = None \<and> d + length (cur # us) \<le> 9 \<and>
        length (encode v @ s) < 2147483648 \<longrightarrow>
        (\<exists>cur' h'. task_idx cur' = task_idx cur \<and> after_value (cur # us) v h h' \<and>
           (\<forall>ts'. moveToNextTask (cur' # us) = Inr ts' \<longrightarrow>
              parses sd (cur # us, reply, encode v @ s, h)
                (ts', root_reply (cur # us) (Object (rh_next h)) reply, s, h'))))"

lemma parses_valueD:
  assumes "parses_value sd d v" "heap_ok h" "parent_ready (cur # us) h" "task_type cur = None"
    "d + length (cur # us) \<le> 9" "length (encode v @ s) < 2147483648"
  obtains cur' h' where "task_idx cur' = task_idx cur" "after_value (cur # us) v h h'"
    "\<And>ts'. moveToNextTask (cur' # us) = Inr ts' \<Longrightarrow>
       parses sd (cur # us, reply, encode v @ s, h) (ts', root_reply (cur # us) (Object (rh_next h)) reply, s, h')"
  using assms unfolding parses_value_def by blast

lemma leaf_parses:
  assumes "resp_ok sd d v" "\<And>t vs. v \<noteq> RAggregate t vs"
  shows "parses_value sd d v"
  unfolding parses_value_def
proof (intro allI impI, elim conjE)
  fix cur us reply s h
  assume a: "heap_ok h" "parent_ready (cur # us) h" "task_type cur = None" "length (encode v @ s) < 2147483648"
  obtain t r k where l: "leaf_is v r"
    "stream_step sd defaultFunctions (cur # us) reply (encode v @ s) h =
       moved (cur\<lparr>task_type := Some t\<rparr> # us) (root_reply (cur # us) (Object (rh_next h)) reply) s (placed (cur # us) r k h)"
    using leaf_step [OF a(1-3) assms(1) a(4) assms(2), of reply] by blast
  show "\<exists>cur' h'. task_idx cur' = task_idx cur \<and> after_value (cur # us) v h h' \<and>
      (\<forall>ts'. moveToNextTask (cur' # us) = Inr ts' \<longrightarrow>
         parses sd (cur # us, reply, encode v @ s, h)
           (ts', root_reply (cur # us) (Object (rh_next h)) reply, s, h'))"
    using after_leaf [OF a(1,2) l(1), of k] parses_moved [OF l(2)]
    by (intro exI [of _ "cur\<lparr>task_type := Some t\<rparr>"] exI [of _ "placed (cur # us) r k h"]) simp
qed

lemma elements_parse:
  assumes "\<And>v. v \<in> set vs \<Longrightarrow> parses_value sd d v" "vs \<noteq> []"
    "task_type c = None" "task_idx c = int i" "task_elements a = int (i + length vs)" "is_aggregate (task_type a)"
    "task_obj a = Some (Object q)" "heap_ok h" "q < rh_next h" "rh_nodes h q = Some r" "is_aggregate (Some (rp_type r))"
    "rp_element r = Some els" "length els = i + length vs" "i + length vs \<le> 2147483647"
    "length (concat (map encode vs) @ s) < 2147483648" "d + length (c # a # us) \<le> 9"
  shows "\<exists>h' news. heap_ok h' \<and> rh_next h' = rh_next h + sum_list (map nodes vs) \<and>
    elements_at (rh_nodes h') (rh_next h) news vs \<and>
    rh_nodes h' q = Some (r\<lparr>rp_element := Some (take i els @ news)\<rparr>) \<and>
    (\<forall>b<rh_next h. b \<noteq> q \<longrightarrow> rh_nodes h' b = rh_nodes h b) \<and>
    (\<forall>ts'. moveToNextTask (a # us) = Inr ts' \<longrightarrow>
       parses sd (c # a # us, reply, concat (map encode vs) @ s, h) (ts', reply, s, h'))"
  using assms
proof (induction vs arbitrary: c i h r els)
  case (Cons v vs)
  note p = Cons.prems
  let ?e = "concat (map encode vs) @ s"
  have pr: "parent_ready (c # a # us) h" using p by (auto simp: parent_ready_def)
  obtain c' h1 where c': "task_idx c' = int i" and av: "after_value (c # a # us) v h h1"
    and ps: "\<And>ts'. moveToNextTask (c' # a # us) = Inr ts' \<Longrightarrow>
       parses sd (c # a # us, reply, encode v @ ?e, h) (ts', root_reply (c # a # us) (Object (rh_next h)) reply, ?e, h1)"
    using parses_valueD [OF p(1) p(8) pr p(3), of v ?e reply] p(4,15,16) by auto
  have root: "root_reply (c # a # us) (Object (rh_next h)) reply = reply" by (simp add: root_reply_def)
  let ?els = "els[i := Some (rh_next h)]" and ?r = "r\<lparr>rp_element := Some (els[i := Some (rh_next h)])\<rparr>"
  have h1: "heap_ok h1" "rh_next h1 = rh_next h + nodes v" "reply_at (rh_nodes h1) (rh_next h) v"
    "\<And>b. b < rh_next h \<Longrightarrow> rh_nodes h1 b = linked (c # a # us) (rh_next h) (rh_nodes h) b"
    using av by (auto simp: after_value_def)
  have q1: "rh_nodes h1 q = Some ?r" using h1(4) [of q] p(4,7,9,10,12) by (simp add: linked_def)
  have o1: "b < rh_next h \<Longrightarrow> b \<noteq> q \<Longrightarrow> rh_nodes h1 b = rh_nodes h b" for b
    using h1(4) [of b] p(7) by (simp add: linked_def)
  have sub: "sub_int32 (task_elements a) 1 = Inr (int (i + length vs))"
    using p(5,14) by (simp add: sub_int32_def int32_bounds)
  show ?case
  proof (cases "vs = []")
    case True
    have "moveToNextTask (c' # a # us) = moveToNextTask (a # us)"
      using p(6) c' sub True by simp
    moreover have "elements_at (rh_nodes h1) (rh_next h) [Some (rh_next h)] [v]" using h1(3) by simp
    moreover have "?els = take i els @ [Some (rh_next h)]" using p(13) True by (simp add: list_update_append upd_conv_take_nth_drop)
    ultimately show ?thesis using ps root h1 q1 o1 True
      by (intro exI [of _ h1] exI [of _ "[Some (rh_next h)]"]) simp
  next
    case False
    let ?c = "c'\<lparr>task_type := None, task_elements := -1, task_idx := int i + 1\<rparr>"
    have move: "moveToNextTask (c' # a # us) = Inr (?c # a # us)"
      using p(5,6) c' sub False by simp
    have first: "parses sd (c # a # us, reply, encode v @ ?e, h) (?c # a # us, reply, ?e, h1)"
      using ps [OF move] root by simp
    have "\<exists>h' news. heap_ok h' \<and> rh_next h' = rh_next h1 + sum_list (map nodes vs) \<and>
        elements_at (rh_nodes h') (rh_next h1) news vs \<and>
        rh_nodes h' q = Some (?r\<lparr>rp_element := Some (take (i + 1) ?els @ news)\<rparr>) \<and>
        (\<forall>b<rh_next h1. b \<noteq> q \<longrightarrow> rh_nodes h' b = rh_nodes h1 b) \<and>
        (\<forall>ts'. moveToNextTask (a # us) = Inr ts' \<longrightarrow>
           parses sd (?c # a # us, reply, concat (map encode vs) @ s, h1) (ts', reply, s, h'))"
      by (rule Cons.IH) (use p False h1 q1 in auto)
    then obtain h' news where h': "heap_ok h'" "rh_next h' = rh_next h1 + sum_list (map nodes vs)"
      "elements_at (rh_nodes h') (rh_next h1) news vs"
      "rh_nodes h' q = Some (?r\<lparr>rp_element := Some (take (i + 1) ?els @ news)\<rparr>)"
      "\<And>b. b < rh_next h1 \<Longrightarrow> b \<noteq> q \<Longrightarrow> rh_nodes h' b = rh_nodes h1 b"
      "\<And>ts'. moveToNextTask (a # us) = Inr ts' \<Longrightarrow>
         parses sd (?c # a # us, reply, concat (map encode vs) @ s, h1) (ts', reply, s, h')"
      by blast
    have "reply_at (rh_nodes h') (rh_next h) v"
      using h1(2,3) h'(5) p(9) reply_at_cong(1) [of "rh_next h" v "rh_nodes h'" "rh_nodes h1"] by auto
    then have "elements_at (rh_nodes h') (rh_next h) (Some (rh_next h) # news) (v # vs)"
      using h'(3) h1(2) by simp
    moreover have "take (i + 1) ?els = take i els @ [Some (rh_next h)]"
      using p(13) by (simp add: take_Suc_conv_app_nth)
    moreover have "b < rh_next h \<Longrightarrow> b \<noteq> q \<Longrightarrow> rh_nodes h' b = rh_nodes h b" for b
      using h'(5) [of b] o1 h1(2) by simp
    ultimately show ?thesis using h'(1,2,4) h1(2) parses_trans [OF first h'(6)]
      by (intro exI [of _ h'] exI [of _ "Some (rh_next h) # news"]) simp
  qed
qed simp

lemma aggregate_step:
  assumes "heap_ok h" "parent_ready (cur # us) h" "task_type cur = None" "is_aggregate (Some t)"
    "t = REPLY_MAP \<longrightarrow> even n" "n \<le> 2147483647" "length us < 8"
  shows "\<exists>k. let r = (blank t)\<lparr>rp_element := (if 0 < n then Some (replicate n None) else None), rp_elements := n\<rparr>;
      cur1 = cur\<lparr>task_type := Some t\<rparr>; ob = Object (rh_next h) in
    stream_step sd defaultFunctions (cur # us) reply (agg_byte t # int_decimal (int (agg_count t n)) @ crlf @ s) h =
      (if 0 < n
       then Inr (True, Pending (new_task 0 # cur1\<lparr>task_elements := int n, task_obj := Some ob\<rparr> # us)
                   (root_reply (cur # us) ob reply) s, placed (cur # us) r k h)
       else moved (cur1 # us) (root_reply (cur # us) ob reply) s (placed (cur # us) r k h))"
proof -
  let ?cur = "cur\<lparr>task_type := Some t\<rparr>" and ?n = "int (agg_count t n)"
  let ?r = "(blank t)\<lparr>rp_element := (if 0 < n then Some (replicate n None) else None), rp_elements := n\<rparr>"
  have pr: "parent_ready (?cur # us) h"
    using assms(2) by (simp add: parent_ready_def split: list.splits)
  have pl: "placed (?cur # us) r k h = placed (cur # us) r k h" for r k
    by (simp add: placed_def linked_def cong: list.case_cong option.case_cong reply_object.case_cong)
  obtain k where cr: "createArrayObject (?cur # us) n h = Inr (Some (Object (rh_next h)), placed (cur # us) ?r k h)"
    using createArrayObject_ok [OF assms(1) pr, of t n] pl by auto
  note f = find_crlf_text [OF cr_not_decimal [of ?n], of s]
  have le: "agg_count t n \<le> n" by (simp add: agg_count_def)
  have num: "string2ll (int_decimal ?n) = Some ?n"
    using le assms(6) by (intro string2ll_decimal) (simp_all add: LLONG_MIN_def LLONG_MAX_def)
  have els: "(if t = REPLY_MAP then ?n * 2 else ?n) = int n"
    using assms(5) by (auto simp: agg_count_def elim: evenE)
  have big: "\<not> LLONG_MAX < int n" using assms(6) by (simp add: LLONG_MAX_def)
  have out: "aggregate_outcome defaultFunctions t (?cur # us) (int_decimal ?n @ crlf @ s) h =
      Inr (if 0 < n then Push (Object (rh_next h)) (int n) (length (int_decimal ?n) + 2) (placed (cur # us) ?r k h)
           else Done (Object (rh_next h)) (length (int_decimal ?n) + 2) (placed (cur # us) ?r k h))"
    using assms(7) unfolding aggregate_outcome_def f option.case num Let_def els
    by (simp add: big cr)
  have agg: "t \<noteq> REPLY_STRING" "t = REPLY_ARRAY \<or> t = REPLY_MAP \<or> t = REPLY_SET"
    using assms(4) by (auto simp: is_aggregate_def)
  have "stream_step sd defaultFunctions (cur # us) reply (agg_byte t # int_decimal ?n @ crlf @ s) h =
      bind_result (aggregate_outcome defaultFunctions t (?cur # us) (int_decimal ?n @ crlf @ s) h)
        (apply_outcome defaultFunctions (?cur # us) reply (int_decimal ?n @ crlf @ s) h)"
    using assms(3,4) agg by (simp add: stream_step_def stream_typed_def typed_outcome_def)
  also have "\<dots> = (if 0 < n
       then Inr (True, Pending (new_task 0 # ?cur\<lparr>task_elements := int n, task_obj := Some (Object (rh_next h))\<rparr> # us)
                   (root_reply (cur # us) (Object (rh_next h)) reply) s, placed (cur # us) ?r k h)
       else moved (?cur # us) (root_reply (cur # us) (Object (rh_next h)) reply) s (placed (cur # us) ?r k h))"
  proof -
    have sint: "sint (word_of_int (int n) :: int32) = int n" using assms(6) sint_of_nat_small [of n] by simp
    have root: "root_reply (?cur # us) ob reply = root_reply (cur # us) ob reply" for ob by (simp add: root_reply_def)
    show ?thesis
      unfolding out
      by (cases "0 < n") (simp_all only: bind_result.simps apply_outcome.simps if_True if_False f(3) root moved_def
          pushed_tasks_def list.sel sint simp_thms)
  qed
  finally show ?thesis by (intro exI [of _ k]) (simp add: Let_def)
qed

lemma value_parses: "resp_ok sd d v \<Longrightarrow> parses_value sd d v"
proof (induction v arbitrary: d)
  case (RAggregate t vs)
  have ok: "0 < d" "is_aggregate (Some t)" "length vs \<le> 2147483647" "t = REPLY_MAP \<longrightarrow> even (length vs)"
    "\<And>v. v \<in> set vs \<Longrightarrow> resp_ok sd (d - 1) v" using RAggregate.prems by auto
  let ?n = "length vs"
  let ?r = "(blank t)\<lparr>rp_element := (if 0 < ?n then Some (replicate ?n None) else None), rp_elements := ?n\<rparr>"
  show ?case
    unfolding parses_value_def
  proof (intro allI impI, elim conjE)
    fix cur :: "nat read_task" and us reply s and h :: reply_heap
    let ?cur = "cur\<lparr>task_type := Some t\<rparr>" and ?ob = "Object (rh_next h)"
    let ?a = "?cur\<lparr>task_elements := int ?n, task_obj := Some ?ob\<rparr>"
    let ?e = "concat (map encode vs) @ s" and ?reply = "root_reply (cur # us) ?ob reply"
    assume a: "heap_ok h" "parent_ready (cur # us) h" "task_type cur = None" "d + length (cur # us) \<le> 9"
      "length (encode (RAggregate t vs) @ s) < 2147483648"
    obtain k where step: "stream_step sd defaultFunctions (cur # us) reply (encode (RAggregate t vs) @ s) h =
        (if 0 < ?n then Inr (True, Pending (new_task 0 # ?a # us) ?reply ?e, placed (cur # us) ?r k h)
         else moved (?cur # us) ?reply ?e (placed (cur # us) ?r k h))"
    proof -
      have enc: "encode (RAggregate t vs) @ s = agg_byte t # int_decimal (int (agg_count t ?n)) @ crlf @ ?e" by simp
      have "length us < 8" using a(4) ok(1) by simp
      then show thesis
        using aggregate_step [OF a(1-3) ok(2,4,3), of sd reply ?e] that unfolding Let_def enc by blast
    qed
    let ?h = "placed (cur # us) ?r k h"
    note p = placed_props [OF a(1,2), where r = ?r and k = k]
    show "\<exists>cur' h'. task_idx cur' = task_idx cur \<and> after_value (cur # us) (RAggregate t vs) h h' \<and>
        (\<forall>ts'. moveToNextTask (cur' # us) = Inr ts' \<longrightarrow>
           parses sd (cur # us, reply, encode (RAggregate t vs) @ s, h) (ts', ?reply, s, h'))"
    proof (cases "vs = []")
      case True
      have "reply_at (rh_nodes ?h) (rh_next h) (RAggregate t vs)"
        using p(3) ok(2) True by (simp add: blank_def)
      then have "after_value (cur # us) (RAggregate t vs) h ?h"
        using p True by (simp add: after_value_def)
      moreover have "parses sd (cur # us, reply, encode (RAggregate t vs) @ s, h) (ts', ?reply, s, ?h)"
        if "moveToNextTask (?cur # us) = Inr ts'" for ts'
        by (rule parses_moved [OF _ that]) (use step True in simp)
      ultimately show ?thesis by (intro exI [of _ ?cur] exI [of _ ?h]) simp
    next
      case False
      have "\<exists>h' news. heap_ok h' \<and> rh_next h' = rh_next ?h + sum_list (map nodes vs) \<and>
          elements_at (rh_nodes h') (rh_next ?h) news vs \<and>
          rh_nodes h' (rh_next h) = Some (?r\<lparr>rp_element := Some (take 0 (replicate ?n None) @ news)\<rparr>) \<and>
          (\<forall>b<rh_next ?h. b \<noteq> rh_next h \<longrightarrow> rh_nodes h' b = rh_nodes ?h b) \<and>
          (\<forall>ts'. moveToNextTask (?a # us) = Inr ts' \<longrightarrow>
             parses sd (new_task 0 # ?a # us, ?reply, concat (map encode vs) @ s, ?h) (ts', ?reply, s, h'))"
        by (rule elements_parse [where d = "d - 1"])
          (use False p a(4,5) ok RAggregate.IH in \<open>auto simp: new_task_def blank_def\<close>)
      then obtain h' news where h': "heap_ok h'" "rh_next h' = rh_next ?h + sum_list (map nodes vs)"
        "elements_at (rh_nodes h') (rh_next ?h) news vs" "rh_nodes h' (rh_next h) = Some (?r\<lparr>rp_element := Some news\<rparr>)"
        "\<And>b. b < rh_next ?h \<Longrightarrow> b \<noteq> rh_next h \<Longrightarrow> rh_nodes h' b = rh_nodes ?h b"
        "\<And>ts'. moveToNextTask (?a # us) = Inr ts' \<Longrightarrow>
           parses sd (new_task 0 # ?a # us, ?reply, concat (map encode vs) @ s, ?h) (ts', ?reply, s, h')"
        by auto
      have "reply_at (rh_nodes h') (rh_next h) (RAggregate t vs)"
        using h'(3,4) p(2) ok(2) False by (simp add: blank_def)
      moreover have "b < rh_next h \<Longrightarrow> rh_nodes h' b = linked (cur # us) (rh_next h) (rh_nodes h) b" for b
        using h'(5) [of b] p(2,4) by simp
      ultimately have "after_value (cur # us) (RAggregate t vs) h h'"
        using h'(1,2) p(2) by (simp add: after_value_def)
      moreover have "parses sd (cur # us, reply, encode (RAggregate t vs) @ s, h) (ts', ?reply, s, h')"
        if "moveToNextTask (?a # us) = Inr ts'" for ts'
        by (rule parses_step [OF _ h'(6) [OF that]]) (use step False in simp)
      ultimately show ?thesis by (intro exI [of _ ?a] exI [of _ h']) simp
    qed
  qed
qed (auto intro: leaf_parses)

section \<open>Reading a stream of values\<close>

definition address :: "nat reply_object \<Rightarrow> nat option" where
  "address ob = (case ob of Object p \<Rightarrow> Some p | Code _ \<Rightarrow> None)"

definition replies_at :: "(nat \<Rightarrow> redisReply option) \<Rightarrow> nat \<Rightarrow> nat reply_object list \<Rightarrow> resp list \<Rightarrow> bool" where
  "replies_at m p os vs \<longleftrightarrow> elements_at m p (map address os) vs"

lemma value_run:
  assumes "resp_ok sd 8 v" "heap_ok h" "length (encode v @ s) < 2147483648"
  shows "\<exists>h'. after_value [new_task (-1)] v h h' \<and>
    stream_run sd defaultFunctions [new_task (-1)] None (encode v @ s) h =
      prepend [Object (rh_next h)] (stream_run sd defaultFunctions [new_task (-1)] None s h')"
proof -
  have "parent_ready [new_task (-1)] h" "task_type (new_task (-1)) = None"
    by (simp_all add: parent_ready_def new_task_def)
  then obtain cur' h' where av: "after_value [new_task (-1)] v h h'"
    and ps: "\<And>ts'. moveToNextTask [cur'] = Inr ts' \<Longrightarrow>
      parses sd ([new_task (-1)], None, encode v @ s, h)
        (ts', root_reply [new_task (-1)] (Object (rh_next h)) None, s, h')"
    using parses_valueD [OF value_parses [OF assms(1)] assms(2), of "new_task (-1)" "[]" s None] assms(3) by auto
  have "parses sd ([new_task (-1)], None, encode v @ s, h) ([], Some (Object (rh_next h)), s, h')"
    using ps by (simp add: root_reply_def)
  from parses_continue [OF this] show ?thesis using av by auto
qed

lemma values_run:
  assumes "\<And>v. v \<in> set vs \<Longrightarrow> resp_ok sd 8 v" "heap_ok h" "length (concat (map encode vs)) < 2147483648"
  shows "\<exists>os h'. stream_run sd defaultFunctions [new_task (-1)] None (concat (map encode vs)) h =
      Inr (os, Pending [new_task (-1)] None [], h') \<and>
    heap_ok h' \<and> rh_next h' = rh_next h + sum_list (map nodes vs) \<and>
    replies_at (rh_nodes h') (rh_next h) os vs \<and> (\<forall>a<rh_next h. rh_nodes h' a = rh_nodes h a)"
  using assms
proof (induction vs arbitrary: h)
  case Nil
  have "stack_ready [new_task (-1)] None" by (simp add: stack_ready_def new_task_def is_aggregate_def)
  then show ?case using stream_run_empty [of "[new_task (-1)]" None sd defaultFunctions h] Nil
    by (intro exI [of _ "[]"] exI [of _ h]) (simp add: replies_at_def)
next
  case (Cons v vs)
  obtain h1 where av: "after_value [new_task (-1)] v h h1"
    and run: "stream_run sd defaultFunctions [new_task (-1)] None (encode v @ concat (map encode vs)) h =
      prepend [Object (rh_next h)] (stream_run sd defaultFunctions [new_task (-1)] None (concat (map encode vs)) h1)"
    using value_run [of sd v h "concat (map encode vs)"] Cons.prems by auto
  have h1: "heap_ok h1" "rh_next h1 = rh_next h + nodes v" "reply_at (rh_nodes h1) (rh_next h) v"
    "\<And>a. a < rh_next h \<Longrightarrow> rh_nodes h1 a = rh_nodes h a"
    using av by (auto simp: after_value_def linked_def)
  obtain os h' where IH: "stream_run sd defaultFunctions [new_task (-1)] None (concat (map encode vs)) h1 =
      Inr (os, Pending [new_task (-1)] None [], h')"
    "heap_ok h'" "rh_next h' = rh_next h1 + sum_list (map nodes vs)" "replies_at (rh_nodes h') (rh_next h1) os vs"
    "\<And>a. a < rh_next h1 \<Longrightarrow> rh_nodes h' a = rh_nodes h1 a"
    using Cons.IH [of h1] Cons.prems h1(1) by auto
  have "reply_at (rh_nodes h') (rh_next h) v"
    using h1(2,3) IH(5) reply_at_cong(1) [of "rh_next h" v "rh_nodes h'" "rh_nodes h1"] by auto
  then have "replies_at (rh_nodes h') (rh_next h) (Object (rh_next h) # os) (v # vs)"
    using IH(4) h1(2) by (simp add: replies_at_def address_def)
  then show ?case using run IH h1 by (intro exI [of _ "Object (rh_next h) # os"] exI [of _ h']) simp
qed

lemma fresh_reader_ready:
  "redisReaderCreate True (granted junk) = Inr (Some r) \<Longrightarrow> reader_ready r \<and> unread r = 0 \<and> nview r = Pending [new_task (-1)] None []"
  using sdsempty_ok [of "granted junk"]
  by (auto simp: redisReaderCreate_def redisReaderCreateWithFunctions_def reader_ready_def reader_wf_def stack_ready_def
      unread_def rest_of_def view_of_def norm_tasks_def granted_def)

text \<open>The client frees the replies in turn.\<close>

fun free_replies :: "nat reply_object list \<Rightarrow> reply_heap \<Rightarrow> reply_heap result" where
  "free_replies [] h = Inr h"
| "free_replies (ob # obs) h = bind_result (freeReplyObject ob h) (free_replies obs)"

lemma free_replies_ok:
  assumes "replies_at (rh_nodes h) p os vs" "p + sum_list (map nodes vs) \<le> rh_next h"
  shows "free_replies os h = Inr (cleared p (sum_list (map nodes vs)) h)"
  using assms
proof (induction vs arbitrary: p os h)
  case Nil
  then show ?case by (cases os) (auto simp: replies_at_def)
next
  case (Cons v vs)
  obtain os' where os: "os = Object p # os'" "reply_at (rh_nodes h) p v" "replies_at (rh_nodes h) (p + nodes v) os' vs"
    using Cons.prems(1) by (cases os) (auto simp: replies_at_def address_def split: reply_object.splits)
  let ?h = "cleared p (nodes v) h"
  have free: "freeReplyObject (Object p) h = Inr ?h"
    using freeReplyObject_ok [OF os(2)] Cons.prems(2) by simp
  have "replies_at (rh_nodes ?h) (p + nodes v) os' vs"
    using os(3) reply_at_cong(2) [of "p + nodes v" vs "rh_nodes h" "rh_nodes ?h" "map address os'"]
    by (auto simp: replies_at_def cleared_def)
  then have "free_replies os' ?h = Inr (cleared (p + nodes v) (sum_list (map nodes vs)) ?h)"
    using Cons.prems(2) by (intro Cons.IH) (simp_all add: cleared_def)
  then show ?case by (simp add: os(1) free cleared_cleared)
qed

lemma stream_of_Nil_pieces: "concat (map encode vs) = stream_of ps \<Longrightarrow> vs \<noteq> [] \<Longrightarrow> ps \<noteq> []"
proof
  assume "concat (map encode vs) = stream_of ps" "vs \<noteq> []" "ps = []"
  moreover have "encode v \<noteq> []" for v by (cases v) auto
  ultimately show False by (cases vs) (auto simp: stream_of_def)
qed

lemma receive_values:
  assumes "\<And>v. v \<in> set vs \<Longrightarrow> resp_ok sd 8 v" "heap_ok h" "length (stream_of ps) < 2147482624"
    "stream_of ps = concat (map encode vs)" "ps \<noteq> []" "redisReaderCreate True (granted junk) = Inr (Some r)"
  shows "\<exists>os r' h'. receive sd defaultFunctions ps r h = Some (Inr (os, r', h')) \<and>
    heap_ok h' \<and> rh_next h' = rh_next h + sum_list (map nodes vs) \<and>
    replies_at (rh_nodes h') (rh_next h) os vs \<and> (\<forall>a<rh_next h. rh_nodes h' a = rh_nodes h a) \<and>
    nview r' = Pending [new_task (-1)] None []"
proof -
  have r: "reader_ready r" "unread r = 0" "nview r = Pending [new_task (-1)] None []"
    using fresh_reader_ready [OF assms(6)] by simp_all
  obtain os h' where run: "stream_run sd defaultFunctions [new_task (-1)] None (concat (map encode vs)) h =
      Inr (os, Pending [new_task (-1)] None [], h')"
    and h': "heap_ok h'" "rh_next h' = rh_next h + sum_list (map nodes vs)"
      "replies_at (rh_nodes h') (rh_next h) os vs" "\<forall>a<rh_next h. rh_nodes h' a = rh_nodes h a"
    using values_run [of vs sd h] assms(1-4) by auto
  have whole: "resume sd defaultFunctions (view_more (nview r) (stream_of ps)) h = Inr (os, Pending [new_task (-1)] None [], h')"
    using run r(3) assms(4) by simp
  obtain os1 r1 h1 where w: "receive sd defaultFunctions ps r h = Some (Inr (os1, r1, h1))"
    using replies.receive_ok [OF r(1) _ whole] assms(3) r(2) by auto
  then have "os1 = os" "nview r1 = Pending [new_task (-1)] None []" "h1 = h'"
    using replies.receive_run [OF r(1) _ assms(5) w] whole assms(3) r(2) by simp_all
  then show ?thesis using w h' by blast
qed

end
