(* ===== verification/Hiredis_Client.thy ===== *)
theory Hiredis_Client
  imports Hiredis_Roundtrip
begin

text \<open>
  What a client of the reply reader can rely on: the answers do not depend on how the stream arrives, encoded
  values come back as they were sent, and what long lengths do instead.
\<close>

text \<open>What a delivery leaves: the replies, the state and the heap, or \<open>None\<close> for a fault.\<close>

definition answers ::
    "('o reply_object list \<times> 'o redis_reader \<times> 'h) result option \<Rightarrow> ('o reply_object list \<times> 'o view \<times> 'h) option" where
  "answers x = (case x of Some (Inr (os, r, h)) \<Rightarrow> Some (os, nview r, h) | _ \<Rightarrow> None)"

lemma answers_Some_iff:
  "answers x = Some (os, v, h) \<longleftrightarrow> (\<exists>r. x = Some (Inr (os, r, h)) \<and> nview r = v)"
  by (auto simp: answers_def split: option.split sum.split)

text \<open>C14: The calls of the reader return for every stream below 2 GB, and what they answer does not depend on
  where the stream is cut: pieces and the whole give the same replies, the same objects and the same state, and
  one faults where the other does.\<close>

theorem reply_stream_cut:
  assumes "reader_ready r" "unread r + length (stream_of ps) < 2147482624" "ps \<noteq> []"
  shows "receive sd defaultFunctions ps r h \<noteq> None \<and>
    answers (receive sd defaultFunctions ps r h) = answers (receive sd defaultFunctions [(junk, stream_of ps)] r h)"
proof -
  have "answers (receive sd defaultFunctions ps r h) = Some (os, v, h') \<longleftrightarrow>
      answers (receive sd defaultFunctions [(junk, stream_of ps)] r h) = Some (os, v, h')" for os v h'
    using replies.receive_cut [OF assms, where sd = sd and h = h and junk = junk] unfolding answers_Some_iff by metis
  then have "answers (receive sd defaultFunctions ps r h) = answers (receive sd defaultFunctions [(junk, stream_of ps)] r h)"
    by (metis option.exhaust prod_cases3)
  then show ?thesis using receive_returns [OF assms(1,2), of sd defaultFunctions h] by blast
qed

text \<open>Memory of zeros, for the witnesses.\<close>

definition no_junk :: "nat \<Rightarrow> bytes" where "no_junk n = []"

definition no_strtod :: strtod where "no_strtod txt = (0, 0)"

definition fresh_heap :: reply_heap where
  "fresh_heap = \<lparr>rh_nodes = (\<lambda>_. None), rh_next = 1, rh_calls = 0, rh_oracle = (\<lambda>_. True)\<rparr>"

definition fresh_reader :: "nat redis_reader" where
  "fresh_reader = (case redisReaderCreate True (granted no_junk) of Inr (Some r) \<Rightarrow> r)"

lemma fresh_reader_Some: "redisReaderCreate True (granted no_junk) = Inr (Some fresh_reader)"
  using sdsempty_ok [of "granted no_junk"]
  by (auto simp: fresh_reader_def redisReaderCreate_def redisReaderCreateWithFunctions_def granted_def)

theorem reply_stream_cut_witness:
  "answers (receive no_strtod defaultFunctions [(no_junk, [36, 51, 13]), (no_junk, [10, 97, 98]), (no_junk, [99, 13, 10, 58])] fresh_reader fresh_heap) =
   answers (receive no_strtod defaultFunctions [(no_junk, [36, 51, 13, 10, 97, 98, 99, 13, 10, 58])] fresh_reader fresh_heap)"
  using reply_stream_cut [of fresh_reader "[(no_junk, [36, 51, 13]), (no_junk, [10, 97, 98]), (no_junk, [99, 13, 10, 58])]" no_strtod fresh_heap no_junk]
    fresh_reader_ready [OF fresh_reader_Some] by simp

text \<open>C13: Values that are encoded by the protocol, sent as one stream and delivered in any pieces, come back as
  replies in the heap that are these values in order, with nothing left to read; freeing the replies frees every
  node that was built and no other.\<close>

theorem replies_roundtrip:
  assumes "\<And>v. v \<in> set vs \<Longrightarrow> resp_ok sd 8 v" "heap_ok h" "length (stream_of ps) < 2147482624"
    "stream_of ps = concat (map encode vs)" "ps \<noteq> []" "redisReaderCreate True (granted junk) = Inr (Some r)"
  shows "\<exists>os r' h' h''. receive sd defaultFunctions ps r h = Some (Inr (os, r', h')) \<and>
    replies_at (rh_nodes h') (rh_next h) os vs \<and> nview r' = Pending [new_task (-1)] None [] \<and>
    free_replies os h' = Inr h'' \<and> rh_nodes h'' = rh_nodes h"
proof -
  obtain os r' h' where r': "receive sd defaultFunctions ps r h = Some (Inr (os, r', h'))"
    "nview r' = Pending [new_task (-1)] None []"
    and h': "heap_ok h'" "rh_next h' = rh_next h + sum_list (map nodes vs)" "replies_at (rh_nodes h') (rh_next h) os vs"
      "\<forall>a<rh_next h. rh_nodes h' a = rh_nodes h a"
    using receive_values [OF assms] by blast
  let ?h = "cleared (rh_next h) (sum_list (map nodes vs)) h'"
  have free: "free_replies os h' = Inr ?h" using free_replies_ok [OF h'(3)] h'(2) by simp
  have "rh_nodes ?h a = rh_nodes h a" for a
    using h' assms(2) by (cases "a < rh_next h") (auto simp: cleared_def heap_ok_def not_less)
  then have "rh_nodes ?h = rh_nodes h" by (rule ext)
  then show ?thesis using r' h'(3) free by blast
qed

theorem replies_roundtrip_witness:
  "\<exists>os r' h'. receive no_strtod defaultFunctions
      [(no_junk, [42, 50, 13, 10, 36]), (no_junk, [50, 13, 10, 97, 98, 13, 10, 58, 49, 50, 13]), (no_junk, [10])] fresh_reader fresh_heap =
        Some (Inr (os, r', h')) \<and>
      replies_at (rh_nodes h') 1 os [RAggregate REPLY_ARRAY [RString [97, 98], RInteger 12]]"
proof -
  let ?vs = "[RAggregate REPLY_ARRAY [RString [97, 98], RInteger 12]]"
  let ?ps = "[(no_junk, [42, 50, 13, 10, 36]), (no_junk, [50, 13, 10, 97, 98, 13, 10, 58, 49, 50, 13]), (no_junk, [10])] :: ((nat \<Rightarrow> bytes) \<times> bytes) list"
  have ok: "\<And>v. v \<in> set ?vs \<Longrightarrow> resp_ok no_strtod 8 v" by (simp add: is_aggregate_def LLONG_MIN_def LLONG_MAX_def)
  have heap: "heap_ok fresh_heap" by (simp add: heap_ok_def fresh_heap_def)
  have len: "length (stream_of ?ps) < 2147482624" by simp
  have enc: "stream_of ?ps = concat (map encode ?vs)"
    by (simp add: agg_byte_def agg_count_def int_decimal_def nat_decimal.simps)
  show ?thesis
    using replies_roundtrip [OF ok heap len enc _ fresh_reader_Some] by (auto simp: fresh_heap_def)
qed

section \<open>Lengths that the client cannot hold\<close>

lemma receive_fault:
  assumes "resume sd fn (view_more (nview r) d) h = Inl e" "reader_ready r" "unread r + length d < 2147482624"
  shows "receive sd fn [(junk, d)] r h = Some (Inl e)"
proof -
  obtain x where x: "(case redisReaderFeed (granted junk) (granted junk) fn d r h of
        Inl e \<Rightarrow> Some (Inl e)
      | Inr (ok, r1, h1) \<Rightarrow> get_replies (call_fuel r1) sd fn r1 h1) = Some x"
    "run_refines (resume sd fn (view_more (nview r) d) h) (unread r + length d) x"
    using receive_one [OF assms(2,3), where junk = junk and fn = fn and h = h and sd = sd] by blast
  have "x = Inl e" using x(2) assms(1) by (cases x) auto
  then show ?thesis using x(1) by (auto split: sum.splits)
qed

lemma length_nat_decimal: "10 ^ k \<le> n \<Longrightarrow> n < 10 ^ Suc k \<Longrightarrow> length (nat_decimal n) = Suc k"
proof (induction k arbitrary: n)
  case 0
  then show ?case by (subst nat_decimal.simps) simp
next
  case (Suc k)
  have "10 ^ k \<le> n div 10" "n div 10 < 10 ^ Suc k" using Suc.prems by auto
  moreover have "\<not> n < 10" using Suc.prems(1) one_le_power [of "10 :: nat" k] unfolding power_Suc by linarith
  ultimately show ?case using Suc.IH [of "n div 10"] by (subst nat_decimal.simps) simp
qed

text \<open>The lengths of a bulk string and of its header are added in 32 bits. A length just below \<open>2 ^ 32\<close> passes
  the test that the whole string has arrived, and the reader copies from behind its buffer.\<close>

lemma long_bulk_faults:
  assumes "4294967284 \<le> n" "n \<le> 4294967290" "heap_ok h"
  shows "receive sd defaultFunctions [(junk, 36 # int_decimal n @ crlf)] fresh_reader h = Some (Inl OutOfBounds)"
proof -
  let ?D = "int_decimal n" and ?cur = "(new_task (-1))\<lparr>task_type := Some REPLY_STRING\<rparr> :: nat read_task"
  have k: "length ?D = 10"
    using assms(1,2) length_nat_decimal [of 9 "nat n"] by (simp add: int_decimal_def nat_le_iff nat_less_iff)
  note f = find_crlf_text [OF cr_not_decimal [of n], of "[]", unfolded append_Nil2 k]
  have num: "string2ll ?D = Some n"
    using assms(1,2) by (intro string2ll_decimal) (simp_all add: LLONG_MIN_def LLONG_MAX_def)
  have "unat (of_nat (10 + 2) + word_of_int (n + 2) :: u32) \<le> 12"
  proof -
    have "(of_nat (10 + 2) + word_of_int (n + 2) :: u32) = word_of_int (n + 14 - 4294967296)"
      by simp
    also have "\<dots> = of_nat (nat (n + 14 - 4294967296))" using assms(1) by simp
    finally have "unat (of_nat (10 + 2) + word_of_int (n + 2) :: u32) = nat (n + 14 - 4294967296)"
      using assms(2) by (simp only:) (simp add: unat_of_nat_u32)
    then show ?thesis using assms(2) by simp
  qed
  moreover have "createStringObject [?cur] [] (nat n) h = Inl OutOfBounds"
    using assms(1,3) by (simp add: createStringObject_def create_steps)
  ultimately have "bulk_outcome defaultFunctions [?cur] (?D @ crlf) h = Inl OutOfBounds"
    using assms(1,2) unfolding bulk_outcome_def f option.case num Let_def
    by (simp add: LLONG_MAX_def k)
  then have "stream_step sd defaultFunctions [new_task (-1)] None (36 # ?D @ crlf) h = Inl OutOfBounds"
    by (simp add: stream_step_def stream_typed_def typed_outcome_def new_task_def)
  then have "stream_run sd defaultFunctions [new_task (-1)] None (36 # ?D @ crlf) h = Inl OutOfBounds"
    by (subst stream_run.simps) simp
  then show ?thesis
    using fresh_reader_ready [OF fresh_reader_Some] k by (intro receive_fault) auto
qed

end
