(* ===== verification/Hiredis_Command.thy ===== *)
theory Hiredis_Command
  imports Hiredis_Format Hiredis_Client
begin

text \<open>
  What \<open>redisvFormatCommand\<close> makes of a format: its words, filled in, become the arguments of one command, whatever
  the strings hold; and what it does when there is no memory.
\<close>

section \<open>Counting digits\<close>

lemma length_nat_decimal_step: "10 \<le> n \<Longrightarrow> length (nat_decimal n) = Suc (length (nat_decimal (n div 10)))"
  by (subst nat_decimal.simps) simp

lemma length_nat_decimal_small:
  "n < 10 \<Longrightarrow> length (nat_decimal n) = 1"
  "10 \<le> n \<Longrightarrow> n < 100 \<Longrightarrow> length (nat_decimal n) = 2"
  "100 \<le> n \<Longrightarrow> n < 1000 \<Longrightarrow> length (nat_decimal n) = 3"
  "1000 \<le> n \<Longrightarrow> n < 10000 \<Longrightarrow> length (nat_decimal n) = 4"
  using length_nat_decimal [of 0 n] length_nat_decimal [of 1 n] length_nat_decimal [of 2 n] length_nat_decimal [of 3 n]
  by (auto simp: nat_decimal.simps [of n])

lemma length_nat_decimal_4: "10000 \<le> n \<Longrightarrow> length (nat_decimal n) = 4 + length (nat_decimal (n div 10000))"
  using length_nat_decimal_step [of n] length_nat_decimal_step [of "n div 10"]
    length_nat_decimal_step [of "n div 100"] length_nat_decimal_step [of "n div 1000"]
  by (simp add: div_mult2_eq [symmetric])

lemma length_nat_decimal_pos: "0 < length (nat_decimal n)"
  using nat_decimal_nonempty by simp

lemma digits_from_eq: "digits_from v r = r + of_nat (length (nat_decimal (unat v)) - 1)"
proof (induction v r rule: digits_from.induct)
  case (1 v r)
  have c: "v < 10 \<longleftrightarrow> unat v < 10" "v < 100 \<longleftrightarrow> unat v < 100" "v < 1000 \<longleftrightarrow> unat v < 1000" "v < 10000 \<longleftrightarrow> unat v < 10000"
    by (simp_all add: word_less_nat_alt)
  show ?case
  proof (cases "unat v < 10000")
    case True
    then show ?thesis
      using length_nat_decimal_small [of "unat v"] by (subst digits_from.simps) (auto simp: c not_less)
  next
    case False
    have "digits_from (v div 10000) (r + 4) = r + 4 + of_nat (length (nat_decimal (unat (v div 10000))) - 1)"
      using 1 False by (simp add: c)
    also have "unat (v div 10000) = unat v div 10000" by (simp add: unat_div)
    finally show ?thesis
      using False length_nat_decimal_4 [of "unat v"] length_nat_decimal_pos [of "unat v div 10000"]
      by (subst digits_from.simps) (simp add: c)
  qed
qed

lemma length_nat_decimal_le: "n < 10 ^ Suc k \<Longrightarrow> length (nat_decimal n) \<le> Suc k"
proof (induction k arbitrary: n)
  case (Suc k)
  show ?case
  proof (cases "n < 10")
    case False
    then show ?thesis using Suc.IH [of "n div 10"] Suc.prems length_nat_decimal_step [of n] by simp
  qed (simp add: length_nat_decimal_small)
qed (simp add: length_nat_decimal_small)

lemma countDigits_eq: "unat (countDigits v) = length (nat_decimal (unat v))"
proof -
  have "unat v < 2 ^ 64" using unsigned_less [of v] by simp
  also have "(2 :: nat) ^ 64 < 10 ^ Suc 19" by simp
  finally have "length (nat_decimal (unat v)) \<le> Suc 19" by (rule length_nat_decimal_le)
  then have le: "length (nat_decimal (unat v)) \<le> 20" by simp
  have "countDigits v = of_nat (length (nat_decimal (unat v)))"
    using length_nat_decimal_pos [of "unat v"] unfolding countDigits_def digits_from_eq by (simp flip: of_nat_Suc)
  then show ?thesis using le by (simp add: unat_of_nat_u32 del: of_nat_Suc)
qed

lemma bulklen_eq: "length t < 2 ^ 64 \<Longrightarrow> bulklen (length t) = length (bulk_text t)"
  by (simp add: bulklen_def bulk_text_def countDigits_eq unat_of_nat take_bit_nat_eq_self)

section \<open>Formats in pieces\<close>

text \<open>A character, a blank, the four kinds of directives; \<open>Number\<close> is a conversion of an \<open>int\<close> without flags.\<close>

datatype piece = Char byte | Blank | Str bytes | Blob bytes | Percent | Number byte int

fun piece_format :: "piece \<Rightarrow> bytes" where
  "piece_format (Char b) = [b]"
| "piece_format Blank = [32]"
| "piece_format (Str t) = [37, 115]"
| "piece_format (Blob t) = [37, 98]"
| "piece_format Percent = [37, 37]"
| "piece_format (Number b n) = [37, b]"

fun piece_args :: "piece \<Rightarrow> va_arg list" where
  "piece_args (Str t) = [ArgPtr (t @ [0])]"
| "piece_args (Blob t) = [ArgPtr t, ArgSize (length t)]"
| "piece_args (Number b n) = [ArgInt n]"
| "piece_args p = []"

fun piece_text :: "vsnprintf \<Rightarrow> piece \<Rightarrow> bytes" where
  "piece_text V (Char b) = [b]"
| "piece_text V Blank = []"
| "piece_text V (Str t) = t"
| "piece_text V (Blob t) = t"
| "piece_text V Percent = [37]"
| "piece_text V (Number b n) = V [37, b] (ArgInt n)"

fun piece_ok :: "piece \<Rightarrow> bool" where
  "piece_ok (Char b) \<longleftrightarrow> b \<noteq> 37 \<and> b \<noteq> 32 \<and> b \<noteq> 0"
| "piece_ok (Str t) \<longleftrightarrow> 0 \<notin> set t"
| "piece_ok (Number b n) \<longleftrightarrow> b \<in> set (map of_char intfmts)"
| "piece_ok p \<longleftrightarrow> True"

text \<open>The words are the groups of pieces between blanks, without the empty groups.\<close>

fun groups :: "piece list \<Rightarrow> piece list list" where
  "groups [] = [[]]"
| "groups (p # ps) = (if p = Blank then [] # groups ps else (p # hd (groups ps)) # tl (groups ps))"

definition group_text :: "vsnprintf \<Rightarrow> piece list \<Rightarrow> bytes" where
  "group_text V g = concat (map (piece_text V) g)"

definition words :: "vsnprintf \<Rightarrow> piece list \<Rightarrow> bytes list" where
  "words V ps = map (group_text V) (filter (\<lambda>g. g \<noteq> []) (groups ps))"

text \<open>The same, word by word as the loop finds them; the word that has begun is \<open>Some\<close> even when it is empty.\<close>

definition add_text :: "bytes option \<Rightarrow> bytes \<Rightarrow> bytes option" where
  "add_text cur t = Some (case cur of None \<Rightarrow> t | Some w \<Rightarrow> w @ t)"

fun word_list :: "bytes option \<Rightarrow> bytes list" where
  "word_list None = []"
| "word_list (Some w) = [w]"

fun next_words :: "vsnprintf \<Rightarrow> piece \<Rightarrow> bytes list \<times> bytes option \<Rightarrow> bytes list \<times> bytes option" where
  "next_words V p (argv, cur) = (if p = Blank then (argv @ word_list cur, None) else (argv, add_text cur (piece_text V p)))"

lemma groups_not_Nil: "groups ps \<noteq> []"
  by (cases ps) auto

lemma fold_words:
  "(case fold (next_words V) ps (argv, cur) of (argv', cur') \<Rightarrow> argv' @ word_list cur') =
     argv @ word_list (if cur = None \<and> hd (groups ps) = [] then None else add_text cur (group_text V (hd (groups ps)))) @
       map (group_text V) (filter (\<lambda>g. g \<noteq> []) (tl (groups ps)))"
proof (induction ps arbitrary: argv cur)
  case Nil
  then show ?case by (cases cur) (simp_all add: group_text_def add_text_def)
next
  case (Cons p ps)
  obtain g gs where g: "groups ps = g # gs" using groups_not_Nil [of ps] by (cases "groups ps") auto
  show ?case
  proof (cases "p = Blank")
    case True
    then show ?thesis using Cons.IH [of "argv @ word_list cur" None]
      by (cases cur) (auto simp: g group_text_def add_text_def)
  next
    case False
    then show ?thesis using Cons.IH [of argv "add_text cur (piece_text V p)"]
      by (cases cur) (auto simp: g group_text_def add_text_def)
  qed
qed

lemma words_fold: "(case fold (next_words V) ps ([], None) of (argv, cur) \<Rightarrow> argv @ word_list cur) = words V ps"
proof -
  obtain g gs where g: "groups ps = g # gs" using groups_not_Nil [of ps] by (cases "groups ps") auto
  show ?thesis unfolding fold_words by (simp add: words_def g group_text_def add_text_def)
qed

section \<open>The loop over a format\<close>

text \<open>Words so far and the word that has begun, in the state of the loop.\<close>

definition sds_of :: "sds \<Rightarrow> bytes \<Rightarrow> bool" where "sds_of s w \<longleftrightarrow> sds_ok s \<and> sds_val s = w"

definition format_state :: "bytes list \<Rightarrow> bytes option \<Rightarrow> fmt \<Rightarrow> bool" where
  "format_state argv cur st \<longleftrightarrow>
     (\<exists>s. fm_arg st = Live s \<and> sds_of s (case cur of None \<Rightarrow> [] | Some w \<Rightarrow> w)) \<and>
     fm_touched st = (cur \<noteq> None) \<and> list_all2 sds_of (fm_argv st) argv \<and>
     fm_totlen st = of_nat (sum_list (map (bulklen \<circ> length) argv)) \<and>
     fm_live st = 1 + (if argv = [] then 0 else length argv + 1)"

lemma cat_arg_ok:
  assumes "format_state argv cur st" "\<forall>k. mem_ok (M k)" "length (case cur of None \<Rightarrow> [] | Some w \<Rightarrow> w) + length t < 2 ^ 60"
  shows "\<exists>st'. cat_arg M t st = Inr (True, st') \<and> format_state argv (add_text cur t) (st'\<lparr>fm_touched := True\<rparr>)"
proof -
  let ?w = "case cur of None \<Rightarrow> [] | Some w \<Rightarrow> w"
  obtain s where s: "fm_arg st = Live s" "sds_ok s" "sds_val s = ?w"
    using assms(1) by (auto simp: format_state_def sds_of_def)
  obtain s' where s': "sdscatlen (M (fm_calls st)) t (length t) s = Inr (Some s', Live s')" "sds_ok s'" "sds_val s' = ?w @ t"
    using sdscatlen_ok [OF s(2) _ assms(2) [rule_format] order_refl, of t] assms(3) s(3) length_sds_val [OF s(2)] by auto
  then show ?thesis using s assms(1)
    by (auto simp: cat_arg_def set_arg_def format_state_def sds_of_def add_text_def split: option.splits)
qed

text \<open>A directive with an empty text only starts a word.\<close>

lemma touch_ok: "format_state argv cur st \<Longrightarrow> format_state argv (add_text cur []) (st\<lparr>fm_touched := True\<rparr>)"
  by (auto simp: format_state_def add_text_def split: option.splits)

lemma push_arg_ok:
  assumes "format_state argv (Some w) st" "\<forall>k. mem_ok (M k)"
  shows "\<exists>st'. push_arg M st = Inr (True, st') \<and> fm_arg st' = Null \<and> fm_touched st' \<and>
    list_all2 sds_of (fm_argv st') (argv @ [w]) \<and>
    fm_totlen st' = of_nat (sum_list (map (bulklen \<circ> length) (argv @ [w]))) \<and> fm_live st' = length argv + 2"
proof -
  obtain s where s: "fm_arg st = Live s" "sds_ok s" "sds_val s = w"
    using assms(1) by (auto simp: format_state_def sds_of_def)
  have a: "list_all2 sds_of (fm_argv st) argv" using assms(1) by (simp add: format_state_def)
  then have "list_all2 sds_of (fm_argv st @ [s]) (argv @ [w])"
    using s by (intro list_all2_appendI) (simp_all add: sds_of_def)
  moreover have "fm_argv st = [] \<longleftrightarrow> argv = []" using a by auto
  ultimately show ?thesis using s assms length_sds_val [OF s(2)]
    by (auto simp: push_arg_def Let_def format_state_def)
qed

lemma blank_ok:
  assumes "format_state argv cur st" "\<forall>k. mem_ok (M k)"
  shows "\<exists>st'. format_blank M s ap st = Inr (Next (Some s) ap st') \<and> format_state (argv @ word_list cur) None st'"
proof (cases cur)
  case None
  then show ?thesis using assms(1) by (simp add: format_blank_def format_state_def)
next
  case (Some w)
  obtain st1 where st1: "push_arg M st = Inr (True, st1)" "fm_arg st1 = Null"
    "list_all2 sds_of (fm_argv st1) (argv @ [w])"
    "fm_totlen st1 = of_nat (sum_list (map (bulklen \<circ> length) (argv @ [w])))" "fm_live st1 = length argv + 2"
    using push_arg_ok [OF assms(1) [unfolded Some] assms(2)] by blast
  obtain s0 where s0: "sdsempty (M (fm_calls st1)) = Inr (Some s0)" "sds_ok s0" "sds_val s0 = []"
    using sdsempty_ok [OF assms(2) [rule_format]] by blast
  have "fm_touched st" using assms(1) Some by (simp add: format_state_def)
  then show ?thesis using st1 s0 Some
    by (auto simp: format_blank_def new_arg_def format_state_def sds_of_def)
qed

lemma print_buffer_ok: "\<forall>k. mem_ok (M k) \<Longrightarrow> 0 < buflen \<Longrightarrow> \<exists>k'. print_buffer M k buflen n = Some k'"
proof (induction M k buflen n rule: print_buffer.induct)
  case (1 M k buflen n)
  show ?case
  proof (cases "n < buflen - 1")
    case True
    then show ?thesis by (subst print_buffer.simps) simp
  next
    case False
    then show ?thesis using 1 by (subst print_buffer.simps) auto
  qed
qed

lemma printf_ok:
  assumes "format_state argv cur st" "\<forall>k. mem_ok (M k)"
    "length (case cur of None \<Rightarrow> [] | Some w \<Rightarrow> w) + length (V [37, b] a) < 2 ^ 60"
    "fm_arg st = Live s"
  shows "\<exists>new old k. sdscatvprintf V M (fm_calls st) [37, b] a s = Inr (new, old, k) \<and>
    (\<exists>st'. set_arg new old k st = (True, st') \<and> format_state argv (add_text cur (V [37, b] a)) (st'\<lparr>fm_touched := True\<rparr>))"
proof -
  let ?w = "case cur of None \<Rightarrow> [] | Some w \<Rightarrow> w" and ?t = "V [37, b] a"
  have s: "sds_ok s" "sds_val s = ?w" using assms(1,4) by (auto simp: format_state_def sds_of_def)
  obtain k where k: "print_buffer M (fm_calls st) 1024 (length ?t) = Some k"
    using print_buffer_ok [OF assms(2), of 1024] by auto
  obtain s' where s': "sdscatlen (M k) ?t (length ?t) s = Inr (Some s', Live s')" "sds_ok s'" "sds_val s' = ?w @ ?t"
    using sdscatlen_ok [OF s(1) _ assms(2) [rule_format] order_refl, of ?t] assms(3) s(2) length_sds_val [OF s(1)] by auto
  then show ?thesis using s assms(1) k
    by (auto simp: sdscatvprintf_def set_arg_def format_state_def sds_of_def add_text_def split: option.splits)
qed

lemma intfmts_bytes: "set (map of_char intfmts) = {100, 105, 111, 117, 120, 88 :: byte}"
  by (simp add: intfmts_def)

lemma printf_conversion_int:
  assumes "b \<in> set (map of_char intfmts)"
  shows "printf_conversion (b # s) = Some (ConvInt, b # s)"
proof -
  have b: "b \<in> {100, 105, 111, 117, 120, 88}" using assms unfolding intfmts_bytes .
  then have "skip_flags (b # s) = b # s" "skip_digits (b # s) = b # s" "skip_precision (b # s) = b # s"
    by (auto simp: skip_flags_def skip_digits_def skip_precision_def in_set_def isdigit_def deref_def)
  then show ?thesis using assms by (simp add: printf_conversion_def conversion_at_def in_set_def deref_def)
qed

lemma c_text_terminated: "0 \<notin> set t \<Longrightarrow> c_text (t @ [0]) = Inr t"
proof -
  assume "0 \<notin> set t"
  then have "takeWhile (\<lambda>b. b \<noteq> 0) (t @ [0]) = t" by (subst takeWhile_append2) auto
  then show ?thesis by (simp add: c_text_def)
qed

text \<open>One piece of the format.\<close>

lemma piece_step:
  assumes "format_state argv cur st" "\<forall>k. mem_ok (M k)" "piece_ok p"
    "length (case cur of None \<Rightarrow> [] | Some w \<Rightarrow> w) + length (piece_text V p) < 2 ^ 60"
  shows "\<exists>st'. format_loop V M (Some (piece_format p @ s)) (piece_args p @ ap) st = format_loop V M (Some s) ap st' \<and>
    (case next_words V p (argv, cur) of (argv', cur') \<Rightarrow> format_state argv' cur' st')"
proof (cases p)
  case (Char b)
  then show ?thesis using cat_arg_ok [OF assms(1,2), of "[b]"] assms(3,4)
    by (auto simp: format_step_def filled_def)
next
  case Blank
  then show ?thesis using blank_ok [OF assms(1,2), of s ap] by (auto simp: format_step_def)
next
  case (Str t)
  then have "c_text (t @ [0]) = Inr t" using assms(3) by (simp add: c_text_terminated)
  then show ?thesis using Str cat_arg_ok [OF assms(1,2), of t] touch_ok [OF assms(1)] assms(4)
    by (cases "t = []") (auto simp: format_step_def format_string_def filled_def)
next
  case (Blob t)
  then show ?thesis using cat_arg_ok [OF assms(1,2), of t] touch_ok [OF assms(1)] assms(4)
    by (cases "t = []") (auto simp: format_step_def format_bytes_def filled_def)
next
  case Percent
  then show ?thesis using cat_arg_ok [OF assms(1,2), of "[37]"] assms(4)
    by (auto simp: format_step_def filled_def)
next
  case (Number b n)
  obtain s0 where s0: "fm_arg st = Live s0" using assms(1) by (auto simp: format_state_def)
  have "b \<in> {100, 105, 111, 117, 120, 88}" using assms(3) by (simp only: Number piece_ok.simps intfmts_bytes)
  then have b: "b \<noteq> 115" "b \<noteq> 98" "b \<noteq> 37" by auto
  have "format_step V M 37 (b # s) (ArgInt n # ap) st = format_printf V M (37 # b # s) (ArgInt n # ap) st"
    using b by (simp add: format_step_def)
  moreover obtain new old k st' where p: "sdscatvprintf V M (fm_calls st) [37, b] (ArgInt n) s0 = Inr (new, old, k)"
    "set_arg new old k st = (True, st')" "format_state argv (add_text cur (V [37, b] (ArgInt n))) (st'\<lparr>fm_touched := True\<rparr>)"
    using printf_ok [OF assms(1,2) _ s0] assms(4) Number by fastforce
  ultimately have "format_step V M 37 (b # s) (ArgInt n # ap) st = Inr (Next (Some s) ap (st'\<lparr>fm_touched := True\<rparr>))"
    using printf_conversion_int [of b s] assms(3) Number s0
    by (simp add: format_printf_def filled_def)
  then show ?thesis using Number p(3) by auto
qed

definition format_of :: "piece list \<Rightarrow> bytes" where "format_of ps = concat (map piece_format ps)"

definition args_of :: "piece list \<Rightarrow> va_arg list" where "args_of ps = concat (map piece_args ps)"

lemma next_words_length:
  "next_words V p (argv, cur) = (argv', cur') \<Longrightarrow>
     length (case cur' of None \<Rightarrow> [] | Some w \<Rightarrow> w) \<le> length (case cur of None \<Rightarrow> [] | Some w \<Rightarrow> w) + length (piece_text V p)"
  by (auto simp: add_text_def split: if_splits option.splits)

lemma loop_pieces:
  assumes "format_state argv cur st" "\<forall>k. mem_ok (M k)" "\<forall>p\<in>set ps. piece_ok p"
    "length (case cur of None \<Rightarrow> [] | Some w \<Rightarrow> w) + length (group_text V ps) < 2 ^ 60"
  shows "\<exists>st'. format_loop V M (Some (format_of ps)) (args_of ps) st = Inr (0, st') \<and>
    (case fold (next_words V) ps (argv, cur) of (argv', cur') \<Rightarrow> format_state argv' cur' st')"
  using assms
proof (induction ps arbitrary: argv cur st)
  case Nil
  then show ?case by (simp add: format_of_def args_of_def)
next
  case (Cons p ps)
  let ?n = "length (case cur of None \<Rightarrow> [] | Some w \<Rightarrow> w)"
  have "?n + length (piece_text V p) < 2 ^ 60" using Cons.prems(4) by (simp add: group_text_def)
  then obtain st1 where st1: "format_loop V M (Some (piece_format p @ format_of ps)) (piece_args p @ args_of ps) st =
      format_loop V M (Some (format_of ps)) (args_of ps) st1"
    "case next_words V p (argv, cur) of (argv', cur') \<Rightarrow> format_state argv' cur' st1"
    using piece_step [OF Cons.prems(1,2), of p V "format_of ps" "args_of ps"] Cons.prems(3) by auto
  obtain argv1 cur1 where n: "next_words V p (argv, cur) = (argv1, cur1)" by fastforce
  have "length (case cur1 of None \<Rightarrow> [] | Some w \<Rightarrow> w) + length (group_text V ps) < 2 ^ 60"
    using Cons.prems(4) next_words_length [OF n] by (simp add: group_text_def)
  then obtain st' where "format_loop V M (Some (format_of ps)) (args_of ps) st1 = Inr (0, st')"
    "case fold (next_words V) ps (argv1, cur1) of (argv', cur') \<Rightarrow> format_state argv' cur' st'"
    using Cons.IH [of argv1 cur1 st1] Cons.prems(2,3) st1(2) n by auto
  moreover have "format_of (p # ps) = piece_format p @ format_of ps" "args_of (p # ps) = piece_args p @ args_of ps"
    by (simp_all add: format_of_def args_of_def)
  ultimately show ?case using st1(1) n by (simp only: fold_simps) auto
qed

section \<open>The end of the call\<close>

lemma length_command_text:
  "length (command_text ws) = 3 + length (nat_decimal (length ws)) + sum_list (map (length \<circ> bulk_text) ws)"
  by (simp add: command_text_def length_concat comp_def)

lemma length_le_bulk_text: "w \<in> set ws \<Longrightarrow> length w \<le> length (command_text ws)"
proof -
  assume "w \<in> set ws"
  then have "length (bulk_text w) \<le> sum_list (map (length \<circ> bulk_text) ws)" by (auto intro: member_le_sum_list)
  then show ?thesis by (simp add: length_command_text bulk_text_def)
qed

lemma command_length:
  assumes "length (command_text ws) < 2147483648"
  shows "sint (of_nat (sum_list (map (bulklen \<circ> length) ws)) + (1 + countDigits (of_nat (length ws)) + 2) :: int32) =
    int (length (command_text ws))"
proof -
  have small: "w \<in> set ws \<Longrightarrow> length w < 2 ^ 64" for w using length_le_bulk_text [of w ws] assms by simp
  then have "map (bulklen \<circ> length) ws = map (length \<circ> bulk_text) ws" by (simp add: bulklen_eq)
  then have "sum_list (map (bulklen \<circ> length) ws) = sum_list (map (length \<circ> bulk_text) ws)" by (rule arg_cong)
  moreover have "length ws < 2 ^ 64"
  proof -
    have "length ws \<le> sum_list (map (length \<circ> bulk_text) ws)"
      by (induction ws) (auto simp: bulk_text_def)
    then show ?thesis using assms by (simp add: length_command_text)
  qed
  then have "unat (countDigits (of_nat (length ws))) = length (nat_decimal (length ws))"
    by (simp add: countDigits_eq unat_of_nat take_bit_nat_eq_self)
  then have "countDigits (of_nat (length ws)) = of_nat (length (nat_decimal (length ws)))"
    by (metis of_nat_unat ucast_id)
  ultimately have "of_nat (sum_list (map (bulklen \<circ> length) ws)) + (1 + countDigits (of_nat (length ws)) + 2) =
      (of_nat (length (command_text ws)) :: int32)"
    by (simp add: length_command_text)
  then show ?thesis using assms by (simp add: sint_of_nat_small)
qed

lemma sds_of_vals: "list_all2 sds_of ss ws \<Longrightarrow> map sds_val ss = ws"
  by (induction rule: list_all2_induct) (auto simp: sds_of_def)

lemma format_end_ok:
  assumes "format_state argv cur st" "\<forall>k. mem_ok (M k)" "length (command_text (argv @ word_list cur)) < 2147483647"
  shows "format_end M st = Inr (int (length (command_text (argv @ word_list cur))), Some (command_text (argv @ word_list cur)), 1)"
proof -
  let ?ws = "argv @ word_list cur"
  have "\<exists>st1. (if fm_touched st then push_arg M st
        else bind_result (sdsfree (fm_arg st)) (\<lambda>_. Inr (True, st\<lparr>fm_arg := Null, fm_live := fm_live st - 1\<rparr>))) = Inr (True, st1) \<and>
      list_all2 sds_of (fm_argv st1) ?ws \<and> fm_totlen st1 = of_nat (sum_list (map (bulklen \<circ> length) ?ws)) \<and>
      fm_live st1 = (if ?ws = [] then 0 else length ?ws + 1)"
  proof (cases cur)
    case None
    then show ?thesis using assms(1) by (auto simp: format_state_def sdsfree_def)
  next
    case (Some w)
    then show ?thesis using push_arg_ok [OF assms(1) [unfolded Some] assms(2)] assms(1) by (auto simp: format_state_def)
  qed
  then obtain st1 where st1: "(if fm_touched st then push_arg M st
        else bind_result (sdsfree (fm_arg st)) (\<lambda>_. Inr (True, st\<lparr>fm_arg := Null, fm_live := fm_live st - 1\<rparr>))) = Inr (True, st1)"
    "list_all2 sds_of (fm_argv st1) ?ws" "fm_totlen st1 = of_nat (sum_list (map (bulklen \<circ> length) ?ws))"
    "fm_live st1 = (if ?ws = [] then 0 else length ?ws + 1)" by blast
  have len: "length (fm_argv st1) = length ?ws" using list_all2_lengthD [OF st1(2)] .
  then have nil: "fm_argv st1 = [] \<longleftrightarrow> ?ws = []" by (metis length_0_conv)
  let ?t = "fm_totlen st1 + (1 + countDigits (of_nat (length (fm_argv st1))) + 2)"
  have t: "sint ?t = int (length (command_text ?ws))"
    using command_length [of ?ws] assms(3) unfolding st1(3) len by simp
  have "build_command M (fm_calls st1) (map sds_val (fm_argv st1)) ?t = Inr (Some (command_text ?ws))"
    using assms(2,3) unfolding build_command_def t sds_of_vals [OF st1(2)] by (simp add: add_int32_def int32_bounds)
  then show ?thesis using st1(4) t len nil unfolding format_end_def st1(1) by simp
qed

lemma command_text_encode: "command_text ws = encode (RAggregate REPLY_ARRAY (map RString ws))"
proof -
  have "bulk_text w = encode (RString w)" for w by (simp add: bulk_text_def int_decimal_def)
  then have "bulk_text = encode \<circ> RString" by (intro ext) (simp del: encode.simps)
  then show ?thesis by (simp add: command_text_def agg_byte_def agg_count_def int_decimal_def del: encode.simps(1))
qed

lemma redisvFormatCommand_pieces:
  assumes "\<forall>k. mem_ok (M k)" "\<forall>p\<in>set ps. piece_ok p" "length (command_text (words V ps)) < 2147483647"
  shows "redisvFormatCommand V M True (format_of ps) (args_of ps) =
    Inr (int (length (command_text (words V ps))), Some (command_text (words V ps)), 1)"
proof -
  let ?init = "\<lparr>fm_calls = 0, fm_live = 0, fm_arg = Null, fm_touched = False, fm_argv = [], fm_totlen = 0\<rparr>"
  obtain s0 where s0: "sdsempty (M 0) = Inr (Some s0)" "sds_ok s0" "sds_val s0 = []"
    using sdsempty_ok [OF assms(1) [rule_format]] by blast
  let ?begun = "\<lparr>fm_calls = 1, fm_live = 1, fm_arg = Live s0, fm_touched = False, fm_argv = [], fm_totlen = 0\<rparr>"
  have st0: "new_arg M ?init = Inr (True, ?begun)" using s0(1) by (simp add: new_arg_def)
  have fs: "format_state [] None ?begun" using s0 by (simp add: format_state_def sds_of_def)
  have "length (group_text V ps) \<le> length (concat (words V ps))"
  proof -
    have c: "concat (map (group_text V) (filter (\<lambda>g. g \<noteq> []) gs)) = concat (map (group_text V) gs)" for gs
      by (induction gs) (auto simp: group_text_def)
    have "concat (map (group_text V) (groups ps)) = group_text V ps"
    proof (induction ps)
      case (Cons p ps)
      then show ?case using groups_not_Nil [of ps] by (cases "groups ps") (auto simp: group_text_def)
    qed (simp add: group_text_def)
    then show ?thesis unfolding words_def c by simp
  qed
  also have "\<dots> \<le> length (command_text (words V ps))"
  proof -
    have "length (concat ws) \<le> sum_list (map (length \<circ> bulk_text) ws)" for ws
      by (induction ws) (auto simp: bulk_text_def)
    then show ?thesis by (simp add: length_command_text trans_le_add2)
  qed
  finally have "length (group_text V ps) < 2 ^ 60" using assms(3) by simp
  then obtain st' where st': "format_loop V M (Some (format_of ps)) (args_of ps) ?begun = Inr (0, st')"
    "case fold (next_words V) ps ([], None) of (argv', cur') \<Rightarrow> format_state argv' cur' st'"
    using loop_pieces [OF fs assms(1,2), where V = V] by auto
  obtain argv cur where f: "fold (next_words V) ps ([], None) = (argv, cur)" by fastforce
  have "argv @ word_list cur = words V ps" using words_fold [of V ps] f by simp
  then have "format_end M st' = Inr (int (length (command_text (words V ps))), Some (command_text (words V ps)), 1)"
    using format_end_ok [of argv cur st' M] st'(2) f assms(1,3) by simp
  then show ?thesis using st0 st'(1) by (simp add: redisvFormatCommand_def)
qed

lemma redisFormatCommandArgv_ok:
  assumes "arguments argv = Inr ws" "\<forall>k. mem_ok (M k)" "length (command_text ws) < 2147483647"
  shows "redisFormatCommandArgv M True argv = Inr (int (length (command_text ws)), Some (command_text ws), 1)"
proof -
  let ?t = "of_nat (sum_list (map (bulklen \<circ> length) ws)) + (1 + countDigits (of_nat (length ws)) + 2) :: int32"
  have t: "sint ?t = int (length (command_text ws))" using command_length [of ws] assms(3) by simp
  have "build_command M 0 ws ?t = Inr (Some (command_text ws))"
    using assms(2,3) unfolding build_command_def t by (simp add: add_int32_def int32_bounds)
  then show ?thesis using t by (simp add: redisFormatCommandArgv_def assms(1) Let_def)
qed

text \<open>C15: A format and its arguments become one command with a word for each group of directives and characters
  between blanks; blanks, percent signs and line ends inside a string do not cut words. The command is the encoding of
  the words as an array, it is the same that the formatter for separate arguments builds, and a reader
  that gets it in any pieces reads back the words and nothing else.\<close>

theorem command_roundtrip:
  assumes "\<forall>k. mem_ok (M k)" "\<forall>p\<in>set ps. piece_ok p" "length (command_text (words V ps)) < 2147482624"
    "arguments argv = Inr (words V ps)" "stream_of qs = command_text (words V ps)"
    "redisReaderCreate True (granted junk) = Inr (Some r)" "heap_ok h"
  shows "redisvFormatCommand V M True (format_of ps) (args_of ps) = Inr (int (length (stream_of qs)), Some (stream_of qs), 1) \<and>
    redisFormatCommandArgv M True argv = redisvFormatCommand V M True (format_of ps) (args_of ps) \<and>
    (\<exists>os r' h'. receive sd defaultFunctions qs r h = Some (Inr (os, r', h')) \<and>
       replies_at (rh_nodes h') (rh_next h) os [RAggregate REPLY_ARRAY (map RString (words V ps))] \<and>
       nview r' = Pending [new_task (-1)] None [])"
proof -
  let ?v = "RAggregate REPLY_ARRAY (map RString (words V ps))"
  have len: "length (words V ps) \<le> 2147483647"
  proof -
    have "length ws \<le> sum_list (map (length \<circ> bulk_text) ws)" for ws
      by (induction ws) (auto simp: bulk_text_def)
    then have "length (words V ps) \<le> length (command_text (words V ps))" by (simp add: length_command_text trans_le_add2)
    then show ?thesis using assms(3) by simp
  qed
  then have "resp_ok sd 8 ?v" by (auto simp: is_aggregate_def)
  moreover have enc: "stream_of qs = concat (map encode [?v])" unfolding assms(5) command_text_encode by simp
  moreover have "qs \<noteq> []" using assms(5) by (auto simp: command_text_def)
  ultimately obtain os r' h' where "receive sd defaultFunctions qs r h = Some (Inr (os, r', h'))"
    "replies_at (rh_nodes h') (rh_next h) os [?v]" "nview r' = Pending [new_task (-1)] None []"
    using receive_values [of "[?v]" sd h qs junk r] assms(3,5-7) by auto
  then show ?thesis
    using redisvFormatCommand_pieces [OF assms(1,2)] redisFormatCommandArgv_ok [OF assms(4,1)] assms(3,5) by auto
qed

definition all_memory :: allocator where "all_memory k = granted no_junk"

text \<open>A key with a blank, a percent sign and a line end.\<close>

definition wpieces :: "piece list" where
  "wpieces = [Char 71, Char 69, Char 84, Blank, Str [97, 32, 37, 115, 13, 10]]"

theorem command_roundtrip_witness:
  "format_of wpieces = [71, 69, 84, 32, 37, 115] \<and>
   redisvFormatCommand (\<lambda>_ _. []) all_memory True [71, 69, 84, 32, 37, 115] [ArgPtr [97, 32, 37, 115, 13, 10, 0]] =
     Inr (25, Some [42, 50, 13, 10, 36, 51, 13, 10, 71, 69, 84, 13, 10, 36, 54, 13, 10, 97, 32, 37, 115, 13, 10, 13, 10], 1)"
proof -
  have w: "words (\<lambda>_ _. []) wpieces = [[71, 69, 84], [97, 32, 37, 115, 13, 10]]"
    by (simp add: words_def wpieces_def group_text_def)
  let ?c = "[42, 50, 13, 10, 36, 51, 13, 10, 71, 69, 84, 13, 10, 36, 54, 13, 10, 97, 32, 37, 115, 13, 10, 13, 10] :: bytes"
  have c: "command_text (words (\<lambda>_ _. []) wpieces) = ?c"
    by (simp add: w command_text_def bulk_text_def nat_decimal.simps)
  have f: "format_of wpieces = [71, 69, 84, 32, 37, 115]" "args_of wpieces = [ArgPtr [97, 32, 37, 115, 13, 10, 0]]"
    by (simp_all add: format_of_def args_of_def wpieces_def)
  have mem: "\<forall>k. mem_ok (all_memory k)" by (simp add: all_memory_def granted_def)
  have ok: "\<forall>p\<in>set wpieces. piece_ok p" by (simp add: wpieces_def)
  have len: "length (command_text (words (\<lambda>_ _. []) wpieces)) < 2147482624" by (simp add: c)
  have argv: "arguments [([71, 69, 84], Some 3), ([97, 32, 37, 115, 13, 10], Some 6)] = Inr (words (\<lambda>_ _. []) wpieces)"
    by (simp add: w argument_def)
  have st: "stream_of [(no_junk, ?c)] = command_text (words (\<lambda>_ _. []) wpieces)" by (simp add: c)
  have heap: "heap_ok fresh_heap" by (simp add: heap_ok_def fresh_heap_def)
  have "redisvFormatCommand (\<lambda>_ _. []) all_memory True (format_of wpieces) (args_of wpieces) =
      Inr (int (length (stream_of [(no_junk, ?c)])), Some (stream_of [(no_junk, ?c)]), 1)"
    using command_roundtrip [OF mem ok len argv st fresh_reader_Some heap] by (rule conjunct1)
  then show ?thesis by (simp add: f)
qed

end
