(* ===== verification/Hiredis_Oom.thy ===== *)
theory Hiredis_Oom
  imports Hiredis_Command
begin

text \<open>The same calls for any allocator: which blocks they leave, and where they free a block twice.\<close>

section \<open>Blocks\<close>

definition blocks_ok :: "fmt \<Rightarrow> bool" where
  "blocks_ok st \<longleftrightarrow>
     fm_live st = (case fm_arg st of Live s \<Rightarrow> 1 | _ \<Rightarrow> 0) + (if fm_argv st = [] then 0 else length (fm_argv st) + 1)"

lemma sdsMakeRoomFor_result:
  assumes "sdsMakeRoomFor m n s = Inr (new, old)"
  shows "case new of Some s' \<Rightarrow> old = Live s' | None \<Rightarrow> old = Freed \<or> old = Live s"
  using assms by (auto simp: sdsMakeRoomFor_def Let_def bind_result_Inr_iff split: if_splits)

lemma sdscatlen_result:
  assumes "sdscatlen m t n s = Inr (None, old)"
  shows "old = Freed \<or> old = Live s"
  using assms sdsMakeRoomFor_result [of m n s]
  by (auto simp: sdscatlen_def bind_result_Inr_iff split: option.splits prod.splits)

lemma sdscatvprintf_result:
  assumes "sdscatvprintf V M k f a s = Inr (None, old, k')"
  shows "old = Freed \<or> old = Live s"
  using assms by (auto simp: sdscatvprintf_def Let_def bind_result_Inr_iff dest!: sdscatlen_result split: option.splits)

definition live_arg :: "fmt \<Rightarrow> bool" where "live_arg st \<longleftrightarrow> (\<exists>s. fm_arg st = Live s)"

lemma set_arg_blocks:
  assumes "blocks_ok st" "fm_arg st = Live s" "new = None \<Longrightarrow> old = Freed \<or> old = Live s" "set_arg new old k st = (ok, st')"
  shows "blocks_ok st' \<and> (ok \<longrightarrow> live_arg st')"
  using assms by (auto simp: set_arg_def blocks_ok_def live_arg_def split: option.splits)

lemma cat_arg_blocks:
  assumes "blocks_ok st" "cat_arg M t st = Inr (ok, st')"
  shows "blocks_ok st' \<and> (ok \<longrightarrow> live_arg st')"
proof (cases "fm_arg st")
  case (Live s)
  obtain new old where c: "sdscatlen (M (fm_calls st)) t (length t) s = Inr (new, old)"
    "set_arg new old (fm_calls st + 1) st = (ok, st')"
    using assms(2) Live by (auto simp: cat_arg_def bind_result_Inr_iff)
  show ?thesis by (rule set_arg_blocks [OF assms(1) Live _ c(2)]) (use c(1) sdscatlen_result in blast)
qed (use assms(2) in \<open>simp_all add: cat_arg_def\<close>)

lemma push_arg_blocks:
  "blocks_ok st \<Longrightarrow> push_arg M st = Inr (ok, st') \<Longrightarrow> blocks_ok st' \<and> (ok \<longrightarrow> fm_arg st' = Null)"
  by (auto simp: push_arg_def Let_def blocks_ok_def split: if_splits sds_ptr.splits)

lemma new_arg_blocks: "blocks_ok st \<Longrightarrow> fm_arg st = Null \<Longrightarrow> new_arg M st = Inr (ok, st') \<Longrightarrow>
    blocks_ok st' \<and> (ok \<longrightarrow> live_arg st')"
  by (auto simp: new_arg_def bind_result_Inr_iff blocks_ok_def live_arg_def split: option.splits)

lemma blocks_ok_touched [simp]:
  "blocks_ok (st\<lparr>fm_touched := b\<rparr>) = blocks_ok st" "live_arg (st\<lparr>fm_touched := b\<rparr>) = live_arg st"
  by (simp_all add: blocks_ok_def live_arg_def)

fun next_ok :: "format_next \<Rightarrow> bool" where
  "next_ok (Stop e st) \<longleftrightarrow> e < 0 \<and> blocks_ok st"
| "next_ok (Next c ap st) \<longleftrightarrow> blocks_ok st \<and> live_arg st"

lemma filled_ok: "blocks_ok st \<and> (ok \<longrightarrow> live_arg st) \<Longrightarrow> next_ok (filled (ok, st) c ap)"
  by (cases ok) (simp_all add: filled_def)

lemma format_printf_blocks:
  assumes "blocks_ok st" "live_arg st" "format_printf V M c ap st = Inr x"
  shows "next_ok x"
proof -
  obtain s where s: "fm_arg st = Live s" using assms(2) by (auto simp: live_arg_def)
  have "sdscatvprintf V M (fm_calls st) f a s = Inr (new, old, k) \<Longrightarrow> next_ok (filled (set_arg new old k st) c' ap')"
    for f a new old k c' ap'
    using sdscatvprintf_result [of V M "fm_calls st" f a s old k] set_arg_blocks [OF assms(1) s, of new old k]
    by (cases "set_arg new old k st") (auto intro: filled_ok)
  then show ?thesis using assms s filled_ok [of st True]
    by (auto simp: format_printf_def bind_result_Inr_iff Let_def split: option.splits if_splits)
qed

lemma format_step_blocks:
  assumes "blocks_ok st" "live_arg st" "format_step V M b s ap st = Inr x"
  shows "next_ok x"
proof -
  have ok: "next_ok (filled (True, st) c ap')" for c ap' using filled_ok [of st True] assms(1,2) by simp
  have cat: "cat_arg M t st = Inr y \<Longrightarrow> next_ok (filled y c ap')" for t y c ap'
    using cat_arg_blocks [OF assms(1)] by (cases y) (auto intro: filled_ok)
  have blank: "format_blank M s ap st = Inr x \<Longrightarrow> next_ok x" for s
    using assms(1,2)
    by (auto simp: format_blank_def bind_result_Inr_iff dest!: push_arg_blocks [OF assms(1)] dest: new_arg_blocks split: if_splits)
  have str: "format_string M s ap st = Inr x \<Longrightarrow> next_ok x" for s
    by (auto simp: format_string_def bind_result_Inr_iff ok dest: cat split: list.splits va_arg.splits if_splits)
  have bts: "format_bytes M s ap st = Inr x \<Longrightarrow> next_ok x" for s
    by (auto simp: format_bytes_def bind_result_Inr_iff ok dest: cat split: list.splits va_arg.splits if_splits)
  show ?thesis
    using assms(3) blank str bts format_printf_blocks [OF assms(1,2)]
    by (auto simp: format_step_def bind_result_Inr_iff dest: cat split: if_splits)
qed

lemma format_loop_blocks:
  "blocks_ok st \<Longrightarrow> live_arg st \<Longrightarrow> format_loop V M c ap st = Inr (e, st') \<Longrightarrow>
    e \<le> 0 \<and> blocks_ok st' \<and> (e = 0 \<longrightarrow> live_arg st')"
proof (induction V M c ap st rule: format_loop.induct)
  case (3 V M b s ap st)
  then obtain x where x: "format_step V M b s ap st = Inr x"
    "(case x of Stop e st' \<Rightarrow> Inr (e, st') | Next c ap' st' \<Rightarrow> format_loop V M c ap' st') = Inr (e, st')"
    by (auto simp: bind_result_Inr_iff)
  have ok: "next_ok x" using format_step_blocks [OF "3.prems"(1,2) x(1)] .
  show ?case
  proof (cases x)
    case (Stop e1 s1)
    then show ?thesis using x(2) ok by auto
  next
    case (Next c1 ap1 s1)
    then show ?thesis using "3.IH" [OF x(1) Next] x(2) ok by simp
  qed
qed auto

lemma cleanup_blocks: "blocks_ok st \<Longrightarrow> cleanup e st = Inr (e', out, live) \<Longrightarrow> e' = e \<and> out = None \<and> live = 0"
  by (auto simp: cleanup_def Let_def bind_result_Inr_iff blocks_ok_def sdsfree_def split: sds_ptr.splits)

lemma build_command_Some:
  "build_command M k ws totlen = Inr (Some out) \<Longrightarrow> sint totlen = int (length out) \<and> out = command_text ws"
  by (auto simp: build_command_def bind_result_Inr_iff split: if_splits)

lemma format_end_blocks:
  assumes "blocks_ok st" "live_arg st" "format_end M st = Inr (len, out, live)"
  shows "case out of None \<Rightarrow> len < 0 \<and> live = 0 | Some t \<Rightarrow> len = int (length t) \<and> live = 1"
proof -
  obtain ok s1 where s1: "(if fm_touched st then push_arg M st
        else bind_result (sdsfree (fm_arg st)) (\<lambda>_. Inr (True, st\<lparr>fm_arg := Null, fm_live := fm_live st - 1\<rparr>))) = Inr (ok, s1)"
    using assms(3) unfolding format_end_def by (auto simp: bind_result_Inr_iff split: if_splits)
  have b: "blocks_ok s1 \<and> (ok \<longrightarrow> fm_arg s1 = Null)"
  proof (cases "fm_touched st")
    case True
    then show ?thesis using s1 push_arg_blocks [OF assms(1), of M ok s1] by simp
  next
    case False
    then show ?thesis using s1 assms(1,2) by (auto simp: sdsfree_def blocks_ok_def live_arg_def)
  qed
  show ?thesis
  proof (cases ok)
    case False
    then show ?thesis using assms(3) b cleanup_blocks [of s1 "-1" len out live] unfolding format_end_def s1 by auto
  next
    case True
    let ?t = "fm_totlen s1 + (1 + countDigits (of_nat (length (fm_argv s1))) + 2)"
    obtain cmd where cmd: "build_command M (fm_calls s1) (map sds_val (fm_argv s1)) ?t = Inr cmd"
      using assms(3) True unfolding format_end_def s1 by (auto simp: Let_def bind_result_Inr_iff)
    show ?thesis
    proof (cases cmd)
      case None
      then show ?thesis using assms(3) True b cmd cleanup_blocks [of s1 "-1" len out live]
        unfolding format_end_def s1 by (simp add: Let_def)
    next
      case (Some t)
      then show ?thesis using assms(3) True b cmd build_command_Some [of M "fm_calls s1" _ ?t t]
        unfolding format_end_def s1 by (auto simp: Let_def blocks_ok_def)
    qed
  qed
qed

text \<open>Whatever the format, the arguments and the allocator are: when \<open>redisvFormatCommand\<close> returns, either it
  has built a command, its result is the length of the command and the command is the only block that is left, or
  the result is negative and no block is left.\<close>

lemma format_blocks:
  assumes "redisvFormatCommand V M target format ap = Inr (len, out, live)"
  shows "case out of None \<Rightarrow> len < 0 \<and> live = 0 | Some t \<Rightarrow> len = int (length t) \<and> live = 1"
proof (cases target)
  case True
  let ?init = "\<lparr>fm_calls = 0, fm_live = 0, fm_arg = Null, fm_touched = False, fm_argv = [], fm_totlen = 0\<rparr> :: fmt"
  obtain ok s1 where s1: "new_arg M ?init = Inr (ok, s1)"
    using assms True by (auto simp: redisvFormatCommand_def bind_result_Inr_iff)
  have b: "blocks_ok s1 \<and> (ok \<longrightarrow> live_arg s1)" using new_arg_blocks [OF _ _ s1] by (simp add: blocks_ok_def)
  show ?thesis
  proof (cases ok)
    case True
    then obtain e s2 where s2: "format_loop V M (Some format) ap s1 = Inr (e, s2)"
      using assms s1 \<open>target\<close> by (auto simp: redisvFormatCommand_def bind_result_Inr_iff)
    then have "e \<le> 0" "blocks_ok s2" "e = 0 \<longrightarrow> live_arg s2" using b True format_loop_blocks [OF _ _ s2] by auto
    then show ?thesis
      using assms s1 s2 True \<open>target\<close> cleanup_blocks [of s2 e len out live] format_end_blocks [of s2 M len out live]
      by (cases "e = 0") (auto simp: redisvFormatCommand_def)
  next
    case False
    then show ?thesis using assms s1 \<open>target\<close> by (auto simp: redisvFormatCommand_def)
  qed
qed (use assms in \<open>auto simp: redisvFormatCommand_def\<close>)

lemma format_blocks_example:
  "\<exists>len out live. redisvFormatCommand (\<lambda>_ _. []) all_memory True (format_of wpieces) (args_of wpieces) = Inr (len, out, live) \<and>
     out \<noteq> None \<and> (case out of None \<Rightarrow> len < 0 \<and> live = 0 | Some t \<Rightarrow> len = int (length t) \<and> live = 1)"
proof -
  have "\<forall>k. mem_ok (all_memory k)" "\<forall>p\<in>set wpieces. piece_ok p"
    "length (command_text (words (\<lambda>_ _. []) wpieces)) < 2147483647"
    by (simp_all add: all_memory_def granted_def wpieces_def words_def group_text_def command_text_def bulk_text_def
        nat_decimal.simps)
  note r = redisvFormatCommand_pieces [OF this]
  show ?thesis
    by (rule exI, rule exI, rule exI, rule conjI [OF r conjI [OF option.distinct(2) format_blocks [OF r]]])
qed

section \<open>Freed twice\<close>

lemma block_Nil [simp]: "block m n = [] \<longleftrightarrow> n = 0"
  by (metis length_0_conv length_block)

lemma sdsempty_header:
  assumes "mem_ok m"
  shows "\<exists>c. sdsempty m = Inr (Some \<lparr>sds_type = Type8, sds_len = 0, sds_alloc = 0, sds_chars = c\<rparr>)"
  using assms by (auto simp: sdsempty_def sdsnewlen_def Let_def copy_into_def vec_set_def sdsReqType_def)

text \<open>An empty string that cannot grow: for a short text the block is freed by \<open>sdsMakeRoomFor\<close>, for a long one it is kept.\<close>

lemma empty_cannot_grow:
  assumes "\<not> mem_ok m" "t \<noteq> []"
  shows "sdscatlen m t (length t) \<lparr>sds_type = Type8, sds_len = 0, sds_alloc = 0, sds_chars = c\<rparr> =
    Inr (None, if length t \<le> 127 then Freed else Live \<lparr>sds_type = Type8, sds_len = 0, sds_alloc = 0, sds_chars = c\<rparr>)"
  using assms
  by (auto simp: sdscatlen_def sdsMakeRoomFor_def sdsavail_def Let_def new_type_def new_capacity_def sdsReqType_def
      SDS_MAX_PREALLOC_def)

lemma format_frees_twice:
  assumes "mem_ok (M 0)" "\<not> mem_ok (M 1)" "b \<noteq> 37" "b \<noteq> 32"
  shows "redisvFormatCommand V M True (b # s) ap = Inl UseAfterFree"
proof -
  obtain c where c: "sdsempty (M 0) = Inr (Some \<lparr>sds_type = Type8, sds_len = 0, sds_alloc = 0, sds_chars = c\<rparr>)"
    using sdsempty_header [OF assms(1)] by blast
  have "format_step V M b s ap st = Inr (Stop (-1) (st\<lparr>fm_arg := Freed, fm_calls := 2, fm_live := 0\<rparr>))"
    if "st = \<lparr>fm_calls = 1, fm_live = 1, fm_arg = Live \<lparr>sds_type = Type8, sds_len = 0, sds_alloc = 0, sds_chars = c\<rparr>,
      fm_touched = False, fm_argv = [], fm_totlen = 0\<rparr>" for st
    using that assms(3,4) empty_cannot_grow [OF assms(2), of "[b]" c]
    by (simp add: format_step_def cat_arg_def set_arg_def filled_def)
  then show "redisvFormatCommand V M True (b # s) ap = Inl UseAfterFree"
    by (simp add: redisvFormatCommand_def new_arg_def c cleanup_def sdsfree_def Let_def)
qed

lemma feed_frees_twice:
  assumes "redisReaderCreate True m0 = Inr (Some r)" "\<not> mem_ok m2" "data \<noteq> []"
  shows "redisReaderFeed m1 m2 fn data r h =
      (if length data \<le> 127 then Inl UseAfterFree
       else Inr (False, r\<lparr>rd_err := Some ERR_OOM, rd_errstr := ''Out of memory'', rd_buf := None\<rparr>, h))"
proof -
  have m0: "mem_ok m0"
    using assms(1) by (auto simp: redisReaderCreate_def redisReaderCreateWithFunctions_def sdsempty_def sdsnewlen_def
        bind_result_Inr_iff split: option.splits if_splits)
  obtain c where c: "sdsempty m0 = Inr (Some \<lparr>sds_type = Type8, sds_len = 0, sds_alloc = 0, sds_chars = c\<rparr>)"
    using sdsempty_header [OF m0] by blast
  have r: "r = \<lparr>rd_err = None, rd_errstr = [], rd_buf = Some \<lparr>sds_type = Type8, sds_len = 0, sds_alloc = 0, sds_chars = c\<rparr>,
      rd_pos = 0, rd_len = 0, rd_maxbuf = 1024 * 16, rd_tasks = [], rd_reply = None\<rparr>"
    using assms(1) c by (simp add: redisReaderCreate_def redisReaderCreateWithFunctions_def)
  show "redisReaderFeed m1 m2 fn data r h =
      (if length data \<le> 127 then Inl UseAfterFree
       else Inr (False, r\<lparr>rd_err := Some ERR_OOM, rd_errstr := ''Out of memory'', rd_buf := None\<rparr>, h))"
    using assms(3) empty_cannot_grow [OF assms(2,3), of c]
    by (simp add: redisReaderFeed_def r sdsavail_def redisReaderSetErrorOOM_def redisReaderSetError_def sdsfree_def)
qed

text \<open>A failing \<open>realloc\<close> makes \<open>hiredis\<close> free a block twice: \<open>sdsMakeRoomFor\<close> frees the string that it could not
  grow, and so do its callers. It happens to a format whose first character does not fit, and to the buffer of a
  new reader that is fed at most 127 bytes; for more bytes the kind of the string changes, the old block is kept and
  the reader reports that there is no memory.\<close>

lemma failed_growth_frees_twice:
  assumes "mem_ok (M 0)" "\<not> mem_ok (M 1)" "b \<noteq> 37" "b \<noteq> 32"
    "redisReaderCreate True m0 = Inr (Some r)" "\<not> mem_ok m2" "data \<noteq> []"
  shows "redisvFormatCommand V M True (b # s) ap = Inl UseAfterFree \<and>
    redisReaderFeed m1 m2 fn data r h =
      (if length data \<le> 127 then Inl UseAfterFree
       else Inr (False, r\<lparr>rd_err := Some ERR_OOM, rd_errstr := ''Out of memory'', rd_buf := None\<rparr>, h))"
  by (rule conjI [OF format_frees_twice [OF assms(1-4)] feed_frees_twice [OF assms(5-7)]])

end
