(* ===== verification/Redis_Manager.thy ===== *)
theory Redis_Manager
  imports User_Manager
begin

text \<open>
  The Redis back end: \<^verbatim>\<open>RedisManager.h\<close>, the packed structs of \<^verbatim>\<open>RedisTaskDefine.h\<close>, and
  \<^verbatim>\<open>CRedisConnEx.h\<close>. \<^verbatim>\<open>PacketManager.cpp\<close> creates the manager and takes its responses, but its call of
  \<open>Run\<close> is commented out. The replies of the Redis server are the argument \<open>redis_lib\<close>.
\<close>

section \<open>Tasks\<close>

datatype RedisTaskID = INVALID | REQUEST_LOGIN | RESPONSE_LOGIN | REQUEST_NOTICE | RESPONSE_NOTICE

fun RedisTaskID_value :: "RedisTaskID \<Rightarrow> u16" where
  "RedisTaskID_value INVALID = 0"
| "RedisTaskID_value REQUEST_LOGIN = 1001"
| "RedisTaskID_value RESPONSE_LOGIN = 1002"
| "RedisTaskID_value REQUEST_NOTICE = 1003"
| "RedisTaskID_value RESPONSE_NOTICE = 1004"

record RedisTask =
  UserIndex :: u32
  TaskID :: RedisTaskID
  DataSize :: u16
  pData :: "bytes option"

definition RedisTask_new :: RedisTask where
  "RedisTask_new = \<lparr>UserIndex = 0, TaskID = INVALID, DataSize = 0, pData = None\<rparr>"

definition MAX_USER_ID_LEN :: nat where "MAX_USER_ID_LEN = 1024"
definition MAX_USER_PW_LEN :: nat where "MAX_USER_PW_LEN = 1024"
definition MAX_CHAT_MSG_SIZE :: nat where "MAX_CHAT_MSG_SIZE = 4096"

text \<open>The structs are packed: a struct is the concatenation of its fields, a \<open>UINT16\<close> little endian.\<close>

record RedisLoginReq =
  req_UserID :: bytes
  req_UserPW :: bytes

record RedisLoginRes =
  res_UserID :: bytes
  res_Result :: u16

record RedisNotice =
  not_UserID :: bytes
  not_Message :: bytes
  not_Result :: u16

definition u16_bytes :: "u16 \<Rightarrow> bytes" where
  "u16_bytes v = [ucast v, ucast (drop_bit 8 v)]"

definition RedisLoginRes_bytes :: "RedisLoginRes \<Rightarrow> bytes" where
  "RedisLoginRes_bytes r = res_UserID r @ u16_bytes (res_Result r)"

definition RedisNotice_bytes :: "RedisNotice \<Rightarrow> bytes" where
  "RedisNotice_bytes r = not_UserID r @ not_Message r @ u16_bytes (not_Result r)"

text \<open>The cast of a task's data to a \<open>RedisLoginReq\<close> and to a \<open>RedisNoticeReq\<close> shows the bytes at the fields' offsets.\<close>

definition offset_UserPW :: nat where "offset_UserPW = MAX_USER_ID_LEN + 1"
definition offset_Message :: nat where "offset_Message = MAX_USER_ID_LEN + 1"

text \<open>A \<open>char\<close> array that becomes a string is read up to its null byte, wherever that is.\<close>

definition c_string :: "nat \<Rightarrow> bytes option \<Rightarrow> bytes result" where
  "c_string offset block =
     (case block of
        None \<Rightarrow> Inl NullDeref
      | Some bs \<Rightarrow>
          if 0 \<in> set (drop offset bs) then Inr (takeWhile (\<lambda>b. b \<noteq> 0) (drop offset bs)) else Inl OutOfBounds)"

section \<open>The connection\<close>

datatype reply_type = REDIS_REPLY_ERROR | REDIS_REPLY_NIL | REDIS_REPLY_OTHER

record redis_reply =
  rr_type :: reply_type
  rr_str :: "bytes option"
  rr_element :: "bytes option list"

record redis_lib =
  lib_connect :: bool
  lib_get :: "bytes \<Rightarrow> redis_reply option"
  lib_publish :: "bytes \<Rightarrow> bytes \<Rightarrow> redis_reply option"
  lib_subscribe :: "bytes \<Rightarrow> redis_reply option"
  lib_reply :: "redis_reply option"

definition CRedisConn_get :: "redis_lib \<Rightarrow> bool \<Rightarrow> bytes \<Rightarrow> bytes option result" where
  "CRedisConn_get L connected key =
     (if \<not> connected then Inr None
      else case lib_get L key of
        None \<Rightarrow> Inl NullDeref
      | Some reply \<Rightarrow>
          (case rr_type reply of
             REDIS_REPLY_ERROR \<Rightarrow> Inr None
           | REDIS_REPLY_NIL \<Rightarrow> Inr None
           | REDIS_REPLY_OTHER \<Rightarrow>
               (case rr_str reply of None \<Rightarrow> Inl NullDeref | Some v \<Rightarrow> Inr (Some v))))"

text \<open>\<open>publish\<close> only prints what goes wrong; with no connection there is no context, and its reply and \<open>errstr\<close> do not exist.\<close>

definition publish :: "redis_lib \<Rightarrow> bool \<Rightarrow> bytes \<Rightarrow> bytes \<Rightarrow> (bytes \<times> bytes) list result" where
  "publish L connected channel message =
     (if \<not> connected then Inl NullDeref
      else case lib_publish L channel message of
        None \<Rightarrow> Inr []
      | Some reply \<Rightarrow> if rr_type reply = REDIS_REPLY_ERROR then Inr [] else Inr [(channel, message)])"

text \<open>\<open>initSubscribe\<close> has no \<open>return\<close> after a reply without error.\<close>

definition initSubscribe :: "redis_lib \<Rightarrow> bool \<Rightarrow> bytes \<Rightarrow> bool result" where
  "initSubscribe L connected channel =
     (if \<not> connected then Inl NullDeref
      else case lib_subscribe L channel of
        None \<Rightarrow> Inr False
      | Some reply \<Rightarrow> if rr_type reply = REDIS_REPLY_ERROR then Inr False else Inl MissingReturn)"

fun subscribe_loop :: "nat \<Rightarrow> bytes option list \<Rightarrow> bytes \<Rightarrow> bytes result" where
  "subscribe_loop i [] message = Inr message"
| "subscribe_loop i (str # rest) message =
     (if i = 1 then (case str of None \<Rightarrow> Inl NullDeref | Some _ \<Rightarrow> subscribe_loop (Suc i) rest message)
      else if i = 2 then (case str of None \<Rightarrow> Inl NullDeref | Some m \<Rightarrow> subscribe_loop (Suc i) rest m)
      else subscribe_loop (Suc i) rest message)"

definition subscribe :: "redis_lib \<Rightarrow> bytes \<Rightarrow> bytes result" where
  "subscribe L message =
     (case lib_reply L of
        None \<Rightarrow> Inr message
      | Some reply \<Rightarrow> subscribe_loop 0 (rr_element reply) message)"

section \<open>The manager\<close>

record redis_manager =
  mConn :: bool
  mConnSub :: bool
  mIsTaskRun :: bool
  mTaskThreads :: nat
  mRequestTask :: "RedisTask list"
  mResponseTask :: "RedisTask list"

definition RedisManager_new :: redis_manager where
  "RedisManager_new = \<lparr>mConn = False, mConnSub = False, mIsTaskRun = False, mTaskThreads = 0,
     mRequestTask = [], mResponseTask = []\<rparr>"

definition RedisManager_Connect :: "redis_lib \<Rightarrow> redis_lib \<Rightarrow> redis_manager \<Rightarrow> bool \<times> redis_manager" where
  "RedisManager_Connect L Lsub rm =
     (let rm1 = rm\<lparr>mConn := lib_connect L\<rparr> in
      if \<not> lib_connect L then (False, rm1)
      else let rm2 = rm1\<lparr>mConnSub := lib_connect Lsub\<rparr> in
        if \<not> lib_connect Lsub then (False, rm2) else (True, rm2))"

definition RedisManager_Run :: "redis_lib \<Rightarrow> redis_lib \<Rightarrow> u32 \<Rightarrow> redis_manager \<Rightarrow> bool \<times> redis_manager" where
  "RedisManager_Run L Lsub threadCount rm =
     (let (connected, rm1) = RedisManager_Connect L Lsub rm in
      if \<not> connected then (False, rm1)
      else (True, rm1\<lparr>mIsTaskRun := True, mTaskThreads := mTaskThreads rm1 + unat threadCount + 1\<rparr>))"

definition RedisManager_End :: "redis_manager \<Rightarrow> redis_manager" where
  "RedisManager_End rm = rm\<lparr>mIsTaskRun := False, mConnSub := False, mTaskThreads := 0\<rparr>"

definition PushTask :: "RedisTask \<Rightarrow> redis_manager \<Rightarrow> redis_manager" where
  "PushTask task rm = rm\<lparr>mRequestTask := mRequestTask rm @ [task]\<rparr>"

definition TakeResponseTask :: "redis_manager \<Rightarrow> RedisTask \<times> redis_manager" where
  "TakeResponseTask rm =
     (case mResponseTask rm of
        [] \<Rightarrow> (RedisTask_new, rm)
      | task # rest \<Rightarrow> (task, rm\<lparr>mResponseTask := rest\<rparr>))"

definition TakeRequestTask :: "redis_manager \<Rightarrow> RedisTask \<times> redis_manager" where
  "TakeRequestTask rm =
     (case mRequestTask rm of
        [] \<Rightarrow> (RedisTask_new, rm)
      | task # rest \<Rightarrow> (task, rm\<lparr>mRequestTask := rest\<rparr>))"

definition PushResponse :: "RedisTask \<Rightarrow> redis_manager \<Rightarrow> redis_manager" where
  "PushResponse task rm = rm\<lparr>mResponseTask := mResponseTask rm @ [task]\<rparr>"

text \<open>
  One round of \<open>TaskProcessThread\<close>: the new manager and what was published. \<open>fresh\<close> is the content of
  the response's \<open>UserID\<close>, which the code does not set.
\<close>

definition login_result :: "redis_lib \<Rightarrow> bool \<Rightarrow> bytes option \<Rightarrow> ERROR_CODE result" where
  "login_result L connected data =
     bind_result (c_string 0 data) (\<lambda>userID.
     bind_result (CRedisConn_get L connected userID) (\<lambda>value.
       case value of
         None \<Rightarrow> Inr LOGIN_USER_INVALID_PW
       | Some v \<Rightarrow> bind_result (c_string offset_UserPW data) (\<lambda>userPW.
           if v = userPW then Inr NONE else Inr NONE)))"

definition login_response :: "bytes \<Rightarrow> u32 \<Rightarrow> ERROR_CODE \<Rightarrow> RedisTask" where
  "login_response fresh userIndex code =
     \<lparr>UserIndex = userIndex, TaskID = RESPONSE_LOGIN, DataSize = of_nat (MAX_USER_ID_LEN + 1 + 2),
      pData = Some (RedisLoginRes_bytes \<lparr>res_UserID = fresh, res_Result = ERROR_CODE_value code\<rparr>)\<rparr>"

definition ch_notice :: bytes where "ch_notice = bytes_of_string ''ch_notice''"

definition TaskProcessThread_round ::
    "redis_lib \<Rightarrow> bytes \<Rightarrow> redis_manager \<Rightarrow> (redis_manager \<times> (bytes \<times> bytes) list) result" where
  "TaskProcessThread_round L fresh rm =
     (let (task, rm1) = TakeRequestTask rm in
      case TaskID task of
        REQUEST_LOGIN \<Rightarrow>
          bind_result (login_result L (mConn rm1) (pData task)) (\<lambda>code.
            Inr (PushResponse (login_response fresh (UserIndex task) code) rm1, []))
      | REQUEST_NOTICE \<Rightarrow>
          bind_result (c_string offset_Message (pData task)) (\<lambda>message.
          bind_result (publish L (mConn rm1) ch_notice message) (\<lambda>out. Inr (rm1, out)))
      | _ \<Rightarrow> Inr (rm1, []))"

text \<open>\<open>SubscribeThread\<close> begins with \<open>initSubscribe\<close>, whose result it does not use.\<close>

definition SubscribeThread_start :: "redis_lib \<Rightarrow> redis_manager \<Rightarrow> redis_manager result" where
  "SubscribeThread_start L rm = bind_result (initSubscribe L (mConnSub rm) ch_notice) (\<lambda>_. Inr rm)"

text \<open>
  One round of \<open>SubscribeThread\<close>. \<open>CopyMemory\<close> takes as many bytes from the message as the field
  has, and the message has its length and a null byte.
\<close>

definition SubscribeThread_round :: "redis_lib \<Rightarrow> bytes \<Rightarrow> bytes \<Rightarrow> redis_manager \<Rightarrow> redis_manager result" where
  "SubscribeThread_round L fresh field rm =
     bind_result (subscribe L []) (\<lambda>message.
     bind_result (copy_into field 0 (message @ [0]) 0 (MAX_CHAT_MSG_SIZE + 1)) (\<lambda>text.
       Inr (PushResponse \<lparr>UserIndex = 0, TaskID = RESPONSE_NOTICE,
         DataSize = of_nat (MAX_USER_ID_LEN + 1 + (MAX_CHAT_MSG_SIZE + 1) + 2),
         pData = Some (RedisNotice_bytes \<lparr>not_UserID = fresh, not_Message = text, not_Result = ERROR_CODE_value NONE\<rparr>)\<rparr> rm)))"

section \<open>The queues\<close>

text \<open>The empty task that an empty queue gives is told from a queued one by its \<open>TaskID\<close>.\<close>

definition taken :: "RedisTask \<times> redis_manager \<Rightarrow> RedisTask option \<times> redis_manager" where
  "taken r = (if TaskID (fst r) = INVALID then None else Some (fst r), snd r)"

interpretation requests: fifo "\<lambda>t rm. Inr (PushTask t rm)" "\<lambda>rm. Inr (taken (TakeRequestTask rm))" mRequestTask "\<lambda>t. t"
    "\<lambda>rm. INVALID \<notin> TaskID ` set (mRequestTask rm)" "\<lambda>t _. TaskID t \<noteq> INVALID"
  by unfold_locales (auto simp: PushTask_def TakeRequestTask_def taken_def RedisTask_new_def)

interpretation responses: fifo "\<lambda>t rm. Inr (PushResponse t rm)" "\<lambda>rm. Inr (taken (TakeResponseTask rm))" mResponseTask "\<lambda>t. t"
    "\<lambda>rm. INVALID \<notin> TaskID ` set (mResponseTask rm)" "\<lambda>t _. TaskID t \<noteq> INVALID"
  by unfold_locales (auto simp: PushResponse_def TakeResponseTask_def taken_def RedisTask_new_def)

text \<open>The packet thread finds nothing in a manager that was never run.\<close>

lemma idle_manager_has_no_response: "taken (TakeResponseTask RedisManager_new) = (None, RedisManager_new)"
  by (simp add: taken_def TakeResponseTask_def RedisManager_new_def RedisTask_new_def)

section \<open>Logins\<close>

definition user_exists :: "redis_lib \<Rightarrow> bytes \<Rightarrow> bool" where
  "user_exists L key \<longleftrightarrow>
     (case lib_get L key of None \<Rightarrow> False | Some reply \<Rightarrow> rr_type reply = REDIS_REPLY_OTHER)"

text \<open>The server answers \<open>GET\<close>, and an answer that is neither an error nor nil has a string.\<close>

definition lib_answers :: "redis_lib \<Rightarrow> bool" where
  "lib_answers L \<longleftrightarrow> (\<forall>key. \<exists>reply. lib_get L key = Some reply \<and>
     (rr_type reply = REDIS_REPLY_OTHER \<longrightarrow> rr_str reply \<noteq> None))"

lemma login_result_eq:
  assumes "lib_answers L" and "c_string 0 data = Inr user" and "c_string offset_UserPW data = Inr pw"
  shows "login_result L True data = Inr (if user_exists L user then NONE else LOGIN_USER_INVALID_PW)"
proof -
  from assms(1) obtain reply where "lib_get L user = Some reply"
    "rr_type reply = REDIS_REPLY_OTHER \<longrightarrow> rr_str reply \<noteq> None"
    unfolding lib_answers_def by blast
  with assms(2,3) show ?thesis
    by (cases "rr_type reply") (auto simp: login_result_def CRedisConn_get_def user_exists_def)
qed

lemma login_round:
  assumes "lib_answers L" and "mConn rm" and "mRequestTask rm = t # ts" and "TaskID t = REQUEST_LOGIN"
    and "c_string 0 (pData t) = Inr user" and "c_string offset_UserPW (pData t) = Inr pw"
  shows "TaskProcessThread_round L fresh rm =
     Inr (PushResponse (login_response fresh (UserIndex t) (if user_exists L user then NONE else LOGIN_USER_INVALID_PW))
       (rm\<lparr>mRequestTask := ts\<rparr>), [])"
  using assms login_result_eq [OF assms(1,5,6)] by (simp add: TaskProcessThread_round_def TakeRequestTask_def)

fun task_rounds :: "redis_lib \<Rightarrow> bytes \<Rightarrow> nat \<Rightarrow> redis_manager \<Rightarrow> redis_manager result" where
  "task_rounds L fresh 0 rm = Inr rm"
| "task_rounds L fresh (Suc n) rm = bind_result (TaskProcessThread_round L fresh rm) (\<lambda>(rm', _). task_rounds L fresh n rm')"

text \<open>A field of a struct that holds a string: the rest of the array is null.\<close>

definition c_field :: "nat \<Rightarrow> bytes \<Rightarrow> bytes" where
  "c_field n s = s @ replicate (n - length s) 0"

lemma c_string_field: "0 \<notin> set s \<Longrightarrow> length s < n \<Longrightarrow> length pre = offset \<Longrightarrow>
    c_string offset (Some (pre @ c_field n s @ rest)) = Inr s"
proof -
  assume s: "0 \<notin> set s" "length s < n" "length pre = offset"
  then obtain k where "n - length s = Suc k" by (cases "n - length s") auto
  moreover have "takeWhile (\<lambda>b. b \<noteq> 0) (s @ 0 # x) = s" for x :: bytes
    using s(1) by (induction s) auto
  ultimately show ?thesis using s(3) by (simp add: c_string_def c_field_def)
qed

definition login_data :: "bytes \<Rightarrow> bytes \<Rightarrow> bytes" where
  "login_data user pw = c_field (MAX_USER_ID_LEN + 1) user @ c_field (MAX_USER_PW_LEN + 1) pw"

lemma login_data_fields:
  assumes "0 \<notin> set user" and "length user \<le> MAX_USER_ID_LEN" and "0 \<notin> set pw" and "length pw \<le> MAX_USER_PW_LEN"
  shows "c_string 0 (Some (login_data user pw)) = Inr user"
    and "c_string offset_UserPW (Some (login_data user pw)) = Inr pw"
  using assms c_string_field [of user "MAX_USER_ID_LEN + 1" "[]" 0]
    c_string_field [of pw "MAX_USER_PW_LEN + 1" "c_field (MAX_USER_ID_LEN + 1) user" offset_UserPW "[]"]
  by (simp_all add: login_data_def offset_UserPW_def c_field_def)

section \<open>Properties\<close>

text \<open>C29: The task thread answers queued logins in order, one response per request and with the request's user index. The
  answer does not depend on the password: a user that Redis knows is accepted with any password, and the code for a wrong
  password is the answer to an unknown user.\<close>

theorem redis_logins_answered:
  assumes "lib_answers L" and "mConn rm" and "mRequestTask rm = map (\<lambda>(i, user, pw).
        \<lparr>UserIndex = i, TaskID = REQUEST_LOGIN, DataSize = 2050, pData = Some (login_data user pw)\<rparr>) logins"
    and "\<forall>(i, user, pw) \<in> set logins. 0 \<notin> set user \<and> length user \<le> MAX_USER_ID_LEN \<and> 0 \<notin> set pw \<and> length pw \<le> MAX_USER_PW_LEN"
  shows "task_rounds L fresh (length logins) rm = Inr (rm\<lparr>mRequestTask := [],
     mResponseTask := mResponseTask rm @ map (\<lambda>(i, user, pw).
       login_response fresh i (if user_exists L user then NONE else LOGIN_USER_INVALID_PW)) logins\<rparr>)"
  using assms
proof (induction logins arbitrary: rm)
  case Nil
  then show ?case by (cases rm) simp
next
  case (Cons x xs)
  obtain i user pw where x: "x = (i, user, pw)" by (cases x)
  let ?t = "\<lparr>UserIndex = i, TaskID = REQUEST_LOGIN, DataSize = 2050, pData = Some (login_data user pw)\<rparr>"
  let ?ts = "map (\<lambda>(i, user, pw). \<lparr>UserIndex = i, TaskID = REQUEST_LOGIN, DataSize = 2050, pData = Some (login_data user pw)\<rparr>) xs"
  have t: "mRequestTask rm = ?t # ?ts" using Cons.prems(3) x by simp
  have f: "c_string 0 (pData ?t) = Inr user" "c_string offset_UserPW (pData ?t) = Inr pw"
    using Cons.prems(4) x by (auto simp: login_data_fields)
  show ?case
    using login_round [OF assms(1) Cons.prems(2) t _ f] Cons.prems(2,4)
      Cons.IH [OF assms(1), of "PushResponse (login_response fresh i (if user_exists L user then NONE else LOGIN_USER_INVALID_PW))
        (rm\<lparr>mRequestTask := ?ts\<rparr>)"] x
    by (simp add: PushResponse_def)
qed

text \<open>The subscriber cannot work. When Redis accepts the subscription, \<open>initSubscribe\<close> ends without its return
  value; and a notice of fewer than 4096 bytes makes the copy of its text read behind the end of the message.\<close>

lemma redis_subscriber_faults:
  assumes "mConnSub rm" and "lib_subscribe L ch_notice = Some reply" and "rr_type reply \<noteq> REDIS_REPLY_ERROR"
    and "subscribe L [] = Inr message" and "length message < MAX_CHAT_MSG_SIZE"
  shows "SubscribeThread_start L rm = Inl MissingReturn \<and> SubscribeThread_round L fresh field rm = Inl OutOfBounds"
  using assms by (simp add: SubscribeThread_start_def initSubscribe_def SubscribeThread_round_def copy_into_def)

subsection \<open>Witnesses\<close>

definition wredis :: redis_lib where
  "wredis = \<lparr>lib_connect = True,
     lib_get = (\<lambda>key. Some (if key = [107, 105, 109] then \<lparr>rr_type = REDIS_REPLY_OTHER, rr_str = Some [49, 50], rr_element = []\<rparr>
       else \<lparr>rr_type = REDIS_REPLY_NIL, rr_str = None, rr_element = []\<rparr>)),
     lib_publish = (\<lambda>_ _. None), lib_subscribe = (\<lambda>_. Some \<lparr>rr_type = REDIS_REPLY_OTHER, rr_str = None, rr_element = []\<rparr>),
     lib_reply = Some \<lparr>rr_type = REDIS_REPLY_OTHER, rr_str = None, rr_element = [Some [], Some ch_notice, Some [104, 105]]\<rparr>\<rparr>"

definition wredis_manager :: redis_manager where
  "wredis_manager = snd (RedisManager_Run wredis wredis 1 RedisManager_new)"

lemma wredis_connected: "mConn wredis_manager" "mConnSub wredis_manager" "mResponseTask wredis_manager = []"
  by (simp_all add: wredis_manager_def RedisManager_Run_def RedisManager_Connect_def RedisManager_new_def wredis_def Let_def)

theorem redis_logins_answered_witness:
  "\<exists>rm. task_rounds wredis [] 2
      (PushTask \<lparr>UserIndex = 1, TaskID = REQUEST_LOGIN, DataSize = 2050, pData = Some (login_data [107, 105, 109] [57])\<rparr>
      (PushTask \<lparr>UserIndex = 0, TaskID = REQUEST_LOGIN, DataSize = 2050, pData = Some (login_data [97] [57])\<rparr> wredis_manager)) = Inr rm \<and>
     mResponseTask rm = [login_response [] 0 LOGIN_USER_INVALID_PW, login_response [] 1 NONE]"
proof -
  let ?rm = "PushTask \<lparr>UserIndex = 1, TaskID = REQUEST_LOGIN, DataSize = 2050, pData = Some (login_data [107, 105, 109] [57])\<rparr>
      (PushTask \<lparr>UserIndex = 0, TaskID = REQUEST_LOGIN, DataSize = 2050, pData = Some (login_data [97] [57])\<rparr> wredis_manager)"
  have a: "lib_answers wredis" by (simp add: lib_answers_def wredis_def)
  have q: "mRequestTask wredis_manager = []"
    by (simp add: wredis_manager_def RedisManager_Run_def RedisManager_Connect_def RedisManager_new_def wredis_def Let_def)
  have z: "(0 :: byte) \<notin> set [97]" "(0 :: byte) \<notin> set [107, 105, 109]" "(0 :: byte) \<notin> set [57]" by code_simp+
  from z have all: "\<forall>(i, user, pw) \<in> set [(0 :: u32, [97 :: byte], [57 :: byte]), (1, [107, 105, 109], [57])].
      0 \<notin> set user \<and> length user \<le> MAX_USER_ID_LEN \<and> 0 \<notin> set pw \<and> length pw \<le> MAX_USER_PW_LEN"
    by (auto simp: MAX_USER_ID_LEN_def MAX_USER_PW_LEN_def)
  have u: "user_exists wredis [107, 105, 109]" "\<not> user_exists wredis [97]"
    by (simp_all add: user_exists_def wredis_def)
  show ?thesis
    using a q u all redis_logins_answered [of wredis ?rm "[(0, [97], [57]), (1, [107, 105, 109], [57])]" "[]"] wredis_connected
    by (simp add: PushTask_def numeral_2_eq_2 del: list.set task_rounds.simps)
qed

end
