(* ===== verification/Hiredis_Context.thy ===== *)
theory Hiredis_Context
  imports Hiredis_Oom Redis_Manager
begin

text \<open>
  A connection to Redis: the synchronous calls of \<^verbatim>\<open>hiredis.c\<close> and \<^verbatim>\<open>net.c\<close> over a socket, and
  \<open>get\<close> of \<^verbatim>\<open>CRedisConn.h\<close> above them. The socket, the allocator and the C library are an environment
  with a world of its own. While a server answers, \<open>get\<close> is the function that \<^verbatim>\<open>Redis_Manager\<close> takes it for.
\<close>

section \<open>The environment\<close>

datatype errno = EWOULDBLOCK | EINTR | ETIMEDOUT | OTHER_ERRNO

text \<open>
  \<open>send\<close> gives its result, \<open>recv\<close> the bytes, of which there are none at the end of the stream, or \<open>None\<close> for -1.
  \<open>env_memory n k\<close> is the allocator's \<open>k\<close>-th answer to the \<open>n\<close>-th function that asks for memory.
\<close>

record 'w env =
  env_send :: "bytes \<Rightarrow> 'w \<Rightarrow> int \<times> 'w"
  env_recv :: "nat \<Rightarrow> 'w \<Rightarrow> bytes option \<times> 'w"
  env_errno :: "'w \<Rightarrow> errno"
  env_strerror :: "'w \<Rightarrow> string"
  env_memory :: "nat \<Rightarrow> nat \<Rightarrow> memory"
  env_strtod :: strtod
  env_vsnprintf :: vsnprintf

text \<open>The context; \<open>cx_block\<close> is the flag \<open>REDIS_BLOCK\<close>, and \<open>cx_ops\<close> counts the functions that asked for memory.\<close>

record 'w redis_context =
  cx_err :: "redis_err option"
  cx_errstr :: string
  cx_block :: bool
  cx_obuf :: sds_ptr
  cx_reader :: "nat redis_reader"
  cx_heap :: reply_heap
  cx_ops :: nat
  cx_world :: 'w

text \<open>The calls that can wait for ever give \<open>None\<close> when the fuel runs out.\<close>

definition bind_outcome :: "'a result option \<Rightarrow> ('a \<Rightarrow> 'b result option) \<Rightarrow> 'b result option" where
  "bind_outcome m f = (case m of None \<Rightarrow> None | Some (Inl e) \<Rightarrow> Some (Inl e) | Some (Inr a) \<Rightarrow> f a)"

lemma bind_outcome_simps [simp]:
  "bind_outcome None f = None" "bind_outcome (Some (Inl e)) f = Some (Inl e)" "bind_outcome (Some (Inr a)) f = f a"
  by (simp_all add: bind_outcome_def)

section \<open>The socket\<close>

text \<open>Without a text the error is that of the last call.\<close>

definition redisSetError :: "'w env \<Rightarrow> redis_err option \<Rightarrow> string option \<Rightarrow> 'w redis_context \<Rightarrow> 'w redis_context result" where
  "redisSetError E type str c =
     (case str of
        Some t \<Rightarrow> Inr (c\<lparr>cx_err := type, cx_errstr := take 127 t\<rparr>)
      | None \<Rightarrow>
          if type \<noteq> Some ERR_IO then Inl CheckFailed
          else Inr (c\<lparr>cx_err := type, cx_errstr := take 127 (env_strerror E (cx_world c))\<rparr>))"

definition redisNetRead :: "'w env \<Rightarrow> nat \<Rightarrow> 'w redis_context \<Rightarrow> (bytes option \<times> 'w redis_context) result" where
  "redisNetRead E bufcap c =
     (let (got, w) = env_recv E bufcap (cx_world c); c1 = c\<lparr>cx_world := w\<rparr> in
      case got of
        None \<Rightarrow>
          if env_errno E w = EWOULDBLOCK \<and> \<not> cx_block c \<or> env_errno E w = EINTR then Inr (Some [], c1)
          else
            bind_result
              (if env_errno E w = ETIMEDOUT \<and> cx_block c then redisSetError E (Some ERR_TIMEOUT) (Some ''recv timeout'') c1
               else redisSetError E (Some ERR_IO) None c1) (\<lambda>c2.
              Inr (None, c2))
      | Some bs \<Rightarrow>
          if bs = [] then
            bind_result (redisSetError E (Some ERR_EOF) (Some ''Server closed the connection'') c1) (\<lambda>c2. Inr (None, c2))
          else Inr (Some bs, c1))"

definition out_buffer :: "'w redis_context \<Rightarrow> sds result" where
  "out_buffer c = (case cx_obuf c of Live s \<Rightarrow> Inr s | Null \<Rightarrow> Inl NullDeref | Freed \<Rightarrow> Inl UseAfterFree)"

definition redisNetWrite :: "'w env \<Rightarrow> 'w redis_context \<Rightarrow> (int \<times> 'w redis_context) result" where
  "redisNetWrite E c =
     bind_result (out_buffer c) (\<lambda>s.
       let (nwritten, w) = env_send E (sds_val s) (cx_world c); c1 = c\<lparr>cx_world := w\<rparr> in
       if nwritten < 0 \<and> \<not> (env_errno E w = EWOULDBLOCK \<and> \<not> cx_block c \<or> env_errno E w = EINTR) then
         bind_result (redisSetError E (Some ERR_IO) None c1) (\<lambda>c2. Inr (-1, c2))
       else Inr (nwritten, c1))"

section \<open>The buffers\<close>

text \<open>The error of the reader becomes the context's.\<close>

definition reader_error :: "'w env \<Rightarrow> 'w redis_context \<Rightarrow> 'w redis_context result" where
  "reader_error E c = redisSetError E (rd_err (cx_reader c)) (Some (rd_errstr (cx_reader c))) c"

definition redisBufferRead :: "'w env \<Rightarrow> 'w redis_context \<Rightarrow> (bool \<times> 'w redis_context) result" where
  "redisBufferRead E c =
     (if cx_err c \<noteq> None then Inr (False, c)
      else bind_result (redisNetRead E (1024 * 16) c) (\<lambda>(got, c1).
        case got of
          None \<Rightarrow> Inr (False, c1)
        | Some bs \<Rightarrow>
            if bs = [] then Inr (True, c1)
            else
              bind_result (redisReaderFeed (env_memory E (cx_ops c1) 0) (env_memory E (cx_ops c1) 1) defaultFunctions bs
                (cx_reader c1) (cx_heap c1)) (\<lambda>(ok, r, h).
              let c2 = c1\<lparr>cx_reader := r, cx_heap := h, cx_ops := cx_ops c1 + 1\<rparr> in
              if ok then Inr (True, c2) else bind_result (reader_error E c2) (\<lambda>c3. Inr (False, c3)))))"

text \<open>The result and \<open>done\<close>; \<open>(signed)sdslen\<close> has 32 bits.\<close>

definition buffer_written :: "'w env \<Rightarrow> int \<Rightarrow> sds \<Rightarrow> 'w redis_context \<Rightarrow> 'w redis_context result" where
  "buffer_written E nwritten s c =
     (if nwritten = 0 then Inr c
      else if nwritten = sint (of_nat (sdslen s) :: int32) then
        bind_result (sdsfree (Live s)) (\<lambda>_.
        bind_result (sdsempty (env_memory E (cx_ops c) 0)) (\<lambda>new.
          Inr (c\<lparr>cx_obuf := (case new of None \<Rightarrow> Null | Some s' \<Rightarrow> Live s'), cx_ops := cx_ops c + 1\<rparr>)))
      else bind_result (sdsrange nwritten (-1) s) (\<lambda>s'. Inr (c\<lparr>cx_obuf := Live s'\<rparr>)))"

definition redisBufferWrite :: "'w env \<Rightarrow> 'w redis_context \<Rightarrow> (bool \<times> bool \<times> 'w redis_context) result" where
  "redisBufferWrite E c =
     (if cx_err c \<noteq> None then Inr (False, False, c)
      else
        bind_result (out_buffer c) (\<lambda>s.
        bind_result
          (if 0 < sdslen s then
             bind_result (redisNetWrite E c) (\<lambda>(nwritten, c1).
               if nwritten < 0 then Inr (False, c1)
               else bind_result (buffer_written E nwritten s c1) (\<lambda>c2. Inr (True, c2)))
           else Inr (True, c)) (\<lambda>(ok, c1).
        if \<not> ok then Inr (False, False, c1)
        else bind_result (out_buffer c1) (\<lambda>s1. Inr (True, sdslen s1 = 0, c1)))))"

section \<open>Replies\<close>

definition redisGetReplyFromReader ::
    "'w env \<Rightarrow> 'w redis_context \<Rightarrow> (bool \<times> nat reply_object option \<times> 'w redis_context) result option" where
  "redisGetReplyFromReader E c =
     bind_outcome
       (redisReaderGetReply (call_fuel (cx_reader c)) (env_strtod E) defaultFunctions True (cx_reader c) (cx_heap c))
       (\<lambda>(ok, reply, r, h).
         let c1 = c\<lparr>cx_reader := r, cx_heap := h\<rparr> in
         Some (if ok then Inr (True, reply, c1)
               else bind_result (reader_error E c1) (\<lambda>c2. Inr (False, None, c2))))"

fun write_loop :: "nat \<Rightarrow> 'w env \<Rightarrow> 'w redis_context \<Rightarrow> (bool \<times> 'w redis_context) result option" where
  "write_loop 0 E c = None"
| "write_loop (Suc n) E c =
     bind_outcome (Some (redisBufferWrite E c)) (\<lambda>(ok, wdone, c1).
       if \<not> ok then Some (Inr (False, c1))
       else if wdone then Some (Inr (True, c1))
       else write_loop n E c1)"

fun read_loop :: "nat \<Rightarrow> 'w env \<Rightarrow> 'w redis_context \<Rightarrow> (bool \<times> nat reply_object option \<times> 'w redis_context) result option" where
  "read_loop 0 E c = None"
| "read_loop (Suc n) E c =
     bind_outcome (Some (redisBufferRead E c)) (\<lambda>(ok, c1).
       if \<not> ok then Some (Inr (False, None, c1))
       else
         bind_outcome (redisGetReplyFromReader E c1) (\<lambda>(ok, aux, c2).
           if \<not> ok then Some (Inr (False, None, c2))
           else if aux = None then read_loop n E c2
           else Some (Inr (True, aux, c2))))"

definition redisGetReply :: "nat \<Rightarrow> 'w env \<Rightarrow> 'w redis_context \<Rightarrow> (bool \<times> nat reply_object option \<times> 'w redis_context) result option" where
  "redisGetReply fuel E c =
     bind_outcome (redisGetReplyFromReader E c) (\<lambda>(ok, aux, c1).
       if \<not> ok then Some (Inr (False, None, c1))
       else if aux = None \<and> cx_block c1 then
         bind_outcome (write_loop fuel E c1) (\<lambda>(ok, c2).
           if \<not> ok then Some (Inr (False, None, c2)) else read_loop fuel E c2)
       else Some (Inr (True, aux, c1)))"

section \<open>Commands\<close>

definition redisAppendCommand :: "'w env \<Rightarrow> bytes \<Rightarrow> nat \<Rightarrow> 'w redis_context \<Rightarrow> (bool \<times> 'w redis_context) result" where
  "redisAppendCommand E cmd len c =
     bind_result (out_buffer c) (\<lambda>s.
     bind_result (sdscatlen (env_memory E (cx_ops c) 0) cmd len s) (\<lambda>(new, old).
       let c1 = c\<lparr>cx_ops := cx_ops c + 1\<rparr> in
       case new of
         None \<Rightarrow>
           bind_result (redisSetError E (Some ERR_OOM) (Some ''Out of memory'') (c1\<lparr>cx_obuf := old\<rparr>)) (\<lambda>c2. Inr (False, c2))
       | Some s' \<Rightarrow> Inr (True, c1\<lparr>cx_obuf := Live s'\<rparr>)))"

text \<open>There is always a command when the length is not one of the two errors.\<close>

definition redisvAppendCommand :: "'w env \<Rightarrow> bytes \<Rightarrow> va_arg list \<Rightarrow> 'w redis_context \<Rightarrow> (bool \<times> 'w redis_context) result" where
  "redisvAppendCommand E format ap c =
     bind_result (redisvFormatCommand (env_vsnprintf E) (env_memory E (cx_ops c)) True format ap) (\<lambda>(len, cmd, live).
       let c1 = c\<lparr>cx_ops := cx_ops c + 1\<rparr> in
       if len = -1 then
         bind_result (redisSetError E (Some ERR_OOM) (Some ''Out of memory'') c1) (\<lambda>c2. Inr (False, c2))
       else if len = -2 then
         bind_result (redisSetError E (Some ERR_OTHER) (Some ''Invalid format string'') c1) (\<lambda>c2. Inr (False, c2))
       else (case cmd of
               None \<Rightarrow> Inl UseAfterFree
             | Some t \<Rightarrow> redisAppendCommand E t (nat len) c1))"

definition redisBlockForReply :: "nat \<Rightarrow> 'w env \<Rightarrow> 'w redis_context \<Rightarrow> (nat reply_object option \<times> 'w redis_context) result option" where
  "redisBlockForReply fuel E c =
     (if cx_block c then
        bind_outcome (redisGetReply fuel E c) (\<lambda>(ok, reply, c1). Some (Inr (if ok then reply else None, c1)))
      else Some (Inr (None, c)))"

definition redisvCommand ::
    "nat \<Rightarrow> 'w env \<Rightarrow> bytes \<Rightarrow> va_arg list \<Rightarrow> 'w redis_context \<Rightarrow> (nat reply_object option \<times> 'w redis_context) result option" where
  "redisvCommand fuel E format ap c =
     bind_outcome (Some (redisvAppendCommand E format ap c)) (\<lambda>(ok, c1).
       if \<not> ok then Some (Inr (None, c1)) else redisBlockForReply fuel E c1)"

section \<open>The connection class\<close>

record 'w redis_conn =
  rc_connected :: bool
  rc_redCtx :: "'w redis_context option"
  rc_errStr :: string

datatype conn_error = ERR_NO_ERROR | ERR_NULL | ERR_NO_CONNECT | ERR_NO_PIVOT | ERR_NO_KEY | ERR_NO_FIELD | ERR_INDEX

fun errDes :: "conn_error \<Rightarrow> string" where
  "errDes ERR_NO_ERROR = ''No error.''"
| "errDes ERR_NULL = ''NULL pointer ''"
| "errDes ERR_NO_CONNECT = ''No connection to the redis server.''"
| "errDes ERR_NO_PIVOT = ''Inser Error,pivot not found.''"
| "errDes ERR_NO_KEY = ''key not found''"
| "errDes ERR_NO_FIELD = ''hash field not found''"
| "errDes ERR_INDEX = ''error index''"

definition redisCmd ::
    "nat \<Rightarrow> 'w env \<Rightarrow> bytes \<Rightarrow> va_arg list \<Rightarrow> 'w redis_conn \<Rightarrow> (nat reply_object option \<times> 'w redis_conn) result option" where
  "redisCmd fuel E format ap conn =
     (case rc_redCtx conn of
        None \<Rightarrow> Some (Inl NullDeref)
      | Some c \<Rightarrow>
          bind_outcome (redisvCommand fuel E format ap c) (\<lambda>(reply, c1). Some (Inr (reply, conn\<lparr>rc_redCtx := Some c1\<rparr>))))"

text \<open>What a reply pointer points at, and a string of it.\<close>

definition reply_node :: "nat reply_object option \<Rightarrow> 'w redis_conn \<Rightarrow> redisReply result" where
  "reply_node reply conn =
     (case (reply, rc_redCtx conn) of
        (Some (Object p), Some c) \<Rightarrow> (case rh_nodes (cx_heap c) p of Some r \<Rightarrow> Inr r | None \<Rightarrow> Inl UseAfterFree)
      | _ \<Rightarrow> Inl NullDeref)"

definition reply_text :: "redisReply \<Rightarrow> bytes result" where
  "reply_text r = (case rp_str r of None \<Rightarrow> Inl NullDeref | Some t \<Rightarrow> c_text t)"

definition getError :: "nat reply_object option \<Rightarrow> 'w redis_conn \<Rightarrow> (bool \<times> 'w redis_conn) result" where
  "getError reply conn =
     (let conn1 = conn\<lparr>rc_errStr := errDes ERR_NO_ERROR\<rparr> in
      if reply = None then Inr (False, conn1\<lparr>rc_errStr := errDes ERR_NULL\<rparr>)
      else
        bind_result (reply_node reply conn1) (\<lambda>r.
          if rp_type r = REPLY_ERROR then
            bind_result (reply_text r) (\<lambda>t. Inr (True, conn1\<lparr>rc_errStr := string_of_bytes t\<rparr>))
          else Inr (False, conn1)))"

definition free_reply :: "nat reply_object option \<Rightarrow> 'w redis_conn \<Rightarrow> 'w redis_conn result" where
  "free_reply reply conn =
     (case (reply, rc_redCtx conn) of
        (Some ob, Some c) \<Rightarrow>
          bind_result (freeReplyObject ob (cx_heap c)) (\<lambda>h. Inr (conn\<lparr>rc_redCtx := Some (c\<lparr>cx_heap := h\<rparr>)\<rparr>))
      | _ \<Rightarrow> Inr conn)"

text \<open>The value is \<open>None\<close> when \<open>get\<close> returns \<open>false\<close>.\<close>

definition conn_get :: "nat \<Rightarrow> 'w env \<Rightarrow> bytes \<Rightarrow> 'w redis_conn \<Rightarrow> (bytes option \<times> 'w redis_conn) result option" where
  "conn_get fuel E key conn =
     (if \<not> rc_connected conn \<or> rc_redCtx conn = None then
        Some (Inr (None, conn\<lparr>rc_errStr := errDes ERR_NO_CONNECT\<rparr>))
      else
        bind_outcome (redisCmd fuel E (bytes_of_string ''GET %s'') [ArgPtr (key @ [0])] conn) (\<lambda>(reply, conn1).
          Some
            (bind_result (getError reply conn1) (\<lambda>(failed, conn2).
             bind_result
               (if failed then Inr (None, conn2)
                else
                  bind_result (reply_node reply conn2) (\<lambda>r.
                    if rp_type r = REPLY_NIL then
                      Inr (None, conn2\<lparr>rc_errStr := errDes ERR_NO_KEY @ '' or '' @ errDes ERR_NO_FIELD\<rparr>)
                    else bind_result (reply_text r) (\<lambda>v. Inr (Some v, conn2)))) (\<lambda>(value, conn3).
             bind_result (free_reply reply conn3) (\<lambda>conn4. Inr (value, conn4)))))))"

end
