(* ===== verification/Redis_Wire.thy ===== *)
theory Redis_Wire
  imports Hiredis_Context
begin

text \<open>
  Requests to Redis over a connection: with a server that answers, a request sends one command, whatever the socket
  takes at a time, reads one reply, however it arrives, and leaves the connection as it was. Without one, \<open>get\<close>
  meets a null pointer.
\<close>

section \<open>One reply\<close>

abbreviation idle_view :: "nat view" where "idle_view \<equiv> Pending [new_task (-1)] None []"

lemma view_more_Nil [simp]: "view_more v [] = v"
  by (cases v) simp_all

lemma apply_outcome_some:
  "apply_outcome fn (c # us) reply s h out = Inr (True, Pending ts' reply' s', h') \<Longrightarrow> us = [] \<or> reply \<noteq> None \<Longrightarrow> reply' \<noteq> None"
  by (erule apply_outcome_reply) blast

lemma stream_step_reply:
  assumes "stream_step sd fn ts reply s h = Inr (True, Pending ts' reply' s', h')" "tl ts = [] \<or> reply \<noteq> None"
  shows "reply' \<noteq> None"
  using assms
  by (auto simp: stream_step_def stream_typed_def stream_fail_def bind_result_Inr_iff
      dest!: apply_outcome_some split: list.splits option.splits)

lemma stream_step_wait:
  assumes "stream_step sd fn ts reply s h = Inr (False, Pending ts' reply' s', h')"
  shows "reply' = reply" "ts = [new_task (-1)] \<Longrightarrow> ts' = [new_task (-1)] \<Longrightarrow> s = []"
  using assms
  by (auto simp: stream_step_def stream_typed_def stream_fail_def bind_result_Inr_iff new_task_def
      dest!: apply_outcome_Wait split: list.splits option.splits)

lemma stream_run_reply:
  assumes "stream_run sd fn ts reply s h = Inr ([], Pending ts' reply' s', h')" "reply \<noteq> None"
  shows "reply' \<noteq> None"
  using assms
proof (induction "step_measure ts s" arbitrary: ts reply s h rule: less_induct)
  case less
  obtain ok w h1 where step: "stream_step sd fn ts reply s h = Inr (ok, w, h1)"
    using less(2) by (subst (asm) stream_run.simps) (auto split: sum.splits prod.splits)
  show ?case
  proof (cases ok)
    case False
    then have "w = Pending ts' reply' s'" using less(2) step by (subst (asm) stream_run.simps) auto
    then show ?thesis using stream_step_wait(1) [of sd fn ts reply s h ts' reply' s'] step False less(3) by simp
  next
    case True
    obtain ts1 reply1 n where w: "w = Pending ts1 reply1 (drop n s)" "step_measure ts1 (drop n s) < step_measure ts s"
      using step True by (auto elim: stream_step_True)
    have "reply1 \<noteq> None" using stream_step_reply [of sd fn ts reply s h ts1 reply1] step True w(1) less(3) by simp
    moreover have "ts1 \<noteq> []" "stream_run sd fn ts1 reply1 (drop n s) h1 = Inr ([], Pending ts' reply' s', h')"
      using less(2) step True w(1) by (subst (asm) stream_run.simps, auto simp: bind_result_Inr_iff split: if_splits)+
    ultimately show ?thesis using less(1) w(2) by blast
  qed
qed

text \<open>A machine that begins and ends between replies, and has given none, has read nothing.\<close>

lemma idle_run:
  assumes "stream_run sd fn [new_task (-1)] None s h = Inr ([], Pending [new_task (-1)] None [], h')"
  shows "s = [] \<and> h' = h"
proof -
  obtain ok w h1 where step: "stream_step sd fn [new_task (-1)] None s h = Inr (ok, w, h1)"
    using assms by (subst (asm) stream_run.simps) (auto split: sum.splits prod.splits)
  show ?thesis
  proof (cases ok)
    case False
    then have w: "w = Pending [new_task (-1)] None []" "h1 = h'"
      using assms step by (subst (asm) stream_run.simps; auto)+
    have "s = []" using stream_step_wait(2) [of sd fn "[new_task (-1)]" None s h "[new_task (-1)]" None "[]"] step False w(1) by simp
    then show ?thesis using step w(2) by (simp add: stream_step_def new_task_def)
  next
    case True
    obtain ts1 reply1 n where w: "w = Pending ts1 reply1 (drop n s)"
      using step True by (auto elim: stream_step_True)
    have "reply1 \<noteq> None" using stream_step_reply [of sd fn "[new_task (-1)]" None s h ts1 reply1] step True w by simp
    moreover have "stream_run sd fn ts1 reply1 (drop n s) h1 = Inr ([], Pending [new_task (-1)] None [], h')"
      using assms step True w by (subst (asm) stream_run.simps) (auto simp: bind_result_Inr_iff split: if_splits)
    ultimately have False using stream_run_reply [of sd fn ts1 reply1 "drop n s" h1] by simp
    then show ?thesis ..
  qed
qed

lemma getReply_error:
  "redisReaderGetReply fuel sd fn want r h = Some (Inr (False, reply, r', h')) \<Longrightarrow> rd_err r' \<noteq> None"
  by (auto simp: redisReaderGetReply_def bind_result_Inr_iff split: if_splits option.splits sum.splits prod.splits)

text \<open>A piece of a stream that holds one reply is fed, and the reader is asked.\<close>

lemma read_piece:
  assumes "reader_ready r" "unread r + length (d @ rest) < 2147482624" "mem_ok m1" "mem_ok m2"
    and total: "resume sd defaultFunctions (view_more (nview r) (d @ rest)) h = Inr ([ob], idle_view, h')"
  shows "\<exists>r1 reply r2 h2. redisReaderFeed m1 m2 defaultFunctions d r h = Inr (True, r1, h) \<and>
    redisReaderGetReply (call_fuel r1) sd defaultFunctions True r1 h = Some (Inr (True, reply, r2, h2)) \<and> reader_ready r2 \<and>
    (case reply of
       Some ob' \<Rightarrow> ob' = ob \<and> rest = [] \<and> nview r2 = idle_view \<and> h2 = h'
     | None \<Rightarrow> rest \<noteq> [] \<and> unread r2 + length rest < 2147482624 \<and>
         resume sd defaultFunctions (view_more (nview r2) rest) h2 = Inr ([ob], idle_view, h'))"
proof -
  let ?fn = defaultFunctions
  have err: "rd_err r = None"
  proof (rule ccontr)
    assume "rd_err r \<noteq> None"
    then show False using total by (auto simp: view_of_def)
  qed
  obtain r1 where feed: "redisReaderFeed m1 m2 ?fn d r h = Inr (True, r1, h)" "reader_ready r1"
    "nview r1 = view_more (nview r) d" "unread r1 \<le> unread r + length d"
    using redisReaderFeed_granted [OF assms(1) _ assms(3,4), of d ?fn h] assms(2) err by auto
  have total1: "resume sd ?fn (view_more (nview r1) rest) h = Inr ([ob], idle_view, h')"
    using total by (simp add: feed(3) nview_more_append)
  have "case nview r1 of Pending ts reply s \<Rightarrow> length (s @ rest) < 2147483648 | _ \<Rightarrow> True"
    using replies.nview_length [of r1] feed(4) assms(2) by (auto split: view.splits)
  then obtain z where z: "resume sd ?fn (nview r1) h = Inr z" using replies.resume_back [OF total1] by blast
  obtain x where x: "redisReaderGetReply (call_fuel r1) sd ?fn True r1 h = Some x"
    "call_refines sd ?fn (resume sd ?fn (nview r1) h) (pending_measure r1) (unread r1) x"
    using redisReaderGetReply_refines [OF feed(2) _ call_fuel_enough [OF feed(2)], of sd ?fn h] feed(4) assms(2) by auto
  obtain ok reply r2 h2 where y: "x = Inr (ok, reply, r2, h2)" using x(2) z by (cases x) auto
  have ready: "reader_ready r2" using x(2) y by simp
  have okr: "\<not> ok \<Longrightarrow> rd_err r2 \<noteq> None" using getReply_error [of "call_fuel r1" sd ?fn True r1 h reply r2 h2] x(1) y by (cases ok) simp_all
  show ?thesis
  proof (cases reply)
    case None
    have run: "resume sd ?fn (nview r1) h = Inr ([], nview r2, h2)" "unread r2 \<le> unread r1" using x(2) y None by simp_all
    have rest: "resume sd ?fn (view_more (nview r2) rest) h2 = Inr ([ob], idle_view, h')"
      using replies.resume_append [OF run(1), of rest] total1 by simp
    have "rest \<noteq> []" using total1 run(1) by auto
    moreover have ok
    proof (rule ccontr)
      assume "\<not> ok"
      then show False using okr rest by (auto simp: view_of_def)
    qed
    ultimately show ?thesis using feed x(1) y None ready rest run(2) assms(2) by (auto intro!: exI [of _ r1] exI [of _ r2])
  next
    case (Some ob')
    have run: "ok" "rd_err r2 = None" "rd_tasks r2 = []" "resume sd ?fn (nview r1) h = prepend [ob'] (resume sd ?fn (nview r2) h2)"
      using x(2) y Some by simp_all
    obtain os v h3 where z3: "resume sd ?fn (nview r2) h2 = Inr (os, v, h3)"
      using run(4) z by (cases "resume sd ?fn (nview r2) h2") auto
    have "prepend (ob' # os) (resume sd ?fn (view_more v rest) h3) = Inr ([ob], idle_view, h')"
      using replies.resume_append [of sd "nview r1" h "ob' # os" v h3 rest] run(4) z3 total1 by simp
    then have "ob' = ob" and more: "resume sd ?fn (view_more (nview r2) rest) h2 = Inr ([], idle_view, h')"
      using replies.resume_append [OF z3, of rest] by (auto simp: prepend_Inr_iff)
    obtain s where s: "nview r2 = Pending [new_task (-1)] (rd_reply r2) s"
      using run(2,3) by (simp add: view_of_def norm_tasks_def)
    have "rd_reply r2 = None" using ready run(2,3) by (simp add: reader_ready_def stack_ready_def)
    then have "s @ rest = []" "h' = h2" using more idle_run [of sd ?fn "s @ rest" h2 h'] by (simp_all add: s)
    then show ?thesis using feed x(1) y Some ready run(1) \<open>ob' = ob\<close> s \<open>rd_reply r2 = None\<close> by auto
  qed
qed

section \<open>The server\<close>

text \<open>
  What the peer has got of a command and what it has still to deliver. A server answers a command when it is complete;
  the socket takes at least one byte and gives at least one when there are some.
\<close>

definition delivered :: "(bytes \<Rightarrow> bytes option) \<Rightarrow> bytes \<Rightarrow> bytes \<times> bytes \<Rightarrow> bytes \<times> bytes" where
  "delivered serve d io =
     (case serve (fst io @ d) of None \<Rightarrow> (fst io @ d, snd io) | Some a \<Rightarrow> ([], snd io @ a))"

definition serves :: "'w env \<Rightarrow> ('w \<Rightarrow> bytes \<times> bytes) \<Rightarrow> (bytes \<Rightarrow> bytes option) \<Rightarrow> bool" where
  "serves E peer serve \<longleftrightarrow>
     (\<forall>bs w. bs \<noteq> [] \<longrightarrow> (\<exists>n w'. env_send E bs w = (int n, w') \<and> 0 < n \<and> n \<le> length bs \<and>
        peer w' = delivered serve (take n bs) (peer w))) \<and>
     (\<forall>cap w. 0 < cap \<and> snd (peer w) \<noteq> [] \<longrightarrow> (\<exists>n w'. env_recv E cap w = (Some (take n (snd (peer w))), w') \<and>
        0 < n \<and> n \<le> cap \<and> peer w' = (fst (peer w), drop n (snd (peer w)))))"

definition answers_command :: "(bytes \<Rightarrow> bytes option) \<Rightarrow> bytes \<Rightarrow> bytes \<Rightarrow> bool" where
  "answers_command serve cmd a \<longleftrightarrow> serve cmd = Some a \<and> (\<forall>p q. p @ q = cmd \<and> q \<noteq> [] \<longrightarrow> serve p = None)"

definition flushed :: "'w redis_context \<Rightarrow> bool" where
  "flushed c \<longleftrightarrow> (\<exists>s. cx_obuf c = Live s \<and> sds_ok s \<and> sds_val s = [])"

text \<open>What the write loop leaves as it is.\<close>

definition same_input :: "'w redis_context \<Rightarrow> 'w redis_context \<Rightarrow> bool" where
  "same_input c c' \<longleftrightarrow> cx_err c' = cx_err c \<and> cx_block c' = cx_block c \<and> cx_reader c' = cx_reader c \<and> cx_heap c' = cx_heap c"

lemma redisBufferWrite_sent:
  assumes "\<forall>n k. mem_ok (env_memory E n k)" "cx_err c = None"
    "cx_obuf c = Live s" "sds_ok s" "sds_val s \<noteq> []" "length (sds_val s) < 2147483648"
    and w: "env_send E (sds_val s) (cx_world c) = (int n, w)" "0 < n" "n \<le> length (sds_val s)"
  shows "\<exists>c'. redisBufferWrite E c = Inr (True, n = length (sds_val s), c') \<and> same_input c c' \<and>
    (\<exists>s'. cx_obuf c' = Live s' \<and> sds_ok s' \<and> sds_val s' = drop n (sds_val s)) \<and> cx_world c' = w"
proof -
  let ?c = "c\<lparr>cx_world := w\<rparr>"
  have len: "sdslen s = length (sds_val s)" using length_sds_val [OF assms(4)] by simp
  have i: "sint (of_nat (sdslen s) :: int32) = int (length (sds_val s))"
    using assms(6) unfolding len by (intro sint_of_nat_small) simp
  have net: "redisNetWrite E c = Inr (int n, ?c)"
    using w(1) by (simp add: redisNetWrite_def out_buffer_def assms(3))
  have "\<exists>c2 s'. buffer_written E (int n) s ?c = Inr c2 \<and> same_input c c2 \<and> cx_world c2 = w \<and> cx_obuf c2 = Live s' \<and>
      sds_ok s' \<and> sds_val s' = drop n (sds_val s)"
  proof (cases "n = length (sds_val s)")
    case True
    obtain s0 where "sdsempty (env_memory E (cx_ops c) 0) = Inr (Some s0)" "sds_ok s0" "sds_val s0 = []"
      using sdsempty_ok [OF assms(1) [rule_format]] by blast
    then show ?thesis using True w(2) i by (simp add: buffer_written_def sdsfree_def same_input_def)
  next
    case False
    obtain s' where "sdsrange (int n) (-1) s = Inr s'" "sds_ok s'" "sds_val s' = drop n (sds_val s)"
      using sdsrange_ok [OF assms(4), of "int n" "-1"] w(3) by (auto simp: sub_range_rest)
    then show ?thesis using False w(2) i by (simp add: buffer_written_def same_input_def assms(3))
  qed
  then obtain c2 s' where c2: "buffer_written E (int n) s ?c = Inr c2" "same_input c c2" "cx_world c2 = w" "cx_obuf c2 = Live s'"
    "sds_ok s'" "sds_val s' = drop n (sds_val s)" by blast
  have "sdslen s' = 0 \<longleftrightarrow> n = length (sds_val s)"
    using length_sds_val [OF c2(5)] c2(6) w(3) by auto
  moreover have "sdslen s > 0" using len assms(5) by simp
  ultimately have "redisBufferWrite E c = Inr (True, n = length (sds_val s), c2)"
    using assms(2,3) net c2(1,4) by (simp add: redisBufferWrite_def out_buffer_def)
  then show ?thesis using w c2 by blast
qed

lemma write_loop_serves:
  assumes "serves E peer serve" "\<forall>n k. mem_ok (env_memory E n k)" "cx_err c = None"
    "cx_obuf c = Live s" "sds_ok s" "sds_val s \<noteq> []" "length (sds_val s) < 2147483648" "length (sds_val s) \<le> fuel"
    "peer (cx_world c) = (inp, out)" "answers_command serve (inp @ sds_val s) a"
  shows "\<exists>c'. write_loop fuel E c = Some (Inr (True, c')) \<and> same_input c c' \<and> flushed c' \<and> peer (cx_world c') = ([], out @ a)"
  using assms(3-)
proof (induction fuel arbitrary: c s inp)
  case (Suc fuel)
  let ?bs = "sds_val s"
  obtain n w where w: "env_send E ?bs (cx_world c) = (int n, w)" "0 < n" "n \<le> length ?bs"
    "peer w = delivered serve (take n ?bs) (peer (cx_world c))"
    using assms(1) Suc.prems(4) unfolding serves_def by blast
  then obtain c1 s1 where c1: "redisBufferWrite E c = Inr (True, n = length ?bs, c1)" "0 < n" "n \<le> length ?bs" "same_input c c1"
    "cx_obuf c1 = Live s1" "sds_ok s1" "sds_val s1 = drop n ?bs"
    "peer (cx_world c1) = delivered serve (take n ?bs) (inp, out)"
    using redisBufferWrite_sent [OF assms(2) Suc.prems(1-5) w(1-3)] Suc.prems(7) by auto
  show ?case
  proof (cases "n = length ?bs")
    case True
    then show ?thesis using c1 Suc.prems(8) by (auto simp: flushed_def delivered_def answers_command_def)
  next
    case False
    have "inp @ ?bs = (inp @ take n ?bs) @ drop n ?bs" "drop n ?bs \<noteq> []" using False c1(3) by simp_all
    then have "serve (inp @ take n ?bs) = None" using Suc.prems(8) unfolding answers_command_def by metis
    then have peer: "peer (cx_world c1) = (inp @ take n ?bs, out)" using c1(8) by (simp add: delivered_def)
    have "\<exists>c'. write_loop fuel E c1 = Some (Inr (True, c')) \<and> same_input c1 c' \<and> flushed c' \<and>
        peer (cx_world c') = ([], out @ a)"
    proof (rule Suc.IH [OF _ c1(5,6) _ _ _ peer])
      show "cx_err c1 = None" using c1(4) Suc.prems(1) by (simp add: same_input_def)
    qed (use c1 False Suc.prems in auto)
    then show ?thesis using c1(1,4) False by (auto simp: same_input_def)
  qed
qed auto

text \<open>What the read loop leaves as it is.\<close>

definition same_output :: "'w redis_context \<Rightarrow> 'w redis_context \<Rightarrow> bool" where
  "same_output c c' \<longleftrightarrow> cx_err c' = cx_err c \<and> cx_block c' = cx_block c \<and> cx_obuf c' = cx_obuf c"

lemma read_loop_serves:
  assumes "serves E peer serve" "\<forall>n k. mem_ok (env_memory E n k)" "cx_err c = None" "reader_ready (cx_reader c)"
    "peer (cx_world c) = (inp, out)" "out \<noteq> []" "unread (cx_reader c) + length out < 2147482624" "length out \<le> fuel"
    "resume (env_strtod E) defaultFunctions (view_more (nview (cx_reader c)) out) (cx_heap c) = Inr ([ob], idle_view, h')"
  shows "\<exists>c'. read_loop fuel E c = Some (Inr (True, Some ob, c')) \<and> same_output c c' \<and> peer (cx_world c') = (inp, []) \<and>
    reader_ready (cx_reader c') \<and> nview (cx_reader c') = idle_view \<and> cx_heap c' = h'"
  using assms(3-)
proof (induction fuel arbitrary: c out)
  case (Suc fuel)
  obtain n w where w: "env_recv E (1024 * 16) (cx_world c) = (Some (take n out), w)" "0 < n" "peer w = (inp, drop n out)"
    using assms(1) Suc.prems(3,4) unfolding serves_def by (metis fst_conv snd_conv zero_less_numeral mult_pos_pos)
  have piece: "out = take n out @ drop n out" "take n out \<noteq> []" using w(2) Suc.prems(4) by simp_all
  let ?m = "env_memory E (cx_ops c)"
  have "\<exists>r1 reply r2 h2. redisReaderFeed (?m 0) (?m 1) defaultFunctions (take n out) (cx_reader c) (cx_heap c) = Inr (True, r1, cx_heap c) \<and>
    redisReaderGetReply (call_fuel r1) (env_strtod E) defaultFunctions True r1 (cx_heap c) = Some (Inr (True, reply, r2, h2)) \<and> reader_ready r2 \<and>
    (case reply of
       Some ob' \<Rightarrow> ob' = ob \<and> drop n out = [] \<and> nview r2 = idle_view \<and> h2 = h'
     | None \<Rightarrow> drop n out \<noteq> [] \<and> unread r2 + length (drop n out) < 2147482624 \<and>
         resume (env_strtod E) defaultFunctions (view_more (nview r2) (drop n out)) h2 = Inr ([ob], idle_view, h'))"
    by (rule read_piece [OF Suc.prems(2) _ assms(2) [rule_format] assms(2) [rule_format]])
      (use Suc.prems(5,7) piece(1) in simp_all)
  then obtain r1 reply r2 h2 where feed: "redisReaderFeed (?m 0) (?m 1) defaultFunctions (take n out) (cx_reader c) (cx_heap c) =
      Inr (True, r1, cx_heap c)"
    and get: "redisReaderGetReply (call_fuel r1) (env_strtod E) defaultFunctions True r1 (cx_heap c) = Some (Inr (True, reply, r2, h2))"
    and r2: "reader_ready r2" "case reply of
       Some ob' \<Rightarrow> ob' = ob \<and> drop n out = [] \<and> nview r2 = idle_view \<and> h2 = h'
     | None \<Rightarrow> drop n out \<noteq> [] \<and> unread r2 + length (drop n out) < 2147482624 \<and>
         resume (env_strtod E) defaultFunctions (view_more (nview r2) (drop n out)) h2 = Inr ([ob], idle_view, h')"
    by blast
  let ?c1 = "c\<lparr>cx_world := w, cx_reader := r1, cx_ops := cx_ops c + 1\<rparr>"
  let ?c2 = "c\<lparr>cx_world := w, cx_reader := r2, cx_heap := h2, cx_ops := cx_ops c + 1\<rparr>"
  have "redisNetRead E (1024 * 16) c = Inr (Some (take n out), c\<lparr>cx_world := w\<rparr>)"
    using w(1) piece(2) by (simp add: redisNetRead_def)
  then have read: "redisBufferRead E c = Inr (True, ?c1)"
    using piece(2) feed Suc.prems(1) by (simp add: redisBufferRead_def)
  have from_reader: "redisGetReplyFromReader E ?c1 = Some (Inr (True, reply, ?c2))"
    using get by (simp add: redisGetReplyFromReader_def)
  show ?case
  proof (cases reply)
    case None
    have "\<exists>c'. read_loop fuel E ?c2 = Some (Inr (True, Some ob, c')) \<and> same_output ?c2 c' \<and> peer (cx_world c') = (inp, []) \<and>
      reader_ready (cx_reader c') \<and> nview (cx_reader c') = idle_view \<and> cx_heap c' = h'"
      by (rule Suc.IH [where out = "drop n out"]) (use Suc.prems(1,4,6) w r2 None in auto)
    then show ?thesis using read from_reader None by (auto simp: same_output_def)
  next
    case (Some ob')
    then show ?thesis using read from_reader r2 w(3) by (auto simp: same_output_def)
  qed
qed auto

section \<open>One command\<close>

text \<open>A connection between two commands.\<close>

definition cx_idle :: "('w \<Rightarrow> bytes \<times> bytes) \<Rightarrow> 'w redis_context \<Rightarrow> bool" where
  "cx_idle peer c \<longleftrightarrow> cx_err c = None \<and> cx_block c \<and> flushed c \<and> reader_ready (cx_reader c) \<and>
     nview (cx_reader c) = idle_view \<and> heap_ok (cx_heap c) \<and> peer (cx_world c) = ([], [])"

definition get_command :: "bytes \<Rightarrow> bytes" where "get_command key = command_text [bytes_of_string ''GET'', key]"

lemma idle_unread: "nview r = idle_view \<Longrightarrow> unread r = 0"
  using replies.nview_length [of r] by simp

lemma idle_reader_no_reply:
  assumes "reader_ready (cx_reader c)" "nview (cx_reader c) = idle_view"
  shows "\<exists>r. redisGetReplyFromReader E c = Some (Inr (True, None, c\<lparr>cx_reader := r\<rparr>)) \<and> reader_ready r \<and> nview r = idle_view"
proof -
  let ?sd = "env_strtod E" and ?h = "cx_heap c" and ?r = "cx_reader c"
  have "stack_ready [new_task (-1)] None" by (simp add: stack_ready_def new_task_def is_aggregate_def)
  then have run: "resume ?sd defaultFunctions (nview ?r) ?h = Inr ([], idle_view, ?h)"
    using stream_run_empty [of "[new_task (-1)]" None ?sd defaultFunctions ?h] by (simp add: assms(2))
  obtain x where x: "redisReaderGetReply (call_fuel ?r) ?sd defaultFunctions True ?r ?h = Some x"
    "call_refines ?sd defaultFunctions (resume ?sd defaultFunctions (nview ?r) ?h) (pending_measure ?r) (unread ?r) x"
    using redisReaderGetReply_refines [OF assms(1) _ call_fuel_enough [OF assms(1)], of ?sd defaultFunctions ?h]
      idle_unread [OF assms(2)] by auto
  obtain ok reply r h where y: "x = Inr (ok, reply, r, h)" using x(2) run by (cases x) auto
  have none: "reply = None" using x(2) y run by (cases reply) (auto simp: prepend_def bind_result_Inr_iff dest!: sym [of "Inr _"])
  then have r: "reader_ready r" "nview r = idle_view" "h = ?h" using x(2) y run by simp_all
  have ok
  proof (rule ccontr)
    assume "\<not> ok"
    then have "rd_err r \<noteq> None" using getReply_error [of "call_fuel ?r" ?sd defaultFunctions True ?r ?h reply r h] x(1) y by simp
    then show False using r(2) by (auto simp: view_of_def)
  qed
  then show ?thesis using x(1) y none r by (auto simp: redisGetReplyFromReader_def)
qed

lemma get_command_format:
  assumes "\<forall>k. mem_ok (M k)" "0 \<notin> set key" "length key < 2 ^ 30"
  shows "redisvFormatCommand V M True (bytes_of_string ''GET %s'') [ArgPtr (key @ [0])] =
    Inr (int (length (get_command key)), Some (get_command key), 1)" "length (get_command key) < 2 ^ 30 + 100"
proof -
  let ?ps = "[Char 71, Char 69, Char 84, Blank, Str key]"
  have f: "format_of ?ps = bytes_of_string ''GET %s''" "args_of ?ps = [ArgPtr (key @ [0])]"
    by (simp_all add: format_of_def args_of_def bytes_of_string_def)
  have w: "words V ?ps = [bytes_of_string ''GET'', key]"
    by (simp add: words_def group_text_def bytes_of_string_def)
  have "length (nat_decimal (length key)) \<le> Suc 9" using assms(3) by (intro length_nat_decimal_le) simp
  then show len: "length (get_command key) < 2 ^ 30 + 100"
    using assms(3) length_nat_decimal_small(1) [of "Suc (Suc 0)"] length_nat_decimal_small(1) [of "Suc (Suc (Suc 0))"]
    by (simp add: get_command_def command_text_def bulk_text_def)
  show "redisvFormatCommand V M True (bytes_of_string ''GET %s'') [ArgPtr (key @ [0])] =
      Inr (int (length (get_command key)), Some (get_command key), 1)"
    using redisvFormatCommand_pieces [of M ?ps V] assms(1,2) len unfolding f w get_command_def [symmetric] by simp
qed

lemma redisvAppendCommand_get:
  assumes "\<forall>n k. mem_ok (env_memory E n k)" "flushed c" "0 \<notin> set key" "length key < 2 ^ 30"
  shows "\<exists>c' s. redisvAppendCommand E (bytes_of_string ''GET %s'') [ArgPtr (key @ [0])] c = Inr (True, c') \<and>
    same_input c c' \<and> cx_world c' = cx_world c \<and> cx_obuf c' = Live s \<and> sds_ok s \<and> sds_val s = get_command key"
proof -
  obtain s0 where s0: "cx_obuf c = Live s0" "sds_ok s0" "sds_val s0 = []" using assms(2) by (auto simp: flushed_def)
  have "\<forall>k. mem_ok (env_memory E (cx_ops c) k)" using assms(1) by simp
  note f = get_command_format [OF this assms(3,4)]
  let ?t = "get_command key" and ?m = "env_memory E (cx_ops c + 1) 0"
  obtain s where s: "sdscatlen ?m ?t (length ?t) s0 = Inr (Some s, Live s)" "sds_ok s" "sds_val s = ?t"
    using sdscatlen_ok [OF s0(2), of "length ?t" ?m ?t] length_sds_val [OF s0(2)] s0(3) f(2) assms(1) by auto
  have "redisAppendCommand E ?t (length ?t) (c\<lparr>cx_ops := cx_ops c + 1\<rparr>) =
      Inr (True, c\<lparr>cx_ops := cx_ops c + 2, cx_obuf := Live s\<rparr>)"
    using s0(1) s(1) by (simp add: redisAppendCommand_def out_buffer_def)
  then show ?thesis using f(1) s(2,3) by (simp add: redisvAppendCommand_def same_input_def)
qed

lemma redisvCommand_get:
  assumes "serves E peer serve" "\<forall>n k. mem_ok (env_memory E n k)" "cx_idle peer c" "0 \<notin> set key" "length key < 2 ^ 30"
    "answers_command serve (get_command key) (encode v)" "resp_ok (env_strtod E) 8 v" "length (encode v) < 2147482624"
    "length (get_command key) \<le> fuel" "length (encode v) \<le> fuel"
  shows "\<exists>c'. redisvCommand fuel E (bytes_of_string ''GET %s'') [ArgPtr (key @ [0])] c =
      Some (Inr (Some (Object (rh_next (cx_heap c))), c')) \<and> cx_idle peer c' \<and>
    rh_next (cx_heap c') = rh_next (cx_heap c) + nodes v \<and> reply_at (rh_nodes (cx_heap c')) (rh_next (cx_heap c)) v \<and>
    (\<forall>a<rh_next (cx_heap c). rh_nodes (cx_heap c') a = rh_nodes (cx_heap c) a)"
proof -
  note idle = assms(3) [unfolded cx_idle_def]
  let ?h = "cx_heap c"
  have "flushed c" using idle by simp
  then obtain c1 s where c1: "redisvAppendCommand E (bytes_of_string ''GET %s'') [ArgPtr (key @ [0])] c = Inr (True, c1)"
    "same_input c c1" "cx_world c1 = cx_world c" "cx_obuf c1 = Live s" "sds_ok s" "sds_val s = get_command key"
    using redisvAppendCommand_get [OF assms(2) _ assms(4,5)] by blast
  have in1: "reader_ready (cx_reader c1)" "nview (cx_reader c1) = idle_view" "cx_heap c1 = ?h" "cx_err c1 = None" "cx_block c1"
    using c1(2) idle by (simp_all add: same_input_def)
  obtain r where r: "redisGetReplyFromReader E c1 = Some (Inr (True, None, c1\<lparr>cx_reader := r\<rparr>))" "reader_ready r"
    "nview r = idle_view"
    using idle_reader_no_reply [OF in1(1,2)] by blast
  let ?c2 = "c1\<lparr>cx_reader := r\<rparr>"
  have cmd: "get_command key \<noteq> []" "length (get_command key) < 2147483648"
    using get_command_format(2) [of "\<lambda>_. granted no_junk" key] assms(4,5)
    by (simp_all add: granted_def get_command_def command_text_def)
  have "\<exists>c3. write_loop fuel E ?c2 = Some (Inr (True, c3)) \<and> same_input ?c2 c3 \<and> flushed c3 \<and>
      peer (cx_world c3) = ([], [] @ encode v)"
    by (rule write_loop_serves [OF assms(1,2), where s = s and inp = "[]"])
      (use in1(4) c1 cmd idle assms(6,9) in simp_all)
  then obtain c3 where c3: "write_loop fuel E ?c2 = Some (Inr (True, c3))" "same_input ?c2 c3" "flushed c3"
    "peer (cx_world c3) = ([], encode v)" by auto
  have in3: "cx_err c3 = None" "cx_block c3" "cx_reader c3 = r" "cx_heap c3 = ?h" using c3(2) in1 by (simp_all add: same_input_def)
  obtain os h' where run: "stream_run (env_strtod E) defaultFunctions [new_task (-1)] None (encode v) ?h =
      Inr (os, Pending [new_task (-1)] None [], h')"
    and h': "heap_ok h'" "rh_next h' = rh_next ?h + nodes v" "replies_at (rh_nodes h') (rh_next ?h) os [v]"
      "\<forall>a<rh_next ?h. rh_nodes h' a = rh_nodes ?h a"
    using values_run [of "[v]" "env_strtod E" ?h] assms(7,8) idle by auto
  have one: "os = [Object (rh_next ?h)] \<and> reply_at (rh_nodes h') (rh_next ?h) v"
  proof (cases os)
    case (Cons o' os')
    then have "address o' = Some (rh_next ?h)" "reply_at (rh_nodes h') (rh_next ?h) v" "elements_at (rh_nodes h') (rh_next ?h + nodes v) (map address os') []"
      using h'(3) by (simp_all add: replies_at_def)
    then show ?thesis using Cons by (cases o'; cases os') (simp_all add: address_def)
  qed (use h'(3) in \<open>simp add: replies_at_def\<close>)
  then have os: "os = [Object (rh_next ?h)]" and at: "reply_at (rh_nodes h') (rh_next ?h) v" by simp_all
  have ne: "encode v \<noteq> []" by (cases v) auto
  have "\<exists>c'. read_loop fuel E c3 = Some (Inr (True, Some (Object (rh_next ?h)), c')) \<and> same_output c3 c' \<and>
      peer (cx_world c') = ([], []) \<and> reader_ready (cx_reader c') \<and> nview (cx_reader c') = idle_view \<and> cx_heap c' = h'"
  proof (rule read_loop_serves [OF assms(1,2) in3(1) _ c3(4) ne])
    show "reader_ready (cx_reader c3)" "length (encode v) \<le> fuel" using in3(3) r(2) assms(10) by simp_all
    show "unread (cx_reader c3) + length (encode v) < 2147482624" using in3(3) idle_unread [OF r(3)] assms(8) by simp
    show "resume (env_strtod E) defaultFunctions (view_more (nview (cx_reader c3)) (encode v)) (cx_heap c3) =
        Inr ([Object (rh_next ?h)], idle_view, h')"
      unfolding in3(3,4) r(3) view_more.simps resume.simps append_Nil using run os by metis
  qed
  then obtain c4 where c4: "read_loop fuel E c3 = Some (Inr (True, Some (Object (rh_next ?h)), c4))" "same_output c3 c4"
    "peer (cx_world c4) = ([], [])" "reader_ready (cx_reader c4)" "nview (cx_reader c4) = idle_view" "cx_heap c4 = h'" by blast
  have "redisvCommand fuel E (bytes_of_string ''GET %s'') [ArgPtr (key @ [0])] c = Some (Inr (Some (Object (rh_next ?h)), c4))"
    using c1(1) in1(5) r(1) c3(1) c4(1) by (simp add: redisvCommand_def redisBlockForReply_def redisGetReply_def)
  moreover have "cx_idle peer c4"
    using c4 c3(3) in3 h'(1) by (simp add: cx_idle_def same_output_def flushed_def)
  ultimately show ?thesis using c4(6) h' at by auto
qed

section \<open>get\<close>

text \<open>What Redis answers to \<open>GET\<close>, and what the model of the manager takes it for: a string ends at its null byte.\<close>

fun get_answer :: "resp \<Rightarrow> redis_reply option" where
  "get_answer (RString s) = Some \<lparr>rr_type = REDIS_REPLY_OTHER, rr_str = Some (takeWhile (\<lambda>b. b \<noteq> 0) s), rr_element = []\<rparr>"
| "get_answer (RStatus s) = Some \<lparr>rr_type = REDIS_REPLY_OTHER, rr_str = Some (takeWhile (\<lambda>b. b \<noteq> 0) s), rr_element = []\<rparr>"
| "get_answer (RError s) = Some \<lparr>rr_type = REDIS_REPLY_ERROR, rr_str = Some (takeWhile (\<lambda>b. b \<noteq> 0) s), rr_element = []\<rparr>"
| "get_answer RNil = Some \<lparr>rr_type = REDIS_REPLY_NIL, rr_str = None, rr_element = []\<rparr>"
| "get_answer _ = None"

definition conn_ready :: "('w \<Rightarrow> bytes \<times> bytes) \<Rightarrow> 'w redis_conn \<Rightarrow> bool" where
  "conn_ready peer conn \<longleftrightarrow> rc_connected conn \<and> (\<exists>c. rc_redCtx conn = Some c \<and> cx_idle peer c)"

definition conn_nodes :: "'w redis_conn \<Rightarrow> nat \<Rightarrow> redisReply option" where
  "conn_nodes conn p = (case rc_redCtx conn of None \<Rightarrow> None | Some c \<Rightarrow> rh_nodes (cx_heap c) p)"

text \<open>A key of the client, and the server that has the value \<open>v\<close> for it.\<close>

definition key_served :: "'w env \<Rightarrow> (bytes \<Rightarrow> bytes option) \<Rightarrow> nat \<Rightarrow> bytes \<Rightarrow> resp \<Rightarrow> bool" where
  "key_served E serve fuel key v \<longleftrightarrow>
     0 \<notin> set key \<and> length key < 2 ^ 30 \<and> answers_command serve (get_command key) (encode v) \<and>
     resp_ok (env_strtod E) 8 v \<and> length (encode v) < 2147482624 \<and>
     length (get_command key) \<le> fuel \<and> length (encode v) \<le> fuel"

lemma c_text_end [simp]: "c_text (s @ [0]) = Inr (takeWhile (\<lambda>b. b \<noteq> 0) s)"
proof -
  have "takeWhile (\<lambda>b. b \<noteq> 0) (s @ [0]) = takeWhile (\<lambda>b. b \<noteq> 0) s" by (induction s) auto
  then show ?thesis by (simp add: c_text_def)
qed

lemma cleared_nodes:
  assumes "heap_ok h" "\<forall>a<rh_next h. rh_nodes h' a = rh_nodes h a" "heap_ok h'" "rh_next h' = rh_next h + n"
  shows "rh_nodes (cleared (rh_next h) n h') = rh_nodes h" "heap_ok (cleared (rh_next h) n h')"
proof -
  have "rh_nodes (cleared (rh_next h) n h') a = rh_nodes h a" for a
    using assms by (cases "a < rh_next h") (auto simp: cleared_def heap_ok_def not_less)
  then show "rh_nodes (cleared (rh_next h) n h') = rh_nodes h" by (rule ext)
  show "heap_ok (cleared (rh_next h) n h')" using assms(3) by (auto simp: cleared_def heap_ok_def)
qed

lemma conn_get_served:
  assumes "serves E peer serve" "\<forall>n k. mem_ok (env_memory E n k)" "conn_ready peer conn" "key_served E serve fuel key v"
    "get_answer v = Some reply" "lib_get L key = Some reply"
  shows "\<exists>x conn'. conn_get fuel E key conn = Some (Inr (x, conn')) \<and> CRedisConn_get L True key = Inr x \<and>
    conn_ready peer conn' \<and> conn_nodes conn' = conn_nodes conn"
proof -
  obtain c where c: "rc_connected conn" "rc_redCtx conn = Some c" "cx_idle peer c" using assms(3) by (auto simp: conn_ready_def)
  note key = assms(4) [unfolded key_served_def]
  let ?h = "cx_heap c" and ?p = "rh_next (cx_heap c)"
  obtain c1 where c1: "redisvCommand fuel E (bytes_of_string ''GET %s'') [ArgPtr (key @ [0])] c = Some (Inr (Some (Object ?p), c1))"
    "cx_idle peer c1" "rh_next (cx_heap c1) = ?p + nodes v" "reply_at (rh_nodes (cx_heap c1)) ?p v"
    "\<forall>a<?p. rh_nodes (cx_heap c1) a = rh_nodes ?h a"
    using redisvCommand_get [OF assms(1,2) c(3), of key v fuel] key by blast
  obtain r where r: "rh_nodes (cx_heap c1) ?p = Some r" "leaf_is v r"
    using c1(4) assms(5) by (cases v) (auto split: option.splits)
  let ?h2 = "cleared ?p (nodes v) (cx_heap c1)"
  have free: "freeReplyObject (Object ?p) (cx_heap c1) = Inr ?h2" using freeReplyObject_ok [OF c1(4)] c1(3) by simp
  have h2: "rh_nodes ?h2 = rh_nodes ?h" "heap_ok ?h2"
    using cleared_nodes [of ?h "cx_heap c1" "nodes v"] c(3) c1(2,3,5) by (auto simp: cx_idle_def)
  have "\<exists>x conn'. conn_get fuel E key conn = Some (Inr (x, conn')) \<and> CRedisConn_get L True key = Inr x \<and>
      rc_connected conn' \<and> rc_redCtx conn' = Some (c1\<lparr>cx_heap := ?h2\<rparr>)"
    using c(1,2) c1(1) r free assms(5,6)
    by (cases v) (auto simp: conn_get_def redisCmd_def getError_def reply_node_def reply_text_def free_reply_def CRedisConn_get_def Let_def)
  then show ?thesis using c c1(2) h2 by (fastforce simp: conn_ready_def cx_idle_def conn_nodes_def flushed_def)
qed

fun conn_gets :: "nat \<Rightarrow> 'w env \<Rightarrow> bytes list \<Rightarrow> 'w redis_conn \<Rightarrow> (bytes option list \<times> 'w redis_conn) result option" where
  "conn_gets fuel E [] conn = Some (Inr ([], conn))"
| "conn_gets fuel E (key # keys) conn =
     bind_outcome (conn_get fuel E key conn) (\<lambda>(v, conn1).
     bind_outcome (conn_gets fuel E keys conn1) (\<lambda>(vs, conn2). Some (Inr (v # vs, conn2))))"

text \<open>C30: While Redis answers, a connection is what the model of the manager takes it for: any number of requests, over
  a socket that takes and gives the bytes in any portions, return in order the values of the store, as \<open>CRedisConn_get\<close>
  does; every reply is freed, and the connection is ready for the next request.\<close>

theorem redis_gets_served:
  assumes "serves E peer serve" "\<forall>n k. mem_ok (env_memory E n k)" "conn_ready peer conn"
    "\<forall>key \<in> set keys. key_served E serve fuel key (store key) \<and> get_answer (store key) \<noteq> None \<and>
       lib_get L key = get_answer (store key)"
  shows "\<exists>vs conn'. conn_gets fuel E keys conn = Some (Inr (vs, conn')) \<and> map (CRedisConn_get L True) keys = map Inr vs \<and>
    conn_ready peer conn' \<and> conn_nodes conn' = conn_nodes conn"
  using assms(3,4)
proof (induction keys arbitrary: conn)
  case (Cons key keys)
  obtain reply where reply: "get_answer (store key) = Some reply" using Cons.prems(2) by auto
  then obtain x conn1 where x: "conn_get fuel E key conn = Some (Inr (x, conn1))" "CRedisConn_get L True key = Inr x"
    "conn_ready peer conn1" "conn_nodes conn1 = conn_nodes conn"
    using conn_get_served [OF assms(1,2) Cons.prems(1) _ reply, of fuel key L] Cons.prems(2) by auto
  then show ?case using Cons.IH [OF x(3)] Cons.prems(2) by auto
qed simp

definition wserve :: "bytes \<Rightarrow> bytes option" where
  "wserve bs =
     (if bs = get_command [107] then Some (encode (RString [49, 0, 50]))
      else if bs = get_command [97] then Some (encode RNil) else None)"

definition wenv :: "(bytes \<times> bytes) env" where
  "wenv = \<lparr>env_send = (\<lambda>bs w. (int (min 5 (length bs)), delivered wserve (take (min 5 (length bs)) bs) w)),
     env_recv = (\<lambda>cap w. (Some (take (min 3 cap) (snd w)), (fst w, drop (min 3 cap) (snd w)))),
     env_errno = (\<lambda>_. OTHER_ERRNO), env_strerror = (\<lambda>_. []), env_memory = (\<lambda>_ _. granted no_junk),
     env_strtod = no_strtod, env_vsnprintf = (\<lambda>_ _. [])\<rparr>"

definition wcontext :: "(bytes \<times> bytes) redis_context" where
  "wcontext = \<lparr>cx_err = None, cx_errstr = [], cx_block = True,
     cx_obuf = (case sdsempty (granted no_junk) of Inr (Some s) \<Rightarrow> Live s | _ \<Rightarrow> Null),
     cx_reader = fresh_reader, cx_heap = fresh_heap, cx_ops = 0, cx_world = ([], [])\<rparr>"

definition wconn :: "(bytes \<times> bytes) redis_conn" where
  "wconn = \<lparr>rc_connected = True, rc_redCtx = Some wcontext, rc_errStr = []\<rparr>"

lemma wcontext_idle: "cx_idle id wcontext"
proof -
  obtain s where "sdsempty (granted no_junk) = Inr (Some s)" "sds_ok s" "sds_val s = []"
    using sdsempty_ok [of "granted no_junk"] by (auto simp: granted_def)
  then show ?thesis
    using fresh_reader_ready [OF fresh_reader_Some]
    by (auto simp: cx_idle_def wcontext_def flushed_def heap_ok_def fresh_heap_def)
qed

lemma wenv_serves: "serves wenv id wserve"
proof -
  have "\<exists>n w'. env_send wenv bs w = (int n, w') \<and> 0 < n \<and> n \<le> length bs \<and> id w' = delivered wserve (take n bs) (id w)"
    if "bs \<noteq> []" for bs w
    using that by (intro exI [of _ "min 5 (length bs)"]) (simp add: wenv_def)
  moreover have "\<exists>n w'. env_recv wenv cap w = (Some (take n (snd (id w))), w') \<and> 0 < n \<and> n \<le> cap \<and>
      id w' = (fst (id w), drop n (snd (id w)))" if "0 < cap" for cap w
    using that by (intro exI [of _ "min 3 cap"]) (simp add: wenv_def)
  ultimately show ?thesis unfolding serves_def by blast
qed

lemma get_command_one: "get_command [b] = [42, 50, 13, 10, 36, 51, 13, 10, 71, 69, 84, 13, 10, 36, 49, 13, 10, b, 13, 10]"
  by (simp add: get_command_def command_text_def bulk_text_def nat_decimal.simps bytes_of_string_def)

lemma wserve_prefix: "p @ q = get_command [b] \<Longrightarrow> q \<noteq> [] \<Longrightarrow> wserve p = None"
proof -
  assume a: "p @ q = get_command [b]" "q \<noteq> []"
  have "length p + length q = 20" using arg_cong [OF a(1), of length] by (simp only: length_append get_command_one) simp
  then have "length p < 20" using a(2) by (cases q) simp_all
  then show "wserve p = None" by (auto simp: wserve_def get_command_one)
qed

theorem redis_gets_served_witness:
  "\<exists>vs conn'. conn_gets 50 wenv [[107], [97]] wconn = Some (Inr (vs, conn')) \<and> map Inr vs = [Inr (Some [49]), Inr None :: bytes option result]"
proof -
  define store :: "bytes \<Rightarrow> resp" where "store key = (if key = [107] then RString [49, 0, 50] else RNil)" for key
  define L where "L = \<lparr>lib_connect = True, lib_get = get_answer \<circ> store, lib_publish = (\<lambda>_ _. None), lib_subscribe = (\<lambda>_. None),
    lib_reply = None\<rparr>"
  have "key_served wenv wserve 50 key (store key) \<and> get_answer (store key) \<noteq> None \<and> lib_get L key = get_answer (store key)"
    if "key \<in> set [[107], [97]]" for key
    using that wserve_prefix
    by (auto simp: key_served_def answers_command_def store_def L_def wserve_def get_command_one nat_decimal.simps int_decimal_def)
  moreover have "conn_ready id wconn" using wcontext_idle by (simp add: conn_ready_def wconn_def)
  moreover have "\<forall>n k. mem_ok (env_memory wenv n k)" by (simp add: wenv_def granted_def)
  ultimately obtain vs conn' where "conn_gets 50 wenv [[107], [97]] wconn = Some (Inr (vs, conn'))"
    "map (CRedisConn_get L True) [[107], [97]] = map Inr vs"
    using redis_gets_served [OF wenv_serves, of wconn "[[107], [97]]" 50 store L] by blast
  moreover have "map (CRedisConn_get L True) [[107], [97]] = [Inr (Some [49]), Inr None]"
    by (simp add: L_def store_def CRedisConn_get_def)
  ultimately show ?thesis by metis
qed

section \<open>A lost connection\<close>

text \<open>The socket still takes bytes or refuses them, but nothing comes back.\<close>

definition lost :: "'w env \<Rightarrow> bool" where
  "lost E \<longleftrightarrow>
     (\<forall>bs w. bs \<noteq> [] \<longrightarrow> fst (env_send E bs w) < 0 \<or> 0 < fst (env_send E bs w) \<and> fst (env_send E bs w) \<le> int (length bs)) \<and>
     (\<forall>cap w. fst (env_recv E cap w) = Some [] \<or>
        fst (env_recv E cap w) = None \<and> env_errno E (snd (env_recv E cap w)) \<noteq> EINTR)"

lemma redisBufferWrite_lost:
  assumes "lost E" "\<forall>n k. mem_ok (env_memory E n k)" "cx_err c = None" "cx_block c"
    "cx_obuf c = Live s" "sds_ok s" "sds_val s \<noteq> []" "length (sds_val s) < 2147483648"
  shows "(\<exists>c'. redisBufferWrite E c = Inr (False, False, c')) \<or>
    (\<exists>c' n s'. redisBufferWrite E c = Inr (True, n = length (sds_val s), c') \<and> cx_err c' = None \<and> cx_block c' \<and> 0 < n \<and>
       n \<le> length (sds_val s) \<and> cx_obuf c' = Live s' \<and> sds_ok s' \<and> sds_val s' = drop n (sds_val s))"
proof -
  obtain n w where w: "env_send E (sds_val s) (cx_world c) = (n, w)" by fastforce
  have len: "sdslen s = length (sds_val s)" using length_sds_val [OF assms(6)] by simp
  show ?thesis
  proof (cases "n < 0")
    case True
    then have "\<exists>m c'. redisNetWrite E c = Inr (m, c') \<and> m < 0"
      using w assms(4,5) by (cases "env_errno E w = EINTR") (simp_all add: redisNetWrite_def out_buffer_def redisSetError_def Let_def)
    then show ?thesis using assms(3,5,7) len by (auto simp: redisBufferWrite_def out_buffer_def)
  next
    case False
    then have n: "0 < n" "n \<le> int (length (sds_val s))" using assms(1,7) w unfolding lost_def by (metis fst_conv)+
    then obtain k where k: "n = int k" "0 < k" "k \<le> length (sds_val s)" by (metis of_nat_0_less_iff of_nat_le_iff zero_less_imp_eq_int)
    obtain c' s' where "redisBufferWrite E c = Inr (True, k = length (sds_val s), c')" "same_input c c'"
      "cx_obuf c' = Live s'" "sds_ok s'" "sds_val s' = drop k (sds_val s)"
      using redisBufferWrite_sent [OF assms(2,3,5-8), of k w] w k by blast
    then show ?thesis
      using k assms(3,4) by (intro disjI2 exI [of _ c'] exI [of _ k] exI [of _ s']) (simp add: same_input_def)
  qed
qed

lemma write_loop_lost:
  assumes "lost E" "\<forall>n k. mem_ok (env_memory E n k)" "cx_err c = None" "cx_block c"
    "cx_obuf c = Live s" "sds_ok s" "sds_val s \<noteq> []" "length (sds_val s) < 2147483648" "length (sds_val s) \<le> fuel"
  shows "\<exists>ok c'. write_loop fuel E c = Some (Inr (ok, c')) \<and> (ok \<longrightarrow> cx_err c' = None \<and> cx_block c')"
  using assms(3-)
proof (induction fuel arbitrary: c s)
  case (Suc fuel)
  consider (stop) c' where "redisBufferWrite E c = Inr (False, False, c')"
    | (more) c' n s' where "redisBufferWrite E c = Inr (True, n = length (sds_val s), c')" "cx_err c' = None" "cx_block c'" "0 < n"
        "n \<le> length (sds_val s)" "cx_obuf c' = Live s'" "sds_ok s'" "sds_val s' = drop n (sds_val s)"
    using redisBufferWrite_lost [OF assms(1,2) Suc.prems(1-6)] by blast
  then show ?case
  proof cases
    case stop
    then show ?thesis by (auto intro!: exI [of _ False])
  next
    case more
    show ?thesis
    proof (cases "n = length (sds_val s)")
      case True
      then show ?thesis using more by (auto intro!: exI [of _ True])
    next
      case False
      then show ?thesis using more Suc.prems(6,7) Suc.IH [OF more(2,3,6,7)] by simp
    qed
  qed
qed simp

lemma read_loop_lost:
  assumes "lost E" "cx_err c = None" "cx_block c" "0 < fuel"
  shows "\<exists>c'. read_loop fuel E c = Some (Inr (False, None, c'))"
proof -
  obtain got w where w: "env_recv E (1024 * 16) (cx_world c) = (got, w)" by fastforce
  then have g: "got = Some [] \<or> got = None \<and> env_errno E w \<noteq> EINTR" using assms(1) unfolding lost_def by (metis fst_conv snd_conv)
  have "\<exists>c'. redisNetRead E (1024 * 16) c = Inr (None, c')"
    using g w assms(3) by (auto simp: redisNetRead_def redisSetError_def Let_def)
  then have "\<exists>c'. redisBufferRead E c = Inr (False, c')" using assms(2) by (auto simp: redisBufferRead_def)
  then show ?thesis using assms(4) by (cases fuel) auto
qed

text \<open>C39: When the connection is lost, a request does not fail: \<open>redisvCommand\<close> returns a null pointer, which
  \<open>_getError\<close> takes for no error, and \<open>get\<close> dereferences it. So does the thread that checks a login.\<close>

theorem lost_connection_faults:
  assumes "lost E" "\<forall>n k. mem_ok (env_memory E n k)" "conn_ready peer conn" "0 \<notin> set key" "length key < 2 ^ 30"
    "length (get_command key) \<le> fuel" "lib_get L key = None" "c_string 0 (pData task) = Inr key"
  shows "conn_get fuel E key conn = Some (Inl NullDeref) \<and> login_result L True (pData task) = Inl NullDeref"
proof -
  obtain c where c: "rc_connected conn" "rc_redCtx conn = Some c" "cx_idle peer c" using assms(3) by (auto simp: conn_ready_def)
  note idle = c(3) [unfolded cx_idle_def]
  have "flushed c" using idle by simp
  then obtain c1 s where c1: "redisvAppendCommand E (bytes_of_string ''GET %s'') [ArgPtr (key @ [0])] c = Inr (True, c1)"
    "same_input c c1" "cx_world c1 = cx_world c" "cx_obuf c1 = Live s" "sds_ok s" "sds_val s = get_command key"
    using redisvAppendCommand_get [OF assms(2) _ assms(4,5)] by blast
  have in1: "reader_ready (cx_reader c1)" "nview (cx_reader c1) = idle_view" "cx_err c1 = None" "cx_block c1"
    using c1(2) idle by (simp_all add: same_input_def)
  obtain r where r: "redisGetReplyFromReader E c1 = Some (Inr (True, None, c1\<lparr>cx_reader := r\<rparr>))"
    using idle_reader_no_reply [OF in1(1,2)] by blast
  have cmd: "get_command key \<noteq> []" "length (get_command key) < 2147483648"
    using get_command_format(2) [of "\<lambda>_. granted no_junk" key] assms(4,5)
    by (simp_all add: granted_def get_command_def command_text_def)
  have "\<exists>ok c2. write_loop fuel E (c1\<lparr>cx_reader := r\<rparr>) = Some (Inr (ok, c2)) \<and> (ok \<longrightarrow> cx_err c2 = None \<and> cx_block c2)"
    by (rule write_loop_lost [OF assms(1,2), where s = s]) (use in1 c1 cmd assms(6) in simp_all)
  then obtain ok c2 where c2: "write_loop fuel E (c1\<lparr>cx_reader := r\<rparr>) = Some (Inr (ok, c2))"
    "ok \<longrightarrow> cx_err c2 = None \<and> cx_block c2" by blast
  have "0 < fuel" using assms(6) cmd(1) by (cases "get_command key") auto
  then have "\<exists>c3. redisGetReply fuel E c1 = Some (Inr (False, None, c3))"
    using r c2 in1(4) read_loop_lost [OF assms(1), of c2 fuel] by (cases ok) (auto simp: redisGetReply_def)
  then have "\<exists>c3. redisvCommand fuel E (bytes_of_string ''GET %s'') [ArgPtr (key @ [0])] c = Some (Inr (None, c3))"
    using c1(1) in1(4) by (auto simp: redisvCommand_def redisBlockForReply_def)
  then have "conn_get fuel E key conn = Some (Inl NullDeref)"
    using c(1,2) by (auto simp: conn_get_def redisCmd_def getError_def reply_node_def Let_def)
  then show ?thesis using assms(7,8) by (simp add: login_result_def CRedisConn_get_def)
qed

theorem lost_connection_faults_witness:
  "conn_get 20 (wenv\<lparr>env_recv := (\<lambda>cap w. (Some [], w))\<rparr>) [107] wconn = Some (Inl NullDeref)"
proof -
  let ?E = "wenv\<lparr>env_recv := (\<lambda>cap w. (Some [], w))\<rparr>"
  have "lost ?E" by (simp add: lost_def wenv_def)
  moreover have "\<forall>n k. mem_ok (env_memory ?E n k)" by (simp add: wenv_def granted_def)
  moreover have "conn_ready id wconn" using wcontext_idle by (simp add: conn_ready_def wconn_def)
  moreover have "c_string 0 (pData (RedisTask_new\<lparr>pData := Some [107, 0]\<rparr>)) = Inr [107]" by (simp add: c_string_def)
  ultimately have "conn_get 20 ?E [107] wconn = Some (Inl NullDeref) \<and>
      login_result (wredis\<lparr>lib_get := \<lambda>_. None\<rparr>) True (pData (RedisTask_new\<lparr>pData := Some [107, 0]\<rparr>)) = Inl NullDeref"
    by (intro lost_connection_faults [where peer = id]) (simp_all add: get_command_one)
  then show ?thesis by simp
qed

text \<open>A signal during \<open>send\<close>: the command fails without an error in the context, and stays in the buffer.\<close>

lemma interrupted_send_no_error:
  assumes "\<forall>n k. mem_ok (env_memory E n k)" "cx_idle peer c" "0 \<notin> set key" "length key < 2 ^ 30" "0 < fuel"
    "\<And>bs w. fst (env_send E bs w) = -1 \<and> env_errno E (snd (env_send E bs w)) = EINTR"
  shows "\<exists>c' s. redisvCommand fuel E (bytes_of_string ''GET %s'') [ArgPtr (key @ [0])] c = Some (Inr (None, c')) \<and>
    cx_err c' = None \<and> cx_obuf c' = Live s \<and> sds_val s = get_command key"
proof -
  note idle = assms(2) [unfolded cx_idle_def]
  have "flushed c" using idle by simp
  then obtain c1 s where c1: "redisvAppendCommand E (bytes_of_string ''GET %s'') [ArgPtr (key @ [0])] c = Inr (True, c1)"
    "same_input c c1" "cx_obuf c1 = Live s" "sds_ok s" "sds_val s = get_command key"
    using redisvAppendCommand_get [OF assms(1) _ assms(3,4)] by blast
  have in1: "reader_ready (cx_reader c1)" "nview (cx_reader c1) = idle_view" "cx_err c1 = None" "cx_block c1"
    using c1(2) idle by (simp_all add: same_input_def)
  obtain r where r: "redisGetReplyFromReader E c1 = Some (Inr (True, None, c1\<lparr>cx_reader := r\<rparr>))"
    using idle_reader_no_reply [OF in1(1,2)] by blast
  obtain w where w: "env_send E (sds_val s) (cx_world c1) = (-1, w)" "env_errno E w = EINTR"
    using assms(6) [of "sds_val s" "cx_world c1"] by (metis prod.collapse)
  have "sds_val s \<noteq> []" using c1(5) by (simp add: get_command_def command_text_def)
  then have "0 < sdslen s" using length_sds_val [OF c1(4), symmetric] by simp
  then have "redisBufferWrite E (c1\<lparr>cx_reader := r\<rparr>) = Inr (False, False, c1\<lparr>cx_reader := r, cx_world := w\<rparr>)"
    using in1(3) c1(3) w by (simp add: redisBufferWrite_def out_buffer_def redisNetWrite_def Let_def)
  then have "write_loop fuel E (c1\<lparr>cx_reader := r\<rparr>) = Some (Inr (False, c1\<lparr>cx_reader := r, cx_world := w\<rparr>))"
    using assms(5) by (cases fuel) simp_all
  then have "redisvCommand fuel E (bytes_of_string ''GET %s'') [ArgPtr (key @ [0])] c =
      Some (Inr (None, c1\<lparr>cx_reader := r, cx_world := w\<rparr>))"
    using c1(1) in1(4) r by (simp add: redisvCommand_def redisBlockForReply_def redisGetReply_def)
  then show ?thesis using in1(3) c1(3,5) by simp
qed

end
