(* ===== verification/Spec2Isabelle.thy ===== *)
theory Spec2Isabelle
  imports Game_Server Wire_Lite Ptr_Refinement Eps_Messages Eps_Packed Redis_Wire
begin

text \<open>
  The main server of \<^verbatim>\<open>CKOnlineGameFinal\<close>, as far as its behaviour can be stated over values.

  \<^bold>\<open>The program.\<close> Players connect over TCP. The network layer
  (\<^verbatim>\<open>Projects/MainServer/ServerNetwork\<close>) owns the sockets and hands received bytes to
  \<^verbatim>\<open>GameServer.h\<close>, which cuts them into packets and queues them with the packet manager
  (\<^verbatim>\<open>PacketManager.h/.cpp\<close>); one thread takes packets out, dispatches on the packet's type name
  and calls the handler that a route (\<^verbatim>\<open>R*.cpp\<close>) has registered. Handlers work on the users
  (\<^verbatim>\<open>User.h\<close>, \<^verbatim>\<open>UserManager.h\<close>), on the MySQL tables (\<^verbatim>\<open>sql/\<close>) and on the
  shop, and answer through the send function of the network layer. A packet is a
  \<^verbatim>\<open>messageHeader\<close> (\<^verbatim>\<open>Packet/messageHeader.pb.*\<close>) with the name, the length and the
  bytes of a message of \<^verbatim>\<open>Packet/item.pb.*\<close>; \<^verbatim>\<open>Packet/PacketUtil.h\<close> builds and opens
  packets over the generated classes and the protobuf headers
  (\<^verbatim>\<open>CppCommon/include/google/protobuf\<close>).

  \<^bold>\<open>The theories.\<close> From the bottom up:

  \<^item> \<open>CK_Prelude\<close>: machine types, faults, the \<open>result\<close> type, checked signed arithmetic.
  \<^item> \<open>Packet_Util\<close>: the length prefix and the copies of \<^verbatim>\<open>PacketUtil.h\<close>;
    \<open>Recv_Framing\<close>: \<^verbatim>\<open>IOCPServer.h\<close> \<open>OnReceive\<close> and the packet reassembly of
    \<^verbatim>\<open>GameServer.h\<close>, refined to a fold over a byte stream.
  \<^item> \<open>Wire_Format\<close>, \<open>Wire_Codec\<close>: varints, tags, sizes and the tag loop of the protobuf headers,
    with the locale \<open>codec\<close> for what a message class promises (serialize, parse, size);
    \<open>Message_Header\<close> (the envelope), \<open>Message_Fields\<close>, \<open>Messages_Item\<close>, \<open>Messages_Player\<close> and
    \<open>Messages_Empty\<close> (the payload classes) interpret it.
  \<^item> \<open>Route_Base\<close>: \<open>GetPacked\<close>/\<open>GetPacket\<close> of \<^verbatim>\<open>Route.h\<close> and \<^verbatim>\<open>PacketUtil.h\<close>, proved
    inverse for every codec.
  \<^item> \<open>Fifo\<close>: the locale of a first-in first-out container; \<open>User\<close>, \<open>User_Manager\<close>,
    \<open>Packet_Manager\<close>: the state of the server's managers, their operations and the refinements to
    inventories, sets of connections and lists of packets.
  \<^item> \<open>Inventory_DB\<close>: the stored procedures of \<^verbatim>\<open>sql/\<close> over their tables.
  \<^item> \<open>Server_State\<close>: the state that the handlers share and what sending does to it;
    \<open>Routes_Player\<close> (\<^verbatim>\<open>RConnection.cpp\<close>, \<^verbatim>\<open>RPing.cpp\<close>, \<^verbatim>\<open>RReplicationPlayer.cpp\<close>),
    \<open>Item_Replies\<close> and \<open>Inventory_Route\<close> (\<^verbatim>\<open>RIenventory.cpp\<close>), \<open>Shop_Route\<close>
    (\<^verbatim>\<open>RShop.cpp\<close>): one definition per handler.
  \<^item> \<open>Server_Loop\<close>: the registration of the routes, a round of the packet thread, and the step
    relation \<open>server_step\<close> in which connections, packets, rounds, resets and write-backs interleave.
  \<^item> \<open>Client_Info\<close> (\<^verbatim>\<open>ClientInfo.h\<close>): one client slot, its send queue and its life cycle;
    \<open>IOCP_Server\<close> (\<^verbatim>\<open>IOCPServer.h\<close>): the worker and accepting threads over the array of slots;
    \<open>Net_Steps\<close>: their interleaving as the step relation \<open>net_step\<close>. A round of a worker is cut where another thread can
    come between (\<open>worker\<close> says where it stands: before \<open>OnConnect\<close>, before \<open>BindRecv\<close>, before the test of
    \<open>CloseSocket\<close>, between the test and \<open>Close\<close>, before \<open>OnClose\<close>), no lock is assumed that the code does not have, and
    a completion consumes an accept, a receive or a send that was posted; \<open>Game_Server\<close>: \<^verbatim>\<open>GameServer.h\<close> and
    \<^verbatim>\<open>main.cpp\<close>, and \<open>program_step\<close>, in which the events of the network drive the server's state.
  \<^item> \<open>Redis_Manager\<close>: \<^verbatim>\<open>RedisManager.h\<close> and the connection class below it; the queues are
    instances of the locale of \<open>Fifo\<close>.
  \<^item> \<open>Hiredis_Sds\<close> (\<^verbatim>\<open>thirdparty/redis/hiredis/sds.c\<close>): the strings below the Redis manager, refined to
    lists; \<open>Hiredis_Read\<close> (\<^verbatim>\<open>read.c\<close>): the reply reader;
    \<open>Hiredis_Text\<close> (lines and decimals), \<open>Hiredis_Stream\<close>, \<open>Hiredis_Chunks\<close>, \<open>Hiredis_Receive\<close>: its
    refinement to a total machine over a byte stream, for any functions that satisfy the laws of the locale
    \<open>object_builder\<close>; \<open>Hiredis_Reply\<close>: the reply objects of \<^verbatim>\<open>hiredis.c\<close>, an interpretation of it;
    \<open>Hiredis_Resp\<close>, \<open>Hiredis_Roundtrip\<close>, \<open>Hiredis_Client\<close>: the values of the protocol, their encoding, and what
    a client gets; \<open>Hiredis_Format\<close>, \<open>Hiredis_Command\<close>: how commands are built from formats and read back;
    \<open>Hiredis_Oom\<close>: formatting with any allocator, and what happens when a string cannot grow;
    \<open>Hiredis_Context\<close>: a connection, from the socket to \<open>get\<close> of \<^verbatim>\<open>CRedisConn.h\<close>, and \<open>Redis_Wire\<close>: while a
    server answers it is what \<open>Redis_Manager\<close> takes it for, and what happens when it is lost.
  \<^item> \<open>Repeated_Field\<close>: the array container of \<^verbatim>\<open>repeated_field.h\<close>, refined to lists over histories of two fields
    that are merged, copied, swapped and moved;
    \<open>Repeated_Ptr\<close>, \<open>Ptr_Refinement\<close>: the container of submessages of \<^verbatim>\<open>repeated_ptr_field.h\<close>
    over a store of objects with owners, refined to lists without leaks; the message classes and strings are
    interpretations of the locale \<open>type_handler\<close>;
    \<open>Wire_Lite\<close>: the scalar types of \<^verbatim>\<open>wire_format_lite.h\<close>, each an interpretation of the locale
    \<open>scalar\<close>, and packed fields.
  \<^item> \<open>Eps_Output\<close>: the output streams of \<^verbatim>\<open>coded_stream.h\<close>, which write to memory; \<open>Eps_Refinement\<close>: the
    locale \<open>out_mode\<close> of what a writer promises, interpreted on an array and on a stream of blocks;
    \<open>Eps_Reference\<close>: an instance of the library below it; \<open>Eps_Messages\<close>: the generated serialisers and
    \<open>CodedOutputStream\<close> as clients of the locale.
  \<^item> \<open>Eps_Input\<close>: the input stream and the parse context of \<^verbatim>\<open>parse_context.h\<close>, which read from
    memory with a slop of 16 bytes behind each buffer; \<open>Eps_Parse\<close>: the parse loop over them agrees with the
    loop over lists, in the locale \<open>stream_class\<close> of a class's \<open>switch\<close>; \<open>Eps_Header\<close>: the envelope class
    as an instance; \<open>Eps_Chunks\<close>: an instance of the library below, over flat input and chunks;
    \<open>Eps_Packed\<close>: packed fields and strings that go on behind the end of a buffer, and limits.

  \<^bold>\<open>Conventions.\<close> C++ integers are words, or an \<open>int\<close> with a range check where an overflow is
  undefined behaviour. A null pointer, an index outside a buffer, a freed block and a signed
  overflow are values of \<open>fault\<close>; every operation that can meet one returns a \<open>result\<close>. A method
  that locks a mutex for its whole body is one step. \<open>static_cast<int>\<close> of a size is a word of 32 bits, and a negative size a
  fault where the code copies. A length that exceeds its buffer and goes to \<open>ParseFromArray\<close> is \<open>OutOfBounds\<close> when the
  first copy of the parser must leave the buffer (up to 16 bytes), and otherwise \<open>LengthBeyondBuffer\<close>, the violated contract of
  the call: how far the parser then reads is not followed. The effects of a handler on the sockets are the
  list of packets that it hands to the send function.

  \<^bold>\<open>Parameters.\<close> \<open>pb_lib\<close> holds the out-of-line functions of the protobuf library (the slow
  paths of the varint readers, the string reader, the UTF-8 check), with \<open>pb_lib_ok\<close> for their
  documented behaviour; the iteration order of an unordered set, the random numbers of the shop and
  the results of the database are arguments. The results of the Winsock calls are the record
  \<open>os_results\<close>, the replies of the Redis server the record \<open>redis_lib\<close>; \<open>strtod\<close> and \<open>vsnprintf\<close> of the C library
  and the answers of the allocator (\<open>memory\<close>, and an oracle for the reply objects) are arguments of the reader and the
  formatter, and the record \<open>env\<close> is what a connection sees of the socket, with \<open>serves\<close> for a server that answers and
  \<open>lost\<close> for one that is gone; \<open>rp_lib\<close> holds the
  functions of \<^verbatim>\<open>repeated_ptr_field.cc\<close>, with \<open>rp_lib_ok\<close> for what the header says of them
  (\<open>DestroyProtos\<close>, which ends a field of submessages, is given by the objects that it deletes; that these are the objects of the
  field, each once, is its law), and
  \<open>eps_lib\<close> those of \<^verbatim>\<open>coded_stream.cc\<close>, with \<open>eps_array_ok\<close> and \<open>eps_stream_ok\<close>;
  \<open>in_lib\<close> holds those of \<^verbatim>\<open>parse_context.cc\<close>, with \<open>in_lib_ok\<close>, and \<open>pb_local\<close> says that a slow
  varint reader looks at no byte behind those that it consumes; the content of newly allocated memory is the
  function \<open>fresh\<close>, of which only the length is assumed.

  \<^bold>\<open>What is shown.\<close> A packet that a client sends reaches its handler whole, however the stream was cut
  (\<open>Recv_Framing\<close>, \<open>Packet_Manager\<close>), and what a handler answers is read back by the same classes
  (\<open>Route_Base\<close>, \<open>Item_Replies\<close>); the handlers are characterised on every branch and refined to inventories
  and purchases; two invariants hold in every reachable state, of the server under \<open>server_step\<close> and of the whole
  program, started by \<open>main\<close>, under \<open>program_step\<close>, both for every interleaving; sends leave a slot in order and once, what is
  posted, opened and closed on a slot is balanced, and a closed slot is offered again. Where the code does not do what it means
  to, the theorem states what it does: the double close, the close that comes before \<open>OnConnect\<close>, the stalled send queue,
  the lost slot, the bytes of an old client read as a new one's. Of the library classes, the envelope behaves as four optional
  fields under every operation and the parser as \<open>MergeImpl\<close>, repeated fields behave as lists, and what the writers write the
  readers read, on lists and in memory.

  \<^bold>\<open>Bounds.\<close> Round trips ask for strings and messages below \<open>2 ^ 31 - 16\<close> bytes, the limit of
  \<open>ReadSize\<close>; a closed slot is offered again while the clock is below \<open>UINT32_MAX\<close>, the value that marks a
  slot in use; element sizes of repeated fields are between 1 and 16 bytes;
  a stream of replies is below \<open>2 ^ 31 - 1024\<close> bytes between two empty buffers, as the reader counts in \<open>int\<close>, and a value nests at most
  eight aggregates.

  \<^bold>\<open>Fuel.\<close> The tag loop and the loop over a repeated field take the number of input bytes as fuel;
  every round consumes at least one, and the round trips hold for that fuel; in memory it takes two more, for the end of
  the input; the loop over a packed field takes the length of the field; the loop of the
  reply reader takes the unread bytes and two more; the loops that write a command and read its reply take the length of
  either, as each round sends or receives a byte. All other loops are
  structural or have a termination proof.

  \<^bold>\<open>Not modelled.\<close> The console loop of \<open>main\<close>; logging; the interleaving of single instructions inside a
  step, such as of two increments of \<open>mClientCnt\<close>; the MySQL connectors (the stored procedures are modelled instead); arenas, reflection, text
  format, maps and extensions of the protobuf library; the refill of its input buffers, a parameter with laws; the client
  in C#; of \<^verbatim>\<open>hiredis\<close> how a socket is opened and closed, the asynchronous and the SSL interface, and what its strings offer and the
  server does not use.
\<close>

end
